(* ===== verification/GoPrelude.thy ===== *)
theory GoPrelude
  imports Main "HOL-Library.Word"
begin

text \<open>
  What every component of the SDK model shares: bytes and byte slices, Go errors as values with
  their wrapping, the results of Go calls that may panic, the big-endian 16-bit integers of
  \<^verbatim>\<open>encoding/binary\<close>, and the generic list lemmas the component proofs rest on.
\<close>

section \<open>Bytes and Go integers\<close>

unbundle bit_operations_syntax

type_synonym byte = "8 word"
type_synonym bytes = "byte list"
type_synonym u16 = "16 word"

named_theorems go_simps \<open>equations that run the Go library operations of the model\<close>
named_theorems wf_intros \<open>well-formedness facts of the component states\<close>

section \<open>Errors\<close>

text \<open>
  A Go error is compared by identity (\<^verbatim>\<open>err == io.EOF\<close>) or through its chain of wrapped errors
  (\<^verbatim>\<open>errors.Is\<close>). The sentinels of package \<^verbatim>\<open>io\<close> are constructors; \<open>ErrNew\<close> is a fresh
  \<^verbatim>\<open>errors.New\<close> or foreign error named by its text; \<open>ErrWrap\<close> is \<^verbatim>\<open>fmt.Errorf("text: %w", err)\<close>;
  \<open>ErrJoin\<close> is \<^verbatim>\<open>errors.Join\<close> of the errors listed; \<open>ErrNested is e\<close> is the \<^verbatim>\<open>nestedError\<close> of
  \<^verbatim>\<open>dns/resolver.go\<close>, which \<^verbatim>\<open>errors.Is\<close> finds under its class \<open>is\<close> and under the errors it wraps.
\<close>

datatype err =
    EOF
  | UnexpectedEOF
  | ShortWrite
  | ShortBuffer
  | ErrNew string
  | ErrWrap string err
  | ErrJoin "err list"
  | ErrNested err err

fun errors_is :: "err \<Rightarrow> err \<Rightarrow> bool" where
  "errors_is (ErrWrap m e) t = (ErrWrap m e = t \<or> errors_is e t)"
| "errors_is (ErrJoin es) t = (ErrJoin es = t \<or> (\<exists>e \<in> set es. errors_is e t))"
| "errors_is (ErrNested i e) t = (ErrNested i e = t \<or> i = t \<or> errors_is e t)"
| "errors_is e t = (e = t)"

lemma errors_is_refl [simp]: "errors_is e e"
  by (cases e) auto

text \<open>\<^verbatim>\<open>errors.Join\<close> of the errors so far, if any, and one more.\<close>

definition join_err :: "err option \<Rightarrow> err \<Rightarrow> err" where
  "join_err r e = ErrJoin (case r of None \<Rightarrow> [e] | Some x \<Rightarrow> [x, e])"

section \<open>Big-endian 16-bit integers\<close>

text \<open>\<^verbatim>\<open>binary.BigEndian.PutUint16\<close> and \<^verbatim>\<open>binary.BigEndian.Uint16\<close>, on the value of the integer.\<close>

definition put_u16 :: "nat \<Rightarrow> bytes" where
  "put_u16 n = [word_of_nat (n div 256), word_of_nat n]"

fun get_u16 :: "bytes \<Rightarrow> nat" where
  "get_u16 (a # b # _) = unat a * 256 + unat b"
| "get_u16 _ = 0"

lemma length_put_u16 [simp]: "length (put_u16 n) = 2"
  by (simp add: put_u16_def)

lemma unat_byte: "unat (word_of_nat n :: byte) = n mod 256"
  by (simp add: unat_of_nat)

lemma get_put_u16 [simp]: "n < 65536 \<Longrightarrow> get_u16 (put_u16 n @ rest) = n"
  by (simp add: put_u16_def unat_byte)

lemma get_put_u16_nil [simp]: "n < 65536 \<Longrightarrow> get_u16 (put_u16 n) = n"
  using get_put_u16 [of n "[]"] by simp

lemma unat_byte_less [simp]: "unat (b :: byte) < 256"
  using unsigned_less [of b, where ?'a = nat] by simp

lemma byte_of_unat: "n mod 256 = unat b \<Longrightarrow> word_of_nat n = (b :: byte)"
  by (simp only: word_unat_eq_iff unat_byte)

lemma get_u16_less: "get_u16 bs < 65536"
proof (cases bs rule: get_u16.cases)
  case (1 a b rest)
  have "unat a < 256" "unat b < 256" by simp_all
  then have "unat a * 256 + unat b < 65536" by arith
  then show ?thesis using 1 by simp
qed simp_all

lemma put_get_u16: "length bs = 2 \<Longrightarrow> put_u16 (get_u16 bs) = bs"
proof -
  assume "length bs = 2"
  then obtain a b where bs: "bs = [a, b]"
    by (metis (no_types, opaque_lifting) One_nat_def Suc_1 length_0_conv length_Suc_conv)
  have lt: "unat b < 256" by simp
  have "(unat a * 256 + unat b) div 256 mod 256 = unat a" by simp
  then have a: "word_of_nat ((unat a * 256 + unat b) div 256) = a" by (rule byte_of_unat)
  have "(unat a * 256 + unat b) mod 256 = unat b" by simp
  then have "word_of_nat (unat a * 256 + unat b) = b" by (rule byte_of_unat)
  then show ?thesis using a bs by (simp add: put_u16_def)
qed

section \<open>Slices\<close>

text \<open>
  \<open>blit off bs xs\<close> is the backing array \<open>xs\<close> after the bytes \<open>bs\<close> were stored at index \<open>off\<close>:
  the effect of \<^verbatim>\<open>copy(xs[off:], bs)\<close> when the bytes fit.
\<close>

definition blit :: "nat \<Rightarrow> 'a list \<Rightarrow> 'a list \<Rightarrow> 'a list" where
  "blit off bs xs = take off xs @ bs @ drop (off + length bs) xs"

definition subslice :: "nat \<Rightarrow> nat \<Rightarrow> 'a list \<Rightarrow> 'a list" where
  "subslice lo hi xs = take (hi - lo) (drop lo xs)"

lemma length_blit [simp]:
  "off + length bs \<le> length xs \<Longrightarrow> length (blit off bs xs) = length xs"
  by (simp add: blit_def)

lemma subslice_drop_take: "subslice lo hi xs = drop lo (take hi xs)"
  by (cases "lo \<le> hi") (simp_all add: subslice_def take_drop)

lemma length_subslice: "hi \<le> length xs \<Longrightarrow> length (subslice lo hi xs) = hi - lo"
  by (simp add: subslice_def)

lemma subslice_blit_same [simp]:
  "off + length bs \<le> length xs \<Longrightarrow> subslice off (off + length bs) (blit off bs xs) = bs"
  by (simp add: subslice_def blit_def)

lemma take_blit_before [simp]:
  "n \<le> off \<Longrightarrow> off + length bs \<le> length xs \<Longrightarrow> take n (blit off bs xs) = take n xs"
  by (simp add: blit_def min_def)

lemma subslice_blit_before:
  "hi \<le> off \<Longrightarrow> off + length bs \<le> length xs \<Longrightarrow> subslice lo hi (blit off bs xs) = subslice lo hi xs"
  by (simp add: subslice_drop_take)

lemma subslice_blit_after:
  assumes "off + length bs \<le> lo" "off + length bs \<le> length xs"
  shows "subslice lo hi (blit off bs xs) = subslice lo hi xs"
proof -
  have "drop lo (blit off bs xs) = drop (lo - (off + length bs)) (drop (off + length bs) xs)"
    using assms by (simp add: blit_def min_def)
  also have "\<dots> = drop lo xs" using assms(1) by simp
  finally show ?thesis by (simp add: subslice_def)
qed

lemma subslice_append:
  assumes "lo \<le> mid" "mid \<le> hi"
  shows "subslice lo mid xs @ subslice mid hi xs = subslice lo hi xs"
proof -
  have "take (mid - lo) (drop lo xs) @ take (hi - mid) (drop (mid - lo) (drop lo xs))
      = take (mid - lo + (hi - mid)) (drop lo xs)"
    by (metis take_add)
  then show ?thesis using assms by (simp add: subslice_def)
qed

section \<open>Generic list facts\<close>

lemma take_take_append_drop: "m \<le> n \<Longrightarrow> take m xs @ drop m (take n xs) = take n xs"
  by (metis append_take_drop_id min.absorb1 take_take)

lemma concat_snoc [simp]: "concat (xss @ [xs]) = concat xss @ xs"
  by simp

lemma length_filter_update:
  "i < length xs \<Longrightarrow> length (filter P (xs[i := y])) + (if P (xs ! i) then 1 else 0)
     = length (filter P xs) + (if P y then 1 else 0)"
proof -
  assume i: "i < length xs"
  have "length (filter P (xs[i := y]))
      = length (filter P (take i xs)) + (if P y then 1 else 0) + length (filter P (drop (Suc i) xs))"
    using i by (simp add: upd_conv_take_nth_drop)
  moreover have "length (filter P xs)
      = length (filter P (take i xs)) + (if P (xs ! i) then 1 else 0) + length (filter P (drop (Suc i) xs))"
    using arg_cong [OF id_take_nth_drop [OF i], of "\<lambda>z. length (filter P z)"] by simp
  ultimately show ?thesis by simp
qed

end
