(* ===== verification/SlicePool.thy ===== *)
theory SlicePool
  imports GoPrelude
begin

text \<open>
  The buffer pool of \<^verbatim>\<open>internal/slicepool\<close>: a \<^verbatim>\<open>sync.Pool\<close> of fixed-size slices and the
  \<^verbatim>\<open>LazySlice\<close> boxes that borrow them. A slab is a heap-allocated slice with its address, so that
  sharing is visible; \<^verbatim>\<open>sync.Pool\<close> may return any free slab, or a new one, and may drop free slabs
  at any time. The lemmas show that borrowed buffers have the pool's length, that no two boxes ever
  hold the same buffer, and that \<^verbatim>\<open>Release\<close> never panics.
\<close>

section \<open>The pool and its boxes\<close>

record slab =
  addr :: nat
  sdata :: bytes

record pool =
  plen :: nat
  free :: "slab list"
  next_addr :: nat

record lazy_slice =
  held :: "slab option"

definition make_pool :: "nat \<Rightarrow> pool" where
  "make_pool n = \<lparr>plen = n, free = [], next_addr = 0\<rparr>"

text \<open>
  \<^verbatim>\<open>Pool.get\<close>: \<^verbatim>\<open>sync.Pool\<close> picks the free slab \<open>i\<close>, or calls \<^verbatim>\<open>New\<close> when there is no such slab.
\<close>

definition pool_get :: "nat \<Rightarrow> pool \<Rightarrow> slab \<times> pool" where
  "pool_get i p =
     (if i < length (free p)
      then (free p ! i, p\<lparr>free := take i (free p) @ drop (Suc i) (free p)\<rparr>)
      else (\<lparr>addr = next_addr p, sdata = replicate (plen p) 0\<rparr>, p\<lparr>next_addr := Suc (next_addr p)\<rparr>))"

text \<open>A panic of the Go program is the left value, with its message.\<close>

definition pool_put :: "slab \<Rightarrow> pool \<Rightarrow> string + pool" where
  "pool_put b p =
     (if length (sdata b) \<noteq> plen p then Inl ''Buffer length mismatch''
      else Inr (p\<lparr>free := b # free p\<rparr>))"

definition new_lazy_slice :: lazy_slice where
  "new_lazy_slice = \<lparr>held = None\<rparr>"

definition acquire :: "nat \<Rightarrow> lazy_slice \<Rightarrow> pool \<Rightarrow> string + (slab \<times> lazy_slice \<times> pool)" where
  "acquire i b p =
     (if held b \<noteq> None then Inl ''buffer already acquired''
      else case pool_get i p of (s, p') \<Rightarrow> Inr (s, b\<lparr>held := Some s\<rparr>, p'))"

definition release :: "lazy_slice \<Rightarrow> pool \<Rightarrow> string + (lazy_slice \<times> pool)" where
  "release b p =
     (case held b of
        None \<Rightarrow> Inr (b, p)
      | Some s \<Rightarrow>
          (case pool_put s p of
             Inl m \<Rightarrow> Inl m
           | Inr p' \<Rightarrow> Inr (b\<lparr>held := None\<rparr>, p')))"

section \<open>Many boxes on one pool\<close>

text \<open>
  The boxes that share a pool, and the steps of the program and of the runtime: a box acquires or
  releases, its holder overwrites the contents, the runtime drops the free slabs of its choice.
\<close>

record arena =
  apool :: pool
  boxes :: "lazy_slice list"

inductive arena_step :: "arena \<Rightarrow> arena \<Rightarrow> bool" where
  do_acquire:
    "k < length (boxes a) \<Longrightarrow> acquire i (boxes a ! k) (apool a) = Inr (s, b, p) \<Longrightarrow>
     arena_step a (a\<lparr>apool := p, boxes := (boxes a)[k := b]\<rparr>)"
| do_release:
    "k < length (boxes a) \<Longrightarrow> release (boxes a ! k) (apool a) = Inr (b, p) \<Longrightarrow>
     arena_step a (a\<lparr>apool := p, boxes := (boxes a)[k := b]\<rparr>)"
| do_fill:
    "k < length (boxes a) \<Longrightarrow> held (boxes a ! k) = Some s \<Longrightarrow> length bs = length (sdata s) \<Longrightarrow>
     arena_step a (a\<lparr>boxes := (boxes a)[k := (boxes a ! k)\<lparr>held := Some (s\<lparr>sdata := bs\<rparr>)\<rparr>]\<rparr>)"
| do_gc:
    "arena_step a (a\<lparr>apool := (apool a)\<lparr>free := filter P (free (apool a))\<rparr>\<rparr>)"

inductive_cases arena_stepE: "arena_step a a'"

definition held_slabs :: "arena \<Rightarrow> slab list" where
  "held_slabs a = List.map_filter held (boxes a)"

definition all_slabs :: "arena \<Rightarrow> slab list" where
  "all_slabs a = free (apool a) @ held_slabs a"

definition arena_inv :: "arena \<Rightarrow> bool" where
  "arena_inv a \<longleftrightarrow>
     distinct (map addr (all_slabs a))
     \<and> (\<forall>s \<in> set (all_slabs a). length (sdata s) = plen (apool a) \<and> addr s < next_addr (apool a))"

inductive arena_reach :: "nat \<Rightarrow> nat \<Rightarrow> arena \<Rightarrow> bool" for n k where
  start: "arena_reach n k \<lparr>apool = make_pool n, boxes = replicate k new_lazy_slice\<rparr>"
| step: "arena_reach n k a \<Longrightarrow> arena_step a a' \<Longrightarrow> arena_reach n k a'"

section \<open>Helper facts\<close>

lemma map_filter_update:
  "k < length xs \<Longrightarrow>
   List.map_filter f (xs[k := y]) =
   List.map_filter f (take k xs) @ List.map_filter f [y] @ List.map_filter f (drop (Suc k) xs)"
  by (simp add: upd_conv_take_nth_drop map_filter_def)

lemma map_filter_split:
  "k < length xs \<Longrightarrow>
   List.map_filter f xs =
   List.map_filter f (take k xs) @ List.map_filter f [xs ! k] @ List.map_filter f (drop (Suc k) xs)"
  using map_filter_update [of k xs f "xs ! k"] by simp

lemma pool_get_cases:
  assumes "pool_get i p = (s, p')"
  obtains (reuse) us vs where "free p = us @ s # vs" "p' = p\<lparr>free := us @ vs\<rparr>"
  | (new) "s = \<lparr>addr = next_addr p, sdata = replicate (plen p) 0\<rparr>" "p' = p\<lparr>next_addr := Suc (next_addr p)\<rparr>"
proof (cases "i < length (free p)")
  case True
  then have "free p = take i (free p) @ s # drop (Suc i) (free p)"
    using assms id_take_nth_drop [OF True] by (simp add: pool_get_def)
  then show ?thesis using True assms reuse by (auto simp: pool_get_def)
next
  case False
  then show ?thesis using assms new by (simp add: pool_get_def)
qed

section \<open>The invariant\<close>

lemma arena_inv_start: "arena_inv \<lparr>apool = make_pool n, boxes = replicate k new_lazy_slice\<rparr>"
proof -
  have "List.map_filter held (replicate k new_lazy_slice) = []"
    by (induction k) (simp_all add: new_lazy_slice_def)
  then show ?thesis by (simp add: arena_inv_def all_slabs_def held_slabs_def make_pool_def)
qed

lemma acquire_inv:
  assumes inv: "arena_inv a" and k: "k < length (boxes a)"
    and acq: "acquire i (boxes a ! k) (apool a) = Inr (s, b, p)"
  shows "arena_inv (a\<lparr>apool := p, boxes := (boxes a)[k := b]\<rparr>)"
proof -
  have none: "held (boxes a ! k) = None" and get: "pool_get i (apool a) = (s, p)"
    and b: "held b = Some s"
    using acq by (auto simp: acquire_def split: if_splits prod.splits)
  note inv' = inv [unfolded arena_inv_def all_slabs_def held_slabs_def map_filter_split [OF k, of held]]
  from get show ?thesis
  proof (cases rule: pool_get_cases)
    case (reuse us vs)
    then show ?thesis using inv' none b k
      by (auto simp: arena_inv_def all_slabs_def held_slabs_def map_filter_update)
  next
    case new
    then show ?thesis using inv' none b k
      by (auto simp: arena_inv_def all_slabs_def held_slabs_def map_filter_update less_SucI)
  qed
qed

lemma release_inv:
  assumes inv: "arena_inv a" and k: "k < length (boxes a)"
    and rel: "release (boxes a ! k) (apool a) = Inr (b, p)"
  shows "arena_inv (a\<lparr>apool := p, boxes := (boxes a)[k := b]\<rparr>)"
proof (cases "held (boxes a ! k)")
  case None
  then have "b = boxes a ! k" "p = apool a" using rel by (auto simp: release_def)
  then show ?thesis using inv by simp
next
  case (Some s)
  then have "b = (boxes a ! k)\<lparr>held := None\<rparr>" "p = (apool a)\<lparr>free := s # free (apool a)\<rparr>"
    using rel by (auto simp: release_def pool_put_def split: if_splits)
  then show ?thesis
    using Some k inv [unfolded arena_inv_def all_slabs_def held_slabs_def map_filter_split [OF k, of held]]
    by (auto simp: arena_inv_def all_slabs_def held_slabs_def map_filter_update)
qed

lemma fill_inv:
  assumes inv: "arena_inv a" and k: "k < length (boxes a)"
    and s: "held (boxes a ! k) = Some s" "length bs = length (sdata s)"
  shows "arena_inv (a\<lparr>boxes := (boxes a)[k := (boxes a ! k)\<lparr>held := Some (s\<lparr>sdata := bs\<rparr>)\<rparr>]\<rparr>)"
  using s k inv [unfolded arena_inv_def all_slabs_def held_slabs_def map_filter_split [OF k, of held]]
  by (auto simp: arena_inv_def all_slabs_def held_slabs_def map_filter_update)

lemma gc_inv: "arena_inv a \<Longrightarrow> arena_inv (a\<lparr>apool := (apool a)\<lparr>free := filter P (free (apool a))\<rparr>\<rparr>)"
  by (auto simp: arena_inv_def all_slabs_def held_slabs_def distinct_map_filter)

lemma arena_step_inv: "arena_step a a' \<Longrightarrow> arena_inv a \<Longrightarrow> arena_inv a'"
  by (erule arena_stepE) (auto simp: acquire_inv release_inv fill_inv gc_inv)

lemma arena_step_frame:
  "arena_step a a' \<Longrightarrow> length (boxes a') = length (boxes a) \<and> plen (apool a') = plen (apool a)"
  by (erule arena_stepE)
    (auto simp: acquire_def release_def pool_put_def pool_get_def
          split: if_splits option.splits sum.splits)

lemma arena_reach_inv: "arena_reach n k a \<Longrightarrow> arena_inv a \<and> length (boxes a) = k \<and> plen (apool a) = n"
proof (induction rule: arena_reach.induct)
  case start
  show ?case using arena_inv_start [of n k] by (simp add: make_pool_def)
next
  case (step a a')
  then show ?case using arena_step_inv arena_step_frame by simp
qed

lemma held_mem: "i < length (boxes a) \<Longrightarrow> held (boxes a ! i) = Some s \<Longrightarrow> s \<in> set (all_slabs a)"
  by (auto simp: all_slabs_def held_slabs_def map_filter_split [of i])

text \<open>A borrowed buffer is never shared, and has the pool's length.\<close>

theorem lazy_slices_disjoint:
  assumes reach: "arena_reach n k a" and ij: "i < k" "j < k" "i \<noteq> j"
    and hi: "held (boxes a ! i) = Some s" and hj: "held (boxes a ! j) = Some t"
  shows "addr s \<noteq> addr t \<and> length (sdata s) = n"
proof -
  have inv: "arena_inv a" and len: "length (boxes a) = k" and pn: "plen (apool a) = n"
    using arena_reach_inv [OF reach] by auto
  have "length (sdata s) = n"
    using inv held_mem [of i a s] hi ij len pn by (simp add: arena_inv_def)
  moreover have "addr u \<noteq> addr v"
    if "p < q" "q < k" "held (boxes a ! p) = Some u" "held (boxes a ! q) = Some v" for p q u v
  proof -
    have "List.map_filter held (drop (Suc p) (boxes a)) =
        List.map_filter held (take (q - Suc p) (drop (Suc p) (boxes a))) @ v
        # List.map_filter held (drop (Suc (q - Suc p)) (drop (Suc p) (boxes a)))"
      using that len map_filter_split [of "q - Suc p" "drop (Suc p) (boxes a)" held] by simp
    then have "v \<in> set (List.map_filter held (drop (Suc p) (boxes a)))" by simp
    then show ?thesis
      using inv that len map_filter_split [of p "boxes a" held]
      by (auto simp: arena_inv_def all_slabs_def held_slabs_def)
  qed
  ultimately show ?thesis
    using ij hi hj by (metis linorder_neqE_nat)
qed

text \<open>Releasing a box never panics.\<close>

theorem release_never_panics:
  assumes "arena_reach n k a" and "i < k"
  shows "\<exists>b p. release (boxes a ! i) (apool a) = Inr (b, p) \<and> held b = None"
proof (cases "held (boxes a ! i)")
  case None
  then show ?thesis by (simp add: release_def)
next
  case (Some s)
  then have "length (sdata s) = plen (apool a)"
    using arena_reach_inv [OF assms(1)] held_mem [of i a s] assms(2) by (auto simp: arena_inv_def)
  then show ?thesis using Some by (simp add: release_def pool_put_def)
qed

section \<open>Witnesses\<close>

definition demo_arena :: arena where
  "demo_arena =
     \<lparr>apool = \<lparr>plen = 2, free = [], next_addr = 2\<rparr>,
      boxes = [\<lparr>held = Some \<lparr>addr = 0, sdata = [0, 0]\<rparr>\<rparr>, \<lparr>held = Some \<lparr>addr = 1, sdata = [0, 0]\<rparr>\<rparr>]\<rparr>"

lemma demo_arena_reach: "arena_reach 2 2 demo_arena"
proof -
  let ?a = "\<lparr>apool = make_pool 2, boxes = replicate 2 new_lazy_slice\<rparr>"
  let ?s = "\<lambda>k. \<lparr>addr = k, sdata = [0, 0]\<rparr>"
  let ?p = "\<lambda>k. \<lparr>plen = 2, free = [], next_addr = k\<rparr>"
  have "acquire 0 (boxes ?a ! 0) (apool ?a) = Inr (?s 0, \<lparr>held = Some (?s 0)\<rparr>, ?p 1)"
    by (simp add: acquire_def pool_get_def new_lazy_slice_def make_pool_def numeral_2_eq_2)
  from step [OF start do_acquire [OF _ this]]
  have r: "arena_reach 2 2 \<lparr>apool = ?p 1, boxes = [\<lparr>held = Some (?s 0)\<rparr>, new_lazy_slice]\<rparr>"
    (is "arena_reach 2 2 ?b") by (simp add: numeral_2_eq_2)
  have "acquire 0 (boxes ?b ! 1) (apool ?b) = Inr (?s 1, \<lparr>held = Some (?s 1)\<rparr>, ?p 2)"
    by (simp add: acquire_def pool_get_def new_lazy_slice_def numeral_2_eq_2)
  from step [OF r do_acquire [OF _ this]] show ?thesis by (simp add: demo_arena_def)
qed

lemma lazy_slices_disjoint_witness:
  "addr \<lparr>addr = 0, sdata = [0, 0]\<rparr> \<noteq> addr \<lparr>addr = 1, sdata = [0, 0]\<rparr>
   \<and> length (sdata \<lparr>addr = 0, sdata = [0, 0]\<rparr>) = 2"
  by (rule lazy_slices_disjoint [OF demo_arena_reach, of 0 1]) (simp_all add: demo_arena_def)

lemma release_never_panics_witness:
  "\<exists>b p. release (boxes demo_arena ! 1) (apool demo_arena) = Inr (b, p) \<and> held b = None"
  by (rule release_never_panics [OF demo_arena_reach]) simp

end
