(* ===== verification/GoIO.thy ===== *)
theory GoIO
  imports GoPrelude
begin

text \<open>
  Package \<^verbatim>\<open>io\<close> as the SDK uses it. An \<^verbatim>\<open>io.Writer\<close> is a function that takes the writer's state and
  the bytes and returns the new state, the number of bytes it took and an error; its contract is
  the locale \<open>go_writer\<close>. The network end of a connection is the concrete writer \<open>sink_write\<close>: it
  logs each call and follows a script of partial writes and errors, so every behaviour that the
  \<^verbatim>\<open>io.Writer\<close> contract allows is the behaviour of some sink. An \<^verbatim>\<open>io.Reader\<close> is a \<open>source\<close>: the list
  of chunks it still has to deliver, each with the error that comes with its last byte.
\<close>

section \<open>Writers\<close>

type_synonym 's writer = "'s \<Rightarrow> bytes \<Rightarrow> 's \<times> nat \<times> err option"

text \<open>
  The contract of \<^verbatim>\<open>io.Writer\<close>: \<^verbatim>\<open>Write\<close> takes a prefix of its argument, appends it to the output,
  and takes all of it unless it returns an error.
\<close>

locale go_writer =
  fixes wr :: "'s writer" and out :: "'s \<Rightarrow> bytes"
  assumes wr_out: "wr s p = (s', n, e) \<Longrightarrow> out s' = out s @ take n p"
    and wr_len: "wr s p = (s', n, e) \<Longrightarrow> n \<le> length p"
    and wr_full: "wr s p = (s', n, None) \<Longrightarrow> n = length p"
begin

lemma wr_ok: "wr s p = (s', n, None) \<Longrightarrow> out s' = out s @ p"
  using wr_out wr_full by fastforce

end

text \<open>A writer that, in the states \<open>good\<close>, does not fail: a connection that stays up.\<close>

locale reliable_writer = go_writer wr out
  for wr :: "'s writer" and out :: "'s \<Rightarrow> bytes" +
  fixes good :: "'s \<Rightarrow> bool"
  assumes good_ok: "good s \<Longrightarrow> \<exists>s'. good s' \<and> wr s p = (s', length p, None)"

text \<open>
  A client that calls \<^verbatim>\<open>Write\<close> once per chunk and gives up at the first error: the number of bytes
  the writer took, and the error.
\<close>

fun write_all :: "'s writer \<Rightarrow> 's \<Rightarrow> bytes list \<Rightarrow> 's \<times> nat \<times> err option" where
  "write_all wr s [] = (s, 0, None)"
| "write_all wr s (p # ps) =
     (case wr s p of
        (s', n, Some e) \<Rightarrow> (s', n, Some e)
      | (s', n, None) \<Rightarrow> (case write_all wr s' ps of (s'', m, e) \<Rightarrow> (s'', n + m, e)))"

context go_writer
begin

lemma write_all_out:
  "write_all wr s ps = (s', n, e) \<Longrightarrow>
   out s' = out s @ take n (concat ps) \<and> n \<le> length (concat ps)
   \<and> (e = None \<longrightarrow> n = length (concat ps))"
proof (induction ps arbitrary: s s' n e)
  case Nil
  then show ?case by simp
next
  case (Cons p ps)
  obtain s1 m e1 where w: "wr s p = (s1, m, e1)" by (metis prod_cases3)
  show ?case
  proof (cases e1)
    case None
    obtain s2 k e2 where r: "write_all wr s1 ps = (s2, k, e2)" by (metis prod_cases3)
    have "m = length p" "out s1 = out s @ p"
      using w None wr_full wr_ok by auto
    moreover have "out s2 = out s1 @ take k (concat ps) \<and> k \<le> length (concat ps)
        \<and> (e2 = None \<longrightarrow> k = length (concat ps))"
      by (rule Cons.IH [OF r])
    ultimately show ?thesis using Cons.prems w None r by auto
  next
    case (Some x)
    have "m \<le> length p" "out s1 = out s @ take m p"
      using w wr_len wr_out by auto
    then show ?thesis using Cons.prems w Some by auto
  qed
qed

end

text \<open>
  \<^verbatim>\<open>bytes.Buffer.WriteTo\<close>: one \<^verbatim>\<open>Write\<close> of the whole buffer, none when it is empty; the bytes that
  were not taken stay in the buffer.
\<close>

definition buffer_write_to :: "'s writer \<Rightarrow> 's \<Rightarrow> bytes \<Rightarrow> 's \<times> nat \<times> bytes \<times> err option" where
  "buffer_write_to wr s b =
     (if b = [] then (s, 0, [], None)
      else case wr s b of
             (s', n, Some e) \<Rightarrow> (s', n, drop n b, Some e)
           | (s', n, None) \<Rightarrow>
               (s', n, drop n b, if n \<noteq> length b then Some ShortWrite else None))"

context go_writer
begin

lemma buffer_write_to_out:
  assumes "buffer_write_to wr s b = (s', n, b', e)"
  shows "out s' = out s @ take n b" and "n \<le> length b" and "b' = drop n b"
    and "e = None \<Longrightarrow> n = length b"
proof -
  obtain s1 m e1 where w: "wr s b = (s1, m, e1)" by (metis prod_cases3)
  note facts = wr_out [OF w] wr_len [OF w]
  have full: "e1 = None \<Longrightarrow> m = length b" using w wr_full by blast
  show "out s' = out s @ take n b" and "n \<le> length b" and "b' = drop n b"
    and "e = None \<Longrightarrow> n = length b"
    using assms w facts full
    by (auto simp: buffer_write_to_def split: if_splits option.splits)
qed

end

subsection \<open>The sink: the network end of a connection\<close>

datatype wresp = WOk | WFail nat err

record sink =
  sent :: "bytes list"
  script :: "wresp list"

fun sink_write :: "sink writer" where
  "sink_write s p =
     (case script s of
        [] \<Rightarrow> (s\<lparr>sent := sent s @ [p]\<rparr>, length p, None)
      | WOk # r \<Rightarrow> (s\<lparr>sent := sent s @ [p], script := r\<rparr>, length p, None)
      | WFail k e # r \<Rightarrow>
          (s\<lparr>sent := sent s @ [take k p], script := r\<rparr>, min k (length p), Some e))"

text \<open>The byte stream that left the connection; \<open>sent\<close> keeps the boundaries of the calls.\<close>

definition wire :: "sink \<Rightarrow> bytes" where
  "wire s = concat (sent s)"

definition healthy :: "sink \<Rightarrow> bool" where
  "healthy s \<longleftrightarrow> script s = []"

definition fresh_sink :: sink where
  "fresh_sink = \<lparr>sent = [], script = []\<rparr>"

lemma wire_fresh [simp]: "wire fresh_sink = []" and healthy_fresh [simp]: "healthy fresh_sink"
  by (simp_all add: wire_def fresh_sink_def healthy_def)

lemma sink_write_healthy [simp]:
  "healthy s \<Longrightarrow> sink_write s p = (s\<lparr>sent := sent s @ [p]\<rparr>, length p, None)"
  by (simp add: healthy_def)

lemma healthy_sent [simp]: "healthy (s\<lparr>sent := x\<rparr>) = healthy s"
  by (simp add: healthy_def)

lemma wire_snoc [simp]: "wire (s\<lparr>sent := sent s @ [p]\<rparr>) = wire s @ p"
  by (simp add: wire_def)

interpretation net: reliable_writer sink_write wire healthy
  by unfold_locales (auto simp: wire_def min_def healthy_def split: list.splits wresp.splits)

declare sink_write.simps [simp del]

context reliable_writer
begin

lemma buffer_write_to_good:
  "good s \<Longrightarrow> \<exists>s'. good s' \<and> buffer_write_to wr s b = (s', length b, [], None)"
  using good_ok [of s b] by (auto simp: buffer_write_to_def)

lemma write_all_good:
  "good s \<Longrightarrow> \<exists>s'. good s' \<and> write_all wr s ps = (s', length (concat ps), None)"
proof (induction ps arbitrary: s)
  case Nil
  then show ?case by simp
next
  case (Cons p ps)
  obtain s1 where s1: "good s1" "wr s p = (s1, length p, None)"
    using good_ok [OF Cons.prems] by blast
  obtain s2 where "good s2" "write_all wr s1 ps = (s2, length (concat ps), None)"
    using Cons.IH [OF s1(1)] by blast
  then show ?case using s1 by auto
qed

end

subsection \<open>Writers that rewrite a stream\<close>

text \<open>
  The contract of a writer that stands between a client and a connection: after the bytes \<open>T\<close> went
  in its state is \<open>rel T\<close> and the bytes that left are \<open>spec T\<close>, however \<open>T\<close> was cut into calls; and in
  the states \<open>good\<close> it does not fail.
\<close>

locale stream_filter =
  fixes fw :: "'t writer" and fout :: "'t \<Rightarrow> bytes" and rel :: "bytes \<Rightarrow> 't \<Rightarrow> bool"
    and spec :: "bytes \<Rightarrow> bytes" and fgood :: "'t \<Rightarrow> bool"
  assumes filter_step: "rel T x \<Longrightarrow> fout x = o0 @ spec T \<Longrightarrow> fw x p = (x', n, None) \<Longrightarrow>
      n = length p \<and> rel (T @ p) x' \<and> fout x' = o0 @ spec (T @ p)"
    and filter_good: "fgood x \<Longrightarrow> \<exists>x' n. fgood x' \<and> fw x p = (x', n, None)"
begin

lemma filter_write_all:
  "rel T x \<Longrightarrow> fout x = o0 @ spec T \<Longrightarrow> fgood x \<Longrightarrow>
   \<exists>x'. write_all fw x ps = (x', length (concat ps), None) \<and> rel (T @ concat ps) x'
     \<and> fout x' = o0 @ spec (T @ concat ps) \<and> fgood x'"
proof (induction ps arbitrary: T x)
  case Nil
  then show ?case by simp
next
  case (Cons p ps)
  obtain x1 n where x1: "fgood x1" "fw x p = (x1, n, None)"
    using filter_good [OF Cons.prems(3)] by blast
  note st = filter_step [OF Cons.prems(1,2) x1(2)]
  obtain x2 where "write_all fw x1 ps = (x2, length (concat ps), None)" "rel ((T @ p) @ concat ps) x2"
    "fout x2 = o0 @ spec ((T @ p) @ concat ps)" "fgood x2"
    using Cons.IH [of "T @ p" x1] st x1(1) by blast
  then show ?case using x1(2) st by simp
qed

end

section \<open>Readers\<close>

datatype chunk = Chunk (cdata: bytes) (cerr: "err option")

type_synonym source = "chunk list"

text \<open>
  \<^verbatim>\<open>Read\<close> with a buffer of \<open>n\<close> bytes. An exhausted source returns \<^verbatim>\<open>io.EOF\<close> for ever.
\<close>

fun src_read :: "source \<Rightarrow> nat \<Rightarrow> source \<times> bytes \<times> err option" where
  "src_read [] n = ([], [], Some EOF)"
| "src_read (Chunk bs e # r) n =
     (if length bs \<le> n then (r, bs, e) else (Chunk (drop n bs) e # r, take n bs, None))"

text \<open>The bytes a source holds, and a source that fails only by ending (\<^verbatim>\<open>io.EOF\<close>).\<close>

definition src_bytes :: "source \<Rightarrow> bytes" where
  "src_bytes s = concat (map cdata s)"

definition clean :: "source \<Rightarrow> bool" where
  "clean s \<longleftrightarrow> (\<forall>c \<in> set s. cerr c = None)"

definition src_size :: "source \<Rightarrow> nat" where
  "src_size s = length s + length (src_bytes s)"

text \<open>\<^verbatim>\<open>bytes.NewReader(p)\<close>: \<^verbatim>\<open>io.EOF\<close> at once when \<open>p\<close> is empty.\<close>

definition bytes_reader :: "bytes \<Rightarrow> source" where
  "bytes_reader p = (if p = [] then [] else [Chunk p None])"

lemma src_bytes_simps [simp]:
  "src_bytes [] = []" "src_bytes (c # s) = cdata c @ src_bytes s"
  by (simp_all add: src_bytes_def)

lemma clean_simps [simp]: "clean []" "clean (c # s) = (cerr c = None \<and> clean s)"
  by (simp_all add: clean_def)

lemma bytes_reader_props [simp]:
  "src_bytes (bytes_reader p) = p" "clean (bytes_reader p)"
  by (simp_all add: bytes_reader_def)

lemma src_read_bytes: "src_read s n = (s', bs, e) \<Longrightarrow> src_bytes s = bs @ src_bytes s'"
  by (cases "(s, n)" rule: src_read.cases) (auto split: if_splits)

lemma src_read_le: "src_read s n = (s', bs, e) \<Longrightarrow> length bs \<le> n"
  by (cases "(s, n)" rule: src_read.cases) (auto split: if_splits)

lemma src_read_clean: "src_read s n = (s', bs, e) \<Longrightarrow> clean s \<Longrightarrow> clean s'"
  by (cases "(s, n)" rule: src_read.cases) (auto split: if_splits)

lemma src_read_clean_err:
  "src_read s n = (s', bs, e) \<Longrightarrow> clean s \<Longrightarrow> e = (if s = [] then Some EOF else None)"
  by (cases "(s, n)" rule: src_read.cases) (auto split: if_splits)

lemma src_read_size:
  "src_read s n = (s', bs, e) \<Longrightarrow> 0 < n \<Longrightarrow> s \<noteq> [] \<Longrightarrow> src_size s' < src_size s"
  by (cases "(s, n)" rule: src_read.cases) (auto simp: src_size_def split: if_splits)

text \<open>
  \<^verbatim>\<open>ReadFrom\<close> of the base writer: it takes a reader and returns the new states, the bytes read and an
  error.
\<close>

type_synonym 's reader_from = "'s \<Rightarrow> source \<Rightarrow> 's \<times> source \<times> nat \<times> err option"

text \<open>
  The contract of \<^verbatim>\<open>io.ReaderFrom\<close>: it outputs the bytes it counts, and without an error it has used
  up a reader that fails only by ending.
\<close>

locale go_reader_from =
  fixes rf :: "'s reader_from" and out :: "'s \<Rightarrow> bytes"
  assumes rf_out: "rf s src = (s', src', n, e) \<Longrightarrow>
      out s' = out s @ take n (src_bytes src) \<and> n \<le> length (src_bytes src)"
    and rf_full: "clean src \<Longrightarrow> rf s src = (s', src', n, None) \<Longrightarrow>
      n = length (src_bytes src) \<and> src' = []"

text \<open>\<^verbatim>\<open>io.LimitReader(r, n)\<close>: what it lets through, and what stays behind it.\<close>

fun limit_reader :: "source \<Rightarrow> nat \<Rightarrow> source \<times> source" where
  "limit_reader [] n = ([], [])"
| "limit_reader (Chunk bs e # r) n =
     (if n = 0 then ([], Chunk bs e # r)
      else if n < length bs then ([Chunk (take n bs) None], Chunk (drop n bs) e # r)
      else case limit_reader r (n - length bs) of (l, q) \<Rightarrow> (Chunk bs e # l, q))"

lemma limit_reader_bytes:
  "limit_reader src n = (l, q) \<Longrightarrow> src_bytes l = take n (src_bytes src) \<and> src_bytes q = drop n (src_bytes src)"
  by (induction src n arbitrary: l q rule: limit_reader.induct) (auto split: if_splits prod.splits)

lemma limit_reader_clean: "limit_reader src n = (l, q) \<Longrightarrow> clean src \<Longrightarrow> clean l \<and> clean q"
  by (induction src n arbitrary: l q rule: limit_reader.induct) (auto split: if_splits prod.splits)

text \<open>
  The \<^verbatim>\<open>ReadFrom\<close> of a connection: one \<^verbatim>\<open>Write\<close> per chunk of the reader, until the reader or the
  connection fails; \<^verbatim>\<open>io.EOF\<close> is success.
\<close>

fun copy_from :: "'s writer \<Rightarrow> 's reader_from" where
  "copy_from wr s [] = (s, [], 0, None)"
| "copy_from wr s (Chunk bs e # r) =
     (case (if bs = [] then (s, 0, None) else wr s bs) of
        (s', n, Some x) \<Rightarrow> (s', r, n, Some x)
      | (s', n, None) \<Rightarrow>
          (case e of
             Some x \<Rightarrow> (s', r, n, if x = EOF then None else Some x)
           | None \<Rightarrow> (case copy_from wr s' r of (s'', r', m, y) \<Rightarrow> (s'', r', n + m, y))))"

context go_writer
begin

lemma copy_from_out:
  "copy_from wr s src = (s', src', n, e) \<Longrightarrow>
   out s' = out s @ take n (src_bytes src) \<and> n \<le> length (src_bytes src)
   \<and> (clean src \<and> e = None \<longrightarrow> n = length (src_bytes src) \<and> src' = [])"
proof (induction src arbitrary: s s' src' n e)
  case Nil
  then show ?case by simp
next
  case (Cons c r)
  obtain bs x where c: "c = Chunk bs x" by (cases c)
  obtain s1 k e1 where w: "(if bs = [] then (s, 0, None) else wr s bs) = (s1, k, e1)"
    by (metis prod_cases3)
  have k: "out s1 = out s @ take k bs" "k \<le> length bs" "e1 = None \<longrightarrow> k = length bs"
    using w wr_out [of s bs s1 k e1] wr_len [of s bs s1 k e1] wr_full [of s bs s1 k]
    by (auto split: if_splits)
  obtain s2 q m e2 where r: "copy_from wr s1 r = (s2, q, m, e2)" by (metis prod_cases4)
  show ?case using Cons.prems Cons.IH [OF r] c w k r by (auto split: option.splits)
qed

sublocale cf: go_reader_from "copy_from wr" out
  using copy_from_out by unfold_locales blast+

end

subsection \<open>io.ReadFull\<close>

text \<open>
  The loop of \<^verbatim>\<open>io.ReadAtLeast\<close>: read until \<open>k\<close> bytes are there or an error comes; an error that
  comes with the last byte needed is dropped, and \<^verbatim>\<open>io.EOF\<close> after some bytes is
  \<^verbatim>\<open>io.ErrUnexpectedEOF\<close>.
\<close>

fun read_loop :: "source \<Rightarrow> nat \<Rightarrow> source \<times> bytes \<times> err option" where
  "read_loop s 0 = (s, [], None)"
| "read_loop [] (Suc k) = ([], [], Some EOF)"
| "read_loop (Chunk bs e # r) (Suc k) =
     (if Suc k < length bs then (Chunk (drop (Suc k) bs) e # r, take (Suc k) bs, None)
      else if Suc k = length bs then (r, bs, None)
      else case e of
             Some x \<Rightarrow> (r, bs, Some x)
           | None \<Rightarrow> (case read_loop r (Suc k - length bs) of (s', cs, x) \<Rightarrow> (s', bs @ cs, x)))"

definition read_full :: "source \<Rightarrow> nat \<Rightarrow> source \<times> bytes \<times> err option" where
  "read_full s k =
     (case read_loop s k of (s', bs, e) \<Rightarrow>
        (s', bs, if e = Some EOF \<and> bs \<noteq> [] then Some UnexpectedEOF else e))"

lemma read_loop_src_read:
  "0 < k \<Longrightarrow> read_loop s k =
     (case src_read s k of (s', bs, e) \<Rightarrow>
        if length bs = k then (s', bs, None)
        else case e of
               Some x \<Rightarrow> (s', bs, Some x)
             | None \<Rightarrow> (case read_loop s' (k - length bs) of (s'', cs, x) \<Rightarrow> (s'', bs @ cs, x)))"
  by (cases "(s, k)" rule: read_loop.cases) (auto split: option.splits)

lemma read_loop_bytes:
  "read_loop s k = (s', bs, e) \<Longrightarrow>
   src_bytes s = bs @ src_bytes s' \<and> length bs \<le> k \<and> (e = None \<longrightarrow> length bs = k)"
proof (induction s k arbitrary: s' bs e rule: read_loop.induct)
  case (3 cs x r k)
  show ?case
  proof (cases "length cs < Suc k \<and> x = None")
    case True
    obtain s2 ds y where r: "read_loop r (Suc k - length cs) = (s2, ds, y)" by (metis prod_cases3)
    then have "src_bytes r = ds @ src_bytes s2 \<and> length ds \<le> Suc k - length cs
        \<and> (y = None \<longrightarrow> length ds = Suc k - length cs)"
      using 3(1) [of s2 ds y] True by simp
    then show ?thesis using True 3(2) r by auto
  next
    case False
    then show ?thesis using 3(2) by (auto split: if_splits option.splits)
  qed
qed auto

lemma read_loop_clean:
  "read_loop s k = (s', bs, e) \<Longrightarrow> clean s \<Longrightarrow>
   clean s' \<and> bs = take k (src_bytes s)
   \<and> e = (if k \<le> length (src_bytes s) then None else Some EOF)"
proof (induction s k arbitrary: s' bs e rule: read_loop.induct)
  case (3 cs x r k)
  show ?case
  proof (cases "Suc k \<le> length cs")
    case True
    then show ?thesis using 3(2,3) by (auto split: if_splits)
  next
    case False
    obtain s2 ds y where r: "read_loop r (Suc k - length cs) = (s2, ds, y)" by (metis prod_cases3)
    then have "clean s2 \<and> ds = take (Suc k - length cs) (src_bytes r)
        \<and> y = (if Suc k - length cs \<le> length (src_bytes r) then None else Some EOF)"
      using 3(1) [of s2 ds y] False 3(3) by simp
    then show ?thesis using False 3(2,3) r by auto
  qed
qed auto

lemma read_full_bytes:
  "read_full s k = (s', bs, e) \<Longrightarrow> src_bytes s = bs @ src_bytes s' \<and> length bs \<le> k"
  by (auto simp: read_full_def dest: read_loop_bytes split: prod.splits)

lemma read_full_ok: "read_full s k = (s', bs, None) \<Longrightarrow> length bs = k"
  by (auto simp: read_full_def dest: read_loop_bytes split: prod.splits if_splits)

lemma read_full_clean:
  assumes "clean s" and "read_full s k = (s', bs, e)"
  shows "clean s'" and "bs = take k (src_bytes s)" and "src_bytes s' = drop k (src_bytes s)"
    and "e = (if k \<le> length (src_bytes s) then None
              else if src_bytes s = [] then Some EOF else Some UnexpectedEOF)"
proof -
  obtain e' where r: "read_loop s k = (s', bs, e')"
    and e: "e = (if e' = Some EOF \<and> bs \<noteq> [] then Some UnexpectedEOF else e')"
    using assms(2) by (auto simp: read_full_def split: prod.splits)
  note c = read_loop_clean [OF r assms(1)]
  show "clean s'" and "bs = take k (src_bytes s)" using c by auto
  show "src_bytes s' = drop k (src_bytes s)"
    using read_loop_bytes [OF r] c by (metis append_eq_conv_conj append_take_drop_id same_append_eq)
  show "e = (if k \<le> length (src_bytes s) then None
              else if src_bytes s = [] then Some EOF else Some UnexpectedEOF)"
    using c e by (cases "k \<le> length (src_bytes s)") auto
qed

lemma read_full_clean_eq:
  "clean s \<Longrightarrow> \<exists>s'. clean s' \<and> src_bytes s' = drop k (src_bytes s) \<and>
   read_full s k = (s', take k (src_bytes s),
     if k \<le> length (src_bytes s) then None
     else if src_bytes s = [] then Some EOF else Some UnexpectedEOF)"
proof -
  assume c: "clean s"
  obtain s' bs e where r: "read_full s k = (s', bs, e)" by (metis prod_cases3)
  show ?thesis using read_full_clean [OF c r] r by blast
qed

text \<open>Readers whose \<^verbatim>\<open>Read\<close> returns at least one byte until they end.\<close>

definition solid :: "source \<Rightarrow> bool" where
  "solid s \<longleftrightarrow> (\<forall>c \<in> set s. cerr c = None \<and> cdata c \<noteq> [])"

lemma solid_simps [simp]: "solid []" "solid (c # s) = (cerr c = None \<and> cdata c \<noteq> [] \<and> solid s)"
  by (simp_all add: solid_def)

lemma solid_clean: "solid s \<Longrightarrow> clean s"
  by (simp add: solid_def clean_def)

lemma solid_bytes_reader [simp]: "solid (bytes_reader p)"
  by (simp add: bytes_reader_def)

lemma read_loop_solid: "read_loop s k = (s', bs, e) \<Longrightarrow> solid s \<Longrightarrow> solid s'"
  by (induction s k arbitrary: s' bs e rule: read_loop.induct) (auto split: if_splits prod.splits)

lemma read_full_solid:
  "solid s \<Longrightarrow> src_bytes s = m @ rest \<Longrightarrow> length m = n \<Longrightarrow>
   \<exists>s'. solid s' \<and> src_bytes s' = rest \<and> read_full s n = (s', m, None)"
proof -
  assume s: "solid s" "src_bytes s = m @ rest" "length m = n"
  obtain s' where r: "src_bytes s' = rest" "read_full s n = (s', m, None)"
    using read_full_clean_eq [OF solid_clean [OF s(1)], of n] s(2,3) by auto
  moreover have "solid s'"
    using r(2) read_loop_solid s(1) by (auto simp: read_full_def split: prod.splits)
  ultimately show ?thesis by blast
qed

lemma read_full_solid_short:
  "solid s \<Longrightarrow> length (src_bytes s) < n \<Longrightarrow>
   \<exists>s'. read_full s n = (s', src_bytes s, Some (if src_bytes s = [] then EOF else UnexpectedEOF))"
  using read_full_clean_eq [OF solid_clean, of s n] by auto

lemma src_read_solid:
  "solid s \<Longrightarrow> src_bytes s = b # rest \<Longrightarrow>
   \<exists>s'. solid s' \<and> src_bytes s' = rest \<and> src_read s 1 = (s', [b], None)"
proof (cases s)
  case (Cons c r)
  assume s: "solid s" "src_bytes s = b # rest"
  obtain bs where c: "c = Chunk bs None" "bs \<noteq> []" using s(1) Cons by (cases c) auto
  then obtain cs where bs: "bs = b # cs" using s(2) Cons by (cases bs) auto
  show ?thesis
  proof (cases "cs = []")
    case True
    then show ?thesis using s Cons c bs by (intro exI [of _ r]) simp
  next
    case False
    then show ?thesis using s Cons c bs by (intro exI [of _ "Chunk cs None # r"]) (simp add: Suc_le_eq)
  qed
qed simp

section \<open>Connections\<close>

text \<open>A connection: its writer, what is still to be read from it, and whether it was closed.\<close>

record 's sconn =
  c_out :: 's
  c_in :: source
  c_closed :: bool

definition sc_close :: "'s sconn \<Rightarrow> 's sconn" where
  "sc_close c = c\<lparr>c_closed := True\<rparr>"

end
