(* ===== verification/TlsHeader.thy ===== *)
theory TlsHeader
  imports GoPrelude
begin

text \<open>
  The TLS record header of \<^verbatim>\<open>transport/tlsfrag/tls.go\<close>: five bytes, of which the first is the record
  type, the next two the protocol version and the last two the payload length.
\<close>

abbreviation recordHeaderLen :: nat where
  "recordHeaderLen \<equiv> 5"

abbreviation maxRecordPayloadLen :: nat where
  "maxRecordPayloadLen \<equiv> 16384"

definition recordTypeHandshake :: byte where
  "recordTypeHandshake = 22"

definition handshake_versions :: "nat list" where
  "handshake_versions = [0x0301, 0x0302, 0x0303, 0x0304]"

definition new_tls_header :: "bytes \<Rightarrow> err + bytes" where
  "new_tls_header p =
     (if length p < recordHeaderLen
      then Inl (ErrNew ''HandshakeRecordHeader requires at least 5 bytes'')
      else Inr p)"

definition payload_len :: "bytes \<Rightarrow> nat" where
  "payload_len h = get_u16 (subslice 3 5 h)"

definition validate_header :: "bytes \<Rightarrow> err option" where
  "validate_header h =
     (if h ! 0 \<noteq> recordTypeHandshake then Some (ErrNew ''record type must be handshake'')
      else if get_u16 (subslice 1 3 h) \<notin> set handshake_versions
        then Some (ErrNew ''invalid TLS version'')
      else if payload_len h = 0 \<or> maxRecordPayloadLen < payload_len h
        then Some (ErrNew ''record length out of range'')
      else None)"

text \<open>The callers of \<^verbatim>\<open>SetPayloadLen\<close> ignore its error, which leaves the header as it was.\<close>

definition set_payload_len :: "nat \<Rightarrow> bytes \<Rightarrow> bytes \<times> err option" where
  "set_payload_len n h =
     (if n = 0 \<or> maxRecordPayloadLen < n then (h, Some (ErrNew ''record length out of range''))
      else (blit 3 (put_u16 n) h, None))"

abbreviation with_len :: "nat \<Rightarrow> bytes \<Rightarrow> bytes" where
  "with_len n h \<equiv> fst (set_payload_len n h)"

lemma payload_len_less: "payload_len h < 65536"
  by (simp add: payload_len_def get_u16_less)

lemma validate_ok_len: "validate_header h = None \<Longrightarrow> 0 < payload_len h \<and> payload_len h \<le> maxRecordPayloadLen"
  by (auto simp: validate_header_def split: if_splits)

lemma length_with_len [simp]: "length h = 5 \<Longrightarrow> length (with_len n h) = 5"
  by (simp add: set_payload_len_def)

lemma take_with_len: "length h = 5 \<Longrightarrow> take 3 (with_len n h) = take 3 h"
  by (simp add: set_payload_len_def)

lemma payload_len_with_len:
  "length h = 5 \<Longrightarrow> 0 < n \<Longrightarrow> n \<le> maxRecordPayloadLen \<Longrightarrow> payload_len (with_len n h) = n"
  using subslice_blit_same [of 3 "put_u16 n" h]
  by (simp add: set_payload_len_def payload_len_def)

lemma with_len_twice:
  "length h = 5 \<Longrightarrow> 0 < m \<Longrightarrow> m \<le> maxRecordPayloadLen \<Longrightarrow> 0 < n \<Longrightarrow> n \<le> maxRecordPayloadLen \<Longrightarrow>
   with_len n (with_len m h) = with_len n h"
  by (simp add: set_payload_len_def blit_def)

lemma with_len_same:
  assumes "length h = 5" "validate_header h = None"
  shows "with_len (payload_len h) h = h"
proof -
  have "put_u16 (payload_len h) = subslice 3 5 h"
    using assms(1) by (simp add: payload_len_def put_get_u16 length_subslice)
  then show ?thesis
    using assms validate_ok_len [OF assms(2)]
    by (simp add: set_payload_len_def blit_def subslice_drop_take)
qed

lemma validate_with_len:
  assumes "length h = 5" "validate_header h = None" "0 < n" "n \<le> maxRecordPayloadLen"
  shows "validate_header (with_len n h) = None"
proof -
  have t: "take 3 (with_len n h) = take 3 h" using assms(1) by (rule take_with_len)
  have "with_len n h ! 0 = h ! 0" using t by (metis nth_take zero_less_numeral)
  moreover have "subslice 1 3 (with_len n h) = subslice 1 3 h"
    using t by (simp add: subslice_drop_take)
  ultimately show ?thesis
    using assms payload_len_with_len [OF assms(1,3,4)]
    by (auto simp: validate_header_def split: if_splits)
qed

end
