(* ===== verification/RecordLenFrag.thy ===== *)
theory RecordLenFrag
  imports GoIO TlsHeader
begin

text \<open>
  The streaming fragmenter of \<^verbatim>\<open>transport/tlsfrag/record_len_writer.go\<close>: it cuts the first TLS
  handshake record in two while the bytes pass through, without buffering the payload. The lemmas
  show that for every way of cutting the stream into \<^verbatim>\<open>Write\<close> calls the bytes that leave are
  \<open>frag_spec\<close> of the bytes written, and that the two records carry the payload of the original one.
\<close>

section \<open>State and helpers\<close>

text \<open>
  \<open>w_tls\<close> says that \<^verbatim>\<open>tlsHdr\<close> is set; its bytes are those of \<^verbatim>\<open>hdr\<close>, whose array it shares, as
  long as it is read (\<^verbatim>\<open>hdr\<close> is only re-sliced after \<^verbatim>\<open>done\<close>, and \<^verbatim>\<open>tlsHdr\<close> is not read then).
  \<^verbatim>\<open>base\<close> and \<^verbatim>\<open>frag\<close> are arguments of the operations.
\<close>

record reclen =
  w_done :: bool
  w_hdr :: bytes
  w_tls :: bool
  r1Size :: nat
  r1Written :: nat
  r2Size :: nat

type_synonym reclen_frag = "int \<Rightarrow> int"

definition reclen_init :: reclen where
  "reclen_init =
     \<lparr>w_done = False, w_hdr = [], w_tls = False, r1Size = 0, r1Written = 0, r2Size = 0\<rparr>"

text \<open>The constructor refuses a nil writer and a nil callback (\<open>None\<close>).\<close>

definition new_reclen_writer :: "'s option \<Rightarrow> reclen_frag option \<Rightarrow> err + (reclen \<times> 's)" where
  "new_reclen_writer base frag =
     (case base of
        None \<Rightarrow> Inl (ErrNew ''base writer must not be nil'')
      | Some s \<Rightarrow>
          (case frag of
             None \<Rightarrow> Inl (ErrNew ''fixed length frag callback function must not be nil'')
           | Some _ \<Rightarrow> Inr (reclen_init, s)))"

definition update_split_lens :: "reclen_frag \<Rightarrow> reclen \<Rightarrow> reclen \<times> err option" where
  "update_split_lens frag w =
     (if \<not> w_tls w then (w, Some (ErrNew ''invalid TLS header''))
      else let total = int (payload_len (w_hdr w)); split = frag total in
        if split \<le> 0 \<or> split \<ge> total then (w, Some (ErrNew ''invalid split position''))
        else (w\<lparr>r1Size := nat split + recordHeaderLen,
                r2Size := nat (total - split) + recordHeaderLen\<rparr>, None))"

definition write_n :: "'s writer \<Rightarrow> 's \<Rightarrow> bytes \<Rightarrow> int \<Rightarrow> 's \<times> nat \<times> err option" where
  "write_n wr s p limit =
     (if limit \<le> 0 then (s, 0, None)
      else wr s (if int (length p) > limit then take (nat limit) p else p))"

text \<open>
  \<^verbatim>\<open>writeBoth\<close> issues one \<^verbatim>\<open>Write\<close> of both parts: through a temporary \<^verbatim>\<open>bytes.Buffer\<close>, or with
  \<^verbatim>\<open>writev\<close> on a \<^verbatim>\<open>net.TCPConn\<close>, which has the same effect on the stream.
\<close>

definition write_both :: "'s writer \<Rightarrow> 's \<Rightarrow> bytes \<Rightarrow> bytes \<Rightarrow> 's \<times> nat \<times> nat \<times> err option" where
  "write_both wr s p1 p2 =
     (case buffer_write_to wr s (p1 @ p2) of (s', n, _, e) \<Rightarrow>
        if n \<le> length p1 then (s', n, 0, e) else (s', length p1, n - length p1, e))"

definition write_both_n :: "'s writer \<Rightarrow> 's \<Rightarrow> bytes \<Rightarrow> bytes \<Rightarrow> nat \<Rightarrow> 's \<times> nat \<times> nat \<times> err option" where
  "write_both_n wr s p1 p2 limit =
     (if limit \<le> length p1
      then (case wr s (take limit p1) of (s', n, e) \<Rightarrow> (s', n, 0, e))
      else write_both wr s p1
             (if length p1 + length p2 > limit then take (limit - length p1) p2 else p2))"

section \<open>Write\<close>

text \<open>The header phase: fill \<^verbatim>\<open>hdr\<close> up to five bytes; once it is full, decide where to split.\<close>

definition reclen_fill :: "reclen_frag \<Rightarrow> reclen \<Rightarrow> bytes \<Rightarrow> reclen \<times> nat" where
  "reclen_fill frag w p =
     (let n = min (recordHeaderLen - length (w_hdr w)) (length p);
          w1 = w\<lparr>w_hdr := w_hdr w @ take n p\<rparr> in
      if length (w_hdr w1) < recordHeaderLen then (w1, n)
      else case new_tls_header (w_hdr w1) of
             Inl _ \<Rightarrow> (w1\<lparr>w_done := True\<rparr>, n)
           | Inr h \<Rightarrow>
               (let w2 = w1\<lparr>w_tls := True\<rparr> in
                if validate_header h \<noteq> None then (w2\<lparr>w_done := True\<rparr>, n)
                else case update_split_lens frag w2 of
                       (w3, Some _) \<Rightarrow> (w3\<lparr>w_done := True\<rparr>, n)
                     | (w3, None) \<Rightarrow>
                         (w3\<lparr>w_hdr := with_len (r1Size w3 - recordHeaderLen) (w_hdr w3)\<rparr>, n)))"

text \<open>The first record: what is left of its header with the payload, or payload only.\<close>

definition reclen_first ::
  "'s writer \<Rightarrow> reclen \<times> 's \<Rightarrow> bytes \<Rightarrow> (reclen \<times> 's) \<times> nat \<times> err option" where
  "reclen_first wr = (\<lambda>(w, s) p.
     if r1Written w < recordHeaderLen
     then (case write_both_n wr s (drop (r1Written w) (take recordHeaderLen (w_hdr w))) p (r1Size w) of
             (s', hn, m, e) \<Rightarrow> ((w\<lparr>r1Written := r1Written w + hn + m\<rparr>, s'), m, e))
     else (case write_n wr s p (int (r1Size w) - int (r1Written w)) of
             (s', m, e) \<Rightarrow> ((w\<lparr>r1Written := r1Written w + m\<rparr>, s'), m, e)))"

text \<open>The rest: the pending header (16 KiB at most with it), then everything else as it is.\<close>

definition reclen_rest ::
  "'s writer \<Rightarrow> reclen \<times> 's \<Rightarrow> bytes \<Rightarrow> nat \<Rightarrow> (reclen \<times> 's) \<times> nat \<times> err option" where
  "reclen_rest wr = (\<lambda>(w, s) p n.
     if w_hdr w \<noteq> []
     then (case write_both_n wr s (w_hdr w) p 16384 of
             (s', hn, m, e) \<Rightarrow>
               (let w' = w\<lparr>w_hdr := drop hn (w_hdr w)\<rparr>; p' = drop m p in
                if e \<noteq> None \<or> p' = [] then ((w', s'), n + m, e)
                else case wr s' p' of (s'', m', e') \<Rightarrow> ((w', s''), n + m + m', e')))
     else (case wr s p of (s', m, e) \<Rightarrow> ((w, s'), n + m, e)))"

text \<open>After the header phase: the first record, and when it is complete the second header.\<close>

definition reclen_split ::
  "'s writer \<Rightarrow> reclen \<times> 's \<Rightarrow> bytes \<Rightarrow> nat \<Rightarrow> (reclen \<times> 's) \<times> nat \<times> err option" where
  "reclen_split wr = (\<lambda>(w, s) p n.
     case reclen_first wr (w, s) p of
       ((w2, s2), m, e) \<Rightarrow>
         if r1Written w2 < r1Size w2 then ((w2, s2), n + m, e)
         else let w3 = w2\<lparr>w_hdr := with_len (r2Size w2 - recordHeaderLen) (w_hdr w2),
                          w_done := True\<rparr> in
           if e \<noteq> None then ((w3, s2), n + m, e)
           else reclen_rest wr (w3, s2) (drop m p) (n + m))"

definition reclen_write :: "reclen_frag \<Rightarrow> 's writer \<Rightarrow> (reclen \<times> 's) writer" where
  "reclen_write frag wr = (\<lambda>(w, s) p.
     if w_done w then reclen_rest wr (w, s) p 0
     else let (w1, n) = (if \<not> w_tls w then reclen_fill frag w p else (w, 0)); p1 = drop n p in
       if \<not> w_tls w1 \<and> length (w_hdr w1) < recordHeaderLen then ((w1, s), n, None)
       else if \<not> w_done w1 \<and> r1Written w1 < r1Size w1 then reclen_split wr (w1, s) p1 n
       else reclen_rest wr (w1, s) p1 n)"

section \<open>What the fragmenter does to a stream\<close>

text \<open>
  The split point is a function of the first five bytes of the stream; \<open>frag_spec\<close> is the stream with
  a second header at that point and the lengths of both headers set. Before the fifth byte nothing
  leaves; the second header leaves with the last byte of the first record.
\<close>

definition split_point :: "reclen_frag \<Rightarrow> bytes \<Rightarrow> nat option" where
  "split_point frag T =
     (let h = take 5 T; total = int (payload_len h); k = frag total in
      if validate_header h \<noteq> None \<or> k \<le> 0 \<or> k \<ge> total then None else Some (nat k))"

definition frag_spec :: "reclen_frag \<Rightarrow> bytes \<Rightarrow> bytes" where
  "frag_spec frag T =
     (if length T < 5 then []
      else case split_point frag T of
             None \<Rightarrow> T
           | Some k \<Rightarrow>
               with_len k (take 5 T) @ take k (drop 5 T)
               @ (if length T < 5 + k then []
                  else with_len (payload_len (take 5 T) - k) (take 5 T) @ drop (5 + k) T))"

text \<open>The state of the writer after the bytes \<open>T\<close> went in without an error.\<close>

definition reclen_rel :: "reclen_frag \<Rightarrow> bytes \<Rightarrow> reclen \<Rightarrow> bool" where
  "reclen_rel frag T w \<longleftrightarrow>
     (if length T < 5
      then \<not> w_done w \<and> \<not> w_tls w \<and> w_hdr w = T \<and> r1Written w = 0 \<and> r1Size w = 0
      else case split_point frag T of
             None \<Rightarrow> w_done w \<and> w_hdr w = []
           | Some k \<Rightarrow>
               (if length T < 5 + k
                then \<not> w_done w \<and> w_tls w \<and> w_hdr w = with_len k (take 5 T)
                   \<and> r1Size w = k + 5 \<and> r2Size w = payload_len (take 5 T) - k + 5
                   \<and> r1Written w = length T
                else w_done w \<and> w_hdr w = []))"

lemma reclen_rel_init: "reclen_rel frag [] reclen_init" and frag_spec_Nil: "frag_spec frag [] = []"
  by (simp_all add: reclen_rel_def reclen_init_def frag_spec_def)

lemma split_point_append [simp]: "5 \<le> length T \<Longrightarrow> split_point frag (T @ p) = split_point frag T"
  by (simp add: split_point_def)

lemma split_point_take: "split_point frag (take 5 T) = split_point frag T"
  by (simp add: split_point_def)

lemma split_point_bounds:
  assumes "split_point frag T = Some k"
  shows "0 < k" and "k < payload_len (take 5 T)" and "payload_len (take 5 T) \<le> maxRecordPayloadLen"
    and "validate_header (take 5 T) = None"
  using assms validate_ok_len [of "take 5 T"]
  by (auto simp: split_point_def Let_def split: if_splits)

section \<open>Steps without an error\<close>

context go_writer
begin

lemma write_both_n_ok:
  assumes "write_both_n wr s p1 p2 limit = (s', a, b, None)" and "length p1 < limit"
  shows "a = length p1" and "b = min (length p2) (limit - length p1)"
    and "out s' = out s @ p1 @ take b p2"
proof -
  define q where "q = (if length p1 + length p2 > limit then take (limit - length p1) p2 else p2)"
  have q: "q = take (limit - length p1) p2" by (simp add: q_def)
  obtain s1 n r e where w: "buffer_write_to wr s (p1 @ q) = (s1, n, r, e)" by (metis prod_cases4)
  have e: "e = None" "s' = s1"
    using assms w by (auto simp: write_both_n_def write_both_def q_def split: if_splits)
  then have n: "n = length p1 + length q" using buffer_write_to_out(4) [OF w] by simp
  then show "a = length p1" and b: "b = min (length p2) (limit - length p1)"
    using assms w q by (auto simp: write_both_n_def write_both_def q_def [symmetric] split: if_splits)
  show "out s' = out s @ p1 @ take b p2"
    using buffer_write_to_out(1) [OF w] e n q b by (simp add: min_def)
qed

lemma write_n_ok:
  assumes "write_n wr s p limit = (s', m, None)" and "0 \<le> limit"
  shows "m = min (length p) (nat limit)" and "out s' = out s @ take m p"
proof -
  have "m = min (length p) (nat limit) \<and> out s' = out s @ take m p"
  proof (cases "limit = 0")
    case True
    then show ?thesis using assms by (simp add: write_n_def)
  next
    case False
    then have w: "wr s (take (nat limit) p) = (s', m, None)"
      using assms by (auto simp: write_n_def split: if_splits)
    show ?thesis using wr_full [OF w] wr_ok [OF w] by (auto simp: min_def)
  qed
  then show "m = min (length p) (nat limit)" and "out s' = out s @ take m p" by auto
qed

lemma reclen_rest_ok:
  assumes "reclen_rest wr (w, s) p n0 = ((w', s'), n, None)" and "length (w_hdr w) \<le> 5"
  shows "n = n0 + length p" and "w' = w\<lparr>w_hdr := []\<rparr>" and "out s' = out s @ w_hdr w @ p"
proof -
  have "n = n0 + length p \<and> w' = w\<lparr>w_hdr := []\<rparr> \<and> out s' = out s @ w_hdr w @ p"
  proof (cases "w_hdr w = []")
    case True
    then obtain m where w: "wr s p = (s', m, None)" and "n = n0 + m" "w' = w"
      using assms(1) by (auto simp: reclen_rest_def split: prod.splits)
    then show ?thesis using True wr_full [OF w] wr_ok [OF w] by simp
  next
    case False
    obtain s1 hn m e where w: "write_both_n wr s (w_hdr w) p 16384 = (s1, hn, m, e)"
      by (metis prod_cases4)
    have e: "e = None" using assms(1) w False
      by (auto simp: reclen_rest_def Let_def split: if_splits)
    note ok = write_both_n_ok [OF w [unfolded e]]
    have m: "hn = length (w_hdr w)" "out s1 = out s @ w_hdr w @ take m p" "m \<le> length p"
      using ok assms(2) by auto
    show ?thesis
    proof (cases "drop m p = []")
      case True
      then show ?thesis using assms(1) w False e m by (simp add: reclen_rest_def)
    next
      case no: False
      obtain s2 m' e' where w2: "wr s1 (drop m p) = (s2, m', e')" by (metis prod_cases3)
      then have "e' = None" "s' = s2" "n = n0 + m + m'" "w' = w\<lparr>w_hdr := []\<rparr>"
        using assms(1) w False e m no by (auto simp: reclen_rest_def)
      then show ?thesis using wr_full [of s1 "drop m p" s2 m'] wr_ok [of s1 "drop m p" s2 m'] w2 m
        by simp
    qed
  qed
  then show "n = n0 + length p" and "w' = w\<lparr>w_hdr := []\<rparr>" and "out s' = out s @ w_hdr w @ p"
    by auto
qed

lemma reclen_first_header_ok:
  assumes "reclen_first wr (w, s) p = ((w', s'), m, None)"
    and "r1Written w = 0" "r1Size w = k + 5" "length (w_hdr w) = 5" "0 < k"
  shows "m = min (length p) k" and "w' = w\<lparr>r1Written := 5 + m\<rparr>"
    and "out s' = out s @ w_hdr w @ take m p"
proof -
  obtain hn where b: "write_both_n wr s (w_hdr w) p (k + 5) = (s', hn, m, None)"
    and w': "w' = w\<lparr>r1Written := hn + m\<rparr>"
    using assms by (auto simp: reclen_first_def split: prod.splits)
  note ok = write_both_n_ok [OF b]
  show "m = min (length p) k" and "w' = w\<lparr>r1Written := 5 + m\<rparr>"
    and "out s' = out s @ w_hdr w @ take m p"
    using ok w' assms by simp_all
qed

lemma reclen_first_payload_ok:
  assumes "reclen_first wr (w, s) p = ((w', s'), m, None)"
    and "r1Written w = 5 + j" "r1Size w = k + 5" "j \<le> k"
  shows "m = min (length p) (k - j)" and "w' = w\<lparr>r1Written := 5 + j + m\<rparr>"
    and "out s' = out s @ take m p"
proof -
  have n: "write_n wr s p (int k - int j) = (s', m, None)" and w': "w' = w\<lparr>r1Written := 5 + j + m\<rparr>"
    using assms by (auto simp: reclen_first_def split: prod.splits)
  have "nat (int k - int j) = k - j" by simp
  then show "m = min (length p) (k - j)" and "out s' = out s @ take m p"
    using write_n_ok [OF n] assms(4) by simp_all
  show "w' = w\<lparr>r1Written := 5 + j + m\<rparr>" by (rule w')
qed

text \<open>A first record that is under way, with \<open>j\<close> bytes of its payload out, or not even its header.\<close>

lemma reclen_write_first:
  assumes w1: "\<not> w_done w" "w_tls w" "w_hdr w = with_len k (take 5 T)" "r1Size w = k + 5"
      "r2Size w = payload_len (take 5 T) - k + 5"
    and T: "5 \<le> length T" "split_point frag T = Some k"
    and pos: "(r1Written w = 0 \<and> length T = 5 \<and> out s = o0)
      \<or> (r1Written w = length T \<and> length T < 5 + k \<and> out s = o0 @ frag_spec frag T)"
    and fin: "reclen_split wr (w, s) p n0 = ((w', s'), n, None)"
  shows "n = n0 + length p \<and> reclen_rel frag (T @ p) w' \<and> out s' = o0 @ frag_spec frag (T @ p)"
proof -
  note k = split_point_bounds [OF T(2)]
  let ?h = "take 5 T"
  have len5: "length ?h = 5" using T(1) by simp
  obtain w2 s2 m e where f: "reclen_first wr (w, s) p = ((w2, s2), m, e)" by (metis prod_cases3 surj_pair)
  have e: "e = None" using fin f by (auto simp: reclen_split_def Let_def split: if_splits)
  let ?j = "length T - 5"
  have facts: "m = min (length p) (k - ?j) \<and> w2 = w\<lparr>r1Written := length T + m\<rparr>
      \<and> out s2 = o0 @ with_len k ?h @ take (?j + m) (drop 5 (T @ p))"
    using pos
  proof
    assume a: "r1Written w = 0 \<and> length T = 5 \<and> out s = o0"
    then show ?thesis
      using reclen_first_header_ok [OF f [unfolded e], of k] w1 k len5 by simp
  next
    assume a: "r1Written w = length T \<and> length T < 5 + k \<and> out s = o0 @ frag_spec frag T"
    then have "r1Written w = 5 + ?j" "?j \<le> k" using T(1) by auto
    from reclen_first_payload_ok [OF f [unfolded e] this(1) w1(4) this(2)]
    show ?thesis using a T w1 by (simp add: frag_spec_def take_drop)
  qed
  show ?thesis
  proof (cases "length (T @ p) < 5 + k")
    case True
    then have "m = length p" using facts T(1) by auto
    then show ?thesis using True facts fin f e T w1
      by (auto simp: reclen_split_def reclen_rel_def frag_spec_def)
  next
    case False
    let ?w3 = "w2\<lparr>w_hdr := with_len (r2Size w2 - recordHeaderLen) (w_hdr w2), w_done := True\<rparr>"
    have m: "m = k - ?j" using facts False pos T(1) by (auto simp: min_def)
    have jm: "?j + m = k" using m pos T(1) k(1) by auto
    have h2: "w_hdr ?w3 = with_len (payload_len ?h - k) ?h"
      using facts w1 k len5 by (simp add: with_len_twice)
    have "reclen_rest wr (?w3, s2) (drop m p) (n0 + m) = ((w', s'), n, None)"
      using fin f e facts w1(4) jm T(1) by (auto simp: reclen_split_def Let_def)
    from reclen_rest_ok [OF this]
    have r: "n = n0 + m + length (drop m p)" "w' = ?w3\<lparr>w_hdr := []\<rparr>"
      "out s' = out s2 @ w_hdr ?w3 @ drop m p"
      using h2 len5 by auto
    have "5 + k - length T = m" "length T \<le> 5 + k" using jm T(1) by auto
    then have "drop m p = drop (5 + k) (T @ p)" by simp
    then show ?thesis
      using r h2 facts jm False T m
      by (auto simp: reclen_rel_def frag_spec_def)
  qed
qed

lemma reclen_fill_short:
  assumes "length (T @ p) < 5" and "w_hdr w = T"
  shows "reclen_fill frag w p = (w\<lparr>w_hdr := T @ p\<rparr>, length p)"
proof -
  have "min (5 - length T) (length p) = length p" using assms(1) by simp
  then show ?thesis using assms by (simp add: reclen_fill_def)
qed

lemma reclen_fill_full:
  assumes "length T < 5" "5 \<le> length (T @ p)" and w: "w_hdr w = T" "\<not> w_done w" "\<not> w_tls w"
    and h: "h = take 5 (T @ p)" and n: "n = 5 - length T"
  shows "reclen_fill frag w p =
     (case split_point frag (T @ p) of
        None \<Rightarrow> (w\<lparr>w_hdr := h, w_tls := True, w_done := True\<rparr>, n)
      | Some k \<Rightarrow> (w\<lparr>w_hdr := with_len k h, w_tls := True, r1Size := k + 5,
                     r2Size := payload_len h - k + 5\<rparr>, n))"
proof -
  have hd: "T @ take n p = h" "min (5 - length T) (length p) = n" "length h = 5"
    using assms by auto
  have "nat (int (payload_len h) - frag (int (payload_len h))) = payload_len h - nat (frag (int (payload_len h)))"
    if "0 < frag (int (payload_len h))"
    using that by simp
  then show ?thesis
    using hd w h
    by (auto simp: reclen_fill_def Let_def split_point_def new_tls_header_def update_split_lens_def)
qed

theorem reclen_write_step:
  assumes rel: "reclen_rel frag T w" and out0: "out s = o0 @ frag_spec frag T"
    and wr0: "reclen_write frag wr (w, s) p = ((w', s'), n, None)"
  shows "n = length p \<and> reclen_rel frag (T @ p) w' \<and> out s' = o0 @ frag_spec frag (T @ p)"
proof (cases "length T < 5")
  case True
  then have w: "\<not> w_done w" "\<not> w_tls w" "w_hdr w = T" "r1Written w = 0" "r1Size w = 0"
    and o0: "out s = o0"
    using rel out0 by (auto simp: reclen_rel_def frag_spec_def)
  show ?thesis
  proof (cases "length (T @ p) < 5")
    case short: True
    then show ?thesis using wr0 w o0 reclen_fill_short [OF short w(3)]
      by (auto simp: reclen_write_def reclen_rel_def frag_spec_def)
  next
    case False
    define h where "h = take 5 (T @ p)"
    let ?n = "5 - length T"
    have fill: "reclen_fill frag w p =
     (case split_point frag (T @ p) of
        None \<Rightarrow> (w\<lparr>w_hdr := h, w_tls := True, w_done := True\<rparr>, ?n)
      | Some k \<Rightarrow> (w\<lparr>w_hdr := with_len k h, w_tls := True, r1Size := k + 5,
                     r2Size := payload_len h - k + 5\<rparr>, ?n))"
      using False by (intro reclen_fill_full [OF True _ w(3,1,2) h_def refl]) simp
    have Tp: "T @ p = h @ drop ?n p" and hlen: "length h = 5" "take 5 h = h" and nle: "?n \<le> length p"
      using True False by (auto simp: h_def)
    have spc: "split_point frag h = split_point frag (T @ p)"
      unfolding h_def by (rule split_point_take)
    show ?thesis
    proof (cases "split_point frag (T @ p)")
      case None
      have "reclen_rest wr (w\<lparr>w_hdr := h, w_tls := True, w_done := True\<rparr>, s) (drop ?n p) ?n
          = ((w', s'), n, None)"
        using wr0 w fill None by (simp add: reclen_write_def)
      from reclen_rest_ok [OF this] show ?thesis
        using None False Tp hlen o0 nle by (simp add: reclen_rel_def frag_spec_def)
    next
      case (Some k)
      let ?w1 = "w\<lparr>w_hdr := with_len k h, w_tls := True, r1Size := k + 5,
                     r2Size := payload_len h - k + 5\<rparr>"
      have fin: "reclen_split wr (?w1, s) (drop ?n p) ?n = ((w', s'), n, None)"
        using wr0 w fill Some by (simp add: reclen_write_def Let_def)
      have "n = ?n + length (drop ?n p) \<and> reclen_rel frag (h @ drop ?n p) w'
          \<and> out s' = o0 @ frag_spec frag (h @ drop ?n p)"
        by (rule reclen_write_first [OF _ _ _ _ _ _ _ _ fin]) (use w Some spc hlen o0 in simp_all)
      then show ?thesis using Tp nle by simp
    qed
  qed
next
  case T5: False
  show ?thesis
  proof (cases "w_done w")
    case True
    have empty: "w_hdr w = []" using rel T5 True
      by (auto simp: reclen_rel_def split: option.splits if_splits)
    have "reclen_rest wr (w, s) p 0 = ((w', s'), n, None)"
      using wr0 True by (simp add: reclen_write_def)
    from reclen_rest_ok [OF this] show ?thesis
      using rel T5 True out0 empty
      by (auto simp: reclen_rel_def frag_spec_def split: option.splits if_splits)
  next
    case False
    then obtain k where k: "split_point frag T = Some k" "length T < 5 + k"
      using rel T5 by (auto simp: reclen_rel_def split: option.splits if_splits)
    then have w: "w_tls w" "w_hdr w = with_len k (take 5 T)" "r1Size w = k + 5"
      "r2Size w = payload_len (take 5 T) - k + 5" "r1Written w = length T"
      using rel T5 by (auto simp: reclen_rel_def)
    have "n = 0 + length p \<and> reclen_rel frag (T @ p) w' \<and> out s' = o0 @ frag_spec frag (T @ p)"
      by (rule reclen_write_first [where w = w and s = s and k = k])
        (use wr0 w False k T5 out0 in \<open>simp_all add: reclen_write_def Let_def\<close>)
    then show ?thesis by simp
  qed
qed

end

text \<open>On a connection that stays up no call of the fragmenter fails either.\<close>

context reliable_writer
begin

lemma write_n_good: "good s \<Longrightarrow> \<exists>s' m. good s' \<and> write_n wr s p l = (s', m, None)"
  using good_ok by (force simp: write_n_def)

lemma write_both_n_good:
  assumes "good s"
  shows "\<exists>s' a b. good s' \<and> write_both_n wr s p1 p2 l = (s', a, b, None)"
proof -
  define q where "q = (if length p1 + length p2 > l then take (l - length p1) p2 else p2)"
  obtain s1 where s1: "good s1" "wr s (take l p1) = (s1, length (take l p1), None)"
    using good_ok [OF assms] by blast
  obtain s2 where s2: "good s2" "buffer_write_to wr s (p1 @ q) = (s2, length (p1 @ q), [], None)"
    using buffer_write_to_good [OF assms] by blast
  show ?thesis using s1 s2
    by (cases "l \<le> length p1") (auto simp: write_both_n_def write_both_def q_def [symmetric])
qed

lemma reclen_rest_good:
  assumes "good s"
  shows "\<exists>w' s' m. good s' \<and> reclen_rest wr (w, s) p n = ((w', s'), m, None)"
proof (cases "w_hdr w = []")
  case True
  then show ?thesis using good_ok [OF assms, of p] by (auto simp: reclen_rest_def)
next
  case False
  obtain s1 a b where s1: "good s1" "write_both_n wr s (w_hdr w) p 16384 = (s1, a, b, None)"
    using write_both_n_good [OF assms] by blast
  show ?thesis using False s1 good_ok [OF s1(1), of "drop b p"]
    by (cases "drop b p = []") (auto simp: reclen_rest_def)
qed

lemma reclen_first_good:
  "good s \<Longrightarrow> \<exists>w' s' m. good s' \<and> reclen_first wr (w, s) p = ((w', s'), m, None)"
  using write_both_n_good [of s "drop (r1Written w) (take recordHeaderLen (w_hdr w))" p "r1Size w"]
    write_n_good [of s p "int (r1Size w) - int (r1Written w)"]
  by (auto simp: reclen_first_def)

lemma reclen_split_good:
  assumes "good s"
  shows "\<exists>w' s' m. good s' \<and> reclen_split wr (w, s) p n = ((w', s'), m, None)"
proof -
  obtain w2 s2 m where f: "good s2" "reclen_first wr (w, s) p = ((w2, s2), m, None)"
    using reclen_first_good [OF assms] by blast
  show ?thesis
    using reclen_rest_good [OF f(1)] f by (auto simp: reclen_split_def Let_def)
qed

lemma reclen_write_good:
  "good s \<Longrightarrow> \<exists>w' s' m. good s' \<and> reclen_write frag wr (w, s) p = ((w', s'), m, None)"
  using reclen_rest_good reclen_split_good
  by (auto simp: reclen_write_def Let_def split: prod.splits)

end

section \<open>Any sequence of writes\<close>

interpretation reclen_net: stream_filter "reclen_write frag sink_write" "\<lambda>(w, s). wire s"
    "\<lambda>T (w, s). reclen_rel frag T w" "frag_spec frag" "\<lambda>(w, s). healthy s" for frag
proof
  show "\<And>T x o0 p x' n. (case x of (w, s) \<Rightarrow> reclen_rel frag T w) \<Longrightarrow>
      (case x of (w, s) \<Rightarrow> wire s) = o0 @ frag_spec frag T \<Longrightarrow>
      reclen_write frag sink_write x p = (x', n, None) \<Longrightarrow>
      n = length p \<and> (case x' of (w, s) \<Rightarrow> reclen_rel frag (T @ p) w)
      \<and> (case x' of (w, s) \<Rightarrow> wire s) = o0 @ frag_spec frag (T @ p)"
    using net.reclen_write_step by (fastforce split: prod.splits)
  show "\<And>x p. (case x of (w, s) \<Rightarrow> healthy s) \<Longrightarrow>
      \<exists>x' n. (case x' of (w, s) \<Rightarrow> healthy s) \<and> reclen_write frag sink_write x p = (x', n, None)"
    using net.reclen_write_good by fastforce
qed

lemma reclen_write_all:
  assumes "healthy s"
  shows "\<exists>w' s'. write_all (reclen_write frag sink_write) (reclen_init, s) ps
       = ((w', s'), length (concat ps), None)
     \<and> wire s' = wire s @ frag_spec frag (concat ps)"
  using reclen_net.filter_write_all [of frag "[]" "(reclen_init, s)" "wire s" ps]
  by (auto simp: reclen_rel_init frag_spec_Nil assms split: prod.splits)

text \<open>C6: whatever the calls the stream comes in, what leaves is \<open>frag_spec\<close> of it.\<close>

theorem reclen_writes_any_chunking:
  assumes "healthy s"
  shows "\<exists>w' s'. write_all (reclen_write frag sink_write) (reclen_init, s) ps
       = ((w', s'), length (concat ps), None)
     \<and> wire s' = wire s @ frag_spec frag (concat ps)"
  by (rule reclen_write_all) (rule assms)

section \<open>The two records\<close>

text \<open>Reading one handshake record off a stream, as the TLS peer does.\<close>

definition parse_record :: "bytes \<Rightarrow> (bytes \<times> bytes) option" where
  "parse_record T =
     (let h = take 5 T; n = payload_len h in
      if length T < 5 \<or> validate_header h \<noteq> None \<or> length T < 5 + n then None
      else Some (take n (drop 5 T), drop (5 + n) T))"

lemma parse_record_append:
  "length h = 5 \<Longrightarrow> validate_header h = None \<Longrightarrow> payload_len h = length pl \<Longrightarrow>
   parse_record (h @ pl @ rest) = Some (pl, rest)"
  by (simp add: parse_record_def)

lemma frag_spec_two_records:
  assumes T: "parse_record T = Some (pl, rest)" and k: "split_point frag T = Some k"
  shows "\<exists>r. parse_record (frag_spec frag T) = Some (take k pl, r)
     \<and> parse_record r = Some (drop k pl, rest) \<and> length (take k pl) = k"
proof -
  let ?h = "take 5 T"
  note b = split_point_bounds [OF k]
  have len: "length T \<ge> 5 + payload_len ?h" and h5: "length ?h = 5"
    and pl: "pl = take (payload_len ?h) (drop 5 T)" and rest: "rest = drop (5 + payload_len ?h) T"
    using T by (auto simp: parse_record_def Let_def split: if_splits)
  let ?h1 = "with_len k ?h" and ?h2 = "with_len (payload_len ?h - k) ?h"
  have k1: "take k (drop 5 T) = take k pl" "length (take k pl) = k"
    using b(2) pl len by auto
  have k2: "drop (5 + k) T = drop k pl @ rest" "length (drop k pl) = payload_len ?h - k"
  proof -
    have "drop 5 T = pl @ rest" unfolding pl rest
      by (metis append_take_drop_id drop_drop add.commute)
    then have "drop k (drop 5 T) = drop k pl @ rest" using k1(2) by simp
    then show "drop (5 + k) T = drop k pl @ rest" by (simp add: add.commute)
    show "length (drop k pl) = payload_len ?h - k" using pl len by simp
  qed
  have "frag_spec frag T = ?h1 @ take k pl @ (?h2 @ drop k pl @ rest)"
    using k len b(2) k1 k2 by (simp add: frag_spec_def)
  moreover have "parse_record (?h1 @ take k pl @ (?h2 @ drop k pl @ rest))
      = Some (take k pl, ?h2 @ drop k pl @ rest)"
    using b k1(2) h5 by (intro parse_record_append) (simp_all add: validate_with_len payload_len_with_len)
  moreover have "parse_record (?h2 @ drop k pl @ rest) = Some (drop k pl, rest)"
    using b k2(2) h5 by (intro parse_record_append) (simp_all add: validate_with_len payload_len_with_len)
  ultimately show ?thesis using k1(2) by auto
qed

lemma parse_record_split_point:
  assumes "parse_record T = Some (pl, rest)" "frag (int (length pl)) = int k" "0 < k" "k < length pl"
  shows "split_point frag T = Some k"
proof -
  have "validate_header (take 5 T) = None" "payload_len (take 5 T) = length pl"
    using assms(1) by (auto simp: parse_record_def Let_def split: if_splits)
  then show ?thesis using assms(2-4) by (simp add: split_point_def)
qed

text \<open>
  A stream that starts with a complete handshake record leaves, whatever the calls it comes in, as
  two valid handshake records that carry the payload of the original one, cut where the callback
  says, and what follows the record unchanged.
\<close>

theorem reclen_two_records:
  assumes "healthy s" "wire s = []" and "parse_record (concat ps) = Some (pl, rest)"
    and "frag (int (length pl)) = int k" "0 < k" "k < length pl"
  shows "\<exists>w' s' r. write_all (reclen_write frag sink_write) (reclen_init, s) ps = ((w', s'), length (concat ps), None)
     \<and> parse_record (wire s') = Some (take k pl, r) \<and> parse_record r = Some (drop k pl, rest)"
  using reclen_write_all [OF assms(1), of frag ps]
    frag_spec_two_records [of _ pl rest, OF assms(3) parse_record_split_point [of _ pl rest frag, OF assms(3-6)]] assms(2)
  by auto

text \<open>
  \<^verbatim>\<open>WrapConnFixedLen\<close> of \<^verbatim>\<open>stream_dialer.go\<close> turns its \<^verbatim>\<open>splitLen\<close> into this callback.
\<close>

definition fixed_len_frag :: "int \<Rightarrow> reclen_frag" where
  "fixed_len_frag splitLen = (\<lambda>recordLen. if splitLen > 0 then splitLen else recordLen + splitLen)"

lemma fixed_len_split_point:
  assumes "length T \<ge> 5" "validate_header (take 5 T) = None" "splitLen \<noteq> 0"
    and "\<bar>splitLen\<bar> < int (payload_len (take 5 T))"
  shows "split_point (fixed_len_frag splitLen) T =
     Some (if splitLen > 0 then nat splitLen else payload_len (take 5 T) - nat (- splitLen))"
  using assms by (auto simp: split_point_def fixed_len_frag_def Let_def)

lemmas reclen_eval =
  reclen_write_def reclen_fill_def reclen_split_def reclen_first_def reclen_rest_def reclen_init_def
  write_n_def write_both_def write_both_n_def buffer_write_to_def update_split_lens_def
  new_tls_header_def validate_header_def payload_len_def set_payload_len_def
  recordTypeHandshake_def handshake_versions_def subslice_def blit_def put_u16_def
  fixed_len_frag_def frag_spec_def split_point_def wire_def sink_write.simps Let_def

text \<open>
  A record split in a connection that fails inside the first header: the limit of the retried write
  is \<^verbatim>\<open>r1Size\<close> and not what is left of it, so the first record takes bytes of the second.
\<close>

definition short_write_hello :: bytes where
  "short_write_hello = [22, 3, 1, 0, 4, 10, 11, 12, 13]"

definition short_write_sink :: sink where
  "short_write_sink = \<lparr>sent = [], script = [WFail 2 (ErrNew ''timeout'')]\<rparr>"

text \<open>
  After a short write inside the first header, a caller that resumes with the bytes that were
  not taken puts a corrupt stream on the wire: not the fragmented one, and no two records of it.
\<close>

theorem reclen_resume_corrupts:
  "case reclen_write (fixed_len_frag 1) sink_write (reclen_init, short_write_sink) short_write_hello of
     (st, n, e) \<Rightarrow>
       (case reclen_write (fixed_len_frag 1) sink_write st (drop n short_write_hello) of
          ((_, s), m, e') \<Rightarrow>
            e \<noteq> None \<and> e' = None \<and> n + m = length short_write_hello
            \<and> wire s \<noteq> frag_spec (fixed_len_frag 1) short_write_hello
            \<and> wire s = [22, 3, 1, 0, 1, 10, 11, 12, 22, 3, 1, 0, 3, 13])"
  by (simp add: short_write_hello_def short_write_sink_def reclen_eval)

section \<open>Witnesses\<close>

definition short_hello :: bytes where
  "short_hello = [22, 3, 1, 0, 4, 10, 11, 12, 13]"

lemma reclen_writes_any_chunking_witness:
  "\<exists>w' s'. write_all (reclen_write (fixed_len_frag 1) sink_write) (reclen_init, \<lparr>sent = [], script = []\<rparr>)
       [take 3 short_hello, drop 3 short_hello] = ((w', s'), length short_hello, None)
     \<and> wire s' = frag_spec (fixed_len_frag 1) short_hello"
  using reclen_writes_any_chunking [of "\<lparr>sent = [], script = []\<rparr>" "fixed_len_frag 1"
      "[take 3 short_hello, drop 3 short_hello]"]
  by (simp add: short_hello_def healthy_def wire_def del: write_all.simps)

lemma reclen_two_records_witness:
  "\<exists>w' s' r. write_all (reclen_write (fixed_len_frag 1) sink_write) (reclen_init, fresh_sink)
       [take 3 short_hello, drop 3 short_hello] = ((w', s'), length short_hello, None)
     \<and> parse_record (wire s') = Some ([10], r) \<and> parse_record r = Some ([11, 12, 13], [])"
proof -
  have "parse_record (concat [take 3 short_hello, drop 3 short_hello]) = Some ([10, 11, 12, 13], [])"
    by (simp add: parse_record_def short_hello_def reclen_eval)
  from reclen_two_records [OF healthy_fresh wire_fresh this, of "fixed_len_frag 1" 1] show ?thesis
    by (simp add: fixed_len_frag_def del: write_all.simps)
qed

end
