(* ===== verification/ClientHelloFrag.thy ===== *)
theory ClientHelloFrag
  imports RecordLenFrag
begin

text \<open>
  The buffering fragmenter of \<^verbatim>\<open>transport/tlsfrag\<close>: \<^verbatim>\<open>buffer.go\<close> collects the first TLS handshake
  record and \<^verbatim>\<open>writer.go\<close> cuts it in two where a callback on its content says, moving the tail
  inside the buffer. The lemmas give the stream that leaves for every way of cutting the input into
  calls, bound the buffer, and relate this fragmenter to the streaming one.
\<close>

section \<open>The Client Hello buffer\<close>

text \<open>\<open>hb_cap\<close> is the capacity of \<^verbatim>\<open>data\<close>: 5, then 10 more than the payload the header announces.\<close>

record hello_buf =
  hb_data :: bytes
  hb_cap :: nat
  hb_err :: "err option"

definition errFullyReceived :: err where
  "errFullyReceived = ErrNew ''already received a complete TLS Client Hello packet''"

definition new_hello_buf :: hello_buf where
  "new_hello_buf = \<lparr>hb_data = [], hb_cap = recordHeaderLen, hb_err = None\<rparr>"

text \<open>The header phase: \<open>Inl\<close> is an early return with its error, \<open>Inr\<close> goes on.\<close>

definition hb_header ::
  "hello_buf \<Rightarrow> source \<Rightarrow> source \<times> nat \<times> (hello_buf \<times> err option + hello_buf)" where
  "hb_header b src =
     (case read_full src (recordHeaderLen - length (hb_data b)) of
        (src', m, e) \<Rightarrow>
          let b1 = b\<lparr>hb_data := hb_data b @ m\<rparr>; n = length m in
          (case e of
             Some x \<Rightarrow> (src', n, Inl (b1, if x = EOF \<or> x = UnexpectedEOF then None else Some x))
           | None \<Rightarrow>
               (case new_tls_header (hb_data b1) of
                  Inl x \<Rightarrow> (src', n, Inl (b1\<lparr>hb_err := Some x\<rparr>, Some x))
                | Inr hdr \<Rightarrow>
                    (case validate_header hdr of
                       Some x \<Rightarrow> (src', n, Inl (b1\<lparr>hb_err := Some x\<rparr>, Some x))
                     | None \<Rightarrow>
                         (src', n, Inr (b1\<lparr>hb_cap := recordHeaderLen * 2 + payload_len hdr\<rparr>))))))"

text \<open>The payload phase: the loop of \<^verbatim>\<open>Read\<close> calls up to \<^verbatim>\<open>cap(data)-5\<close> bytes.\<close>

definition hb_payload ::
  "hello_buf \<Rightarrow> source \<Rightarrow> hello_buf \<times> source \<times> nat \<times> err option" where
  "hb_payload b src =
     (case read_loop src (hb_cap b - recordHeaderLen - length (hb_data b)) of
        (src', m, e) \<Rightarrow>
          (b\<lparr>hb_data := hb_data b @ m\<rparr>, src', length m,
           case e of
             None \<Rightarrow> Some errFullyReceived
           | Some x \<Rightarrow> (if x = EOF then None else Some x)))"

definition hb_read_from ::
  "hello_buf \<Rightarrow> source \<Rightarrow> hello_buf \<times> source \<times> nat \<times> err option" where
  "hb_read_from b src =
     (if length (hb_data b) < recordHeaderLen
      then (case hb_header b src of
              (src', n, Inl (b', e)) \<Rightarrow> (b', src', n, e)
            | (src', n, Inr b') \<Rightarrow>
                (case hb_payload b' src' of (b'', src'', m, e) \<Rightarrow> (b'', src'', n + m, e)))
      else case hb_err b of
             Some x \<Rightarrow> (b, src, 0, Some x)
           | None \<Rightarrow> hb_payload b src)"

definition hb_write :: "hello_buf \<Rightarrow> bytes \<Rightarrow> hello_buf \<times> nat \<times> err option" where
  "hb_write b p =
     (case hb_read_from b (bytes_reader p) of
        (b', _, n, e) \<Rightarrow> (b', n, if e = None \<and> n \<noteq> length p then Some ShortWrite else e))"

section \<open>The writer\<close>

type_synonym hello_frag = "bytes \<Rightarrow> int"

record hello_writer =
  hw_done :: bool
  hw_buf :: "hello_buf option"
  hw_record :: "bytes option"

definition hello_init :: hello_writer where
  "hello_init = \<lparr>hw_done = False, hw_buf = Some new_hello_buf, hw_record = None\<rparr>"

definition new_hello_writer :: "'s option \<Rightarrow> hello_frag option \<Rightarrow> err + (hello_writer \<times> 's)" where
  "new_hello_writer base frag =
     (case base of
        None \<Rightarrow> Inl (ErrNew ''base writer must not be nil'')
      | Some s \<Rightarrow>
          (case frag of
             None \<Rightarrow> Inl (ErrNew ''frag callback function must not be nil'')
           | Some _ \<Rightarrow> Inr (hello_init, s)))"

definition copy_hello :: "hello_buf \<Rightarrow> hello_writer \<Rightarrow> hello_writer" where
  "copy_hello b w = w\<lparr>hw_record := Some (hb_data b), hw_buf := None\<rparr>"

text \<open>
  The split in place: the array grows by five bytes into its spare capacity, the first header gets
  its length, the tail moves up, and the second header is a copy of the first with its own length.
\<close>

definition split_in_place :: "nat \<Rightarrow> bytes \<Rightarrow> bytes" where
  "split_in_place headLen original =
     (let tailLen = length original - recordHeaderLen - headLen;
          at2 = recordHeaderLen + headLen;
          a0 = original @ replicate recordHeaderLen 0;
          a1 = blit 0 (with_len headLen (take recordHeaderLen a0)) a0;
          a2 = blit (at2 + recordHeaderLen) (subslice at2 (length original) a1) a1;
          a3 = blit at2 (take recordHeaderLen a2) a2
      in blit at2 (with_len tailLen (subslice at2 (at2 + recordHeaderLen) a3)) a3)"

definition split_hello :: "hello_frag \<Rightarrow> hello_buf \<Rightarrow> hello_writer \<Rightarrow> hello_writer" where
  "split_hello frag b w =
     (let original = hb_data b; content = drop recordHeaderLen original; headLen = frag content in
      if headLen \<le> 0 \<or> headLen \<ge> int (length content) then copy_hello b w
      else w\<lparr>hw_record := Some (split_in_place (nat headLen) original), hw_buf := None\<rparr>)"

text \<open>\<^verbatim>\<open>io.Copy\<close> from the \<^verbatim>\<open>bytes.Buffer\<close> is its \<^verbatim>\<open>WriteTo\<close>.\<close>

definition flush_record :: "'s writer \<Rightarrow> hello_writer \<times> 's \<Rightarrow> (hello_writer \<times> 's) \<times> nat \<times> err option" where
  "flush_record wr = (\<lambda>(w, s).
     case hw_record w of
       None \<Rightarrow> ((w, s), 0, None)
     | Some r \<Rightarrow>
         (case buffer_write_to wr s r of
            (s', n, r', e) \<Rightarrow>
              ((if r' = [] then w\<lparr>hw_record := None, hw_done := True\<rparr> else w\<lparr>hw_record := Some r'\<rparr>,
                s'), n, e)))"

text \<open>What \<^verbatim>\<open>Write\<close> and \<^verbatim>\<open>ReadFrom\<close> do with the buffer when it reports \<open>e\<close>.\<close>

definition end_of_hello :: "hello_frag \<Rightarrow> hello_buf \<Rightarrow> err \<Rightarrow> hello_writer \<Rightarrow> hello_writer" where
  "end_of_hello frag b e w =
     (if errors_is e errFullyReceived then split_hello frag b w else copy_hello b w)"

definition hello_rest ::
  "'s writer \<Rightarrow> hello_writer \<times> 's \<Rightarrow> bytes \<Rightarrow> nat \<Rightarrow> (hello_writer \<times> 's) \<times> nat \<times> err option" where
  "hello_rest wr = (\<lambda>(w, s) p n.
     if p \<noteq> [] then (case wr s p of (s', m, e) \<Rightarrow> ((w, s'), n + m, e)) else ((w, s), n, None))"

definition hello_flush_rest ::
  "'s writer \<Rightarrow> hello_writer \<times> 's \<Rightarrow> bytes \<Rightarrow> nat \<Rightarrow> (hello_writer \<times> 's) \<times> nat \<times> err option" where
  "hello_flush_rest wr ws p n =
     (case flush_record wr ws of
        (ws', _, Some e) \<Rightarrow> (ws', n, Some e)
      | (ws', _, None) \<Rightarrow> hello_rest wr ws' p n)"

definition hello_write :: "hello_frag \<Rightarrow> 's writer \<Rightarrow> (hello_writer \<times> 's) writer" where
  "hello_write frag wr = (\<lambda>(w, s) p.
     if hw_done w then hello_rest wr (w, s) p 0
     else case hw_record w of
            Some _ \<Rightarrow> hello_flush_rest wr (w, s) p 0
          | None \<Rightarrow>
              (case hw_buf w of
                 None \<Rightarrow> hello_flush_rest wr (w, s) p 0
               | Some b \<Rightarrow>
                   (case hb_write b p of
                      (b', n, None) \<Rightarrow> ((w\<lparr>hw_buf := Some b'\<rparr>, s), n, None)
                    | (b', n, Some e) \<Rightarrow>
                        hello_flush_rest wr (end_of_hello frag b' e w, s) (drop n p) n)))"

definition hello_read_rest ::
  "'s writer \<Rightarrow> 's reader_from \<Rightarrow> bool \<Rightarrow> hello_writer \<times> 's \<Rightarrow> source \<Rightarrow> nat
   \<Rightarrow> (hello_writer \<times> 's) \<times> source \<times> nat \<times> err option" where
  "hello_read_rest wr rf flush ws src n =
     (case (if flush then flush_record wr ws else (ws, 0, None)) of
        (ws', _, Some e) \<Rightarrow> (ws', src, n, Some e)
      | ((w', s'), _, None) \<Rightarrow>
          (case rf s' src of (s'', src', m, e) \<Rightarrow> ((w', s''), src', n + m, e)))"

definition hello_read_from ::
  "hello_frag \<Rightarrow> 's writer \<Rightarrow> 's reader_from \<Rightarrow> hello_writer \<times> 's \<Rightarrow> source
   \<Rightarrow> (hello_writer \<times> 's) \<times> source \<times> nat \<times> err option" where
  "hello_read_from frag wr rf = (\<lambda>(w, s) src.
     if hw_done w then hello_read_rest wr rf False (w, s) src 0
     else case hw_record w of
            Some _ \<Rightarrow> hello_read_rest wr rf True (w, s) src 0
          | None \<Rightarrow>
              (case hw_buf w of
                 None \<Rightarrow> hello_read_rest wr rf True (w, s) src 0
               | Some b \<Rightarrow>
                   (case hb_read_from b src of
                      (b', src', n, None) \<Rightarrow> ((w\<lparr>hw_buf := Some b'\<rparr>, s), src', n, None)
                    | (b', src', n, Some e) \<Rightarrow>
                        hello_read_rest wr rf True (end_of_hello frag b' e w, s) src' n)))"

section \<open>What it does to a stream\<close>

definition hello_spec :: "hello_frag \<Rightarrow> bytes \<Rightarrow> bytes" where
  "hello_spec frag T =
     (let h = take 5 T; n = payload_len h; content = take n (drop 5 T); k = frag content in
      if length T < 5 then []
      else if validate_header h \<noteq> None then T
      else if length T < 5 + n then []
      else if k \<le> 0 \<or> k \<ge> int n then T
      else with_len (nat k) h @ take (nat k) content @ with_len (n - nat k) h
           @ drop (nat k) content @ drop (5 + n) T)"

section \<open>The split in the buffer\<close>

lemma blit_middle: "length x = length b \<Longrightarrow> n = length a \<Longrightarrow> blit n b (a @ x @ c) = a @ b @ c"
  by (simp add: blit_def)

lemma with_len_of_with_len:
  "length h = 5 \<Longrightarrow> 0 < k \<Longrightarrow> k < 16385 \<Longrightarrow> 0 < m \<Longrightarrow> m < 16385 \<Longrightarrow>
   with_len m (with_len k h) = with_len m h"
  by (rule with_len_twice) simp_all

lemma split_in_place_eq:
  assumes h: "length h = 5" and k: "0 < k" "k = length c1" and m: "0 < m" "m = length c2"
    and max: "k + m \<le> maxRecordPayloadLen"
  shows "split_in_place k (h @ c1 @ c2) = with_len k h @ c1 @ with_len m h @ c2"
proof -
  let ?z = "replicate 5 (0 :: byte)"
  define h1 where "h1 = with_len k h"
  have l1: "length h1 = 5" using h by (simp add: h1_def)
  define x where "x = take 5 (c2 @ ?z)"
  define y where "y = drop 5 (c2 @ ?z)"
  have x: "length x = 5" and y: "length y = length c2"
    by (simp_all add: x_def y_def)
  have xy: "c2 @ ?z = x @ y"
    by (simp only: x_def y_def append_take_drop_id)
  have b1: "blit 0 h1 ((h @ c1 @ c2) @ ?z) = h1 @ c1 @ x @ y"
    using blit_middle [of h h1 0 "[]" "c1 @ c2 @ ?z"] h l1 xy by simp
  have at: "subslice (5 + k) (length (h @ c1 @ c2)) (h1 @ c1 @ x @ y) = c2"
    using l1 k h unfolding xy [symmetric] by (simp add: subslice_def)
  have b2: "blit (5 + k + 5) c2 (h1 @ c1 @ x @ y) = h1 @ c1 @ x @ c2"
    using blit_middle [of y c2 "5 + k + 5" "h1 @ c1 @ x" "[]"] l1 k x y by simp
  have b3: "blit (5 + k) h1 (h1 @ c1 @ x @ c2) = h1 @ c1 @ h1 @ c2"
    using blit_middle [of x h1 "5 + k" "h1 @ c1" c2] l1 k x by simp
  have sub: "subslice (5 + k) (5 + k + 5) (h1 @ c1 @ h1 @ c2) = h1"
    using l1 k by (simp add: subslice_def)
  have b4: "blit (5 + k) (with_len m h1) (h1 @ c1 @ h1 @ c2) = h1 @ c1 @ with_len m h1 @ c2"
    using blit_middle [of h1 "with_len m h1" "5 + k" "h1 @ c1" c2] l1 k by simp
  have tail: "length (h @ c1 @ c2) - 5 - k = m" and t5: "take 5 ((h @ c1 @ c2) @ ?z) = h"
    "take 5 (h1 @ c1 @ x @ c2) = h1"
    using h k m l1 by simp_all
  have "split_in_place k (h @ c1 @ c2) = h1 @ c1 @ with_len m h1 @ c2"
    unfolding split_in_place_def Let_def t5(1) h1_def [symmetric] b1 at b2 t5(2) b3 sub b4 tail ..
  moreover have "with_len m h1 = with_len m h"
    unfolding h1_def using with_len_of_with_len h k m max by simp
  ultimately show ?thesis by (simp add: h1_def)
qed

section \<open>Collecting the record\<close>

text \<open>A clean source either completes the record or is used up.\<close>

lemma read_loop_clean_eq:
  "clean src \<Longrightarrow> \<exists>src'. clean src' \<and> src_bytes src' = drop k (src_bytes src)
   \<and> read_loop src k = (src', take k (src_bytes src),
        if k \<le> length (src_bytes src) then None else Some EOF)"
proof -
  assume c: "clean src"
  obtain s' bs e where r: "read_loop src k = (s', bs, e)" by (metis prod_cases3)
  note rc = read_loop_clean [OF r c]
  have "take k (src_bytes src) @ src_bytes s' = take k (src_bytes src) @ drop k (src_bytes src)"
    using read_loop_bytes [OF r] rc by simp
  then have "src_bytes s' = drop k (src_bytes src)" by (simp only: same_append_eq)
  then show ?thesis using r rc by blast
qed

lemma hb_payload_clean:
  assumes "clean src" and "length T + j = hb_cap b - 5" and "hb_data b = T"
  shows "\<exists>src'. clean src' \<and> src_bytes src' = drop j (src_bytes src)
    \<and> hb_payload b src = (b\<lparr>hb_data := T @ take j (src_bytes src)\<rparr>, src',
         min j (length (src_bytes src)),
         if j \<le> length (src_bytes src) then Some errFullyReceived else None)"
proof -
  have "hb_cap b - 5 - length (hb_data b) = j" using assms by simp
  then show ?thesis
    using read_loop_clean_eq [OF assms(1), of j] assms(3) by (auto simp: hb_payload_def min_def)
qed

lemma hb_header_clean:
  assumes "clean src" and b: "b = \<lparr>hb_data = T, hb_cap = 5, hb_err = None\<rparr>" and T: "length T < 5"
    and D: "D = T @ src_bytes src"
  shows "\<exists>src'. clean src' \<and> src_bytes src' = drop (5 - length T) (src_bytes src)
    \<and> hb_header b src =
      (src', min (5 - length T) (length (src_bytes src)),
       if length D < 5 then Inl (\<lparr>hb_data = D, hb_cap = 5, hb_err = None\<rparr>, None)
       else case validate_header (take 5 D) of
              Some x \<Rightarrow> Inl (\<lparr>hb_data = take 5 D, hb_cap = 5, hb_err = Some x\<rparr>, Some x)
            | None \<Rightarrow> Inr \<lparr>hb_data = take 5 D, hb_cap = 10 + payload_len (take 5 D), hb_err = None\<rparr>)"
proof -
  let ?k = "5 - length T"
  obtain src' where r: "clean src'" "src_bytes src' = drop ?k (src_bytes src)"
    "read_full src ?k = (src', take ?k (src_bytes src),
       if ?k \<le> length (src_bytes src) then None
       else if src_bytes src = [] then Some EOF else Some UnexpectedEOF)"
    using read_full_clean_eq [OF assms(1)] by blast
  have t5: "T @ take ?k (src_bytes src) = take 5 D" using T D by simp
  show ?thesis
  proof (cases "length D < 5")
    case True
    then have "take ?k (src_bytes src) = src_bytes src" "\<not> ?k \<le> length (src_bytes src)"
      using D T by auto
    then show ?thesis using r True b D by (auto simp: hb_header_def Let_def min_def)
  next
    case False
    then have le: "?k \<le> length (src_bytes src)" and "length (take 5 D) = 5" using D T by auto
    then show ?thesis using r False b t5
      by (auto simp: hb_header_def Let_def new_tls_header_def min_def split: option.splits)
  qed
qed

text \<open>
  The buffer while it still waits for bytes, and what a call leaves in it: \<open>hb_result D\<close> is the
  number of bytes of the stream \<open>D\<close> that the buffer takes, and how it reports.
\<close>

definition hb_state :: "bytes \<Rightarrow> hello_buf \<Rightarrow> bool" where
  "hb_state T b \<longleftrightarrow>
     (if length T < 5 then b = \<lparr>hb_data = T, hb_cap = 5, hb_err = None\<rparr>
      else validate_header (take 5 T) = None \<and> length T < 5 + payload_len (take 5 T)
         \<and> b = \<lparr>hb_data = T, hb_cap = 10 + payload_len (take 5 T), hb_err = None\<rparr>)"

definition hb_result :: "bytes \<Rightarrow> nat \<times> err option" where
  "hb_result D =
     (if length D < 5 then (length D, None)
      else case validate_header (take 5 D) of
             Some x \<Rightarrow> (5, Some x)
           | None \<Rightarrow>
               (if length D < 5 + payload_len (take 5 D) then (length D, None)
                else (5 + payload_len (take 5 D), Some errFullyReceived)))"

lemma validate_not_full: "validate_header h = Some x \<Longrightarrow> \<not> errors_is x errFullyReceived"
  by (auto simp: validate_header_def errFullyReceived_def split: if_splits)

lemma hb_result_bound: "hb_result D = (k, e) \<Longrightarrow> k \<le> length D \<and> (e = None \<longrightarrow> k = length D)"
  by (auto simp: hb_result_def split: if_splits option.splits)

lemma hb_state_result_le: "hb_state T b \<Longrightarrow> hb_result (T @ X) = (k, e) \<Longrightarrow> length T \<le> k"
  by (auto simp: hb_state_def hb_result_def split: if_splits option.splits)

lemma hb_read_from_clean:
  assumes st: "hb_state T b" and c: "clean src" and res: "hb_result (T @ src_bytes src) = (k, e)"
  shows "\<exists>b' src'. clean src' \<and> src_bytes src' = drop (k - length T) (src_bytes src)
     \<and> hb_data b' = take k (T @ src_bytes src) \<and> (e = None \<longrightarrow> hb_state (T @ src_bytes src) b')
     \<and> hb_read_from b src = (b', src', k - length T, e)"
proof (cases "length T < 5")
  case True
  let ?D = "T @ src_bytes src"
  have b: "b = \<lparr>hb_data = T, hb_cap = 5, hb_err = None\<rparr>" using st True by (simp add: hb_state_def)
  obtain src1 where s1: "clean src1" "src_bytes src1 = drop (5 - length T) (src_bytes src)"
    and hdr: "hb_header b src = (src1, min (5 - length T) (length (src_bytes src)),
       if length ?D < 5 then Inl (\<lparr>hb_data = ?D, hb_cap = 5, hb_err = None\<rparr>, None)
       else case validate_header (take 5 ?D) of
              Some x \<Rightarrow> Inl (\<lparr>hb_data = take 5 ?D, hb_cap = 5, hb_err = Some x\<rparr>, Some x)
            | None \<Rightarrow> Inr \<lparr>hb_data = take 5 ?D, hb_cap = 10 + payload_len (take 5 ?D), hb_err = None\<rparr>)"
    using hb_header_clean [OF c b True refl] by blast
  show ?thesis
  proof (cases "length ?D < 5")
    case short: True
    then have "min (5 - length T) (length (src_bytes src)) = k - length T" and "k = length ?D" "e = None"
      using res by (auto simp: hb_result_def)
    then show ?thesis using s1 hdr short b True by (auto simp: hb_read_from_def hb_state_def)
  next
    case full: False
    show ?thesis
    proof (cases "validate_header (take 5 ?D)")
      case (Some x)
      then have "k = 5" "e = Some x" using res full by (auto simp: hb_result_def)
      then show ?thesis using s1 hdr full Some b True by (auto simp: hb_read_from_def min_def)
    next
      case None
      define D where "D = ?D"
      let ?N = "payload_len (take 5 D)"
      let ?b1 = "\<lparr>hb_data = take 5 D, hb_cap = 10 + ?N, hb_err = None\<rparr>"
      have l5: "length (take 5 D) = 5" using full by (simp add: D_def)
      have src1: "src_bytes src1 = drop 5 D" using s1(2) True by (simp add: D_def)
      obtain src2 where s2: "clean src2" "src_bytes src2 = drop ?N (src_bytes src1)"
        and pay: "hb_payload ?b1 src1 = (?b1\<lparr>hb_data := take 5 D @ take ?N (src_bytes src1)\<rparr>, src2,
           min ?N (length (src_bytes src1)),
           if ?N \<le> length (src_bytes src1) then Some errFullyReceived else None)"
        using hb_payload_clean [OF s1(1), of "take 5 D" ?N ?b1] l5 by auto
      have dat: "take 5 D @ take ?N (drop 5 D) = take (5 + ?N) D" by (simp add: take_add)
      have ke: "k = (if length D < 5 + ?N then length D else 5 + ?N)"
        "e = (if length D < 5 + ?N then None else Some errFullyReceived)"
        using res full None by (auto simp: hb_result_def D_def)
      have "hb_read_from b src = (?b1\<lparr>hb_data := take k D\<rparr>, src2, k - length T, e)"
        using hdr pay full None b True ke dat src1
        by (auto simp: hb_read_from_def D_def [symmetric] min_def) (auto simp: D_def)
      moreover have "src_bytes src2 = drop (k - length T) (src_bytes src)"
        using s2(2) s1(2) ke True full by (auto simp: D_def add.commute)
      moreover have "e = None \<longrightarrow> hb_state D (?b1\<lparr>hb_data := take k D\<rparr>)"
        using ke full None by (auto simp: hb_state_def D_def)
      ultimately show ?thesis using s2(1) by (auto simp: D_def)
    qed
  qed
next
  case False
  let ?D = "T @ src_bytes src" and ?N = "payload_len (take 5 T)"
  have b: "b = \<lparr>hb_data = T, hb_cap = 10 + ?N, hb_err = None\<rparr>" "length T < 5 + ?N"
    "validate_header (take 5 T) = None"
    using st False by (auto simp: hb_state_def)
  let ?j = "5 + ?N - length T"
  have t5: "take 5 ?D = take 5 T" using False by simp
  obtain src1 where s1: "clean src1" "src_bytes src1 = drop ?j (src_bytes src)"
    and pay: "hb_payload b src = (b\<lparr>hb_data := T @ take ?j (src_bytes src)\<rparr>, src1,
         min ?j (length (src_bytes src)),
         if ?j \<le> length (src_bytes src) then Some errFullyReceived else None)"
    using hb_payload_clean [OF c, of T ?j b] b by auto
  have ke: "k = (if length ?D < 5 + ?N then length ?D else 5 + ?N)"
    "e = (if length ?D < 5 + ?N then None else Some errFullyReceived)"
    using res b t5 False by (auto simp: hb_result_def)
  have rd: "hb_read_from b src = hb_payload b src" using False b(1) by (simp add: hb_read_from_def)
  show ?thesis
  proof (cases "length ?D < 5 + ?N")
    case True
    then show ?thesis using s1 pay rd ke b t5 False by (auto simp: hb_state_def)
  next
    case full: False
    then have "take k ?D = T @ take ?j (src_bytes src)" using ke b(2) by auto
    then show ?thesis using s1 pay rd ke b full by auto
  qed
qed

lemma hb_write_eq:
  assumes "hb_state T b" and "hb_result (T @ p) = (k, e)"
  shows "\<exists>b'. hb_data b' = take k (T @ p) \<and> (e = None \<longrightarrow> hb_state (T @ p) b')
     \<and> hb_write b p = (b', k - length T, e)"
  using hb_read_from_clean [of T b "bytes_reader p" k e] assms hb_result_bound [OF assms(2)]
  by (auto simp: hb_write_def)

section \<open>The stream that leaves\<close>

text \<open>The writer after the bytes \<open>T\<close> went in without an error.\<close>

definition hello_rel :: "bytes \<Rightarrow> hello_writer \<Rightarrow> bool" where
  "hello_rel T w \<longleftrightarrow>
     (case hb_result T of
        (_, None) \<Rightarrow> \<not> hw_done w \<and> hw_record w = None \<and> (\<exists>b. hw_buf w = Some b \<and> hb_state T b)
      | (_, Some _) \<Rightarrow> hw_done w)"

lemma hello_rel_init: "hello_rel [] hello_init" and hello_spec_Nil: "hello_spec frag [] = []"
  by (simp_all add: hello_rel_def hb_result_def hello_init_def new_hello_buf_def hb_state_def
      hello_spec_def)

lemma hello_spec_waiting: "hb_result T = (k, None) \<Longrightarrow> hello_spec frag T = []"
  by (auto simp: hb_result_def hello_spec_def Let_def split: if_splits option.splits)

lemma hello_spec_append:
  assumes "hb_result T = (k, Some x)"
  shows "hello_spec frag (T @ p) = hello_spec frag T @ p"
proof -
  have 5: "\<not> length T < 5" using assms by (auto simp: hb_result_def)
  then have t: "take 5 (T @ p) = take 5 T" "drop 5 (T @ p) = drop 5 T @ p" by simp_all
  show ?thesis
  proof (cases "validate_header (take 5 T)")
    case None
    define n where "n = payload_len (take 5 T)"
    have "\<not> length T < 5 + n" using assms 5 None by (auto simp: hb_result_def n_def split: if_splits)
    then have c: "take n (drop 5 T @ p) = take n (drop 5 T)" and d: "drop (5 + n) (T @ p) = drop (5 + n) T @ p"
      and l: "\<not> length (T @ p) < 5 + n" "\<not> length T < 5 + n"
      by simp_all
    show ?thesis unfolding hello_spec_def Let_def t n_def [symmetric] c d using 5 l None by simp
  qed (use 5 t in \<open>simp add: hello_spec_def Let_def\<close>)
qed

lemma hb_result_append: "hb_result T = (k, Some x) \<Longrightarrow> hb_result (T @ p) = (k, Some x)"
  by (auto simp: hb_result_def split: if_splits option.splits)

text \<open>What is put in \<^verbatim>\<open>record\<close> when the buffer reports, with the bytes it did not take.\<close>

lemma end_of_hello_record:
  assumes res: "hb_result D = (k, Some x)" and dat: "hb_data b = take k D"
  shows "\<exists>r. end_of_hello frag b x w = w\<lparr>hw_record := Some r, hw_buf := None\<rparr> \<and> r \<noteq> []
     \<and> r @ drop k D = hello_spec frag D"
proof -
  let ?h = "take 5 D" and ?N = "payload_len (take 5 D)"
  have D5: "5 \<le> length D" "5 \<le> k" using res by (auto simp: hb_result_def split: if_splits option.splits)
  then have ne: "take k D \<noteq> []" by auto
  show ?thesis
  proof (cases "validate_header ?h")
    case (Some y)
    then have "x = y" using res D5 by (auto simp: hb_result_def)
    then show ?thesis using Some D5 ne dat validate_not_full [OF Some]
      by (auto simp: end_of_hello_def copy_hello_def hello_spec_def)
  next
    case None
    note lim = validate_ok_len [OF None]
    have k: "k = 5 + ?N" "x = errFullyReceived" and full: "5 + ?N \<le> length D"
      using res D5 None by (auto simp: hb_result_def split: if_splits)
    let ?c = "take ?N (drop 5 D)"
    have tk: "take k D = ?h @ ?c" by (simp add: k take_add)
    have lc: "length ?c = ?N" using full by simp
    show ?thesis
    proof (cases "frag ?c \<le> 0 \<or> frag ?c \<ge> int ?N")
      case True
      then have "hello_spec frag D = D" using None D5 full by (simp add: hello_spec_def Let_def)
      moreover have "split_hello frag b w = copy_hello b w"
        using True lc D5 by (simp add: split_hello_def dat tk)
      ultimately show ?thesis using k(2) ne
        by (intro exI [of _ "take k D"]) (simp add: end_of_hello_def copy_hello_def dat)
    next
      case False
      define j where "j = nat (frag ?c)"
      have j: "0 < j" "j < ?N" using False by (auto simp: j_def)
      define c1 where "c1 = take j ?c"
      define c2 where "c2 = drop j ?c"
      have c12: "?c = c1 @ c2" "length c1 = j" "length c2 = ?N - j"
        unfolding c1_def c2_def using j full by (simp_all only: append_take_drop_id) simp_all
      have eq: "split_in_place j (?h @ c1 @ c2) = with_len j ?h @ c1 @ with_len (?N - j) ?h @ c2"
        by (rule split_in_place_eq) (use D5 j c12 lim in simp_all)
      have "split_hello frag b w
          = w\<lparr>hw_record := Some (split_in_place j (?h @ ?c)), hw_buf := None\<rparr>"
        using False lc D5 by (simp add: split_hello_def dat tk j_def Let_def)
      moreover have "hello_spec frag D
          = with_len j ?h @ c1 @ with_len (?N - j) ?h @ c2 @ drop (5 + ?N) D"
        using False None D5 full by (simp add: hello_spec_def Let_def j_def c1_def c2_def)
      moreover have "with_len j ?h \<noteq> []" using D5 length_with_len [of ?h j] by force
      ultimately show ?thesis using k eq c12 by (simp add: end_of_hello_def)
    qed
  qed
qed

context go_writer
begin

lemma hello_flush_rest_ok:
  assumes "hello_flush_rest wr (w\<lparr>hw_record := Some r, hw_buf := None\<rparr>, s) p n0 = ((w', s'), n, None)"
    and "r \<noteq> []"
  shows "hw_done w' \<and> out s' = out s @ r @ p \<and> n = n0 + length p"
proof -
  obtain s1 m b e where b: "buffer_write_to wr s r = (s1, m, b, e)" by (metis prod_cases4)
  have e: "e = None" using assms b
    by (auto simp: hello_flush_rest_def flush_record_def split: if_splits option.splits)
  note bw = buffer_write_to_out [OF b]
  have "m = length r" using bw(4) e by simp
  then have f: "out s1 = out s @ r" "b = []" using bw by simp_all
  show ?thesis
  proof (cases "p = []")
    case True
    then show ?thesis using assms b e f
      by (auto simp: hello_flush_rest_def flush_record_def hello_rest_def)
  next
    case False
    obtain s2 j e2 where w2: "wr s1 p = (s2, j, e2)" by (metis prod_cases3)
    have "e2 = None" "hw_done w'" "s' = s2" "n = n0 + j"
      using assms b e f w2 False
      by (auto simp: hello_flush_rest_def flush_record_def hello_rest_def)
    then show ?thesis using wr_full [of s1 p s2 j] wr_ok [of s1 p s2 j] w2 f by simp
  qed
qed

lemma hello_write_step:
  assumes rel: "hello_rel T w" and out0: "out s = o0 @ hello_spec frag T"
    and wr0: "hello_write frag wr (w, s) p = ((w', s'), n, None)"
  shows "n = length p \<and> hello_rel (T @ p) w' \<and> out s' = o0 @ hello_spec frag (T @ p)"
proof -
  obtain k0 e0 where r0: "hb_result T = (k0, e0)" by fastforce
  show ?thesis
  proof (cases e0)
    case (Some x)
    then have d: "hw_done w" using rel r0 by (simp add: hello_rel_def)
    obtain s1 m e1 where w1: "wr s p = (s1, m, e1)" by (metis prod_cases3)
    have "n = length p \<and> w' = w \<and> out s' = out s @ p"
      using wr0 d w1 wr_full [of s p s1 m] wr_ok [of s p s1 m]
      by (auto simp: hello_write_def hello_rest_def split: if_splits)
    then show ?thesis
      using d out0 hello_spec_append [OF r0 [unfolded Some]] hb_result_append [OF r0 [unfolded Some]]
      by (simp add: hello_rel_def)
  next
    case None
    then obtain b where b: "\<not> hw_done w" "hw_record w = None" "hw_buf w = Some b" "hb_state T b"
      using rel r0 by (auto simp: hello_rel_def)
    have o: "out s = o0" using out0 hello_spec_waiting [OF r0 [unfolded None]] by simp
    obtain k e where r: "hb_result (T @ p) = (k, e)" by fastforce
    note kT = hb_state_result_le [OF b(4) r] and kb = hb_result_bound [OF r]
    obtain b' where b': "hb_data b' = take k (T @ p)" "e = None \<longrightarrow> hb_state (T @ p) b'"
      "hb_write b p = (b', k - length T, e)"
      using hb_write_eq [OF b(4) r] by blast
    show ?thesis
    proof (cases e)
      case None
      then show ?thesis using wr0 b b' o r kb hello_spec_waiting [of "T @ p" k frag]
        by (auto simp: hello_write_def hello_rel_def)
    next
      case (Some x)
      obtain q where q: "end_of_hello frag b' x w = w\<lparr>hw_record := Some q, hw_buf := None\<rparr>" "q \<noteq> []"
        "q @ drop k (T @ p) = hello_spec frag (T @ p)"
        using end_of_hello_record [OF r [unfolded Some] b'(1)] by blast
      have "hello_flush_rest wr (w\<lparr>hw_record := Some q, hw_buf := None\<rparr>, s)
          (drop (k - length T) p) (k - length T) = ((w', s'), n, None)"
        using wr0 b b' Some q by (simp add: hello_write_def)
      from hello_flush_rest_ok [OF this q(2)]
      have "hw_done w'" "out s' = out s @ q @ drop (k - length T) p"
        "n = k - length T + length (drop (k - length T) p)" by auto
      moreover have "drop k (T @ p) = drop (k - length T) p" using kT by simp
      ultimately show ?thesis using o q kT kb r Some by (auto simp: hello_rel_def)
    qed
  qed
qed

end

text \<open>A connection that stays up: no call of the fragmenter fails.\<close>

context reliable_writer
begin

lemma hello_rest_good: "good s \<Longrightarrow> \<exists>ws' n. good (snd ws') \<and> hello_rest wr (w, s) p m = (ws', n, None)"
  using good_ok [of s p] by (auto simp: hello_rest_def)

lemma hello_flush_rest_good:
  assumes "good s"
  shows "\<exists>ws' n. good (snd ws') \<and> hello_flush_rest wr (w, s) p m = (ws', n, None)"
proof (cases "hw_record w")
  case None
  then show ?thesis using hello_rest_good [OF assms]
    by (simp add: hello_flush_rest_def flush_record_def)
next
  case (Some r)
  obtain s1 where s1: "good s1" "buffer_write_to wr s r = (s1, length r, [], None)"
    using buffer_write_to_good [OF assms] by blast
  show ?thesis using hello_rest_good [OF s1(1)] s1(2) Some
    by (simp add: hello_flush_rest_def flush_record_def)
qed

lemma hello_write_good:
  "good s \<Longrightarrow> \<exists>ws' n. good (snd ws') \<and> hello_write frag wr (w, s) p = (ws', n, None)"
  using hello_flush_rest_good hello_rest_good
  by (auto simp: hello_write_def split: option.splits prod.splits)

end

interpretation hello_net: stream_filter "hello_write frag sink_write" "\<lambda>(w, s). wire s"
    "\<lambda>T (w, s). hello_rel T w" "hello_spec frag" "\<lambda>(w, s). healthy s" for frag
proof
  show "\<And>T x o0 p x' n. (case x of (w, s) \<Rightarrow> hello_rel T w) \<Longrightarrow>
      (case x of (w, s) \<Rightarrow> wire s) = o0 @ hello_spec frag T \<Longrightarrow>
      hello_write frag sink_write x p = (x', n, None) \<Longrightarrow>
      n = length p \<and> (case x' of (w, s) \<Rightarrow> hello_rel (T @ p) w)
      \<and> (case x' of (w, s) \<Rightarrow> wire s) = o0 @ hello_spec frag (T @ p)"
    using net.hello_write_step by (fastforce split: prod.splits)
  show "\<And>x p. (case x of (w, s) \<Rightarrow> healthy s) \<Longrightarrow>
      \<exists>x' n. (case x' of (w, s) \<Rightarrow> healthy s) \<and> hello_write frag sink_write x p = (x', n, None)"
    using net.hello_write_good by fastforce
qed

lemma hello_write_all:
  assumes "healthy s"
  shows "\<exists>w' s'. write_all (hello_write frag sink_write) (hello_init, s) ps
       = ((w', s'), length (concat ps), None)
     \<and> wire s' = wire s @ hello_spec frag (concat ps)"
  using hello_net.filter_write_all [of "[]" "(hello_init, s)" "wire s" frag ps]
  by (auto simp: hello_rel_init hello_spec_Nil assms split: prod.splits)

text \<open>C5: whatever the calls the stream comes in, what leaves is \<open>hello_spec\<close> of it.\<close>

theorem hello_writes_any_chunking:
  assumes "healthy s"
  shows "\<exists>w' s'. write_all (hello_write frag sink_write) (hello_init, s) ps
       = ((w', s'), length (concat ps), None)
     \<and> wire s' = wire s @ hello_spec frag (concat ps)"
  by (rule hello_write_all) (rule assms)

lemma hello_writes_any_chunking_witness:
  "\<exists>w' s'. write_all (hello_write (\<lambda>_. 1) sink_write) (hello_init, fresh_sink) [[22, 3], [1, 0, 2, 7, 8, 9]]
       = ((w', s'), length (concat [[22, 3], [1, 0, 2, 7, 8, 9 :: byte]]), None)
     \<and> wire s' = [22, 3, 1, 0, 1, 7, 22, 3, 1, 0, 1, 8, 9]"
  using hello_writes_any_chunking [of fresh_sink "\<lambda>_. 1" "[[22, 3], [1, 0, 2, 7, 8, 9]]"]
  by (simp del: write_all.simps add: hello_spec_def validate_header_def payload_len_def
      set_payload_len_def recordTypeHandshake_def handshake_versions_def subslice_def blit_def put_u16_def Let_def)

lemma specs_agree:
  assumes "parse_record T = Some (pl, rest)"
  shows "hello_spec (\<lambda>c. fr (int (length c))) T = frag_spec fr T"
proof -
  let ?h = "take 5 T" and ?n = "payload_len (take 5 T)"
  have f: "5 \<le> length T" "validate_header ?h = None" "5 + ?n \<le> length T"
    using assms by (auto simp: parse_record_def Let_def split: if_splits)
  then have l: "length (take ?n (drop 5 T)) = ?n" by simp
  show ?thesis
  proof (cases "fr (int ?n) \<le> 0 \<or> fr (int ?n) \<ge> int ?n")
    case True
    then show ?thesis using f l
      by (auto simp: hello_spec_def frag_spec_def split_point_def Let_def)
  next
    case False
    define k where "k = nat (fr (int ?n))"
    have k: "0 < k" "k < ?n" "split_point fr T = Some k"
      using False f by (auto simp: k_def split_point_def Let_def)
    have "drop k (take ?n (drop 5 T)) @ drop (5 + ?n) T = drop (5 + k) T"
    proof -
      have "drop k (take ?n (drop 5 T)) @ drop (?n - k) (drop k (drop 5 T)) = drop k (drop 5 T)"
        by (metis append_take_drop_id drop_take)
      then show ?thesis using k f by (simp add: add.commute)
    qed
    moreover have "take k (take ?n (drop 5 T)) = take k (drop 5 T)" using k by (simp add: min_def)
    ultimately show ?thesis using f k l False
      by (auto simp: hello_spec_def frag_spec_def Let_def k_def)
  qed
qed

text \<open>A stream that has a whole header of a handshake record, but not all of the record.\<close>

definition record_incomplete :: "bytes \<Rightarrow> bool" where
  "record_incomplete T \<longleftrightarrow>
     5 \<le> length T \<and> validate_header (take 5 T) = None \<and> length T < 5 + payload_len (take 5 T)"

lemma specs_cases:
  "hello_spec (\<lambda>c. fr (int (length c))) T = (if record_incomplete T then [] else frag_spec fr T)"
proof -
  consider (short) "length T < 5" | (plain) "5 \<le> length T" "validate_header (take 5 T) \<noteq> None" | (part) "record_incomplete T"
    | (whole) "5 \<le> length T" "validate_header (take 5 T) = None" "5 + payload_len (take 5 T) \<le> length T"
    by (cases "length T < 5"; cases "validate_header (take 5 T) = None"; cases "length T < 5 + payload_len (take 5 T)")
      (simp_all add: record_incomplete_def)
  then show ?thesis
  proof cases
    case whole
    then obtain pl rest where "parse_record T = Some (pl, rest)" by (auto simp: parse_record_def Let_def)
    then show ?thesis using specs_agree [of T pl rest fr] whole by (simp add: record_incomplete_def)
  qed (auto simp: record_incomplete_def hello_spec_def frag_spec_def split_point_def Let_def)
qed

text \<open>
  C37: with a callback that looks at the length of the content only, the buffering fragmenter and the
  streaming one of \<^verbatim>\<open>record_len_writer.go\<close> put the same bytes on the wire, also when the same stream comes in
  different calls, except while the first record is under way: after a valid header and before the record is complete
  the buffering one has sent nothing. In particular they agree once that record is complete.
\<close>

theorem buffered_streaming_agree:
  assumes "concat qs = concat ps" "healthy s"
  shows "\<exists>w w' t t'.
       write_all (hello_write (\<lambda>c. fr (int (length c))) sink_write) (hello_init, s) ps = ((w, t), length (concat ps), None)
     \<and> write_all (reclen_write fr sink_write) (reclen_init, s) qs = ((w', t'), length (concat ps), None)
     \<and> wire t = (if record_incomplete (concat ps) then wire s else wire t')"
proof -
  obtain w t where "write_all (hello_write (\<lambda>c. fr (int (length c))) sink_write) (hello_init, s) ps = ((w, t), length (concat ps), None)"
    "wire t = wire s @ hello_spec (\<lambda>c. fr (int (length c))) (concat ps)"
    using hello_write_all [OF assms(2)] by blast
  moreover obtain w' t' where "write_all (reclen_write fr sink_write) (reclen_init, s) qs = ((w', t'), length (concat qs), None)"
    "wire t' = wire s @ frag_spec fr (concat qs)"
    using reclen_write_all [OF assms(2)] by blast
  ultimately show ?thesis using specs_cases [of fr "concat ps"] assms(1)
    by (intro exI [of _ w] exI [of _ w'] exI [of _ t] exI [of _ t']) simp
qed

lemma buffered_streaming_agree_witness:
  "\<exists>w w' t t'.
       write_all (hello_write (\<lambda>c. fixed_len_frag (-1) (int (length c))) sink_write) (hello_init, fresh_sink)
         [[22, 3, 3, 0, 2, 7, 8, 9]] = ((w, t), length (concat [[22, 3, 3, 0, 2, 7, 8, 9 :: byte]]), None)
     \<and> write_all (reclen_write (fixed_len_frag (-1)) sink_write) (reclen_init, fresh_sink)
         [[22, 3, 3], [0, 2, 7, 8, 9]] = ((w', t'), length (concat [[22, 3, 3, 0, 2, 7, 8, 9 :: byte]]), None)
     \<and> wire t = wire t'"
proof -
  have "\<not> record_incomplete (concat [[22, 3, 3, 0, 2, 7, 8, 9]])"
    by (simp add: record_incomplete_def validate_header_def payload_len_def recordTypeHandshake_def
        handshake_versions_def subslice_def)
  then show ?thesis
    using buffered_streaming_agree [of "[[22, 3, 3], [0, 2, 7, 8, 9]]" "[[22, 3, 3, 0, 2, 7, 8, 9]]" fresh_sink "fixed_len_frag (-1)"]
    by (simp del: write_all.simps)
qed

text \<open>The buffer never holds more than one record, whatever the peer puts in the header.\<close>

lemma hb_state_bound: "hb_state T b \<Longrightarrow> length (hb_data b) < hb_cap b \<and> hb_cap b \<le> 16394"
  using validate_ok_len [of "take 5 T"] by (auto simp: hb_state_def split: if_splits)

end
