(* ===== verification/SplitStream.thy ===== *)
theory SplitStream
  imports GoIO
begin

text \<open>
  The splitter of \<^verbatim>\<open>transport/split\<close>: it passes a stream on unchanged, but cuts it into several
  \<^verbatim>\<open>Write\<close> calls at the positions a \<^verbatim>\<open>SplitIterator\<close> gives. The lemmas show that the bytes are
  unchanged, which calls are made, and that every cut position ends a call.
\<close>

section \<open>Iterators\<close>

text \<open>
  The closures that the constructors return, with the variables they capture; \<open>next_segment\<close> is a
  call of the closure. Any other iterator is a function of the same type on its own state.
\<close>

record repeated_split =
  Count :: int
  Bytes :: int

datatype split_iter = FixedIter int | RepeatedIter "repeated_split list"

definition new_fixed_split_iterator :: "int \<Rightarrow> split_iter" where
  "new_fixed_split_iterator n = FixedIter n"

definition new_repeated_split_iterator :: "repeated_split list \<Rightarrow> split_iter" where
  "new_repeated_split_iterator splits = RepeatedIter (filter (\<lambda>x. Count x > 0 \<and> Bytes x > 0) splits)"

fun next_segment :: "split_iter \<Rightarrow> split_iter \<times> int" where
  "next_segment (FixedIter n) = (FixedIter 0, n)"
| "next_segment (RepeatedIter []) = (RepeatedIter [], 0)"
| "next_segment (RepeatedIter (x # xs)) =
     (RepeatedIter (if Count x - 1 = 0 then xs else x\<lparr>Count := Count x - 1\<rparr> # xs), Bytes x)"

section \<open>The writer\<close>

record 'i split_writer =
  nextSplitBytes :: int
  segments :: 'i

definition new_split_writer :: "('i \<Rightarrow> 'i \<times> int) \<Rightarrow> 'i \<Rightarrow> 'i split_writer" where
  "new_split_writer nxt i = (case nxt i of (i', n) \<Rightarrow> \<lparr>nextSplitBytes = n, segments = i'\<rparr>)"

definition advance :: "('i \<Rightarrow> 'i \<times> int) \<Rightarrow> int \<Rightarrow> 'i split_writer \<Rightarrow> 'i split_writer" where
  "advance nxt n w =
     (if nextSplitBytes w = 0 then w
      else let w' = w\<lparr>nextSplitBytes := nextSplitBytes w - n\<rparr> in
        if nextSplitBytes w' > 0 then w'
        else case nxt (segments w') of (i, k) \<Rightarrow> w'\<lparr>nextSplitBytes := k, segments := i\<rparr>)"

text \<open>
  The loops of \<^verbatim>\<open>Write\<close> and \<^verbatim>\<open>ReadFrom\<close>. A base writer that takes nothing and reports no error makes
  the first one run for ever, hence \<^verbatim>\<open>partial_function\<close>; \<open>None\<close> is "does not return".
\<close>

partial_function (option) split_loop ::
  "('i \<Rightarrow> 'i \<times> int) \<Rightarrow> 's writer \<Rightarrow> 'i split_writer \<Rightarrow> 's \<Rightarrow> bytes \<Rightarrow> nat
   \<Rightarrow> (('i split_writer \<times> 's) \<times> nat \<times> err option) option" where
  "split_loop nxt wr w s p written =
     (if 0 < nextSplitBytes w \<and> nextSplitBytes w < int (length p)
      then (case wr s (take (nat (nextSplitBytes w)) p) of
              (s', n, Some e) \<Rightarrow> Some ((advance nxt (int n) w, s'), written + n, Some e)
            | (s', n, None) \<Rightarrow>
                split_loop nxt wr (advance nxt (int n) w) s' (drop n p) (written + n))
      else (case wr s p of
              (s', n, e) \<Rightarrow> Some ((advance nxt (int n) w, s'), written + n, e)))"

definition split_write :: "('i \<Rightarrow> 'i \<times> int) \<Rightarrow> 's writer \<Rightarrow> ('i split_writer \<times> 's) writer" where
  "split_write nxt wr = (\<lambda>(w, s) p. the (split_loop nxt wr w s p 0))"

partial_function (option) split_read_from ::
  "('i \<Rightarrow> 'i \<times> int) \<Rightarrow> 's reader_from \<Rightarrow> 'i split_writer \<Rightarrow> 's \<Rightarrow> source \<Rightarrow> nat
   \<Rightarrow> (('i split_writer \<times> 's) \<times> source \<times> nat \<times> err option) option" where
  "split_read_from nxt rf w s src written =
     (if nextSplitBytes w > 0
      then (let (l, q) = limit_reader src (nat (nextSplitBytes w)); (s', l', n, e) = rf s l;
                w' = advance nxt (int n) w in
            if e \<noteq> None then Some ((w', s'), l' @ q, written + n, e)
            else if int n < nextSplitBytes w then Some ((w', s'), l' @ q, written + n, e)
            else split_read_from nxt rf w' s' (l' @ q) (written + n))
      else (case rf s src of
              (s', src', n, e) \<Rightarrow> Some ((advance nxt (int n) w, s'), src', written + n, e)))"

section \<open>Write returns and takes what the base writer took\<close>

context go_writer
begin

lemma split_loop_out:
  "\<exists>w' s' n e. split_loop nxt wr w s p m = Some ((w', s'), m + n, e)
     \<and> out s' = out s @ take n p \<and> n \<le> length p \<and> (e = None \<longrightarrow> n = length p)"
proof (induction "length p" arbitrary: w s p m rule: less_induct)
  case less
  let ?k = "nat (nextSplitBytes w)"
  show ?case
  proof (cases "0 < nextSplitBytes w \<and> nextSplitBytes w < int (length p)")
    case True
    obtain s1 n1 e1 where w1: "wr s (take ?k p) = (s1, n1, e1)" by (metis prod_cases3)
    note o1 = wr_out [OF w1] wr_len [OF w1]
    show ?thesis
    proof (cases e1)
      case (Some x)
      have "n1 \<le> ?k" "n1 \<le> length p" using o1(2) True by auto
      then have "out s1 = out s @ take n1 p" using o1(1) by (simp add: min_def)
      moreover have "split_loop nxt wr w s p m = Some ((advance nxt (int n1) w, s1), m + n1, e1)"
        using True w1 Some by (subst split_loop.simps) simp
      ultimately show ?thesis using Some \<open>n1 \<le> length p\<close> by blast
    next
      case None
      then have n1: "n1 = ?k" using wr_full [of s "take ?k p" s1 n1] w1 True
        by (auto simp: min_def)
      then have lt: "length (drop n1 p) < length p" using True by auto
      obtain w2 s2 n2 e2 where r: "split_loop nxt wr (advance nxt (int n1) w) s1 (drop n1 p) (m + n1)
            = Some ((w2, s2), m + n1 + n2, e2)"
        and o2: "out s2 = out s1 @ take n2 (drop n1 p)" "n2 \<le> length (drop n1 p)"
          "e2 = None \<longrightarrow> n2 = length (drop n1 p)"
        using less [OF lt] by blast
      have "split_loop nxt wr w s p m = Some ((w2, s2), m + (n1 + n2), e2)"
        using True w1 None r by (subst split_loop.simps) (simp add: add.assoc)
      moreover have "out s2 = out s @ take (n1 + n2) p"
        using o1(1) o2(1) n1 True by (simp add: take_add)
      ultimately show ?thesis using o2 n1 True by fastforce
    qed
  next
    case False
    obtain s1 n1 e1 where w1: "wr s p = (s1, n1, e1)" by (metis prod_cases3)
    have "split_loop nxt wr w s p m = Some ((advance nxt (int n1) w, s1), m + n1, e1)"
      using False w1 by (subst split_loop.simps) auto
    then show ?thesis using wr_out [OF w1] wr_len [OF w1] wr_full [of s p s1 n1] w1 by blast
  qed
qed

lemma split_write_out:
  "split_write nxt wr (w, s) p = ((w', s'), n, e) \<Longrightarrow>
   out s' = out s @ take n p \<and> n \<le> length p \<and> (e = None \<longrightarrow> n = length p)"
  using split_loop_out [of nxt w s p 0] by (auto simp: split_write_def)

end

text \<open>So the splitter on a connection is itself a writer that keeps the contract.\<close>

interpretation split_net: go_writer "split_write nxt sink_write" "\<lambda>(w, s). wire s" for nxt
  using net.split_write_out by unfold_locales (fastforce split: prod.splits)+

section \<open>ReadFrom returns and takes the whole reader\<close>

context go_reader_from
begin

lemma split_read_from_out:
  "clean src \<Longrightarrow> \<exists>w' s' src' n e. split_read_from nxt rf w s src m = Some ((w', s'), src', m + n, e)
     \<and> out s' = out s @ take n (src_bytes src) \<and> n \<le> length (src_bytes src)
     \<and> (e = None \<longrightarrow> n = length (src_bytes src))"
proof (induction "length (src_bytes src)" arbitrary: w s src m rule: less_induct)
  case less
  let ?k = "nat (nextSplitBytes w)"
  show ?case
  proof (cases "nextSplitBytes w > 0")
    case False
    obtain s1 q n e where r: "rf s src = (s1, q, n, e)" by (metis prod_cases4)
    have "split_read_from nxt rf w s src m = Some ((advance nxt (int n) w, s1), q, m + n, e)"
      using False r by (subst split_read_from.simps) simp
    then show ?thesis using rf_out [OF r] rf_full [OF less.prems, of s s1 q n] r by blast
  next
    case True
    obtain l q where l: "limit_reader src ?k = (l, q)" by fastforce
    have lb: "src_bytes l = take ?k (src_bytes src)" "src_bytes q = drop ?k (src_bytes src)"
      and lc: "clean l" "clean q"
      using limit_reader_bytes [OF l] limit_reader_clean [OF l less.prems] by auto
    obtain s1 l1 n e where r: "rf s l = (s1, l1, n, e)" by (metis prod_cases4)
    have o1: "out s1 = out s @ take n (src_bytes l)" "n \<le> length (src_bytes l)"
      using rf_out [OF r] by auto
    have nk: "n \<le> ?k" "n \<le> length (src_bytes src)" using o1(2) lb(1) by auto
    then have o2: "out s1 = out s @ take n (src_bytes src)" using o1(1) lb(1) by (simp add: min_def)
    let ?w1 = "advance nxt (int n) w"
    show ?thesis
    proof (cases "e \<noteq> None \<or> int n < nextSplitBytes w")
      case stop: True
      have "split_read_from nxt rf w s src m = Some ((?w1, s1), l1 @ q, m + n, e)"
        using True l r stop by (subst split_read_from.simps) (auto simp: Let_def)
      moreover have "e = None \<longrightarrow> n = length (src_bytes src)"
      proof
        assume "e = None"
        then have "n = length (src_bytes l)" "int n < nextSplitBytes w"
          using rf_full [OF lc(1), of s s1 l1 n] r stop by auto
        then show "n = length (src_bytes src)" using lb(1) by auto
      qed
      ultimately show ?thesis using o2 nk(2) by blast
    next
      case go: False
      have f: "n = length (src_bytes l)" "l1 = []" using rf_full [OF lc(1), of s s1 l1 n] r go by auto
      have "nextSplitBytes w \<le> int n" using go by simp
      then have n: "n = ?k" using nk(1) by (simp add: nat_le_iff)
      then have lt: "length (src_bytes q) < length (src_bytes src)" using True nk lb(2) by simp
      obtain w2 s2 q2 n2 e2 where
        rr: "split_read_from nxt rf ?w1 s1 q (m + n) = Some ((w2, s2), q2, m + n + n2, e2)"
        and o3: "out s2 = out s1 @ take n2 (src_bytes q)" "n2 \<le> length (src_bytes q)"
          "e2 = None \<longrightarrow> n2 = length (src_bytes q)"
        using less.hyps [OF lt lc(2)] by blast
      have "split_read_from nxt rf w s src m = Some ((w2, s2), q2, m + (n + n2), e2)"
        using True l r go f rr by (subst split_read_from.simps) (simp add: add.assoc)
      moreover have "out s2 = out s @ take (n + n2) (src_bytes src)"
        using o2 o3(1) lb(2) n by (simp add: take_add)
      moreover have "n + n2 \<le> length (src_bytes src)" "e2 = None \<longrightarrow> n + n2 = length (src_bytes src)"
        using o3 lb(2) nk(2) n by auto
      ultimately show ?thesis by blast
    qed
  qed
qed

end

section \<open>Which calls are made\<close>

text \<open>
  The list of the segment lengths still to come, and what a client's \<^verbatim>\<open>Write\<close> of \<open>p\<close> does with it:
  the calls made (\<open>pieces\<close>) and the lengths left after it (\<open>skip\<close>).
\<close>

fun pieces :: "int list \<Rightarrow> 'a list \<Rightarrow> 'a list list" where
  "pieces [] p = [p]"
| "pieces (k # ks) p =
     (if k < int (length p) then take (nat k) p # pieces ks (drop (nat k) p) else [p])"

fun skip :: "int list \<Rightarrow> int \<Rightarrow> int list" where
  "skip [] n = []"
| "skip (k # ks) n = (if n < k then (k - n) # ks else skip ks (n - k))"

fun all_pieces :: "int list \<Rightarrow> 'a list list \<Rightarrow> 'a list list" where
  "all_pieces ks [] = []"
| "all_pieces ks (p # ps) = pieces ks p @ all_pieces (skip ks (int (length p))) ps"

text \<open>The positions of the cuts, and the positions where a call ends, from position \<open>t\<close> on.\<close>

fun cuts :: "nat \<Rightarrow> int list \<Rightarrow> nat list" where
  "cuts t [] = []"
| "cuts t (k # ks) = (t + nat k) # cuts (t + nat k) ks"

fun ends :: "nat \<Rightarrow> 'a list list \<Rightarrow> nat list" where
  "ends t [] = [t]"
| "ends t (x # xs) = t # ends (t + length x) xs"

lemma concat_pieces: "concat (pieces ks p) = p"
  by (induction ks p rule: pieces.induct) auto

lemma concat_all_pieces: "concat (all_pieces ks ps) = concat ps"
  by (induction ks ps rule: all_pieces.induct) (simp_all add: concat_pieces)

lemma ends_append: "set (ends t (xs @ ys)) = set (ends t xs) \<union> set (ends (t + length (concat xs)) ys)"
proof (induction xs arbitrary: t)
  case Nil
  then show ?case by (cases ys) simp_all
next
  case (Cons x xs)
  have "set (ends t ((x # xs) @ ys)) = insert t (set (ends (t + length x) (xs @ ys)))" by simp
  also have "\<dots> = set (ends t (x # xs)) \<union> set (ends (t + length (concat (x # xs))) ys)"
    by (simp only: Cons.IH) (simp add: add.assoc)
  finally show ?case .
qed

lemma cuts_ge: "c \<in> set (cuts t ks) \<Longrightarrow> t \<le> c"
  by (induction t ks rule: cuts.induct) auto

lemma last_ends: "t + length (concat xs) \<in> set (ends t xs)"
  by (induction t xs rule: ends.induct) (simp_all add: add.assoc)

lemma pieces_ends:
  "\<forall>k \<in> set ks. 0 < k \<Longrightarrow> c \<in> set (cuts t ks) \<Longrightarrow> c \<le> t + length p \<Longrightarrow> c \<in> set (ends t (pieces ks p))"
proof (induction ks arbitrary: t p)
  case Nil
  then show ?case by simp
next
  case (Cons k ks)
  show ?case
  proof (cases "k < int (length p)")
    case True
    then have "c = t + nat k \<or> c \<in> set (ends (t + nat k) (pieces ks (drop (nat k) p)))"
      using Cons.IH [of "t + nat k" "drop (nat k) p"] Cons.prems by auto
    moreover have "t + nat k \<in> set (ends (t + nat k) (pieces ks (drop (nat k) p)))"
      by (cases "pieces ks (drop (nat k) p)") simp_all
    moreover have "length (take (nat k) p) = nat k" using True by simp
    ultimately have "c \<in> set (ends (t + length (take (nat k) p)) (pieces ks (drop (nat k) p)))"
      by auto
    then show ?thesis using True by simp
  next
    case False
    then have "c = t + length p" using Cons.prems cuts_ge [of c "t + nat k" ks] by auto
    then show ?thesis using False by simp
  qed
qed

lemma skip_cuts:
  "\<forall>k \<in> set ks. 0 < k \<Longrightarrow> c \<in> set (cuts t ks) \<Longrightarrow> t + n < c \<Longrightarrow> c \<in> set (cuts (t + n) (skip ks (int n)))"
proof (induction ks arbitrary: t n)
  case Nil
  then show ?case by simp
next
  case (Cons k ks)
  show ?case
  proof (cases "int n < k")
    case True
    then have e: "t + n + nat (k - int n) = t + nat k" by simp
    have "cuts (t + n) (skip (k # ks) (int n))
        = (t + n + nat (k - int n)) # cuts (t + n + nat (k - int n)) ks" using True by simp
    then have "cuts (t + n) (skip (k # ks) (int n)) = cuts t (k # ks)" unfolding e by simp
    then show ?thesis using Cons.prems(2) by (simp only:)
  next
    case False
    then have "c \<in> set (cuts (t + nat k) ks)" "t + nat k + (n - nat k) < c"
      and e: "t + nat k + (n - nat k) = t + n" "int (n - nat k) = int n - k"
      using Cons.prems by auto
    then have "c \<in> set (cuts (t + n) (skip ks (int n - k)))"
      using Cons.IH [of "t + nat k" "n - nat k"] Cons.prems(1) by simp
    then show ?thesis using False by simp
  qed
qed

lemma skip_pos: "\<forall>k \<in> set ks. 0 < k \<Longrightarrow> 0 \<le> n \<Longrightarrow> \<forall>k \<in> set (skip ks n). 0 < k"
  by (induction ks n rule: skip.induct) auto

lemma all_pieces_ends:
  "\<forall>k \<in> set ks. 0 < k \<Longrightarrow> c \<in> set (cuts t ks) \<Longrightarrow> c \<le> t + length (concat ps) \<Longrightarrow> ps \<noteq> [] \<Longrightarrow>
   c \<in> set (ends t (all_pieces ks ps))"
proof (induction ks ps arbitrary: t rule: all_pieces.induct)
  case (1 ks)
  then show ?case by simp
next
  case (2 ks p ps)
  show ?case
  proof (cases "c \<le> t + length p")
    case True
    then show ?thesis using pieces_ends 2(2,3) by (auto simp: ends_append)
  next
    case False
    then have "ps \<noteq> []" "c \<in> set (cuts (t + length p) (skip ks (int (length p))))"
      using skip_cuts 2(2-4) by (cases ps; fastforce)+
    moreover have "\<forall>k \<in> set (skip ks (int (length p))). 0 < k" by (rule skip_pos) (use 2(2) in simp_all)
    ultimately have "c \<in> set (ends (t + length p) (all_pieces (skip ks (int (length p))) ps))"
      using 2(1) [of "t + length p"] 2(4) by simp
    then show ?thesis by (simp add: ends_append concat_pieces)
  qed
qed

text \<open>
  The contract of an iterator: \<open>view\<close> lists the lengths it will still return; after them it returns
  numbers that are not positive.
\<close>

locale split_iterator =
  fixes nxt :: "'i \<Rightarrow> 'i \<times> int" and valid :: "'i \<Rightarrow> bool" and view :: "'i \<Rightarrow> int list"
  assumes it_inv: "valid i \<Longrightarrow> nxt i = (i', k) \<Longrightarrow> valid i'"
    and it_pos: "valid i \<Longrightarrow> \<forall>k \<in> set (view i). 0 < k"
    and it_nil: "valid i \<Longrightarrow> view i = [] \<Longrightarrow> nxt i = (i', k) \<Longrightarrow> k \<le> 0 \<and> view i' = []"
    and it_cons: "valid i \<Longrightarrow> view i = k # ks \<Longrightarrow> nxt i = (i', k') \<Longrightarrow> k' = k \<and> view i' = ks"

definition remaining :: "('i \<Rightarrow> int list) \<Rightarrow> 'i split_writer \<Rightarrow> int list" where
  "remaining view w =
     (if nextSplitBytes w > 0 then nextSplitBytes w # view (segments w) else [])"

definition split_inv :: "('i \<Rightarrow> bool) \<Rightarrow> ('i \<Rightarrow> int list) \<Rightarrow> 'i split_writer \<Rightarrow> bool" where
  "split_inv valid view w \<longleftrightarrow>
     valid (segments w) \<and> (nextSplitBytes w \<le> 0 \<longrightarrow> view (segments w) = [])"

context split_iterator
begin

lemma call_iterator:
  assumes "valid i" and "nxt i = (i', k)"
  shows "split_inv valid view \<lparr>nextSplitBytes = k, segments = i'\<rparr>"
    and "remaining view \<lparr>nextSplitBytes = k, segments = i'\<rparr> = view i"
proof -
  have "split_inv valid view \<lparr>nextSplitBytes = k, segments = i'\<rparr>
      \<and> remaining view \<lparr>nextSplitBytes = k, segments = i'\<rparr> = view i"
  proof (cases "view i")
    case Nil
    then show ?thesis using it_nil [OF assms(1) Nil assms(2)] it_inv [OF assms]
      by (auto simp: split_inv_def remaining_def)
  next
    case (Cons a as)
    then have "0 < a" using it_pos [OF assms(1)] by simp
    then show ?thesis using it_cons [OF assms(1) Cons assms(2)] it_inv [OF assms] Cons
      by (auto simp: split_inv_def remaining_def)
  qed
  then show "split_inv valid view \<lparr>nextSplitBytes = k, segments = i'\<rparr>"
    and "remaining view \<lparr>nextSplitBytes = k, segments = i'\<rparr> = view i" by auto
qed

lemma new_split_writer_inv:
  "valid i \<Longrightarrow> split_inv valid view (new_split_writer nxt i) \<and> remaining view (new_split_writer nxt i) = view i"
  by (auto simp: new_split_writer_def call_iterator split: prod.splits)

lemma remaining_pos: "split_inv valid view w \<Longrightarrow> \<forall>k \<in> set (remaining view w). 0 < k"
  using it_pos by (auto simp: split_inv_def remaining_def)

lemma advance_inv:
  assumes "split_inv valid view w" and "0 \<le> n" and "\<forall>k ks. remaining view w = k # ks \<longrightarrow> n \<le> k"
  shows "split_inv valid view (advance nxt n w) \<and> remaining view (advance nxt n w) = skip (remaining view w) n"
proof (cases "nextSplitBytes w - n > 0 \<or> nextSplitBytes w = 0")
  case True
  then show ?thesis using assms
    by (auto simp: advance_def split_inv_def remaining_def)
next
  case False
  obtain i m where nx: "nxt (segments w) = (i, m)" by fastforce
  have "valid (segments w)" using assms(1) by (simp add: split_inv_def)
  note c = call_iterator [OF this nx]
  have "advance nxt n w = \<lparr>nextSplitBytes = m, segments = i\<rparr>"
    using False nx by (simp add: advance_def)
  moreover have "view (segments w) = skip (remaining view w) n"
  proof (cases "nextSplitBytes w > 0")
    case True
    have "n = nextSplitBytes w" using True False assms(2,3) by (auto simp: remaining_def)
    moreover have "skip (view (segments w)) 0 = view (segments w)"
      using it_pos [of "segments w"] assms(1) by (cases "view (segments w)") (auto simp: split_inv_def)
    ultimately show ?thesis using True by (simp add: remaining_def)
  next
    case neg: False
    then show ?thesis using assms(1) by (simp add: remaining_def split_inv_def)
  qed
  ultimately show ?thesis using c by simp
qed

text \<open>On a connection that stays up, the calls are the pieces.\<close>

lemma split_loop_calls:
  "healthy s \<Longrightarrow> split_inv valid view w \<Longrightarrow>
   \<exists>w'. split_loop nxt sink_write w s p m
        = Some ((w', s\<lparr>sent := sent s @ pieces (remaining view w) p\<rparr>), m + length p, None)
     \<and> split_inv valid view w' \<and> remaining view w' = skip (remaining view w) (int (length p))"
proof (induction "remaining view w" arbitrary: w s p m)
  case Nil
  then have "\<not> nextSplitBytes w > 0" by (auto simp: remaining_def split: if_splits)
  then have "split_loop nxt sink_write w s p m = Some ((advance nxt (int (length p)) w,
      s\<lparr>sent := sent s @ [p]\<rparr>), m + length p, None)"
    using Nil(2) by (subst split_loop.simps) simp
  then show ?case using advance_inv [OF Nil(3), of "int (length p)"] Nil(1) [symmetric] by simp
next
  case (Cons k ks)
  have k: "nextSplitBytes w = k" "0 < k" "view (segments w) = ks"
    using Cons(2) by (auto simp: remaining_def split: if_splits)
  note rem = Cons(2) [symmetric]
  show ?case
  proof (cases "k < int (length p)")
    case False
    then have "split_loop nxt sink_write w s p m = Some ((advance nxt (int (length p)) w,
        s\<lparr>sent := sent s @ [p]\<rparr>), m + length p, None)"
      using Cons(3) k by (subst split_loop.simps) simp
    then show ?thesis using advance_inv [OF Cons(4), of "int (length p)"] False rem by simp
  next
    case True
    let ?w1 = "advance nxt k w" and ?s1 = "s\<lparr>sent := sent s @ [take (nat k) p]\<rparr>"
    have len: "length (take (nat k) p) = nat k" "int (nat k) = k" using True k by simp_all
    have "skip ks 0 = ks"
      using remaining_pos [OF Cons(4)] rem by (cases ks) auto
    then have w1: "split_inv valid view ?w1" "remaining view ?w1 = ks"
      using advance_inv [OF Cons(4), of k] rem k by auto
    obtain w' where w': "split_loop nxt sink_write ?w1 ?s1 (drop (nat k) p) (m + nat k)
        = Some ((w', ?s1\<lparr>sent := sent ?s1 @ pieces (remaining view ?w1) (drop (nat k) p)\<rparr>),
            m + nat k + length (drop (nat k) p), None)"
      "split_inv valid view w'" "remaining view w' = skip (remaining view ?w1) (int (length (drop (nat k) p)))"
      using Cons(1) [OF w1(2) [symmetric], of ?s1 "drop (nat k) p" "m + nat k"] w1 Cons(3) by auto
    have "split_loop nxt sink_write w s p m
        = split_loop nxt sink_write ?w1 ?s1 (drop (nat k) p) (m + nat k)"
      using True k Cons(3) len by (subst split_loop.simps) simp
    moreover have "int (length (drop (nat k) p)) = int (length p) - k" using True k by simp
    ultimately show ?thesis using w' w1 rem True k by auto
  qed
qed

lemma split_write_calls:
  "healthy s \<Longrightarrow> split_inv valid view w \<Longrightarrow>
   \<exists>w'. split_write nxt sink_write (w, s) p
        = ((w', s\<lparr>sent := sent s @ pieces (remaining view w) p\<rparr>), length p, None)
     \<and> split_inv valid view w' \<and> remaining view w' = skip (remaining view w) (int (length p))"
  using split_loop_calls [of s w p 0] by (auto simp: split_write_def)

lemma split_write_all_calls:
  "healthy s \<Longrightarrow> split_inv valid view w \<Longrightarrow>
   \<exists>w'. write_all (split_write nxt sink_write) (w, s) ps
        = ((w', s\<lparr>sent := sent s @ all_pieces (remaining view w) ps\<rparr>), length (concat ps), None)"
proof (induction ps arbitrary: w s)
  case Nil
  then show ?case by simp
next
  case (Cons p ps)
  obtain w1 where w1: "split_write nxt sink_write (w, s) p
        = ((w1, s\<lparr>sent := sent s @ pieces (remaining view w) p\<rparr>), length p, None)"
    "split_inv valid view w1" "remaining view w1 = skip (remaining view w) (int (length p))"
    using split_write_calls [OF Cons.prems] by blast
  show ?case
    using Cons.IH [of "s\<lparr>sent := sent s @ pieces (remaining view w) p\<rparr>" w1] Cons.prems(1) w1 by auto
qed

end

text \<open>The iterators of the package.\<close>

fun iter_view :: "split_iter \<Rightarrow> int list" where
  "iter_view (FixedIter n) = (if n > 0 then [n] else [])"
| "iter_view (RepeatedIter xs) = concat (map (\<lambda>x. replicate (nat (Count x)) (Bytes x)) xs)"

fun iter_valid :: "split_iter \<Rightarrow> bool" where
  "iter_valid (FixedIter n) = True"
| "iter_valid (RepeatedIter xs) = (\<forall>x \<in> set xs. Count x > 0 \<and> Bytes x > 0)"

lemma new_iter_valid:
  "iter_valid (new_fixed_split_iterator n)" "iter_valid (new_repeated_split_iterator splits)"
  by (simp_all add: new_fixed_split_iterator_def new_repeated_split_iterator_def)

lemma replicate_first: "0 < c \<Longrightarrow> replicate (nat c) b = b # replicate (nat (c - 1)) b"
  by (cases "nat c") (auto simp: nat_diff_distrib)

interpretation pkg_iter: split_iterator next_segment iter_valid iter_view
proof
  fix i i' k k' and ks
  assume v: "iter_valid i"
  show "\<forall>k \<in> set (iter_view i). 0 < k" using v by (cases i) auto
  show "next_segment i = (i', k) \<Longrightarrow> iter_valid i'" using v
    by (cases i rule: next_segment.cases) auto
  show "iter_view i = [] \<Longrightarrow> next_segment i = (i', k) \<Longrightarrow> k \<le> 0 \<and> iter_view i' = []" using v
    by (cases i rule: next_segment.cases) (auto split: if_splits simp: replicate_first)
  show "iter_view i = k # ks \<Longrightarrow> next_segment i = (i', k') \<Longrightarrow> k' = k \<and> iter_view i' = ks" using v
    by (cases i rule: next_segment.cases) (auto split: if_splits simp: replicate_first)
qed

section \<open>Properties\<close>

text \<open>
  On a connection that stays up, whatever the calls a stream comes in, the bytes that leave are
  those written, and every cut position of the repeated iterator within the stream ends a call.
\<close>

theorem split_cuts:
  assumes "healthy s" and "sent s = []" and "ps \<noteq> []"
  shows "\<exists>w' s'. write_all (split_write next_segment sink_write)
         (new_split_writer next_segment (new_repeated_split_iterator splits), s) ps
       = ((w', s'), length (concat ps), None)
     \<and> wire s' = concat ps
     \<and> (\<forall>c \<in> set (cuts 0 (iter_view (new_repeated_split_iterator splits))).
          c \<le> length (concat ps) \<longrightarrow> c \<in> set (ends 0 (sent s')))"
proof -
  let ?i = "new_repeated_split_iterator splits"
  let ?w = "new_split_writer next_segment ?i"
  have w: "split_inv iter_valid iter_view ?w" "remaining iter_view ?w = iter_view ?i"
    using pkg_iter.new_split_writer_inv [OF new_iter_valid(2)] by auto
  obtain w' where "write_all (split_write next_segment sink_write) (?w, s) ps
      = ((w', s\<lparr>sent := all_pieces (iter_view ?i) ps\<rparr>), length (concat ps), None)"
    using pkg_iter.split_write_all_calls [OF assms(1) w(1), of ps] w(2) assms(2) by auto
  moreover have "\<forall>k \<in> set (iter_view ?i). 0 < k" by (rule pkg_iter.it_pos) (rule new_iter_valid)
  ultimately show ?thesis
    using all_pieces_ends [of "iter_view ?i" _ 0 ps] assms(3)
    by (auto simp: wire_def concat_all_pieces)
qed

lemma split_cuts_witness:
  "\<exists>w' s'. write_all (split_write next_segment sink_write)
         (new_split_writer next_segment (new_repeated_split_iterator
            [\<lparr>Count = 2, Bytes = 3\<rparr>, \<lparr>Count = 0, Bytes = 9\<rparr>]), fresh_sink) [[1, 2], [3, 4, 5, 6, 7]]
       = ((w', s'), length (concat [[1, 2], [3, 4, 5, 6, 7 :: byte]]), None)
     \<and> wire s' = [1, 2, 3, 4, 5, 6, 7] \<and> 3 \<in> set (ends 0 (sent s')) \<and> 6 \<in> set (ends 0 (sent s'))"
  using split_cuts [of fresh_sink "[[1, 2], [3, 4, 5, 6, 7]]"
      "[\<lparr>Count = 2, Bytes = 3\<rparr>, \<lparr>Count = 0, Bytes = 9\<rparr>]"]
  by (simp del: write_all.simps add: fresh_sink_def healthy_def new_repeated_split_iterator_def
      numeral_2_eq_2)

text \<open>
  The dialer. \<^verbatim>\<open>NewStreamDialer\<close> keeps one iterator, and each \<^verbatim>\<open>DialStream\<close> hands that same closure to
  a new writer, so the iterator of a connection starts where the previous connection left it.
\<close>

definition split_dial :: "('i \<Rightarrow> 'i \<times> int) \<Rightarrow> err + 's \<Rightarrow> 'i \<Rightarrow> err + ('i split_writer \<times> 's)" where
  "split_dial nxt inner shared =
     (case inner of Inl e \<Rightarrow> Inl e | Inr s \<Rightarrow> Inr (new_split_writer nxt shared, s))"

text \<open>
  A dialer with a fixed split at \<open>n\<close> splits its first connection only: the second connection
  sends every \<^verbatim>\<open>Write\<close> in one piece, whatever the first one wrote.
\<close>

theorem split_dialer_second_connection_unsplit:
  assumes "healthy s2"
    and "split_dial next_segment (Inr s1) (new_fixed_split_iterator n) = Inr (w1, t1)"
    and "split_dial next_segment (Inr s2) (segments w1) = Inr (w2, t2)"
  shows "\<exists>w'. split_write next_segment sink_write (w2, t2) p
     = ((w', s2\<lparr>sent := sent s2 @ [p]\<rparr>), length p, None)"
proof -
  have "w2 = \<lparr>nextSplitBytes = 0, segments = FixedIter 0\<rparr>" "t2 = s2"
    using assms(2,3)
    by (auto simp: split_dial_def new_split_writer_def new_fixed_split_iterator_def)
  then show ?thesis
    using pkg_iter.split_write_calls [OF assms(1), of w2 p] by (auto simp: split_inv_def remaining_def)
qed

lemma split_dialer_second_connection_unsplit_witness:
  "\<exists>w'. split_write next_segment sink_write (\<lparr>nextSplitBytes = 0, segments = FixedIter 0\<rparr>, fresh_sink) [1, 2, 3]
     = ((w', fresh_sink\<lparr>sent := sent fresh_sink @ [[1, 2, 3]]\<rparr>), length [1, 2, 3 :: byte], None)"
  by (rule split_dialer_second_connection_unsplit
        [of fresh_sink fresh_sink 2 "\<lparr>nextSplitBytes = 2, segments = FixedIter 0\<rparr>" fresh_sink])
    (simp_all add: split_dial_def new_split_writer_def new_fixed_split_iterator_def)

end
