(* ===== verification/SSCipher.thy ===== *)
theory SSCipher
  imports GoPrelude
begin

text \<open>
  \<^verbatim>\<open>transport/shadowsocks/cipher.go\<close> and \<^verbatim>\<open>salt.go\<close>: the cipher table, the key derivation from a
  password, and the salt generators. The AEAD constructors, HKDF, MD5 and the random source are not
  part of the repository: they are parameters, and \<open>aead_ok\<close> is what the code relies on of an AEAD.
\<close>

section \<open>AEADs\<close>

text \<open>Go's \<^verbatim>\<open>cipher.AEAD\<close> without additional data; \<open>Open\<close> returns \<open>None\<close> where Go returns an error.\<close>

record aead =
  Seal :: "bytes \<Rightarrow> bytes \<Rightarrow> bytes"
  Open :: "bytes \<Rightarrow> bytes \<Rightarrow> bytes option"
  Overhead :: nat
  NonceSize :: nat

definition aead_ok :: "aead \<Rightarrow> bool" where
  "aead_ok A \<longleftrightarrow>
     0 < NonceSize A
     \<and> (\<forall>n p. length (Seal A n p) = length p + Overhead A)
     \<and> (\<forall>n p. length n = NonceSize A \<longrightarrow> Open A n (Seal A n p) = Some p)"

lemma aead_ok_seal [simp]: "aead_ok A \<Longrightarrow> length (Seal A n p) = length p + Overhead A"
  by (simp add: aead_ok_def)

lemma aead_ok_open [simp]: "aead_ok A \<Longrightarrow> length n = NonceSize A \<Longrightarrow> Open A n (Seal A n p) = Some p"
  by (simp add: aead_ok_def)

text \<open>An AEAD to evaluate the model on: it appends the nonce and a constant as the tag.\<close>

definition demo_aead :: aead where
  "demo_aead =
     \<lparr>Seal = (\<lambda>n p. p @ take 16 (n @ replicate 16 90)),
      Open = (\<lambda>n c. let k = length c - 16 in
        if length c < 16 \<or> drop k c \<noteq> take 16 (n @ replicate 16 90) then None else Some (take k c)),
      Overhead = 16, NonceSize = 12\<rparr>"

lemma demo_aead_ok: "aead_ok demo_aead"
  by (auto simp: aead_ok_def demo_aead_def min_def)

section \<open>Nonces\<close>

text \<open>\<^verbatim>\<open>increment\<close> of \<^verbatim>\<open>stream.go\<close>: the nonce as a little-endian counter that wraps around.\<close>

fun increment :: "bytes \<Rightarrow> bytes" where
  "increment [] = []"
| "increment (b # bs) = (if b + 1 \<noteq> 0 then (b + 1) # bs else (b + 1) # increment bs)"

definition isZero :: "bytes \<Rightarrow> bool" where
  "isZero b \<longleftrightarrow> (\<forall>v \<in> set b. v = 0)"

fun le_val :: "bytes \<Rightarrow> nat" where
  "le_val [] = 0"
| "le_val (b # bs) = unat b + 256 * le_val bs"

lemma length_increment [simp]: "length (increment bs) = length bs"
  by (induction bs) auto

lemma le_val_less: "le_val bs < 256 ^ length bs"
proof (induction bs)
  case (Cons b bs)
  define P :: nat where "P = 256 ^ length bs"
  have "unat b < 256" and "le_val bs < P" using Cons by (simp_all add: P_def)
  then have "unat b + 256 * le_val bs < 256 * P" by arith
  then show ?case by (simp add: P_def)
qed simp

lemma unat_byte_inc: "unat ((b :: byte) + 1) = (if b + 1 = 0 then 0 else unat b + 1)"
  by (simp add: unatSuc add.commute)

lemma byte_inc_zero: "(b :: byte) + 1 = 0 \<Longrightarrow> unat b = 255"
proof -
  assume "b + 1 = 0"
  then have "b = - 1" by (simp add: eq_neg_iff_add_eq_0)
  then show ?thesis by (simp add: unsigned_minus_1_eq_mask mask_eq_exp_minus_1)
qed

text \<open>\<^verbatim>\<open>increment\<close> adds one to the counter, modulo \<open>256 ^ n\<close>.\<close>

theorem increment_counts: "le_val (increment bs) = (le_val bs + 1) mod 256 ^ length bs"
proof (induction bs)
  case Nil
  then show ?case by simp
next
  case (Cons b bs)
  show ?case
  proof (cases "b + 1 = 0")
    case True
    then have "le_val (increment (b # bs)) = 256 * ((le_val bs + 1) mod 256 ^ length bs)"
      using Cons by simp
    also have "\<dots> = (256 * (le_val bs + 1)) mod (256 * 256 ^ length bs)"
      by (simp only: mult_mod_right)
    finally show ?thesis using byte_inc_zero [OF True] by (simp add: algebra_simps)
  next
    case False
    then have "le_val (increment (b # bs)) = le_val (b # bs) + 1" by (simp add: unat_byte_inc)
    moreover have "le_val (increment (b # bs)) < 256 ^ length (b # bs)"
      using le_val_less [of "increment (b # bs)"] by (simp only: length_increment)
    ultimately show ?thesis by (metis mod_less)
  qed
qed

lemma le_val_zero: "isZero bs \<longleftrightarrow> le_val bs = 0"
  by (induction bs) (auto simp: isZero_def unat_eq_zero)

text \<open>The nonce of the message number \<open>k\<close> of a stream.\<close>

definition nonce :: "nat \<Rightarrow> nat \<Rightarrow> bytes" where
  "nonce len k = (increment ^^ k) (replicate len 0)"

lemma nonce_0: "nonce len 0 = replicate len 0" and nonce_Suc: "increment (nonce len k) = nonce len (Suc k)"
  by (simp_all add: nonce_def)

lemma length_nonce [simp]: "length (nonce len k) = len"
  by (induction k) (simp_all add: nonce_def)

lemma le_val_nonce: "le_val (nonce len k) = k mod 256 ^ len"
proof (induction k)
  case 0
  have "isZero (replicate len 0)" by (simp add: isZero_def)
  then show ?case by (simp add: nonce_0 le_val_zero)
next
  case (Suc k)
  then show ?case using increment_counts [of "nonce len k"]
    by (simp add: nonce_Suc mod_Suc_eq)
qed

lemma isZero_nonce: "k < 256 ^ len \<Longrightarrow> isZero (nonce len k) \<longleftrightarrow> k = 0"
  by (simp add: le_val_zero le_val_nonce)

section \<open>The cipher table\<close>

text \<open>
  \<open>tagSize\<close> is what \<^verbatim>\<open>Unpack\<close> reserves; the AEAD itself reports \<open>Overhead\<close>. Names are ASCII, so
  \<^verbatim>\<open>strings.ToUpper\<close> shifts the letters \<^verbatim>\<open>a\<close> to \<^verbatim>\<open>z\<close>.
\<close>

record cipher_spec =
  newInstance :: "bytes \<Rightarrow> err + aead"
  keySize :: nat
  saltSize :: nat
  tagSize :: nat

abbreviation maxTagSize :: nat where
  "maxTagSize \<equiv> 16"

definition to_upper :: "string \<Rightarrow> string" where
  "to_upper = map (\<lambda>c. if 97 \<le> (of_char c :: nat) \<and> (of_char c :: nat) \<le> 122
                       then char_of (of_char c - 32 :: nat) else c)"

definition ErrUnsupportedCipher :: "string \<Rightarrow> err" where
  "ErrUnsupportedCipher name = ErrNew (''unsupported cipher '' @ name)"

text \<open>\<open>chacha\<close> is \<^verbatim>\<open>chacha20poly1305.New\<close> (key size 32), \<open>gcm\<close> is \<^verbatim>\<open>newAesGCM\<close>.\<close>

definition cipherByName ::
  "(bytes \<Rightarrow> err + aead) \<Rightarrow> (bytes \<Rightarrow> err + aead) \<Rightarrow> string \<Rightarrow> err + cipher_spec" where
  "cipherByName chacha gcm name =
     (let n = to_upper name in
      if n = ''AEAD_CHACHA20_POLY1305'' \<or> n = ''CHACHA20-IETF-POLY1305''
        then Inr \<lparr>newInstance = chacha, keySize = 32, saltSize = 32, tagSize = 16\<rparr>
      else if n = ''AEAD_AES_256_GCM'' \<or> n = ''AES-256-GCM''
        then Inr \<lparr>newInstance = gcm, keySize = 32, saltSize = 32, tagSize = 16\<rparr>
      else if n = ''AEAD_AES_192_GCM'' \<or> n = ''AES-192-GCM''
        then Inr \<lparr>newInstance = gcm, keySize = 24, saltSize = 24, tagSize = 16\<rparr>
      else if n = ''AEAD_AES_128_GCM'' \<or> n = ''AES-128-GCM''
        then Inr \<lparr>newInstance = gcm, keySize = 16, saltSize = 16, tagSize = 16\<rparr>
      else Inl (ErrUnsupportedCipher name))"

lemma cipherByName_sizes:
  "cipherByName chacha gcm name = Inr c \<Longrightarrow>
   tagSize c = maxTagSize \<and> saltSize c = keySize c \<and> keySize c \<in> {16, 24, 32}"
  by (auto simp: cipherByName_def Let_def split: if_splits)

section \<open>The key of a password\<close>

text \<open>
  \<^verbatim>\<open>simpleEVPBytesToKey\<close>. The loop ends only because the digest is not empty, which is a fact about
  the parameter \<open>md5\<close>; writing to a hash never fails.
\<close>

partial_function (option) evp_loop ::
  "(bytes \<Rightarrow> bytes) \<Rightarrow> bytes \<Rightarrow> nat \<Rightarrow> bytes \<Rightarrow> bytes \<Rightarrow> bytes option" where
  "evp_loop md5 dat keyLen derived di =
     (if length derived < keyLen
      then (let h = md5 (di @ dat); derived' = derived @ h in
            evp_loop md5 dat keyLen derived' (drop (length derived' - length h) derived'))
      else Some (take keyLen derived))"

definition simpleEVPBytesToKey :: "(bytes \<Rightarrow> bytes) \<Rightarrow> bytes \<Rightarrow> nat \<Rightarrow> bytes option" where
  "simpleEVPBytesToKey md5 dat keyLen = evp_loop md5 dat keyLen [] []"

text \<open>The chain of digests the key is cut from: \<open>d\<^sub>1 = md5 dat\<close>, \<open>d\<^sub>i = md5 (d\<^sub>i\<^sub>-\<^sub>1 @ dat)\<close>.\<close>

fun evp_chain :: "(bytes \<Rightarrow> bytes) \<Rightarrow> bytes \<Rightarrow> bytes \<Rightarrow> nat \<Rightarrow> bytes" where
  "evp_chain md5 dat di 0 = []"
| "evp_chain md5 dat di (Suc n) = (let h = md5 (di @ dat) in h @ evp_chain md5 dat h n)"

lemma evp_loop_chain:
  assumes "\<And>x. length (md5 x) = d" and "0 < d" and "keyLen \<le> length derived + n * d"
  shows "evp_loop md5 dat keyLen derived di = Some (take keyLen (derived @ evp_chain md5 dat di n))"
  using assms(3)
proof (induction n arbitrary: derived di)
  case 0
  then show ?case by (subst evp_loop.simps) simp
next
  case (Suc n)
  show ?case
  proof (cases "length derived < keyLen")
    case True
    then show ?thesis using Suc assms(1)
      by (subst evp_loop.simps) (simp add: Let_def)
  next
    case False
    then show ?thesis by (subst evp_loop.simps) simp
  qed
qed

lemma length_evp_chain: "(\<And>x. length (md5 x) = d) \<Longrightarrow> length (evp_chain md5 dat di n) = n * d"
  by (induction n arbitrary: di) (simp_all add: Let_def)

text \<open>
  With a 16-byte digest the key derivation returns, the key has the length asked for, and it is a
  prefix of the digest chain: the key of a smaller size is a prefix of that of a larger one.
\<close>

theorem evp_key:
  assumes "\<And>x. length (md5 x) = 16" and "keyLen \<le> m"
  shows "\<exists>k. simpleEVPBytesToKey md5 dat keyLen = Some k \<and> length k = keyLen
     \<and> k = take keyLen (evp_chain md5 dat [] m)
     \<and> map_option (take keyLen) (simpleEVPBytesToKey md5 dat m) = Some k"
proof -
  have "simpleEVPBytesToKey md5 dat j = Some (take j (evp_chain md5 dat [] m))" if "j \<le> m" for j
    using evp_loop_chain [of md5 16 j "[]" m] assms(1) that by (simp add: simpleEVPBytesToKey_def)
  moreover have "length (take keyLen (evp_chain md5 dat [] m)) = keyLen"
    using length_evp_chain [of md5 16] assms by simp
  ultimately show ?thesis using assms(2) by (simp add: min_def)
qed

lemma evp_key_witness:
  "\<exists>k. simpleEVPBytesToKey (\<lambda>x. take 16 (x @ replicate 16 7)) [1, 2] 24 = Some k \<and> length k = 24"
  using evp_key [of "\<lambda>x. take 16 (x @ replicate 16 7)" 24 32 "[1, 2]"] by (auto simp: min_def)

section \<open>Keys\<close>

record enc_key =
  kcipher :: cipher_spec
  ksecret :: bytes

definition string_bytes :: "string \<Rightarrow> bytes" where
  "string_bytes s = map (\<lambda>c. word_of_nat (of_char c)) s"

definition NewEncryptionKey ::
  "(bytes \<Rightarrow> bytes) \<Rightarrow> (bytes \<Rightarrow> err + aead) \<Rightarrow> (bytes \<Rightarrow> err + aead) \<Rightarrow> string \<Rightarrow> string
   \<Rightarrow> (err + enc_key) option" where
  "NewEncryptionKey md5 chacha gcm cipherName secretText =
     (case cipherByName chacha gcm cipherName of
        Inl e \<Rightarrow> Some (Inl e)
      | Inr c \<Rightarrow>
          (case simpleEVPBytesToKey md5 (string_bytes secretText) (keySize c) of
             None \<Rightarrow> None
           | Some k \<Rightarrow> Some (Inr \<lparr>kcipher = c, ksecret = k\<rparr>)))"

definition subkeyInfo :: bytes where
  "subkeyInfo = string_bytes ''ss-subkey''"

text \<open>\<open>hkdf secret salt info n\<close> reads \<open>n\<close> bytes of HKDF-SHA1.\<close>

definition NewAEAD ::
  "(bytes \<Rightarrow> bytes \<Rightarrow> bytes \<Rightarrow> nat \<Rightarrow> err + bytes) \<Rightarrow> enc_key \<Rightarrow> bytes \<Rightarrow> err + aead" where
  "NewAEAD hkdf key salt =
     (case hkdf (ksecret key) salt subkeyInfo (keySize (kcipher key)) of
        Inl e \<Rightarrow> Inl e
      | Inr sessionKey \<Rightarrow> newInstance (kcipher key) sessionKey)"

text \<open>What the stream and the packets use of a key: \<^verbatim>\<open>SaltSize()\<close>, \<^verbatim>\<open>TagSize()\<close>, \<^verbatim>\<open>NewAEAD\<close>.\<close>

record ss_key =
  SaltSize :: nat
  TagSize :: nat
  newAEAD :: "bytes \<Rightarrow> err + aead"

definition ss_key_of :: "(bytes \<Rightarrow> bytes \<Rightarrow> bytes \<Rightarrow> nat \<Rightarrow> err + bytes) \<Rightarrow> enc_key \<Rightarrow> ss_key" where
  "ss_key_of hkdf key =
     \<lparr>SaltSize = saltSize (kcipher key), TagSize = tagSize (kcipher key), newAEAD = NewAEAD hkdf key\<rparr>"

section \<open>Salts\<close>

text \<open>A salt generator fills a slice of the given length or fails. \<open>rnd\<close> is \<^verbatim>\<open>crypto/rand.Read\<close>.\<close>

type_synonym salt_gen = "nat \<Rightarrow> err + bytes"

definition random_salt :: "salt_gen \<Rightarrow> salt_gen" where
  "random_salt rnd n = rnd n"

definition prefix_salt :: "bytes \<Rightarrow> salt_gen \<Rightarrow> salt_gen" where
  "prefix_salt prefix rnd n =
     (let k = min n (length prefix) in
      if k \<noteq> length prefix then Inl (ErrNew ''prefix is too long'')
      else case rnd (n - k) of Inl e \<Rightarrow> Inl e | Inr r \<Rightarrow> Inr (take k prefix @ r))"

definition salt_gen_ok :: "salt_gen \<Rightarrow> bool" where
  "salt_gen_ok g \<longleftrightarrow> (\<forall>n s. g n = Inr s \<longrightarrow> length s = n)"

lemma prefix_salt_ok: "salt_gen_ok rnd \<Longrightarrow> salt_gen_ok (prefix_salt p rnd)"
  by (auto simp: salt_gen_ok_def prefix_salt_def Let_def split: if_splits sum.splits)

lemma prefix_salt_prefix: "prefix_salt p rnd n = Inr s \<Longrightarrow> take (length p) s = p"
  by (auto simp: prefix_salt_def Let_def min_def split: if_splits sum.splits)

end
