(* ===== verification/SSPacket.thy ===== *)
theory SSPacket
  imports GoIO SSCipher
begin

text \<open>
  Shadowsocks datagrams: \<^verbatim>\<open>Pack\<close> and \<^verbatim>\<open>Unpack\<close> of \<^verbatim>\<open>transport/shadowsocks/packet.go\<close> and the
  \<^verbatim>\<open>packetConn\<close> of \<^verbatim>\<open>packet_listener.go\<close>. The SOCKS address functions come from the package
  \<^verbatim>\<open>go-shadowsocks2/socks\<close> and are parameters. Buffers are their contents: \<^verbatim>\<open>dst\<close> only matters by its size.
\<close>

section \<open>Packets\<close>

definition ErrShortPacket :: err where
  "ErrShortPacket = ErrNew ''short packet''"

definition errOpen :: err where
  "errOpen = ErrNew ''message authentication failed''"

definition zeroNonce :: bytes where
  "zeroNonce = replicate 12 0"

definition PackSalt :: "nat \<Rightarrow> bytes \<Rightarrow> ss_key \<Rightarrow> salt_gen \<Rightarrow> err + bytes" where
  "PackSalt dstLen plaintext K sg =
     (if dstLen < SaltSize K then Inl ShortBuffer
      else case sg (SaltSize K) of
             Inl e \<Rightarrow> Inl e
           | Inr salt \<Rightarrow>
               (case newAEAD K salt of
                  Inl e \<Rightarrow> Inl e
                | Inr A \<Rightarrow>
                    if dstLen < SaltSize K + length plaintext + Overhead A then Inl ShortBuffer
                    else Inr (salt @ Seal A (take (NonceSize A) zeroNonce) plaintext)))"

definition Pack :: "nat \<Rightarrow> bytes \<Rightarrow> ss_key \<Rightarrow> salt_gen \<Rightarrow> err + bytes" where
  "Pack dstLen plaintext K rnd = PackSalt dstLen plaintext K (random_salt rnd)"

text \<open>\<open>dst\<close> is the capacity of the destination, \<open>None\<close> for decryption in place.\<close>

definition Unpack :: "nat option \<Rightarrow> bytes \<Rightarrow> ss_key \<Rightarrow> err + bytes" where
  "Unpack dst pkt K =
     (if length pkt < SaltSize K then Inl ErrShortPacket
      else let salt = take (SaltSize K) pkt; ct = drop (SaltSize K) pkt in
        if length ct < TagSize K then Inl UnexpectedEOF
        else let dstCap = (case dst of None \<Rightarrow> length ct | Some n \<Rightarrow> n) in
          if dstCap < length ct - TagSize K then Inl ShortBuffer
          else case newAEAD K salt of
                 Inl e \<Rightarrow> Inl e
               | Inr A \<Rightarrow>
                   (case Open A (take (NonceSize A) zeroNonce) ct of
                      None \<Rightarrow> Inl errOpen | Some p \<Rightarrow> Inr p))"

text \<open>What the code relies on of a key: its AEAD keeps the contract, tags and nonces have their sizes.\<close>

definition ss_key_ok :: "ss_key \<Rightarrow> bool" where
  "ss_key_ok K \<longleftrightarrow>
     (\<forall>salt A. newAEAD K salt = Inr A \<longrightarrow> aead_ok A \<and> Overhead A = TagSize K \<and> NonceSize A \<le> 12)"

lemma PackSalt_Inr:
  assumes "PackSalt n pt K sg = Inr pkt"
  obtains salt A where "sg (SaltSize K) = Inr salt" "newAEAD K salt = Inr A"
    "SaltSize K + length pt + Overhead A \<le> n"
    "pkt = salt @ Seal A (take (NonceSize A) zeroNonce) pt"
  using assms by (auto simp: PackSalt_def split: if_splits sum.splits)

lemma pack_unpack_eq:
  assumes "ss_key_ok K" "salt_gen_ok sg" "PackSalt n pt K sg = Inr pkt"
  shows "length pkt = SaltSize K + length pt + TagSize K \<and> length pkt \<le> n
    \<and> Unpack dst pkt K =
      (if \<exists>c. dst = Some c \<and> c < length pt then Inl ShortBuffer else Inr pt)"
proof -
  obtain salt A where s: "sg (SaltSize K) = Inr salt" "newAEAD K salt = Inr A"
    "SaltSize K + length pt + Overhead A \<le> n"
    "pkt = salt @ Seal A (take (NonceSize A) zeroNonce) pt"
    using PackSalt_Inr [OF assms(3)] .
  have A: "aead_ok A" "Overhead A = TagSize K" "NonceSize A \<le> 12"
    using assms(1) s(2) by (auto simp: ss_key_ok_def)
  have ls: "length salt = SaltSize K" using assms(2) s(1) by (simp add: salt_gen_ok_def)
  then have l: "length pkt = SaltSize K + length pt + TagSize K" and n: "length pkt \<le> n"
    using s A by simp_all
  have "length (take (NonceSize A) zeroNonce) = NonceSize A" using A(3) by (simp add: zeroNonce_def)
  then have "Open A (take (NonceSize A) zeroNonce) (drop (SaltSize K) pkt) = Some pt"
    using s(4) ls A(1) by simp
  moreover have "take (SaltSize K) pkt = salt" using s(4) ls by simp
  ultimately have "Unpack dst pkt K =
      (if \<exists>c. dst = Some c \<and> c < length pt then Inl ShortBuffer else Inr pt)"
    using l s(2) by (auto simp: Unpack_def Let_def split: option.splits)
  then show ?thesis using l n by blast
qed

text \<open>
  A packet fits the buffer, and unpacking it with the same key gives the plaintext back, in place
  or into any destination that holds it; a smaller destination is refused.
\<close>

theorem pack_unpack:
  assumes "ss_key_ok K" "salt_gen_ok sg" "PackSalt n pt K sg = Inr pkt"
  shows "length pkt = SaltSize K + length pt + TagSize K \<and> length pkt \<le> n
    \<and> Unpack dst pkt K =
      (if \<exists>c. dst = Some c \<and> c < length pt then Inl ShortBuffer else Inr pt)"
  using pack_unpack_eq [OF assms] .

section \<open>The packet connection\<close>

abbreviation clientUDPBufferSize :: nat where
  "clientUDPBufferSize \<equiv> 16384"

text \<open>
  \<open>parse\<close> is \<^verbatim>\<open>socks.ParseAddr\<close>, \<open>split\<close> is \<^verbatim>\<open>socks.SplitAddr\<close>, \<open>mk\<close> is \<^verbatim>\<open>transport.MakeNetAddr\<close> of the
  address' text; the connection is a writer that sends one datagram per call.
\<close>

definition pc_WriteTo ::
  "ss_key \<Rightarrow> salt_gen \<Rightarrow> (string \<Rightarrow> bytes option) \<Rightarrow> 's writer \<Rightarrow> 's \<Rightarrow> bytes \<Rightarrow> string
   \<Rightarrow> 's \<times> nat \<times> err option" where
  "pc_WriteTo K sg parse wr s b addr =
     (case parse addr of
        None \<Rightarrow> (s, 0, Some (ErrNew ''failed to parse target address''))
      | Some a \<Rightarrow>
          (case PackSalt clientUDPBufferSize (a @ b) K sg of
             Inl e \<Rightarrow> (s, 0, Some e)
           | Inr buf \<Rightarrow> (case wr s buf of (s', _, e) \<Rightarrow> (s', length b, e))))"

text \<open>\<^verbatim>\<open>ReadFrom\<close> of the datagram \<open>dg\<close> (or of the error of the socket), for a slice of \<open>n\<close> bytes.\<close>

definition pc_ReadFrom ::
  "ss_key \<Rightarrow> (bytes \<Rightarrow> bytes option) \<Rightarrow> (bytes \<Rightarrow> err + 'a) \<Rightarrow> err + bytes \<Rightarrow> nat
   \<Rightarrow> bytes \<times> 'a option \<times> err option" where
  "pc_ReadFrom K split mk dg n =
     (case dg of
        Inl e \<Rightarrow> ([], None, Some e)
      | Inr d \<Rightarrow>
          (case Unpack None (take clientUDPBufferSize d) K of
             Inl e \<Rightarrow> ([], None, Some e)
           | Inr buf \<Rightarrow>
               (case split buf of
                  None \<Rightarrow> ([], None, Some (ErrNew ''failed to read source address''))
                | Some a \<Rightarrow>
                    (case mk a of
                       Inl e \<Rightarrow> ([], None, Some (ErrWrap ''failed to convert incoming address'' e))
                     | Inr src \<Rightarrow>
                         (take n (drop (length a) buf), Some src,
                          if n < length buf - length a then Some ShortBuffer else None)))))"

text \<open>
  The listener: an endpoint that connects to the proxy, the key and the generator of salts, which is the random one unless it
  is set. A connection keeps the key and the generator of its listener.
\<close>

record 'e ss_listener =
  pl_endpoint :: 'e
  pl_key :: ss_key
  pl_salt :: salt_gen

record 'c packet_conn =
  pc_conn :: 'c
  pc_key :: ss_key
  pc_salt :: salt_gen

definition NewPacketListener :: "salt_gen \<Rightarrow> 'e option \<Rightarrow> ss_key option \<Rightarrow> err + 'e ss_listener" where
  "NewPacketListener rnd endpoint key =
     (case endpoint of
        None \<Rightarrow> Inl (ErrNew ''argument endpoint must not be nil'')
      | Some en \<Rightarrow>
          (case key of
             None \<Rightarrow> Inl (ErrNew ''argument key must not be nil'')
           | Some K \<Rightarrow> Inr \<lparr>pl_endpoint = en, pl_key = K, pl_salt = random_salt rnd\<rparr>))"

definition SetSaltGenerator :: "salt_gen \<Rightarrow> 'e ss_listener \<Rightarrow> 'e ss_listener" where
  "SetSaltGenerator sg pl = pl\<lparr>pl_salt := sg\<rparr>"

definition ListenPacket :: "('e \<Rightarrow> err + 'c) \<Rightarrow> 'e ss_listener \<Rightarrow> err + 'c packet_conn" where
  "ListenPacket connect pl =
     (case connect (pl_endpoint pl) of
        Inl e \<Rightarrow> Inl (ErrWrap ''could not connect to endpoint'' e)
      | Inr proxyConn \<Rightarrow> Inr \<lparr>pc_conn = proxyConn, pc_key = pl_key pl, pc_salt = pl_salt pl\<rparr>)"

definition NewPacketConn :: "salt_gen \<Rightarrow> 'c \<Rightarrow> ss_key \<Rightarrow> 'c packet_conn" where
  "NewPacketConn rnd conn key = \<lparr>pc_conn = conn, pc_key = key, pc_salt = random_salt rnd\<rparr>"

text \<open>\<^verbatim>\<open>socks.SplitAddr\<close> takes the address that \<^verbatim>\<open>socks.ParseAddr\<close> made off the front of a packet.\<close>

definition socks_ok :: "(string \<Rightarrow> bytes option) \<Rightarrow> (bytes \<Rightarrow> bytes option) \<Rightarrow> bool" where
  "socks_ok parse split \<longleftrightarrow> (\<forall>x a p. parse x = Some a \<longrightarrow> split (a @ p) = Some a)"

text \<open>
  A datagram written for an address by one end is read by the other with that address and
  payload; a short slice gets the start of the payload and \<^verbatim>\<open>io.ErrShortBuffer\<close>.
\<close>

theorem packet_conn_roundtrip:
  assumes "ss_key_ok K" "salt_gen_ok sg" "socks_ok parse split" "parse addr = Some a" "mk a = Inr src"
    and "pc_WriteTo K sg parse sink_write fresh_sink b addr = (s', n, None)"
  shows "\<exists>d. sent s' = [d] \<and> n = length b
     \<and> pc_ReadFrom K split mk (Inr d) m
        = (take m b, Some src, if m < length b then Some ShortBuffer else None)"
proof -
  obtain d where d: "PackSalt clientUDPBufferSize (a @ b) K sg = Inr d"
    "sink_write fresh_sink d = (s', length d, None)" "n = length b"
    using assms(4,6) by (auto simp: pc_WriteTo_def split: sum.splits prod.splits)
  note pu = pack_unpack_eq [OF assms(1,2) d(1)]
  have "Unpack None (take clientUDPBufferSize d) K = Inr (a @ b)" using pu [of None] by simp
  moreover have "split (a @ b) = Some a" using assms(3,4) by (auto simp: socks_ok_def)
  moreover have "sent s' = [d]" using d(2) by (auto simp: fresh_sink_def healthy_def)
  ultimately show ?thesis using assms(5) d(3) by (simp add: pc_ReadFrom_def)
qed

text \<open>A payload that does not fit one packet is refused and nothing is sent.\<close>

theorem packet_conn_too_big:
  assumes "ss_key_ok K" "salt_gen_ok sg" "parse addr = Some a" "sg (SaltSize K) = Inr salt"
    "newAEAD K salt = Inr A" "SaltSize K \<le> clientUDPBufferSize"
    "clientUDPBufferSize < SaltSize K + length a + length b + TagSize K"
  shows "pc_WriteTo K sg parse wr s b addr = (s, 0, Some ShortBuffer)"
proof -
  have "Overhead A = TagSize K" using assms(1,5) by (auto simp: ss_key_ok_def)
  then show ?thesis using assms by (simp add: pc_WriteTo_def PackSalt_def)
qed

definition demo_packet_key :: ss_key where
  "demo_packet_key = \<lparr>SaltSize = 4, TagSize = 16, newAEAD = (\<lambda>_. Inr demo_aead)\<rparr>"

definition demo_packet_salt :: salt_gen where
  "demo_packet_salt n = Inr (replicate n 5)"

definition demo_parse :: "string \<Rightarrow> bytes option" where
  "demo_parse a = (if a = ''1.2.3.4:5'' then Some [1, 1, 2, 3, 4, 0, 5] else None)"

definition demo_split :: "bytes \<Rightarrow> bytes option" where
  "demo_split b = (if length b < 7 then None else Some (take 7 b))"

lemma demo_packet_ok: "ss_key_ok demo_packet_key" "salt_gen_ok demo_packet_salt"
  "socks_ok demo_parse demo_split"
  using demo_aead_ok
  by (auto simp: ss_key_ok_def demo_packet_key_def salt_gen_ok_def demo_packet_salt_def demo_aead_def
      socks_ok_def demo_parse_def demo_split_def split: if_splits)

lemma pack_unpack_witness:
  "\<exists>pkt. PackSalt 100 [1, 2] demo_packet_key demo_packet_salt = Inr pkt
     \<and> Unpack (Some 1) pkt demo_packet_key = Inl ShortBuffer"
proof -
  have "\<exists>pkt. PackSalt 100 [1, 2] demo_packet_key demo_packet_salt = Inr pkt"
    by (simp add: PackSalt_def demo_packet_key_def demo_packet_salt_def demo_aead_def)
  then show ?thesis
    using pack_unpack [OF demo_packet_ok(1,2), of 100 "[1, 2]" _ "Some 1"] by auto
qed

lemma packet_conn_roundtrip_witness:
  "\<exists>s' d. pc_WriteTo demo_packet_key demo_packet_salt demo_parse sink_write fresh_sink [7, 8] ''1.2.3.4:5'' = (s', 2, None)
     \<and> pc_ReadFrom demo_packet_key demo_split Inr (Inr d) 1 = ([7], Some [1, 1, 2, 3, 4, 0, 5], Some ShortBuffer)"
proof -
  have "\<exists>s'. pc_WriteTo demo_packet_key demo_packet_salt demo_parse sink_write fresh_sink [7, 8] ''1.2.3.4:5''
      = (s', 2, None)"
    by (simp add: pc_WriteTo_def PackSalt_def demo_packet_key_def demo_packet_salt_def demo_aead_def demo_parse_def)
  then obtain s' where s': "pc_WriteTo demo_packet_key demo_packet_salt demo_parse sink_write fresh_sink [7, 8] ''1.2.3.4:5''
      = (s', 2, None)" by blast
  have "demo_parse ''1.2.3.4:5'' = Some [1, 1, 2, 3, 4, 0, 5]" by (simp add: demo_parse_def)
  from packet_conn_roundtrip [OF demo_packet_ok this _ s', of Inr "[1, 1, 2, 3, 4, 0, 5]" 1] s'
  show ?thesis by auto
qed

lemma packet_conn_too_big_witness:
  "pc_WriteTo demo_packet_key demo_packet_salt demo_parse sink_write fresh_sink (replicate 16384 0) ''1.2.3.4:5''
     = (fresh_sink, 0, Some ShortBuffer)"
  by (rule packet_conn_too_big [OF demo_packet_ok(1,2), of _ _ "[1, 1, 2, 3, 4, 0, 5]" "replicate 4 5" demo_aead])
    (simp_all add: demo_parse_def demo_packet_salt_def demo_packet_key_def del: replicate.simps)

end
