(* ===== verification/SSWriter.thy ===== *)
theory SSWriter
  imports GoIO SSCipher
begin

text \<open>
  The encrypting \<^verbatim>\<open>Writer\<close> of \<^verbatim>\<open>transport/shadowsocks/stream.go\<close>: it collects plaintext in one buffer,
  encrypts it there in place, and sends salt, sizes and payloads. The lemmas show that whatever the
  order of \<^verbatim>\<open>Write\<close>, \<^verbatim>\<open>LazyWrite\<close>, \<^verbatim>\<open>ReadFrom\<close> and \<^verbatim>\<open>Flush\<close>, the connection carries the salt and a
  sequence of chunks with consecutive nonces whose plaintexts are the bytes written.
\<close>

section \<open>State\<close>

text \<open>\<open>payloadSizeMask\<close> is the largest payload of a chunk.\<close>

abbreviation payloadSizeMask :: nat where
  "payloadSizeMask \<equiv> 16383"

record ss_writer =
  sw_aead :: "aead option"
  needFlush :: bool
  pending :: nat
  sbuf :: bytes
  counter :: bytes

definition new_ss_writer :: ss_writer where
  "new_ss_writer = \<lparr>sw_aead = None, needFlush = False, pending = 0, sbuf = [], counter = []\<rparr>"

definition ss_init :: "ss_key \<Rightarrow> salt_gen \<Rightarrow> ss_writer \<Rightarrow> ss_writer \<times> err option" where
  "ss_init K sg w =
     (case sw_aead w of
        Some _ \<Rightarrow> (w, None)
      | None \<Rightarrow>
          (case sg (SaltSize K) of
             Inl e \<Rightarrow> (w, Some (ErrWrap ''failed to generate salt'' e))
           | Inr salt \<Rightarrow>
               (case newAEAD K salt of
                  Inl e \<Rightarrow> (w, Some (ErrWrap ''failed to create AEAD'' e))
                | Inr A \<Rightarrow>
                    (w\<lparr>sw_aead := Some A, counter := replicate (NonceSize A) 0,
                       sbuf := salt @ replicate (2 + Overhead A + (payloadSizeMask + Overhead A)) 0\<rparr>,
                     None))))"

section \<open>Operations\<close>

text \<open>\<^verbatim>\<open>buffers\<close>: the offset of the payload; the size block starts right after the salt.\<close>

definition payloadStart :: "ss_key \<Rightarrow> aead \<Rightarrow> nat" where
  "payloadStart K A = SaltSize K + 2 + Overhead A"

text \<open>\<^verbatim>\<open>encryptBlock\<close> on the \<open>n\<close> bytes at \<open>off\<close>, in place.\<close>

definition encryptBlock :: "aead \<Rightarrow> nat \<Rightarrow> nat \<Rightarrow> ss_writer \<Rightarrow> ss_writer \<times> nat" where
  "encryptBlock A off n w =
     (let c = Seal A (counter w) (subslice off (off + n) (sbuf w)) in
      (w\<lparr>sbuf := blit off c (sbuf w), counter := increment (counter w)\<rparr>, length c))"

definition ss_flush ::
  "ss_key \<Rightarrow> aead \<Rightarrow> 's writer \<Rightarrow> ss_writer \<times> 's \<Rightarrow> (ss_writer \<times> 's) \<times> err option" where
  "ss_flush K A wr = (\<lambda>(w, s).
     if pending w = 0 then ((w, s), None)
     else let start = (if isZero (counter w) then 0 else SaltSize K);
              w1 = w\<lparr>sbuf := blit (SaltSize K) (put_u16 (pending w)) (sbuf w)\<rparr>;
              (w2, sizeBlock) = encryptBlock A (SaltSize K) 2 w1;
              (w3, payload) = encryptBlock A (payloadStart K A) (pending w) w2;
              (s', _, e) = wr s (subslice start (SaltSize K + sizeBlock + payload) (sbuf w3))
          in ((w3\<lparr>pending := 0\<rparr>, s'), e))"

definition ss_enqueue :: "ss_key \<Rightarrow> aead \<Rightarrow> bytes \<Rightarrow> ss_writer \<Rightarrow> ss_writer \<times> nat" where
  "ss_enqueue K A p w =
     (let n = min (payloadSizeMask - pending w) (length p) in
      (w\<lparr>sbuf := blit (payloadStart K A + pending w) (take n p) (sbuf w), pending := pending w + n\<rparr>,
       n))"

lemma ss_flush_pending: "ss_flush K A wr (w, s) = ((w', s'), e) \<Longrightarrow> pending w' = 0"
  by (auto simp: ss_flush_def Let_def split: if_splits prod.splits)

text \<open>The loop of \<^verbatim>\<open>LazyWrite\<close>: what does not fit is queued again after a flush.\<close>

function lazy_loop ::
  "ss_key \<Rightarrow> aead \<Rightarrow> 's writer \<Rightarrow> ss_writer \<Rightarrow> 's \<Rightarrow> bytes \<Rightarrow> nat
   \<Rightarrow> (ss_writer \<times> 's) \<times> nat \<times> err option" where
  "lazy_loop K A wr w s p queued =
     (case ss_enqueue K A p w of
        (w1, n) \<Rightarrow>
          if drop n p = [] then ((w1\<lparr>needFlush := True\<rparr>, s), queued + n, None)
          else (case ss_flush K A wr (w1, s) of
                  ((w2, s2), Some e) \<Rightarrow> ((w2, s2), queued + n, Some e)
                | ((w2, s2), None) \<Rightarrow> lazy_loop K A wr w2 s2 (drop n p) (queued + n)))"
  by pat_completeness auto
termination
proof (relation "measure (\<lambda>(K, A, wr, w, s, p, q).
    2 * length p + (if payloadSizeMask \<le> pending w then 1 else 0))", goal_cases)
  case 1
  show ?case by simp
next
  case 2
  then show ?case by (auto simp: ss_enqueue_def Let_def dest: ss_flush_pending [OF sym] split: if_splits)
qed

definition ss_lazy_write ::
  "ss_key \<Rightarrow> salt_gen \<Rightarrow> 's writer \<Rightarrow> ss_writer \<times> 's \<Rightarrow> bytes \<Rightarrow> (ss_writer \<times> 's) \<times> nat \<times> err option" where
  "ss_lazy_write K sg wr = (\<lambda>(w, s) p.
     case ss_init K sg w of
       (w1, Some e) \<Rightarrow> ((w1, s), 0, Some e)
     | (w1, None) \<Rightarrow> lazy_loop K (the (sw_aead w1)) wr w1 s p 0)"

text \<open>\<^verbatim>\<open>Flush\<close> may be called from a timer; it does nothing before the first \<^verbatim>\<open>LazyWrite\<close>.\<close>

definition ss_Flush :: "ss_key \<Rightarrow> 's writer \<Rightarrow> ss_writer \<times> 's \<Rightarrow> (ss_writer \<times> 's) \<times> err option" where
  "ss_Flush K wr = (\<lambda>(w, s).
     if \<not> needFlush w then ((w, s), None) else ss_flush K (the (sw_aead w)) wr (w, s))"

lemma ss_copy_progress: "src_read src payloadSizeMask = (src', bs, None) \<Longrightarrow> src_size src' < src_size src"
  by (rule src_read_size) auto

text \<open>The main transfer loop of \<^verbatim>\<open>ReadFrom\<close>; the error it ends with is the result.\<close>

function ss_copy ::
  "ss_key \<Rightarrow> aead \<Rightarrow> 's writer \<Rightarrow> ss_writer \<Rightarrow> 's \<Rightarrow> source \<Rightarrow> nat
   \<Rightarrow> (ss_writer \<times> 's) \<times> source \<times> nat \<times> err" where
  "ss_copy K A wr w s src written =
     (case src_read src payloadSizeMask of
        (src', bs, e) \<Rightarrow>
          (case ss_flush K A wr
                  (w\<lparr>sbuf := blit (payloadStart K A) bs (sbuf w), pending := length bs\<rparr>, s) of
             ((w', s'), fe) \<Rightarrow>
               (case (if fe \<noteq> None then fe else e) of
                  Some x \<Rightarrow> ((w', s'), src', written + length bs, x)
                | None \<Rightarrow> ss_copy K A wr w' s' src' (written + length bs))))"
  by pat_completeness auto
termination
proof (relation "measure (\<lambda>(K, A, wr, w, s, src, n). src_size src)", goal_cases)
  case 1
  show ?case by simp
next
  case 2
  then show ?case by (auto dest: ss_copy_progress [OF sym] split: if_splits)
qed

text \<open>
  The first step of \<^verbatim>\<open>ReadFrom\<close> after a \<^verbatim>\<open>LazyWrite\<close>: it reads into the part of the buffer that a
  flush does not touch, without the lock; \<open>timer\<close> says whether the timer's \<^verbatim>\<open>Flush\<close> runs meanwhile.
\<close>

definition ss_first_read ::
  "ss_key \<Rightarrow> aead \<Rightarrow> 's writer \<Rightarrow> bool \<Rightarrow> ss_writer \<times> 's \<Rightarrow> source
   \<Rightarrow> (ss_writer \<times> 's) \<times> source \<times> nat \<times> err option" where
  "ss_first_read K A wr timer = (\<lambda>(w, s) src.
     let off = payloadStart K A + pending w + Overhead A;
         (src', bs, e) = src_read src (length (sbuf w) - off);
         w1 = w\<lparr>sbuf := blit off bs (sbuf w)\<rparr>;
         (w2, s2) = (if timer then fst (ss_Flush K wr (w1, s)) else (w1, s));
         (w3, _) = ss_enqueue K A (subslice off (off + length bs) (sbuf w2)) w2;
         ((w4, s4), fe) = ss_flush K A wr (w3, s2)
     in ((w4\<lparr>needFlush := False\<rparr>, s4), src', length bs, if fe \<noteq> None then fe else e))"

definition ss_result :: "err \<Rightarrow> err option" where
  "ss_result e = (if e = EOF then None else Some (ErrWrap ''failed to read payload'' e))"

definition ss_read_from ::
  "ss_key \<Rightarrow> salt_gen \<Rightarrow> 's writer \<Rightarrow> bool \<Rightarrow> ss_writer \<times> 's \<Rightarrow> source
   \<Rightarrow> (ss_writer \<times> 's) \<times> source \<times> nat \<times> err option" where
  "ss_read_from K sg wr timer = (\<lambda>(w, s) src.
     case ss_init K sg w of
       (w1, Some e) \<Rightarrow> ((w1, s), src, 0, Some e)
     | (w1, None) \<Rightarrow>
         let A = the (sw_aead w1);
             ((w2, s2), src2, n, e) =
               (if needFlush w1 then ss_first_read K A wr timer (w1, s) src else ((w1, s), src, 0, None))
         in (case e of
               Some x \<Rightarrow> ((w2, s2), src2, n, ss_result x)
             | None \<Rightarrow>
                 (case ss_copy K A wr w2 s2 src2 n of
                    (ws, src3, m, x) \<Rightarrow> (ws, src3, m, ss_result x))))"

text \<open>\<^verbatim>\<open>Write\<close> is \<^verbatim>\<open>ReadFrom\<close> of a \<^verbatim>\<open>bytes.Reader\<close>.\<close>

definition ss_write ::
  "ss_key \<Rightarrow> salt_gen \<Rightarrow> 's writer \<Rightarrow> bool \<Rightarrow> (ss_writer \<times> 's) writer" where
  "ss_write K sg wr timer = (\<lambda>ws p.
     case ss_read_from K sg wr timer ws (bytes_reader p) of (ws', _, n, e) \<Rightarrow> (ws', n, e))"

declare lazy_loop.simps [simp del] ss_copy.simps [simp del]

section \<open>What is on the wire\<close>

text \<open>A chunk is its encrypted size and its encrypted payload, with two consecutive nonces.\<close>

definition ss_chunk :: "aead \<Rightarrow> nat \<Rightarrow> bytes \<Rightarrow> bytes" where
  "ss_chunk A k P =
     Seal A (nonce (NonceSize A) k) (put_u16 (length P)) @ Seal A (nonce (NonceSize A) (Suc k)) P"

fun ss_stream :: "aead \<Rightarrow> nat \<Rightarrow> bytes list \<Rightarrow> bytes" where
  "ss_stream A k [] = []"
| "ss_stream A k (P # Ps) = ss_chunk A k P @ ss_stream A (k + 2) Ps"

definition ss_frame :: "aead \<Rightarrow> bytes \<Rightarrow> bytes list \<Rightarrow> bytes" where
  "ss_frame A salt Ps = (if Ps = [] then [] else salt @ ss_stream A 0 Ps)"

definition chunks_ok :: "bytes list \<Rightarrow> bool" where
  "chunks_ok Ps \<longleftrightarrow> (\<forall>P \<in> set Ps. P \<noteq> [] \<and> length P \<le> payloadSizeMask)"

lemma ss_stream_snoc: "ss_stream A k (Ps @ [P]) = ss_stream A k Ps @ ss_chunk A (k + 2 * length Ps) P"
  by (induction Ps arbitrary: k) (simp_all add: add.assoc)

lemma ss_frame_snoc:
  "ss_frame A salt (Ps @ [P]) = ss_frame A salt Ps @ (if Ps = [] then salt else []) @ ss_chunk A (2 * length Ps) P"
  using ss_stream_snoc [of A 0 Ps P] by (simp add: ss_frame_def)

lemma chunks_ok_length: "chunks_ok Ps \<Longrightarrow> length Ps \<le> length (concat Ps)"
proof (induction Ps)
  case (Cons P Ps)
  then have "1 \<le> length P" by (cases P) (auto simp: chunks_ok_def)
  then show ?case using Cons by (auto simp: chunks_ok_def)
qed simp

text \<open>The writer after the chunks \<open>Ps\<close> left, with the plaintext \<open>P\<close> in its buffer.\<close>

definition ss_inv :: "ss_key \<Rightarrow> aead \<Rightarrow> bytes \<Rightarrow> bytes list \<Rightarrow> bytes \<Rightarrow> ss_writer \<Rightarrow> bool" where
  "ss_inv K A salt Ps P w \<longleftrightarrow>
     sw_aead w = Some A \<and> aead_ok A \<and> length salt = SaltSize K
     \<and> length (sbuf w) = SaltSize K + 2 + Overhead A + (payloadSizeMask + Overhead A)
     \<and> take (SaltSize K) (sbuf w) = salt \<and> counter w = nonce (NonceSize A) (2 * length Ps)
     \<and> pending w = length P \<and> length P \<le> payloadSizeMask
     \<and> subslice (payloadStart K A) (payloadStart K A + length P) (sbuf w) = P \<and> chunks_ok Ps"

lemma ss_flush_bytes:
  assumes inv: "ss_inv K A salt Ps P w" and P: "P \<noteq> []" and lim: "2 * length Ps < 256 ^ NonceSize A"
  shows "\<exists>w'. ss_inv K A salt (Ps @ [P]) [] w' \<and> needFlush w' = needFlush w
    \<and> (\<forall>i j. payloadStart K A + length P + Overhead A \<le> i \<longrightarrow>
         subslice i j (sbuf w') = subslice i j (sbuf w))
    \<and> ss_flush K A wr (w, s) =
        (case wr s ((if Ps = [] then salt else []) @ ss_chunk A (2 * length Ps) P) of
           (s', _, e) \<Rightarrow> ((w', s'), e))"
proof -
  let ?S = "SaltSize K" and ?O = "Overhead A" and ?n = "length P" and ?N = "NonceSize A"
  let ?k = "2 * length Ps" and ?ps = "payloadStart K A"
  have ok: "aead_ok A" and sl: "length salt = ?S" and ln: "?n \<le> payloadSizeMask"
    and bl: "length (sbuf w) = ?S + 2 + ?O + (payloadSizeMask + ?O)" and sa: "take ?S (sbuf w) = salt"
    and ct: "counter w = nonce ?N ?k" and pe: "pending w = ?n"
    and su: "subslice ?ps (?ps + ?n) (sbuf w) = P"
    using inv by (auto simp: ss_inv_def)
  define b1 where "b1 = blit ?S (put_u16 ?n) (sbuf w)"
  define c1 where "c1 = Seal A (nonce ?N ?k) (put_u16 ?n)"
  define b2 where "b2 = blit ?S c1 b1"
  define c2 where "c2 = Seal A (nonce ?N (Suc ?k)) P"
  define b3 where "b3 = blit ?ps c2 b2"
  have lc: "length c1 = 2 + ?O" "length c2 = ?n + ?O" using ok by (simp_all add: c1_def c2_def)
  have ps: "?ps = ?S + length c1" by (simp add: payloadStart_def lc)
  have l1: "length b1 = length (sbuf w)" using bl by (simp add: b1_def)
  have l2: "length b2 = length (sbuf w)" using bl lc l1 by (simp add: b2_def)
  have fit: "?ps + length c2 \<le> length b2" "?S + length c1 \<le> length b1"
    using l1 l2 bl lc ln by (simp_all add: payloadStart_def)
  have l3: "length b3 = length (sbuf w)" using fit l2 by (simp add: b3_def)
  have r1: "subslice ?S (?S + 2) b1 = put_u16 ?n"
    unfolding b1_def using subslice_blit_same [of ?S "put_u16 ?n" "sbuf w"] bl by simp
  have "subslice ?ps (?ps + ?n) b2 = subslice ?ps (?ps + ?n) b1"
    unfolding b2_def by (rule subslice_blit_after) (use fit ps in simp_all)
  also have "\<dots> = P"
    unfolding b1_def by (subst subslice_blit_after) (use su bl in \<open>simp_all add: payloadStart_def\<close>)
  finally have r2: "subslice ?ps (?ps + ?n) b2 = P" .
  have s0: "take ?S b3 = salt"
    using sa fit l1 l2 bl lc by (simp add: b3_def b2_def b1_def payloadStart_def)
  have s1: "subslice ?S ?ps b3 = c1"
  proof -
    have "subslice ?S ?ps b3 = subslice ?S ?ps b2"
      unfolding b3_def by (rule subslice_blit_before) (use fit in simp_all)
    also have "\<dots> = c1" unfolding b2_def ps by (rule subslice_blit_same) (rule fit(2))
    finally show ?thesis .
  qed
  have s2: "subslice ?ps (?ps + length c2) b3 = c2"
    unfolding b3_def by (rule subslice_blit_same) (rule fit(1))
  have all: "subslice ?S (?ps + length c2) b3 = c1 @ c2"
    using subslice_append [of ?S ?ps "?ps + length c2" b3] s1 s2 by (simp add: payloadStart_def)
  have send: "subslice (if isZero (counter w) then 0 else ?S) (?S + length c1 + length c2) b3
      = (if Ps = [] then salt else []) @ ss_chunk A ?k P"
  proof (cases "Ps = []")
    case True
    then have "subslice 0 (?ps + length c2) b3 = salt @ c1 @ c2"
      using subslice_append [of 0 ?S "?ps + length c2" b3] all s0
      by (simp add: subslice_drop_take payloadStart_def)
    then show ?thesis using True lim ct ps by (simp add: isZero_nonce ss_chunk_def c1_def c2_def)
  next
    case False
    then show ?thesis using all lim ct ps by (simp add: isZero_nonce ss_chunk_def c1_def c2_def)
  qed
  have keep: "subslice i j b3 = subslice i j (sbuf w)" if "?ps + ?n + ?O \<le> i" for i j
  proof -
    have "subslice i j b3 = subslice i j b2"
      unfolding b3_def by (rule subslice_blit_after) (use that fit lc in simp_all)
    also have "\<dots> = subslice i j b1"
      unfolding b2_def by (rule subslice_blit_after) (use that fit ps in simp_all)
    also have "\<dots> = subslice i j (sbuf w)"
      unfolding b1_def by (rule subslice_blit_after) (use that bl in \<open>simp_all add: payloadStart_def\<close>)
    finally show ?thesis .
  qed
  let ?w' = "w\<lparr>sbuf := b3, counter := nonce ?N (2 * length (Ps @ [P])), pending := 0\<rparr>"
  have "ss_inv K A salt (Ps @ [P]) [] ?w'"
    using inv l3 s0 P by (auto simp: ss_inv_def chunks_ok_def subslice_def)
  moreover have "ss_flush K A wr (w, s) =
      (case wr s ((if Ps = [] then salt else []) @ ss_chunk A ?k P) of (s', _, e) \<Rightarrow> ((?w', s'), e))"
  proof -
    have e1: "encryptBlock A ?S 2 (w\<lparr>sbuf := b1\<rparr>)
        = (w\<lparr>sbuf := b2, counter := nonce ?N (Suc ?k)\<rparr>, length c1)"
      using r1 by (simp add: encryptBlock_def ct b2_def c1_def nonce_Suc Let_def)
    have e2: "encryptBlock A ?ps ?n (w\<lparr>sbuf := b2, counter := nonce ?N (Suc ?k)\<rparr>)
        = (w\<lparr>sbuf := b3, counter := nonce ?N (Suc (Suc ?k))\<rparr>, length c2)"
      by (simp add: encryptBlock_def r2 b3_def c2_def nonce_Suc Let_def)
    show ?thesis using P send unfolding ss_flush_def
      by (simp add: pe b1_def [symmetric] e1 e2 Let_def)
  qed
  ultimately show ?thesis using keep by (intro exI [of _ ?w']) simp
qed

lemma ss_inv_blit:
  assumes "ss_inv K A salt Ps P w" and "payloadStart K A + length P \<le> off"
    and "off + length bs \<le> length (sbuf w)"
  shows "ss_inv K A salt Ps P (w\<lparr>sbuf := blit off bs (sbuf w)\<rparr>)"
  using assms by (simp add: ss_inv_def subslice_blit_before payloadStart_def)

lemma ss_enqueue_inv:
  assumes inv: "ss_inv K A salt Ps P w" and e: "ss_enqueue K A p w = (w', n)"
  shows "n = min (payloadSizeMask - length P) (length p)"
    and "ss_inv K A salt Ps (P @ take n p) w'" and "needFlush w' = needFlush w"
proof -
  let ?ps = "payloadStart K A" and ?q = "take n p"
  let ?at = "?ps + length P"
  have l: "length P \<le> payloadSizeMask" "pending w = length P"
    "length (sbuf w) = SaltSize K + 2 + Overhead A + (payloadSizeMask + Overhead A)"
    "subslice ?ps ?at (sbuf w) = P"
    using inv by (auto simp: ss_inv_def)
  show n: "n = min (payloadSizeMask - length P) (length p)"
    using e l(2) by (auto simp: ss_enqueue_def Let_def)
  have w': "w' = w\<lparr>sbuf := blit ?at ?q (sbuf w), pending := length P + n\<rparr>"
    using e l(2) by (auto simp: ss_enqueue_def Let_def)
  have ln: "length ?q = n" "length P + n \<le> payloadSizeMask" using n l(1) by auto
  have fit: "?at + length ?q \<le> length (sbuf w)" using ln l by (simp add: payloadStart_def)
  have "subslice ?ps (?at + n) (blit ?at ?q (sbuf w)) = P @ ?q"
    using subslice_append [of ?ps ?at "?at + n" "blit ?at ?q (sbuf w)"]
      subslice_blit_before [of ?at ?at ?q "sbuf w" ?ps] subslice_blit_same [OF fit] fit l(4) ln by simp
  then show "ss_inv K A salt Ps (P @ take n p) w'"
    using inv w' ln fit by (simp add: ss_inv_def payloadStart_def add.assoc)
  show "needFlush w' = needFlush w" by (simp add: w')
qed

section \<open>Steps on a connection that stays up\<close>

text \<open>
  \<open>T\<close> went in, of which \<open>P\<close> is still in the buffer, and the rest left as chunks after the output \<open>o0\<close>.
\<close>

definition ss_at :: "ss_key \<Rightarrow> aead \<Rightarrow> bytes \<Rightarrow> bytes \<Rightarrow> ss_writer \<Rightarrow> bytes \<Rightarrow> bytes \<Rightarrow> bytes \<Rightarrow> bool" where
  "ss_at K A salt o0 w ob T P \<longleftrightarrow>
     (\<exists>Ps. T = concat Ps @ P \<and> ss_inv K A salt Ps P w \<and> ob = o0 @ ss_frame A salt Ps)"

lemma ss_at_enqueue:
  "ss_at K A salt o0 w ob T P \<Longrightarrow> ss_enqueue K A p w = (w', n) \<Longrightarrow>
   n = min (payloadSizeMask - length P) (length p) \<and> needFlush w' = needFlush w
   \<and> ss_at K A salt o0 w' ob (T @ take n p) (P @ take n p)"
  unfolding ss_at_def using ss_enqueue_inv by (metis append.assoc)

context reliable_writer
begin

lemma ss_at_flush:
  assumes at: "ss_at K A salt o0 w (out s) T P" and g: "good s" and lim: "2 * length T < 256 ^ NonceSize A"
  shows "\<exists>w' s'. good s' \<and> ss_flush K A wr (w, s) = ((w', s'), None)
     \<and> ss_at K A salt o0 w' (out s') T [] \<and> needFlush w' = needFlush w
     \<and> (\<forall>i j. payloadStart K A + length P + Overhead A \<le> i \<longrightarrow>
         subslice i j (sbuf w') = subslice i j (sbuf w))"
proof -
  obtain Ps where Ps: "T = concat Ps @ P" "ss_inv K A salt Ps P w" "out s = o0 @ ss_frame A salt Ps"
    using at by (auto simp: ss_at_def)
  show ?thesis
  proof (cases "P = []")
    case True
    then have "pending w = 0" using Ps(2) by (simp add: ss_inv_def)
    then show ?thesis using g at True by (auto simp: ss_flush_def)
  next
    case False
    have "length Ps \<le> length (concat Ps)" using Ps(2) by (simp add: ss_inv_def chunks_ok_length)
    then have "2 * length Ps < 256 ^ NonceSize A" using lim Ps(1) by simp
    from ss_flush_bytes [OF Ps(2) False this, of wr s]
    obtain w' where w': "ss_inv K A salt (Ps @ [P]) [] w'" "needFlush w' = needFlush w"
      "\<forall>i j. payloadStart K A + length P + Overhead A \<le> i \<longrightarrow>
         subslice i j (sbuf w') = subslice i j (sbuf w)"
      "ss_flush K A wr (w, s) =
        (case wr s ((if Ps = [] then salt else []) @ ss_chunk A (2 * length Ps) P) of
           (s', _, e) \<Rightarrow> ((w', s'), e))" by blast
    obtain s' where s': "good s'" "wr s ((if Ps = [] then salt else []) @ ss_chunk A (2 * length Ps) P)
        = (s', length ((if Ps = [] then salt else []) @ ss_chunk A (2 * length Ps) P), None)"
      using good_ok [OF g] by blast
    have "out s' = o0 @ ss_frame A salt (Ps @ [P])"
      using wr_ok [OF s'(2)] Ps(3) by (simp add: ss_frame_snoc)
    moreover have "T = concat (Ps @ [P]) @ []" using Ps(1) by simp
    ultimately have "ss_at K A salt o0 w' (out s') T []" using w'(1) unfolding ss_at_def by blast
    then show ?thesis using s' w' by auto
  qed
qed

lemma ss_at_lazy_loop:
  "ss_at K A salt o0 w (out s) T P \<Longrightarrow> good s \<Longrightarrow> 2 * length (T @ p) < 256 ^ NonceSize A \<Longrightarrow>
   \<exists>w' s' P'. good s' \<and> lazy_loop K A wr w s p q = ((w', s'), q + length p, None)
     \<and> ss_at K A salt o0 w' (out s') (T @ p) P' \<and> needFlush w'"
proof (induction "2 * length p + (if payloadSizeMask \<le> pending w then 1 else 0)"
    arbitrary: w s T P p q rule: less_induct)
  case less
  obtain w1 n where e: "ss_enqueue K A p w = (w1, n)" by fastforce
  have pw: "pending w = length P" using less.prems(1) by (auto simp: ss_at_def ss_inv_def)
  from ss_at_enqueue [OF less.prems(1) e]
  have n: "n = min (payloadSizeMask - length P) (length p)"
    and at1: "ss_at K A salt o0 w1 (out s) (T @ take n p) (P @ take n p)" by auto
  show ?case
  proof (cases "drop n p = []")
    case True
    then have "n = length p" using n by auto
    moreover have "ss_at K A salt o0 (w1\<lparr>needFlush := True\<rparr>) (out s) (T @ p) (P @ p)"
      using at1 True by (simp add: ss_at_def ss_inv_def)
    ultimately show ?thesis using less.prems(2) e True
      by (subst lazy_loop.simps) (auto intro!: exI)
  next
    case False
    have "2 * length (T @ take n p) < 256 ^ NonceSize A" using less.prems(3) by simp
    from ss_at_flush [OF at1 less.prems(2) this]
    obtain w2 s2 where f: "good s2" "ss_flush K A wr (w1, s) = ((w2, s2), None)"
      "ss_at K A salt o0 w2 (out s2) (T @ take n p) []" by blast
    have "pending w2 = 0" using f(2) by (rule ss_flush_pending)
    moreover have "n < length p" using False by simp
    ultimately have dec: "2 * length (drop n p) + (if payloadSizeMask \<le> pending w2 then 1 else 0)
        < 2 * length p + (if payloadSizeMask \<le> pending w then 1 else 0)"
      using n pw by auto
    have "2 * length ((T @ take n p) @ drop n p) < 256 ^ NonceSize A" using less.prems(3) by simp
    from less.hyps [OF dec f(3,1) this, of "q + n"]
    obtain w3 s3 P3 where r: "good s3" "lazy_loop K A wr w2 s2 (drop n p) (q + n)
        = ((w3, s3), q + n + length (drop n p), None)"
      "ss_at K A salt o0 w3 (out s3) ((T @ take n p) @ drop n p) P3" "needFlush w3" by blast
    have "lazy_loop K A wr w s p q = lazy_loop K A wr w2 s2 (drop n p) (q + n)"
      using e f(2) False by (subst lazy_loop.simps) simp
    then show ?thesis using r \<open>n < length p\<close> by auto
  qed
qed

lemma ss_at_copy:
  "ss_at K A salt o0 w (out s) T [] \<Longrightarrow> good s \<Longrightarrow> clean src \<Longrightarrow>
   2 * length (T @ src_bytes src) < 256 ^ NonceSize A \<Longrightarrow>
   \<exists>w' s' src'. good s' \<and> ss_copy K A wr w s src m = ((w', s'), src', m + length (src_bytes src), EOF)
     \<and> ss_at K A salt o0 w' (out s') (T @ src_bytes src) [] \<and> needFlush w' = needFlush w"
proof (induction "src_size src" arbitrary: w s src T m rule: less_induct)
  case less
  obtain src1 bs e where r: "src_read src payloadSizeMask = (src1, bs, e)" by (metis prod_cases3)
  note rb = src_read_bytes [OF r] and rl = src_read_le [OF r] and rc = src_read_clean [OF r less.prems(3)]
    and re = src_read_clean_err [OF r less.prems(3)]
  let ?w1 = "w\<lparr>sbuf := blit (payloadStart K A) bs (sbuf w), pending := length bs\<rparr>"
  have "ss_enqueue K A bs w = (?w1, length bs)"
    using rl less.prems(1) by (auto simp: ss_enqueue_def ss_at_def ss_inv_def Let_def)
  from ss_at_enqueue [OF less.prems(1) this]
  have at1: "ss_at K A salt o0 ?w1 (out s) (T @ bs) bs" by simp
  have "2 * length (T @ bs) < 256 ^ NonceSize A" using less.prems(4) rb by simp
  from ss_at_flush [OF at1 less.prems(2) this]
  obtain w2 s2 where f: "good s2" "ss_flush K A wr (?w1, s) = ((w2, s2), None)"
    "ss_at K A salt o0 w2 (out s2) (T @ bs) []" "needFlush w2 = needFlush w" by auto
  show ?case
  proof (cases "src = []")
    case True
    then have "bs = []" using rb by simp
    then show ?thesis using True r f by (subst ss_copy.simps) auto
  next
    case False
    then have "e = None" using re by simp
    have "src_size src1 < src_size src" using src_read_size [OF r _ False] by simp
    moreover have "2 * length ((T @ bs) @ src_bytes src1) < 256 ^ NonceSize A"
      using less.prems(4) rb by simp
    ultimately obtain w3 s3 src3 where g: "good s3"
      "ss_copy K A wr w2 s2 src1 (m + length bs) = ((w3, s3), src3, m + length bs + length (src_bytes src1), EOF)"
      "ss_at K A salt o0 w3 (out s3) ((T @ bs) @ src_bytes src1) []" "needFlush w3 = needFlush w2"
      using less.hyps [OF _ f(3,1) rc] by blast
    have "ss_copy K A wr w s src m = ss_copy K A wr w2 s2 src1 (m + length bs)"
      using r f(2) \<open>e = None\<close> by (subst ss_copy.simps) simp
    then show ?thesis using g f(4) rb by auto
  qed
qed

text \<open>The read without the lock: a flush that runs meanwhile does not touch the bytes read.\<close>

lemma ss_at_first_read:
  assumes at: "ss_at K A salt o0 w (out s) T P" and g: "good s" and c: "clean src" and nf: "needFlush w"
    and lim: "2 * length (T @ src_bytes src) < 256 ^ NonceSize A"
  shows "\<exists>w' s' src' bs. good s' \<and> clean src' \<and> src_bytes src = bs @ src_bytes src'
     \<and> ss_first_read K A wr timer (w, s) src
        = ((w', s'), src', length bs, if src = [] then Some EOF else None)
     \<and> ss_at K A salt o0 w' (out s') (T @ bs) [] \<and> \<not> needFlush w'"
proof -
  define off where "off = payloadStart K A + length P + Overhead A"
  obtain Ps where Ps: "T = concat Ps @ P" "ss_inv K A salt Ps P w" "out s = o0 @ ss_frame A salt Ps"
    using at by (auto simp: ss_at_def)
  have lw: "pending w = length P" "length P \<le> payloadSizeMask" "sw_aead w = Some A"
    "length (sbuf w) = SaltSize K + 2 + Overhead A + (payloadSizeMask + Overhead A)"
    using Ps(2) by (auto simp: ss_inv_def)
  have cap: "length (sbuf w) - off = payloadSizeMask - length P" "off \<le> length (sbuf w)"
    using lw by (auto simp: off_def payloadStart_def)
  obtain src1 bs e where r: "src_read src (length (sbuf w) - off) = (src1, bs, e)" by (metis prod_cases3)
  note rb = src_read_bytes [OF r] and rl = src_read_le [OF r]
  let ?w1 = "w\<lparr>sbuf := blit off bs (sbuf w)\<rparr>"
  have fit: "off + length bs \<le> length (sbuf w)" using rl cap by simp
  have inv1: "ss_inv K A salt Ps P ?w1"
    by (rule ss_inv_blit [OF Ps(2)]) (use fit in \<open>simp_all add: off_def\<close>)
  have at1: "ss_at K A salt o0 ?w1 (out s) T P" unfolding ss_at_def using inv1 Ps by blast
  have sub1: "subslice off (off + length bs) (sbuf ?w1) = bs"
    using subslice_blit_same [OF fit] by simp
  have limT: "2 * length T < 256 ^ NonceSize A" using lim by simp
  obtain w2 s2 P2 where w2: "good s2" "ss_at K A salt o0 w2 (out s2) T P2" "length P2 \<le> length P"
    "(if timer then fst (ss_Flush K wr (?w1, s)) else (?w1, s)) = (w2, s2)"
    "subslice off (off + length bs) (sbuf w2) = bs"
  proof (cases timer)
    case False
    then show ?thesis using that [of s ?w1 P] g at1 sub1 by simp
  next
    case True
    from ss_at_flush [OF at1 g limT]
    obtain w2 s2 where "good s2" "ss_flush K A wr (?w1, s) = ((w2, s2), None)"
      "ss_at K A salt o0 w2 (out s2) T []"
      "subslice off (off + length bs) (sbuf w2) = subslice off (off + length bs) (sbuf ?w1)"
      by (auto simp: off_def)
    then show ?thesis using that [of s2 w2 "[]"] True nf sub1 lw(3) by (simp add: ss_Flush_def)
  qed
  obtain w3 n where e3: "ss_enqueue K A bs w2 = (w3, n)" by fastforce
  from ss_at_enqueue [OF w2(2) e3] have n: "n = length bs" using rl cap(1) w2(3) by auto
  have at3: "ss_at K A salt o0 w3 (out s2) (T @ bs) (P2 @ bs)"
    using ss_at_enqueue [OF w2(2) e3] n by simp
  have "2 * length (T @ bs) < 256 ^ NonceSize A" using lim rb by simp
  from ss_at_flush [OF at3 w2(1) this]
  obtain w4 s4 where f: "good s4" "ss_flush K A wr (w3, s2) = ((w4, s4), None)"
    "ss_at K A salt o0 w4 (out s4) (T @ bs) []" by blast
  have "ss_at K A salt o0 (w4\<lparr>needFlush := False\<rparr>) (out s4) (T @ bs) []"
    using f(3) by (simp add: ss_at_def ss_inv_def)
  moreover have "ss_first_read K A wr timer (w, s) src = ((w4\<lparr>needFlush := False\<rparr>, s4), src1, length bs, e)"
    unfolding ss_first_read_def split_conv Let_def lw(1) off_def [symmetric]
    by (simp add: r w2(4,5) e3 f(2))
  ultimately show ?thesis
    using f(1) rb src_read_clean [OF r c] src_read_clean_err [OF r c] by fastforce
qed

end

section \<open>Any sequence of operations\<close>

datatype ss_op =
    LazyWrite bytes
  | Flush
  | WriteOp bytes bool
  | ReadFrom source bool

fun ss_step ::
  "ss_key \<Rightarrow> salt_gen \<Rightarrow> 's writer \<Rightarrow> ss_op \<Rightarrow> ss_writer \<times> 's \<Rightarrow> (ss_writer \<times> 's) \<times> nat \<times> err option" where
  "ss_step K sg wr (LazyWrite p) ws = ss_lazy_write K sg wr ws p"
| "ss_step K sg wr Flush ws = (case ss_Flush K wr ws of (ws', e) \<Rightarrow> (ws', 0, e))"
| "ss_step K sg wr (WriteOp p timer) ws = ss_write K sg wr timer ws p"
| "ss_step K sg wr (ReadFrom src timer) ws =
     (case ss_read_from K sg wr timer ws src of (ws', _, n, e) \<Rightarrow> (ws', n, e))"

fun ss_steps ::
  "ss_key \<Rightarrow> salt_gen \<Rightarrow> 's writer \<Rightarrow> ss_op list \<Rightarrow> ss_writer \<times> 's \<Rightarrow> (ss_writer \<times> 's) \<times> nat \<times> err option" where
  "ss_steps K sg wr [] ws = (ws, 0, None)"
| "ss_steps K sg wr (x # xs) ws =
     (case ss_step K sg wr x ws of
        (ws', n, Some e) \<Rightarrow> (ws', n, Some e)
      | (ws', n, None) \<Rightarrow> (case ss_steps K sg wr xs ws' of (ws'', m, e) \<Rightarrow> (ws'', n + m, e)))"

fun op_bytes :: "ss_op \<Rightarrow> bytes" where
  "op_bytes (LazyWrite p) = p"
| "op_bytes Flush = []"
| "op_bytes (WriteOp p _) = p"
| "op_bytes (ReadFrom src _) = src_bytes src"

fun op_clean :: "ss_op \<Rightarrow> bool" where
  "op_clean (ReadFrom src _) = clean src"
| "op_clean _ = True"

text \<open>Before the first operation, and after it.\<close>

definition ss_rel :: "ss_key \<Rightarrow> aead \<Rightarrow> bytes \<Rightarrow> bytes \<Rightarrow> bytes \<Rightarrow> ss_writer \<Rightarrow> bytes \<Rightarrow> bool" where
  "ss_rel K A salt o0 T w ob \<longleftrightarrow>
     (w = new_ss_writer \<and> T = [] \<and> ob = o0)
     \<or> (\<exists>P. ss_at K A salt o0 w ob T P \<and> (P \<noteq> [] \<longrightarrow> needFlush w))"

lemma ss_init_rel:
  assumes "sg (SaltSize K) = Inr salt" "newAEAD K salt = Inr A" "aead_ok A" "length salt = SaltSize K"
    and "ss_rel K A salt o0 T w ob"
  shows "\<exists>w' P. ss_init K sg w = (w', None) \<and> sw_aead w' = Some A
     \<and> ss_at K A salt o0 w' ob T P \<and> (P \<noteq> [] \<longrightarrow> needFlush w')"
proof (cases "w = new_ss_writer")
  case True
  let ?w' = "w\<lparr>sw_aead := Some A, counter := replicate (NonceSize A) 0,
     sbuf := salt @ replicate (2 + Overhead A + (payloadSizeMask + Overhead A)) 0\<rparr>"
  have T: "T = [] \<and> ob = o0"
    using assms(5) True by (auto simp: ss_rel_def ss_at_def ss_inv_def new_ss_writer_def)
  have "ss_inv K A salt [] [] ?w'"
    using assms True by (simp add: ss_inv_def new_ss_writer_def nonce_0 chunks_ok_def subslice_def)
  then have "ss_at K A salt o0 ?w' ob T []" using T by (auto simp: ss_at_def ss_frame_def)
  moreover have "ss_init K sg w = (?w', None)"
    using assms True by (simp add: ss_init_def new_ss_writer_def)
  ultimately show ?thesis by (intro exI [of _ ?w'] exI [of _ "[]"]) simp
next
  case False
  then obtain P where "ss_at K A salt o0 w ob T P" "P \<noteq> [] \<longrightarrow> needFlush w"
    using assms(5) by (auto simp: ss_rel_def)
  moreover from this have "sw_aead w = Some A" by (auto simp: ss_at_def ss_inv_def)
  ultimately show ?thesis by (auto simp: ss_init_def)
qed

context reliable_writer
begin

lemma ss_read_from_good:
  assumes K: "sg (SaltSize K) = Inr salt" "newAEAD K salt = Inr A" "aead_ok A" "length salt = SaltSize K"
    and rel: "ss_rel K A salt o0 T w (out s)" and g: "good s" and c: "clean src"
    and lim: "2 * length (T @ src_bytes src) < 256 ^ NonceSize A"
  shows "\<exists>w' s' src'. good s' \<and> ss_read_from K sg wr timer (w, s) src
       = ((w', s'), src', length (src_bytes src), None)
     \<and> ss_at K A salt o0 w' (out s') (T @ src_bytes src) []"
proof -
  obtain w1 P where i: "ss_init K sg w = (w1, None)" "sw_aead w1 = Some A"
    "ss_at K A salt o0 w1 (out s) T P" "P \<noteq> [] \<longrightarrow> needFlush w1"
    using ss_init_rel [where sg = sg, OF K rel] by blast
  show ?thesis
  proof (cases "needFlush w1")
    case False
    then have "ss_at K A salt o0 w1 (out s) T []" using i by auto
    from ss_at_copy [OF this g c lim, of 0] show ?thesis
      using i False by (auto simp: ss_read_from_def ss_result_def)
  next
    case True
    from ss_at_first_read [OF i(3) g c True lim, of timer]
    obtain w2 s2 src2 bs where f: "good s2" "clean src2" "src_bytes src = bs @ src_bytes src2"
      "ss_first_read K A wr timer (w1, s) src
        = ((w2, s2), src2, length bs, if src = [] then Some EOF else None)"
      "ss_at K A salt o0 w2 (out s2) (T @ bs) []" by blast
    show ?thesis
    proof (cases "src = []")
      case True
      then have "bs = []" "src_bytes src2 = []" using f(3) by auto
      then show ?thesis using f i \<open>needFlush w1\<close> True by (auto simp: ss_read_from_def ss_result_def)
    next
      case False
      have "2 * length ((T @ bs) @ src_bytes src2) < 256 ^ NonceSize A" using lim f(3) by simp
      from ss_at_copy [OF f(5) f(1,2) this, of "length bs"] show ?thesis
        using f i True False by (auto simp: ss_read_from_def ss_result_def)
    qed
  qed
qed

lemma ss_step_good:
  assumes K: "sg (SaltSize K) = Inr salt" "newAEAD K salt = Inr A" "aead_ok A" "length salt = SaltSize K"
    and rel: "ss_rel K A salt o0 T w (out s)" and g: "good s" and c: "op_clean x"
    and lim: "2 * length (T @ op_bytes x) < 256 ^ NonceSize A"
  shows "\<exists>w' s'. good s' \<and> ss_step K sg wr x (w, s) = ((w', s'), length (op_bytes x), None)
     \<and> ss_rel K A salt o0 (T @ op_bytes x) w' (out s')"
proof (cases x)
  case (LazyWrite p)
  obtain w1 P where i: "ss_init K sg w = (w1, None)" "sw_aead w1 = Some A"
    "ss_at K A salt o0 w1 (out s) T P"
    using ss_init_rel [where sg = sg, OF K rel] by blast
  have "2 * length (T @ p) < 256 ^ NonceSize A" using lim LazyWrite by simp
  from ss_at_lazy_loop [OF i(3) g this, of 0] show ?thesis
    using i LazyWrite by (fastforce simp: ss_lazy_write_def ss_rel_def)
next
  case Flush
  show ?thesis
  proof (cases "needFlush w")
    case False
    then show ?thesis using Flush rel g by (simp add: ss_Flush_def)
  next
    case True
    then have "w \<noteq> new_ss_writer" by (auto simp: new_ss_writer_def)
    then obtain P where P: "ss_at K A salt o0 w (out s) T P" using rel by (auto simp: ss_rel_def)
    then have "sw_aead w = Some A" by (auto simp: ss_at_def ss_inv_def)
    moreover have "2 * length T < 256 ^ NonceSize A" using lim by simp
    ultimately show ?thesis using ss_at_flush [OF P g] True Flush
      by (fastforce simp: ss_Flush_def ss_rel_def)
  qed
next
  case (WriteOp p timer)
  have "2 * length (T @ src_bytes (bytes_reader p)) < 256 ^ NonceSize A" using lim WriteOp by simp
  from ss_read_from_good [where sg = sg, OF K rel g bytes_reader_props(2) this, of timer] show ?thesis
    using WriteOp by (fastforce simp: ss_write_def ss_rel_def)
next
  case (ReadFrom src timer)
  have "2 * length (T @ src_bytes src) < 256 ^ NonceSize A" "clean src" using lim c ReadFrom by simp_all
  from ss_read_from_good [where sg = sg, OF K rel g this(2,1), of timer] show ?thesis
    using ReadFrom by (fastforce simp: ss_rel_def)
qed

lemma ss_steps_good:
  assumes K: "sg (SaltSize K) = Inr salt" "newAEAD K salt = Inr A" "aead_ok A" "length salt = SaltSize K"
  shows "ss_rel K A salt o0 T w (out s) \<Longrightarrow> good s \<Longrightarrow> \<forall>x \<in> set xs. op_clean x \<Longrightarrow>
    2 * length (T @ concat (map op_bytes xs)) < 256 ^ NonceSize A \<Longrightarrow>
    \<exists>w' s'. good s' \<and> ss_steps K sg wr xs (w, s) = ((w', s'), length (concat (map op_bytes xs)), None)
     \<and> ss_rel K A salt o0 (T @ concat (map op_bytes xs)) w' (out s')"
proof (induction xs arbitrary: T w s)
  case Nil
  then show ?case by simp
next
  case (Cons x xs)
  have "2 * length (T @ op_bytes x) < 256 ^ NonceSize A" using Cons.prems(4) by simp
  with Cons.prems obtain w1 s1 where s1: "good s1"
    "ss_step K sg wr x (w, s) = ((w1, s1), length (op_bytes x), None)"
    "ss_rel K A salt o0 (T @ op_bytes x) w1 (out s1)"
    using ss_step_good [where sg = sg, OF K, of o0 T w s x] by auto
  have "2 * length ((T @ op_bytes x) @ concat (map op_bytes xs)) < 256 ^ NonceSize A"
    using Cons.prems(4) by simp
  with Cons.prems(3) obtain w2 s2 where "good s2"
    "ss_steps K sg wr xs (w1, s1) = ((w2, s2), length (concat (map op_bytes xs)), None)"
    "ss_rel K A salt o0 ((T @ op_bytes x) @ concat (map op_bytes xs)) w2 (out s2)"
    using Cons.IH [OF s1(3,1)] by auto
  then show ?case using s1(2) by auto
qed

lemma ss_writer_stream_good:
  assumes "sg (SaltSize K) = Inr salt" "newAEAD K salt = Inr A" "aead_ok A" "length salt = SaltSize K"
    and "good s" "\<forall>x \<in> set xs. op_clean x"
    and "2 * length (concat (map op_bytes xs)) < 256 ^ NonceSize A"
  shows "\<exists>w' s' Ps P. good s' \<and> ss_steps K sg wr xs (new_ss_writer, s)
         = ((w', s'), length (concat (map op_bytes xs)), None)
     \<and> out s' = out s @ ss_frame A salt Ps \<and> chunks_ok Ps
     \<and> concat Ps @ P = concat (map op_bytes xs) \<and> pending w' = length P \<and> (P \<noteq> [] \<longrightarrow> needFlush w')"
proof -
  have "ss_rel K A salt (out s) [] new_ss_writer (out s)" by (simp add: ss_rel_def)
  from ss_steps_good [where sg = sg, OF assms(1-4) this assms(5,6)] assms(7)
  obtain w' s' where st: "good s' \<and> ss_steps K sg wr xs (new_ss_writer, s)
      = ((w', s'), length (concat (map op_bytes xs)), None)"
    "ss_rel K A salt (out s) (concat (map op_bytes xs)) w' (out s')" by auto
  have "\<exists>Ps P. out s' = out s @ ss_frame A salt Ps \<and> chunks_ok Ps
     \<and> concat Ps @ P = concat (map op_bytes xs) \<and> pending w' = length P \<and> (P \<noteq> [] \<longrightarrow> needFlush w')"
  proof (cases "w' = new_ss_writer")
    case True
    then have "concat (map op_bytes xs) = [] \<and> out s' = out s"
      using st(2) by (auto simp: ss_rel_def ss_at_def ss_inv_def new_ss_writer_def)
    then show ?thesis using True
      by (intro exI [of _ "[]"]) (simp add: ss_frame_def chunks_ok_def new_ss_writer_def)
  next
    case False
    then obtain Ps P where "concat (map op_bytes xs) = concat Ps @ P" "ss_inv K A salt Ps P w'"
      "out s' = out s @ ss_frame A salt Ps" "P \<noteq> [] \<longrightarrow> needFlush w'"
      using st(2) by (auto simp: ss_rel_def ss_at_def)
    then show ?thesis by (intro exI [of _ Ps] exI [of _ P]) (simp add: ss_inv_def)
  qed
  then show ?thesis using st(1) by blast
qed

end
text \<open>
  C2: after any sequence of lazy writes, flushes, writes and transfers, with the timer's flush before
  or during any of them, the connection carries the salt and well-formed chunks with nonces 0, 1, 2,
  ... whose plaintexts, with what is still in the buffer, are the bytes given, in order.
\<close>

theorem ss_writer_stream:
  assumes "sg (SaltSize K) = Inr salt" "newAEAD K salt = Inr A" "aead_ok A" "length salt = SaltSize K"
    and "healthy s" "\<forall>x \<in> set xs. op_clean x"
    and "2 * length (concat (map op_bytes xs)) < 256 ^ NonceSize A"
  shows "\<exists>w' s' Ps P. ss_steps K sg sink_write xs (new_ss_writer, s)
         = ((w', s'), length (concat (map op_bytes xs)), None)
     \<and> wire s' = wire s @ ss_frame A salt Ps \<and> chunks_ok Ps
     \<and> concat Ps @ P = concat (map op_bytes xs) \<and> pending w' = length P \<and> (P \<noteq> [] \<longrightarrow> needFlush w')"
  using net.ss_writer_stream_good [where sg = sg, OF assms] by blast

text \<open>A flush at the end leaves nothing in the buffer.\<close>

lemma ss_flush_last:
  assumes "ss_steps K sg wr (xs @ [Flush]) ws = ((w', s'), n, None)"
    and "\<And>w s m. ss_steps K sg wr xs ws = ((w, s), m, None) \<Longrightarrow> \<not> needFlush w \<Longrightarrow> pending w = 0"
  shows "pending w' = 0"
  using assms
proof (induction xs arbitrary: ws n)
  case Nil
  obtain w s where ws: "ws = (w, s)" by fastforce
  show ?case using Nil ws
    by (auto simp: ss_Flush_def split: if_splits option.splits prod.splits dest: ss_flush_pending)
next
  case (Cons x xs)
  obtain ws1 m e where st: "ss_step K sg wr x ws = (ws1, m, e)" by (metis prod_cases3)
  have "e = None" using Cons.prems(1) st by (auto split: option.splits)
  moreover obtain k where "ss_steps K sg wr (xs @ [Flush]) ws1 = ((w', s'), k, None)"
    using Cons.prems(1) st \<open>e = None\<close> by (auto split: prod.splits)
  ultimately show ?case using Cons.IH [of ws1 k] Cons.prems(2) st by (auto split: prod.splits)
qed

text \<open>The key of the witnesses: a four-byte salt and the demonstration AEAD.\<close>

definition demo_key :: ss_key where
  "demo_key = \<lparr>SaltSize = 4, TagSize = 16, newAEAD = (\<lambda>_. Inr demo_aead)\<rparr>"

definition demo_salt :: salt_gen where
  "demo_salt n = Inr (replicate n 9)"

lemma ss_writer_stream_witness:
  "\<exists>w' s' Ps P. ss_steps demo_key demo_salt sink_write [LazyWrite [1, 2], WriteOp [3] True] (new_ss_writer, fresh_sink)
         = ((w', s'), length [1, 2, 3 :: byte], None)
     \<and> wire s' = ss_frame demo_aead (replicate 4 9) Ps \<and> chunks_ok Ps
     \<and> concat Ps @ P = [1, 2, 3] \<and> pending w' = length P \<and> (P \<noteq> [] \<longrightarrow> needFlush w')"
proof -
  have "NonceSize demo_aead = 12" by (simp add: demo_aead_def)
  then show ?thesis
    using ss_writer_stream [of demo_salt demo_key "replicate 4 9" demo_aead fresh_sink
        "[LazyWrite [1, 2], WriteOp [3] True]"] demo_aead_ok
    by (simp del: ss_steps.simps add: demo_key_def demo_salt_def)
qed

end
