(* ===== verification/SSReader.thy ===== *)
theory SSReader
  imports SSWriter SlicePool
begin

text \<open>
  The decrypting \<^verbatim>\<open>Reader\<close> of \<^verbatim>\<open>transport/shadowsocks/stream.go\<close>: \<open>chunk_reader\<close> reads and opens one
  chunk at a time, \<open>read_converter\<close> gives its bytes out in pieces of the caller's size. The lemmas
  show that it inverts the writer however the stream is cut into reads, and what it does when the
  stream stops early.
\<close>

section \<open>Chunks\<close>

text \<open>
  \<open>cr_held\<close> says that the payload buffer of the pool is acquired; its capacity is \<open>readBufSize\<close>. The
  result of a decryption that fails is \<open>errDecrypt\<close>, the error of the AEAD.
\<close>

abbreviation readBufSize :: nat where
  "readBufSize \<equiv> payloadSizeMask + maxTagSize"

definition errDecrypt :: err where
  "errDecrypt = ErrWrap ''failed to decrypt'' (ErrNew ''message authentication failed'')"

record chunk_reader =
  cr_src :: source
  cr_aead :: "aead option"
  cr_counter :: bytes
  cr_held :: bool

definition new_chunk_reader :: "source \<Rightarrow> chunk_reader" where
  "new_chunk_reader src = \<lparr>cr_src = src, cr_aead = None, cr_counter = [], cr_held = False\<rparr>"

definition cr_init :: "ss_key \<Rightarrow> chunk_reader \<Rightarrow> chunk_reader \<times> err option" where
  "cr_init K r =
     (case cr_aead r of
        Some _ \<Rightarrow> (r, None)
      | None \<Rightarrow>
          (case read_full (cr_src r) (SaltSize K) of
             (src', _, Some e) \<Rightarrow>
               (r\<lparr>cr_src := src'\<rparr>,
                Some (if e \<noteq> EOF \<and> e \<noteq> UnexpectedEOF then ErrWrap ''failed to read salt'' e else e))
           | (src', salt, None) \<Rightarrow>
               (case newAEAD K salt of
                  Inl e \<Rightarrow> (r\<lparr>cr_src := src'\<rparr>, Some (ErrWrap ''failed to create AEAD'' e))
                | Inr A \<Rightarrow>
                    (r\<lparr>cr_src := src', cr_aead := Some A, cr_counter := replicate (NonceSize A) 0\<rparr>,
                     None))))"

text \<open>\<^verbatim>\<open>readMessage\<close> with a buffer of \<open>n\<close> bytes; the plaintext stays at the start of the buffer.\<close>

definition readMessage :: "aead \<Rightarrow> nat \<Rightarrow> chunk_reader \<Rightarrow> chunk_reader \<times> (err + bytes)" where
  "readMessage A n r =
     (case read_full (cr_src r) n of
        (src', _, Some e) \<Rightarrow> (r\<lparr>cr_src := src'\<rparr>, Inl e)
      | (src', buf, None) \<Rightarrow>
          (r\<lparr>cr_src := src', cr_counter := increment (cr_counter r)\<rparr>,
           case Open A (cr_counter r) buf of None \<Rightarrow> Inl errDecrypt | Some p \<Rightarrow> Inr p))"

text \<open>\<^verbatim>\<open>ReadChunk\<close>, with its second half, the payload of a size, on its own.\<close>

definition readPayload :: "aead \<Rightarrow> nat \<Rightarrow> chunk_reader \<Rightarrow> chunk_reader \<times> (err + bytes)" where
  "readPayload A sz r =
     (let sizeWithTag = sz + Overhead A; r4 = r\<lparr>cr_held := True\<rparr> in
      if readBufSize < sizeWithTag then (r4, Inl ShortBuffer)
      else (case readMessage A sizeWithTag r4 of
              (r5, Inl e) \<Rightarrow> (r5\<lparr>cr_held := False\<rparr>, Inl (if e = EOF then UnexpectedEOF else e))
            | (r5, Inr payload) \<Rightarrow> (r5, Inr (take sz payload))))"

definition chunk_size :: "bytes \<Rightarrow> nat" where
  "chunk_size sizeBuf = get_u16 sizeBuf AND payloadSizeMask"

definition ReadChunk :: "ss_key \<Rightarrow> chunk_reader \<Rightarrow> chunk_reader \<times> (err + bytes)" where
  "ReadChunk K r =
     (case cr_init K r of
        (r1, Some e) \<Rightarrow> (r1, Inl e)
      | (r1, None) \<Rightarrow>
          let A = the (cr_aead r1) in
          (case readMessage A (2 + Overhead A) (r1\<lparr>cr_held := False\<rparr>) of
             (r3, Inl e) \<Rightarrow>
               (r3, Inl (if e \<noteq> EOF \<and> e \<noteq> UnexpectedEOF
                         then ErrWrap ''failed to read payload size'' e else e))
           | (r3, Inr sizeBuf) \<Rightarrow> readPayload A (chunk_size sizeBuf) r3))"

section \<open>The converter\<close>

record read_converter =
  rc_cr :: chunk_reader
  leftover :: bytes

definition new_ss_reader :: "source \<Rightarrow> read_converter" where
  "new_ss_reader src = \<lparr>rc_cr = new_chunk_reader src, leftover = []\<rparr>"

definition ensureLeftover :: "ss_key \<Rightarrow> read_converter \<Rightarrow> read_converter \<times> err option" where
  "ensureLeftover K c =
     (if leftover c \<noteq> [] then (c, None)
      else case ReadChunk K (rc_cr c) of
             (r, Inl e) \<Rightarrow> (c\<lparr>rc_cr := r, leftover := []\<rparr>, Some e)
           | (r, Inr p) \<Rightarrow> (c\<lparr>rc_cr := r, leftover := p\<rparr>, None))"

definition rc_read :: "ss_key \<Rightarrow> nat \<Rightarrow> read_converter \<Rightarrow> read_converter \<times> bytes \<times> err option" where
  "rc_read K n c =
     (case ensureLeftover K c of
        (c', Some e) \<Rightarrow> (c', [], Some e)
      | (c', None) \<Rightarrow> (c'\<lparr>leftover := drop n (leftover c')\<rparr>, take n (leftover c'), None))"

text \<open>\<^verbatim>\<open>WriteTo\<close>; a writer that takes nothing without an error would make it run for ever.\<close>

partial_function (option) rc_write_to ::
  "ss_key \<Rightarrow> 's writer \<Rightarrow> read_converter \<Rightarrow> 's \<Rightarrow> nat
   \<Rightarrow> (read_converter \<times> 's \<times> nat \<times> err option) option" where
  "rc_write_to K wr c s written =
     (case ensureLeftover K c of
        (c1, Some e) \<Rightarrow> Some (c1, s, written, if e = EOF then None else Some e)
      | (c1, None) \<Rightarrow>
          (case wr s (leftover c1) of
             (s1, n, Some e) \<Rightarrow>
               Some (c1\<lparr>leftover := drop n (leftover c1)\<rparr>, s1, written + n, Some e)
           | (s1, n, None) \<Rightarrow>
               rc_write_to K wr (c1\<lparr>leftover := drop n (leftover c1)\<rparr>) s1 (written + n)))"

section \<open>Reading what the writer sent\<close>

text \<open>A reader that has opened \<open>k\<close> messages and whose source holds \<open>B\<close>.\<close>

definition cr_at :: "aead \<Rightarrow> nat \<Rightarrow> bytes \<Rightarrow> chunk_reader \<Rightarrow> bool" where
  "cr_at A k B r \<longleftrightarrow>
     aead_ok A \<and> Overhead A \<le> maxTagSize \<and> cr_aead r = Some A \<and> cr_counter r = nonce (NonceSize A) k
     \<and> clean (cr_src r) \<and> src_bytes (cr_src r) = B"

lemma read_full_source:
  "clean src \<Longrightarrow> src_bytes src = m @ rest \<Longrightarrow> length m = n \<Longrightarrow>
   \<exists>src'. clean src' \<and> src_bytes src' = rest \<and> read_full src n = (src', m, None)"
  using read_full_clean_eq [of src n] by auto

lemma readMessage_ok:
  assumes "cr_at A k (Seal A (nonce (NonceSize A) k) p @ B) r" and "n = length p + Overhead A"
  shows "\<exists>r'. cr_at A (Suc k) B r' \<and> cr_held r' = cr_held r \<and> readMessage A n r = (r', Inr p)"
proof -
  have at: "aead_ok A" "clean (cr_src r)" "src_bytes (cr_src r) = Seal A (nonce (NonceSize A) k) p @ B"
    "cr_counter r = nonce (NonceSize A) k"
    using assms(1) by (auto simp: cr_at_def)
  obtain src' where s: "clean src'" "src_bytes src' = B"
    "read_full (cr_src r) n = (src', Seal A (nonce (NonceSize A) k) p, None)"
    using read_full_source [OF at(2,3), of n] at(1) assms(2) by auto
  let ?r = "r\<lparr>cr_src := src', cr_counter := nonce (NonceSize A) (Suc k)\<rparr>"
  have "cr_at A (Suc k) B ?r" using assms(1) s by (simp add: cr_at_def)
  moreover have "readMessage A n r = (?r, Inr p)"
    using s at by (simp add: readMessage_def nonce_Suc)
  ultimately show ?thesis by (intro exI [of _ ?r]) simp
qed

lemma readMessage_short:
  assumes "cr_at A k B r" and "length B < n"
  shows "\<exists>r'. readMessage A n r = (r', Inl (if B = [] then EOF else UnexpectedEOF))"
proof -
  have at: "clean (cr_src r)" "src_bytes (cr_src r) = B" using assms(1) by (auto simp: cr_at_def)
  obtain src' where "read_full (cr_src r) n = (src', B, Some (if B = [] then EOF else UnexpectedEOF))"
    using read_full_clean_eq [OF at(1), of n] at(2) assms(2) by auto
  then show ?thesis by (simp add: readMessage_def)
qed

lemma cr_at_init: "cr_at A k B r \<Longrightarrow> cr_init K r = (r, None)"
  and cr_at_aead: "cr_at A k B r \<Longrightarrow> cr_aead r = Some A"
  and cr_at_held [simp]: "cr_at A k B (r\<lparr>cr_held := h\<rparr>) = cr_at A k B r"
  by (simp_all add: cr_at_def cr_init_def)

lemma size_mask: "n \<le> payloadSizeMask \<Longrightarrow> n AND payloadSizeMask = n"
proof -
  assume "n \<le> payloadSizeMask"
  then have "take_bit 14 n = n" by (simp add: take_bit_nat_eq_self_iff)
  moreover have "mask 14 = payloadSizeMask" by (simp add: mask_eq_exp_minus_1)
  ultimately show ?thesis by (metis take_bit_eq_mask)
qed

lemma chunk_size_put: "n \<le> payloadSizeMask \<Longrightarrow> chunk_size (put_u16 n) = n"
  using get_put_u16_nil [of n] size_mask [of n] unfolding chunk_size_def by (simp del: get_put_u16_nil)

lemma ReadChunk_ok:
  assumes at: "cr_at A k (ss_chunk A k P @ B) r" and P: "length P \<le> payloadSizeMask"
  shows "\<exists>r'. cr_at A (k + 2) B r' \<and> ReadChunk K r = (r', Inr P)"
proof -
  let ?N = "NonceSize A" and ?r = "r\<lparr>cr_held := False\<rparr>"
  have ov: "Overhead A \<le> maxTagSize" using at by (simp add: cr_at_def)
  have at1: "cr_at A k (Seal A (nonce ?N k) (put_u16 (length P)) @ Seal A (nonce ?N (Suc k)) P @ B) ?r"
    using at by (simp add: ss_chunk_def)
  obtain r1 where r1: "cr_at A (Suc k) (Seal A (nonce ?N (Suc k)) P @ B) r1"
    "readMessage A (2 + Overhead A) ?r = (r1, Inr (put_u16 (length P)))"
    using readMessage_ok [OF at1, of "2 + Overhead A"] by auto
  have "cr_at A (Suc k) (Seal A (nonce ?N (Suc k)) P @ B) (r1\<lparr>cr_held := True\<rparr>)" using r1(1) by simp
  from readMessage_ok [OF this refl]
  obtain r2 where r2: "cr_at A (Suc (Suc k)) B r2"
    "readMessage A (length P + Overhead A) (r1\<lparr>cr_held := True\<rparr>) = (r2, Inr P)" by auto
  have "readPayload A (length P) r1 = (r2, Inr P)" using r2(2) P ov by (simp add: readPayload_def)
  then have "ReadChunk K r = (r2, Inr P)"
    using cr_at_init [OF at] cr_at_aead [OF at] r1(2) chunk_size_put [OF P] by (simp add: ReadChunk_def)
  then show ?thesis using r2(1) by auto
qed

text \<open>A chunk that is cut short: \<^verbatim>\<open>io.EOF\<close> before its first byte, \<^verbatim>\<open>io.ErrUnexpectedEOF\<close> inside.\<close>

lemma ReadChunk_short:
  assumes at: "cr_at A k (take j (ss_chunk A k P)) r" and P: "length P \<le> payloadSizeMask"
    and j: "j < length (ss_chunk A k P)"
  shows "\<exists>r'. ReadChunk K r = (r', Inl (if j = 0 then EOF else UnexpectedEOF))"
proof -
  let ?N = "NonceSize A" and ?r = "r\<lparr>cr_held := False\<rparr>" and ?O = "Overhead A"
  let ?c1 = "Seal A (nonce ?N k) (put_u16 (length P))" and ?c2 = "Seal A (nonce ?N (Suc k)) P"
  have ov: "?O \<le> maxTagSize" and ok: "aead_ok A" using at by (simp_all add: cr_at_def)
  have len: "length ?c1 = 2 + ?O" "length ?c2 = length P + ?O" using ok by simp_all
  show ?thesis
  proof (cases "j < 2 + ?O")
    case True
    then have B: "take j (ss_chunk A k P) = take j ?c1" using len by (simp add: ss_chunk_def)
    have "(take j ?c1 = []) = (j = 0)" using len by auto
    then obtain r' where "readMessage A (2 + ?O) ?r = (r', Inl (if j = 0 then EOF else UnexpectedEOF))"
      using readMessage_short [of A k "take j ?c1" ?r "2 + ?O"] at B True len by auto
    then show ?thesis using cr_at_init [OF at] cr_at_aead [OF at] by (auto simp: ReadChunk_def)
  next
    case False
    let ?i = "j - length ?c1"
    have at1: "cr_at A k (?c1 @ take ?i ?c2) ?r"
      using at False len by (simp add: ss_chunk_def)
    obtain r1 where r1: "cr_at A (Suc k) (take ?i ?c2) r1"
      "readMessage A (2 + ?O) ?r = (r1, Inr (put_u16 (length P)))"
      using readMessage_ok [OF at1, of "2 + ?O"] by auto
    have "length (take ?i ?c2) < length P + ?O" using j False len by (simp add: ss_chunk_def)
    then obtain r' e where "readMessage A (length P + ?O) (r1\<lparr>cr_held := True\<rparr>) = (r', Inl e)"
      "e = EOF \<or> e = UnexpectedEOF"
      using readMessage_short [of A "Suc k" "take ?i ?c2" "r1\<lparr>cr_held := True\<rparr>" "length P + ?O"] r1(1) by auto
    then have "\<exists>r'. readPayload A (length P) r1 = (r', Inl UnexpectedEOF)"
      using P ov by (auto simp: readPayload_def)
    then show ?thesis using cr_at_init [OF at] cr_at_aead [OF at] r1(2) chunk_size_put [OF P] False
      by (auto simp: ReadChunk_def)
  qed
qed

section \<open>The whole stream\<close>

text \<open>
  How many whole chunks the first \<open>j\<close> bytes of a stream hold, and whether they end inside a chunk.
\<close>

fun whole :: "aead \<Rightarrow> nat \<Rightarrow> bytes list \<Rightarrow> nat \<times> bool" where
  "whole A j [] = (0, False)"
| "whole A j (P # Ps) =
     (let n = 2 + Overhead A + (length P + Overhead A) in
      if j < n then (0, j \<noteq> 0) else case whole A (j - n) Ps of (m, b) \<Rightarrow> (Suc m, b))"

lemma length_ss_chunk: "aead_ok A \<Longrightarrow> length (ss_chunk A k P) = 2 + Overhead A + (length P + Overhead A)"
  by (simp add: ss_chunk_def)

lemma length_ss_stream:
  "aead_ok A \<Longrightarrow> length (ss_stream A k Ps) = (\<Sum>P\<leftarrow>Ps. 2 + Overhead A + (length P + Overhead A))"
  by (induction Ps arbitrary: k) (simp_all add: length_ss_chunk)

lemma whole_all:
  "(\<Sum>P\<leftarrow>Ps. 2 + Overhead A + (length P + Overhead A)) \<le> j \<Longrightarrow> whole A j Ps = (length Ps, False)"
  by (induction Ps arbitrary: j) (simp_all add: Let_def)

text \<open>The same of a prefix of the salt and the stream: the salt is what the reader reads first.\<close>

definition prefix_holds :: "aead \<Rightarrow> bytes \<Rightarrow> nat \<Rightarrow> bytes list \<Rightarrow> nat \<times> bool" where
  "prefix_holds A salt j Ps =
     (if j < length salt then (0, j \<noteq> 0) else whole A (j - length salt) Ps)"

lemma ReadChunk_short_salt:
  assumes "clean src" "src_bytes src = take j salt" "length salt = SaltSize K" "j < length salt"
  shows "\<exists>r'. ReadChunk K (new_chunk_reader src) = (r', Inl (if j = 0 then EOF else UnexpectedEOF))"
proof -
  have n: "min j (SaltSize K) = j" "j < SaltSize K" using assms(3,4) by simp_all
  have "length (src_bytes src) = j" using assms(2,4) by simp
  then obtain src' where "read_full src (SaltSize K)
      = (src', src_bytes src, Some (if j = 0 then EOF else UnexpectedEOF))"
    using read_full_clean_eq [OF assms(1), of "SaltSize K"] n by auto
  then have "\<exists>r'. cr_init K (new_chunk_reader src) = (r', Some (if j = 0 then EOF else UnexpectedEOF))"
    by (simp add: cr_init_def new_chunk_reader_def)
  then show ?thesis by (auto simp: ReadChunk_def split: prod.splits)
qed

context reliable_writer
begin

lemma rc_write_to_stream:
  "chunks_ok Ps \<Longrightarrow> cr_at A k (take j (ss_stream A k Ps)) (rc_cr c) \<Longrightarrow> leftover c = [] \<Longrightarrow> good s \<Longrightarrow>
   whole A j Ps = (m, inside) \<Longrightarrow>
   \<exists>c' s'. good s' \<and> out s' = out s @ concat (take m Ps)
     \<and> rc_write_to K wr c s n = Some (c', s', n + length (concat (take m Ps)),
          if inside then Some UnexpectedEOF else None)"
proof (induction Ps arbitrary: k j c s n m inside)
  case Nil
  then have at: "cr_at A k [] (rc_cr c)" by simp
  then have "length [] < 2 + Overhead A" "cr_at A k [] ((rc_cr c)\<lparr>cr_held := False\<rparr>)" by simp_all
  from readMessage_short [OF this(2,1)]
  obtain r' where "ReadChunk K (rc_cr c) = (r', Inl EOF)"
    using cr_at_init [OF at] cr_at_aead [OF at] by (auto simp: ReadChunk_def)
  then show ?case using Nil by (subst rc_write_to.simps) (simp add: ensureLeftover_def)
next
  case (Cons P Ps)
  have P: "P \<noteq> []" "length P \<le> payloadSizeMask" "chunks_ok Ps"
    using Cons.prems(1) by (auto simp: chunks_ok_def)
  have ok: "aead_ok A" using Cons.prems(2) by (simp add: cr_at_def)
  let ?n = "2 + Overhead A + (length P + Overhead A)"
  have len: "length (ss_chunk A k P) = ?n" by (rule length_ss_chunk [OF ok])
  show ?case
  proof (cases "j < ?n")
    case True
    then have "cr_at A k (take j (ss_chunk A k P)) (rc_cr c)" using Cons.prems(2) len by simp
    from ReadChunk_short [OF this P(2)] True len
    obtain r' where "ReadChunk K (rc_cr c) = (r', Inl (if j = 0 then EOF else UnexpectedEOF))" by auto
    then show ?thesis using Cons.prems(3-5) True
      by (subst rc_write_to.simps) (auto simp: ensureLeftover_def Let_def)
  next
    case False
    obtain m' where m': "whole A (j - ?n) Ps = (m', inside)" "m = Suc m'"
      using Cons.prems(5) False by (auto simp: Let_def split: prod.splits)
    have "cr_at A k (ss_chunk A k P @ take (j - ?n) (ss_stream A (k + 2) Ps)) (rc_cr c)"
      using Cons.prems(2) False len by simp
    from ReadChunk_ok [OF this P(2)]
    obtain r' where r': "cr_at A (k + 2) (take (j - ?n) (ss_stream A (k + 2) Ps)) r'"
      "ReadChunk K (rc_cr c) = (r', Inr P)" by blast
    obtain s1 where s1: "good s1" "wr s P = (s1, length P, None)" using good_ok [OF Cons.prems(4)] by blast
    let ?c = "c\<lparr>rc_cr := r', leftover := []\<rparr>"
    obtain c' s' where IH: "good s'" "out s' = out s1 @ concat (take m' Ps)"
      "rc_write_to K wr ?c s1 (n + length P) = Some (c', s', n + length P + length (concat (take m' Ps)),
          if inside then Some UnexpectedEOF else None)"
      using Cons.IH [OF P(3) _ _ s1(1) m'(1), of "k + 2" ?c "n + length P"] r'(1) by auto
    have "rc_write_to K wr c s n = rc_write_to K wr ?c s1 (n + length P)"
      using r'(2) s1(2) Cons.prems(3) by (subst rc_write_to.simps) (simp add: ensureLeftover_def)
    then show ?thesis using IH wr_ok [OF s1(2)] m'(2) by auto
  qed
qed

lemma ss_reader_good:
  assumes K: "newAEAD K salt = Inr A" "aead_ok A" "Overhead A \<le> maxTagSize" "length salt = SaltSize K"
    and Ps: "chunks_ok Ps" and src: "clean src" "src_bytes src = take j (salt @ ss_stream A 0 Ps)"
    and g: "good s" and m: "whole A (j - length salt) Ps = (m, inside)" and j: "length salt \<le> j"
  shows "\<exists>c' s'. good s' \<and> out s' = out s @ concat (take m Ps)
     \<and> rc_write_to K wr (new_ss_reader src) s 0 = Some (c', s', length (concat (take m Ps)),
          if inside then Some UnexpectedEOF else None)"
proof -
  let ?B = "take (j - length salt) (ss_stream A 0 Ps)"
  have "src_bytes src = salt @ ?B" using src(2) j by simp
  from read_full_source [OF src(1) this K(4)]
  obtain src' where s': "clean src'" "src_bytes src' = ?B"
    "read_full src (SaltSize K) = (src', salt, None)" by blast
  let ?r = "(new_chunk_reader src)\<lparr>cr_src := src', cr_aead := Some A, cr_counter := replicate (NonceSize A) 0\<rparr>"
  let ?c = "(new_ss_reader src)\<lparr>rc_cr := ?r\<rparr>"
  have at: "cr_at A 0 ?B ?r" using K s' by (simp add: cr_at_def nonce_0)
  have "cr_init K (new_chunk_reader src) = (?r, None)"
    using s'(3) K(1) by (simp add: cr_init_def new_chunk_reader_def)
  then have "ReadChunk K (new_chunk_reader src) = ReadChunk K ?r"
    using cr_at_init [OF at] by (simp add: ReadChunk_def)
  then have "ensureLeftover K (new_ss_reader src) = ensureLeftover K ?c"
    by (simp add: ensureLeftover_def new_ss_reader_def split: prod.splits sum.splits)
  then have "rc_write_to K wr (new_ss_reader src) s 0 = rc_write_to K wr ?c s 0"
    by (subst (1 2) rc_write_to.simps) simp
  then show ?thesis
    using rc_write_to_stream [OF Ps _ _ g m, of 0 ?c K 0] at by (simp add: new_ss_reader_def)
qed

lemma ss_reader_prefix_good:
  assumes "newAEAD K salt = Inr A" "aead_ok A" "Overhead A \<le> maxTagSize" "length salt = SaltSize K"
    and "chunks_ok Ps" and "clean src" "src_bytes src = take j (salt @ ss_stream A 0 Ps)"
    and "good s" and "prefix_holds A salt j Ps = (m, inside)"
  shows "\<exists>c' s'. good s' \<and> out s' = out s @ concat (take m Ps)
     \<and> rc_write_to K wr (new_ss_reader src) s 0 = Some (c', s', length (concat (take m Ps)),
          if inside then Some UnexpectedEOF else None)"
proof (cases "j < length salt")
  case True
  have m: "m = 0" "inside = (j \<noteq> 0)" using assms(9) True by (auto simp: prefix_holds_def)
  have "src_bytes src = take j salt" using assms(7) True by simp
  from ReadChunk_short_salt [OF assms(6) this assms(4) True]
  obtain r' where "ReadChunk K (new_chunk_reader src) = (r', Inl (if j = 0 then EOF else UnexpectedEOF))"
    by blast
  then show ?thesis using assms(8) m
    by (subst rc_write_to.simps) (auto simp: ensureLeftover_def new_ss_reader_def)
next
  case False
  then show ?thesis using ss_reader_good [OF assms(1-8)] assms(9) by (simp add: prefix_holds_def)
qed

end

text \<open>
  C3: a reader gets, of any prefix of what the writer sent and however the reads are cut, exactly the
  plaintext of the whole chunks in it; it reports an unexpected EOF exactly if the prefix ends inside
  the salt or inside a chunk, and a clean end if it is empty or ends after the salt or after a chunk.
\<close>

theorem ss_reader_prefix:
  assumes "newAEAD K salt = Inr A" "aead_ok A" "Overhead A \<le> maxTagSize" "length salt = SaltSize K"
    and "chunks_ok Ps" and "clean src" "src_bytes src = take j (salt @ ss_stream A 0 Ps)"
    and "healthy s" and "prefix_holds A salt j Ps = (m, inside)"
  shows "\<exists>c' s'. wire s' = wire s @ concat (take m Ps)
     \<and> rc_write_to K sink_write (new_ss_reader src) s 0
        = Some (c', s', length (concat (take m Ps)), if inside then Some UnexpectedEOF else None)"
  using net.ss_reader_prefix_good [OF assms] by blast

lemma ss_reader_prefix_witness:
  "\<exists>c' s'. wire s' = [7, 8]
     \<and> rc_write_to demo_key sink_write
         (new_ss_reader (bytes_reader (take 45 (replicate 4 9 @ ss_stream demo_aead 0 [[7, 8], [6]])))) fresh_sink 0
        = Some (c', s', length [7, 8 :: byte], Some UnexpectedEOF)"
proof -
  have o: "Overhead demo_aead = 16" by (simp add: demo_aead_def)
  have w: "prefix_holds demo_aead (replicate 4 9) 45 [[7, 8], [6]] = (1, True)"
    by (simp add: o prefix_holds_def)
  have "clean (bytes_reader (take 45 (replicate 4 9 @ ss_stream demo_aead 0 [[7, 8], [6]])))"
    "src_bytes (bytes_reader (take 45 (replicate 4 9 @ ss_stream demo_aead 0 [[7, 8], [6]])))
      = take 45 (replicate 4 9 @ ss_stream demo_aead 0 [[7, 8], [6]])"
    by (rule bytes_reader_props)+
  from ss_reader_prefix [OF _ demo_aead_ok _ _ _ this healthy_fresh w, of demo_key]
  show ?thesis by (simp add: demo_key_def o chunks_ok_def del: ss_stream.simps)
qed

context reliable_writer
begin

text \<open>The round trip over any connection that does not fail; \<open>U\<close> are the bytes on it.\<close>

lemma ss_roundtrip_good:
  assumes K: "sg (SaltSize K) = Inr salt" "newAEAD K salt = Inr A" "aead_ok A" "Overhead A \<le> maxTagSize"
    "length salt = SaltSize K" and "\<forall>x \<in> set xs. op_clean x" "concat (map op_bytes xs) \<noteq> []"
    and "2 * length (concat (map op_bytes xs)) < 256 ^ NonceSize A" and good: "good s"
  shows "\<exists>w' s' U. ss_steps K sg wr (xs @ [Flush]) (new_ss_writer, s)
         = ((w', s'), length (concat (map op_bytes xs)), None) \<and> out s' = out s @ U
     \<and> (\<forall>src t. clean src \<and> src_bytes src = U \<and> healthy t \<longrightarrow>
          (\<exists>c' t'. wire t' = wire t @ concat (map op_bytes xs)
             \<and> rc_write_to K sink_write (new_ss_reader src) t 0
                = Some (c', t', length (concat (map op_bytes xs)), None)))"
proof -
  let ?D = "concat (map op_bytes xs)"
  have cl: "\<forall>x \<in> set (xs @ [Flush]). op_clean x" and lim: "2 * length (concat (map op_bytes (xs @ [Flush])))
      < 256 ^ NonceSize A" using assms(6,8) by auto
  obtain w' s' Ps P where st: "ss_steps K sg wr (xs @ [Flush]) (new_ss_writer, s)
      = ((w', s'), length ?D, None)" and Ps: "out s' = out s @ ss_frame A salt Ps" "chunks_ok Ps"
    "concat Ps @ P = ?D" "pending w' = length P"
    using ss_writer_stream_good [where sg = sg and K = K and salt = salt and A = A and s = s and xs = "xs @ [Flush]"] assms(1-5) cl lim good by auto
  have "pending w' = 0"
  proof (rule ss_flush_last [OF st])
    fix w s1 m
    assume "ss_steps K sg wr xs (new_ss_writer, s) = ((w, s1), m, None)" "\<not> needFlush w"
    then show "pending w = 0"
      using ss_writer_stream_good [where sg = sg and K = K and salt = salt and A = A and s = s and xs = xs] assms(1-6,8) good by auto
  qed
  then have c: "concat Ps = ?D" using Ps(3,4) by simp
  then have "Ps \<noteq> []" using assms(7) by auto
  define j where "j = length salt + length (ss_stream A 0 Ps)"
  have j: "length salt \<le> j" by (simp add: j_def)
  have m: "whole A (j - length salt) Ps = (length Ps, False)"
    by (rule whole_all) (simp add: j_def length_ss_stream [OF assms(3)])
  have "\<exists>c' t'. wire t' = wire t @ ?D \<and> rc_write_to K sink_write (new_ss_reader src) t 0
      = Some (c', t', length ?D, None)" if src: "clean src" "src_bytes src = ss_frame A salt Ps" "healthy t" for src t
  proof -
    have "src_bytes src = take j (salt @ ss_stream A 0 Ps)"
      using src(2) \<open>Ps \<noteq> []\<close> by (simp add: j_def ss_frame_def)
    from net.ss_reader_good [OF assms(2-5) Ps(2) src(1) this src(3) m j] c
    show ?thesis by auto
  qed
  then show ?thesis using st Ps(1) by blast
qed

end

text \<open>
  C1: the bytes written come out of the reader unchanged, for any order of the writer's operations
  before a last flush, and any cut of the stream into reads.
\<close>

theorem ss_roundtrip:
  assumes "sg (SaltSize K) = Inr salt" "newAEAD K salt = Inr A" "aead_ok A" "Overhead A \<le> maxTagSize"
    "length salt = SaltSize K" and "\<forall>x \<in> set xs. op_clean x" "concat (map op_bytes xs) \<noteq> []"
    and "2 * length (concat (map op_bytes xs)) < 256 ^ NonceSize A"
  shows "\<exists>w' s'. ss_steps K sg sink_write (xs @ [Flush]) (new_ss_writer, fresh_sink)
         = ((w', s'), length (concat (map op_bytes xs)), None)
     \<and> (\<forall>src t. clean src \<and> src_bytes src = wire s' \<and> healthy t \<longrightarrow>
          (\<exists>c' t'. wire t' = wire t @ concat (map op_bytes xs)
             \<and> rc_write_to K sink_write (new_ss_reader src) t 0
                = Some (c', t', length (concat (map op_bytes xs)), None)))"
  using net.ss_roundtrip_good [where sg = sg, OF assms healthy_fresh] by simp

lemma ss_roundtrip_witness:
  "\<exists>w' s'. ss_steps demo_key demo_salt sink_write ([LazyWrite [1, 2], WriteOp [3] False] @ [Flush])
         (new_ss_writer, fresh_sink) = ((w', s'), length [1, 2, 3 :: byte], None)
     \<and> (\<exists>c' t'. wire t' = [1, 2, 3]
          \<and> rc_write_to demo_key sink_write (new_ss_reader (bytes_reader (wire s'))) fresh_sink 0
             = Some (c', t', length [1, 2, 3 :: byte], None))"
proof -
  have o: "NonceSize demo_aead = 12" "Overhead demo_aead = 16" by (simp_all add: demo_aead_def)
  from ss_roundtrip [of demo_salt demo_key "replicate 4 9" demo_aead "[LazyWrite [1, 2], WriteOp [3] False]"]
  obtain w' s' where "ss_steps demo_key demo_salt sink_write ([LazyWrite [1, 2], WriteOp [3] False] @ [Flush])
         (new_ss_writer, fresh_sink) = ((w', s'), length [1, 2, 3 :: byte], None)"
    and "\<forall>src t. clean src \<and> src_bytes src = wire s' \<and> healthy t \<longrightarrow>
          (\<exists>c' t'. wire t' = wire t @ [1, 2, 3]
             \<and> rc_write_to demo_key sink_write (new_ss_reader src) t 0
                = Some (c', t', length [1, 2, 3 :: byte], None))"
    using demo_aead_ok by (auto simp: demo_key_def demo_salt_def o simp del: ss_steps.simps)
  moreover from this(2) [rule_format, of "bytes_reader (wire s')" fresh_sink]
  have "\<exists>c' t'. wire t' = [1, 2, 3]
      \<and> rc_write_to demo_key sink_write (new_ss_reader (bytes_reader (wire s'))) fresh_sink 0
         = Some (c', t', length [1, 2, 3 :: byte], None)" by simp
  ultimately show ?thesis by blast
qed

end
