(* ===== verification/SSDialer.thy ===== *)
theory SSDialer
  imports SSReader
begin

text \<open>
  \<^verbatim>\<open>transport/shadowsocks/stream_dialer.go\<close>: a dial queues the target address on a new writer, so that
  the salt, the address and the first data of the client leave in one packet.
\<close>

text \<open>
  \<open>endpoint\<close> is the result of \<^verbatim>\<open>ConnectStream\<close>, \<open>parse\<close> is \<^verbatim>\<open>socks.ParseAddr\<close>; \<open>close\<close> closes the
  connection when the address cannot be queued. The connection made is the pair of its two halves.
\<close>

definition ss_DialStream ::
  "ss_key \<Rightarrow> salt_gen \<Rightarrow> (string \<Rightarrow> bytes option) \<Rightarrow> 's writer \<Rightarrow> ('s \<Rightarrow> 's) \<Rightarrow> err + ('s \<times> source) \<Rightarrow> string
   \<Rightarrow> 's option \<times> (err + (ss_writer \<times> 's) \<times> read_converter)" where
  "ss_DialStream K sg parse wr close endpoint remoteAddr =
     (case parse remoteAddr of
        None \<Rightarrow> (None, Inl (ErrNew ''failed to parse target address''))
      | Some a \<Rightarrow>
          (case endpoint of
             Inl e \<Rightarrow> (None, Inl e)
           | Inr (s, src) \<Rightarrow>
               (case ss_lazy_write K sg wr (new_ss_writer, s) a of
                  ((_, s'), _, Some _) \<Rightarrow> (Some (close s'), Inl (ErrNew ''failed to write target address''))
                | (ws, _, None) \<Rightarrow> (Some (snd ws), Inr (ws, new_ss_reader src)))))"

text \<open>
  A dial sends nothing, and the client's first write, if it comes before the timer, leaves in one
  call with the salt and the target address in front.
\<close>

theorem ss_first_packet:
  assumes K: "sg (SaltSize K) = Inr salt" "newAEAD K salt = Inr A" "aead_ok A" "length salt = SaltSize K"
    and a: "parse target = Some a" "a \<noteq> []" and fit: "length (a @ p) \<le> payloadSizeMask" and s: "healthy s"
  shows "\<exists>w w'. ss_DialStream K sg parse sink_write close (Inr (s, src)) target
        = (Some s, Inr ((w, s), new_ss_reader src))
     \<and> ss_write K sg sink_write False (w, s) p
        = ((w', s\<lparr>sent := sent s @ [salt @ ss_chunk A 0 (a @ p)]\<rparr>), length p, None)"
proof -
  obtain w0 where i: "ss_init K sg new_ss_writer = (w0, None)" "sw_aead w0 = Some A" "ss_inv K A salt [] [] w0"
  proof -
    have "ss_rel K A salt [] [] new_ss_writer []" by (simp add: ss_rel_def)
    from ss_init_rel [where sg = sg, OF K this]
    obtain w0 P where i: "ss_init K sg new_ss_writer = (w0, None)" "sw_aead w0 = Some A"
      "ss_at K A salt [] w0 [] [] P" by blast
    then obtain Ps where Ps: "[] = concat Ps @ P" "ss_inv K A salt Ps P w0" by (auto simp: ss_at_def)
    then have "length Ps \<le> length (concat Ps)" by (simp add: ss_inv_def chunks_ok_length)
    moreover have "concat Ps = []" "P = []" using Ps(1) by (auto simp del: concat_eq_Nil_conv)
    ultimately have "Ps = [] \<and> P = []" by (simp del: concat_eq_Nil_conv)
    then show ?thesis using that i(1,2) Ps(2) by simp
  qed
  obtain w1 n where e: "ss_enqueue K A a w0 = (w1, n)" by fastforce
  have n: "n = length a" and w1: "ss_inv K A salt [] a w1"
    using ss_enqueue_inv(1,2) [OF i(3) e] fit by auto
  let ?w = "w1\<lparr>needFlush := True\<rparr>"
  have w: "ss_inv K A salt [] a ?w" "sw_aead ?w = Some A" using w1 by (simp_all add: ss_inv_def)
  have lazy: "ss_lazy_write K sg sink_write (new_ss_writer, s) a = ((?w, s), length a, None)"
    using i e n by (simp add: ss_lazy_write_def lazy_loop.simps)
  define off where "off = payloadStart K A + length a + Overhead A"
  have lw: "pending ?w = length a" "length (sbuf ?w) = SaltSize K + 2 + Overhead A + (payloadSizeMask + Overhead A)"
    using w by (auto simp: ss_inv_def)
  have cap: "length (sbuf ?w) - off = payloadSizeMask - length a" "off + length p \<le> length (sbuf ?w)"
    using fit lw by (auto simp: off_def payloadStart_def)
  let ?w2 = "?w\<lparr>sbuf := blit off p (sbuf ?w)\<rparr>"
  have w2: "ss_inv K A salt [] a ?w2"
    by (rule ss_inv_blit [OF w(1)]) (use cap in \<open>simp_all add: off_def\<close>)
  have sub: "subslice off (off + length p) (sbuf ?w2) = p" using subslice_blit_same [OF cap(2)] by simp
  obtain w3 m where e3: "ss_enqueue K A p ?w2 = (w3, m)" by fastforce
  have w3: "ss_inv K A salt [] (a @ p) w3" using ss_enqueue_inv(1,2) [OF w2 e3] fit by auto
  obtain w4 where w4: "ss_inv K A salt [a @ p] [] w4"
    "ss_flush K A sink_write (w3, s)
      = ((w4, s\<lparr>sent := sent s @ [salt @ ss_chunk A 0 (a @ p)]\<rparr>), None)"
    using ss_flush_bytes [OF w3, of sink_write s] a(2) s by auto
  let ?s = "s\<lparr>sent := sent s @ [salt @ ss_chunk A 0 (a @ p)]\<rparr>" and ?e = "if p = [] then Some EOF else None"
  have "src_read (bytes_reader p) (length (sbuf ?w) - off) = ([], p, ?e)"
    using fit cap(1) by (auto simp: bytes_reader_def)
  then have f: "ss_first_read K A sink_write False (?w, s) (bytes_reader p)
      = ((w4\<lparr>needFlush := False\<rparr>, ?s), [], length p, ?e)"
    unfolding ss_first_read_def split_conv Let_def lw(1) off_def [symmetric]
    using sub e3 w4(2) by simp
  have "\<exists>w5. ss_copy K A sink_write (w4\<lparr>needFlush := False\<rparr>) ?s [] (length p)
      = ((w5, ?s), [], length p, EOF)"
    by (subst ss_copy.simps) (simp add: ss_flush_def)
  then have "\<exists>w'. ss_write K sg sink_write False (?w, s) p = ((w', ?s), length p, None)"
    using f w(2) by (auto simp: ss_write_def ss_read_from_def ss_init_def ss_result_def)
  moreover have "ss_DialStream K sg parse sink_write close (Inr (s, src)) target
      = (Some s, Inr ((?w, s), new_ss_reader src))"
    using lazy a(1) by (simp add: ss_DialStream_def)
  ultimately show ?thesis by blast
qed

lemma ss_first_packet_witness:
  "\<exists>w w'. ss_DialStream demo_key demo_salt (\<lambda>_. Some [3, 1]) sink_write id (Inr (fresh_sink, [])) ''a:1''
        = (Some fresh_sink, Inr ((w, fresh_sink), new_ss_reader []))
     \<and> ss_write demo_key demo_salt sink_write False (w, fresh_sink) [5, 6]
        = ((w', fresh_sink\<lparr>sent := sent fresh_sink @ [replicate 4 9 @ ss_chunk demo_aead 0 [3, 1, 5, 6]]\<rparr>),
           length [5, 6 :: byte], None)"
  using ss_first_packet [of demo_salt demo_key "replicate 4 9" demo_aead "\<lambda>_. Some [3, 1]" "''a:1''" "[3, 1]"
      "[5, 6]" fresh_sink id "[]"] demo_aead_ok
  by (simp add: demo_key_def demo_salt_def)

end
