(* ===== verification/GoNet.thy ===== *)
theory GoNet
  imports GoIO
begin

text \<open>
  The parts of \<^verbatim>\<open>strings\<close>, \<^verbatim>\<open>strconv\<close>, \<^verbatim>\<open>net\<close> and \<^verbatim>\<open>net/netip\<close> that several components use: strings as
  byte sequences, decimal numbers, host:port addresses, IP addresses as bytes; and \<^verbatim>\<open>MakeNetAddr\<close> of
  \<^verbatim>\<open>transport/address.go\<close>. The text form of IP addresses (\<^verbatim>\<open>net.ParseIP\<close>, \<^verbatim>\<open>IP.String\<close>) is a parameter.
\<close>

section \<open>Strings\<close>

definition str_bytes :: "string \<Rightarrow> bytes" where
  "str_bytes = map (\<lambda>c. word_of_nat (of_char c))"

definition bytes_str :: "bytes \<Rightarrow> string" where
  "bytes_str = map (\<lambda>b. char_of (unat b))"

lemma length_str_bytes [simp]: "length (str_bytes s) = length s"
  and str_bytes_append [simp]: "str_bytes (s @ t) = str_bytes s @ str_bytes t"
  by (simp_all add: str_bytes_def)

lemma bytes_str_bytes [simp]: "bytes_str (str_bytes s) = s"
proof -
  have "char_of (unat (word_of_nat (of_char c) :: byte)) = c" for c
    by (simp add: unat_byte char_of_mod_256)
  then show ?thesis by (simp add: bytes_str_def str_bytes_def o_def)
qed

lemma str_bytes_inj [simp]: "(str_bytes s = str_bytes t) = (s = t)"
  by (metis bytes_str_bytes)

fun index_byte :: "char \<Rightarrow> string \<Rightarrow> nat option" where
  "index_byte c [] = None"
| "index_byte c (x # xs) = (if x = c then Some 0 else map_option Suc (index_byte c xs))"

definition last_index :: "char \<Rightarrow> string \<Rightarrow> nat option" where
  "last_index c s = map_option (\<lambda>i. length s - 1 - i) (index_byte c (rev s))"

lemma index_byte_None: "index_byte c s = None \<longleftrightarrow> c \<notin> set s"
  by (induction s) auto

lemma index_byte_append: "c \<notin> set s \<Longrightarrow> index_byte c (s @ c # t) = Some (length s)"
  by (induction s) auto

lemma last_index_append: "c \<notin> set t \<Longrightarrow> last_index c (s @ c # t) = Some (length s)"
  using index_byte_append [of c "rev t" "rev s"] by (simp add: last_index_def)

text \<open>\<^verbatim>\<open>strings.ToLower\<close> on the ASCII letters; other bytes stay.\<close>

definition lower_char :: "char \<Rightarrow> char" where
  "lower_char c = (if of_char c \<in> {65..90 :: nat} then char_of (of_char c + 32 :: nat) else c)"

definition upper_char :: "char \<Rightarrow> char" where
  "upper_char c = (if of_char c \<in> {97..122 :: nat} then char_of (of_char c - 32 :: nat) else c)"

definition to_lower :: "string \<Rightarrow> string" where
  "to_lower = map lower_char"

section \<open>Decimal numbers\<close>

definition digit :: "nat \<Rightarrow> char" where
  "digit n = char_of (48 + n)"

fun itoa :: "nat \<Rightarrow> string" where
  "itoa n = (if n < 10 then [digit n] else itoa (n div 10) @ [digit (n mod 10)])"

declare itoa.simps [simp del]

definition digit_val :: "char \<Rightarrow> nat option" where
  "digit_val c = (let n = (of_char c :: nat) in if 48 \<le> n \<and> n \<le> 57 then Some (n - 48) else None)"

text \<open>The loop of \<^verbatim>\<open>strconv.ParseUint\<close> with base 10: \<open>acc\<close> is the value so far.\<close>

fun parse_digits :: "nat \<Rightarrow> string \<Rightarrow> nat option" where
  "parse_digits acc [] = Some acc"
| "parse_digits acc (c # cs) =
     (case digit_val c of None \<Rightarrow> None | Some d \<Rightarrow> parse_digits (acc * 10 + d) cs)"

definition parse_uint :: "nat \<Rightarrow> string \<Rightarrow> err + nat" where
  "parse_uint bits s =
     (if s = [] then Inl (ErrNew ''invalid syntax'')
      else case parse_digits 0 s of
             None \<Rightarrow> Inl (ErrNew ''invalid syntax'')
           | Some n \<Rightarrow> if n < 2 ^ bits then Inr n else Inl (ErrNew ''value out of range''))"

lemma digit_val_digit: "n < 10 \<Longrightarrow> digit_val (digit n) = Some n"
  by (simp add: digit_val_def digit_def of_char_of)

lemma parse_digits_append:
  "parse_digits a (s @ t) = (case parse_digits a s of None \<Rightarrow> None | Some b \<Rightarrow> parse_digits b t)"
  by (induction s arbitrary: a) (auto split: option.splits)

lemma parse_digits_itoa: "parse_digits 0 (itoa n) = Some n"
proof (induction n rule: itoa.induct)
  case (1 n)
  then show ?case
    by (subst itoa.simps) (auto simp: parse_digits_append digit_val_digit)
qed

lemma itoa_ne [simp]: "itoa n \<noteq> []"
  by (subst itoa.simps) simp

lemma itoa_digits: "c \<in> set (itoa n) \<Longrightarrow> \<exists>d < 10. c = digit d"
proof (induction n rule: itoa.induct)
  case (1 n)
  show ?case
  proof (cases "n < 10")
    case True
    then show ?thesis using 1(2) by (subst (asm) itoa.simps) auto
  next
    case False
    then have "c \<in> set (itoa (n div 10)) \<or> c = digit (n mod 10)"
      using 1(2) by (subst (asm) itoa.simps) auto
    moreover have "n mod 10 < 10" by simp
    ultimately show ?thesis using 1(1) [OF False] by blast
  qed
qed

lemma digit_neq: "d < 10 \<Longrightarrow> digit d \<noteq> CHR '':'' \<and> digit d \<noteq> CHR ''['' \<and> digit d \<noteq> CHR '']''"
proof -
  assume "d < 10"
  then have "of_char (digit d) = (48 + d :: nat)" by (simp add: digit_def of_char_of)
  moreover have "of_char CHR '':'' = (58 :: nat)" "of_char CHR ''['' = (91 :: nat)"
    "of_char CHR '']'' = (93 :: nat)" by simp_all
  ultimately show ?thesis using \<open>d < 10\<close> by (auto dest!: arg_cong [where f = "of_char :: char \<Rightarrow> nat"])
qed

lemma itoa_plain: "CHR '':'' \<notin> set (itoa n)" "CHR ''['' \<notin> set (itoa n)" "CHR '']'' \<notin> set (itoa n)"
  using itoa_digits digit_neq by metis+

lemma parse_uint_itoa: "n < 2 ^ bits \<Longrightarrow> parse_uint bits (itoa n) = Inr n"
  by (simp add: parse_uint_def parse_digits_itoa)

section \<open>Host and port\<close>

definition addr_err :: "string \<Rightarrow> err + 'a" where
  "addr_err m = Inl (ErrNew m)"

text \<open>\<^verbatim>\<open>net.SplitHostPort\<close>.\<close>

definition split_host_port :: "string \<Rightarrow> err + string \<times> string" where
  "split_host_port s =
     (case last_index CHR '':'' s of
        None \<Rightarrow> addr_err ''missing port in address''
      | Some i \<Rightarrow>
          (let rest = (\<lambda>host j k.
                 if CHR ''['' \<in> set (drop j s) then addr_err ''unexpected '[' in address''
                 else if CHR '']'' \<in> set (drop k s) then addr_err ''unexpected ']' in address''
                 else Inr (host, drop (i + 1) s))
           in if s ! 0 = CHR ''[''
              then (case index_byte CHR '']'' s of
                      None \<Rightarrow> addr_err ''missing ']' in address''
                    | Some e \<Rightarrow>
                        if e + 1 = length s then addr_err ''missing port in address''
                        else if e + 1 = i then rest (take (e - 1) (drop 1 s)) 1 (e + 1)
                        else if s ! (e + 1) = CHR '':'' then addr_err ''too many colons in address''
                        else addr_err ''missing port in address'')
              else if CHR '':'' \<in> set (take i s) then addr_err ''too many colons in address''
              else rest (take i s) 0 0))"

definition join_host_port :: "string \<Rightarrow> string \<Rightarrow> string" where
  "join_host_port h p =
     (if CHR '':'' \<in> set h then ''['' @ h @ '']:'' @ p else h @ '':'' @ p)"

lemma split_join_host_port:
  assumes h: "CHR ''['' \<notin> set h" "CHR '']'' \<notin> set h"
    and p: "CHR '':'' \<notin> set p" "CHR ''['' \<notin> set p" "CHR '']'' \<notin> set p"
  shows "split_host_port (join_host_port h p) = Inr (h, p)"
proof (cases "CHR '':'' \<in> set h")
  case True
  let ?s = "CHR ''['' # h @ CHR '']'' # CHR '':'' # p"
  have s: "join_host_port h p = ?s" using True by (simp add: join_host_port_def)
  have l: "last_index CHR '':'' ?s = Some (length h + 2)"
    using last_index_append [OF p(1), of "CHR ''['' # h @ '']''"] by simp
  have e: "index_byte CHR '']'' ?s = Some (length h + 1)"
    using index_byte_append [of "CHR '']''" "CHR ''['' # h" "CHR '':'' # p"] h by simp
  show ?thesis unfolding s split_host_port_def l e option.case Let_def
    using h p by simp
next
  case False
  let ?s = "h @ CHR '':'' # p"
  have s: "join_host_port h p = ?s" using False by (simp add: join_host_port_def)
  have l: "last_index CHR '':'' ?s = Some (length h)" by (rule last_index_append [OF p(1)])
  have "?s ! 0 \<noteq> CHR ''[''" using h by (cases h) auto
  then show ?thesis unfolding s split_host_port_def l option.case Let_def
    using h p False by simp
qed

section \<open>Addresses\<close>

text \<open>\<^verbatim>\<open>net.IP\<close> is 16 bytes; \<^verbatim>\<open>To4\<close> recognises the IPv4-mapped form.\<close>

definition v4_prefix :: bytes where
  "v4_prefix = replicate 10 0 @ [0xff, 0xff]"

definition to4 :: "bytes \<Rightarrow> bytes option" where
  "to4 ip = (if length ip = 4 then Some ip
             else if length ip = 16 \<and> take 12 ip = v4_prefix then Some (drop 12 ip) else None)"

datatype net_addr =
    TCPAddr bytes nat
  | UDPAddr bytes nat
  | DomainAddr string string

text \<open>
  \<^verbatim>\<open>MakeNetAddr\<close>; \<open>lookup_port\<close> is \<^verbatim>\<open>net.LookupPort\<close> (a number or a service name), \<open>parse_ip\<close> is
  \<^verbatim>\<open>net.ParseIP\<close>.
\<close>

definition MakeNetAddr ::
  "(string \<Rightarrow> string \<Rightarrow> err + nat) \<Rightarrow> (string \<Rightarrow> bytes option) \<Rightarrow> string \<Rightarrow> string \<Rightarrow> err + net_addr" where
  "MakeNetAddr lookup_port parse_ip network address =
     (case split_host_port address of
        Inl e \<Rightarrow> Inl e
      | Inr (host, port) \<Rightarrow>
          (case lookup_port network port of
             Inl e \<Rightarrow> Inl e
           | Inr portnum \<Rightarrow>
               (case parse_ip host of
                  Some ip \<Rightarrow>
                    (if network = ''tcp'' then Inr (TCPAddr ip portnum)
                     else if network = ''udp'' then Inr (UDPAddr ip portnum)
                     else Inl (ErrNew (''unknown network '' @ network)))
                | None \<Rightarrow> Inr (DomainAddr network (join_host_port host (itoa portnum))))))"

text \<open>\<^verbatim>\<open>String()\<close> of an address; \<open>ip_str\<close> is \<^verbatim>\<open>IP.String\<close>.\<close>

fun net_addr_string :: "(bytes \<Rightarrow> string) \<Rightarrow> net_addr \<Rightarrow> string" where
  "net_addr_string ip_str (TCPAddr ip p) = join_host_port (ip_str ip) (itoa p)"
| "net_addr_string ip_str (UDPAddr ip p) = join_host_port (ip_str ip) (itoa p)"
| "net_addr_string ip_str (DomainAddr _ a) = a"

end
