(* ===== verification/Socks5.thy ===== *)
theory Socks5
  imports GoNet
begin

text \<open>
  The SOCKS5 client of \<^verbatim>\<open>transport/socks5\<close>: addresses on the wire (\<^verbatim>\<open>socks5.go\<close>), the request and its
  replies (\<^verbatim>\<open>stream_dialer.go\<close>), the UDP relay (\<^verbatim>\<open>packet_listener.go\<close>). \<open>parse_ip\<close>, \<open>parse_addr\<close> and
  \<open>ip_str\<close> stand for \<^verbatim>\<open>net.ParseIP\<close>, \<^verbatim>\<open>netip.ParseAddr\<close> and the text form of an IP address.
\<close>

section \<open>Reply codes\<close>

definition reply_text :: "byte \<Rightarrow> string" where
  "reply_text e =
     (if e = 1 then ''general SOCKS server failure''
      else if e = 2 then ''connection not allowed by ruleset''
      else if e = 3 then ''network unreachable''
      else if e = 4 then ''host unreachable''
      else if e = 5 then ''connection refused''
      else if e = 6 then ''TTL expired''
      else if e = 7 then ''command not supported''
      else if e = 8 then ''address type not supported''
      else ''reply code '' @ itoa (unat e))"

definition ReplyCode :: "byte \<Rightarrow> err" where
  "ReplyCode e = ErrNew (reply_text e)"

section \<open>Addresses\<close>

record address =
  aname :: string
  aip :: "bytes option"
  aport :: nat

definition addrToString :: "(bytes \<Rightarrow> string) \<Rightarrow> address option \<Rightarrow> string" where
  "addrToString ip_str a =
     (case a of
        None \<Rightarrow> []
      | Some x \<Rightarrow>
          (case aip x of
             Some ip \<Rightarrow> join_host_port (ip_str ip) (itoa (aport x))
           | None \<Rightarrow> join_host_port (aname x) (itoa (aport x))))"

definition appendSOCKS5Address :: "(string \<Rightarrow> bytes option) \<Rightarrow> bytes \<Rightarrow> string \<Rightarrow> err + bytes" where
  "appendSOCKS5Address parse_ip b addrText =
     (case split_host_port addrText of
        Inl e \<Rightarrow> Inl e
      | Inr (host, portStr) \<Rightarrow>
          (case parse_uint 16 portStr of
             Inl e \<Rightarrow> Inl e
           | Inr portNum \<Rightarrow>
               (case parse_ip host of
                  Some ip \<Rightarrow>
                    (case to4 ip of
                       Some ip4 \<Rightarrow> Inr (b @ [1] @ ip4 @ put_u16 portNum)
                     | None \<Rightarrow>
                         if length ip = 16 then Inr (b @ [4] @ ip @ put_u16 portNum)
                         else Inl (ErrNew ''IP address not IPv4 or IPv6''))
                | None \<Rightarrow>
                    if length host > 255 then Inl (ErrNew ''domain name length is over 255'')
                    else Inr (b @ [3, word_of_nat (length host)] @ str_bytes host @ put_u16 portNum))))"

text \<open>
  \<^verbatim>\<open>r.Read\<close> into the one-byte array of \<^verbatim>\<open>readAddr\<close>, whose content before the call is \<open>old\<close>.
\<close>

definition read_byte :: "source \<Rightarrow> byte \<Rightarrow> source \<times> (err + byte)" where
  "read_byte src old =
     (case src_read src 1 of
        (src', _, Some e) \<Rightarrow> (src', Inl e)
      | (src', bs, None) \<Rightarrow> (src', Inr (case bs of [] \<Rightarrow> old | b # _ \<Rightarrow> b)))"

definition readPort :: "source \<Rightarrow> string \<Rightarrow> bytes option \<Rightarrow> source \<times> (err + address)" where
  "readPort src name ip =
     (case read_full src 2 of
        (src', _, Some e) \<Rightarrow> (src', Inl e)
      | (src', p, None) \<Rightarrow> (src', Inr \<lparr>aname = name, aip = ip, aport = get_u16 p\<rparr>))"

definition readAddr :: "source \<Rightarrow> source \<times> (err + address)" where
  "readAddr src =
     (case read_byte src 0 of
        (s1, Inl e) \<Rightarrow> (s1, Inl e)
      | (s1, Inr t) \<Rightarrow>
          if t = 1 then (case read_full s1 4 of
                           (s2, _, Some e) \<Rightarrow> (s2, Inl e)
                         | (s2, ip, None) \<Rightarrow> readPort s2 [] (Some ip))
          else if t = 4 then (case read_full s1 16 of
                                (s2, _, Some e) \<Rightarrow> (s2, Inl e)
                              | (s2, ip, None) \<Rightarrow> readPort s2 [] (Some ip))
          else if t = 3 then (case read_byte s1 t of
                                (s2, Inl e) \<Rightarrow> (s2, Inl e)
                              | (s2, Inr n) \<Rightarrow>
                                  (case read_full s2 (unat n) of
                                     (s3, _, Some e) \<Rightarrow> (s3, Inl e)
                                   | (s3, fqdn, None) \<Rightarrow> readPort s3 (bytes_str fqdn) None))
          else (s1, Inl (ErrNew ''unrecognized address type'')))"

section \<open>The request\<close>

record credentials =
  username :: bytes
  password :: bytes

record client =
  cred :: "credentials option"

definition SetCredentials :: "bytes \<Rightarrow> bytes \<Rightarrow> client \<Rightarrow> client \<times> err option" where
  "SetCredentials u p c =
     (if length u > 255 then (c, Some (ErrNew ''username exceeds 255 bytes''))
      else if length u = 0 then (c, Some (ErrNew ''username must be at least 1 byte''))
      else if length p > 255 then (c, Some (ErrNew ''password exceeds 255 bytes''))
      else if length p = 0 then (c, Some (ErrNew ''password must be at least 1 byte''))
      else (c\<lparr>cred := Some \<lparr>username = u, password = p\<rparr>\<rparr>, None))"

definition auth_bytes :: "credentials option \<Rightarrow> bytes" where
  "auth_bytes cr =
     (case cr of
        None \<Rightarrow> [5, 1, 0]
      | Some c \<Rightarrow> [5, 1, 2] @ [1] @ [word_of_nat (length (username c))] @ username c
                  @ [word_of_nat (length (password c))] @ password c)"

text \<open>The answer to the method selection, and to the authentication if the server asks for it.\<close>

definition read_method :: "source \<Rightarrow> source \<times> err option" where
  "read_method src =
     (case read_full src 2 of
        (s1, _, Some e) \<Rightarrow> (s1, Some (ErrWrap ''failed to read method server response'' e))
      | (s1, m, None) \<Rightarrow>
          if m ! 0 \<noteq> 5 then (s1, Some (ErrNew ''invalid protocol version''))
          else if m ! 1 = 0 then (s1, None)
          else if m ! 1 = 2 then
            (case read_full s1 2 of
               (s2, _, Some e) \<Rightarrow> (s2, Some (ErrWrap ''failed to read authentication version and status'' e))
             | (s2, a, None) \<Rightarrow>
                 if a ! 0 \<noteq> 1 then (s2, Some (ErrNew ''invalid authentication version''))
                 else if a ! 1 \<noteq> 0 then (s2, Some (ErrNew ''authentication failed''))
                 else (s2, None))
          else (s1, Some (ErrNew ''unsupported SOCKS authentication method'')))"

definition read_reply :: "source \<Rightarrow> source \<times> (err + address)" where
  "read_reply src =
     (case read_full src 3 of
        (s1, _, Some e) \<Rightarrow> (s1, Inl (ErrWrap ''failed to read connect server response'' e))
      | (s1, r, None) \<Rightarrow>
          if r ! 0 \<noteq> 5 then (s1, Inl (ErrNew ''invalid protocol version''))
          else if r ! 1 \<noteq> 0 then (s1, Inl (ReplyCode (r ! 1)))
          else (case readAddr s1 of
                  (s2, Inl e) \<Rightarrow> (s2, Inl (ErrWrap ''failed to read bound address'' e))
                | (s2, Inr a) \<Rightarrow> (s2, Inr a)))"

definition request ::
  "(string \<Rightarrow> bytes option) \<Rightarrow> client \<Rightarrow> 's writer \<Rightarrow> 's sconn \<Rightarrow> byte \<Rightarrow> string \<Rightarrow> 's sconn \<times> (err + address)" where
  "request parse_ip cl wr c cmd dstAddr =
     (case appendSOCKS5Address parse_ip (auth_bytes (cred cl) @ [5, cmd, 0]) dstAddr of
        Inl e \<Rightarrow> (c, Inl (ErrWrap ''failed to create SOCKS5 address'' e))
      | Inr b \<Rightarrow>
          (case wr (c_out c) b of
             (s', _, Some e) \<Rightarrow>
               (c\<lparr>c_out := s'\<rparr>, Inl (ErrWrap ''failed to write combined SOCKS5 request'' e))
           | (s', _, None) \<Rightarrow>
               (case read_method (c_in c) of
                  (i1, Some e) \<Rightarrow> (c\<lparr>c_out := s', c_in := i1\<rparr>, Inl e)
                | (i1, None) \<Rightarrow>
                    (case read_reply i1 of (i2, r) \<Rightarrow> (c\<lparr>c_out := s', c_in := i2\<rparr>, r)))))"

definition connectAndRequest ::
  "(string \<Rightarrow> bytes option) \<Rightarrow> client \<Rightarrow> 's writer \<Rightarrow> err + 's sconn \<Rightarrow> byte \<Rightarrow> string
   \<Rightarrow> 's sconn option \<times> (err + 's sconn \<times> address)" where
  "connectAndRequest parse_ip cl wr se cmd dstAddr =
     (case se of
        Inl e \<Rightarrow> (None, Inl (ErrWrap ''could not connect to SOCKS5 proxy'' e))
      | Inr c \<Rightarrow>
          (case request parse_ip cl wr c cmd dstAddr of
             (c', Inl e) \<Rightarrow> (Some (sc_close c'), Inl e)
           | (c', Inr a) \<Rightarrow> (Some c', Inr (c', a))))"

definition DialStream ::
  "(string \<Rightarrow> bytes option) \<Rightarrow> client \<Rightarrow> 's writer \<Rightarrow> err + 's sconn \<Rightarrow> string
   \<Rightarrow> 's sconn option \<times> (err + 's sconn)" where
  "DialStream parse_ip cl wr se dstAddr =
     (case connectAndRequest parse_ip cl wr se 1 dstAddr of
        (c, Inl e) \<Rightarrow> (c, Inl e)
      | (c, Inr (c', _)) \<Rightarrow> (c, Inr c'))"

section \<open>The UDP relay\<close>

definition socks_WriteTo ::
  "(string \<Rightarrow> bytes option) \<Rightarrow> 's writer \<Rightarrow> 's \<Rightarrow> bytes \<Rightarrow> string \<Rightarrow> 's \<times> nat \<times> err option" where
  "socks_WriteTo parse_ip wr s b addrText =
     (case appendSOCKS5Address parse_ip [0, 0, 0] addrText of
        Inl e \<Rightarrow> (s, 0, Some (ErrWrap ''failed to append SOCKS5 address'' e))
      | Inr hdr \<Rightarrow> wr s (hdr @ b))"

text \<open>
  \<^verbatim>\<open>ReadFrom\<close> of the datagram \<open>dg\<close> with a slice of \<open>n\<close> bytes; \<open>mk\<close> is \<^verbatim>\<open>MakeNetAddr("udp", _)\<close>.
\<close>

definition socks_ReadFrom ::
  "(bytes \<Rightarrow> string) \<Rightarrow> (string \<Rightarrow> err + 'a) \<Rightarrow> err + bytes \<Rightarrow> nat \<Rightarrow> bytes \<times> 'a option \<times> err option" where
  "socks_ReadFrom ip_str mk dg n =
     (case dg of
        Inl e \<Rightarrow> ([], None, Some e)
      | Inr d0 \<Rightarrow>
          (let d = take 16384 d0 in
           if length d < 10 then ([], None, Some (ErrNew ''invalid SOCKS5 UDP packet: too short''))
           else if d ! 0 \<noteq> 0 \<or> d ! 1 \<noteq> 0 then ([], None, Some (ErrNew ''invalid reserved bytes''))
           else if d ! 2 \<noteq> 0 then ([], None, Some (ErrNew ''fragmentation is not supported''))
           else case readAddr (bytes_reader (drop 3 d)) of
                  (_, Inl e) \<Rightarrow> ([], None, Some (ErrWrap ''failed to read address'' e))
                | (rest, Inr a) \<Rightarrow>
                    (case mk (addrToString ip_str (Some a)) of
                       Inl e \<Rightarrow> ([], None, Some (ErrWrap ''failed to convert address'' e))
                     | Inr x \<Rightarrow>
                         (let payload = src_bytes rest in
                          if length payload > n then ([], None, Some ShortBuffer)
                          else (payload, Some x, None)))))"

text \<open>
  \<^verbatim>\<open>ListenPacket\<close>; \<open>remote\<close> is \<^verbatim>\<open>sc.RemoteAddr().String()\<close> and \<open>dial\<close> the packet dialer. The first
  component of the result is the control connection as it is left.
\<close>

definition is_unspecified :: "bytes \<Rightarrow> bool" where
  "is_unspecified ip \<longleftrightarrow> (\<forall>b \<in> set ip. b = 0)"

definition socks_ListenPacket ::
  "(string \<Rightarrow> bytes option) \<Rightarrow> (string \<Rightarrow> err + bytes) \<Rightarrow> (bytes \<Rightarrow> string) \<Rightarrow> client \<Rightarrow> 's writer
   \<Rightarrow> err + 's sconn \<Rightarrow> string \<Rightarrow> (string \<Rightarrow> err + 'p) \<Rightarrow> 's sconn option \<times> (err + 's sconn \<times> 'p)" where
  "socks_ListenPacket parse_ip parse_addr ip_str cl wr se remote dial =
     (case connectAndRequest parse_ip cl wr se 3 ''0.0.0.0:0'' of
        (c, Inl e) \<Rightarrow> (c, Inl e)
      | (c, Inr (sc, bindAddr)) \<Rightarrow>
          (case (if \<exists>ip. aip bindAddr = Some ip \<and> is_unspecified ip
                 then (case split_host_port remote of
                         Inl e \<Rightarrow> Inl (ErrWrap ''failed to parse tcp address'' e)
                       | Inr (schost, _) \<Rightarrow>
                           (case parse_addr schost of
                              Inl e \<Rightarrow> Inl (ErrWrap ''failed to parse bind address'' e)
                            | Inr ip \<Rightarrow> Inr (bindAddr\<lparr>aip := Some ip\<rparr>)))
                 else Inr bindAddr) of
             Inl e \<Rightarrow> (Some sc, Inl e)
           | Inr a \<Rightarrow>
               (case dial (addrToString ip_str (Some a)) of
                  Inl e \<Rightarrow> (Some (sc_close sc), Inl (ErrWrap ''could not connect to packet endpoint'' e))
                | Inr pc \<Rightarrow> (Some sc, Inr (sc, pc)))))"

section \<open>Addresses round trip\<close>

text \<open>What an address text denotes.\<close>

definition target :: "(string \<Rightarrow> bytes option) \<Rightarrow> string \<Rightarrow> address option" where
  "target parse_ip addrText =
     (case split_host_port addrText of
        Inl _ \<Rightarrow> None
      | Inr (host, portStr) \<Rightarrow>
          (case parse_uint 16 portStr of
             Inl _ \<Rightarrow> None
           | Inr p \<Rightarrow>
               (case parse_ip host of
                  Some ip \<Rightarrow>
                    (case to4 ip of
                       Some ip4 \<Rightarrow> Some \<lparr>aname = [], aip = Some ip4, aport = p\<rparr>
                     | None \<Rightarrow> if length ip = 16 then Some \<lparr>aname = [], aip = Some ip, aport = p\<rparr> else None)
                | None \<Rightarrow>
                    if length host > 255 then None
                    else Some \<lparr>aname = host, aip = None, aport = p\<rparr>)))"

definition wire_addr :: "address \<Rightarrow> bytes" where
  "wire_addr a =
     (case aip a of
        Some ip \<Rightarrow> (if length ip = 4 then 1 else 4) # ip
      | None \<Rightarrow> 3 # word_of_nat (length (aname a)) # str_bytes (aname a)) @ put_u16 (aport a)"

definition addr_ok :: "address \<Rightarrow> bool" where
  "addr_ok a \<longleftrightarrow> aport a < 65536
     \<and> (case aip a of
          Some ip \<Rightarrow> aname a = [] \<and> (length ip = 4 \<or> length ip = 16)
        | None \<Rightarrow> length (aname a) \<le> 255)"

lemma to4_length: "to4 ip = Some x \<Longrightarrow> length x = 4"
  by (auto simp: to4_def split: if_splits)

lemma parse_uint_less: "parse_uint bits s = Inr n \<Longrightarrow> n < 2 ^ bits"
  by (auto simp: parse_uint_def split: if_splits option.splits)

lemma target_ok: "target parse_ip t = Some a \<Longrightarrow> addr_ok a"
  using to4_length parse_uint_less [of 16]
  by (fastforce simp: target_def addr_ok_def split: sum.splits option.splits if_splits prod.splits)

lemma append_target: "target parse_ip t = Some a \<Longrightarrow> appendSOCKS5Address parse_ip b t = Inr (b @ wire_addr a)"
  using to4_length
  by (auto simp: target_def appendSOCKS5Address_def wire_addr_def
      split: sum.splits option.splits if_splits prod.splits)

lemma append_no_target: "target parse_ip t = None \<Longrightarrow> \<exists>e. appendSOCKS5Address parse_ip b t = Inl e"
  by (auto simp: target_def appendSOCKS5Address_def split: sum.splits option.splits if_splits prod.splits)

lemma readPort_ok:
  assumes "solid s" "src_bytes s = put_u16 p @ rest" "p < 65536"
  shows "\<exists>s'. solid s' \<and> src_bytes s' = rest
     \<and> readPort s nm ip = (s', Inr \<lparr>aname = nm, aip = ip, aport = p\<rparr>)"
  using read_full_solid [OF assms(1,2), of 2] assms(3) by (auto simp: readPort_def)

lemma read_byte_ok:
  "solid s \<Longrightarrow> src_bytes s = b # rest \<Longrightarrow>
   \<exists>s'. solid s' \<and> src_bytes s' = rest \<and> read_byte s old = (s', Inr b)"
  using src_read_solid [of s b rest] by (auto simp: read_byte_def)

lemma readAddr_ok:
  assumes s: "solid s" "src_bytes s = wire_addr a @ rest" and a: "addr_ok a"
  shows "\<exists>s'. solid s' \<and> src_bytes s' = rest \<and> readAddr s = (s', Inr a)"
proof (cases "aip a")
  case (Some ip)
  let ?t = "if length ip = 4 then 1 else 4 :: byte"
  have ip: "length ip = 4 \<or> length ip = 16" "aname a = []" "aport a < 65536"
    using a Some by (auto simp: addr_ok_def)
  have "src_bytes s = ?t # (ip @ put_u16 (aport a) @ rest)" using s(2) Some by (simp add: wire_addr_def)
  from read_byte_ok [OF s(1) this] obtain s1 where s1: "solid s1"
    "src_bytes s1 = ip @ put_u16 (aport a) @ rest" "read_byte s 0 = (s1, Inr ?t)" by blast
  from read_full_solid [OF s1(1,2) refl] obtain s2 where s2: "solid s2"
    "src_bytes s2 = put_u16 (aport a) @ rest" "read_full s1 (length ip) = (s2, ip, None)" by blast
  from readPort_ok [OF s2(1,2) ip(3), of "[]" "Some ip"] obtain s3 where s3: "solid s3" "src_bytes s3 = rest"
    "readPort s2 [] (Some ip) = (s3, Inr a)" using Some ip(2) by auto
  then show ?thesis using s1(3) s2(3) ip(1) by (auto simp: readAddr_def)
next
  case None
  let ?n = "word_of_nat (length (aname a)) :: byte"
  have l: "length (aname a) \<le> 255" "aport a < 65536" using a None by (auto simp: addr_ok_def)
  then have n: "unat ?n = length (aname a)" by (simp add: unat_byte)
  have "src_bytes s = 3 # (?n # str_bytes (aname a) @ put_u16 (aport a) @ rest)"
    using s(2) None by (simp add: wire_addr_def)
  from read_byte_ok [OF s(1) this] obtain s1 where s1: "solid s1"
    "src_bytes s1 = ?n # str_bytes (aname a) @ put_u16 (aport a) @ rest" "read_byte s 0 = (s1, Inr 3)" by blast
  from read_byte_ok [OF s1(1,2)] obtain s2 where s2: "solid s2"
    "src_bytes s2 = str_bytes (aname a) @ put_u16 (aport a) @ rest" "read_byte s1 3 = (s2, Inr ?n)" by blast
  from read_full_solid [OF s2(1,2)] obtain s3 where s3: "solid s3"
    "src_bytes s3 = put_u16 (aport a) @ rest"
    "read_full s2 (length (aname a)) = (s3, str_bytes (aname a), None)" by auto
  from readPort_ok [OF s3(1,2) l(2), of "aname a" None] obtain s4 where s4: "solid s4" "src_bytes s4 = rest"
    "readPort s3 (aname a) None = (s4, Inr a)" using None by auto
  then show ?thesis using s1(3) s2(3) s3(3) n by (simp add: readAddr_def)
qed

text \<open>
  The wire form of an address text reads back as the address it denotes, and what follows it is
  left for the next read, however the bytes arrive.
\<close>

theorem socks_address_roundtrip:
  assumes "target parse_ip t = Some a" "solid s" "src_bytes s = bs @ rest"
    and "appendSOCKS5Address parse_ip [] t = Inr bs"
  shows "\<exists>s'. src_bytes s' = rest \<and> readAddr s = (s', Inr a)"
  using readAddr_ok [OF assms(2) _ target_ok [OF assms(1)]] append_target [OF assms(1), of "[]"] assms(3,4)
  by auto

section \<open>The request and its answers\<close>

text \<open>What a server sends back: the method, its authentication answer, the reply.\<close>

definition method_answer :: "byte \<Rightarrow> bytes" where
  "method_answer m = [5, m] @ (if m = 2 then [1, 0] else [])"

lemma read_method_ok:
  assumes "solid s" "src_bytes s = method_answer m @ rest" "m = 0 \<or> m = 2"
  shows "\<exists>s'. solid s' \<and> src_bytes s' = rest \<and> read_method s = (s', None)"
proof -
  have "src_bytes s = [5, m] @ ((if m = 2 then [1, 0] else []) @ rest)"
    using assms(2) by (simp add: method_answer_def)
  from read_full_solid [OF assms(1) this, of 2] obtain s1 where s1: "solid s1"
    "src_bytes s1 = (if m = 2 then [1, 0] else []) @ rest" "read_full s 2 = (s1, [5, m], None)" by auto
  show ?thesis
  proof (cases "m = 2")
    case True
    then have "src_bytes s1 = [1, 0] @ rest" using s1(2) by simp
    from read_full_solid [OF s1(1) this, of 2] show ?thesis using s1(3) True
      by (auto simp: read_method_def)
  next
    case False
    then show ?thesis using s1 assms(3) by (auto simp: read_method_def)
  qed
qed

lemma read_reply_ok:
  assumes "solid s" "src_bytes s = [5, 0, r] @ wire_addr a @ rest" "addr_ok a"
  shows "\<exists>s'. solid s' \<and> src_bytes s' = rest \<and> read_reply s = (s', Inr a)"
proof -
  from read_full_solid [OF assms(1,2), of 3] obtain s1 where s1: "solid s1"
    "src_bytes s1 = wire_addr a @ rest" "read_full s 3 = (s1, [5, 0, r], None)" by auto
  show ?thesis using readAddr_ok [OF s1(1,2) assms(3)] s1(3) by (auto simp: read_reply_def)
qed

text \<open>
  With a server that accepts, a dial makes one write, of the method selection, the credentials and
  the command together, and returns the open connection with the application data still to be read.
\<close>

theorem socks_dial_accepted:
  assumes "target parse_ip t = Some dst" "healthy (c_out c)" "solid (c_in c)"
    and "src_bytes (c_in c) = method_answer m @ [5, 0, r] @ wire_addr bind @ app" "m = 0 \<or> m = 2"
    and "addr_ok bind"
  shows "\<exists>c'. DialStream parse_ip cl sink_write (Inr c) t = (Some c', Inr c')
     \<and> sent (c_out c') = sent (c_out c) @ [auth_bytes (cred cl) @ [5, 1, 0] @ wire_addr dst]
     \<and> src_bytes (c_in c') = app \<and> c_closed c' = c_closed c"
proof -
  obtain i1 where i1: "solid i1" "src_bytes i1 = [5, 0, r] @ wire_addr bind @ app"
    "read_method (c_in c) = (i1, None)"
    using read_method_ok [OF assms(3,4,5)] by blast
  obtain i2 where i2: "src_bytes i2 = app" "read_reply i1 = (i2, Inr bind)"
    using read_reply_ok [OF i1(1,2) assms(6)] by blast
  show ?thesis
    using append_target [OF assms(1), of "auth_bytes (cred cl) @ [5, 1, 0]"] assms(2) i1(3) i2
    by (simp add: DialStream_def connectAndRequest_def request_def)
qed

text \<open>
  A server that refuses with a reply code makes the dial fail with that code, and the connection
  to the proxy is closed.
\<close>

theorem socks_dial_refused:
  assumes "target parse_ip t = Some dst" "healthy (c_out c)" "solid (c_in c)"
    and "src_bytes (c_in c) = method_answer m @ [5, code, r] @ rest" "m = 0 \<or> m = 2" "code \<noteq> 0"
  shows "\<exists>c'. DialStream parse_ip cl sink_write (Inr c) t = (Some c', Inl (ReplyCode code))
     \<and> c_closed c'"
proof -
  obtain i1 where i1: "solid i1" "src_bytes i1 = [5, code, r] @ rest" "read_method (c_in c) = (i1, None)"
    using read_method_ok [OF assms(3,4,5)] by blast
  from read_full_solid [OF i1(1,2), of 3] obtain i2 where "read_full i1 3 = (i2, [5, code, r], None)" by auto
  then show ?thesis
    using append_target [OF assms(1), of "auth_bytes (cred cl) @ [5, 1, 0]"] assms(2,6) i1(3)
    by (simp add: DialStream_def connectAndRequest_def request_def read_reply_def sc_close_def)
qed

section \<open>Datagrams\<close>

text \<open>
  A datagram sent through the relay reads back with its address and payload, if the header and
  the payload are at least ten bytes and fit the buffer.
\<close>

theorem socks_datagram_roundtrip:
  assumes "target parse_ip t = Some a" "mk (addrToString ip_str (Some a)) = Inr x"
    and "10 \<le> 3 + length (wire_addr a) + length b" "3 + length (wire_addr a) + length b \<le> 16384"
    and "socks_WriteTo parse_ip sink_write fresh_sink b t = (s', n, None)"
  shows "\<exists>d. sent s' = [d]
     \<and> socks_ReadFrom ip_str mk (Inr d) m
        = (if length b > m then ([], None, Some ShortBuffer) else (b, Some x, None))"
proof -
  let ?d = "[0, 0, 0] @ wire_addr a @ b"
  have s': "sent s' = [?d]"
    using assms(5) append_target [OF assms(1), of "[0, 0, 0]"]
    by (auto simp: socks_WriteTo_def fresh_sink_def healthy_def)
  have "src_bytes (bytes_reader (wire_addr a @ b)) = wire_addr a @ b" by simp
  from readAddr_ok [OF solid_bytes_reader this target_ok [OF assms(1)]]
  obtain q where "src_bytes q = b" "readAddr (bytes_reader (wire_addr a @ b)) = (q, Inr a)" by blast
  moreover have "take 16384 ?d = ?d" "\<not> length ?d < 10" using assms(3,4) by simp_all
  ultimately show ?thesis using s' assms(2)
    by (intro exI [of _ ?d]) (simp add: socks_ReadFrom_def Let_def)
qed

text \<open>
  \<^verbatim>\<open>WriteTo\<close> reports the size of the datagram and not the number of bytes of the slice it was
  given: always more than \<^verbatim>\<open>len(b)\<close>, which the contract of \<^verbatim>\<open>net.PacketConn\<close> excludes.
\<close>

theorem socks_write_to_overcounts:
  assumes "target parse_ip t = Some a" "healthy s"
  shows "\<exists>s'. socks_WriteTo parse_ip sink_write s b t = (s', 3 + length (wire_addr a) + length b, None)"
  using append_target [OF assms(1), of "[0, 0, 0]"] assms(2) by (simp add: socks_WriteTo_def)

text \<open>
  When the relay answers with an unspecified address and the text of the control connection's
  remote address has no IP, \<^verbatim>\<open>ListenPacket\<close> fails but leaves the control connection open.
\<close>

theorem socks_listen_leaks:
  assumes "target parse_ip ''0.0.0.0:0'' = Some z" "healthy (c_out c)" "solid (c_in c)" "\<not> c_closed c"
    and "src_bytes (c_in c) = method_answer m @ [5, 0, r] @ wire_addr bind @ rest" "m = 0 \<or> m = 2"
    and "addr_ok bind" "aip bind = Some ip" "is_unspecified ip"
    and "split_host_port remote = Inr (host, port)" "parse_addr host = Inl e"
  shows "\<exists>c' x. socks_ListenPacket parse_ip parse_addr ip_str cl sink_write (Inr c) remote dial
        = (Some c', Inl x) \<and> \<not> c_closed c'"
proof -
  obtain i1 where i1: "solid i1" "src_bytes i1 = [5, 0, r] @ wire_addr bind @ rest"
    "read_method (c_in c) = (i1, None)"
    using read_method_ok [OF assms(3,5,6)] by blast
  obtain i2 where i2: "read_reply i1 = (i2, Inr bind)"
    using read_reply_ok [OF i1(1,2) assms(7)] by blast
  show ?thesis
    using append_target [OF assms(1), of "auth_bytes (cred cl) @ [5, 3, 0]"] assms(2,4,8-11) i1(3) i2
    by (simp add: socks_ListenPacket_def connectAndRequest_def request_def)
qed

section \<open>Witnesses\<close>

definition demo_ip :: "string \<Rightarrow> bytes option" where
  "demo_ip h = (if h = ''0.0.0.0'' then Some (v4_prefix @ [0, 0, 0, 0]) else None)"

definition demo_dst :: address where
  "demo_dst = \<lparr>aname = ''ab'', aip = None, aport = 53\<rparr>"

definition demo_bind :: address where
  "demo_bind = \<lparr>aname = [], aip = Some [0, 0, 0, 0], aport = 9\<rparr>"

definition demo_conn :: "bytes \<Rightarrow> sink sconn" where
  "demo_conn i = \<lparr>c_out = fresh_sink, c_in = bytes_reader i, c_closed = False\<rparr>"

lemma demo_target: "target demo_ip ''ab:53'' = Some demo_dst"
  by (simp add: target_def demo_ip_def demo_dst_def split_host_port_def last_index_def parse_uint_def
      digit_val_def Let_def)

lemma demo_target_any: "target demo_ip ''0.0.0.0:0'' = Some \<lparr>aname = [], aip = Some [0, 0, 0, 0], aport = 0\<rparr>"
  by (simp add: target_def demo_ip_def split_host_port_def last_index_def parse_uint_def
      digit_val_def to4_def v4_prefix_def Let_def)

lemma demo_addr_ok: "addr_ok demo_dst" "addr_ok demo_bind"
  by (simp_all add: addr_ok_def demo_dst_def demo_bind_def)

lemma socks_address_roundtrip_witness:
  "\<exists>s'. src_bytes s' = [1] \<and> readAddr (bytes_reader (wire_addr demo_dst @ [1])) = (s', Inr demo_dst)"
  using socks_address_roundtrip [OF demo_target, of "bytes_reader (wire_addr demo_dst @ [1])"
      "wire_addr demo_dst" "[1]"] append_target [OF demo_target, of "[]"]
  by simp

lemma socks_dial_accepted_witness:
  "\<exists>c'. DialStream demo_ip \<lparr>cred = None\<rparr> sink_write
        (Inr (demo_conn (method_answer 0 @ [5, 0, 0] @ wire_addr demo_bind @ [77]))) ''ab:53'' = (Some c', Inr c')
     \<and> sent (c_out c') = [[5, 1, 0, 5, 1, 0, 3, 2, 97, 98, 0, 53]] \<and> src_bytes (c_in c') = [77]"
  using socks_dial_accepted [OF demo_target, of "demo_conn (method_answer 0 @ [5, 0, 0] @ wire_addr demo_bind @ [77])"
      0 0 demo_bind "[77]" "\<lparr>cred = None\<rparr>"] demo_addr_ok(2)
  by (auto simp: demo_conn_def fresh_sink_def healthy_def auth_bytes_def wire_addr_def demo_dst_def
      str_bytes_def put_u16_def)

lemma socks_dial_refused_witness:
  "\<exists>c'. DialStream demo_ip \<lparr>cred = None\<rparr> sink_write (Inr (demo_conn (method_answer 0 @ [5, 5, 0]))) ''ab:53''
        = (Some c', Inl (ErrNew ''connection refused'')) \<and> c_closed c'"
  using socks_dial_refused [OF demo_target, of "demo_conn (method_answer 0 @ [5, 5, 0])" 0 5 0 "[]"
      "\<lparr>cred = None\<rparr>"]
  by (simp add: demo_conn_def ReplyCode_def reply_text_def)

lemma socks_datagram_roundtrip_witness:
  "\<exists>s' n d. socks_WriteTo demo_ip sink_write fresh_sink [1, 2, 3] ''ab:53'' = (s', n, None) \<and> sent s' = [d]
     \<and> socks_ReadFrom (\<lambda>_. []) Inr (Inr d) 2 = ([], None, Some ShortBuffer)"
proof -
  obtain s' n where w: "socks_WriteTo demo_ip sink_write fresh_sink [1, 2, 3] ''ab:53'' = (s', n, None)"
    using append_target [OF demo_target, of "[0, 0, 0]"] by (simp add: socks_WriteTo_def)
  have "length (wire_addr demo_dst) = 6" by (simp add: wire_addr_def demo_dst_def)
  then show ?thesis using socks_datagram_roundtrip
      [where mk = Inr and ip_str = "\<lambda>_. []" and m = 2, OF demo_target refl _ _ w] w by auto
qed

lemma socks_write_to_overcounts_witness:
  "\<exists>s'. socks_WriteTo demo_ip sink_write fresh_sink [1, 2, 3] ''ab:53'' = (s', 12, None)"
  using socks_write_to_overcounts [OF demo_target healthy_fresh, of "[1, 2, 3]"]
  by (simp add: wire_addr_def demo_dst_def)

lemma socks_listen_leaks_witness:
  "\<exists>c' x. socks_ListenPacket demo_ip (\<lambda>_. Inl (ErrNew ''no IP'')) (\<lambda>_. []) \<lparr>cred = None\<rparr> sink_write
        (Inr (demo_conn (method_answer 0 @ [5, 0, 0] @ wire_addr demo_bind @ []))) ''ab:53''
        (\<lambda>_. Inl (ErrNew ''not called'') :: err + nat)
      = (Some c', Inl x) \<and> \<not> c_closed c'"
  by (rule socks_listen_leaks [OF demo_target_any, of _ 0 0 demo_bind "[]" "[0, 0, 0, 0]" _ "''ab''" "''53''"])
    (use demo_addr_ok(2) in \<open>simp_all add: demo_conn_def demo_bind_def is_unspecified_def split_host_port_def
      last_index_def Let_def\<close>)

end
