(* ===== verification/Dns.thy ===== *)
theory Dns
  imports GoNet
begin

text \<open>
  The DNS client of \<^verbatim>\<open>dns/resolver.go\<close> and \<^verbatim>\<open>dns/stream_dialer.go\<close>. The message codec is the package
  \<^verbatim>\<open>golang.org/x/net/dns/dnsmessage\<close>: its builder, parser and name check are the fields of
  \<open>dns_lib\<close>. The lemmas say which answers a query accepts over datagrams and over streams.
\<close>

section \<open>Messages\<close>

record question =
  qname :: bytes
  qtype :: nat
  qclass :: nat

record dns_header =
  h_id :: nat
  h_response :: bool
  h_rcode :: nat

datatype rr_body = ABody bytes | AAAABody bytes | CNAMEBody bytes | SOABody | OtherBody

record answer =
  rr_name :: bytes
  rr_type :: nat
  rr_body :: rr_body

record dns_msg =
  m_hdr :: dns_header
  m_questions :: "question list"
  m_answers :: "answer list"
  m_authorities :: "answer list"

text \<open>The message library; \<open>'b\<close> is the state of its builder.\<close>

record 'b dns_lib =
  NewBuilder :: "bytes \<Rightarrow> nat \<Rightarrow> bool \<Rightarrow> 'b"
  StartQuestions :: "'b \<Rightarrow> err + 'b"
  AddQuestion :: "question \<Rightarrow> 'b \<Rightarrow> err + 'b"
  StartAdditionals :: "'b \<Rightarrow> err + 'b"
  SetEDNS0 :: "nat \<Rightarrow> err option"
  OPTResource :: "nat \<Rightarrow> 'b \<Rightarrow> err + 'b"
  Finish :: "'b \<Rightarrow> err + bytes"
  UnpackMsg :: "bytes \<Rightarrow> err + dns_msg"
  NewName :: "string \<Rightarrow> err + bytes"

definition ErrBadRequest :: err where "ErrBadRequest = ErrNew ''request input is invalid''"
definition ErrDial :: err where "ErrDial = ErrNew ''dial DNS resolver failed''"
definition ErrSend :: err where "ErrSend = ErrNew ''send DNS message failed''"
definition ErrReceive :: err where "ErrReceive = ErrNew ''receive DNS message failed''"
definition ErrBadResponse :: err where "ErrBadResponse = ErrNew ''response message is invalid''"

abbreviation classINET :: nat where "classINET \<equiv> 1"

definition NewQuestion :: "'b dns_lib \<Rightarrow> string \<Rightarrow> nat \<Rightarrow> err + question" where
  "NewQuestion L domain t =
     (let fullDomain = (if domain = [] \<or> last domain \<noteq> CHR ''.'' then domain @ ''.'' else domain) in
      case NewName L fullDomain of
        Inl e \<Rightarrow> Inl (ErrWrap ''cannot parse domain name'' e)
      | Inr name \<Rightarrow> Inr \<lparr>qname = name, qtype = t, qclass = classINET\<rparr>)"

abbreviation maxUDPMessageSize :: nat where "maxUDPMessageSize \<equiv> 1232"

definition appendRequest :: "'b dns_lib \<Rightarrow> nat \<Rightarrow> question \<Rightarrow> bytes \<Rightarrow> err + bytes" where
  "appendRequest L qid q buf =
     (case StartQuestions L (NewBuilder L buf qid True) of
        Inl e \<Rightarrow> Inl (ErrWrap ''start questions failed'' e)
      | Inr b1 \<Rightarrow>
          (case AddQuestion L q b1 of
             Inl e \<Rightarrow> Inl (ErrWrap ''add question failed'' e)
           | Inr b2 \<Rightarrow>
               (case StartAdditionals L b2 of
                  Inl e \<Rightarrow> Inl (ErrWrap ''start additionals failed'' e)
                | Inr b3 \<Rightarrow>
                    (case SetEDNS0 L maxUDPMessageSize of
                       Some e \<Rightarrow> Inl (ErrWrap ''set EDNS(0) failed'' e)
                     | None \<Rightarrow>
                         (case OPTResource L maxUDPMessageSize b3 of
                            Inl e \<Rightarrow> Inl (ErrWrap ''add OPT RR failed'' e)
                          | Inr b4 \<Rightarrow>
                              (case Finish L b4 of
                                 Inl e \<Rightarrow> Inl (ErrWrap ''message serialization failed'' e)
                               | Inr b \<Rightarrow> Inr b))))))"

section \<open>Checking an answer\<close>

definition foldCase :: "byte \<Rightarrow> byte" where
  "foldCase c = (if 97 \<le> c \<and> c \<le> 122 then c - 97 + 65 else c)"

text \<open>The loop of \<^verbatim>\<open>equalASCIIName\<close> from index \<open>i\<close> on.\<close>

function eq_from :: "nat \<Rightarrow> bytes \<Rightarrow> bytes \<Rightarrow> bool" where
  "eq_from i x y =
     (if i < length x then (if foldCase (x ! i) \<noteq> foldCase (y ! i) then False else eq_from (Suc i) x y)
      else True)"
  by pat_completeness auto
termination by (relation "measure (\<lambda>(i, x, y). length x - i)") auto

definition equalASCIIName :: "bytes \<Rightarrow> bytes \<Rightarrow> bool" where
  "equalASCIIName x y \<longleftrightarrow> (if length x \<noteq> length y then False else eq_from 0 x y)"

definition checkResponse :: "nat \<Rightarrow> question \<Rightarrow> dns_header \<Rightarrow> question list \<Rightarrow> err option" where
  "checkResponse reqID reqQues respHdr respQs =
     (if \<not> h_response respHdr then Some (ErrNew ''response bit not set'')
      else if reqID \<noteq> h_id respHdr then Some (ErrNew ''message qid does not match'')
      else case respQs of
             [] \<Rightarrow> Some (ErrNew ''response had no questions'')
           | respQ # _ \<Rightarrow>
               if qtype reqQues \<noteq> qtype respQ \<or> qclass reqQues \<noteq> qclass respQ
                  \<or> \<not> equalASCIIName (qname reqQues) (qname respQ)
               then Some (ErrNew ''response question doesn't match request'')
               else None)"

section \<open>Queries\<close>

text \<open>
  The receive loop of \<^verbatim>\<open>queryDatagram\<close> on the results that the \<^verbatim>\<open>Read\<close> calls give, one datagram each;
  \<open>None\<close> is "still waiting" when there are no more of them.
\<close>

fun datagram_loop ::
  "'b dns_lib \<Rightarrow> nat \<Rightarrow> question \<Rightarrow> (bytes \<times> err option) list \<Rightarrow> err option \<Rightarrow> (err + dns_msg) option" where
  "datagram_loop L qid q [] returnErr = None"
| "datagram_loop L qid q ((dg, e0) # rest) returnErr =
     (let buf = take maxUDPMessageSize dg; e = (if e0 = Some EOF \<and> buf \<noteq> [] then None else e0) in
      case e of
        Some x \<Rightarrow>
          Some (Inl (ErrNested ErrReceive (join_err returnErr (ErrWrap ''read message failed'' x))))
      | None \<Rightarrow>
          (case UnpackMsg L buf of
             Inl x \<Rightarrow> datagram_loop L qid q rest (Some (join_err returnErr x))
           | Inr msg \<Rightarrow>
               (case checkResponse qid q (m_hdr msg) (m_questions msg) of
                  Some x \<Rightarrow> datagram_loop L qid q rest (Some (join_err returnErr x))
                | None \<Rightarrow> Some (Inr msg))))"

definition queryDatagram ::
  "'b dns_lib \<Rightarrow> nat \<Rightarrow> 's writer \<Rightarrow> 's \<Rightarrow> (bytes \<times> err option) list \<Rightarrow> question \<Rightarrow> 's \<times> (err + dns_msg) option" where
  "queryDatagram L qid wr s reads q =
     (case appendRequest L qid q [] of
        Inl e \<Rightarrow> (s, Some (Inl (ErrNested ErrBadRequest (ErrWrap ''append request failed'' e))))
      | Inr buf \<Rightarrow>
          (case wr s buf of
             (s', _, Some e) \<Rightarrow> (s', Some (Inl (ErrNested ErrSend e)))
           | (s', _, None) \<Rightarrow> (s', datagram_loop L qid q reads None)))"

text \<open>\<^verbatim>\<open>queryStream\<close>: the answer is read after a two-byte length.\<close>

definition stream_answer :: "'b dns_lib \<Rightarrow> nat \<Rightarrow> question \<Rightarrow> source \<Rightarrow> source \<times> (err + dns_msg)" where
  "stream_answer L qid q src =
     (case read_full src 2 of
        (s1, _, Some e) \<Rightarrow> (s1, Inl (ErrNested ErrReceive (ErrWrap ''read message length failed'' e)))
      | (s1, l, None) \<Rightarrow>
          (case read_full s1 (get_u16 l) of
             (s2, _, Some e) \<Rightarrow> (s2, Inl (ErrNested ErrReceive (ErrWrap ''read message failed'' e)))
           | (s2, buf, None) \<Rightarrow>
               (s2, case UnpackMsg L buf of
                      Inl e \<Rightarrow> Inl (ErrNested ErrBadResponse (ErrWrap ''response failed to unpack'' e))
                    | Inr msg \<Rightarrow>
                        (case checkResponse qid q (m_hdr msg) (m_questions msg) of
                           Some e \<Rightarrow> Inl (ErrNested ErrBadResponse e)
                         | None \<Rightarrow> Inr msg))))"

definition queryStream ::
  "'b dns_lib \<Rightarrow> nat \<Rightarrow> 's writer \<Rightarrow> 's sconn \<Rightarrow> question \<Rightarrow> 's sconn \<times> (err + dns_msg)" where
  "queryStream L qid wr c q =
     (case appendRequest L qid q [0, 0] of
        Inl e \<Rightarrow> (c, Inl (ErrNested ErrBadRequest (ErrWrap ''append request failed'' e)))
      | Inr buf0 \<Rightarrow>
          if length buf0 > 65535 then (c, Inl (ErrNested ErrBadRequest (ErrNew ''message too large'')))
          else (let buf = blit 0 (put_u16 (length buf0 - 2)) buf0 in
                case wr (c_out c) buf of
                  (s', _, Some e) \<Rightarrow> (c\<lparr>c_out := s'\<rparr>, Inl (ErrNested ErrSend e))
                | (s', _, None) \<Rightarrow>
                    (case stream_answer L qid q (c_in c) of
                       (i, r) \<Rightarrow> (c\<lparr>c_out := s', c_in := i\<rparr>, r))))"

text \<open>A query of a stream resolver: a new connection, which is closed in any case.\<close>

definition stream_query ::
  "'b dns_lib \<Rightarrow> nat \<Rightarrow> 's writer \<Rightarrow> err + 's sconn \<Rightarrow> question \<Rightarrow> 's sconn option \<times> (err + dns_msg)" where
  "stream_query L qid wr newConn q =
     (case newConn of
        Inl e \<Rightarrow> (None, Inl (ErrNested ErrDial e))
      | Inr c \<Rightarrow> (case queryStream L qid wr c q of (c', r) \<Rightarrow> (Some (sc_close c'), r)))"

definition ensurePort :: "string \<Rightarrow> string \<Rightarrow> string" where
  "ensurePort addrText defaultPort =
     (case split_host_port addrText of
        Inl _ \<Rightarrow> join_host_port addrText defaultPort
      | Inr (host, port) \<Rightarrow> if port = [] then join_host_port host defaultPort else addrText)"

text \<open>
  The resolvers of \<^verbatim>\<open>dns/resolver.go\<close> with the address they dial; the system resolver is a nil
  \<^verbatim>\<open>Resolver\<close>. \<open>HTTPSResolver\<close> also has the URL and \<open>TLSResolver\<close> the server name.
\<close>

datatype resolver =
    SystemResolver
  | HTTPSResolver string string
  | TLSResolver string string
  | TCPResolver string
  | UDPResolver string

definition NewHTTPSResolver :: "string \<Rightarrow> string \<Rightarrow> resolver" where
  "NewHTTPSResolver resolverAddr url = HTTPSResolver (ensurePort resolverAddr ''443'') url"
definition NewTLSResolver :: "string \<Rightarrow> string \<Rightarrow> resolver" where
  "NewTLSResolver resolverAddr resolverName = TLSResolver (ensurePort resolverAddr ''853'') resolverName"
definition NewTCPResolver :: "string \<Rightarrow> resolver" where
  "NewTCPResolver resolverAddr = TCPResolver (ensurePort resolverAddr ''53'')"
definition NewUDPResolver :: "string \<Rightarrow> resolver" where
  "NewUDPResolver resolverAddr = UDPResolver (ensurePort resolverAddr ''53'')"

text \<open>The text of the URL, for hosts without characters that a URL escapes.\<close>

definition doh_url :: "string \<Rightarrow> string" where
  "doh_url host = ''https://'' @ host @ ''/dns-query''"

text \<open>The answer of an HTTPS resolver to a request that got through: status and body.\<close>

definition https_answer :: "'b dns_lib \<Rightarrow> question \<Rightarrow> nat \<Rightarrow> err + bytes \<Rightarrow> err + dns_msg" where
  "https_answer L q status body =
     (if status \<noteq> 200 then Inl (ErrNested ErrReceive (ErrNew ''got HTTP status''))
      else case body of
             Inl e \<Rightarrow> Inl (ErrNested ErrReceive (ErrWrap ''failed to read response'' e))
           | Inr response \<Rightarrow>
               (case UnpackMsg L response of
                  Inl e \<Rightarrow> Inl (ErrNested ErrBadResponse (ErrWrap ''failed to unpack DNS response'' e))
                | Inr msg \<Rightarrow>
                    (case checkResponse 0 q (m_hdr msg) (m_questions msg) of
                       Some e \<Rightarrow> Inl (ErrNested ErrBadResponse e)
                     | None \<Rightarrow> Inr msg)))"

section \<open>Addresses of a host\<close>

definition resolve_answers :: "nat \<Rightarrow> answer list \<Rightarrow> bytes list" where
  "resolve_answers rrType as =
     concat (map (\<lambda>a. if rr_type a \<noteq> rrType then []
                      else case rr_body a of ABody ip \<Rightarrow> [ip] | AAAABody ip \<Rightarrow> [ip] | _ \<Rightarrow> []) as)"

definition resolveIP ::
  "'b dns_lib \<Rightarrow> (question \<Rightarrow> err + dns_msg) \<Rightarrow> nat \<Rightarrow> string \<Rightarrow> err + bytes list" where
  "resolveIP L query rrType hostname =
     (case NewQuestion L hostname rrType of
        Inl e \<Rightarrow> Inl e
      | Inr q \<Rightarrow>
          (case query q of
             Inl e \<Rightarrow> Inl e
           | Inr r \<Rightarrow>
               if h_rcode (m_hdr r) \<noteq> 0 then Inl (ErrNew ''got an error code'')
               else Inr (resolve_answers rrType (m_answers r))))"

section \<open>Names\<close>

declare eq_from.simps [simp del]

lemma eq_from_iff: "length x = length y \<Longrightarrow> eq_from i x y \<longleftrightarrow> (\<forall>j. i \<le> j \<and> j < length x \<longrightarrow> foldCase (x ! j) = foldCase (y ! j))"
proof (induction i x y rule: eq_from.induct)
  case (1 i x y)
  show ?case
  proof (cases "i < length x \<and> foldCase (x ! i) = foldCase (y ! i)")
    case True
    have "eq_from i x y = eq_from (Suc i) x y" using True by (subst eq_from.simps) simp
    also have "\<dots> \<longleftrightarrow> (\<forall>j. Suc i \<le> j \<and> j < length x \<longrightarrow> foldCase (x ! j) = foldCase (y ! j))"
      using 1(1) True 1(2) by simp
    also have "\<dots> \<longleftrightarrow> (\<forall>j. i \<le> j \<and> j < length x \<longrightarrow> foldCase (x ! j) = foldCase (y ! j))"
      using True by (metis Suc_le_eq le_neq_implies_less order_less_imp_le)
    finally show ?thesis .
  next
    case False
    then show ?thesis by (subst eq_from.simps) auto
  qed
qed

text \<open>Two names are equal exactly if they agree letter by letter up to ASCII case.\<close>

theorem equalASCIIName_iff: "equalASCIIName x y \<longleftrightarrow> map foldCase x = map foldCase y"
proof (cases "length x = length y")
  case True
  then show ?thesis by (auto simp: equalASCIIName_def eq_from_iff list_eq_iff_nth_eq)
next
  case False
  then have "map foldCase x \<noteq> map foldCase y" by (metis length_map)
  then show ?thesis using False by (simp add: equalASCIIName_def)
qed

lemma foldCase_idem: "foldCase (foldCase c) = foldCase c"
proof (cases "97 \<le> c \<and> c \<le> 122")
  case True
  then have "c - 97 + 65 < 97" by unat_arith
  then show ?thesis using True by (auto simp: foldCase_def dest: leD)
qed (auto simp: foldCase_def)

section \<open>Datagrams\<close>

text \<open>A datagram that the query accepts, and one that it passes over.\<close>

definition accepts :: "'b dns_lib \<Rightarrow> nat \<Rightarrow> question \<Rightarrow> bytes \<Rightarrow> dns_msg \<Rightarrow> bool" where
  "accepts L qid q dg msg \<longleftrightarrow>
     UnpackMsg L (take maxUDPMessageSize dg) = Inr msg
     \<and> checkResponse qid q (m_hdr msg) (m_questions msg) = None"

definition bogus :: "'b dns_lib \<Rightarrow> nat \<Rightarrow> question \<Rightarrow> bytes \<Rightarrow> bool" where
  "bogus L qid q dg \<longleftrightarrow> (\<forall>msg. \<not> accepts L qid q dg msg)"

lemma checkResponse_None:
  "checkResponse qid q h qs = None \<longleftrightarrow>
   h_response h \<and> h_id h = qid
   \<and> (\<exists>r rs. qs = r # rs \<and> qtype r = qtype q \<and> qclass r = qclass q
        \<and> map foldCase (qname r) = map foldCase (qname q))"
  by (auto simp: checkResponse_def equalASCIIName_iff split: list.splits if_splits)

lemma datagram_loop_skip:
  "bogus L qid q dg \<Longrightarrow> \<exists>r'. datagram_loop L qid q ((dg, None) # rest) r = datagram_loop L qid q rest r'"
  by (auto simp: bogus_def accepts_def Let_def split: sum.splits option.splits)

lemma datagram_loop_skips:
  "\<forall>dg \<in> set bad. bogus L qid q dg \<Longrightarrow>
   \<exists>r'. datagram_loop L qid q (map (\<lambda>d. (d, None)) bad @ rest) r = datagram_loop L qid q rest r'"
proof (induction bad arbitrary: r)
  case Nil
  then show ?case by auto
next
  case (Cons d bad)
  obtain r1 where "datagram_loop L qid q ((d, None) # map (\<lambda>d. (d, None)) bad @ rest) r
      = datagram_loop L qid q (map (\<lambda>d. (d, None)) bad @ rest) r1"
    using datagram_loop_skip [of L qid q d] Cons.prems by fastforce
  then show ?case using Cons.IH [of r1] Cons.prems by auto
qed

text \<open>
  Datagrams that do not parse or do not answer the question (forged ones, for instance) do not
  disturb a query: it returns the first one that does, however many of the others come before.
\<close>

theorem query_ignores_bogus:
  assumes "\<forall>dg \<in> set bad. bogus L qid q dg" and "accepts L qid q dg msg"
    and "appendRequest L qid q [] = Inr req" and "healthy s"
  shows "queryDatagram L qid sink_write s (map (\<lambda>d. (d, None)) bad @ (dg, None) # rest) q
     = (s\<lparr>sent := sent s @ [req]\<rparr>, Some (Inr msg))"
proof -
  obtain r where "datagram_loop L qid q (map (\<lambda>d. (d, None)) bad @ (dg, None) # rest) None
      = datagram_loop L qid q ((dg, None) # rest) r"
    using datagram_loop_skips [OF assms(1)] by blast
  then have "datagram_loop L qid q (map (\<lambda>d. (d, None)) bad @ (dg, None) # rest) None = Some (Inr msg)"
    using assms(2) by (simp add: accepts_def)
  then show ?thesis using assms(3,4) by (simp add: queryDatagram_def)
qed

lemma datagram_loop_Cons:
  "datagram_loop L qid q ((dg, e0) # rest) r = Some (Inr msg) \<Longrightarrow>
   accepts L qid q dg msg \<or> (\<exists>r'. datagram_loop L qid q rest r' = Some (Inr msg))"
  by (cases "UnpackMsg L (take maxUDPMessageSize dg)")
    (auto simp: Let_def accepts_def split: option.splits if_splits)

lemma datagram_loop_sound:
  "datagram_loop L qid q reads r = Some (Inr msg) \<Longrightarrow>
   \<exists>dg e. (dg, e) \<in> set reads \<and> accepts L qid q dg msg"
proof (induction reads arbitrary: r)
  case (Cons x rest)
  obtain dg e where x: "x = (dg, e)" by fastforce
  show ?case using datagram_loop_Cons [OF Cons.prems [unfolded x]] Cons.IH x by fastforce
qed simp

text \<open>
  C38: a datagram query returns a message only if a datagram received in it carries the response bit,
  the id of this request and the question of this request.
\<close>

theorem query_answers_match:
  assumes "queryDatagram L qid wr s reads q = (s', Some (Inr msg))"
  shows "\<exists>dg e r rs. (dg, e) \<in> set reads \<and> UnpackMsg L (take maxUDPMessageSize dg) = Inr msg
     \<and> h_response (m_hdr msg) \<and> h_id (m_hdr msg) = qid \<and> m_questions msg = r # rs
     \<and> qtype r = qtype q \<and> qclass r = qclass q \<and> map foldCase (qname r) = map foldCase (qname q)"
proof -
  have "datagram_loop L qid q reads None = Some (Inr msg)"
    using assms by (auto simp: queryDatagram_def split: sum.splits option.splits prod.splits)
  then obtain dg e where "(dg, e) \<in> set reads" "accepts L qid q dg msg"
    using datagram_loop_sound by blast
  then show ?thesis unfolding accepts_def checkResponse_None by blast
qed

text \<open>Every error of a query is of a class that \<^verbatim>\<open>errors.Is\<close> finds.\<close>

lemma datagram_loop_error: "datagram_loop L qid q reads r = Some (Inl e) \<Longrightarrow> errors_is e ErrReceive"
  by (induction L qid q reads r rule: datagram_loop.induct)
    (auto simp: Let_def split: if_splits option.splits sum.splits)

section \<open>Streams\<close>

text \<open>
  A stream query makes one write, the request after its length; it reads the answer of the length
  announced, leaves the rest of the stream, and closes the connection.
\<close>

theorem stream_query_exchange:
  assumes req: "appendRequest L qid q [0, 0] = Inr ([0, 0] @ req)" "length req \<le> 65533"
    and "healthy (c_out c)" "clean (c_in c)" "src_bytes (c_in c) = put_u16 (length resp) @ resp @ rest"
    and "length resp \<le> 65535"
    and msg: "UnpackMsg L resp = Inr msg" "checkResponse qid q (m_hdr msg) (m_questions msg) = None"
  shows "\<exists>c'. stream_query L qid sink_write (Inr c) q = (Some c', Inr msg) \<and> c_closed c'
     \<and> sent (c_out c') = sent (c_out c) @ [put_u16 (length req) @ req] \<and> src_bytes (c_in c') = rest"
proof -
  have rf: "\<exists>s'. clean s' \<and> src_bytes s' = z \<and> read_full s (length m) = (s', m, None)"
    if "clean s" "src_bytes s = m @ z" for s m z
    using read_full_clean_eq [OF that(1), of "length m"] that(2) by auto
  obtain s1 where s1: "clean s1" "src_bytes s1 = resp @ rest"
    "read_full (c_in c) 2 = (s1, put_u16 (length resp), None)"
    using rf [OF assms(4,5)] by auto
  obtain s2 where s2: "src_bytes s2 = rest" "read_full s1 (length resp) = (s2, resp, None)"
    using rf [OF s1(1,2)] by auto
  have a: "stream_answer L qid q (c_in c) = (s2, Inr msg)"
    using s1(3) s2(2) assms(6) msg by (simp add: stream_answer_def)
  have b: "blit 0 (put_u16 (length req)) ([0, 0] @ req) = put_u16 (length req) @ req"
    by (simp add: blit_def)
  show ?thesis using req b a assms(3) s2(1)
    by (simp add: stream_query_def queryStream_def sc_close_def Let_def)
qed

text \<open>Whatever happens to a stream query, its connection is closed.\<close>

theorem stream_query_closes: "\<exists>c'. fst (stream_query L qid wr (Inr c) q) = Some c' \<and> c_closed c'"
  by (auto simp: stream_query_def sc_close_def split: prod.splits)

section \<open>Resolver addresses and questions\<close>

text \<open>
  \<^verbatim>\<open>ensurePort\<close> gives a host (a name or a bare IP) its default port and leaves an address with a
  port as it is; the result always splits into host and port.
\<close>

theorem ensurePort_spec:
  assumes "CHR ''['' \<notin> set h" "CHR '']'' \<notin> set h" "p \<noteq> []" "CHR '':'' \<notin> set p" "CHR ''['' \<notin> set p"
    "CHR '']'' \<notin> set p"
  shows "ensurePort (join_host_port h p) d = join_host_port h p
    \<and> ((\<exists>e. split_host_port h = Inl e) \<longrightarrow> split_host_port (ensurePort h p) = Inr (h, p))"
  using split_join_host_port [OF assms(1,2,4-6)] assms(3) by (auto simp: ensurePort_def)

text \<open>
  An IPv6 literal in brackets without a port does not get one: it is put in brackets again and
  the address that results does not split.
\<close>

theorem ensurePort_brackets:
  "ensurePort ''[::1]'' ''53'' = ''[[::1]]:53'' \<and> (\<exists>e. split_host_port (ensurePort ''[::1]'' ''53'') = Inl e)"
  by (simp add: ensurePort_def split_host_port_def last_index_def join_host_port_def addr_err_def Let_def)

lemma NewQuestion_qualified:
  "NewQuestion L (d @ ''.'') t = NewQuestion L d t" if "d = [] \<or> last d \<noteq> CHR ''.''"
  using that by (auto simp: NewQuestion_def Let_def)

lemma resolve_answers_in:
  "ip \<in> set (resolve_answers t as) \<Longrightarrow>
   \<exists>a. a \<in> set as \<and> rr_type a = t \<and> (rr_body a = ABody ip \<or> rr_body a = AAAABody ip)"
proof (induction as)
  case (Cons a as)
  then show ?case by (cases "rr_body a") (auto simp: resolve_answers_def split: if_splits)
qed (simp add: resolve_answers_def)

text \<open>A lookup returns exactly the addresses of the answers of the type asked for, in order.\<close>

theorem resolveIP_types:
  assumes "resolveIP L query rrType host = Inr ips" and "ip \<in> set ips"
  shows "\<exists>q r a. NewQuestion L host rrType = Inr q \<and> query q = Inr r \<and> h_rcode (m_hdr r) = 0
     \<and> a \<in> set (m_answers r) \<and> rr_type a = rrType \<and> (rr_body a = ABody ip \<or> rr_body a = AAAABody ip)"
proof -
  obtain q r where q: "NewQuestion L host rrType = Inr q" "query q = Inr r" "h_rcode (m_hdr r) = 0"
    "ips = resolve_answers rrType (m_answers r)"
    using assms(1) by (auto simp: resolveIP_def split: sum.splits if_splits)
  then show ?thesis using resolve_answers_in assms(2) by blast
qed

section \<open>Witnesses\<close>

text \<open>A toy codec: the id, a byte that is 1 in answers, and the name.\<close>

definition demo_lib :: "bytes dns_lib" where
  "demo_lib =
     \<lparr>NewBuilder = (\<lambda>buf qid _. buf @ put_u16 qid @ [0]), StartQuestions = Inr,
      AddQuestion = (\<lambda>q b. Inr (b @ qname q)), StartAdditionals = Inr, SetEDNS0 = (\<lambda>_. None),
      OPTResource = (\<lambda>_. Inr), Finish = Inr,
      UnpackMsg = (\<lambda>b. if length b < 3 then Inl (ErrNew ''short'')
        else Inr \<lparr>m_hdr = \<lparr>h_id = get_u16 b, h_response = b ! 2 = 1, h_rcode = 0\<rparr>,
                  m_questions = [\<lparr>qname = drop 3 b, qtype = 1, qclass = 1\<rparr>],
                  m_answers = [\<lparr>rr_name = [97, 46], rr_type = 1, rr_body = ABody [9, 9, 9, 9]\<rparr>, \<lparr>rr_name = [97, 46], rr_type = 5, rr_body = OtherBody\<rparr>], m_authorities = []\<rparr>),
      NewName = (\<lambda>n. Inr (str_bytes n))\<rparr>"

definition demo_question :: question where
  "demo_question = \<lparr>qname = [97], qtype = 1, qclass = 1\<rparr>"

definition demo_answer :: dns_msg where
  "demo_answer =
     \<lparr>m_hdr = \<lparr>h_id = 7, h_response = True, h_rcode = 0\<rparr>,
      m_questions = [\<lparr>qname = [65], qtype = 1, qclass = 1\<rparr>],
      m_answers = [\<lparr>rr_name = [97, 46], rr_type = 1, rr_body = ABody [9, 9, 9, 9]\<rparr>, \<lparr>rr_name = [97, 46], rr_type = 5, rr_body = OtherBody\<rparr>], m_authorities = []\<rparr>"

lemma demo_accepts: "accepts demo_lib 7 demo_question [0, 7, 1, 65] demo_answer"
  by (simp add: accepts_def demo_lib_def demo_question_def demo_answer_def checkResponse_None foldCase_def)

lemma demo_bogus: "bogus demo_lib 7 demo_question [0, 8, 1, 65]"
  by (simp add: bogus_def accepts_def demo_lib_def demo_question_def checkResponse_None)

lemma query_ignores_bogus_witness:
  "queryDatagram demo_lib 7 sink_write fresh_sink
     (map (\<lambda>d. (d, None)) [[0, 8, 1, 65]] @ ([0, 7, 1, 65], None) # []) demo_question
     = (fresh_sink\<lparr>sent := sent fresh_sink @ [[0, 7, 0, 97]]\<rparr>, Some (Inr demo_answer))"
  by (rule query_ignores_bogus)
    (simp_all add: demo_accepts demo_bogus appendRequest_def, simp add: demo_lib_def demo_question_def put_u16_def)

lemma query_answers_match_witness:
  "\<exists>dg e. (dg, e) \<in> set [([0, 7, 1, 65], None :: err option)]
     \<and> UnpackMsg demo_lib (take maxUDPMessageSize dg) = Inr demo_answer \<and> h_id (m_hdr demo_answer) = 7"
proof -
  have "queryDatagram demo_lib 7 sink_write fresh_sink [([0, 7, 1, 65], None)] demo_question
     = (fresh_sink\<lparr>sent := sent fresh_sink @ [[0, 7, 0, 97]]\<rparr>, Some (Inr demo_answer))"
    by (simp add: queryDatagram_def appendRequest_def demo_lib_def demo_question_def put_u16_def
        demo_answer_def checkResponse_def equalASCIIName_iff foldCase_def)
  from query_answers_match [OF this] show ?thesis by blast
qed

lemma stream_query_exchange_witness:
  "\<exists>c'. stream_query demo_lib 7 sink_write
        (Inr \<lparr>c_out = fresh_sink, c_in = bytes_reader (put_u16 4 @ [0, 7, 1, 65] @ [1]), c_closed = False\<rparr>)
        demo_question = (Some c', Inr demo_answer) \<and> c_closed c'
     \<and> sent (c_out c') = [[0, 4, 0, 7, 0, 97]] \<and> src_bytes (c_in c') = [1]"
proof -
  have r: "appendRequest demo_lib 7 demo_question [0, 0] = Inr ([0, 0] @ [0, 7, 0, 97])"
    by (simp add: appendRequest_def demo_lib_def demo_question_def put_u16_def)
  let ?c = "\<lparr>c_out = fresh_sink, c_in = bytes_reader (put_u16 4 @ [0, 7, 1, 65] @ [1]), c_closed = False\<rparr>"
  have "UnpackMsg demo_lib [0, 7, 1, 65] = Inr demo_answer"
    "checkResponse 7 demo_question (m_hdr demo_answer) (m_questions demo_answer) = None"
    using demo_accepts by (simp_all add: accepts_def)
  from stream_query_exchange [OF r _ _ _ _ _ this, of ?c "[1]"]
  show ?thesis by (simp add: put_u16_def fresh_sink_def healthy_def)
qed

lemma ensurePort_spec_witness:
  "ensurePort (join_host_port ''a.b'' ''53'') ''853'' = ''a.b:53''
     \<and> split_host_port (ensurePort ''a.b'' ''53'') = Inr (''a.b'', ''53'')"
  using ensurePort_spec [of "''a.b''" "''53''" "''853''"]
  by (simp add: join_host_port_def split_host_port_def last_index_def addr_err_def)

lemma resolveIP_types_witness:
  "resolveIP demo_lib (\<lambda>_. Inr demo_answer) 1 ''h'' = Inr [[9, 9, 9, 9]]
     \<and> (\<exists>a. a \<in> set (m_answers demo_answer) \<and> rr_type a = 1
           \<and> (rr_body a = ABody [9, 9, 9, 9] \<or> rr_body a = AAAABody [9, 9, 9, 9]))"
proof -
  have r: "resolveIP demo_lib (\<lambda>_. Inr demo_answer) 1 ''h'' = Inr [[9, 9, 9, 9]]"
    by (simp add: resolveIP_def NewQuestion_def demo_lib_def demo_answer_def resolve_answers_def)
  from resolveIP_types [OF r, of "[9, 9, 9, 9]"] show ?thesis using r by auto
qed

end
