(* ===== verification/PacketRelay.thy ===== *)
theory PacketRelay
  imports GoNet
begin

text \<open>
  The interface of \<^verbatim>\<open>network/packetrelay/packet_relay.go\<close>: what a client may rely on of a
  \<^verbatim>\<open>PacketSender\<close>, whichever relay made it, and the addresses of packets. The relays of the other
  theories interpret the locale on their own senders.
\<close>

section \<open>Addresses\<close>

record addr_port =
  ap_ip :: bytes
  ap_zone :: string
  ap_port :: nat

text \<open>\<^verbatim>\<open>netip.Addr.Unmap\<close>: an IPv4-mapped IPv6 address becomes the IPv4 address, without a zone.\<close>

definition unmap :: "addr_port \<Rightarrow> bytes \<times> string" where
  "unmap a = (if length (ap_ip a) = 16 \<and> take 12 (ap_ip a) = v4_prefix
              then (drop 12 (ap_ip a), []) else (ap_ip a, ap_zone a))"

section \<open>Senders\<close>

definition ErrClosed :: err where
  "ErrClosed = ErrNew ''packet relay already closed''"

text \<open>\<^verbatim>\<open>ErrClosed\<close> of package \<^verbatim>\<open>network\<close>.\<close>

definition ErrDeviceClosed :: err where "ErrDeviceClosed = ErrNew ''network device already closed''"

definition ErrPortUnreachable :: err where
  "ErrPortUnreachable = ErrNew ''port is not reachable''"

text \<open>
  The contract: \<^verbatim>\<open>Close\<close> closes; on a closed sender \<^verbatim>\<open>SendPacket\<close> and \<^verbatim>\<open>Close\<close> change nothing and
  return \<^verbatim>\<open>ErrClosed\<close>; only closing closes, as far as the calls of the client go.
\<close>

locale packet_sender =
  fixes snd_packet :: "'s \<Rightarrow> bytes \<Rightarrow> addr_port \<Rightarrow> 's \<times> err option"
    and snd_close :: "'s \<Rightarrow> 's \<times> err option" and closed :: "'s \<Rightarrow> bool"
  assumes closed_send: "closed s \<Longrightarrow> snd_packet s p d = (s, Some ErrClosed)"
    and closed_close: "closed s \<Longrightarrow> snd_close s = (s, Some ErrClosed)"
    and close_closes: "closed (fst (snd_close s))"
    and send_open: "\<not> closed s \<Longrightarrow> \<not> closed (fst (snd_packet s p d))"

text \<open>A client that sends a list of packets, whatever the errors; the errors are collected.\<close>

fun send_each ::
  "('s \<Rightarrow> bytes \<Rightarrow> addr_port \<Rightarrow> 's \<times> err option) \<Rightarrow> 's \<Rightarrow> (bytes \<times> addr_port) list \<Rightarrow> 's \<times> err option list" where
  "send_each f s [] = (s, [])"
| "send_each f s ((p, d) # r) = (case f s p d of (s', e) \<Rightarrow> case send_each f s' r of (s'', es) \<Rightarrow> (s'', e # es))"

context packet_sender
begin

lemma send_each_closed: "closed s \<Longrightarrow> send_each snd_packet s ps = (s, replicate (length ps) (Some ErrClosed))"
  by (induction ps) (auto simp: closed_send)

text \<open>After \<^verbatim>\<open>Close\<close> no packet goes through and no second \<^verbatim>\<open>Close\<close> does anything.\<close>

lemma after_close:
  "send_each snd_packet (fst (snd_close s)) ps = (fst (snd_close s), replicate (length ps) (Some ErrClosed))
   \<and> snd_close (fst (snd_close s)) = (fst (snd_close s), Some ErrClosed)"
  by (simp add: send_each_closed closed_close close_closes)

lemma send_each_open: "\<not> closed s \<Longrightarrow> \<not> closed (fst (send_each snd_packet s ps))"
proof (induction ps arbitrary: s)
  case (Cons x ps)
  obtain p d where x: "x = (p, d)" by fastforce
  obtain s' e where f: "snd_packet s p d = (s', e)" by fastforce
  obtain s'' es where r: "send_each snd_packet s' ps = (s'', es)" by fastforce
  have "\<not> closed s'" using send_open [OF Cons.prems, of p d] f by simp
  then have "\<not> closed s''" using Cons.IH [of s'] r by simp
  then show ?case by (simp add: x f r)
qed simp

end

end
