(* ===== verification/DnsIntercept.thy ===== *)
theory DnsIntercept
  imports PacketRelay
begin

text \<open>
  The DNS interceptor of \<^verbatim>\<open>network/dnsintercept/packet_relay.go\<close>. An association counts its live
  sub-associations and closes itself with the last one, while goroutines for queries, for the default
  relay and for the receiver run concurrently. The critical sections of the mutex are the steps of a
  transition relation, and so are the calls on the inner relays, which may succeed or fail; the
  lemmas are the invariants of every interleaving.
\<close>

section \<open>Routing\<close>

definition isSameAddrPort :: "addr_port \<Rightarrow> addr_port \<Rightarrow> bool" where
  "isSameAddrPort a b \<longleftrightarrow> unmap a = unmap b \<and> ap_port a = ap_port b"

record intercept_relay =
  dnsLocalResolver :: addr_port
  dnsRemoteResolver :: addr_port

datatype route = ToDns bytes addr_port | ToDefault bytes addr_port

text \<open>Where \<^verbatim>\<open>SendPacket\<close> sends a packet, and with which destination.\<close>

definition intercept_route :: "intercept_relay \<Rightarrow> bytes \<Rightarrow> addr_port \<Rightarrow> route" where
  "intercept_route r p destination =
     (if isSameAddrPort destination (dnsLocalResolver r) then ToDns p (dnsRemoteResolver r)
      else ToDefault p destination)"

section \<open>The association\<close>

text \<open>
  The program counter of the goroutine of one DNS query: \<open>DCounted\<close> waits for \<^verbatim>\<open>NewAssociation\<close>,
  \<open>DOpened\<close> has a sender that is not in the map yet, \<open>DRegistered\<close> is sending, \<open>DReceiving h\<close> receives
  (\<open>h\<close> is \<^verbatim>\<open>handled\<close>), then the sender is removed, closed, and the count released. The sender of the
  query \<open>i\<close> is \<open>i\<close>.
\<close>

datatype dns_phase =
    DCounted | DOpened | DRegistered | DReceiving bool | DRemoving | DClosing | DReleasing | DDone

datatype def_state = Idle | Initializing | Initialized

text \<open>
  The call of \<^verbatim>\<open>NewAssociation\<close> for the default relay, which is made without the mutex: it runs (\<open>DefCalling\<close>), and has
  returned an association or an error that the caller has not looked at yet.
\<close>

datatype def_call = DefNone | DefCalling | DefGot | DefFailed

text \<open>The program counter of \<^verbatim>\<open>ReceivePackets\<close>.\<close>

datatype recv_phase = RNone | RWait | RDefault | RRelease | RWaitClose | RDone

record intercept_assoc =
  isClosed :: bool
  activeCount :: int
  defState :: def_state
  defCall :: def_call
  defOpened :: bool
  defSender :: bool
  defSenderClosed :: bool
  defInitErr :: bool
  defReceiverChan :: bool
  dnsSenders :: "nat set"
  closeChan :: nat
  handlerReady :: nat
  queries :: "dns_phase list"
  opened :: "nat set"
  senderClosed :: "nat set"
  delivered :: "(nat \<times> bytes \<times> addr_port) list"
  receiving :: recv_phase

text \<open>
  \<open>closeChan\<close> and \<open>handlerReady\<close> count how often the channel was closed; a second close panics. \<open>defOpened\<close> records that the
  default relay has given an association, whatever became of it.
\<close>

definition new_intercept_assoc :: intercept_assoc where
  "new_intercept_assoc =
     \<lparr>isClosed = False, activeCount = 0, defState = Idle, defCall = DefNone, defOpened = False,
      defSender = False, defSenderClosed = False,
      defInitErr = False, defReceiverChan = False, dnsSenders = {}, closeChan = 0, handlerReady = 0,
      queries = [], opened = {}, senderClosed = {}, delivered = [], receiving = RNone\<rparr>"

definition closeLocked :: "intercept_assoc \<Rightarrow> intercept_assoc" where
  "closeLocked a =
     a\<lparr>isClosed := True, closeChan := Suc (closeChan a),
       defSenderClosed := defSenderClosed a \<or> defSender a,
       senderClosed := senderClosed a \<union> dnsSenders a\<rparr>"

definition Release :: "intercept_assoc \<Rightarrow> intercept_assoc" where
  "Release a =
     (let b = a\<lparr>activeCount := activeCount a - 1\<rparr> in
      if activeCount b = 0 \<and> \<not> isClosed b then closeLocked b else b)"

definition Close_assoc :: "intercept_assoc \<Rightarrow> intercept_assoc \<times> err option" where
  "Close_assoc a = (if isClosed a then (a, Some ErrClosed) else (closeLocked a, None))"

abbreviation set_query :: "nat \<Rightarrow> dns_phase \<Rightarrow> intercept_assoc \<Rightarrow> intercept_assoc" where
  "set_query i x a \<equiv> a\<lparr>queries := (queries a)[i := x]\<rparr>"

abbreviation at_phase :: "intercept_assoc \<Rightarrow> nat \<Rightarrow> dns_phase \<Rightarrow> bool" where
  "at_phase a i x \<equiv> i < length (queries a) \<and> queries a ! i = x"

text \<open>The steps of \<^verbatim>\<open>handleDNSQuery\<close>, of its goroutine and of the packet handler.\<close>

inductive dns_step :: "intercept_relay \<Rightarrow> intercept_assoc \<Rightarrow> intercept_assoc \<Rightarrow> bool" for r where
  dns_start:
    "\<not> isClosed a \<Longrightarrow>
     dns_step r a (a\<lparr>activeCount := activeCount a + 1, queries := queries a @ [DCounted]\<rparr>)"
| dns_assoc_err: "at_phase a i DCounted \<Longrightarrow> dns_step r a (set_query i DReleasing a)"
| dns_assoc_ok:
    "at_phase a i DCounted \<Longrightarrow> dns_step r a (set_query i DOpened (a\<lparr>opened := insert i (opened a)\<rparr>))"
| dns_register:
    "at_phase a i DOpened \<Longrightarrow> \<not> isClosed a \<Longrightarrow>
     dns_step r a (set_query i DRegistered (a\<lparr>dnsSenders := insert i (dnsSenders a)\<rparr>))"
| dns_too_late: "at_phase a i DOpened \<Longrightarrow> isClosed a \<Longrightarrow> dns_step r a (set_query i DClosing a)"
| dns_send_err: "at_phase a i DRegistered \<Longrightarrow> dns_step r a (set_query i DRemoving a)"
| dns_send_ok: "at_phase a i DRegistered \<Longrightarrow> dns_step r a (set_query i (DReceiving False) a)"
| dns_response:
    "at_phase a i (DReceiving False) \<Longrightarrow> 0 < handlerReady a \<Longrightarrow>
     dns_step r a (set_query i (DReceiving True)
       (a\<lparr>delivered := delivered a @ [(i, p, dnsLocalResolver r)],
          senderClosed := insert i (senderClosed a)\<rparr>))"
| dns_response_closed:
    "at_phase a i (DReceiving False) \<Longrightarrow> isClosed a \<Longrightarrow> dns_step r a (set_query i (DReceiving True) a)"
| dns_receive_end: "at_phase a i (DReceiving h) \<Longrightarrow> dns_step r a (set_query i DRemoving a)"
| dns_remove:
    "at_phase a i DRemoving \<Longrightarrow>
     dns_step r a (set_query i DClosing (a\<lparr>dnsSenders := dnsSenders a - {i}\<rparr>))"
| dns_close:
    "at_phase a i DClosing \<Longrightarrow>
     dns_step r a (set_query i DReleasing (a\<lparr>senderClosed := insert i (senderClosed a)\<rparr>))"
| dns_release: "at_phase a i DReleasing \<Longrightarrow> dns_step r a (Release (set_query i DDone a))"

text \<open>
  The steps of \<^verbatim>\<open>getOrCreateDefaultSender\<close>: one goroutine starts the creation, its call returns, and under the mutex it
  stores the sender, or closes it if the association was closed meanwhile. The goroutines that wait or find the state
  initialized change nothing.
\<close>

inductive def_step :: "intercept_assoc \<Rightarrow> intercept_assoc \<Rightarrow> bool" where
  def_begin:
    "\<not> isClosed a \<Longrightarrow> defState a = Idle \<Longrightarrow> def_step a (a\<lparr>defState := Initializing, defCall := DefCalling\<rparr>)"
| def_open: "defCall a = DefCalling \<Longrightarrow> def_step a (a\<lparr>defCall := DefGot, defOpened := True\<rparr>)"
| def_fail: "defCall a = DefCalling \<Longrightarrow> def_step a (a\<lparr>defCall := DefFailed\<rparr>)"
| def_ok:
    "defCall a = DefGot \<Longrightarrow> \<not> isClosed a \<Longrightarrow>
     def_step a (a\<lparr>defState := Initialized, defCall := DefNone, defSender := True, activeCount := activeCount a + 1,
                   defReceiverChan := True\<rparr>)"
| def_err:
    "defCall a = DefFailed \<Longrightarrow> \<not> isClosed a \<Longrightarrow>
     def_step a (a\<lparr>defState := Initialized, defCall := DefNone, defInitErr := True\<rparr>)"
| def_too_late:
    "defCall a = DefGot \<Longrightarrow> isClosed a \<Longrightarrow>
     def_step a (a\<lparr>defState := Initialized, defCall := DefNone, defInitErr := True, defSenderClosed := True\<rparr>)"
| def_too_late_err:
    "defCall a = DefFailed \<Longrightarrow> isClosed a \<Longrightarrow>
     def_step a (a\<lparr>defState := Initialized, defCall := DefNone, defInitErr := True\<rparr>)"

text \<open>The steps of \<^verbatim>\<open>ReceivePackets\<close>, and \<^verbatim>\<open>Close\<close> by the user.\<close>

inductive recv_step :: "intercept_assoc \<Rightarrow> intercept_assoc \<Rightarrow> bool" where
  recv_start:
    "\<not> isClosed a \<Longrightarrow> receiving a = RNone \<Longrightarrow>
     recv_step a (a\<lparr>receiving := RWait, handlerReady := Suc (handlerReady a)\<rparr>)"
| recv_default:
    "receiving a = RWait \<Longrightarrow> defReceiverChan a \<Longrightarrow>
     recv_step a (a\<lparr>receiving := RDefault, defReceiverChan := False\<rparr>)"
| recv_closed: "receiving a = RWait \<Longrightarrow> isClosed a \<Longrightarrow> recv_step a (a\<lparr>receiving := RDone\<rparr>)"
| recv_default_end: "receiving a = RDefault \<Longrightarrow> recv_step a (a\<lparr>receiving := RRelease\<rparr>)"
| recv_release: "receiving a = RRelease \<Longrightarrow> recv_step a (Release (a\<lparr>receiving := RWaitClose\<rparr>))"
| recv_end: "receiving a = RWaitClose \<Longrightarrow> isClosed a \<Longrightarrow> recv_step a (a\<lparr>receiving := RDone\<rparr>)"
| user_close: "recv_step a (fst (Close_assoc a))"

definition intercept_step :: "intercept_relay \<Rightarrow> intercept_assoc \<Rightarrow> intercept_assoc \<Rightarrow> bool" where
  "intercept_step r a b \<longleftrightarrow> dns_step r a b \<or> def_step a b \<or> recv_step a b"

inductive intercept_reach :: "intercept_relay \<Rightarrow> intercept_assoc \<Rightarrow> bool" for r where
  intercept_init: "intercept_reach r new_intercept_assoc"
| intercept_next: "intercept_reach r a \<Longrightarrow> intercept_step r a b \<Longrightarrow> intercept_reach r b"

inductive_cases dns_stepE: "dns_step r a b"
inductive_cases def_stepE: "def_step a b"
inductive_cases recv_stepE: "recv_step a b"

section \<open>The invariant\<close>

fun counted :: "dns_phase \<Rightarrow> bool" where
  "counted DDone = False"
| "counted _ = True"

fun in_map :: "dns_phase \<Rightarrow> bool" where
  "in_map DRegistered = True"
| "in_map (DReceiving _) = True"
| "in_map DRemoving = True"
| "in_map _ = False"

fun is_released :: "dns_phase \<Rightarrow> bool" where
  "is_released DReleasing = True"
| "is_released DDone = True"
| "is_released _ = False"

definition live_queries :: "intercept_assoc \<Rightarrow> nat" where
  "live_queries a = length (filter counted (queries a))"

definition def_live :: "intercept_assoc \<Rightarrow> nat" where
  "def_live a = (if defReceiverChan a \<or> receiving a = RDefault \<or> receiving a = RRelease then 1 else 0)"

definition intercept_count :: "intercept_assoc \<Rightarrow> bool" where
  "intercept_count a \<longleftrightarrow>
     activeCount a = int (live_queries a + def_live a)
     \<and> closeChan a = (if isClosed a then 1 else 0)
     \<and> handlerReady a = (if receiving a = RNone then 0 else 1)
     \<and> (defReceiverChan a \<longrightarrow> defState a = Initialized \<and> receiving a \<notin> {RDefault, RRelease, RWaitClose})
     \<and> (receiving a \<in> {RDefault, RRelease, RWaitClose} \<longrightarrow> defState a = Initialized)
     \<and> (defState a \<noteq> Initialized \<longrightarrow> \<not> defSender a)
     \<and> (isClosed a \<or> (DDone \<notin> set (queries a) \<and> receiving a \<noteq> RWaitClose) \<or> 0 < activeCount a)"

text \<open>
  One query: its phase, whether its sender is in the map, whether it was opened, whether it is closed.
\<close>

definition query_ok :: "bool \<Rightarrow> dns_phase \<Rightarrow> bool \<Rightarrow> bool \<Rightarrow> bool \<Rightarrow> bool" where
  "query_ok cl ph registered op sc \<longleftrightarrow>
     registered = in_map ph \<and> (cl \<and> registered \<longrightarrow> sc) \<and> (op \<longrightarrow> ph \<noteq> DCounted \<and> (is_released ph \<longrightarrow> sc))"

definition intercept_subs :: "intercept_assoc \<Rightarrow> bool" where
  "intercept_subs a \<longleftrightarrow>
     (\<forall>i < length (queries a).
        query_ok (isClosed a) (queries a ! i) (i \<in> dnsSenders a) (i \<in> opened a) (i \<in> senderClosed a))
     \<and> (\<forall>i \<in> dnsSenders a \<union> opened a. i < length (queries a))
     \<and> (isClosed a \<and> defSender a \<longrightarrow> defSenderClosed a)"

text \<open>The creation of the default association, and what became of the association that the relay gave.\<close>

definition intercept_default :: "intercept_assoc \<Rightarrow> bool" where
  "intercept_default a \<longleftrightarrow>
     (defState a = Initializing) = (defCall a \<noteq> DefNone)
     \<and> (defOpened a \<longrightarrow> defCall a = DefGot \<or> defSender a \<or> defSenderClosed a)
     \<and> (defState a = Idle \<or> defCall a \<in> {DefCalling, DefFailed} \<longrightarrow> \<not> defOpened a)
     \<and> (defSenderClosed a \<longrightarrow> isClosed a)"

fun answered :: "dns_phase \<Rightarrow> bool" where
  "answered (DReceiving h) = h"
| "answered DRemoving = True"
| "answered DClosing = True"
| "answered DReleasing = True"
| "answered DDone = True"
| "answered _ = False"

definition intercept_once :: "intercept_relay \<Rightarrow> intercept_assoc \<Rightarrow> bool" where
  "intercept_once r a \<longleftrightarrow>
     distinct (map fst (delivered a))
     \<and> (\<forall>(i, p, src) \<in> set (delivered a). i < length (queries a) \<and> src = dnsLocalResolver r
          \<and> answered (queries a ! i))"

lemma live_queries_set:
  "i < length (queries a) \<Longrightarrow> live_queries (set_query i x a) + (if counted (queries a ! i) then 1 else 0)
     = live_queries a + (if counted x then 1 else 0)"
  unfolding live_queries_def by (simp add: length_filter_update)

lemma def_live_set [simp]: "def_live (a\<lparr>queries := q\<rparr>) = def_live a"
  by (simp add: def_live_def)

lemma set_list_update_DDone:
  "x \<noteq> DDone \<Longrightarrow> DDone \<notin> set q \<Longrightarrow> DDone \<notin> set (q[i := x])"
  by (metis insertE set_update_subset_insert subsetD)

text \<open>A step that moves a counted query to another counted phase and keeps the rest of the counters.\<close>

lemma count_move:
  assumes "intercept_count a" and q: "queries b = (queries a)[i := x]"
    and "i < length (queries a)" "counted (queries a ! i)" "counted x"
    and b: "isClosed b = isClosed a" "activeCount b = activeCount a" "closeChan b = closeChan a"
      "handlerReady b = handlerReady a" "receiving b = receiving a" "defReceiverChan b = defReceiverChan a"
      "defState b = defState a" "defSender b = defSender a"
  shows "intercept_count b"
proof -
  have "live_queries b = live_queries a"
    using length_filter_update [OF assms(3), of counted x] assms(4,5) q by (simp add: live_queries_def)
  moreover have "def_live b = def_live a" using b by (simp add: def_live_def)
  moreover have "DDone \<notin> set (queries a) \<Longrightarrow> DDone \<notin> set (queries b)"
  proof -
    have "x \<noteq> DDone" using assms(5) by auto
    then show "DDone \<notin> set (queries a) \<Longrightarrow> DDone \<notin> set (queries b)"
      using set_list_update_DDone q by simp
  qed
  ultimately show ?thesis using assms(1) b by (auto simp: intercept_count_def)
qed

text \<open>Releasing one reference, where the count is one more than the live subs.\<close>

lemma count_release:
  assumes "activeCount a = int (live_queries a + def_live a) + 1"
    and "closeChan a = (if isClosed a then 1 else 0)"
    and "handlerReady a = (if receiving a = RNone then 0 else 1)"
    and "defReceiverChan a \<longrightarrow> defState a = Initialized \<and> receiving a \<notin> {RDefault, RRelease, RWaitClose}"
    and "receiving a \<in> {RDefault, RRelease, RWaitClose} \<longrightarrow> defState a = Initialized"
    and "defState a \<noteq> Initialized \<longrightarrow> \<not> defSender a"
  shows "intercept_count (Release a)"
proof -
  have l: "live_queries (Release a) = live_queries a" "def_live (Release a) = def_live a"
    by (simp_all add: Release_def closeLocked_def live_queries_def def_live_def Let_def)
  show ?thesis
  proof (cases "activeCount a = 1")
    case True
    then show ?thesis using assms l
      by (auto simp: intercept_count_def Release_def closeLocked_def Let_def)
  next
    case False
    then show ?thesis using assms l
      by (auto simp: intercept_count_def Release_def closeLocked_def Let_def)
  qed
qed

lemma intercept_count_init: "intercept_count new_intercept_assoc"
  by (simp add: intercept_count_def new_intercept_assoc_def live_queries_def def_live_def)

lemma dns_step_count: "dns_step r a b \<Longrightarrow> intercept_count a \<Longrightarrow> intercept_count b"
proof (erule dns_stepE, goal_cases)
  case 1
  then show ?case by (auto simp: intercept_count_def live_queries_def def_live_def)
next
  case (13 i)
  let ?a = "set_query i DDone a"
  have i: "i < length (queries a)" "counted (queries a ! i)" using 13 by auto
  have "live_queries ?a + 1 = live_queries a" using live_queries_set [OF i(1), of DDone] i(2) by simp
  then have "activeCount ?a = int (live_queries ?a + def_live ?a) + 1"
    using 13(1) by (simp add: intercept_count_def)
  then have "intercept_count (Release ?a)"
    by (rule count_release) (use 13(1) in \<open>auto simp: intercept_count_def\<close>)
  then show ?case using 13 by simp
qed (rule count_move, assumption, simp, simp_all)+

lemma def_step_count: "def_step a b \<Longrightarrow> intercept_count a \<Longrightarrow> intercept_default a \<Longrightarrow> intercept_count b"
  by (erule def_stepE) (auto simp: intercept_count_def intercept_default_def live_queries_def def_live_def)

lemma recv_step_count: "recv_step a b \<Longrightarrow> intercept_count a \<Longrightarrow> intercept_count b"
proof (erule recv_stepE, goal_cases)
  case 5
  let ?a = "a\<lparr>receiving := RWaitClose\<rparr>"
  have "def_live a = 1" "def_live ?a = 0" "live_queries ?a = live_queries a"
    using 5 by (auto simp: def_live_def intercept_count_def live_queries_def)
  then have "activeCount ?a = int (live_queries ?a + def_live ?a) + 1"
    using 5(1) by (simp add: intercept_count_def)
  then have "intercept_count (Release ?a)"
    by (rule count_release) (use 5 in \<open>auto simp: intercept_count_def\<close>)
  then show ?case using 5 by simp
qed (auto simp: intercept_count_def live_queries_def def_live_def Close_assoc_def closeLocked_def)

text \<open>A step that only touches the query \<open>i\<close>.\<close>

lemma subs_move:
  assumes "intercept_subs a" "queries b = (queries a)[i := x]" "i < length (queries a)"
    and "isClosed b = isClosed a" "defSender b = defSender a" "defSenderClosed b = defSenderClosed a"
    and "\<forall>j. j \<noteq> i \<longrightarrow> (j \<in> dnsSenders b) = (j \<in> dnsSenders a) \<and> (j \<in> opened b) = (j \<in> opened a)
       \<and> (j \<in> senderClosed b) = (j \<in> senderClosed a)"
    and "query_ok (isClosed a) (queries a ! i) (i \<in> dnsSenders a) (i \<in> opened a) (i \<in> senderClosed a) \<Longrightarrow>
       query_ok (isClosed a) x (i \<in> dnsSenders b) (i \<in> opened b) (i \<in> senderClosed b)"
  shows "intercept_subs b"
proof -
  have "query_ok (isClosed b) (queries b ! j) (j \<in> dnsSenders b) (j \<in> opened b) (j \<in> senderClosed b)"
    if "j < length (queries b)" for j
    using assms that by (cases "j = i") (simp_all add: intercept_subs_def)
  moreover have "j < length (queries b)" if "j \<in> dnsSenders b \<union> opened b" for j
    using assms that by (cases "j = i") (auto simp: intercept_subs_def)
  ultimately show ?thesis using assms by (auto simp: intercept_subs_def)
qed

lemma subs_release: "intercept_subs a \<Longrightarrow> intercept_subs (Release a)"
  by (auto simp: intercept_subs_def query_ok_def Release_def closeLocked_def Let_def)

lemma dns_step_subs: "dns_step r a b \<Longrightarrow> intercept_subs a \<Longrightarrow> intercept_subs b"
proof (erule dns_stepE, goal_cases)
  case 1
  have "query_ok (isClosed a) DCounted False False (length (queries a) \<in> senderClosed a)"
    by (simp add: query_ok_def)
  moreover have "length (queries a) \<notin> dnsSenders a \<union> opened a" using 1(1) by (auto simp: intercept_subs_def)
  ultimately show ?case using 1 by (auto simp: intercept_subs_def nth_append less_Suc_eq)
next
  case (13 i)
  have "intercept_subs (set_query i DDone a)"
    by (rule subs_move [where a = a and i = i and x = DDone]) (use 13 in \<open>simp_all add: query_ok_def\<close>)
  then show ?case using 13 subs_release by simp
qed (rule subs_move, assumption, simp, simp_all add: query_ok_def)+

lemma def_step_subs: "def_step a b \<Longrightarrow> intercept_subs a \<Longrightarrow> intercept_subs b"
  by (erule def_stepE) (simp_all add: intercept_subs_def)

lemma recv_step_subs: "recv_step a b \<Longrightarrow> intercept_subs a \<Longrightarrow> intercept_subs b"
proof (erule recv_stepE, goal_cases)
  case 5
  have "intercept_subs (a\<lparr>receiving := RWaitClose\<rparr>)" using 5 by (simp add: intercept_subs_def)
  then show ?case using 5 subs_release by simp
next
  case 7
  then show ?case by (auto simp: intercept_subs_def query_ok_def Close_assoc_def closeLocked_def)
qed (simp_all add: intercept_subs_def)

lemma default_release: "intercept_default a \<Longrightarrow> intercept_default (Release a)"
  by (auto simp: intercept_default_def Release_def closeLocked_def Let_def)

lemma default_queries: "intercept_default a \<Longrightarrow> intercept_default (set_query i x a)"
  by (simp add: intercept_default_def)

lemma dns_step_default: "dns_step r a b \<Longrightarrow> intercept_default a \<Longrightarrow> intercept_default b"
proof (erule dns_stepE, goal_cases)
  case (13 i)
  then show ?case using default_release [OF default_queries [of a i DDone]] by simp
qed (auto simp: intercept_default_def)

lemma def_step_default: "def_step a b \<Longrightarrow> intercept_default a \<Longrightarrow> intercept_default b"
  by (erule def_stepE) (auto simp: intercept_default_def)

lemma recv_step_default: "recv_step a b \<Longrightarrow> intercept_default a \<Longrightarrow> intercept_default b"
proof (erule recv_stepE, goal_cases)
  case 5
  have "intercept_default (a\<lparr>receiving := RWaitClose\<rparr>)" using 5 by (simp add: intercept_default_def)
  then show ?case using 5 default_release by simp
next
  case 7
  then show ?case by (auto simp: intercept_default_def Close_assoc_def closeLocked_def)
qed (auto simp: intercept_default_def)

lemma once_move:
  assumes o: "intercept_once r a" and b: "delivered b = delivered a" "queries b = (queries a)[i := x]"
    and i: "i < length (queries a)" and x: "answered (queries a ! i) \<longrightarrow> answered x"
  shows "intercept_once r b"
proof -
  have "j < length (queries b) \<and> src = dnsLocalResolver r \<and> answered (queries b ! j)"
    if "(j, p, src) \<in> set (delivered b)" for j p src
  proof -
    have "j < length (queries a) \<and> src = dnsLocalResolver r \<and> answered (queries a ! j)"
      using o that b(1) by (auto simp: intercept_once_def)
    then show ?thesis using b(2) i x by (cases "j = i") simp_all
  qed
  then show ?thesis using o b(1) by (auto simp: intercept_once_def)
qed

lemma once_release [simp]: "intercept_once r (Release a) = intercept_once r a"
  by (simp add: intercept_once_def Release_def closeLocked_def Let_def)

lemma once_deliver:
  assumes o: "intercept_once r a" and i: "i < length (queries a)" "queries a ! i = DReceiving False"
    and b: "delivered b = delivered a @ [(i, p, dnsLocalResolver r)]"
      "queries b = (queries a)[i := DReceiving True]"
  shows "intercept_once r b"
proof -
  have old: "j < length (queries a) \<and> src = dnsLocalResolver r \<and> answered (queries a ! j)"
    if "(j, q, src) \<in> set (delivered a)" for j q src
    using o that by (auto simp: intercept_once_def)
  then have new: "j \<noteq> i" if "(j, q, src) \<in> set (delivered a)" for j q src
    using that i(2) by force
  have "i \<notin> fst ` set (delivered a)"
  proof
    assume "i \<in> fst ` set (delivered a)"
    then obtain q src where "(i, q, src) \<in> set (delivered a)" by force
    then show False using new by blast
  qed
  moreover have "distinct (map fst (delivered a))" using o by (simp add: intercept_once_def)
  ultimately have "distinct (map fst (delivered b))" by (simp add: b(1))
  moreover have "j < length (queries b) \<and> src = dnsLocalResolver r \<and> answered (queries b ! j)"
    if "(j, q, src) \<in> set (delivered b)" for j q src
  proof (cases "(j, q, src) \<in> set (delivered a)")
    case True
    then show ?thesis using old [OF True] new [OF True] b(2) by simp
  next
    case False
    then show ?thesis using that b i(1) by simp
  qed
  ultimately show ?thesis by (auto simp: intercept_once_def)
qed

lemma dns_step_once: "dns_step r a b \<Longrightarrow> intercept_once r a \<Longrightarrow> intercept_once r b"
proof (erule dns_stepE, goal_cases)
  case 1
  then show ?case by (force simp: intercept_once_def nth_append)
next
  case (8 i p)
  show ?case by (rule once_deliver [where a = a and i = i and p = p]) (use 8 in simp_all)
next
  case (13 i)
  have "intercept_once r (set_query i DDone a)"
    by (rule once_move [where a = a and i = i and x = DDone]) (use 13 in simp_all)
  then show ?case using 13 by simp
qed (rule once_move, assumption, simp, simp, simp_all)+

lemma intercept_step_once: "intercept_step r a b \<Longrightarrow> intercept_once r a \<Longrightarrow> intercept_once r b"
  unfolding intercept_step_def
  by (auto elim!: def_stepE recv_stepE intro: dns_step_once simp: Close_assoc_def closeLocked_def)
    (auto simp: intercept_once_def)

lemma intercept_reach_inv:
  "intercept_reach r a \<Longrightarrow> intercept_count a \<and> intercept_subs a \<and> intercept_once r a \<and> intercept_default a"
proof (induction rule: intercept_reach.induct)
  case intercept_init
  show ?case
    by (intro conjI intercept_count_init) (simp_all add: intercept_subs_def intercept_once_def intercept_default_def new_intercept_assoc_def)
next
  case (intercept_next a b)
  then show ?case
    using dns_step_count def_step_count recv_step_count dns_step_subs def_step_subs recv_step_subs
      dns_step_default def_step_default recv_step_default intercept_step_once unfolding intercept_step_def by metis
qed

section \<open>Properties\<close>

text \<open>
  C9: in every interleaving the count is the number of live sub-associations and never negative, and
  no channel is closed twice, which would panic.
\<close>

theorem intercept_count_safe:
  assumes "intercept_reach r a"
  shows "activeCount a = int (live_queries a + def_live a) \<and> closeChan a \<le> 1 \<and> handlerReady a \<le> 1
     \<and> (isClosed a \<longleftrightarrow> closeChan a = 1)"
  using intercept_reach_inv [OF assms] by (auto simp: intercept_count_def split: if_splits)

text \<open>
  C10: nothing leaks: in a closed association every registered sender of a query and the default sender are closed, a
  query whose goroutine gave up its reference has closed its sender, and so is a default association that the relay gave
  at any time, before or after the close, once its creation has finished; before the close it is the default sender.
\<close>

theorem intercept_no_leak:
  assumes "intercept_reach r a"
  shows "(isClosed a \<longrightarrow> dnsSenders a \<subseteq> senderClosed a \<and> (defSender a \<longrightarrow> defSenderClosed a))
     \<and> (live_queries a = 0 \<longrightarrow> opened a \<subseteq> senderClosed a)
     \<and> (defOpened a \<and> defState a = Initialized \<longrightarrow> (if isClosed a then defSenderClosed a else defSender a))"
proof -
  have subs: "intercept_subs a" using intercept_reach_inv [OF assms] by simp
  have "i \<in> senderClosed a" if "live_queries a = 0" "i \<in> opened a" for i
  proof -
    have "i < length (queries a)" using subs that(2) by (auto simp: intercept_subs_def)
    moreover have "\<forall>x \<in> set (queries a). \<not> counted x"
      using that(1) by (auto simp: live_queries_def filter_empty_conv)
    ultimately have "queries a ! i = DDone" by (metis counted.elims(3) nth_mem)
    then show ?thesis using subs that(2) \<open>i < length (queries a)\<close>
      by (auto simp: intercept_subs_def query_ok_def)
  qed
  moreover have "i \<in> senderClosed a" if "isClosed a" "i \<in> dnsSenders a" for i
    using subs that by (auto simp: intercept_subs_def query_ok_def)
  moreover have "if isClosed a then defSenderClosed a else defSender a" if "defOpened a" "defState a = Initialized"
    using that intercept_reach_inv [OF assms] by (auto simp: intercept_subs_def intercept_default_def)
  ultimately show ?thesis using subs by (auto simp: intercept_subs_def)
qed

text \<open>
  C11: each query forwards at most one packet to the handler, and its source is the local resolver the
  client asked.
\<close>

theorem intercept_one_response:
  assumes "intercept_reach r a"
  shows "distinct (map fst (delivered a)) \<and> snd ` snd ` set (delivered a) \<subseteq> {dnsLocalResolver r}"
  using intercept_reach_inv [OF assms] by (fastforce simp: intercept_once_def)

text \<open>
  An association whose last sub-association has ended is closed, so \<^verbatim>\<open>ReceivePackets\<close> can return.
\<close>

theorem intercept_auto_close:
  assumes "intercept_reach r a" "live_queries a = 0" "def_live a = 0"
    and "DDone \<in> set (queries a) \<or> receiving a = RWaitClose"
  shows "isClosed a"
  using intercept_reach_inv [OF assms(1)] assms(2-4) by (auto simp: intercept_count_def)

text \<open>
  The two forms of an IPv4 address are the same resolver: comparison is an equivalence on
  destinations, and a packet goes to the DNS relay exactly if its destination is the local resolver.
\<close>

theorem intercept_routing:
  "intercept_route r p d =
     (if unmap d = unmap (dnsLocalResolver r) \<and> ap_port d = ap_port (dnsLocalResolver r)
      then ToDns p (dnsRemoteResolver r) else ToDefault p d)
   \<and> isSameAddrPort \<lparr>ap_ip = v4_prefix @ [w, x, y, z], ap_zone = zn, ap_port = n\<rparr>
       \<lparr>ap_ip = [w, x, y, z], ap_zone = [], ap_port = n\<rparr>"
  by (simp add: intercept_route_def isSameAddrPort_def unmap_def v4_prefix_def)

text \<open>
  A run in which the only query is answered and ends while the default association is being created:
  the count does not include the default association yet. The default sender that came is closed.
\<close>

definition race_query :: "intercept_relay \<Rightarrow> intercept_assoc" where
  "race_query r = new_intercept_assoc
     \<lparr>isClosed := True, activeCount := 0, defState := Initialized, defOpened := True, defSenderClosed := True,
      defInitErr := True, closeChan := 1, queries := [DDone], opened := {0}, senderClosed := {0}, handlerReady := 1, receiving := RWait,
      delivered := [(0, [1], dnsLocalResolver r)]\<rparr>"

lemma intercept_run:
  "intercept_reach r a \<Longrightarrow> dns_step r a b \<or> def_step a b \<or> recv_step a b \<Longrightarrow> intercept_reach r b"
  using intercept_next unfolding intercept_step_def by blast

lemma race_query_reach: "intercept_reach r (race_query r)"
proof -
  let ?a0 = "new_intercept_assoc"
  let ?a1 = "?a0\<lparr>activeCount := 1, queries := [DCounted]\<rparr>"
  let ?a2 = "?a1\<lparr>queries := [DOpened], opened := {0}\<rparr>"
  let ?a3 = "?a2\<lparr>queries := [DRegistered], dnsSenders := {0}\<rparr>"
  let ?a4 = "?a3\<lparr>defState := Initializing, defCall := DefCalling\<rparr>"
  let ?a5 = "?a4\<lparr>queries := [DReceiving False]\<rparr>"
  let ?b5 = "?a5\<lparr>handlerReady := 1, receiving := RWait\<rparr>"
  let ?c5 = "?b5\<lparr>queries := [DReceiving True], delivered := [(0, [1], dnsLocalResolver r)], senderClosed := {0}\<rparr>"
  let ?a6 = "?c5\<lparr>queries := [DRemoving]\<rparr>"
  let ?a7 = "?a6\<lparr>queries := [DClosing], dnsSenders := {}\<rparr>"
  let ?a8 = "?a7\<lparr>queries := [DReleasing]\<rparr>"
  let ?a9 = "?a8\<lparr>queries := [DDone], activeCount := 0, isClosed := True, closeChan := 1\<rparr>"
  let ?b9 = "?a9\<lparr>defCall := DefGot, defOpened := True\<rparr>"
  note eval = new_intercept_assoc_def
  note run = intercept_run [where r = r]
  have 1: "intercept_reach r ?a1"
    by (rule run [OF intercept_init]) (use dns_start [of ?a0 r] in \<open>simp add: eval\<close>)
  have 2: "intercept_reach r ?a2"
    by (rule run [OF 1]) (use dns_assoc_ok [of 0 ?a1 r] in \<open>simp add: eval\<close>)
  have 3: "intercept_reach r ?a3"
    by (rule run [OF 2]) (use dns_register [of 0 ?a2 r] in \<open>simp add: eval\<close>)
  have 4: "intercept_reach r ?a4"
    by (rule run [OF 3]) (use def_begin [of ?a3] in \<open>simp add: eval\<close>)
  have 5: "intercept_reach r ?a5"
    by (rule run [OF 4]) (use dns_send_ok [of 0 ?a4 r] in \<open>simp add: eval\<close>)
  have 51: "intercept_reach r ?b5"
    by (rule run [OF 5]) (use recv_start [of ?a5] in \<open>simp add: eval\<close>)
  have 52: "intercept_reach r ?c5"
    by (rule run [OF 51]) (use dns_response [of 0 ?b5 r "[1]"] in \<open>simp add: eval\<close>)
  have 6: "intercept_reach r ?a6"
    by (rule run [OF 52]) (use dns_receive_end [of 0 ?c5 True r] in \<open>simp add: eval\<close>)
  have 7: "intercept_reach r ?a7"
    by (rule run [OF 6]) (use dns_remove [of 0 ?a6 r] in \<open>simp add: eval\<close>)
  have 8: "intercept_reach r ?a8"
    by (rule run [OF 7]) (use dns_close [of 0 ?a7 r] in \<open>simp add: eval\<close>)
  have 9: "intercept_reach r ?a9"
    by (rule run [OF 8])
      (use dns_release [of 0 ?a8 r] in \<open>simp add: eval Release_def closeLocked_def\<close>)
  have 91: "intercept_reach r ?b9"
    by (rule run [OF 9]) (use def_open [of ?a9] in \<open>simp add: eval\<close>)
  show ?thesis
    by (rule run [OF 91]) (use def_too_late [of ?b9] in \<open>simp add: eval race_query_def\<close>)
qed

text \<open>
  An association that nobody closed can close itself while a packet for the default relay is
  being sent: its sender then gets \<^verbatim>\<open>ErrClosed\<close> and the packet is lost.
\<close>

theorem intercept_default_race:
  "intercept_reach r (race_query r) \<and> isClosed (race_query r) \<and> defInitErr (race_query r)
   \<and> \<not> defSender (race_query r)"
  using race_query_reach [of r] by (simp add: race_query_def new_intercept_assoc_def)

section \<open>Witnesses\<close>

definition demo_relay :: intercept_relay where
  "demo_relay =
     \<lparr>dnsLocalResolver = \<lparr>ap_ip = [10, 0, 0, 1], ap_zone = [], ap_port = 53\<rparr>,
      dnsRemoteResolver = \<lparr>ap_ip = [9, 9, 9, 9], ap_zone = [], ap_port = 53\<rparr>\<rparr>"

lemma intercept_count_safe_witness:
  "activeCount (race_query demo_relay) = int (live_queries (race_query demo_relay) + def_live (race_query demo_relay))
     \<and> closeChan (race_query demo_relay) = 1"
  using intercept_count_safe [OF race_query_reach [of demo_relay]]
  by (simp add: race_query_def new_intercept_assoc_def)

lemma intercept_no_leak_witness:
  "opened (race_query demo_relay) \<subseteq> senderClosed (race_query demo_relay) \<and> defSenderClosed (race_query demo_relay)"
  using intercept_no_leak [OF race_query_reach [of demo_relay]]
  by (simp add: race_query_def new_intercept_assoc_def live_queries_def)

lemma intercept_one_response_witness:
  "delivered (race_query demo_relay) \<noteq> []
     \<and> snd ` snd ` set (delivered (race_query demo_relay)) \<subseteq> {dnsLocalResolver demo_relay}"
  using intercept_one_response [OF race_query_reach [of demo_relay]] by (simp add: race_query_def)

lemma intercept_auto_close_witness: "isClosed (race_query demo_relay)"
  by (rule intercept_auto_close [OF race_query_reach])
    (simp_all add: race_query_def new_intercept_assoc_def live_queries_def def_live_def)

end
