(* ===== verification/DnsTruncate.thy ===== *)
theory DnsTruncate
  imports PacketRelay
begin

text \<open>
  \<^verbatim>\<open>network/dnstruncate/packet_relay.go\<close>: a relay without UDP answers each DNS request itself, with the
  truncation bit set, so that the client asks again over TCP. The lemmas give the answer byte by byte,
  and the queue between sender and receiver.
\<close>

section \<open>The answer\<close>

abbreviation standardDNSPort :: nat where "standardDNSPort \<equiv> 53"
abbreviation dnsUdpMinMsgLen :: nat where "dnsUdpMinMsgLen \<equiv> 12"

definition dnsUdpResponseBit :: byte where "dnsUdpResponseBit = 0x80"
definition dnsUdpTruncatedBit :: byte where "dnsUdpTruncatedBit = 0x02"
definition dnsUdpRCodeMask :: byte where "dnsUdpRCodeMask = 0x0f"

definition truncated_answer :: "bytes \<Rightarrow> bytes" where
  "truncated_answer p =
     (let b1 = p[2 := p ! 2 OR (dnsUdpResponseBit OR dnsUdpTruncatedBit)];
          b2 = b1[3 := b1 ! 3 AND NOT dnsUdpRCodeMask]
      in blit 6 (subslice 4 6 b2) b2)"

section \<open>Sender and receiver\<close>

text \<open>The channel has room for 16 packets.\<close>

record trunc_sender =
  t_closed :: bool
  t_ch :: "(bytes \<times> addr_port) list"

definition new_trunc_sender :: trunc_sender where
  "new_trunc_sender = \<lparr>t_closed = False, t_ch = []\<rparr>"

definition ErrQueueFull :: err where
  "ErrQueueFull = ErrNew ''DNS truncation queue full''"

definition trunc_close :: "trunc_sender \<Rightarrow> trunc_sender \<times> err option" where
  "trunc_close s = (if t_closed s then (s, Some ErrClosed) else (s\<lparr>t_closed := True\<rparr>, None))"

definition trunc_send :: "trunc_sender \<Rightarrow> bytes \<Rightarrow> addr_port \<Rightarrow> trunc_sender \<times> err option" where
  "trunc_send s p d =
     (if t_closed s then (s, Some ErrClosed)
      else if ap_port d \<noteq> standardDNSPort
        then (s, Some (ErrWrap ''UDP traffic to non-DNS port is not supported'' ErrPortUnreachable))
      else if length p < dnsUdpMinMsgLen then (s, Some (ErrNew ''invalid DNS message''))
      else if length (t_ch s) < 16 then (s\<lparr>t_ch := t_ch s @ [(truncated_answer p, d)]\<rparr>, None)
      else (s, Some ErrQueueFull))"

text \<open>
  \<^verbatim>\<open>ReceivePackets\<close> on what is in the channel; \<open>hs\<close> is the state of the handler. The last component is
  \<open>None\<close> when the loop waits for more packets: the channel is empty and not closed.
\<close>

fun trunc_receive ::
  "('h \<Rightarrow> bytes \<Rightarrow> addr_port \<Rightarrow> 'h \<times> err option) \<Rightarrow> bool \<Rightarrow> 'h \<Rightarrow> (bytes \<times> addr_port) list
   \<Rightarrow> 'h \<times> (bytes \<times> addr_port) list \<times> err option option" where
  "trunc_receive h cl hs [] = (hs, [], if cl then Some None else None)"
| "trunc_receive h cl hs ((p, src) # r) =
     (case h hs p src of
        (hs', Some e) \<Rightarrow> (hs', r, Some (Some e))
      | (hs', None) \<Rightarrow> trunc_receive h cl hs' r)"

interpretation trunc: packet_sender trunc_send trunc_close t_closed
  by unfold_locales (auto simp: trunc_send_def trunc_close_def)

section \<open>Properties\<close>

text \<open>
  The answer is the request with the response and truncation bits set, no error code, as many
  answers announced as questions, and every other bit as it was.
\<close>

theorem truncated_answer_bytes:
  assumes "dnsUdpMinMsgLen \<le> length p"
  shows "length (truncated_answer p) = length p
     \<and> (\<forall>i < length p. truncated_answer p ! i =
          (if i = 2 then p ! 2 OR 0x82 else if i = 3 then p ! 3 AND 0xf0
           else if i = 6 then p ! 4 else if i = 7 then p ! 5 else p ! i))"
proof -
  define b where "b = p[2 := p ! 2 OR 0x82, 3 := p ! 3 AND 0xf0]"
  have lb: "length b = length p" by (simp add: b_def)
  have sub: "subslice 4 6 b = [b ! 4, b ! 5]"
  proof (rule nth_equalityI)
    show "length (subslice 4 6 b) = length [b ! 4, b ! 5]" using assms lb by (simp add: length_subslice)
  next
    fix i assume "i < length (subslice 4 6 b)"
    then have "i = 0 \<or> i = 1" using assms lb by (auto simp: length_subslice)
    then show "subslice 4 6 b ! i = [b ! 4, b ! 5] ! i" using assms lb by (auto simp: subslice_def)
  qed
  have m: "(-16 :: byte) = 240" by code_simp
  have "truncated_answer p = blit 6 (subslice 4 6 b) b"
    using assms by (simp add: m Let_def truncated_answer_def b_def dnsUdpResponseBit_def dnsUdpTruncatedBit_def
        dnsUdpRCodeMask_def)
  then have t: "truncated_answer p = take 6 b @ [b ! 4, b ! 5] @ drop 8 b"
    using assms lb by (simp add: sub blit_def)
  have "truncated_answer p ! i = (if i = 6 then b ! 4 else if i = 7 then b ! 5 else b ! i)"
    if "i < length p" for i
  proof -
    consider "i < 6" | "i = 6" | "i = 7" | "8 \<le> i" by linarith
    then show ?thesis using assms lb that by cases (auto simp: t nth_append)
  qed
  then show ?thesis using assms lb t by (auto simp: b_def)
qed

text \<open>The queue never holds more than 16 answers, and a full queue refuses without blocking.\<close>

theorem trunc_queue_bound:
  assumes "length (t_ch s) \<le> 16"
  shows "length (t_ch (fst (trunc_send s p d))) \<le> 16
     \<and> (length (t_ch s) = 16 \<and> \<not> t_closed s \<and> ap_port d = 53 \<and> 12 \<le> length p \<longrightarrow>
         trunc_send s p d = (s, Some ErrQueueFull))"
  using assms by (auto simp: trunc_send_def)

definition dns_request :: "bytes \<times> addr_port \<Rightarrow> bool" where
  "dns_request x \<longleftrightarrow> ap_port (snd x) = 53 \<and> 12 \<le> length (fst x)"

lemma send_each_trunc:
  "\<not> t_closed s \<Longrightarrow> \<forall>x \<in> set ps. dns_request x \<Longrightarrow> length (t_ch s) + length ps \<le> 16 \<Longrightarrow>
   send_each trunc_send s ps
     = (s\<lparr>t_ch := t_ch s @ map (\<lambda>(p, d). (truncated_answer p, d)) ps\<rparr>, replicate (length ps) None)"
proof (induction ps arbitrary: s)
  case (Cons x ps)
  obtain p d where x: "x = (p, d)" by fastforce
  have "trunc_send s p d = (s\<lparr>t_ch := t_ch s @ [(truncated_answer p, d)]\<rparr>, None)"
    using Cons.prems x by (auto simp: trunc_send_def dns_request_def)
  then show ?case using Cons.IH [of "s\<lparr>t_ch := t_ch s @ [(truncated_answer p, d)]\<rparr>"] Cons.prems x by simp
qed simp

lemma trunc_receive_all:
  "trunc_receive (\<lambda>hs p src. (hs @ [(p, src)], None)) cl hs ch = (hs @ ch, [], if cl then Some None else None)"
  by (induction ch arbitrary: hs) auto

text \<open>
  Up to 16 requests sent before the receiver runs are answered in order, each to its own
  destination, and after \<^verbatim>\<open>Close\<close> the receiver delivers what is left and returns without an error.
\<close>

theorem trunc_session:
  assumes "\<forall>x \<in> set ps. dns_request x" "length ps \<le> 16"
  shows "case trunc_close (fst (send_each trunc_send new_trunc_sender ps)) of
     (s, e) \<Rightarrow> e = None
       \<and> trunc_receive (\<lambda>hs p src. (hs @ [(p, src)], None)) (t_closed s) [] (t_ch s)
         = (map (\<lambda>(p, d). (truncated_answer p, d)) ps, [], Some None)"
proof -
  have s: "send_each trunc_send new_trunc_sender ps
      = (new_trunc_sender\<lparr>t_ch := map (\<lambda>(p, d). (truncated_answer p, d)) ps\<rparr>, replicate (length ps) None)"
    using send_each_trunc [of new_trunc_sender ps] assms by (simp add: new_trunc_sender_def)
  show ?thesis
    unfolding s fst_conv trunc_close_def by (simp add: trunc_receive_all new_trunc_sender_def)
qed

text \<open>
  The sender does not look whether the message is a request: one that has the response bit set is
  answered as well.
\<close>

theorem trunc_answers_responses:
  "trunc_send new_trunc_sender ([0, 1, 0x80] @ replicate 9 0) \<lparr>ap_ip = [1, 1, 1, 1], ap_zone = [], ap_port = 53\<rparr>
   = (\<lparr>t_closed = False,
       t_ch = [([0, 1, 0x82] @ replicate 9 0, \<lparr>ap_ip = [1, 1, 1, 1], ap_zone = [], ap_port = 53\<rparr>)]\<rparr>, None)"
  by (simp add: trunc_send_def new_trunc_sender_def truncated_answer_def dnsUdpResponseBit_def
      dnsUdpTruncatedBit_def dnsUdpRCodeMask_def blit_def subslice_def numeral_nat)

section \<open>Witnesses\<close>

definition demo_resolver :: addr_port where
  "demo_resolver = \<lparr>ap_ip = [9, 9, 9, 9], ap_zone = [], ap_port = 53\<rparr>"

lemma truncated_answer_bytes_witness:
  "truncated_answer (replicate 12 0xff) ! 3 = 0xf0 \<and> truncated_answer (replicate 12 1) ! 2 = 0x83"
  using truncated_answer_bytes [of "replicate 12 0xff"] truncated_answer_bytes [of "replicate 12 1"]
  by simp

lemma trunc_queue_bound_witness:
  "trunc_send \<lparr>t_closed = False, t_ch = replicate 16 ([], demo_resolver)\<rparr> (replicate 12 0) demo_resolver
     = (\<lparr>t_closed = False, t_ch = replicate 16 ([], demo_resolver)\<rparr>, Some ErrQueueFull)"
  using trunc_queue_bound [of "\<lparr>t_closed = False, t_ch = replicate 16 ([], demo_resolver)\<rparr>" "replicate 12 0"
      demo_resolver] by (simp add: demo_resolver_def)

lemma trunc_session_witness:
  "case trunc_close (fst (send_each trunc_send new_trunc_sender [(replicate 12 0, demo_resolver)])) of
     (s, e) \<Rightarrow> e = None
       \<and> trunc_receive (\<lambda>hs p src. (hs @ [(p, src)], None)) (t_closed s) [] (t_ch s)
         = (map (\<lambda>(p, d). (truncated_answer p, d)) [(replicate 12 0, demo_resolver)], [], Some None)"
  by (rule trunc_session) (simp_all add: dns_request_def demo_resolver_def)

end
