(* ===== verification/TimeoutRelay.thy ===== *)
theory TimeoutRelay
  imports PacketRelay
begin

text \<open>
  \<^verbatim>\<open>network/packetrelay/timeout_packet_relay.go\<close>: a sender that closes its inner sender when nothing was
  sent for a while. The code works in critical sections with calls on the inner sender between them;
  each section is a function, the operations are their compositions, and a step relation interleaves
  them with the clock and the runtime's timer. Times are natural numbers (nanoseconds of the monotonic
  clock).
\<close>

section \<open>State and critical sections\<close>

text \<open>
  \<open>ts_inner_set\<close> tells that the field \<^verbatim>\<open>inner\<close> is not nil, \<open>ts_env\<close> is the state of the inner sender,
  \<open>ts_timer\<close> the time the timer fires. The fields after \<open>ts_env\<close> belong to the interleaving: callbacks
  that have fired and not run, sends and closes of the inner sender under way, the clock; and, to
  state the properties, the times of the accepted sends, the time of an expiry, the number of times the
  inner sender was closed.
\<close>

record 's tsender =
  ts_closed :: bool
  ts_inner_set :: bool
  ts_timer :: "nat option"
  ts_timeout :: nat
  ts_last :: nat
  ts_env :: 's
  ts_callbacks :: nat
  ts_sending :: "(bytes \<times> addr_port) list"
  ts_closing :: nat
  ts_now :: nat
  ts_accepted :: "nat list"
  ts_expired :: "nat option"
  ts_closes :: nat

definition new_timeout_relay :: "bool \<Rightarrow> int \<Rightarrow> err + nat" where
  "new_timeout_relay innerSet timeout =
     (if \<not> innerSet then Inl (ErrNew ''inner relay must not be nil'')
      else if timeout \<le> 0 then Inl (ErrNew ''timeout must be greater than 0'')
      else Inr (nat timeout))"

definition timeout_assoc :: "nat \<Rightarrow> nat \<Rightarrow> err + 's \<Rightarrow> err + 's tsender" where
  "timeout_assoc timeout t inner =
     (case inner of
        Inl e \<Rightarrow> Inl e
      | Inr i \<Rightarrow> Inr \<lparr>ts_closed = False, ts_inner_set = True, ts_timer = Some (t + timeout),
                    ts_timeout = timeout, ts_last = t, ts_env = i, ts_callbacks = 0, ts_sending = [],
                    ts_closing = 0, ts_now = t, ts_accepted = [], ts_expired = None, ts_closes = 0\<rparr>)"

definition send_lock :: "nat \<Rightarrow> 's tsender \<Rightarrow> 's tsender \<times> err option" where
  "send_lock t s = (if ts_closed s then (s, Some ErrClosed) else (s\<lparr>ts_last := t\<rparr>, None))"

text \<open>The flag tells that a call of \<^verbatim>\<open>inner.Close\<close> follows.\<close>

definition check_lock :: "nat \<Rightarrow> 's tsender \<Rightarrow> 's tsender \<times> bool" where
  "check_lock t s =
     (if ts_closed s then (s, False)
      else let elapsed = t - ts_last s in
        if elapsed \<ge> ts_timeout s
        then (s\<lparr>ts_closed := True, ts_timer := None, ts_inner_set := False\<rparr>, True)
        else (s\<lparr>ts_timer := Some (t + (ts_timeout s - elapsed))\<rparr>, False))"

definition close_lock :: "'s tsender \<Rightarrow> 's tsender \<times> err option" where
  "close_lock s =
     (if ts_closed s then (s, Some ErrClosed)
      else (s\<lparr>ts_closed := True, ts_timer := None, ts_inner_set := False\<rparr>, None))"

section \<open>Operations\<close>

definition timeout_send ::
  "('s \<Rightarrow> bytes \<Rightarrow> addr_port \<Rightarrow> 's \<times> err option) \<Rightarrow> nat \<Rightarrow> 's tsender \<Rightarrow> bytes \<Rightarrow> addr_port \<Rightarrow> 's tsender \<times> err option" where
  "timeout_send isnd t s p d =
     (case send_lock t s of
        (s', Some e) \<Rightarrow> (s', Some e)
      | (s', None) \<Rightarrow> (case isnd (ts_env s') p d of (i, e) \<Rightarrow> (s'\<lparr>ts_env := i\<rparr>, e)))"

definition check_timeout :: "('s \<Rightarrow> 's \<times> err option) \<Rightarrow> nat \<Rightarrow> 's tsender \<Rightarrow> 's tsender" where
  "check_timeout iclose t s =
     (case check_lock t s of
        (s', True) \<Rightarrow> s'\<lparr>ts_env := fst (iclose (ts_env s'))\<rparr>
      | (s', False) \<Rightarrow> s')"

definition timeout_close :: "('s \<Rightarrow> 's \<times> err option) \<Rightarrow> 's tsender \<Rightarrow> 's tsender \<times> err option" where
  "timeout_close iclose s =
     (case close_lock s of
        (s', Some e) \<Rightarrow> (s', Some e)
      | (s', None) \<Rightarrow> (case iclose (ts_env s') of (i, e) \<Rightarrow> (s'\<lparr>ts_env := i\<rparr>, e)))"

interpretation timeout: packet_sender "timeout_send isnd t" "timeout_close iclose" ts_closed
  for isnd :: "'s \<Rightarrow> bytes \<Rightarrow> addr_port \<Rightarrow> 's \<times> err option" and t iclose
  by unfold_locales
     (auto simp: timeout_send_def timeout_close_def send_lock_def close_lock_def split: prod.splits)

section \<open>Interleavings\<close>

text \<open>
  The inner sender is used through \<open>isnd\<close> and \<open>iclose\<close>. The clock does not run backwards; the timer
  fires at its time or later, and its callback runs some time after that.
\<close>

inductive timeout_step ::
  "('s \<Rightarrow> bytes \<Rightarrow> addr_port \<Rightarrow> 's \<times> err option) \<Rightarrow> ('s \<Rightarrow> 's \<times> err option) \<Rightarrow> 's tsender \<Rightarrow> 's tsender \<Rightarrow> bool"
  for isnd iclose where
  ts_send:
    "ts_now s \<le> t \<Longrightarrow> send_lock t s = (s', None) \<Longrightarrow>
     timeout_step isnd iclose s (s'\<lparr>ts_sending := ts_sending s @ [(p, d)], ts_now := t,
       ts_accepted := t # ts_accepted s\<rparr>)"
| ts_send_inner:
    "ts_sending s = xs @ (p, d) # ys \<Longrightarrow>
     timeout_step isnd iclose s (s\<lparr>ts_env := fst (isnd (ts_env s) p d), ts_sending := xs @ ys\<rparr>)"
| ts_fire:
    "ts_now s \<le> t \<Longrightarrow> ts_timer s = Some f \<Longrightarrow> f \<le> t \<Longrightarrow>
     timeout_step isnd iclose s (s\<lparr>ts_timer := None, ts_callbacks := Suc (ts_callbacks s), ts_now := t\<rparr>)"
| ts_check:
    "ts_now s \<le> t \<Longrightarrow> ts_callbacks s = Suc k \<Longrightarrow> check_lock t s = (s', b) \<Longrightarrow>
     timeout_step isnd iclose s (s'\<lparr>ts_callbacks := k, ts_now := t,
       ts_closing := ts_closing s + of_bool b, ts_expired := (if b then Some t else ts_expired s)\<rparr>)"
| ts_close:
    "close_lock s = (s', None) \<Longrightarrow>
     timeout_step isnd iclose s (s'\<lparr>ts_closing := Suc (ts_closing s)\<rparr>)"
| ts_close_inner:
    "ts_closing s = Suc k \<Longrightarrow>
     timeout_step isnd iclose s (s\<lparr>ts_env := fst (iclose (ts_env s)), ts_closing := k,
       ts_closes := Suc (ts_closes s)\<rparr>)"

inductive timeout_reach ::
  "('s \<Rightarrow> bytes \<Rightarrow> addr_port \<Rightarrow> 's \<times> err option) \<Rightarrow> ('s \<Rightarrow> 's \<times> err option) \<Rightarrow> 's tsender \<Rightarrow> bool"
  for isnd iclose where
  timeout_init: "timeout_assoc timeout t (Inr i) = Inr s \<Longrightarrow> timeout_reach isnd iclose s"
| timeout_next: "timeout_reach isnd iclose s \<Longrightarrow> timeout_step isnd iclose s s' \<Longrightarrow> timeout_reach isnd iclose s'"

section \<open>Invariants\<close>

definition timer_ok :: "'s tsender \<Rightarrow> bool" where
  "timer_ok s \<longleftrightarrow>
     (case ts_timer s of
        Some f \<Rightarrow> f \<le> ts_last s + ts_timeout s \<and> ts_callbacks s = 0
      | None \<Rightarrow> ts_callbacks s = 1)"

definition timeout_inv :: "'s tsender \<Rightarrow> bool" where
  "timeout_inv s \<longleftrightarrow>
     ts_inner_set s = (\<not> ts_closed s) \<and> ts_closing s + ts_closes s = of_bool (ts_closed s)
     \<and> ts_last s \<le> ts_now s \<and> (\<forall>a \<in> set (ts_accepted s). a \<le> ts_last s)
     \<and> (\<not> ts_closed s \<longrightarrow> timer_ok s \<and> ts_expired s = None)
     \<and> (\<forall>e. ts_expired s = Some e \<longrightarrow> ts_last s + ts_timeout s \<le> e)"

lemma timeout_inv_init: "timeout_assoc timeout t (Inr i) = Inr s \<Longrightarrow> timeout_inv s"
  by (auto simp: timeout_assoc_def timeout_inv_def timer_ok_def)

lemma timeout_inv_step: "timeout_step isnd iclose s s' \<Longrightarrow> timeout_inv s \<Longrightarrow> timeout_inv s'"
proof (induction rule: timeout_step.induct)
  case (ts_send s t s' p d)
  then show ?case
    by (auto simp: timeout_inv_def timer_ok_def send_lock_def split: if_splits option.splits)
next
  case (ts_check s t k s' b)
  then show ?case
    by (auto simp: timeout_inv_def timer_ok_def check_lock_def Let_def split: if_splits option.splits)
qed (auto simp: timeout_inv_def timer_ok_def close_lock_def split: if_splits option.splits)

lemma timeout_inv_reach: "timeout_reach isnd iclose s \<Longrightarrow> timeout_inv s"
  by (induction rule: timeout_reach.induct) (auto intro: timeout_inv_init timeout_inv_step)

section \<open>Properties\<close>

text \<open>
  C39: in every interleaving of sends, closes, the clock and the timer's callbacks, the inner sender is
  closed at most once, and only with the association; an expiry comes no earlier than the timeout after
  every accepted send; and as long as the association is open a timer or a callback is pending, the
  timer for no later than the timeout after the last send.
\<close>

theorem timeout_relay_safe:
  assumes "timeout_reach isnd iclose s"
  shows "ts_closes s + ts_closing s = of_bool (ts_closed s)
     \<and> (\<forall>e a. ts_expired s = Some e \<and> a \<in> set (ts_accepted s) \<longrightarrow> a + ts_timeout s \<le> e)
     \<and> (ts_closed s
        \<or> (\<exists>f. ts_timer s = Some f \<and> f \<le> ts_last s + ts_timeout s) \<or> 0 < ts_callbacks s)"
proof -
  have i: "timeout_inv s" by (rule timeout_inv_reach) (rule assms)
  have "a + ts_timeout s \<le> e" if "ts_expired s = Some e" "a \<in> set (ts_accepted s)" for e a
    using i that unfolding timeout_inv_def by fastforce
  moreover have "ts_closed s \<or> timer_ok s" using i unfolding timeout_inv_def by blast
  then have "ts_closed s \<or> (\<exists>f. ts_timer s = Some f \<and> f \<le> ts_last s + ts_timeout s) \<or> 0 < ts_callbacks s"
    by (auto simp: timer_ok_def split: option.splits)
  ultimately show ?thesis using i by (auto simp: timeout_inv_def)
qed

text \<open>A callback that runs as soon as the timer fires.\<close>

definition prompt_check :: "('s \<Rightarrow> 's \<times> err option) \<Rightarrow> 's tsender \<Rightarrow> 's tsender" where
  "prompt_check iclose s =
     (case ts_timer s of
        None \<Rightarrow> s
      | Some f \<Rightarrow> (check_timeout iclose (max (ts_now s) f) s)\<lparr>ts_now := max (ts_now s) f\<rparr>)"

text \<open>
  C40: an idle association does not stay open: with callbacks that run when the timer fires, at most two
  of them are enough to close it, and the clock then shows the last send plus the timeout, unless it
  was later already.
\<close>

theorem timeout_relay_expires:
  assumes "timeout_reach isnd iclose s" "\<not> ts_closed s" "ts_callbacks s = 0" "0 < ts_timeout s"
  shows "ts_closed (prompt_check iclose (prompt_check iclose s))
     \<and> ts_env (prompt_check iclose (prompt_check iclose s)) = fst (iclose (ts_env s))
     \<and> ts_now (prompt_check iclose (prompt_check iclose s)) = max (ts_now s) (ts_last s + ts_timeout s)"
proof -
  have i: "timeout_inv s" by (rule timeout_inv_reach) (rule assms)
  then obtain f where f: "ts_timer s = Some f" "f \<le> ts_last s + ts_timeout s" "ts_last s \<le> ts_now s"
    using assms by (auto simp: timeout_inv_def timer_ok_def split: option.splits)
  define m where "m = max (ts_now s) f"
  show ?thesis
  proof (cases "ts_timeout s \<le> m - ts_last s")
    case True
    have c: "prompt_check iclose s
        = s\<lparr>ts_closed := True, ts_timer := None, ts_inner_set := False, ts_env := fst (iclose (ts_env s)), ts_now := m\<rparr>"
      using True assms f by (simp add: prompt_check_def check_timeout_def check_lock_def m_def [symmetric])
    have "prompt_check iclose (prompt_check iclose s) = prompt_check iclose s"
      by (simp add: c prompt_check_def [of _ "s\<lparr>ts_closed := True, ts_timer := None, ts_inner_set := False, ts_env := fst (iclose (ts_env s)), ts_now := m\<rparr>"])
    moreover have "m = max (ts_now s) (ts_last s + ts_timeout s)"
      using True f assms(4) unfolding m_def by (auto simp: max_def split: if_splits)
    ultimately show ?thesis by (simp add: c)
  next
    case False
    have m: "ts_last s \<le> m" using f by (simp add: m_def)
    have c: "prompt_check iclose s = s\<lparr>ts_timer := Some (ts_last s + ts_timeout s), ts_now := m\<rparr>"
      using False m assms f by (simp add: prompt_check_def check_timeout_def check_lock_def m_def [symmetric])
    have n: "max m (ts_last s + ts_timeout s) = ts_last s + ts_timeout s" using False m by simp
    show ?thesis
      using False m f assms n unfolding c
      by (simp add: prompt_check_def check_timeout_def check_lock_def) (simp add: m_def max_def split: if_splits)
  qed
qed

text \<open>
  Once closed, whether by the client or by the timer, the association sends nothing: every packet
  and a second \<^verbatim>\<open>Close\<close> get \<^verbatim>\<open>ErrClosed\<close>, and the inner sender is not touched.
\<close>

theorem timeout_relay_closed:
  assumes "s' = fst (timeout_close iclose s) \<or> s' = check_timeout iclose (ts_last s + ts_timeout s) s"
  shows "send_each (timeout_send isnd t) s' ps = (s', replicate (length ps) (Some ErrClosed))
     \<and> timeout_close iclose s' = (s', Some ErrClosed)"
proof -
  have "ts_closed (check_timeout iclose (ts_last s + ts_timeout s) s)"
    by (simp add: check_timeout_def check_lock_def)
  then have "ts_closed s'" using assms timeout.close_closes [of iclose s] by auto
  then show ?thesis by (simp add: timeout.send_each_closed timeout.closed_close)
qed

section \<open>Witnesses\<close>

definition demo_isnd :: "bytes list \<Rightarrow> bytes \<Rightarrow> addr_port \<Rightarrow> bytes list \<times> err option" where
  "demo_isnd s p d = (s @ [p], None)"

definition demo_iclose :: "bytes list \<Rightarrow> bytes list \<times> err option" where
  "demo_iclose s = (s @ [[]], None)"

definition demo_assoc :: "bytes list tsender" where
  "demo_assoc = (case timeout_assoc 30 100 (Inr []) of Inr s \<Rightarrow> s | Inl _ \<Rightarrow> undefined)"

lemma demo_reach: "timeout_reach demo_isnd demo_iclose demo_assoc"
  by (rule timeout_init [of 30 100 "[]"]) (simp add: demo_assoc_def timeout_assoc_def)

lemma demo_reach_send:
  "timeout_reach demo_isnd demo_iclose (demo_assoc\<lparr>ts_last := 120, ts_now := 120, ts_accepted := [120],
     ts_sending := [([7], \<lparr>ap_ip = [], ap_zone = [], ap_port = 1\<rparr>)]\<rparr>)"
  using timeout_next [OF demo_reach ts_send [where s = demo_assoc and t = 120
        and s' = "demo_assoc\<lparr>ts_last := 120\<rparr>" and p = "[7]" and d = "\<lparr>ap_ip = [], ap_zone = [], ap_port = 1\<rparr>"]]
  by (simp add: demo_assoc_def timeout_assoc_def send_lock_def)

lemma timeout_relay_safe_witness:
  "ts_closes demo_assoc = 0 \<and> ts_timer demo_assoc = Some 130"
  using timeout_relay_safe [OF demo_reach_send] by (simp add: demo_assoc_def timeout_assoc_def)

lemma timeout_relay_expires_witness:
  "ts_now (prompt_check demo_iclose (prompt_check demo_iclose
     (demo_assoc\<lparr>ts_last := 120, ts_now := 120, ts_accepted := [120],
        ts_sending := [([7], \<lparr>ap_ip = [], ap_zone = [], ap_port = 1\<rparr>)]\<rparr>))) = 150"
  using timeout_relay_expires [OF demo_reach_send] by (simp add: demo_assoc_def timeout_assoc_def)

lemma timeout_relay_closed_witness:
  "timeout_close demo_iclose (fst (timeout_close demo_iclose demo_assoc))
     = (fst (timeout_close demo_iclose demo_assoc), Some ErrClosed)"
  using timeout_relay_closed [of "fst (timeout_close demo_iclose demo_assoc)" demo_iclose demo_assoc demo_isnd 0 "[]"]
  by simp

end
