(* ===== verification/ListenerRelay.thy ===== *)
theory ListenerRelay
  imports PacketRelay
begin

text \<open>
  The relay over a \<^verbatim>\<open>transport.PacketListener\<close> (\<^verbatim>\<open>network/packetrelay/packet_listener_relay.go\<close>), the
  relay that forwards to a replaceable one (\<^verbatim>\<open>delegate_packet_relay.go\<close>), and the adapters from a relay
  to the older \<^verbatim>\<open>PacketProxy\<close> interface (\<^verbatim>\<open>network/packet_proxy.go\<close>). The packet connection is a
  parameter: its operations act on a state of any type. The lemmas say what reaches the connection and
  the handler, in which order, and what happens after a close.
\<close>

section \<open>Packet connections\<close>

record 's packet_ops =
  pc_set_deadline :: "'s \<Rightarrow> nat \<Rightarrow> 's \<times> err option"
  pc_write_to :: "'s \<Rightarrow> bytes \<Rightarrow> addr_port \<Rightarrow> 's \<times> nat \<times> err option"
  pc_close :: "'s \<Rightarrow> 's \<times> err option"

text \<open>The address a packet came from: a \<^verbatim>\<open>*net.UDPAddr\<close>, or another one with its text.\<close>

datatype src_addr = UDPSource addr_port | OtherSource string

section \<open>The relay\<close>

record 'l listener_relay =
  lr_listener :: 'l
  lr_timeout :: int

definition new_listener_relay :: "'l option \<Rightarrow> int \<Rightarrow> err + 'l listener_relay" where
  "new_listener_relay pl writeIdleTimeout =
     (case pl of
        None \<Rightarrow> Inl (ErrNew ''pl must not be nil'')
      | Some l \<Rightarrow>
          if writeIdleTimeout \<le> 0 then Inl (ErrNew ''writeIdleTimeout must be greater than 0'')
          else Inr \<lparr>lr_listener = l, lr_timeout = writeIdleTimeout\<rparr>)"

definition set_write_idle_timeout :: "'l listener_relay \<Rightarrow> int \<Rightarrow> 'l listener_relay \<times> err option" where
  "set_write_idle_timeout r timeout =
     (if timeout \<le> 0 then (r, Some (ErrNew ''timeout must be greater than 0''))
      else (r\<lparr>lr_timeout := timeout\<rparr>, None))"

record 's listener_assoc =
  la_closed :: bool
  la_conn_set :: bool
  la_conn :: 's
  la_timeout :: nat

definition refreshDeadline :: "'s packet_ops \<Rightarrow> nat \<Rightarrow> 's listener_assoc \<Rightarrow> 's listener_assoc \<times> err option" where
  "refreshDeadline F now a =
     (if la_closed a then (a, Some ErrClosed)
      else case pc_set_deadline F (la_conn a) (now + la_timeout a) of (c, e) \<Rightarrow> (a\<lparr>la_conn := c\<rparr>, e))"

definition getPacketConn :: "'s listener_assoc \<Rightarrow> err + 's" where
  "getPacketConn a = (if la_closed a then Inl ErrClosed else Inr (la_conn a))"

text \<open>The field \<^verbatim>\<open>packetConn\<close> is set to nil; the connection itself goes on in \<open>la_conn\<close>.\<close>

definition listener_close :: "'s packet_ops \<Rightarrow> 's listener_assoc \<Rightarrow> 's listener_assoc \<times> err option" where
  "listener_close F a =
     (if la_closed a then (a, Some ErrClosed)
      else case pc_close F (la_conn a) of
             (c, e) \<Rightarrow> (a\<lparr>la_closed := True, la_conn_set := False, la_conn := c\<rparr>, e))"

text \<open>
  \<open>listen\<close> is the listener's \<^verbatim>\<open>ListenPacket\<close>; the first component of the result is the association that
  was created, also when it is closed again because its deadline could not be set.
\<close>

definition listener_new_assoc ::
  "'s packet_ops \<Rightarrow> ('l \<Rightarrow> err + 's) \<Rightarrow> 'l listener_relay \<Rightarrow> nat \<Rightarrow> 's listener_assoc option \<times> err option" where
  "listener_new_assoc F listen r now =
     (case listen (lr_listener r) of
        Inl e \<Rightarrow> (None, Some e)
      | Inr c \<Rightarrow>
          (case refreshDeadline F now \<lparr>la_closed = False, la_conn_set = True, la_conn = c, la_timeout = nat (lr_timeout r)\<rparr> of
             (a, Some e) \<Rightarrow> (Some (fst (listener_close F a)), Some e)
           | (a, None) \<Rightarrow> (Some a, None)))"

definition listener_send ::
  "'s packet_ops \<Rightarrow> nat \<Rightarrow> 's listener_assoc \<Rightarrow> bytes \<Rightarrow> addr_port \<Rightarrow> 's listener_assoc \<times> err option" where
  "listener_send F now a p destination =
     (case refreshDeadline F now a of
        (a', Some e) \<Rightarrow> (a', Some e)
      | (a', None) \<Rightarrow>
          (case getPacketConn a' of
             Inl e \<Rightarrow> (a', Some e)
           | Inr c \<Rightarrow> (case pc_write_to F c p destination of (c', n, e) \<Rightarrow> (a'\<lparr>la_conn := c'\<rparr>, e))))"

interpretation listener: packet_sender "listener_send F now" "listener_close F" la_closed
  for F :: "'s packet_ops" and now
  by unfold_locales
     (auto simp: listener_send_def refreshDeadline_def getPacketConn_def listener_close_def
       split: prod.splits option.splits)

text \<open>
  \<^verbatim>\<open>ReceivePackets\<close> on the results of the \<^verbatim>\<open>ReadFrom\<close> calls: the datagram, which the buffer cuts, and
  its source, or an error. \<open>parse\<close> is \<^verbatim>\<open>netip.ParseAddrPort\<close>. The result \<open>None\<close> means that the loop waits
  for the next datagram.
\<close>

abbreviation packetMaxSize :: nat where "packetMaxSize \<equiv> 2048"

fun listener_receive ::
  "'s packet_ops \<Rightarrow> (string \<Rightarrow> err + addr_port) \<Rightarrow> ('h \<Rightarrow> bytes \<Rightarrow> addr_port \<Rightarrow> 'h \<times> err option)
   \<Rightarrow> (err + bytes \<times> src_addr) list \<Rightarrow> 'h \<Rightarrow> 's listener_assoc \<Rightarrow> 'h \<times> 's listener_assoc \<times> err option" where
  "listener_receive F parse h [] hs a = (hs, a, None)"
| "listener_receive F parse h (Inl e # r) hs a =
     (if errors_is e ShortBuffer then listener_receive F parse h r hs a
      else (hs, fst (listener_close F a), Some e))"
| "listener_receive F parse h (Inr (d, src) # r) hs a =
     (case (case src of UDPSource s \<Rightarrow> Inr s | OtherSource t \<Rightarrow> parse t) of
        Inl e \<Rightarrow> (hs, a, Some e)
      | Inr srcPort \<Rightarrow>
          (case h hs (take packetMaxSize d) srcPort of
             (hs', Some e) \<Rightarrow> (hs', a, Some e)
           | (hs', None) \<Rightarrow> listener_receive F parse h r hs' a))"

section \<open>The delegating relay\<close>

text \<open>The pointer holds a relay, which may be nil; \<open>assoc\<close> is the \<^verbatim>\<open>NewAssociation\<close> of a relay.\<close>

definition errNoRelay :: err where "errNoRelay = ErrNew ''no relay configured''"

definition delegate_new :: "'r option \<Rightarrow> 'r option option" where
  "delegate_new relay = Some relay"

definition delegate_set :: "'r option option \<Rightarrow> 'r option \<Rightarrow> 'r option option" where
  "delegate_set p relay = Some relay"

definition delegate_assoc :: "('r \<Rightarrow> err + 'a) \<Rightarrow> 'r option option \<Rightarrow> err + 'a" where
  "delegate_assoc assoc p =
     (case p of None \<Rightarrow> Inl errNoRelay | Some None \<Rightarrow> Inl errNoRelay | Some (Some r) \<Rightarrow> assoc r)"

section \<open>The adapters to packet proxies\<close>

definition proxy_write_to ::
  "('s \<Rightarrow> bytes \<Rightarrow> addr_port \<Rightarrow> 's \<times> err option) \<Rightarrow> 's \<Rightarrow> bytes \<Rightarrow> addr_port \<Rightarrow> 's \<times> nat \<times> err option" where
  "proxy_write_to snd_packet s p destination =
     (case snd_packet s p destination of
        (s', Some e) \<Rightarrow> (s', 0, Some (if errors_is e ErrClosed then ErrDeviceClosed else e))
      | (s', None) \<Rightarrow> (s', length p, None))"

definition proxy_close :: "('s \<Rightarrow> 's \<times> err option) \<Rightarrow> 's \<Rightarrow> 's \<times> err option" where
  "proxy_close snd_close s =
     (case snd_close s of
        (s', Some e) \<Rightarrow> (s', Some (if errors_is e ErrClosed then ErrDeviceClosed else e))
      | (s', None) \<Rightarrow> (s', None))"

definition proxy_handle ::
  "('h \<Rightarrow> bytes \<Rightarrow> addr_port \<Rightarrow> 'h \<times> nat \<times> err option) \<Rightarrow> 'h \<Rightarrow> bytes \<Rightarrow> addr_port \<Rightarrow> 'h \<times> err option" where
  "proxy_handle writeFrom hs p src = (case writeFrom hs p src of (hs', n, e) \<Rightarrow> (hs', e))"

text \<open>
  The goroutine of \<^verbatim>\<open>NewSession\<close>: it receives and, when \<^verbatim>\<open>ReceivePackets\<close> returns, closes the response
  receiver. \<open>recv\<close> is \<^verbatim>\<open>ReceivePackets\<close>, with \<open>None\<close> for still receiving.
\<close>

definition proxy_session ::
  "(('h \<Rightarrow> bytes \<Rightarrow> addr_port \<Rightarrow> 'h \<times> err option) \<Rightarrow> 'h \<Rightarrow> 'h \<times> 'a \<times> err option)
   \<Rightarrow> ('h \<Rightarrow> bytes \<Rightarrow> addr_port \<Rightarrow> 'h \<times> nat \<times> err option) \<Rightarrow> ('h \<Rightarrow> 'h) \<Rightarrow> 'h \<Rightarrow> 'h \<times> 'a" where
  "proxy_session recv writeFrom close hs =
     (case recv (proxy_handle writeFrom) hs of
        (hs', a, Some e) \<Rightarrow> (close hs', a)
      | (hs', a, None) \<Rightarrow> (hs', a))"

text \<open>
  \<^verbatim>\<open>NewPacketProxyFromPacketRelay\<close> and \<^verbatim>\<open>NewSession\<close> up to the start of the goroutine, with nil as \<open>None\<close>. \<open>assoc\<close> is the
  \<^verbatim>\<open>NewAssociation\<close> of the relay; the result is the sender, and what the goroutine runs on: the receiver and the response receiver.
\<close>

record 'r relay_adapter =
  ra_relay :: 'r

definition proxy_from_relay :: "'r option \<Rightarrow> 'r relay_adapter option" where
  "proxy_from_relay relay = (case relay of None \<Rightarrow> None | Some r \<Rightarrow> Some \<lparr>ra_relay = r\<rparr>)"

definition adapter_session ::
  "('r \<Rightarrow> err + 's \<times> 'v) \<Rightarrow> 'r relay_adapter \<Rightarrow> 'h option \<Rightarrow> err + 's \<times> 'v \<times> 'h" where
  "adapter_session assoc a respReceiver =
     (case respReceiver of
        None \<Rightarrow> Inl (ErrNew ''respReceiver must not be nil'')
      | Some h \<Rightarrow>
          (case assoc (ra_relay a) of
             Inl e \<Rightarrow> Inl e
           | Inr (sender, receiver) \<Rightarrow> Inr (sender, receiver, h)))"

section \<open>The older packet proxies\<close>

text \<open>The proxy that forwards to a replaceable one; \<open>session\<close> is the \<^verbatim>\<open>NewSession\<close> of a proxy.\<close>

definition errInvalidProxy :: err where "errInvalidProxy = ErrNew ''the underlying proxy must not be nil''"

definition delegate_proxy_new :: "'p option \<Rightarrow> err + 'p" where
  "delegate_proxy_new proxy = (case proxy of None \<Rightarrow> Inl errInvalidProxy | Some p \<Rightarrow> Inr p)"

definition delegate_proxy_set :: "'p \<Rightarrow> 'p option \<Rightarrow> 'p \<times> err option" where
  "delegate_proxy_set d proxy = (case proxy of None \<Rightarrow> (d, Some errInvalidProxy) | Some p \<Rightarrow> (p, None))"

definition delegate_proxy_session :: "('p \<Rightarrow> 'h \<Rightarrow> 'x) \<Rightarrow> 'p \<Rightarrow> 'h \<Rightarrow> 'x" where
  "delegate_proxy_session session d respWriter = session d respWriter"

text \<open>
  The proxy over a packet listener and its options. Times are in nanoseconds; \<open>lp_relay\<close> is nil until the options are applied,
  and so is \<open>lp_baseRelay\<close>, the same relay.
\<close>

record 'l listener_proxy =
  lp_relay :: "'l listener_relay option"
  lp_baseRelay :: "'l listener_relay option"
  lp_timeout :: int

type_synonym 'l proxy_option = "'l listener_proxy \<Rightarrow> 'l listener_proxy \<times> err option"

fun apply_proxy_options :: "'l proxy_option list \<Rightarrow> 'l listener_proxy \<Rightarrow> err + 'l listener_proxy" where
  "apply_proxy_options [] p = Inr p"
| "apply_proxy_options (opt # r) p =
     (case opt p of (p', Some e) \<Rightarrow> Inl e | (p', None) \<Rightarrow> apply_proxy_options r p')"

definition new_listener_proxy :: "'l option \<Rightarrow> 'l proxy_option list \<Rightarrow> err + 'l listener_proxy" where
  "new_listener_proxy pl options =
     (case apply_proxy_options options \<lparr>lp_relay = None, lp_baseRelay = None, lp_timeout = 30 * 1000000000\<rparr> of
        Inl e \<Rightarrow> Inl e
      | Inr p \<Rightarrow>
          (case new_listener_relay pl (lp_timeout p) of
             Inl e \<Rightarrow> Inl e
           | Inr baseRelay \<Rightarrow> Inr (p\<lparr>lp_baseRelay := Some baseRelay, lp_relay := Some baseRelay\<rparr>)))"

definition WithPacketListenerWriteIdleTimeout :: "int \<Rightarrow> 'l proxy_option" where
  "WithPacketListenerWriteIdleTimeout timeout p =
     (if timeout \<le> 0 then (p, Some (ErrNew ''timeout must be greater than 0'')) else (p\<lparr>lp_timeout := timeout\<rparr>, None))"

text \<open>\<^verbatim>\<open>NewSession\<close>; \<open>None\<close> is the panic of a method call on the nil that a proxy without relay gives.\<close>

definition listener_proxy_session ::
  "('l listener_relay \<Rightarrow> err + 's \<times> 'v) \<Rightarrow> 'l listener_proxy \<Rightarrow> 'h option \<Rightarrow> (err + 's \<times> 'v \<times> 'h) option" where
  "listener_proxy_session assoc p respReceiver =
     (case proxy_from_relay (lp_relay p) of None \<Rightarrow> None | Some adapter \<Rightarrow> Some (adapter_session assoc adapter respReceiver))"

context packet_sender
begin

text \<open>Through the adapter, a closed sender is a closed device.\<close>

lemma proxy_after_close:
  "proxy_write_to snd_packet (fst (snd_close s)) p d = (fst (snd_close s), 0, Some ErrDeviceClosed)
   \<and> proxy_close snd_close (fst (snd_close s)) = (fst (snd_close s), Some ErrDeviceClosed)"
  by (simp add: proxy_write_to_def proxy_close_def closed_send closed_close close_closes)

end

section \<open>Sending\<close>

text \<open>A connection that records the calls; none of them fails.\<close>

datatype pc_call = CSetDeadline nat | CWriteTo bytes addr_port | CClose

definition log_ops :: "pc_call list packet_ops" where
  "log_ops = \<lparr>pc_set_deadline = (\<lambda>s t. (s @ [CSetDeadline t], None)),
              pc_write_to = (\<lambda>s p d. (s @ [CWriteTo p d], length p, None)),
              pc_close = (\<lambda>s. (s @ [CClose], None))\<rparr>"

fun timed_sends ::
  "'s packet_ops \<Rightarrow> 's listener_assoc \<Rightarrow> (nat \<times> bytes \<times> addr_port) list \<Rightarrow> 's listener_assoc" where
  "timed_sends F a [] = a"
| "timed_sends F a ((t, p, d) # r) = timed_sends F (fst (listener_send F t a p d)) r"

lemma timed_sends_log:
  "\<not> la_closed a \<Longrightarrow>
   timed_sends log_ops a xs
     = a\<lparr>la_conn := la_conn a @ concat (map (\<lambda>(t, p, d). [CSetDeadline (t + la_timeout a), CWriteTo p d]) xs)\<rparr>"
proof (induction xs arbitrary: a)
  case (Cons x xs)
  obtain t p d where x: "x = (t, p, d)" by (cases x) auto
  have s: "fst (listener_send log_ops t a p d)
      = a\<lparr>la_conn := la_conn a @ [CSetDeadline (t + la_timeout a), CWriteTo p d]\<rparr>"
    using Cons.prems by (simp add: listener_send_def refreshDeadline_def getPacketConn_def log_ops_def)
  show ?case
    using Cons.prems Cons.IH [of "fst (listener_send log_ops t a p d)"] by (simp add: x s)
qed simp

text \<open>
  An association sets the write deadline when it is made and before each packet, to the time of
  the call plus the idle timeout; the packets go out unchanged and in order; and after \<^verbatim>\<open>Close\<close> nothing
  reaches the connection any more, also through the packet proxy adapter.
\<close>

theorem listener_session:
  assumes "listener_new_assoc log_ops (\<lambda>l. Inr []) r t0 = (Some a, None)"
  shows "case listener_close log_ops (timed_sends log_ops a xs) of
     (b, e) \<Rightarrow> e = None
       \<and> la_conn b = CSetDeadline (t0 + nat (lr_timeout r))
           # concat (map (\<lambda>(t, p, d). [CSetDeadline (t + nat (lr_timeout r)), CWriteTo p d]) xs) @ [CClose]
       \<and> listener_send log_ops t b p d = (b, Some ErrClosed)
       \<and> proxy_write_to (listener_send log_ops t) b p d = (b, 0, Some ErrDeviceClosed)
       \<and> listener_close log_ops b = (b, Some ErrClosed)"
proof -
  have a: "a = \<lparr>la_closed = False, la_conn_set = True, la_conn = [CSetDeadline (t0 + nat (lr_timeout r))],
      la_timeout = nat (lr_timeout r)\<rparr>"
    using assms by (simp add: listener_new_assoc_def refreshDeadline_def log_ops_def)
  define s where "s = timed_sends log_ops a xs"
  have s: "s = a\<lparr>la_conn := la_conn a
      @ concat (map (\<lambda>(t, p, d). [CSetDeadline (t + nat (lr_timeout r)), CWriteTo p d]) xs)\<rparr>"
    using timed_sends_log [of a xs] a by (simp add: s_def)
  obtain b e where c: "listener_close log_ops s = (b, e)" by fastforce
  then have b: "b = fst (listener_close log_ops s)" by simp
  have "e = None \<and> la_conn b = la_conn s @ [CClose]"
    using c s a by (auto simp: listener_close_def log_ops_def)
  moreover have "la_closed b" by (simp add: b listener.close_closes)
  moreover have "proxy_write_to (listener_send log_ops t) b p d = (b, 0, Some ErrDeviceClosed)"
    unfolding b using listener.proxy_after_close by blast
  moreover have "la_conn s = CSetDeadline (t0 + nat (lr_timeout r))
      # concat (map (\<lambda>(t, p, d). [CSetDeadline (t + nat (lr_timeout r)), CWriteTo p d]) xs)"
    using s a by simp
  ultimately show ?thesis
    unfolding s_def [symmetric] c prod.case by (simp add: listener.closed_send listener.closed_close)
qed

section \<open>Receiving\<close>

text \<open>What a list of read results holds for the handler; \<open>ok\<close>: every source is an address.\<close>

fun read_packets :: "(string \<Rightarrow> err + addr_port) \<Rightarrow> (err + bytes \<times> src_addr) list \<Rightarrow> (bytes \<times> addr_port) list" where
  "read_packets parse [] = []"
| "read_packets parse (Inl e # r) = read_packets parse r"
| "read_packets parse (Inr (d, UDPSource s) # r) = (take packetMaxSize d, s) # read_packets parse r"
| "read_packets parse (Inr (d, OtherSource t) # r) =
     (case parse t of Inl _ \<Rightarrow> read_packets parse r | Inr s \<Rightarrow> (take packetMaxSize d, s) # read_packets parse r)"

definition read_ok :: "(string \<Rightarrow> err + addr_port) \<Rightarrow> err + bytes \<times> src_addr \<Rightarrow> bool" where
  "read_ok parse x \<longleftrightarrow>
     (case x of Inl e \<Rightarrow> errors_is e ShortBuffer
      | Inr (_, UDPSource _) \<Rightarrow> True
      | Inr (_, OtherSource t) \<Rightarrow> (case parse t of Inl _ \<Rightarrow> False | Inr _ \<Rightarrow> True))"

lemma listener_receive_ok:
  "\<forall>x \<in> set rs. read_ok parse x \<Longrightarrow>
   listener_receive F parse (\<lambda>hs p s. (hs @ [(p, s)], None)) (rs @ rest) hs a
     = listener_receive F parse (\<lambda>hs p s. (hs @ [(p, s)], None)) rest (hs @ read_packets parse rs) a"
  by (induction parse rs arbitrary: hs rule: read_packets.induct)
     (auto simp: read_ok_def split: sum.splits)

text \<open>
  The receive loop hands every datagram to the handler, in order and with its source, skips the
  ones that did not fit the buffer, and at the first other error closes the association, so that the
  connection is closed exactly once however often the client closes it then, and returns the error.
\<close>

theorem listener_receive_delivers:
  assumes "\<forall>x \<in> set rs. read_ok parse x" "\<not> errors_is e ShortBuffer" "\<not> la_closed a"
  shows "case listener_receive log_ops parse (\<lambda>hs p s. (hs @ [(p, s)], None)) (rs @ [Inl e]) [] a of
     (hs, b, r) \<Rightarrow> hs = read_packets parse rs \<and> r = Some e
       \<and> la_conn b = la_conn a @ [CClose] \<and> listener_close log_ops b = (b, Some ErrClosed)"
  using assms(2,3) unfolding listener_receive_ok [OF assms(1)]
  by (simp add: listener_close_def log_ops_def)

lemma listener_receive_limit:
  "\<forall>x \<in> set qs. read_ok parse x \<Longrightarrow> length hs + length (read_packets parse qs) \<le> n \<Longrightarrow>
   listener_receive F parse (\<lambda>hs p s. if length hs < n then (hs @ [(p, s)], None) else (hs, Some e)) (qs @ rest) hs a
     = listener_receive F parse (\<lambda>hs p s. if length hs < n then (hs @ [(p, s)], None) else (hs, Some e)) rest
         (hs @ read_packets parse qs) a"
  by (induction parse qs arbitrary: hs rule: read_packets.induct)
     (auto simp: read_ok_def split: sum.splits)

text \<open>
  An error of the handler, or a source that is no address, ends \<^verbatim>\<open>ReceivePackets\<close> with that error,
  but leaves the association and its connection open: only \<^verbatim>\<open>Close\<close> or the deadline frees them.
\<close>

theorem listener_receive_handler_error:
  assumes "\<forall>x \<in> set rs. read_ok parse x"
    and "h = (\<lambda>hs p s. if length hs < length (read_packets parse rs) then (hs @ [(p, s)], None) else (hs, Some e))"
  shows "listener_receive F parse h (rs @ Inr (d, UDPSource s) # rest) [] a = (read_packets parse rs, a, Some e)
     \<and> (parse t = Inl e \<longrightarrow>
         listener_receive F parse h (rs @ Inr (d, OtherSource t) # rest) [] a = (read_packets parse rs, a, Some e))"
proof -
  note l = listener_receive_limit [of rs parse "[]" "length (read_packets parse rs)" F e _ a, OF assms(1)]
  show ?thesis using l by (simp add: assms(2))
qed

text \<open>
  The goroutine of a proxy session delivers what \<^verbatim>\<open>ReceivePackets\<close> delivers, and when the reading
  fails it closes the response receiver exactly once, after the last packet.
\<close>

theorem proxy_session_closes:
  assumes "\<forall>x \<in> set rs. read_ok parse x" "\<not> errors_is e ShortBuffer" "\<not> la_closed a"
  shows "fst (proxy_session (\<lambda>h hs. listener_receive log_ops parse h (rs @ [Inl e]) hs a)
      (\<lambda>hs p s. (hs @ [Some (p, s)], length p, None)) (\<lambda>hs. hs @ [None]) [])
    = map Some (read_packets parse rs) @ [None]"
proof -
  have h: "proxy_handle (\<lambda>hs p s. (hs @ [Some (p, s)], length p, None)) = (\<lambda>hs p s. (hs @ [Some (p, s)], None))"
    by (intro ext) (simp add: proxy_handle_def)
  have "listener_receive log_ops parse (\<lambda>hs p s. (hs @ [Some (p, s)], None)) (qs @ rest) hs a
      = listener_receive log_ops parse (\<lambda>hs p s. (hs @ [Some (p, s)], None)) rest (hs @ map Some (read_packets parse qs)) a"
    if "\<forall>x \<in> set qs. read_ok parse x" for qs rest hs
    using that
    by (induction parse qs arbitrary: hs rule: read_packets.induct) (auto simp: read_ok_def split: sum.splits)
  from this [OF assms(1)] show ?thesis
    using assms(2) by (simp add: proxy_session_def h)
qed

text \<open>
  A delegating relay uses the relay set last, and has an error, not a crash, when that one is nil
  or was never set.
\<close>

theorem delegate_uses_last:
  "delegate_assoc assoc (foldl delegate_set (delegate_new r0) rs)
     = (case last (r0 # rs) of None \<Rightarrow> Inl errNoRelay | Some r \<Rightarrow> assoc r)"
proof (cases rs rule: rev_cases)
  case (snoc ys y)
  then show ?thesis by (simp add: delegate_assoc_def delegate_set_def split: option.splits)
qed (simp add: delegate_assoc_def delegate_new_def split: option.splits)

text \<open>
  The older delegating proxy uses the last proxy that is not nil: an attempt to set nil is an error and changes nothing, so
  it never calls a nil proxy.
\<close>

lemma delegate_proxy_uses_last:
  "delegate_proxy_new r0 = Inr d \<Longrightarrow>
   delegate_proxy_session session (foldl (\<lambda>d p. fst (delegate_proxy_set d p)) d rs) h
     = session (last (d # List.map_filter id rs)) h"
proof (induction rs rule: rev_induct)
  case (snoc p rs)
  then show ?case
    by (cases p) (simp_all add: delegate_proxy_session_def delegate_proxy_set_def map_filter_def)
qed (simp add: delegate_proxy_session_def map_filter_def)

lemma apply_timeouts:
  "apply_proxy_options (map WithPacketListenerWriteIdleTimeout ts) p
     = (if \<forall>t \<in> set ts. 0 < t then Inr (p\<lparr>lp_timeout := last (lp_timeout p # ts)\<rparr>)
        else Inl (ErrNew ''timeout must be greater than 0''))"
  by (induction ts arbitrary: p) (auto simp: WithPacketListenerWriteIdleTimeout_def)

text \<open>
  A proxy over a listener has the timeout of its last option, 30 seconds without one, and is an error if one option has a
  timeout that is not positive, wherever it stands, or the listener is nil. Its sessions are associations of the relay with that
  listener and timeout, and it never panics.
\<close>

theorem listener_proxy_options:
  "new_listener_proxy pl (map WithPacketListenerWriteIdleTimeout ts)
     = (if \<not> (\<forall>t \<in> set ts. 0 < t) then Inl (ErrNew ''timeout must be greater than 0'')
        else case pl of
          None \<Rightarrow> Inl (ErrNew ''pl must not be nil'')
        | Some l \<Rightarrow>
            (let r = \<lparr>lr_listener = l, lr_timeout = last (30000000000 # ts)\<rparr> in
             Inr \<lparr>lp_relay = Some r, lp_baseRelay = Some r, lp_timeout = last (30000000000 # ts)\<rparr>))"
proof -
  have "\<not> last (30000000000 # ts) \<le> 0" if "\<forall>t \<in> set ts. 0 < (t :: int)"
    using that by (cases ts rule: rev_cases) (auto simp: not_le)
  then show ?thesis
    by (auto simp del: last.simps simp: new_listener_proxy_def apply_timeouts new_listener_relay_def Let_def split: option.splits)
qed

lemma listener_proxy_no_panic:
  "new_listener_proxy pl options = Inr p \<Longrightarrow>
   \<exists>r. lp_relay p = Some r \<and> lp_baseRelay p = Some r \<and> Some (lr_listener r) = pl \<and> lr_timeout r = lp_timeout p
     \<and> listener_proxy_session assoc p h = Some (adapter_session assoc \<lparr>ra_relay = r\<rparr> h)"
  by (auto simp: new_listener_proxy_def new_listener_relay_def listener_proxy_session_def proxy_from_relay_def
      split: sum.splits option.splits if_splits)

text \<open>An error of \<^verbatim>\<open>NewAssociation\<close> and a nil response receiver start no goroutine; a nil receiver makes no association either.\<close>

lemma adapter_session_errors:
  "adapter_session assoc a None = Inl (ErrNew ''respReceiver must not be nil'')"
  "assoc (ra_relay a) = Inl e \<Longrightarrow> adapter_session assoc a (Some h) = Inl e"
  by (simp_all add: adapter_session_def)

section \<open>Witnesses\<close>

definition demo_dest :: addr_port where
  "demo_dest = \<lparr>ap_ip = [8, 8, 8, 8], ap_zone = [], ap_port = 443\<rparr>"

definition demo_listener_assoc :: "pc_call list listener_assoc" where
  "demo_listener_assoc = \<lparr>la_closed = False, la_conn_set = True, la_conn = [CSetDeadline 40], la_timeout = 30\<rparr>"

lemma listener_session_witness:
  "la_conn (fst (listener_close log_ops (timed_sends log_ops demo_listener_assoc [(15, [1], demo_dest)])))
     = [CSetDeadline 40, CSetDeadline 45, CWriteTo [1] demo_dest, CClose]"
proof -
  have "listener_new_assoc log_ops (\<lambda>l. Inr []) \<lparr>lr_listener = (), lr_timeout = 30\<rparr> 10 = (Some demo_listener_assoc, None)"
    by (simp add: demo_listener_assoc_def listener_new_assoc_def refreshDeadline_def log_ops_def)
  from listener_session [OF this, of "[(15, [1], demo_dest)]"] show ?thesis
    by (simp add: case_prod_beta)
qed

lemma listener_receive_delivers_witness:
  "case listener_receive log_ops (\<lambda>_. Inl EOF) (\<lambda>hs p s. (hs @ [(p, s)], None))
       ([Inr ([5], UDPSource demo_dest), Inl ShortBuffer] @ [Inl EOF]) [] demo_listener_assoc of
     (hs, b, r) \<Rightarrow> hs = [([5], demo_dest)] \<and> r = Some EOF"
  using listener_receive_delivers [of "[Inr ([5], UDPSource demo_dest), Inl ShortBuffer]" "\<lambda>_. Inl EOF" EOF demo_listener_assoc]
  by (simp add: read_ok_def demo_listener_assoc_def split: prod.splits)

lemma listener_receive_handler_error_witness:
  "listener_receive log_ops (\<lambda>_. Inl EOF) (\<lambda>hs p s. if length hs < 1 then (hs @ [(p, s)], None) else (hs, Some EOF))
     ([Inr ([5], UDPSource demo_dest)] @ Inr ([6], UDPSource demo_dest) # []) [] demo_listener_assoc
   = ([([5], demo_dest)], demo_listener_assoc, Some EOF)"
  using listener_receive_handler_error [of "[Inr ([5], UDPSource demo_dest)]" "\<lambda>_. Inl EOF" _ EOF log_ops "[6]"
      demo_dest "[]" demo_listener_assoc, OF _ refl]
  by (simp add: read_ok_def)

lemma proxy_session_closes_witness:
  "fst (proxy_session (\<lambda>h hs. listener_receive log_ops (\<lambda>_. Inl EOF) h ([Inr ([5], UDPSource demo_dest)] @ [Inl EOF]) hs
       demo_listener_assoc)
      (\<lambda>hs p s. (hs @ [Some (p, s)], length p, None)) (\<lambda>hs. hs @ [None]) [])
    = [Some ([5], demo_dest), None]"
  using proxy_session_closes [of "[Inr ([5], UDPSource demo_dest)]" "\<lambda>_. Inl EOF" EOF demo_listener_assoc]
  by (simp add: read_ok_def demo_listener_assoc_def)

end
