(* ===== verification/HappyEyeballs.thy ===== *)
theory HappyEyeballs
  imports GoNet "HOL-Library.Multiset"
begin

text \<open>
  \<^verbatim>\<open>transport/happyeyeballs.go\<close>: the dialer that races the addresses of a host. The loop around \<^verbatim>\<open>select\<close>
  is a machine whose events are the cases of the \<^verbatim>\<open>select\<close>, the passing of time (in milliseconds), and
  what the goroutines of the attempts do; every list of events that the machine accepts is a run. The
  lemmas are invariants of every run: what a failure means, where connections go, in which order and
  how fast addresses are tried, and that the loop cannot get stuck.
\<close>

section \<open>The machine\<close>

definition is6 :: "bytes \<Rightarrow> bool" where
  "is6 ip \<longleftrightarrow> length ip = 16"

text \<open>
  A channel that the loop waits for: closed from the start, closed by a deadline or the
  cancellation of the context, or closed by the deadline of an attempt or by its end.
\<close>

datatype he_chan = ChClosed | ChDeadline nat | ChAttempt nat nat

text \<open>
  The local variables of \<^verbatim>\<open>DialStream\<close> (\<open>he_res_open\<close>: \<^verbatim>\<open>resolutionCh\<close> is not nil), the running attempts,
  and, for the properties: the addresses resolved, dialled and failed, the attempts given up after a
  cancellation, the connections opened and closed, the times of the first address and of the last dial.
\<close>

record 'c he =
  he_now :: nat
  he_res_open :: bool
  he_ip6s :: "bytes list"
  he_ip4s :: "bytes list"
  he_last :: "bytes option"
  he_lookup_err :: "err option"
  he_dial_err :: "err option"
  he_ready :: "he_chan option"
  he_delay :: he_chan
  he_ops :: int
  he_inflight :: "(nat \<times> bytes) list"
  he_next :: nat
  he_cancelled :: bool
  he_result :: "(err + 'c) option"
  he_resolved :: "bytes list"
  he_dialed :: "bytes list"
  he_failed :: "bytes list"
  he_lost :: "bytes list"
  he_opened :: "'c list"
  he_conns_closed :: "'c list"
  he_first :: nat
  he_last_start :: nat

definition he_chan_done :: "'c he \<Rightarrow> he_chan \<Rightarrow> bool" where
  "he_chan_done h ch =
     (case ch of
        ChClosed \<Rightarrow> True
      | ChDeadline d \<Rightarrow> d \<le> he_now h \<or> he_cancelled h
      | ChAttempt k d \<Rightarrow> d \<le> he_now h \<or> k \<notin> fst ` set (he_inflight h))"

text \<open>The head of the loop: the end of it, or the choice of the channel that allows the next dial.\<close>

definition he_error :: "'c he \<Rightarrow> err" where
  "he_error h =
     (case he_dial_err h of
        Some e \<Rightarrow> e
      | None \<Rightarrow> (case he_lookup_err h of
                  Some e \<Rightarrow> e
                | None \<Rightarrow> ErrNew ''address lookup returned no IPs''))"

definition he_gate :: "'c he \<Rightarrow> 'c he" where
  "he_gate h =
     (if he_ip6s h = [] \<and> he_ip4s h = [] then h\<lparr>he_ready := None\<rparr>
      else if he_last h = None \<and> he_ip6s h = [] \<and> he_res_open h
        then (if he_ready h = None then h\<lparr>he_ready := Some (ChDeadline (he_now h + 50))\<rparr> else h)
      else h\<lparr>he_ready := Some (he_delay h)\<rparr>)"

definition he_head :: "'c he \<Rightarrow> 'c he" where
  "he_head h = (if he_ops h \<le> 0 then h\<lparr>he_result := Some (Inl (he_error h))\<rparr> else he_gate h)"

definition he_init :: "nat \<Rightarrow> 'c he" where
  "he_init t = he_head
     \<lparr>he_now = t, he_res_open = True, he_ip6s = [], he_ip4s = [], he_last = None, he_lookup_err = None,
      he_dial_err = None, he_ready = None, he_delay = ChClosed, he_ops = 1, he_inflight = [], he_next = 0,
      he_cancelled = False, he_result = None, he_resolved = [], he_dialed = [], he_failed = [],
      he_lost = [], he_opened = [], he_conns_closed = [], he_first = 0, he_last_start = 0\<rparr>"

text \<open>The cases of the \<^verbatim>\<open>select\<close>.\<close>

definition he_lookup :: "bytes list \<Rightarrow> err option \<Rightarrow> 'c he \<Rightarrow> 'c he" where
  "he_lookup ips e h =
     (case e of
        Some x \<Rightarrow> h\<lparr>he_lookup_err := Some (join_err (he_lookup_err h) x)\<rparr>
      | None \<Rightarrow>
          h\<lparr>he_ops := he_ops h + int (length ips),
            he_ip6s := he_ip6s h @ filter is6 ips,
            he_ip4s := he_ip4s h @ filter (\<lambda>ip. \<not> is6 ip) ips,
            he_resolved := he_resolved h @ ips,
            he_first := (if he_ip6s h = [] \<and> he_ip4s h = [] then he_now h else he_first h)\<rparr>)"

definition he_lookup_done :: "'c he \<Rightarrow> 'c he" where
  "he_lookup_done h = h\<lparr>he_ops := he_ops h - 1, he_res_open := False\<rparr>"

definition he_pick :: "'c he \<Rightarrow> bytes \<times> 'c he" where
  "he_pick h =
     (if he_ip6s h = [] \<or> ((\<exists>ip. he_last h = Some ip \<and> is6 ip) \<and> he_ip4s h \<noteq> [])
      then (hd (he_ip4s h), h\<lparr>he_ip4s := tl (he_ip4s h)\<rparr>)
      else (hd (he_ip6s h), h\<lparr>he_ip6s := tl (he_ip6s h)\<rparr>))"

definition he_dial :: "'c he \<Rightarrow> 'c he" where
  "he_dial h =
     (case he_pick h of
        (toDial, h') \<Rightarrow>
          h'\<lparr>he_delay := ChAttempt (he_next h) (he_now h + 250),
             he_inflight := he_inflight h @ [(he_next h, toDial)], he_next := Suc (he_next h),
             he_last := Some toDial, he_dialed := he_dialed h @ [toDial], he_last_start := he_now h\<rparr>)"

definition he_dial_result :: "nat \<Rightarrow> bytes \<Rightarrow> err + 'c \<Rightarrow> 'c he \<Rightarrow> 'c he" where
  "he_dial_result i ip r h =
     (let h' = h\<lparr>he_ops := he_ops h - 1, he_inflight := remove1 (i, ip) (he_inflight h)\<rparr> in
      case r of
        Inl e \<Rightarrow> he_head (h'\<lparr>he_dial_err := Some (join_err (he_dial_err h) e), he_failed := he_failed h @ [ip]\<rparr>)
      | Inr c \<Rightarrow> h'\<lparr>he_result := Some (Inr c), he_opened := c # he_opened h\<rparr>)"

text \<open>An attempt that ends after the context is done closes its connection.\<close>

definition he_drop :: "nat \<Rightarrow> bytes \<Rightarrow> err + 'c \<Rightarrow> 'c he \<Rightarrow> 'c he" where
  "he_drop i ip r h =
     (let h' = h\<lparr>he_inflight := remove1 (i, ip) (he_inflight h), he_lost := he_lost h @ [ip]\<rparr> in
      case r of
        Inl e \<Rightarrow> h'
      | Inr c \<Rightarrow> h'\<lparr>he_opened := c # he_opened h, he_conns_closed := c # he_conns_closed h\<rparr>)"

datatype 'c he_event =
    EvTick nat | EvLookup "bytes list" "err option" | EvLookupDone | EvReady
  | EvDialed nat "err + 'c" | EvCancel | EvCtxDone | EvDropped nat "err + 'c"

definition errCanceled :: err where "errCanceled = ErrNew ''context canceled''"

text \<open>
  One event; \<open>None\<close> when it cannot happen. The context is done when the caller cancels it or when
  \<^verbatim>\<open>DialStream\<close> has returned.
\<close>

fun he_step :: "'c he \<Rightarrow> 'c he_event \<Rightarrow> 'c he option" where
  "he_step h (EvTick t) = (if he_now h \<le> t then Some (h\<lparr>he_now := t\<rparr>) else None)"
| "he_step h (EvLookup ips e) =
     (if he_result h = None \<and> he_res_open h then Some (he_head (he_lookup ips e h)) else None)"
| "he_step h EvLookupDone =
     (if he_result h = None \<and> he_res_open h then Some (he_head (he_lookup_done h)) else None)"
| "he_step h EvReady =
     (case he_ready h of
        None \<Rightarrow> None
      | Some ch \<Rightarrow> if he_result h = None \<and> he_chan_done h ch then Some (he_head (he_dial h)) else None)"
| "he_step h (EvDialed i r) =
     (case map_of (he_inflight h) i of
        None \<Rightarrow> None
      | Some ip \<Rightarrow> if he_result h = None then Some (he_dial_result i ip r h) else None)"
| "he_step h EvCancel = (if he_result h = None then Some (h\<lparr>he_cancelled := True\<rparr>) else None)"
| "he_step h EvCtxDone =
     (if he_result h = None \<and> he_cancelled h then Some (h\<lparr>he_result := Some (Inl errCanceled)\<rparr>) else None)"
| "he_step h (EvDropped i r) =
     (case map_of (he_inflight h) i of
        None \<Rightarrow> None
      | Some ip \<Rightarrow> if he_result h \<noteq> None \<or> he_cancelled h then Some (he_drop i ip r h) else None)"

fun he_run :: "'c he \<Rightarrow> 'c he_event list \<Rightarrow> 'c he option" where
  "he_run h [] = Some h"
| "he_run h (e # es) = (case he_step h e of None \<Rightarrow> None | Some h' \<Rightarrow> he_run h' es)"

text \<open>
  \<^verbatim>\<open>DialStream\<close>: an address that is an IP is dialled at once; \<open>race\<close> is the outcome of the machine for
  the host and port.
\<close>

definition he_dial_stream ::
  "(string \<Rightarrow> bytes option) \<Rightarrow> (string \<Rightarrow> err + 'c) \<Rightarrow> (string \<Rightarrow> string \<Rightarrow> err + 'c) \<Rightarrow> string \<Rightarrow> err + 'c" where
  "he_dial_stream parse_ip dial race address =
     (case split_host_port address of
        Inl e \<Rightarrow> Inl (ErrWrap ''failed to parse address'' e)
      | Inr (hostname, port) \<Rightarrow>
          if parse_ip hostname \<noteq> None then dial address else race hostname port)"

section \<open>Invariants\<close>

lemma he_run_invariant:
  assumes step: "\<And>h e h'. P h \<Longrightarrow> he_step h e = Some h' \<Longrightarrow> P h'"
  shows "P h \<Longrightarrow> he_run h es = Some h' \<Longrightarrow> P h'"
  by (induction es arbitrary: h) (auto split: option.splits intro: step)

text \<open>The books of the addresses and of the pending operations.\<close>

definition he_core :: "'c he \<Rightarrow> bool" where
  "he_core h \<longleftrightarrow>
     mset (he_resolved h) = mset (he_dialed h) + mset (he_ip6s h) + mset (he_ip4s h)
     \<and> (\<forall>ip \<in> set (he_ip6s h). is6 ip) \<and> (\<forall>ip \<in> set (he_ip4s h). \<not> is6 ip)
     \<and> (he_result h = None \<longrightarrow>
         mset (he_dialed h) = mset (map snd (he_inflight h)) + mset (he_failed h) + mset (he_lost h)
         \<and> he_ops h = of_bool (he_res_open h) + int (length (he_ip6s h)) + int (length (he_ip4s h))
            + int (length (he_inflight h)) + int (length (he_lost h))
         \<and> (he_lost h \<noteq> [] \<longrightarrow> he_cancelled h)
         \<and> (he_dial_err h = None \<longleftrightarrow> he_failed h = []))"

text \<open>What a failure means, and that the loop goes on while operations are pending.\<close>

definition he_end :: "'c he \<Rightarrow> bool" where
  "he_end h \<longleftrightarrow>
     (he_result h = None \<longrightarrow> 0 < he_ops h)
     \<and> (\<forall>e. he_result h = Some (Inl e) \<and> \<not> he_cancelled h \<longrightarrow>
        \<not> he_res_open h \<and> he_inflight h = [] \<and> mset (he_failed h) = mset (he_resolved h) \<and> e = he_error h
        \<and> (he_dial_err h = None \<longleftrightarrow> he_failed h = []))"

definition he_books :: "'c he \<Rightarrow> bool" where
  "he_books h \<longleftrightarrow> he_core h \<and> he_end h"

lemma he_gate_eq: "\<exists>r. he_gate h = h\<lparr>he_ready := r\<rparr>"
  unfolding he_gate_def by (metis (full_types) he.surjective he.update_convs(8))

lemma he_core_ready [simp]: "he_core (h\<lparr>he_ready := r\<rparr>) = he_core h"
  by (simp add: he_core_def)

lemma he_error_ready [simp]: "he_error (h\<lparr>he_ready := r\<rparr>) = he_error h"
  by (simp add: he_error_def split: option.split)

lemma he_end_ready [simp]: "he_end (h\<lparr>he_ready := r\<rparr>) = he_end h"
  by (simp add: he_end_def)

lemma pending_none:
  "of_bool b + int k + int l + int m + int n \<le> 0 \<Longrightarrow> \<not> b \<and> k = 0 \<and> l = 0 \<and> m = 0 \<and> n = 0"
  by (cases b; simp; presburger)

lemma he_head_books:
  assumes "he_core h" "he_result h = None"
  shows "he_books (he_head h)"
proof (cases "he_ops h \<le> 0")
  case True
  have z: "\<not> he_res_open h \<and> he_ip6s h = [] \<and> he_ip4s h = [] \<and> he_inflight h = [] \<and> he_lost h = []"
    using pending_none [of "he_res_open h" "length (he_ip6s h)" "length (he_ip4s h)" "length (he_inflight h)"
        "length (he_lost h)"] assms True by (simp add: he_core_def)
  then show ?thesis
    using assms True by (auto simp: he_books_def he_head_def he_core_def he_end_def he_error_def)
next
  case False
  obtain r where "he_gate h = h\<lparr>he_ready := r\<rparr>" using he_gate_eq by blast
  then show ?thesis
    using assms False by (simp add: he_books_def he_head_def) (simp add: he_end_def)
qed

lemma mset_filter_split: "mset (filter P xs) + mset (filter (\<lambda>x. \<not> P x) xs) = mset xs"
  by (simp add: mset_filter)

lemma he_lookup_core: "he_core h \<Longrightarrow> he_core (he_lookup ips e h)"
  using sum_length_filter_compl [of is6 ips] mset_filter_split [of is6 ips, symmetric]
  by (cases e) (auto simp: he_core_def he_lookup_def simp del: mset_filter)

lemma he_lookup_done_core: "he_core h \<Longrightarrow> he_res_open h \<Longrightarrow> he_core (he_lookup_done h)"
  by (auto simp: he_core_def he_lookup_done_def)

lemma he_pick_core:
  assumes "he_ip6s h \<noteq> [] \<or> he_ip4s h \<noteq> []"
  obtains (v4) ip r where "he_pick h = (ip, h\<lparr>he_ip4s := r\<rparr>)" "he_ip4s h = ip # r"
      "he_ip6s h = [] \<or> (\<exists>l. he_last h = Some l \<and> is6 l)"
  | (v6) ip r where "he_pick h = (ip, h\<lparr>he_ip6s := r\<rparr>)" "he_ip6s h = ip # r"
      "he_ip4s h = [] \<or> \<not> (\<exists>l. he_last h = Some l \<and> is6 l)"
proof (cases "he_ip6s h = [] \<or> ((\<exists>ip. he_last h = Some ip \<and> is6 ip) \<and> he_ip4s h \<noteq> [])")
  case True
  then show thesis using assms by (intro v4 [of "hd (he_ip4s h)" "tl (he_ip4s h)"]) (auto simp: he_pick_def)
next
  case False
  then show thesis using assms by (intro v6 [of "hd (he_ip6s h)" "tl (he_ip6s h)"]) (auto simp: he_pick_def)
qed

lemma he_dial_core:
  assumes "he_core h" "he_ip6s h \<noteq> [] \<or> he_ip4s h \<noteq> []"
  shows "he_core (he_dial h)"
  using assms(2)
proof (cases rule: he_pick_core)
  case (v4 ip r)
  then show ?thesis using assms(1) by (auto simp: he_core_def he_dial_def)
next
  case (v6 ip r)
  then show ?thesis using assms(1) by (auto simp: he_core_def he_dial_def)
qed

lemma mset_remove_attempt:
  assumes "map_of xs i = Some ip"
  shows "mset (map snd xs) = add_mset ip (mset (map snd (remove1 (i, ip) xs)))"
    and "length xs = Suc (length (remove1 (i, ip) xs))"
proof -
  have m: "(i, ip) \<in> set xs" by (rule map_of_SomeD) (rule assms)
  then have "mset xs = add_mset (i, ip) (mset (remove1 (i, ip) xs))" by simp
  then show "mset (map snd xs) = add_mset ip (mset (map snd (remove1 (i, ip) xs)))"
    by (metis image_mset_add_mset mset_map snd_conv)
  have "0 < length xs" using m by (cases xs) auto
  then show "length xs = Suc (length (remove1 (i, ip) xs))" using m by (simp add: length_remove1)
qed

lemma he_dial_result_books:
  assumes "he_core h" "he_result h = None" "map_of (he_inflight h) i = Some ip"
  shows "he_books (he_dial_result i ip r h)"
proof (cases r)
  case (Inl e)
  have "he_core (h\<lparr>he_ops := he_ops h - 1, he_inflight := remove1 (i, ip) (he_inflight h),
      he_dial_err := Some (join_err (he_dial_err h) e), he_failed := he_failed h @ [ip]\<rparr>)"
    using assms(1,2) mset_remove_attempt [OF assms(3)] by (simp add: he_core_def)
  from he_head_books [OF this] show ?thesis using Inl assms(2) by (simp add: he_dial_result_def)
next
  case (Inr c)
  then show ?thesis using assms by (simp add: he_dial_result_def he_books_def he_core_def he_end_def)
qed

lemma he_drop_books:
  assumes "he_books h" "he_result h \<noteq> None \<or> he_cancelled h" "map_of (he_inflight h) i = Some ip"
  shows "he_books (he_drop i ip r h)"
proof -
  note m = mset_remove_attempt [OF assms(3)]
  have n: "he_inflight h \<noteq> []" using assms(3) by (cases "he_inflight h") auto
  show ?thesis
  proof (cases "he_result h")
    case None
    then show ?thesis using assms m
      by (cases r) (auto simp: he_drop_def he_books_def he_core_def he_end_def)
  next
    case (Some x)
    then show ?thesis using assms n
      by (cases r) (auto simp: he_drop_def he_books_def he_core_def he_end_def)
  qed
qed

text \<open>The channels that the loop waits for.\<close>

definition he_wait :: "'c he \<Rightarrow> bool" where
  "he_wait h \<longleftrightarrow>
     (he_last h = None \<and> he_ip6s h = [] \<and> he_res_open h \<and> he_ip4s h \<noteq> [] \<longrightarrow>
        he_ready h = None \<and> he_first h = he_now h \<or> he_ready h = Some (ChDeadline (he_first h + 50)))
     \<and> (he_last h = None \<longrightarrow> he_delay h = ChClosed)
     \<and> (he_last h \<noteq> None \<longrightarrow>
          he_next h \<noteq> 0 \<and> he_delay h = ChAttempt (he_next h - 1) (he_last_start h + 250))"

definition he_timing :: "'c he \<Rightarrow> bool" where
  "he_timing h \<longleftrightarrow>
     (he_result h = None \<longrightarrow>
        he_ready h =
          (if he_ip6s h = [] \<and> he_ip4s h = [] then None
           else if he_last h = None \<and> he_ip6s h = [] \<and> he_res_open h then Some (ChDeadline (he_first h + 50))
           else Some (he_delay h))
        \<and> (he_last h = None \<longrightarrow> he_delay h = ChClosed)
        \<and> (he_last h \<noteq> None \<longrightarrow>
             he_next h \<noteq> 0 \<and> he_delay h = ChAttempt (he_next h - 1) (he_last_start h + 250)))"

lemma he_head_timing: "he_wait h \<Longrightarrow> he_timing (he_head h)"
  by (auto simp: he_timing_def he_wait_def he_head_def he_gate_def)

lemma he_timing_ready: "he_timing h \<Longrightarrow> he_result h = None \<Longrightarrow> he_ready h = Some ch \<Longrightarrow> he_ip6s h \<noteq> [] \<or> he_ip4s h \<noteq> []"
  by (auto simp: he_timing_def)

definition he_inv :: "'c he \<Rightarrow> bool" where
  "he_inv h \<longleftrightarrow> he_books h \<and> he_timing h"

lemma he_lookup_wait: "he_timing h \<Longrightarrow> he_result h = None \<Longrightarrow> he_wait (he_lookup ips e h)"
  by (cases e) (auto simp: he_timing_def he_wait_def he_lookup_def split: option.splits)

lemma he_dial_wait:
  assumes "he_ip6s h \<noteq> [] \<or> he_ip4s h \<noteq> []"
  shows "he_wait (he_dial h)"
  using assms by (cases rule: he_pick_core) (auto simp: he_dial_def he_wait_def)

lemma he_dial_result_timing:
  "he_timing h \<Longrightarrow> he_result h = None \<Longrightarrow> he_timing (he_dial_result i ip r h)"
  unfolding he_dial_result_def Let_def
  by (cases r) (auto simp: he_timing_def he_head_def he_gate_def split: option.splits)

lemma he_inv_step: "he_inv h \<Longrightarrow> he_step h e = Some h' \<Longrightarrow> he_inv h'"
proof (cases e)
  case (EvLookup ips x)
  assume "he_inv h" "he_step h e = Some h'"
  then show ?thesis using EvLookup he_head_books [OF he_lookup_core, of h ips x] he_head_timing [OF he_lookup_wait, of h ips x]
    by (auto simp: he_inv_def he_books_def he_lookup_def split: if_splits option.splits)
next
  case EvLookupDone
  assume a: "he_inv h" "he_step h e = Some h'"
  then have "he_wait (he_lookup_done h)" "he_result h = None"
    using EvLookupDone by (auto simp: he_inv_def he_timing_def he_wait_def he_lookup_done_def split: if_splits)
  then show ?thesis using a EvLookupDone he_head_books [OF he_lookup_done_core, of h] he_head_timing
    by (auto simp: he_inv_def he_books_def he_lookup_done_def split: if_splits)
next
  case EvReady
  assume a: "he_inv h" "he_step h e = Some h'"
  then obtain ch where r: "he_result h = None" "he_ready h = Some ch" "h' = he_head (he_dial h)"
    using EvReady by (auto split: option.splits if_splits)
  have n: "he_ip6s h \<noteq> [] \<or> he_ip4s h \<noteq> []" using he_timing_ready r a by (auto simp: he_inv_def)
  have "he_result (he_dial h) = None" using n r by (cases rule: he_pick_core) (auto simp: he_dial_def)
  then show ?thesis
    using he_head_books [OF he_dial_core [OF _ n]] he_head_timing [OF he_dial_wait [OF n]] a r
    by (simp add: he_inv_def he_books_def)
next
  case (EvDialed i r)
  assume "he_inv h" "he_step h e = Some h'"
  then show ?thesis using EvDialed he_dial_result_books [of h i _ r] he_dial_result_timing [of h i _ r]
    by (auto simp: he_inv_def he_books_def split: option.splits if_splits)
next
  case (EvDropped i r)
  assume a: "he_inv h" "he_step h e = Some h'"
  then obtain ip where i: "map_of (he_inflight h) i = Some ip" "he_result h \<noteq> None \<or> he_cancelled h" "h' = he_drop i ip r h"
    using EvDropped by (auto split: option.splits if_splits)
  have "he_timing h'" using a i by (cases r) (auto simp: he_inv_def he_timing_def he_drop_def)
  then show ?thesis using he_drop_books i a by (auto simp: he_inv_def)
next
  case (EvTick t)
  assume a: "he_inv h" "he_step h e = Some h'"
  then have h: "h' = h\<lparr>he_now := t\<rparr>" using EvTick by (simp split: if_splits)
  have err: "he_error h' = he_error h" by (simp add: h he_error_def split: option.split)
  have "he_core h' = he_core h" by (simp add: h he_core_def)
  moreover have "he_end h' = he_end h" by (simp only: he_end_def err) (simp add: h)
  moreover have "he_timing h' = he_timing h" by (simp add: h he_timing_def)
  ultimately show ?thesis using a(1) by (simp add: he_inv_def he_books_def)
next
  case EvCancel
  assume a: "he_inv h" "he_step h e = Some h'"
  then have h: "he_result h = None" "h' = h\<lparr>he_cancelled := True\<rparr>" using EvCancel by (auto split: if_splits)
  then have "he_core h \<Longrightarrow> he_core h'" "he_end h \<Longrightarrow> he_end h'" "he_timing h \<Longrightarrow> he_timing h'"
    by (simp_all add: he_core_def he_end_def he_timing_def)
  then show ?thesis using a(1) by (simp add: he_inv_def he_books_def)
next
  case EvCtxDone
  assume a: "he_inv h" "he_step h e = Some h'"
  then have h: "he_result h = None" "he_cancelled h" "h' = h\<lparr>he_result := Some (Inl errCanceled)\<rparr>"
    using EvCtxDone by (auto split: if_splits)
  then have "he_core h \<Longrightarrow> he_core h'" "he_end h'" "he_timing h'"
    by (simp_all add: he_core_def he_end_def he_timing_def)
  then show ?thesis using a(1) by (simp add: he_inv_def he_books_def)
qed

lemma he_inv_init: "he_inv (he_init t)"
proof -
  have "he_wait (he_init t)" "he_core (he_init t)"
    by (simp_all add: he_init_def he_head_def he_gate_def he_wait_def he_core_def)
  then show ?thesis
    unfolding he_inv_def he_books_def he_init_def
    by (simp add: he_head_def he_gate_def he_end_def he_core_def he_timing_def)
qed

lemma he_inv_run: "he_run (he_init t) es = Some h \<Longrightarrow> he_inv h"
  by (rule he_run_invariant [of he_inv, OF he_inv_step he_inv_init])

section \<open>Failures, attempts and connections\<close>

text \<open>
  C12: without a cancellation \<^verbatim>\<open>DialStream\<close> fails only when the lookups are done and the attempt of
  every address they gave has failed, and never tries an address twice; the error is that of the
  attempts if there were any, then that of the lookups, then "no IPs".
\<close>

theorem he_failure_means:
  assumes "he_run (he_init t) es = Some h"
  shows "mset (he_dialed h) \<subseteq># mset (he_resolved h)
     \<and> (\<forall>e. he_result h = Some (Inl e) \<and> \<not> he_cancelled h \<longrightarrow>
          \<not> he_res_open h \<and> he_inflight h = [] \<and> mset (he_failed h) = mset (he_resolved h)
          \<and> (he_resolved h \<noteq> [] \<longrightarrow> he_dial_err h = Some e)
          \<and> (he_resolved h = [] \<longrightarrow>
              e = (case he_lookup_err h of Some x \<Rightarrow> x | None \<Rightarrow> ErrNew ''address lookup returned no IPs'')))"
proof (intro conjI allI impI)
  have i: "he_core h" "he_end h" using he_inv_run [OF assms] by (simp_all add: he_inv_def he_books_def)
  then have "mset (he_resolved h) = mset (he_dialed h) + (mset (he_ip6s h) + mset (he_ip4s h))"
    by (simp add: he_core_def)
  then show "mset (he_dialed h) \<subseteq># mset (he_resolved h)" by (metis mset_subset_eq_add_left)
  fix e assume e: "he_result h = Some (Inl e) \<and> \<not> he_cancelled h"
  with i(2) have f: "\<not> he_res_open h \<and> he_inflight h = [] \<and> mset (he_failed h) = mset (he_resolved h)
      \<and> e = he_error h \<and> (he_dial_err h = None \<longleftrightarrow> he_failed h = [])"
    by (simp add: he_end_def)
  then show "\<not> he_res_open h" "he_inflight h = []" "mset (he_failed h) = mset (he_resolved h)" by simp_all
  from f have "he_failed h = [] \<longleftrightarrow> he_resolved h = []" by (metis mset_zero_iff)
  then show "he_resolved h \<noteq> [] \<Longrightarrow> he_dial_err h = Some e"
    and "he_resolved h = [] \<Longrightarrow>
      e = (case he_lookup_err h of Some x \<Rightarrow> x | None \<Rightarrow> ErrNew ''address lookup returned no IPs'')"
    using f by (auto simp: he_error_def)
qed

definition he_conns :: "'c he \<Rightarrow> bool" where
  "he_conns h \<longleftrightarrow>
     mset (he_opened h) = mset (he_conns_closed h)
       + (case he_result h of Some (Inr c) \<Rightarrow> {#c#} | _ \<Rightarrow> {#})"

lemma he_head_conns: "he_result h = None \<Longrightarrow> he_conns h \<Longrightarrow> he_conns (he_head h)"
  by (simp add: he_conns_def he_head_def he_gate_def)

lemma he_conns_step: "he_conns h \<Longrightarrow> he_step h e = Some h' \<Longrightarrow> he_conns h'"
proof (cases e)
  case (EvLookup ips x)
  assume a: "he_conns h" "he_step h e = Some h'"
  have "he_result h = None \<Longrightarrow> he_conns (he_lookup ips x h) \<and> he_result (he_lookup ips x h) = None"
    using a(1) by (cases x) (simp_all add: he_conns_def he_lookup_def)
  then show ?thesis using a EvLookup he_head_conns by (auto split: if_splits)
next
  case EvLookupDone
  assume a: "he_conns h" "he_step h e = Some h'"
  have "he_result h = None \<Longrightarrow> he_conns (he_lookup_done h) \<and> he_result (he_lookup_done h) = None"
    using a(1) by (simp add: he_conns_def he_lookup_done_def)
  then show ?thesis using a EvLookupDone he_head_conns by (auto split: if_splits)
next
  case EvReady
  assume a: "he_conns h" "he_step h e = Some h'"
  have "he_result h = None \<Longrightarrow> he_conns (he_dial h) \<and> he_result (he_dial h) = None"
    using a(1) by (simp add: he_conns_def he_dial_def he_pick_def)
  then show ?thesis using a EvReady he_head_conns by (auto split: if_splits option.splits)
next
  case (EvDialed i r)
  assume a: "he_conns h" "he_step h e = Some h'"
  then obtain ip where i: "he_result h = None" "h' = he_dial_result i ip r h"
    using EvDialed by (auto split: option.splits if_splits)
  show ?thesis
  proof (cases r)
    case (Inl x)
    then show ?thesis using a(1) i by (simp add: he_dial_result_def) (intro he_head_conns; simp add: he_conns_def)
  next
    case (Inr c)
    then show ?thesis using a(1) i by (simp add: he_dial_result_def he_conns_def)
  qed
next
  case (EvDropped i r)
  assume a: "he_conns h" "he_step h e = Some h'"
  then obtain ip where "h' = he_drop i ip r h" using EvDropped by (auto split: option.splits if_splits)
  then show ?thesis using a(1) by (cases r) (simp_all add: he_drop_def he_conns_def)
qed (auto simp: he_conns_def split: if_splits)

text \<open>
  C13: no connection leaks: at every moment of every run, with cancellations and with attempts that end
  after \<^verbatim>\<open>DialStream\<close> has returned, each connection that an attempt gave is either the result or closed.
\<close>

theorem he_no_leak:
  assumes "he_run (he_init t) es = Some h"
  shows "mset (he_opened h) = mset (he_conns_closed h)
     + (case he_result h of Some (Inr c) \<Rightarrow> {#c#} | _ \<Rightarrow> {#})"
proof -
  have "he_conns (he_init t :: 'a he)" by (simp add: he_conns_def he_init_def he_head_def he_gate_def)
  from he_run_invariant [of he_conns, OF he_conns_step this assms] show ?thesis by (simp add: he_conns_def)
qed

section \<open>Pace and order\<close>

text \<open>
  C14: unless the caller cancels, an attempt starts only when the one before has ended or has had 250
  milliseconds; and a first attempt over IPv4, with the lookups still running and no IPv6 address, only
  50 milliseconds after the first address arrived.
\<close>

theorem he_pace:
  assumes "he_run (he_init t) es = Some h" "he_step h EvReady = Some h'" "\<not> he_cancelled h"
  shows "(he_last h = None \<and> he_ip6s h = [] \<and> he_res_open h \<longrightarrow> he_first h + 50 \<le> he_now h)
     \<and> (he_last h \<noteq> None \<longrightarrow>
         he_last_start h + 250 \<le> he_now h \<or> he_next h - 1 \<notin> fst ` set (he_inflight h))"
proof -
  obtain ch where "he_ready h = Some ch" "he_result h = None" "he_chan_done h ch"
    using assms(2) by (auto split: option.splits if_splits)
  moreover have "he_timing h" using he_inv_run [OF assms(1)] by (simp add: he_inv_def)
  ultimately show ?thesis
    using assms(3)
    by (cases "he_last h") (simp_all add: he_timing_def he_chan_done_def split: if_splits, blast?)
qed

text \<open>
  The loop cannot get stuck: as long as \<^verbatim>\<open>DialStream\<close> has not returned, a lookup or an attempt is
  still running, or the next attempt can start at once.
\<close>

theorem he_progress:
  assumes "he_run (he_init t) es = Some h" "he_result h = None" "\<not> he_cancelled h"
  shows "he_res_open h \<or> he_inflight h \<noteq> [] \<or> (\<exists>h'. he_step h EvReady = Some h')"
proof (rule ccontr)
  assume n: "\<not> ?thesis"
  have i: "he_core h" "he_end h" "he_timing h"
    using he_inv_run [OF assms(1)] by (simp_all add: he_inv_def he_books_def)
  then have ips: "he_ip6s h \<noteq> [] \<or> he_ip4s h \<noteq> []"
    using n assms(2,3) by (auto simp: he_core_def he_end_def)
  then have "he_ready h = Some (he_delay h)" "he_chan_done h (he_delay h)"
    using i(3) n assms(2) by (cases "he_last h"; simp add: he_timing_def he_chan_done_def)+
  then show False using n assms(2) by simp
qed

text \<open>The addresses in the order in which they are tried, when the last attempt was over IPv6 or not.\<close>

fun he_plan :: "bool \<Rightarrow> bytes list \<Rightarrow> bytes list \<Rightarrow> bytes list" where
  "he_plan last6 [] bs = bs"
| "he_plan last6 (a # as) [] = a # as"
| "he_plan True (a # as) (b # bs) = b # he_plan False (a # as) bs"
| "he_plan False (a # as) (b # bs) = a # he_plan True as (b # bs)"

definition plan_of :: "'c he \<Rightarrow> bytes list" where
  "plan_of h = he_plan (\<exists>ip. he_last h = Some ip \<and> is6 ip) (he_ip6s h) (he_ip4s h)"

lemma he_plan_4: "as = [] \<or> l6 \<Longrightarrow> he_plan l6 as (b # bs) = b # he_plan False as bs"
  by (cases as; cases l6) auto

lemma he_plan_6: "bs = [] \<or> \<not> l6 \<Longrightarrow> he_plan l6 (a # as) bs = a # he_plan True as bs"
  by (cases bs; cases as; cases l6) auto

lemma he_dial_plan:
  assumes "he_core h" "he_ip6s h \<noteq> [] \<or> he_ip4s h \<noteq> []"
  shows "he_dialed (he_dial h) @ plan_of (he_dial h) = he_dialed h @ plan_of h
     \<and> he_res_open (he_dial h) = he_res_open h"
  using assms(2)
proof (cases rule: he_pick_core)
  case (v4 ip r)
  then have "\<not> is6 ip" using assms(1) by (simp add: he_core_def)
  then show ?thesis using v4 by (auto simp: he_dial_def plan_of_def he_plan_4)
next
  case (v6 ip r)
  then have "is6 ip" using assms(1) by (simp add: he_core_def)
  then show ?thesis using v6 by (auto simp: he_dial_def plan_of_def he_plan_6)
qed

lemma he_head_plan: "he_dialed (he_head h) @ plan_of (he_head h) = he_dialed h @ plan_of h
    \<and> he_res_open (he_head h) = he_res_open h"
  by (simp add: he_head_def he_gate_def plan_of_def)

definition he_planned :: "bytes list \<Rightarrow> 'c he \<Rightarrow> bool" where
  "he_planned ips h \<longleftrightarrow> he_inv h \<and> \<not> he_res_open h \<and> he_dialed h @ plan_of h = ips"

lemma he_planned_step: "he_planned ips h \<Longrightarrow> he_step h e = Some h' \<Longrightarrow> he_planned ips h'"
proof (cases e)
  case EvReady
  assume a: "he_planned ips h" "he_step h e = Some h'"
  then obtain ch where r: "he_result h = None" "he_ready h = Some ch" "h' = he_head (he_dial h)"
    using EvReady by (auto split: option.splits if_splits)
  have "he_ip6s h \<noteq> [] \<or> he_ip4s h \<noteq> []"
    using a(1) he_timing_ready r by (auto simp: he_planned_def he_inv_def)
  then show ?thesis
    using a r he_inv_step [of h e h'] he_dial_plan [of h] he_head_plan [of "he_dial h"]
    by (auto simp: he_planned_def he_inv_def he_books_def)
next
  case (EvDialed i r)
  assume a: "he_planned ips h" "he_step h e = Some h'"
  then obtain ip where i: "h' = he_dial_result i ip r h"
    using EvDialed by (auto split: option.splits if_splits)
  have "he_dialed h' @ plan_of h' = he_dialed h @ plan_of h \<and> he_res_open h' = he_res_open h"
    using i by (cases r) (simp_all add: he_dial_result_def he_head_plan, simp_all add: plan_of_def)
  then show ?thesis using a he_inv_step [of h e h'] by (simp add: he_planned_def)
next
  case (EvDropped i r)
  assume a: "he_planned ips h" "he_step h e = Some h'"
  then obtain ip where i: "h' = he_drop i ip r h"
    using EvDropped by (auto split: option.splits if_splits)
  have "he_dialed h' @ plan_of h' = he_dialed h @ plan_of h \<and> he_res_open h' = he_res_open h"
    using i by (cases r) (simp_all add: he_drop_def plan_of_def)
  then show ?thesis using a he_inv_step [of h e h'] by (simp add: he_planned_def)
qed (use he_inv_step [of h e h'] in \<open>auto simp: he_planned_def plan_of_def split: if_splits\<close>)

text \<open>
  C15: once the lookups are done, the addresses that are left are tried in a fixed order, whatever the
  attempts do: the families alternate, starting with the one that was not tried last, and IPv6 if none
  was, for as long as both have addresses, and each family keeps its order.
\<close>

theorem he_order:
  assumes "he_run (he_init t) es = Some h" "\<not> he_res_open h" "he_run h es' = Some h'"
  shows "he_dialed h' @ plan_of h' = he_dialed h @ plan_of h"
proof -
  have "he_planned (he_dialed h @ plan_of h) h"
    using assms(1,2) he_inv_run by (simp add: he_planned_def)
  from he_run_invariant [of "he_planned (he_dialed h @ plan_of h)", OF he_planned_step this assms(3)]
  show ?thesis by (simp add: he_planned_def)
qed

section \<open>Parallel lookups\<close>

text \<open>
  The goroutines of \<^verbatim>\<open>NewParallelHappyEyeballsResolveFunc\<close>: each sends its result on the channel and
  then counts down, and the last one closes the channel. The steps of different goroutines interleave;
  \<open>pr_closed\<close> counts the closes.
\<close>

datatype par_phase = PRunning | PSent | PDone

record par =
  pr_phases :: "par_phase list"
  pr_pending :: int
  pr_ch :: "(bytes list \<times> err option) list"
  pr_closed :: nat

definition par_init :: "nat \<Rightarrow> par" where
  "par_init n = \<lparr>pr_phases = replicate n PRunning, pr_pending = int n, pr_ch = [],
                 pr_closed = (if n = 0 then 1 else 0)\<rparr>"

datatype par_event = ParSend nat "bytes list \<times> err option" | ParFinish nat

fun par_step :: "par \<Rightarrow> par_event \<Rightarrow> par option" where
  "par_step p (ParSend i r) =
     (if i < length (pr_phases p) \<and> pr_phases p ! i = PRunning
      then Some (p\<lparr>pr_phases := (pr_phases p)[i := PSent], pr_ch := pr_ch p @ [r]\<rparr>) else None)"
| "par_step p (ParFinish i) =
     (if i < length (pr_phases p) \<and> pr_phases p ! i = PSent
      then (let q = p\<lparr>pr_phases := (pr_phases p)[i := PDone], pr_pending := pr_pending p - 1\<rparr> in
            Some (if pr_pending q = 0 then q\<lparr>pr_closed := Suc (pr_closed q)\<rparr> else q)) else None)"

fun par_run :: "par \<Rightarrow> par_event list \<Rightarrow> par option" where
  "par_run p [] = Some p"
| "par_run p (e # es) = (case par_step p e of None \<Rightarrow> None | Some q \<Rightarrow> par_run q es)"

definition par_inv :: "nat \<Rightarrow> par \<Rightarrow> bool" where
  "par_inv n p \<longleftrightarrow>
     length (pr_phases p) = n
     \<and> pr_pending p = int (length (filter (\<lambda>x. x \<noteq> PDone) (pr_phases p)))
     \<and> length (pr_ch p) = length (filter (\<lambda>x. x \<noteq> PRunning) (pr_phases p))
     \<and> pr_closed p = of_bool (pr_pending p = 0)"

lemma par_inv_step: "par_inv n p \<Longrightarrow> par_step p e = Some q \<Longrightarrow> par_inv n q"
proof (cases e)
  case (ParSend i r)
  assume a: "par_inv n p" "par_step p e = Some q"
  then have i: "i < length (pr_phases p)" "pr_phases p ! i = PRunning" using ParSend by (auto split: if_splits)
  from i a ParSend show ?thesis
    using length_filter_update [OF i(1), of "\<lambda>x. x \<noteq> PDone" PSent]
      length_filter_update [OF i(1), of "\<lambda>x. x \<noteq> PRunning" PSent]
    by (auto simp: par_inv_def)
next
  case (ParFinish i)
  assume a: "par_inv n p" "par_step p e = Some q"
  then have i: "i < length (pr_phases p)" "pr_phases p ! i = PSent" using ParFinish by (auto split: if_splits)
  from i a ParFinish show ?thesis
    using length_filter_update [OF i(1), of "\<lambda>x. x \<noteq> PDone" PDone]
      length_filter_update [OF i(1), of "\<lambda>x. x \<noteq> PRunning" PDone]
    by (auto simp: par_inv_def Let_def split: if_splits)
qed

lemma par_inv_run: "par_inv n p \<Longrightarrow> par_run p es = Some q \<Longrightarrow> par_inv n q"
  by (induction es arbitrary: p) (auto split: option.splits intro: par_inv_step)

lemma par_open: "par_inv n p \<Longrightarrow> i < n \<Longrightarrow> pr_phases p ! i \<noteq> PDone \<Longrightarrow> pr_closed p = 0"
  using nth_mem [of i "pr_phases p"] by (auto simp: par_inv_def filter_empty_conv)

text \<open>
  The results channel is closed exactly once, when every lookup has delivered its result: never
  while a result is still to be sent, so no send panics, and the buffer has room for each result.
\<close>

theorem parallel_resolve_safe:
  assumes "par_run (par_init n) es = Some p"
  shows "length (pr_ch p) \<le> n \<and> pr_closed p \<le> 1
     \<and> (pr_closed p = 1 \<longleftrightarrow> (\<forall>i < n. pr_phases p ! i = PDone))
     \<and> (pr_closed p = 1 \<longrightarrow> length (pr_ch p) = n)
     \<and> (\<forall>i r q. par_step p (ParSend i r) = Some q \<longrightarrow> pr_closed p = 0 \<and> length (pr_ch p) < n)"
proof -
  have "par_inv n (par_init n)" by (simp add: par_inv_def par_init_def)
  then have i: "par_inv n p" by (rule par_inv_run) (rule assms)
  have l: "length (pr_phases p) = n" using i by (simp add: par_inv_def)
  have c: "pr_closed p = 1 \<longleftrightarrow> (\<forall>i < n. pr_phases p ! i = PDone)"
    using i by (simp add: par_inv_def filter_empty_conv all_set_conv_all_nth)
  have "length (pr_ch p) = n" if "pr_closed p = 1"
  proof -
    have "\<forall>x \<in> set (pr_phases p). x \<noteq> PRunning" using that c l by (auto simp: in_set_conv_nth)
    then show ?thesis using i by (simp add: par_inv_def)
  qed
  moreover have "pr_closed p = 0 \<and> length (pr_ch p) < n" if "par_step p (ParSend i r) = Some q" for i r q
  proof -
    have h: "i < n" "pr_phases p ! i = PRunning" using that l by (auto split: if_splits)
    then have "filter (\<lambda>x. x \<noteq> PRunning) (pr_phases p) \<noteq> pr_phases p"
      using l by (metis (mono_tags, lifting) filter_id_conv nth_mem)
    then have "length (filter (\<lambda>x. x \<noteq> PRunning) (pr_phases p)) < n"
      using l by (metis length_filter_less filter_id_conv)
    then show ?thesis using i h par_open [OF i h(1)] by (simp add: par_inv_def)
  qed
  ultimately show ?thesis using i c by (auto simp: par_inv_def)
qed

section \<open>Witnesses\<close>

abbreviation demo_v6 :: bytes where "demo_v6 \<equiv> replicate 16 1"
abbreviation demo_v4 :: bytes where "demo_v4 \<equiv> [10, 0, 0, 1]"

text \<open>IPv4 arrives first; the lookups end without an IPv6 address; the attempt fails.\<close>

definition demo_failing :: "nat he_event list" where
  "demo_failing = [EvLookup [demo_v4] None, EvTick 60, EvReady, EvLookupDone, EvDialed 0 (Inl EOF)]"

lemmas he_run_simps = he_init_def he_head_def he_gate_def he_lookup_def he_lookup_done_def he_dial_def
  he_pick_def he_dial_result_def he_drop_def he_chan_done_def is6_def he_error_def join_err_def Let_def

lemma he_failure_means_witness:
  "\<exists>h. he_run (he_init 10 :: nat he) demo_failing = Some h \<and> he_result h = Some (Inl (ErrJoin [EOF]))
     \<and> mset (he_failed h) = {#demo_v4#}"
proof -
  obtain h where h: "he_run (he_init 10 :: nat he) demo_failing = Some h"
    and r: "he_result h = Some (Inl (ErrJoin [EOF]))" "\<not> he_cancelled h" "he_resolved h = [demo_v4]"
    by (simp add: demo_failing_def he_run_simps)
  then show ?thesis using he_failure_means [OF h] by auto
qed

definition demo_racing :: "nat he_event list" where
  "demo_racing = [EvLookup [demo_v6, demo_v4] None, EvReady, EvLookupDone, EvTick 300, EvReady,
     EvDialed 1 (Inr 7), EvDropped 0 (Inr 8)]"

lemma he_no_leak_witness:
  "\<exists>h. he_run (he_init 10) demo_racing = Some h \<and> he_result h = Some (Inr 7) \<and> he_conns_closed h = [8]
     \<and> mset (he_opened h) = {#7, 8#}"
proof -
  obtain h where h: "he_run (he_init 10) demo_racing = Some h"
    and r: "he_result h = Some (Inr 7)" "he_conns_closed h = [8]"
    by (simp add: demo_racing_def he_run_simps)
  then show ?thesis using he_no_leak [OF h] by simp
qed

lemma he_pace_witness:
  "\<exists>h h' :: nat he. he_run (he_init 10) [EvLookup [demo_v4] None, EvTick 60] = Some h
     \<and> he_step h EvReady = Some h' \<and> he_first h + 50 \<le> he_now h"
proof -
  obtain h h' :: "nat he" where h: "he_run (he_init 10) [EvLookup [demo_v4] None, EvTick 60] = Some h"
    and r: "he_step h EvReady = Some h'" "\<not> he_cancelled h" "he_last h = None" "he_ip6s h = []" "he_res_open h"
    by (simp add: he_run_simps)
  then show ?thesis using he_pace [OF h] by auto
qed

lemma he_progress_witness:
  "\<exists>h :: nat he. he_run (he_init 10) [EvLookup [demo_v4] None, EvLookupDone] = Some h
     \<and> (\<exists>h'. he_step h EvReady = Some h')"
proof -
  obtain h :: "nat he" where h: "he_run (he_init 10) [EvLookup [demo_v4] None, EvLookupDone] = Some h"
    and r: "he_result h = None" "\<not> he_cancelled h" "\<not> he_res_open h" "he_inflight h = []"
    by (simp add: he_run_simps)
  then show ?thesis using he_progress [OF h] by auto
qed

lemma he_order_witness:
  "\<exists>h h' :: nat he. he_run (he_init 10) [EvLookup [demo_v4, demo_v6] None, EvLookupDone] = Some h
     \<and> he_run h [EvReady] = Some h' \<and> he_dialed h' @ plan_of h' = [demo_v6, demo_v4]"
proof -
  obtain h h' :: "nat he" where h: "he_run (he_init 10) [EvLookup [demo_v4, demo_v6] None, EvLookupDone] = Some h"
    and r: "he_run h [EvReady] = Some h'" "\<not> he_res_open h" "he_dialed h = []" "plan_of h = [demo_v6, demo_v4]"
    by (simp add: he_run_simps plan_of_def)
  then show ?thesis using he_order [OF h r(2,1)] by auto
qed

lemma parallel_resolve_safe_witness:
  "\<exists>p. par_run (par_init 2) [ParSend 1 ([], None), ParSend 0 ([], Some EOF), ParFinish 0, ParFinish 1] = Some p
     \<and> pr_closed p = 1 \<and> length (pr_ch p) = 2"
proof -
  obtain p where p: "par_run (par_init 2) [ParSend 1 ([], None), ParSend 0 ([], Some EOF), ParFinish 0, ParFinish 1] = Some p"
    and c: "pr_closed p = 1"
    by (simp add: par_init_def numeral_2_eq_2)
  then show ?thesis using parallel_resolve_safe [OF p] by auto
qed

end
