(* ===== verification/Disorder.thy ===== *)
theory Disorder
  imports GoIO
begin

text \<open>
  The packet disorder strategy (\<^verbatim>\<open>x/disorder\<close>): the N-th write of a connection goes out with a hop limit
  of 1, so that its first transmission is lost and the network sees the data out of order. The socket
  options (\<^verbatim>\<open>x/sockopt\<close>) are functions on the state of the connection. The lemmas say which write gets
  which hop limit, and what happens when the old limit cannot be restored.
\<close>

section \<open>Socket options\<close>

record 's tcp_options =
  HopLimit :: "'s \<Rightarrow> err + int"
  SetHopLimit :: "'s \<Rightarrow> int \<Rightarrow> 's \<times> err option"

text \<open>
  \<^verbatim>\<open>newHopLimit\<close> chooses the options by the family of the local address: its bytes, or the error of
  parsing it; the options of both families are those of the operating system.
\<close>

definition newHopLimit :: "err + bytes \<Rightarrow> 's tcp_options \<Rightarrow> 's tcp_options \<Rightarrow> err + 's tcp_options" where
  "newHopLimit localAddr ipv4 ipv6 =
     (case localAddr of
        Inl e \<Rightarrow> Inl e
      | Inr ip \<Rightarrow>
          if length ip = 4 then Inr ipv4
          else if length ip = 16 then Inr ipv6
          else Inl (ErrNew ''address is not IPv4 or IPv6''))"

section \<open>The writer\<close>

text \<open>
  The state is \<^verbatim>\<open>writesToDisorder\<close> and that of the connection. The deferred function assigns its error to
  a variable that no one reads, since the one it names is declared inside the block.
\<close>

definition disorder_write :: "'s writer \<Rightarrow> 's tcp_options \<Rightarrow> (int \<times> 's) writer" where
  "disorder_write wr opts x data =
     (case x of (writesToDisorder, s) \<Rightarrow>
        let send = (\<lambda>s. case wr s data of
              (s', n, e) \<Rightarrow> (if writesToDisorder > -1 then writesToDisorder - 1 else writesToDisorder, s', n, e))
        in if writesToDisorder = 0
           then (case HopLimit opts s of
                   Inl e \<Rightarrow> ((writesToDisorder, s), 0, Some (ErrWrap ''failed to get the hop limit'' e))
                 | Inr defaultHopLimit \<Rightarrow>
                     (case SetHopLimit opts s 1 of
                        (s1, Some e) \<Rightarrow>
                          ((writesToDisorder, s1), 0, Some (ErrWrap ''failed to set the hop limit to 1'' e))
                      | (s1, None) \<Rightarrow>
                          (case send s1 of
                             (w, s2, n, e) \<Rightarrow> ((w, fst (SetHopLimit opts s2 defaultHopLimit)), n, e))))
           else (case send s of (w, s', n, e) \<Rightarrow> ((w, s'), n, e)))"

section \<open>The dialer\<close>

definition new_disorder_dialer :: "bool \<Rightarrow> int \<Rightarrow> err + int" where
  "new_disorder_dialer dialerSet disorderPacketN =
     (if \<not> dialerSet then Inl (ErrNew ''argument dialer must not be nil'')
      else if disorderPacketN < 0 then Inl (ErrNew ''disorder argument must be >= 0'')
      else Inr disorderPacketN)"

text \<open>
  \<^verbatim>\<open>DialStream\<close>: the inner connection, if one was made, and the error or the initial state of the
  writer; \<open>is_tcp\<close> is the type test, \<open>options\<close> is \<^verbatim>\<open>sockopt.NewTCPOptions\<close>.
\<close>

definition disorder_dial ::
  "('c \<Rightarrow> bool) \<Rightarrow> ('c \<Rightarrow> err + 'o) \<Rightarrow> int \<Rightarrow> err + 'c \<Rightarrow> 'c option \<times> (err + 'o \<times> int)" where
  "disorder_dial is_tcp options disorderPacketN innerConn =
     (case innerConn of
        Inl e \<Rightarrow> (None, Inl e)
      | Inr c \<Rightarrow>
          if \<not> is_tcp c
          then (Some c, Inl (ErrNew ''disorder strategy: expected base dialer to return TCPConn''))
          else (case options c of
                  Inl e \<Rightarrow> (Some c, Inl e)
                | Inr tcpOptions \<Rightarrow> (Some c, Inr (tcpOptions, disorderPacketN))))"

section \<open>A socket\<close>

text \<open>
  A TCP socket that logs each write with its hop limit; \<open>so_set\<close> are the errors of the next calls of
  \<^verbatim>\<open>SetHopLimit\<close>, none when the list is used up.
\<close>

record hop_sock =
  so_hop :: int
  so_sent :: "(int \<times> bytes) list"
  so_set :: "err option list"

definition sock_write :: "hop_sock writer" where
  "sock_write s p = (s\<lparr>so_sent := so_sent s @ [(so_hop s, p)]\<rparr>, length p, None)"

definition sock_options :: "hop_sock tcp_options" where
  "sock_options =
     \<lparr>HopLimit = (\<lambda>s. Inr (so_hop s)),
      SetHopLimit = (\<lambda>s h. case so_set s of
          [] \<Rightarrow> (s\<lparr>so_hop := h\<rparr>, None)
        | None # r \<Rightarrow> (s\<lparr>so_hop := h, so_set := r\<rparr>, None)
        | Some e # r \<Rightarrow> (s\<lparr>so_set := r\<rparr>, Some e))\<rparr>"

abbreviation disorder_sock :: "(int \<times> hop_sock) writer" where
  "disorder_sock \<equiv> disorder_write sock_write sock_options"

lemma disorder_sock_step:
  "so_set s = [] \<Longrightarrow>
   disorder_sock (c, s) p
     = ((if c > -1 then c - 1 else c, s\<lparr>so_sent := so_sent s @ [(if c = 0 then 1 else so_hop s, p)]\<rparr>), length p, None)"
  by (auto simp: disorder_write_def sock_write_def sock_options_def Let_def)

text \<open>The writes with their hop limits, from the state \<open>c\<close> of the writer on.\<close>

fun hops :: "int \<Rightarrow> int \<Rightarrow> bytes list \<Rightarrow> (int \<times> bytes) list" where
  "hops c h [] = []"
| "hops c h (p # ps) = (if c = 0 then 1 else h, p) # hops (if c > -1 then c - 1 else c) h ps"

lemma hops_nth:
  "-1 \<le> c \<Longrightarrow> hops c h ps = map (\<lambda>i. (if int i = c then 1 else h, ps ! i)) [0..<length ps]"
proof (induction ps arbitrary: c)
  case (Cons p ps)
  have "hops (if c > -1 then c - 1 else c) h ps
      = map (\<lambda>i. (if int i = (if c > -1 then c - 1 else c) then 1 else h, ps ! i)) [0..<length ps]"
    using Cons.prems by (intro Cons.IH) simp
  moreover have "(int i = (if c > -1 then c - 1 else c)) = (int (Suc i) = c)" for i
    using Cons.prems by auto
  ultimately show ?case
    by (auto simp: upt_conv_Cons map_Suc_upt [symmetric] o_def simp del: upt_Suc)
qed simp

lemma disorder_sock_write_all:
  "so_set s = [] \<Longrightarrow>
   \<exists>c'. write_all disorder_sock (c, s) ps
     = ((c', s\<lparr>so_sent := so_sent s @ hops c (so_hop s) ps\<rparr>), length (concat ps), None)"
proof (induction ps arbitrary: s c)
  case (Cons p ps)
  let ?c = "if c > -1 then c - 1 else c"
  let ?s = "s\<lparr>so_sent := so_sent s @ [(if c = 0 then 1 else so_hop s, p)]\<rparr>"
  obtain c' where "write_all disorder_sock (?c, ?s) ps
      = ((c', ?s\<lparr>so_sent := so_sent ?s @ hops ?c (so_hop ?s) ps\<rparr>), length (concat ps), None)"
    using Cons.IH [of ?s ?c] Cons.prems by auto
  then show ?case using Cons.prems disorder_sock_step [of s c p] by simp
qed simp

section \<open>Properties\<close>

text \<open>
  Of the writes of a connection exactly the one with the index given to the dialer goes out with a
  hop limit of 1, every other one with the limit the socket had; no byte is changed, and the limit
  is what it was at the end.
\<close>

theorem disorder_hops:
  assumes "new_disorder_dialer True n = Inr c" "so_set s = []"
  shows "\<exists>w s'. write_all disorder_sock (c, s) ps = ((w, s'), length (concat ps), None)
     \<and> so_sent s' = so_sent s @ map (\<lambda>i. (if int i = n then 1 else so_hop s, ps ! i)) [0..<length ps]
     \<and> so_hop s' = so_hop s"
proof -
  have c: "c = n" "-1 \<le> c" using assms(1) by (auto simp: new_disorder_dialer_def split: if_splits)
  from disorder_sock_write_all [OF assms(2), of c ps] show ?thesis
    using hops_nth [OF c(2), of "so_hop s" ps] c(1) by auto
qed

lemma disorder_stuck:
  "so_set s = [] \<Longrightarrow> so_hop s = 1 \<Longrightarrow>
   \<exists>s'. write_all disorder_sock (-1, s) ps = ((-1, s'), length (concat ps), None)
     \<and> so_sent s' = so_sent s @ map (Pair 1) ps"
proof (induction ps arbitrary: s)
  case (Cons p ps)
  show ?case
    using Cons.IH [of "s\<lparr>so_sent := so_sent s @ [(1, p)]\<rparr>"] Cons.prems disorder_sock_step [of s "-1" p]
    by auto
qed simp

text \<open>
  When the hop limit cannot be restored, \<^verbatim>\<open>Write\<close> still reports success, and every later write of
  the connection goes out with a hop limit of 1 too, also without an error.
\<close>

theorem disorder_restore_swallowed:
  assumes "so_set s = [None, Some e]"
  shows "\<exists>s'. write_all disorder_sock (0, s) (p # ps) = ((-1, s'), length (concat (p # ps)), None)
     \<and> so_sent s' = so_sent s @ map (Pair 1) (p # ps)"
proof -
  let ?s = "s\<lparr>so_hop := 1, so_sent := so_sent s @ [(1, p)], so_set := []\<rparr>"
  have "disorder_sock (0, s) p = ((-1, ?s), length p, None)"
    using assms by (simp add: disorder_write_def sock_write_def sock_options_def Let_def)
  then show ?thesis using disorder_stuck [of ?s ps] by auto
qed

text \<open>
  \<^verbatim>\<open>DialStream\<close> gives a connection only for a TCP connection whose options could be had; in every
  other case in which a connection was made it returns an error and leaves that connection open.
\<close>

theorem disorder_dial_leaks:
  "disorder_dial is_tcp options n (Inr c) =
     (Some c, if is_tcp c then (case options c of Inl e \<Rightarrow> Inl e | Inr opts \<Rightarrow> Inr (opts, n))
              else Inl (ErrNew ''disorder strategy: expected base dialer to return TCPConn''))"
  by (simp add: disorder_dial_def split: sum.split)

section \<open>Witnesses\<close>

lemma disorder_hops_witness:
  "\<exists>w s'. write_all disorder_sock (1, \<lparr>so_hop = 64, so_sent = [], so_set = []\<rparr>) [[1], [2], [3]]
       = ((w, s'), length [1 :: byte, 2, 3], None)
     \<and> so_sent s' = [(64, [1]), (1, [2]), (64, [3])]"
  using disorder_hops [of 1 1 "\<lparr>so_hop = 64, so_sent = [], so_set = []\<rparr>" "[[1], [2], [3]]"]
  by (auto simp: new_disorder_dialer_def upt_rec simp del: write_all.simps)

lemma disorder_restore_swallowed_witness:
  "\<exists>s'. write_all disorder_sock (0, \<lparr>so_hop = 64, so_sent = [], so_set = [None, Some EOF]\<rparr>) [[1], [2]]
       = ((-1, s'), length [1 :: byte, 2], None)
     \<and> so_sent s' = [(1, [1]), (1, [2])]"
  using disorder_restore_swallowed [of "\<lparr>so_hop = 64, so_sent = [], so_set = [None, Some EOF]\<rparr>" EOF "[1]" "[[2]]"]
  by (simp del: write_all.simps)

end
