(* ===== verification/TlsDialer.thy ===== *)
theory TlsDialer
  imports Dns
begin

text \<open>
  TLS client connections (\<^verbatim>\<open>transport/tls/stream_dialer.go\<close>) and the DNS-over-TLS resolver that is built on
  them. The TLS protocol is \<^verbatim>\<open>crypto/tls\<close>: a handshake that takes the configuration and gives the
  certificates of the peer; \<^verbatim>\<open>x509\<close> is its chain verification.
\<close>

section \<open>Options and configuration\<close>

record ('cert, 'ses) ClientConfig =
  ServerName :: string
  NextProtos :: "string list"
  SessionCache :: "'ses option"
  CertVerifier :: "('cert list \<Rightarrow> err option) option"

type_synonym ('cert, 'ses) ClientOption = "string \<Rightarrow> ('cert, 'ses) ClientConfig \<Rightarrow> ('cert, 'ses) ClientConfig"

definition normalizeHost :: "string \<Rightarrow> string" where
  "normalizeHost host = to_lower host"

definition WithSNI :: "string \<Rightarrow> ('cert, 'ses) ClientOption" where
  "WithSNI hostName = (\<lambda>_ config. config\<lparr>ServerName := hostName\<rparr>)"

definition IfHost :: "string \<Rightarrow> ('cert, 'ses) ClientOption \<Rightarrow> ('cert, 'ses) ClientOption" where
  "IfHost matchHost option =
     (\<lambda>host config. if normalizeHost matchHost \<noteq> [] \<and> normalizeHost matchHost \<noteq> host then config
                    else option host config)"

definition WithALPN :: "string list \<Rightarrow> ('cert, 'ses) ClientOption" where
  "WithALPN protocolNameList = (\<lambda>_ config. config\<lparr>NextProtos := protocolNameList\<rparr>)"

definition WithSessionCache :: "'ses \<Rightarrow> ('cert, 'ses) ClientOption" where
  "WithSessionCache sessionCache = (\<lambda>_ config. config\<lparr>SessionCache := Some sessionCache\<rparr>)"

definition WithCertVerifier :: "('cert list \<Rightarrow> err option) \<Rightarrow> ('cert, 'ses) ClientOption" where
  "WithCertVerifier verifier = (\<lambda>_ config. config\<lparr>CertVerifier := Some verifier\<rparr>)"

text \<open>
  \<^verbatim>\<open>VerifyCertificate\<close> of \<^verbatim>\<open>StandardCertVerifier\<close>: the first certificate, for the name, with the others as
  intermediates; \<open>None\<close> roots are those of the host.
\<close>

type_synonym ('cert, 'roots) x509 = "string \<Rightarrow> 'roots option \<Rightarrow> 'cert list \<Rightarrow> 'cert \<Rightarrow> err option"

definition StandardCertVerifier ::
  "('cert, 'roots) x509 \<Rightarrow> string \<Rightarrow> 'roots option \<Rightarrow> 'cert list \<Rightarrow> err option" where
  "StandardCertVerifier x509 CertificateName Roots PeerCertificates =
     x509 CertificateName Roots (tl PeerCertificates) (hd PeerCertificates)"

text \<open>\<^verbatim>\<open>tls.Config\<close>.\<close>

record ('cert, 'ses) tls_config =
  tc_ServerName :: string
  tc_NextProtos :: "string list"
  tc_ClientSessionCache :: "'ses option"
  tc_InsecureSkipVerify :: bool
  tc_VerifyConnection :: "'cert list \<Rightarrow> err option"

definition toStdConfig :: "('cert, 'roots) x509 \<Rightarrow> ('cert, 'ses) ClientConfig \<Rightarrow> ('cert, 'ses) tls_config" where
  "toStdConfig x509 cfg =
     (let certVerifier = (case CertVerifier cfg of
            None \<Rightarrow> StandardCertVerifier x509 (ServerName cfg) None | Some v \<Rightarrow> v) in
      \<lparr>tc_ServerName = ServerName cfg, tc_NextProtos = NextProtos cfg,
       tc_ClientSessionCache = SessionCache cfg, tc_InsecureSkipVerify = True,
       tc_VerifyConnection = certVerifier\<rparr>)"

section \<open>Connections\<close>

text \<open>
  The handshake on a connection: the connection after it, and the certificates of the peer or the error.
\<close>

type_synonym ('cert, 'ses, 'c) handshake = "('cert, 'ses) tls_config \<Rightarrow> 'c \<Rightarrow> 'c \<times> (err + 'cert list)"

record ('cert, 'ses, 'c) tls_conn =
  tls_cfg :: "('cert, 'ses) tls_config"
  tls_peer :: "'cert list"
  tls_inner :: 'c

definition client_config ::
  "('cert, 'roots) x509 \<Rightarrow> string \<Rightarrow> ('cert, 'ses) ClientOption list \<Rightarrow> ('cert, 'ses) ClientConfig" where
  "client_config x509 serverName options =
     (let cfg = foldl (\<lambda>c opt. opt (normalizeHost serverName) c)
            \<lparr>ServerName = serverName, NextProtos = [], SessionCache = None, CertVerifier = None\<rparr> options in
      if CertVerifier cfg = None
      then cfg\<lparr>CertVerifier := Some (StandardCertVerifier x509 serverName None)\<rparr> else cfg)"

definition WrapConn ::
  "('cert, 'roots) x509 \<Rightarrow> ('cert, 'ses, 'c) handshake \<Rightarrow> string \<Rightarrow> ('cert, 'ses) ClientOption list \<Rightarrow> 'c
   \<Rightarrow> 'c \<times> (err + ('cert, 'ses, 'c) tls_conn)" where
  "WrapConn x509 hs serverName options conn =
     (let cfg = toStdConfig x509 (client_config x509 serverName options) in
      case hs cfg conn of
        (c, Inl e) \<Rightarrow> (c, Inl e)
      | (c, Inr certs) \<Rightarrow> (c, Inr \<lparr>tls_cfg = cfg, tls_peer = certs, tls_inner = c\<rparr>))"

text \<open>
  \<^verbatim>\<open>DialStream\<close> with the outcome \<open>dialed\<close> of the inner dialer: the inner connection at the end, if one was
  opened, and the result.
\<close>

definition tls_DialStream ::
  "('cert, 'roots) x509 \<Rightarrow> ('cert, 'ses, 'c) handshake \<Rightarrow> ('c \<Rightarrow> 'c) \<Rightarrow> ('cert, 'ses) ClientOption list
   \<Rightarrow> (string \<Rightarrow> err + 'c) \<Rightarrow> string \<Rightarrow> 'c option \<times> (err + ('cert, 'ses, 'c) tls_conn)" where
  "tls_DialStream x509 hs close options dialer remoteAddr =
     (case split_host_port remoteAddr of
        Inl e \<Rightarrow> (None, Inl (ErrWrap ''invalid address'' e))
      | Inr (host, _) \<Rightarrow>
          (case dialer remoteAddr of
             Inl e \<Rightarrow> (None, Inl e)
           | Inr innerConn \<Rightarrow>
               (case WrapConn x509 hs host options innerConn of
                  (c, Inl e) \<Rightarrow> (Some (close c), Inl e)
                | (c, Inr conn) \<Rightarrow> (Some c, Inr conn))))"

text \<open>
  The half closes of \<^verbatim>\<open>streamConn\<close>; \<open>alert\<close> is \<^verbatim>\<open>CloseWrite\<close> of \<^verbatim>\<open>tls.Conn\<close>, which sends the closing alert
  on the inner connection. \<^verbatim>\<open>errors.Join\<close> drops nil errors.
\<close>

definition join_errs :: "err option list \<Rightarrow> err option" where
  "join_errs es = (case concat (map (\<lambda>e. case e of None \<Rightarrow> [] | Some x \<Rightarrow> [x]) es) of
                     [] \<Rightarrow> None | xs \<Rightarrow> Some (ErrJoin xs))"

definition tls_CloseWrite ::
  "('c \<Rightarrow> 'c \<times> err option) \<Rightarrow> ('c \<Rightarrow> 'c \<times> err option) \<Rightarrow> ('cert, 'ses, 'c) tls_conn
   \<Rightarrow> ('cert, 'ses, 'c) tls_conn \<times> err option" where
  "tls_CloseWrite alert closeWrite c =
     (case alert (tls_inner c) of
        (i, tlsErr) \<Rightarrow> (case closeWrite i of (i', e) \<Rightarrow> (c\<lparr>tls_inner := i'\<rparr>, join_errs [tlsErr, e])))"

definition tls_CloseRead ::
  "('c \<Rightarrow> 'c \<times> err option) \<Rightarrow> ('cert, 'ses, 'c) tls_conn \<Rightarrow> ('cert, 'ses, 'c) tls_conn \<times> err option" where
  "tls_CloseRead closeRead c = (case closeRead (tls_inner c) of (i, e) \<Rightarrow> (c\<lparr>tls_inner := i\<rparr>, e))"

section \<open>Verification of the peer\<close>

text \<open>
  The options of the package, and the verifier that an option sets for a host (in its normal form): \<^verbatim>\<open>WithCertVerifier\<close> does, and
  \<^verbatim>\<open>IfHost\<close> around it if the host matches. Of several options the last one counts.
\<close>

datatype ('cert, 'ses) option_spec =
    SpecSNI string
  | SpecALPN "string list"
  | SpecSessionCache 'ses
  | SpecCertVerifier "'cert list \<Rightarrow> err option"
  | SpecIfHost string "('cert, 'ses) option_spec"

fun option_of :: "('cert, 'ses) option_spec \<Rightarrow> ('cert, 'ses) ClientOption" where
  "option_of (SpecSNI n) = WithSNI n"
| "option_of (SpecALPN ps) = WithALPN ps"
| "option_of (SpecSessionCache c) = WithSessionCache c"
| "option_of (SpecCertVerifier v) = WithCertVerifier v"
| "option_of (SpecIfHost h opt) = IfHost h (option_of opt)"

fun sets_verifier :: "string \<Rightarrow> ('cert, 'ses) option_spec \<Rightarrow> ('cert list \<Rightarrow> err option) option" where
  "sets_verifier host (SpecCertVerifier v) = Some v"
| "sets_verifier host (SpecIfHost h opt) = (if normalizeHost h \<in> {[], host} then sets_verifier host opt else None)"
| "sets_verifier host _ = None"

fun own_verifier :: "string \<Rightarrow> ('cert, 'ses) option_spec list \<Rightarrow> ('cert list \<Rightarrow> err option) option" where
  "own_verifier host [] = None"
| "own_verifier host (opt # opts) =
     (case own_verifier host opts of Some v \<Rightarrow> Some v | None \<Rightarrow> sets_verifier host opt)"

lemma option_of_verifier:
  "CertVerifier (option_of opt h c) = (case sets_verifier h opt of Some v \<Rightarrow> Some v | None \<Rightarrow> CertVerifier c)"
  by (induction opt arbitrary: c)
    (auto simp: WithSNI_def WithALPN_def WithSessionCache_def WithCertVerifier_def IfHost_def)

lemma options_verifier:
  "CertVerifier (foldl (\<lambda>c opt. opt h c) cfg (map option_of opts))
     = (case own_verifier h opts of Some v \<Rightarrow> Some v | None \<Rightarrow> CertVerifier cfg)"
  by (induction opts arbitrary: cfg) (auto simp: option_of_verifier split: option.splits)

lemma client_config_verifier:
  "tc_VerifyConnection (toStdConfig x509 (client_config x509 name (map option_of opts)))
     = (case own_verifier (normalizeHost name) opts of Some v \<Rightarrow> v | None \<Rightarrow> StandardCertVerifier x509 name None)"
  by (simp add: client_config_def toStdConfig_def Let_def options_verifier split: option.split)

lemma WrapConn_cases:
  assumes "WrapConn x509 hs name options c = (c', r)"
  obtains (failed) e where "r = Inl e" "hs (toStdConfig x509 (client_config x509 name options)) c = (c', Inl e)"
  | (ok) certs where "r = Inr \<lparr>tls_cfg = toStdConfig x509 (client_config x509 name options), tls_peer = certs, tls_inner = c'\<rparr>"
      "hs (toStdConfig x509 (client_config x509 name options)) c = (c', Inr certs)"
  using assms by (auto simp: WrapConn_def Let_def split: prod.splits sum.splits)

text \<open>
  C23: with any options of the package, \<^verbatim>\<open>DialStream\<close> returns a connection only if the peer's certificates pass the verifier
  that the last option for this host sets; when no option sets one, whatever name is sent as SNI, the chain of the
  peer verifies for the host that was dialed. When the handshake fails the connection to the server is closed.
\<close>

theorem tls_dial_verifies_host:
  assumes hs: "\<And>cfg c c' certs. hs cfg c = (c', Inr certs) \<Longrightarrow> certs \<noteq> [] \<and> tc_VerifyConnection cfg certs = None"
    and dial: "tls_DialStream x509 hs close (map option_of opts) dialer remoteAddr = (i, r)"
  shows "(\<forall>conn. r = Inr conn \<longrightarrow>
       (\<exists>host port c cs. split_host_port remoteAddr = Inr (host, port) \<and> tls_peer conn = c # cs
          \<and> (case own_verifier (normalizeHost host) opts of
               Some verifier \<Rightarrow> verifier (c # cs) = None
             | None \<Rightarrow> x509 host None cs c = None)))
     \<and> (\<forall>e c. r = Inl e \<and> i = Some c \<longrightarrow> (\<exists>c'. c = close c'))"
proof (cases "\<exists>host port innerConn. split_host_port remoteAddr = Inr (host, port) \<and> dialer remoteAddr = Inr innerConn")
  case False
  then show ?thesis using dial by (auto simp: tls_DialStream_def split: sum.splits)
next
  case True
  then obtain host port innerConn where h: "split_host_port remoteAddr = Inr (host, port)" "dialer remoteAddr = Inr innerConn"
    by blast
  obtain c' r' where w: "WrapConn x509 hs host (map option_of opts) innerConn = (c', r')" by fastforce
  from w show ?thesis
  proof (cases rule: WrapConn_cases)
    case failed
    then show ?thesis using dial h w by (auto simp: tls_DialStream_def)
  next
    case (ok certs)
    have v: "certs \<noteq> []" "(case own_verifier (normalizeHost host) opts of
        Some v \<Rightarrow> v | None \<Rightarrow> StandardCertVerifier x509 host None) certs = None"
      using hs [OF ok(2)] client_config_verifier [of x509 host opts] by simp_all
    then obtain c cs where c: "certs = c # cs" by (cases certs) auto
    then have "case own_verifier (normalizeHost host) opts of
        Some verifier \<Rightarrow> verifier (c # cs) = None | None \<Rightarrow> x509 host None cs c = None"
      using v(2) by (auto simp: StandardCertVerifier_def split: option.splits)
    then show ?thesis using dial h w ok(1) c by (auto simp: tls_DialStream_def)
  qed
qed

section \<open>DNS over TLS\<close>

text \<open>
  \<^verbatim>\<open>NewConn\<close> of \<^verbatim>\<open>NewTLSResolver\<close>: the connection that was dialed, if any, and the result. A query runs
  over the plaintext side \<open>plain\<close> of the TLS connection, and closing that closes the inner connection.
\<close>

definition tls_resolver_conn ::
  "('cert, 'roots) x509 \<Rightarrow> ('cert, 'ses, 'c) handshake \<Rightarrow> (string \<Rightarrow> err + 'c) \<Rightarrow> string \<Rightarrow> string
   \<Rightarrow> 'c option \<times> (err + ('cert, 'ses, 'c) tls_conn)" where
  "tls_resolver_conn x509 hs dialer resolverAddr resolverName =
     (case dialer (ensurePort resolverAddr ''853'') of
        Inl e \<Rightarrow> (None, Inl e)
      | Inr baseConn \<Rightarrow>
          (case WrapConn x509 hs resolverName [] baseConn of (c, r) \<Rightarrow> (Some c, r)))"

definition tls_query ::
  "'b dns_lib \<Rightarrow> nat \<Rightarrow> 's writer \<Rightarrow> ('cert, 'roots) x509 \<Rightarrow> ('cert, 'ses, 'c) handshake \<Rightarrow> ('c \<Rightarrow> 'c)
   \<Rightarrow> (('cert, 'ses, 'c) tls_conn \<Rightarrow> 's sconn) \<Rightarrow> (string \<Rightarrow> err + 'c) \<Rightarrow> string \<Rightarrow> string \<Rightarrow> question
   \<Rightarrow> 'c option \<times> 's sconn option \<times> (err + dns_msg)" where
  "tls_query L qid wr x509 hs close plain dialer resolverAddr resolverName q =
     (case tls_resolver_conn x509 hs dialer resolverAddr resolverName of
        (c, Inl e) \<Rightarrow> (c, stream_query L qid wr (Inl e) q)
      | (c, Inr conn) \<Rightarrow> (map_option close c, stream_query L qid wr (Inr (plain conn)) q))"

text \<open>
  A query over TLS that reaches the server but not the end of the handshake fails with
  \<^verbatim>\<open>ErrDial\<close> and leaves the connection to the server open: nothing closes the connection that was dialed.
\<close>

lemma tls_query_leaks:
  assumes "dialer (ensurePort addr ''853'') = Inr c"
    and "hs (toStdConfig x509 (client_config x509 name [])) c = (c', Inl e)"
  shows "tls_query L qid wr x509 hs close plain dialer addr name q = (Some c', None, Inl (ErrNested ErrDial e))"
  using assms by (simp add: tls_query_def tls_resolver_conn_def WrapConn_def Let_def stream_query_def)

section \<open>A server\<close>

text \<open>
  A server with the chain \<open>chain\<close>; certificates are the names they are for, and a chain is good if it is
  signed by the root certificate \<^verbatim>\<open>ca\<close>.
\<close>

definition demo_hs :: "string list \<Rightarrow> (string, unit, bool) handshake" where
  "demo_hs chain cfg c =
     (c, if chain = [] then Inl (ErrNew ''no certificates'')
         else case tc_VerifyConnection cfg chain of Some e \<Rightarrow> Inl e | None \<Rightarrow> Inr chain)"

definition demo_x509 :: "(string, unit) x509" where
  "demo_x509 name roots cs c = (if c = name \<and> ''ca'' \<in> set cs then None else Some (ErrNew ''bad certificate''))"

definition demo_opts :: "(string, unit) option_spec list" where
  "demo_opts = [SpecSNI ''decoy.com'', SpecIfHost ''B.org'' (SpecCertVerifier (\<lambda>_. None))]"

definition demo_dial :: "string list \<Rightarrow> string \<Rightarrow> bool option \<times> (err + (string, unit, bool) tls_conn)" where
  "demo_dial chain addr = tls_DialStream demo_x509 (demo_hs chain) (\<lambda>_. False) (map option_of demo_opts) (\<lambda>_. Inr True) addr"

lemmas demo_dial_simps = demo_dial_def demo_opts_def tls_DialStream_def WrapConn_def demo_hs_def demo_x509_def client_config_def
  toStdConfig_def StandardCertVerifier_def WithSNI_def IfHost_def WithCertVerifier_def Let_def

lemma demo_hosts:
  "split_host_port ''a.org:443'' = Inr (''a.org'', ''443'')" "split_host_port ''b.org:443'' = Inr (''b.org'', ''443'')"
  "normalizeHost ''a.org'' = ''a.org''" "normalizeHost ''b.org'' = ''b.org''" "normalizeHost ''B.org'' = ''b.org''"
  by code_simp+

lemma demo_dial_eval:
  "\<exists>conn. demo_dial [''a.org'', ''ca''] ''a.org:443'' = (Some True, Inr conn) \<and> tc_ServerName (tls_cfg conn) = ''decoy.com''"
  "\<exists>e. demo_dial [''decoy.com'', ''ca''] ''a.org:443'' = (Some False, Inl e)"
  "\<exists>conn. demo_dial [''decoy.com'', ''ca''] ''b.org:443'' = (Some True, Inr conn)"
  by (simp_all add: demo_dial_simps demo_hosts)

lemma tls_dial_verifies_host_witness:
  "\<exists>conn. demo_dial [''a.org'', ''ca''] ''a.org:443'' = (Some True, Inr conn) \<and> tc_ServerName (tls_cfg conn) = ''decoy.com''
     \<and> hd (tls_peer conn) = ''a.org''"
proof -
  have hs: "demo_hs chain cfg c = (c', Inr certs) \<Longrightarrow> certs \<noteq> [] \<and> tc_VerifyConnection cfg certs = None"
    for chain cfg c c' certs by (auto simp: demo_hs_def split: if_splits option.splits)
  note s = demo_hosts(1)
  have o: "own_verifier (normalizeHost ''a.org'') demo_opts = None" by (simp add: demo_opts_def demo_hosts)
  obtain conn where ok: "demo_dial [''a.org'', ''ca''] ''a.org:443'' = (Some True, Inr conn)" "tc_ServerName (tls_cfg conn) = ''decoy.com''"
    using demo_dial_eval(1) by blast
  note v = tls_dial_verifies_host [where hs = "demo_hs [''a.org'', ''ca'']", OF _ ok(1) [unfolded demo_dial_def]]
  have "\<exists>c cs. tls_peer conn = c # cs \<and> demo_x509 ''a.org'' None cs c = None"
    using s o v [THEN conjunct1] hs by fastforce
  then show ?thesis using ok by (auto simp: demo_x509_def split: if_splits)
qed

end
