(* ===== verification/SmartDns.thy ===== *)
theory SmartDns
  imports Dns
begin

text \<open>
  The tests that the smart dialer runs on DNS resolvers (\<^verbatim>\<open>x/smart/dns.go\<close>). The random choices of
  \<^verbatim>\<open>mixCase\<close> are an argument; names are ASCII.
\<close>

section \<open>Names\<close>

definition makeFullyQualified :: "string \<Rightarrow> string" where
  "makeFullyQualified domain =
     (if 0 < length domain \<and> domain ! (length domain - 1) = CHR ''.'' then domain else domain @ ''.'')"

text \<open>\<open>coin i\<close> tells whether the \<open>i\<close>th random number is 0.\<close>

definition mixCase :: "(nat \<Rightarrow> bool) \<Rightarrow> string \<Rightarrow> string" where
  "mixCase coin domain =
     map (\<lambda>i. if coin i then lower_char (domain ! i) else upper_char (domain ! i)) [0..<length domain]"

section \<open>Addresses\<close>

text \<open>\<^verbatim>\<open>IsLoopback\<close>, \<^verbatim>\<open>IsPrivate\<close>, \<^verbatim>\<open>IsUnspecified\<close> and \<^verbatim>\<open>Equal\<close> of \<^verbatim>\<open>net.IP\<close>.\<close>

definition ip_equal :: "bytes \<Rightarrow> bytes \<Rightarrow> bool" where
  "ip_equal a b \<longleftrightarrow>
     (if length a = length b then a = b
      else if length a = 4 \<and> length b = 16 then take 12 b = v4_prefix \<and> a = drop 12 b
      else if length a = 16 \<and> length b = 4 then take 12 a = v4_prefix \<and> drop 12 a = b
      else False)"

definition IsLoopback :: "bytes \<Rightarrow> bool" where
  "IsLoopback ip \<longleftrightarrow>
     (case to4 ip of Some ip4 \<Rightarrow> ip4 ! 0 = 127 | None \<Rightarrow> ip_equal ip (replicate 15 0 @ [1]))"

definition IsPrivate :: "bytes \<Rightarrow> bool" where
  "IsPrivate ip \<longleftrightarrow>
     (case to4 ip of
        Some ip4 \<Rightarrow> ip4 ! 0 = 10 \<or> (ip4 ! 0 = 172 \<and> ip4 ! 1 AND 0xf0 = 16) \<or> (ip4 ! 0 = 192 \<and> ip4 ! 1 = 168)
      | None \<Rightarrow> length ip = 16 \<and> ip ! 0 AND 0xfe = 0xfc)"

definition IsUnspecified :: "bytes \<Rightarrow> bool" where
  "IsUnspecified ip \<longleftrightarrow> ip_equal ip (v4_prefix @ replicate 4 0) \<or> ip_equal ip (replicate 16 0)"

text \<open>The loop over the addresses that both evaluations have.\<close>

fun check_ips :: "bytes list \<Rightarrow> err option" where
  "check_ips [] = None"
| "check_ips (ip # ips) =
     (if IsLoopback ip then Some (ErrNew ''localhost ip'')
      else if IsPrivate ip then Some (ErrNew ''private ip'')
      else if IsUnspecified ip then Some (ErrNew ''zero ip'')
      else check_ips ips)"

abbreviation TypeA :: nat where "TypeA \<equiv> 1"
abbreviation TypeCNAME :: nat where "TypeCNAME \<equiv> 5"
abbreviation TypeAAAA :: nat where "TypeAAAA \<equiv> 28"

definition getIPs :: "answer list \<Rightarrow> bytes list" where
  "getIPs answers =
     concat (map (\<lambda>a. if rr_type a \<noteq> TypeA \<and> rr_type a \<noteq> TypeAAAA then []
                      else case rr_body a of ABody ip \<Rightarrow> [ip] | AAAABody ip \<Rightarrow> [ip] | _ \<Rightarrow> []) answers)"

section \<open>Answers\<close>

definition evaluateAddressResponse :: "dns_msg \<Rightarrow> string \<Rightarrow> err + bytes list" where
  "evaluateAddressResponse response requestDomain =
     (if h_rcode (m_hdr response) \<noteq> 0 then Inl (ErrNew ''rcode is not success'')
      else if m_answers response = [] then Inl (ErrNew ''no answers'')
      else let ips = getIPs (m_answers response) in
           if ips = [] then Inl (ErrNew ''no ip answer'')
           else case check_ips ips of
                  Some e \<Rightarrow> Inl e
                | None \<Rightarrow>
                    if bytes_str (rr_name (m_answers response ! 0)) \<noteq> requestDomain
                    then Inl (ErrNew ''domain mismatch'') else Inr ips)"

text \<open>The loop over the answers to a CNAME query, with the name found so far.\<close>

fun cname_loop :: "bytes \<Rightarrow> answer list \<Rightarrow> err + bytes" where
  "cname_loop cname [] = Inr cname"
| "cname_loop cname (a # as) =
     (if rr_type a \<noteq> TypeCNAME then Inl (ErrNew ''bad answer type'')
      else case rr_body a of
             CNAMEBody n \<Rightarrow> if cname \<noteq> [] then Inl (ErrNew ''found too many CNAMEs'') else cname_loop n as
           | _ \<Rightarrow> cname_loop cname as)"

definition evaluateCNAMEResponse :: "dns_msg \<Rightarrow> err option" where
  "evaluateCNAMEResponse response =
     (if h_rcode (m_hdr response) \<noteq> 0 then Some (ErrNew ''rcode is not success'')
      else if m_answers response = []
           then (if length (filter (\<lambda>a. rr_body a = SOABody) (m_authorities response)) \<noteq> 1
                 then Some (ErrNew ''SOA records, expected 1'') else None)
           else case cname_loop [] (m_answers response) of
                  Inl e \<Rightarrow> Some e
                | Inr cname \<Rightarrow> if cname = [] then Some (ErrNew ''no CNAME in answers'') else None)"

text \<open>The resolver of the operating system: \<open>cname\<close> is \<^verbatim>\<open>lookupCNAME\<close> and \<open>lookupIP\<close> is \<^verbatim>\<open>LookupIP\<close>.\<close>

definition evaluateNetResolver ::
  "(nat \<Rightarrow> bool) \<Rightarrow> (string \<Rightarrow> err option) \<Rightarrow> (string \<Rightarrow> err + bytes list) \<Rightarrow> string \<Rightarrow> err + bytes list" where
  "evaluateNetResolver coin cname lookupIP testDomain =
     (let requestDomain = mixCase coin testDomain in
      case cname requestDomain of
        Some e \<Rightarrow> Inl (ErrWrap ''could not get cname'' e)
      | None \<Rightarrow>
          (case lookupIP requestDomain of
             Inl e \<Rightarrow> Inl (ErrWrap ''failed to lookup IPs'' e)
           | Inr ips \<Rightarrow>
               if ips = [] then Inl (ErrNew ''no ip answer'')
               else case check_ips ips of Some e \<Rightarrow> Inl e | None \<Rightarrow> Inr ips))"

text \<open>A resolver under test: none for the system resolver, whose lookups are \<open>cname\<close> and \<open>lookupIP\<close>.\<close>

definition testDNSResolver ::
  "'b dns_lib \<Rightarrow> (nat \<Rightarrow> bool) \<Rightarrow> (string \<Rightarrow> err option) \<Rightarrow> (string \<Rightarrow> err + bytes list)
   \<Rightarrow> (question \<Rightarrow> err + dns_msg) option \<Rightarrow> bool \<Rightarrow> string \<Rightarrow> err + bytes list" where
  "testDNSResolver L coin cname lookupIP resolver secure testDomain =
     (case resolver of
        None \<Rightarrow> evaluateNetResolver coin cname lookupIP testDomain
      | Some query \<Rightarrow>
          (let requestDomain = mixCase coin testDomain in
           case NewQuestion L requestDomain TypeA of
             Inl e \<Rightarrow> Inl (ErrWrap ''failed to create question'' e)
           | Inr q \<Rightarrow>
               (case query q of
                  Inl e \<Rightarrow> Inl (ErrWrap ''request for A query failed'' e)
                | Inr response \<Rightarrow>
                    if secure then Inr (getIPs (m_answers response))
                    else case evaluateAddressResponse response requestDomain of
                           Inl e \<Rightarrow> Inl (ErrWrap ''failed A test'' e)
                         | Inr ips \<Rightarrow>
                             (case NewQuestion L requestDomain TypeCNAME of
                                Inl e \<Rightarrow> Inl (ErrWrap ''failed to create question'' e)
                              | Inr q' \<Rightarrow>
                                  (case query q' of
                                     Inl e \<Rightarrow> Inl (ErrWrap ''request for CNAME query failed'' e)
                                   | Inr response' \<Rightarrow>
                                       (case evaluateCNAMEResponse response' of
                                          Some e \<Rightarrow> Inl (ErrWrap ''failed CNAME test'' e)
                                        | None \<Rightarrow> Inr ips))))))"

section \<open>What passes the test\<close>

definition is_letter :: "char \<Rightarrow> bool" where
  "is_letter c \<longleftrightarrow> of_char c \<in> {65..90 :: nat} \<or> of_char c \<in> {97..122 :: nat}"

lemma of_char_less_256: "(of_char c :: nat) < 256"
  using char_of_mod_256 of_char_of by (metis char_of_char mod_less_divisor zero_less_numeral)

lemma of_char_lower: "(of_char (lower_char c) :: nat) = (if of_char c \<in> {65..90 :: nat} then of_char c + 32 else of_char c)"
  by (simp add: lower_char_def of_char_of)

lemma of_char_upper: "(of_char (upper_char c) :: nat) = (if of_char c \<in> {97..122 :: nat} then of_char c - 32 else of_char c)"
  using of_char_less_256 [of c] by (auto simp: upper_char_def of_char_of)

lemma letter_cases: "is_letter c \<longleftrightarrow> lower_char c \<noteq> upper_char c"
proof -
  have "lower_char c = upper_char c \<longleftrightarrow> (of_char (lower_char c) :: nat) = of_char (upper_char c)" by simp
  then show ?thesis by (auto simp: is_letter_def of_char_lower of_char_upper)
qed

lemma mixCase_eq_iff:
  "mixCase c d = mixCase c' d \<longleftrightarrow> (\<forall>i < length d. is_letter (d ! i) \<longrightarrow> c i = c' i)"
  by (auto simp: mixCase_def letter_cases)

lemma unat_char: "unat (word_of_nat (of_char c) :: byte) = of_char c"
  using of_char_less_256 [of c] by (simp add: unat_byte)

lemma foldCase_char: "unat (foldCase (word_of_nat (of_char c))) = of_char (upper_char c)"
proof (cases "of_char c \<in> {97..122 :: nat}")
  case True
  then have "foldCase (word_of_nat (of_char c)) = word_of_nat (of_char c - 32)"
    using of_char_less_256 [of c]
    by (simp add: foldCase_def word_le_nat_alt unat_char of_nat_diff)
  moreover have "unat (word_of_nat (of_char c - 32) :: byte) = of_char c - 32"
    using of_char_less_256 [of c] by (subst unat_byte) (rule mod_less, arith)
  ultimately show ?thesis using True by (simp only: of_char_upper if_True)
next
  case False
  then have "foldCase (word_of_nat (of_char c)) = word_of_nat (of_char c)"
    by (auto simp: foldCase_def word_le_nat_alt unat_char)
  then show ?thesis using False by (auto simp: of_char_upper unat_char)
qed

lemma upper_lower: "upper_char (lower_char c) = upper_char c" "upper_char (upper_char c) = upper_char c"
proof -
  have e: "x = y \<longleftrightarrow> (of_char x :: nat) = of_char y" for x y :: char by simp
  show "upper_char (lower_char c) = upper_char c" "upper_char (upper_char c) = upper_char c"
    unfolding e of_char_upper of_char_lower by auto
qed

lemma check_ips_None:
  "check_ips ips = None \<longleftrightarrow> (\<forall>ip \<in> set ips. \<not> IsLoopback ip \<and> \<not> IsPrivate ip \<and> \<not> IsUnspecified ip)"
  by (induction ips) auto

lemma evaluateAddressResponse_Inr:
  "evaluateAddressResponse r d = Inr ips \<longleftrightarrow>
     h_rcode (m_hdr r) = 0 \<and> ips = getIPs (m_answers r) \<and> ips \<noteq> [] \<and> check_ips ips = None
     \<and> m_answers r \<noteq> [] \<and> bytes_str (rr_name (m_answers r ! 0)) = d"
  by (auto simp: evaluateAddressResponse_def Let_def split: option.splits)

text \<open>
  C20: the mixed name is the test domain for every DNS server, and an insecure resolver passes the test only
  with public addresses in an answer that has the name in the very case of the request: whoever
  forges an answer without the request passes it for one choice of the case of the letters only.
\<close>

theorem dns_test_mixed_case:
  assumes "testDNSResolver L coin cname lookupIP (Some query) False d = Inr ips"
  shows "equalASCIIName (str_bytes (mixCase coin d)) (str_bytes d)
     \<and> ips \<noteq> [] \<and> (\<forall>ip \<in> set ips. \<not> IsLoopback ip \<and> \<not> IsPrivate ip \<and> \<not> IsUnspecified ip)
     \<and> (\<exists>q q' r r'. NewQuestion L (mixCase coin d) TypeA = Inr q \<and> query q = Inr r \<and> ips = getIPs (m_answers r)
          \<and> NewQuestion L (mixCase coin d) TypeCNAME = Inr q' \<and> query q' = Inr r' \<and> evaluateCNAMEResponse r' = None
          \<and> (\<forall>coin'. evaluateAddressResponse r (mixCase coin' d) = Inr ips \<longleftrightarrow>
               (\<forall>i < length d. is_letter (d ! i) \<longrightarrow> coin' i = coin i)))"
proof (intro conjI)
  obtain q r q' r' where r: "NewQuestion L (mixCase coin d) TypeA = Inr q" "query q = Inr r"
      "evaluateAddressResponse r (mixCase coin d) = Inr ips" "NewQuestion L (mixCase coin d) TypeCNAME = Inr q'"
      "query q' = Inr r'" "evaluateCNAMEResponse r' = None"
    using assms by (auto simp: testDNSResolver_def Let_def split: sum.splits option.splits)
  note e = r(3) [unfolded evaluateAddressResponse_Inr]
  show "ips \<noteq> []" "\<forall>ip \<in> set ips. \<not> IsLoopback ip \<and> \<not> IsPrivate ip \<and> \<not> IsUnspecified ip"
    using e by (auto simp: check_ips_None)
  have "evaluateAddressResponse r (mixCase coin' d) = Inr ips \<longleftrightarrow> mixCase coin' d = mixCase coin d" for coin'
    using e by (auto simp: evaluateAddressResponse_Inr)
  then have "\<forall>coin'. evaluateAddressResponse r (mixCase coin' d) = Inr ips \<longleftrightarrow>
      (\<forall>i < length d. is_letter (d ! i) \<longrightarrow> coin' i = coin i)"
    by (simp add: mixCase_eq_iff)
  then show "\<exists>q q' r r'. NewQuestion L (mixCase coin d) TypeA = Inr q \<and> query q = Inr r \<and> ips = getIPs (m_answers r)
      \<and> NewQuestion L (mixCase coin d) TypeCNAME = Inr q' \<and> query q' = Inr r' \<and> evaluateCNAMEResponse r' = None
      \<and> (\<forall>coin'. evaluateAddressResponse r (mixCase coin' d) = Inr ips \<longleftrightarrow>
           (\<forall>i < length d. is_letter (d ! i) \<longrightarrow> coin' i = coin i))"
    using r e by blast
  have "foldCase (word_of_nat (of_char (if coin i then lower_char c else upper_char c))) = foldCase (word_of_nat (of_char c))"
    for i c by (simp add: word_unat_eq_iff foldCase_char upper_lower)
  then show "equalASCIIName (str_bytes (mixCase coin d)) (str_bytes d)"
    by (auto simp: equalASCIIName_def eq_from_iff str_bytes_def mixCase_def)
qed

definition demo_smart_query :: "question \<Rightarrow> err + dns_msg" where
  "demo_smart_query q = Inr
     \<lparr>m_hdr = \<lparr>h_id = 0, h_response = True, h_rcode = 0\<rparr>, m_questions = [q],
      m_answers = (if qtype q = 1 then [\<lparr>rr_name = qname q, rr_type = 1, rr_body = ABody [9, 9, 9, 9]\<rparr>] else []),
      m_authorities = [\<lparr>rr_name = [46], rr_type = 6, rr_body = SOABody\<rparr>]\<rparr>"

lemma dns_test_mixed_case_witness:
  "testDNSResolver demo_lib even (\<lambda>_. None) (\<lambda>_. Inr []) (Some demo_smart_query) False ''ab.'' = Inr [[9, 9, 9, 9]]
   \<and> equalASCIIName (str_bytes (mixCase even ''ab.'')) (str_bytes ''ab.'')"
proof -
  have m: "mixCase even ''ab.'' = ''aB.''"
    by code_simp
  have q: "NewQuestion demo_lib ''aB.'' t = Inr \<lparr>qname = str_bytes ''aB.'', qtype = t, qclass = 1\<rparr>" for t
    by (simp add: NewQuestion_def demo_lib_def)
  have i: "check_ips [[9, 9, 9, 9]] = None"
    by code_simp
  have t: "testDNSResolver demo_lib even (\<lambda>_. None) (\<lambda>_. Inr []) (Some demo_smart_query) False ''ab.'' = Inr [[9, 9, 9, 9]]"
    using i by (simp add: testDNSResolver_def Let_def m q demo_smart_query_def evaluateAddressResponse_def getIPs_def
        evaluateCNAMEResponse_def)
  then show ?thesis using dns_test_mixed_case [OF t] by blast
qed

end
