(* ===== verification/SmartCache.thy ===== *)
theory SmartCache
  imports GoPrelude
begin

text \<open>
  The DNS cache of the smart dialer (\<^verbatim>\<open>x/smart/cache.go\<close>, \<^verbatim>\<open>slice_helper.go\<close>): a slice that is compacted,
  rotated and shifted in place. The model keeps the whole backing array and the length of the slice;
  the lemmas show that what the slice holds is the list of the most recently used answers, and that
  no answer is given out later than a minute after it came in.
\<close>

section \<open>The slice\<close>

text \<open>\<open>ce_msg\<close> is nil in the zero entry; \<open>ce_expire\<close> counts seconds, with 0 for the zero time.\<close>

record 'm cacheEntry =
  ce_key :: string
  ce_msg :: "'m option"
  ce_expire :: nat

record 'm lru =
  lru_arr :: "'m cacheEntry list"
  lru_len :: nat

definition view :: "'m lru \<Rightarrow> 'm cacheEntry list" where
  "view r = take (lru_len r) (lru_arr r)"

definition newSimpleLRUCacheResolver :: "nat \<Rightarrow> 'm lru" where
  "newSimpleLRUCacheResolver numEntries =
     \<lparr>lru_arr = replicate numEntries \<lparr>ce_key = [], ce_msg = None, ce_expire = 0\<rparr>, lru_len = numEntries\<rparr>"

text \<open>The loop reads the array that it overwrites.\<close>

definition compact :: "nat \<Rightarrow> 'm cacheEntry list \<times> nat \<Rightarrow> nat \<Rightarrow> 'm cacheEntry list \<times> nat" where
  "compact now st i =
     (case st of (arr, l) \<Rightarrow>
        if now < ce_expire (arr ! i) then (arr[l := arr ! i], Suc l) else (arr, l))"

definition RemoveExpired :: "nat \<Rightarrow> 'm lru \<Rightarrow> 'm lru" where
  "RemoveExpired now r =
     (case foldl (compact now) (lru_arr r, 0) [0..<lru_len r] of
        (arr, l) \<Rightarrow> \<lparr>lru_arr = arr, lru_len = l\<rparr>)"

definition moveToFront :: "'a list \<Rightarrow> int \<Rightarrow> 'a list" where
  "moveToFront s idx =
     (if 0 < idx \<and> idx < int (length s)
      then (blit 1 (take (nat idx) s) s)[0 := s ! nat idx] else s)"

definition canonicalName :: "string \<Rightarrow> string" where
  "canonicalName = map (\<lambda>c. if of_char c \<in> {65..90 :: nat} then char_of (of_char c + 32 :: nat) else c)"

text \<open>The texts of type and class are parameters; the parts are joined with a bar.\<close>

definition makeCacheKey :: "('t \<Rightarrow> string) \<Rightarrow> ('c \<Rightarrow> string) \<Rightarrow> string \<times> 't \<times> 'c \<Rightarrow> string" where
  "makeCacheKey ts cs q =
     (case q of (name, t, c) \<Rightarrow> canonicalName name @ ''|'' @ ts t @ ''|'' @ cs c)"

fun search_from :: "string \<Rightarrow> 'm cacheEntry list \<Rightarrow> nat \<Rightarrow> nat option" where
  "search_from k [] i = None"
| "search_from k (e # es) i = (if ce_key e = k then Some i else search_from k es (Suc i))"

definition SearchCache :: "string \<Rightarrow> 'm lru \<Rightarrow> 'm lru \<times> 'm option" where
  "SearchCache k r =
     (case search_from k (view r) 0 of
        None \<Rightarrow> (r, None)
      | Some ei \<Rightarrow>
          (r\<lparr>lru_arr := moveToFront (view r) (int ei) @ drop (lru_len r) (lru_arr r)\<rparr>,
           ce_msg (view r ! ei)))"

text \<open>\<open>None\<close> is a panic: a slice without room has no part after its first entry.\<close>

definition AddToCache :: "nat \<Rightarrow> string \<Rightarrow> 'm \<Rightarrow> 'm lru \<Rightarrow> 'm lru option" where
  "AddToCache now k m r =
     (let newSize = min (lru_len r + 1) (length (lru_arr r)) in
      if newSize = 0 then None
      else Some \<lparr>lru_arr = (blit 1 (take (newSize - 1) (lru_arr r)) (lru_arr r))
                   [0 := \<lparr>ce_key = k, ce_msg = Some m, ce_expire = now + 60\<rparr>],
                 lru_len = newSize\<rparr>)"

text \<open>
  \<^verbatim>\<open>Query\<close> for the key \<open>k\<close> at the time \<open>now\<close>; the inner resolver would answer \<open>res\<close> at the time \<open>now'\<close>.
\<close>

definition lru_Query ::
  "('m \<Rightarrow> nat) \<Rightarrow> nat \<Rightarrow> nat \<Rightarrow> string \<Rightarrow> err + 'm \<Rightarrow> 'm lru \<Rightarrow> ('m lru \<times> (err + 'm)) option" where
  "lru_Query rcode now now' k res r =
     (case SearchCache k (RemoveExpired now r) of
        (r', Some m) \<Rightarrow> Some (r', Inr m)
      | (r', None) \<Rightarrow>
          (case res of
             Inl e \<Rightarrow> Some (r', Inl e)
           | Inr m \<Rightarrow>
               if rcode m = 0 \<or> rcode m = 3
               then map_option (\<lambda>r''. (r'', Inr m)) (AddToCache now' k m r')
               else Some (r', Inr m)))"

section \<open>What the slice holds\<close>

definition lru_ok :: "'m lru \<Rightarrow> bool" where
  "lru_ok r \<longleftrightarrow> lru_len r \<le> length (lru_arr r)"

lemma compact_simp:
  "compact now (arr, l) i = (if now < ce_expire (arr ! i) then (arr[l := arr ! i], Suc l) else (arr, l))"
  by (simp add: compact_def)

lemma compact_loop:
  "k \<le> length arr \<Longrightarrow>
   case foldl (compact now) (arr, 0) [0..<k] of
     (a, l) \<Rightarrow> length a = length arr \<and> l \<le> k \<and> drop k a = drop k arr
        \<and> take l a = filter (\<lambda>e. now < ce_expire e) (take k arr)"
proof (induction k)
  case (Suc k)
  obtain a l where f: "foldl (compact now) (arr, 0) [0..<k] = (a, l)" by fastforce
  have ih: "length a = length arr" "l \<le> k" "drop k a = drop k arr"
    "take l a = filter (\<lambda>e. now < ce_expire e) (take k arr)"
    using Suc f by auto
  have k: "a ! k = arr ! k" using ih(1,3) Suc.prems by (metis Suc_le_lessD hd_drop_conv_nth)
  have d: "drop (Suc k) a = drop (Suc k) arr" using ih(3) by (metis drop_Suc tl_drop)
  have t: "take (Suc k) arr = take k arr @ [arr ! k]" using Suc.prems by (simp add: take_Suc_conv_app_nth)
  have l: "take (Suc l) (a[l := x]) = take l a @ [x]" for x
    using ih(1,2) Suc.prems by (simp add: take_Suc_conv_app_nth take_update_cancel)
  show ?case using f ih d k t l by (simp add: compact_simp)
qed simp

lemma view_RemoveExpired:
  assumes "lru_ok r"
  shows "view (RemoveExpired now r) = filter (\<lambda>e. now < ce_expire e) (view r)"
    and "lru_ok (RemoveExpired now r)"
    and "length (lru_arr (RemoveExpired now r)) = length (lru_arr r)"
  using assms compact_loop [of "lru_len r" "lru_arr r" now]
  by (auto simp: RemoveExpired_def view_def lru_ok_def split: prod.splits)

lemma moveToFront_eq:
  "0 < i \<Longrightarrow> i < length s \<Longrightarrow> moveToFront s (int i) = s ! i # take i s @ drop (Suc i) s"
  by (cases s) (auto simp: moveToFront_def blit_def)

lemma length_moveToFront [simp]: "length (moveToFront s i) = length s"
  by (cases "0 < i \<and> i < int (length s)") (auto simp: moveToFront_def)

lemma moveToFront_0 [simp]: "moveToFront s 0 = s"
  by (simp add: moveToFront_def)

lemma search_from_Some:
  "search_from k es i = Some j \<Longrightarrow>
   i \<le> j \<and> j - i < length es \<and> ce_key (es ! (j - i)) = k \<and> (\<forall>n < j - i. ce_key (es ! n) \<noteq> k)"
proof (induction es arbitrary: i)
  case (Cons e es)
  show ?case
  proof (cases "ce_key e = k")
    case False
    then have "search_from k es (Suc i) = Some j" using Cons.prems by simp
    note ih = Cons.IH [OF this]
    then have "j - i = Suc (j - Suc i)" by arith
    then show ?thesis using ih False by (auto simp: nth_Cons split: nat.splits)
  qed (use Cons.prems in auto)
qed simp

lemma search_from_None: "search_from k es i = None \<longleftrightarrow> k \<notin> ce_key ` set es"
  by (induction es arbitrary: i) auto

text \<open>A hit: the first entry with the key moves to the front.\<close>

lemma SearchCache_cases:
  assumes "lru_ok r"
  obtains (miss) "SearchCache k r = (r, None)" "k \<notin> ce_key ` set (view r)"
  | (hit) r' e us vs where "SearchCache k r = (r', ce_msg e)" "view r = us @ e # vs" "ce_key e = k"
      "k \<notin> ce_key ` set us" "view r' = e # us @ vs" "lru_ok r'" "length (lru_arr r') = length (lru_arr r)"
proof (cases "search_from k (view r) 0")
  case None
  then show thesis
    using search_from_None [of k "view r" 0] by (intro miss) (simp add: SearchCache_def, blast)
next
  case (Some i)
  from search_from_Some [OF this] have i: "i < length (view r)" "ce_key (view r ! i) = k"
    "\<forall>n < i. ce_key (view r ! n) \<noteq> k" by auto
  let ?e = "view r ! i" and ?us = "take i (view r)" and ?vs = "drop (Suc i) (view r)"
  let ?r = "r\<lparr>lru_arr := moveToFront (view r) (int i) @ drop (lru_len r) (lru_arr r)\<rparr>"
  have m: "moveToFront (view r) (int i) = ?e # ?us @ ?vs"
    using i(1) moveToFront_eq [of i "view r"] by (cases "i = 0") (auto simp: Cons_nth_drop_Suc)
  have l: "length (view r) = lru_len r" using assms by (simp add: view_def lru_ok_def)
  have "view ?r = moveToFront (view r) (int i)" using l by (simp add: view_def [of ?r])
  moreover have "length (lru_arr ?r) = length (lru_arr r)" using assms l by (simp add: lru_ok_def)
  moreover have "lru_ok ?r" using assms l by (simp add: lru_ok_def)
  moreover have "k \<notin> ce_key ` set ?us"
  proof
    assume "k \<in> ce_key ` set ?us"
    then obtain n where "n < i" "k = ce_key (view r ! n)" using i(1) by (auto simp: in_set_conv_nth)
    then show False using i(3) by blast
  qed
  ultimately show thesis
    using Some i m hit [of ?r ?e ?us ?vs] id_take_nth_drop [OF i(1)] by (simp add: SearchCache_def)
qed

lemma view_AddToCache:
  assumes "lru_ok r" "lru_arr r \<noteq> []"
  obtains r' where "AddToCache now k m r = Some r'"
    "view r' = take (length (lru_arr r)) (\<lparr>ce_key = k, ce_msg = Some m, ce_expire = now + 60\<rparr> # view r)"
    "lru_ok r'" "length (lru_arr r') = length (lru_arr r)"
proof -
  let ?n = "min (lru_len r + 1) (length (lru_arr r))"
  let ?e = "\<lparr>ce_key = k, ce_msg = Some m, ce_expire = now + 60\<rparr>"
  let ?arr = "(blit 1 (take (?n - 1) (lru_arr r)) (lru_arr r))[0 := ?e]"
  obtain x xs where arr: "lru_arr r = x # xs" using assms(2) by (cases "lru_arr r") auto
  have a: "?arr = ?e # take (?n - 1) (lru_arr r) @ drop ?n (lru_arr r)"
    using arr assms(1) by (simp add: blit_def lru_ok_def min_def)
  have "take ?n ?arr = take (length (lru_arr r)) (?e # view r)"
  proof (cases "lru_len r < length (lru_arr r)")
    case True
    then have "?n = Suc (lru_len r)" by simp
    then show ?thesis using True arr a by (simp add: view_def min.absorb1 min.absorb2 less_Suc_eq_le)
  next
    case False
    then have "lru_len r = length (lru_arr r)" using assms(1) by (simp add: lru_ok_def)
    then show ?thesis using arr a by (simp add: view_def)
  qed
  moreover have "length ?arr = length (lru_arr r)"
    using a arr assms(1) by (simp add: min_def lru_ok_def)
  moreover have "AddToCache now k m r = Some \<lparr>lru_arr = ?arr, lru_len = ?n\<rparr>"
    using arr by (simp add: AddToCache_def Let_def)
  ultimately show thesis
    by (intro that [of "\<lparr>lru_arr = ?arr, lru_len = ?n\<rparr>"]) (simp_all add: view_def lru_ok_def)
qed

section \<open>The most recently used answers\<close>

text \<open>The reference: the keys in the order of their last use.\<close>

fun recent :: "string list \<Rightarrow> string list" where
  "recent [] = []"
| "recent (k # ks) = k # filter (\<lambda>x. x \<noteq> k) (recent ks)"

lemma distinct_recent: "distinct (recent ks)"
  by (induction ks) auto

lemma filter_neq [simp]: "k \<notin> set xs \<Longrightarrow> filter (\<lambda>x. x \<noteq> k) xs = xs"
  by (induction xs) auto

lemma recent_hit:
  "distinct (us @ k # vs) \<Longrightarrow> take n R = us @ k # vs \<Longrightarrow> distinct R \<Longrightarrow>
   take n (k # filter (\<lambda>x. x \<noteq> k) R) = k # us @ vs"
proof -
  assume d: "distinct (us @ k # vs)" and t: "take n R = us @ k # vs" and R: "distinct R"
  have R2: "R = us @ k # vs @ drop n R" using append_take_drop_id [of n R] t by simp
  then have "k \<notin> set (drop n R)" using R by (metis append.assoc append_Cons distinct.simps(2) distinct_append in_set_conv_decomp Un_iff set_append)
  then have "filter (\<lambda>x. x \<noteq> k) R = us @ vs @ drop n R"
    using d by (subst R2) simp
  moreover have "length (us @ vs) = n - 1 \<or> drop n R = []"
    using arg_cong [OF t, of length] by auto
  moreover have "length (us @ k # vs) \<le> n" using arg_cong [OF t, of length] by (metis length_take min.cobounded2)
  then have "length (us @ vs) \<le> n - 1" "0 < n" by auto
  ultimately show ?thesis by (cases n) auto
qed

lemma recent_miss:
  assumes "k \<notin> set (take n R)"
  shows "take n (k # take n R) = take n (k # filter (\<lambda>x. x \<noteq> k) R)"
proof (cases n)
  case (Suc m)
  have "k \<notin> set (take m R)" using assms set_take_subset_set_take [of m n R] Suc by auto
  then have "filter (\<lambda>x. x \<noteq> k) (take m R) = take m R" by simp
  then have "filter (\<lambda>x. x \<noteq> k) R = take m R @ filter (\<lambda>x. x \<noteq> k) (drop m R)"
    using filter_append [of "\<lambda>x. x \<noteq> k" "take m R" "drop m R"] by simp
  moreover have "drop m R = [] \<or> length (take m R) = m" by auto
  ultimately show ?thesis using Suc by (auto simp: min_def)
qed simp

text \<open>
  The reference: a list of answers with their keys and the times when they expire, the last used one first. A query drops
  what has expired, and answers from the list, or with what the inner resolver says.
\<close>

type_synonym 'm answer = "string \<times> 'm \<times> nat"

definition cacheable :: "('m \<Rightarrow> nat) \<Rightarrow> 'm \<Rightarrow> bool" where
  "cacheable rcode m \<longleftrightarrow> rcode m = 0 \<or> rcode m = 3"

definition ref_query ::
  "('m \<Rightarrow> nat) \<Rightarrow> nat \<Rightarrow> nat \<Rightarrow> nat \<Rightarrow> string \<Rightarrow> err + 'm \<Rightarrow> 'm answer list \<Rightarrow> 'm answer list \<times> (err + 'm)" where
  "ref_query rcode cp now now' k res L =
     (let F = filter (\<lambda>x. now < snd (snd x)) L in
      case map_of F k of
        Some (m, t) \<Rightarrow> ((k, m, t) # filter (\<lambda>x. fst x \<noteq> k) F, Inr m)
      | None \<Rightarrow>
          (case res of
             Inl e \<Rightarrow> (F, Inl e)
           | Inr m \<Rightarrow> (if cacheable rcode m then take cp ((k, m, now' + 60) # F) else F, Inr m)))"

text \<open>
  Queries one after the other: each with the time when it starts, the time when the inner resolver would answer, the key,
  and that answer.
\<close>

type_synonym 'm timed_query = "nat \<times> nat \<times> string \<times> (err + 'm)"

fun lru_queries :: "('m \<Rightarrow> nat) \<Rightarrow> 'm timed_query list \<Rightarrow> 'm lru \<Rightarrow> ('m lru \<times> (err + 'm) list) option" where
  "lru_queries rcode [] r = Some (r, [])"
| "lru_queries rcode ((now, now', k, res) # qs) r =
     (case lru_Query rcode now now' k res r of
        None \<Rightarrow> None
      | Some (r', a) \<Rightarrow> map_option (\<lambda>(r'', as). (r'', a # as)) (lru_queries rcode qs r'))"

fun ref_queries :: "('m \<Rightarrow> nat) \<Rightarrow> nat \<Rightarrow> 'm timed_query list \<Rightarrow> 'm answer list \<Rightarrow> 'm answer list \<times> (err + 'm) list" where
  "ref_queries rcode cp [] L = (L, [])"
| "ref_queries rcode cp ((now, now', k, res) # qs) L =
     (case ref_query rcode cp now now' k res L of
        (L', a) \<Rightarrow> (case ref_queries rcode cp qs L' of (L'', as) \<Rightarrow> (L'', a # as)))"

text \<open>What the slice holds, without the zero entries of a new cache; and the invariant of queries one after the other.\<close>

definition answer_of :: "'m cacheEntry \<Rightarrow> 'm answer" where
  "answer_of e = (ce_key e, the (ce_msg e), ce_expire e)"

definition lru_answers :: "'m lru \<Rightarrow> 'm answer list" where
  "lru_answers r = map answer_of (filter (\<lambda>e. ce_msg e \<noteq> None) (view r))"

definition lru_good :: "nat \<Rightarrow> 'm lru \<Rightarrow> bool" where
  "lru_good cp r \<longleftrightarrow>
     lru_ok r \<and> length (lru_arr r) = cp \<and> (\<forall>e \<in> set (view r). ce_msg e = None \<longrightarrow> ce_expire e = 0)
     \<and> distinct (map fst (lru_answers r))"

lemma fst_answer_of [simp]: "fst \<circ> answer_of = ce_key" "fst (answer_of e) = ce_key e"
  "snd (snd (answer_of e)) = ce_expire e"
  by (auto simp: answer_of_def)

lemma lru_answers_full:
  "\<forall>e \<in> set (view r). ce_msg e \<noteq> None \<Longrightarrow> lru_answers r = map answer_of (view r)"
  by (simp add: lru_answers_def)

lemma lru_good_expired:
  assumes "lru_good cp r"
  shows "lru_good cp (RemoveExpired now r)" "\<forall>e \<in> set (view (RemoveExpired now r)). ce_msg e \<noteq> None"
    and "lru_answers (RemoveExpired now r) = filter (\<lambda>x. now < snd (snd x)) (lru_answers r)"
proof -
  have ok: "lru_ok r" and z: "\<And>e. e \<in> set (view r) \<Longrightarrow> ce_msg e = None \<Longrightarrow> ce_expire e = 0"
    using assms by (auto simp: lru_good_def)
  note v = view_RemoveExpired [OF ok, of now]
  show ne: "\<forall>e \<in> set (view (RemoveExpired now r)). ce_msg e \<noteq> None"
  proof
    fix e assume "e \<in> set (view (RemoveExpired now r))"
    then have "e \<in> set (view r)" "now < ce_expire e" by (simp_all add: v(1))
    then show "ce_msg e \<noteq> None" using z [of e] by (cases "ce_msg e") auto
  qed
  have "filter (\<lambda>e. now < ce_expire e) (view r) = filter (\<lambda>e. now < ce_expire e) (filter (\<lambda>e. ce_msg e \<noteq> None) (view r))"
  proof -
    have "(now < ce_expire e) = (ce_msg e \<noteq> None \<and> now < ce_expire e)" if "e \<in> set (view r)" for e
      using z [OF that] by (cases "ce_msg e") auto
    then have "filter (\<lambda>e. now < ce_expire e) (view r) = filter (\<lambda>e. ce_msg e \<noteq> None \<and> now < ce_expire e) (view r)"
      by (rule filter_cong [OF refl])
    then show ?thesis by (simp add: conj_commute)
  qed
  then show a: "lru_answers (RemoveExpired now r) = filter (\<lambda>x. now < snd (snd x)) (lru_answers r)"
    using lru_answers_full [OF ne] by (simp add: v(1) lru_answers_def filter_map comp_def)
  show "lru_good cp (RemoveExpired now r)"
    using assms v ne unfolding lru_good_def a by (auto simp: distinct_map_filter)
qed

lemma lru_Query_refines:
  assumes g: "lru_good cp r" and cp: "0 < cp"
  shows "\<exists>r'. lru_Query rcode now now' k res r = Some (r', snd (ref_query rcode cp now now' k res (lru_answers r)))
    \<and> lru_good cp r' \<and> lru_answers r' = fst (ref_query rcode cp now now' k res (lru_answers r))"
proof -
  define q where "q = RemoveExpired now r"
  have q: "lru_good cp q" "\<forall>e \<in> set (view q). ce_msg e \<noteq> None"
    and F: "filter (\<lambda>x. now < snd (snd x)) (lru_answers r) = lru_answers q"
    using lru_good_expired [OF g, of now] by (simp_all add: q_def)
  have a: "lru_answers q = map answer_of (view q)" by (rule lru_answers_full [OF q(2)])
  have ok: "lru_ok q" "length (lru_arr q) = cp" and d: "distinct (map ce_key (view q))"
    using q(1) a by (simp_all add: lru_good_def)
  from ok(1) show ?thesis
  proof (cases rule: SearchCache_cases [of q k])
    case miss
    have k: "k \<notin> fst ` set (lru_answers q)" using miss(2) by (auto simp: a)
    then have none: "map_of (lru_answers q) k = None" by (simp add: map_of_eq_None_iff)
    show ?thesis
    proof (cases res)
      case (Inl e)
      then show ?thesis using miss(1) q(1) none F by (simp add: lru_Query_def ref_query_def q_def [symmetric])
    next
      case (Inr m)
      let ?e = "\<lparr>ce_key = k, ce_msg = Some m, ce_expire = now' + 60\<rparr>"
      have ne: "lru_arr q \<noteq> []" using ok(2) cp by auto
      obtain r' where r': "AddToCache now' k m q = Some r'" "view r' = take cp (?e # view q)"
        "lru_ok r'" "length (lru_arr r') = cp"
        by (rule view_AddToCache [OF ok(1) ne, of now' k m]) (simp add: ok(2))
      have sub: "set (view r') \<subseteq> insert ?e (set (view q))" unfolding r'(2) by (metis list.simps(15) set_take_subset)
      then have full: "\<forall>e \<in> set (view r'). ce_msg e \<noteq> None" using q(2) by auto
      have a': "lru_answers r' = take cp ((k, m, now' + 60) # lru_answers q)"
        unfolding lru_answers_full [OF full] r'(2) take_map [symmetric] by (simp add: a answer_of_def)
      have "distinct (map fst ((k, m, now' + 60) # lru_answers q))" using k d a by (auto simp: image_comp)
      then have "distinct (map fst (lru_answers r'))" unfolding a' take_map [symmetric] by (rule distinct_take)
      then have "lru_good cp r'" using r' full by (auto simp: lru_good_def)
      then show ?thesis using miss(1) r'(1) none F a' q(1) Inr
        by (auto simp: lru_Query_def ref_query_def q_def [symmetric] cacheable_def)
    qed
  next
    case (hit r' e us vs)
    obtain m where m: "ce_msg e = Some m" using q(2) hit(2) by auto
    have full: "\<forall>e \<in> set (view r'). ce_msg e \<noteq> None" using q(2) hit(2,5) by auto
    have k: "k \<notin> ce_key ` set us" "k \<notin> ce_key ` set vs" using d hit(2,3,4) by auto
    have f: "filter (\<lambda>x. fst x \<noteq> k) (map answer_of xs) = map answer_of xs" if "k \<notin> ce_key ` set xs" for xs :: "'a cacheEntry list"
      using that by (induction xs) auto
    have "map_of (map answer_of us) k = None" using k(1) by (force simp: map_of_eq_None_iff)
    then have s: "map_of (lru_answers q) k = Some (m, ce_expire e)"
      using hit(2,3) m by (simp add: a answer_of_def map_add_def)
    have l: "(k, m, ce_expire e) # filter (\<lambda>x. fst x \<noteq> k) (lru_answers q) = lru_answers r'"
      using hit(2,3,5) m f [OF k(1)] f [OF k(2)] by (simp add: a lru_answers_full [OF full] answer_of_def)
    have "distinct (map ce_key (view r'))" using d hit(2,5) by auto
    then have "lru_good cp r'" using hit(6,7) ok(2) full by (auto simp: lru_good_def lru_answers_full [OF full])
    then show ?thesis using hit(1) m s l F by (simp add: lru_Query_def ref_query_def q_def [symmetric])
  qed
qed

lemma lru_queries_refine:
  "lru_good cp r \<Longrightarrow> 0 < cp \<Longrightarrow>
   \<exists>r'. lru_queries rcode qs r = Some (r', snd (ref_queries rcode cp qs (lru_answers r)))
     \<and> lru_good cp r' \<and> lru_answers r' = fst (ref_queries rcode cp qs (lru_answers r))"
proof (induction qs arbitrary: r)
  case (Cons q qs)
  obtain now now' k res where q: "q = (now, now', k, res)" by (cases q)
  obtain r1 where r1: "lru_Query rcode now now' k res r = Some (r1, snd (ref_query rcode cp now now' k res (lru_answers r)))"
    "lru_good cp r1" "lru_answers r1 = fst (ref_query rcode cp now now' k res (lru_answers r))"
    using lru_Query_refines [OF Cons.prems] by blast
  show ?case using Cons.IH [OF r1(2) Cons.prems(2)] r1 q by (auto simp: split_def)
qed auto

lemma lru_good_new: "lru_good cp (newSimpleLRUCacheResolver cp)" "lru_answers (newSimpleLRUCacheResolver cp) = []"
  by (simp_all add: lru_good_def lru_ok_def lru_answers_def view_def newSimpleLRUCacheResolver_def)

text \<open>Within the lifetime of the entries, the reference has the last used keys.\<close>

lemma ref_query_recent:
  assumes L: "map fst L = take cp R" "distinct R" "\<forall>x \<in> set L. t + 60 \<le> snd (snd x)" "0 < cp"
    and q: "now < t + 60" "t \<le> now'" "cacheable rcode m"
  shows "map fst (fst (ref_query rcode cp now now' k (Inr m) L)) = take cp (k # filter (\<lambda>x. x \<noteq> k) R)
    \<and> (\<forall>x \<in> set (fst (ref_query rcode cp now now' k (Inr m) L)). t + 60 \<le> snd (snd x))"
proof -
  have F: "filter (\<lambda>x. now < snd (snd x)) L = L" using L(3) q(1) by (auto intro!: filter_True)
  show ?thesis
  proof (cases "map_of L k")
    case None
    then have "k \<notin> set (take cp R)" using L(1) by (metis map_of_eq_None_iff list.set_map)
    then have "take cp (k # take cp R) = take cp (k # filter (\<lambda>x. x \<noteq> k) R)" by (rule recent_miss)
    moreover have "set (take cp ((k, m, now' + 60) # L)) \<subseteq> insert (k, m, now' + 60) (set L)"
      by (metis list.simps(15) set_take_subset)
    ultimately show ?thesis using None F q(2,3) L(1,3)
      by (auto simp: ref_query_def take_map [symmetric] simp del: take_Cons)
  next
    case (Some p)
    obtain m' x where p: "p = (m', x)" by (cases p)
    then have mem: "(k, m', x) \<in> set L" using Some by (simp add: map_of_SomeD)
    then have "k \<in> set (take cp R)" using L(1) by (metis fst_conv image_eqI list.set_map)
    then obtain us vs where t: "take cp R = us @ k # vs" by (meson split_list)
    have d: "distinct (us @ k # vs)" using L(2) t by (metis distinct_take)
    have "map fst (filter (\<lambda>x. fst x \<noteq> k) L) = filter (\<lambda>x. x \<noteq> k) (map fst L)" by (simp add: filter_map comp_def)
    also have "\<dots> = us @ vs" using L(1) t d by simp
    finally have "map fst ((k, m', x) # filter (\<lambda>x. fst x \<noteq> k) L) = take cp (k # filter (\<lambda>x. x \<noteq> k) R)"
      using recent_hit [OF d t L(2)] by simp
    then show ?thesis using Some p F L(3) mem by (auto simp: ref_query_def)
  qed
qed

definition lively :: "('m \<Rightarrow> nat) \<Rightarrow> nat \<Rightarrow> 'm timed_query \<Rightarrow> bool" where
  "lively rcode t = (\<lambda>(now, now', k, a). now < t + 60 \<and> t \<le> now' \<and> (case a of Inl _ \<Rightarrow> False | Inr m \<Rightarrow> cacheable rcode m))"

lemma ref_queries_recent:
  "map fst L = take cp (recent (rev ks)) \<Longrightarrow> \<forall>x \<in> set L. t + 60 \<le> snd (snd x) \<Longrightarrow> 0 < cp \<Longrightarrow> \<forall>q \<in> set qs. lively rcode t q \<Longrightarrow>
   map fst (fst (ref_queries rcode cp qs L)) = take cp (recent (rev (ks @ map (\<lambda>(_, _, k, _). k) qs)))"
proof (induction qs arbitrary: ks L)
  case (Cons q qs)
  obtain now now' k m where q: "q = (now, now', k, Inr m)" "now < t + 60" "t \<le> now'" "cacheable rcode m"
    using Cons.prems(4) by (cases q) (auto simp: lively_def split: sum.splits)
  let ?L = "fst (ref_query rcode cp now now' k (Inr m) L)"
  have "map fst ?L = take cp (recent (rev (ks @ [k])))" "\<forall>x \<in> set ?L. t + 60 \<le> snd (snd x)"
    using ref_query_recent [OF Cons.prems(1) distinct_recent Cons.prems(2,3) q(2-4), of k] by simp_all
  from Cons.IH [OF this Cons.prems(3)] show ?case using Cons.prems(4) q(1) by (simp add: split_def)
qed simp

text \<open>
  C17: the slice is a least recently used cache with a lifetime: any queries one after the other, at any times and
  whatever the inner resolver says, get exactly the answers of the reference, and leave its entries in its order;
  there is no panic. Among answers that can be cached and have not expired, these are the last \<open>cp\<close> different questions, in
  the order of their last use.
\<close>

theorem lru_keeps_recent:
  fixes rcode :: "'m \<Rightarrow> nat"
  assumes "0 < cp"
  shows "\<exists>r. lru_queries rcode qs (newSimpleLRUCacheResolver cp) = Some (r, snd (ref_queries rcode cp qs []))
     \<and> lru_answers r = fst (ref_queries rcode cp qs [])
     \<and> ((\<forall>q \<in> set qs. lively rcode t q) \<longrightarrow> map fst (lru_answers r) = take cp (recent (rev (map (\<lambda>(_, _, k, _). k) qs))))"
  using lru_queries_refine [OF lru_good_new(1) assms, where rcode = rcode and qs = qs]
    ref_queries_recent [of "[]" cp "[]" t qs rcode] assms
  by (auto simp: lru_good_new(2))

section \<open>Freshness\<close>

text \<open>
  The operations of concurrent queries, in any order and at any times: the critical sections are
  \<^verbatim>\<open>RemoveExpired\<close>, \<^verbatim>\<open>SearchCache\<close> and \<^verbatim>\<open>AddToCache\<close>.
\<close>

datatype 'm lru_event = OpExpire nat | OpSearch string | OpAdd nat string 'm

fun lru_op :: "'m lru \<Rightarrow> 'm lru_event \<Rightarrow> 'm lru option" where
  "lru_op r (OpExpire now) = Some (RemoveExpired now r)"
| "lru_op r (OpSearch k) = Some (fst (SearchCache k r))"
| "lru_op r (OpAdd now k m) = AddToCache now k m r"

fun lru_ops :: "'m lru \<Rightarrow> 'm lru_event list \<Rightarrow> 'm lru option" where
  "lru_ops r [] = Some r"
| "lru_ops r (x # xs) = (case lru_op r x of None \<Rightarrow> None | Some r' \<Rightarrow> lru_ops r' xs)"

text \<open>Every entry is the zero entry or was added, with its time of arrival.\<close>

definition entry_from :: "'m lru_event set \<Rightarrow> 'm cacheEntry \<Rightarrow> bool" where
  "entry_from H e \<longleftrightarrow>
     e = \<lparr>ce_key = [], ce_msg = None, ce_expire = 0\<rparr>
     \<or> (\<exists>t m. OpAdd t (ce_key e) m \<in> H \<and> ce_msg e = Some m \<and> ce_expire e = t + 60)"

definition lru_from :: "'m lru_event set \<Rightarrow> 'm lru \<Rightarrow> bool" where
  "lru_from H r \<longleftrightarrow> lru_ok r \<and> lru_arr r \<noteq> [] \<and> (\<forall>e \<in> set (view r). entry_from H e)"

lemma entry_from_insert: "entry_from H e \<Longrightarrow> entry_from (insert x H) e"
  by (auto simp: entry_from_def)

lemma entry_from_added:
  "entry_from (insert (OpAdd t k m) H) \<lparr>ce_key = k, ce_msg = Some m, ce_expire = t + 60\<rparr>"
  by (simp add: entry_from_def)

lemma lru_from_op:
  assumes "lru_from H r"
  shows "\<exists>r'. lru_op r x = Some r' \<and> lru_from (insert x H) r'"
proof (cases x)
  case (OpExpire now)
  then show ?thesis using assms view_RemoveExpired [of r now]
    by (auto simp: lru_from_def intro: entry_from_insert)
next
  case (OpSearch k)
  have "lru_ok r" using assms by (simp add: lru_from_def)
  then show ?thesis
  proof (cases rule: SearchCache_cases [of r k])
    case miss
    then show ?thesis using assms OpSearch by (auto simp: lru_from_def intro: entry_from_insert)
  next
    case (hit r' e us vs)
    then have "lru_arr r' \<noteq> []" using assms by (auto simp: lru_from_def)
    then show ?thesis using assms OpSearch hit by (auto simp: lru_from_def intro: entry_from_insert)
  qed
next
  case (OpAdd now k m)
  let ?e = "\<lparr>ce_key = k, ce_msg = Some m, ce_expire = now + 60\<rparr>"
  obtain r' where r': "AddToCache now k m r = Some r'" "view r' = take (length (lru_arr r)) (?e # view r)"
    "lru_ok r'" "length (lru_arr r') = length (lru_arr r)"
    by (rule view_AddToCache [of r now k m]) (use assms in \<open>auto simp: lru_from_def\<close>)
  have "set (view r') \<subseteq> insert ?e (set (view r))" unfolding r'(2) by (metis list.simps(15) set_take_subset)
  moreover have "lru_arr r' \<noteq> []" using r'(4) assms by (auto simp: lru_from_def)
  ultimately have "lru_from (insert x H) r'"
    using assms r'(3) OpAdd entry_from_added [of now k m H] entry_from_insert [of H _ x]
    unfolding lru_from_def by blast
  then show ?thesis using r'(1) OpAdd by simp
qed

lemma lru_from_ops: "lru_from H r \<Longrightarrow> \<exists>r'. lru_ops r xs = Some r' \<and> lru_from (set xs \<union> H) r'"
proof (induction xs arbitrary: H r)
  case (Cons x xs)
  obtain r' where r': "lru_op r x = Some r'" "lru_from (insert x H) r'"
    using lru_from_op [OF Cons.prems, of x] by blast
  from Cons.IH [OF r'(2)] show ?case using r'(1) by auto
qed simp

text \<open>
  With queries that overlap in any way, a query that starts at \<open>now\<close> gets an answer from the cache
  only if that answer came in for a question with the same key less than a minute before.
\<close>

theorem lru_fresh:
  assumes "0 < cp" "lru_ops (newSimpleLRUCacheResolver cp) xs = Some r"
    and "SearchCache k (RemoveExpired now r) = (r', Some m)"
  shows "\<exists>t. OpAdd t k m \<in> set xs \<and> now < t + 60"
proof -
  have "lru_from {} (newSimpleLRUCacheResolver cp)"
    using assms(1) by (simp add: lru_from_def lru_ok_def newSimpleLRUCacheResolver_def view_def entry_from_def)
  from lru_from_ops [OF this, of xs] have f: "lru_from (set xs) r" using assms(2) by simp
  then have ok: "lru_ok (RemoveExpired now r)" using view_RemoveExpired [of r now] by (auto simp: lru_from_def)
  have v: "view (RemoveExpired now r) = filter (\<lambda>e. now < ce_expire e) (view r)"
    using f view_RemoveExpired [of r now] by (simp add: lru_from_def)
  from ok show ?thesis
  proof (cases rule: SearchCache_cases [of "RemoveExpired now r" k])
    case miss
    then show ?thesis using assms(3) by simp
  next
    case (hit r'' e us vs)
    then have "e \<in> set (filter (\<lambda>e. now < ce_expire e) (view r))" using v by (metis in_set_conv_decomp)
    then have "e \<in> set (view r)" "now < ce_expire e" by simp_all
    moreover have "entry_from (set xs) e" using f \<open>e \<in> set (view r)\<close> by (simp add: lru_from_def)
    ultimately show ?thesis using hit(1,3) assms(3) by (auto simp: entry_from_def)
  qed
qed

section \<open>Witnesses\<close>

definition lru_demo_queries :: "nat timed_query list" where
  "lru_demo_queries = [(5, 6, ''a'', Inr 1), (7, 8, ''b'', Inr 2), (9, 9, ''a'', Inr 3), (9, 9, ''c'', Inl EOF), (9, 9, ''c'', Inr 4)]"

lemma lru_keeps_recent_witness:
  "\<exists>r. lru_queries (\<lambda>m. 0) lru_demo_queries (newSimpleLRUCacheResolver 2)
       = Some (r, [Inr 1, Inr 2, Inr 1, Inl EOF, Inr 4])
     \<and> lru_answers r = [(''c'', 4, 69), (''a'', 1, 66)]"
proof -
  have "ref_queries (\<lambda>m. 0) 2 lru_demo_queries []
      = ([(''c'', 4, 69), (''a'', 1, 66)], [Inr 1, Inr 2, Inr 1, Inl EOF, Inr 4])"
    by (simp add: lru_demo_queries_def ref_query_def cacheable_def numeral_2_eq_2)
  then show ?thesis using lru_keeps_recent [of 2 "\<lambda>m. 0" lru_demo_queries 0] by auto
qed

lemma lru_fresh_witness:
  "\<exists>r r'. lru_ops (newSimpleLRUCacheResolver 1) [OpExpire 3, OpAdd 4 ''a'' (7 :: nat)] = Some r
     \<and> SearchCache ''a'' (RemoveExpired 60 r) = (r', Some 7)
     \<and> (\<exists>t. OpAdd t ''a'' (7 :: nat) \<in> set [OpExpire 3, OpAdd 4 ''a'' 7] \<and> 60 < t + 60)"
proof -
  obtain r r' where r: "lru_ops (newSimpleLRUCacheResolver 1) [OpExpire 3, OpAdd 4 ''a'' (7 :: nat)] = Some r"
    "SearchCache ''a'' (RemoveExpired 60 r) = (r', Some 7)"
    by (simp add: newSimpleLRUCacheResolver_def RemoveExpired_def compact_def AddToCache_def SearchCache_def
        view_def blit_def)
  from lru_fresh [OF _ r] r show ?thesis by auto
qed

end
