(* ===== verification/SmartRace.thy ===== *)
theory SmartRace
  imports GoPrelude "HOL-Library.Multiset"
begin

text \<open>
  \<^verbatim>\<open>raceTests\<close> of \<^verbatim>\<open>x/smart/racer.go\<close>: entries are tested one after the other, the next one when the
  previous test has ended or has taken too long, until one succeeds. The loop is a machine whose events
  are the cases of its \<^verbatim>\<open>select\<close>, the ends of the tests, time and cancellation.
\<close>

section \<open>The machine\<close>

text \<open>What the loop waits for before it starts the next test: nothing, or test \<open>i\<close> or its deadline.\<close>

datatype race_wait = WaitClosed | WaitTest nat nat

text \<open>
  \<open>ra_queue\<close> is \<^verbatim>\<open>resultChan\<close>. For the properties: the tests whose failure was received, the test whose
  success was, the results of all tests that ended, and the time of the last start.
\<close>

record 'r race =
  ra_now :: nat
  ra_next :: nat
  ra_toTest :: nat
  ra_wait :: "race_wait option"
  ra_running :: "nat list"
  ra_queue :: "(nat \<times> (err + 'r)) list"
  ra_cancelled :: bool
  ra_result :: "(err + 'r) option"
  ra_failed :: "nat list"
  ra_won :: "nat option"
  ra_log :: "(nat \<times> (err + 'r)) list"
  ra_start :: nat

definition errAllFailed :: err where "errAllFailed = ErrNew ''all tests failed''"
definition errRaceCanceled :: err where "errRaceCanceled = ErrNew ''context canceled''"

definition race_head :: "'r race \<Rightarrow> 'r race" where
  "race_head r = (if ra_toTest r = 0 then r\<lparr>ra_result := Some (Inl errAllFailed)\<rparr> else r)"

definition race_init :: "nat \<Rightarrow> nat \<Rightarrow> 'r race" where
  "race_init n t = race_head
     \<lparr>ra_now = t, ra_next = 0, ra_toTest = n, ra_wait = Some WaitClosed, ra_running = [], ra_queue = [],
      ra_cancelled = False, ra_result = None, ra_failed = [], ra_won = None, ra_log = [], ra_start = 0\<rparr>"

definition race_wait_done :: "'r race \<Rightarrow> race_wait \<Rightarrow> bool" where
  "race_wait_done r w =
     (case w of
        WaitClosed \<Rightarrow> True
      | WaitTest i d \<Rightarrow> d \<le> ra_now r \<or> i \<notin> set (ra_running r) \<or> ra_cancelled r)"

definition race_start :: "nat \<Rightarrow> nat \<Rightarrow> 'r race \<Rightarrow> 'r race" where
  "race_start maxWait n r =
     r\<lparr>ra_next := Suc (ra_next r),
       ra_wait := (if Suc (ra_next r) = n then None else Some (WaitTest (ra_next r) (ra_now r + maxWait))),
       ra_running := ra_running r @ [ra_next r], ra_start := ra_now r\<rparr>"

definition race_receive :: "'r race \<Rightarrow> 'r race option" where
  "race_receive r =
     (case ra_queue r of
        [] \<Rightarrow> None
      | (i, x) # q \<Rightarrow>
          let r' = r\<lparr>ra_queue := q, ra_toTest := ra_toTest r - 1\<rparr> in
          Some (case x of
                  Inl e \<Rightarrow> race_head (r'\<lparr>ra_failed := i # ra_failed r\<rparr>)
                | Inr v \<Rightarrow> r'\<lparr>ra_result := Some (Inr v), ra_won := Some i\<rparr>))"

datatype 'r race_event =
  RaTick nat | RaReady | RaFinish nat "err + 'r" | RaResult | RaCancel | RaCtxDone

fun race_step :: "nat \<Rightarrow> nat \<Rightarrow> 'r race \<Rightarrow> 'r race_event \<Rightarrow> 'r race option" where
  "race_step maxWait n r (RaTick t) = (if ra_now r \<le> t then Some (r\<lparr>ra_now := t\<rparr>) else None)"
| "race_step maxWait n r RaReady =
     (case ra_wait r of
        None \<Rightarrow> None
      | Some w \<Rightarrow> if ra_result r = None \<and> race_wait_done r w then Some (race_start maxWait n r) else None)"
| "race_step maxWait n r (RaFinish i x) =
     (if i \<in> set (ra_running r)
      then Some (r\<lparr>ra_running := remove1 i (ra_running r), ra_queue := ra_queue r @ [(i, x)],
                   ra_log := (i, x) # ra_log r\<rparr>)
      else None)"
| "race_step maxWait n r RaResult = (if ra_result r = None then race_receive r else None)"
| "race_step maxWait n r RaCancel = (if ra_result r = None then Some (r\<lparr>ra_cancelled := True\<rparr>) else None)"
| "race_step maxWait n r RaCtxDone =
     (if ra_result r = None \<and> ra_cancelled r then Some (r\<lparr>ra_result := Some (Inl errRaceCanceled)\<rparr>) else None)"

fun race_run :: "nat \<Rightarrow> nat \<Rightarrow> 'r race \<Rightarrow> 'r race_event list \<Rightarrow> 'r race option" where
  "race_run maxWait n r [] = Some r"
| "race_run maxWait n r (e # es) =
     (case race_step maxWait n r e of None \<Rightarrow> None | Some r' \<Rightarrow> race_run maxWait n r' es)"

section \<open>Invariants\<close>

text \<open>The books of the tests, and what the results say.\<close>

definition race_books :: "nat \<Rightarrow> 'r race \<Rightarrow> bool" where
  "race_books n r \<longleftrightarrow>
     mset [0..<ra_next r] = mset (ra_running r) + mset (map fst (ra_queue r)) + mset (ra_failed r)
        + (case ra_won r of None \<Rightarrow> {#} | Some i \<Rightarrow> {#i#})
     \<and> ra_next r \<le> n
     \<and> ra_toTest r + length (ra_failed r) + (case ra_won r of None \<Rightarrow> 0 | Some i \<Rightarrow> 1) = n
     \<and> mset (ra_running r) + mset (map fst (ra_log r)) = mset [0..<ra_next r]
     \<and> set (ra_queue r) \<subseteq> set (ra_log r)
     \<and> (\<forall>i \<in> set (ra_failed r). \<exists>e. (i, Inl e) \<in> set (ra_log r))"

definition race_ends :: "nat \<Rightarrow> 'r race \<Rightarrow> bool" where
  "race_ends n r \<longleftrightarrow>
     (case ra_result r of
        None \<Rightarrow> ra_won r = None \<and> 0 < ra_toTest r
          \<and> (case ra_wait r of None \<Rightarrow> ra_next r = n | Some _ \<Rightarrow> ra_next r < n)
          \<and> (case ra_wait r of
               None \<Rightarrow> True
             | Some WaitClosed \<Rightarrow> ra_next r = 0
             | Some (WaitTest i d) \<Rightarrow> ra_next r = Suc i)
      | Some (Inl e) \<Rightarrow> ra_won r = None \<and> (\<not> ra_cancelled r \<longrightarrow> ra_toTest r = 0 \<and> e = errAllFailed)
      | Some (Inr v) \<Rightarrow> (\<exists>i. ra_won r = Some i \<and> (i, Inr v) \<in> set (ra_log r)))"

definition race_inv :: "nat \<Rightarrow> 'r race \<Rightarrow> bool" where
  "race_inv n r \<longleftrightarrow> race_books n r \<and> race_ends n r"

lemma race_books_size:
  assumes "race_books n r"
  shows "ra_next r = length (ra_running r) + length (ra_queue r) + length (ra_failed r)
    + (case ra_won r of None \<Rightarrow> 0 | Some i \<Rightarrow> 1)"
proof -
  have "size (mset [0..<ra_next r]) = size (mset (ra_running r) + mset (map fst (ra_queue r)) + mset (ra_failed r)
        + (case ra_won r of None \<Rightarrow> {#} | Some i \<Rightarrow> {#i#}))"
    using assms unfolding race_books_def by (elim conjE) (rule arg_cong)
  then show ?thesis by (simp split: option.splits)
qed

lemma race_inv_init: "race_inv n (race_init n t)"
  by (auto simp: race_inv_def race_books_def race_ends_def race_init_def race_head_def)

lemma race_books_receive:
  assumes "race_inv n r" "ra_result r = None" "race_receive r = Some r'"
  shows "race_inv n r'"
proof -
  obtain i x q where q: "ra_queue r = (i, x) # q"
    using assms(3) by (auto simp: race_receive_def split: list.splits prod.splits)
  have w: "ra_won r = None" "0 < ra_toTest r" using assms(1,2) by (auto simp: race_inv_def race_ends_def)
  have b: "race_books n r" using assms(1) by (simp add: race_inv_def)
  show ?thesis
  proof (cases x)
    case (Inl e)
    let ?s = "r\<lparr>ra_queue := q, ra_toTest := ra_toTest r - 1, ra_failed := i # ra_failed r\<rparr>"
    have "race_books n ?s" using b w q Inl by (auto simp: race_books_def)
    moreover have "race_ends n (race_head ?s)"
      using assms(1,2) w by (auto simp: race_inv_def race_ends_def race_head_def split: option.splits race_wait.splits)
    moreover have "race_books n (race_head ?s) = race_books n ?s" by (simp add: race_head_def race_books_def)
    ultimately show ?thesis using assms(3) q Inl by (simp add: race_receive_def race_inv_def)
  next
    case (Inr v)
    let ?s = "r\<lparr>ra_queue := q, ra_toTest := ra_toTest r - 1, ra_result := Some (Inr v), ra_won := Some i\<rparr>"
    have "race_books n ?s" using b w q by (auto simp: race_books_def)
    moreover have "race_ends n ?s" using b q Inr by (auto simp: race_books_def race_ends_def)
    ultimately show ?thesis using assms(3) q Inr by (simp add: race_receive_def race_inv_def)
  qed
qed

lemma race_inv_step: "race_inv n r \<Longrightarrow> race_step maxWait n r e = Some r' \<Longrightarrow> race_inv n r'"
proof (cases e)
  case (RaFinish i x)
  assume a: "race_inv n r" "race_step maxWait n r e = Some r'"
  then have i: "i \<in> set (ra_running r)"
    "r' = r\<lparr>ra_running := remove1 i (ra_running r), ra_queue := ra_queue r @ [(i, x)], ra_log := (i, x) # ra_log r\<rparr>"
    using RaFinish by (auto split: if_splits)
  have "mset (ra_running r) = add_mset i (mset (remove1 i (ra_running r)))" using i(1) by simp
  then have "race_books n r'" using a(1) i by (auto simp: race_inv_def race_books_def)
  moreover have "race_ends n r'"
    using a(1) i by (auto simp: race_inv_def race_ends_def split: option.splits sum.splits race_wait.splits)
  ultimately show ?thesis by (simp add: race_inv_def)
next
  case RaReady
  assume a: "race_inv n r" "race_step maxWait n r e = Some r'"
  then obtain w where w: "ra_wait r = Some w" "ra_result r = None" "r' = race_start maxWait n r"
    using RaReady by (auto split: option.splits if_splits)
  then have n: "ra_next r < n" using a(1) by (auto simp: race_inv_def race_ends_def)
  have "race_books n r'" using a(1) w n by (simp add: race_inv_def race_books_def race_start_def)
  moreover have "race_ends n r'" using a(1) w n by (auto simp: race_inv_def race_ends_def race_start_def)
  ultimately show ?thesis by (simp add: race_inv_def)
next
  case RaResult
  assume "race_inv n r" "race_step maxWait n r e = Some r'"
  then show ?thesis using RaResult race_books_receive by (auto split: if_splits)
next
  case (RaTick t)
  assume a: "race_inv n r" "race_step maxWait n r e = Some r'"
  then have "r' = r\<lparr>ra_now := t\<rparr>" using RaTick by (simp split: if_splits)
  then show ?thesis using a(1) by (simp add: race_inv_def race_books_def race_ends_def cong: option.case_cong sum.case_cong race_wait.case_cong)
next
  case RaCancel
  assume a: "race_inv n r" "race_step maxWait n r e = Some r'"
  then have r: "ra_result r = None" "r' = r\<lparr>ra_cancelled := True\<rparr>" using RaCancel by (simp_all split: if_splits)
  then show ?thesis using a(1) by (auto simp: race_inv_def race_books_def race_ends_def cong: option.case_cong race_wait.case_cong)
next
  case RaCtxDone
  assume a: "race_inv n r" "race_step maxWait n r e = Some r'"
  then have r: "ra_result r = None" "ra_cancelled r" "r' = r\<lparr>ra_result := Some (Inl errRaceCanceled)\<rparr>"
    using RaCtxDone by (simp_all split: if_splits)
  then show ?thesis using a(1) by (auto simp: race_inv_def race_books_def race_ends_def)
qed

lemma race_inv_run: "race_run maxWait n (race_init n t) es = Some r \<Longrightarrow> race_inv n r"
proof -
  have "race_inv n q \<Longrightarrow> race_run maxWait n q es = Some r \<Longrightarrow> race_inv n r" for q
    by (induction es arbitrary: q) (auto split: option.splits intro: race_inv_step)
  then show "race_run maxWait n (race_init n t) es = Some r \<Longrightarrow> race_inv n r" using race_inv_init by blast
qed

section \<open>Properties\<close>

lemma race_outcome_facts:
  assumes "race_run maxWait n (race_init n t) es = Some r"
  shows "(\<forall>v. ra_result r = Some (Inr v) \<longrightarrow> (\<exists>i. (i, Inr v) \<in> set (ra_log r)))
     \<and> (\<forall>e. ra_result r = Some (Inl e) \<and> \<not> ra_cancelled r \<longrightarrow>
          e = errAllFailed \<and> (\<forall>i < n. \<exists>x. (i, Inl x) \<in> set (ra_log r)))
     \<and> (\<forall>i. i < ra_next r \<longleftrightarrow> i \<in> set (ra_running r @ map fst (ra_log r)))
     \<and> distinct (ra_running r @ map fst (ra_log r)) \<and> distinct (ra_running r @ map fst (ra_queue r) @ ra_failed r)
     \<and> (\<forall>r'. race_step maxWait n r RaReady = Some r' \<longrightarrow> ra_next r < n)
     \<and> length (ra_queue r) + length (ra_running r) \<le> n"
proof (intro conjI allI impI)
  have b: "race_books n r" and x: "race_ends n r" using race_inv_run [OF assms] by (simp_all add: race_inv_def)
  have l: "mset (ra_running r @ map fst (ra_log r)) = mset [0..<ra_next r]" using b by (simp add: race_books_def)
  then show "distinct (ra_running r @ map fst (ra_log r))" by (metis distinct_upt mset_eq_imp_distinct_iff)
  show "(i < ra_next r) = (i \<in> set (ra_running r @ map fst (ra_log r)))" for i using mset_eq_setD [OF l] by auto
  have d: "mset (ra_running r @ map fst (ra_queue r) @ ra_failed r) \<subseteq># mset [0..<ra_next r]"
    using b by (simp add: race_books_def)
  then obtain rest where "mset ((ra_running r @ map fst (ra_queue r) @ ra_failed r) @ rest) = mset [0..<ra_next r]"
    by (metis ex_mset mset_append mset_subset_eq_exists_conv)
  then have "distinct ((ra_running r @ map fst (ra_queue r) @ ra_failed r) @ rest)"
    by (metis distinct_upt mset_eq_imp_distinct_iff)
  then show "distinct (ra_running r @ map fst (ra_queue r) @ ra_failed r)" by auto
  show "length (ra_queue r) + length (ra_running r) \<le> n"
    using size_mset_mono [OF d] b by (simp add: race_books_def)
  show "\<exists>i. (i, Inr v) \<in> set (ra_log r)" if "ra_result r = Some (Inr v)" for v
    using x that by (auto simp: race_ends_def)
  show "ra_next r < n" if "race_step maxWait n r RaReady = Some r'" for r'
    using x that by (auto simp: race_ends_def split: option.splits if_splits)
  fix e assume e: "ra_result r = Some (Inl e) \<and> \<not> ra_cancelled r"
  then have f: "ra_won r = None" "ra_toTest r = 0" "e = errAllFailed" using x by (auto simp: race_ends_def)
  then show "e = errAllFailed" by simp
  have "length (ra_failed r) = n" using b f by (simp add: race_books_def)
  moreover have "ra_next r = length (ra_running r) + length (ra_queue r) + length (ra_failed r)"
    using race_books_size [OF b] f by simp
  ultimately have "ra_running r = []" "ra_queue r = []" "ra_next r = n" using b by (auto simp: race_books_def)
  then have "mset (ra_failed r) = mset [0..<n]" using b f by (simp add: race_books_def)
  then have "set (ra_failed r) = {0..<n}" using mset_eq_setD [of "ra_failed r" "[0..<n]"] by simp
  then show "\<exists>x. (i, Inl x) \<in> set (ra_log r)" if "i < n" for i
    using b that by (auto simp: race_books_def)
qed

text \<open>
  C16: a race that nobody cancels fails only when every entry was tested and failed, and a success is
  the result of a test that succeeded; the tests that were started, those that run and those that have ended, are
  the first entries, each exactly once, so that no entry is tested twice; the index of an entry is in range
  whenever a test starts, and the channel has room for every result.
\<close>

theorem race_outcome:
  assumes "race_run maxWait n (race_init n t) es = Some r"
  shows "(\<forall>v. ra_result r = Some (Inr v) \<longrightarrow> (\<exists>i. (i, Inr v) \<in> set (ra_log r)))
     \<and> (\<forall>e. ra_result r = Some (Inl e) \<and> \<not> ra_cancelled r \<longrightarrow>
          e = errAllFailed \<and> (\<forall>i < n. \<exists>x. (i, Inl x) \<in> set (ra_log r)))
     \<and> (\<forall>i. i < ra_next r \<longleftrightarrow> i \<in> set (ra_running r @ map fst (ra_log r)))
     \<and> distinct (ra_running r @ map fst (ra_log r)) \<and> distinct (ra_running r @ map fst (ra_queue r) @ ra_failed r)
     \<and> (\<forall>r'. race_step maxWait n r RaReady = Some r' \<longrightarrow> ra_next r < n)
     \<and> length (ra_queue r) + length (ra_running r) \<le> n"
  by (rule race_outcome_facts [OF assms])

text \<open>A race of three: the first test is overtaken by the second, which fails; the third wins.\<close>

definition race_example :: "nat race_event list" where
  "race_example = [RaReady, RaTick 250, RaReady, RaFinish 1 (Inl EOF), RaResult, RaReady, RaFinish 2 (Inr 7), RaResult]"

lemma race_outcome_witness:
  "\<exists>r. race_run 250 3 (race_init 3 0) race_example = Some r \<and> ra_result r = Some (Inr 7) \<and> ra_running r = [0]
     \<and> (\<exists>i. (i, Inr 7) \<in> set (ra_log r))"
proof -
  let ?r = "\<lparr>ra_now = 250, ra_next = 3, ra_toTest = 1, ra_wait = None, ra_running = [0], ra_queue = [],
     ra_cancelled = False, ra_result = Some (Inr 7), ra_failed = [1], ra_won = Some 2,
     ra_log = [(2, Inr 7), (1, Inl EOF)], ra_start = 250\<rparr> :: nat race"
  have r: "race_run 250 3 (race_init 3 0) race_example = Some ?r"
    by (simp add: race_example_def race_init_def race_head_def race_start_def race_receive_def race_wait_done_def)
  then show ?thesis using race_outcome [OF r] by (intro exI [of _ ?r]) simp
qed

end
