(* ===== verification/SmartStrategy.thy ===== *)
theory SmartStrategy
  imports SmartDns SmartCache SmartRace
begin

text \<open>
  The search for a strategy of the smart dialer (\<^verbatim>\<open>x/smart/stream_dialer.go\<close>, \<^verbatim>\<open>strategy_result.go\<close>): the
  resolvers of a configuration, the tests, the races over DNS, TLS and fallback entries, and the cache
  of the strategy that won. YAML, the construction of dialers and the outcome of a probe are parameters.
\<close>

section \<open>Configurations\<close>

text \<open>The entries for HTTPS and TLS are pairs of a name and an address.\<close>

record dnsEntryConfig =
  ec_System :: bool
  ec_HTTPS :: "(string \<times> string) option"
  ec_TLS :: "(string \<times> string) option"
  ec_UDP :: "string option"
  ec_TCP :: "string option"

datatype 'y fallbackEntryConfig = FbString string | FbMap "(string \<times> 'y) list" | FbOther 'y

text \<open>A nil \<^verbatim>\<open>Fallback\<close> is \<open>None\<close>.\<close>

record 'y configConfig =
  cc_DNS :: "dnsEntryConfig list"
  cc_TLS :: "string list"
  cc_Fallback :: "'y fallbackEntryConfig list option"

definition cc_fallbacks :: "'y configConfig \<Rightarrow> 'y fallbackEntryConfig list" where
  "cc_fallbacks c = (case cc_Fallback c of None \<Rightarrow> [] | Some fs \<Rightarrow> fs)"

section \<open>Resolvers\<close>

definition default_port :: "string \<Rightarrow> string \<Rightarrow> string" where
  "default_port addr dflt =
     (case split_host_port addr of
        Inl _ \<Rightarrow> join_host_port addr dflt | Inr (host, port) \<Rightarrow> join_host_port host port)"

definition newDNSResolverFromEntry :: "dnsEntryConfig \<Rightarrow> err + resolver \<times> bool" where
  "newDNSResolverFromEntry entry =
     (if ec_System entry then Inr (SystemResolver, False)
      else case ec_HTTPS entry of
        Some (name, address) \<Rightarrow>
          (if name = [] then Inl (ErrNew ''https entry has empty server name'')
           else let serverAddr = (if address = [] then name else address) in
             (case split_host_port serverAddr of
                Inl _ \<Rightarrow> Inr (NewHTTPSResolver (join_host_port serverAddr ''443'') (doh_url (join_host_port name ''443'')), True)
              | Inr (_, port) \<Rightarrow> Inr (NewHTTPSResolver serverAddr (doh_url (join_host_port name port)), True)))
      | None \<Rightarrow>
     (case ec_TLS entry of
        Some (name, address) \<Rightarrow>
          (if name = [] then Inl (ErrNew ''tls entry has empty server name'')
           else let serverAddr = (if address = [] then name else address) in
             (case split_host_port serverAddr of
                Inl _ \<Rightarrow> Inr (NewTLSResolver (join_host_port serverAddr ''853'') name, True)
              | Inr _ \<Rightarrow> Inr (NewTLSResolver serverAddr name, True)))
      | None \<Rightarrow>
     (case ec_TCP entry of
        Some address \<Rightarrow>
          (if address = [] then Inl (ErrNew ''tcp entry has empty server address'')
           else Inr (NewTCPResolver (default_port address ''53''), False))
      | None \<Rightarrow>
     (case ec_UDP entry of
        Some address \<Rightarrow>
          (if address = [] then Inl (ErrNew ''udp entry has empty server address'')
           else Inr (NewUDPResolver (default_port address ''53''), False))
      | None \<Rightarrow> Inl (ErrNew ''invalid DNS entry'')))))"

record smartResolver =
  sr_Resolver :: resolver
  sr_ID :: string
  sr_Secure :: bool
  sr_Config :: dnsEntryConfig

fun resolvers_of :: "(dnsEntryConfig \<Rightarrow> err + string) \<Rightarrow> dnsEntryConfig list \<Rightarrow> err + smartResolver list" where
  "resolvers_of marshal [] = Inr []"
| "resolvers_of marshal (entry # es) =
     (case marshal entry of
        Inl e \<Rightarrow> Inl (ErrWrap ''cannot serialize entry'' e)
      | Inr id' \<Rightarrow>
          (case newDNSResolverFromEntry entry of
             Inl e \<Rightarrow> Inl (ErrWrap ''failed to process entry'' e)
           | Inr (resolver, isSecure) \<Rightarrow>
               map_sum id ((#) \<lparr>sr_Resolver = resolver, sr_ID = id', sr_Secure = isSecure, sr_Config = entry\<rparr>)
                 (resolvers_of marshal es)))"

definition dnsConfigToResolver :: "(dnsEntryConfig \<Rightarrow> err + string) \<Rightarrow> dnsEntryConfig list \<Rightarrow> err + smartResolver list" where
  "dnsConfigToResolver marshal dnsConfig =
     (if dnsConfig = [] then Inl (ErrNew ''no DNS config entry'') else resolvers_of marshal dnsConfig)"

section \<open>Tests\<close>

text \<open>
  What the steps of \<^verbatim>\<open>testDialerSingleDomain\<close> give: dial, TLS handshake, request, write, response. The
  result is the error, and whether a connection was opened and closed.
\<close>

record probe =
  pr_dial :: "err option"
  pr_handshake :: "err option"
  pr_request :: "err option"
  pr_write :: "err option"
  pr_response :: "err option"

definition testDialerSingleDomain :: "probe \<Rightarrow> bool \<times> bool \<times> err option" where
  "testDialerSingleDomain p =
     (case pr_dial p of
        Some err \<Rightarrow> (False, False, Some err)
      | None \<Rightarrow>
          (case pr_handshake p of
             Some err \<Rightarrow> (True, True, Some err)
           | None \<Rightarrow>
               (case pr_request p of
                  Some err \<Rightarrow> (True, True, Some (ErrWrap ''failed to create HTTP request'' err))
                | None \<Rightarrow>
                    (case pr_write p of
                       Some err \<Rightarrow> (True, True, Some err)
                     | None \<Rightarrow> (True, True, pr_response p)))))"

text \<open>The first error among the results of the domains, in the order in which they end.\<close>

fun testDialer :: "err option list \<Rightarrow> err option" where
  "testDialer [] = None"
| "testDialer (r # rs) = (case r of Some e \<Rightarrow> Some e | None \<Rightarrow> testDialer rs)"

text \<open>The test of a resolver: the domains one after the other.\<close>

fun dns_entry_test :: "(smartResolver \<Rightarrow> string \<Rightarrow> err + bytes list) \<Rightarrow> string list \<Rightarrow> smartResolver \<Rightarrow> err + smartResolver" where
  "dns_entry_test test [] r = Inr r"
| "dns_entry_test test (d # ds) r =
     (case test r d of Inl e \<Rightarrow> Inl e | Inr _ \<Rightarrow> dns_entry_test test ds r)"

text \<open>
  A race that is not cancelled: \<open>pick\<close> tells which of the tests that would succeed wins. The contract of
  \<open>pick\<close> is the locale below, and the machine of \<^verbatim>\<open>SmartRace\<close> keeps it.
\<close>

definition raceTests :: "(bool list \<Rightarrow> nat option) \<Rightarrow> (nat \<Rightarrow> 'e \<Rightarrow> err + 'r) \<Rightarrow> 'e list \<Rightarrow> err + 'r" where
  "raceTests pick test entries =
     (case pick (map (\<lambda>i. \<not> isl (test i (entries ! i))) [0..<length entries]) of
        None \<Rightarrow> Inl errAllFailed
      | Some i \<Rightarrow> test i (entries ! i))"

section \<open>The search\<close>

text \<open>
  The finder and what it calls. \<open>f_dnsDialer\<close> is the dialer with the (cached) resolver over the base dialer,
  \<open>f_newTLS\<close> and \<open>f_newSD\<close> are \<^verbatim>\<open>NewStreamDialer\<close> of \<^verbatim>\<open>configurl\<close>, with the selected resolver and dialer as
  base or with the default base; \<open>f_yaml_map\<close>, \<open>f_decode\<close> and \<open>f_decode_any\<close> are the decoding of YAML to a map and
  of a map to a struct or to any value, and \<open>f_to_yaml\<close> is the encoding.
\<close>

record ('y, 'd) finder =
  f_marshal :: "dnsEntryConfig \<Rightarrow> err + string"
  f_testDNS :: "smartResolver \<Rightarrow> string \<Rightarrow> err + bytes list"
  f_probe :: "'d \<Rightarrow> string \<Rightarrow> probe"
  f_base :: 'd
  f_base_is_tcp :: bool
  f_dnsDialer :: "resolver \<Rightarrow> 'd"
  f_newTLS :: "resolver \<Rightarrow> 'd \<Rightarrow> string \<Rightarrow> err + 'd"
  f_newSD :: "string \<Rightarrow> err + 'd"
  f_parsers :: "string \<Rightarrow> ('y \<Rightarrow> (err + 'd) \<times> string) option"
  f_yaml_map :: "bytes \<Rightarrow> err + (string \<times> 'y) list"
  f_decode :: "(string \<times> 'y) list \<Rightarrow> err + 'y configConfig"
  f_decode_any :: "(string \<times> 'y) list \<Rightarrow> err + 'y fallbackEntryConfig"
  f_to_yaml :: "'y configConfig \<Rightarrow> err + bytes"

text \<open>The dialers a search gives: one dialer, or one for the TLS ports over another.\<close>

datatype 'd found = Direct 'd | ByPort 'd 'd

definition found_route :: "(string \<Rightarrow> string \<Rightarrow> err + nat) \<Rightarrow> 'd found \<Rightarrow> string \<Rightarrow> err + 'd" where
  "found_route lookup_port f raddr =
     (case f of
        Direct d \<Rightarrow> Inr d
      | ByPort baseDialer tlsDialer \<Rightarrow>
          (case split_host_port raddr of
             Inl e \<Rightarrow> Inl (ErrWrap ''failed to parse address'' e)
           | Inr (_, portStr) \<Rightarrow>
               (case lookup_port ''tcp'' portStr of
                  Inl e \<Rightarrow> Inl (ErrWrap ''could not resolve port'' e)
                | Inr portNum \<Rightarrow> Inr (if portNum = 443 \<or> portNum = 853 then tlsDialer else baseDialer))))"

definition works :: "('y, 'd) finder \<Rightarrow> string list \<Rightarrow> 'd \<Rightarrow> err option" where
  "works F testDomains dialer = testDialer (map (\<lambda>d. snd (snd (testDialerSingleDomain (f_probe F dialer d)))) testDomains)"

definition findDNS ::
  "('y, 'd) finder \<Rightarrow> (bool list \<Rightarrow> nat option) \<Rightarrow> string list \<Rightarrow> dnsEntryConfig list \<Rightarrow> err + resolver \<times> dnsEntryConfig" where
  "findDNS F pick testDomains dnsConfig =
     (case dnsConfigToResolver (f_marshal F) dnsConfig of
        Inl e \<Rightarrow> Inl e
      | Inr resolvers \<Rightarrow>
          (case raceTests pick (\<lambda>_. dns_entry_test (f_testDNS F) testDomains) resolvers of
             Inl e \<Rightarrow> Inl (ErrWrap ''could not find working resolver'' e)
           | Inr r \<Rightarrow> Inr (sr_Resolver r, sr_Config r)))"

definition tls_entry_test ::
  "('y, 'd) finder \<Rightarrow> string list \<Rightarrow> 'd \<Rightarrow> resolver \<Rightarrow> string \<Rightarrow> err + 'd \<times> string" where
  "tls_entry_test F testDomains baseDialer defaultResolver transportCfg =
     (case f_newTLS F defaultResolver baseDialer transportCfg of
        Inl e \<Rightarrow> Inl (ErrWrap ''NewStreamDialer failed'' e)
      | Inr d \<Rightarrow> (case works F testDomains d of Some e \<Rightarrow> Inl e | None \<Rightarrow> Inr (d, transportCfg)))"

definition findTLS ::
  "('y, 'd) finder \<Rightarrow> (bool list \<Rightarrow> nat option) \<Rightarrow> string list \<Rightarrow> 'd \<Rightarrow> string list \<Rightarrow> resolver \<Rightarrow> err + 'd found \<times> string" where
  "findTLS F pick testDomains baseDialer tlsConfig defaultResolver =
     (if tlsConfig = [] then Inl (ErrNew ''config for TLS is empty. Please specify at least one transport'')
      else case raceTests pick (\<lambda>_. tls_entry_test F testDomains baseDialer defaultResolver) tlsConfig of
             Inl e \<Rightarrow> Inl (ErrWrap ''could not find TLS strategy'' e)
           | Inr (d, c) \<Rightarrow> Inr (ByPort baseDialer d, c))"

fun makeDialerFromConfig :: "('y, 'd) finder \<Rightarrow> 'y fallbackEntryConfig \<Rightarrow> err + 'd" where
  "makeDialerFromConfig F (FbString configUrl) =
     (case f_newSD F configUrl of Inl e \<Rightarrow> Inl (ErrWrap ''getStreamDialer failed'' e) | Inr d \<Rightarrow> Inr d)"
| "makeDialerFromConfig F (FbMap v) =
     (case v of
        [(key, config)] \<Rightarrow>
          (case f_parsers F key of
             None \<Rightarrow> Inl (ErrNew ''unsupported fallback type'')
           | Some parser \<Rightarrow> fst (parser config))
      | _ \<Rightarrow> Inl (ErrNew ''fallback config has too many keys''))"
| "makeDialerFromConfig F (FbOther v) = Inl (ErrNew ''invalid config'')"

definition fallback_test :: "('y, 'd) finder \<Rightarrow> string list \<Rightarrow> 'y fallbackEntryConfig \<Rightarrow> err + 'd \<times> 'y fallbackEntryConfig" where
  "fallback_test F testDomains c =
     (case makeDialerFromConfig F c of
        Inl e \<Rightarrow> Inl e
      | Inr d \<Rightarrow> (case works F testDomains d of Some e \<Rightarrow> Inl e | None \<Rightarrow> Inr (d, c)))"

definition findFallback ::
  "('y, 'd) finder \<Rightarrow> (bool list \<Rightarrow> nat option) \<Rightarrow> string list \<Rightarrow> 'y fallbackEntryConfig list
   \<Rightarrow> err + 'd \<times> 'y fallbackEntryConfig" where
  "findFallback F pick testDomains fallbackConfigs =
     (if fallbackConfigs = [] then Inl (ErrNew ''attempted to find fallback but no fallback configuration was specified'')
      else case raceTests pick (\<lambda>_. fallback_test F testDomains) fallbackConfigs of
             Inl e \<Rightarrow> Inl (ErrWrap ''could not find a working fallback'' e)
           | Inr r \<Rightarrow> Inr r)"

text \<open>\<open>pick 1\<close> and \<open>pick 2\<close> choose the winners of the races over DNS and TLS entries.\<close>

definition newProxylessDialer ::
  "('y, 'd) finder \<Rightarrow> (nat \<Rightarrow> bool list \<Rightarrow> nat option) \<Rightarrow> string list \<Rightarrow> 'y configConfig
   \<Rightarrow> err + 'd found \<times> dnsEntryConfig \<times> string" where
  "newProxylessDialer F pick testDomains config =
     (case findDNS F (pick 1) testDomains (cc_DNS config) of
        Inl e \<Rightarrow> Inl e
      | Inr (resolver, dnsConfig) \<Rightarrow>
          (if resolver = SystemResolver \<and> \<not> f_base_is_tcp F
           then Inl (ErrNew ''cannot use system resolver with base dialer'')
           else let dnsDialer = (if resolver = SystemResolver then f_base F else f_dnsDialer F resolver) in
             if cc_TLS config = [] then Inr (Direct dnsDialer, dnsConfig, [])
             else (case findTLS F (pick 2) testDomains dnsDialer (cc_TLS config) resolver of
                     Inl e \<Rightarrow> Inl e
                   | Inr (sd, tlsConfig) \<Rightarrow> Inr (sd, dnsConfig, tlsConfig))))"

section \<open>The cache of strategies\<close>

definition newProxylessWinningConfig :: "dnsEntryConfig \<Rightarrow> string \<Rightarrow> 'y configConfig" where
  "newProxylessWinningConfig d t =
     \<lparr>cc_DNS = [d], cc_TLS = (if t \<noteq> [] then [t] else []), cc_Fallback = None\<rparr>"

definition newFallbackWinningConfig :: "'y fallbackEntryConfig \<Rightarrow> 'y configConfig" where
  "newFallbackWinningConfig f = \<lparr>cc_DNS = [], cc_TLS = [], cc_Fallback = Some [f]\<rparr>"

definition getFallbackIfExclusive :: "'y configConfig \<Rightarrow> 'y configConfig \<Rightarrow> 'y fallbackEntryConfig option" where
  "getFallbackIfExclusive w cfg =
     (if length (cc_fallbacks w) \<noteq> 1 \<or> length (cc_DNS w) \<noteq> 0 \<or> length (cc_TLS w) \<noteq> 0 then None
      else if cc_fallbacks w ! 0 \<notin> set (cc_fallbacks cfg) then None
      else Some (cc_fallbacks w ! 0))"

text \<open>\<^verbatim>\<open>slices.Index\<close>.\<close>

fun index_of :: "'a \<Rightarrow> 'a list \<Rightarrow> int" where
  "index_of x [] = -1"
| "index_of x (y # ys) = (if y = x then 0 else let i = index_of x ys in if i < 0 then -1 else i + 1)"

definition promoteProxylessToFront :: "'y configConfig \<Rightarrow> 'y configConfig \<Rightarrow> 'y configConfig" where
  "promoteProxylessToFront w cfg =
     (let cfg1 = (if length (cc_DNS w) = 1
                  then cfg\<lparr>cc_DNS := moveToFront (cc_DNS cfg) (index_of (cc_DNS w ! 0) (cc_DNS cfg))\<rparr> else cfg)
      in if length (cc_TLS w) = 1
         then cfg1\<lparr>cc_TLS := moveToFront (cc_TLS cfg1) (index_of (cc_TLS w ! 0) (cc_TLS cfg1))\<rparr> else cfg1)"

text \<open>\<^verbatim>\<open>mapToAny\<close> drops the keys that start with a dollar sign.\<close>

definition drop_dollar :: "(string \<times> 'y) list \<Rightarrow> (string \<times> 'y) list" where
  "drop_dollar m = filter (\<lambda>(k, _). \<not> (0 < length k \<and> k ! 0 = CHR ''$'')) m"

fun parse_fallbacks ::
  "((string \<times> 'y) list \<Rightarrow> err + 'y fallbackEntryConfig) \<Rightarrow> 'y fallbackEntryConfig list \<Rightarrow> err + 'y fallbackEntryConfig list" where
  "parse_fallbacks dec [] = Inr []"
| "parse_fallbacks dec (f # fs) =
     (case (case f of
              FbString s \<Rightarrow> Inr (FbString s)
            | FbMap v \<Rightarrow> (case dec (drop_dollar v) of Inl e \<Rightarrow> Inl (ErrWrap ''failed to parse fallback config'' e) | Inr x \<Rightarrow> Inr x)
            | FbOther v \<Rightarrow> Inl (ErrNew ''unknown fallback type'')) of
        Inl e \<Rightarrow> Inl e
      | Inr f' \<Rightarrow> map_sum id ((#) f') (parse_fallbacks dec fs))"

definition parseConfig :: "('y, 'd) finder \<Rightarrow> bytes \<Rightarrow> err + 'y configConfig" where
  "parseConfig F configBytes =
     (case f_yaml_map F configBytes of
        Inl e \<Rightarrow> Inl (ErrWrap ''failed to unmarshal config to map'' e)
      | Inr m \<Rightarrow>
          (case f_decode F (drop_dollar m) of
             Inl e \<Rightarrow> Inl (ErrWrap ''failed to parse config'' e)
           | Inr c \<Rightarrow>
               (case cc_Fallback c of
                  None \<Rightarrow> Inr c
                | Some fs \<Rightarrow>
                    (case parse_fallbacks (f_decode_any F) fs of
                       Inl e \<Rightarrow> Inl e
                     | Inr fs' \<Rightarrow> Inr (c\<lparr>cc_Fallback := Some fs'\<rparr>)))))"

text \<open>What \<^verbatim>\<open>Cache.Get\<close> gives is \<open>None\<close> when there is no entry.\<close>

definition rankStrategiesFromCache ::
  "('y, 'd) finder \<Rightarrow> bytes option \<Rightarrow> 'y configConfig \<Rightarrow> 'y configConfig \<times> 'y fallbackEntryConfig option" where
  "rankStrategiesFromCache F cached input =
     (case cached of
        None \<Rightarrow> (input, None)
      | Some data \<Rightarrow>
          (case parseConfig F data of
             Inl _ \<Rightarrow> (input, None)
           | Inr winner \<Rightarrow>
               (case getFallbackIfExclusive winner input of
                  Some fbCfg \<Rightarrow> (input, Some fbCfg)
                | None \<Rightarrow> (promoteProxylessToFront winner input, None))))"

text \<open>
  \<^verbatim>\<open>NewDialer\<close> with a cache that holds \<open>cached\<close>, or without one: the dialer, the error and what the cache
  holds in the end. \<open>pick 0\<close> and \<open>pick 3\<close> are the races over the fallback of the cache and all fallbacks.
\<close>

definition search_fresh ::
  "('y, 'd) finder \<Rightarrow> (nat \<Rightarrow> bool list \<Rightarrow> nat option) \<Rightarrow> string list \<Rightarrow> 'y configConfig
   \<Rightarrow> err + 'd found \<times> 'y configConfig" where
  "search_fresh F pick doms cfg =
     (case newProxylessDialer F pick doms cfg of
        Inr (d, dnsConf, tlsConf) \<Rightarrow> Inr (d, newProxylessWinningConfig dnsConf tlsConf)
      | Inl e \<Rightarrow>
          (case cc_Fallback cfg of
             None \<Rightarrow> Inl e
           | Some fs \<Rightarrow>
               (case findFallback F (pick 3) doms fs of
                  Inl e' \<Rightarrow> Inl e'
                | Inr (d, fbConf) \<Rightarrow> Inr (Direct d, newFallbackWinningConfig fbConf))))"

definition NewDialer ::
  "('y, 'd) finder \<Rightarrow> (nat \<Rightarrow> bool list \<Rightarrow> nat option) \<Rightarrow> bytes option option \<Rightarrow> string list \<Rightarrow> bytes
   \<Rightarrow> 'd found option \<times> err option \<times> bytes option option" where
  "NewDialer F pick cache testDomains configBytes =
     (case parseConfig F configBytes of
        Inl e \<Rightarrow> (None, Some e, cache)
      | Inr inputConfig \<Rightarrow>
          (let doms = map makeFullyQualified testDomains;
               (ranked, first2Try) = (case cache of None \<Rightarrow> (inputConfig, None)
                                      | Some cached \<Rightarrow> rankStrategiesFromCache F cached inputConfig) in
           case (case first2Try of None \<Rightarrow> None
                 | Some f \<Rightarrow> (case findFallback F (pick 0) doms [f] of Inl _ \<Rightarrow> None | Inr (d, _) \<Rightarrow> Some d)) of
             Some d \<Rightarrow> (Some (Direct d), None, cache)
           | None \<Rightarrow>
               (case search_fresh F pick doms ranked of
                  Inl e \<Rightarrow> (None, Some e, map_option (\<lambda>_. None) cache)
                | Inr (d, winner) \<Rightarrow>
                    (case cache of
                       None \<Rightarrow> (Some d, None, None)
                     | Some _ \<Rightarrow>
                         (case f_to_yaml F winner of
                            Inl e \<Rightarrow> (Some d, Some e, Some None)
                          | Inr data \<Rightarrow> (Some d, None, Some (Some data)))))))"

section \<open>Races\<close>

text \<open>
  A race that is not cancelled picks a test that succeeds, if there is one; a prompt one, where the first
  test ends before the second one starts, prefers the first.
\<close>

locale race_choice =
  fixes pick :: "bool list \<Rightarrow> nat option"
  assumes pick_None: "pick bs = None \<longleftrightarrow> True \<notin> set bs"
    and pick_Some: "pick bs = Some i \<Longrightarrow> i < length bs \<and> bs ! i"
begin

lemma race_Inr:
  "raceTests pick test es = Inr v \<Longrightarrow> \<exists>i < length es. test i (es ! i) = Inr v"
  using pick_Some by (fastforce simp: raceTests_def split: option.splits)

lemma race_Inl:
  "raceTests pick test es = Inl e \<Longrightarrow> e = errAllFailed \<and> (\<forall>i < length es. isl (test i (es ! i)))"
proof (cases "pick (map (\<lambda>i. \<not> isl (test i (es ! i))) [0..<length es])")
  case None
  assume "raceTests pick test es = Inl e"
  then show ?thesis using None None [unfolded pick_None] by (auto simp: raceTests_def)
next
  case (Some i)
  assume "raceTests pick test es = Inl e"
  then show ?thesis using Some pick_Some [OF Some] by (auto simp: raceTests_def)
qed

end

locale prompt_race = race_choice +
  assumes pick_first: "pick (True # bs) = Some 0"
begin

lemma race_first: "test 0 e = Inr v \<Longrightarrow> raceTests pick test (e # es) = Inr v"
  using pick_first by (simp add: raceTests_def upt_conv_Cons del: upt.simps)

end

text \<open>
  The machine of \<^verbatim>\<open>SmartRace\<close> with tests that end as \<open>bs\<close> says: whoever wins an uncancelled run, the contract
  holds.
\<close>

definition log_of :: "bool list \<Rightarrow> (nat \<times> (err + 'r)) list \<Rightarrow> bool" where
  "log_of bs log \<longleftrightarrow> (\<forall>(i, x) \<in> set log. i < length bs \<and> bs ! i = (\<not> isl x))"

lemma race_machine_choice:
  assumes "race_run maxWait (length bs) (race_init (length bs) t) es = Some r"
    and "ra_result r = Some x" "\<not> ra_cancelled r" "log_of bs (ra_log r)"
  shows "(isl x \<longrightarrow> True \<notin> set bs) \<and> (\<not> isl x \<longrightarrow> (\<exists>i. ra_won r = Some i \<and> i < length bs \<and> bs ! i))"
proof (cases x)
  case (Inl e)
  have "\<exists>y. (i, Inl y) \<in> set (ra_log r)" if "i < length bs" for i
    using race_outcome_facts [OF assms(1)] Inl assms(2,3) that by blast
  then have "\<not> bs ! i" if "i < length bs" for i
    using assms(4) that by (force simp: log_of_def)
  then show ?thesis using Inl by (auto simp: in_set_conv_nth)
next
  case (Inr v)
  have "race_ends (length bs) r" using race_inv_run [OF assms(1)] by (simp add: race_inv_def)
  then show ?thesis using Inr assms(2,4) by (fastforce simp: race_ends_def log_of_def)
qed

text \<open>A schedule: each test ends before the next one starts.\<close>

fun seq_race :: "nat \<Rightarrow> bool list \<Rightarrow> unit race \<Rightarrow> unit race option" where
  "seq_race n [] r = Some r"
| "seq_race n (b # bs) r =
     (case race_run 250 n r [RaReady, RaFinish (ra_next r) (if b then Inr () else Inl EOF), RaResult] of
        None \<Rightarrow> None
      | Some r' \<Rightarrow> if ra_result r' = None then seq_race n bs r' else Some r')"

definition seq_pick :: "bool list \<Rightarrow> nat option" where
  "seq_pick bs = (case seq_race (length bs) bs (race_init (length bs) 0) of None \<Rightarrow> None | Some r \<Rightarrow> ra_won r)"

text \<open>Between two tests of the schedule, with \<open>k\<close> failures so far.\<close>

definition seq_idle :: "nat \<Rightarrow> nat \<Rightarrow> unit race \<Rightarrow> bool" where
  "seq_idle n k r \<longleftrightarrow>
     ra_next r = k \<and> ra_toTest r = n - k \<and> ra_running r = [] \<and> ra_queue r = [] \<and> ra_won r = None
     \<and> (k < n \<longrightarrow> ra_result r = None \<and> (\<exists>w. ra_wait r = Some w \<and> race_wait_done r w))
     \<and> (k = n \<longrightarrow> ra_result r = Some (Inl errAllFailed))"

lemma seq_idle_step:
  assumes "seq_idle n k r" "k < n"
  shows "\<exists>r'. race_run 250 n r [RaReady, RaFinish k (if b then Inr () else Inl EOF), RaResult] = Some r'
     \<and> (if b then ra_result r' = Some (Inr ()) \<and> ra_won r' = Some k else seq_idle n (Suc k) r')"
proof (cases b)
  case True
  then show ?thesis using assms
    by (auto simp: seq_idle_def race_start_def race_receive_def race_head_def)
next
  case False
  then show ?thesis using assms
    by (auto simp: seq_idle_def race_start_def race_receive_def race_head_def race_wait_done_def)
qed

lemma seq_race_idle:
  "seq_idle n k r \<Longrightarrow> n = k + length bs \<Longrightarrow>
   \<exists>r'. seq_race n bs r = Some r' \<and> (case ra_won r' of None \<Rightarrow> True \<notin> set bs | Some i \<Rightarrow> k \<le> i \<and> i < n \<and> bs ! (i - k)
      \<and> True \<notin> set (take (i - k) bs))"
proof (induction bs arbitrary: k r)
  case Nil
  then show ?case by (auto simp: seq_idle_def)
next
  case (Cons b bs)
  then have k: "k < n" "ra_next r = k" by (auto simp: seq_idle_def)
  obtain r' where r': "race_run 250 n r [RaReady, RaFinish k (if b then Inr () else Inl EOF), RaResult] = Some r'"
    "if b then ra_result r' = Some (Inr ()) \<and> ra_won r' = Some k else seq_idle n (Suc k) r'"
    using seq_idle_step [OF Cons.prems(1) k(1), of b] by blast
  show ?case
  proof (cases b)
    case True
    then show ?thesis using r' k by (simp del: race_run.simps)
  next
    case False
    show ?thesis
    proof (cases "Suc k = n")
      case True
      then have "bs = []" using Cons.prems(2) by simp
      moreover have "ra_result r' = Some (Inl errAllFailed)" "ra_won r' = None"
        using r'(2) False True by (simp_all add: seq_idle_def)
      ultimately show ?thesis using False r'(1) k by (simp del: race_run.simps)
    next
      case False2: False
      then have "ra_result r' = None" using r'(2) False k by (simp add: seq_idle_def)
      moreover obtain q where q: "seq_race n bs r' = Some q" "case ra_won q of None \<Rightarrow> True \<notin> set bs
          | Some i \<Rightarrow> Suc k \<le> i \<and> i < n \<and> bs ! (i - Suc k) \<and> True \<notin> set (take (i - Suc k) bs)"
        using Cons.IH [of "Suc k" r'] r'(2) False Cons.prems(2) by auto
      moreover have "i - k = Suc (i - Suc k)" if "Suc k \<le> i" for i using that by simp
      ultimately show ?thesis using False r'(1) k
        by (auto simp del: race_run.simps split: option.splits)
    qed
  qed
qed

lemma seq_pick_cases:
  "case seq_pick bs of None \<Rightarrow> True \<notin> set bs | Some i \<Rightarrow> i < length bs \<and> bs ! i \<and> True \<notin> set (take i bs)"
proof (cases "bs = []")
  case True
  then show ?thesis by (simp add: seq_pick_def race_init_def race_head_def)
next
  case False
  have "seq_idle (length bs) 0 (race_init (length bs) 0)"
    using False by (simp add: seq_idle_def race_init_def race_head_def race_wait_done_def)
  from seq_race_idle [OF this, of bs] show ?thesis by (auto simp: seq_pick_def split: option.splits)
qed

interpretation seq: prompt_race seq_pick
proof
  fix bs i
  show "seq_pick bs = None \<longleftrightarrow> True \<notin> set bs" using seq_pick_cases [of bs] by (auto split: option.splits simp: in_set_conv_nth)
  show "seq_pick bs = Some i \<Longrightarrow> i < length bs \<and> bs ! i" using seq_pick_cases [of bs] by simp
  have "seq_pick (True # bs) \<noteq> None" using seq_pick_cases [of "True # bs"] by (simp split: option.splits)
  then obtain j where j: "seq_pick (True # bs) = Some j" by blast
  then have "True \<notin> set (take j (True # bs))" using seq_pick_cases [of "True # bs"] by simp
  then show "seq_pick (True # bs) = Some 0" using j by (cases j) auto
qed

section \<open>Ranking\<close>

lemma index_of_absent: "x \<notin> set ys \<Longrightarrow> index_of x ys = -1"
  by (induction ys) auto

lemma index_of_append: "x \<notin> set us \<Longrightarrow> index_of x (us @ x # vs) = int (length us)"
  by (induction us) auto

lemma move_absent: "x \<notin> set ys \<Longrightarrow> moveToFront ys (index_of x ys) = ys"
  by (simp add: index_of_absent moveToFront_def)

lemma move_found:
  assumes "x \<in> set ys"
  obtains us vs where "ys = us @ x # vs" "moveToFront ys (index_of x ys) = x # us @ vs"
proof -
  obtain us vs where y: "ys = us @ x # vs" "x \<notin> set us" using assms by (meson split_list_first)
  then have "moveToFront ys (index_of x ys) = x # us @ vs"
    using moveToFront_eq [of "length us" ys] by (cases us) (auto simp: index_of_append add.commute)
  then show thesis using that y by blast
qed

lemma mset_move: "mset (moveToFront ys (index_of x ys)) = mset ys"
proof (cases "x \<in> set ys")
  case True
  from move_found [OF this] show ?thesis by (metis mset.simps(2) mset_append union_mset_add_mset_right)
qed (simp add: move_absent)

lemma promote_mset:
  "mset (cc_DNS (promoteProxylessToFront w c)) = mset (cc_DNS c)"
  "mset (cc_TLS (promoteProxylessToFront w c)) = mset (cc_TLS c)"
  "cc_Fallback (promoteProxylessToFront w c) = cc_Fallback c"
  by (simp_all add: promoteProxylessToFront_def Let_def mset_move)

lemma getFallback_Some: "getFallbackIfExclusive w c = Some f \<Longrightarrow> f \<in> set (cc_fallbacks c)"
  by (auto simp: getFallbackIfExclusive_def split: if_splits)

lemma rank_facts:
  assumes "rankStrategiesFromCache F cached input = (ranked, f)"
  shows "mset (cc_DNS ranked) = mset (cc_DNS input)" "mset (cc_TLS ranked) = mset (cc_TLS input)"
    "cc_Fallback ranked = cc_Fallback input" "f = Some x \<Longrightarrow> x \<in> set (cc_fallbacks input)"
  using assms promote_mset getFallback_Some
  by (auto simp: rankStrategiesFromCache_def split: option.splits sum.splits)

text \<open>
  Whatever the cache holds, it can change the order in which strategies are tried and nothing else:
  the ranked configuration has the same DNS and TLS entries and the same fallbacks, and the fallback
  that is tried first is one of the configuration.
\<close>

theorem smart_cache_reorders_only:
  assumes "rankStrategiesFromCache F cached input = (ranked, first2Try)"
  shows "mset (cc_DNS ranked) = mset (cc_DNS input) \<and> mset (cc_TLS ranked) = mset (cc_TLS input)
     \<and> cc_Fallback ranked = cc_Fallback input
     \<and> (case first2Try of None \<Rightarrow> True | Some f \<Rightarrow> f \<in> set (cc_fallbacks input))"
  using rank_facts [OF assms] by (simp split: option.split)

section \<open>What a search finds\<close>

text \<open>The entry \<open>e\<close> gives the resolver \<open>r\<close> and passes the test.\<close>

definition dns_works :: "('y, 'd) finder \<Rightarrow> string list \<Rightarrow> dnsEntryConfig \<Rightarrow> resolver \<Rightarrow> bool" where
  "dns_works F doms e r \<longleftrightarrow>
     (\<exists>i s. f_marshal F e = Inr i \<and> newDNSResolverFromEntry e = Inr (r, s)
        \<and> (\<forall>d \<in> set doms. \<not> isl (f_testDNS F \<lparr>sr_Resolver = r, sr_ID = i, sr_Secure = s, sr_Config = e\<rparr> d)))"

definition sr_for :: "('y, 'd) finder \<Rightarrow> dnsEntryConfig \<Rightarrow> smartResolver \<Rightarrow> bool" where
  "sr_for F e s \<longleftrightarrow> f_marshal F e = Inr (sr_ID s) \<and> newDNSResolverFromEntry e = Inr (sr_Resolver s, sr_Secure s)
     \<and> sr_Config s = e"

lemma resolvers_of_iff:
  "resolvers_of (f_marshal F) es = Inr rs \<longleftrightarrow> list_all2 (sr_for F) es rs"
proof (induction es arbitrary: rs)
  case (Cons e es)
  show ?case
  proof (cases rs)
    case Nil
    then show ?thesis by (auto split: sum.splits prod.splits simp: map_sum_def)
  next
    case (Cons r rs')
    then show ?thesis using Cons.IH [of rs']
      by (cases r) (auto simp: sr_for_def map_sum_def split: sum.splits prod.splits)
  qed
qed auto

lemma dns_entry_test_Inr:
  "dns_entry_test t ds r = Inr r' \<longleftrightarrow> r' = r \<and> (\<forall>d \<in> set ds. \<not> isl (t r d))"
  by (induction ds) (auto split: sum.splits)

lemma testDialer_None: "testDialer rs = None \<longleftrightarrow> set rs \<subseteq> {None}"
  by (induction rs) (auto split: option.splits)

lemma findDNS_Inr:
  assumes "race_choice pick" "findDNS F pick doms es = Inr (r, e)"
  shows "e \<in> set es" "dns_works F doms e r" "\<exists>rs. list_all2 (sr_for F) es rs"
proof -
  obtain rs s where rs: "list_all2 (sr_for F) es rs"
    "raceTests pick (\<lambda>_. dns_entry_test (f_testDNS F) doms) rs = Inr s" "r = sr_Resolver s" "e = sr_Config s"
    using assms(2) by (auto simp: findDNS_def dnsConfigToResolver_def resolvers_of_iff split: sum.splits if_splits)
  obtain i where i: "i < length rs" "dns_entry_test (f_testDNS F) doms (rs ! i) = Inr s"
    using race_choice.race_Inr [OF assms(1) rs(2)] by blast
  then have s: "rs ! i = s" "\<forall>d \<in> set doms. \<not> isl (f_testDNS F s d)" by (auto simp: dns_entry_test_Inr)
  have m: "sr_for F (es ! i) s" "i < length es" using list_all2_nthD2 [OF rs(1) i(1)] rs(1) i(1) s(1)
    by (auto dest: list_all2_lengthD)
  then show "e \<in> set es" using rs(4) by (auto simp: sr_for_def)
  show "dns_works F doms e r" using m(1) s(2) rs(3,4)
    by (cases s) (auto simp: sr_for_def dns_works_def)
  show "\<exists>rs. list_all2 (sr_for F) es rs" using rs(1) by blast
qed

definition dns_dialer :: "('y, 'd) finder \<Rightarrow> resolver \<Rightarrow> 'd" where
  "dns_dialer F r = (if r = SystemResolver then f_base F else f_dnsDialer F r)"

text \<open>The strategies that work: a fallback, or a DNS entry with, if there are any, a TLS entry.\<close>

definition fallback_works :: "('y, 'd) finder \<Rightarrow> string list \<Rightarrow> 'y fallbackEntryConfig \<Rightarrow> 'd \<Rightarrow> bool" where
  "fallback_works F doms f x \<longleftrightarrow> makeDialerFromConfig F f = Inr x \<and> works F doms x = None"

definition proxyless_works ::
  "('y, 'd) finder \<Rightarrow> string list \<Rightarrow> 'y configConfig \<Rightarrow> dnsEntryConfig \<Rightarrow> string \<Rightarrow> 'd found \<Rightarrow> bool" where
  "proxyless_works F doms c e t d \<longleftrightarrow>
     e \<in> set (cc_DNS c) \<and>
     (\<exists>r. dns_works F doms e r \<and> (r = SystemResolver \<longrightarrow> f_base_is_tcp F)
        \<and> (if cc_TLS c = [] then t = [] \<and> d = Direct (dns_dialer F r)
           else t \<in> set (cc_TLS c) \<and> (\<exists>x. f_newTLS F r (dns_dialer F r) t = Inr x \<and> works F doms x = None
                  \<and> d = ByPort (dns_dialer F r) x)))"

lemma findTLS_Inr:
  assumes "race_choice pick" "findTLS F pick doms b ts r = Inr (d, t)"
  shows "t \<in> set ts" "\<exists>x. f_newTLS F r b t = Inr x \<and> works F doms x = None \<and> d = ByPort b x"
proof -
  obtain x where x: "raceTests pick (\<lambda>_. tls_entry_test F doms b r) ts = Inr (x, t)" "d = ByPort b x"
    using assms(2) by (auto simp: findTLS_def split: if_splits sum.splits)
  obtain i where i: "i < length ts" "tls_entry_test F doms b r (ts ! i) = Inr (x, t)"
    using race_choice.race_Inr [OF assms(1) x(1)] by blast
  then have "ts ! i = t" "f_newTLS F r b t = Inr x" "works F doms x = None"
    by (auto simp: tls_entry_test_def split: sum.splits option.splits)
  then show "t \<in> set ts" "\<exists>x. f_newTLS F r b t = Inr x \<and> works F doms x = None \<and> d = ByPort b x"
    using i(1) x(2) by auto
qed

lemma newProxyless_Inr:
  assumes "race_choice (pick 1)" "race_choice (pick 2)" "newProxylessDialer F pick doms c = Inr (d, e, t)"
  shows "proxyless_works F doms c e t d"
proof -
  obtain r where r: "findDNS F (pick 1) doms (cc_DNS c) = Inr (r, e)" "r = SystemResolver \<longrightarrow> f_base_is_tcp F"
    "if cc_TLS c = [] then t = [] \<and> d = Direct (dns_dialer F r)
     else findTLS F (pick 2) doms (dns_dialer F r) (cc_TLS c) r = Inr (d, t)"
    using assms(3) by (auto simp: newProxylessDialer_def dns_dialer_def Let_def split: sum.splits if_splits)
  note dns = findDNS_Inr [OF assms(1) r(1)]
  show ?thesis
  proof (cases "cc_TLS c = []")
    case True
    then show ?thesis using dns(1,2) r(2,3) by (auto simp: proxyless_works_def)
  next
    case False
    then have "findTLS F (pick 2) doms (dns_dialer F r) (cc_TLS c) r = Inr (d, t)" using r(3) by simp
    from findTLS_Inr [OF assms(2) this] show ?thesis
      using False dns(1,2) r(2) unfolding proxyless_works_def by auto
  qed
qed

lemma findFallback_Inr:
  assumes "race_choice pick" "findFallback F pick doms fs = Inr (x, f)"
  shows "f \<in> set fs" "fallback_works F doms f x"
proof -
  have "raceTests pick (\<lambda>_. fallback_test F doms) fs = Inr (x, f)"
    using assms(2) by (auto simp: findFallback_def split: if_splits sum.splits)
  from race_choice.race_Inr [OF assms(1) this]
  obtain i where "i < length fs" "fallback_test F doms (fs ! i) = Inr (x, f)" by blast
  then show "f \<in> set fs" "fallback_works F doms f x"
    by (auto simp: fallback_test_def fallback_works_def split: sum.splits option.splits)
qed

lemma findFallback_Inl:
  assumes "race_choice pick" "findFallback F pick doms fs = Inl e" "f \<in> set fs"
  shows "\<not> fallback_works F doms f x"
proof -
  obtain i where i: "i < length fs" "f = fs ! i" using assms(3) by (metis in_set_conv_nth)
  obtain e' where "raceTests pick (\<lambda>_. fallback_test F doms) fs = Inl e'"
    using assms(2,3) by (auto simp: findFallback_def split: if_splits sum.splits)
  from race_choice.race_Inl [OF assms(1) this] have "isl (fallback_test F doms f)" using i by blast
  then show ?thesis by (auto simp: fallback_test_def fallback_works_def split: sum.splits option.splits)
qed

lemma search_fresh_Inr:
  assumes "\<And>i. race_choice (pick i)" "search_fresh F pick doms c = Inr (d, w)"
  obtains (proxyless) e t where "newProxylessDialer F pick doms c = Inr (d, e, t)" "proxyless_works F doms c e t d"
      "w = newProxylessWinningConfig e t"
  | (fallback) f x where "f \<in> set (cc_fallbacks c)" "fallback_works F doms f x" "d = Direct x" "w = newFallbackWinningConfig f"
proof (cases "newProxylessDialer F pick doms c")
  case (Inr p)
  obtain d' e t where p: "p = (d', e, t)" by (metis prod_cases3)
  then have "d' = d" "w = newProxylessWinningConfig e t" using assms(2) Inr by (simp_all add: search_fresh_def)
  then show thesis using newProxyless_Inr [of pick F doms c d' e t, OF assms(1) assms(1)] Inr p by (intro proxyless) auto
next
  case (Inl e)
  then obtain fs f x where f: "cc_Fallback c = Some fs" "findFallback F (pick 3) doms fs = Inr (x, f)"
    "d = Direct x" "w = newFallbackWinningConfig f"
    using assms(2) by (auto simp: search_fresh_def split: option.splits sum.splits)
  from findFallback_Inr [OF assms(1) f(2)] show thesis
    using f(1,3,4) by (intro fallback) (auto simp: cc_fallbacks_def)
qed

lemma search_fresh_Inl:
  assumes "\<And>i. race_choice (pick i)" "search_fresh F pick doms c = Inl e" "f \<in> set (cc_fallbacks c)"
  shows "\<not> fallback_works F doms f x"
proof -
  obtain fs where fs: "cc_Fallback c = Some fs" using assms(3) by (cases "cc_Fallback c") (auto simp: cc_fallbacks_def)
  then have "\<exists>e'. findFallback F (pick 3) doms fs = Inl e'"
    using assms(2) by (auto simp: search_fresh_def split: sum.splits)
  then show ?thesis using findFallback_Inl [OF assms(1)] assms(3) fs by (fastforce simp: cc_fallbacks_def)
qed

text \<open>The ranked configuration of a call, the fallback of the cache and what becomes of it.\<close>

definition ranked_of :: "('y, 'd) finder \<Rightarrow> bytes option option \<Rightarrow> 'y configConfig \<Rightarrow> 'y configConfig \<times> 'y fallbackEntryConfig option" where
  "ranked_of F cache c = (case cache of None \<Rightarrow> (c, None) | Some cached \<Rightarrow> rankStrategiesFromCache F cached c)"

definition resumed ::
  "('y, 'd) finder \<Rightarrow> (bool list \<Rightarrow> nat option) \<Rightarrow> string list \<Rightarrow> 'y fallbackEntryConfig option \<Rightarrow> 'd option" where
  "resumed F pick doms f =
     (case f of None \<Rightarrow> None
      | Some f \<Rightarrow> (case findFallback F pick doms [f] of Inl _ \<Rightarrow> None | Inr (d, _) \<Rightarrow> Some d))"

lemma NewDialer_parsed:
  assumes "parseConfig F cfg = Inr c" "ranked_of F cache c = (ranked, f)"
  shows "NewDialer F pick cache testDomains cfg =
    (let doms = map makeFullyQualified testDomains in
     case resumed F (pick 0) doms f of
       Some d \<Rightarrow> (Some (Direct d), None, cache)
     | None \<Rightarrow>
         (case search_fresh F pick doms ranked of
            Inl e \<Rightarrow> (None, Some e, map_option (\<lambda>_. None) cache)
          | Inr (d, winner) \<Rightarrow>
              (case cache of
                 None \<Rightarrow> (Some d, None, None)
               | Some _ \<Rightarrow> (case f_to_yaml F winner of
                              Inl e \<Rightarrow> (Some d, Some e, Some None)
                            | Inr data \<Rightarrow> (Some d, None, Some (Some data))))))"
  using assms by (simp add: NewDialer_def ranked_of_def resumed_def Let_def)

lemma ranked_of_facts:
  assumes "ranked_of F cache c = (ranked, f)"
  shows "set (cc_DNS ranked) = set (cc_DNS c)" "set (cc_TLS ranked) = set (cc_TLS c)"
    "cc_Fallback ranked = cc_Fallback c" "f = Some x \<Longrightarrow> x \<in> set (cc_fallbacks c)"
proof -
  have "mset (cc_DNS ranked) = mset (cc_DNS c)" "mset (cc_TLS ranked) = mset (cc_TLS c)"
    and r: "cc_Fallback ranked = cc_Fallback c" "f = Some x \<Longrightarrow> x \<in> set (cc_fallbacks c)"
    using assms rank_facts [of F _ c ranked f] by (auto simp: ranked_of_def split: option.splits)
  then show "set (cc_DNS ranked) = set (cc_DNS c)" "set (cc_TLS ranked) = set (cc_TLS c)"
    by (auto dest: mset_eq_setD)
  show "cc_Fallback ranked = cc_Fallback c" "f = Some x \<Longrightarrow> x \<in> set (cc_fallbacks c)" using r by auto
qed

lemma proxyless_works_ranked:
  assumes "ranked_of F cache c = (ranked, f)"
  shows "proxyless_works F doms ranked = proxyless_works F doms c"
proof -
  have "cc_TLS ranked = [] \<longleftrightarrow> cc_TLS c = []" using ranked_of_facts(2) [OF assms] by (metis set_empty)
  then show ?thesis using ranked_of_facts(1,2) [OF assms] by (intro ext) (simp add: proxyless_works_def)
qed

text \<open>
  C19: without a cancellation, whoever wins the races and whatever the cache holds, the dialer that
  \<^verbatim>\<open>NewDialer\<close> returns is that of a strategy of the configuration that passed the tests for all domains; when
  it returns none, no fallback passes them; and the cache ends up with the winner or is cleared.
\<close>

theorem smart_dialer_sound:
  assumes races: "\<And>i. race_choice (pick i)" and parse: "parseConfig F cfg = Inr c"
    and run: "NewDialer F pick cache testDomains cfg = (d, e, cache')"
  defines "doms \<equiv> map makeFullyQualified testDomains"
  shows "(\<forall>x. d = Some x \<longrightarrow>
            (\<exists>f \<in> set (cc_fallbacks c). \<exists>y. x = Direct y \<and> fallback_works F doms f y)
            \<or> (\<exists>dns tls. proxyless_works F doms c dns tls x))
     \<and> (d = None \<longrightarrow> e \<noteq> None \<and> cache' = map_option (\<lambda>_. None) cache
          \<and> (\<forall>f \<in> set (cc_fallbacks c). \<forall>y. \<not> fallback_works F doms f y))"
proof -
  obtain ranked f where r: "ranked_of F cache c = (ranked, f)" by fastforce
  note rf = ranked_of_facts [OF r]
  have fb: "cc_fallbacks ranked = cc_fallbacks c" using rf(3) by (simp add: cc_fallbacks_def)
  note run' = run [unfolded NewDialer_parsed [OF parse r] Let_def, folded doms_def]
  show ?thesis
  proof (cases "resumed F (pick 0) doms f")
    case (Some y)
    then obtain g h where g: "f = Some g" "findFallback F (pick 0) doms [g] = Inr (y, h)"
      by (auto simp: resumed_def split: option.splits sum.splits)
    then have "fallback_works F doms g y" using findFallback_Inr [OF races g(2)] by auto
    then show ?thesis using run' Some rf(4) g(1) by auto
  next
    case None
    show ?thesis
    proof (cases "search_fresh F pick doms ranked")
      case (Inl e')
      then have "\<forall>f \<in> set (cc_fallbacks c). \<forall>y. \<not> fallback_works F doms f y"
        using search_fresh_Inl [OF races Inl] fb by simp
      then show ?thesis using run' None Inl by auto
    next
      case (Inr p)
      obtain x w where p: "p = (x, w)" by fastforce
      have d: "d = Some x" using run' None Inr p by (auto split: option.splits sum.splits)
      from Inr p have "search_fresh F pick doms ranked = Inr (x, w)" by simp
      from races this show ?thesis
        by (cases rule: search_fresh_Inr) (use d fb proxyless_works_ranked [OF r] in auto)
    qed
  qed
qed

section \<open>Resuming\<close>

lemma list_all2_exists: "(\<exists>rs. list_all2 P es rs) \<longleftrightarrow> (\<forall>e \<in> set es. \<exists>r. P e r)"
  by (induction es) (auto simp: list_all2_Cons1)

lemma prompt_race_choice: "prompt_race pick \<Longrightarrow> race_choice pick"
  by (simp add: prompt_race_def)

lemma findDNS_first:
  assumes "prompt_race pick" "\<forall>e \<in> set (e # es). \<exists>s. sr_for F e s" "dns_works F doms e r"
  shows "findDNS F pick doms (e # es) = Inr (r, e)"
proof -
  obtain rs where "list_all2 (sr_for F) (e # es) rs" using assms(2) list_all2_exists by blast
  then obtain s ss where rs: "resolvers_of (f_marshal F) (e # es) = Inr (s # ss)" "sr_for F e s"
    unfolding list_all2_Cons1 by (metis list_all2_Cons resolvers_of_iff)
  obtain i b where d: "f_marshal F e = Inr i" "newDNSResolverFromEntry e = Inr (r, b)"
    "\<forall>d \<in> set doms. \<not> isl (f_testDNS F \<lparr>sr_Resolver = r, sr_ID = i, sr_Secure = b, sr_Config = e\<rparr> d)"
    using assms(3) by (auto simp: dns_works_def)
  have s: "s = \<lparr>sr_Resolver = r, sr_ID = i, sr_Secure = b, sr_Config = e\<rparr>"
    using rs(2) d(1,2) by (cases s) (auto simp: sr_for_def)
  then have "dns_entry_test (f_testDNS F) doms s = Inr s" using d(3) by (simp add: dns_entry_test_Inr)
  from prompt_race.race_first [OF assms(1), of "\<lambda>_. dns_entry_test (f_testDNS F) doms", OF this]
  have "raceTests pick (\<lambda>_. dns_entry_test (f_testDNS F) doms) (s # ss) = Inr s" .
  then show ?thesis using rs(1) s by (simp add: findDNS_def dnsConfigToResolver_def del: resolvers_of.simps)
qed

lemma findTLS_first:
  assumes "prompt_race pick" "f_newTLS F r b t = Inr x" "works F doms x = None"
  shows "findTLS F pick doms b (t # ts) r = Inr (ByPort b x, t)"
proof -
  have "tls_entry_test F doms b r t = Inr (x, t)" using assms(2,3) by (simp add: tls_entry_test_def)
  from prompt_race.race_first [OF assms(1), of "\<lambda>_. tls_entry_test F doms b r", OF this] show ?thesis
    by (simp add: findTLS_def)
qed

lemma findFallback_first:
  assumes "prompt_race pick" "fallback_works F doms f x"
  shows "findFallback F pick doms (f # fs) = Inr (x, f)"
proof -
  have "fallback_test F doms f = Inr (x, f)" using assms(2) by (simp add: fallback_test_def fallback_works_def)
  from prompt_race.race_first [OF assms(1), of "\<lambda>_. fallback_test F doms", OF this] show ?thesis
    by (simp add: findFallback_def)
qed

lemma proxyless_first:
  assumes picks: "\<And>i. prompt_race (pick i)" and works: "proxyless_works F doms c e t d"
    and all: "\<forall>e \<in> set (cc_DNS c). \<exists>s. sr_for F e s"
    and first: "cc_DNS c = e # es" "cc_TLS c = [] \<or> cc_TLS c = t # ts"
  shows "newProxylessDialer F pick doms c = Inr (d, e, t)"
proof -
  obtain r where r: "dns_works F doms e r" "r = SystemResolver \<longrightarrow> f_base_is_tcp F"
    "if cc_TLS c = [] then t = [] \<and> d = Direct (dns_dialer F r)
     else \<exists>x. f_newTLS F r (dns_dialer F r) t = Inr x \<and> works F doms x = None \<and> d = ByPort (dns_dialer F r) x"
    using works by (auto simp: proxyless_works_def split: if_splits)
  have dns: "findDNS F (pick 1) doms (cc_DNS c) = Inr (r, e)"
    using findDNS_first [OF picks _ r(1), of es] all first(1) by simp
  have r': "\<not> (r = SystemResolver \<and> \<not> f_base_is_tcp F)" using r(2) by blast
  show ?thesis
  proof (cases "cc_TLS c = []")
    case True
    then show ?thesis using r(3) r' dns by (simp add: newProxylessDialer_def dns_dialer_def Let_def)
  next
    case False
    then obtain x where x: "f_newTLS F r (dns_dialer F r) t = Inr x" "works F doms x = None" "d = ByPort (dns_dialer F r) x"
      using r(3) by auto
    have "findTLS F (pick 2) doms (dns_dialer F r) (cc_TLS c) r = Inr (d, t)"
      using findTLS_first [OF picks x(1,2), where ts = ts] first(2) False x(3) by simp
    then show ?thesis using False r' dns by (simp add: newProxylessDialer_def dns_dialer_def Let_def)
  qed
qed

lemma promote_first:
  assumes "e \<in> set (cc_DNS c)" "t \<in> set (cc_TLS c)" "t \<noteq> []"
  shows "\<exists>es ts. cc_DNS (promoteProxylessToFront (newProxylessWinningConfig e t) c) = e # es
     \<and> cc_TLS (promoteProxylessToFront (newProxylessWinningConfig e t) c) = t # ts"
proof -
  obtain es where "moveToFront (cc_DNS c) (index_of e (cc_DNS c)) = e # es" using move_found [OF assms(1)] by metis
  moreover obtain ts where "moveToFront (cc_TLS c) (index_of t (cc_TLS c)) = t # ts" using move_found [OF assms(2)] by metis
  ultimately show ?thesis using assms(3)
    by (simp add: promoteProxylessToFront_def newProxylessWinningConfig_def Let_def)
qed

lemma promote_first_dns:
  assumes "e \<in> set (cc_DNS c)"
  shows "\<exists>es. cc_DNS (promoteProxylessToFront (newProxylessWinningConfig e []) c) = e # es"
proof -
  obtain es where "moveToFront (cc_DNS c) (index_of e (cc_DNS c)) = e # es" using move_found [OF assms] by metis
  then show ?thesis by (simp add: promoteProxylessToFront_def newProxylessWinningConfig_def Let_def)
qed

lemma promoted_ranked:
  assumes "parseConfig F data = Inr (newProxylessWinningConfig e t)"
  shows "ranked_of F (Some (Some data)) c = (promoteProxylessToFront (newProxylessWinningConfig e t) c, None)"
  using assms by (simp add: ranked_of_def rankStrategiesFromCache_def getFallbackIfExclusive_def
      newProxylessWinningConfig_def)

text \<open>
  The laws of the YAML library. A configuration whose fallbacks are texts or were decoded from YAML can be read back from
  its encoding, which has the keys of the struct; decoding the encoding of a map gives a map with the same keys, and
  decoding the encoding of that gives it again.
\<close>

definition yaml_fallback :: "('y, 'd) finder \<Rightarrow> 'y fallbackEntryConfig \<Rightarrow> bool" where
  "yaml_fallback F f \<longleftrightarrow> (case f of FbString _ \<Rightarrow> True | FbMap m \<Rightarrow> (\<exists>v. f_decode_any F v = Inr (FbMap m)) | FbOther _ \<Rightarrow> False)"

definition yaml_laws :: "('y, 'd) finder \<Rightarrow> bool" where
  "yaml_laws F \<longleftrightarrow>
     (\<forall>w data. f_to_yaml F w = Inr data \<and> (\<forall>f \<in> set (cc_fallbacks w). yaml_fallback F f) \<longrightarrow>
        (\<exists>m. f_yaml_map F data = Inr m \<and> fst ` set m \<subseteq> {''dns'', ''tls'', ''fallback''} \<and> f_decode F m = Inr w))
     \<and> (\<forall>v x. f_decode_any F v = Inr x \<longrightarrow> (\<exists>m. x = FbMap m \<and> map fst m = map fst v \<and> f_decode_any F m = Inr x))"

lemma drop_dollar_id: "(\<And>k. k \<in> fst ` set m \<Longrightarrow> \<not> (0 < length k \<and> k ! 0 = CHR ''$'')) \<Longrightarrow> drop_dollar m = m"
  unfolding drop_dollar_def by (rule filter_True) (force simp: split_def)

text \<open>A fallback of a configuration that was parsed.\<close>

definition parsed_fallback :: "('y, 'd) finder \<Rightarrow> 'y fallbackEntryConfig \<Rightarrow> bool" where
  "parsed_fallback F f \<longleftrightarrow>
     (case f of FbString _ \<Rightarrow> True | FbMap m \<Rightarrow> (\<exists>v. f_decode_any F (drop_dollar v) = Inr (FbMap m)) | FbOther _ \<Rightarrow> False)"

lemma parse_fallbacks_parsed:
  assumes "yaml_laws F" "parse_fallbacks (f_decode_any F) fs = Inr fs'" "f \<in> set fs'"
  shows "parsed_fallback F f"
  using assms(2,3)
proof (induction fs arbitrary: fs')
  case (Cons g gs)
  obtain g' gs' where g: "fs' = g' # gs'" "parse_fallbacks (f_decode_any F) gs = Inr gs'"
    "(case g of FbString s \<Rightarrow> Inr (FbString s)
      | FbMap v \<Rightarrow> (case f_decode_any F (drop_dollar v) of Inl e \<Rightarrow> Inl (ErrWrap ''failed to parse fallback config'' e) | Inr x \<Rightarrow> Inr x)
      | FbOther v \<Rightarrow> Inl (ErrNew ''unknown fallback type'')) = Inr g'"
    using Cons.prems(1) by (auto simp: map_sum_def split: sum.splits)
  have "parsed_fallback F g'"
  proof (cases g)
    case (FbMap v)
    then have "f_decode_any F (drop_dollar v) = Inr g'" using g(3) by (simp split: sum.splits)
    moreover from this obtain m where "g' = FbMap m" using assms(1) unfolding yaml_laws_def by blast
    ultimately show ?thesis by (auto simp: parsed_fallback_def)
  qed (use g(3) in \<open>auto simp: parsed_fallback_def\<close>)
  then show ?case using Cons.IH [OF g(2)] Cons.prems(2) g(1) by auto
qed simp

lemma parseConfig_fallbacks:
  assumes "yaml_laws F" "parseConfig F cfg = Inr c" "f \<in> set (cc_fallbacks c)"
  shows "parsed_fallback F f"
  using assms parse_fallbacks_parsed [OF assms(1)]
  by (auto simp: parseConfig_def cc_fallbacks_def split: sum.splits option.splits)

lemma parse_fallbacks_again:
  assumes laws: "yaml_laws F"
  shows "\<forall>f \<in> set fs. parsed_fallback F f \<Longrightarrow> parse_fallbacks (f_decode_any F) fs = Inr fs"
proof (induction fs)
  case (Cons f fs)
  show ?case
  proof (cases f)
    case (FbMap m)
    then obtain v where v: "f_decode_any F (drop_dollar v) = Inr (FbMap m)" using Cons.prems by (auto simp: parsed_fallback_def)
    then have m: "map fst m = map fst (drop_dollar v)" "f_decode_any F m = Inr (FbMap m)"
      using laws unfolding yaml_laws_def by blast+
    have "\<not> (0 < length k \<and> k ! 0 = CHR ''$'')" if "k \<in> fst ` set m" for k
    proof -
      have "k \<in> fst ` set (drop_dollar v)" using that m(1) by (metis set_map)
      then show ?thesis by (auto simp: drop_dollar_def)
    qed
    then have "drop_dollar m = m" by (rule drop_dollar_id)
    then show ?thesis using Cons FbMap m(2) by simp
  qed (use Cons in \<open>auto simp: parsed_fallback_def\<close>)
qed simp

text \<open>What was stored is read back.\<close>

lemma parseConfig_stored:
  assumes laws: "yaml_laws F" and "f_to_yaml F w = Inr data" "\<forall>f \<in> set (cc_fallbacks w). parsed_fallback F f"
  shows "parseConfig F data = Inr w"
proof -
  have "\<forall>f \<in> set (cc_fallbacks w). yaml_fallback F f"
    using assms(3) by (fastforce simp: parsed_fallback_def yaml_fallback_def split: fallbackEntryConfig.splits)
  then obtain m where m: "f_yaml_map F data = Inr m" "fst ` set m \<subseteq> {''dns'', ''tls'', ''fallback''}" "f_decode F m = Inr w"
    using laws assms(2) unfolding yaml_laws_def by blast
  have "drop_dollar m = m" by (rule drop_dollar_id) (use m(2) in auto)
  then show ?thesis using m(1,3) parse_fallbacks_again [OF laws assms(3)]
    by (simp add: parseConfig_def cc_fallbacks_def split: option.splits)
qed

text \<open>A winner with a DNS entry that is stored with its TLS entry, if the configuration has any, is tried first and found again.\<close>

lemma resume_proxyless:
  assumes picks: "\<And>i. prompt_race (pick i)"
    and works: "proxyless_works F doms c e t d" and all: "\<forall>e \<in> set (cc_DNS c). \<exists>s. sr_for F e s"
    and t: "cc_TLS c = [] \<or> t \<noteq> []" and data: "parseConfig F data = Inr (newProxylessWinningConfig e t)"
  shows "search_fresh F pick doms (promoteProxylessToFront (newProxylessWinningConfig e t) c)
    = Inr (d, newProxylessWinningConfig e t)"
proof -
  let ?c = "promoteProxylessToFront (newProxylessWinningConfig e t) c"
  have e: "e \<in> set (cc_DNS c)" using works by (simp add: proxyless_works_def)
  have w: "proxyless_works F doms ?c e t d"
    using works proxyless_works_ranked [OF promoted_ranked [OF data]] by simp
  have a: "\<forall>e \<in> set (cc_DNS ?c). \<exists>s. sr_for F e s"
    using all ranked_of_facts(1) [OF promoted_ranked [OF data], of c] by simp
  have "\<exists>es ts. cc_DNS ?c = e # es \<and> (cc_TLS ?c = [] \<or> cc_TLS ?c = t # ts)"
  proof (cases "cc_TLS c = []")
    case True
    then have "t = []" "cc_TLS ?c = []" using works ranked_of_facts(2) [OF promoted_ranked [OF data], of c]
      by (auto simp: proxyless_works_def)
    then show ?thesis using promote_first_dns [OF e] by auto
  next
    case False
    then have "t \<in> set (cc_TLS c)" "t \<noteq> []" using works t by (auto simp: proxyless_works_def)
    then show ?thesis using promote_first [OF e] by blast
  qed
  then obtain es ts where "cc_DNS ?c = e # es" "cc_TLS ?c = [] \<or> cc_TLS ?c = t # ts" by blast
  from proxyless_first [of pick, OF picks w a this] show ?thesis by (simp add: search_fresh_def)
qed

text \<open>
  The empty TLS entry, which is the base dialer itself, is stored like no TLS entry: the search starts with the same DNS
  entry, and whichever TLS entry wins, there is a dialer.
\<close>

lemma resume_empty_tls:
  assumes picks: "\<And>i. prompt_race (pick i)"
    and works: "proxyless_works F doms c e [] d" and all: "\<forall>e \<in> set (cc_DNS c). \<exists>s. sr_for F e s"
    and data: "parseConfig F data = Inr (newProxylessWinningConfig e [])"
  shows "\<exists>t' d'. search_fresh F pick doms (promoteProxylessToFront (newProxylessWinningConfig e []) c)
    = Inr (d', newProxylessWinningConfig e t') \<and> proxyless_works F doms c e t' d'"
proof -
  let ?c = "promoteProxylessToFront (newProxylessWinningConfig e []) c"
  note ranked = promoted_ranked [OF data, of c]
  have races: "\<And>i. race_choice (pick i)" using picks prompt_race_choice by blast
  have e: "e \<in> set (cc_DNS c)" using works by (simp add: proxyless_works_def)
  have a: "\<forall>e \<in> set (cc_DNS ?c). \<exists>s. sr_for F e s" using all ranked_of_facts(1) [OF ranked] by simp
  obtain es where es: "cc_DNS ?c = e # es" using promote_first_dns [OF e] by blast
  obtain r where r: "dns_works F doms e r" "r = SystemResolver \<longrightarrow> f_base_is_tcp F"
    "cc_TLS c \<noteq> [] \<longrightarrow> [] \<in> set (cc_TLS c) \<and> (\<exists>x. f_newTLS F r (dns_dialer F r) [] = Inr x \<and> works F doms x = None)"
    using works by (auto simp: proxyless_works_def split: if_splits)
  have dns: "findDNS F (pick 1) doms (cc_DNS ?c) = Inr (r, e)"
    using findDNS_first [OF picks _ r(1), of es] a es by simp
  have r': "\<not> (r = SystemResolver \<and> \<not> f_base_is_tcp F)" using r(2) by blast
  have "\<exists>t' d'. newProxylessDialer F pick doms ?c = Inr (d', e, t')"
  proof (cases "cc_TLS ?c = []")
    case True
    then show ?thesis using dns r' by (simp add: newProxylessDialer_def Let_def)
  next
    case False
    then have "cc_TLS c \<noteq> []" using ranked_of_facts(2) [OF ranked] by (metis set_empty)
    then obtain x where x: "[] \<in> set (cc_TLS ?c)" "f_newTLS F r (dns_dialer F r) [] = Inr x" "works F doms x = None"
      using r(3) ranked_of_facts(2) [OF ranked] by auto
    then have t: "tls_entry_test F doms (dns_dialer F r) r [] = Inr (x, [])" by (simp add: tls_entry_test_def)
    obtain i where i: "i < length (cc_TLS ?c)" "cc_TLS ?c ! i = []" using x(1) by (metis in_set_conv_nth)
    obtain y where "raceTests (pick 2) (\<lambda>_. tls_entry_test F doms (dns_dialer F r) r) (cc_TLS ?c) = Inr y"
    proof (cases "raceTests (pick 2) (\<lambda>_. tls_entry_test F doms (dns_dialer F r) r) (cc_TLS ?c)")
      case (Inl e')
      from race_choice.race_Inl [OF races this] show ?thesis using i t by fastforce
    qed
    then have "\<exists>d' t'. findTLS F (pick 2) doms (dns_dialer F r) (cc_TLS ?c) r = Inr (d', t')"
      using False by (cases y) (simp add: findTLS_def)
    then show ?thesis using False dns r' by (auto simp: newProxylessDialer_def dns_dialer_def Let_def)
  qed
  then obtain t' d' where n: "newProxylessDialer F pick doms ?c = Inr (d', e, t')" by blast
  have "proxyless_works F doms c e t' d'"
    using newProxyless_Inr [OF races races n] proxyless_works_ranked [OF ranked] by simp
  then show ?thesis using n by (auto simp: search_fresh_def)
qed

text \<open>
  What the next \<^verbatim>\<open>NewDialer\<close> may do when the winner was the DNS entry \<open>e\<close> with the empty TLS entry: it returns a dialer with the
  same DNS entry and a TLS entry that works.
\<close>

definition resumes_dns ::
  "('y, 'd) finder \<Rightarrow> (nat \<Rightarrow> bool list \<Rightarrow> nat option) \<Rightarrow> bytes \<Rightarrow> string list \<Rightarrow> bytes \<Rightarrow> 'y configConfig \<Rightarrow> 'd found \<Rightarrow> bool" where
  "resumes_dns F pick data testDomains cfg c d \<longleftrightarrow>
     (\<exists>e t' d'. f_to_yaml F (newProxylessWinningConfig e []) = Inr data
        \<and> proxyless_works F (map makeFullyQualified testDomains) c e [] d
        \<and> proxyless_works F (map makeFullyQualified testDomains) c e t' d'
        \<and> fst (NewDialer F pick (Some (Some data)) testDomains cfg) = Some d')"

lemma NewDialer_resumes:
  assumes races: "\<And>i. race_choice (pick i)" and prompt: "\<And>i. prompt_race (pick' i)" and laws: "yaml_laws F"
    and parse: "parseConfig F cfg = Inr c"
    and run: "NewDialer F pick (Some cached) testDomains cfg = (Some d, None, Some (Some data))"
  shows "NewDialer F pick' (Some (Some data)) testDomains cfg = (Some d, None, Some (Some data))
     \<or> [] \<in> set (cc_TLS c) \<and> resumes_dns F pick' data testDomains cfg c d"
proof -
  let ?doms = "map makeFullyQualified testDomains"
  obtain ranked f where r: "ranked_of F (Some cached) c = (ranked, f)" by fastforce
  have fb: "cc_fallbacks ranked = cc_fallbacks c" using ranked_of_facts(3) [OF r] by (simp add: cc_fallbacks_def)
  note run' = run [unfolded NewDialer_parsed [OF parse r] Let_def]
  have again: "resumed F (pick' 0) ?doms (Some g) = Some y"
    if "fallback_works F ?doms g y" for g y
    using findFallback_first [OF prompt that, of 0 "[]"] by (simp add: resumed_def)
  show ?thesis
  proof (cases "resumed F (pick 0) ?doms f")
    case (Some y)
    then obtain g h where g: "f = Some g" "findFallback F (pick 0) ?doms [g] = Inr (y, h)"
      by (auto simp: resumed_def split: option.splits sum.splits)
    then have w: "fallback_works F ?doms g y" using findFallback_Inr [OF races g(2)] by auto
    have "d = Direct y" "cached = Some data" using run' Some by auto
    then show ?thesis using NewDialer_parsed [OF parse r] again [OF w] g(1) by (simp add: Let_def)
  next
    case None
    then obtain w where w: "search_fresh F pick ?doms ranked = Inr (d, w)" "f_to_yaml F w = Inr data"
      using run' by (auto split: sum.splits prod.splits)
    from races w(1) show ?thesis
    proof (cases rule: search_fresh_Inr)
      case (proxyless e t)
      have pw: "proxyless_works F ?doms c e t d" using proxyless(2) proxyless_works_ranked [OF r] by simp
      have y: "f_to_yaml F (newProxylessWinningConfig e t) = Inr data" using w(2) proxyless(3) by simp
      have data: "parseConfig F data = Inr (newProxylessWinningConfig e t)"
        by (rule parseConfig_stored [OF laws y]) (simp add: newProxylessWinningConfig_def cc_fallbacks_def)
      obtain r0 e0 where "findDNS F (pick 1) ?doms (cc_DNS ranked) = Inr (r0, e0)"
        using proxyless(1) by (auto simp: newProxylessDialer_def split: sum.splits)
      from findDNS_Inr(3) [OF races this] have all: "\<forall>e \<in> set (cc_DNS c). \<exists>s. sr_for F e s"
        unfolding list_all2_exists using ranked_of_facts(1) [OF r] by simp
      note next_run = NewDialer_parsed [OF parse promoted_ranked [OF data], of pick' testDomains]
      show ?thesis
      proof (cases "cc_TLS c = [] \<or> t \<noteq> []")
        case True
        from resume_proxyless [of pick', OF prompt pw all True data] show ?thesis
          using next_run y by (simp add: resumed_def Let_def)
      next
        case False
        then have t: "t = []" "[] \<in> set (cc_TLS c)" using pw by (auto simp: proxyless_works_def)
        from resume_empty_tls [of pick', OF prompt pw [unfolded t(1)] all data [unfolded t(1)]]
        obtain t' d' where n: "search_fresh F pick' ?doms (promoteProxylessToFront (newProxylessWinningConfig e []) c)
            = Inr (d', newProxylessWinningConfig e t')" "proxyless_works F ?doms c e t' d'" by blast
        have "fst (NewDialer F pick' (Some (Some data)) testDomains cfg) = Some d'"
          using next_run n(1) t(1) by (simp add: resumed_def Let_def split: sum.splits)
        then show ?thesis using t pw y n(2) unfolding resumes_dns_def by blast
      qed
    next
      case (fallback g y)
      have g: "cc_DNS w = []" "cc_TLS w = []" "cc_fallbacks w = [g]"
        using fallback(4) by (simp_all add: newFallbackWinningConfig_def cc_fallbacks_def)
      have "parsed_fallback F g" using parseConfig_fallbacks [OF laws parse] fallback(1) fb by simp
      then have data: "parseConfig F data = Inr w" using parseConfig_stored [OF laws w(2)] g(3) by simp
      have "getFallbackIfExclusive w c = Some g"
        using fb fallback(1) g by (simp add: getFallbackIfExclusive_def)
      then have "ranked_of F (Some (Some data)) c = (c, Some g)"
        using data by (simp add: ranked_of_def rankStrategiesFromCache_def)
      from NewDialer_parsed [OF parse this] again [OF fallback(2)] show ?thesis
        using fallback(3) by (simp add: Let_def)
    qed
  qed
qed


section \<open>A finder\<close>

text \<open>
  Configurations are encoded as the names of their entries; the network blocks DNS over UDP and the
  connections without a TLS strategy.
\<close>

definition demo_entry :: dnsEntryConfig where
  "demo_entry = \<lparr>ec_System = False, ec_HTTPS = Some (''doh.sb'', []), ec_TLS = None, ec_UDP = None, ec_TCP = None\<rparr>"

definition demo_config :: "unit configConfig" where
  "demo_config =
     \<lparr>cc_DNS = [demo_entry\<lparr>ec_HTTPS := None, ec_UDP := Some ''8.8.8.8''\<rparr>, demo_entry], cc_TLS = [''split:1'', ''tlsfrag:1''],
      cc_Fallback = Some [FbString ''ss://server'']\<rparr>"

definition demo_yaml :: "bytes \<Rightarrow> (string \<times> unit) list" where
  "demo_yaml b = (''dns'', ()) # (''tls'', ()) # (if b = [0] then [(''fallback'', ())] else [])"

definition demo_finder :: "(unit, string) finder" where
  "demo_finder =
     \<lparr>f_marshal = (\<lambda>_. Inr ''entry''), f_testDNS = (\<lambda>s _. if sr_Secure s then Inr [] else Inl EOF),
      f_probe = (\<lambda>d _. \<lparr>pr_dial = None, pr_handshake = (if d = ''tlsfrag:1'' then None else Some EOF), pr_request = None,
                         pr_write = None, pr_response = None\<rparr>),
      f_base = ''tcp'', f_base_is_tcp = True, f_dnsDialer = (\<lambda>_. ''dns''), f_newTLS = (\<lambda>_ _. Inr), f_newSD = Inr,
      f_parsers = (\<lambda>_. None), f_yaml_map = (\<lambda>b. Inr (demo_yaml b)),
      f_decode = (\<lambda>m. Inr (if m = demo_yaml [0] then demo_config else newProxylessWinningConfig demo_entry ''tlsfrag:1'')),
      f_decode_any = (\<lambda>m. Inr (FbMap m)),
      f_to_yaml = (\<lambda>w. if w = newProxylessWinningConfig demo_entry ''tlsfrag:1'' then Inr [1] else Inl EOF)\<rparr>"

lemma demo_parse: "parseConfig demo_finder [0] = Inr demo_config"
  "parseConfig demo_finder [1] = Inr (newProxylessWinningConfig demo_entry ''tlsfrag:1'')"
  by code_simp+

lemma demo_first: "NewDialer demo_finder (\<lambda>_. seq_pick) (Some None) [''a.org''] [0]
    = (Some (ByPort ''dns'' ''tlsfrag:1''), None, Some (Some [1]))"
  by code_simp

lemma smart_cache_reorders_only_witness:
  "\<exists>ranked. rankStrategiesFromCache demo_finder (Some [1]) demo_config = (ranked, None)
     \<and> cc_DNS ranked \<noteq> cc_DNS demo_config \<and> mset (cc_DNS ranked) = mset (cc_DNS demo_config)"
proof -
  let ?r = "promoteProxylessToFront (newProxylessWinningConfig demo_entry ''tlsfrag:1'') demo_config"
  have r: "rankStrategiesFromCache demo_finder (Some [1]) demo_config = (?r, None)"
    using demo_parse(2) by (simp add: rankStrategiesFromCache_def getFallbackIfExclusive_def newProxylessWinningConfig_def)
  moreover have "cc_DNS ?r \<noteq> cc_DNS demo_config" by code_simp
  ultimately show ?thesis using smart_cache_reorders_only [OF r] by blast
qed

lemma smart_dialer_sound_witness:
  "\<exists>e t. proxyless_works demo_finder [''a.org.''] demo_config e t (ByPort ''dns'' ''tlsfrag:1'')"
proof -
  have m: "map makeFullyQualified [''a.org''] = [''a.org.'']" by (simp add: makeFullyQualified_def)
  show ?thesis
    using smart_dialer_sound [OF seq.race_choice_axioms demo_parse(1) demo_first, unfolded m] by auto
qed

lemma demo_yaml_laws: "yaml_laws demo_finder"
proof -
  have "f_yaml_map demo_finder data = Inr (demo_yaml [1]) \<and> f_decode demo_finder (demo_yaml [1]) = Inr w"
    if "f_to_yaml demo_finder w = Inr data" for w data
    using that by (auto simp: demo_finder_def demo_yaml_def split: if_splits)
  moreover have "fst ` set (demo_yaml [1]) \<subseteq> {''dns'', ''tls'', ''fallback''}" by (simp add: demo_yaml_def)
  moreover have "f_decode_any demo_finder v = Inr (FbMap v)" for v by (simp add: demo_finder_def)
  ultimately show ?thesis unfolding yaml_laws_def by auto
qed


text \<open>
  The exception: of two TLS entries that both work, the empty one wins the first search, in which the test of the other is slow.
  It is stored like no TLS entry, so that the next search uses the other one.
\<close>

definition late_pick :: "bool list \<Rightarrow> nat option" where
  "late_pick bs = (case filter (\<lambda>i. bs ! i) (rev [0..<length bs]) of [] \<Rightarrow> None | i # _ \<Rightarrow> Some i)"

definition plain_finder :: "(unit, string) finder" where
  "plain_finder = demo_finder
     \<lparr>f_probe := (\<lambda>_ _. \<lparr>pr_dial = None, pr_handshake = None, pr_request = None, pr_write = None, pr_response = None\<rparr>),
      f_decode := (\<lambda>m. Inr (if m = demo_yaml [0] then demo_config\<lparr>cc_TLS := [''split:1'', []]\<rparr>
                             else newProxylessWinningConfig demo_entry [])),
      f_to_yaml := (\<lambda>w. Inr (if w = newProxylessWinningConfig demo_entry [] then [1] else [2]))\<rparr>"

theorem smart_empty_tls_not_resumed:
  "NewDialer plain_finder (\<lambda>_. late_pick) (Some None) [''a.org''] [0] = (Some (ByPort ''dns'' []), None, Some (Some [1]))
   \<and> NewDialer plain_finder (\<lambda>_. seq_pick) (Some (Some [1])) [''a.org''] [0]
      = (Some (ByPort ''dns'' ''split:1''), None, Some (Some [2]))"
  by code_simp

end
