(* ===== verification/GoStrings.thy ===== *)
theory GoStrings
  imports GoNet
begin

text \<open>
  \<^verbatim>\<open>strings.Split\<close>, \<^verbatim>\<open>strings.TrimSpace\<close> (of ASCII white space), \<^verbatim>\<open>strings.Cut\<close> and \<^verbatim>\<open>strconv.ParseInt\<close>, as
  the parsing of configurations uses them, with their round trips.
\<close>

section \<open>Splitting and trimming\<close>

fun split_on :: "char \<Rightarrow> string \<Rightarrow> string list" where
  "split_on c [] = [[]]"
| "split_on c (x # xs) =
     (if x = c then [] # split_on c xs
      else case split_on c xs of [] \<Rightarrow> [[x]] | p # ps \<Rightarrow> (x # p) # ps)"

fun join_with :: "string \<Rightarrow> string list \<Rightarrow> string" where
  "join_with sep [] = []"
| "join_with sep [p] = p"
| "join_with sep (p # q # ps) = p @ sep @ join_with sep (q # ps)"

lemma split_on_ne [simp]: "split_on c s \<noteq> []"
  by (induction s) (auto split: list.splits)

lemma split_on_plain: "c \<notin> set p \<Longrightarrow> split_on c p = [p]"
  by (induction p) auto

lemma split_on_append: "c \<notin> set p \<Longrightarrow> split_on c (p @ c # s) = p # split_on c s"
  by (induction p) auto

lemma split_join: "ps \<noteq> [] \<Longrightarrow> \<forall>p \<in> set ps. c \<notin> set p \<Longrightarrow> split_on c (join_with [c] ps) = ps"
  by (induction "[c]" ps rule: join_with.induct) (auto simp: split_on_plain split_on_append)

definition is_space :: "char \<Rightarrow> bool" where
  "is_space c \<longleftrightarrow> (of_char c :: nat) \<in> {9, 10, 11, 12, 13, 32}"

definition trim_space :: "string \<Rightarrow> string" where
  "trim_space s = rev (dropWhile is_space (rev (dropWhile is_space s)))"

lemma trim_space_plain:
  assumes "s = [] \<or> (\<not> is_space (hd s) \<and> \<not> is_space (last s))"
  shows "trim_space s = s"
proof (cases s rule: rev_cases)
  case (snoc xs x)
  then have "dropWhile is_space s = s" using assms by (cases xs) auto
  then show ?thesis using assms snoc by (simp add: trim_space_def)
qed (simp add: trim_space_def)

text \<open>\<^verbatim>\<open>strings.HasPrefix\<close>.\<close>

definition has_prefix :: "string \<Rightarrow> string \<Rightarrow> bool" where
  "has_prefix s p \<longleftrightarrow> take (length p) s = p"

lemma has_prefix_append [simp]: "has_prefix (p @ s) p"
  by (simp add: has_prefix_def)

definition cut_on :: "char \<Rightarrow> string \<Rightarrow> (string \<times> string) option" where
  "cut_on c s = (case index_byte c s of None \<Rightarrow> None | Some i \<Rightarrow> Some (take i s, drop (Suc i) s))"

lemma cut_on_append: "c \<notin> set p \<Longrightarrow> cut_on c (p @ c # s) = Some (p, s)"
  by (simp add: cut_on_def index_byte_append)

section \<open>Integers\<close>

text \<open>\<^verbatim>\<open>strconv.ParseInt\<close> with base 10 and 64 bits, and \<^verbatim>\<open>strconv.Atoi\<close>.\<close>

definition parse_int :: "string \<Rightarrow> err + int" where
  "parse_int s =
     (let neg = (s \<noteq> [] \<and> hd s = CHR ''-'');
          rest = (if s \<noteq> [] \<and> (hd s = CHR ''-'' \<or> hd s = CHR ''+'') then tl s else s) in
      if s = [] then Inl (ErrNew ''invalid syntax'')
      else case parse_uint 64 rest of
             Inl e \<Rightarrow> Inl e
           | Inr un \<Rightarrow>
               if \<not> neg \<and> un \<ge> 2 ^ 63 then Inl (ErrNew ''value out of range'')
               else if neg \<and> un > 2 ^ 63 then Inl (ErrNew ''value out of range'')
               else Inr (if neg then - int un else int un))"

definition int_text :: "int \<Rightarrow> string" where
  "int_text n = (if n < 0 then ''-'' @ itoa (nat (- n)) else itoa (nat n))"

lemma digit_sign: "d < 10 \<Longrightarrow> digit d \<noteq> CHR ''-'' \<and> digit d \<noteq> CHR ''+'' \<and> digit d \<noteq> CHR '','' \<and> digit d \<noteq> CHR ''*''
    \<and> \<not> is_space (digit d)"
proof -
  assume "d < 10"
  then have "of_char (digit d) = (48 + d :: nat)" by (simp add: digit_def of_char_of)
  moreover have "of_char CHR ''-'' = (45 :: nat)" "of_char CHR ''+'' = (43 :: nat)" "of_char CHR '','' = (44 :: nat)"
    "of_char CHR ''*'' = (42 :: nat)" by simp_all
  ultimately show ?thesis by (auto simp: is_space_def dest!: arg_cong [where f = "of_char :: char \<Rightarrow> nat"])
qed

lemma itoa_no_sign: "c \<in> set (itoa n) \<Longrightarrow> c \<noteq> CHR ''-'' \<and> c \<noteq> CHR ''+'' \<and> c \<noteq> CHR '','' \<and> c \<noteq> CHR ''*'' \<and> \<not> is_space c"
  using itoa_digits digit_sign by metis

lemma hd_itoa: "hd (itoa n) \<noteq> CHR ''-'' \<and> hd (itoa n) \<noteq> CHR ''+''"
  using itoa_no_sign [of "hd (itoa n)" n] by simp

lemma int_text_chars:
  assumes "c \<in> set (int_text n)" shows "c \<noteq> CHR '','' \<and> c \<noteq> CHR ''*'' \<and> \<not> is_space c"
proof -
  have "\<not> is_space CHR ''-''" by (simp add: is_space_def)
  then show ?thesis using assms itoa_no_sign [of c] by (auto simp: int_text_def split: if_splits)
qed

lemma int_text_ne [simp]: "int_text n \<noteq> []"
  by (simp add: int_text_def)

lemma parse_int_text:
  assumes "- (2 ^ 63) \<le> n" "n < 2 ^ 63"
  shows "parse_int (int_text n) = Inr n"
proof (cases "n < 0")
  case True
  then have "parse_uint 64 (itoa (nat (- n))) = Inr (nat (- n))" using assms(1) by (intro parse_uint_itoa) simp
  moreover have "\<not> nat (- n) > 2 ^ 63" using assms(1) by simp
  ultimately show ?thesis using True by (simp add: parse_int_def int_text_def Let_def)
next
  case False
  then have "parse_uint 64 (itoa (nat n)) = Inr (nat n)" using assms(2) by (intro parse_uint_itoa) simp
  moreover have "\<not> nat n \<ge> 2 ^ 63" using assms(2) by simp
  ultimately show ?thesis using False hd_itoa [of "nat n"] by (simp add: parse_int_def int_text_def Let_def)
qed

end
