(* ===== verification/ConfigParse.thy ===== *)
theory ConfigParse
  imports GoStrings Socks5 SplitStream Disorder TlsDialer
begin

text \<open>
  The configuration language of \<^verbatim>\<open>x/configurl\<close>: the text is split at bars into URLs, and each kind of URL has
  its own options. Package \<^verbatim>\<open>net/url\<close>, base64 and \<^verbatim>\<open>net.ResolveUDPAddr\<close> are the fields of \<open>config_lib\<close>.
\<close>

section \<open>URLs and the library\<close>

text \<open>\<^verbatim>\<open>url.URL\<close>; the user has a name and maybe a password.\<close>

record url =
  u_scheme :: string
  u_opaque :: string
  u_user :: "(string \<times> string option) option"
  u_host :: string
  u_path :: string
  u_rawquery :: string
  u_fragment :: string

text \<open>
  \<open>c_parse_query\<close> gives the entries of \<^verbatim>\<open>url.Values\<close> in the order of an iteration, \<open>c_query\<close> is
  \<^verbatim>\<open>Query().Get\<close> of a raw query, \<open>c_nil_user\<close> is the text of a nil \<^verbatim>\<open>*Userinfo\<close>, \<open>c_runes\<close> decodes UTF-8, and
  \<open>c_new_key\<close> is \<^verbatim>\<open>NewEncryptionKey\<close> of \<^verbatim>\<open>SSCipher\<close> with its digests.
\<close>

record ('k, 'a) config_lib =
  c_url_parse :: "string \<Rightarrow> err + url"
  c_url_string :: "url \<Rightarrow> string"
  c_nil_user :: string
  c_parse_query :: "string \<Rightarrow> err + (string \<times> string list) list"
  c_query :: "string \<Rightarrow> string \<Rightarrow> string"
  c_encode :: "(string \<times> string list) list \<Rightarrow> string"
  c_b64url :: "string \<Rightarrow> err + string"
  c_b64std :: "string \<Rightarrow> err + string"
  c_b64encode :: "string \<Rightarrow> string"
  c_runes :: "string \<Rightarrow> nat list"
  c_new_key :: "string \<Rightarrow> string \<Rightarrow> err + 'k"
  c_decode_key :: "string \<Rightarrow> err + bytes"
  c_resolve_udp :: "string \<Rightarrow> err + 'a"

text \<open>
  \<^verbatim>\<open>Userinfo.String\<close>: the name and the password with all but unreserved and some other characters escaped.
\<close>

definition hex_digit :: "nat \<Rightarrow> char" where
  "hex_digit n = (if n < 10 then char_of (48 + n) else char_of (55 + n))"

definition user_char :: "char \<Rightarrow> bool" where
  "user_char c \<longleftrightarrow>
     (let n = of_char c :: nat in
      (48 \<le> n \<and> n \<le> 57) \<or> (65 \<le> n \<and> n \<le> 90) \<or> (97 \<le> n \<and> n \<le> 122) \<or> c \<in> set ''-_.~$&+,;='')"

definition escape_user :: "string \<Rightarrow> string" where
  "escape_user s =
     concat (map (\<lambda>c. if user_char c then [c] else [CHR ''%'', hex_digit (of_char c div 16), hex_digit (of_char c mod 16)]) s)"

definition user_string :: "('k, 'a) config_lib \<Rightarrow> (string \<times> string option) option \<Rightarrow> string" where
  "user_string L u =
     (case u of
        None \<Rightarrow> c_nil_user L
      | Some (name, pass) \<Rightarrow> escape_user name @ (case pass of None \<Rightarrow> [] | Some p \<Rightarrow> '':'' @ escape_user p))"

section \<open>The chain of URLs\<close>

text \<open>A \<^verbatim>\<open>*Config\<close> is the list of its URLs, the outermost first; nil is the empty list.\<close>

fun parse_parts :: "('k, 'a) config_lib \<Rightarrow> string list \<Rightarrow> url list \<Rightarrow> err + url list" where
  "parse_parts L [] config = Inr config"
| "parse_parts L (part # parts) config =
     (let part = trim_space part in
      if part = [] then Inl (ErrNew ''empty config part'')
      else let part = (if CHR '':'' \<notin> set part then part @ '':'' else part) in
           case c_url_parse L part of
             Inl e \<Rightarrow> Inl (ErrWrap ''part is not a valid URL'' e)
           | Inr u \<Rightarrow> parse_parts L parts (u # config))"

definition ParseConfig :: "('k, 'a) config_lib \<Rightarrow> string \<Rightarrow> err + url list" where
  "ParseConfig L configText =
     (let parts = split_on CHR ''|'' (trim_space configText) in
      if length parts = 1 \<and> parts ! 0 = [] then Inr [] else parse_parts L parts [])"

section \<open>Options\<close>

text \<open>
  The loop over the values of a query: \<open>opt\<close> tells for a key in lower case the name its error has and what a
  value does; any other key is an error, and so is a key without exactly one value.
\<close>

fun option_loop ::
  "(string \<Rightarrow> (string \<times> (string \<Rightarrow> 's \<Rightarrow> 's)) option) \<Rightarrow> (string \<times> string list) list \<Rightarrow> 's \<Rightarrow> err + 's" where
  "option_loop opt [] s = Inr s"
| "option_loop opt ((key, values) # rest) s =
     (case opt (to_lower key) of
        None \<Rightarrow> Inl (ErrNew (''unsupported option '' @ key))
      | Some (name, upd) \<Rightarrow>
          (case values of
             [v] \<Rightarrow> option_loop opt rest (upd v s)
           | _ \<Rightarrow> Inl (ErrNew (name @ '' option must has one value''))))"

definition parse_options ::
  "('k, 'a) config_lib \<Rightarrow> (string \<Rightarrow> (string \<times> (string \<Rightarrow> 's \<Rightarrow> 's)) option) \<Rightarrow> string \<Rightarrow> 's \<Rightarrow> err + 's" where
  "parse_options L opt query s = (case c_parse_query L query of Inl e \<Rightarrow> Inl e | Inr values \<Rightarrow> option_loop opt values s)"

text \<open>Override: the host and the port, and the function on addresses.\<close>

definition override_opt :: "string \<Rightarrow> (string \<times> (string \<Rightarrow> string \<times> string \<Rightarrow> string \<times> string)) option" where
  "override_opt k =
     (if k = ''host'' then Some (''host'', \<lambda>v (h, p). (v, p))
      else if k = ''port'' then Some (''port'', \<lambda>v (h, p). (h, v)) else None)"

definition newOverrideFromURL :: "('k, 'a) config_lib \<Rightarrow> url \<Rightarrow> err + string \<times> string" where
  "newOverrideFromURL L u = parse_options L override_opt (u_opaque u) ([], [])"

definition override_address :: "string \<times> string \<Rightarrow> string \<Rightarrow> err + string" where
  "override_address hp address =
     (case hp of (hostOverride, portOverride) \<Rightarrow>
        if hostOverride \<noteq> [] \<and> portOverride \<noteq> [] then Inr (join_host_port hostOverride portOverride)
        else case split_host_port address of
               Inl e \<Rightarrow> Inl (ErrWrap ''address is not valid host:port'' e)
             | Inr (host, port) \<Rightarrow>
                 Inr (join_host_port (if hostOverride \<noteq> [] then hostOverride else host)
                                     (if portOverride \<noteq> [] then portOverride else port)))"

text \<open>Split: a list of counts and lengths.\<close>

definition parse_split :: "string \<Rightarrow> err + repeated_split" where
  "parse_split part =
     (case split_on CHR ''*'' (trim_space part) of
        [b] \<Rightarrow> (case parse_int b of Inl e \<Rightarrow> Inl (ErrNew ''bytes is not a number'') | Inr n \<Rightarrow> Inr \<lparr>Count = 1, Bytes = n\<rparr>)
      | [c, b] \<Rightarrow>
          (case parse_int c of
             Inl e \<Rightarrow> Inl (ErrNew ''count is not a number'')
           | Inr k \<Rightarrow> (case parse_int b of
                         Inl e \<Rightarrow> Inl (ErrNew ''bytes is not a number'') | Inr n \<Rightarrow> Inr \<lparr>Count = k, Bytes = n\<rparr>))
      | _ \<Rightarrow> Inl (ErrNew ''split format must be a comma-separated list''))"

fun parse_split_list :: "string list \<Rightarrow> err + repeated_split list" where
  "parse_split_list [] = Inr []"
| "parse_split_list (part # parts) =
     (case parse_split part of Inl e \<Rightarrow> Inl e | Inr s \<Rightarrow> map_sum id ((#) s) (parse_split_list parts))"

definition parse_splits :: "string \<Rightarrow> err + repeated_split list" where
  "parse_splits configText = parse_split_list (split_on CHR '','' configText)"

text \<open>TLS.\<close>

datatype tls_option = OptSNI string | OptCertName string

fun tls_option_fun :: "('cert, 'roots) x509 \<Rightarrow> tls_option \<Rightarrow> ('cert, 'ses) ClientOption" where
  "tls_option_fun x509 (OptSNI n) = WithSNI n"
| "tls_option_fun x509 (OptCertName n) = WithCertVerifier (StandardCertVerifier x509 n None)"

definition tls_opt :: "string \<Rightarrow> (string \<times> (string \<Rightarrow> tls_option list \<Rightarrow> tls_option list)) option" where
  "tls_opt k =
     (if k = ''sni'' then Some (''sni'', \<lambda>v os. os @ [OptSNI v])
      else if k = ''certname'' then Some (''certName'', \<lambda>v os. os @ [OptCertName v]) else None)"

definition parseOptions :: "('k, 'a) config_lib \<Rightarrow> url \<Rightarrow> err + tls_option list" where
  "parseOptions L u = parse_options L tls_opt (u_opaque u) []"

text \<open>DNS: the resolvers over UDP and TCP, or HTTPS.\<close>

definition address_opt :: "string \<Rightarrow> (string \<times> (string \<Rightarrow> string \<Rightarrow> string)) option" where
  "address_opt k = (if k = ''address'' then Some (''address'', \<lambda>v _. v) else None)"

definition newDO53Resolver :: "('k, 'a) config_lib \<Rightarrow> url \<Rightarrow> err + resolver \<times> resolver" where
  "newDO53Resolver L u =
     (case parse_options L address_opt (u_opaque u) [] of
        Inl e \<Rightarrow> Inl e
      | Inr address \<Rightarrow>
          if address = [] then Inl (ErrNew ''must set an address'')
          else let address = (case split_host_port address of Inl _ \<Rightarrow> join_host_port address ''53'' | Inr _ \<Rightarrow> address)
               in Inr (NewUDPResolver address, NewTCPResolver address))"

text \<open>The query of the resolver, with the answers of the two.\<close>

definition do53_query :: "('m \<Rightarrow> bool) \<Rightarrow> err + 'm \<Rightarrow> err + 'm \<Rightarrow> err + 'm" where
  "do53_query truncated udp tcp =
     (case udp of Inl e \<Rightarrow> Inl e | Inr msg \<Rightarrow> if \<not> truncated msg then Inr msg else tcp)"

definition doh_opt :: "string \<Rightarrow> (string \<times> (string \<Rightarrow> string \<times> string \<Rightarrow> string \<times> string)) option" where
  "doh_opt k =
     (if k = ''address'' then Some (''address'', \<lambda>v (n, a). (n, v))
      else if k = ''name'' then Some (''name'', \<lambda>v (n, a). (v, a)) else None)"

definition newDOHResolver :: "('k, 'a) config_lib \<Rightarrow> url \<Rightarrow> err + resolver" where
  "newDOHResolver L u =
     (case parse_options L doh_opt (u_opaque u) ([], []) of
        Inl e \<Rightarrow> Inl e
      | Inr (name, address) \<Rightarrow>
          if name = [] then Inl (ErrNew ''must set a name'')
          else let address = (if address = [] then name else address) in
               (case split_host_port address of
                  Inl _ \<Rightarrow> Inr (NewHTTPSResolver (join_host_port address ''443'') (doh_url (join_host_port name ''443'')))
                | Inr (_, port) \<Rightarrow> Inr (NewHTTPSResolver address (doh_url (join_host_port name port)))))"

text \<open>WebSocket paths; the names in the errors are those of the code.\<close>

definition ws_opt :: "string \<Rightarrow> (string \<times> (string \<Rightarrow> string \<times> string \<Rightarrow> string \<times> string)) option" where
  "ws_opt k =
     (if k = ''tcp_path'' then Some (''udp_path'', \<lambda>v (t, u). (v, u))
      else if k = ''udp_path'' then Some (''tcp_path'', \<lambda>v (t, u). (t, v)) else None)"

definition parseWSConfig :: "('k, 'a) config_lib \<Rightarrow> url \<Rightarrow> err + string \<times> string" where
  "parseWSConfig L u = parse_options L ws_opt (u_opaque u) ([], [])"

text \<open>HTTP CONNECT: headers of the client, and the options of the transport.\<close>

record connectOptions =
  co_headers :: "string list"
  co_plain :: bool
  co_tls :: "tls_option list"

definition connect_opt :: "string \<Rightarrow> (string \<times> (string \<Rightarrow> connectOptions \<Rightarrow> connectOptions)) option" where
  "connect_opt k =
     (if k = ''sni'' then Some (''sni'', \<lambda>v c. c\<lparr>co_tls := co_tls c @ [OptSNI v]\<rparr>)
      else if k = ''certname'' then Some (''certname'', \<lambda>v c. c\<lparr>co_tls := co_tls c @ [OptCertName v]\<rparr>)
      else if k = ''plain'' then Some (''plain'', \<lambda>v c. if v = ''true'' then c\<lparr>co_plain := True\<rparr> else c)
      else if k = ''auth'' then Some (''auth'', \<lambda>v c. c\<lparr>co_headers := co_headers c @ [v]\<rparr>) else None)"

definition parseConnectOptions :: "('k, 'a) config_lib \<Rightarrow> url \<Rightarrow> err + connectOptions" where
  "parseConnectOptions L u =
     (let auth = (case u_user u of
            None \<Rightarrow> []
          | Some (name, pass) \<Rightarrow>
              [''Basic '' @ c_b64encode L (name @ '':'' @ (case pass of None \<Rightarrow> [] | Some p \<Rightarrow> p))]) in
      parse_options L connect_opt (u_rawquery u) \<lparr>co_headers = auth, co_plain = False, co_tls = []\<rparr>)"

text \<open>DNS tunnels.\<close>

datatype dnstt_kind = TransportInvalid | TransportDoH | TransportDoT | TransportUDP | TransportResolver

record dnsttConfig =
  dt_kind :: dnstt_kind
  dt_domain :: string
  dt_pubkey :: bytes
  dt_doh :: string
  dt_dot :: string
  dt_udp :: string

definition parseDNSTTConfig :: "('k, 'a) config_lib \<Rightarrow> url \<Rightarrow> err + dnsttConfig" where
  "parseDNSTTConfig L u =
     (let rawQuery = (if u_rawquery u = [] \<and> u_opaque u \<noteq> []
                      then (if 0 < length (u_opaque u) \<and> u_opaque u ! 0 = CHR ''?'' then drop 1 (u_opaque u) else u_opaque u)
                      else u_rawquery u) in
      case c_parse_query L rawQuery of
        Inl e \<Rightarrow> Inl (ErrWrap ''dnstt: parse query'' e)
      | Inr values \<Rightarrow>
          (let get = (\<lambda>k. case map_of values k of Some (v # _) \<Rightarrow> v | _ \<Rightarrow> []) in
           if get ''domain'' = [] then Inl (ErrNew ''dnstt: domain parameter is required'')
           else if get ''pubkey'' = [] then Inl (ErrNew ''dnstt: pubkey parameter is required'')
           else case c_decode_key L (get ''pubkey'') of
                  Inl e \<Rightarrow> Inl (ErrWrap ''dnstt: decode pubkey'' e)
                | Inr pub \<Rightarrow>
                    (let sel = (if get ''doh'' \<noteq> [] then [TransportDoH] else []) @ (if get ''dot'' \<noteq> [] then [TransportDoT] else [])
                             @ (if get ''udp'' \<noteq> [] then [TransportUDP] else []) in
                     if 1 < length sel then Inl (ErrNew ''dnstt: only one of doh, dot, or udp may be given'')
                     else Inr \<lparr>dt_kind = (case sel of [] \<Rightarrow> TransportInvalid | k # _ \<Rightarrow> k), dt_domain = get ''domain'', dt_pubkey = pub,
                               dt_doh = get ''doh'', dt_dot = get ''dot'', dt_udp = get ''udp''\<rparr>)))"

text \<open>TURN.\<close>

record 'a turnConfig =
  tn_server :: string
  tn_user :: string
  tn_pass :: string
  tn_peer :: 'a
  tn_tcp :: bool
  tn_dtls :: bool

definition parseTURNConfig :: "('k, 'a) config_lib \<Rightarrow> url \<Rightarrow> err + 'a turnConfig" where
  "parseTURNConfig L u =
     (let get = c_query L (u_rawquery u) in
      if u_host u = [] then Inl (ErrNew ''turn: server host:port is required'')
      else case split_host_port (u_host u) of
        Inl e \<Rightarrow> Inl (ErrWrap ''turn: server address'' e)
      | Inr _ \<Rightarrow>
     (case u_user u of
        Some (user, Some pass) \<Rightarrow>
          (if user = [] then Inl (ErrNew ''turn: username and password are required'')
           else if get ''peer'' = [] then Inl (ErrNew ''turn: peer parameter is required'')
           else case c_resolve_udp L (get ''peer'') of
             Inl e \<Rightarrow> Inl (ErrWrap ''turn: resolve peer'' e)
           | Inr peer \<Rightarrow>
               (let tr = to_lower (get ''transport''); dt = to_lower (get ''dtls'') in
                if tr \<notin> {[], ''udp'', ''tcp''} then Inl (ErrNew ''turn: transport must be udp or tcp'')
                else if dt \<notin> {[], ''0'', ''false'', ''1'', ''true''} then Inl (ErrNew ''turn: dtls must be 0/1'')
                else Inr \<lparr>tn_server = u_host u, tn_user = user, tn_pass = pass, tn_peer = peer,
                          tn_tcp = (tr = ''tcp''), tn_dtls = (dt = ''1'' \<or> dt = ''true'')\<rparr>))
      | _ \<Rightarrow> Inl (ErrNew ''turn: username and password are required'')))"

section \<open>Shadowsocks URLs\<close>

record 'k shadowsocksConfig =
  sc_serverAddress :: string
  sc_cryptoKey :: 'k
  sc_prefix :: bytes

definition parseStringPrefix :: "('k, 'a) config_lib \<Rightarrow> string \<Rightarrow> err + bytes" where
  "parseStringPrefix L utf8Str =
     (if \<forall>r \<in> set (c_runes L utf8Str). r < 256 then Inr (map word_of_nat (c_runes L utf8Str))
      else Inl (ErrNew ''character out of range''))"

text \<open>What both formats do with the cipher info and the prefix.\<close>

definition ss_config :: "('k, 'a) config_lib \<Rightarrow> string \<Rightarrow> string \<Rightarrow> string \<Rightarrow> err + 'k shadowsocksConfig" where
  "ss_config L serverAddress cipherInfo prefixStr =
     (case cut_on CHR '':'' cipherInfo of
        None \<Rightarrow> Inl (ErrNew ''invalid cipher info: no ':' separator'')
      | Some (cipherName, secret) \<Rightarrow>
          (case c_new_key L cipherName secret of
             Inl e \<Rightarrow> Inl (ErrWrap ''failed to create cipher'' e)
           | Inr key \<Rightarrow>
               if 0 < length prefixStr
               then (case parseStringPrefix L prefixStr of
                       Inl e \<Rightarrow> Inl (ErrWrap ''failed to parse prefix'' e)
                     | Inr p \<Rightarrow> Inr \<lparr>sc_serverAddress = serverAddress, sc_cryptoKey = key, sc_prefix = p\<rparr>)
               else Inr \<lparr>sc_serverAddress = serverAddress, sc_cryptoKey = key, sc_prefix = []\<rparr>))"

definition parseShadowsocksSIP002URL :: "('k, 'a) config_lib \<Rightarrow> url \<Rightarrow> err + 'k shadowsocksConfig" where
  "parseShadowsocksSIP002URL L u =
     (if u_host u = [] then Inl (ErrNew ''host not specified'')
      else let userInfo = user_string L (u_user u);
               cipherInfo = (case c_b64url L userInfo of
                  Inr d \<Rightarrow> d
                | Inl _ \<Rightarrow> (case c_b64std L userInfo of Inr d \<Rightarrow> d | Inl _ \<Rightarrow> userInfo)) in
           ss_config L (u_host u) cipherInfo (c_query L (u_rawquery u) ''prefix''))"

definition parseShadowsocksLegacyBase64URL :: "('k, 'a) config_lib \<Rightarrow> url \<Rightarrow> err + 'k shadowsocksConfig" where
  "parseShadowsocksLegacyBase64URL L u =
     (if u_host u = [] then Inl (ErrNew ''host not specified'')
      else case c_b64url L (u_host u) of
        Inl e \<Rightarrow> Inl (ErrWrap (''failed to decode host string ['' @ c_url_string L u @ '']'') e)
      | Inr decoded \<Rightarrow>
          (case c_url_parse L (to_lower (u_scheme u) @ ''://'' @ decoded @ (if u_fragment u \<noteq> [] then ''#'' @ u_fragment u else [])) of
             Inl e \<Rightarrow> Inl (ErrWrap ''failed to parse config part'' e)
           | Inr newURL \<Rightarrow>
               if u_user newURL = None then Inl (ErrNew ''invalid user info'')
               else ss_config L (u_host newURL) (user_string L (u_user newURL)) (c_query L (u_rawquery newURL) ''prefix'')))"

definition parseShadowsocksURL :: "('k, 'a) config_lib \<Rightarrow> url \<Rightarrow> err + 'k shadowsocksConfig" where
  "parseShadowsocksURL L u =
     (case parseShadowsocksSIP002URL L u of Inr c \<Rightarrow> Inr c | Inl _ \<Rightarrow> parseShadowsocksLegacyBase64URL L u)"

end
