(* ===== verification/HttpConnect.thy ===== *)
theory HttpConnect
  imports TlsDialer
begin

text \<open>
  The HTTP CONNECT client (\<^verbatim>\<open>x/httpconnect\<close>): the configuration of its transports, the CONNECT request, and
  the connection over two pipes. The HTTP protocol is the standard library's: a round trip that gives a
  status and a body.
\<close>

section \<open>Transports\<close>

record ('cert, 'ses) transportConfig =
  tr_tlsOptions :: "('cert, 'ses) ClientOption list"
  tr_plainHTTP :: bool

type_synonym ('cert, 'ses) TransportOption = "('cert, 'ses) transportConfig \<Rightarrow> ('cert, 'ses) transportConfig"

definition WithTLSOptions :: "('cert, 'ses) ClientOption list \<Rightarrow> ('cert, 'ses) TransportOption" where
  "WithTLSOptions opts = (\<lambda>c. c\<lparr>tr_tlsOptions := tr_tlsOptions c @ opts, tr_plainHTTP := False\<rparr>)"

definition WithPlainHTTP :: "('cert, 'ses) TransportOption" where
  "WithPlainHTTP = (\<lambda>c. c\<lparr>tr_plainHTTP := True\<rparr>)"

definition applyOptions :: "('cert, 'ses) TransportOption list \<Rightarrow> ('cert, 'ses) transportConfig" where
  "applyOptions opts = foldl (\<lambda>c opt. opt c) \<lparr>tr_tlsOptions = [], tr_plainHTTP = False\<rparr> opts"

text \<open>The TLS configuration that all three transports build for the proxy \<open>host\<close>.\<close>

definition proxy_tls_config ::
  "('cert, 'roots) x509 \<Rightarrow> string \<Rightarrow> ('cert, 'ses) ClientOption list \<Rightarrow> ('cert, 'ses) tls_config" where
  "proxy_tls_config x509 host opts =
     toStdConfig x509 (foldl (\<lambda>c opt. opt host c)
       \<lparr>ServerName = host, NextProtos = [], SessionCache = None, CertVerifier = None\<rparr> opts)"

datatype proxy_kind = HTTPProxy | H2Proxy | H3Proxy

record ('cert, 'ses) proxy_transport =
  px_kind :: proxy_kind
  px_addr :: string
  px_scheme :: string
  px_tls :: "('cert, 'ses) tls_config option"

text \<open>
  \<^verbatim>\<open>NewHTTPProxyTransport\<close>, \<^verbatim>\<open>NewH2ProxyTransport\<close> and \<^verbatim>\<open>NewH3ProxyTransport\<close>, for a dialer that is not nil;
  \<^verbatim>\<open>http2.ConfigureTransport\<close> of a new transport does not fail.
\<close>

definition new_proxy_transport ::
  "('cert, 'roots) x509 \<Rightarrow> proxy_kind \<Rightarrow> string \<Rightarrow> ('cert, 'ses) TransportOption list \<Rightarrow> err + ('cert, 'ses) proxy_transport" where
  "new_proxy_transport x509 kind proxyAddr opts =
     (case split_host_port proxyAddr of
        Inl e \<Rightarrow> Inl (ErrWrap (''failed to parse proxy address '' @ proxyAddr) e)
      | Inr (host, _) \<Rightarrow>
          (let cfg = applyOptions opts;
               std = proxy_tls_config x509 host (tr_tlsOptions cfg);
               std = (if kind = H2Proxy then std\<lparr>tc_NextProtos := ''h2'' # tc_NextProtos std\<rparr> else std) in
           Inr \<lparr>px_kind = kind, px_addr = proxyAddr,
                px_scheme = (if tr_plainHTTP cfg \<and> kind \<noteq> H3Proxy then ''http'' else ''https''),
                px_tls = (if kind = H2Proxy \<and> tr_plainHTTP cfg then None else Some std)\<rparr>))"

text \<open>The three constructors; \<open>given\<close> tells whether the dialer, or the packet connection, is there.\<close>

definition NewHTTPProxyTransport ::
  "('cert, 'roots) x509 \<Rightarrow> bool \<Rightarrow> string \<Rightarrow> ('cert, 'ses) TransportOption list \<Rightarrow> err + ('cert, 'ses) proxy_transport" where
  "NewHTTPProxyTransport x509 given proxyAddr opts =
     (if \<not> given then Inl (ErrNew ''dialer must not be nil'') else new_proxy_transport x509 HTTPProxy proxyAddr opts)"

definition NewH2ProxyTransport ::
  "('cert, 'roots) x509 \<Rightarrow> bool \<Rightarrow> string \<Rightarrow> ('cert, 'ses) TransportOption list \<Rightarrow> err + ('cert, 'ses) proxy_transport" where
  "NewH2ProxyTransport x509 given proxyAddr opts =
     (if \<not> given then Inl (ErrNew ''dialer must not be nil'') else new_proxy_transport x509 H2Proxy proxyAddr opts)"

definition NewH3ProxyTransport ::
  "('cert, 'roots) x509 \<Rightarrow> bool \<Rightarrow> string \<Rightarrow> ('cert, 'ses) TransportOption list \<Rightarrow> err + ('cert, 'ses) proxy_transport" where
  "NewH3ProxyTransport x509 given proxyAddr opts =
     (if \<not> given then Inl (ErrNew ''conn must not be nil'') else new_proxy_transport x509 H3Proxy proxyAddr opts)"

text \<open>
  How the transports connect, whatever address the HTTP library asks for. The HTTP/2 transport makes the TLS handshake itself
  (\<open>handshake\<close>); the first component is a connection that it closed. The HTTP/3 transport needs the address as a UDP address.
\<close>

definition http_proxy_dial :: "(string \<Rightarrow> err + 'c) \<Rightarrow> ('cert, 'ses) proxy_transport \<Rightarrow> string \<Rightarrow> err + 'c" where
  "http_proxy_dial dialer t address = dialer (px_addr t)"

definition h2_proxy_dial ::
  "(string \<Rightarrow> err + 'c) \<Rightarrow> (('cert, 'ses) tls_config \<Rightarrow> 'c \<Rightarrow> err option) \<Rightarrow> ('cert, 'ses) proxy_transport \<Rightarrow> string
   \<Rightarrow> 'c option \<times> (err + 'c)" where
  "h2_proxy_dial dialer handshake t address =
     (case dialer (px_addr t) of
        Inl e \<Rightarrow> (None, Inl e)
      | Inr conn \<Rightarrow>
          (case px_tls t of
             None \<Rightarrow> (None, Inr conn)
           | Some cfg \<Rightarrow> (case handshake cfg conn of Some e \<Rightarrow> (Some conn, Inl e) | None \<Rightarrow> (None, Inr conn))))"

definition h3_proxy_dial ::
  "(string \<Rightarrow> string \<Rightarrow> err + nat) \<Rightarrow> (string \<Rightarrow> bytes option) \<Rightarrow> (net_addr \<Rightarrow> ('cert, 'ses) tls_config \<Rightarrow> err + 'c)
   \<Rightarrow> ('cert, 'ses) proxy_transport \<Rightarrow> ('cert, 'ses) tls_config \<Rightarrow> string \<Rightarrow> err + 'c" where
  "h3_proxy_dial lookup_port parse_ip quic t cfg address =
     (case MakeNetAddr lookup_port parse_ip ''udp'' (px_addr t) of
        Inl e \<Rightarrow> Inl (ErrWrap (''failed to parse proxy address '' @ px_addr t) e)
      | Inr a \<Rightarrow> quic a cfg)"

text \<open>
  A connection of the HTTP/2 transport is one to the proxy; without the plain option it is given only after a handshake that
  verifies with a configuration that offers h2 first, and closed if that fails. The scheme is the one of the connection.
\<close>

lemma h2_transport_verifies:
  assumes "NewH2ProxyTransport x509 given proxyAddr opts = Inr t" "h2_proxy_dial dialer handshake t address = (cl, res)"
  shows "(\<forall>c. res = Inr c \<longrightarrow> dialer proxyAddr = Inr c \<and> cl = None)
    \<and> (px_scheme t = ''https'' \<longleftrightarrow> px_tls t \<noteq> None)
    \<and> (\<forall>c cfg. res = Inr c \<and> px_tls t = Some cfg \<longrightarrow> handshake cfg c = None \<and> hd (tc_NextProtos cfg) = ''h2'')
    \<and> (\<forall>c e. dialer proxyAddr = Inr c \<and> res = Inl e \<longrightarrow> cl = Some c)"
proof -
  have t: "px_addr t = proxyAddr" "px_scheme t = ''https'' \<longleftrightarrow> px_tls t \<noteq> None" "\<forall>cfg. px_tls t = Some cfg \<longrightarrow> hd (tc_NextProtos cfg) = ''h2''"
    using assms(1) by (auto simp: NewH2ProxyTransport_def new_proxy_transport_def Let_def split: if_splits sum.splits)
  show ?thesis using assms(2) t
    by (auto simp: h2_proxy_dial_def split: sum.splits option.splits)
qed

text \<open>
  With the SNI option a CONNECT client verifies the certificate of the proxy for the name sent as SNI and
  no longer for the proxy's host, although the option promises to change only what is sent; a TLS dialer
  with the same option still verifies the host.
\<close>

theorem connect_sni_changes_verification:
  assumes "split_host_port proxyAddr = Inr (host, port)"
  shows "\<exists>t std. new_proxy_transport x509 kind proxyAddr [WithTLSOptions [WithSNI decoy]] = Inr t \<and> px_tls t = Some std
     \<and> tc_ServerName std = decoy \<and> tc_VerifyConnection std = StandardCertVerifier x509 decoy None
     \<and> tc_VerifyConnection (toStdConfig x509 (client_config x509 host [WithSNI decoy])) = StandardCertVerifier x509 host None"
proof -
  have t: "tc_VerifyConnection (toStdConfig x509 (client_config x509 host [WithSNI decoy])) = StandardCertVerifier x509 host None"
    using client_config_verifier [of x509 host "[SpecSNI decoy]"] by simp
  show ?thesis unfolding t using assms
    by (auto simp: new_proxy_transport_def applyOptions_def WithTLSOptions_def proxy_tls_config_def WithSNI_def
        toStdConfig_def Let_def)
qed

lemma connect_sni_changes_verification_witness:
  "\<exists>t std. new_proxy_transport demo_x509 HTTPProxy ''proxy.org:443'' [WithTLSOptions [WithSNI ''decoy.com'']] = Inr t
     \<and> px_tls t = Some std \<and> tc_VerifyConnection std [''decoy.com'', ''ca''] = None
     \<and> tc_VerifyConnection std [''proxy.org'', ''ca''] \<noteq> None"
proof -
  have "split_host_port ''proxy.org:443'' = Inr (''proxy.org'', ''443'')"
    by (simp add: split_host_port_def last_index_def Let_def)
  from connect_sni_changes_verification [OF this, of demo_x509 HTTPProxy "''decoy.com''"] show ?thesis
    by (fastforce simp: StandardCertVerifier_def demo_x509_def)
qed

section \<open>The request\<close>

type_synonym http_headers = "(string \<times> string list) list"

text \<open>\<^verbatim>\<open>WithHeaders\<close> replaces the headers; \<^verbatim>\<open>mergeHeaders\<close> adds the values one by one.\<close>

definition WithHeaders :: "http_headers \<Rightarrow> http_headers \<Rightarrow> http_headers" where
  "WithHeaders headers old = headers"

definition client_headers :: "http_headers list \<Rightarrow> http_headers" where
  "client_headers opts = foldl (\<lambda>c h. WithHeaders h c) [] opts"

fun header_add :: "string \<Rightarrow> string \<Rightarrow> http_headers \<Rightarrow> http_headers" where
  "header_add k v [] = [(k, [v])]"
| "header_add k v ((k', vs) # hs) = (if k = k' then (k', vs @ [v]) # hs else (k', vs) # header_add k v hs)"

definition mergeHeaders :: "http_headers \<Rightarrow> http_headers \<Rightarrow> http_headers" where
  "mergeHeaders dst src = foldl (\<lambda>d (k, vs). foldl (\<lambda>d v. header_add k v d) d vs) dst src"

record connect_request =
  cr_url :: string
  cr_headers :: http_headers

text \<open>
  The outcome of a dial: the request that was sent, whether the body of the answer was closed, and the error
  or the body. \<open>parse\<close> is \<^verbatim>\<open>MakeNetAddr("tcp", _)\<close>, \<open>new_request\<close> the check of the URL, \<open>do\<close> the round trip.
\<close>

definition connect_dial ::
  "(string \<Rightarrow> err + 'a) \<Rightarrow> (string \<Rightarrow> err option) \<Rightarrow> (connect_request \<Rightarrow> err + nat \<times> 'b) \<Rightarrow> string \<Rightarrow> http_headers
   \<Rightarrow> string \<Rightarrow> connect_request option \<times> bool \<times> (err + 'b \<times> 'a)" where
  "connect_dial parse new_request do scheme headers remoteAddr =
     (case parse remoteAddr of
        Inl e \<Rightarrow> (None, False, Inl (ErrWrap (''failed to parse remote address '' @ remoteAddr) e))
      | Inr raddr \<Rightarrow>
          (let url = scheme @ ''://'' @ remoteAddr in
           case new_request url of
             Some e \<Rightarrow> (None, False, Inl (ErrWrap ''failed to create request'' e))
           | None \<Rightarrow>
               (let req = \<lparr>cr_url = url, cr_headers = mergeHeaders [] headers\<rparr> in
                case do req of
                  Inl e \<Rightarrow> (Some req, False, Inl (ErrWrap ''do'' e))
                | Inr (status, body) \<Rightarrow>
                    if status \<noteq> 200 then (Some req, True, Inl (ErrNew ''unexpected status code''))
                    else (Some req, False, Inr (body, raddr)))))"

section \<open>The read side of the connection\<close>

text \<open>
  \<^verbatim>\<open>net.Pipe\<close> hands each write to the reads of the other side: \<open>rp_pending\<close> is what is left of the write in
  progress. \<open>rp_body\<close> is what the body of the answer still gives, then its end. The goroutine copies the
  body into the pipe and closes the body when the copy ends; \<open>rp_got\<close> logs what \<^verbatim>\<open>Read\<close> returned.
\<close>

record read_pipe =
  rp_body :: "bytes list"
  rp_pending :: "bytes option"
  rp_writer_closed :: bool
  rp_reader_closed :: bool
  rp_copy_done :: bool
  rp_body_closed :: bool
  rp_got :: bytes

definition new_read_pipe :: "bytes list \<Rightarrow> read_pipe" where
  "new_read_pipe body = \<lparr>rp_body = body, rp_pending = None, rp_writer_closed = False, rp_reader_closed = False,
     rp_copy_done = False, rp_body_closed = False, rp_got = []\<rparr>"

text \<open>A \<^verbatim>\<open>Read\<close> of up to \<open>n\<close> bytes: \<open>None\<close> blocks.\<close>

definition pipe_read :: "nat \<Rightarrow> read_pipe \<Rightarrow> (read_pipe \<times> bytes \<times> err option) option" where
  "pipe_read n p =
     (if rp_reader_closed p then Some (p, [], Some (ErrNew ''io: read/write on closed pipe''))
      else case rp_pending p of
        Some b \<Rightarrow>
          Some (p\<lparr>rp_pending := (if drop n b = [] then None else Some (drop n b)), rp_got := rp_got p @ take n b\<rparr>, take n b, None)
      | None \<Rightarrow> if rp_writer_closed p then Some (p, [], Some EOF) else None)"

datatype pipe_event = PeCopy | PeCopyEnd | PeRead nat | PeCloseRead

fun pipe_step :: "read_pipe \<Rightarrow> pipe_event \<Rightarrow> read_pipe option" where
  "pipe_step p PeCopy =
     (case rp_body p of
        b # bs \<Rightarrow> if \<not> rp_copy_done p \<and> rp_pending p = None \<and> \<not> rp_reader_closed p
                  then Some (p\<lparr>rp_body := bs, rp_pending := (if b = [] then None else Some b)\<rparr>) else None
      | [] \<Rightarrow> None)"
| "pipe_step p PeCopyEnd =
     (if \<not> rp_copy_done p \<and> (rp_reader_closed p \<or> rp_body p = [] \<and> rp_pending p = None)
      then Some (p\<lparr>rp_copy_done := True, rp_body_closed := True, rp_pending := None\<rparr>) else None)"
| "pipe_step p (PeRead n) = map_option fst (pipe_read n p)"
| "pipe_step p PeCloseRead = Some (p\<lparr>rp_reader_closed := True\<rparr>)"

fun pipe_run :: "read_pipe \<Rightarrow> pipe_event list \<Rightarrow> read_pipe option" where
  "pipe_run p [] = Some p"
| "pipe_run p (e # es) = (case pipe_step p e of None \<Rightarrow> None | Some p' \<Rightarrow> pipe_run p' es)"

definition pipe_inv :: "bytes \<Rightarrow> read_pipe \<Rightarrow> bool" where
  "pipe_inv body p \<longleftrightarrow>
     \<not> rp_writer_closed p \<and> rp_body_closed p = rp_copy_done p
     \<and> (rp_reader_closed p \<or> rp_got p @ (case rp_pending p of None \<Rightarrow> [] | Some b \<Rightarrow> b) @ concat (rp_body p) = body)
     \<and> (rp_copy_done p \<and> \<not> rp_reader_closed p \<longrightarrow> rp_body p = [] \<and> rp_pending p = None)"

lemma pipe_inv_step: "pipe_inv body p \<Longrightarrow> pipe_step p e = Some p' \<Longrightarrow> pipe_inv body p'"
proof (cases e)
  case PeCopy
  assume "pipe_inv body p" "pipe_step p e = Some p'"
  then show ?thesis using PeCopy by (auto simp: pipe_inv_def split: list.splits if_splits)
next
  case PeCopyEnd
  assume "pipe_inv body p" "pipe_step p e = Some p'"
  then show ?thesis using PeCopyEnd by (auto simp: pipe_inv_def split: if_splits)
next
  case (PeRead n)
  assume a: "pipe_inv body p" "pipe_step p e = Some p'"
  show ?thesis
  proof (cases "rp_reader_closed p \<or> rp_pending p = None")
    case True
    then show ?thesis using a PeRead by (auto simp: pipe_read_def pipe_inv_def split: option.splits if_splits)
  next
    case False
    then obtain b where b: "rp_pending p = Some b" "\<not> rp_reader_closed p" by auto
    let ?pending = "if drop n b = [] then None else Some (drop n b)"
    have p': "p' = p\<lparr>rp_pending := ?pending, rp_got := rp_got p @ take n b\<rparr>"
      using a(2) PeRead b by (simp add: pipe_read_def)
    have "(case ?pending of None \<Rightarrow> [] | Some b \<Rightarrow> b) = drop n b" by (cases "drop n b = []") auto
    then have "(rp_got p @ take n b) @ (case ?pending of None \<Rightarrow> [] | Some b \<Rightarrow> b) @ concat (rp_body p) = body"
      using a(1) b by (simp add: pipe_inv_def flip: append.assoc [of "take n b"])
    moreover have "\<not> rp_copy_done p" using a(1) b by (auto simp: pipe_inv_def)
    ultimately show ?thesis using a(1) b(2) unfolding p' by (simp add: pipe_inv_def)
  qed
next
  case PeCloseRead
  assume "pipe_inv body p" "pipe_step p e = Some p'"
  then show ?thesis using PeCloseRead by (auto simp: pipe_inv_def)
qed

lemma pipe_inv_run: "pipe_inv body p \<Longrightarrow> pipe_run p es = Some p' \<Longrightarrow> pipe_inv body p'"
  by (induction es arbitrary: p) (auto split: option.splits intro: pipe_inv_step)

lemma pipe_run_append: "pipe_run p (es @ fs) = (case pipe_run p es of None \<Rightarrow> None | Some p' \<Rightarrow> pipe_run p' fs)"
  by (induction es arbitrary: p) (auto split: option.splits)

text \<open>
  The reads of a CONNECT connection give the body of the answer in order, but never its end: the goroutine
  that copies the body does not close the pipe, so when the proxy has ended the stream and everything was
  read, a \<^verbatim>\<open>Read\<close> blocks whatever happens until the reader itself closes.
\<close>

theorem connect_read_never_ends:
  assumes "pipe_run (new_read_pipe body) es = Some p" "\<not> rp_reader_closed p"
  shows "(\<exists>rest. concat body = rp_got p @ rest)
     \<and> (rp_copy_done p \<longrightarrow> rp_got p = concat body \<and> rp_body_closed p
          \<and> (\<forall>fs q n. pipe_run p fs = Some q \<and> \<not> rp_reader_closed q \<longrightarrow> pipe_read n q = None))"
proof -
  have i0: "pipe_inv (concat body) (new_read_pipe body)" by (simp add: pipe_inv_def new_read_pipe_def)
  note i = pipe_inv_run [OF i0 assms(1)]
  have "concat body = rp_got p @ (case rp_pending p of None \<Rightarrow> [] | Some b \<Rightarrow> b) @ concat (rp_body p)"
    using i assms(2) by (simp add: pipe_inv_def)
  moreover have "rp_got p = concat body" "rp_body_closed p" if "rp_copy_done p"
    using i assms(2) that by (auto simp: pipe_inv_def)
  moreover have "pipe_read n q = None" if d: "rp_copy_done p" "pipe_run p fs = Some q" "\<not> rp_reader_closed q" for fs q n
  proof -
    have "rp_copy_done q" using d(1,2)
    proof (induction fs arbitrary: p)
      case (Cons e fs)
      then obtain r where r: "pipe_step p e = Some r" "pipe_run r fs = Some q" by (auto split: option.splits)
      then have "rp_copy_done r" using Cons.prems(1)
        by (cases e) (auto simp: pipe_read_def split: list.splits if_splits option.splits)
      then show ?case using Cons.IH r(2) by blast
    qed simp
    moreover have "pipe_inv (concat body) q" using pipe_inv_run [OF i d(2)] .
    ultimately show ?thesis using d(3) by (simp add: pipe_inv_def pipe_read_def)
  qed
  ultimately show ?thesis by blast
qed

lemma connect_read_never_ends_witness:
  "\<exists>p. pipe_run (new_read_pipe [[1, 2], [3]]) [PeCopy, PeRead 1, PeRead 5, PeCopy, PeRead 5, PeCopyEnd] = Some p
     \<and> rp_got p = [1, 2, 3] \<and> pipe_read 5 p = None"
proof -
  obtain p where p: "pipe_run (new_read_pipe [[1, 2], [3]]) [PeCopy, PeRead 1, PeRead 5, PeCopy, PeRead 5, PeCopyEnd] = Some p"
    "\<not> rp_reader_closed p" "rp_copy_done p"
    by (simp add: new_read_pipe_def pipe_read_def)
  have "pipe_run p [] = Some p" by simp
  then have "rp_got p = concat [[1, 2], [3]]" "pipe_read 5 p = None"
    using connect_read_never_ends [OF p(1,2)] p(2,3) by blast+
  then show ?thesis using p(1) by (intro exI [of _ p]) simp
qed

end
