(* ===== verification/ConfigUrl.thy ===== *)
theory ConfigUrl
  imports ConfigParse HttpConnect
begin

text \<open>
  The providers of \<^verbatim>\<open>x/configurl\<close>: what is built from a configuration, as data that names the dialers of the
  SDK with their parameters; the registered types; and the removal of secrets from a configuration.
\<close>

section \<open>What is built\<close>

datatype dns_choice = DO53 resolver resolver | DOH resolver

datatype ('k, 'a) stream_dialer =
    TCPDialer
  | DisorderDialer "('k, 'a) stream_dialer" int
  | DNSTTDialer dnsttConfig "resolver option"
  | DO53Dialer "('k, 'a) stream_dialer" "('k, 'a) packet_dialer" "resolver \<times> resolver"
  | DOHDialer "('k, 'a) stream_dialer" resolver
  | ConnectDialer proxy_kind "('k, 'a) stream_dialer option" string connectOptions
  | OverrideDialer "('k, 'a) stream_dialer" "string \<times> string"
  | SOCKS5Dialer "('k, 'a) stream_dialer" string client
  | SplitDialer "('k, 'a) stream_dialer" split_iter
  | ShadowsocksDialer "('k, 'a) stream_dialer" string 'k "bytes option"
  | TLSDialer "('k, 'a) stream_dialer" "tls_option list"
  | TLSFragDialer "('k, 'a) stream_dialer" int
  | TURNStreamDialer "'a turnConfig"
  | WebsocketDialer "('k, 'a) stream_dialer" string
and ('k, 'a) packet_dialer =
    UDPDialer
  | OverridePacketDialer "('k, 'a) packet_dialer" "string \<times> string"
  | ListenerDialer "('k, 'a) packet_listener"
  | WebsocketPacketDialer "('k, 'a) stream_dialer" string
and ('k, 'a) packet_listener =
    UDPListener
  | SOCKS5Listener "('k, 'a) stream_dialer" "('k, 'a) packet_dialer" string client
  | ShadowsocksListener "('k, 'a) packet_dialer" string 'k
  | TURNListener "'a turnConfig"

section \<open>Builders\<close>

text \<open>
  What a builder gets: its URL, whether it has a base configuration, and the base stream and packet dialers
  that the providers give for that. \<open>en_resolver\<close> is the default resolver of the context, \<open>en_listen\<close> the
  opening of a UDP socket, \<open>en_name\<close> the parsing of a DNS name.
\<close>

record ('k, 'a) build_env =
  en_lib :: "('k, 'a) config_lib"
  en_resolver :: "resolver option"
  en_listen :: "err option"
  en_name :: "string \<Rightarrow> err option"

record ('k, 'a) base =
  bs_present :: bool
  bs_sd :: "err + ('k, 'a) stream_dialer"
  bs_pd :: "err + ('k, 'a) packet_dialer"

definition seq_err :: "err + 'x \<Rightarrow> ('x \<Rightarrow> err + 'y) \<Rightarrow> err + 'y" where
  "seq_err x f = (case x of Inl e \<Rightarrow> Inl e | Inr v \<Rightarrow> f v)"

lemma seq_err_simps [simp]: "seq_err (Inl e) f = Inl e" "seq_err (Inr v) f = f v"
  by (simp_all add: seq_err_def)

lemma seq_err_Inr: "seq_err x f = Inr y \<longleftrightarrow> (\<exists>v. x = Inr v \<and> f v = Inr y)"
  by (cases x) auto

definition build_disorder :: "('k, 'a) base \<Rightarrow> url \<Rightarrow> err + ('k, 'a) stream_dialer" where
  "build_disorder b u = seq_err (bs_sd b) (\<lambda>sd.
     case parse_int (u_opaque u) of
       Inl e \<Rightarrow> Inl (ErrWrap ''disoder: could not parse splice position'' e)
     | Inr n \<Rightarrow> seq_err (new_disorder_dialer True n) (\<lambda>n. Inr (DisorderDialer sd n)))"

definition dnstt_valid :: "('k, 'a) build_env \<Rightarrow> dnsttConfig \<Rightarrow> bool \<Rightarrow> err option" where
  "dnstt_valid E c hasResolver =
     (if dt_domain c = [] then Some (ErrNew ''dnstt: domain is required'')
      else if length (dt_pubkey c) \<noteq> 32 then Some (ErrNew ''dnstt: pubkey must be 32 bytes'')
      else case en_name E (dt_domain c) of
        Some e \<Rightarrow> Some (ErrWrap ''dnstt: invalid domain'' e)
      | None \<Rightarrow>
          (case dt_kind c of
             TransportDoH \<Rightarrow> if dt_doh c = [] then Some (ErrNew ''dnstt: doh URL is required for DoH transport'') else None
           | TransportDoT \<Rightarrow> if dt_dot c = [] then Some (ErrNew ''dnstt: dot address is required for DoT transport'') else None
           | TransportUDP \<Rightarrow> if dt_udp c = [] then Some (ErrNew ''dnstt: udp address is required for UDP transport'') else None
           | TransportResolver \<Rightarrow> if \<not> hasResolver then Some (ErrNew ''dnstt: resolver is required for resolver transport'') else None
           | TransportInvalid \<Rightarrow> Some (ErrNew ''dnstt: transport kind is required (doh/dot/udp/resolver)'')))"

definition build_dnstt :: "('k, 'a) build_env \<Rightarrow> ('k, 'a) base \<Rightarrow> url \<Rightarrow> err + ('k, 'a) stream_dialer" where
  "build_dnstt E b u =
     (if bs_present b then Inl (ErrNew ''dnstt: base dialer is not supported (dnstt is a leaf transport)'')
      else seq_err (parseDNSTTConfig (en_lib E) u) (\<lambda>cfg.
        let new = (\<lambda>c r. case dnstt_valid E c (r \<noteq> None) of Some e \<Rightarrow> Inl e | None \<Rightarrow> Inr (DNSTTDialer c r)) in
        if dt_kind cfg = TransportInvalid
        then (case en_resolver E of
                None \<Rightarrow> Inl (ErrNew ''dnstt: one of doh, dot, or udp is required, or a default resolver must be configured'')
              | Some r \<Rightarrow> new (cfg\<lparr>dt_kind := TransportResolver\<rparr>) (Some r))
        else new cfg None))"

definition build_do53 :: "('k, 'a) build_env \<Rightarrow> ('k, 'a) base \<Rightarrow> url \<Rightarrow> err + ('k, 'a) stream_dialer" where
  "build_do53 E b u = seq_err (bs_sd b) (\<lambda>sd. seq_err (bs_pd b) (\<lambda>pd.
     seq_err (newDO53Resolver (en_lib E) u) (\<lambda>r. Inr (DO53Dialer sd pd r))))"

definition build_doh :: "('k, 'a) build_env \<Rightarrow> ('k, 'a) base \<Rightarrow> url \<Rightarrow> err + ('k, 'a) stream_dialer" where
  "build_doh E b u = seq_err (bs_sd b) (\<lambda>sd. seq_err (newDOHResolver (en_lib E) u) (\<lambda>r. Inr (DOHDialer sd r)))"

text \<open>\<^verbatim>\<open>httpconnect\<close> and \<^verbatim>\<open>h2connect\<close>; and \<^verbatim>\<open>h3connect\<close>, which opens a socket of its own.\<close>

definition proxy_addr_ok :: "string \<Rightarrow> err option" where
  "proxy_addr_ok a =
     (case split_host_port a of Inl e \<Rightarrow> Some (ErrWrap (''failed to parse proxy address '' @ a) e) | Inr _ \<Rightarrow> None)"

definition build_connect :: "('k, 'a) build_env \<Rightarrow> proxy_kind \<Rightarrow> ('k, 'a) base \<Rightarrow> url \<Rightarrow> err + ('k, 'a) stream_dialer" where
  "build_connect E kind b u = seq_err (bs_sd b) (\<lambda>sd. seq_err (parseConnectOptions (en_lib E) u) (\<lambda>opts.
     case proxy_addr_ok (u_host u) of Some e \<Rightarrow> Inl e | None \<Rightarrow> Inr (ConnectDialer kind (Some sd) (u_host u) opts)))"

definition build_h3connect :: "('k, 'a) build_env \<Rightarrow> url \<Rightarrow> err + ('k, 'a) stream_dialer" where
  "build_h3connect E u = seq_err (parseConnectOptions (en_lib E) u) (\<lambda>opts.
     case en_listen E of
       Some e \<Rightarrow> Inl (ErrWrap ''failed to create UDP socket'' e)
     | None \<Rightarrow> (case proxy_addr_ok (u_host u) of Some e \<Rightarrow> Inl e | None \<Rightarrow> Inr (ConnectDialer H3Proxy None (u_host u) opts)))"

definition build_override :: "('k, 'a) build_env \<Rightarrow> ('k, 'a) base \<Rightarrow> url \<Rightarrow> err + ('k, 'a) stream_dialer" where
  "build_override E b u = seq_err (bs_sd b) (\<lambda>sd. seq_err (newOverrideFromURL (en_lib E) u) (\<lambda>o'. Inr (OverrideDialer sd o')))"

definition build_override_pd :: "('k, 'a) build_env \<Rightarrow> ('k, 'a) base \<Rightarrow> url \<Rightarrow> err + ('k, 'a) packet_dialer" where
  "build_override_pd E b u =
     seq_err (bs_pd b) (\<lambda>pd. seq_err (newOverrideFromURL (en_lib E) u) (\<lambda>o'. Inr (OverridePacketDialer pd o')))"

definition newSOCKS5Client :: "('k, 'a) base \<Rightarrow> url \<Rightarrow> err + ('k, 'a) stream_dialer \<times> client" where
  "newSOCKS5Client b u = seq_err (bs_sd b) (\<lambda>sd.
     case u_user u of
       None \<Rightarrow> Inr (sd, \<lparr>cred = None\<rparr>)
     | Some (name, pass) \<Rightarrow>
         (case SetCredentials (str_bytes name) (str_bytes (case pass of None \<Rightarrow> [] | Some p \<Rightarrow> p)) \<lparr>cred = None\<rparr> of
            (_, Some e) \<Rightarrow> Inl e | (c, None) \<Rightarrow> Inr (sd, c)))"

definition build_socks5 :: "('k, 'a) base \<Rightarrow> url \<Rightarrow> err + ('k, 'a) stream_dialer" where
  "build_socks5 b u = seq_err (newSOCKS5Client b u) (\<lambda>(sd, c). Inr (SOCKS5Dialer sd (u_host u) c))"

definition build_socks5_pl :: "('k, 'a) base \<Rightarrow> url \<Rightarrow> err + ('k, 'a) packet_listener" where
  "build_socks5_pl b u = seq_err (newSOCKS5Client b u) (\<lambda>(sd, c). seq_err (bs_pd b) (\<lambda>pd. Inr (SOCKS5Listener sd pd (u_host u) c)))"

definition build_split :: "('k, 'a) base \<Rightarrow> url \<Rightarrow> err + ('k, 'a) stream_dialer" where
  "build_split b u = seq_err (bs_sd b) (\<lambda>sd. seq_err (parse_splits (u_opaque u))
     (\<lambda>splits. Inr (SplitDialer sd (new_repeated_split_iterator splits))))"

definition build_ss :: "('k, 'a) build_env \<Rightarrow> ('k, 'a) base \<Rightarrow> url \<Rightarrow> err + ('k, 'a) stream_dialer" where
  "build_ss E b u = seq_err (bs_sd b) (\<lambda>sd. seq_err (parseShadowsocksURL (en_lib E) u) (\<lambda>c.
     Inr (ShadowsocksDialer sd (sc_serverAddress c) (sc_cryptoKey c) (if 0 < length (sc_prefix c) then Some (sc_prefix c) else None))))"

definition build_ss_pl :: "('k, 'a) build_env \<Rightarrow> ('k, 'a) base \<Rightarrow> url \<Rightarrow> err + ('k, 'a) packet_listener" where
  "build_ss_pl E b u = seq_err (bs_pd b) (\<lambda>pd. seq_err (parseShadowsocksURL (en_lib E) u) (\<lambda>c.
     Inr (ShadowsocksListener pd (sc_serverAddress c) (sc_cryptoKey c))))"

definition build_tls :: "('k, 'a) build_env \<Rightarrow> ('k, 'a) base \<Rightarrow> url \<Rightarrow> err + ('k, 'a) stream_dialer" where
  "build_tls E b u = seq_err (bs_sd b) (\<lambda>sd. seq_err (parseOptions (en_lib E) u) (\<lambda>opts. Inr (TLSDialer sd opts)))"

definition build_tlsfrag :: "('k, 'a) base \<Rightarrow> url \<Rightarrow> err + ('k, 'a) stream_dialer" where
  "build_tlsfrag b u = seq_err (bs_sd b) (\<lambda>sd.
     case parse_int (u_opaque u) of
       Inl e \<Rightarrow> Inl (ErrNew ''invalid tlsfrag option. It should be in tlsfrag:<number> format'')
     | Inr n \<Rightarrow> Inr (TLSFragDialer sd n))"

definition build_turn :: "('k, 'a) build_env \<Rightarrow> ('k, 'a) base \<Rightarrow> url \<Rightarrow> err + 'a turnConfig" where
  "build_turn E b u =
     (if bs_present b then Inl (ErrNew ''turn: base dialer is not supported (turn is a leaf transport)'')
      else parseTURNConfig (en_lib E) u)"

text \<open>\<^verbatim>\<open>NewPacketListener\<close> of \<^verbatim>\<open>x/turn\<close> checks the parts that the parser leaves: the password.\<close>

definition build_turn_pl :: "('k, 'a) build_env \<Rightarrow> ('k, 'a) base \<Rightarrow> url \<Rightarrow> err + ('k, 'a) packet_listener" where
  "build_turn_pl E b u = seq_err (build_turn E b u) (\<lambda>c.
     if tn_user c = [] \<or> tn_pass c = [] then Inl (ErrNew ''turn: username and password are required'') else Inr (TURNListener c))"

definition build_ws :: "('k, 'a) build_env \<Rightarrow> ('k, 'a) base \<Rightarrow> url \<Rightarrow> err + ('k, 'a) stream_dialer" where
  "build_ws E b u = seq_err (bs_sd b) (\<lambda>sd. seq_err (parseWSConfig (en_lib E) u) (\<lambda>(tcp, udp).
     if tcp = [] then Inl (ErrNew ''must specify tcp_path'') else Inr (WebsocketDialer sd tcp)))"

definition build_ws_pd :: "('k, 'a) build_env \<Rightarrow> ('k, 'a) base \<Rightarrow> url \<Rightarrow> err + ('k, 'a) packet_dialer" where
  "build_ws_pd E b u = seq_err (bs_sd b) (\<lambda>sd. seq_err (parseWSConfig (en_lib E) u) (\<lambda>(tcp, udp).
     if udp = [] then Inl (ErrNew ''must specify udp_path'') else Inr (WebsocketPacketDialer sd udp)))"

section \<open>Providers\<close>

text \<open>The registry of \<^verbatim>\<open>RegisterDefaultProviders\<close>, by scheme.\<close>

definition stream_builder :: "('k, 'a) build_env \<Rightarrow> string \<Rightarrow> (('k, 'a) base \<Rightarrow> url \<Rightarrow> err + ('k, 'a) stream_dialer) option" where
  "stream_builder E = map_of
     [(''disorder'', build_disorder), (''dnstt'', build_dnstt E), (''do53'', build_do53 E), (''doh'', build_doh E),
      (''h2connect'', build_connect E H2Proxy), (''h3connect'', \<lambda>_. build_h3connect E), (''httpconnect'', build_connect E HTTPProxy),
      (''override'', build_override E), (''socks5'', build_socks5), (''split'', build_split), (''ss'', build_ss E),
      (''tls'', build_tls E), (''tlsfrag'', build_tlsfrag),
      (''turn'', \<lambda>b u. seq_err (build_turn E b u) (\<lambda>c. Inr (TURNStreamDialer c))), (''ws'', build_ws E)]"

definition packet_builder :: "('k, 'a) build_env \<Rightarrow> string \<Rightarrow> (('k, 'a) base \<Rightarrow> url \<Rightarrow> err + ('k, 'a) packet_dialer) option" where
  "packet_builder E = map_of
     [(''override'', build_override_pd E), (''socks5'', \<lambda>b u. seq_err (build_socks5_pl b u) (\<lambda>l. Inr (ListenerDialer l))),
      (''ss'', \<lambda>b u. seq_err (build_ss_pl E b u) (\<lambda>l. Inr (ListenerDialer l))),
      (''turn'', \<lambda>b u. seq_err (build_turn_pl E b u) (\<lambda>l. Inr (ListenerDialer l))), (''ws'', build_ws_pd E)]"

definition listener_builder :: "('k, 'a) build_env \<Rightarrow> string \<Rightarrow> (('k, 'a) base \<Rightarrow> url \<Rightarrow> err + ('k, 'a) packet_listener) option" where
  "listener_builder E = map_of [(''socks5'', build_socks5_pl), (''ss'', build_ss_pl E), (''turn'', build_turn_pl E)]"

definition run_builder :: "(('k, 'a) base \<Rightarrow> url \<Rightarrow> err + 'o) option \<Rightarrow> ('k, 'a) base \<Rightarrow> url \<Rightarrow> err + 'o" where
  "run_builder m b u =
     (case m of
        None \<Rightarrow> Inl (ErrNew (''config type '' @ u_scheme u @ '' is not registered''))
      | Some f \<Rightarrow> f b u)"

text \<open>
  \<^verbatim>\<open>NewInstance\<close> of the providers of stream and packet dialers, with the default base instances: the
  instances of a configuration and what its builder sees of them as a base.
\<close>

fun base_of :: "('k, 'a) build_env \<Rightarrow> url list \<Rightarrow> ('k, 'a) base" where
  "base_of E [] = \<lparr>bs_present = False, bs_sd = Inr TCPDialer, bs_pd = Inr UDPDialer\<rparr>"
| "base_of E (u # config) =
     (let b = base_of E config in
      \<lparr>bs_present = True, bs_sd = run_builder (stream_builder E (u_scheme u)) b u,
       bs_pd = run_builder (packet_builder E (u_scheme u)) b u\<rparr>)"

definition NewStreamDialer :: "('k, 'a) build_env \<Rightarrow> string \<Rightarrow> err + ('k, 'a) stream_dialer" where
  "NewStreamDialer E text = seq_err (ParseConfig (en_lib E) text) (\<lambda>config. bs_sd (base_of E config))"

definition NewPacketDialer :: "('k, 'a) build_env \<Rightarrow> string \<Rightarrow> err + ('k, 'a) packet_dialer" where
  "NewPacketDialer E text = seq_err (ParseConfig (en_lib E) text) (\<lambda>config. bs_pd (base_of E config))"

definition NewPacketListener :: "('k, 'a) build_env \<Rightarrow> string \<Rightarrow> err + ('k, 'a) packet_listener" where
  "NewPacketListener E text = seq_err (ParseConfig (en_lib E) text) (\<lambda>config.
     case config of
       [] \<Rightarrow> Inr UDPListener
     | u # rest \<Rightarrow> run_builder (listener_builder E (u_scheme u)) (base_of E rest) u)"

end
