(* ===== verification/ConfigSanitize.thy ===== *)
theory ConfigSanitize
  imports ConfigUrl
begin

text \<open>
  The removal of secrets from configurations (\<^verbatim>\<open>SanitizeConfig\<close> of \<^verbatim>\<open>x/configurl/module.go\<close>), and the
  properties of the configuration language: how configurations nest, the round trip of a split list,
  passwords in Shadowsocks URLs, and which secrets can and which cannot get through.
\<close>

section \<open>Sanitizing\<close>

definition sanitizeShadowsocksURL :: "('k, 'a) config_lib \<Rightarrow> url \<Rightarrow> err + string" where
  "sanitizeShadowsocksURL L u = seq_err (parseShadowsocksURL L u) (\<lambda>config.
     let prefix = c_query L (u_rawquery u) ''prefix'' in
     Inr (c_url_string L
       \<lparr>u_scheme = ''ss'', u_opaque = [], u_user = Some (''REDACTED'', None), u_host = sc_serverAddress config, u_path = [],
        u_rawquery = c_encode L (if prefix \<noteq> [] then [(''prefix'', [prefix])] else []), u_fragment = []\<rparr>))"

definition sanitizeSOCKS5URL :: "('k, 'a) config_lib \<Rightarrow> url \<Rightarrow> string" where
  "sanitizeSOCKS5URL L u = c_url_string L (if u_user u \<noteq> None then u\<lparr>u_user := Some (''REDACTED'', None)\<rparr> else u)"

definition sanitizeTURNURL :: "('k, 'a) config_lib \<Rightarrow> url \<Rightarrow> string" where
  "sanitizeTURNURL L u = c_url_string L (if u_user u \<noteq> None then u\<lparr>u_user := Some (''REDACTED'', Some ''REDACTED'')\<rparr> else u)"

text \<open>\<^verbatim>\<open>values.Set\<close> of a key that is there.\<close>

definition set_value :: "string \<Rightarrow> string \<Rightarrow> (string \<times> string list) list \<Rightarrow> (string \<times> string list) list" where
  "set_value k v values = map (\<lambda>(k', vs). if k' = k then (k', [v]) else (k', vs)) values"

definition sanitizeConnectURL :: "('k, 'a) config_lib \<Rightarrow> url \<Rightarrow> err + string" where
  "sanitizeConnectURL L u =
     (let u = (if u_user u \<noteq> None then u\<lparr>u_user := Some (''REDACTED'', None)\<rparr> else u) in
      if u_rawquery u \<noteq> []
      then seq_err (c_parse_query L (u_rawquery u)) (\<lambda>values.
        Inr (c_url_string L
          (if ''auth'' \<in> fst ` set values then u\<lparr>u_rawquery := c_encode L (set_value ''auth'' ''REDACTED'' values)\<rparr> else u)))
      else Inr (c_url_string L u))"

definition connect_schemes :: "string list" where
  "connect_schemes = [''h2connect'', ''h3connect'', ''httpconnect'']"

definition public_schemes :: "string list" where
  "public_schemes = [''override'', ''split'', ''tls'', ''tlsfrag'', ''dnstt'']"

definition sanitize_part :: "('k, 'a) config_lib \<Rightarrow> url \<Rightarrow> err + string" where
  "sanitize_part L u =
     (let scheme = to_lower (u_scheme u) in
      if scheme = ''ss'' then sanitizeShadowsocksURL L u
      else if scheme = ''socks5'' then Inr (sanitizeSOCKS5URL L u)
      else if scheme \<in> set connect_schemes then sanitizeConnectURL L u
      else if scheme \<in> set public_schemes then Inr (c_url_string L u)
      else if scheme = ''turn'' then Inr (sanitizeTURNURL L u)
      else Inr (scheme @ ''://UNKNOWN''))"

fun sanitize_loop :: "('k, 'a) config_lib \<Rightarrow> url list \<Rightarrow> string \<Rightarrow> err + string" where
  "sanitize_loop L [] sanitized = Inr sanitized"
| "sanitize_loop L (u # config) sanitized =
     seq_err (sanitize_part L u) (\<lambda>part.
       sanitize_loop L config (if sanitized = [] then part else part @ ''|'' @ sanitized))"

definition SanitizeConfig :: "('k, 'a) config_lib \<Rightarrow> string \<Rightarrow> err + string" where
  "SanitizeConfig L configStr = seq_err (ParseConfig L configStr) (\<lambda>config. sanitize_loop L config [])"

section \<open>Secrets\<close>

text \<open>
  URLs that differ in secrets only: the user of a proxy, the key of a Shadowsocks server, the value of an
  \<open>auth\<close> parameter, and anything in a type that is not known to the function.
\<close>

definition hide_user :: "url \<Rightarrow> url" where
  "hide_user u = u\<lparr>u_user := map_option (\<lambda>_. ([], None)) (u_user u)\<rparr>"

definition same_public :: "('k, 'a) config_lib \<Rightarrow> url \<Rightarrow> url \<Rightarrow> bool" where
  "same_public L u u' \<longleftrightarrow>
     (let s = to_lower (u_scheme u) in
      to_lower (u_scheme u') = s \<and>
      (if s = ''ss''
       then (\<exists>c c'. parseShadowsocksURL L u = Inr c \<and> parseShadowsocksURL L u' = Inr c' \<and> sc_serverAddress c = sc_serverAddress c'
              \<and> c_query L (u_rawquery u) ''prefix'' = c_query L (u_rawquery u') ''prefix'')
       else if s = ''socks5'' \<or> s = ''turn'' then hide_user u = hide_user u'
       else if s \<in> set connect_schemes
       then hide_user u = hide_user u' \<or>
            (\<exists>q q' vs vs'. hide_user u\<lparr>u_rawquery := q\<rparr> = hide_user u'\<lparr>u_rawquery := q\<rparr>
               \<and> u_rawquery u \<noteq> [] \<and> u_rawquery u' \<noteq> [] \<and> c_parse_query L (u_rawquery u) = Inr vs \<and> c_parse_query L (u_rawquery u') = Inr vs'
               \<and> ''auth'' \<in> fst ` set vs \<and> set_value ''auth'' q' vs = set_value ''auth'' q' vs')
       else s \<in> set public_schemes \<longrightarrow> u = u'))"

lemma set_value_keys: "set_value k v vs = set_value k v vs' \<Longrightarrow> fst ` set vs = fst ` set vs'"
proof -
  assume "set_value k v vs = set_value k v vs'"
  moreover have "map fst (set_value k v xs) = map fst xs" for xs :: "(string \<times> string list) list"
    by (induction xs) (auto simp: set_value_def)
  ultimately have "map fst vs = map fst vs'" by metis
  then show ?thesis by (metis list.set_map)
qed

lemma set_value_set_value [simp]: "set_value k v (set_value k w vs) = set_value k v vs"
  by (induction vs) (auto simp: set_value_def)

lemma hide_user_fields:
  assumes "hide_user u = hide_user u'"
  shows "u_scheme u = u_scheme u'" "u_opaque u = u_opaque u'" "u_host u = u_host u'" "u_path u = u_path u'"
    "u_rawquery u = u_rawquery u'" "u_fragment u = u_fragment u'" "(u_user u = None) = (u_user u' = None)"
proof -
  have f: "f (hide_user u) = f (hide_user u')" for f :: "url \<Rightarrow> string" using assms by simp
  show "u_scheme u = u_scheme u'" "u_opaque u = u_opaque u'" "u_host u = u_host u'" "u_path u = u_path u'"
    "u_rawquery u = u_rawquery u'" "u_fragment u = u_fragment u'"
    using f [of u_scheme] f [of u_opaque] f [of u_host] f [of u_path] f [of u_rawquery] f [of u_fragment]
    by (simp_all add: hide_user_def)
  have "u_user (hide_user u) = u_user (hide_user u')" using assms by simp
  then show "(u_user u = None) = (u_user u' = None)"
    by (cases "u_user u"; cases "u_user u'") (simp_all add: hide_user_def)
qed

lemma hide_user_eq:
  assumes "hide_user u = hide_user u'"
  shows "u\<lparr>u_user := x\<rparr> = u'\<lparr>u_user := x\<rparr>" "u_user u = None \<Longrightarrow> u = u'"
  using hide_user_fields [OF assms] by (auto intro!: url.equality)

lemma sanitizeConnect_public:
  assumes "hide_user u = hide_user u'"
  shows "sanitizeConnectURL L u = sanitizeConnectURL L u'"
proof (cases "u_user u = None")
  case True
  then show ?thesis using hide_user_eq(2) [OF assms] by simp
next
  case False
  then show ?thesis using hide_user_eq(1) [OF assms] hide_user_fields(5,7) [OF assms]
    by (simp add: sanitizeConnectURL_def Let_def)
qed

lemma sanitizeConnect_auth:
  assumes h: "hide_user u\<lparr>u_rawquery := q\<rparr> = hide_user u'\<lparr>u_rawquery := q\<rparr>"
    and q: "u_rawquery u \<noteq> []" "u_rawquery u' \<noteq> []" "c_parse_query L (u_rawquery u) = Inr vs" "c_parse_query L (u_rawquery u') = Inr vs'"
    and v: "''auth'' \<in> fst ` set vs" "set_value ''auth'' q' vs = set_value ''auth'' q' vs'"
  shows "sanitizeConnectURL L u = sanitizeConnectURL L u'"
proof -
  have "set_value ''auth'' ''REDACTED'' vs = set_value ''auth'' ''REDACTED'' vs'"
    using arg_cong [OF v(2), of "set_value ''auth'' ''REDACTED''"] by simp
  moreover have "''auth'' \<in> fst ` set vs'" using v set_value_keys by blast
  moreover have r: "hide_user (u\<lparr>u_rawquery := r\<rparr>) = hide_user (u'\<lparr>u_rawquery := r\<rparr>)" for r
  proof -
    have "hide_user (w\<lparr>u_rawquery := r\<rparr>) = (hide_user w\<lparr>u_rawquery := q\<rparr>)\<lparr>u_rawquery := r\<rparr>" for w
      by (cases w) (simp add: hide_user_def)
    from this [of u] this [of u'] show ?thesis using h by (simp only:)
  qed
  moreover have "u\<lparr>u_user := x, u_rawquery := r\<rparr> = u'\<lparr>u_user := x, u_rawquery := r\<rparr>" for x r
    using hide_user_eq(1) [OF r, of x r] by (cases u; cases u') simp
  moreover have "(u_user u = None) = (u_user u' = None)" using hide_user_fields(7) [OF r [of q]] by simp
  moreover have "u_user u = None \<Longrightarrow> u\<lparr>u_rawquery := r\<rparr> = u'\<lparr>u_rawquery := r\<rparr>" for r
    using hide_user_eq(2) [OF r [of r]] by simp
  ultimately show ?thesis using q v(1) by (cases "u_user u = None") (simp_all add: sanitizeConnectURL_def Let_def)
qed

lemma sanitize_part_public: "same_public L u u' \<Longrightarrow> sanitize_part L u = sanitize_part L u'"
proof -
  assume p: "same_public L u u'"
  define s where "s = to_lower (u_scheme u)"
  have s: "to_lower (u_scheme u) = s" "to_lower (u_scheme u') = s" using p by (auto simp: same_public_def s_def Let_def)
  consider (ss) "s = ''ss''" | (user) "s = ''socks5'' \<or> s = ''turn''" | (connect) "s \<in> set connect_schemes"
    | (other) "s \<noteq> ''ss''" "s \<noteq> ''socks5''" "s \<noteq> ''turn''" "s \<notin> set connect_schemes" by blast
  then show ?thesis
  proof cases
    case ss
    then obtain c c' where "parseShadowsocksURL L u = Inr c" "parseShadowsocksURL L u' = Inr c'"
      "sc_serverAddress c = sc_serverAddress c'" "c_query L (u_rawquery u) ''prefix'' = c_query L (u_rawquery u') ''prefix''"
      using p unfolding same_public_def Let_def s by auto
    then have "sanitizeShadowsocksURL L u = sanitizeShadowsocksURL L u'" by (simp add: sanitizeShadowsocksURL_def)
    then show ?thesis using ss s by (simp add: sanitize_part_def)
  next
    case user
    have p': "if s = ''ss'' then A else if s = ''socks5'' \<or> s = ''turn'' then hide_user u = hide_user u' else B \<Longrightarrow> hide_user u = hide_user u'"
      for A B using user by (elim disjE) simp_all
    have "hide_user u = hide_user u'"
      by (rule p') (rule conjunct2 [OF p [unfolded same_public_def Let_def s]])
    note h = hide_user_eq [OF this] hide_user_fields(7) [OF this]
    have "sanitizeSOCKS5URL L u = sanitizeSOCKS5URL L u' \<and> sanitizeTURNURL L u = sanitizeTURNURL L u'"
    proof (cases "u_user u = None")
      case True
      from h(2) [OF True] show ?thesis by simp
    next
      case False
      then have "u_user u' \<noteq> None" using h(3) by simp
      then show ?thesis using False h(1) by (simp add: sanitizeSOCKS5URL_def sanitizeTURNURL_def)
    qed
    moreover have "''turn'' \<notin> set connect_schemes" "''turn'' \<notin> set public_schemes"
      by (simp_all add: connect_schemes_def public_schemes_def)
    ultimately show ?thesis using user s unfolding sanitize_part_def Let_def s by (elim disjE) simp_all
  next
    case connect
    then have "s \<noteq> ''ss''" "s \<noteq> ''socks5''" "s \<noteq> ''turn''" by (auto simp: connect_schemes_def)
    then have "hide_user u = hide_user u' \<or>
        (\<exists>q q' vs vs'. hide_user u\<lparr>u_rawquery := q\<rparr> = hide_user u'\<lparr>u_rawquery := q\<rparr>
           \<and> u_rawquery u \<noteq> [] \<and> u_rawquery u' \<noteq> [] \<and> c_parse_query L (u_rawquery u) = Inr vs \<and> c_parse_query L (u_rawquery u') = Inr vs'
           \<and> ''auth'' \<in> fst ` set vs \<and> set_value ''auth'' q' vs = set_value ''auth'' q' vs')"
      using p connect unfolding same_public_def Let_def s by simp
    then have "sanitizeConnectURL L u = sanitizeConnectURL L u'"
      by (elim disjE exE conjE) (rule sanitizeConnect_public, assumption, rule sanitizeConnect_auth, assumption+)
    then show ?thesis using connect s \<open>s \<noteq> ''ss''\<close> \<open>s \<noteq> ''socks5''\<close> by (simp add: sanitize_part_def)
  next
    case other
    then have "s \<in> set public_schemes \<longrightarrow> u = u'" using p unfolding same_public_def Let_def s by simp
    then show ?thesis using other unfolding sanitize_part_def Let_def s by (cases "s \<in> set public_schemes") simp_all
  qed
qed


text \<open>
  The parser of CONNECT options takes the name \<open>auth\<close> in any case, the sanitizer only in lower case: a
  token given as \<open>Auth\<close> is sent to the proxy and stays in the sanitized configuration.
\<close>

theorem sanitize_leaks_auth:
  assumes "to_lower (u_scheme u) \<in> set connect_schemes" "u_user u = None"
    and "u_rawquery u \<noteq> []" "c_parse_query L (u_rawquery u) = Inr [(''Auth'', [token])]"
  shows "(\<exists>opts. parseConnectOptions L u = Inr opts \<and> co_headers opts = [token])
     \<and> sanitize_part L u = Inr (c_url_string L u)"
proof -
  have l: "to_lower ''Auth'' = ''auth''" by code_simp
  have "parseConnectOptions L u = Inr \<lparr>co_headers = [token], co_plain = False, co_tls = []\<rparr>"
    using assms(2,4) by (simp add: parseConnectOptions_def parse_options_def l connect_opt_def)
  moreover have "sanitize_part L u = sanitizeConnectURL L u"
    using assms(1) by (auto simp: sanitize_part_def connect_schemes_def)
  moreover have "sanitizeConnectURL L u = Inr (c_url_string L u)"
    using assms(2-4) by (simp add: sanitizeConnectURL_def)
  ultimately show ?thesis by simp
qed

text \<open>
  An error can carry secrets too: for a Shadowsocks URL that does not parse, for example because its cipher is
  not supported, the error has the text of the whole URL.
\<close>

lemma sanitize_error_leaks:
  assumes "to_lower (u_scheme u) = ''ss''" "parseShadowsocksSIP002URL L u = Inl e" "u_host u \<noteq> []" "c_b64url L (u_host u) = Inl e'"
  shows "sanitize_part L u = Inl (ErrWrap (''failed to decode host string ['' @ c_url_string L u @ '']'') e')"
  using assms by (simp add: sanitize_part_def sanitizeShadowsocksURL_def parseShadowsocksURL_def parseShadowsocksLegacyBase64URL_def)

section \<open>Nesting\<close>

text \<open>A part as it is written: no bar, no white space around it, and a colon.\<close>

definition plain_part :: "string \<Rightarrow> bool" where
  "plain_part p \<longleftrightarrow> CHR ''|'' \<notin> set p \<and> CHR '':'' \<in> set p \<and> \<not> is_space (hd p) \<and> \<not> is_space (last p)"

lemma plain_part_ne: "plain_part p \<Longrightarrow> p \<noteq> []"
  by (auto simp: plain_part_def)

lemma join_ends:
  assumes "ps \<noteq> []" "\<forall>p \<in> set ps. p \<noteq> []"
  shows "join_with sep ps \<noteq> []" "hd (join_with sep ps) = hd (hd ps)" "last (join_with sep ps) = last (last ps)"
  using assms by (induction sep ps rule: join_with.induct) auto

lemma parse_parts_plain:
  assumes "list_all2 (\<lambda>p u. plain_part p \<and> c_url_parse L p = Inr u) ps us"
  shows "parse_parts L ps config = Inr (rev us @ config)"
  using assms
proof (induction ps us arbitrary: config rule: list_all2_induct)
  case (Cons p ps u us)
  then have "trim_space p = p" by (intro trim_space_plain) (simp add: plain_part_def)
  moreover have "p \<noteq> []" "CHR '':'' \<in> set p" "c_url_parse L p = Inr u" using Cons plain_part_ne by (simp_all add: plain_part_def)
  ultimately show ?case using Cons.IH [of "u # config"] by (simp add: Let_def)
qed simp

lemma ParseConfig_join:
  assumes "list_all2 (\<lambda>p u. plain_part p \<and> c_url_parse L p = Inr u) ps us"
  shows "ParseConfig L (join_with ''|'' ps) = Inr (rev us)"
proof (cases "ps = []")
  case True
  then show ?thesis using assms by (simp add: ParseConfig_def trim_space_def)
next
  case False
  have p: "plain_part p" if "p \<in> set ps" for p
    using assms that by (auto simp: list_all2_conv_all_nth in_set_conv_nth)
  then have ne: "\<forall>p \<in> set ps. p \<noteq> []" using plain_part_ne by blast
  note j = join_ends [OF False ne, of "''|''"]
  have "trim_space (join_with ''|'' ps) = join_with ''|'' ps"
    using j p False by (intro trim_space_plain) (simp add: plain_part_def)
  moreover have "split_on CHR ''|'' (join_with ''|'' ps) = ps"
    using False p by (intro split_join) (auto simp: plain_part_def)
  moreover have "ps ! 0 \<noteq> []" using False ne by (cases ps) auto
  ultimately show ?thesis using parse_parts_plain [OF assms, of "[]"] by (simp add: ParseConfig_def Let_def)
qed

text \<open>
  In a configuration the last part wraps the ones before it: the dialer of \<^verbatim>\<open>A|B\<close> is what the builder of
  \<^verbatim>\<open>B\<close> makes of the dialers that \<^verbatim>\<open>A\<close> stands for, and the empty configuration is plain TCP and UDP.
\<close>

theorem config_wraps:
  assumes "list_all2 (\<lambda>p u. plain_part p \<and> c_url_parse (en_lib E) p = Inr u) ps us"
    and "plain_part p" "c_url_parse (en_lib E) p = Inr u"
  shows "NewStreamDialer E (join_with ''|'' (ps @ [p])) = run_builder (stream_builder E (u_scheme u))
           \<lparr>bs_present = (ps \<noteq> []), bs_sd = NewStreamDialer E (join_with ''|'' ps), bs_pd = NewPacketDialer E (join_with ''|'' ps)\<rparr> u
     \<and> NewStreamDialer E [] = Inr TCPDialer \<and> NewPacketDialer E [] = Inr UDPDialer"
proof -
  have "list_all2 (\<lambda>p u. plain_part p \<and> c_url_parse (en_lib E) p = Inr u) (ps @ [p]) (us @ [u])"
    using assms by (simp add: list_all2_appendI)
  note c = ParseConfig_join [OF this] ParseConfig_join [OF assms(1)]
  have "bs_present (base_of E (rev us)) = (ps \<noteq> [])"
    using list_all2_lengthD [OF assms(1)] by (cases us rule: rev_cases) (auto simp: Let_def)
  then have "base_of E (rev us)
      = \<lparr>bs_present = (ps \<noteq> []), bs_sd = NewStreamDialer E (join_with ''|'' ps), bs_pd = NewPacketDialer E (join_with ''|'' ps)\<rparr>"
    using c(2) by (simp add: NewStreamDialer_def NewPacketDialer_def)
  then have "NewStreamDialer E (join_with ''|'' (ps @ [p])) = run_builder (stream_builder E (u_scheme u))
      \<lparr>bs_present = (ps \<noteq> []), bs_sd = NewStreamDialer E (join_with ''|'' ps), bs_pd = NewPacketDialer E (join_with ''|'' ps)\<rparr> u"
    using c(1) by (simp add: NewStreamDialer_def [of E "join_with ''|'' (ps @ [p])"] Let_def)
  moreover have "ParseConfig (en_lib E) [] = Inr []" by (simp add: ParseConfig_def trim_space_def)
  ultimately show ?thesis by (simp add: NewStreamDialer_def NewPacketDialer_def)
qed

section \<open>Split lists\<close>

definition split_text :: "repeated_split list \<Rightarrow> string" where
  "split_text xs = join_with '','' (map (\<lambda>x. int_text (Count x) @ ''*'' @ int_text (Bytes x)) xs)"

definition int64 :: "int \<Rightarrow> bool" where
  "int64 n \<longleftrightarrow> - (2 ^ 63) \<le> n \<and> n < 2 ^ 63"

text \<open>
  A split list that is written out and parsed gives the same segments.
\<close>

theorem split_list_roundtrip:
  assumes "xs \<noteq> []" "\<forall>x \<in> set xs. int64 (Count x) \<and> int64 (Bytes x)"
  shows "parse_splits (split_text xs) = Inr xs"
proof -
  let ?t = "\<lambda>x. int_text (Count x) @ ''*'' @ int_text (Bytes x)"
  have one: "parse_split (?t x) = Inr x" if "int64 (Count x)" "int64 (Bytes x)" for x
  proof -
    have sp: "\<not> is_space c" if "c \<in> set (?t x)" for c
      using that int_text_chars by (auto simp: is_space_def)
    have "hd (?t x) \<in> set (?t x)" "last (?t x) \<in> set (?t x)" by (intro hd_in_set last_in_set; simp)+
    then have "trim_space (?t x) = ?t x" using sp by (intro trim_space_plain) blast
    moreover have "CHR ''*'' \<notin> set (int_text n)" for n using int_text_chars by blast
    then have "split_on CHR ''*'' (?t x) = [int_text (Count x), int_text (Bytes x)]"
      by (simp add: split_on_append split_on_plain)
    ultimately show ?thesis using that by (simp add: parse_split_def parse_int_text int64_def)
  qed
  have l: "parse_split_list (map ?t ys) = Inr ys" if "\<forall>x \<in> set ys. int64 (Count x) \<and> int64 (Bytes x)" for ys
    using that one by (induction ys) auto
  have "CHR '','' \<notin> set (?t x)" for x using int_text_chars by auto
  then have "split_on CHR '','' (split_text xs) = map ?t xs"
    unfolding split_text_def using assms(1) by (intro split_join) auto
  then show ?thesis using l [OF assms(2)] by (simp add: parse_splits_def)
qed

section \<open>Overrides\<close>

text \<open>An override replaces the parts it has and keeps the others.\<close>

lemma override_parts:
  assumes "split_host_port address = Inr (host, port)" "CHR ''['' \<notin> set (ho @ host @ po @ port)" "CHR '']'' \<notin> set (ho @ host @ po @ port)"
    and "CHR '':'' \<notin> set (po @ port)"
  shows "\<exists>a. override_address (ho, po) address = Inr a
     \<and> split_host_port a = Inr (if ho \<noteq> [] then ho else host, if po \<noteq> [] then po else port)"
  using assms by (auto simp: override_address_def intro!: split_join_host_port)

section \<open>Passwords\<close>

lemma escape_user_id: "escape_user s = s \<longleftrightarrow> (\<forall>c \<in> set s. user_char c)"
proof
  show "\<forall>c \<in> set s. user_char c \<Longrightarrow> escape_user s = s" by (induction s) (auto simp: escape_user_def)
  have len: "length (escape_user t) \<ge> length t" for t by (induction t) (auto simp: escape_user_def)
  have "escape_user t \<noteq> t" if "c \<in> set t" "\<not> user_char c" for c t
  proof -
    from split_list [OF that(1)] obtain xs ys where t: "t = xs @ c # ys" by blast
    have "length (escape_user t) = length (escape_user xs) + 3 + length (escape_user ys)"
      using that(2) by (simp add: t escape_user_def)
    then have "length (escape_user t) > length t" using len [of xs] len [of ys] by (simp add: t)
    then show ?thesis by auto
  qed
  then show "escape_user s = s \<Longrightarrow> \<forall>c \<in> set s. user_char c" by blast
qed

lemma escape_user_colon: "CHR '':'' \<notin> set (escape_user s)"
proof -
  have h: "hex_digit n \<noteq> CHR '':''" if "n < 16" for n
  proof -
    have "(of_char (hex_digit n) :: nat) = (if n < 10 then 48 + n else 55 + n)" using that by (simp add: hex_digit_def of_char_of)
    then show ?thesis using that by (auto dest: arg_cong [where f = "of_char :: char \<Rightarrow> nat"] split: if_splits)
  qed
  have "\<not> user_char CHR '':''" by code_simp
  moreover have "(of_char c :: nat) div 16 < 16" for c :: char
  proof -
    have "(of_char c :: nat) < 256" by (metis char_of_char char_of_mod_256 mod_less_divisor of_char_of zero_less_numeral)
    then show ?thesis by (simp add: div_less_iff_less_mult)
  qed
  ultimately have "CHR '':'' \<notin> set (if user_char c then [c] else [CHR ''%'', hex_digit (of_char c div 16), hex_digit (of_char c mod 16)])"
    for c using h [of "of_char c div 16"] h [of "of_char c mod 16"] by (cases "c = CHR '':''") auto
  then show ?thesis unfolding escape_user_def by (simp only: set_concat set_map) blast
qed

text \<open>
  The key of a Shadowsocks URL whose cipher and password are not base64 is made of the escaped password,
  which is the password only if it has no character that URLs escape.
\<close>

theorem ss_password_escaped:
  assumes "u_user u = Some (name, Some pass)" "u_host u \<noteq> []" "c_query L (u_rawquery u) ''prefix'' = []"
    and "c_b64url L (user_string L (u_user u)) = Inl e" "c_b64std L (user_string L (u_user u)) = Inl e'"
    and "c_new_key L (escape_user name) (escape_user pass) = Inr key"
  shows "parseShadowsocksURL L u = Inr \<lparr>sc_serverAddress = u_host u, sc_cryptoKey = key, sc_prefix = []\<rparr>
     \<and> (escape_user pass = pass \<longleftrightarrow> (\<forall>c \<in> set pass. user_char c))"
proof -
  have "cut_on CHR '':'' (escape_user name @ '':'' @ escape_user pass) = Some (escape_user name, escape_user pass)"
    using escape_user_colon by (simp add: cut_on_append)
  then have "ss_config L (u_host u) (escape_user name @ '':'' @ escape_user pass) []
      = Inr \<lparr>sc_serverAddress = u_host u, sc_cryptoKey = key, sc_prefix = []\<rparr>"
    using assms(6) by (simp add: ss_config_def)
  then have "parseShadowsocksURL L u = Inr \<lparr>sc_serverAddress = u_host u, sc_cryptoKey = key, sc_prefix = []\<rparr>"
    using assms(1-5) by (simp add: parseShadowsocksURL_def parseShadowsocksSIP002URL_def Let_def user_string_def)
  then show ?thesis using escape_user_id by blast
qed

section \<open>A library\<close>

text \<open>URLs and queries without escapes; nothing is base64, and a key is the text it is made of.\<close>

definition demo_url_parse :: "string \<Rightarrow> err + url" where
  "demo_url_parse s =
     (case cut_on CHR '':'' s of
        None \<Rightarrow> Inl (ErrNew ''missing protocol scheme'')
      | Some (sch, rest) \<Rightarrow>
          if take 2 rest \<noteq> ''//''
          then Inr \<lparr>u_scheme = sch, u_opaque = rest, u_user = None, u_host = [], u_path = [], u_rawquery = [], u_fragment = []\<rparr>
          else (let (a, q) = (case cut_on CHR ''?'' (drop 2 rest) of None \<Rightarrow> (drop 2 rest, []) | Some x \<Rightarrow> x);
                    (ui, h) = (case cut_on CHR ''@'' a of None \<Rightarrow> (None, a) | Some (x, h) \<Rightarrow> (Some x, h)) in
                Inr \<lparr>u_scheme = sch, u_opaque = [],
                     u_user = map_option (\<lambda>x. case cut_on CHR '':'' x of None \<Rightarrow> (x, None) | Some (n, p) \<Rightarrow> (n, Some p)) ui,
                     u_host = h, u_path = [], u_rawquery = q, u_fragment = []\<rparr>))"

definition demo_url_string :: "url \<Rightarrow> string" where
  "demo_url_string u = u_scheme u @ ''://''
     @ (case u_user u of None \<Rightarrow> [] | Some (n, p) \<Rightarrow> n @ (case p of None \<Rightarrow> [] | Some p \<Rightarrow> '':'' @ p) @ ''@'')
     @ u_host u @ (if u_rawquery u = [] then [] else ''?'' @ u_rawquery u)"

definition demo_parse_query :: "string \<Rightarrow> (string \<times> string list) list" where
  "demo_parse_query q = (if q = [] then []
     else map (\<lambda>p. case cut_on CHR ''='' p of None \<Rightarrow> (p, [[]]) | Some (k, v) \<Rightarrow> (k, [v])) (split_on CHR ''&'' q))"

definition demo_config_lib :: "(string, unit) config_lib" where
  "demo_config_lib =
     \<lparr>c_url_parse = demo_url_parse, c_url_string = demo_url_string, c_nil_user = [], c_parse_query = Inr \<circ> demo_parse_query,
      c_query = (\<lambda>q k. case map_of (demo_parse_query q) k of Some [v] \<Rightarrow> v | _ \<Rightarrow> []),
      c_encode = (\<lambda>vs. join_with ''&'' (map (\<lambda>(k, v). k @ ''='' @ hd v) vs)),
      c_b64url = (\<lambda>_. Inl EOF), c_b64std = (\<lambda>_. Inl EOF), c_b64encode = (\<lambda>s. s), c_runes = map of_char,
      c_new_key = (\<lambda>c s. Inr (c @ '' '' @ s)), c_decode_key = (\<lambda>s. Inr (str_bytes s)), c_resolve_udp = (\<lambda>_. Inr ())\<rparr>"

definition demo_env :: "(string, unit) build_env" where
  "demo_env = \<lparr>en_lib = demo_config_lib, en_resolver = None, en_listen = None, en_name = (\<lambda>_. None)\<rparr>"

definition demo_socks :: "string \<Rightarrow> string \<Rightarrow> url" where
  "demo_socks n p = \<lparr>u_scheme = ''socks5'', u_opaque = [], u_user = Some (n, Some p), u_host = ''h:1'', u_path = [],
     u_rawquery = [], u_fragment = []\<rparr>"


lemma sanitize_leaks_auth_witness:
  "SanitizeConfig demo_config_lib ''httpconnect://h:1?Auth=token'' = Inr ''httpconnect://h:1?Auth=token''
   \<and> (\<exists>u opts. ParseConfig demo_config_lib ''httpconnect://h:1?Auth=token'' = Inr [u]
        \<and> parseConnectOptions demo_config_lib u = Inr opts \<and> co_headers opts = [''token''])"
proof -
  define u where "u = \<lparr>u_scheme = ''httpconnect'', u_opaque = [], u_user = None, u_host = ''h:1'', u_path = [],
    u_rawquery = ''Auth=token'', u_fragment = []\<rparr>"
  have p: "ParseConfig demo_config_lib ''httpconnect://h:1?Auth=token'' = Inr [u]" unfolding u_def by code_simp
  have "to_lower ''httpconnect'' = ''httpconnect''" by code_simp
  then have s: "to_lower (u_scheme u) \<in> set connect_schemes" by (simp add: u_def connect_schemes_def)
  have q: "c_parse_query demo_config_lib (u_rawquery u) = Inr [(''Auth'', [''token''])]" unfolding u_def by code_simp
  have t: "c_url_string demo_config_lib u = ''httpconnect://h:1?Auth=token''" unfolding u_def by code_simp
  note l = sanitize_leaks_auth [OF s _ _ q]
  have "u_user u = None" "u_rawquery u \<noteq> []" by (simp_all add: u_def)
  from l [OF this] show ?thesis using p t by (auto simp: SanitizeConfig_def)
qed

lemma config_wraps_witness:
  "NewStreamDialer demo_env ''split:2|tlsfrag:1''
    = Inr (TLSFragDialer (SplitDialer TCPDialer (RepeatedIter [\<lparr>Count = 1, Bytes = 2\<rparr>])) 1)"
proof -
  let ?u = "\<lambda>s p. \<lparr>u_scheme = s, u_opaque = p, u_user = None, u_host = [], u_path = [], u_rawquery = [], u_fragment = []\<rparr>"
  have p: "plain_part ''split:2''" "plain_part ''tlsfrag:1''" by code_simp+
  have q: "demo_url_parse ''split:2'' = Inr (?u ''split'' ''2'')" "demo_url_parse ''tlsfrag:1'' = Inr (?u ''tlsfrag'' ''1'')"
    by code_simp+
  have l: "c_url_parse (en_lib demo_env) = demo_url_parse" by (simp add: demo_env_def demo_config_lib_def)
  have c: "list_all2 (\<lambda>p u. plain_part p \<and> c_url_parse (en_lib demo_env) p = Inr u) [''split:2''] [?u ''split'' ''2'']"
    "plain_part ''tlsfrag:1''" "c_url_parse (en_lib demo_env) ''tlsfrag:1'' = Inr (?u ''tlsfrag'' ''1'')"
    using p q l by simp_all
  have j: "join_with ''|'' [''split:2''] = ''split:2''" by simp
  have t: "int_text 2 = ''2''" "int_text 1 = ''1''" by code_simp+
  have i: "parse_int ''2'' = Inr 2" "parse_int ''1'' = Inr 1"
    using parse_int_text [of 2] parse_int_text [of 1] t by simp_all
  have "trim_space ''2'' = ''2''" by code_simp
  then have v: "parse_splits ''2'' = Inr [\<lparr>Count = 1, Bytes = 2\<rparr>]"
    using i by (simp add: parse_splits_def parse_split_def)
  have "c_url_parse (en_lib demo_env) ''split:2'' = Inr (?u ''split'' ''2'')" using q l by simp
  from config_wraps [OF _ p(1) this, of "[]" "[]"]
  have s: "NewStreamDialer demo_env ''split:2'' = Inr (SplitDialer TCPDialer (RepeatedIter [\<lparr>Count = 1, Bytes = 2\<rparr>]))"
    by (simp add: run_builder_def stream_builder_def build_split_def v new_repeated_split_iterator_def)
  show ?thesis using config_wraps [OF c] unfolding j s
    by (simp add: run_builder_def stream_builder_def build_tlsfrag_def i)
qed

lemma split_list_roundtrip_witness:
  "parse_splits (split_text [\<lparr>Count = 2, Bytes = 5\<rparr>, \<lparr>Count = 1, Bytes = - 3\<rparr>]) = Inr [\<lparr>Count = 2, Bytes = 5\<rparr>, \<lparr>Count = 1, Bytes = - 3\<rparr>]"
  by (rule split_list_roundtrip) (simp_all add: int64_def)

lemma ss_password_escaped_witness:
  "\<exists>u. c_url_parse demo_config_lib ''ss://aes:p+/q@h:1'' = Inr u
     \<and> parseShadowsocksURL demo_config_lib u = Inr \<lparr>sc_serverAddress = ''h:1'', sc_cryptoKey = ''aes p+%2Fq'', sc_prefix = []\<rparr>"
proof -
  let ?u = "\<lparr>u_scheme = ''ss'', u_opaque = [], u_user = Some (''aes'', Some ''p+/q''), u_host = ''h:1'', u_path = [],
    u_rawquery = [], u_fragment = []\<rparr>"
  have k: "c_new_key demo_config_lib (escape_user ''aes'') (escape_user ''p+/q'') = Inr ''aes p+%2Fq''" by code_simp
  have "c_url_parse demo_config_lib ''ss://aes:p+/q@h:1'' = Inr ?u" by code_simp
  moreover have "parseShadowsocksURL demo_config_lib ?u = Inr \<lparr>sc_serverAddress = ''h:1'', sc_cryptoKey = ''aes p+%2Fq'', sc_prefix = []\<rparr>"
    using ss_password_escaped [of ?u "''aes''" "''p+/q''" demo_config_lib EOF EOF, OF _ _ _ _ _ k]
    by (simp add: demo_config_lib_def demo_parse_query_def)
  ultimately show ?thesis by blast
qed

end
