(* ===== verification/GoBooks.thy ===== *)
theory GoBooks
  imports Main "HOL-Library.Multiset"
begin

text \<open>
  Books over the calls of a machine: what a list of calls holds together, as a multiset, and how it changes when one call
  moves on.
\<close>

lemma concat_map_update:
  assumes "i < length fs"
  shows "mset (concat (map h (fs[i := f]))) + mset (h (fs ! i)) = mset (concat (map h fs)) + mset (h f)"
proof -
  have "mset (concat (map h fs)) = mset (concat (map h (take i fs))) + mset (h (fs ! i)) + mset (concat (map h (drop (Suc i) fs)))"
    by (subst id_take_nth_drop [OF assms]) simp
  then show ?thesis using assms by (simp add: upd_conv_take_nth_drop)
qed

lemma concat_map_move:
  assumes "i < length fs" "h f = h (fs ! i)"
  shows "mset (concat (map h (fs[i := f]))) = mset (concat (map h fs))"
  using concat_map_update [OF assms(1), of h f] assms(2) by simp

end
