(* ===== verification/LwipDevice.thy ===== *)
theory LwipDevice
  imports PacketRelay GoBooks
begin

text \<open>
  The device of \<^verbatim>\<open>network/lwip2transport/device.go\<close>: the IP stack hands over each outgoing packet on one
  channel and gets the number of bytes taken back on another. The machine below has the goroutines that
  forward packets, the one goroutine that reads, and the close.
\<close>

section \<open>The machine\<close>

definition device_mtu :: nat where "device_mtu = 1500"

text \<open>A call of \<^verbatim>\<open>forwardOutgoingIPPacket\<close>: offering the packet, waiting for the count, or returned.\<close>

datatype fwd = FwdOffer bytes | FwdWait bytes | FwdRet bytes nat "err option"

text \<open>
  The reader: no call, \<^verbatim>\<open>Read\<close> with a buffer of \<open>n\<close> bytes or \<^verbatim>\<open>WriteTo\<close> with its total in the first
  \<^verbatim>\<open>select\<close>, or with the count to send back.
\<close>

datatype rdr =
    RdIdle
  | RdRead nat
  | RdReadReply nat
  | RdWriteTo nat
  | RdWriteToReply nat nat "err option"

text \<open>For the properties: the results of the calls of the reader, and the packets it was handed.\<close>

datatype rd_result = ReadResult nat "err option" | WriteToResult nat "err option"

record device =
  dv_done :: bool
  dv_fwds :: "fwd list"
  dv_reader :: rdr
  dv_results :: "rd_result list"
  dv_taken :: "bytes list"

definition new_device :: device where
  "new_device = \<lparr>dv_done = False, dv_fwds = [], dv_reader = RdIdle, dv_results = [], dv_taken = []\<rparr>"

datatype dv_event =
    DvForward bytes
  | DvRead nat
  | DvWriteTo
  | DvHandoff nat
  | DvHandoffTo nat nat "err option"
  | DvReply nat
  | DvFwdClosed nat
  | DvReaderClosed
  | DvClose

definition dv_return :: "rd_result \<Rightarrow> device \<Rightarrow> device" where
  "dv_return r d = d\<lparr>dv_reader := RdIdle, dv_results := dv_results d @ [r]\<rparr>"

text \<open>
  \<open>DvHandoffTo\<close> comes with what \<^verbatim>\<open>w.Write\<close> of the packet returned. \<open>DvFwdClosed\<close> and \<open>DvReaderClosed\<close> are the
  cases of the closed device; the sending of the count in \<^verbatim>\<open>Read\<close> has no such case.
\<close>

fun dv_step :: "device \<Rightarrow> dv_event \<Rightarrow> device option" where
  "dv_step d (DvForward b) =
     Some (d\<lparr>dv_fwds := dv_fwds d @ [if b = [] then FwdRet b 0 None else FwdOffer b]\<rparr>)"
| "dv_step d (DvRead n) = (if dv_reader d = RdIdle then Some (d\<lparr>dv_reader := RdRead n\<rparr>) else None)"
| "dv_step d DvWriteTo = (if dv_reader d = RdIdle then Some (d\<lparr>dv_reader := RdWriteTo 0\<rparr>) else None)"
| "dv_step d (DvHandoff i) =
     (if i < length (dv_fwds d)
      then (case (dv_fwds d ! i, dv_reader d) of
              (FwdOffer b, RdRead n) \<Rightarrow>
                Some (d\<lparr>dv_fwds := (dv_fwds d)[i := FwdWait b], dv_reader := RdReadReply (min n (length b)),
                        dv_taken := dv_taken d @ [b]\<rparr>)
            | _ \<Rightarrow> None)
      else None)"
| "dv_step d (DvHandoffTo i n e) =
     (if i < length (dv_fwds d)
      then (case (dv_fwds d ! i, dv_reader d) of
              (FwdOffer b, RdWriteTo nw) \<Rightarrow>
                if n \<le> length b \<and> (e = None \<longrightarrow> n = length b)
                then Some (d\<lparr>dv_fwds := (dv_fwds d)[i := FwdWait b], dv_reader := RdWriteToReply n (nw + n) e,
                             dv_taken := dv_taken d @ [b]\<rparr>)
                else None
            | _ \<Rightarrow> None)
      else None)"
| "dv_step d (DvReply i) =
     (if i < length (dv_fwds d)
      then (case (dv_fwds d ! i, dv_reader d) of
              (FwdWait b, RdReadReply n) \<Rightarrow>
                Some (dv_return (ReadResult n None) (d\<lparr>dv_fwds := (dv_fwds d)[i := FwdRet b n None]\<rparr>))
            | (FwdWait b, RdWriteToReply n nw e) \<Rightarrow>
                (let d' = d\<lparr>dv_fwds := (dv_fwds d)[i := FwdRet b n None]\<rparr> in
                 case e of None \<Rightarrow> Some (d'\<lparr>dv_reader := RdWriteTo nw\<rparr>)
                         | Some x \<Rightarrow> Some (dv_return (WriteToResult nw (Some x)) d'))
            | _ \<Rightarrow> None)
      else None)"
| "dv_step d (DvFwdClosed i) =
     (if dv_done d \<and> i < length (dv_fwds d)
      then (case dv_fwds d ! i of
              FwdOffer b \<Rightarrow> Some (d\<lparr>dv_fwds := (dv_fwds d)[i := FwdRet b 0 (Some ErrDeviceClosed)]\<rparr>)
            | FwdWait b \<Rightarrow> Some (d\<lparr>dv_fwds := (dv_fwds d)[i := FwdRet b 0 (Some ErrDeviceClosed)]\<rparr>)
            | FwdRet _ _ _ \<Rightarrow> None)
      else None)"
| "dv_step d DvReaderClosed =
     (if dv_done d
      then (case dv_reader d of
              RdRead _ \<Rightarrow> Some (dv_return (ReadResult 0 (Some EOF)) d)
            | RdWriteTo nw \<Rightarrow> Some (dv_return (WriteToResult nw None) d)
            | RdWriteToReply _ nw _ \<Rightarrow> Some (dv_return (WriteToResult nw None) d)
            | _ \<Rightarrow> None)
      else None)"
| "dv_step d DvClose = Some (d\<lparr>dv_done := True\<rparr>)"

fun dv_run :: "device \<Rightarrow> dv_event list \<Rightarrow> device option" where
  "dv_run d [] = Some d"
| "dv_run d (e # es) = (case dv_step d e of None \<Rightarrow> None | Some d' \<Rightarrow> dv_run d' es)"

section \<open>One count for one packet\<close>

fun fwd_waits :: "fwd \<Rightarrow> bool" where
  "fwd_waits (FwdWait _) = True"
| "fwd_waits _ = False"

fun rd_reply :: "rdr \<Rightarrow> nat option" where
  "rd_reply (RdReadReply n) = Some n"
| "rd_reply (RdWriteToReply n _ _) = Some n"
| "rd_reply _ = None"

text \<open>The packet of a call that was handed to the reader.\<close>

fun fwd_handed :: "fwd \<Rightarrow> bytes list" where
  "fwd_handed (FwdOffer b) = []"
| "fwd_handed (FwdWait b) = [b]"
| "fwd_handed (FwdRet b n e) = (if b = [] then [] else [b])"

text \<open>What holds of a call while the device is open; \<open>r\<close> is the count the reader has to give.\<close>

fun fwd_ok :: "nat option \<Rightarrow> fwd \<Rightarrow> bool" where
  "fwd_ok r (FwdOffer b) = (b \<noteq> [])"
| "fwd_ok r (FwdWait b) = (b \<noteq> [] \<and> (case r of None \<Rightarrow> False | Some n \<Rightarrow> n \<le> length b))"
| "fwd_ok r (FwdRet b n e) = (e = None \<and> n \<le> length b)"

definition dv_inv :: "device \<Rightarrow> bool" where
  "dv_inv d \<longleftrightarrow>
     dv_done d \<or>
       (length (filter fwd_waits (dv_fwds d)) = (if rd_reply (dv_reader d) = None then 0 else 1)
        \<and> (\<forall>f \<in> set (dv_fwds d). fwd_ok (rd_reply (dv_reader d)) f)
        \<and> mset (concat (map fwd_handed (dv_fwds d))) = mset (dv_taken d))"

text \<open>A call that did not wait for a count does not depend on the one the reader has.\<close>

lemma fwd_ok_other: "fwd_ok r f \<Longrightarrow> \<not> fwd_waits f \<Longrightarrow> fwd_ok r' f"
  by (cases f) auto

lemma no_waits: "length (filter fwd_waits fs) = 0 \<Longrightarrow> f \<in> set fs \<Longrightarrow> \<not> fwd_waits f"
  by (auto simp: filter_empty_conv)

lemma one_wait:
  assumes "length (filter fwd_waits fs) = 1" "i < length fs" "fwd_waits (fs ! i)" "f \<in> set (fs[i := x])" "\<not> fwd_waits x"
  shows "\<not> fwd_waits f"
proof -
  have "length (filter fwd_waits (fs[i := x])) = 0"
    using length_filter_update [OF assms(2), of fwd_waits x] assms(1,3,5) by simp
  then show ?thesis using no_waits assms(4) by blast
qed

lemma dv_handoff_inv:
  assumes "dv_inv d" "i < length (dv_fwds d)" "dv_fwds d ! i = FwdOffer b" "rd_reply (dv_reader d) = None"
    and "rd_reply r = Some n" "n \<le> length b"
  shows "dv_inv (d\<lparr>dv_fwds := (dv_fwds d)[i := FwdWait b], dv_reader := r, dv_taken := dv_taken d @ [b]\<rparr>)"
proof (cases "dv_done d")
  case True
  then show ?thesis by (simp add: dv_inv_def)
next
  case False
  note inv = assms(1) [unfolded dv_inv_def]
  have "FwdOffer b \<in> set (dv_fwds d)" using assms(2,3) by (metis nth_mem)
  then have "fwd_ok (rd_reply (dv_reader d)) (FwdOffer b)" using inv False by blast
  then have b: "b \<noteq> []" by simp
  have w: "length (filter fwd_waits ((dv_fwds d)[i := FwdWait b])) = 1"
    using length_filter_update [OF assms(2), of fwd_waits "FwdWait b"] inv False assms(3,4) by simp
  have "fwd_ok (Some n) f" if "f \<in> set ((dv_fwds d)[i := FwdWait b])" for f
  proof (cases "f = FwdWait b")
    case False
    then have f: "f \<in> set (dv_fwds d)" using that set_update_subset_insert [of "dv_fwds d" i "FwdWait b"] by blast
    have "length (filter fwd_waits (dv_fwds d)) = 0" using inv \<open>\<not> dv_done d\<close> assms(4) by simp
    from no_waits [OF this f] fwd_ok_other show ?thesis using inv \<open>\<not> dv_done d\<close> f by blast
  qed (use b assms(6) in simp)
  moreover have "mset (concat (map fwd_handed ((dv_fwds d)[i := FwdWait b]))) = mset (dv_taken d @ [b])"
    using concat_map_update [OF assms(2), of fwd_handed "FwdWait b"] inv False assms(3) by simp
  ultimately show ?thesis using w assms(5) by (simp add: dv_inv_def)
qed

lemma dv_reply_inv:
  assumes "dv_inv d" "i < length (dv_fwds d)" "dv_fwds d ! i = FwdWait b" "rd_reply (dv_reader d) = Some n"
    and "rd_reply r = None"
  shows "dv_inv (d\<lparr>dv_fwds := (dv_fwds d)[i := FwdRet b n None], dv_reader := r, dv_results := rs\<rparr>)"
proof (cases "dv_done d")
  case True
  then show ?thesis by (simp add: dv_inv_def)
next
  case False
  note inv = assms(1) [unfolded dv_inv_def]
  have in_b: "FwdWait b \<in> set (dv_fwds d)" using assms(2,3) by (metis nth_mem)
  then have "fwd_ok (rd_reply (dv_reader d)) (FwdWait b)" using inv False by blast
  then have b: "b \<noteq> []" "n \<le> length b" using assms(4) by simp_all
  have l: "length (filter fwd_waits (dv_fwds d)) = 1" using inv False assms(4) by simp
  have w: "length (filter fwd_waits ((dv_fwds d)[i := FwdRet b n None])) = 0"
    using length_filter_update [OF assms(2), of fwd_waits "FwdRet b n None"] l assms(3) by simp
  have "fwd_ok None f" if "f \<in> set ((dv_fwds d)[i := FwdRet b n None])" for f
  proof (cases "f = FwdRet b n None")
    case False
    then have "f \<in> set (dv_fwds d)" using that set_update_subset_insert [of "dv_fwds d" i "FwdRet b n None"] by blast
    moreover have "\<not> fwd_waits f" using no_waits [OF w that] .
    ultimately show ?thesis using inv \<open>\<not> dv_done d\<close> fwd_ok_other by blast
  qed (use b in simp)
  moreover have "mset (concat (map fwd_handed ((dv_fwds d)[i := FwdRet b n None]))) = mset (dv_taken d)"
    using concat_map_update [OF assms(2), of fwd_handed "FwdRet b n None"] inv False assms(3) b by simp
  ultimately show ?thesis using w assms(5) by (simp add: dv_inv_def)
qed

lemma dv_inv_step: "dv_inv d \<Longrightarrow> dv_step d e = Some d' \<Longrightarrow> dv_inv d'"
proof (cases e)
  case (DvForward b)
  assume "dv_inv d" "dv_step d e = Some d'"
  then show ?thesis using DvForward by (auto simp: dv_inv_def)
next
  case (DvHandoff i)
  assume a: "dv_inv d" "dv_step d e = Some d'"
  then obtain b n where f: "i < length (dv_fwds d)" "dv_fwds d ! i = FwdOffer b" "dv_reader d = RdRead n"
    using DvHandoff by (auto split: if_splits fwd.splits rdr.splits)
  then show ?thesis using a DvHandoff dv_handoff_inv [OF a(1) f(1,2), of "RdReadReply (min n (length b))" "min n (length b)"] by simp
next
  case (DvHandoffTo i n x)
  assume a: "dv_inv d" "dv_step d e = Some d'"
  then obtain b nw where f: "i < length (dv_fwds d)" "dv_fwds d ! i = FwdOffer b" "dv_reader d = RdWriteTo nw" "n \<le> length b"
    using DvHandoffTo by (auto split: if_splits fwd.splits rdr.splits)
  then show ?thesis using a DvHandoffTo dv_handoff_inv [OF a(1) f(1,2), of "RdWriteToReply n (nw + n) x" n]
    by (auto split: if_splits)
next
  case (DvReply i)
  assume a: "dv_inv d" "dv_step d e = Some d'"
  then obtain b where f: "i < length (dv_fwds d)" "dv_fwds d ! i = FwdWait b"
    using DvReply by (auto split: if_splits fwd.splits)
  show ?thesis
  proof (cases "dv_reader d")
    case (RdReadReply n)
    then show ?thesis using a DvReply f dv_reply_inv [OF a(1) f, of n RdIdle "dv_results d @ [ReadResult n None]"]
      by (simp add: dv_return_def)
  next
    case (RdWriteToReply n nw x)
    then show ?thesis using a DvReply f dv_reply_inv [OF a(1) f, of n "RdWriteTo nw" "dv_results d"]
        dv_reply_inv [OF a(1) f, of n RdIdle "dv_results d @ [WriteToResult nw x]"]
      by (cases x) (auto simp: dv_return_def Let_def)
  qed (use a DvReply f in auto)
next
  case (DvRead n)
  assume "dv_inv d" "dv_step d e = Some d'"
  then show ?thesis using DvRead by (auto simp: dv_inv_def split: if_splits)
next
  case DvWriteTo
  assume "dv_inv d" "dv_step d e = Some d'"
  then show ?thesis using DvWriteTo by (auto simp: dv_inv_def split: if_splits)
next
  case (DvFwdClosed i)
  assume "dv_inv d" "dv_step d e = Some d'"
  then show ?thesis using DvFwdClosed by (auto simp: dv_inv_def split: if_splits fwd.splits)
next
  case DvReaderClosed
  assume "dv_inv d" "dv_step d e = Some d'"
  then show ?thesis using DvReaderClosed by (auto simp: dv_inv_def dv_return_def split: if_splits rdr.splits)
next
  case DvClose
  assume "dv_inv d" "dv_step d e = Some d'"
  then show ?thesis using DvClose by (auto simp: dv_inv_def)
qed

lemma dv_inv_run: "dv_inv d \<Longrightarrow> dv_run d es = Some d' \<Longrightarrow> dv_inv d'"
  by (induction es arbitrary: d) (auto split: option.splits intro: dv_inv_step)

text \<open>
  C29: as long as the device is open, every packet that was handed to the reader belongs to a call that waits for
  its count or has returned with it, none is handed over twice, at most one call waits, and the
  count is not more than the packet has.
\<close>

theorem device_hands_over_once:
  assumes "dv_run new_device es = Some d" "\<not> dv_done d"
  shows "mset (concat (map fwd_handed (dv_fwds d))) = mset (dv_taken d)
     \<and> length (filter fwd_waits (dv_fwds d)) = (if rd_reply (dv_reader d) = None then 0 else 1)
     \<and> (\<forall>b n e. FwdRet b n e \<in> set (dv_fwds d) \<longrightarrow> e = None \<and> n \<le> length b)"
proof -
  have "dv_inv new_device" by (simp add: dv_inv_def new_device_def)
  from dv_inv_run [OF this assms(1)] show ?thesis using assms(2) unfolding dv_inv_def by fastforce
qed

section \<open>Closing\<close>

text \<open>
  \<^verbatim>\<open>Close\<close> releases every call, with one exception: a \<^verbatim>\<open>Read\<close> that has taken a packet when the device is
  closed, and whose packet's sender notices the close before it gets its count, never returns.
\<close>

theorem device_read_deadlock:
  "(\<forall>d. dv_done d \<longrightarrow>
      (\<forall>i < length (dv_fwds d). (\<exists>b n e. dv_fwds d ! i = FwdRet b n e) \<or> (\<exists>d'. dv_step d (DvFwdClosed i) = Some d'))
      \<and> (dv_reader d = RdIdle \<or> (\<exists>n. dv_reader d = RdReadReply n) \<or> (\<exists>d'. dv_step d DvReaderClosed = Some d')))
   \<and> (\<exists>es d. dv_run new_device es = Some d \<and> dv_done d
        \<and> (\<forall>es' d'. dv_run d es' = Some d' \<longrightarrow> dv_reader d' = RdReadReply n \<and> dv_results d' = []))"
proof (intro conjI allI impI)
  fix d :: device and i assume d: "dv_done d"
  show "dv_reader d = RdIdle \<or> (\<exists>n. dv_reader d = RdReadReply n) \<or> (\<exists>d'. dv_step d DvReaderClosed = Some d')"
    using d by (cases "dv_reader d") auto
  assume "i < length (dv_fwds d)"
  then show "(\<exists>b n e. dv_fwds d ! i = FwdRet b n e) \<or> (\<exists>d'. dv_step d (DvFwdClosed i) = Some d')"
    using d by (cases "dv_fwds d ! i") auto
next
  let ?b = "replicate (Suc n) 0 :: bytes"
  let ?d = "\<lparr>dv_done = True, dv_fwds = [FwdRet ?b 0 (Some ErrDeviceClosed)], dv_reader = RdReadReply n,
    dv_results = [], dv_taken = [?b]\<rparr>"
  have "dv_run new_device [DvForward ?b, DvRead n, DvHandoff 0, DvClose, DvFwdClosed 0] = Some ?d"
    by (simp add: new_device_def)
  moreover have "dv_reader d' = RdReadReply n \<and> dv_results d' = []"
    if "dv_run d es' = Some d'" "dv_reader d = RdReadReply n" "dv_results d = []" "\<forall>f \<in> set (dv_fwds d). \<not> fwd_waits f"
    for es' d d'
    using that
  proof (induction es' arbitrary: d)
    case (Cons e es')
    then obtain q where q: "dv_step d e = Some q" "dv_run q es' = Some d'" by (auto split: option.splits)
    have "dv_reader q = RdReadReply n \<and> dv_results q = [] \<and> (\<forall>f \<in> set (dv_fwds q). \<not> fwd_waits f)"
    proof (cases e)
      case (DvReply i)
      have "i < length (dv_fwds d) \<Longrightarrow> \<not> fwd_waits (dv_fwds d ! i)" using Cons.prems(4) by simp
      then show ?thesis using q(1) DvReply by (auto split: if_splits fwd.splits)
    next
      case (DvFwdClosed i)
      then obtain b where "q = d\<lparr>dv_fwds := (dv_fwds d)[i := FwdRet b 0 (Some ErrDeviceClosed)]\<rparr>"
        using q(1) by (auto split: if_splits fwd.splits)
      then show ?thesis using Cons.prems set_update_subset_insert [of "dv_fwds d" i "FwdRet b 0 (Some ErrDeviceClosed)"] by auto
    qed (use q(1) Cons.prems in \<open>auto split: if_splits fwd.splits\<close>)
    then show ?case using Cons.IH q(2) by blast
  qed simp
  ultimately show "\<exists>es d. dv_run new_device es = Some d \<and> dv_done d
      \<and> (\<forall>es' d'. dv_run d es' = Some d' \<longrightarrow> dv_reader d' = RdReadReply n \<and> dv_results d' = [])"
    by (intro exI [of _ "[DvForward ?b, DvRead n, DvHandoff 0, DvClose, DvFwdClosed 0]"] exI [of _ ?d]) auto
qed

lemma device_read_deadlock_witness:
  "\<exists>es d. dv_run new_device es = Some d \<and> dv_done d \<and> dv_reader d = RdReadReply 1500 \<and> dv_step d DvReaderClosed = None"
proof -
  obtain es d where d: "dv_run new_device es = Some d" "dv_done d"
    "\<forall>es' d'. dv_run d es' = Some d' \<longrightarrow> dv_reader d' = RdReadReply 1500 \<and> dv_results d' = []"
    using device_read_deadlock [of 1500] by blast
  have "dv_reader d = RdReadReply 1500" using d(3) [rule_format, of "[]" d] by simp
  then show ?thesis using d(1,2) by (intro exI [of _ es] exI [of _ d]) simp
qed

lemma device_hands_over_once_witness:
  "\<exists>d. dv_run new_device [DvForward [1, 2, 3], DvForward [4], DvRead 2, DvHandoff 0, DvReply 0, DvWriteTo, DvHandoffTo 1 1 None] = Some d
     \<and> dv_results d = [ReadResult 2 None] \<and> dv_taken d = [[1, 2, 3], [4]]
     \<and> length (filter fwd_waits (dv_fwds d)) = 1"
proof -
  obtain d where d: "dv_run new_device [DvForward [1, 2, 3], DvForward [4], DvRead 2, DvHandoff 0, DvReply 0, DvWriteTo, DvHandoffTo 1 1 None] = Some d"
    "\<not> dv_done d" "dv_results d = [ReadResult 2 None]" "dv_taken d = [[1, 2, 3], [4]]" "rd_reply (dv_reader d) = Some 1"
    by (simp add: new_device_def dv_return_def)
  then show ?thesis using device_hands_over_once [OF d(1,2)] by (intro exI [of _ d]) simp
qed

end
