(* ===== verification/LwipUdp.thy ===== *)
theory LwipUdp
  imports GoPrelude
begin

text \<open>
  The UDP handler over a packet relay, \<^verbatim>\<open>network/lwip2transport/udp_relay.go\<close>. The critical sections and goroutines
  are the steps of a machine: \<^verbatim>\<open>Connect\<close>, \<^verbatim>\<open>ReceiveTo\<close>, the receive loop of each session and \<^verbatim>\<open>closeSession\<close>.
\<close>

section \<open>Sessions over a packet relay\<close>

text \<open>
  The receive loop of a session: in \<^verbatim>\<open>ReceivePackets\<close>, before the removal from the map, before
  \<^verbatim>\<open>sender.Close\<close>, before \<^verbatim>\<open>tunConn.Close\<close>, before \<^verbatim>\<open>close(done)\<close>, and ended.
\<close>

datatype loop_phase = LpReceiving | LpRemove | LpCloseSender | LpCloseConn | LpDone | LpEnded

record session =
  se_conn :: nat
  se_loop :: loop_phase
  se_sender_closed :: bool
  se_done :: bool

text \<open>A call of \<^verbatim>\<open>closeSession\<close>: about to close the sender, waiting for the loop, returned.\<close>

datatype closer = ClClosing nat | ClWaiting nat | ClReturned nat "nat option"

text \<open>
  \<open>rh_sessions\<close> maps connections of the IP stack to sessions, which are numbered; for the properties the
  connections that were connected or closed, and the packets that were sent, with the session and whether it was still
  in the map.
\<close>

record relay_handler =
  rh_map :: "nat \<Rightarrow> nat option"
  rh_sessions :: "session list"
  rh_closers :: "closer list"
  rh_connected :: "nat list"
  rh_conn_closed :: "nat list"
  rh_sent :: "(nat \<times> bytes) list"

definition new_relay_handler :: relay_handler where
  "new_relay_handler = \<lparr>rh_map = Map.empty, rh_sessions = [], rh_closers = [], rh_connected = [], rh_conn_closed = [], rh_sent = []\<rparr>"

definition errNoSession :: err where
  "errNoSession = ErrNew ''lwip2transport: no session for conn (Connect not called or already closed)''"

text \<open>\<^verbatim>\<open>Connect\<close>, given the outcome of \<^verbatim>\<open>NewAssociation\<close>. The IP stack calls it once for a connection.\<close>

definition relay_connect :: "nat \<Rightarrow> err option \<Rightarrow> relay_handler \<Rightarrow> relay_handler \<times> err option" where
  "relay_connect conn assoc h =
     (case assoc of
        Some e \<Rightarrow> (h\<lparr>rh_connected := conn # rh_connected h\<rparr>, Some e)
      | None \<Rightarrow>
          (h\<lparr>rh_map := (rh_map h)(conn \<mapsto> length (rh_sessions h)),
             rh_sessions := rh_sessions h @ [\<lparr>se_conn = conn, se_loop = LpReceiving, se_sender_closed = False, se_done = False\<rparr>],
             rh_connected := conn # rh_connected h\<rparr>, None))"

text \<open>\<^verbatim>\<open>ReceiveTo\<close>: the session whose sender gets the packet, or the error.\<close>

definition relay_receive_to :: "nat \<Rightarrow> bytes \<Rightarrow> relay_handler \<Rightarrow> relay_handler \<times> (err + nat)" where
  "relay_receive_to conn data h =
     (case rh_map h conn of
        None \<Rightarrow> (h, Inl errNoSession)
      | Some s \<Rightarrow> (h\<lparr>rh_sent := rh_sent h @ [(s, data)]\<rparr>, Inr s))"

definition set_session :: "nat \<Rightarrow> (session \<Rightarrow> session) \<Rightarrow> relay_handler \<Rightarrow> relay_handler" where
  "set_session i f h = h\<lparr>rh_sessions := (rh_sessions h)[i := f (rh_sessions h ! i)]\<rparr>"

text \<open>One step of \<^verbatim>\<open>runReceive\<close>; \<^verbatim>\<open>ReceivePackets\<close> returns when the sender is closed, or when the relay ends.\<close>

definition loop_step :: "nat \<Rightarrow> relay_handler \<Rightarrow> relay_handler option" where
  "loop_step i h =
     (if i < length (rh_sessions h)
      then (let s = rh_sessions h ! i in
            case se_loop s of
              LpReceiving \<Rightarrow> Some (set_session i (\<lambda>s. s\<lparr>se_loop := LpRemove\<rparr>) h)
            | LpRemove \<Rightarrow> Some (set_session i (\<lambda>s. s\<lparr>se_loop := LpCloseSender\<rparr>) (h\<lparr>rh_map := (rh_map h)(se_conn s := None)\<rparr>))
            | LpCloseSender \<Rightarrow> Some (set_session i (\<lambda>s. s\<lparr>se_loop := LpCloseConn, se_sender_closed := True\<rparr>) h)
            | LpCloseConn \<Rightarrow> Some (set_session i (\<lambda>s. s\<lparr>se_loop := LpDone\<rparr>) (h\<lparr>rh_conn_closed := se_conn s # rh_conn_closed h\<rparr>))
            | LpDone \<Rightarrow> Some (set_session i (\<lambda>s. s\<lparr>se_loop := LpEnded, se_done := True\<rparr>) h)
            | LpEnded \<Rightarrow> None)
      else None)"

datatype relay_event =
    ReConnect nat "err option"
  | ReReceiveTo nat bytes
  | ReLoop nat
  | ReClose nat
  | ReCloser nat

text \<open>A call of \<^verbatim>\<open>closeSession\<close> looks the session up; then it closes the sender and waits for the loop.\<close>

definition closer_step :: "nat \<Rightarrow> relay_handler \<Rightarrow> relay_handler option" where
  "closer_step k h =
     (if k < length (rh_closers h)
      then (case rh_closers h ! k of
              ClClosing s \<Rightarrow>
                Some (set_session s (\<lambda>x. x\<lparr>se_sender_closed := True\<rparr>) (h\<lparr>rh_closers := (rh_closers h)[k := ClWaiting s]\<rparr>))
            | ClWaiting s \<Rightarrow>
                if se_done (rh_sessions h ! s)
                then Some (h\<lparr>rh_closers := (rh_closers h)[k := ClReturned (se_conn (rh_sessions h ! s)) (Some s)]\<rparr>) else None
            | ClReturned _ _ \<Rightarrow> None)
      else None)"

fun relay_step :: "relay_handler \<Rightarrow> relay_event \<Rightarrow> relay_handler option" where
  "relay_step h (ReConnect conn a) = (if conn \<in> set (rh_connected h) then None else Some (fst (relay_connect conn a h)))"
| "relay_step h (ReReceiveTo conn data) = Some (fst (relay_receive_to conn data h))"
| "relay_step h (ReLoop i) = loop_step i h"
| "relay_step h (ReClose conn) =
     Some (h\<lparr>rh_closers := rh_closers h @ [case rh_map h conn of None \<Rightarrow> ClReturned conn None | Some s \<Rightarrow> ClClosing s]\<rparr>)"
| "relay_step h (ReCloser k) = closer_step k h"

fun relay_run :: "relay_handler \<Rightarrow> relay_event list \<Rightarrow> relay_handler option" where
  "relay_run h [] = Some h"
| "relay_run h (e # es) = (case relay_step h e of None \<Rightarrow> None | Some h' \<Rightarrow> relay_run h' es)"

section \<open>The invariant\<close>

definition conn_closed_from :: "loop_phase \<Rightarrow> bool" where
  "conn_closed_from p \<longleftrightarrow> p \<in> {LpDone, LpEnded}"

text \<open>What the phase of a loop says of its session.\<close>

definition session_ok :: "session \<Rightarrow> bool" where
  "session_ok x \<longleftrightarrow> (se_loop x \<in> {LpCloseConn, LpDone, LpEnded} \<longrightarrow> se_sender_closed x) \<and> se_done x = (se_loop x = LpEnded)"

definition closed_count :: "session list \<Rightarrow> nat \<Rightarrow> nat" where
  "closed_count ss c = length (filter (\<lambda>x. se_conn x = c \<and> conn_closed_from (se_loop x)) ss)"

text \<open>
  Sessions have different connections; a connection is in the map until its loop removes it, and it was closed as
  often as the loops say.
\<close>

definition relay_inv :: "relay_handler \<Rightarrow> bool" where
  "relay_inv h \<longleftrightarrow>
     distinct (map se_conn (rh_sessions h)) \<and> set (map se_conn (rh_sessions h)) \<subseteq> set (rh_connected h)
     \<and> (\<forall>c s. rh_map h c = Some s \<longleftrightarrow>
          s < length (rh_sessions h) \<and> se_conn (rh_sessions h ! s) = c \<and> se_loop (rh_sessions h ! s) \<in> {LpReceiving, LpRemove})
     \<and> (\<forall>x \<in> set (rh_sessions h). session_ok x)
     \<and> (\<forall>c. count_list (rh_conn_closed h) c = closed_count (rh_sessions h) c)"

lemma map_conn_update [simp]:
  "i < length xs \<Longrightarrow> se_conn x = se_conn (xs ! i) \<Longrightarrow> map se_conn (xs[i := x]) = map se_conn xs"
  by (simp add: map_update list_update_same_conv)

lemma relay_inv_update:
  assumes "relay_inv h" "i < length (rh_sessions h)" "se_conn x = se_conn (rh_sessions h ! i)" "session_ok x"
    and "(se_loop x \<in> {LpReceiving, LpRemove}) = (se_loop (rh_sessions h ! i) \<in> {LpReceiving, LpRemove})"
    and "conn_closed_from (se_loop x) = conn_closed_from (se_loop (rh_sessions h ! i))"
  shows "relay_inv (h\<lparr>rh_sessions := (rh_sessions h)[i := x]\<rparr>)"
proof -
  have "closed_count ((rh_sessions h)[i := x]) c = closed_count (rh_sessions h) c" for c
    using length_filter_update [OF assms(2), of "\<lambda>x. se_conn x = c \<and> conn_closed_from (se_loop x)" x] assms(3,6)
    by (simp add: closed_count_def split: if_splits)
  moreover have "\<forall>y \<in> set ((rh_sessions h)[i := x]). session_ok y"
    using assms(1,4) set_update_subset_insert [of "rh_sessions h" i x] by (auto simp: relay_inv_def)
  moreover have "(s < length (rh_sessions h) \<and> se_conn ((rh_sessions h)[i := x] ! s) = c \<and> se_loop ((rh_sessions h)[i := x] ! s) \<in> {LpReceiving, LpRemove})
      = (s < length (rh_sessions h) \<and> se_conn (rh_sessions h ! s) = c \<and> se_loop (rh_sessions h ! s) \<in> {LpReceiving, LpRemove})" for s c
    using assms(3,5) by (cases "s = i") auto
  ultimately show ?thesis using assms(1-3) unfolding relay_inv_def by simp
qed

lemma relay_inv_remove:
  assumes "relay_inv h" "i < length (rh_sessions h)" "se_loop (rh_sessions h ! i) = LpRemove"
  defines "x \<equiv> rh_sessions h ! i"
  shows "relay_inv (h\<lparr>rh_map := (rh_map h)(se_conn x := None), rh_sessions := (rh_sessions h)[i := x\<lparr>se_loop := LpCloseSender\<rparr>]\<rparr>)"
proof -
  let ?ss = "(rh_sessions h)[i := x\<lparr>se_loop := LpCloseSender\<rparr>]"
  have "x \<in> set (rh_sessions h)" using assms(2) by (simp add: x_def)
  then have "session_ok x" using assms(1) by (simp add: relay_inv_def)
  then have ok: "session_ok (x\<lparr>se_loop := LpCloseSender\<rparr>)" using assms(3) by (simp add: session_ok_def x_def)
  have "closed_count ?ss c = closed_count (rh_sessions h) c" for c
    using length_filter_update [OF assms(2), of "\<lambda>x. se_conn x = c \<and> conn_closed_from (se_loop x)" "x\<lparr>se_loop := LpCloseSender\<rparr>"] assms(3)
    by (simp add: closed_count_def conn_closed_from_def)
  moreover have "\<forall>y \<in> set ?ss. session_ok y"
    using assms(1) ok set_update_subset_insert [of "rh_sessions h" i "x\<lparr>se_loop := LpCloseSender\<rparr>"] by (auto simp: relay_inv_def)
  moreover have "(s < length (rh_sessions h) \<and> se_conn (?ss ! s) = c \<and> se_loop (?ss ! s) \<in> {LpReceiving, LpRemove})
      = (((rh_map h)(se_conn x := None)) c = Some s)" for s c
  proof -
    have u: "s = i" if "s < length (rh_sessions h)" "se_conn (rh_sessions h ! s) = se_conn x"
      using that assms(1,2) nth_eq_iff_index_eq [of "map se_conn (rh_sessions h)" s i] by (simp add: relay_inv_def x_def)
    have m: "rh_map h c = Some s \<longleftrightarrow> s < length (rh_sessions h) \<and> se_conn (rh_sessions h ! s) = c
        \<and> se_loop (rh_sessions h ! s) \<in> {LpReceiving, LpRemove}"
      using assms(1) by (simp add: relay_inv_def)
    show ?thesis
    proof (cases "s = i")
      case True
      then show ?thesis using m assms(2) by (auto simp: x_def)
    next
      case False
      then show ?thesis using m u by auto
    qed
  qed
  ultimately show ?thesis using assms(1,2) unfolding relay_inv_def by (simp add: x_def)
qed

lemma relay_inv_close_conn:
  assumes "relay_inv h" "i < length (rh_sessions h)" "se_loop (rh_sessions h ! i) = LpCloseConn"
  defines "x \<equiv> rh_sessions h ! i"
  shows "relay_inv (h\<lparr>rh_conn_closed := se_conn x # rh_conn_closed h, rh_sessions := (rh_sessions h)[i := x\<lparr>se_loop := LpDone\<rparr>]\<rparr>)"
proof -
  let ?ss = "(rh_sessions h)[i := x\<lparr>se_loop := LpDone\<rparr>]"
  have "x \<in> set (rh_sessions h)" using assms(2) by (simp add: x_def)
  then have "session_ok x" using assms(1) by (simp add: relay_inv_def)
  then have ok: "session_ok (x\<lparr>se_loop := LpDone\<rparr>)" using assms(3) by (simp add: session_ok_def x_def)
  have "closed_count ?ss c = closed_count (rh_sessions h) c + (if se_conn x = c then 1 else 0)" for c
    using length_filter_update [OF assms(2), of "\<lambda>x. se_conn x = c \<and> conn_closed_from (se_loop x)" "x\<lparr>se_loop := LpDone\<rparr>"] assms(3)
    by (simp add: closed_count_def conn_closed_from_def)
  moreover have "\<forall>y \<in> set ?ss. session_ok y"
    using assms(1) ok set_update_subset_insert [of "rh_sessions h" i "x\<lparr>se_loop := LpDone\<rparr>"] by (auto simp: relay_inv_def)
  moreover have "(s < length (rh_sessions h) \<and> se_conn (?ss ! s) = c \<and> se_loop (?ss ! s) \<in> {LpReceiving, LpRemove})
      = (s < length (rh_sessions h) \<and> se_conn (rh_sessions h ! s) = c \<and> se_loop (rh_sessions h ! s) \<in> {LpReceiving, LpRemove})" for s c
    using assms(3) by (cases "s = i") (auto simp: x_def)
  ultimately show ?thesis using assms(1,2) unfolding relay_inv_def by (simp add: x_def)
qed

lemma relay_inv_loop:
  assumes "relay_inv h" "loop_step i h = Some h'"
  shows "relay_inv h'"
proof -
  have i: "i < length (rh_sessions h)" using assms(2) by (simp add: loop_step_def split: if_splits)
  let ?x = "rh_sessions h ! i"
  have ok: "session_ok ?x" using assms(1) i by (simp add: relay_inv_def)
  note upd = relay_inv_update [OF assms(1) i]
  show ?thesis
  proof (cases "se_loop ?x")
    case LpReceiving
    then show ?thesis using assms(2) i ok upd [of "?x\<lparr>se_loop := LpRemove\<rparr>"]
      by (simp add: loop_step_def set_session_def session_ok_def conn_closed_from_def Let_def)
  next
    case LpRemove
    then show ?thesis using assms(2) i relay_inv_remove [OF assms(1) i LpRemove] by (simp add: loop_step_def set_session_def Let_def)
  next
    case LpCloseSender
    then show ?thesis using assms(2) i ok upd [of "?x\<lparr>se_loop := LpCloseConn, se_sender_closed := True\<rparr>"]
      by (simp add: loop_step_def set_session_def session_ok_def conn_closed_from_def Let_def)
  next
    case LpCloseConn
    then show ?thesis using assms(2) i relay_inv_close_conn [OF assms(1) i LpCloseConn] by (simp add: loop_step_def set_session_def Let_def)
  next
    case LpDone
    then show ?thesis using assms(2) i ok upd [of "?x\<lparr>se_loop := LpEnded, se_done := True\<rparr>"]
      by (simp add: loop_step_def set_session_def session_ok_def conn_closed_from_def Let_def)
  qed (use assms(2) i in \<open>simp add: loop_step_def\<close>)
qed

lemma relay_inv_sent [simp]: "relay_inv (h\<lparr>rh_sent := cs\<rparr>) = relay_inv h"
  by (simp add: relay_inv_def)

lemma relay_inv_closers [simp]: "relay_inv (h\<lparr>rh_closers := cs\<rparr>) = relay_inv h"
  by (simp add: relay_inv_def)

lemma relay_inv_connect:
  assumes "relay_inv h" "conn \<notin> set (rh_connected h)"
  shows "relay_inv (fst (relay_connect conn a h))"
proof (cases a)
  case (Some e)
  then show ?thesis using assms(1) by (auto simp: relay_inv_def relay_connect_def)
next
  case None
  let ?x = "\<lparr>se_conn = conn, se_loop = LpReceiving, se_sender_closed = False, se_done = False\<rparr>"
  let ?n = "length (rh_sessions h)"
  have m: "rh_map h c = Some s \<longleftrightarrow> s < ?n \<and> se_conn (rh_sessions h ! s) = c
      \<and> se_loop (rh_sessions h ! s) \<in> {LpReceiving, LpRemove}" for c s
    using assms(1) by (simp add: relay_inv_def)
  have fresh: "conn \<notin> set (map se_conn (rh_sessions h))" using assms by (auto simp: relay_inv_def)
  have new: "se_conn (rh_sessions h ! s) \<noteq> conn" if "s < ?n" for s
    using that fresh nth_mem [of s "map se_conn (rh_sessions h)"] by auto
  have "(((rh_map h)(conn \<mapsto> ?n)) c = Some s) = (s < Suc ?n \<and> se_conn ((rh_sessions h @ [?x]) ! s) = c
      \<and> se_loop ((rh_sessions h @ [?x]) ! s) \<in> {LpReceiving, LpRemove})" for c s
    using m [of c s] new [of s] by (cases "s = ?n") (auto simp: nth_append)
  moreover have "closed_count (rh_sessions h @ [?x]) c = closed_count (rh_sessions h) c" for c
    by (simp add: closed_count_def conn_closed_from_def)
  moreover have "session_ok ?x" by (simp add: session_ok_def)
  moreover note fresh
  ultimately show ?thesis using assms(1) None unfolding relay_inv_def by (simp add: relay_connect_def subset_insertI2)
qed

text \<open>What the calls of \<^verbatim>\<open>closeSession\<close> know of their sessions.\<close>

fun closer_ok :: "session list \<Rightarrow> closer \<Rightarrow> bool" where
  "closer_ok ss (ClClosing s) = (s < length ss)"
| "closer_ok ss (ClWaiting s) = (s < length ss \<and> se_sender_closed (ss ! s))"
| "closer_ok ss (ClReturned c None) = True"
| "closer_ok ss (ClReturned c (Some s)) = (s < length ss \<and> se_conn (ss ! s) = c \<and> se_done (ss ! s))"

definition closers_inv :: "relay_handler \<Rightarrow> bool" where
  "closers_inv h \<longleftrightarrow> (\<forall>c \<in> set (rh_closers h). closer_ok (rh_sessions h) c)"

lemma closer_ok_append: "closer_ok ss c \<Longrightarrow> closer_ok (ss @ xs) c"
  by (cases "(ss, c)" rule: closer_ok.cases) (auto simp: nth_append)

lemma closer_ok_update:
  "closer_ok ss c \<Longrightarrow> i < length ss \<Longrightarrow> se_conn x = se_conn (ss ! i) \<Longrightarrow> (se_sender_closed (ss ! i) \<longrightarrow> se_sender_closed x)
   \<Longrightarrow> (se_done (ss ! i) \<longrightarrow> se_done x) \<Longrightarrow> closer_ok (ss[i := x]) c"
  by (cases "(ss, c)" rule: closer_ok.cases) (auto simp: nth_list_update)

lemma closers_inv_loop:
  assumes "closers_inv h" "loop_step i h = Some h'"
  shows "closers_inv h'"
proof -
  have i: "i < length (rh_sessions h)" using assms(2) by (simp add: loop_step_def split: if_splits)
  obtain x where x: "rh_sessions h' = (rh_sessions h)[i := x]" "rh_closers h' = rh_closers h" "se_conn x = se_conn (rh_sessions h ! i)"
    "se_sender_closed (rh_sessions h ! i) \<longrightarrow> se_sender_closed x" "se_done (rh_sessions h ! i) \<longrightarrow> se_done x"
    using assms(2) i by (cases "se_loop (rh_sessions h ! i)") (auto simp: loop_step_def set_session_def Let_def)
  then show ?thesis using assms(1) i closer_ok_update by (auto simp: closers_inv_def)
qed


lemma ball_list_update: "\<forall>x \<in> set xs. P x \<Longrightarrow> P y \<Longrightarrow> \<forall>x \<in> set (xs[i := y]). P x"
  using set_update_subset_insert [of xs i y] by auto

lemma relay_inv_closer:
  assumes "relay_inv h" "closers_inv h" "closer_step k h = Some h'"
  shows "relay_inv h'"
proof -
  have k: "k < length (rh_closers h)" using assms(3) by (simp add: closer_step_def split: if_splits)
  have ok: "closer_ok (rh_sessions h) (rh_closers h ! k)" using assms(2) k by (simp add: closers_inv_def)
  show ?thesis
  proof (cases "rh_closers h ! k")
    case (ClClosing s)
    let ?x = "rh_sessions h ! s"
    have s: "s < length (rh_sessions h)" using ok ClClosing by simp
    then have "session_ok ?x" using assms(1) by (simp add: relay_inv_def)
    then have "session_ok (?x\<lparr>se_sender_closed := True\<rparr>)" by (simp add: session_ok_def)
    then show ?thesis using assms k ClClosing relay_inv_update [OF _ s, of "?x\<lparr>se_sender_closed := True\<rparr>"]
        relay_inv_update [of "h\<lparr>rh_closers := (rh_closers h)[k := ClWaiting s]\<rparr>" s "?x\<lparr>se_sender_closed := True\<rparr>"] s
      by (simp add: closer_step_def set_session_def)
  qed (use assms k in \<open>auto simp: closer_step_def split: if_splits\<close>)
qed

lemma closers_inv_closer:
  assumes "closers_inv h" "closer_step k h = Some h'"
  shows "closers_inv h'"
proof -
  have k: "k < length (rh_closers h)" using assms(2) by (simp add: closer_step_def split: if_splits)
  have ok: "closer_ok (rh_sessions h) (rh_closers h ! k)" using assms(1) k by (simp add: closers_inv_def)
  have all: "closer_ok (rh_sessions h) c" if "c \<in> set (rh_closers h)" for c using assms(1) that by (simp add: closers_inv_def)
  show ?thesis
  proof (cases "rh_closers h ! k")
    case (ClClosing s)
    let ?ss = "(rh_sessions h)[s := (rh_sessions h ! s)\<lparr>se_sender_closed := True\<rparr>]"
    have s: "s < length (rh_sessions h)" using ok ClClosing by simp
    have h': "rh_sessions h' = ?ss" "rh_closers h' = (rh_closers h)[k := ClWaiting s]"
      using assms(2) k ClClosing by (auto simp: closer_step_def set_session_def)
    have "closer_ok ?ss c" if "c \<in> set (rh_closers h)" for c using all [OF that] s by (rule closer_ok_update) simp_all
    moreover have "closer_ok ?ss (ClWaiting s)" using s by simp
    ultimately show ?thesis unfolding closers_inv_def h' by (intro ball_list_update) blast+
  next
    case (ClWaiting s)
    let ?r = "ClReturned (se_conn (rh_sessions h ! s)) (Some s)"
    have d: "se_done (rh_sessions h ! s)" and h': "rh_sessions h' = rh_sessions h" "rh_closers h' = (rh_closers h)[k := ?r]"
      using assms(2) k ClWaiting by (auto simp: closer_step_def split: if_splits)
    have "closer_ok (rh_sessions h) ?r" using ok ClWaiting d by simp
    then show ?thesis using all unfolding closers_inv_def h' by (intro ball_list_update) blast+
  qed (use assms k in \<open>auto simp: closer_step_def\<close>)
qed

lemma closers_inv_connect: "closers_inv h \<Longrightarrow> closers_inv (fst (relay_connect conn a h))"
  by (cases a) (auto simp: closers_inv_def relay_connect_def closer_ok_append)

lemma relay_step_inv:
  assumes "relay_inv h \<and> closers_inv h" "relay_step h e = Some h'"
  shows "relay_inv h' \<and> closers_inv h'"
proof (cases e)
  case (ReConnect conn a)
  then show ?thesis using assms relay_inv_connect [of h conn a] closers_inv_connect [of h conn a] by (auto split: if_splits)
next
  case (ReReceiveTo conn data)
  then show ?thesis using assms by (auto simp: relay_receive_to_def closers_inv_def split: option.splits)
next
  case (ReLoop i)
  then show ?thesis using assms relay_inv_loop closers_inv_loop by auto
next
  case (ReClose conn)
  have "closer_ok (rh_sessions h) (case rh_map h conn of None \<Rightarrow> ClReturned conn None | Some s \<Rightarrow> ClClosing s)"
    using assms(1) by (auto simp: relay_inv_def split: option.split)
  moreover have "h' = h\<lparr>rh_closers := rh_closers h @ [case rh_map h conn of None \<Rightarrow> ClReturned conn None | Some s \<Rightarrow> ClClosing s]\<rparr>"
    using assms(2) ReClose by simp
  ultimately show ?thesis using assms(1) by (simp add: closers_inv_def ball_Un)
next
  case (ReCloser k)
  then show ?thesis using assms relay_inv_closer closers_inv_closer by auto
qed

lemma relay_run_inv: "relay_run h es = Some h' \<Longrightarrow> relay_inv h \<and> closers_inv h \<Longrightarrow> relay_inv h' \<and> closers_inv h'"
proof (induction h es rule: relay_run.induct)
  case (2 h e es)
  then obtain h1 where h1: "relay_step h e = Some h1" "relay_run h1 es = Some h'" by (auto split: option.splits)
  then show ?case using 2 relay_step_inv [of h e h1] by simp
qed simp

lemma relay_reachable_inv: "relay_run new_relay_handler es = Some h \<Longrightarrow> relay_inv h \<and> closers_inv h"
  by (erule relay_run_inv) (simp add: relay_inv_def closers_inv_def new_relay_handler_def closed_count_def)

section \<open>Closing a session\<close>

lemma distinct_filter_conn:
  "distinct (map se_conn ss) \<Longrightarrow> length (filter (\<lambda>x. se_conn x = c \<and> P x) ss) \<le> 1"
  by (induction ss) (auto simp: filter_empty_conv intro: rev_image_eqI)

lemma closed_count_le: "relay_inv h \<Longrightarrow> closed_count (rh_sessions h) c \<le> 1"
  using distinct_filter_conn [of "rh_sessions h" c "\<lambda>x. conn_closed_from (se_loop x)"]
  by (simp add: closed_count_def relay_inv_def)

lemma closed_count_pos:
  "s < length ss \<Longrightarrow> conn_closed_from (se_loop (ss ! s)) \<Longrightarrow> 0 < closed_count ss (se_conn (ss ! s))"
  by (auto simp: closed_count_def filter_empty_conv)

lemma returned_session:
  assumes "relay_inv h" "closers_inv h" "ClReturned c (Some s) \<in> set (rh_closers h)"
  shows "rh_map h c = None \<and> se_loop (rh_sessions h ! s) = LpEnded \<and> se_sender_closed (rh_sessions h ! s)
    \<and> count_list (rh_conn_closed h) c = 1"
proof -
  have "closer_ok (rh_sessions h) (ClReturned c (Some s))" using assms(2,3) by (simp only: closers_inv_def)
  then have s: "s < length (rh_sessions h)" "se_conn (rh_sessions h ! s) = c" "se_done (rh_sessions h ! s)" by simp_all
  then have "session_ok (rh_sessions h ! s)" using assms(1) by (simp add: relay_inv_def)
  then have l: "se_loop (rh_sessions h ! s) = LpEnded" "se_sender_closed (rh_sessions h ! s)" using s by (auto simp: session_ok_def)
  have "count_list (rh_conn_closed h) c = 1"
    using closed_count_le [OF assms(1), of c] closed_count_pos [of s "rh_sessions h"] s(1,2) l(1) assms(1)
    by (simp add: conn_closed_from_def relay_inv_def)
  moreover have "rh_map h c = None"
  proof (rule ccontr)
    assume "rh_map h c \<noteq> None"
    then obtain t where "rh_map h c = Some t" by blast
    then have t: "t < length (rh_sessions h)" "se_conn (rh_sessions h ! t) = c" "se_loop (rh_sessions h ! t) \<in> {LpReceiving, LpRemove}"
      using assms(1) by (simp_all add: relay_inv_def)
    then have "t = s" using s assms(1) nth_eq_iff_index_eq [of "map se_conn (rh_sessions h)" s t] by (simp add: relay_inv_def)
    then show False using t(3) l(1) by simp
  qed
  ultimately show ?thesis using l by simp
qed

fun loop_rank :: "loop_phase \<Rightarrow> nat" where
  "loop_rank LpReceiving = 5"
| "loop_rank LpRemove = 4"
| "loop_rank LpCloseSender = 3"
| "loop_rank LpCloseConn = 2"
| "loop_rank LpDone = 1"
| "loop_rank LpEnded = 0"

lemma loop_step_rank:
  assumes "i < length (rh_sessions h)" "0 < loop_rank (se_loop (rh_sessions h ! i))"
  shows "\<exists>h'. loop_step i h = Some h' \<and> rh_closers h' = rh_closers h \<and> length (rh_sessions h') = length (rh_sessions h)
    \<and> se_conn (rh_sessions h' ! i) = se_conn (rh_sessions h ! i)
    \<and> loop_rank (se_loop (rh_sessions h' ! i)) = loop_rank (se_loop (rh_sessions h ! i)) - 1"
  using assms by (cases "se_loop (rh_sessions h ! i)") (simp_all add: loop_step_def set_session_def Let_def)

lemma loop_runs_out:
  assumes "i < length (rh_sessions h)"
  shows "\<exists>h'. relay_run h (replicate (loop_rank (se_loop (rh_sessions h ! i))) (ReLoop i)) = Some h' \<and> rh_closers h' = rh_closers h
    \<and> length (rh_sessions h') = length (rh_sessions h) \<and> se_conn (rh_sessions h' ! i) = se_conn (rh_sessions h ! i)
    \<and> loop_rank (se_loop (rh_sessions h' ! i)) = 0"
  using assms
proof (induction "loop_rank (se_loop (rh_sessions h ! i))" arbitrary: h)
  case 0
  then show ?case by simp
next
  case (Suc n)
  then obtain h1 where "loop_step i h = Some h1" "rh_closers h1 = rh_closers h" "length (rh_sessions h1) = length (rh_sessions h)"
    "se_conn (rh_sessions h1 ! i) = se_conn (rh_sessions h ! i)" "n = loop_rank (se_loop (rh_sessions h1 ! i))"
    using loop_step_rank [of i h] by (metis diff_Suc_1 zero_less_Suc)
  then show ?case using Suc.hyps(1) [of h1] Suc.hyps(2) Suc.prems by (simp flip: Suc.hyps(2))
qed

lemma relay_run_append: "relay_run h (es @ fs) = (case relay_run h es of None \<Rightarrow> None | Some h' \<Rightarrow> relay_run h' fs)"
  by (induction h es rule: relay_run.induct) (auto split: option.split)

lemma loop_rank_0 [simp]: "loop_rank p = 0 \<longleftrightarrow> p = LpEnded"
  by (cases p) simp_all

lemma loop_rank_le: "loop_rank p \<le> 5"
  by (cases p) simp_all

text \<open>
  C28: in every reachable state of the UDP relay handler, each connection of the IP stack was closed at most once, and when a
  call of \<^verbatim>\<open>closeSession\<close> that found a session has returned, the session is no longer in the map, its receive
  loop has ended, its sender is closed and its connection was closed exactly once.
\<close>

theorem relay_close_session:
  assumes "relay_run new_relay_handler es = Some h"
  shows "count_list (rh_conn_closed h) c \<le> 1 \<and>
    (ClReturned c (Some s) \<in> set (rh_closers h) \<longrightarrow>
       rh_map h c = None \<and> se_loop (rh_sessions h ! s) = LpEnded \<and> se_sender_closed (rh_sessions h ! s)
       \<and> count_list (rh_conn_closed h) c = 1)"
proof -
  have inv: "relay_inv h" "closers_inv h" using relay_reachable_inv [OF assms] by simp_all
  then have "count_list (rh_conn_closed h) c \<le> 1" using closed_count_le [of h c] by (simp add: relay_inv_def)
  then show ?thesis using returned_session [OF inv] by blast
qed

definition relay_example :: "relay_event list" where
  "relay_example = [ReConnect 7 None, ReReceiveTo 7 [1], ReClose 7, ReCloser 0, ReLoop 0, ReLoop 0, ReLoop 0, ReLoop 0, ReLoop 0, ReCloser 0]"

lemmas relay_eval = relay_example_def new_relay_handler_def relay_connect_def relay_receive_to_def loop_step_def closer_step_def
  set_session_def

lemma relay_example_run:
  "\<exists>h. relay_run new_relay_handler relay_example = Some h \<and> ClReturned 7 (Some 0) \<in> set (rh_closers h) \<and> rh_conn_closed h = [7]"
  by (simp add: relay_eval)

theorem relay_close_session_witness:
  "\<exists>h. relay_run new_relay_handler relay_example = Some h \<and> rh_map h 7 = None \<and> count_list (rh_conn_closed h) 7 = 1"
proof -
  obtain h where h: "relay_run new_relay_handler relay_example = Some h" "ClReturned 7 (Some 0) \<in> set (rh_closers h)"
    using relay_example_run by blast
  show ?thesis using relay_close_session [OF h(1), of 7 0] h by simp
qed

text \<open>
  \<^verbatim>\<open>closeSession\<close> does not block for ever: from every reachable state in which a call waits, at most five more
  steps of the session's receive loop are possible and enough, whatever phase it is in, for the call to return.
\<close>

theorem relay_close_returns:
  assumes "relay_run new_relay_handler es = Some h" "k < length (rh_closers h)" "rh_closers h ! k = ClWaiting s"
  shows "\<exists>n h'. n \<le> 5 \<and> relay_run h (replicate n (ReLoop s) @ [ReCloser k]) = Some h'
    \<and> rh_closers h' ! k = ClReturned (se_conn (rh_sessions h ! s)) (Some s)"
proof -
  have "closer_ok (rh_sessions h) (rh_closers h ! k)"
    using relay_reachable_inv [OF assms(1)] assms(2) by (simp add: closers_inv_def)
  then have s: "s < length (rh_sessions h)" using assms(3) by simp
  let ?n = "loop_rank (se_loop (rh_sessions h ! s))"
  obtain h1 where h1: "relay_run h (replicate ?n (ReLoop s)) = Some h1" "rh_closers h1 = rh_closers h"
    "length (rh_sessions h1) = length (rh_sessions h)" "se_conn (rh_sessions h1 ! s) = se_conn (rh_sessions h ! s)"
    "se_loop (rh_sessions h1 ! s) = LpEnded"
    using loop_runs_out [OF s] by auto
  have "relay_inv h1" using relay_run_inv [OF h1(1)] relay_reachable_inv [OF assms(1)] by simp
  then have "session_ok (rh_sessions h1 ! s)" using s h1(3) by (simp add: relay_inv_def)
  then have "se_done (rh_sessions h1 ! s)" using h1(5) by (simp add: session_ok_def)
  then have "relay_run h (replicate ?n (ReLoop s) @ [ReCloser k])
      = Some (h1\<lparr>rh_closers := (rh_closers h)[k := ClReturned (se_conn (rh_sessions h ! s)) (Some s)]\<rparr>)"
    using h1 assms(2,3) by (simp add: relay_run_append closer_step_def)
  then show ?thesis using loop_rank_le [of "se_loop (rh_sessions h ! s)"] assms(2)
    by (intro exI [of _ ?n]) auto
qed

theorem relay_close_returns_witness:
  "\<exists>h n h'. relay_run new_relay_handler (take 4 relay_example) = Some h \<and> n \<le> 5
    \<and> relay_run h (replicate n (ReLoop 0) @ [ReCloser 0]) = Some h' \<and> rh_closers h' ! 0 = ClReturned 7 (Some 0)"
proof -
  have "\<exists>h. relay_run new_relay_handler (take 4 relay_example) = Some h \<and> rh_closers h = [ClWaiting 0] \<and> se_conn (rh_sessions h ! 0) = 7"
    by (simp add: relay_eval)
  then obtain h where h: "relay_run new_relay_handler (take 4 relay_example) = Some h" "rh_closers h = [ClWaiting 0]"
    "se_conn (rh_sessions h ! 0) = 7" by blast
  show ?thesis using relay_close_returns [OF h(1), of 0 0] h by auto
qed

text \<open>
  A second call of \<^verbatim>\<open>closeSession\<close>, between the removal from the map and the end of the clean-up, returns at once
  although the connection is not closed yet.
\<close>

lemma close_session_early:
  "\<exists>h. relay_run new_relay_handler [ReConnect 7 None, ReLoop 0, ReLoop 0, ReClose 7] = Some h
    \<and> ClReturned 7 None \<in> set (rh_closers h) \<and> rh_conn_closed h = [] \<and> se_sender_closed (rh_sessions h ! 0) = False"
  by (simp add: relay_eval)

end
