(* ===== verification/LwipProxy.thy ===== *)
theory LwipProxy
  imports PacketRelay
begin

text \<open>
  The UDP handler over a packet proxy, \<^verbatim>\<open>network/lwip2transport/udp.go\<close>: the map of senders by local address, the calls
  of \<^verbatim>\<open>ReceiveTo\<close>, which take the lock twice, and the response writers, which close their session once.
\<close>

section \<open>The handler\<close>

text \<open>
  A response writer has its connection and the flag \<^verbatim>\<open>closed\<close>; it is numbered like the sender that the proxy returned
  for it.
\<close>

record response_writer =
  wr_conn :: nat
  wr_closed :: bool

text \<open>
  A call of \<^verbatim>\<open>ReceiveTo\<close>: about to create a session, to store its sender, to write to a sender, or returned; and a
  call of \<^verbatim>\<open>Close\<close> of a response writer that won the \<^verbatim>\<open>CompareAndSwap\<close>.
\<close>

datatype udp_call =
    UcNew nat bytes
  | UcStore nat nat bytes
  | UcWrite nat bytes
  | UcClosing nat
  | UcReturned "err option"

record udp_handler =
  uh_senders :: "string \<Rightarrow> nat option"
  uh_writers :: "response_writer list"
  uh_calls :: "udp_call list"
  uh_conn_closed :: "nat list"
  uh_sender_closed :: "nat list"
  uh_written :: "(nat \<times> bytes) list"

definition new_udp_handler :: udp_handler where
  "new_udp_handler = \<lparr>uh_senders = Map.empty, uh_writers = [], uh_calls = [], uh_conn_closed = [], uh_sender_closed = [],
     uh_written = []\<rparr>"

text \<open>\<^verbatim>\<open>closeSession\<close>, one critical section; \<open>laddr\<close> is the text of the local address of a connection.\<close>

definition udp_close_session :: "(nat \<Rightarrow> string) \<Rightarrow> nat \<Rightarrow> udp_handler \<Rightarrow> udp_handler" where
  "udp_close_session laddr conn h =
     (let h1 = h\<lparr>uh_conn_closed := conn # uh_conn_closed h\<rparr> in
      case uh_senders h1 (laddr conn) of
        None \<Rightarrow> h1
      | Some s \<Rightarrow> h1\<lparr>uh_sender_closed := s # uh_sender_closed h1, uh_senders := (uh_senders h1)(laddr conn := None)\<rparr>)"

definition set_call :: "nat \<Rightarrow> udp_call \<Rightarrow> udp_handler \<Rightarrow> udp_handler" where
  "set_call k c h = h\<lparr>uh_calls := (uh_calls h)[k := c]\<rparr>"

text \<open>The first critical section of \<^verbatim>\<open>ReceiveTo\<close>: the sender, or a new session.\<close>

definition udp_receive_to :: "(nat \<Rightarrow> string) \<Rightarrow> nat \<Rightarrow> bytes \<Rightarrow> udp_handler \<Rightarrow> udp_handler" where
  "udp_receive_to laddr conn data h =
     h\<lparr>uh_calls := uh_calls h @ [case uh_senders h (laddr conn) of None \<Rightarrow> UcNew conn data | Some s \<Rightarrow> UcWrite s data]\<rparr>"

text \<open>
  \<^verbatim>\<open>newSession\<close> with what \<^verbatim>\<open>NewSession\<close> of the proxy returns: when it fails the response writer is closed, which closes
  the session, and \<^verbatim>\<open>ReceiveTo\<close> returns the error.
\<close>

definition udp_new_session :: "(nat \<Rightarrow> string) \<Rightarrow> nat \<Rightarrow> nat \<Rightarrow> bytes \<Rightarrow> err option \<Rightarrow> udp_handler \<Rightarrow> udp_handler" where
  "udp_new_session laddr k conn data r h =
     (case r of
        None \<Rightarrow> set_call k (UcStore conn (length (uh_writers h)) data)
                  (h\<lparr>uh_writers := uh_writers h @ [\<lparr>wr_conn = conn, wr_closed = False\<rparr>]\<rparr>)
      | Some e \<Rightarrow> set_call k (UcReturned (Some e))
                    (udp_close_session laddr conn (h\<lparr>uh_writers := uh_writers h @ [\<lparr>wr_conn = conn, wr_closed = True\<rparr>]\<rparr>)))"

text \<open>\<^verbatim>\<open>Close\<close> of a response writer up to the \<^verbatim>\<open>CompareAndSwap\<close>; the second result is the error of a closed writer.\<close>

definition writer_close :: "nat \<Rightarrow> udp_handler \<Rightarrow> udp_handler \<times> err option" where
  "writer_close i h =
     (if wr_closed (uh_writers h ! i) then (h, Some ErrDeviceClosed)
      else (h\<lparr>uh_writers := (uh_writers h)[i := (uh_writers h ! i)\<lparr>wr_closed := True\<rparr>],
              uh_calls := uh_calls h @ [UcClosing i]\<rparr>, None))"

text \<open>\<^verbatim>\<open>WriteFrom\<close> of a response writer, given the resolved address and what the connection returns.\<close>

definition writer_write_from :: "nat \<Rightarrow> (err + 'a) \<Rightarrow> ('a \<Rightarrow> nat \<times> err option) \<Rightarrow> udp_handler \<Rightarrow> nat \<times> err option" where
  "writer_write_from i resolved conn_write h =
     (if wr_closed (uh_writers h ! i) then (0, Some ErrDeviceClosed)
      else (case resolved of Inl e \<Rightarrow> (0, Some e) | Inr a \<Rightarrow> conn_write a))"

datatype udp_event =
    UeReceiveTo nat bytes
  | UeCall nat "err option"
  | UeClose nat

text \<open>The next step of a call, with the result of the proxy or the sender where it asks one.\<close>

definition udp_call_step :: "(nat \<Rightarrow> string) \<Rightarrow> nat \<Rightarrow> err option \<Rightarrow> udp_handler \<Rightarrow> udp_handler option" where
  "udp_call_step laddr k r h =
     (if k < length (uh_calls h)
      then (case uh_calls h ! k of
              UcNew conn data \<Rightarrow> Some (udp_new_session laddr k conn data r h)
            | UcStore conn s data \<Rightarrow>
                Some (set_call k (UcWrite s data) (h\<lparr>uh_senders := (uh_senders h)(laddr conn \<mapsto> s)\<rparr>))
            | UcWrite s data \<Rightarrow> Some (set_call k (UcReturned r) (h\<lparr>uh_written := uh_written h @ [(s, data)]\<rparr>))
            | UcClosing i \<Rightarrow>
                Some (set_call k (UcReturned None) (udp_close_session laddr (wr_conn (uh_writers h ! i)) h))
            | UcReturned _ \<Rightarrow> None)
      else None)"

fun udp_step :: "(nat \<Rightarrow> string) \<Rightarrow> udp_handler \<Rightarrow> udp_event \<Rightarrow> udp_handler option" where
  "udp_step laddr h (UeReceiveTo conn data) = Some (udp_receive_to laddr conn data h)"
| "udp_step laddr h (UeCall k r) = udp_call_step laddr k r h"
| "udp_step laddr h (UeClose i) = (if i < length (uh_writers h) then Some (fst (writer_close i h)) else None)"

fun udp_run :: "(nat \<Rightarrow> string) \<Rightarrow> udp_handler \<Rightarrow> udp_event list \<Rightarrow> udp_handler option" where
  "udp_run laddr h [] = Some h"
| "udp_run laddr h (e # es) = (case udp_step laddr h e of None \<Rightarrow> None | Some h' \<Rightarrow> udp_run laddr h' es)"

section \<open>A response writer closes its connection once\<close>

text \<open>The writers of a connection that are closed, and the closings that are still to come.\<close>

definition closed_writers :: "udp_handler \<Rightarrow> nat \<Rightarrow> nat" where
  "closed_writers h c = length (filter (\<lambda>w. wr_conn w = c \<and> wr_closed w) (uh_writers h))"

fun is_closing :: "response_writer list \<Rightarrow> nat \<Rightarrow> udp_call \<Rightarrow> bool" where
  "is_closing ws c (UcClosing i) = (wr_conn (ws ! i) = c)"
| "is_closing ws c _ = False"

definition closings :: "udp_handler \<Rightarrow> nat \<Rightarrow> nat" where
  "closings h c = length (filter (is_closing (uh_writers h) c) (uh_calls h))"

fun call_ok :: "response_writer list \<Rightarrow> udp_call \<Rightarrow> bool" where
  "call_ok ws (UcClosing i) = (i < length ws \<and> wr_closed (ws ! i))"
| "call_ok ws (UcStore conn s data) = (s < length ws \<and> wr_conn (ws ! s) = conn)"
| "call_ok ws (UcWrite s data) = (s < length ws)"
| "call_ok ws _ = True"

definition udp_inv :: "(nat \<Rightarrow> string) \<Rightarrow> udp_handler \<Rightarrow> bool" where
  "udp_inv laddr h \<longleftrightarrow>
     (\<forall>x \<in> set (uh_calls h). call_ok (uh_writers h) x)
     \<and> (\<forall>l s. uh_senders h l = Some s \<longrightarrow> s < length (uh_writers h) \<and> laddr (wr_conn (uh_writers h ! s)) = l)
     \<and> (\<forall>c. count_list (uh_conn_closed h) c + closings h c = closed_writers h c)"

lemma close_session_proj [simp]:
  "uh_writers (udp_close_session laddr conn h) = uh_writers h"
  "uh_calls (udp_close_session laddr conn h) = uh_calls h"
  "uh_conn_closed (udp_close_session laddr conn h) = conn # uh_conn_closed h"
  "uh_written (udp_close_session laddr conn h) = uh_written h"
  "uh_senders (udp_close_session laddr conn h) = (uh_senders h)(laddr conn := None)"
  by (auto simp: udp_close_session_def Let_def split: option.split)

lemma set_call_proj [simp]:
  "uh_senders (set_call k c h) = uh_senders h" "uh_writers (set_call k c h) = uh_writers h"
  "uh_calls (set_call k c h) = (uh_calls h)[k := c]" "uh_conn_closed (set_call k c h) = uh_conn_closed h"
  "uh_sender_closed (set_call k c h) = uh_sender_closed h" "uh_written (set_call k c h) = uh_written h"
  by (simp_all add: set_call_def)

lemma call_ok_append: "call_ok ws x \<Longrightarrow> call_ok (ws @ vs) x"
  by (cases "(ws, x)" rule: call_ok.cases) (auto simp: nth_append)

lemma is_closing_append: "call_ok ws x \<Longrightarrow> is_closing (ws @ vs) c x = is_closing ws c x"
  by (cases x) (auto simp: nth_append)

lemma call_ok_close: "call_ok ws x \<Longrightarrow> i < length ws \<Longrightarrow> call_ok (ws[i := (ws ! i)\<lparr>wr_closed := True\<rparr>]) x"
  by (cases "(ws, x)" rule: call_ok.cases) (auto simp: nth_list_update)

lemma is_closing_close: "i < length ws \<Longrightarrow> is_closing (ws[i := (ws ! i)\<lparr>wr_closed := b\<rparr>]) c x = is_closing ws c x"
  by (cases "(ws, c, x)" rule: is_closing.cases) (auto simp: nth_list_update)


lemma udp_inv_receive: "udp_inv laddr h \<Longrightarrow> udp_inv laddr (udp_receive_to laddr conn data h)"
  by (auto simp: udp_inv_def udp_receive_to_def closings_def closed_writers_def split: option.split)

text \<open>A call that does not close goes on: what is left to show of its next state.\<close>

lemma udp_inv_call:
  assumes "udp_inv laddr h" "k < length (uh_calls h)" "\<forall>c. \<not> is_closing (uh_writers h) c (uh_calls h ! k)"
    and "call_ok (uh_writers h) x" "\<forall>c. \<not> is_closing (uh_writers h) c x"
  shows "udp_inv laddr (set_call k x h)"
proof -
  have "closings (set_call k x h) c = closings h c" for c
    using length_filter_update [OF assms(2), of "is_closing (uh_writers h) c" x] assms(3,5) by (simp add: closings_def)
  moreover have "\<forall>y \<in> set ((uh_calls h)[k := x]). call_ok (uh_writers h) y"
    using assms(1,4) set_update_subset_insert [of "uh_calls h" k x] by (auto simp: udp_inv_def)
  ultimately show ?thesis using assms(1) by (simp add: udp_inv_def closed_writers_def)
qed

lemma udp_inv_new_writer:
  assumes "udp_inv laddr h"
  shows "udp_inv laddr (h\<lparr>uh_writers := uh_writers h @ [\<lparr>wr_conn = conn, wr_closed = False\<rparr>]\<rparr>)"
proof -
  have "filter (is_closing (uh_writers h @ [w]) c) (uh_calls h) = filter (is_closing (uh_writers h) c) (uh_calls h)" for w c
    by (rule filter_cong) (use assms is_closing_append in \<open>auto simp: udp_inv_def\<close>)
  then show ?thesis using assms
    by (auto simp: udp_inv_def closings_def closed_writers_def call_ok_append nth_append intro: less_SucI)
qed

lemma udp_inv_failed_session:
  assumes "udp_inv laddr h"
  shows "udp_inv laddr (udp_close_session laddr conn (h\<lparr>uh_writers := uh_writers h @ [\<lparr>wr_conn = conn, wr_closed = True\<rparr>]\<rparr>))"
proof -
  have "filter (is_closing (uh_writers h @ [w]) c) (uh_calls h) = filter (is_closing (uh_writers h) c) (uh_calls h)" for w c
    by (rule filter_cong) (use assms is_closing_append in \<open>auto simp: udp_inv_def\<close>)
  then show ?thesis using assms
    by (auto simp: udp_inv_def closings_def closed_writers_def call_ok_append nth_append intro: less_SucI)
qed

lemma udp_inv_new_session:
  assumes "udp_inv laddr h" "k < length (uh_calls h)" "uh_calls h ! k = UcNew conn data"
  shows "udp_inv laddr (udp_new_session laddr k conn data r h)"
proof (cases r)
  case None
  let ?h = "h\<lparr>uh_writers := uh_writers h @ [\<lparr>wr_conn = conn, wr_closed = False\<rparr>]\<rparr>"
  have "udp_inv laddr (set_call k (UcStore conn (length (uh_writers h)) data) ?h)"
    by (rule udp_inv_call [OF udp_inv_new_writer [OF assms(1)]]) (use assms in \<open>simp_all add: nth_append\<close>)
  then show ?thesis using None by (simp add: udp_new_session_def)
next
  case (Some e)
  let ?h = "udp_close_session laddr conn (h\<lparr>uh_writers := uh_writers h @ [\<lparr>wr_conn = conn, wr_closed = True\<rparr>]\<rparr>)"
  have "udp_inv laddr (set_call k (UcReturned (Some e)) ?h)"
    by (rule udp_inv_call [OF udp_inv_failed_session [OF assms(1)]]) (use assms in simp_all)
  then show ?thesis using Some by (simp add: udp_new_session_def)
qed

lemma udp_inv_closing:
  assumes "udp_inv laddr h" "k < length (uh_calls h)" "uh_calls h ! k = UcClosing i"
  shows "udp_inv laddr (set_call k (UcReturned None) (udp_close_session laddr (wr_conn (uh_writers h ! i)) h))"
proof -
  let ?h = "set_call k (UcReturned None) (udp_close_session laddr (wr_conn (uh_writers h ! i)) h)"
  have cl: "closings ?h c + (if wr_conn (uh_writers h ! i) = c then 1 else 0) = closings h c" for c
    using length_filter_update [OF assms(2), of "is_closing (uh_writers h) c" "UcReturned None"] assms(3) by (simp add: closings_def)
  have "count_list (uh_conn_closed ?h) c + closings ?h c = count_list (uh_conn_closed h) c + closings h c" for c
    using cl [of c] by (cases "wr_conn (uh_writers h ! i) = c") simp_all
  moreover have "\<forall>y \<in> set ((uh_calls h)[k := UcReturned None]). call_ok (uh_writers h) y"
    using assms(1) set_update_subset_insert [of "uh_calls h" k "UcReturned None"] by (auto simp: udp_inv_def)
  ultimately show ?thesis using assms(1) by (simp add: udp_inv_def closed_writers_def)
qed

lemma udp_inv_writer_close:
  assumes "udp_inv laddr h" "i < length (uh_writers h)"
  shows "udp_inv laddr (fst (writer_close i h))"
proof (cases "wr_closed (uh_writers h ! i)")
  case False
  let ?w = "(uh_writers h ! i)\<lparr>wr_closed := True\<rparr>"
  let ?ws = "(uh_writers h)[i := ?w]"
  have "filter (is_closing ?ws c) (uh_calls h) = filter (is_closing (uh_writers h) c) (uh_calls h)" for c
    by (rule filter_cong) (use is_closing_close [OF assms(2)] in auto)
  moreover have "length (filter (\<lambda>w. wr_conn w = c \<and> wr_closed w) ?ws)
      = closed_writers h c + (if wr_conn (uh_writers h ! i) = c then 1 else 0)" for c
    using length_filter_update [OF assms(2), of "\<lambda>w. wr_conn w = c \<and> wr_closed w" ?w] False by (simp add: closed_writers_def)
  ultimately have "count_list (uh_conn_closed h) c + closings (fst (writer_close i h)) c = closed_writers (fst (writer_close i h)) c" for c
    using assms False by (simp add: writer_close_def udp_inv_def closings_def closed_writers_def)
  moreover have "\<forall>x \<in> set (uh_calls h). call_ok ?ws x" using assms call_ok_close by (auto simp: udp_inv_def)
  moreover have "wr_conn (?ws ! s) = wr_conn (uh_writers h ! s)" for s
    using assms(2) by (cases "s = i") auto
  ultimately show ?thesis using assms False by (simp add: udp_inv_def writer_close_def)
qed (use assms in \<open>simp add: writer_close_def\<close>)

lemma udp_inv_step:
  assumes "udp_inv laddr h" "udp_step laddr h e = Some h'"
  shows "udp_inv laddr h'"
proof (cases e)
  case (UeReceiveTo conn data)
  then show ?thesis using assms udp_inv_receive by auto
next
  case (UeClose i)
  then show ?thesis using assms udp_inv_writer_close by (auto split: if_splits)
next
  case (UeCall k r)
  then have k: "k < length (uh_calls h)" and h': "udp_call_step laddr k r h = Some h'"
    using assms(2) by (auto simp: udp_call_step_def split: if_splits)
  have ok: "call_ok (uh_writers h) (uh_calls h ! k)" using assms(1) k by (simp add: udp_inv_def)
  show ?thesis
  proof (cases "uh_calls h ! k")
    case (UcNew conn data)
    then show ?thesis using h' k udp_inv_new_session [OF assms(1) k UcNew, of r] by (auto simp: udp_call_step_def)
  next
    case (UcStore conn s data)
    let ?h = "h\<lparr>uh_senders := (uh_senders h)(laddr conn \<mapsto> s)\<rparr>"
    have "udp_inv laddr ?h" using assms(1) ok UcStore by (auto simp: udp_inv_def closings_def closed_writers_def)
    then have "udp_inv laddr (set_call k (UcWrite s data) ?h)" by (rule udp_inv_call) (use k ok UcStore in simp_all)
    then show ?thesis using h' k UcStore by (simp add: udp_call_step_def)
  next
    case (UcWrite s data)
    let ?h = "h\<lparr>uh_written := uh_written h @ [(s, data)]\<rparr>"
    have "udp_inv laddr ?h" using assms(1) by (auto simp: udp_inv_def closings_def closed_writers_def)
    then have "udp_inv laddr (set_call k (UcReturned r) ?h)" by (rule udp_inv_call) (use k UcWrite in simp_all)
    then show ?thesis using h' k UcWrite by (simp add: udp_call_step_def)
  next
    case (UcClosing i)
    then show ?thesis using h' k udp_inv_closing [OF assms(1) k UcClosing] by (auto simp: udp_call_step_def)
  qed (use h' k in \<open>simp add: udp_call_step_def\<close>)
qed

lemma udp_inv_run: "udp_run laddr h es = Some h' \<Longrightarrow> udp_inv laddr h \<Longrightarrow> udp_inv laddr h'"
proof (induction laddr h es rule: udp_run.induct)
  case (2 laddr h e es)
  then obtain h1 where h1: "udp_step laddr h e = Some h1" "udp_run laddr h1 es = Some h'" by (auto split: option.splits)
  then show ?case using 2 udp_inv_step by blast
qed simp

lemma udp_inv_init: "udp_inv laddr new_udp_handler"
  by (simp add: udp_inv_def new_udp_handler_def closings_def closed_writers_def)

text \<open>
  In every interleaving of the calls of \<^verbatim>\<open>ReceiveTo\<close> and of \<^verbatim>\<open>Close\<close> of the response writers, a connection was
  closed exactly as often as it has closed response writers, but for the closings still under way, and a
  local address is mapped to a sender whose session is of that address.
\<close>

theorem udp_writer_closes_once:
  assumes "udp_run laddr new_udp_handler es = Some h"
  shows "count_list (uh_conn_closed h) c + closings h c = closed_writers h c
    \<and> (\<forall>l s. uh_senders h l = Some s \<longrightarrow> s < length (uh_writers h) \<and> laddr (wr_conn (uh_writers h ! s)) = l)"
  using udp_inv_run [OF assms udp_inv_init] by (simp add: udp_inv_def)

text \<open>Two packets for one session, a second close of its writer, and a session that the proxy refuses.\<close>

definition udp_example :: "udp_event list" where
  "udp_example = [UeReceiveTo 5 [1], UeCall 0 None, UeCall 0 None, UeCall 0 None, UeReceiveTo 5 [2], UeCall 1 None,
     UeClose 0, UeClose 0, UeCall 2 None, UeReceiveTo 6 [3], UeCall 3 (Some EOF)]"

lemmas udp_eval = new_udp_handler_def udp_receive_to_def udp_call_step_def udp_new_session_def set_call_def
  udp_close_session_def writer_close_def Let_def

theorem udp_writer_closes_once_witness:
  "\<exists>h. udp_run (\<lambda>c. if c = 5 then ''a'' else ''b'') new_udp_handler udp_example = Some h
     \<and> count_list (uh_conn_closed h) 5 = 1 \<and> closings h 5 = 0 \<and> uh_written h = [(0, [1]), (0, [2])] \<and> uh_conn_closed h = [6, 5]"
proof -
  have "\<exists>h. udp_run (\<lambda>c. if c = 5 then ''a'' else ''b'') new_udp_handler udp_example = Some h
     \<and> closings h 5 = 0 \<and> closed_writers h 5 = 1 \<and> uh_written h = [(0, [1]), (0, [2])] \<and> uh_conn_closed h = [6, 5]"
    by (simp add: udp_example_def udp_eval closings_def closed_writers_def)
  then obtain h where h: "udp_run (\<lambda>c. if c = 5 then ''a'' else ''b'') new_udp_handler udp_example = Some h"
    "closings h 5 = 0" "closed_writers h 5 = 1" "uh_written h = [(0, [1]), (0, [2])]" "uh_conn_closed h = [6, 5]"
    by blast
  have "count_list (uh_conn_closed h) 5 = 1" using udp_writer_closes_once [OF h(1), of 5] h(2,3) by simp
  then show ?thesis using h by blast
qed

section \<open>A session that ends while it is being stored\<close>

text \<open>An address that is mapped to the sender of a closed session, with no other session of that address.\<close>

fun call_other :: "(nat \<Rightarrow> string) \<Rightarrow> response_writer list \<Rightarrow> string \<Rightarrow> udp_call \<Rightarrow> bool" where
  "call_other laddr ws l (UcNew conn data) = (laddr conn \<noteq> l)"
| "call_other laddr ws l (UcStore conn s data) = (laddr conn \<noteq> l)"
| "call_other laddr ws l (UcClosing i) = (i < length ws \<and> laddr (wr_conn (ws ! i)) \<noteq> l)"
| "call_other laddr ws l _ = True"

definition stale :: "(nat \<Rightarrow> string) \<Rightarrow> string \<Rightarrow> udp_handler \<Rightarrow> bool" where
  "stale laddr l h \<longleftrightarrow>
     uh_senders h l = Some 0 \<and> uh_writers h \<noteq> [] \<and> wr_closed (uh_writers h ! 0)
     \<and> (\<forall>x \<in> set (uh_calls h). call_other laddr (uh_writers h) l x)
     \<and> (\<forall>i < length (uh_writers h). i \<noteq> 0 \<longrightarrow> laddr (wr_conn (uh_writers h ! i)) \<noteq> l)"

lemma call_other_append: "call_other laddr ws l x \<Longrightarrow> call_other laddr (ws @ vs) l x"
  by (cases "(laddr, ws, l, x)" rule: call_other.cases) (auto simp: nth_append)

lemma stale_call:
  "stale laddr l h \<Longrightarrow> call_other laddr (uh_writers h) l x \<Longrightarrow> stale laddr l (set_call k x h)"
  using set_update_subset_insert [of "uh_calls h" k x] by (auto simp: stale_def)

lemma stale_new_writer:
  "stale laddr l h \<Longrightarrow> laddr conn \<noteq> l \<Longrightarrow> stale laddr l (h\<lparr>uh_writers := uh_writers h @ [\<lparr>wr_conn = conn, wr_closed = b\<rparr>]\<rparr>)"
  by (auto simp: stale_def nth_append call_other_append)

lemma stale_close_session: "stale laddr l h \<Longrightarrow> laddr conn \<noteq> l \<Longrightarrow> stale laddr l (udp_close_session laddr conn h)"
  by (simp add: stale_def)

lemma stale_step:
  assumes "stale laddr l h" "udp_step laddr h e = Some h'"
  shows "stale laddr l h'"
proof (cases e)
  case (UeReceiveTo conn data)
  then have "h' = udp_receive_to laddr conn data h" using assms(2) by simp
  moreover have "call_other laddr (uh_writers h) l (case uh_senders h (laddr conn) of None \<Rightarrow> UcNew conn data | Some s \<Rightarrow> UcWrite s data)"
    using assms(1) by (auto simp: stale_def split: option.split)
  ultimately show ?thesis using assms(1) by (simp add: stale_def udp_receive_to_def)
next
  case (UeClose i)
  then have i: "i < length (uh_writers h)" "h' = fst (writer_close i h)" using assms(2) by (auto split: if_splits)
  show ?thesis
  proof (cases "wr_closed (uh_writers h ! i)")
    case False
    let ?ws = "(uh_writers h)[i := (uh_writers h ! i)\<lparr>wr_closed := True\<rparr>]"
    have n0: "i \<noteq> 0" using assms(1) False by (cases "i = 0") (simp_all add: stale_def)
    have c: "wr_conn (?ws ! j) = wr_conn (uh_writers h ! j)" for j by (cases "i = j") (use i(1) in simp_all)
    have "call_other laddr ?ws l x" if "call_other laddr (uh_writers h) l x" for x
      using that by (cases "(laddr, uh_writers h, l, x)" rule: call_other.cases) (simp_all add: c)
    then show ?thesis using assms(1) i n0 False c by (simp add: stale_def writer_close_def)
  qed (use i assms(1) in \<open>simp add: writer_close_def\<close>)
next
  case (UeCall k r)
  then have k: "k < length (uh_calls h)" and h': "udp_call_step laddr k r h = Some h'"
    using assms(2) by (auto simp: udp_call_step_def split: if_splits)
  have ok: "call_other laddr (uh_writers h) l (uh_calls h ! k)" using assms(1) k by (simp add: stale_def)
  show ?thesis
  proof (cases "uh_calls h ! k")
    case (UcNew conn data)
    have h2: "h' = udp_new_session laddr k conn data r h" using h' k UcNew by (simp add: udp_call_step_def)
    have c: "laddr conn \<noteq> l" using ok UcNew by simp
    then show ?thesis using stale_new_writer [OF assms(1) c]
      by (cases r) (auto simp: h2 udp_new_session_def intro!: stale_call stale_close_session)
  next
    case (UcStore conn s data)
    have "stale laddr l (h\<lparr>uh_senders := (uh_senders h)(laddr conn \<mapsto> s)\<rparr>)" using assms(1) ok UcStore by (simp add: stale_def)
    then show ?thesis using h' k UcStore by (auto simp: udp_call_step_def intro: stale_call)
  next
    case (UcWrite s data)
    have "stale laddr l (h\<lparr>uh_written := uh_written h @ [(s, data)]\<rparr>)" using assms(1) by (simp add: stale_def)
    then show ?thesis using h' k UcWrite by (auto simp: udp_call_step_def intro: stale_call)
  next
    case (UcClosing i)
    then show ?thesis using h' k ok assms(1) by (auto simp: udp_call_step_def intro!: stale_call stale_close_session)
  qed (use h' k in \<open>simp add: udp_call_step_def\<close>)
qed

lemma stale_run: "udp_run laddr h es = Some h' \<Longrightarrow> stale laddr l h \<Longrightarrow> stale laddr l h'"
proof (induction laddr h es rule: udp_run.induct)
  case (2 laddr h e es)
  then obtain h1 where h1: "udp_step laddr h e = Some h1" "udp_run laddr h1 es = Some h'" by (auto split: option.splits)
  then show ?case using 2 stale_step by blast
qed simp

text \<open>The response writer is closed after \<^verbatim>\<open>NewSession\<close> returned and before the sender is stored.\<close>

definition stale_events :: "nat \<Rightarrow> bytes \<Rightarrow> udp_event list" where
  "stale_events conn data = [UeReceiveTo conn data, UeCall 0 None, UeClose 0, UeCall 1 None, UeCall 0 None]"

text \<open>
  When the proxy ends a session between \<^verbatim>\<open>NewSession\<close> and the second critical section of \<^verbatim>\<open>ReceiveTo\<close>, the sender of
  the ended session is stored and never removed: whatever happens later, every packet from that local address
  goes to it, and no new session is created for the address.
\<close>

theorem udp_stale_session:
  "\<exists>h. udp_run laddr new_udp_handler (stale_events conn data) = Some h \<and> wr_closed (uh_writers h ! 0) \<and> uh_conn_closed h = [conn]
     \<and> (\<forall>es h' c p. udp_run laddr h es = Some h' \<and> laddr c = laddr conn
          \<longrightarrow> uh_calls (udp_receive_to laddr c p h') = uh_calls h' @ [UcWrite 0 p])"
proof -
  let ?h = "\<lparr>uh_senders = [laddr conn \<mapsto> 0], uh_writers = [\<lparr>wr_conn = conn, wr_closed = True\<rparr>],
    uh_calls = [UcWrite 0 data, UcReturned None], uh_conn_closed = [conn], uh_sender_closed = [], uh_written = []\<rparr>"
  have r: "udp_run laddr new_udp_handler (stale_events conn data) = Some ?h"
    by (simp add: stale_events_def udp_eval)
  have "stale laddr (laddr conn) ?h" by (simp add: stale_def)
  then have "uh_senders h' (laddr conn) = Some 0" if "udp_run laddr ?h es = Some h'" for es h'
    using stale_run [OF that] by (simp add: stale_def)
  then show ?thesis using r by (intro exI [of _ ?h]) (auto simp: udp_receive_to_def)
qed

theorem udp_stale_session_witness:
  "\<exists>h. udp_run (\<lambda>c. ''10.0.0.2:53'') new_udp_handler (stale_events 5 [1]) = Some h
     \<and> uh_calls (udp_receive_to (\<lambda>c. ''10.0.0.2:53'') 9 [2] h) = uh_calls h @ [UcWrite 0 [2]]"
proof -
  obtain h where h: "udp_run (\<lambda>c. ''10.0.0.2:53'') new_udp_handler (stale_events 5 [1]) = Some h"
    and s: "\<forall>es h' c p. udp_run (\<lambda>c. ''10.0.0.2:53'') h es = Some h' \<and> ''10.0.0.2:53'' = ''10.0.0.2:53''
          \<longrightarrow> uh_calls (udp_receive_to (\<lambda>c. ''10.0.0.2:53'') c p h') = uh_calls h' @ [UcWrite 0 p]"
    using udp_stale_session [of "\<lambda>c. ''10.0.0.2:53''" 5 "[1]"] by blast
  show ?thesis using h s [rule_format, of "[]" h 9 "[2]"] by (intro exI [of _ h]) simp
qed

end
