(* ===== verification/Dnstt.thy ===== *)
theory Dnstt
  imports GoIO GoNet "HOL-Library.Signed_Division"
begin

text \<open>
  The queries of \<^verbatim>\<open>x/dnstt\<close>: how \<^verbatim>\<open>dnspacketconn.go\<close> puts a packet into the name of a DNS query, and how long a packet
  may be (\<^verbatim>\<open>dnstt.go\<close>). The codec of DNS messages is the package \<^verbatim>\<open>dnstt.git/dns\<close>, a parameter. The lemmas show
  that every packet up to the MTU of the tunnel fits and can be read back from the name.
\<close>

section \<open>Base32\<close>

text \<open>
  \<^verbatim>\<open>base32.StdEncoding\<close> without padding (RFC 4648): the bits of the bytes, the first bit first, in groups of five, the
  last one filled with zeros.
\<close>

definition byte_bits :: "byte \<Rightarrow> bool list" where
  "byte_bits b = rev (map (bit b) [0..<8])"

definition b32_char :: "nat \<Rightarrow> byte" where
  "b32_char v = word_of_nat (if v < 26 then 65 + v else 24 + v)"

definition five_bits :: "bool list \<Rightarrow> nat" where
  "five_bits bs = horner_sum of_bool 2 (rev (take 5 (bs @ replicate 5 False)))"

fun b32_groups :: "bool list \<Rightarrow> nat list" where
  "b32_groups [] = []"
| "b32_groups (b # bs) = five_bits (b # bs) # b32_groups (drop 4 bs)"

definition base32_encode :: "bytes \<Rightarrow> bytes" where
  "base32_encode bs = map b32_char (b32_groups (concat (map byte_bits bs)))"

text \<open>\<^verbatim>\<open>bytes.ToLower\<close> on ASCII.\<close>

definition lower_byte :: "byte \<Rightarrow> byte" where
  "lower_byte b = (if 65 \<le> b \<and> b \<le> 90 then b + 32 else b)"

section \<open>Queries\<close>

text \<open>\<^verbatim>\<open>chunks\<close>.\<close>

function chunks :: "bytes \<Rightarrow> nat \<Rightarrow> bytes list" where
  "chunks p n =
     (if p = [] \<or> n = 0 then []
      else take (if n < length p then n else length p) p # chunks (drop (if n < length p then n else length p) p) n)"
  by pat_completeness auto
termination by (relation "measure (\<lambda>(p, n). length p)") auto

declare chunks.simps [simp del]

definition numPadding :: nat where "numPadding = 3"
definition numPaddingForPoll :: nat where "numPaddingForPoll = 8"

text \<open>The bytes of a query before their encoding; \<open>pad\<close> is what \<^verbatim>\<open>rand.Reader\<close> gives.\<close>

definition padding_for :: "bytes \<Rightarrow> nat" where
  "padding_for p = (if p = [] then numPaddingForPoll else numPadding)"

definition query_bytes :: "bytes \<Rightarrow> (nat \<Rightarrow> err + bytes) \<Rightarrow> bytes \<Rightarrow> err + bytes" where
  "query_bytes client_id rand p =
     (if 224 \<le> length p then Inl (ErrNew ''payload too long'')
      else case rand (padding_for p) of
             Inl e \<Rightarrow> Inl e
           | Inr pad \<Rightarrow>
               Inr (client_id @ [word_of_nat (224 + padding_for p)] @ pad @ (if p = [] then [] else word_of_nat (length p) # p)))"

text \<open>The labels of the name that is asked for.\<close>

definition query_labels :: "bytes list \<Rightarrow> bytes \<Rightarrow> bytes list" where
  "query_labels domain decoded = chunks (map lower_byte (base32_encode decoded)) 63 @ domain"

text \<open>
  A message of package \<^verbatim>\<open>dns\<close> as far as it is used; the additional section of a query has one OPT record without data,
  whose class is the size of answers it takes.
\<close>

record tunnel_rr =
  tr_name :: "bytes list"
  tr_type :: nat
  tr_class :: nat
  tr_data :: bytes

record tunnel_message =
  tm_id :: nat
  tm_flags :: u16
  tm_question :: "(bytes list \<times> nat \<times> nat) list"
  tm_answer :: "tunnel_rr list"
  tm_additional :: "tunnel_rr list"

definition RRTypeTXT :: nat where "RRTypeTXT = 16"
definition RRTypeOPT :: nat where "RRTypeOPT = 41"
definition ClassIN :: nat where "ClassIN = 1"

record tunnel_codec =
  NewName :: "bytes list \<Rightarrow> err option"
  WireFormat :: "tunnel_message \<Rightarrow> err + bytes"
  FromWireFormat :: "bytes \<Rightarrow> err + tunnel_message"
  TrimSuffix :: "bytes list \<Rightarrow> bytes list \<Rightarrow> bytes list option"
  DecodeTXT :: "bytes \<Rightarrow> err + bytes"

definition tunnel_query :: "nat \<Rightarrow> bytes list \<Rightarrow> tunnel_message" where
  "tunnel_query i name =
     \<lparr>tm_id = i, tm_flags = 0x0100, tm_question = [(name, RRTypeTXT, ClassIN)], tm_answer = [],
      tm_additional = [\<lparr>tr_name = [], tr_type = RRTypeOPT, tr_class = 4096, tr_data = []\<rparr>]\<rparr>"

text \<open>\<^verbatim>\<open>send\<close>: the message that is given to \<^verbatim>\<open>WriteTo\<close> of the transport, or the error that comes before.\<close>

definition tunnel_send ::
  "tunnel_codec \<Rightarrow> bytes \<Rightarrow> bytes list \<Rightarrow> (nat \<Rightarrow> err + bytes) \<Rightarrow> (err + nat) \<Rightarrow> bytes \<Rightarrow> err + bytes" where
  "tunnel_send C client_id domain rand rand_id p =
     (case query_bytes client_id rand p of
        Inl e \<Rightarrow> Inl e
      | Inr decoded \<Rightarrow>
          (case NewName C (query_labels domain decoded) of
             Some e \<Rightarrow> Inl e
           | None \<Rightarrow> (case rand_id of
                        Inl e \<Rightarrow> Inl e
                      | Inr i \<Rightarrow> WireFormat C (tunnel_query i (query_labels domain decoded)))))"

section \<open>The size of packets\<close>

text \<open>\<^verbatim>\<open>dnsNameCapacity\<close>; the division of Go rounds towards zero.\<close>

definition dnsNameCapacity :: "bytes list \<Rightarrow> int" where
  "dnsNameCapacity domain =
     (let capacity = foldl (\<lambda>c label. c - (int (length label) + 1)) (255 - 1) domain in
      (capacity * 63) sdiv 64 * 5 sdiv 8)"

text \<open>The MTU that \<^verbatim>\<open>dialSession\<close> gives to KCP.\<close>

definition tunnel_mtu :: "bytes list \<Rightarrow> err + int" where
  "tunnel_mtu domain =
     (let mtu = dnsNameCapacity domain - 8 - 1 - int numPadding - 1 in
      if mtu < 80 then Inl (ErrNew ''dnstt: domain leaves too few bytes for payload'') else Inr mtu)"

text \<open>The rules of DNS names: labels of 1 to 63 bytes, and 255 bytes at most, with the lengths and the last zero.\<close>

definition name_size :: "bytes list \<Rightarrow> nat" where
  "name_size labels = sum_list (map (\<lambda>l. Suc (length l)) labels) + 1"

definition name_ok :: "bytes list \<Rightarrow> bool" where
  "name_ok labels \<longleftrightarrow> (\<forall>l \<in> set labels. 1 \<le> length l \<and> length l \<le> 63) \<and> name_size labels \<le> 255"

lemma concat_chunks: "0 < n \<Longrightarrow> concat (chunks p n) = p"
proof (induction p n rule: chunks.induct)
  case (1 p n)
  then show ?case by (subst chunks.simps) auto
qed

lemma chunks_lengths: "l \<in> set (chunks p n) \<Longrightarrow> 1 \<le> length l \<and> length l \<le> n"
proof (induction p n rule: chunks.induct)
  case (1 p n)
  show ?case
  proof (cases "p = [] \<or> n = 0")
    case True
    then show ?thesis using 1 by (subst (asm) chunks.simps) simp
  next
    case False
    then have "l = take (if n < length p then n else length p) p \<or> l \<in> set (chunks (drop (if n < length p then n else length p) p) n)"
      using 1(2) by (subst (asm) chunks.simps) simp
    then show ?thesis using 1(1) [OF False] False by (cases p) auto
  qed
qed

lemma length_chunks: "0 < n \<Longrightarrow> length (chunks p n) = (length p + n - 1) div n"
proof (induction p n rule: chunks.induct)
  case (1 p n)
  show ?case
  proof (cases "p = []")
    case True
    then show ?thesis using 1(2) by (subst chunks.simps) simp
  next
    case False
    let ?k = "if n < length p then n else length p"
    have c: "chunks p n = take ?k p # chunks (drop ?k p) n" using False 1(2) by (subst chunks.simps) simp
    have "length (chunks (drop ?k p) n) = (length p - ?k + n - 1) div n" using 1 False by simp
    then have "length (chunks p n) = Suc ((length p - ?k + n - 1) div n)" using c by simp
    moreover have "Suc ((length p - ?k + n - 1) div n) = (length p + n - 1) div n"
    proof (cases "n < length p")
      case True
      then have e: "length p + n - 1 = length p - 1 + n" "length p - n + n - 1 = length p - 1" by simp_all
      have "(length p - 1 + n) div n = (length p - 1) div n + 1" by (rule div_add_self2) (use 1(2) in simp)
      then show ?thesis unfolding e using True e(2) by simp
    next
      case no: False
      have "0 < length p" using False by simp
      have e: "length p + n - 1 = length p - 1 + n" using False by (cases p) simp_all
      have "(length p + n - 1) div n = 1 + (length p - 1) div n" "(length p - 1) div n = 0" unfolding e
        using no 1(2) div_add_self2 [of n "length p - 1"] by auto
      then show ?thesis using no 1(2) by simp
    qed
    ultimately show ?thesis by simp
  qed
qed

lemma name_size_chunks: "0 < n \<Longrightarrow> sum_list (map (\<lambda>l. Suc (length l)) (chunks p n)) = length p + (length p + n - 1) div n"
proof -
  assume n: "0 < n"
  have "sum_list (map (\<lambda>l. Suc (length l)) ls) = length (concat ls) + length ls" for ls :: "bytes list"
    by (induction ls) auto
  then show ?thesis using concat_chunks [OF n] length_chunks [OF n] by simp
qed

lemma length_b32_groups: "length (b32_groups bs) = (length bs + 4) div 5"
proof (induction bs rule: b32_groups.induct)
  case (2 b bs)
  then show ?case by (cases "length bs < 4") (auto simp: div_add_self2 [symmetric] le_div_geq)
qed simp

lemma length_byte_bits [simp]: "length (byte_bits b) = 8"
  by (simp add: byte_bits_def)

lemma length_bits [simp]: "length (concat (map byte_bits bs)) = 8 * length bs"
  by (induction bs) auto

lemma length_base32: "length (base32_encode bs) = (8 * length bs + 4) div 5"
  by (simp add: base32_encode_def length_b32_groups)

lemma sdiv_nonneg: "0 \<le> x \<Longrightarrow> 0 < k \<Longrightarrow> x sdiv k = x div (k :: int)"
  by (auto simp: signed_divide_int_def sgn_if)

lemma capacity_eq:
  "name_size domain \<le> 255 \<Longrightarrow> dnsNameCapacity domain = int ((255 - name_size domain) * 63 div 64 * 5 div 8)"
proof -
  assume d: "name_size domain \<le> 255"
  have f: "foldl (\<lambda>c label. c - (int (length label) + 1)) c ls = c - int (sum_list (map (\<lambda>l. Suc (length l)) ls))" for c and ls :: "bytes list"
    by (induction ls arbitrary: c) auto
  have "foldl (\<lambda>c label. c - (int (length label) + 1)) (255 - 1) domain = int (255 - name_size domain)"
    using d by (simp add: f name_size_def)
  moreover have "int a * 63 sdiv 64 * 5 sdiv 8 = int (a * 63 div 64 * 5 div 8)" for a
    by (simp add: sdiv_nonneg zdiv_int)
  ultimately show ?thesis by (simp add: dnsNameCapacity_def Let_def)
qed

text \<open>The arithmetic of the two encodings.\<close>

lemma capacity_fits:
  fixes cap D :: nat
  assumes "D \<le> cap * 63 div 64 * 5 div 8"
  shows "(8 * D + 4) div 5 + ((8 * D + 4) div 5 + 62) div 63 \<le> cap"
proof -
  define c where "c = cap * 63 div 64"
  define E where "E = (8 * D + 4) div 5"
  have "8 * D \<le> 5 * c" using assms by (fold c_def) (simp add: less_eq_div_iff_mult_less_eq mult.commute)
  then have "E \<le> c" by (simp add: E_def)
  then have "64 * E \<le> 63 * cap" by (simp add: c_def less_eq_div_iff_mult_less_eq mult.commute)
  then have "(E + 62) div 63 \<le> cap - E" by linarith
  then show ?thesis using \<open>64 * E \<le> 63 * cap\<close> unfolding E_def by linarith
qed

section \<open>Queries carry packets\<close>

text \<open>How a name is read: base32 back to bytes, the identifier of the client, padding, and packets after their length.\<close>

definition b32_val :: "byte \<Rightarrow> nat" where
  "b32_val c = (if 97 \<le> c then unat c - 97 else unat c - 24)"

definition five_of :: "nat \<Rightarrow> bool list" where
  "five_of v = rev (map (bit v) [0..<5])"

fun whole_bytes :: "bool list \<Rightarrow> bytes" where
  "whole_bytes (a # b # c # d # e # f # g # h # bs) = horner_sum of_bool 2 [h, g, f, e, d, c, b, a] # whole_bytes bs"
| "whole_bytes _ = []"

definition base32_decode :: "bytes \<Rightarrow> bytes" where
  "base32_decode cs = whole_bytes (concat (map (five_of \<circ> b32_val) cs))"

fun tunnel_packets :: "bytes \<Rightarrow> bytes list" where
  "tunnel_packets [] = []"
| "tunnel_packets (b # bs) =
     (if 224 \<le> unat b then tunnel_packets (drop (unat b - 224) bs)
      else take (unat b) bs # tunnel_packets (drop (unat b) bs))"

definition read_query :: "bytes list \<Rightarrow> bytes list \<Rightarrow> bytes \<times> bytes list" where
  "read_query domain labels =
     (let decoded = base32_decode (concat (take (length labels - length domain) labels)) in
      (take 8 decoded, tunnel_packets (drop 8 decoded)))"

lemma five_of_bits: "length bs = 5 \<Longrightarrow> five_of (horner_sum of_bool 2 (rev bs)) = bs"
  by (rule nth_equalityI) (auto simp: five_of_def rev_nth bit_horner_sum_bit_iff)

lemma five_bits_less: "five_bits bs < 32"
proof -
  have "horner_sum of_bool 2 xs < (2 :: nat) ^ length xs" for xs :: "bool list"
    by (induction xs) auto
  from this [of "rev (take 5 (bs @ replicate 5 False))"] show ?thesis by (simp add: five_bits_def del: take_append rev_append)
qed

lemma b32_val_char: "v < 32 \<Longrightarrow> b32_val (lower_byte (b32_char v)) = v"
proof -
  have "list_all (\<lambda>v. b32_val (lower_byte (b32_char v)) = v) [0..<32]" by code_simp
  then show "v < 32 \<Longrightarrow> ?thesis" by (simp add: list_all_iff)
qed

lemma five_groups: "\<exists>z. length z < 5 \<and> concat (map five_of (b32_groups bs)) = bs @ z"
proof (induction bs rule: b32_groups.induct)
  case (2 b bs)
  let ?t = "take 5 ((b # bs) @ replicate 5 False)"
  have t: "five_of (five_bits (b # bs)) = ?t" unfolding five_bits_def by (rule five_of_bits) simp
  obtain z where z: "length z < 5" "concat (map five_of (b32_groups (drop 4 bs))) = drop 4 bs @ z" using 2 by blast
  show ?case
  proof (cases "4 \<le> length bs")
    case True
    then have "?t @ drop 4 bs = b # bs" by simp
    then show ?thesis using t z by (intro exI [of _ z]) simp
  next
    case False
    then have "?t = b # bs @ replicate (4 - length bs) False" by (simp add: take_Cons')
    then show ?thesis using t z False by (intro exI [of _ "replicate (4 - length bs) False"]) simp
  qed
qed simp

lemma whole_bytes_append: "length z < 8 \<Longrightarrow> whole_bytes (concat (map byte_bits bs) @ z) = bs"
proof (induction bs)
  case Nil
  then show ?case by (cases z rule: whole_bytes.cases) auto
next
  case (Cons b bs)
  have "byte_bits b = [bit b 7, bit b 6, bit b 5, bit b 4, bit b 3, bit b 2, bit b 1, bit b 0]"
    by (simp add: byte_bits_def upt_rec numeral_eq_Suc)
  moreover have "horner_sum of_bool 2 (map (bit b) [0..<8]) = b"
    by (simp only: horner_sum_bit_eq_take_bit) (simp add: take_bit_word_eq_self)
  then have "horner_sum of_bool 2 [bit b 0, bit b 1, bit b 2, bit b 3, bit b 4, bit b 5, bit b 6, bit b 7] = b"
    by (simp add: upt_rec numeral_eq_Suc)
  ultimately show ?case using Cons by simp
qed

lemma base32_roundtrip: "base32_decode (map lower_byte (base32_encode bs)) = bs"
proof -
  have "map (five_of \<circ> b32_val) (map lower_byte (base32_encode bs)) = map five_of (b32_groups (concat (map byte_bits bs)))"
  proof -
    have "\<forall>v \<in> set (b32_groups xs). v < 32" for xs
      by (induction xs rule: b32_groups.induct) (auto simp: five_bits_less)
    then show ?thesis by (simp add: base32_encode_def b32_val_char)
  qed
  moreover obtain z where "length z < 5" "concat (map five_of (b32_groups (concat (map byte_bits bs)))) = concat (map byte_bits bs) @ z"
    using five_groups by blast
  ultimately show ?thesis using whole_bytes_append [of z bs] by (simp add: base32_decode_def)
qed

lemma query_bytes_Inr:
  assumes "query_bytes cid rand p = Inr decoded" "\<And>n pad. rand n = Inr pad \<Longrightarrow> length pad = n"
  obtains pad where "length p < 224" "length pad = padding_for p"
    "decoded = cid @ [word_of_nat (224 + padding_for p)] @ pad @ (if p = [] then [] else word_of_nat (length p) # p)"
  using assms by (auto simp: query_bytes_def split: if_splits sum.splits)

lemma query_bytes_length:
  assumes "query_bytes cid rand p = Inr decoded" "length cid = 8" "\<And>n pad. rand n = Inr pad \<Longrightarrow> length pad = n"
  shows "length decoded = (if p = [] then 17 else 13 + length p)"
proof -
  obtain pad where "length pad = padding_for p"
    and "decoded = cid @ [word_of_nat (224 + padding_for p)] @ pad @ (if p = [] then [] else word_of_nat (length p) # p)"
    using query_bytes_Inr [OF assms(1,3)] by blast
  then show ?thesis using assms(2) by (simp add: padding_for_def numPadding_def numPaddingForPoll_def)
qed

lemma read_query_labels:
  "read_query domain (query_labels domain decoded) = (take 8 decoded, tunnel_packets (drop 8 decoded))"
  by (simp add: read_query_def query_labels_def concat_chunks base32_roundtrip)

lemma padding_byte: "unat (word_of_nat (224 + padding_for p) :: byte) = 224 + padding_for p"
  by (simp add: unat_byte padding_for_def numPadding_def numPaddingForPoll_def)

lemma read_query_bytes:
  assumes "query_bytes cid rand p = Inr decoded" "length cid = 8" "\<And>n pad. rand n = Inr pad \<Longrightarrow> length pad = n"
  shows "read_query domain (query_labels domain decoded) = (cid, if p = [] then [] else [p])"
proof -
  obtain pad where p: "length p < 224" "length pad = padding_for p"
    and d: "decoded = cid @ [word_of_nat (224 + padding_for p)] @ pad @ (if p = [] then [] else word_of_nat (length p) # p)"
    using query_bytes_Inr [OF assms(1,3)] by blast
  have "unat (word_of_nat (length p) :: byte) = length p" using p(1) by (simp add: unat_byte)
  then have "tunnel_packets (drop 8 decoded) = (if p = [] then [] else [p])"
    using p padding_byte [of p] by (simp add: d assms(2) del: of_nat_add)
  moreover have "take 8 decoded = cid" by (simp add: d assms(2))
  ultimately show ?thesis by (simp add: read_query_labels)
qed

lemma query_labels_ok:
  assumes "name_ok domain" "length decoded \<le> (255 - name_size domain) * 63 div 64 * 5 div 8"
  shows "name_ok (query_labels domain decoded)"
proof -
  let ?cs = "chunks (map lower_byte (base32_encode decoded)) 63"
  have "sum_list (map (\<lambda>l. Suc (length l)) ?cs) \<le> 255 - name_size domain"
    using capacity_fits [OF assms(2)] by (simp add: name_size_chunks length_base32)
  moreover have "sum_list (map (\<lambda>l. Suc (length l)) domain) \<le> 254" using assms(1) by (simp add: name_ok_def name_size_def)
  ultimately have "name_size (query_labels domain decoded) \<le> 255" by (simp add: name_size_def query_labels_def)
  then show ?thesis using assms(1) by (auto simp: name_ok_def query_labels_def dest: chunks_lengths)
qed

text \<open>
  C30: every packet up to the MTU that the tunnel sets, and every poll, fits into the name of a query: \<^verbatim>\<open>send\<close> does not
  refuse it, the name it builds is a valid DNS name, and whoever reads the name gets the identifier of the
  client and that packet.
\<close>

theorem dnstt_query_fits:
  assumes "name_ok domain" "tunnel_mtu domain = Inr mtu" "int (length p) \<le> mtu" "length cid = 8"
    and "rand (padding_for p) = Inr pad" "\<And>n pad. rand n = Inr pad \<Longrightarrow> length pad = n"
  shows "\<exists>decoded. query_bytes cid rand p = Inr decoded \<and> name_ok (query_labels domain decoded)
     \<and> read_query domain (query_labels domain decoded) = (cid, if p = [] then [] else [p])"
proof -
  let ?c = "(255 - name_size domain) * 63 div 64 * 5 div 8"
  have "name_size domain \<le> 255" using assms(1) by (simp add: name_ok_def)
  then have mtu: "mtu = int ?c - 13" "80 \<le> mtu"
    using assms(2) by (simp_all add: tunnel_mtu_def capacity_eq numPadding_def Let_def split: if_splits)
  have "?c \<le> 157" by linarith
  then have l: "length p < 224" using assms(3) mtu(1) by linarith
  then obtain decoded where d: "query_bytes cid rand p = Inr decoded" using assms(5) by (simp add: query_bytes_def)
  have "length decoded \<le> ?c"
    using query_bytes_length [OF d assms(4,6)] assms(3) mtu by (auto split: if_splits)
  then show ?thesis using d query_labels_ok [OF assms(1)] read_query_bytes [OF d assms(4,6)] by blast
qed

text \<open>\<^verbatim>\<open>t.example.com\<close>, and padding with zeros.\<close>

definition demo_domain :: "bytes list" where
  "demo_domain = [str_bytes ''t'', str_bytes ''example'', str_bytes ''com'']"

theorem dnstt_query_fits_witness:
  "\<exists>decoded. query_bytes [1, 2, 3, 4, 5, 6, 7, 8] (\<lambda>n. Inr (replicate n 0)) [9, 10] = Inr decoded
     \<and> read_query demo_domain (query_labels demo_domain decoded) = ([1, 2, 3, 4, 5, 6, 7, 8], [[9, 10]])"
proof -
  have n: "name_ok demo_domain" and m: "tunnel_mtu demo_domain = Inr 134"
    by (simp_all add: name_ok_def name_size_def demo_domain_def tunnel_mtu_def dnsNameCapacity_def str_bytes_def numPadding_def
        Let_def sdiv_nonneg)
  show ?thesis
    using dnstt_query_fits [OF n m, of "[9, 10]" "[1, 2, 3, 4, 5, 6, 7, 8]" "\<lambda>n. Inr (replicate n 0)" "replicate 3 0"]
    by (auto simp: padding_for_def numPadding_def)
qed

end
