(* ===== verification/DnsttTransport.thy ===== *)
theory DnsttTransport
  imports Dnstt
begin

text \<open>
  The receiving side of \<^verbatim>\<open>x/dnstt/dnspacketconn.go\<close> and its polling, and the message transports over TLS
  (\<^verbatim>\<open>dotpacketconn.go\<close>), HTTPS (\<^verbatim>\<open>dohpacketconn.go\<close>) and a resolver of the SDK (\<^verbatim>\<open>resolverpacketconn.go\<close>).
\<close>

section \<open>Packets after their length\<close>

text \<open>The length as two bytes and then that many bytes; the errors are those of \<^verbatim>\<open>binary.Read\<close> and \<^verbatim>\<open>io.ReadFull\<close>.\<close>

definition frame_length :: "source \<Rightarrow> source \<times> (err + nat)" where
  "frame_length r =
     (case read_full r 2 of
        (r', _, Some e) \<Rightarrow> (r', Inl e)
      | (r', bs, None) \<Rightarrow> (r', Inr (get_u16 bs)))"

text \<open>\<^verbatim>\<open>nextPacket\<close>.\<close>

definition nextPacket :: "source \<Rightarrow> source \<times> (err + bytes)" where
  "nextPacket r =
     (case frame_length r of
        (r1, Inl e) \<Rightarrow> (r1, Inl e)
      | (r1, Inr n) \<Rightarrow>
          (case read_full r1 n of
             (r2, p, None) \<Rightarrow> (r2, Inr p)
           | (r2, p, Some e) \<Rightarrow> (r2, Inl (if e = EOF then UnexpectedEOF else e))))"

text \<open>One round of the receive loop over TLS; the end of the stream before a length is no error.\<close>

definition dot_next :: "source \<Rightarrow> source \<times> (err option + bytes)" where
  "dot_next br =
     (case frame_length br of
        (r1, Inl e) \<Rightarrow> (r1, Inl (if e = EOF then None else Some e))
      | (r1, Inr n) \<Rightarrow>
          (case read_full r1 n of
             (r2, p, None) \<Rightarrow> (r2, Inr p)
           | (r2, p, Some e) \<Rightarrow> (r2, Inl (Some e))))"

lemma frame_length_Inr: "frame_length r = (r1, Inr n) \<Longrightarrow> length (src_bytes r1) + 2 = length (src_bytes r)"
proof -
  assume f: "frame_length r = (r1, Inr n)"
  obtain r' bs e where r: "read_full r 2 = (r', bs, e)" by (metis prod_cases3)
  have "e = None" "r' = r1" using f r by (auto simp: frame_length_def split: option.splits)
  then show ?thesis using read_full_bytes [OF r] read_full_ok [of r 2 r' bs] r by simp
qed

lemma nextPacket_Inr: "nextPacket r = (r2, Inr p) \<Longrightarrow> length (src_bytes r2) < length (src_bytes r)"
proof -
  assume "nextPacket r = (r2, Inr p)"
  then obtain r1 n where f: "frame_length r = (r1, Inr n)" and "read_full r1 n = (r2, p, None)"
    by (auto simp: nextPacket_def split: prod.splits sum.splits option.splits)
  then show ?thesis using frame_length_Inr [OF f] read_full_bytes [of r1 n r2 p None] by simp
qed

lemma dot_next_Inr: "dot_next r = (r2, Inr p) \<Longrightarrow> length (src_bytes r2) < length (src_bytes r)"
proof -
  assume "dot_next r = (r2, Inr p)"
  then obtain r1 n where f: "frame_length r = (r1, Inr n)" and "read_full r1 n = (r2, p, None)"
    by (auto simp: dot_next_def split: prod.splits sum.splits option.splits)
  then show ?thesis using frame_length_Inr [OF f] read_full_bytes [of r1 n r2 p None] by simp
qed

text \<open>The inner loop of \<^verbatim>\<open>recvLoop\<close>: the packets that are queued.\<close>

function payload_packets :: "source \<Rightarrow> bytes list" where
  "payload_packets r = (case nextPacket r of (r2, Inr p) \<Rightarrow> p # payload_packets r2 | (_, Inl _) \<Rightarrow> [])"
  by pat_completeness auto
termination by (relation "measure (\<lambda>r. length (src_bytes r))") (auto dest: nextPacket_Inr [OF sym])

declare payload_packets.simps [simp del]

text \<open>\<^verbatim>\<open>recvLoop\<close> of the TLS transport: the packets that are queued, and what it returns.\<close>

function dot_recv :: "source \<Rightarrow> bytes list \<times> err option" where
  "dot_recv br =
     (case dot_next br of
        (r2, Inr p) \<Rightarrow> (case dot_recv r2 of (ps, e) \<Rightarrow> (p # ps, e))
      | (_, Inl e) \<Rightarrow> ([], e))"
  by pat_completeness auto
termination by (relation "measure (\<lambda>r. length (src_bytes r))") (auto dest: dot_next_Inr [OF sym])

declare dot_recv.simps [simp del]

text \<open>\<^verbatim>\<open>sendLoop\<close> of the TLS transport: the messages of the queue; the ones whose length has no two bytes are dropped.\<close>

definition dot_frame :: "bytes \<Rightarrow> bytes" where
  "dot_frame p = put_u16 (length p) @ p"

fun dot_send :: "'s writer \<Rightarrow> 's \<Rightarrow> bytes list \<Rightarrow> 's \<times> err option" where
  "dot_send wr s [] = (s, None)"
| "dot_send wr s (p # ps) =
     (if 65536 \<le> length p then dot_send wr s ps
      else case wr s (dot_frame p) of
             (s', _, Some e) \<Rightarrow> (s', Some e)
           | (s', _, None) \<Rightarrow> dot_send wr s' ps)"

section \<open>Answers\<close>

text \<open>\<^verbatim>\<open>dnsResponsePayload\<close>.\<close>

definition dnsResponsePayload :: "tunnel_codec \<Rightarrow> tunnel_message \<Rightarrow> bytes list \<Rightarrow> bytes" where
  "dnsResponsePayload C resp domain =
     (if tm_flags resp AND 0x8000 \<noteq> 0x8000 then []
      else if tm_flags resp AND 0x000f \<noteq> 0 then []
      else case tm_answer resp of
             [answer] \<Rightarrow>
               (case TrimSuffix C (tr_name answer) domain of
                  None \<Rightarrow> []
                | Some _ \<Rightarrow>
                    if tr_type answer \<noteq> RRTypeTXT then []
                    else (case DecodeTXT C (tr_data answer) of Inl _ \<Rightarrow> [] | Inr payload \<Rightarrow> payload))
           | _ \<Rightarrow> [])"

text \<open>
  One message in \<^verbatim>\<open>recvLoop\<close>, which reads it into a buffer of 4096 bytes, so that a longer one is cut: the packets that
  are queued.
\<close>

definition recvBufSize :: nat where "recvBufSize = 4096"

definition tunnel_receive :: "tunnel_codec \<Rightarrow> bytes list \<Rightarrow> bytes \<Rightarrow> bytes list" where
  "tunnel_receive C domain buf =
     (case FromWireFormat C (take recvBufSize buf) of
        Inl _ \<Rightarrow> []
      | Inr resp \<Rightarrow> payload_packets (bytes_reader (dnsResponsePayload C resp domain)))"

section \<open>Polling\<close>

definition pollLimit :: nat where "pollLimit = 16"
definition initPollDelay :: nat where "initPollDelay = 500"
definition maxPollDelay :: nat where "maxPollDelay = 10000"

text \<open>
  \<open>po_tokens\<close> is what is in \<^verbatim>\<open>pollChan\<close>, \<open>po_delay\<close> is \<^verbatim>\<open>pollDelay\<close> in milliseconds; for the properties the queries that
  were sent for a token or an expired timer, and the answers with packets.
\<close>

record poller =
  po_tokens :: nat
  po_delay :: nat
  po_token_polls :: nat
  po_timer_polls :: nat
  po_answers :: nat

definition new_poller :: poller where
  "new_poller = \<lparr>po_tokens = 0, po_delay = initPollDelay, po_token_polls = 0, po_timer_polls = 0, po_answers = 0\<rparr>"

text \<open>What wakes the send loop: a packet of the queue, a token, the timer; and the end of an answer in the receive loop.\<close>

datatype poll_event = PwPacket bytes | PwToken | PwTimer | PwAnswer "bytes list"

text \<open>
  \<open>PwAnswer\<close> puts a token if there were packets and there is room. A token wakes the loop only if there is one; the
  state after a step is the one in which \<^verbatim>\<open>send\<close> is called and the timer runs for \<open>po_delay\<close>.
\<close>

fun poll_step :: "poller \<Rightarrow> poll_event \<Rightarrow> poller option" where
  "poll_step s (PwAnswer ps) =
     Some (if ps = [] then s
           else s\<lparr>po_answers := po_answers s + 1,
                  po_tokens := (if po_tokens s < pollLimit then po_tokens s + 1 else po_tokens s)\<rparr>)"
| "poll_step s (PwPacket p) =
     Some (s\<lparr>po_tokens := (if p \<noteq> [] \<and> 0 < po_tokens s then po_tokens s - 1 else po_tokens s), po_delay := initPollDelay\<rparr>)"
| "poll_step s PwToken =
     (if 0 < po_tokens s
      then Some (s\<lparr>po_tokens := po_tokens s - 1, po_delay := initPollDelay, po_token_polls := po_token_polls s + 1\<rparr>)
      else None)"
| "poll_step s PwTimer =
     Some (s\<lparr>po_delay := (if maxPollDelay < po_delay s * 2 then maxPollDelay else po_delay s * 2),
             po_timer_polls := po_timer_polls s + 1\<rparr>)"

fun poll_run :: "poller \<Rightarrow> poll_event list \<Rightarrow> poller option" where
  "poll_run s [] = Some s"
| "poll_run s (e # es) = (case poll_step s e of None \<Rightarrow> None | Some s' \<Rightarrow> poll_run s' es)"

section \<open>HTTPS\<close>

definition second :: nat where "second = 1000000000"
definition defaultRetryAfter :: nat where "defaultRetryAfter = 10 * second"

text \<open>
  \<^verbatim>\<open>parseRetryAfter\<close>; times are nanoseconds since the zero time, \<open>parse_time\<close> is \<^verbatim>\<open>http.ParseTime\<close>.
\<close>

definition parseRetryAfter :: "(string \<Rightarrow> nat option) \<Rightarrow> string \<Rightarrow> nat \<Rightarrow> err + nat" where
  "parseRetryAfter parse_time value now =
     (case parse_time value of
        Some t \<Rightarrow> Inr t
      | None \<Rightarrow> (case parse_uint 32 value of Inl e \<Rightarrow> Inl e | Inr i \<Rightarrow> Inr (now + i * second)))"

text \<open>The answer of the server as \<^verbatim>\<open>send\<close> looks at it; \<open>hr_body\<close> is what \<^verbatim>\<open>io.ReadAll\<close> gives of the body.\<close>

record http_answer =
  hr_status :: nat
  hr_content_type :: string
  hr_retry_after :: string
  hr_body :: "err + bytes"

definition doh_retry_at :: "(string \<Rightarrow> nat option) \<Rightarrow> http_answer \<Rightarrow> nat \<Rightarrow> nat" where
  "doh_retry_at parse_time resp now =
     (let retryAfter = (if hr_retry_after resp \<noteq> []
                        then (case parseRetryAfter parse_time (hr_retry_after resp) now of Inl _ \<Rightarrow> 0 | Inr t \<Rightarrow> t) else 0) in
      if retryAfter = 0 then now + defaultRetryAfter else retryAfter)"

text \<open>\<^verbatim>\<open>send\<close> after the request: the new \<^verbatim>\<open>notBefore\<close>, the message that is queued, and the error.\<close>

definition doh_answer ::
  "(string \<Rightarrow> nat option) \<Rightarrow> (err + http_answer) \<Rightarrow> nat \<Rightarrow> nat \<Rightarrow> nat \<times> bytes option \<times> err option" where
  "doh_answer parse_time r now notBefore =
     (case r of
        Inl e \<Rightarrow> (notBefore, None, Some e)
      | Inr resp \<Rightarrow>
          if hr_status resp = 200
          then if hr_content_type resp \<noteq> ''application/dns-message''
               then (notBefore, None, Some (ErrNew ''unknown DoH content-type''))
               else (notBefore, (case hr_body resp of Inl _ \<Rightarrow> None | Inr body \<Rightarrow> Some (take 64000 body)), None)
          else let retryAfter = doh_retry_at parse_time resp now in
               (if now \<le> retryAfter \<and> notBefore \<le> retryAfter then retryAfter else notBefore, None, None))"

text \<open>
  The senders share \<^verbatim>\<open>notBefore\<close>. One takes a message of the queue, and drops it or makes a request; later the answer
  comes. For the properties, the times at which requests were made.
\<close>

record doh =
  dh_not_before :: nat
  dh_requests :: nat
  dh_incoming :: "bytes list"
  dh_sent_at :: "nat list"

definition new_doh :: doh where
  "new_doh = \<lparr>dh_not_before = 0, dh_requests = 0, dh_incoming = [], dh_sent_at = []\<rparr>"

datatype doh_event = DhMessage nat | DhAnswer nat "err + http_answer"

fun doh_step :: "(string \<Rightarrow> nat option) \<Rightarrow> doh \<Rightarrow> doh_event \<Rightarrow> doh option" where
  "doh_step pt d (DhMessage t) =
     Some (if t < dh_not_before d then d else d\<lparr>dh_requests := dh_requests d + 1, dh_sent_at := dh_sent_at d @ [t]\<rparr>)"
| "doh_step pt d (DhAnswer now r) =
     (if 0 < dh_requests d
      then (case doh_answer pt r now (dh_not_before d) of
              (n, q, _) \<Rightarrow> Some (d\<lparr>dh_not_before := n, dh_requests := dh_requests d - 1,
                                  dh_incoming := dh_incoming d @ (case q of None \<Rightarrow> [] | Some body \<Rightarrow> [body])\<rparr>))
      else None)"

fun doh_run :: "(string \<Rightarrow> nat option) \<Rightarrow> doh \<Rightarrow> doh_event list \<Rightarrow> doh option" where
  "doh_run pt d [] = Some d"
| "doh_run pt d (e # es) = (case doh_step pt d e of None \<Rightarrow> None | Some d' \<Rightarrow> doh_run pt d' es)"

section \<open>A resolver\<close>

text \<open>
  \<^verbatim>\<open>query\<close> of \<^verbatim>\<open>resolverPacketConn\<close>: the message that is queued; \<open>name_text\<close> is \<^verbatim>\<open>Name.String\<close>, \<open>question\<close> is
  \<^verbatim>\<open>NewQuestion\<close>, \<open>query\<close> asks the resolver, \<open>pack\<close> is \<^verbatim>\<open>Pack\<close> of its answer.
\<close>

definition resolver_query ::
  "tunnel_codec \<Rightarrow> (bytes list \<Rightarrow> string) \<Rightarrow> (string \<Rightarrow> nat \<Rightarrow> err + 'q) \<Rightarrow> ('q \<Rightarrow> err + 'm) \<Rightarrow> ('m \<Rightarrow> err + bytes) \<Rightarrow> bytes \<Rightarrow> err + bytes" where
  "resolver_query C name_text question query pack buf =
     (case FromWireFormat C buf of
        Inl e \<Rightarrow> Inl e
      | Inr msg \<Rightarrow>
          (case tm_question msg of
             [(name, typ, cls)] \<Rightarrow>
               (case question (name_text name) typ of
                  Inl e \<Rightarrow> Inl e
                | Inr q \<Rightarrow> (case query q of Inl e \<Rightarrow> Inl e | Inr resp \<Rightarrow> pack resp))
           | _ \<Rightarrow> Inl (ErrNew ''dnstt: query must have exactly one question'')))"

section \<open>Packets arrive as they were sent\<close>

text \<open>Bytes that hold no whole packet.\<close>

definition no_frame :: "bytes \<Rightarrow> bool" where
  "no_frame rest \<longleftrightarrow> length rest < 2 \<or> length rest < 2 + get_u16 rest"

text \<open>The error that the receive loop over TLS returns when the stream ends with \<open>rest\<close>.\<close>

definition dot_end :: "bytes \<Rightarrow> err option" where
  "dot_end rest = (if rest = [] then None else if length rest = 2 then Some EOF else Some UnexpectedEOF)"

lemma frame_length_clean:
  assumes "clean r"
  shows "\<exists>r'. clean r' \<and> src_bytes r' = drop 2 (src_bytes r)
    \<and> frame_length r = (r', if 2 \<le> length (src_bytes r) then Inr (get_u16 (take 2 (src_bytes r)))
                            else Inl (if src_bytes r = [] then EOF else UnexpectedEOF))"
  using read_full_clean_eq [OF assms, of 2] by (auto simp: frame_length_def)

lemma get_u16_take [simp]: "get_u16 (take 2 bs) = get_u16 bs"
  by (cases bs rule: get_u16.cases) auto

lemma dot_frame_simps [simp]: "length (dot_frame p) = 2 + length p" "drop 2 (dot_frame p) = p"
  "length p < 65536 \<Longrightarrow> get_u16 (dot_frame p) = length p"
  by (simp_all add: dot_frame_def)

lemma get_u16_frame: "length p < 65536 \<Longrightarrow> get_u16 (dot_frame p @ rest) = length p"
  by (simp add: dot_frame_def)

lemma next_frame:
  assumes "clean r" "src_bytes r = dot_frame p @ rest" "length p < 65536"
  shows "\<exists>r'. clean r' \<and> src_bytes r' = rest \<and> nextPacket r = (r', Inr p) \<and> dot_next r = (r', Inr p)"
proof -
  obtain r1 where r1: "clean r1" "src_bytes r1 = p @ rest" "frame_length r = (r1, Inr (length p))"
    using frame_length_clean [OF assms(1)] get_u16_frame [OF assms(3)] by (auto simp: assms(2,3))
  obtain r2 where "clean r2" "src_bytes r2 = rest" "read_full r1 (length p) = (r2, p, None)"
    using read_full_clean_eq [OF r1(1), of "length p"] r1(2) by auto
  then show ?thesis using r1(3) by (auto simp: nextPacket_def dot_next_def)
qed

lemma next_no_frame:
  assumes "clean r" "no_frame (src_bytes r)"
  shows "(\<exists>r' e. nextPacket r = (r', Inl e)) \<and> (\<exists>r'. dot_next r = (r', Inl (dot_end (src_bytes r))))"
proof -
  obtain r1 where r1: "clean r1" "src_bytes r1 = drop 2 (src_bytes r)"
    and f: "frame_length r = (r1, if 2 \<le> length (src_bytes r) then Inr (get_u16 (src_bytes r))
              else Inl (if src_bytes r = [] then EOF else UnexpectedEOF))"
    using frame_length_clean [OF assms(1)] by auto
  show ?thesis
  proof (cases "2 \<le> length (src_bytes r)")
    case False
    then show ?thesis using f by (auto simp: nextPacket_def dot_next_def dot_end_def)
  next
    case True
    have "\<not> get_u16 (src_bytes r) \<le> length (src_bytes r1)" using True assms(2) r1(2) by (simp add: no_frame_def)
    then obtain r2 where "read_full r1 (get_u16 (src_bytes r)) = (r2, take (get_u16 (src_bytes r)) (src_bytes r1),
        if src_bytes r1 = [] then Some EOF else Some UnexpectedEOF)"
      using read_full_clean_eq [OF r1(1), of "get_u16 (src_bytes r)"] by auto
    then show ?thesis using f True r1(2) by (auto simp: nextPacket_def dot_next_def dot_end_def)
  qed
qed

lemma payload_packets_frames:
  "clean r \<Longrightarrow> src_bytes r = concat (map dot_frame ps) @ rest \<Longrightarrow> no_frame rest \<Longrightarrow> \<forall>p \<in> set ps. length p < 65536
   \<Longrightarrow> payload_packets r = ps"
proof (induction ps arbitrary: r)
  case Nil
  then show ?case using next_no_frame [of r] by (subst payload_packets.simps) auto
next
  case (Cons p ps)
  then obtain r' where "clean r'" "src_bytes r' = concat (map dot_frame ps) @ rest" "nextPacket r = (r', Inr p)"
    using next_frame [of r p "concat (map dot_frame ps) @ rest"] by auto
  then show ?case using Cons by (subst payload_packets.simps) simp
qed

lemma dot_recv_frames:
  "clean r \<Longrightarrow> src_bytes r = concat (map dot_frame ps) @ rest \<Longrightarrow> no_frame rest \<Longrightarrow> \<forall>p \<in> set ps. length p < 65536
   \<Longrightarrow> dot_recv r = (ps, dot_end rest)"
proof (induction ps arbitrary: r)
  case Nil
  then show ?case using next_no_frame [of r] by (subst dot_recv.simps) auto
next
  case (Cons p ps)
  then obtain r' where "clean r'" "src_bytes r' = concat (map dot_frame ps) @ rest" "dot_next r = (r', Inr p)"
    using next_frame [of r p "concat (map dot_frame ps) @ rest"] by auto
  then show ?case using Cons by (subst dot_recv.simps) simp
qed

lemma dot_send_wire:
  "healthy s \<Longrightarrow> \<exists>s'. dot_send sink_write s ms = (s', None) \<and> healthy s'
     \<and> wire s' = wire s @ concat (map dot_frame (filter (\<lambda>p. length p < 65536) ms))"
proof (induction ms arbitrary: s)
  case (Cons m ms)
  then show ?case
  proof (cases "65536 \<le> length m")
    case False
    from Cons.prems have "healthy (s\<lparr>sent := sent s @ [dot_frame m]\<rparr>)" by simp
    from Cons.IH [OF this] show ?thesis using False Cons.prems by auto
  qed simp
qed simp

text \<open>
  C33: the messages that are given to the transport over TLS arrive in order and unchanged, in whatever pieces the
  stream comes, but for those of 65536 bytes or more, which are dropped; a stream that ends inside a message
  gives the whole messages and an error.
\<close>

theorem dot_stream_roundtrip:
  assumes "healthy s" "wire s = []" "dot_send sink_write s ms = (s', e)" "clean src" "src_bytes src = wire s' @ rest" "no_frame rest"
  shows "e = None \<and> dot_recv src = (filter (\<lambda>p. length p < 65536) ms, dot_end rest)"
proof -
  obtain s1 where s1: "dot_send sink_write s ms = (s1, None)"
    and w: "wire s1 = wire s @ concat (map dot_frame (filter (\<lambda>p. length p < 65536) ms))"
    using dot_send_wire [OF assms(1), of ms] by blast
  have e: "s' = s1" "e = None" using s1 unfolding assms(3) by (simp_all only: prod.inject)
  have src: "src_bytes src = concat (map dot_frame (filter (\<lambda>p. length p < 65536) ms)) @ rest"
    using assms(5) unfolding e(1) w assms(2) by (simp only: append_Nil)
  have "dot_recv src = (filter (\<lambda>p. length p < 65536) ms, dot_end rest)"
    by (rule dot_recv_frames [OF assms(4) src assms(6)]) (simp only: set_filter mem_Collect_eq, blast)
  then show ?thesis using e(2) by blast
qed

theorem dot_stream_roundtrip_witness:
  "snd (dot_send sink_write fresh_sink [[1, 2], []]) = None
   \<and> dot_recv [Chunk [0] None, Chunk [2, 1] None, Chunk [2, 0, 0, 0, 3] None, Chunk [7] None] = ([[1, 2], []], Some UnexpectedEOF)"
proof -
  obtain s' where s': "dot_send sink_write fresh_sink [[1, 2], []] = (s', None)" "wire s' = [0, 2, 1, 2, 0, 0]"
    by (simp add: fresh_sink_def dot_frame_def put_u16_def wire_def healthy_def)
  have "dot_recv [Chunk [0] None, Chunk [2, 1] None, Chunk [2, 0, 0, 0, 3] None, Chunk [7] None]
      = (filter (\<lambda>p. length p < 65536) [[1, 2], []], dot_end [0, 3, 7])"
    by (rule conjunct2 [OF dot_stream_roundtrip [OF healthy_fresh wire_fresh s'(1)]]) (simp_all add: s'(2) no_frame_def)
  then show ?thesis by (simp add: s'(1) dot_end_def)
qed

text \<open>
  An answer with one TXT record below the domain of the tunnel gives the packets that its text holds, each after
  its length; a packet that is cut off at the end is left out, and an answer to another name, with an error code
  or with another number of records gives none.
\<close>

theorem dnstt_answer_packets:
  assumes "FromWireFormat C (take recvBufSize buf) = Inr resp"
  shows "tunnel_receive C domain buf = payload_packets (bytes_reader (dnsResponsePayload C resp domain))
    \<and> (dnsResponsePayload C resp domain = concat (map dot_frame ps) @ rest \<and> no_frame rest \<and> (\<forall>p \<in> set ps. length p < 65536)
         \<longrightarrow> tunnel_receive C domain buf = ps)
    \<and> (tunnel_receive C domain buf \<noteq> []
         \<longrightarrow> (\<exists>a name. tm_answer resp = [a] \<and> TrimSuffix C (tr_name a) domain = Some name \<and> tr_type a = RRTypeTXT
               \<and> DecodeTXT C (tr_data a) = Inr (dnsResponsePayload C resp domain)
               \<and> tm_flags resp AND 0x800f = 0x8000))"
proof (intro conjI impI)
  show r: "tunnel_receive C domain buf = payload_packets (bytes_reader (dnsResponsePayload C resp domain))"
    using assms by (simp add: tunnel_receive_def)
  show "tunnel_receive C domain buf = ps"
    if "dnsResponsePayload C resp domain = concat (map dot_frame ps) @ rest \<and> no_frame rest \<and> (\<forall>p \<in> set ps. length p < 65536)"
    unfolding r using that by (intro payload_packets_frames [of _ ps rest]) simp_all
  have "payload_packets (bytes_reader []) = []" by (rule payload_packets_frames [of _ _ "[]"]) (simp_all add: no_frame_def)
  moreover assume "tunnel_receive C domain buf \<noteq> []"
  ultimately have ne: "dnsResponsePayload C resp domain \<noteq> []" using r by metis
  have "tm_flags resp AND 0x800f = (tm_flags resp AND 0x8000) OR (tm_flags resp AND 0x000f)"
    by (simp flip: bit.conj_disj_distrib)
  then show "\<exists>a name. tm_answer resp = [a] \<and> TrimSuffix C (tr_name a) domain = Some name \<and> tr_type a = RRTypeTXT
      \<and> DecodeTXT C (tr_data a) = Inr (dnsResponsePayload C resp domain) \<and> tm_flags resp AND 0x800f = 0x8000"
    using ne by (auto simp: dnsResponsePayload_def split: if_splits list.splits option.splits sum.splits)
qed

text \<open>A message whose only record is a TXT record with the packets in it, as a codec that copies the data would read it.\<close>

definition copy_codec :: "tunnel_message \<Rightarrow> tunnel_codec" where
  "copy_codec m = \<lparr>NewName = (\<lambda>_. None), WireFormat = (\<lambda>_. Inr []), FromWireFormat = (\<lambda>_. Inr m),
     TrimSuffix = (\<lambda>n d. if n = d then Some [] else None), DecodeTXT = Inr\<rparr>"

definition demo_answer :: tunnel_message where
  "demo_answer = \<lparr>tm_id = 1, tm_flags = 0x8180, tm_question = [],
     tm_answer = [\<lparr>tr_name = demo_domain, tr_type = 16, tr_class = 1, tr_data = [0, 1, 7, 0, 2, 8, 9, 0, 5, 1]\<rparr>], tm_additional = []\<rparr>"

theorem dnstt_answer_packets_witness:
  "tunnel_receive (copy_codec demo_answer) demo_domain [] = [[7], [8, 9]]"
proof -
  have c: "FromWireFormat (copy_codec demo_answer) (take recvBufSize []) = Inr demo_answer" by (simp add: copy_codec_def)
  have "dnsResponsePayload (copy_codec demo_answer) demo_answer demo_domain = concat (map dot_frame [[7], [8, 9]]) @ [0, 5, 1]"
    by (simp add: dnsResponsePayload_def demo_answer_def copy_codec_def RRTypeTXT_def dot_frame_def put_u16_def)
  moreover have "no_frame [0, 5, 1] \<and> (\<forall>p \<in> set [[7], [8, 9 :: byte]]. length p < 65536)" by (simp add: no_frame_def)
  ultimately show ?thesis using dnstt_answer_packets [OF c, of demo_domain "[[7], [8, 9]]" "[0, 5, 1]"] by blast
qed

section \<open>The pace of the queries\<close>

definition poll_inv :: "poller \<Rightarrow> bool" where
  "poll_inv s \<longleftrightarrow> po_tokens s \<le> pollLimit \<and> initPollDelay \<le> po_delay s \<and> po_delay s \<le> maxPollDelay
     \<and> po_token_polls s + po_tokens s \<le> po_answers s"

lemmas poll_defs = pollLimit_def initPollDelay_def maxPollDelay_def

lemma poll_inv_step: "poll_inv s \<Longrightarrow> poll_step s e = Some s' \<Longrightarrow> poll_inv s'"
  by (cases e) (auto simp: poll_inv_def poll_defs split: if_splits)

lemma poll_inv_run: "poll_run s es = Some s' \<Longrightarrow> poll_inv s \<Longrightarrow> poll_inv s'"
proof (induction s es rule: poll_run.induct)
  case (2 s e es)
  then show ?case using poll_inv_step by (auto split: option.splits)
qed simp

lemma poll_backoff: "\<exists>s'. poll_run s (replicate n PwTimer) = Some s' \<and> po_delay s' = (if n = 0 then po_delay s else min maxPollDelay (po_delay s * 2 ^ n))"
proof (induction n arbitrary: s)
  case (Suc n)
  let ?s = "s\<lparr>po_delay := (if maxPollDelay < po_delay s * 2 then maxPollDelay else po_delay s * 2), po_timer_polls := po_timer_polls s + 1\<rparr>"
  obtain s' where s': "poll_run ?s (replicate n PwTimer) = Some s'"
    and d: "po_delay s' = (if n = 0 then po_delay ?s else min maxPollDelay (po_delay ?s * 2 ^ n))"
    using Suc [of ?s] by blast
  have "po_delay s' = min maxPollDelay (po_delay s * 2 ^ Suc n)"
  proof (cases "maxPollDelay < po_delay s * 2")
    case True
    have "po_delay s * 2 * 1 \<le> po_delay s * 2 * 2 ^ n" by (rule mult_le_mono2) simp
    then have "maxPollDelay \<le> po_delay s * 2 * 2 ^ n" using True by linarith
    then have "maxPollDelay \<le> maxPollDelay * 2 ^ n" "maxPollDelay \<le> po_delay s * 2 ^ Suc n"
      by (simp_all add: mult.assoc)
    then show ?thesis using True d by (simp add: min_absorb1 del: power_Suc)
  next
    case False
    then show ?thesis using d by (simp add: mult.assoc)
  qed
  then show ?case using s' by simp
qed simp

text \<open>
  Whatever packets, answers and timers come, a poll for an answer needs an answer with packets of its own, at most
  16 of them wait, and the timer runs between half a second and ten seconds; without traffic its delay doubles each time up
  to ten seconds, and a packet or an answer sets it back.
\<close>

theorem dnstt_poll_bounds:
  assumes "poll_run new_poller es = Some s"
  shows "po_tokens s \<le> 16 \<and> po_token_polls s + po_tokens s \<le> po_answers s \<and> 500 \<le> po_delay s \<and> po_delay s \<le> 10000
    \<and> (\<exists>s'. poll_run s (replicate (Suc n) PwTimer) = Some s' \<and> po_delay s' = min 10000 (po_delay s * 2 ^ Suc n))
    \<and> (\<forall>p s'. poll_step s (PwPacket p) = Some s' \<or> poll_step s PwToken = Some s' \<longrightarrow> po_delay s' = 500)"
proof -
  have inv: "poll_inv s" by (rule poll_inv_run [OF assms]) (simp add: poll_inv_def new_poller_def poll_defs)
  have b: "\<exists>s'. poll_run s (replicate (Suc n) PwTimer) = Some s' \<and> po_delay s' = min 10000 (po_delay s * 2 ^ Suc n)"
    using poll_backoff [of s "Suc n"] unfolding maxPollDelay_def by (simp only: nat.simps if_False)
  have "po_delay s' = 500" if "poll_step s (PwPacket p) = Some s' \<or> poll_step s PwToken = Some s'" for p s'
    using that by (auto simp: poll_defs split: if_splits)
  then show ?thesis using inv b unfolding poll_inv_def poll_defs by blast
qed

theorem dnstt_poll_bounds_witness:
  "\<exists>s s'. poll_run new_poller [PwPacket [1], PwAnswer [[2], [3]], PwToken, PwTimer] = Some s \<and> po_delay s = 1000
     \<and> po_token_polls s + po_tokens s \<le> po_answers s \<and> poll_run s (replicate (Suc 3) PwTimer) = Some s' \<and> po_delay s' = 10000"
proof -
  obtain s where s: "poll_run new_poller [PwPacket [1], PwAnswer [[2], [3]], PwToken, PwTimer] = Some s" and d: "po_delay s = 1000"
    by (simp add: new_poller_def poll_defs)
  note t = dnstt_poll_bounds [OF s, of 3]
  obtain s' where "poll_run s (replicate (Suc 3) PwTimer) = Some s'" "po_delay s' = min 10000 (po_delay s * 2 ^ Suc 3)"
    using t by blast
  moreover have "min 10000 (po_delay s * 2 ^ Suc 3) = 10000" by (simp add: d)
  ultimately show ?thesis using s d t by metis
qed

lemma doh_answer_monotone: "doh_answer pt r now nb = (n, q, e) \<Longrightarrow> nb \<le> n"
  by (auto simp: doh_answer_def Let_def split: sum.splits if_splits)

lemma doh_step_sent:
  "doh_step pt d e = Some d' \<Longrightarrow> dh_not_before d \<le> dh_not_before d'
   \<and> (\<exists>ts. dh_sent_at d' = dh_sent_at d @ ts \<and> (\<forall>t \<in> set ts. dh_not_before d \<le> t))"
  by (cases e) (auto dest: doh_answer_monotone split: if_splits prod.splits)

lemma doh_run_sent:
  "doh_run pt d es = Some d' \<Longrightarrow> dh_not_before d \<le> dh_not_before d'
   \<and> (\<exists>ts. dh_sent_at d' = dh_sent_at d @ ts \<and> (\<forall>t \<in> set ts. dh_not_before d \<le> t))"
proof (induction pt d es rule: doh_run.induct)
  case (2 pt d e es)
  then obtain d1 where d1: "doh_step pt d e = Some d1" "doh_run pt d1 es = Some d'" by (auto split: option.splits)
  obtain ts where ts: "dh_sent_at d' = dh_sent_at d1 @ ts" "\<forall>t \<in> set ts. dh_not_before d1 \<le> t" "dh_not_before d1 \<le> dh_not_before d'"
    using 2(1) [OF d1(1)] d1(2) by blast
  obtain us where us: "dh_sent_at d1 = dh_sent_at d @ us" "\<forall>t \<in> set us. dh_not_before d \<le> t" "dh_not_before d \<le> dh_not_before d1"
    using doh_step_sent [OF d1(1)] by blast
  have "\<forall>t \<in> set (us @ ts). dh_not_before d \<le> t" using ts(2) us(2,3) by (auto dest: order_trans)
  then show ?case using ts us by auto
qed simp

text \<open>
  When a server of the HTTPS transport answers with another status than 200, no request is made before the time it asks
  for, or for ten seconds, whatever the concurrent senders and other answers do; an answer never shortens the wait.
\<close>

theorem doh_backs_off:
  assumes "doh_step pt d (DhAnswer now (Inr resp)) = Some d1" "hr_status resp \<noteq> 200" "now \<le> doh_retry_at pt resp now"
    and "doh_run pt d1 es = Some d2"
  shows "(\<exists>ts. dh_sent_at d2 = dh_sent_at d @ ts \<and> (\<forall>t \<in> set ts. doh_retry_at pt resp now \<le> t))
    \<and> dh_not_before d \<le> dh_not_before d1 \<and> dh_not_before d1 \<le> dh_not_before d2 \<and> dh_incoming d1 = dh_incoming d"
proof -
  have d1: "doh_retry_at pt resp now \<le> dh_not_before d1 \<and> dh_sent_at d1 = dh_sent_at d \<and> dh_incoming d1 = dh_incoming d"
    using assms(1-3) by (auto simp: doh_answer_def Let_def split: if_splits)
  obtain ts where ts: "dh_sent_at d2 = dh_sent_at d1 @ ts" "\<forall>t \<in> set ts. dh_not_before d1 \<le> t" "dh_not_before d1 \<le> dh_not_before d2"
    using doh_run_sent [OF assms(4)] by blast
  have "\<forall>t \<in> set ts. doh_retry_at pt resp now \<le> t" using ts(2) d1 by (auto dest: order_trans)
  then show ?thesis using ts d1 doh_step_sent [OF assms(1)] by auto
qed

definition demo_busy :: http_answer where
  "demo_busy = \<lparr>hr_status = 429, hr_content_type = [], hr_retry_after = ''2'', hr_body = Inr []\<rparr>"

theorem doh_backs_off_witness:
  "\<exists>d2. doh_run (\<lambda>_. None) (new_doh\<lparr>dh_requests := 1\<rparr>)
          [DhAnswer 5 (Inr demo_busy), DhMessage 2000000004, DhMessage 2000000005] = Some d2
     \<and> dh_sent_at d2 = [2000000005]"
proof -
  let ?d = "new_doh\<lparr>dh_requests := 1\<rparr>"
  have r: "doh_retry_at (\<lambda>_. None) demo_busy 5 = 2000000005"
    by (simp add: doh_retry_at_def demo_busy_def parseRetryAfter_def parse_uint_def digit_val_def second_def)
  have st: "hr_status demo_busy = 429" by (simp add: demo_busy_def)
  have a: "doh_answer (\<lambda>_. None) (Inr demo_busy) 5 0 = (2000000005, None, None)" by (simp add: doh_answer_def Let_def r st)
  let ?d1 = "new_doh\<lparr>dh_not_before := 2000000005\<rparr>"
  have d1: "doh_step (\<lambda>_. None) ?d (DhAnswer 5 (Inr demo_busy)) = Some ?d1"
    by (simp add: new_doh_def a)
  let ?d2 = "?d1\<lparr>dh_requests := 1, dh_sent_at := [2000000005]\<rparr>"
  have d2: "doh_run (\<lambda>_. None) ?d1 [DhMessage 2000000004, DhMessage 2000000005] = Some ?d2"
    by (simp add: new_doh_def)
  have "hr_status demo_busy \<noteq> 200" by (simp add: st)
  from doh_backs_off [OF d1 this _ d2] have "\<forall>t \<in> set (dh_sent_at ?d2). 2000000005 \<le> t" by (auto simp: r new_doh_def)
  then have "dh_sent_at ?d2 = [2000000005]" by simp
  then show ?thesis using d1 d2 by auto
qed

end
