(* ===== verification/DnsttDialer.thy ===== *)
theory DnsttDialer
  imports GoPrelude GoBooks
begin

text \<open>
  The dialer of \<^verbatim>\<open>x/dnstt/dnstt.go\<close>: one session, made when it is first needed, is shared by all streams. The calls of
  \<^verbatim>\<open>DialStream\<close>, which dial outside the lock and may be given up, are the parts of a machine; the lemmas say which of
  them owns the transport of a session.
\<close>

section \<open>Making a session\<close>

text \<open>What \<^verbatim>\<open>dialSession\<close> opens: the message transport, the packet connection over it, the KCP connection, the session.\<close>

datatype resource = ResTransport | ResPacketConn | ResKcp | ResSession

text \<open>
  How its steps go: the results of \<^verbatim>\<open>openTransport\<close>, the test of the MTU, \<^verbatim>\<open>NewConn2\<close>, \<^verbatim>\<open>SetMtu\<close>, the handshake and
  \<^verbatim>\<open>smux.Client\<close>.
\<close>

record session_steps =
  st_transport :: "err option"
  st_mtu :: "err option"
  st_kcp :: "err option"
  st_set_mtu :: "err option"
  st_noise :: "err option"
  st_smux :: "err option"

text \<open>The error, what was opened and what was closed, in order; and \<^verbatim>\<open>closeFns\<close>.\<close>

definition dialSession :: "session_steps \<Rightarrow> (err + resource list) \<times> resource list \<times> resource list" where
  "dialSession r =
     (case st_transport r of
        Some e \<Rightarrow> (Inl e, [], [])
      | None \<Rightarrow>
     (case st_mtu r of
        Some e \<Rightarrow> (Inl e, [ResTransport, ResPacketConn], [ResPacketConn, ResTransport])
      | None \<Rightarrow>
     (case st_kcp r of
        Some e \<Rightarrow> (Inl (ErrWrap ''dnstt: open KCP'' e), [ResTransport, ResPacketConn], [ResPacketConn, ResTransport])
      | None \<Rightarrow>
     (case st_set_mtu r of
        Some e \<Rightarrow> (Inl e, [ResTransport, ResPacketConn, ResKcp], [ResKcp, ResPacketConn, ResTransport])
      | None \<Rightarrow>
     (case st_noise r of
        Some e \<Rightarrow> (Inl (ErrWrap ''dnstt: Noise handshake'' e), [ResTransport, ResPacketConn, ResKcp], [ResKcp, ResPacketConn, ResTransport])
      | None \<Rightarrow>
     (case st_smux r of
        Some e \<Rightarrow> (Inl (ErrWrap ''dnstt: open smux'' e), [ResTransport, ResPacketConn, ResKcp], [ResKcp, ResPacketConn, ResTransport])
      | None \<Rightarrow> (Inr [ResSession, ResKcp, ResPacketConn, ResTransport], [ResTransport, ResPacketConn, ResKcp, ResSession], [])))))))"

text \<open>A failed attempt leaves nothing open, and a successful one can close all it opened.\<close>

lemma dialSession_resources:
  "case dialSession r of (Inl _, opened, closed) \<Rightarrow> set closed = set opened
                       | (Inr fns, opened, closed) \<Rightarrow> closed = [] \<and> set fns = set opened"
  by (auto simp: dialSession_def split: option.split)

section \<open>The dialer\<close>

text \<open>Whether a session is not closed (it may also close on its own), and whether its transport was closed.\<close>

record tunnel_session =
  tn_open :: bool
  tn_transport :: bool

text \<open>
  A call of \<^verbatim>\<open>DialStream\<close>: waiting for \<^verbatim>\<open>dialSession\<close>; the same with a caller that is gone; with the result in the channel, with
  and without caller; about to close a session that another call forestalled; with a session; returned; cleaned up.
\<close>

datatype dial_call =
    DcDialing
  | DcAbandoned
  | DcDialed nat
  | DcOrphan nat
  | DcDiscard nat nat
  | DcGot nat
  | DcReturned "err + nat"
  | DcEnded

record tunnel_dialer =
  td_sess :: "nat option"
  td_fns :: "nat list"
  td_sessions :: "tunnel_session list"
  td_calls :: "dial_call list"

definition new_tunnel_dialer :: tunnel_dialer where
  "new_tunnel_dialer = \<lparr>td_sess = None, td_fns = [], td_sessions = [], td_calls = []\<rparr>"

definition session_open :: "tunnel_dialer \<Rightarrow> nat \<Rightarrow> bool" where
  "session_open d i \<longleftrightarrow> tn_open (td_sessions d ! i)"

text \<open>\<^verbatim>\<open>Close\<close> of a session, and all its \<^verbatim>\<open>closeFns\<close>.\<close>

definition close_session :: "nat \<Rightarrow> tunnel_session list \<Rightarrow> tunnel_session list" where
  "close_session i ss = ss[i := (ss ! i)\<lparr>tn_open := False\<rparr>]"

definition close_all :: "nat \<Rightarrow> tunnel_session list \<Rightarrow> tunnel_session list" where
  "close_all i ss = ss[i := \<lparr>tn_open = False, tn_transport = False\<rparr>]"

text \<open>The first critical section of \<^verbatim>\<open>session\<close>.\<close>

definition dialer_start :: "tunnel_dialer \<Rightarrow> tunnel_dialer" where
  "dialer_start d =
     (case td_sess d of
        Some s \<Rightarrow>
          if session_open d s then d\<lparr>td_calls := td_calls d @ [DcGot s]\<rparr>
          else d\<lparr>td_sessions := close_session s (td_sessions d), td_sess := None, td_calls := td_calls d @ [DcDialing]\<rparr>
      | None \<Rightarrow> d\<lparr>td_calls := td_calls d @ [DcDialing]\<rparr>)"

definition put_call :: "nat \<Rightarrow> dial_call \<Rightarrow> tunnel_dialer \<Rightarrow> tunnel_dialer" where
  "put_call k c d = d\<lparr>td_calls := (td_calls d)[k := c]\<rparr>"

text \<open>\<^verbatim>\<open>dialSession\<close> ends, with an error or a new session.\<close>

definition dialer_dialed :: "nat \<Rightarrow> err option \<Rightarrow> tunnel_dialer \<Rightarrow> tunnel_dialer option" where
  "dialer_dialed k r d =
     (if k < length (td_calls d)
      then (let i = length (td_sessions d);
                d' = d\<lparr>td_sessions := td_sessions d @ [\<lparr>tn_open = True, tn_transport = True\<rparr>]\<rparr> in
            case td_calls d ! k of
              DcDialing \<Rightarrow> Some (case r of Some e \<Rightarrow> put_call k (DcReturned (Inl e)) d | None \<Rightarrow> put_call k (DcDialed i) d')
            | DcAbandoned \<Rightarrow> Some (case r of Some e \<Rightarrow> put_call k DcEnded d | None \<Rightarrow> put_call k (DcOrphan i) d')
            | _ \<Rightarrow> None)
      else None)"

text \<open>The context of a call is done before it takes the result.\<close>

definition dialer_cancel :: "nat \<Rightarrow> tunnel_dialer \<Rightarrow> tunnel_dialer option" where
  "dialer_cancel k d =
     (if k < length (td_calls d)
      then (case td_calls d ! k of
              DcDialing \<Rightarrow> Some (put_call k DcAbandoned d)
            | DcDialed i \<Rightarrow> Some (put_call k (DcOrphan i) d)
            | _ \<Rightarrow> None)
      else None)"

text \<open>
  The next step of a call: the second critical section of \<^verbatim>\<open>session\<close>, the closing of a session that is not used, and
  \<^verbatim>\<open>OpenStream\<close>, whose error makes the dialer forget the session.
\<close>

definition dialer_next :: "nat \<Rightarrow> err option \<Rightarrow> tunnel_dialer \<Rightarrow> tunnel_dialer option" where
  "dialer_next k r d =
     (if k < length (td_calls d)
      then (case td_calls d ! k of
              DcDialed i \<Rightarrow>
                (case td_sess d of
                   Some s \<Rightarrow>
                     if session_open d s then Some (put_call k (DcDiscard i s) d)
                     else Some (put_call k (DcGot i) (d\<lparr>td_sess := Some i, td_fns := td_fns d @ [i]\<rparr>))
                 | None \<Rightarrow> Some (put_call k (DcGot i) (d\<lparr>td_sess := Some i, td_fns := td_fns d @ [i]\<rparr>)))
            | DcDiscard i s \<Rightarrow> Some (put_call k (DcGot s) (d\<lparr>td_sessions := close_all i (td_sessions d)\<rparr>))
            | DcOrphan i \<Rightarrow> Some (put_call k DcEnded (d\<lparr>td_sessions := close_all i (td_sessions d)\<rparr>))
            | DcGot s \<Rightarrow>
                (case r of
                   None \<Rightarrow> Some (put_call k (DcReturned (Inr s)) d)
                 | Some e \<Rightarrow> Some (put_call k (DcReturned (Inl (ErrWrap ''dnstt: open stream'' e)))
                               (d\<lparr>td_sess := (if td_sess d = Some s then None else td_sess d)\<rparr>)))
            | _ \<Rightarrow> None)
      else None)"

text \<open>\<^verbatim>\<open>Close\<close>.\<close>

definition dialer_close :: "tunnel_dialer \<Rightarrow> tunnel_dialer" where
  "dialer_close d =
     d\<lparr>td_sessions := fold close_all (td_fns d) (case td_sess d of None \<Rightarrow> td_sessions d | Some s \<Rightarrow> close_session s (td_sessions d)),
       td_sess := None, td_fns := []\<rparr>"

datatype dialer_event =
    DeStart
  | DeDialed nat "err option"
  | DeCancel nat
  | DeNext nat "err option"
  | DeDie nat
  | DeClose

fun dialer_step :: "tunnel_dialer \<Rightarrow> dialer_event \<Rightarrow> tunnel_dialer option" where
  "dialer_step d DeStart = Some (dialer_start d)"
| "dialer_step d (DeDialed k r) = dialer_dialed k r d"
| "dialer_step d (DeCancel k) = dialer_cancel k d"
| "dialer_step d (DeNext k r) = dialer_next k r d"
| "dialer_step d (DeDie i) =
     (if i < length (td_sessions d) then Some (d\<lparr>td_sessions := close_session i (td_sessions d)\<rparr>) else None)"
| "dialer_step d DeClose = Some (dialer_close d)"

fun dialer_run :: "tunnel_dialer \<Rightarrow> dialer_event list \<Rightarrow> tunnel_dialer option" where
  "dialer_run d [] = Some d"
| "dialer_run d (e # es) = (case dialer_step d e of None \<Rightarrow> None | Some d' \<Rightarrow> dialer_run d' es)"

lemma dialer_run_append:
  "dialer_run d (es @ fs) = (case dialer_run d es of None \<Rightarrow> None | Some d' \<Rightarrow> dialer_run d' fs)"
  by (induction d es rule: dialer_run.induct) (auto split: option.split)

section \<open>Who owns a transport\<close>

text \<open>The session that a call has still to install or to close.\<close>

fun call_holds :: "dial_call \<Rightarrow> nat list" where
  "call_holds (DcDialed i) = [i]"
| "call_holds (DcOrphan i) = [i]"
| "call_holds (DcDiscard i s) = [i]"
| "call_holds _ = []"

definition held :: "tunnel_dialer \<Rightarrow> nat list" where
  "held d = concat (map call_holds (td_calls d))"

definition open_transports :: "tunnel_session list \<Rightarrow> nat list" where
  "open_transports ss = filter (\<lambda>i. tn_transport (ss ! i)) [0..<length ss]"

text \<open>
  Every open transport belongs to one entry of \<^verbatim>\<open>closeFns\<close> or is held by one call; an open session has an open transport, and
  the current session is in \<^verbatim>\<open>closeFns\<close>.
\<close>

definition dialer_inv :: "tunnel_dialer \<Rightarrow> bool" where
  "dialer_inv d \<longleftrightarrow>
     mset (td_fns d) + mset (held d) = mset (open_transports (td_sessions d))
     \<and> (\<forall>i < length (td_sessions d). tn_open (td_sessions d ! i) \<longrightarrow> tn_transport (td_sessions d ! i))
     \<and> (\<forall>s. td_sess d = Some s \<longrightarrow> s \<in> set (td_fns d))"

lemma open_transports_append: "open_transports (ss @ [\<lparr>tn_open = True, tn_transport = True\<rparr>]) = open_transports ss @ [length ss]"
  by (auto simp: open_transports_def nth_append intro: filter_cong)

lemma length_close [simp]: "length (close_session i ss) = length ss" "length (close_all i ss) = length ss"
  by (simp_all add: close_session_def close_all_def)

lemma transport_close_session [simp]: "tn_transport (close_session i ss ! j) = tn_transport (ss ! j)"
  by (cases "i < length ss"; cases "i = j") (auto simp: close_session_def list_update_beyond)

lemma transport_close_all: "j < length ss \<Longrightarrow> tn_transport (close_all i ss ! j) = (tn_transport (ss ! j) \<and> j \<noteq> i)"
  by (cases "i = j") (auto simp: close_all_def)

lemma open_close: "j < length ss \<Longrightarrow> tn_open (close_session i ss ! j) = (tn_open (ss ! j) \<and> j \<noteq> i)"
  "j < length ss \<Longrightarrow> tn_open (close_all i ss ! j) = (tn_open (ss ! j) \<and> j \<noteq> i)"
  by (cases "i = j"; simp add: close_session_def close_all_def)+

lemma open_transports_close_session [simp]: "open_transports (close_session i ss) = open_transports ss"
  by (simp add: open_transports_def)

lemma set_open_transports: "i \<in> set (open_transports ss) \<longleftrightarrow> i < length ss \<and> tn_transport (ss ! i)"
  by (auto simp: open_transports_def)

lemma distinct_open_transports [simp]: "distinct (open_transports ss)"
  by (simp add: open_transports_def)

lemma open_transports_close_all: "mset (open_transports (close_all i ss)) = mset (open_transports ss) - {#i#}"
proof -
  have "open_transports (close_all i ss) = filter (\<lambda>j. j \<noteq> i) (open_transports ss)"
    by (auto simp: open_transports_def transport_close_all intro!: filter_cong)
  then have "mset (open_transports (close_all i ss)) = filter_mset (\<lambda>j. j \<noteq> i) (mset (open_transports ss))"
    by (simp add: mset_filter)
  moreover have "filter_mset (\<lambda>j. j \<noteq> i) (mset xs) = mset xs - {#i#}" if "distinct xs" for xs :: "nat list"
    using that
  proof (induction xs)
    case (Cons x xs)
    then show ?case by (cases "x = i") (auto simp: filter_mset_eq_conv diff_single_trivial)
  qed simp
  ultimately show ?thesis by simp
qed

lemma held_put:
  assumes "k < length (td_calls d)"
  shows "mset (held (put_call k c d)) + mset (call_holds (td_calls d ! k)) = mset (held d) + mset (call_holds c)"
  using concat_map_update [OF assms, of call_holds c] by (simp add: held_def put_call_def)

lemma put_call_proj [simp]: "td_sess (put_call k c d) = td_sess d" "td_fns (put_call k c d) = td_fns d"
  "td_sessions (put_call k c d) = td_sessions d" "td_calls (put_call k c d) = (td_calls d)[k := c]"
  by (simp_all add: put_call_def)

lemma held_cong: "td_calls d = td_calls d' \<Longrightarrow> held d = held d'"
  by (simp add: held_def)

lemma held_put_add:
  assumes "k < length (td_calls d)"
  shows "call_holds (td_calls d ! k) = [] \<Longrightarrow> mset (held (put_call k c d)) = mset (held d) + mset (call_holds c)"
    and "call_holds c = [] \<Longrightarrow> mset (held d) = mset (held (put_call k c d)) + mset (call_holds (td_calls d ! k))"
    and "call_holds c = call_holds (td_calls d ! k) \<Longrightarrow> mset (held (put_call k c d)) = mset (held d)"
  using held_put [OF assms, of c] by simp_all

lemma inv_put:
  assumes "dialer_inv d" "k < length (td_calls d)" "call_holds c = call_holds (td_calls d ! k)"
  shows "dialer_inv (put_call k c d)"
  using assms(1) held_put_add(3) [OF assms(2,3)] by (simp add: dialer_inv_def)

lemma held_upd [simp]:
  "held (d\<lparr>td_sessions := ss\<rparr>) = held d" "held (d\<lparr>td_sess := x\<rparr>) = held d" "held (d\<lparr>td_fns := y\<rparr>) = held d"
  "held (d\<lparr>td_calls := td_calls d @ [c]\<rparr>) = held d @ call_holds c"
  by (simp_all add: held_def)

lemma inv_close_session: "dialer_inv d \<Longrightarrow> dialer_inv (d\<lparr>td_sessions := close_session i (td_sessions d)\<rparr>)"
  by (simp add: dialer_inv_def open_close)

lemma inv_start: "dialer_inv d \<Longrightarrow> dialer_inv (dialer_start d)"
  by (auto simp: dialer_start_def dialer_inv_def held_def open_close split: option.splits)

lemma inv_new_session:
  assumes "dialer_inv d" "k < length (td_calls d)" "call_holds (td_calls d ! k) = []" "call_holds c = [length (td_sessions d)]"
  shows "dialer_inv (put_call k c (d\<lparr>td_sessions := td_sessions d @ [\<lparr>tn_open = True, tn_transport = True\<rparr>]\<rparr>))"
proof -
  let ?d = "d\<lparr>td_sessions := td_sessions d @ [\<lparr>tn_open = True, tn_transport = True\<rparr>]\<rparr>"
  have "mset (held (put_call k c ?d)) = mset (held d) + {#length (td_sessions d)#}"
    using held_put_add(1) [of k ?d c] assms(2-4) by simp
  then show ?thesis using assms(1) by (auto simp: dialer_inv_def open_transports_append nth_append split: option.splits)
qed

lemma inv_dialed: "dialer_inv d \<Longrightarrow> dialer_dialed k r d = Some d' \<Longrightarrow> dialer_inv d'"
proof -
  assume a: "dialer_inv d" "dialer_dialed k r d = Some d'"
  then have k: "k < length (td_calls d)" by (simp add: dialer_dialed_def split: if_splits)
  show "dialer_inv d'"
  proof (cases "td_calls d ! k")
    case DcDialing
    then show ?thesis using a k inv_put [OF a(1) k] inv_new_session [OF a(1) k] by (cases r) (auto simp: dialer_dialed_def Let_def)
  next
    case DcAbandoned
    then show ?thesis using a k inv_put [OF a(1) k] inv_new_session [OF a(1) k] by (cases r) (auto simp: dialer_dialed_def Let_def)
  qed (use a k in \<open>simp_all add: dialer_dialed_def Let_def\<close>)
qed

lemma inv_cancel: "dialer_inv d \<Longrightarrow> dialer_cancel k d = Some d' \<Longrightarrow> dialer_inv d'"
  by (auto simp: dialer_cancel_def split: if_splits dial_call.splits intro: inv_put)

lemma inv_install:
  assumes "dialer_inv d" "k < length (td_calls d)" "td_calls d ! k = DcDialed i"
  shows "dialer_inv (put_call k (DcGot i) (d\<lparr>td_sess := Some i, td_fns := td_fns d @ [i]\<rparr>))"
proof -
  let ?d = "d\<lparr>td_sess := Some i, td_fns := td_fns d @ [i]\<rparr>"
  have "mset (held d) = mset (held (put_call k (DcGot i) ?d)) + {#i#}"
    using held_put_add(2) [of k ?d "DcGot i"] assms(2,3) by (simp add: held_def)
  then show ?thesis using assms(1) by (simp add: dialer_inv_def)
qed

text \<open>A call closes the session it holds.\<close>

lemma inv_close_held:
  assumes "dialer_inv d" "k < length (td_calls d)" "call_holds (td_calls d ! k) = [i]" "call_holds c = []"
  shows "dialer_inv (put_call k c (d\<lparr>td_sessions := close_all i (td_sessions d)\<rparr>))"
proof -
  let ?d = "d\<lparr>td_sessions := close_all i (td_sessions d)\<rparr>"
  have h: "mset (held d) = mset (held (put_call k c ?d)) + {#i#}"
    using held_put_add(2) [of k ?d c] assms(2-4) by simp
  then have "mset (td_fns d) + mset (held (put_call k c ?d)) = mset (open_transports (td_sessions d)) - {#i#}"
    using assms(1) unfolding dialer_inv_def by (metis add_diff_cancel_right' union_assoc)
  then show ?thesis using assms(1)
    by (auto simp: dialer_inv_def open_transports_close_all open_close transport_close_all)
qed

lemma inv_next: "dialer_inv d \<Longrightarrow> dialer_next k r d = Some d' \<Longrightarrow> dialer_inv d'"
proof -
  assume a: "dialer_inv d" "dialer_next k r d = Some d'"
  then have k: "k < length (td_calls d)" by (simp add: dialer_next_def split: if_splits)
  show "dialer_inv d'"
  proof (cases "td_calls d ! k")
    case (DcDialed i)
    then show ?thesis using a k inv_install [OF a(1) k DcDialed] inv_put [OF a(1) k]
      by (auto simp: dialer_next_def split: option.splits if_splits)
  next
    case (DcOrphan i)
    then show ?thesis using a k inv_close_held [OF a(1) k, of i DcEnded] by (simp add: dialer_next_def)
  next
    case (DcDiscard i s)
    then show ?thesis using a k inv_close_held [OF a(1) k, of i "DcGot s"] by (simp add: dialer_next_def)
  next
    case (DcGot s)
    have "dialer_inv (d\<lparr>td_sess := (if td_sess d = Some s then None else td_sess d)\<rparr>)" using a(1) by (simp add: dialer_inv_def)
    from inv_put [OF this, of k] show ?thesis using a k DcGot inv_put [OF a(1) k]
      by (auto simp: dialer_next_def split: option.splits)
  qed (use a k in \<open>simp_all add: dialer_next_def\<close>)
qed

lemma fold_close_all: "j < length ss \<Longrightarrow> length (fold close_all is ss) = length ss
   \<and> tn_transport (fold close_all is ss ! j) = (tn_transport (ss ! j) \<and> j \<notin> set is)
   \<and> tn_open (fold close_all is ss ! j) = (tn_open (ss ! j) \<and> j \<notin> set is)"
  by (induction "is" arbitrary: ss) (auto simp: transport_close_all open_close)

lemma length_fold_close [simp]: "length (fold close_all is ss) = length ss"
  by (induction "is" arbitrary: ss) auto

lemma open_transports_fold: "mset (open_transports (fold close_all is ss)) = mset (open_transports ss) - mset is" if "distinct is"
  using that
proof (induction "is" arbitrary: ss)
  case (Cons i "is")
  then show ?case by (simp add: open_transports_close_all)
qed simp

lemma inv_close: "dialer_inv d \<Longrightarrow> dialer_inv (dialer_close d)"
proof -
  assume i: "dialer_inv d"
  let ?ss = "case td_sess d of None \<Rightarrow> td_sessions d | Some s \<Rightarrow> close_session s (td_sessions d)"
  have ss: "open_transports ?ss = open_transports (td_sessions d)" "length ?ss = length (td_sessions d)"
    "\<forall>j < length ?ss. tn_open (?ss ! j) \<longrightarrow> tn_transport (?ss ! j)"
    using i by (auto simp: dialer_inv_def open_close split: option.split)
  have "distinct (td_fns d)"
    using i distinct_open_transports [of "td_sessions d"] unfolding dialer_inv_def
    by (metis distinct_append mset_append mset_eq_imp_distinct_iff)
  then have "mset (open_transports (fold close_all (td_fns d) ?ss)) = mset (held d)"
    using i unfolding dialer_inv_def open_transports_fold [OF \<open>distinct (td_fns d)\<close>] ss(1) by (metis add_diff_cancel_left')
  then show ?thesis using ss(3) fold_close_all [of _ ?ss "td_fns d"] by (simp add: dialer_inv_def dialer_close_def held_def)
qed

lemma dialer_inv_step: "dialer_inv d \<Longrightarrow> dialer_step d e = Some d' \<Longrightarrow> dialer_inv d'"
  by (cases e) (auto split: if_splits dest: inv_start inv_dialed inv_cancel inv_next inv_close inv_close_session)

lemma dialer_inv_run: "dialer_run d es = Some d' \<Longrightarrow> dialer_inv d \<Longrightarrow> dialer_inv d'"
proof (induction d es rule: dialer_run.induct)
  case (2 d e es)
  then obtain d1 where "dialer_step d e = Some d1" "dialer_run d1 es = Some d'" by (auto split: option.splits)
  then show ?case using 2 dialer_inv_step by blast
qed simp

lemma dialer_inv_new: "dialer_inv new_tunnel_dialer"
  by (simp add: dialer_inv_def new_tunnel_dialer_def held_def open_transports_def)

text \<open>
  C34: in every interleaving each open transport belongs to exactly one entry of \<^verbatim>\<open>closeFns\<close> or to exactly one call that has still
  to install or close its session, so \<^verbatim>\<open>Close\<close> leaves open just the transports that calls under way hold, and none,
  nor a session, when there is no such call.
\<close>

theorem dnstt_transports_owned:
  assumes "dialer_run new_tunnel_dialer es = Some d"
  shows "mset (td_fns d) + mset (held d) = mset (open_transports (td_sessions d))
    \<and> mset (open_transports (td_sessions (dialer_close d))) = mset (held d)
    \<and> (held d = [] \<longrightarrow> (\<forall>x \<in> set (td_sessions (dialer_close d)). \<not> tn_open x \<and> \<not> tn_transport x))"
proof -
  have i: "dialer_inv d" by (rule dialer_inv_run [OF assms dialer_inv_new])
  have c: "dialer_inv (dialer_close d)" by (rule inv_close [OF i])
  then have o: "mset (open_transports (td_sessions (dialer_close d))) = mset (held d)"
    by (simp add: dialer_inv_def dialer_close_def held_def)
  have "\<not> tn_open x \<and> \<not> tn_transport x" if "held d = []" "x \<in> set (td_sessions (dialer_close d))" for x
  proof -
    obtain j where j: "j < length (td_sessions (dialer_close d))" "x = td_sessions (dialer_close d) ! j"
      using \<open>x \<in> _\<close> by (metis in_set_conv_nth)
    have "set (open_transports (td_sessions (dialer_close d))) = {}" using o that(1) by simp
    then have "\<not> tn_transport x" using j by (metis empty_iff set_open_transports)
    then show ?thesis using c j by (auto simp: dialer_inv_def)
  qed
  then show ?thesis using i o by (simp add: dialer_inv_def)
qed

text \<open>Two calls dial at the same time, one is given up, and the session of the other is used and then closed.\<close>

definition dialer_example :: "dialer_event list" where
  "dialer_example = [DeStart, DeStart, DeStart, DeDialed 0 None, DeDialed 1 None, DeCancel 2, DeDialed 2 None,
     DeNext 0 None, DeNext 1 None, DeNext 1 None, DeNext 2 None, DeNext 0 None, DeNext 1 None]"

lemmas dialer_eval = dialer_example_def new_tunnel_dialer_def dialer_start_def dialer_dialed_def dialer_cancel_def
  dialer_next_def put_call_def session_open_def close_all_def close_session_def Let_def

theorem dnstt_transports_owned_witness:
  "\<exists>d. dialer_run new_tunnel_dialer dialer_example = Some d \<and> td_fns d = [0]
     \<and> td_calls d = [DcReturned (Inr 0), DcReturned (Inr 0), DcEnded]
     \<and> (\<forall>x \<in> set (td_sessions (dialer_close d)). \<not> tn_open x \<and> \<not> tn_transport x)"
proof -
  obtain d where d: "dialer_run new_tunnel_dialer dialer_example = Some d" "td_fns d = [0]"
    "td_calls d = [DcReturned (Inr 0), DcReturned (Inr 0), DcEnded]"
    by (simp add: dialer_eval)
  have "held d = []" by (simp add: held_def d(3))
  then show ?thesis using dnstt_transports_owned [OF d(1)] d by blast
qed

section \<open>Sessions that die\<close>

text \<open>The dialer after \<open>n\<close> sessions that died, each after a stream was opened on it.\<close>

definition after_deaths :: "nat \<Rightarrow> tunnel_dialer" where
  "after_deaths n =
     \<lparr>td_sess = (if n = 0 then None else Some (n - 1)), td_fns = [0..<n],
      td_sessions = replicate n \<lparr>tn_open = False, tn_transport = True\<rparr>, td_calls = map (\<lambda>i. DcReturned (Inr i)) [0..<n]\<rparr>"

definition one_death :: "nat \<Rightarrow> dialer_event list" where
  "one_death n = [DeStart, DeDialed n None, DeNext n None, DeNext n None, DeDie n]"

lemma one_death_run: "dialer_run (after_deaths n) (one_death n) = Some (after_deaths (Suc n))"
proof -
  let ?d = "(after_deaths n)\<lparr>td_sess := None, td_calls := td_calls (after_deaths n) @ [DcDialing]\<rparr>"
  have l: "length (td_calls (after_deaths n)) = n" "length (td_sessions (after_deaths n)) = n" by (simp_all add: after_deaths_def)
  have st: "dialer_start (after_deaths n) = ?d"
    by (cases n) (auto simp: dialer_start_def after_deaths_def session_open_def close_session_def list_update_same_conv
        simp del: replicate_Suc)
  have "dialer_run ?d (tl (one_death n)) = Some (after_deaths (Suc n))"
    by (simp add: one_death_def after_deaths_def dialer_dialed_def dialer_next_def put_call_def close_session_def Let_def
        nth_append list_update_append replicate_append_same)
  then show ?thesis using st by (simp add: one_death_def)
qed

lemma deaths_run: "dialer_run new_tunnel_dialer (concat (map one_death [0..<n])) = Some (after_deaths n)"
proof (induction n)
  case 0
  then show ?case by (simp add: new_tunnel_dialer_def after_deaths_def)
next
  case (Suc n)
  then show ?case by (simp add: dialer_run_append one_death_run)
qed

text \<open>
  The transport of a session that died stays open, with its goroutines, until the dialer is closed: for every number
  there is a run without \<^verbatim>\<open>Close\<close>, in which each stream was opened on a session of its own, that leaves so many dead
  sessions whose transports are all open.
\<close>

theorem dnstt_dead_transports_pile_up:
  "\<exists>es d. DeClose \<notin> set es \<and> dialer_run new_tunnel_dialer es = Some d
     \<and> length (open_transports (td_sessions d)) = n \<and> \<not> (\<exists>x \<in> set (td_sessions d). tn_open x)
     \<and> td_calls d = map (\<lambda>i. DcReturned (Inr i)) [0..<n]"
proof -
  have "DeClose \<notin> set (concat (map one_death [0..<n]))" by (auto simp: one_death_def)
  moreover have "open_transports (td_sessions (after_deaths n)) = [0..<n]"
    by (auto simp: open_transports_def after_deaths_def intro: filter_True)
  moreover have "\<not> (\<exists>x \<in> set (td_sessions (after_deaths n)). tn_open x)" by (auto simp: after_deaths_def)
  moreover have "td_calls (after_deaths n) = map (\<lambda>i. DcReturned (Inr i)) [0..<n]" by (simp add: after_deaths_def)
  ultimately show ?thesis using deaths_run [of n] by (intro exI [of _ "concat (map one_death [0..<n])"] exI [of _ "after_deaths n"]) simp
qed

end
