(* ===== verification/RecordLenRead.thy ===== *)
theory RecordLenRead
  imports RecordLenFrag
begin

text \<open>
  The other way through the streaming fragmenter of \<^verbatim>\<open>transport/tlsfrag/record_len_writer.go\<close>: \<^verbatim>\<open>ReadFrom\<close> of
  \<^verbatim>\<open>fixedLenReaderFrom\<close>, which hands the base two readers, one that gives the first record and one for the
  rest. The lemmas show that whatever buffers the base reads with, it ends and gets the same stream as with
  \<^verbatim>\<open>Write\<close>.
\<close>

section \<open>The two readers\<close>

text \<open>A reader has the writer, the source and the number of bytes it has read from the source.\<close>

type_synonym rl_state = "reclen \<times> source \<times> nat"

text \<open>A full header: where to split, or that there is nothing to split.\<close>

definition reclen_decide :: "reclen_frag \<Rightarrow> reclen \<Rightarrow> reclen" where
  "reclen_decide frag w =
     (case new_tls_header (w_hdr w) of
        Inl _ \<Rightarrow> w\<lparr>w_done := True\<rparr>
      | Inr h \<Rightarrow>
          (let w2 = w\<lparr>w_tls := True\<rparr> in
           if validate_header h \<noteq> None then w2\<lparr>w_done := True\<rparr>
           else case update_split_lens frag w2 of
                  (w3, Some _) \<Rightarrow> w3\<lparr>w_done := True\<rparr>
                | (w3, None) \<Rightarrow> w3\<lparr>w_hdr := with_len (r1Size w3 - recordHeaderLen) (w_hdr w3)\<rparr>))"

text \<open>\<^verbatim>\<open>Read\<close> of an \<^verbatim>\<open>io.LimitReader\<close>.\<close>

definition limit_read :: "nat \<Rightarrow> source \<Rightarrow> nat \<Rightarrow> source \<times> bytes \<times> err option" where
  "limit_read limit src n = (if limit = 0 then (src, [], Some EOF) else src_read src (min n limit))"

text \<open>\<^verbatim>\<open>fixedLenFirstRecordReader.Read\<close> with a buffer of \<open>n\<close> bytes, after the header is there; and from the start.\<close>

definition first_record_emit :: "nat \<Rightarrow> rl_state \<Rightarrow> rl_state \<times> bytes \<times> err option" where
  "first_record_emit n = (\<lambda>(w, src, k).
     if r1Written w < r1Size w
     then let hd = (if r1Written w < recordHeaderLen then take n (drop (r1Written w) (w_hdr w)) else []);
              w1 = w\<lparr>r1Written := r1Written w + length hd\<rparr> in
       if r1Written w < recordHeaderLen \<and> n - length hd = 0 then ((w1, src, k), hd, None)
       else case limit_read (r1Size w1 - r1Written w1) src (n - length hd) of
              (src1, bs, e) \<Rightarrow>
                (let w2 = w1\<lparr>r1Written := r1Written w1 + length bs\<rparr>;
                     w3 = (if r1Written w2 = r1Size w2
                           then w2\<lparr>w_hdr := with_len (r2Size w2 - recordHeaderLen) (w_hdr w2), w_done := True\<rparr> else w2) in
                 ((w3, src1, k + length bs), hd @ bs, e))
     else ((w, src, k), [], None))"

definition first_record_read :: "reclen_frag \<Rightarrow> nat \<Rightarrow> rl_state \<Rightarrow> rl_state \<times> bytes \<times> err option" where
  "first_record_read frag n = (\<lambda>(w, src, k).
     if w_done w then ((w, src, k), [], Some EOF)
     else if w_tls w then first_record_emit n (w, src, k)
     else case read_full src (recordHeaderLen - length (w_hdr w)) of
            (src1, bs, e) \<Rightarrow>
              (let w1 = w\<lparr>w_hdr := w_hdr w @ bs\<rparr>; k1 = k + length bs in
               case (if length (w_hdr w1) < recordHeaderLen then Some EOF else e) of
                 Some x \<Rightarrow> ((w1, src1, k1), [], Some x)
               | None \<Rightarrow>
                   (let w2 = reclen_decide frag w1 in
                    if w_done w2 then ((w2, src1, k1), [], Some EOF) else first_record_emit n (w2, src1, k1))))"

text \<open>\<^verbatim>\<open>fixedLenRemainingRecordReader.Read\<close>.\<close>

definition remaining_read :: "nat \<Rightarrow> rl_state \<Rightarrow> rl_state \<times> bytes \<times> err option" where
  "remaining_read n = (\<lambda>(w, src, k).
     if \<not> w_done w then ((w, src, k), [], Some EOF)
     else let hd = take n (w_hdr w); w1 = w\<lparr>w_hdr := drop n (w_hdr w)\<rparr> in
       if w_hdr w \<noteq> [] \<and> w_hdr w1 \<noteq> [] then ((w1, src, k), hd, None)
       else case src_read src (n - length hd) of (src1, bs, e) \<Rightarrow> ((w1, src1, k + length bs), hd @ bs, e))"

section \<open>ReadFrom\<close>

text \<open>\<^verbatim>\<open>Read\<close> of the \<^verbatim>\<open>io.MultiReader\<close> over both; \<open>RlFirst\<close>, \<open>RlRest\<close> and \<open>RlEnd\<close> are the readers that are left.\<close>

datatype rl_stage = RlFirst | RlRest | RlEnd

definition multi_rest :: "nat \<Rightarrow> rl_state \<Rightarrow> (rl_stage \<times> rl_state) \<times> bytes \<times> err option" where
  "multi_rest n st =
     (case remaining_read n st of (st', bs, e) \<Rightarrow> ((if e = Some EOF then RlEnd else RlRest, st'), bs, e))"

definition multi_read :: "reclen_frag \<Rightarrow> nat \<Rightarrow> rl_stage \<times> rl_state \<Rightarrow> (rl_stage \<times> rl_state) \<times> bytes \<times> err option" where
  "multi_read frag n = (\<lambda>(stage, st).
     case stage of
       RlFirst \<Rightarrow>
         (case first_record_read frag n st of
            (st', bs, e) \<Rightarrow>
              if e = Some EOF then if bs \<noteq> [] then ((RlRest, st'), bs, None) else multi_rest n st'
              else ((RlFirst, st'), bs, e))
     | RlRest \<Rightarrow> multi_rest n st
     | RlEnd \<Rightarrow> ((RlEnd, st), [], Some EOF))"

text \<open>
  The \<^verbatim>\<open>ReadFrom\<close> of the base, given the multi-reader: it reads until there is an error, the \<open>i\<close>th time with a buffer of
  \<open>ns i\<close> bytes, and writes what it got, as \<^verbatim>\<open>io.Copy\<close> does; the end of the stream is no error of it. The result is \<open>None\<close>
  if it never returns.
\<close>

partial_function (option) multi_copy ::
  "reclen_frag \<Rightarrow> 's writer \<Rightarrow> (nat \<Rightarrow> nat) \<Rightarrow> nat \<Rightarrow> rl_stage \<times> rl_state \<Rightarrow> 's
   \<Rightarrow> ((rl_stage \<times> rl_state) \<times> 's \<times> err option) option"
  where
  "multi_copy frag wr ns i st s =
     (let r = multi_read frag (ns i) st; st' = fst r; bs = fst (snd r);
          x = (if bs = [] then (s, 0, None) else wr s bs); s' = fst x; m = fst (snd x) in
      case snd (snd x) of
        Some ew \<Rightarrow> Some (st', s', Some ew)
      | None \<Rightarrow>
          if m \<noteq> length bs then Some (st', s', Some ShortWrite)
          else (case snd (snd r) of
                  Some e \<Rightarrow> Some (st', s', if e = EOF then None else Some e)
                | None \<Rightarrow> multi_copy frag wr ns (Suc i) st' s'))"

text \<open>
  \<^verbatim>\<open>ReadFrom\<close>: the writer and the source after it, the base, and the count and the error that it returns; \<open>None\<close> if it never
  returns. After the first record the base reads from the source itself.
\<close>

definition reclen_read_from ::
  "reclen_frag \<Rightarrow> 's writer \<Rightarrow> (nat \<Rightarrow> nat) \<Rightarrow> reclen \<times> source \<Rightarrow> 's
   \<Rightarrow> ((reclen \<times> source) \<times> 's \<times> nat \<times> err option) option" where
  "reclen_read_from frag wr ns = (\<lambda>(w, src) s.
     if \<not> w_done w \<or> w_hdr w \<noteq> []
     then (case multi_copy frag wr ns 0 (RlFirst, w, src, 0) s of
             None \<Rightarrow> None
           | Some ((_, w', src', k), s', e) \<Rightarrow> Some ((w', src'), s', k, e))
     else (case copy_from wr s src of (s', src', n, e) \<Rightarrow> Some ((w, src'), s', n, e)))"

section \<open>One read\<close>

text \<open>
  The state after the bytes \<open>C\<close> of the stream were taken in and the bytes \<open>E\<close> went out: before the header is full, within
  the first record, or after it.
\<close>

definition rl_header :: "bytes \<Rightarrow> reclen \<Rightarrow> bytes \<Rightarrow> bool" where
  "rl_header C w E \<longleftrightarrow> length C < 5 \<and> \<not> w_done w \<and> \<not> w_tls w \<and> w_hdr w = C \<and> r1Written w = 0 \<and> r1Size w = 0 \<and> E = []"

definition rl_first :: "reclen_frag \<Rightarrow> bytes \<Rightarrow> reclen \<Rightarrow> bytes \<Rightarrow> bool" where
  "rl_first frag C w E \<longleftrightarrow> 5 \<le> length C \<and> \<not> w_done w \<and> w_tls w \<and>
     (\<exists>k. split_point frag C = Some k \<and> w_hdr w = with_len k (take 5 C) \<and> r1Size w = k + 5
        \<and> r2Size w = payload_len (take 5 C) - k + 5 \<and> r1Written w < k + 5
        \<and> (if r1Written w < 5 then length C = 5 else r1Written w = length C)
        \<and> E = take (r1Written w) (with_len k (take 5 C) @ drop 5 C))"

definition rl_rest :: "reclen_frag \<Rightarrow> bytes \<Rightarrow> reclen \<Rightarrow> bytes \<Rightarrow> bool" where
  "rl_rest frag C w E \<longleftrightarrow> 5 \<le> length C \<and> w_done w \<and> length (w_hdr w) \<le> 5 \<and> E @ w_hdr w = frag_spec frag C
     \<and> (\<forall>k. split_point frag C = Some k \<longrightarrow> 5 + k \<le> length C)"

lemma frag_spec_more:
  "5 \<le> length C \<Longrightarrow> (\<forall>k. split_point frag C = Some k \<longrightarrow> 5 + k \<le> length C) \<Longrightarrow> frag_spec frag (C @ b) = frag_spec frag C @ b"
  by (auto simp: frag_spec_def split: option.split)

lemma decide_full:
  assumes "length h = 5" "w_hdr w = h" "\<not> w_done w" "\<not> w_tls w"
  shows "reclen_decide frag w =
     (case split_point frag h of
        None \<Rightarrow> w\<lparr>w_tls := True, w_done := True\<rparr>
      | Some k \<Rightarrow> w\<lparr>w_hdr := with_len k h, w_tls := True, r1Size := k + 5, r2Size := payload_len h - k + 5\<rparr>)"
proof -
  have "nat (int (payload_len h) - frag (int (payload_len h))) = payload_len h - nat (frag (int (payload_len h)))"
    if "0 < frag (int (payload_len h))"
    using that by simp
  then show ?thesis using assms
    by (auto simp: reclen_decide_def Let_def split_point_def new_tls_header_def update_split_lens_def)
qed

text \<open>What is left to do: the source, and the header bytes that are still to go out.\<close>

definition rl_pending :: "reclen \<Rightarrow> nat" where
  "rl_pending w = (if w_done w then length (w_hdr w) else if w_tls w then 15 - min 5 (r1Written w) else 20)"

definition rl_todo :: "rl_state \<Rightarrow> nat" where
  "rl_todo = (\<lambda>(w, src, k). src_size src + rl_pending w)"

text \<open>
  A read by which the bytes \<open>b\<close> of the source came in: nothing is lost, and either there is less to do, or the source is at
  its end.
\<close>

definition rl_progress :: "rl_state \<Rightarrow> rl_state \<Rightarrow> bytes \<Rightarrow> err option \<Rightarrow> bool" where
  "rl_progress = (\<lambda>(w, src, k) (w', src', k') b e.
     src_bytes src = b @ src_bytes src' \<and> clean src' \<and> k' = k + length b
     \<and> (e = None \<and> rl_todo (w', src', k') < rl_todo (w, src, k) \<or> e = Some EOF \<and> src_bytes src' = [] \<and> rl_todo (w', src', k') \<le> rl_todo (w, src, k)))"

text \<open>The bytes of the first record that a read of the source gives.\<close>

lemma emit_payload:
  assumes f: "5 \<le> length C" "split_point frag C = Some j" "w_hdr w = with_len j (take 5 C)" "\<not> w_done w" "w_tls w"
      "r1Size w = j + 5" "r2Size w = payload_len (take 5 C) - j + 5" "r1Written w = length C" "length C < j + 5"
    and E: "E = with_len j (take 5 C) @ drop 5 C" and b: "length b \<le> j + 5 - length C"
    and w': "w' = (let w2 = w\<lparr>r1Written := r1Written w + length b\<rparr> in
        if r1Written w2 = r1Size w2 then w2\<lparr>w_hdr := with_len (r2Size w2 - recordHeaderLen) (w_hdr w2), w_done := True\<rparr> else w2)"
  shows "(rl_first frag (C @ b) w' (E @ b) \<or> rl_rest frag (C @ b) w' (E @ b)) \<and> rl_pending w' \<le> rl_pending w"
proof (cases "length C + length b = j + 5")
  case True
  note k = split_point_bounds [OF f(2)]
  have h5: "length (take 5 C) = 5" using f(1) by simp
  have "with_len (payload_len (take 5 C) - j) (with_len j (take 5 C)) = with_len (payload_len (take 5 C) - j) (take 5 C)"
    using k by (intro with_len_twice [OF h5]) auto
  moreover have "w' = w\<lparr>r1Written := j + 5, w_hdr := with_len (payload_len (take 5 C) - j) (w_hdr w), w_done := True\<rparr>"
    using True f w' by simp
  moreover have "frag_spec frag (C @ b) = E @ b @ with_len (payload_len (take 5 C) - j) (take 5 C)"
    using True f(1,2) E by (simp add: frag_spec_def)
  ultimately show ?thesis using True f h5 by (simp add: rl_rest_def rl_pending_def)
next
  case False
  then have "w' = w\<lparr>r1Written := length C + length b\<rparr>" using f w' by simp
  moreover have "length (with_len j (take 5 C)) = 5" using f(1) by simp
  moreover have "length C + length b < j + 5" using False b f(9) by linarith
  ultimately show ?thesis using f E by (simp add: rl_first_def rl_pending_def)
qed

lemma limit_read_clean:
  assumes "clean src" "0 < limit" "0 < n" "limit_read limit src n = (src', b, e)"
  shows "src_bytes src = b @ src_bytes src'" "clean src'" "length b \<le> limit" "length b \<le> n"
    and "e = None \<and> src_size src' < src_size src \<or> e = Some EOF \<and> b = [] \<and> src_bytes src' = [] \<and> src_size src' \<le> src_size src"
proof -
  have r: "src_read src (min n limit) = (src', b, e)" using assms(2,4) by (simp add: limit_read_def)
  show "src_bytes src = b @ src_bytes src'" using src_read_bytes [OF r] .
  show "clean src'" using src_read_clean [OF r assms(1)] .
  show "length b \<le> limit" "length b \<le> n" using src_read_le [OF r] by simp_all
  show "e = None \<and> src_size src' < src_size src \<or> e = Some EOF \<and> b = [] \<and> src_bytes src' = [] \<and> src_size src' \<le> src_size src"
    using src_read_clean_err [OF r assms(1)] src_read_size [OF r] assms(2,3) src_read_bytes [OF r] r by (cases "src = []") auto
qed

lemma emit_ok:
  assumes "rl_first frag C w E" "clean src" "0 < n" "first_record_emit n (w, src, k) = ((w', src', k'), bs, e)"
  shows "\<exists>b. rl_progress (w, src, k) (w', src', k') b e \<and> (rl_first frag (C @ b) w' (E @ bs) \<or> rl_rest frag (C @ b) w' (E @ bs))
     \<and> (e = Some EOF \<longrightarrow> rl_first frag (C @ b) w' (E @ bs) \<and> 5 \<le> r1Written w')"
proof -
  obtain j where f: "5 \<le> length C" "split_point frag C = Some j" "w_hdr w = with_len j (take 5 C)" "\<not> w_done w" "w_tls w"
      "r1Size w = j + 5" "r2Size w = payload_len (take 5 C) - j + 5" "r1Written w < j + 5"
    and r1: "if r1Written w < 5 then length C = 5 else r1Written w = length C"
    and E: "E = take (r1Written w) (with_len j (take 5 C) @ drop 5 C)"
    using assms(1) by (auto simp: rl_first_def)
  define hd where "hd = (if r1Written w < 5 then take n (drop (r1Written w) (w_hdr w)) else [])"
  define w1 where "w1 = w\<lparr>r1Written := r1Written w + length hd\<rparr>"
  have h5: "length (with_len j (take 5 C)) = 5" using f(1) by simp
  have hdl: "length hd = (if r1Written w < 5 then min n (5 - r1Written w) else 0)" using h5 f(3) by (simp add: hd_def min.commute)
  show ?thesis
  proof (cases "r1Written w < 5 \<and> n - length hd = 0")
    case True
    then have hde: "take n (drop (r1Written w) (w_hdr w)) = hd" by (simp add: hd_def)
    have r: "w' = w1" "src' = src" "k' = k" "bs = hd" "e = None"
      using assms(4) f(6,8) True by (simp_all add: first_record_emit_def hde w1_def [symmetric] Let_def)
    have l: "length hd = n" "r1Written w + n \<le> 5" using True hdl by (auto simp: min_def split: if_splits)
    have hd': "hd = take n (drop (r1Written w) (with_len j (take 5 C)))" using True f(3) by (simp add: hd_def)
    have c: "C = take 5 C" "length C = 5" using r1 True by simp_all
    have "rl_first frag C w1 (E @ hd)"
      using f l c h5 E hd' split_point_bounds(1) [OF f(2)] by (auto simp: rl_first_def w1_def take_add intro!: exI [of _ j])
    moreover have "rl_progress (w, src, k) (w1, src, k) [] None"
      using assms(2,3) f l True by (auto simp: rl_progress_def rl_todo_def rl_pending_def w1_def)
    ultimately show ?thesis using r by (intro exI [of _ "[]"]) simp
  next
    case False
    have n1: "0 < n - length hd" using False hdl assms(3) by (auto split: if_splits)
    then have hfull: "r1Written w < 5 \<Longrightarrow> hd = drop (r1Written w) (w_hdr w) \<and> length hd = 5 - r1Written w"
      using hdl h5 f(3) by (auto simp: hd_def min_def split: if_splits)
    have w1: "r1Written w1 = length C" "length C < j + 5" using hfull r1 f(8) hdl split_point_bounds(1) [OF f(2)]
      by (auto simp: w1_def split: if_splits)
    have E1: "E @ hd = with_len j (take 5 C) @ drop 5 C"
      using hfull r1 E f(3) h5 by (cases "r1Written w < 5") (auto simp: hd_def)
    obtain src1 b e1 where lr: "limit_read (r1Size w1 - r1Written w1) src (n - length hd) = (src1, b, e1)" by (metis prod_cases3)
    have r: "src' = src1" "k' = k + length b" "bs = hd @ b" "e = e1"
      and w': "w' = (let w2 = w1\<lparr>r1Written := r1Written w1 + length b\<rparr> in
        if r1Written w2 = r1Size w2 then w2\<lparr>w_hdr := with_len (r2Size w2 - recordHeaderLen) (w_hdr w2), w_done := True\<rparr> else w2)"
      using assms(4) f(6,8) False lr by (auto simp: first_record_emit_def hd_def [symmetric] w1_def [symmetric] Let_def)
    have lim: "0 < r1Size w1 - r1Written w1" using w1 f(6) by (simp add: w1_def)
    note c = limit_read_clean [OF assms(2) lim n1 lr]
    have st: "(rl_first frag (C @ b) w' ((E @ hd) @ b) \<or> rl_rest frag (C @ b) w' ((E @ hd) @ b)) \<and> rl_pending w' \<le> rl_pending w1"
      by (rule emit_payload [where w = w1 and j = j]) (use f w1 E1 c(3) w' in \<open>auto simp: w1_def\<close>)
    have "rl_pending w1 \<le> rl_pending w" by (auto simp: rl_pending_def w1_def min_def)
    then have "rl_progress (w, src, k) (w', src', k') b e"
      using c st r by (auto simp: rl_progress_def rl_todo_def)
    moreover have "rl_first frag (C @ b) w' ((E @ hd) @ b) \<and> 5 \<le> r1Written w'" if "e = Some EOF"
    proof -
      have "b = []" using c(5) r(4) that by auto
      then have "w' = w1" using w' lim by (simp add: Let_def)
      then show ?thesis using st w1 f(1,4) by (simp add: rl_rest_def w1_def)
    qed
    ultimately show ?thesis using st r(3) by (intro exI [of _ b]) simp
  qed
qed

text \<open>The state between two reads, with the readers that are left.\<close>

definition rl_inv :: "reclen_frag \<Rightarrow> rl_stage \<Rightarrow> bytes \<Rightarrow> reclen \<Rightarrow> source \<Rightarrow> bytes \<Rightarrow> bool" where
  "rl_inv frag stage C w src E \<longleftrightarrow>
     (rl_header C w E \<or> rl_first frag C w E \<or> rl_rest frag C w E) \<and> clean src
     \<and> (stage \<noteq> RlFirst \<longrightarrow> w_done w \<or> src_bytes src = [] \<and> (w_tls w \<longrightarrow> 5 \<le> r1Written w))
     \<and> (stage = RlEnd \<longrightarrow> src_bytes src = [] \<and> (w_done w \<longrightarrow> w_hdr w = []))"

lemma read_loop_size: "read_loop s k = (s', bs, e) \<Longrightarrow> src_size s' + length bs \<le> src_size s"
proof (induction s k arbitrary: s' bs e rule: read_loop.induct)
  case (3 cs x r k)
  show ?case
  proof (cases "length cs < Suc k \<and> x = None")
    case True
    obtain s2 ds y where r: "read_loop r (Suc k - length cs) = (s2, ds, y)" by (metis prod_cases3)
    then have "src_size s2 + length ds \<le> src_size r" using 3(1) [of s2 ds y] True by simp
    then show ?thesis using True 3(2) r by (auto simp: src_size_def)
  next
    case False
    then show ?thesis using 3(2) by (auto simp: src_size_def split: if_splits option.splits)
  qed
qed (auto simp: src_size_def)

lemma read_full_size: "read_full s k = (s', bs, e) \<Longrightarrow> src_size s' + length bs \<le> src_size s"
  by (auto simp: read_full_def dest: read_loop_size split: prod.splits)

lemma header_first:
  assumes "rl_header C w E" "clean src" "0 < n" "first_record_read frag n (w, src, k) = ((w', src', k'), bs, e)"
  shows "\<exists>b. rl_progress (w, src, k) (w', src', k') b e \<and> rl_inv frag RlFirst (C @ b) w' src' (E @ bs)
      \<and> (e = Some EOF \<longrightarrow> \<not> w_done w' \<and> src_bytes src' = [] \<and> (w_tls w' \<longrightarrow> 5 \<le> r1Written w'))
    \<or> src_bytes src = b @ src_bytes src' \<and> clean src' \<and> k' = k + length b \<and> rl_todo (w', src', k') < rl_todo (w, src, k)
      \<and> e = Some EOF \<and> bs = [] \<and> rl_rest frag (C @ b) w' E"
proof -
  have h: "length C < 5" "\<not> w_done w" "\<not> w_tls w" "w_hdr w = C" "r1Written w = 0" "r1Size w = 0" "E = []"
    using assms(1) by (simp_all add: rl_header_def)
  obtain src1 b e1 where r: "read_full src (5 - length C) = (src1, b, e1)" by (metis prod_cases3)
  note c = read_full_clean [OF assms(2) r]
  define w1 where "w1 = w\<lparr>w_hdr := C @ b\<rparr>"
  have sb: "src_bytes src = b @ src_bytes src1" using read_full_bytes [OF r] by simp
  have sz: "src_size src1 + length b \<le> src_size src" using read_full_size [OF r] .
  show ?thesis
  proof (cases "length (C @ b) < 5")
    case True
    then have "src_bytes src1 = []" using c(2,3) h(1) by (auto simp: min_def split: if_splits)
    moreover have "w' = w1" "src' = src1" "k' = k + length b" "bs = []" "e = Some EOF"
      using assms(4) h r True by (simp_all add: first_record_read_def w1_def Let_def)
    moreover have "rl_header (C @ b) w1 []" using True h by (simp add: rl_header_def w1_def)
    moreover have "rl_todo (w1, src1, k + length b) \<le> rl_todo (w, src, k)"
      using sz h by (simp add: rl_todo_def rl_pending_def w1_def)
    ultimately show ?thesis using sb c(1) h by (intro exI [of _ b]) (auto simp: rl_progress_def rl_inv_def w1_def)
  next
    case False
    then have l: "length (C @ b) = 5" "e1 = None" using c(2,4) h(1) by (auto simp: min_def split: if_splits)
    have b0: "0 < length b" using l(1) h(1) unfolding length_append by linarith
    define w2 where "w2 = reclen_decide frag w1"
    have w2: "w2 = (case split_point frag (C @ b) of
        None \<Rightarrow> w1\<lparr>w_tls := True, w_done := True\<rparr>
      | Some j \<Rightarrow> w1\<lparr>w_hdr := with_len j (C @ b), w_tls := True, r1Size := j + 5, r2Size := payload_len (C @ b) - j + 5\<rparr>)"
      unfolding w2_def by (rule decide_full) (use l h in \<open>simp_all add: w1_def\<close>)
    have fr: "(if w_done w2 then ((w2, src1, k + length b), [], Some EOF)
        else first_record_emit n (w2, src1, k + length b)) = ((w', src', k'), bs, e)"
      using assms(4) h r l by (auto simp: first_record_read_def Let_def w1_def w2_def split: if_splits)
    show ?thesis
    proof (cases "split_point frag (C @ b)")
      case None
      then have w2d: "w2 = w1\<lparr>w_tls := True, w_done := True\<rparr>" using w2 by simp
      moreover from this have "w' = w2" "src' = src1" "k' = k + length b" "bs = []" "e = Some EOF" using fr by simp_all
      moreover have "frag_spec frag (C @ b) = C @ b" using None l(1) by (simp add: frag_spec_def)
      moreover have "rl_todo (w2, src1, k + length b) < rl_todo (w, src, k)"
        using sz h l(1) w2d by (simp add: rl_todo_def rl_pending_def w1_def)
      ultimately show ?thesis using sb c(1) l(1) None h(7) by (intro exI [of _ b]) (simp add: rl_rest_def w1_def)
    next
      case (Some j)
      then have w2': "w2 = w1\<lparr>w_hdr := with_len j (C @ b), w_tls := True, r1Size := j + 5, r2Size := payload_len (C @ b) - j + 5\<rparr>"
        using w2 by simp
      have d: "\<not> w_done w2" using h(2) by (simp add: w2' w1_def)
      have "rl_first frag (C @ b) w2 []" using l(1) Some h by (auto simp: rl_first_def w2' w1_def)
      from emit_ok [OF this c(1) assms(3), of "k + length b" w' src' k' bs e] fr d
      obtain b2 where b2: "rl_progress (w2, src1, k + length b) (w', src', k') b2 e"
        "rl_first frag ((C @ b) @ b2) w' bs \<or> rl_rest frag ((C @ b) @ b2) w' bs" "e = Some EOF \<longrightarrow> rl_first frag ((C @ b) @ b2) w' bs \<and> 5 \<le> r1Written w'"
        by auto
      have "rl_todo (w2, src1, k + length b) < rl_todo (w, src, k)"
        using sz h b0 by (simp add: rl_todo_def rl_pending_def w2' w1_def)
      then have "rl_progress (w, src, k) (w', src', k') (b @ b2) e" using b2(1) sb by (auto simp: rl_progress_def)
      moreover have "e = Some EOF \<longrightarrow> \<not> w_done w' \<and> src_bytes src' = [] \<and> (w_tls w' \<longrightarrow> 5 \<le> r1Written w')" using b2(1,3) by (auto simp: rl_progress_def rl_first_def)
      ultimately show ?thesis using b2(1,2) h(7) by (intro exI [of _ "b @ b2"]) (auto simp: rl_inv_def rl_progress_def)
    qed
  qed
qed

lemma remaining_ok:
  assumes "rl_rest frag C w E" "clean src" "0 < n" "remaining_read n (w, src, k) = ((w', src', k'), bs, e)"
  shows "\<exists>b. rl_progress (w, src, k) (w', src', k') b e \<and> rl_rest frag (C @ b) w' (E @ bs) \<and> (e = Some EOF \<longrightarrow> w_hdr w' = [])"
proof -
  have d: "w_done w" "5 \<le> length C" "length (w_hdr w) \<le> 5" "E @ w_hdr w = frag_spec frag C"
    "\<forall>k. split_point frag C = Some k \<longrightarrow> 5 + k \<le> length C"
    using assms(1) by (simp_all add: rl_rest_def)
  show ?thesis
  proof (cases "w_hdr w \<noteq> [] \<and> drop n (w_hdr w) \<noteq> []")
    case True
    then have r: "w' = w\<lparr>w_hdr := drop n (w_hdr w)\<rparr>" "src' = src" "k' = k" "bs = take n (w_hdr w)" "e = None"
      using assms(4) d(1) by (simp_all add: remaining_read_def Let_def)
    have "rl_progress (w, src, k) (w', src', k') [] e"
      using assms(2,3) True d(1) r by (auto simp: rl_progress_def rl_todo_def rl_pending_def)
    moreover have "rl_rest frag C w' (E @ bs)" using d r by (auto simp: rl_rest_def)
    ultimately show ?thesis using r(5) by (intro exI [of _ "[]"]) simp
  next
    case False
    then have hd: "take n (w_hdr w) = w_hdr w" "drop n (w_hdr w) = []" by auto
    obtain src1 b e1 where sr: "src_read src (n - length (w_hdr w)) = (src1, b, e1)" by (metis prod_cases3)
    have r: "w' = w\<lparr>w_hdr := []\<rparr>" "src' = src1" "k' = k + length b" "bs = w_hdr w @ b" "e = e1"
      using assms(4) d(1) False hd sr by (auto simp: remaining_read_def Let_def)
    have e: "e1 = (if src = [] then Some EOF else None)" by (rule src_read_clean_err [OF sr assms(2)])
    have "src_size src1 + rl_pending w' < src_size src + rl_pending w" if "src \<noteq> []"
    proof (cases "n - length (w_hdr w) = 0")
      case True
      then have "w_hdr w \<noteq> []" using assms(3) by auto
      moreover have "src_size src1 \<le> src_size src"
        using sr by (cases "(src, n - length (w_hdr w))" rule: src_read.cases) (auto simp: src_size_def split: if_splits)
      ultimately show ?thesis using r(1) d(1) by (cases "w_hdr w") (auto simp: rl_pending_def)
    next
      case False
      then show ?thesis using src_read_size [OF sr _ that] r(1) d(1) by (simp add: rl_pending_def)
    qed
    moreover have "src1 = []" if "src = []" using sr that by simp
    moreover have "rl_pending w' \<le> rl_pending w" using r(1) d(1) by (simp add: rl_pending_def)
    ultimately have "rl_progress (w, src, k) (w', src', k') b e"
      using src_read_bytes [OF sr] src_read_clean [OF sr assms(2)] e r by (auto simp: rl_progress_def rl_todo_def)
    moreover have "rl_rest frag (C @ b) w' (E @ bs)"
      using d r frag_spec_more [OF d(2,5), of b] by (auto simp: rl_rest_def)
    ultimately show ?thesis using r(1) by (intro exI [of _ b]) simp
  qed
qed

text \<open>\<^verbatim>\<open>Read\<close> of the \<^verbatim>\<open>io.MultiReader\<close>.\<close>

lemma multi_rest_ok:
  assumes "rl_inv frag RlRest C w src E" "0 < n" "multi_rest n (w, src, k) = ((stage', w', src', k'), bs, e)"
  shows "\<exists>b. rl_progress (w, src, k) (w', src', k') b e \<and> rl_inv frag stage' (C @ b) w' src' (E @ bs)
    \<and> (e = Some EOF \<longrightarrow> stage' = RlEnd)"
proof (cases "w_done w")
  case True
  then have rest: "rl_rest frag C w E" "clean src" using assms(1) by (auto simp: rl_inv_def rl_header_def rl_first_def)
  have rr: "remaining_read n (w, src, k) = ((w', src', k'), bs, e)" and st: "stage' = (if e = Some EOF then RlEnd else RlRest)"
    using assms(3) by (auto simp: multi_rest_def split: prod.splits)
  obtain b where "rl_progress (w, src, k) (w', src', k') b e" "rl_rest frag (C @ b) w' (E @ bs)" "e = Some EOF \<longrightarrow> w_hdr w' = []"
    using remaining_ok [OF rest assms(2) rr] by blast
  then show ?thesis using st by (intro exI [of _ b]) (auto simp: rl_inv_def rl_progress_def rl_rest_def)
next
  case False
  then have "w' = w" "src' = src" "k' = k" "bs = []" "e = Some EOF" "stage' = RlEnd"
    using assms(3) by (auto simp: multi_rest_def remaining_read_def)
  then show ?thesis using False assms(1) by (intro exI [of _ "[]"]) (auto simp: rl_inv_def rl_progress_def)
qed

lemma rest_done: "rl_rest frag C w E \<Longrightarrow> w_done w"
  by (simp add: rl_rest_def)

text \<open>The measure that each read without an error lowers: what is left to do, and the readers that are left.\<close>

definition rl_measure :: "rl_stage \<times> rl_state \<Rightarrow> nat" where
  "rl_measure = (\<lambda>(stage, st). rl_todo st + (if stage = RlFirst then 1 else 0))"

lemma first_read_ok:
  assumes "rl_inv frag RlFirst C w src E" "0 < n" "first_record_read frag n (w, src, k) = ((w', src', k'), bs, e)"
  shows "\<exists>b. src_bytes src = b @ src_bytes src' \<and> k' = k + length b
    \<and> (e = None \<and> rl_todo (w', src', k') < rl_todo (w, src, k) \<and> rl_inv frag RlFirst (C @ b) w' src' (E @ bs)
       \<or> e = Some EOF \<and> rl_todo (w', src', k') \<le> rl_todo (w, src, k) \<and> rl_inv frag RlRest (C @ b) w' src' (E @ bs))"
proof -
  have c: "clean src" using assms(1) by (simp add: rl_inv_def)
  consider "rl_header C w E" | "rl_first frag C w E" | "rl_rest frag C w E" using assms(1) by (auto simp: rl_inv_def)
  then show ?thesis
  proof cases
    case 1
    have "E = []" using 1 by (simp add: rl_header_def)
    then show ?thesis using header_first [OF 1 c assms(2,3)]
      by (elim exE disjE) (auto simp: rl_progress_def rl_inv_def dest: rest_done)
  next
    case 2
    then have "first_record_emit n (w, src, k) = ((w', src', k'), bs, e)"
      using assms(3) by (simp add: first_record_read_def rl_first_def)
    from emit_ok [OF 2 c assms(2) this] show ?thesis
      by (auto simp: rl_progress_def rl_inv_def)
  next
    case 3
    then have "w' = w" "src' = src" "k' = k" "bs = []" "e = Some EOF"
      using assms(3) by (auto simp: first_record_read_def rl_rest_def)
    then show ?thesis using 3 c by (intro exI [of _ "[]"]) (auto simp: rl_inv_def rl_rest_def)
  qed
qed

lemma multi_read_ok:
  assumes "rl_inv frag stage C w src E" "0 < n" "multi_read frag n (stage, w, src, k) = ((stage', w', src', k'), bs, e)"
  shows "\<exists>b. src_bytes src = b @ src_bytes src' \<and> k' = k + length b \<and> rl_inv frag stage' (C @ b) w' src' (E @ bs)
    \<and> (e = None \<and> rl_measure (stage', w', src', k') < rl_measure (stage, w, src, k) \<or> e = Some EOF \<and> stage' = RlEnd)"
proof (cases stage)
  case RlFirst
  obtain w1 src1 k1 bs1 e1 where f: "first_record_read frag n (w, src, k) = ((w1, src1, k1), bs1, e1)" by (metis prod_cases3 surj_pair)
  obtain b where b: "src_bytes src = b @ src_bytes src1" "k1 = k + length b"
    and alt: "e1 = None \<and> rl_todo (w1, src1, k1) < rl_todo (w, src, k) \<and> rl_inv frag RlFirst (C @ b) w1 src1 (E @ bs1)
       \<or> e1 = Some EOF \<and> rl_todo (w1, src1, k1) \<le> rl_todo (w, src, k) \<and> rl_inv frag RlRest (C @ b) w1 src1 (E @ bs1)"
    using first_read_ok [OF _ assms(2) f] assms(1) RlFirst by blast
  show ?thesis
  proof (cases "e1 = Some EOF \<and> bs1 = []")
    case False
    then show ?thesis using assms(3) RlFirst f b alt
      by (intro exI [of _ b]) (auto simp: multi_read_def rl_measure_def split: if_splits)
  next
    case True
    then have i: "rl_inv frag RlRest (C @ b) w1 src1 E" and td: "rl_todo (w1, src1, k1) \<le> rl_todo (w, src, k)" using alt by auto
    have m: "multi_rest n (w1, src1, k1) = ((stage', w', src', k'), bs, e)"
      using assms(3) RlFirst f True by (simp add: multi_read_def)
    obtain b2 where "rl_progress (w1, src1, k1) (w', src', k') b2 e" "rl_inv frag stage' ((C @ b) @ b2) w' src' (E @ bs)"
      "e = Some EOF \<longrightarrow> stage' = RlEnd"
      using multi_rest_ok [OF i assms(2) m] by blast
    then show ?thesis using b td RlFirst m
      by (intro exI [of _ "b @ b2"]) (auto simp: rl_progress_def rl_measure_def)
  qed
next
  case RlRest
  then have i: "rl_inv frag RlRest C w src E" and m: "multi_rest n (w, src, k) = ((stage', w', src', k'), bs, e)"
    using assms(1,3) by (simp_all add: multi_read_def)
  have "stage' \<noteq> RlFirst" using m by (auto simp: multi_rest_def split: prod.splits if_splits)
  then show ?thesis using multi_rest_ok [OF i assms(2) m] RlRest by (auto simp: rl_progress_def rl_measure_def)
next
  case RlEnd
  then show ?thesis using assms by (intro exI [of _ "[]"]) (auto simp: multi_read_def)
qed

section \<open>All reads\<close>

text \<open>Each read leaves less to do, so that the base needs no buffer beyond the \<open>N\<close>th.\<close>

lemma multi_copy_step:
  assumes "multi_read frag (ns i) st = (st', bs, e)" "(if bs = [] then (s, 0, None) else wr s bs) = (s', length bs, None)"
  shows "multi_copy frag wr ns i st s =
     (case e of Some x \<Rightarrow> Some (st', s', if x = EOF then None else Some x) | None \<Rightarrow> multi_copy frag wr ns (Suc i) st' s')"
  by (subst multi_copy.simps) (simp only: Let_def assms fst_conv snd_conv option.case simp_thms if_False)

context reliable_writer
begin

lemma write_some_good:
  assumes "good s"
  shows "\<exists>s1. (if bs = [] then (s, 0, None) else wr s bs) = (s1, length bs, None) \<and> good s1 \<and> out s1 = out s @ bs"
proof -
  obtain s1 where "good s1" "wr s bs = (s1, length bs, None)" using good_ok [OF assms] by blast
  then show ?thesis using wr_ok assms by auto
qed

lemma multi_copy_good:
  assumes "rl_inv frag stage C w src E" "good s" "\<forall>j \<le> N. 0 < ns j" "i + rl_measure (stage, w, src, k) \<le> N"
  shows "\<exists>w' src' s' b bs. multi_copy frag wr ns i (stage, w, src, k) s = Some ((RlEnd, w', src', k + length b), s', None)
    \<and> src_bytes src = b @ src_bytes src' \<and> rl_inv frag RlEnd (C @ b) w' src' (E @ bs) \<and> good s' \<and> out s' = out s @ bs"
  using assms
proof (induction "rl_measure (stage, w, src, k)" arbitrary: stage C w src E k s i rule: less_induct)
  case less
  obtain stage1 w1 src1 k1 bs1 e1 where r: "multi_read frag (ns i) (stage, w, src, k) = ((stage1, w1, src1, k1), bs1, e1)"
    by (metis prod_cases3 surj_pair)
  have n: "0 < ns i" using less.prems(3,4) by simp
  obtain b where b: "src_bytes src = b @ src_bytes src1" "k1 = k + length b" "rl_inv frag stage1 (C @ b) w1 src1 (E @ bs1)"
    and alt: "e1 = None \<and> rl_measure (stage1, w1, src1, k1) < rl_measure (stage, w, src, k) \<or> e1 = Some EOF \<and> stage1 = RlEnd"
    using multi_read_ok [OF less.prems(1) n r] by blast
  obtain s1 where s1: "(if bs1 = [] then (s, 0, None) else wr s bs1) = (s1, length bs1, None)" "good s1" "out s1 = out s @ bs1"
    using write_some_good [OF less.prems(2)] by blast
  show ?case
  proof (cases e1)
    case (Some x)
    then have "multi_copy frag wr ns i (stage, w, src, k) s = Some ((RlEnd, w1, src1, k1), s1, None)"
      using alt by (simp add: multi_copy_step [where ns = ns and i = i and wr = wr and s = s, OF r s1(1)])
    then show ?thesis using b alt Some s1 by auto
  next
    case None
    have m: "rl_measure (stage1, w1, src1, k1) < rl_measure (stage, w, src, k)" using alt None by simp
    then have "Suc i + rl_measure (stage1, w1, src1, k1) \<le> N" using less.prems(4) by simp
    from less.hyps [OF m b(3) s1(2) less.prems(3) this]
    obtain w' src' s' b2 bs2 where IH: "multi_copy frag wr ns (Suc i) (stage1, w1, src1, k1) s1 = Some ((RlEnd, w', src', k1 + length b2), s', None)"
      "src_bytes src1 = b2 @ src_bytes src'" "rl_inv frag RlEnd ((C @ b) @ b2) w' src' ((E @ bs1) @ bs2)" "good s'" "out s' = out s1 @ bs2"
      by blast
    have "multi_copy frag wr ns i (stage, w, src, k) s = multi_copy frag wr ns (Suc i) (stage1, w1, src1, k1) s1"
      by (simp add: multi_copy_step [where ns = ns and i = i and wr = wr and s = s, OF r s1(1)] None)
    then show ?thesis using IH b s1(3) by (intro exI [of _ w'] exI [of _ src'] exI [of _ s'] exI [of _ "b @ b2"] exI [of _ "bs1 @ bs2"]) auto
  qed
qed

lemma copy_from_good:
  "good s \<Longrightarrow> clean src \<Longrightarrow> \<exists>s'. copy_from wr s src = (s', [], length (src_bytes src), None) \<and> good s' \<and> out s' = out s @ src_bytes src"
proof (induction src arbitrary: s)
  case (Cons c src)
  obtain bs x where c: "c = Chunk bs x" by (cases c)
  obtain s1 where s1: "(if bs = [] then (s, 0, None) else wr s bs) = (s1, length bs, None)" "good s1" "out s1 = out s @ bs"
    using write_some_good [OF Cons.prems(1)] by blast
  show ?case using Cons.IH [OF s1(2)] Cons.prems(2) s1 c by (cases x) auto
qed simp

end

lemma reclen_rel_start:
  assumes "reclen_rel frag T w" "\<not> w_done w \<or> w_hdr w \<noteq> []" "clean src"
  shows "rl_inv frag RlFirst T w src (frag_spec frag T)"
proof (cases "length T < 5")
  case True
  then show ?thesis using assms by (simp add: rl_inv_def rl_header_def reclen_rel_def frag_spec_def)
next
  case False
  then obtain k where k: "split_point frag T = Some k" "length T < 5 + k"
    using assms(1,2) by (auto simp: reclen_rel_def split: option.splits if_splits)
  have "length (with_len k (take 5 T)) = 5" using False by simp
  then have "rl_first frag T w (frag_spec frag T)"
    using assms(1) False k by (auto simp: rl_first_def reclen_rel_def frag_spec_def)
  then show ?thesis using assms(3) by (simp add: rl_inv_def)
qed

lemma reclen_rel_end:
  assumes "rl_inv frag RlEnd C w src E"
  shows "reclen_rel frag C w \<and> E = frag_spec frag C"
proof -
  consider "rl_header C w E" | "rl_first frag C w E" | "rl_rest frag C w E" using assms by (auto simp: rl_inv_def)
  then show ?thesis
  proof cases
    case 1
    then show ?thesis by (simp add: rl_header_def reclen_rel_def frag_spec_def)
  next
    case 2
    then obtain k where k: "5 \<le> length C" "\<not> w_done w" "w_tls w" "split_point frag C = Some k" "w_hdr w = with_len k (take 5 C)"
        "r1Size w = k + 5" "r2Size w = payload_len (take 5 C) - k + 5" "r1Written w < k + 5"
        "if r1Written w < 5 then length C = 5 else r1Written w = length C"
        "E = take (r1Written w) (with_len k (take 5 C) @ drop 5 C)"
      by (auto simp: rl_first_def)
    have "5 \<le> r1Written w" using assms k(2,3) by (simp add: rl_inv_def)
    then have r1: "r1Written w = length C" using k(9) by simp
    then have l: "length C < 5 + k" using k(8) by simp
    have "length (with_len k (take 5 C)) = 5" using k(1) by simp
    then have E: "E = with_len k (take 5 C) @ drop 5 C" using k(1) by (simp add: k(10) r1)
    have "reclen_rel frag C w" using k(1-7) l r1 by (simp add: reclen_rel_def)
    moreover have "frag_spec frag C = E" using k(1) l by (simp add: frag_spec_def E k(4))
    ultimately show ?thesis by simp
  next
    case 3
    then show ?thesis using assms
      by (auto simp: rl_rest_def rl_inv_def reclen_rel_def split: option.splits if_splits)
  qed
qed

lemma reclen_rel_done:
  assumes "reclen_rel frag T w" "w_done w" "w_hdr w = []"
  shows "reclen_rel frag (T @ b) w" "frag_spec frag (T @ b) = frag_spec frag T @ b"
proof -
  have T: "5 \<le> length T" using assms(1,2) by (auto simp: reclen_rel_def split: if_splits)
  then have "\<forall>k. split_point frag T = Some k \<longrightarrow> 5 + k \<le> length T"
    using assms(1,2) by (auto simp: reclen_rel_def split: if_splits)
  then show "reclen_rel frag (T @ b) w" "frag_spec frag (T @ b) = frag_spec frag T @ b"
    using assms T frag_spec_more [OF T, of frag b] by (auto simp: reclen_rel_def split: option.splits)
qed

text \<open>
  C8: whatever buffers the base reads with, and however the source is cut, \<^verbatim>\<open>ReadFrom\<close> of the streaming fragmenter returns
  without an error when the source ends, at the latest with the read number \<open>src_size src + 21\<close> (no buffer after that is
  used), and reports the number of bytes of the source; with what was written before, the fragmented form of the whole
  stream is on the base, and the writer is in the same state as after \<^verbatim>\<open>Write\<close>.
\<close>

theorem reclen_read_from_any_buffers:
  assumes "reclen_rel frag T w" "clean src" "healthy s" "wire s = U @ frag_spec frag T"
    and "\<forall>i \<le> src_size src + 21. 0 < ns i"
  shows "\<exists>w' src' s'. reclen_read_from frag sink_write ns (w, src) s = Some ((w', src'), s', length (src_bytes src), None)
    \<and> wire s' = U @ frag_spec frag (T @ src_bytes src) \<and> reclen_rel frag (T @ src_bytes src) w' \<and> src_bytes src' = []"
proof (cases "\<not> w_done w \<or> w_hdr w \<noteq> []")
  case True
  have i: "rl_inv frag RlFirst T w src (frag_spec frag T)" by (rule reclen_rel_start [OF assms(1) True assms(2)])
  have "rl_pending w \<le> 20" using i by (auto simp: rl_inv_def rl_pending_def rl_header_def rl_first_def rl_rest_def)
  then have "0 + rl_measure (RlFirst, w, src, 0) \<le> src_size src + 21" by (simp add: rl_measure_def rl_todo_def)
  from net.multi_copy_good [OF i assms(3,5) this]
  obtain w' src' s' b bs where r: "multi_copy frag sink_write ns 0 (RlFirst, w, src, 0) s = Some ((RlEnd, w', src', length b), s', None)"
    "src_bytes src = b @ src_bytes src'" "rl_inv frag RlEnd (T @ b) w' src' (frag_spec frag T @ bs)" "wire s' = wire s @ bs"
    by auto
  have e: "src_bytes src' = []" using r(3) by (simp add: rl_inv_def)
  then show ?thesis using r True assms(4) reclen_rel_end [OF r(3)] by (auto simp: reclen_read_from_def)
next
  case False
  then show ?thesis using net.copy_from_good [OF assms(3,2)] reclen_rel_done [OF assms(1)] assms(4)
    by (auto simp: reclen_read_from_def)
qed

text \<open>A Client Hello of ten bytes that comes in three pieces after its first two bytes were written, read seven bytes at a time.\<close>

definition rl_demo_src :: source where
  "rl_demo_src = [Chunk [1, 0] None, Chunk [10, 1, 2, 3] None, Chunk [4, 5, 6, 7, 8, 9, 10, 99] None]"

theorem reclen_read_from_any_buffers_witness:
  "\<exists>w' src' s'. reclen_read_from (\<lambda>_. 4) sink_write (\<lambda>_. 7) (reclen_init\<lparr>w_hdr := [22, 3]\<rparr>, rl_demo_src) fresh_sink
       = Some ((w', src'), s', 14, None)
     \<and> wire s' = [22, 3, 1, 0, 4, 1, 2, 3, 4, 22, 3, 1, 0, 6, 5, 6, 7, 8, 9, 10, 99]"
proof -
  have r: "reclen_rel (\<lambda>_. 4) [22, 3] (reclen_init\<lparr>w_hdr := [22, 3]\<rparr>)" by (simp add: reclen_rel_def reclen_init_def)
  have c: "clean rl_demo_src" "src_bytes rl_demo_src = [1, 0, 10, 1, 2, 3, 4, 5, 6, 7, 8, 9, 10, 99]"
    by (simp_all add: rl_demo_src_def src_size_def)
  have n: "\<forall>i \<le> src_size rl_demo_src + 21. 0 < (7 :: nat)" by simp
  have spec: "frag_spec (\<lambda>_. 4) [22, 3] = []"
    "frag_spec (\<lambda>_. 4) ([22, 3] @ src_bytes rl_demo_src) = [22, 3, 1, 0, 4, 1, 2, 3, 4, 22, 3, 1, 0, 6, 5, 6, 7, 8, 9, 10, 99]"
    unfolding c(2) by (simp_all add: frag_spec_def split_point_def payload_len_def validate_header_def subslice_def handshake_versions_def recordTypeHandshake_def set_payload_len_def blit_def put_u16_def)
  have w: "wire fresh_sink = [] @ frag_spec (\<lambda>_. 4) [22, 3]" by (simp add: spec(1))
  show ?thesis using reclen_read_from_any_buffers [OF r c(1) healthy_fresh w n] spec(2) c(2) by auto
qed

text \<open>
  When the source fails within the first five bytes, \<^verbatim>\<open>ReadFrom\<close> returns no error: the header reader turns every error into the
  end of the stream.
\<close>

theorem reclen_read_from_swallows_error:
  assumes "length bs < 5"
  shows "\<exists>w' src'. reclen_read_from frag wr ns (reclen_init, [Chunk bs (Some x)]) s = Some ((w', src'), s, length bs, None)"
proof -
  have "\<exists>e. read_full [Chunk bs (Some x)] 5 = ([], bs, Some e)"
    using assms by (auto simp: read_full_def numeral_eq_Suc)
  then show ?thesis using assms
    by (auto simp: reclen_read_from_def reclen_init_def multi_copy.simps [where i = 0] multi_read_def first_record_read_def
        multi_rest_def remaining_read_def Let_def)
qed

theorem reclen_read_from_swallows_error_witness:
  "\<exists>w' src'. reclen_read_from (\<lambda>_. 1) sink_write (\<lambda>_. 512) (reclen_init, [Chunk [22, 3] (Some (ErrNew ''connection reset''))]) fresh_sink
     = Some ((w', src'), fresh_sink, Suc (Suc 0), None)"
  using reclen_read_from_swallows_error [of "[22, 3]"] by simp

end
