(* ===== verification/StreamStack.thy ===== *)
theory StreamStack
  imports RecordLenFrag ClientHelloFrag SplitStream
begin

text \<open>
  Dialers over dialers. The dialers of \<^verbatim>\<open>transport/tlsfrag/stream_dialer.go\<close> and \<^verbatim>\<open>transport/split/stream_dialer.go\<close> wrap the
  connection of another dialer with a writer that writes to that connection, so a stack of them is a stack of
  writers. The lemmas show that a stack of any height rewrites the stream as its layers do one after the other,
  whatever the calls it comes in, and what happens to bytes that a layer still holds at the end.
\<close>

section \<open>Connections with layers\<close>

text \<open>A connection: the writers around it, the outermost first, and the connection of the network.\<close>

datatype layer =
    LSplit "split_iter split_writer"
  | LReclen reclen_frag reclen
  | LHello hello_frag hello_writer

type_synonym 's layered = "layer list \<times> 's"

definition layer_write :: "'t writer \<Rightarrow> (layer \<times> 't) writer" where
  "layer_write wr = (\<lambda>(l, x) p.
     case l of
       LSplit w \<Rightarrow> (case split_write next_segment wr (w, x) p of ((w', x'), n, e) \<Rightarrow> ((LSplit w', x'), n, e))
     | LReclen f w \<Rightarrow> (case reclen_write f wr (w, x) p of ((w', x'), n, e) \<Rightarrow> ((LReclen f w', x'), n, e))
     | LHello f w \<Rightarrow> (case hello_write f wr (w, x) p of ((w', x'), n, e) \<Rightarrow> ((LHello f w', x'), n, e)))"

text \<open>\<^verbatim>\<open>Write\<close> of a connection with \<open>k\<close> layers: the writer of a layer writes to the connection below it.\<close>

primrec stack_write :: "'s writer \<Rightarrow> nat \<Rightarrow> 's layered writer" where
  "stack_write wr 0 = (\<lambda>(ls, s) p. case wr s p of (s', n, e) \<Rightarrow> ((ls, s'), n, e))"
| "stack_write wr (Suc k) = (\<lambda>(ls, s) p.
     case layer_write (stack_write wr k) (hd ls, tl ls, s) p of
       ((l', ls', s'), n, e) \<Rightarrow> ((l' # ls', s'), n, e))"

definition conn_write :: "'s writer \<Rightarrow> 's layered writer" where
  "conn_write wr c p = stack_write wr (length (fst c)) c p"

text \<open>\<^verbatim>\<open>CloseWrite\<close> and \<^verbatim>\<open>CloseRead\<close> of the adaptors: the call reaches the connection of the network, no writer sees it.\<close>

definition layered_call :: "('s \<Rightarrow> 's \<times> 'a) \<Rightarrow> 's layered \<Rightarrow> 's layered \<times> 'a" where
  "layered_call f = (\<lambda>(ls, s). case f s of (s', a) \<Rightarrow> ((ls, s'), a))"

section \<open>Dialers\<close>

text \<open>A dial gives the connections that it closed, and a connection or an error.\<close>

type_synonym 's ldialer = "string \<Rightarrow> 's layered list \<times> (err + 's layered)"

definition WrapConnFragFunc :: "'s layered \<Rightarrow> hello_frag option \<Rightarrow> err + 's layered" where
  "WrapConnFragFunc base frag =
     (case new_hello_writer (Some base) frag of
        Inl e \<Rightarrow> Inl e
      | Inr (w, ls, s) \<Rightarrow> Inr (LHello (the frag) w # ls, s))"

definition WrapConnFixedLen :: "'s layered \<Rightarrow> int \<Rightarrow> err + 's layered" where
  "WrapConnFixedLen base splitLen =
     (case new_reclen_writer (Some base) (Some (fixed_len_frag splitLen)) of
        Inl e \<Rightarrow> Inl e
      | Inr (w, ls, s) \<Rightarrow> Inr (LReclen (fixed_len_frag splitLen) w # ls, s))"

text \<open>The dial of both tlsfrag dialers: a connection that cannot be wrapped is closed.\<close>

definition frag_dial :: "('s layered \<Rightarrow> err + 's layered) \<Rightarrow> 's ldialer \<Rightarrow> 's ldialer" where
  "frag_dial wrap base = (\<lambda>raddr.
     case base raddr of
       (cl, Inl e) \<Rightarrow> (cl, Inl e)
     | (cl, Inr baseConn) \<Rightarrow>
         (case wrap baseConn of Inl e \<Rightarrow> (cl @ [baseConn], Inl e) | Inr conn \<Rightarrow> (cl, Inr conn)))"

definition NewStreamDialerFunc :: "'s ldialer option \<Rightarrow> hello_frag option \<Rightarrow> err + 's ldialer" where
  "NewStreamDialerFunc base frag =
     (case base of
        None \<Rightarrow> Inl (ErrNew ''base dialer must not be nil'')
      | Some d \<Rightarrow>
          (case frag of
             None \<Rightarrow> Inl (ErrNew ''frag function must not be nil'')
           | Some f \<Rightarrow> Inr (frag_dial (\<lambda>c. WrapConnFragFunc c (Some f)) d)))"

definition NewFixedLenStreamDialer :: "'s ldialer option \<Rightarrow> int \<Rightarrow> err + 's ldialer" where
  "NewFixedLenStreamDialer base splitLen =
     (case base of
        None \<Rightarrow> Inl (ErrNew ''base dialer must not be nil'')
      | Some d \<Rightarrow> if splitLen = 0 then Inr d else Inr (frag_dial (\<lambda>c. WrapConnFixedLen c splitLen) d))"

text \<open>The split dialer, with its iterator as it is when it dials (connections of the dialer share it).\<close>

definition new_split_dialer :: "'s ldialer option \<Rightarrow> split_iter \<Rightarrow> err + 's ldialer" where
  "new_split_dialer base it =
     (case base of
        None \<Rightarrow> Inl (ErrNew ''argument dialer must not be nil'')
      | Some d \<Rightarrow> Inr (\<lambda>raddr.
          case d raddr of
            (cl, inner) \<Rightarrow> (cl, (case split_dial next_segment inner it of
                                   Inl e \<Rightarrow> Inl e
                                 | Inr (w, ls, s) \<Rightarrow> Inr (LSplit w # ls, s)))))"

datatype dialer_cfg = DSplit split_iter | DFixedLen int | DFragFunc hello_frag

fun stack_dialer :: "dialer_cfg list \<Rightarrow> 's ldialer \<Rightarrow> err + 's ldialer" where
  "stack_dialer [] base = Inr base"
| "stack_dialer (c # cs) base =
     (case stack_dialer cs base of
        Inl e \<Rightarrow> Inl e
      | Inr d \<Rightarrow>
          (case c of
             DSplit it \<Rightarrow> new_split_dialer (Some d) it
           | DFixedLen n \<Rightarrow> NewFixedLenStreamDialer (Some d) n
           | DFragFunc f \<Rightarrow> NewStreamDialerFunc (Some d) (Some f)))"

section \<open>A writer that only gets bytes\<close>

text \<open>
  What a layer writes does not depend on the writer below it, as long as that one takes everything. So a layer can be
  studied over \<open>append_write\<close>, which only collects the bytes.
\<close>

definition append_write :: "bytes writer" where
  "append_write U p = (U @ p, length p, None)"

interpretation app: reliable_writer append_write "\<lambda>U. U" "\<lambda>_. True"
  by unfold_locales (auto simp: append_write_def)

text \<open>The contract of a connection that takes everything: \<open>R U x\<close> says that \<open>U\<close> are the bytes it has taken.\<close>

locale taking_writer =
  fixes wr :: "'s writer" and R :: "bytes \<Rightarrow> 's \<Rightarrow> bool"
  assumes takes: "R U x \<Longrightarrow> \<exists>x'. wr x p = (x', length p, None) \<and> R (U @ p) x'"
begin

lemma write_n_sim:
  assumes "R U x" "write_n append_write U p limit = (U', n, e)"
  shows "\<exists>x'. write_n wr x p limit = (x', n, e) \<and> R U' x'"
  using assms(2) takes [OF assms(1), of "if int (length p) > limit then take (nat limit) p else p"] assms(1)
  by (auto simp: write_n_def append_write_def split: if_splits)

lemma buffer_write_to_sim:
  assumes "R U x" "buffer_write_to append_write U b = (U', n, b', e)"
  shows "\<exists>x'. buffer_write_to wr x b = (x', n, b', e) \<and> R U' x'"
  using assms(2) takes [OF assms(1), of b] assms(1)
  by (auto simp: buffer_write_to_def append_write_def split: if_splits)

lemma write_both_sim:
  assumes "R U x" "write_both append_write U p1 p2 = (U', n, m, e)"
  shows "\<exists>x'. write_both wr x p1 p2 = (x', n, m, e) \<and> R U' x'"
proof -
  obtain U1 k b e1 where b: "buffer_write_to append_write U (p1 @ p2) = (U1, k, b, e1)" by (metis prod_cases4)
  obtain x1 where "buffer_write_to wr x (p1 @ p2) = (x1, k, b, e1)" "R U1 x1"
    using buffer_write_to_sim [OF assms(1) b] by blast
  then show ?thesis using assms(2) b by (auto simp: write_both_def split: if_splits)
qed

lemma write_both_n_sim:
  assumes "R U x" "write_both_n append_write U p1 p2 limit = (U', n, m, e)"
  shows "\<exists>x'. write_both_n wr x p1 p2 limit = (x', n, m, e) \<and> R U' x'"
proof (cases "limit \<le> length p1")
  case True
  then show ?thesis using assms(2) takes [OF assms(1), of "take limit p1"] by (auto simp: write_both_n_def append_write_def)
next
  case False
  then show ?thesis using assms(2) write_both_sim [OF assms(1)] by (simp add: write_both_n_def)
qed

lemma reclen_first_sim:
  assumes "R U x" "reclen_first append_write (w, U) p = ((w', U'), n, e)"
  shows "\<exists>x'. reclen_first wr (w, x) p = ((w', x'), n, e) \<and> R U' x'"
proof (cases "r1Written w < recordHeaderLen")
  case True
  obtain U1 h m e1 where b: "write_both_n append_write U (drop (r1Written w) (take recordHeaderLen (w_hdr w))) p (r1Size w) = (U1, h, m, e1)"
    by (metis prod_cases4)
  obtain x1 where "write_both_n wr x (drop (r1Written w) (take recordHeaderLen (w_hdr w))) p (r1Size w) = (x1, h, m, e1)" "R U1 x1"
    using write_both_n_sim [OF assms(1) b] by blast
  then show ?thesis using assms(2) b True by (auto simp: reclen_first_def)
next
  case False
  obtain U1 m e1 where b: "write_n append_write U p (int (r1Size w) - int (r1Written w)) = (U1, m, e1)" by (metis prod_cases3)
  obtain x1 where "write_n wr x p (int (r1Size w) - int (r1Written w)) = (x1, m, e1)" "R U1 x1"
    using write_n_sim [OF assms(1) b] by blast
  then show ?thesis using assms(2) b False by (auto simp: reclen_first_def)
qed

lemma reclen_rest_sim:
  assumes "R U x" "reclen_rest append_write (w, U) p k = ((w', U'), n, e)"
  shows "\<exists>x'. reclen_rest wr (w, x) p k = ((w', x'), n, e) \<and> R U' x'"
proof (cases "w_hdr w = []")
  case True
  then show ?thesis using assms(2) takes [OF assms(1), of p] by (auto simp: reclen_rest_def append_write_def)
next
  case False
  obtain U1 h m e1 where b: "write_both_n append_write U (w_hdr w) p 16384 = (U1, h, m, e1)" by (metis prod_cases4)
  obtain x1 where x1: "write_both_n wr x (w_hdr w) p 16384 = (x1, h, m, e1)" "R U1 x1"
    using write_both_n_sim [OF assms(1) b] by blast
  then show ?thesis using assms(2) b False takes [OF x1(2), of "drop m p"]
    by (auto simp: reclen_rest_def Let_def append_write_def split: if_splits)
qed

lemma reclen_split_sim:
  assumes "R U x" "reclen_split append_write (w, U) p k = ((w', U'), n, e)"
  shows "\<exists>x'. reclen_split wr (w, x) p k = ((w', x'), n, e) \<and> R U' x'"
proof -
  obtain w2 U2 m e1 where b: "reclen_first append_write (w, U) p = ((w2, U2), m, e1)" by (metis prod_cases3 surj_pair)
  obtain x2 where x2: "reclen_first wr (w, x) p = ((w2, x2), m, e1)" "R U2 x2"
    using reclen_first_sim [OF assms(1) b] by blast
  show ?thesis using assms(2) b x2 reclen_rest_sim [OF x2(2)]
    by (auto simp: reclen_split_def Let_def split: if_splits)
qed

lemma reclen_write_sim:
  assumes "R U x" "reclen_write f append_write (w, U) p = ((w', U'), n, e)"
  shows "\<exists>x'. reclen_write f wr (w, x) p = ((w', x'), n, e) \<and> R U' x'"
  using assms(2) reclen_rest_sim [OF assms(1)] reclen_split_sim [OF assms(1)] assms(1)
  by (auto simp: reclen_write_def Let_def split: if_splits prod.splits)

lemma hello_write_sim:
  assumes "R U x" "hello_write f append_write (w, U) p = ((w', U'), n, e)"
  shows "\<exists>x'. hello_write f wr (w, x) p = ((w', x'), n, e) \<and> R U' x'"
proof -
  have rest: "\<exists>x'. hello_rest wr (v, y) q k = ((v', x'), n, e) \<and> R U' x'"
    if "R V y" "hello_rest append_write (v, V) q k = ((v', U'), n, e)" for V y v q k v'
    using that(2) takes [OF that(1), of q] that(1) by (auto simp: hello_rest_def append_write_def split: if_splits)
  have flush: "\<exists>x'. hello_flush_rest wr (v, y) q k = ((v', x'), n, e) \<and> R U' x'"
    if r: "R V y" and h: "hello_flush_rest append_write (v, V) q k = ((v', U'), n, e)" for V y v q k v'
  proof (cases "hw_record v")
    case None
    then show ?thesis using h rest [OF r] by (simp add: hello_flush_rest_def flush_record_def)
  next
    case (Some r0)
    obtain U1 m b' e1 where b: "buffer_write_to append_write V r0 = (U1, m, b', e1)" by (metis prod_cases4)
    obtain x1 where x1: "buffer_write_to wr y r0 = (x1, m, b', e1)" "R U1 x1"
      using buffer_write_to_sim [OF r b] by blast
    show ?thesis
      using h b x1 rest [OF x1(2)] Some
      by (cases e1) (auto simp: hello_flush_rest_def flush_record_def)
  qed
  show ?thesis
    using assms(2) rest [OF assms(1)] flush [OF assms(1)] assms(1)
    by (auto simp: hello_write_def split: if_splits option.splits prod.splits)
qed

lemma split_loop_sim:
  "R U x \<Longrightarrow> \<exists>w' x'. split_loop nxt wr w x p k = Some ((w', x'), k + length p, None) \<and> R (U @ p) x'"
proof (induction "length p" arbitrary: w x p k U rule: less_induct)
  case less
  let ?k = "nat (nextSplitBytes w)"
  show ?case
  proof (cases "0 < nextSplitBytes w \<and> nextSplitBytes w < int (length p)")
    case True
    then have l: "length (take ?k p) = ?k" "length (drop ?k p) < length p" by auto
    obtain x1 where x1: "wr x (take ?k p) = (x1, ?k, None)" "R (U @ take ?k p) x1"
      using takes [OF less.prems, of "take ?k p"] l(1) by auto
    have "k + ?k + length (drop ?k p) = k + length p" using True by auto
    then show ?thesis
      using less.hyps [OF l(2) x1(2), of "advance nxt (int ?k) w" "k + ?k"] True x1(1)
      by (subst split_loop.simps) auto
  next
    case False
    then show ?thesis using takes [OF less.prems, of p] by (subst split_loop.simps) auto
  qed
qed

end

text \<open>The network end takes everything while it is healthy.\<close>

interpretation sink_takes: taking_writer sink_write "\<lambda>U s. healthy s \<and> wire s = o0 @ U" for o0
  by unfold_locales auto

section \<open>One layer\<close>

fun layer_spec :: "layer \<Rightarrow> bytes \<Rightarrow> bytes" where
  "layer_spec (LSplit _) T = T"
| "layer_spec (LReclen f _) T = frag_spec f T"
| "layer_spec (LHello f _) T = hello_spec f T"

fun layer_rel :: "bytes \<Rightarrow> layer \<Rightarrow> bool" where
  "layer_rel T (LSplit _) = True"
| "layer_rel T (LReclen f w) = reclen_rel f T w"
| "layer_rel T (LHello f w) = hello_rel T w"

context taking_writer
begin

lemma layer_write_takes:
  assumes "layer_rel T l" "R (layer_spec l T) x"
  shows "\<exists>l' x'. layer_write wr (l, x) p = ((l', x'), length p, None) \<and> layer_rel (T @ p) l'
    \<and> layer_spec l' = layer_spec l \<and> R (layer_spec l (T @ p)) x'"
proof (cases l)
  case (LSplit w)
  then show ?thesis using split_loop_sim [of T x next_segment w p 0] assms(2)
    by (fastforce simp: layer_write_def split_write_def)
next
  case (LReclen f w)
  obtain w' U' n where a: "reclen_write f append_write (w, frag_spec f T) p = ((w', U'), n, None)"
    using app.reclen_write_good by blast
  note s = app.reclen_write_step [of f T w "frag_spec f T" "[]", OF _ _ a]
  obtain x' where "reclen_write f wr (w, x) p = ((w', x'), n, None)" "R U' x'"
    using reclen_write_sim [OF _ a] assms(2) LReclen by auto
  then show ?thesis using s assms(1) LReclen by (auto simp: layer_write_def)
next
  case (LHello f w)
  obtain w' U' n where a: "hello_write f append_write (w, hello_spec f T) p = ((w', U'), n, None)"
    using app.hello_write_good [where s = "hello_spec f T" and frag = f and w = w and p = p] by fastforce
  note s = app.hello_write_step [where ?o0.0 = "[]", OF _ _ a]
  obtain x' where "hello_write f wr (w, x) p = ((w', x'), n, None)" "R U' x'"
    using hello_write_sim [OF _ a] assms(2) LHello by auto
  then show ?thesis using s assms(1) LHello by (auto simp: layer_write_def)
qed

end

section \<open>Any stack of layers\<close>

fun stack_spec :: "layer list \<Rightarrow> bytes \<Rightarrow> bytes" where
  "stack_spec [] T = T"
| "stack_spec (l # ls) T = stack_spec ls (layer_spec l T)"

fun stack_rel :: "(bytes \<Rightarrow> 's \<Rightarrow> bool) \<Rightarrow> bytes \<Rightarrow> layer list \<Rightarrow> 's \<Rightarrow> bool" where
  "stack_rel R T [] s = R T s"
| "stack_rel R T (l # ls) s = (layer_rel T l \<and> stack_rel R (layer_spec l T) ls s)"

lemma stack_spec_fold: "stack_spec ls T = fold (\<lambda>f. f) (map layer_spec ls) T"
  by (induction ls arbitrary: T) simp_all

lemma stack_spec_map: "map layer_spec ls = map layer_spec ls' \<Longrightarrow> stack_spec ls T = stack_spec ls' T"
  by (simp add: stack_spec_fold)

lemma stack_takes:
  "taking_writer wr R \<Longrightarrow>
   taking_writer (stack_write wr k) (\<lambda>T (ls, s). length ls = k \<and> map layer_spec ls = ss \<and> stack_rel R T ls s)"
proof (induction k arbitrary: ss)
  case 0
  show ?case
  proof
    fix U x p
    assume a: "case x of (ls, s) \<Rightarrow> length ls = 0 \<and> map layer_spec ls = ss \<and> stack_rel R U ls s"
    obtain s where x: "x = ([], s)" "ss = []" "R U s" using a by (cases x) auto
    then show "\<exists>x'. stack_write wr 0 x p = (x', length p, None)
        \<and> (case x' of (ls, s) \<Rightarrow> length ls = 0 \<and> map layer_spec ls = ss \<and> stack_rel R (U @ p) ls s)"
      using taking_writer.takes [OF 0 x(3), of p] by auto
  qed
next
  case (Suc k)
  let ?R = "\<lambda>T (ls, s). length ls = k \<and> map layer_spec ls = tl ss \<and> stack_rel R T ls s"
  note lw = taking_writer.layer_write_takes [OF Suc.IH [OF Suc.prems, of "tl ss"]]
  show ?case
  proof
    fix U x p
    assume a: "case x of (ls, s) \<Rightarrow> length ls = Suc k \<and> map layer_spec ls = ss \<and> stack_rel R U ls s"
    obtain l ls s where x: "x = (l # ls, s)" "length ls = k" "map layer_spec (l # ls) = ss" "stack_rel R U (l # ls) s"
      using a by (cases x; cases "fst x") auto
    then obtain l' ls' s' where "layer_write (stack_write wr k) (l, ls, s) p = ((l', ls', s'), length p, None)"
      "layer_rel (U @ p) l'" "layer_spec l' = layer_spec l" "?R (layer_spec l (U @ p)) (ls', s')"
      using lw [of U l "(ls, s)" p] by fastforce
    then show "\<exists>x'. stack_write wr (Suc k) x p = (x', length p, None)
        \<and> (case x' of (ls, s) \<Rightarrow> length ls = Suc k \<and> map layer_spec ls = ss \<and> stack_rel R (U @ p) ls s)"
      using x by (intro exI [of _ "(l' # ls', s')"]) auto
  qed
qed

lemma conn_writes:
  assumes "taking_writer wr R" "stack_rel R T ls s"
  shows "\<exists>ls' s'. write_all (conn_write wr) (ls, s) ps = ((ls', s'), length (concat ps), None)
    \<and> stack_rel R (T @ concat ps) ls' s' \<and> map layer_spec ls' = map layer_spec ls"
  using assms(2)
proof (induction ps arbitrary: T ls s)
  case (Cons p ps)
  obtain x1 where w: "stack_write wr (length ls) (ls, s) p = (x1, length p, None)"
    "case x1 of (ls', s') \<Rightarrow> length ls' = length ls \<and> map layer_spec ls' = map layer_spec ls \<and> stack_rel R (T @ p) ls' s'"
    using taking_writer.takes [OF stack_takes [OF assms(1), of "length ls" "map layer_spec ls"], of T "(ls, s)" p] Cons.prems
    by auto
  obtain ls1 s1 where x1: "x1 = (ls1, s1)" by fastforce
  then obtain ls2 s2 where "write_all (conn_write wr) (ls1, s1) ps = ((ls2, s2), length (concat ps), None)"
    "stack_rel R ((T @ p) @ concat ps) ls2 s2" "map layer_spec ls2 = map layer_spec ls1"
    using Cons.IH [of "T @ p" ls1 s1] w(2) by auto
  moreover have "conn_write wr (ls, s) p = ((ls1, s1), length p, None)" using w(1) x1 by (simp add: conn_write_def)
  ultimately show ?case using w(2) x1 by auto
qed simp

lemma stack_rel_spec: "stack_rel R T ls s \<Longrightarrow> R (stack_spec ls T) s"
  by (induction ls arbitrary: T) auto

section \<open>Any stack of dialers\<close>

text \<open>What a stack of dialers does to the stream, the last dialer of the stack first.\<close>

fun cfg_spec :: "dialer_cfg \<Rightarrow> bytes \<Rightarrow> bytes" where
  "cfg_spec (DSplit _) T = T"
| "cfg_spec (DFixedLen n) T = (if n = 0 then T else frag_spec (fixed_len_frag n) T)"
| "cfg_spec (DFragFunc f) T = hello_spec f T"

fun cfgs_spec :: "dialer_cfg list \<Rightarrow> bytes \<Rightarrow> bytes" where
  "cfgs_spec [] T = T"
| "cfgs_spec (c # cs) T = cfgs_spec cs (cfg_spec c T)"

lemma reclen_init_rel: "reclen_rel f [] reclen_init" and frag_spec_Nil: "frag_spec f [] = []"
  by (simp_all add: reclen_rel_def reclen_init_def frag_spec_def)

lemma cfg_spec_Nil: "cfg_spec c [] = []"
  by (cases c) (simp_all add: frag_spec_Nil hello_spec_Nil)

text \<open>Dialing never fails by itself: the connection of a dial has the layers of the stack, all of them new.\<close>

lemma stack_dialer_dials:
  "\<exists>d. stack_dialer cs base = Inr d
     \<and> (\<forall>addr cl e. base addr = (cl, Inl e) \<longrightarrow> d addr = (cl, Inl e))
     \<and> (\<forall>addr cl s. base addr = (cl, Inr ([], s)) \<longrightarrow>
          (\<exists>ls. d addr = (cl, Inr (ls, s)) \<and> (\<forall>R. R [] s \<longrightarrow> stack_rel R [] ls s) \<and> (\<forall>T. stack_spec ls T = cfgs_spec cs T)))"
proof (induction cs)
  case (Cons c cs)
  then obtain d where d: "stack_dialer cs base = Inr d"
    "\<And>addr cl e. base addr = (cl, Inl e) \<Longrightarrow> d addr = (cl, Inl e)"
    "\<And>addr cl s. base addr = (cl, Inr ([], s)) \<Longrightarrow>
       \<exists>ls. d addr = (cl, Inr (ls, s)) \<and> (\<forall>R. R [] s \<longrightarrow> stack_rel R [] ls s) \<and> (\<forall>T. stack_spec ls T = cfgs_spec cs T)"
    by blast
  have init: "new_reclen_writer (Some b) (Some g) = Inr (reclen_init, b)" "new_hello_writer (Some b) (Some h) = Inr (hello_init, b)"
    for b :: "'a layered" and g h by (simp_all add: new_reclen_writer_def new_hello_writer_def)
  show ?case
  proof (cases c)
    case (DSplit it)
    define d' where "d' = (\<lambda>raddr. case d raddr of
        (cl, inner) \<Rightarrow> (cl, (case split_dial next_segment inner it of
           Inl e \<Rightarrow> Inl e | Inr (w, ls, s) \<Rightarrow> Inr (LSplit w # ls, s))))"
    have "stack_dialer (c # cs) base = Inr d'" using d(1) DSplit by (simp add: new_split_dialer_def d'_def)
    moreover have "d' addr = (cl, Inl e)" if "base addr = (cl, Inl e)" for addr cl e
      using d(2) [OF that] by (simp add: d'_def split_dial_def)
    moreover have "\<exists>ls. d' addr = (cl, Inr (ls, s)) \<and> (\<forall>R. R [] s \<longrightarrow> stack_rel R [] ls s) \<and> (\<forall>T. stack_spec ls T = cfgs_spec (c # cs) T)"
      if b: "base addr = (cl, Inr ([], s))" for addr cl s
    proof -
      obtain ls where ls: "d addr = (cl, Inr (ls, s))" "\<forall>R. R [] s \<longrightarrow> stack_rel R [] ls s" "\<forall>T. stack_spec ls T = cfgs_spec cs T"
        using d(3) [OF b] by blast
      show ?thesis using ls DSplit
        by (intro exI [of _ "LSplit (new_split_writer next_segment it) # ls"]) (simp add: d'_def split_dial_def)
    qed
    ultimately show ?thesis by blast
  next
    case (DFixedLen n)
    then show ?thesis using d
      by (fastforce simp: NewFixedLenStreamDialer_def frag_dial_def WrapConnFixedLen_def init reclen_init_rel frag_spec_Nil)
  next
    case (DFragFunc f)
    then show ?thesis using d
      by (fastforce simp: NewStreamDialerFunc_def frag_dial_def WrapConnFragFunc_def init hello_rel_init hello_spec_Nil)
  qed
qed simp

lemma stack_dialer_stream:
  assumes "base addr = ([], Inr ([], s))" "healthy s"
  shows "\<exists>d ls. stack_dialer cs base = Inr d \<and> d addr = ([], Inr (ls, s))
    \<and> (\<exists>ls' s'. write_all (conn_write sink_write) (ls, s) ps = ((ls', s'), length (concat ps), None)
         \<and> wire s' = wire s @ cfgs_spec cs (concat ps))"
proof -
  obtain d ls where d: "stack_dialer cs base = Inr d" "d addr = ([], Inr (ls, s))"
    "\<And>R. R [] s \<Longrightarrow> stack_rel R [] ls s" "\<And>T. stack_spec ls T = cfgs_spec cs T"
    using stack_dialer_dials [of cs base] assms(1) by blast
  let ?R = "\<lambda>U s'. healthy s' \<and> wire s' = wire s @ U"
  obtain ls' s' where "write_all (conn_write sink_write) (ls, s) ps = ((ls', s'), length (concat ps), None)"
    "stack_rel ?R ([] @ concat ps) ls' s'" "map layer_spec ls' = map layer_spec ls"
    using conn_writes [OF sink_takes.taking_writer_axioms d(3), of "wire s" ps] assms(2) by auto
  moreover from this have "wire s' = wire s @ cfgs_spec cs (concat ps)"
    using stack_rel_spec [of ?R "concat ps" ls' s'] stack_spec_map [of ls' ls "concat ps"] d(4) by simp
  ultimately show ?thesis using d(1,2) by blast
qed

text \<open>
  C7: a stack of splitting and fragmenting dialers of any height over a dialer that gives a connection gives one too, without
  closing anything; whatever calls the stream comes in, the connection takes all of it, and what leaves is the stream
  rewritten by the dialers one after the other, where splitting changes no byte.
\<close>

theorem stacked_dialers_stream:
  assumes "base addr = ([], Inr ([], s))" "healthy s"
  shows "\<exists>d ls. stack_dialer cs base = Inr d \<and> d addr = ([], Inr (ls, s))
    \<and> (\<exists>ls' s'. write_all (conn_write sink_write) (ls, s) ps = ((ls', s'), length (concat ps), None)
         \<and> wire s' = wire s @ cfgs_spec cs (concat ps))"
  by (rule stack_dialer_stream [where base = base and addr = addr, OF assms])

text \<open>
  \<^verbatim>\<open>override | split:3 | tlsfrag:1\<close>, say: a dialer that fragments over one that splits at the third byte, over a dialer that takes
  everything. The Client Hello of four bytes leaves as two records, in three calls.
\<close>

lemma short_hello_frag: "frag_spec (fixed_len_frag 1) short_hello = [22, 3, 1, 0, 1, 10, 22, 3, 1, 0, 3, 11, 12, 13]"
  by (simp add: frag_spec_def split_point_def fixed_len_frag_def payload_len_def validate_header_def subslice_def handshake_versions_def
      recordTypeHandshake_def set_payload_len_def blit_def put_u16_def short_hello_def)

theorem stacked_dialers_stream_witness:
  "\<exists>d ls ls' s'. stack_dialer [DFixedLen 1, DSplit (new_fixed_split_iterator 3)] (\<lambda>_. ([], Inr ([], fresh_sink))) = Inr d
     \<and> d ''a:1'' = ([], Inr (ls, fresh_sink))
     \<and> write_all (conn_write sink_write) (ls, fresh_sink) [take 3 short_hello, drop 3 short_hello] = ((ls', s'), length short_hello, None)
     \<and> wire s' = [22, 3, 1, 0, 1, 10, 22, 3, 1, 0, 3, 11, 12, 13]"
  using stacked_dialers_stream [of "\<lambda>_. ([], Inr ([], fresh_sink))" "''a:1''" fresh_sink
      "[DFixedLen 1, DSplit (new_fixed_split_iterator 3)]" "[take 3 short_hello, drop 3 short_hello]"]
  by (auto simp: short_hello_frag simp del: write_all.simps stack_dialer.simps)

section \<open>Bytes that a layer still holds\<close>

text \<open>
  A Client Hello that is not complete is accepted in full without an error and kept; \<^verbatim>\<open>CloseWrite\<close> goes to the connection
  below and sends nothing of it: the bytes are lost.
\<close>

theorem close_write_drops_bytes:
  assumes "base addr = ([], Inr ([], s))" "healthy s" "NewStreamDialerFunc (Some base) (Some f) = Inr d"
    and short: "length (concat ps) < 5 \<or>
      validate_header (take 5 (concat ps)) = None \<and> length (concat ps) < 5 + payload_len (take 5 (concat ps))"
    and cw: "\<And>x. wire (fst (closeWrite x)) = wire x"
  shows "\<exists>c c'. d addr = ([], Inr c) \<and> write_all (conn_write sink_write) c ps = (c', length (concat ps), None)
    \<and> wire (snd (fst (layered_call closeWrite c'))) = wire s"
proof -
  have "stack_dialer [DFragFunc f] base = Inr d" using assms(3) by simp
  then obtain ls ls' s' where "d addr = ([], Inr (ls, s))"
    "write_all (conn_write sink_write) (ls, s) ps = ((ls', s'), length (concat ps), None)"
    "wire s' = wire s @ cfgs_spec [DFragFunc f] (concat ps)"
    using stack_dialer_stream [where base = base and addr = addr and s = s and cs = "[DFragFunc f]" and ps = ps, OF assms(1,2)] by auto
  moreover have "hello_spec f (concat ps) = []" using short by (auto simp: hello_spec_def Let_def)
  moreover have "wire (snd (fst (layered_call closeWrite (ls', s')))) = wire s'"
    using cw [of s'] by (cases "closeWrite s'") (simp add: layered_call_def)
  ultimately show ?thesis by auto
qed

theorem close_write_drops_bytes_witness:
  "\<exists>c c' d. NewStreamDialerFunc (Some (\<lambda>_. ([], Inr ([], fresh_sink)))) (Some (\<lambda>_. 1)) = Inr d \<and> d ''a:1'' = ([], Inr c)
     \<and> write_all (conn_write sink_write) c [[72], [73, 33]] = (c', 3, None)
     \<and> wire (snd (fst (layered_call (\<lambda>x. (x, ())) c'))) = []"
proof -
  let ?base = "\<lambda>_ :: string. ([] :: sink layered list, Inr ([], fresh_sink) :: err + sink layered)"
  obtain d where d: "NewStreamDialerFunc (Some ?base) (Some (\<lambda>_. 1)) = Inr d" by (simp add: NewStreamDialerFunc_def)
  have l: "length (concat [[72], [73, 33 :: byte]]) = 3" by simp
  show ?thesis
    using close_write_drops_bytes [of ?base "''a:1''" fresh_sink "\<lambda>_. 1" d "[[72], [73, 33]]" "\<lambda>x. (x, ())", OF _ _ d] d
    by (auto simp: l simp del: write_all.simps)
qed

end
