(* ===== verification/TransportConn.thy ===== *)
theory TransportConn
  imports GoNet
begin

text \<open>
  \<^verbatim>\<open>transport/stream.go\<close> and \<^verbatim>\<open>transport/packet.go\<close>: wrapping a stream connection with another reader and
  writer, the dialers of package \<^verbatim>\<open>net\<close> as endpoints, and \<^verbatim>\<open>PacketListenerDialer\<close>, which binds a packet
  connection to one remote address. The lemmas show what \<^verbatim>\<open>WrapConn\<close> keeps of the connection, and what a bound
  connection lets through.
\<close>

section \<open>Stream connections\<close>

text \<open>A connection of the network, or a \<^verbatim>\<open>duplexConnAdaptor\<close> around a connection, with its reader and writer.\<close>

datatype ('c, 'r, 'w) stream_conn = PlainConn 'c | DuplexConn "('c, 'r, 'w) stream_conn" 'r 'w

definition wrap_conn :: "('c, 'r, 'w) stream_conn \<Rightarrow> 'r \<Rightarrow> 'w \<Rightarrow> ('c, 'r, 'w) stream_conn" where
  "wrap_conn c r w =
     (case c of PlainConn _ \<Rightarrow> DuplexConn c r w
              | DuplexConn inner _ _ \<Rightarrow> DuplexConn inner r w)"

text \<open>
  \<^verbatim>\<open>CloseRead\<close> and \<^verbatim>\<open>CloseWrite\<close>, and the methods that the adaptor inherits (\<^verbatim>\<open>Close\<close>, the deadlines, the addresses): all go
  to the connection inside.
\<close>

primrec conn_call :: "('c \<Rightarrow> 'c \<times> 'a) \<Rightarrow> ('c, 'r, 'w) stream_conn \<Rightarrow> ('c, 'r, 'w) stream_conn \<times> 'a" where
  "conn_call f (PlainConn c) = (case f c of (c', a) \<Rightarrow> (PlainConn c', a))"
| "conn_call f (DuplexConn inner r w) = (case conn_call f inner of (inner', a) \<Rightarrow> (DuplexConn inner' r w, a))"

text \<open>\<^verbatim>\<open>ReadFrom\<close> of the adaptor: that of its writer, if it has one (\<open>rf\<close>), else \<^verbatim>\<open>io.Copy\<close> with its \<^verbatim>\<open>Write\<close>.\<close>

definition duplex_read_from :: "'w reader_from option \<Rightarrow> 'w writer \<Rightarrow> 'w reader_from" where
  "duplex_read_from rf wr = (case rf of Some f \<Rightarrow> f | None \<Rightarrow> copy_from wr)"

primrec conn_depth :: "('c, 'r, 'w) stream_conn \<Rightarrow> nat" where
  "conn_depth (PlainConn _) = 0"
| "conn_depth (DuplexConn inner _ _) = Suc (conn_depth inner)"

primrec conn_base :: "('c, 'r, 'w) stream_conn \<Rightarrow> 'c" where
  "conn_base (PlainConn c) = c"
| "conn_base (DuplexConn inner _ _) = conn_base inner"

lemma wrap_conn_depth [simp]: "conn_depth c \<le> 1 \<Longrightarrow> conn_depth (wrap_conn c r w) = 1"
  by (cases c) (simp_all add: wrap_conn_def)

lemma conn_base_wrap [simp]: "conn_base (wrap_conn c r w) = conn_base c"
  by (cases c) (simp_all add: wrap_conn_def)

lemma conn_base_call: "conn_base (fst (conn_call f c)) = fst (f (conn_base c)) \<and> snd (conn_call f c) = snd (f (conn_base c))"
  by (induction c) (auto split: prod.splits)

text \<open>
  However often a connection is wrapped there is one adaptor around the connection of the network, it has the last reader and
  writer, and a call that the adaptor does not answer itself reaches the connection of the network.
\<close>

lemma wrap_conn_flat:
  assumes "rws \<noteq> []"
  shows "foldl (\<lambda>c (r, w). wrap_conn c r w) (PlainConn c) rws = DuplexConn (PlainConn c) (fst (last rws)) (snd (last rws))"
  using assms
proof (induction rws rule: rev_induct)
  case (snoc x xs)
  then show ?case by (cases "xs = []") (auto simp: wrap_conn_def split: prod.splits)
qed simp

lemma duplex_read_from_out:
  assumes "go_writer wr out" "\<And>f. rf = Some f \<Longrightarrow> go_reader_from f out" "duplex_read_from rf wr s src = (s', src', n, e)"
  shows "out s' = out s @ take n (src_bytes src) \<and> n \<le> length (src_bytes src)"
  using go_writer.copy_from_out [OF assms(1)] go_reader_from.rf_out [OF assms(2)] assms(3)
  by (cases rf) (auto simp: duplex_read_from_def)

section \<open>Endpoints\<close>

text \<open>
  \<open>dial\<close> is \<^verbatim>\<open>DialContext\<close> of a \<^verbatim>\<open>net.Dialer\<close>: network and address; the connection it gives for \<^verbatim>\<open>tcp\<close> is a \<^verbatim>\<open>TCPConn\<close>. A
  dialer with an address is an endpoint.
\<close>

definition tcp_DialStream :: "(string \<Rightarrow> string \<Rightarrow> err + 'c) \<Rightarrow> string \<Rightarrow> err + 'c" where
  "tcp_DialStream dial addr = (case dial ''tcp'' addr of Inl e \<Rightarrow> Inl e | Inr conn \<Rightarrow> Inr conn)"

definition udp_DialPacket :: "(string \<Rightarrow> string \<Rightarrow> err + 'c) \<Rightarrow> string \<Rightarrow> err + 'c" where
  "udp_DialPacket dial addr = dial ''udp'' addr"

definition connect_endpoint :: "(string \<Rightarrow> err + 'c) \<Rightarrow> string \<Rightarrow> unit \<Rightarrow> err + 'c" where
  "connect_endpoint dialer address = (\<lambda>_. dialer address)"

section \<open>Packets to one address\<close>

text \<open>
  A \<^verbatim>\<open>net.PacketConn\<close> is \<open>rd\<close> (\<^verbatim>\<open>ReadFrom\<close> with a buffer of a size: the packet and its source, or the number of bytes and the error)
  and \<open>wt\<close> (\<^verbatim>\<open>WriteTo\<close>) on a state.
\<close>

type_synonym 's packet_read = "'s \<Rightarrow> nat \<Rightarrow> 's \<times> (nat \<times> err + bytes \<times> net_addr)"

type_synonym 's packet_write = "'s \<Rightarrow> bytes \<Rightarrow> net_addr \<Rightarrow> 's \<times> nat \<times> err option"

record 's bound_packet_conn =
  bp_conn :: 's
  bp_remote :: net_addr

definition pl_DialPacket ::
  "(string \<Rightarrow> string \<Rightarrow> err + nat) \<Rightarrow> (string \<Rightarrow> bytes option) \<Rightarrow> (unit \<Rightarrow> err + 's) \<Rightarrow> string \<Rightarrow> err + 's bound_packet_conn" where
  "pl_DialPacket lookup_port parse_ip listen address =
     (case MakeNetAddr lookup_port parse_ip ''udp'' address of
        Inl e \<Rightarrow> Inl e
      | Inr netAddr \<Rightarrow>
          (case listen () of
             Inl e \<Rightarrow> Inl (ErrWrap ''could not create PacketConn'' e)
           | Inr packetConn \<Rightarrow> Inr \<lparr>bp_conn = packetConn, bp_remote = netAddr\<rparr>))"

text \<open>
  \<^verbatim>\<open>Read\<close>: packets of other addresses are dropped; if none of the address and no error comes it does not return
  (\<open>None\<close>).
\<close>

partial_function (option) bound_loop ::
  "(bytes \<Rightarrow> string) \<Rightarrow> 's packet_read \<Rightarrow> string \<Rightarrow> 's \<Rightarrow> nat \<Rightarrow> ('s \<times> (nat \<times> err + bytes)) option" where
  "bound_loop ip_str rd remote s n =
     (case rd s n of
        (s', Inl (k, e)) \<Rightarrow> Some (s', Inl (k, e))
      | (s', Inr (p, a)) \<Rightarrow>
          if net_addr_string ip_str a \<noteq> remote then bound_loop ip_str rd remote s' n
          else Some (s', Inr p))"

definition bound_Read ::
  "(bytes \<Rightarrow> string) \<Rightarrow> 's packet_read \<Rightarrow> 's bound_packet_conn \<Rightarrow> nat \<Rightarrow> ('s bound_packet_conn \<times> (nat \<times> err + bytes)) option" where
  "bound_Read ip_str rd c n =
     map_option (\<lambda>(s, r). (c\<lparr>bp_conn := s\<rparr>, r)) (bound_loop ip_str rd (net_addr_string ip_str (bp_remote c)) (bp_conn c) n)"

definition bound_Write :: "'s packet_write \<Rightarrow> 's bound_packet_conn \<Rightarrow> bytes \<Rightarrow> 's bound_packet_conn \<times> nat \<times> err option" where
  "bound_Write wt c packet =
     (case wt (bp_conn c) packet (bp_remote c) of (s, n, e) \<Rightarrow> (c\<lparr>bp_conn := s\<rparr>, n, e))"

text \<open>The network end: packets that wait, in order; an empty queue fails with the error of the deadline.\<close>

fun queue_read :: "err \<Rightarrow> (bytes \<times> net_addr) list packet_read" where
  "queue_read e [] n = ([], Inl (0, e))"
| "queue_read e ((p, a) # q) n = (q, Inr (take n p, a))"

text \<open>The first packet of the address, cut to the buffer, and the packets behind it.\<close>

fun first_from :: "(bytes \<Rightarrow> string) \<Rightarrow> string \<Rightarrow> (bytes \<times> net_addr) list \<Rightarrow> (bytes \<times> (bytes \<times> net_addr) list) option" where
  "first_from ip_str remote [] = None"
| "first_from ip_str remote ((p, a) # q) =
     (if net_addr_string ip_str a = remote then Some (p, q) else first_from ip_str remote q)"

lemma bound_loop_queue:
  "bound_loop ip_str (queue_read e) remote q n =
     Some (case first_from ip_str remote q of
             None \<Rightarrow> ([], Inl (0, e))
           | Some (p, q') \<Rightarrow> (q', Inr (take n p)))"
proof (induction q)
  case Nil
  show ?case by (subst bound_loop.simps) simp
next
  case (Cons x q)
  then show ?case by (subst bound_loop.simps) (cases x, simp)
qed

text \<open>
  What a dialed connection gives are the packets of the remote address in the order in which they came, each cut to the
  buffer; packets from elsewhere are never seen.
\<close>

fun bound_reads :: "(bytes \<Rightarrow> string) \<Rightarrow> 's packet_read \<Rightarrow> nat list \<Rightarrow> 's bound_packet_conn \<Rightarrow> bytes list" where
  "bound_reads ip_str rd [] c = []"
| "bound_reads ip_str rd (n # ns) c =
     (case bound_Read ip_str rd c n of
        Some (c', Inr p) \<Rightarrow> p # bound_reads ip_str rd ns c'
      | _ \<Rightarrow> [])"

definition packets_from :: "(bytes \<Rightarrow> string) \<Rightarrow> net_addr \<Rightarrow> (bytes \<times> net_addr) list \<Rightarrow> bytes list" where
  "packets_from ip_str r q = map fst (filter (\<lambda>(p, a). net_addr_string ip_str a = net_addr_string ip_str r) q)"

lemma packets_from_first:
  "packets_from ip_str r q =
     (case first_from ip_str (net_addr_string ip_str r) q of None \<Rightarrow> [] | Some (p, q') \<Rightarrow> p # packets_from ip_str r q')"
  by (induction q) (auto simp: packets_from_def)

lemma bound_reads_queue:
  "bound_reads ip_str (queue_read e) ns c = map2 take ns (packets_from ip_str (bp_remote c) (bp_conn c))"
proof (induction ns arbitrary: c)
  case (Cons n ns)
  show ?case
  proof (cases "first_from ip_str (net_addr_string ip_str (bp_remote c)) (bp_conn c)")
    case None
    then show ?thesis by (simp add: bound_Read_def bound_loop_queue packets_from_first [of ip_str "bp_remote c" "bp_conn c"])
  next
    case (Some x)
    then show ?thesis
      by (cases x) (simp add: bound_Read_def bound_loop_queue packets_from_first [of ip_str "bp_remote c" "bp_conn c"] Cons.IH)
  qed
qed simp

text \<open>
  A connection that \<^verbatim>\<open>PacketListenerDialer\<close> dials has the address that the text stands for as its remote one, its reads are
  the packets of that address in the order in which they came, each cut to the buffer, and it writes to that address only.
\<close>

theorem bound_conn_one_peer:
  assumes "pl_DialPacket lookup_port parse_ip (\<lambda>_. Inr q) address = Inr c"
  shows "MakeNetAddr lookup_port parse_ip ''udp'' address = Inr (bp_remote c)
    \<and> bound_reads ip_str (queue_read e) ns c = map2 take ns (packets_from ip_str (bp_remote c) q)
    \<and> (\<forall>wt p. bound_Write wt c p = (case wt q p (bp_remote c) of (s, n, e) \<Rightarrow> (c\<lparr>bp_conn := s\<rparr>, n, e)))"
  using assms bound_reads_queue [of ip_str e ns c]
  by (auto simp: pl_DialPacket_def bound_Write_def split: sum.splits)

text \<open>A domain as the remote address: a packet from an IP address is never one of it, so no answer is read.\<close>

lemma domain_never_ip:
  assumes "\<And>ip. parse_ip (ip_str ip) \<noteq> None" "CHR ''['' \<notin> set (ip_str ip)" "CHR '']'' \<notin> set (ip_str ip)"
    and "parse_ip host = None" "CHR ''['' \<notin> set host" "CHR '']'' \<notin> set host"
  shows "net_addr_string ip_str (UDPAddr ip p) \<noteq> join_host_port host (itoa q)"
proof
  assume "net_addr_string ip_str (UDPAddr ip p) = join_host_port host (itoa q)"
  then have "split_host_port (join_host_port (ip_str ip) (itoa p)) = split_host_port (join_host_port host (itoa q))" by simp
  then have "ip_str ip = host" using assms(2,3,5,6) by (simp add: split_join_host_port itoa_plain)
  then show False using assms(1) [of ip] assms(4) by simp
qed

text \<open>
  A connection that is dialed with a domain reads no packet that comes from an IP address, although \<^verbatim>\<open>DialPacket\<close> says that
  the host may be a domain: \<^verbatim>\<open>Read\<close> compares the texts of the addresses.
\<close>

theorem bound_conn_domain_deaf:
  assumes ip: "\<And>ip. parse_ip (ip_str ip) \<noteq> None" "\<And>ip. CHR ''['' \<notin> set (ip_str ip) \<and> CHR '']'' \<notin> set (ip_str ip)"
    and host: "parse_ip host = None" "CHR ''['' \<notin> set host" "CHR '']'' \<notin> set host" "lookup_port ''udp'' port = Inr pn"
    and addr: "split_host_port address = Inr (host, port)"
    and q: "\<forall>(p, a) \<in> set q. \<exists>ip k. a = UDPAddr ip k"
  shows "\<exists>c. pl_DialPacket lookup_port parse_ip (\<lambda>_. Inr q) address = Inr c \<and> bound_reads ip_str (queue_read e) ns c = []"
proof -
  let ?c = "\<lparr>bp_conn = q, bp_remote = DomainAddr ''udp'' (join_host_port host (itoa pn))\<rparr>"
  have "pl_DialPacket lookup_port parse_ip (\<lambda>_. Inr q) address = Inr ?c"
    using host addr by (simp add: pl_DialPacket_def MakeNetAddr_def)
  moreover have "packets_from ip_str (bp_remote ?c) q = []"
    using q domain_never_ip [of parse_ip ip_str _ host _ pn, OF ip(1)] ip(2) host(1-3)
    by (fastforce simp: packets_from_def filter_empty_conv)
  then have "bound_reads ip_str (queue_read e) ns ?c = []" by (simp add: bound_reads_queue)
  ultimately show ?thesis by blast
qed

text \<open>A text form of addresses of four bytes that reads back, for the witness.\<close>

definition demo_ip_str :: "bytes \<Rightarrow> string" where
  "demo_ip_str ip = ''ip'' @ concat (map (\<lambda>b. ''.'' @ itoa (unat b)) ip)"

definition demo_parse_ip :: "string \<Rightarrow> bytes option" where
  "demo_parse_ip s = (if take 2 s = ''ip'' then Some (str_bytes s) else None)"

theorem bound_conn_one_peer_witness:
  "bound_reads demo_ip_str (queue_read EOF) [9, 2, 9]
     \<lparr>bp_conn = [([1, 2], UDPAddr [8, 8] 53), ([9], UDPAddr [9] 53), ([3, 4, 5], UDPAddr [8, 8] 53), ([6], UDPAddr [8, 8] 54)],
      bp_remote = UDPAddr [8, 8] 53\<rparr> = [[1, 2], [3, 4]]"
proof -
  let ?q = "[([1, 2], UDPAddr [8, 8] 53), ([9], UDPAddr [9] 53), ([3, 4, 5], UDPAddr [8, 8] 53), ([6], UDPAddr [8, 8] 54)]"
  have d: "pl_DialPacket (\<lambda>_ p. parse_uint 16 p) (\<lambda>_. Some [8, 8]) (\<lambda>_. Inr ?q) (join_host_port ''x'' (itoa 53))
      = Inr \<lparr>bp_conn = ?q, bp_remote = UDPAddr [8, 8] 53\<rparr>"
    by (simp add: pl_DialPacket_def MakeNetAddr_def split_join_host_port itoa_plain parse_uint_itoa)
  have i: "itoa 53 = ''53''" "itoa 54 = ''54''" "itoa 8 = ''8''" "itoa 9 = ''9''" by code_simp+
  show ?thesis using bound_conn_one_peer [OF d, of demo_ip_str EOF "[9, 2, 9]"]
    by (simp add: packets_from_def demo_ip_str_def join_host_port_def i)
qed

theorem bound_conn_domain_deaf_witness:
  "\<exists>c. pl_DialPacket (\<lambda>_ p. parse_uint 16 p) demo_parse_ip (\<lambda>_. Inr [([1, 2], UDPAddr [8, 8] 53)]) ''dns.test:53'' = Inr c
     \<and> bound_reads demo_ip_str (queue_read EOF) [512] c = []"
proof (rule bound_conn_domain_deaf)
  show "demo_parse_ip (demo_ip_str ip) \<noteq> None" for ip by (simp add: demo_parse_ip_def demo_ip_str_def)
  show "CHR ''['' \<notin> set (demo_ip_str ip) \<and> CHR '']'' \<notin> set (demo_ip_str ip)" for ip
    by (auto simp: demo_ip_str_def itoa_plain)
  have "split_host_port (join_host_port ''dns.test'' (itoa 53)) = Inr (''dns.test'', itoa 53)"
    by (simp add: split_join_host_port itoa_plain)
  moreover have "itoa 53 = ''53''" by code_simp
  ultimately show "split_host_port ''dns.test:53'' = Inr (''dns.test'', itoa 53)" by (simp add: join_host_port_def)
  show "parse_uint 16 (itoa 53) = Inr 53" by (simp add: parse_uint_itoa)
qed (simp_all add: demo_parse_ip_def)

end
