(* ===== verification/HttpProxy.thy ===== *)
theory HttpProxy
  imports GoStrings
begin

text \<open>
  The HTTP proxy handlers (\<^verbatim>\<open>x/httpproxy\<close>): the choice of the handler, the CONNECT handler with its decisions and its
  relay of the two directions, and the handlers that fetch a URL for the client. A response is what the client gets; the
  HTTP client, the parser of URLs and the server are the standard library's, and are arguments. The lemmas show what
  the client and the target get.
\<close>

section \<open>Responses\<close>

text \<open>
  \<^verbatim>\<open>http.ResponseWriter\<close>: the headers set so far, the status and headers once they are sent, and the body. Only the first
  \<^verbatim>\<open>WriteHeader\<close> counts, and a \<^verbatim>\<open>Write\<close> without one sends 200. \<open>rs_script\<close> is the connection to the client, as for a sink.
\<close>

type_synonym header = "(string \<times> string) list"

record http_resp =
  rs_header :: header
  rs_sent :: "(nat \<times> header) option"
  rs_body :: bytes
  rs_script :: "wresp list"

definition fresh_resp :: http_resp where
  "fresh_resp = \<lparr>rs_header = [], rs_sent = None, rs_body = [], rs_script = []\<rparr>"

definition header_add :: "string \<Rightarrow> string \<Rightarrow> http_resp \<Rightarrow> http_resp" where
  "header_add k v r = r\<lparr>rs_header := rs_header r @ [(k, v)]\<rparr>"

definition header_set :: "string \<Rightarrow> string \<Rightarrow> header \<Rightarrow> header" where
  "header_set k v h = filter (\<lambda>(k', _). k' \<noteq> k) h @ [(k, v)]"

definition write_header :: "nat \<Rightarrow> http_resp \<Rightarrow> http_resp" where
  "write_header code r = (if rs_sent r = None then r\<lparr>rs_sent := Some (code, rs_header r)\<rparr> else r)"

definition resp_write :: "http_resp writer" where
  "resp_write r p =
     (let r1 = write_header 200 r in
      case rs_script r1 of
        [] \<Rightarrow> (r1\<lparr>rs_body := rs_body r1 @ p\<rparr>, length p, None)
      | WOk # q \<Rightarrow> (r1\<lparr>rs_body := rs_body r1 @ p, rs_script := q\<rparr>, length p, None)
      | WFail k e # q \<Rightarrow> (r1\<lparr>rs_body := rs_body r1 @ take k p, rs_script := q\<rparr>, min k (length p), Some e))"

text \<open>\<^verbatim>\<open>http.Error\<close>: headers of a plain text, the status, and the message with a newline as the body.\<close>

definition http_error :: "string \<Rightarrow> nat \<Rightarrow> http_resp \<Rightarrow> http_resp" where
  "http_error msg code r =
     (let h = filter (\<lambda>(k, _). k \<noteq> ''Content-Length'') (rs_header r);
          h1 = header_set ''X-Content-Type-Options'' ''nosniff'' (header_set ''Content-Type'' ''text/plain; charset=utf-8'' h) in
      fst (resp_write (write_header code (r\<lparr>rs_header := h1\<rparr>)) (str_bytes (msg @ [char_of (10 :: nat)]))))"

definition status_of :: "http_resp \<Rightarrow> nat option" where
  "status_of r = map_option fst (rs_sent r)"

lemma resp_write_script: "rs_script r = [] \<Longrightarrow>
   resp_write r p = ((write_header 200 r)\<lparr>rs_body := rs_body r @ p\<rparr>, length p, None)"
  by (simp add: resp_write_def write_header_def Let_def)

interpretation resp: go_writer resp_write rs_body
  by unfold_locales (auto simp: resp_write_def write_header_def Let_def min_def split: list.splits wresp.splits if_splits)

lemma http_error_status [simp]:
  "status_of (http_error m c r) = (case rs_sent r of None \<Rightarrow> Some c | Some (d, _) \<Rightarrow> Some d)"
  by (auto simp: status_of_def http_error_def resp_write_def write_header_def Let_def split: list.split wresp.split)

lemma http_error_body: "rs_script r = [] \<Longrightarrow> rs_body (http_error m c r) = rs_body r @ str_bytes (m @ [char_of (10 :: nat)])"
  by (auto simp: http_error_def resp_write_def write_header_def Let_def)

section \<open>Requests\<close>

text \<open>\<open>u_text\<close> is \<^verbatim>\<open>URL.String()\<close>.\<close>

record proxy_url =
  u_host :: string
  u_path :: string
  u_rawQuery :: string
  u_text :: string

record proxy_req =
  rq_method :: string
  rq_host :: string
  rq_url :: proxy_url
  rq_header :: header
  rq_body :: source

text \<open>The request that the client of the handler sends, and the answer it gets.\<close>

record target_req =
  tq_method :: string
  tq_url :: string
  tq_header :: header
  tq_body :: source

record target_resp =
  ts_status :: nat
  ts_header :: header
  ts_body :: source

text \<open>\<^verbatim>\<open>Header.Get\<close>, for a canonical key.\<close>

definition header_get :: "string \<Rightarrow> header \<Rightarrow> string" where
  "header_get k h = (case map_of h k of None \<Rightarrow> [] | Some v \<Rightarrow> v)"

section \<open>Fetching for the client\<close>

text \<open>
  The end of both handlers: the request with all headers of the client's is sent (\<open>new_req\<close> is
  \<^verbatim>\<open>http.NewRequestWithContext\<close>, \<open>client\<close> is \<^verbatim>\<open>Do\<close>), the headers of the answer are added, \<open>send\<close> may send the status, and the
  body is copied.
\<close>

definition fetch ::
  "(string \<Rightarrow> string \<Rightarrow> source \<Rightarrow> err + target_req) \<Rightarrow> (target_req \<Rightarrow> err + target_resp) \<Rightarrow> (nat \<Rightarrow> http_resp \<Rightarrow> http_resp)
   \<Rightarrow> string \<Rightarrow> proxy_req \<Rightarrow> http_resp \<Rightarrow> http_resp" where
  "fetch new_req client send url req r =
     (case new_req (rq_method req) url (rq_body req) of
        Inl _ \<Rightarrow> http_error ''Error creating target request'' 500 r
      | Inr tq \<Rightarrow>
          (case client (tq\<lparr>tq_header := tq_header tq @ rq_header req\<rparr>) of
             Inl _ \<Rightarrow> http_error ''Failed to fetch destination'' 503 r
           | Inr ts \<Rightarrow>
               (let r1 = send (ts_status ts) (foldl (\<lambda>a (k, v). header_add k v a) r (ts_header ts)) in
                case copy_from resp_write r1 (ts_body ts) of
                  (r2, _, _, None) \<Rightarrow> r2
                | (r2, _, _, Some _) \<Rightarrow> http_error ''Failed write response'' 503 r2)))"

definition forward_ServeHTTP ::
  "(string \<Rightarrow> string \<Rightarrow> source \<Rightarrow> err + target_req) \<Rightarrow> (target_req \<Rightarrow> err + target_resp) \<Rightarrow> proxy_req \<Rightarrow> http_resp \<Rightarrow> http_resp" where
  "forward_ServeHTTP new_req client req r =
     (if u_host (rq_url req) = [] then http_error ''Must specify an absolute request target'' 404 r
      else fetch new_req client (\<lambda>_ r. r) (u_text (rq_url req)) req r)"

text \<open>The handler that takes the URL from the path; \<open>parse\<close> is \<^verbatim>\<open>url.Parse\<close> followed by \<^verbatim>\<open>String\<close>.\<close>

definition path_ServeHTTP ::
  "(string \<Rightarrow> err + string) \<Rightarrow> (string \<Rightarrow> string \<Rightarrow> source \<Rightarrow> err + target_req) \<Rightarrow> (target_req \<Rightarrow> err + target_resp)
   \<Rightarrow> proxy_req \<Rightarrow> http_resp \<Rightarrow> http_resp" where
  "path_ServeHTTP parse new_req client req r =
     (let path = u_path (rq_url req); requestURL = (if take 1 path = ''/'' then drop 1 path else path) in
      if requestURL = [] then http_error ''Empty URL'' 400 r
      else let requestURL = (if u_rawQuery (rq_url req) \<noteq> [] then requestURL @ ''?'' @ u_rawQuery (rq_url req) else requestURL) in
        case parse requestURL of
          Inl _ \<Rightarrow> http_error ''Invalid target URL'' 400 r
        | Inr targetURL \<Rightarrow> fetch new_req client write_header targetURL req r)"

text \<open>\<^verbatim>\<open>DialContext\<close> of both clients.\<close>

definition proxy_dialContext :: "(string \<Rightarrow> err + 'c) \<Rightarrow> string \<Rightarrow> string \<Rightarrow> err + 'c" where
  "proxy_dialContext dialer network addr =
     (if take 3 network \<noteq> ''tcp'' then Inl (ErrNew (''protocol not supported: '' @ network)) else dialer addr)"

text \<open>\<^verbatim>\<open>ProxyHandler.ServeHTTP\<close>.\<close>

definition proxy_ServeHTTP ::
  "(proxy_req \<Rightarrow> http_resp \<Rightarrow> 'a) \<Rightarrow> (proxy_req \<Rightarrow> http_resp \<Rightarrow> 'a) \<Rightarrow> (proxy_req \<Rightarrow> http_resp \<Rightarrow> 'a) option
   \<Rightarrow> (proxy_req \<Rightarrow> http_resp \<Rightarrow> 'a) \<Rightarrow> proxy_req \<Rightarrow> http_resp \<Rightarrow> 'a" where
  "proxy_ServeHTTP connect forward fallback not_found req r =
     (if rq_method req = ''CONNECT'' then connect req r
      else if u_host (rq_url req) \<noteq> [] then forward req r
      else case fallback of Some f \<Rightarrow> f req r | None \<Rightarrow> not_found req r)"

lemma fold_header_add [simp]:
  "foldl (\<lambda>a (k, v). header_add k v a) r h = r\<lparr>rs_header := rs_header r @ h\<rparr>"
  by (induction h arbitrary: r) (auto simp: header_add_def)

text \<open>The response after the bytes \<open>bs\<close> of a body were written to a client that takes them.\<close>

definition body_started :: "http_resp \<Rightarrow> bytes \<Rightarrow> http_resp" where
  "body_started r bs = (if bs = [] then r else (write_header 200 r)\<lparr>rs_body := rs_body r @ bs\<rparr>)"

lemma body_started_Nil [simp]: "body_started r [] = r"
  by (simp add: body_started_def)

lemma body_started_append [simp]: "body_started (body_started r a) b = body_started r (a @ b)"
  by (simp add: body_started_def write_header_def)

lemma body_started_sel [simp]:
  "rs_script (body_started r bs) = rs_script r" "rs_body (body_started r bs) = rs_body r @ bs"
  "rs_sent (body_started r bs) = (if bs = [] then rs_sent r else rs_sent (write_header 200 r))"
  by (simp_all add: body_started_def write_header_def)

lemma resp_write_started:
  "rs_script r = [] \<Longrightarrow> (if bs = [] then (r, 0, None) else resp_write r bs) = (body_started r bs, length bs, None)"
  by (simp add: resp_write_script body_started_def)

lemma resp_copy:
  "rs_script r = [] \<Longrightarrow> clean pre \<Longrightarrow>
   copy_from resp_write r (pre @ post) =
     (case copy_from resp_write (body_started r (src_bytes pre)) post of
        (r', q, n, e) \<Rightarrow> (r', q, length (src_bytes pre) + n, e))"
proof (induction pre arbitrary: r)
  case Nil
  then show ?case by (auto split: prod.split)
next
  case (Cons c pre)
  obtain bs where c: "c = Chunk bs None" using Cons.prems(2) by (cases c) auto
  have "copy_from resp_write (body_started r bs) (pre @ post) =
     (case copy_from resp_write (body_started (body_started r bs) (src_bytes pre)) post of
        (r', q, n, e) \<Rightarrow> (r', q, length (src_bytes pre) + n, e))"
    using Cons.IH [of "body_started r bs"] Cons.prems by simp
  then show ?case using resp_write_started [OF Cons.prems(1), of bs] c by (auto split: prod.split)
qed

lemma src_bytes_snoc [simp]: "src_bytes (a @ [c]) = src_bytes a @ cdata c"
  by (simp add: src_bytes_def)

text \<open>What a fetch gives a client that takes everything, on each branch.\<close>

lemma fetch_ok:
  assumes "new_req (rq_method req) url (rq_body req) = Inr tq"
    and "client (tq\<lparr>tq_header := tq_header tq @ rq_header req\<rparr>) = Inr ts" "clean (ts_body ts)" "rs_script (send (ts_status ts) (r\<lparr>rs_header := rs_header r @ ts_header ts\<rparr>)) = []"
  shows "fetch new_req client send url req r =
     body_started (send (ts_status ts) (r\<lparr>rs_header := rs_header r @ ts_header ts\<rparr>)) (src_bytes (ts_body ts))"
  using assms resp_copy [of "send (ts_status ts) (r\<lparr>rs_header := rs_header r @ ts_header ts\<rparr>)" "ts_body ts" "[]"]
  by (simp add: fetch_def)

lemma fetch_cut:
  assumes "new_req (rq_method req) url (rq_body req) = Inr tq"
    and "client (tq\<lparr>tq_header := tq_header tq @ rq_header req\<rparr>) = Inr ts"
    and "ts_body ts = pre @ [Chunk bs (Some x)]" "clean pre" "x \<noteq> EOF"
    and "rs_script (send (ts_status ts) (r\<lparr>rs_header := rs_header r @ ts_header ts\<rparr>)) = []"
  shows "fetch new_req client send url req r =
     http_error ''Failed write response'' 503
       (body_started (send (ts_status ts) (r\<lparr>rs_header := rs_header r @ ts_header ts\<rparr>)) (src_bytes (ts_body ts)))"
  using assms resp_copy [of "send (ts_status ts) (r\<lparr>rs_header := rs_header r @ ts_header ts\<rparr>)" pre "[Chunk bs (Some x)]"]
    resp_write_started [of "body_started (send (ts_status ts) (r\<lparr>rs_header := rs_header r @ ts_header ts\<rparr>)) (src_bytes pre)" bs]
  by (simp add: fetch_def)

text \<open>
  The handler that takes the URL from the path passes the status, the headers and the body of the target on to the client,
  and the target gets the method, the body and all headers of the client's request.
\<close>

theorem path_proxy_transparent:
  assumes path: "u_path (rq_url req) = ''/'' @ url" "url \<noteq> []"
    and parse: "parse (url @ (if u_rawQuery (rq_url req) = [] then [] else ''?'' @ u_rawQuery (rq_url req))) = Inr target"
    and req: "new_req (rq_method req) target (rq_body req) = Inr tq"
    and resp: "client (tq\<lparr>tq_header := tq_header tq @ rq_header req\<rparr>) = Inr ts" "clean (ts_body ts)"
  shows "rs_sent (path_ServeHTTP parse new_req client req fresh_resp) = Some (ts_status ts, ts_header ts)
    \<and> rs_body (path_ServeHTTP parse new_req client req fresh_resp) = src_bytes (ts_body ts)"
proof -
  let ?r = "write_header (ts_status ts) (fresh_resp\<lparr>rs_header := rs_header fresh_resp @ ts_header ts\<rparr>)"
  have s: "rs_script ?r = []" by (simp add: write_header_def fresh_resp_def)
  have "path_ServeHTTP parse new_req client req fresh_resp = body_started ?r (src_bytes (ts_body ts))"
    using path parse fetch_ok [where new_req = new_req and client = client and req = req and send = write_header, OF req resp s] by (simp add: path_ServeHTTP_def split: if_splits)
  then show ?thesis by (simp add: write_header_def fresh_resp_def)
qed

definition demo_proxy_req :: proxy_req where
  "demo_proxy_req = \<lparr>rq_method = ''GET'', rq_host = ''localhost'',
     rq_url = \<lparr>u_host = ''a.test'', u_path = ''/http://a.test/x'', u_rawQuery = ''q=1'', u_text = ''http://a.test/x''\<rparr>,
     rq_header = [(''Accept'', ''*'')], rq_body = []\<rparr>"

definition demo_new_req :: "string \<Rightarrow> string \<Rightarrow> source \<Rightarrow> err + target_req" where
  "demo_new_req m u b = Inr \<lparr>tq_method = m, tq_url = u, tq_header = [], tq_body = b\<rparr>"

definition demo_target :: "source \<Rightarrow> target_req \<Rightarrow> err + target_resp" where
  "demo_target b tq = Inr \<lparr>ts_status = 404, ts_header = [(''Url'', tq_url tq)], ts_body = b\<rparr>"

theorem path_proxy_transparent_witness:
  "rs_sent (path_ServeHTTP Inr demo_new_req (demo_target [Chunk [1] None, Chunk [2, 3] None]) demo_proxy_req fresh_resp)
     = Some (404, [(''Url'', ''http://a.test/x?q=1'')])"
  using path_proxy_transparent [of demo_proxy_req "''http://a.test/x''" Inr "''http://a.test/x?q=1''" demo_new_req
      "\<lparr>tq_method = ''GET'', tq_url = ''http://a.test/x?q=1'', tq_header = [], tq_body = []\<rparr>"
      "demo_target [Chunk [1] None, Chunk [2, 3] None]"
      "\<lparr>ts_status = 404, ts_header = [(''Url'', ''http://a.test/x?q=1'')], ts_body = [Chunk [1] None, Chunk [2, 3] None]\<rparr>"]
  by (simp add: demo_proxy_req_def demo_new_req_def demo_target_def)

text \<open>
  The handler for absolute URLs passes the headers and the body of the target on, but not its status: whatever the target
  answers, also an error or a redirection, the client gets 200, or with an empty body no status at all (then the server sends
  200 when the handler returns).
\<close>

theorem forward_proxy_loses_status:
  assumes host: "u_host (rq_url req) \<noteq> []"
    and req: "new_req (rq_method req) (u_text (rq_url req)) (rq_body req) = Inr tq"
    and resp: "client (tq\<lparr>tq_header := tq_header tq @ rq_header req\<rparr>) = Inr ts" "clean (ts_body ts)"
  shows "rs_sent (forward_ServeHTTP new_req client req fresh_resp)
       = (if src_bytes (ts_body ts) = [] then None else Some (200, ts_header ts))
    \<and> rs_body (forward_ServeHTTP new_req client req fresh_resp) = src_bytes (ts_body ts)"
proof -
  have s: "rs_script (fresh_resp\<lparr>rs_header := rs_header fresh_resp @ ts_header ts\<rparr>) = []" by (simp add: fresh_resp_def)
  show ?thesis using host fetch_ok [where new_req = new_req and client = client and req = req and send = "\<lambda>_ r. r", OF req resp s]
    by (simp add: forward_ServeHTTP_def write_header_def fresh_resp_def)
qed

theorem forward_proxy_loses_status_witness:
  "rs_sent (forward_ServeHTTP demo_new_req (demo_target [Chunk [1] None]) demo_proxy_req fresh_resp)
     = Some (200, [(''Url'', ''http://a.test/x'')])"
  using forward_proxy_loses_status [of demo_proxy_req demo_new_req
      "\<lparr>tq_method = ''GET'', tq_url = ''http://a.test/x'', tq_header = [], tq_body = []\<rparr>" "demo_target [Chunk [1] None]"
      "\<lparr>ts_status = 404, ts_header = [(''Url'', ''http://a.test/x'')], ts_body = [Chunk [1] None]\<rparr>"]
  by (simp add: demo_proxy_req_def demo_new_req_def demo_target_def)

text \<open>
  When the body of the target fails after its first bytes, the client gets the status that was sent before, 200 or that
  of the target, and the text of the error as the last bytes of the body, as if they were the target's.
\<close>

theorem proxy_error_in_body:
  assumes host: "u_host (rq_url req) \<noteq> []"
    and req: "new_req (rq_method req) (u_text (rq_url req)) (rq_body req) = Inr tq"
    and resp: "client (tq\<lparr>tq_header := tq_header tq @ rq_header req\<rparr>) = Inr ts"
    and body: "ts_body ts = pre @ [Chunk bs (Some x)]" "clean pre" "x \<noteq> EOF" "src_bytes (ts_body ts) \<noteq> []"
  shows "status_of (forward_ServeHTTP new_req client req fresh_resp) = Some 200
    \<and> rs_body (forward_ServeHTTP new_req client req fresh_resp)
       = src_bytes (ts_body ts) @ str_bytes (''Failed write response'' @ [char_of (10 :: nat)])"
proof -
  have s: "rs_script (fresh_resp\<lparr>rs_header := rs_header fresh_resp @ ts_header ts\<rparr>) = []" by (simp add: fresh_resp_def)
  show ?thesis using host body(4) fetch_cut [where new_req = new_req and client = client and req = req and send = "\<lambda>_ r. r", OF req resp body(1-3) s]
    by (simp add: forward_ServeHTTP_def write_header_def http_error_body s) (simp add: fresh_resp_def)
qed

theorem proxy_error_in_body_witness:
  "status_of (forward_ServeHTTP demo_new_req (demo_target [Chunk [1] None, Chunk [2] (Some UnexpectedEOF)]) demo_proxy_req fresh_resp)
     = Some 200
   \<and> take 2 (rs_body (forward_ServeHTTP demo_new_req (demo_target [Chunk [1] None, Chunk [2] (Some UnexpectedEOF)]) demo_proxy_req fresh_resp))
     = [1, 2]"
  using proxy_error_in_body [of demo_proxy_req demo_new_req
      "\<lparr>tq_method = ''GET'', tq_url = ''http://a.test/x'', tq_header = [], tq_body = []\<rparr>"
      "demo_target [Chunk [1] None, Chunk [2] (Some UnexpectedEOF)]"
      "\<lparr>ts_status = 404, ts_header = [(''Url'', ''http://a.test/x'')], ts_body = [Chunk [1] None, Chunk [2] (Some UnexpectedEOF)]\<rparr>"
      "[Chunk [1] None]" "[2]" UnexpectedEOF]
  by (simp add: demo_proxy_req_def demo_new_req_def demo_target_def)

end
