(* ===== verification/HttpTunnel.thy ===== *)
theory HttpTunnel
  imports HttpProxy
begin

text \<open>
  The CONNECT handler (\<^verbatim>\<open>x/httpproxy/connect_handler.go\<close>): its decisions up to the tunnel, the two copies of the tunnel as
  steps in any order, and the writer that flushes. The lemmas show when a client gets which refusal and what it learns of
  an error, that no connection to the target stays open, and what the two ends of a tunnel get.
\<close>

section \<open>Errors of the dialer\<close>

definition errCtxCanceled :: err where "errCtxCanceled = ErrNew ''context canceled''"

text \<open>\<open>err_str\<close> is \<^verbatim>\<open>Error()\<close>.\<close>

definition isCancelledError :: "(err \<Rightarrow> string) \<Rightarrow> err option \<Rightarrow> bool" where
  "isCancelledError err_str e =
     (case e of None \<Rightarrow> False
      | Some e \<Rightarrow> errors_is e errCtxCanceled
          \<or> (let t = err_str e; s = ''operation was canceled'' in length s \<le> length t \<and> drop (length t - length s) t = s))"

definition sanitize_DialStream :: "(err \<Rightarrow> string) \<Rightarrow> (string \<Rightarrow> err + 'c) \<Rightarrow> string \<Rightarrow> err + 'c" where
  "sanitize_DialStream err_str dial addr =
     (case dial addr of
        Inl e \<Rightarrow> if isCancelledError err_str (Some e) then Inl errCtxCanceled else Inl (ErrNew ''base dial failed'')
      | Inr conn \<Rightarrow> Inr conn)"

section \<open>The decisions\<close>

record 'c connect_handler =
  ch_dialer :: "string \<Rightarrow> err + 'c"
  ch_factory :: "(string \<Rightarrow> err + (string \<Rightarrow> err + 'c)) option"

definition new_connect_handler ::
  "(err \<Rightarrow> string) \<Rightarrow> (string \<Rightarrow> err + 'c) \<Rightarrow> ('c connect_handler \<Rightarrow> 'c connect_handler) list \<Rightarrow> 'c connect_handler" where
  "new_connect_handler err_str dial opts =
     foldl (\<lambda>h opt. opt h) \<lparr>ch_dialer = sanitize_DialStream err_str dial, ch_factory = None\<rparr> opts"

definition WithStreamDialerParser ::
  "(string \<Rightarrow> err + (string \<Rightarrow> err + 'c)) \<Rightarrow> 'c connect_handler \<Rightarrow> 'c connect_handler" where
  "WithStreamDialerParser f h = h\<lparr>ch_factory := Some f\<rparr>"

text \<open>
  What the server gives the handler to talk to the client: HTTP/1 connections can be taken over (or that fails), those of
  HTTP/2 and HTTP/3 can be flushed.
\<close>

datatype client_io = Hijack "err option" | Flush | NoFlush

datatype 'c tunnel_start =
    Refused http_resp "'c option"
  | TunnelH1 'c bytes
  | TunnelH2 'c http_resp

text \<open>
  \<^verbatim>\<open>ServeHTTP\<close> up to the relay: a refusal, with the connection that it closes, or a tunnel with its first bytes or its
  response.
\<close>

definition connect_ServeHTTP ::
  "(err \<Rightarrow> string) \<Rightarrow> 'c connect_handler \<Rightarrow> client_io \<Rightarrow> proxy_req \<Rightarrow> http_resp \<Rightarrow> 'c tunnel_start" where
  "connect_ServeHTTP err_str h io req r =
     (if rq_method req \<noteq> ''CONNECT''
      then Refused (http_error (''Method '' @ rq_method req @ '' is not supported'') 405 (header_add ''Allow'' ''CONNECT'' r)) None
      else case split_host_port (rq_host req) of
        Inl _ \<Rightarrow> Refused (http_error (''Authority \"'' @ rq_host req @ ''\" is not a valid host:port'') 400 r) None
      | Inr (_, portStr) \<Rightarrow>
          if portStr = [] then Refused (http_error ''Port number must be specified'' 400 r) None
          else let cfg = header_get ''Transport'' (rq_header req) in
            case (if cfg = [] then Inr (ch_dialer h)
                  else case ch_factory h of
                         None \<Rightarrow> Inl (''Transport header is not supported'', 501)
                       | Some f \<Rightarrow>
                           (case f cfg of
                              Inl e \<Rightarrow> Inl (''Invalid config in Transport header: '' @ err_str e, 400)
                            | Inr d \<Rightarrow> Inr d)) of
              Inl (msg, code) \<Rightarrow> Refused (http_error msg code r) None
            | Inr dialer \<Rightarrow>
                (case dialer (rq_host req) of
                   Inl e \<Rightarrow> Refused (http_error (''Failed to connect to '' @ rq_host req @ '': '' @ err_str e) 502 r) None
                 | Inr conn \<Rightarrow>
                     (case io of
                        Hijack (Some _) \<Rightarrow> Refused (http_error ''Failed to hijack connection'' 500 r) (Some conn)
                      | Hijack None \<Rightarrow> TunnelH1 conn (str_bytes ''HTTP/1.1 200 Connection established'' @ [13, 10, 13, 10])
                      | NoFlush \<Rightarrow> Refused (http_error ''Webserver doesn't support flushing'' 500 r) (Some conn)
                      | Flush \<Rightarrow> TunnelH2 conn (write_header 200 r))))"

text \<open>
  Without a Transport header what the client learns of a failed dial does not depend on the error: all errors give the same
  answer, but for those of a cancelled request, which give another one.
\<close>

theorem connect_hides_dial_errors:
  assumes "header_get ''Transport'' (rq_header req) = []"
    and d1: "dial1 (rq_host req) = Inl e1" and d2: "dial2 (rq_host req) = Inl e2"
    and c: "isCancelledError err_str (Some e1) = isCancelledError err_str (Some e2)"
  shows "connect_ServeHTTP err_str (new_connect_handler err_str dial1 []) io req r
       = connect_ServeHTTP err_str (new_connect_handler err_str dial2 []) io req r"
proof -
  have "sanitize_DialStream err_str dial1 (rq_host req) = sanitize_DialStream err_str dial2 (rq_host req)"
    using d1 d2 c by (simp add: sanitize_DialStream_def)
  then show ?thesis using assms(1)
    by (auto simp: connect_ServeHTTP_def new_connect_handler_def split: sum.split)
qed

definition demo_err_str :: "err \<Rightarrow> string" where
  "demo_err_str e = (case e of ErrNew m \<Rightarrow> m | _ \<Rightarrow> [])"

definition demo_connect_req :: proxy_req where
  "demo_connect_req = \<lparr>rq_method = ''CONNECT'', rq_host = ''a:1'',
     rq_url = \<lparr>u_host = [], u_path = [], u_rawQuery = [], u_text = []\<rparr>, rq_header = [], rq_body = []\<rparr>"

theorem connect_hides_dial_errors_witness:
  "connect_ServeHTTP demo_err_str (new_connect_handler demo_err_str (\<lambda>_. Inl (ErrNew ''key 1 refused'') :: err + unit) []) Flush demo_connect_req fresh_resp
     = connect_ServeHTTP demo_err_str (new_connect_handler demo_err_str (\<lambda>_. Inl (ErrNew ''key 2 refused'')) []) Flush demo_connect_req fresh_resp"
  using connect_hides_dial_errors [of demo_connect_req "\<lambda>_. Inl (ErrNew ''key 1 refused'') :: err + unit" "ErrNew ''key 1 refused''"
      "\<lambda>_. Inl (ErrNew ''key 2 refused'')" "ErrNew ''key 2 refused''" demo_err_str]
  by (simp add: demo_connect_req_def header_get_def isCancelledError_def errCtxCanceled_def demo_err_str_def)

text \<open>Every refusal has its status, and the connection to the target is closed exactly if there is one and no tunnel.\<close>

lemma connect_refusals:
  assumes "connect_ServeHTTP err_str h io req fresh_resp = Refused resp cl"
  shows "status_of resp \<in> {Some 405, Some 400, Some 501, Some 502, Some 500}
    \<and> (cl \<noteq> None \<longleftrightarrow> status_of resp = Some 500)
    \<and> (status_of resp = Some 405 \<longleftrightarrow> rq_method req \<noteq> ''CONNECT'')
    \<and> (status_of resp = Some 500 \<longrightarrow> (\<exists>e. io = Hijack (Some e)) \<or> io = NoFlush)"
  using assms
  by (auto simp: connect_ServeHTTP_def fresh_resp_def header_add_def Let_def
      split: if_splits sum.splits option.splits client_io.splits)

section \<open>The tunnel\<close>

text \<open>
  The two copies, one in a goroutine of its own (\<open>tn_up\<close>, client to target) and one in the handler (\<open>tn_down\<close>), until
  each has ended; then the handler returns, which closes the connection to the target, and the end of the request closes
  the connection to the client. The steps of the peers and of the copies come in any order; the fields \<open>tn_client_in\<close> and
  \<open>tn_target_in\<close> hold what a peer has sent and its copy has not read.
\<close>

record tunnel =
  tn_client_in :: "bytes list"
  tn_client_end :: bool
  tn_target_in :: "bytes list"
  tn_target_end :: bool
  tn_target_got :: bytes
  tn_target_wclosed :: bool
  tn_client_got :: bytes
  tn_up :: bool
  tn_down :: bool
  tn_returned :: bool
  tn_target_closed :: bool
  tn_client_closed :: bool

text \<open>\<open>first\<close> is what the handler has sent to the client before.\<close>

definition tunnel_init :: "bytes \<Rightarrow> tunnel" where
  "tunnel_init first =
     \<lparr>tn_client_in = [], tn_client_end = False, tn_target_in = [], tn_target_end = False, tn_target_got = [],
      tn_target_wclosed = False, tn_client_got = first, tn_up = True, tn_down = True, tn_returned = False,
      tn_target_closed = False, tn_client_closed = False\<rparr>"

datatype tunnel_event =
    ClientSends bytes | ClientEnds | TargetSends bytes | TargetEnds
  | CopyUp | UpFails | CopyDown | DownFails | HandlerReturns | ContextDone

text \<open>
  One step; \<open>None\<close> if it cannot happen now. A copy passes on what it reads; at the end of its input or on an error it ends,
  and the one to the target closes the write side there. An error of a copy can come whenever it runs.
\<close>

fun tunnel_step :: "tunnel_event \<Rightarrow> tunnel \<Rightarrow> tunnel option" where
  "tunnel_step (ClientSends p) t = (if tn_client_end t \<or> tn_client_closed t then None else Some (t\<lparr>tn_client_in := tn_client_in t @ [p]\<rparr>))"
| "tunnel_step ClientEnds t = (if tn_client_end t then None else Some (t\<lparr>tn_client_end := True\<rparr>))"
| "tunnel_step (TargetSends p) t = (if tn_target_end t \<or> tn_target_closed t then None else Some (t\<lparr>tn_target_in := tn_target_in t @ [p]\<rparr>))"
| "tunnel_step TargetEnds t = (if tn_target_end t then None else Some (t\<lparr>tn_target_end := True\<rparr>))"
| "tunnel_step CopyUp t =
     (if \<not> tn_up t then None
      else case tn_client_in t of
             p # q \<Rightarrow> Some (t\<lparr>tn_client_in := q, tn_target_got := tn_target_got t @ p\<rparr>)
           | [] \<Rightarrow> if tn_client_end t then Some (t\<lparr>tn_up := False, tn_target_wclosed := True\<rparr>) else None)"
| "tunnel_step UpFails t = (if tn_up t then Some (t\<lparr>tn_up := False, tn_target_wclosed := True\<rparr>) else None)"
| "tunnel_step CopyDown t =
     (if \<not> tn_down t then None
      else case tn_target_in t of
             p # q \<Rightarrow> Some (t\<lparr>tn_target_in := q, tn_client_got := tn_client_got t @ p\<rparr>)
           | [] \<Rightarrow> if tn_target_end t then Some (t\<lparr>tn_down := False\<rparr>) else None)"
| "tunnel_step DownFails t = (if tn_down t then Some (t\<lparr>tn_down := False\<rparr>) else None)"
| "tunnel_step HandlerReturns t =
     (if tn_up t \<or> tn_down t \<or> tn_returned t then None
      else Some (t\<lparr>tn_returned := True, tn_target_closed := True, tn_client_closed := True\<rparr>))"
| "tunnel_step ContextDone t = Some (t\<lparr>tn_client_closed := True\<rparr>)"

fun tunnel_run :: "tunnel_event list \<Rightarrow> tunnel \<Rightarrow> tunnel option" where
  "tunnel_run [] t = Some t"
| "tunnel_run (e # es) t = (case tunnel_step e t of None \<Rightarrow> None | Some t' \<Rightarrow> tunnel_run es t')"

text \<open>What the peers have sent in a run.\<close>

fun client_sent :: "tunnel_event list \<Rightarrow> bytes" where
  "client_sent [] = []"
| "client_sent (ClientSends p # es) = p @ client_sent es"
| "client_sent (_ # es) = client_sent es"

fun target_sent :: "tunnel_event list \<Rightarrow> bytes" where
  "target_sent [] = []"
| "target_sent (TargetSends p # es) = p @ target_sent es"
| "target_sent (_ # es) = target_sent es"

text \<open>
  Between \<open>t\<close> and \<open>t'\<close>: nothing is lost or reordered, and whatever ends has a reason, unless a copy fails or the context is
  done.
\<close>

definition tunnel_inv :: "tunnel \<Rightarrow> bool" where
  "tunnel_inv t \<longleftrightarrow>
     (tn_target_wclosed t \<longleftrightarrow> \<not> tn_up t) \<and> (tn_target_closed t \<longleftrightarrow> tn_returned t)
     \<and> (tn_returned t \<longrightarrow> \<not> tn_up t \<and> \<not> tn_down t)"

lemma tunnel_inv_step: "tunnel_step e t = Some t' \<Longrightarrow> tunnel_inv t \<Longrightarrow> tunnel_inv t'"
  by (cases e) (auto simp: tunnel_inv_def split: if_splits list.splits)

lemma tunnel_run_keeps:
  "tunnel_run es t = Some t' \<Longrightarrow> P t \<Longrightarrow> (\<And>e t t'. e \<in> set es \<Longrightarrow> tunnel_step e t = Some t' \<Longrightarrow> P t \<Longrightarrow> P t') \<Longrightarrow> P t'"
proof (induction es arbitrary: t)
  case (Cons e es)
  obtain t1 where t1: "tunnel_step e t = Some t1" "tunnel_run es t1 = Some t'" using Cons.prems(1) by (auto split: option.splits)
  have "P t1" using Cons.prems(3) [OF _ t1(1)] Cons.prems(2) by simp
  then show ?case by (rule Cons.IH [OF t1(2)]) (rule Cons.prems(3); simp)
qed simp

lemma tunnel_run_inv: "tunnel_run es t = Some t' \<Longrightarrow> tunnel_inv t \<Longrightarrow> tunnel_inv t'"
  by (erule tunnel_run_keeps [where P = tunnel_inv]) (auto intro: tunnel_inv_step)

lemma tunnel_run_bytes:
  "tunnel_run es t = Some t' \<Longrightarrow>
   tn_target_got t' @ concat (tn_client_in t') = tn_target_got t @ concat (tn_client_in t) @ client_sent es
   \<and> tn_client_got t' @ concat (tn_target_in t') = tn_client_got t @ concat (tn_target_in t) @ target_sent es"
proof (induction es arbitrary: t)
  case (Cons e es)
  then show ?case by (cases e) (fastforce split: option.splits if_splits list.splits)+
qed simp

text \<open>A copy that ended without a failure has passed on everything.\<close>

definition up_done :: "tunnel \<Rightarrow> bool" where
  "up_done t \<longleftrightarrow> (\<not> tn_up t \<longrightarrow> tn_client_in t = [] \<and> tn_client_end t)"

definition down_done :: "tunnel \<Rightarrow> bool" where
  "down_done t \<longleftrightarrow> (\<not> tn_down t \<longrightarrow> tn_target_in t = [] \<and> tn_target_end t)"

lemma up_done_step: "tunnel_step e t = Some t' \<Longrightarrow> e \<noteq> UpFails \<Longrightarrow> up_done t \<Longrightarrow> up_done t'"
  and down_done_step: "tunnel_step e t = Some t' \<Longrightarrow> e \<noteq> DownFails \<Longrightarrow> down_done t \<Longrightarrow> down_done t'"
  by (cases e; auto simp: up_done_def down_done_def split: if_splits list.splits)+

text \<open>
  C24: in every interleaving what the target and the client have got is a prefix of what the other side sent; the write side
  of the target is closed only after everything of the client was passed on; and when the handler has returned, both sides
  have ended, both have got everything, and the target is closed, unless a copy failed.
\<close>

theorem tunnel_delivers:
  assumes "tunnel_run es (tunnel_init first) = Some t" "UpFails \<notin> set es" "DownFails \<notin> set es"
  shows "tn_target_got t @ concat (tn_client_in t) = client_sent es
    \<and> tn_client_got t @ concat (tn_target_in t) = first @ target_sent es
    \<and> (tn_target_wclosed t \<longrightarrow> tn_client_end t \<and> tn_target_got t = client_sent es)
    \<and> (tn_returned t \<longrightarrow> tn_client_end t \<and> tn_target_end t \<and> tn_target_closed t
         \<and> tn_target_got t = client_sent es \<and> tn_client_got t = first @ target_sent es)"
proof -
  have i: "tunnel_inv t" using tunnel_run_inv [OF assms(1)] by (simp add: tunnel_inv_def tunnel_init_def)
  have "up_done t"
    by (rule tunnel_run_keeps [where P = up_done, OF assms(1)]) (use up_done_step assms(2) in \<open>auto simp: up_done_def tunnel_init_def\<close>)
  moreover have "down_done t"
    by (rule tunnel_run_keeps [where P = down_done, OF assms(1)]) (use down_done_step assms(3) in \<open>auto simp: down_done_def tunnel_init_def\<close>)
  ultimately show ?thesis using tunnel_run_bytes [OF assms(1)] i
    by (auto simp: tunnel_inv_def tunnel_init_def up_done_def down_done_def)
qed

text \<open>A client that has not ended its side.\<close>

definition tn_waiting :: "tunnel \<Rightarrow> bool" where
  "tn_waiting t \<longleftrightarrow> tn_up t \<and> \<not> tn_client_end t \<and> \<not> tn_client_closed t \<and> \<not> tn_returned t"

lemma tn_waiting_step:
  "tunnel_step e t = Some t' \<Longrightarrow> e \<noteq> ClientEnds \<Longrightarrow> e \<noteq> UpFails \<Longrightarrow> e \<noteq> ContextDone \<Longrightarrow> tn_waiting t \<Longrightarrow> tn_waiting t'"
  by (cases e) (auto simp: tn_waiting_def split: if_splits list.splits)

text \<open>
  The end of the target's stream is not passed on: the connection to the client is closed only after the client has ended its
  own side, the copy to the target has failed or the context is done. A client that waits for the end of the answer before
  it ends its side waits for ever.
\<close>

theorem tunnel_end_not_passed_on:
  assumes "tunnel_run es (tunnel_init first) = Some t" "ClientEnds \<notin> set es" "UpFails \<notin> set es" "ContextDone \<notin> set es"
  shows "\<not> tn_client_closed t \<and> \<not> tn_returned t \<and> tunnel_step HandlerReturns t = None"
proof -
  have "tn_waiting t"
  proof (rule tunnel_run_keeps [where P = tn_waiting, OF assms(1)])
    show "tn_waiting (tunnel_init first)" by (simp add: tn_waiting_def tunnel_init_def)
    show "\<And>e t t'. e \<in> set es \<Longrightarrow> tunnel_step e t = Some t' \<Longrightarrow> tn_waiting t \<Longrightarrow> tn_waiting t'"
      using tn_waiting_step assms(2-4) by blast
  qed
  then show ?thesis by (simp add: tn_waiting_def)
qed

theorem tunnel_end_not_passed_on_witness:
  "\<exists>t. tunnel_run [ClientSends [1], CopyUp, TargetSends [7, 8], TargetEnds, CopyDown, CopyDown] (tunnel_init []) = Some t
     \<and> tn_client_got t = [7, 8] \<and> tn_target_end t \<and> \<not> tn_client_closed t"
proof -
  let ?es = "[ClientSends [1], CopyUp, TargetSends [7, 8], TargetEnds, CopyDown, CopyDown]"
  obtain t where t: "tunnel_run ?es (tunnel_init []) = Some t" "tn_client_got t = [7, 8]" "tn_target_end t"
    by (simp add: tunnel_init_def)
  then show ?thesis using tunnel_end_not_passed_on [OF t(1)] by simp
qed

theorem tunnel_delivers_witness:
  "\<exists>t. tunnel_run [ClientSends [1], TargetSends [7, 8], CopyDown, TargetEnds, CopyUp, ClientEnds, CopyUp, CopyDown, HandlerReturns] (tunnel_init [0]) = Some t
     \<and> tn_target_got t = [1] \<and> tn_client_got t = [0, 7, 8] \<and> tn_returned t \<and> tn_target_closed t"
proof -
  let ?es = "[ClientSends [1], TargetSends [7, 8], CopyDown, TargetEnds, CopyUp, ClientEnds, CopyUp, CopyDown, HandlerReturns]"
  obtain t where t: "tunnel_run ?es (tunnel_init [0]) = Some t" "tn_returned t" by (simp add: tunnel_init_def)
  then show ?thesis using tunnel_delivers [OF t(1)] by simp
qed

section \<open>The writer that flushes\<close>

text \<open>
  \<^verbatim>\<open>flushingWriter\<close>: \<open>wr\<close> and \<open>flush\<close> are those of the response. \<^verbatim>\<open>ReadFrom\<close> is that of a reader that has no \<^verbatim>\<open>WriteTo\<close>, or the
  \<^verbatim>\<open>WriteTo\<close> (\<open>wt\<close>) of the reader; a buffer has 32 KiB.
\<close>

definition flushing_write :: "'s writer \<Rightarrow> ('s \<Rightarrow> 's) \<Rightarrow> 's writer" where
  "flushing_write wr flush s b = (case wr s b of (s', n, e) \<Rightarrow> (flush s', n, e))"

definition flush_buf :: nat where "flush_buf = 32 * 1024"

lemma flush_read_shrinks: "(src', bs, None) = src_read src flush_buf \<Longrightarrow> src_size src' < src_size src"
  using src_read_size [of src flush_buf src' bs None] by (cases "src = []") (auto simp: flush_buf_def)

function flushing_loop :: "'s writer \<Rightarrow> 's \<Rightarrow> source \<Rightarrow> nat \<Rightarrow> 's \<times> source \<times> nat \<times> err option" where
  "flushing_loop fw s src n =
     (case src_read src flush_buf of
        (src', bs, er) \<Rightarrow>
          (case (if bs \<noteq> [] then fw s bs else (s, 0, None)) of
             (s', nw, Some ew) \<Rightarrow> (s', src', n + nw, Some ew)
           | (s', nw, None) \<Rightarrow>
               (case er of
                  Some e \<Rightarrow> (s', src', n + nw, if e = EOF then None else Some e)
                | None \<Rightarrow> flushing_loop fw s' src' (n + nw))))"
  by pat_completeness auto

termination
  by (relation "measure (\<lambda>(_, _, src, _). src_size src)") (auto dest: flush_read_shrinks)

declare flushing_loop.simps [simp del]

definition flushing_read_from :: "'s writer \<Rightarrow> ('s \<Rightarrow> 's) \<Rightarrow> ('s writer \<Rightarrow> 's reader_from) option \<Rightarrow> 's reader_from" where
  "flushing_read_from wr flush wt s src =
     (case wt of Some f \<Rightarrow> f (flushing_write wr flush) s src
               | None \<Rightarrow> flushing_loop (flushing_write wr flush) s src 0)"

text \<open>
  Everything a reader gives is written, and the flush comes after each write: if \<open>flush\<close> makes what was written visible (\<open>vis\<close>),
  the client sees all of it at the end, and what it has at any time is what the reader has given.
\<close>

lemma flushing_write_visible:
  assumes "go_writer wr out" "\<And>s. vis (flush s) = out s" "\<And>s. out (flush s) = out s" "flushing_write wr flush s b = (s', n, e)"
  shows "vis s' = out s @ take n b \<and> out s' = out s @ take n b \<and> n \<le> length b \<and> (e = None \<longrightarrow> n = length b)"
  using assms go_writer.wr_out [OF assms(1)] go_writer.wr_len [OF assms(1)] go_writer.wr_full [OF assms(1)]
  by (auto simp: flushing_write_def split: prod.splits)

lemma flushing_loop_visible:
  assumes "go_writer wr out" "\<And>s. vis (flush s) = out s" "\<And>s. out (flush s) = out s"
  shows "flushing_loop (flushing_write wr flush) s src k = (s', src', n, e) \<Longrightarrow> vis s = out s \<Longrightarrow>
    \<exists>m. n = k + m \<and> vis s' = out s' \<and> out s' = out s @ take m (src_bytes src) \<and> m \<le> length (src_bytes src)
      \<and> (clean src \<and> e = None \<longrightarrow> m = length (src_bytes src))"
proof (induction "src_size src" arbitrary: s src k rule: less_induct)
  case less
  obtain src1 bs er where r: "src_read src flush_buf = (src1, bs, er)" by (metis prod_cases3)
  obtain s1 nw ew where w: "(if bs \<noteq> [] then flushing_write wr flush s bs else (s, 0, None)) = (s1, nw, ew)" by (metis prod_cases3)
  have v: "vis s1 = out s1" "out s1 = out s @ take nw bs" "nw \<le> length bs" "ew = None \<longrightarrow> nw = length bs"
    using w flushing_write_visible [OF assms, of s bs s1 nw ew] less.prems(2) by (auto split: if_splits)
  note b = src_read_bytes [OF r]
  show ?case
  proof (cases "ew = None \<and> er = None")
    case True
    then have l: "flushing_loop (flushing_write wr flush) s1 src1 (k + nw) = (s', src', n, e)"
      using less.prems(1) r w by (subst (asm) flushing_loop.simps) simp
    have sz: "src_size src1 < src_size src" using flush_read_shrinks [of src1 bs src] r True by simp
    obtain m where "n = k + nw + m" "vis s' = out s'" "out s' = out s1 @ take m (src_bytes src1)" "m \<le> length (src_bytes src1)"
      "clean src1 \<and> e = None \<longrightarrow> m = length (src_bytes src1)"
      using less.hyps [OF sz l v(1)] by blast
    then show ?thesis using v True b src_read_clean [OF r]
      by (intro exI [of _ "nw + m"]) auto
  next
    case False
    then have q: "s' = s1" "n = k + nw" "e = None \<longrightarrow> ew = None \<and> er = Some EOF"
      using less.prems(1) r w by (auto simp: flushing_loop.simps [of "flushing_write wr flush" s src k] split: option.splits if_splits)
    have "bs = src_bytes src" if "clean src" "er = Some EOF"
      using src_read_clean_err [OF r that(1)] that(2) r by (cases "src = []") auto
    then show ?thesis using q v b by auto
  qed
qed

text \<open>
  \<^verbatim>\<open>flushingWriter.ReadFrom\<close> ends, and with a reader that ends without an error and a client that takes everything, the
  client has seen all of the reader's bytes, none of them waits for a flush.
\<close>

theorem flushing_copy_visible:
  assumes "go_writer wr out" "\<And>s. vis (flush s) = out s" "\<And>s. out (flush s) = out s" "vis s = out s" "clean src"
    and "flushing_read_from wr flush None s src = (s', src', n, None)"
  shows "n = length (src_bytes src) \<and> vis s' = out s @ src_bytes src"
  using flushing_loop_visible [OF assms(1-3), of s src 0 s' src' n None] assms(4-6)
  by (auto simp: flushing_read_from_def)

theorem flushing_copy_visible_witness:
  "\<exists>s'. flushing_read_from (\<lambda>(a, b) p. ((a, b @ p), length p, None)) (\<lambda>(a, b). (b, b)) None ([], []) [Chunk [1] None, Chunk [2, 3] None]
       = (s', [], 3, None) \<and> fst s' = [1, 2, 3 :: byte]"
proof -
  let ?wr = "\<lambda>(a, b) p. ((a, b @ p), length p, None) :: (bytes \<times> bytes) \<times> nat \<times> err option"
  have g: "go_writer ?wr snd" by unfold_locales auto
  have r: "flushing_read_from ?wr (\<lambda>(a, b). (b, b)) None ([], []) [Chunk [1] None, Chunk [2, 3] None]
      = (([1, 2, 3], [1, 2, 3]), [], 3, None)"
    by (simp add: flushing_read_from_def flushing_loop.simps flushing_write_def flush_buf_def)
  show ?thesis using flushing_copy_visible [of ?wr snd fst "\<lambda>(a, b). (b, b)", OF g _ _ _ _ r] r by (simp add: split_def)
qed

end
