(* ===== verification/Connectivity.thy ===== *)
theory Connectivity
  imports Dns
begin

text \<open>
  The connectivity test (\<^verbatim>\<open>x/connectivity\<close>): one DNS query through a resolver, and the name of the step that failed. The
  lemmas follow the errors from the steps of a query over a stream to the verdict of the test.
\<close>

section \<open>Errors\<close>

record connectivity_error =
  ce_op :: string
  ce_posix :: string
  ce_err :: err

text \<open>\<open>sys_name\<close> is \<^verbatim>\<open>systemErrnoName\<close>, the table of the operating system.\<close>

fun hex_text :: "nat \<Rightarrow> string" where
  "hex_text n = (let d = n mod 16; c = (if d < 10 then char_of (48 + d) else char_of (87 + d)) in
     if n < 16 then [c] else hex_text (n div 16) @ [c])"

declare hex_text.simps [simp del]

definition errnoName :: "(nat \<Rightarrow> string) \<Rightarrow> nat \<Rightarrow> string" where
  "errnoName sys_name errno =
     (if sys_name errno \<noteq> [] then sys_name errno
      else ''Error '' @ itoa errno @ '' (0x'' @ hex_text errno @ '')'')"

text \<open>
  \<^verbatim>\<open>errors.As\<close>: the first error of the tree, depth first, of which \<open>f\<close> makes something. The errors of \<^verbatim>\<open>fmt.Errorf\<close>, \<^verbatim>\<open>errors.Join\<close> and
  the \<^verbatim>\<open>nestedError\<close> of the resolvers are no targets themselves.
\<close>

fun errors_as :: "(err \<Rightarrow> 'a option) \<Rightarrow> err \<Rightarrow> 'a option" where
  "errors_as f (ErrWrap m e) = errors_as f e"
| "errors_as f (ErrNested i e) = errors_as f e"
| "errors_as f (ErrJoin es) = foldr (\<lambda>e r. case errors_as f e of None \<Rightarrow> r | Some x \<Rightarrow> Some x) es None"
| "errors_as f e = f e"

text \<open>\<open>timeout e\<close> is what the method \<^verbatim>\<open>Timeout\<close> of a single error gives, if it has one, and \<open>errno e\<close> the \<^verbatim>\<open>syscall.Errno\<close> that it is.\<close>

definition isTimeout :: "(err \<Rightarrow> bool option) \<Rightarrow> err \<Rightarrow> bool" where
  "isTimeout timeout e = (case errors_as timeout e of None \<Rightarrow> False | Some b \<Rightarrow> b)"

definition makeConnectivityError ::
  "(nat \<Rightarrow> string) \<Rightarrow> (err \<Rightarrow> nat option) \<Rightarrow> (err \<Rightarrow> bool option) \<Rightarrow> string \<Rightarrow> err \<Rightarrow> connectivity_error" where
  "makeConnectivityError sys_name errno timeout op e =
     \<lparr>ce_op = op,
      ce_posix = (case errors_as errno e of
                    Some n \<Rightarrow> errnoName sys_name n
                  | None \<Rightarrow> if isTimeout timeout e then ''ETIMEDOUT'' else []),
      ce_err = e\<rparr>"

section \<open>The test\<close>

text \<open>
  \<^verbatim>\<open>TestConnectivityWithResolver\<close> at the time \<open>now\<close> (in seconds); \<open>mk\<close> is \<^verbatim>\<open>makeConnectivityError\<close>, and a resolver gets the deadline
  and the question.
\<close>

definition test_deadline :: "int \<Rightarrow> int option \<Rightarrow> int" where
  "test_deadline now ctx = (case ctx of None \<Rightarrow> now + 5 | Some d \<Rightarrow> d)"

definition TestConnectivityWithResolver ::
  "'b dns_lib \<Rightarrow> (string \<Rightarrow> err \<Rightarrow> connectivity_error) \<Rightarrow> int \<Rightarrow> int option
   \<Rightarrow> (int \<Rightarrow> question \<Rightarrow> err + dns_msg) \<Rightarrow> string \<Rightarrow> err + connectivity_error option" where
  "TestConnectivityWithResolver L mk now ctx resolver testDomain =
     (case NewQuestion L testDomain 1 of
        Inl e \<Rightarrow> Inl (ErrWrap ''question creation failed'' e)
      | Inr q \<Rightarrow>
          (case resolver (test_deadline now ctx) q of
             Inr _ \<Rightarrow> Inr None
           | Inl e \<Rightarrow>
               if errors_is e ErrBadRequest then Inl e
               else if errors_is e ErrDial then Inr (Some (mk ''connect'' e))
               else if errors_is e ErrSend then Inr (Some (mk ''send'' e))
               else if errors_is e ErrReceive then Inr (Some (mk ''receive'' e))
               else Inr None))"

text \<open>An error of the network or of a library: none of the resolver's own.\<close>

definition plain :: "err \<Rightarrow> bool" where
  "plain e \<longleftrightarrow> \<not> errors_is e ErrBadRequest \<and> \<not> errors_is e ErrDial \<and> \<not> errors_is e ErrSend \<and> \<not> errors_is e ErrReceive"

lemma errors_is_sentinels [simp]:
  "errors_is ErrDial e = (e = ErrDial)" "errors_is ErrSend e = (e = ErrSend)" "errors_is ErrReceive e = (e = ErrReceive)"
  "errors_is ErrBadRequest e = (e = ErrBadRequest)" "errors_is ErrBadResponse e = (e = ErrBadResponse)"
  by (auto simp: ErrDial_def ErrSend_def ErrReceive_def ErrBadRequest_def ErrBadResponse_def)

lemma sentinels_distinct [simp]:
  "ErrDial \<noteq> ErrBadRequest" "ErrSend \<noteq> ErrBadRequest" "ErrReceive \<noteq> ErrBadRequest" "ErrBadResponse \<noteq> ErrBadRequest"
  "ErrSend \<noteq> ErrDial" "ErrReceive \<noteq> ErrDial" "ErrBadResponse \<noteq> ErrDial" "ErrReceive \<noteq> ErrSend" "ErrBadResponse \<noteq> ErrSend"
  "ErrBadResponse \<noteq> ErrReceive"
  by (simp_all add: ErrDial_def ErrSend_def ErrReceive_def ErrBadRequest_def ErrBadResponse_def)

lemma sentinels_atomic [simp]:
  "ErrNested i e \<noteq> ErrDial" "ErrNested i e \<noteq> ErrSend" "ErrNested i e \<noteq> ErrReceive" "ErrNested i e \<noteq> ErrBadRequest"
  "ErrWrap m e \<noteq> ErrDial" "ErrWrap m e \<noteq> ErrSend" "ErrWrap m e \<noteq> ErrReceive" "ErrWrap m e \<noteq> ErrBadRequest"
  by (simp_all add: ErrDial_def ErrSend_def ErrReceive_def ErrBadRequest_def)

lemma plain_simps [simp]: "plain EOF" "plain UnexpectedEOF" "plain (ErrWrap m e) = plain e"
  by (simp_all add: plain_def ErrDial_def ErrSend_def ErrReceive_def ErrBadRequest_def)

lemma checkResponse_plain: "checkResponse i q h qs = Some e \<Longrightarrow> plain e"
  by (auto simp: checkResponse_def plain_def ErrDial_def ErrSend_def ErrReceive_def ErrBadRequest_def split: if_splits list.splits)

text \<open>
  A stream as the network gives it: the bytes \<open>bs\<close> in pieces, and then the error \<open>x\<close>, which is \<open>EOF\<close> at its end; what comes
  after a failure is of no interest.
\<close>

definition net_stream :: "source \<Rightarrow> bytes \<Rightarrow> err \<Rightarrow> bool" where
  "net_stream src bs x \<longleftrightarrow>
     (\<exists>ps. concat ps = bs \<and> (src = map (\<lambda>p. Chunk p None) ps \<and> x = EOF
        \<or> (\<exists>r. src = map (\<lambda>p. Chunk p None) ps @ Chunk [] (Some x) # r)))"

text \<open>The error of a reader that wants more than the bytes \<open>got\<close> that were left.\<close>

definition cut_short :: "bytes \<Rightarrow> err \<Rightarrow> err" where
  "cut_short got x = (if x = EOF \<and> got \<noteq> [] then UnexpectedEOF else x)"

lemma net_stream_pieces:
  "net_stream (map (\<lambda>p. Chunk p None) ps) (concat ps) EOF"
  "net_stream (map (\<lambda>p. Chunk p None) ps @ Chunk [] (Some x) # r) (concat ps) x"
  by (auto simp: net_stream_def)

lemma read_loop_pieces:
  assumes "fin = [] \<and> x = EOF \<or> (\<exists>r. fin = Chunk [] (Some x) # r)"
  shows "if k \<le> length (concat ps)
     then \<exists>qs. read_loop (map (\<lambda>p. Chunk p None) ps @ fin) k = (map (\<lambda>p. Chunk p None) qs @ fin, take k (concat ps), None)
        \<and> concat qs = drop k (concat ps)
     else \<exists>s'. read_loop (map (\<lambda>p. Chunk p None) ps @ fin) k = (s', concat ps, Some x)"
proof (induction ps arbitrary: k)
  case Nil
  show ?case
  proof (cases k)
    case 0
    then show ?thesis by (auto intro: exI [of _ "[]"])
  next
    case (Suc j)
    then show ?thesis using assms by auto
  qed
next
  case (Cons p ps)
  show ?case
  proof (cases k)
    case 0
    then show ?thesis by (auto intro!: exI [of _ "p # ps"])
  next
    case (Suc j)
    consider (less) "Suc j < length p" | (eq) "Suc j = length p" | (more) "length p < Suc j" by linarith
    then show ?thesis
    proof cases
      case less
      then show ?thesis using Suc by (auto intro!: exI [of _ "drop k p # ps"])
    next
      case eq
      have "read_loop (map (\<lambda>p. Chunk p None) (p # ps) @ fin) (Suc j) = (map (\<lambda>p. Chunk p None) ps @ fin, p, None)"
        unfolding list.map append_Cons by (subst read_loop.simps(3)) (simp add: eq)
      then show ?thesis using Suc eq by (auto intro!: exI [of _ ps])
    next
      case more
      have r: "read_loop (map (\<lambda>p. Chunk p None) (p # ps) @ fin) k
          = (case read_loop (map (\<lambda>p. Chunk p None) ps @ fin) (k - length p) of (s', cs, x) \<Rightarrow> (s', p @ cs, x))"
        using more Suc by simp
      show ?thesis
      proof (cases "k - length p \<le> length (concat ps)")
        case True
        then obtain qs where "read_loop (map (\<lambda>p. Chunk p None) ps @ fin) (k - length p)
            = (map (\<lambda>p. Chunk p None) qs @ fin, take (k - length p) (concat ps), None)" "concat qs = drop (k - length p) (concat ps)"
          using Cons.IH [of "k - length p"] by auto
        then show ?thesis using True r more Suc by (auto intro!: exI [of _ qs])
      next
        case False
        then obtain s' where "read_loop (map (\<lambda>p. Chunk p None) ps @ fin) (k - length p) = (s', concat ps, Some x)"
          using Cons.IH [of "k - length p"] by auto
        then show ?thesis using False r more Suc by auto
      qed
    qed
  qed
qed

lemma read_full_net:
  assumes "net_stream src bs x"
  shows "k \<le> length bs \<Longrightarrow> \<exists>s'. read_full src k = (s', take k bs, None) \<and> net_stream s' (drop k bs) x"
    and "length bs < k \<Longrightarrow> \<exists>s'. read_full src k = (s', bs, Some (cut_short bs x))"
proof -
  obtain ps fin where s: "src = map (\<lambda>p. Chunk p None) ps @ fin" "concat ps = bs"
    and fin: "fin = [] \<and> x = EOF \<or> (\<exists>r. fin = Chunk [] (Some x) # r)"
    using assms by (auto simp: net_stream_def)
  note l = read_loop_pieces [OF fin, of k ps]
  show "\<exists>s'. read_full src k = (s', take k bs, None) \<and> net_stream s' (drop k bs) x" if k: "k \<le> length bs"
  proof -
    obtain qs where "read_loop src k = (map (\<lambda>p. Chunk p None) qs @ fin, take k bs, None)" "concat qs = drop k bs"
      using l k s by auto
    moreover have "net_stream (map (\<lambda>p. Chunk p None) qs @ fin) (concat qs) x"
      using fin net_stream_pieces by auto
    ultimately show ?thesis by (simp add: read_full_def)
  qed
  show "\<exists>s'. read_full src k = (s', bs, Some (cut_short bs x))" if "length bs < k"
    using l that s by (auto simp: read_full_def cut_short_def)
qed

text \<open>The verdict on an answer that was read from a stream.\<close>

definition receive_error :: "bytes \<Rightarrow> err \<Rightarrow> err option" where
  "receive_error bs x =
     (if length bs < 2 then Some (ErrWrap ''read message length failed'' (cut_short bs x))
      else if length bs < 2 + get_u16 (take 2 bs) then Some (ErrWrap ''read message failed'' (cut_short (drop 2 bs) x))
      else None)"

lemma stream_answer_verdict:
  assumes n: "net_stream src bs x" and lib: "\<forall>b e. UnpackMsg L b = Inl e \<longrightarrow> plain e" and a: "stream_answer L qid q src = (src', r)"
  shows "case receive_error bs x of
       Some e \<Rightarrow> r = Inl (ErrNested ErrReceive e)
     | None \<Rightarrow> (\<exists>m. r = Inr m) \<or> (\<exists>e. r = Inl (ErrNested ErrBadResponse e) \<and> plain e)"
proof (cases "length bs < 2")
  case True
  then show ?thesis using read_full_net(2) [OF n True] a by (auto simp: stream_answer_def receive_error_def)
next
  case False
  then obtain s1 where s1: "read_full src 2 = (s1, take 2 bs, None)" "net_stream s1 (drop 2 bs) x"
    using read_full_net(1) [OF n, of 2] by auto
  let ?n = "get_u16 (take 2 bs)"
  show ?thesis
  proof (cases "length (drop 2 bs) < ?n")
    case True
    then show ?thesis using read_full_net(2) [OF s1(2) True] False s1(1) a
      by (auto simp: stream_answer_def receive_error_def)
  next
    case n: False
    obtain s2 where s2: "read_full s1 ?n = (s2, take ?n (drop 2 bs), None)" using read_full_net(1) [OF s1(2), of ?n] n by auto
    have "(\<exists>m. r = Inr m) \<or> (\<exists>e. r = Inl (ErrNested ErrBadResponse e) \<and> plain e)"
    proof (cases "UnpackMsg L (take ?n (drop 2 bs))")
      case (Inl e)
      then have "plain e" using lib by blast
      then show ?thesis using Inl s1(1) s2 a by (auto simp: stream_answer_def)
    next
      case (Inr m)
      have "r = (case checkResponse qid q (m_hdr m) (m_questions m) of Some e \<Rightarrow> Inl (ErrNested ErrBadResponse e) | None \<Rightarrow> Inr m)"
        using a s1(1) s2 Inr by (simp add: stream_answer_def)
      then show ?thesis using checkResponse_plain
        by (cases "checkResponse qid q (m_hdr m) (m_questions m)") auto
    qed
    moreover have "receive_error bs x = None" using False n by (simp add: receive_error_def)
    ultimately show ?thesis by simp
  qed
qed

text \<open>The error of a step, with the POSIX name of the error itself, whatever it was wrapped in.\<close>

definition posix_name :: "(nat \<Rightarrow> string) \<Rightarrow> (err \<Rightarrow> nat option) \<Rightarrow> (err \<Rightarrow> bool option) \<Rightarrow> err \<Rightarrow> string" where
  "posix_name sys_name errno timeout e =
     (case errors_as errno e of
        Some n \<Rightarrow> if sys_name n \<noteq> [] then sys_name n else ''Error '' @ itoa n @ '' (0x'' @ hex_text n @ '')''
      | None \<Rightarrow> if errors_as timeout e = Some True then ''ETIMEDOUT'' else [])"

lemma makeConnectivityError_eq:
  "makeConnectivityError sys_name errno timeout op (ErrNested i e)
     = \<lparr>ce_op = op, ce_posix = posix_name sys_name errno timeout e, ce_err = ErrNested i e\<rparr>"
  by (simp add: makeConnectivityError_def posix_name_def isTimeout_def errnoName_def split: option.split)

lemma receive_error_plain: "plain x \<Longrightarrow> receive_error bs x = Some e \<Longrightarrow> plain e"
  by (auto simp: receive_error_def cut_short_def split: if_splits)

text \<open>
  C32: over a stream resolver the test says \<^verbatim>\<open>connect\<close> if the dial fails, \<^verbatim>\<open>send\<close> if the request cannot be written, \<^verbatim>\<open>receive\<close> if
  the stream ends or fails, with a reset or a timeout for example, before a whole message came, and else that there is
  connectivity, whatever the message is. The error it reports is that of the step, with the POSIX name that the error
  itself has, or \<^verbatim>\<open>ETIMEDOUT\<close> if it is a timeout without one.
\<close>

theorem connectivity_names_the_step:
  fixes sys_name errno timeout
  assumes q: "NewQuestion L domain 1 = Inr q" and req: "appendRequest L qid q [0, 0] = Inr buf" "length buf \<le> 65535"
    and dial: "\<forall>e. conn = Inl e \<longrightarrow> plain e"
    and sendf: "\<forall>c e s n. conn = Inr c \<longrightarrow> wr (c_out c) (blit 0 (put_u16 (length buf - 2)) buf) = (s, n, Some e) \<longrightarrow> plain e"
    and read: "\<forall>c. conn = Inr c \<longrightarrow> net_stream (c_in c) bs x" "plain x" "\<forall>b e. UnpackMsg L b = Inl e \<longrightarrow> plain e"
    and v: "v = TestConnectivityWithResolver L (makeConnectivityError sys_name errno timeout) now ctx
                  (\<lambda>_ q. snd (stream_query L qid wr conn q)) domain"
  defines "failed \<equiv> \<lambda>op step e. Inr (Some \<lparr>ce_op = op, ce_posix = posix_name sys_name errno timeout e, ce_err = ErrNested step e\<rparr>)"
  shows "case conn of
      Inl e \<Rightarrow> v = failed ''connect'' ErrDial e
    | Inr c \<Rightarrow>
        (case wr (c_out c) (blit 0 (put_u16 (length buf - 2)) buf) of
           (_, _, Some e) \<Rightarrow> v = failed ''send'' ErrSend e
         | (_, _, None) \<Rightarrow>
             (case receive_error bs x of Some e \<Rightarrow> v = failed ''receive'' ErrReceive e | None \<Rightarrow> v = Inr None))"
proof (cases conn)
  case (Inl e)
  then have "plain e" using dial by blast
  then show ?thesis using Inl q
    by (simp add: v failed_def TestConnectivityWithResolver_def stream_query_def plain_def makeConnectivityError_eq)
next
  case (Inr c)
  obtain s n e where w: "wr (c_out c) (blit 0 (put_u16 (length buf - 2)) buf) = (s, n, e)" by (metis prod_cases3)
  show ?thesis
  proof (cases e)
    case (Some y)
    then have "plain y" using sendf Inr w by blast
    then show ?thesis using Inr q req w Some
      by (simp add: v failed_def TestConnectivityWithResolver_def stream_query_def queryStream_def plain_def Let_def makeConnectivityError_eq)
  next
    case None
    obtain i r where a: "stream_answer L qid q (c_in c) = (i, r)" by fastforce
    have "snd (stream_query L qid wr conn q) = r"
      using Inr req w None a by (simp add: stream_query_def queryStream_def Let_def)
    then have t: "v = (case r of Inr _ \<Rightarrow> Inr None | Inl e \<Rightarrow>
               if errors_is e ErrBadRequest then Inl e
               else if errors_is e ErrDial then Inr (Some (makeConnectivityError sys_name errno timeout ''connect'' e))
               else if errors_is e ErrSend then Inr (Some (makeConnectivityError sys_name errno timeout ''send'' e))
               else if errors_is e ErrReceive then Inr (Some (makeConnectivityError sys_name errno timeout ''receive'' e))
               else Inr None)"
      using q by (simp add: v TestConnectivityWithResolver_def)
    have r: "case receive_error bs x of
         Some e \<Rightarrow> r = Inl (ErrNested ErrReceive e)
       | None \<Rightarrow> (\<exists>m. r = Inr m) \<or> (\<exists>e. r = Inl (ErrNested ErrBadResponse e) \<and> plain e)"
      by (rule stream_answer_verdict [OF read(1) [rule_format, OF Inr] read(3) a])
    have "case receive_error bs x of Some e \<Rightarrow> v = failed ''receive'' ErrReceive e | None \<Rightarrow> v = Inr None"
    proof (cases "receive_error bs x")
      case None
      then show ?thesis using r by (auto simp: t plain_def)
    next
      case (Some e')
      then have "plain e'" using receive_error_plain read(2) by blast
      then show ?thesis using r Some by (auto simp: t plain_def failed_def makeConnectivityError_eq)
    qed
    then show ?thesis using Inr w None by simp
  qed
qed

text \<open>A server that announces four bytes, sends three and resets the connection, for which the operating system has the number 104.\<close>

definition reset_error :: err where "reset_error = ErrNew ''connection reset by peer''"

definition demo_mk :: "string \<Rightarrow> err \<Rightarrow> connectivity_error" where
  "demo_mk = makeConnectivityError (\<lambda>n. if n = 104 then ''ECONNRESET'' else [])
     (\<lambda>e. if e = reset_error then Some 104 else None) (\<lambda>_. None)"

theorem connectivity_names_the_step_witness:
  "TestConnectivityWithResolver demo_lib demo_mk 0 None
     (\<lambda>_ q. snd (stream_query demo_lib 7 sink_write
        (Inr \<lparr>c_out = fresh_sink, c_in = [Chunk [0, 4, 0] None, Chunk [7, 1] None, Chunk [] (Some reset_error)], c_closed = False\<rparr>) q)) ''a''
     = Inr (Some \<lparr>ce_op = ''receive'', ce_posix = ''ECONNRESET'', ce_err = ErrNested ErrReceive (ErrWrap ''read message failed'' reset_error)\<rparr>)"
proof -
  let ?c = "\<lparr>c_out = fresh_sink, c_in = [Chunk [0, 4, 0] None, Chunk [7, 1] None, Chunk [] (Some reset_error)], c_closed = False\<rparr>"
  let ?q = "\<lparr>qname = str_bytes ''a.'', qtype = 1, qclass = classINET\<rparr>"
  have q: "NewQuestion demo_lib ''a'' 1 = Inr ?q" by (simp add: NewQuestion_def demo_lib_def)
  have req: "appendRequest demo_lib 7 ?q [0, 0] = Inr ([0, 0] @ put_u16 7 @ [0] @ str_bytes ''a.'')"
    by (simp add: appendRequest_def demo_lib_def)
  have lib: "\<forall>b e. UnpackMsg demo_lib b = Inl e \<longrightarrow> plain e"
    by (auto simp: demo_lib_def plain_def ErrDial_def ErrSend_def ErrReceive_def ErrBadRequest_def split: if_splits)
  have n: "\<forall>c. Inr ?c = Inr c \<longrightarrow> net_stream (c_in c) [0, 4, 0, 7, 1] reset_error"
    using net_stream_pieces(2) [of "[[0, 4, 0], [7, 1]]" reset_error "[]"] by simp
  have p: "plain reset_error" by (simp add: plain_def reset_error_def ErrDial_def ErrSend_def ErrReceive_def ErrBadRequest_def)
  have e: "receive_error [0, 4, 0, 7, 1] reset_error = Some (ErrWrap ''read message failed'' reset_error)"
    by (simp add: receive_error_def cut_short_def reset_error_def)
  have a: "errors_as f reset_error = f reset_error" for f :: "err \<Rightarrow> nat option" by (simp add: reset_error_def)
  show ?thesis
    unfolding demo_mk_def
    using connectivity_names_the_step [OF q req _ _ _ n p lib refl, of sink_write
        "\<lambda>n. if n = 104 then ''ECONNRESET'' else []" "\<lambda>e. if e = reset_error then Some 104 else None" "\<lambda>_. None" 0 None] e
    by (simp add: put_u16_def posix_name_def a)
qed

end
