(* ===== verification/Report.thy ===== *)
theory Report
  imports Complex_Main GoNet
begin

text \<open>
  Collectors of reports (\<^verbatim>\<open>x/report/report.go\<close>): the one that posts to a server, and the ones around others that sample,
  retry and fall back. A collector is a function of a state, that of the world it reports to. The lemmas say how often a
  report is sent and which failures are noticed.
\<close>

section \<open>Collectors\<close>

type_synonym ('s, 'r) collector = "'s \<Rightarrow> 'r \<Rightarrow> 's \<times> err option"

text \<open>A \<^verbatim>\<open>BadRequestError\<close> is a wrapped error with this tag; \<^verbatim>\<open>errors.As\<close> looks for it along the chain.\<close>

definition bad_request_tag :: string where "bad_request_tag = ''BadRequestError''"

definition BadRequestError :: "err \<Rightarrow> err" where
  "BadRequestError e = ErrWrap bad_request_tag e"

fun is_bad_request :: "err \<Rightarrow> bool" where
  "is_bad_request (ErrWrap m e) = (m = bad_request_tag \<or> is_bad_request e)"
| "is_bad_request (ErrJoin es) = (\<exists>e \<in> set es. is_bad_request e)"
| "is_bad_request (ErrNested i e) = (is_bad_request i \<or> is_bad_request e)"
| "is_bad_request _ = False"

text \<open>
  The server: \<open>post\<close> is the round trip of the HTTP client with the JSON of the report, which gives an error, or a status and the
  error of reading the body; \<open>marshal\<close> is \<^verbatim>\<open>json.Marshal\<close>.
\<close>

definition sendReport :: "('s \<Rightarrow> bytes \<Rightarrow> 's \<times> (err + nat \<times> err option)) \<Rightarrow> 's \<Rightarrow> bytes \<Rightarrow> 's \<times> err option" where
  "sendReport post s jsonData =
     (case post s jsonData of
        (s', Inl e) \<Rightarrow> (s', Some e)
      | (s', Inr (_, Some e)) \<Rightarrow> (s', Some e)
      | (s', Inr (status, None)) \<Rightarrow>
          (s', if 400 \<le> status \<and> status < 500
               then Some (BadRequestError (ErrNew (''http request failed with status code '' @ itoa status))) else None))"

definition remote_collect ::
  "('r \<Rightarrow> err + bytes) \<Rightarrow> ('s \<Rightarrow> bytes \<Rightarrow> 's \<times> (err + nat \<times> err option)) \<Rightarrow> ('s, 'r) collector" where
  "remote_collect marshal post s report =
     (case marshal report of
        Inl e \<Rightarrow> (s, Some (ErrWrap ''failed to marshal JSON'' e))
      | Inr jsonData \<Rightarrow> (case sendReport post s jsonData of (s', Some e) \<Rightarrow> (s', Some e) | (s', None) \<Rightarrow> (s', None)))"

text \<open>
  Sampling: \<open>success\<close> is \<^verbatim>\<open>IsSuccess\<close>, if the report has it; \<open>random\<close> is the number that \<^verbatim>\<open>rand.Float64\<close> gives, at least 0 and less
  than 1.
\<close>

definition sampling_collect ::
  "('s, 'r) collector \<Rightarrow> rat \<Rightarrow> rat \<Rightarrow> ('r \<Rightarrow> bool option) \<Rightarrow> rat \<Rightarrow> ('s, 'r) collector" where
  "sampling_collect c successFraction failureFraction success random s report =
     (case success report of
        None \<Rightarrow> (s, None)
      | Some ok \<Rightarrow>
          (let samplingRate = (if ok then successFraction else failureFraction) in
           if random < samplingRate then c s report else (s, None)))"

text \<open>
  Retrying: the attempts \<open>i\<close> up to \<^verbatim>\<open>MaxRetry\<close>, \<open>n\<close> of them left, and the times slept, in order. A duration is a signed word of 64
  bits, so \<open>2\<^sup>i\<close> times the first delay wraps (\<open>i\<close> is less than 63).
\<close>

definition backoff :: "nat \<Rightarrow> 64 word \<Rightarrow> int" where
  "backoff i initialDelay = sint (2 ^ i * initialDelay)"

fun retry_loop :: "('s, 'r) collector \<Rightarrow> 64 word \<Rightarrow> nat \<Rightarrow> nat \<Rightarrow> 's \<times> int list \<Rightarrow> 'r \<Rightarrow> ('s \<times> int list) \<times> err option" where
  "retry_loop c d i 0 st report = (st, Some (ErrNew ''max retry exceeded''))"
| "retry_loop c d i (Suc n) st report =
     (case c (fst st) report of
        (s', None) \<Rightarrow> ((s', snd st), None)
      | (s', Some e) \<Rightarrow>
          if is_bad_request e then ((s', snd st), Some (ErrNew ''max retry exceeded''))
          else retry_loop c d (Suc i) n (s', snd st @ [backoff i d]) report)"

definition retry_collect :: "('s, 'r) collector \<Rightarrow> int \<Rightarrow> 64 word \<Rightarrow> ('s \<times> int list, 'r) collector" where
  "retry_collect c maxRetry initialDelay st report = retry_loop c initialDelay 0 (nat (maxRetry + 1)) st report"

fun fallback_collect :: "('s, 'r) collector list \<Rightarrow> ('s, 'r) collector" where
  "fallback_collect [] s report = (s, Some (ErrNew ''all collectors failed''))"
| "fallback_collect (c # cs) s report =
     (case c s report of (s', None) \<Rightarrow> (s', None) | (s', Some _) \<Rightarrow> fallback_collect cs s' report)"

definition write_collect :: "('r \<Rightarrow> err + bytes) \<Rightarrow> 's writer \<Rightarrow> ('s, 'r) collector" where
  "write_collect marshal wr s report =
     (case marshal report of
        Inl e \<Rightarrow> (s, Some (ErrWrap ''failed to marshal JSON'' e))
      | Inr jsonData \<Rightarrow> (case wr s (jsonData @ [10]) of (s', _, Some e) \<Rightarrow> (s', Some e) | (s', _, None) \<Rightarrow> (s', None)))"

section \<open>How often a report is sent\<close>

text \<open>A collector that follows a list of outcomes, one per attempt, and then succeeds.\<close>

fun scripted :: "err option list \<times> nat \<Rightarrow> 'r \<Rightarrow> (err option list \<times> nat) \<times> err option" where
  "scripted ([], k) r = (([], Suc k), None)"
| "scripted (x # xs, k) r = ((xs, Suc k), x)"

lemma retry_loop_fails:
  assumes "\<forall>e \<in> set es. \<not> is_bad_request e" "length es \<le> n"
  shows "retry_loop scripted d i n ((map Some es @ rest, k), sl) r
     = retry_loop scripted d (i + length es) (n - length es) ((rest, k + length es), sl @ map (\<lambda>j. backoff (i + j) d) [0..<length es]) r"
  using assms
proof (induction es arbitrary: i n k sl)
  case (Cons e es)
  obtain n' where n: "n = Suc n'" using Cons.prems(2) by (cases n) auto
  have u: "map (\<lambda>j. backoff (i + j) d) [0..<Suc (length es)] = backoff i d # map (\<lambda>j. backoff (Suc i + j) d) [0..<length es]"
    by (simp add: map_upt_Suc del: upt_Suc)
  show ?case using Cons n by (simp add: u del: upt_Suc)
qed simp

text \<open>
  The retrying collector makes attempts until one succeeds or is a bad request, at most \<^verbatim>\<open>MaxRetry + 1\<close> of them, and sleeps
  after each other failure, twice as long each time; it also sleeps after the last one, when no attempt follows.
\<close>

theorem retry_attempts:
  assumes "\<forall>e \<in> set es. \<not> is_bad_request e" "0 \<le> maxRetry"
  shows "retry_collect scripted maxRetry d ((map Some es @ out # rest, 0), []) r =
     (if int (length es) > maxRetry
      then (((drop (nat maxRetry + 1) (map Some es @ out # rest), nat maxRetry + 1), map (\<lambda>j. backoff j d) [0..<nat maxRetry + 1]),
            Some (ErrNew ''max retry exceeded''))
      else case out of
        None \<Rightarrow> (((rest, length es + 1), map (\<lambda>j. backoff j d) [0..<length es]), None)
      | Some e \<Rightarrow>
          if is_bad_request e
          then (((rest, length es + 1), map (\<lambda>j. backoff j d) [0..<length es]), Some (ErrNew ''max retry exceeded''))
          else retry_loop scripted d (length es + 1) (nat maxRetry - length es) ((rest, length es + 1), map (\<lambda>j. backoff j d) [0..<length es + 1]) r)"
proof (cases "int (length es) > maxRetry")
  case True
  define n where "n = nat maxRetry + 1"
  have n: "nat (maxRetry + 1) = n" "n \<le> length es" using True assms(2) by (auto simp: n_def nat_add_distrib)
  let ?os = "map Some es @ out # rest"
  have os: "map Some (take n es) @ drop n ?os = ?os" using n(2) by (simp add: take_map [symmetric])
  have "\<forall>e \<in> set (take n es). \<not> is_bad_request e" using assms(1) set_take_subset by fast
  then have "retry_loop scripted d 0 n ((?os, 0), []) r
      = (((drop n ?os, n), map (\<lambda>j. backoff j d) [0..<n]), Some (ErrNew ''max retry exceeded''))"
    using retry_loop_fails [of "take n es" n d 0 "drop n ?os" 0 "[]" r, unfolded os] n(2) by (simp add: min_absorb2)
  then show ?thesis using True n(1) unfolding retry_collect_def n_def [symmetric] by simp
next
  case False
  define n where "n = nat maxRetry - length es"
  have n: "nat (maxRetry + 1) - length es = Suc n" "length es \<le> nat (maxRetry + 1)"
    using False assms(2) by (auto simp: n_def nat_add_distrib)
  show ?thesis
    using retry_loop_fails [OF assms(1) n(2), of d 0 "out # rest" 0 "[]" r] False n(1)
    by (simp add: retry_collect_def n_def [symmetric] split: option.split)
qed

theorem retry_attempts_witness:
  "retry_collect scripted 2 5 (([Some EOF, None], 0), []) () = ((([], 2), [5]), None)"
  using retry_attempts [of "[EOF]" 2 5 None "[]" "()"] by (simp add: backoff_def)

text \<open>
  A server that answers with a status that is no client error, a failure of the server included, counts as a success: there
  is no second attempt and no fallback, and the report is lost without an error.
\<close>

theorem server_error_not_retried:
  assumes "post s json = (s', Inr (status, None))" "marshal report = Inr json" "status < 400 \<or> 500 \<le> status" "0 \<le> maxRetry"
  shows "retry_collect (remote_collect marshal post) maxRetry d (s, []) report = ((s', []), None)
    \<and> fallback_collect (remote_collect marshal post # cs) s report = (s', None)"
proof -
  have r: "remote_collect marshal post s report = (s', None)"
    using assms by (auto simp: remote_collect_def sendReport_def)
  have "nat (maxRetry + 1) = Suc (nat maxRetry)" using assms(4) by simp
  then show ?thesis using r by (simp add: retry_collect_def)
qed

theorem server_error_not_retried_witness:
  "retry_collect (remote_collect (\<lambda>_. Inr [1]) (\<lambda>s b. (s @ [b], Inr (503, None)))) 3 1 ([], []) () = (([[1 :: byte]], []), None)"
  using server_error_not_retried [of "\<lambda>s b. (s @ [b], Inr (503, None))" "[]" "[1]" "[[1]]" 503 "\<lambda>_. Inr [1]" "()" 3 1 "[]"]
  by simp

text \<open>Sampling: never with a rate of 0, always with a rate of 1, and reports that have no success never.\<close>

lemma sampling_extremes:
  assumes "0 \<le> random" "random < 1"
  shows "success report = None \<Longrightarrow> sampling_collect c f g success random s report = (s, None)"
    and "success report = Some True \<Longrightarrow> sampling_collect c 1 g success random s report = c s report"
    and "success report = Some False \<Longrightarrow> sampling_collect c f 0 success random s report = (s, None)"
  using assms by (simp_all add: sampling_collect_def)

text \<open>Falling back: the collectors up to the first one that takes the report, no one after it.\<close>

lemma fallback_first:
  "\<forall>c \<in> set cs. \<forall>s. \<exists>e. c s report = (s, Some e) \<Longrightarrow> c s report = (s', None) \<Longrightarrow>
   fallback_collect (cs @ c # ds) s report = (s', None)"
proof (induction cs)
  case (Cons a cs)
  obtain e where "a s report = (s, Some e)" using Cons.prems(1) by (metis list.set_intros(1))
  then show ?case using Cons by simp
qed simp

end
