(* ===== verification/LwipTcp.thy ===== *)
theory LwipTcp
  imports GoNet
begin

text \<open>
  The TCP handler of the IP stack (\<^verbatim>\<open>network/lwip2transport/tcp.go\<close>): it dials the target and relays both directions, each by a
  goroutine of its own, until both have ended. The lemmas show that each end of a stream is passed on by itself, and what the relay
  returns.
\<close>

section \<open>One direction\<close>

text \<open>
  \<^verbatim>\<open>copyOneWay(leftConn, rightConn)\<close>: what the source (\<^verbatim>\<open>rightConn\<close>) has sent and the copy has not read, whether it has ended, what
  the destination (\<^verbatim>\<open>leftConn\<close>) got, the calls of \<^verbatim>\<open>CloseWrite\<close> and \<^verbatim>\<open>CloseRead\<close>, and the result once it has returned.
\<close>

record one_way =
  ow_in :: "bytes list"
  ow_end :: bool
  ow_got :: bytes
  ow_wclosed :: bool
  ow_rclosed :: bool
  ow_result :: "(nat \<times> err option) option"

definition one_way_init :: one_way where
  "one_way_init = \<lparr>ow_in = [], ow_end = False, ow_got = [], ow_wclosed = False, ow_rclosed = False, ow_result = None\<rparr>"

definition copy_returns :: "err option \<Rightarrow> one_way \<Rightarrow> one_way" where
  "copy_returns e w = w\<lparr>ow_wclosed := True, ow_rclosed := True, ow_result := Some (length (ow_got w), e)\<rparr>"

text \<open>The source sends or ends; the copy passes a piece on, or ends with the source; or it fails, with part of a piece written.\<close>

datatype way_event = Sends bytes | Ends | Copies | Fails nat err

fun way_step :: "way_event \<Rightarrow> one_way \<Rightarrow> one_way option" where
  "way_step (Sends p) w = (if ow_end w \<or> ow_rclosed w then None else Some (w\<lparr>ow_in := ow_in w @ [p]\<rparr>))"
| "way_step Ends w = (if ow_end w then None else Some (w\<lparr>ow_end := True\<rparr>))"
| "way_step Copies w =
     (if ow_result w \<noteq> None then None
      else case ow_in w of
             p # q \<Rightarrow> Some (w\<lparr>ow_in := q, ow_got := ow_got w @ p\<rparr>)
           | [] \<Rightarrow> if ow_end w then Some (copy_returns None w) else None)"
| "way_step (Fails k e) w =
     (if ow_result w \<noteq> None then None
      else case ow_in w of
             p # q \<Rightarrow> Some (copy_returns (Some e) (w\<lparr>ow_in := drop k p # q, ow_got := ow_got w @ take k p\<rparr>))
           | [] \<Rightarrow> Some (copy_returns (Some e) w))"

section \<open>The relay\<close>

text \<open>
  Both directions and what \<^verbatim>\<open>relay\<close> has returned: the bytes copied to the left and to the right, and an error. It returns when its own
  copy (\<open>rl_left\<close>) has ended and the other goroutine has sent its result.
\<close>

record tcp_relay =
  rl_left :: one_way
  rl_right :: one_way
  rl_result :: "(nat \<times> nat \<times> err option) option"

definition tcp_relay_init :: tcp_relay where
  "tcp_relay_init = \<lparr>rl_left = one_way_init, rl_right = one_way_init, rl_result = None\<rparr>"

datatype relay_event = ToLeft way_event | ToRight way_event | RelayReturns

fun tcp_relay_step :: "relay_event \<Rightarrow> tcp_relay \<Rightarrow> tcp_relay option" where
  "tcp_relay_step (ToLeft e) r = map_option (\<lambda>w. r\<lparr>rl_left := w\<rparr>) (way_step e (rl_left r))"
| "tcp_relay_step (ToRight e) r = map_option (\<lambda>w. r\<lparr>rl_right := w\<rparr>) (way_step e (rl_right r))"
| "tcp_relay_step RelayReturns r =
     (case (rl_result r, ow_result (rl_left r), ow_result (rl_right r)) of
        (None, Some (n, e), Some (m, e')) \<Rightarrow> Some (r\<lparr>rl_result := Some (n, m, if e = None then e' else e)\<rparr>)
      | _ \<Rightarrow> None)"

fun tcp_relay_run :: "relay_event list \<Rightarrow> tcp_relay \<Rightarrow> tcp_relay option" where
  "tcp_relay_run [] r = Some r"
| "tcp_relay_run (e # es) r = (case tcp_relay_step e r of None \<Rightarrow> None | Some r' \<Rightarrow> tcp_relay_run es r')"

text \<open>\<^verbatim>\<open>Handle\<close>: the relay starts if the dial succeeds.\<close>

definition tcp_Handle :: "(string \<Rightarrow> err + 'c) \<Rightarrow> ('a \<Rightarrow> string) \<Rightarrow> 'a \<Rightarrow> (tcp_relay \<times> 'c) option \<times> err option" where
  "tcp_Handle dialer target_string target =
     (case dialer (target_string target) of
        Inl e \<Rightarrow> (None, Some e)
      | Inr proxyConn \<Rightarrow> (Some (tcp_relay_init, proxyConn), None))"

section \<open>What is relayed\<close>

fun way_sent :: "way_event list \<Rightarrow> bytes" where
  "way_sent [] = []"
| "way_sent (Sends p # es) = p @ way_sent es"
| "way_sent (_ # es) = way_sent es"

fun way_run :: "way_event list \<Rightarrow> one_way \<Rightarrow> one_way option" where
  "way_run [] w = Some w"
| "way_run (e # es) w = (case way_step e w of None \<Rightarrow> None | Some w' \<Rightarrow> way_run es w')"

fun left_events :: "relay_event list \<Rightarrow> way_event list" where
  "left_events [] = []"
| "left_events (ToLeft e # es) = e # left_events es"
| "left_events (_ # es) = left_events es"

fun right_events :: "relay_event list \<Rightarrow> way_event list" where
  "right_events [] = []"
| "right_events (ToRight e # es) = e # right_events es"
| "right_events (_ # es) = right_events es"

text \<open>The two directions do not depend on each other.\<close>

lemma relay_run_ways:
  "tcp_relay_run es r = Some r' \<Longrightarrow>
   way_run (left_events es) (rl_left r) = Some (rl_left r') \<and> way_run (right_events es) (rl_right r) = Some (rl_right r')"
proof (induction es arbitrary: r)
  case (Cons e es)
  then show ?case by (cases e) (fastforce split: option.splits prod.splits)+
qed simp

definition way_inv :: "bytes \<Rightarrow> one_way \<Rightarrow> bool" where
  "way_inv S w \<longleftrightarrow>
     ow_got w @ concat (ow_in w) = S
     \<and> ow_wclosed w = (ow_result w \<noteq> None) \<and> ow_rclosed w = (ow_result w \<noteq> None)
     \<and> (\<forall>n e. ow_result w = Some (n, e) \<longrightarrow> n = length (ow_got w) \<and> (e = None \<longrightarrow> ow_end w \<and> ow_in w = []))"

lemma way_inv_step:
  "way_step e w = Some w' \<Longrightarrow> way_inv S w \<Longrightarrow> way_inv (S @ way_sent [e]) w'"
  by (cases e) (auto simp: way_inv_def copy_returns_def split: if_splits list.splits)

lemma way_inv_run: "way_run es w = Some w' \<Longrightarrow> way_inv S w \<Longrightarrow> way_inv (S @ way_sent es) w'"
proof (induction es arbitrary: w S)
  case (Cons e es)
  obtain w1 where w1: "way_step e w = Some w1" "way_run es w1 = Some w'" using Cons.prems(1) by (auto split: option.splits)
  have "way_sent [e] @ way_sent es = way_sent (e # es)" by (cases e) simp_all
  then show ?case using Cons.IH [OF w1(2) way_inv_step [OF w1(1) Cons.prems(2)]] by simp
qed simp

lemma way_inv_init: "way_inv [] one_way_init"
  by (simp add: way_inv_def one_way_init_def)

text \<open>What the relay has returned are the results of both copies; the error of its own copy comes first.\<close>

definition relay_result_ok :: "tcp_relay \<Rightarrow> bool" where
  "relay_result_ok r \<longleftrightarrow>
     (\<forall>n m e. rl_result r = Some (n, m, e) \<longrightarrow>
        (\<exists>el er. ow_result (rl_left r) = Some (n, el) \<and> ow_result (rl_right r) = Some (m, er) \<and> e = (if el = None then er else el)))"

lemma way_result_stays: "way_step x w = Some w' \<Longrightarrow> ow_result w = Some y \<Longrightarrow> ow_result w' = Some y"
  by (cases x) (auto split: if_splits)

lemma relay_result_step:
  assumes "tcp_relay_step e r = Some r'" "relay_result_ok r"
  shows "relay_result_ok r'"
proof (cases e)
  case RelayReturns
  then show ?thesis using assms by (auto simp: relay_result_ok_def split: option.splits prod.splits)
qed (use assms way_result_stays in \<open>fastforce simp: relay_result_ok_def\<close>)+

lemma relay_result_run: "tcp_relay_run es r = Some r' \<Longrightarrow> relay_result_ok r \<Longrightarrow> relay_result_ok r'"
  by (induction es arbitrary: r) (auto split: option.splits intro: relay_result_step)

text \<open>
  In every interleaving each side gets a prefix of what the other one sent, its write end is closed only when the copy has
  ended, and if the relay returns without an error both sides have ended and have got everything, and the counts are those of the bytes.
\<close>

theorem tcp_relay_delivers:
  assumes "tcp_relay_run es tcp_relay_init = Some r"
  shows "ow_got (rl_left r) @ concat (ow_in (rl_left r)) = way_sent (left_events es)
    \<and> ow_got (rl_right r) @ concat (ow_in (rl_right r)) = way_sent (right_events es)
    \<and> (\<forall>n m. rl_result r = Some (n, m, None) \<longrightarrow>
         ow_end (rl_left r) \<and> ow_got (rl_left r) = way_sent (left_events es) \<and> n = length (way_sent (left_events es))
         \<and> ow_end (rl_right r) \<and> ow_got (rl_right r) = way_sent (right_events es) \<and> m = length (way_sent (right_events es))
         \<and> ow_wclosed (rl_left r) \<and> ow_rclosed (rl_left r) \<and> ow_wclosed (rl_right r) \<and> ow_rclosed (rl_right r))"
proof -
  note w = relay_run_ways [OF assms, unfolded tcp_relay_init_def, simplified]
  have l: "way_inv (way_sent (left_events es)) (rl_left r)" using way_inv_run [OF conjunct1 [OF w] way_inv_init] by simp
  have r: "way_inv (way_sent (right_events es)) (rl_right r)" using way_inv_run [OF conjunct2 [OF w] way_inv_init] by simp
  have "relay_result_ok r" using relay_result_run [OF assms] by (simp add: relay_result_ok_def tcp_relay_init_def)
  then have ok: "ow_result (rl_left r) = Some (n, None) \<and> ow_result (rl_right r) = Some (m, None)" if "rl_result r = Some (n, m, None)" for n m
    using that by (fastforce simp: relay_result_ok_def split: if_splits)
  show ?thesis using l r ok by (fastforce simp: way_inv_def)
qed

text \<open>
  C25: the end of one side is passed on whatever the other direction does: once the left source has ended, as many steps of its
  copy as there are pieces waiting, and one more, close the write end of the destination with everything delivered.
\<close>

theorem tcp_relay_half_close:
  assumes "tcp_relay_run es tcp_relay_init = Some r" "ow_end (rl_left r)" "ow_result (rl_left r) = None"
  shows "\<exists>r'. tcp_relay_run (replicate (Suc (length (ow_in (rl_left r)))) (ToLeft Copies)) r = Some r'
    \<and> ow_wclosed (rl_left r') \<and> ow_got (rl_left r') = way_sent (left_events es) \<and> rl_right r' = rl_right r"
proof -
  have copies: "\<exists>r'. tcp_relay_run (replicate (Suc (length (ow_in (rl_left r)))) (ToLeft Copies)) r = Some r'
      \<and> ow_wclosed (rl_left r') \<and> ow_got (rl_left r') = ow_got (rl_left r) @ concat (ow_in (rl_left r)) \<and> rl_right r' = rl_right r"
    if "ow_end (rl_left r)" "ow_result (rl_left r) = None" for r
    using that
  proof (induction "ow_in (rl_left r)" arbitrary: r)
    case Nil
    then show ?case by (simp add: Nil(1) [symmetric] copy_returns_def)
  next
    case (Cons p q)
    let ?r = "r\<lparr>rl_left := (rl_left r)\<lparr>ow_in := q, ow_got := ow_got (rl_left r) @ p\<rparr>\<rparr>"
    have s: "tcp_relay_step (ToLeft Copies) r = Some ?r" using Cons.hyps(2) [symmetric] Cons.prems by simp
    obtain r' where "tcp_relay_run (replicate (Suc (length q)) (ToLeft Copies)) ?r = Some r'"
      "ow_wclosed (rl_left r')" "ow_got (rl_left r') = ow_got (rl_left r) @ p @ concat q" "rl_right r' = rl_right r"
      using Cons.hyps(1) [of ?r] Cons.prems by (auto simp del: tcp_relay_run.simps replicate_Suc)
    moreover have "tcp_relay_run (replicate (Suc (length (p # q))) (ToLeft Copies)) r
        = tcp_relay_run (replicate (Suc (length q)) (ToLeft Copies)) ?r"
      using s by (simp del: tcp_relay_step.simps replicate_Suc add: replicate_Suc [of "Suc (length q)"])
    ultimately show ?case using Cons.hyps(2) [symmetric] by (simp del: tcp_relay_run.simps replicate_Suc)
  qed
  note w = relay_run_ways [OF assms(1), unfolded tcp_relay_init_def, simplified]
  have "way_inv (way_sent (left_events es)) (rl_left r)" using way_inv_run [OF conjunct1 [OF w] way_inv_init] by simp
  then show ?thesis using copies [OF assms(2,3)] by (simp add: way_inv_def)
qed

theorem tcp_relay_delivers_witness:
  "\<exists>r. tcp_relay_run [ToLeft (Sends [1, 2]), ToLeft Ends, ToLeft Copies, ToLeft Copies, ToRight (Sends [3]), ToRight Copies,
      ToRight Ends, ToRight Copies, RelayReturns] tcp_relay_init = Some r
     \<and> rl_result r = Some (2, 1, None) \<and> ow_got (rl_left r) = [1, 2] \<and> ow_got (rl_right r) = [3]"
proof -
  let ?es = "[ToLeft (Sends [1, 2]), ToLeft Ends, ToLeft Copies, ToLeft Copies, ToRight (Sends [3]), ToRight Copies,
      ToRight Ends, ToRight Copies, RelayReturns]"
  obtain r where r: "tcp_relay_run ?es tcp_relay_init = Some r" "rl_result r = Some (2, 1, None)"
    by (simp add: tcp_relay_init_def one_way_init_def copy_returns_def)
  then show ?thesis using tcp_relay_delivers [OF r(1)] by simp
qed

theorem tcp_relay_half_close_witness:
  "\<exists>r r'. tcp_relay_run [ToRight (Sends [9]), ToLeft (Sends [1, 2]), ToLeft Ends] tcp_relay_init = Some r
     \<and> tcp_relay_run [ToLeft Copies, ToLeft Copies] r = Some r' \<and> ow_wclosed (rl_left r') \<and> ow_got (rl_left r') = [1, 2]
     \<and> ow_result (rl_right r') = None"
proof -
  let ?es = "[ToRight (Sends [9]), ToLeft (Sends [1, 2]), ToLeft Ends]"
  obtain r where r: "tcp_relay_run ?es tcp_relay_init = Some r" "ow_end (rl_left r)" "ow_result (rl_left r) = None"
    "length (ow_in (rl_left r)) = 1" "ow_result (rl_right r) = None"
    by (simp add: tcp_relay_init_def one_way_init_def)
  then show ?thesis using tcp_relay_half_close [OF r(1-3)] by (auto simp: numeral_2_eq_2 simp del: tcp_relay_run.simps)
qed

end
