(* ===== verification/Turn.thy ===== *)
theory Turn
  imports TransportConn
begin

text \<open>
  The TURN client (\<^verbatim>\<open>x/turn/turn.go\<close>): a packet listener that tunnels to one peer through a relay server. The TURN and DTLS
  protocols are libraries; the model has the steps of \<^verbatim>\<open>ListenPacket\<close> with what each opens and closes, and the wrappers that pin the
  connection to the peer. The lemmas show that no failure leaves anything open, and what the wrappers send and let through.
\<close>

section \<open>Configuration\<close>

text \<open>Times are in seconds; zero means the default.\<close>

record turn_config =
  tc_server :: string
  tc_username :: string
  tc_password :: string
  tc_realm :: string
  tc_peer :: "(bytes \<times> nat) option"
  tc_tcp :: bool
  tc_dtls :: bool
  tc_dialTimeout :: nat
  tc_handshakeTimeout :: nat

definition defaultDialTimeout :: nat where "defaultDialTimeout = 5"

definition defaultHandshakeTimeout :: nat where "defaultHandshakeTimeout = 10"

definition turn_NewPacketListener :: "turn_config \<Rightarrow> err + turn_config" where
  "turn_NewPacketListener cfg =
     (if tc_server cfg = [] then Inl (ErrNew ''turn: server address is required'')
      else if tc_username cfg = [] \<or> tc_password cfg = [] then Inl (ErrNew ''turn: username and password are required'')
      else if tc_peer cfg = None then Inl (ErrNew ''turn: peer is required'')
      else case split_host_port (tc_server cfg) of
             Inl e \<Rightarrow> Inl (ErrWrap ''turn: parse server address'' e)
           | Inr _ \<Rightarrow> Inr cfg)"

section \<open>ListenPacket\<close>

text \<open>What it opens; the DTLS connection is over the relay.\<close>

datatype turn_resource = TurnTransport | TurnClient | TurnRelay | TurnDTLS

text \<open>
  How its steps go: resolving the server, connecting (with the timeout of the dial), \<^verbatim>\<open>NewClient\<close>, \<^verbatim>\<open>Listen\<close>,
  \<^verbatim>\<open>Allocate\<close>, \<^verbatim>\<open>CreatePermission\<close>, the certificate and the handshake of DTLS (with its timeout).
\<close>

record turn_steps =
  ts_resolve :: "err option"
  ts_connect :: "bool \<Rightarrow> nat \<Rightarrow> err option"
  ts_client :: "err option"
  ts_listen :: "err option"
  ts_allocate :: "err option"
  ts_permission :: "err option"
  ts_cert :: "err option"
  ts_handshake :: "nat \<Rightarrow> err option"

definition dialDTLS :: "turn_steps \<Rightarrow> nat \<Rightarrow> err option" where
  "dialDTLS st handshakeTimeout =
     (case ts_cert st of
        Some e \<Rightarrow> Some (ErrWrap ''self-signed cert'' e)
      | None \<Rightarrow> ts_handshake st (if handshakeTimeout = 0 then defaultHandshakeTimeout else handshakeTimeout))"

definition closeAll :: "turn_resource list" where
  "closeAll = [TurnRelay, TurnClient, TurnTransport]"

text \<open>What was opened and what was closed, in order; and the error, or what \<^verbatim>\<open>Close\<close> of the connection closes, in order.\<close>

definition turn_ListenPacket ::
  "turn_steps \<Rightarrow> turn_config \<Rightarrow> turn_resource list \<times> turn_resource list \<times> (err + turn_resource list)" where
  "turn_ListenPacket st cfg =
     (case ts_resolve st of
        Some e \<Rightarrow> ([], [], Inl (ErrWrap ''turn: resolve server'' e))
      | None \<Rightarrow>
     (case ts_connect st (tc_tcp cfg) (if tc_dialTimeout cfg = 0 then defaultDialTimeout else tc_dialTimeout cfg) of
        Some e \<Rightarrow> ([], [], Inl (ErrWrap (if tc_tcp cfg then ''turn: dial TCP'' else ''turn: listen UDP'') e))
      | None \<Rightarrow>
     (case ts_client st of
        Some e \<Rightarrow> ([TurnTransport], [TurnTransport], Inl (ErrWrap ''turn: new client'' e))
      | None \<Rightarrow>
     (case ts_listen st of
        Some e \<Rightarrow> ([TurnTransport, TurnClient], [TurnClient, TurnTransport], Inl (ErrWrap ''turn: listen'' e))
      | None \<Rightarrow>
     (case ts_allocate st of
        Some e \<Rightarrow> ([TurnTransport, TurnClient], [TurnClient, TurnTransport], Inl (ErrWrap ''turn: allocate'' e))
      | None \<Rightarrow>
     (case ts_permission st of
        Some e \<Rightarrow> ([TurnTransport, TurnClient, TurnRelay], [TurnRelay, TurnClient, TurnTransport], Inl (ErrWrap ''turn: create permission'' e))
      | None \<Rightarrow>
          if \<not> tc_dtls cfg
          then ([TurnTransport, TurnClient, TurnRelay], [], Inr (TurnRelay # closeAll))
          else case dialDTLS st (tc_handshakeTimeout cfg) of
                 Some e \<Rightarrow> ([TurnTransport, TurnClient, TurnRelay], closeAll, Inl (ErrWrap ''turn: DTLS handshake'' e))
               | None \<Rightarrow> ([TurnTransport, TurnClient, TurnRelay, TurnDTLS], [], Inr (TurnDTLS # closeAll))))))))"

text \<open>
  C31: whatever step of \<^verbatim>\<open>ListenPacket\<close> fails, everything that was opened is closed, each once and the last opened first; on
  success nothing is closed, and \<^verbatim>\<open>Close\<close> of the connection closes all of it.
\<close>

theorem turn_no_leak:
  "case turn_ListenPacket st cfg of
     (opened, closed, Inl _) \<Rightarrow> closed = rev opened
   | (opened, closed, Inr cl) \<Rightarrow> closed = [] \<and> set cl = set opened \<and> set opened \<supseteq> {TurnTransport, TurnClient, TurnRelay}"
  by (auto simp: turn_ListenPacket_def closeAll_def split: option.split)

text \<open>\<^verbatim>\<open>Close\<close> of the connection: the inner connection, then the rest; the first error of the two parts is returned.\<close>

definition cleanup_Close :: "err option \<Rightarrow> err option \<Rightarrow> err option" where
  "cleanup_Close innerErr cleanupErr = (if innerErr \<noteq> None then innerErr else cleanupErr)"

definition closeAll_err :: "err option \<Rightarrow> err option \<Rightarrow> err option" where
  "closeAll_err relayErr transportErr =
     (let firstErr = relayErr in
      case transportErr of Some e \<Rightarrow> if firstErr = None then Some e else firstErr | None \<Rightarrow> firstErr)"

text \<open>
  Without DTLS the inner connection is the relay itself, which is closed twice: if the second \<^verbatim>\<open>Close\<close> fails, as it does for a
  closed connection, so does \<^verbatim>\<open>Close\<close>, although everything is closed.
\<close>

lemma turn_close_reports_second_close:
  "cleanup_Close None (closeAll_err (Some e) t) = Some e"
  by (cases t) (simp_all add: cleanup_Close_def closeAll_err_def)

section \<open>The pinned connection\<close>

type_synonym udp_addr = "bytes \<times> nat"

definition pinned_WriteTo :: "'s packet_write \<Rightarrow> udp_addr \<Rightarrow> 's packet_write" where
  "pinned_WriteTo wt peer s p _ = wt s p (UDPAddr (fst peer) (snd peer))"

text \<open>
  \<^verbatim>\<open>boundDTLSConn.Read\<close>: packets of other UDP addresses are dropped, those of addresses of another kind are not. \<open>None\<close> is "does not
  return".
\<close>

definition ip_equal :: "bytes \<Rightarrow> bytes \<Rightarrow> bool" where
  "ip_equal a b = (if to4 a \<noteq> None \<and> to4 b \<noteq> None then to4 a = to4 b else a = b)"

definition stray :: "udp_addr \<Rightarrow> net_addr \<Rightarrow> bool" where
  "stray peer a = (case a of UDPAddr ip port \<Rightarrow> \<not> ip_equal ip (fst peer) \<or> port \<noteq> snd peer | _ \<Rightarrow> False)"

partial_function (option) dtls_Read :: "'s packet_read \<Rightarrow> udp_addr \<Rightarrow> 's \<Rightarrow> nat \<Rightarrow> ('s \<times> (nat \<times> err + bytes)) option" where
  "dtls_Read rd peer s n =
     (case rd s n of
        (s', Inl (k, e)) \<Rightarrow> Some (s', Inl (k, e))
      | (s', Inr (p, a)) \<Rightarrow> if stray peer a then dtls_Read rd peer s' n else Some (s', Inr p))"

definition dtls_Write :: "'s packet_write \<Rightarrow> udp_addr \<Rightarrow> 's \<Rightarrow> bytes \<Rightarrow> 's \<times> nat \<times> err option" where
  "dtls_Write wt peer s p = wt s p (UDPAddr (fst peer) (snd peer))"

text \<open>The DTLS connection as a packet connection again: every address is the peer.\<close>

definition dtls_ReadFrom :: "('s \<Rightarrow> nat \<Rightarrow> 's \<times> (nat \<times> err + bytes)) \<Rightarrow> udp_addr \<Rightarrow> 's packet_read" where
  "dtls_ReadFrom rd peer s n =
     (case rd s n of (s', Inl x) \<Rightarrow> (s', Inl x) | (s', Inr p) \<Rightarrow> (s', Inr (p, UDPAddr (fst peer) (snd peer))))"

definition dtls_WriteTo :: "'s writer \<Rightarrow> 's packet_write" where
  "dtls_WriteTo wr s p _ = wr s p"

text \<open>What the reads of a queue of packets give the handshake: the first packet that is not a stray one.\<close>

lemma dtls_Read_queue:
  "dtls_Read (queue_read e) peer q n =
     Some (case dropWhile (\<lambda>(p, a). stray peer a) q of
             [] \<Rightarrow> ([], Inl (0, e))
           | (p, a) # q' \<Rightarrow> (q', Inr (take n p)))"
proof (induction q)
  case Nil
  show ?case by (subst dtls_Read.simps) simp
next
  case (Cons x q)
  then show ?case by (subst dtls_Read.simps) (cases x, simp)
qed

lemma bound_loop_foreign:
  assumes "bound_loop ip_str rd remote s n = Some y" "\<forall>s s' p a. rd s n = (s', Inr (p, a)) \<longrightarrow> net_addr_string ip_str a \<noteq> remote"
  shows "\<exists>x. snd y = Inl x"
proof -
  let ?P = "\<lambda>ip_str rd remote s n y.
     (\<forall>s s' p a. rd s n = (s', Inr (p, a)) \<longrightarrow> net_addr_string ip_str a \<noteq> remote) \<longrightarrow> (\<exists>x. snd y = Inl x)"
  have "?P ip_str rd remote s n y"
    by (rule bound_loop.raw_induct [where P = ?P, OF _ assms(1)]) (auto split: prod.splits sum.splits if_splits, blast)
  then show ?thesis using assms(2) by blast
qed

text \<open>
  Through \<^verbatim>\<open>PacketDialer\<close> and DTLS, whatever address is dialed, packets go to the peer of the configuration; and what the peer
  sends is read if the dialed address is that of the peer, and dropped without an error if it is not.
\<close>

theorem turn_dial_other_address:
  assumes "pl_DialPacket lookup_port parse_ip (\<lambda>_. Inr s) address = Inr c"
  shows "bound_Write (pinned_WriteTo wt peer) c p
       = (case wt s p (UDPAddr (fst peer) (snd peer)) of (s', n, e) \<Rightarrow> (c\<lparr>bp_conn := s'\<rparr>, n, e))
    \<and> (net_addr_string ip_str (bp_remote c) = net_addr_string ip_str (UDPAddr (fst peer) (snd peer)) \<longrightarrow>
         bound_Read ip_str (dtls_ReadFrom rd peer) c n = Some (case rd s n of (s', r) \<Rightarrow> (c\<lparr>bp_conn := s'\<rparr>, r)))
    \<and> (net_addr_string ip_str (bp_remote c) \<noteq> net_addr_string ip_str (UDPAddr (fst peer) (snd peer)) \<longrightarrow>
         bound_Read ip_str (dtls_ReadFrom rd peer) c n \<noteq> Some (c', Inr q))"
proof -
  have c: "bp_conn c = s" using assms by (auto simp: pl_DialPacket_def split: sum.splits)
  have w: "bound_Write (pinned_WriteTo wt peer) c p
       = (case wt s p (UDPAddr (fst peer) (snd peer)) of (s', n, e) \<Rightarrow> (c\<lparr>bp_conn := s'\<rparr>, n, e))"
    by (simp add: bound_Write_def pinned_WriteTo_def c)
  have r: "bound_Read ip_str (dtls_ReadFrom rd peer) c n = Some (case rd s n of (s', r) \<Rightarrow> (c\<lparr>bp_conn := s'\<rparr>, r))"
    if "net_addr_string ip_str (bp_remote c) = net_addr_string ip_str (UDPAddr (fst peer) (snd peer))"
    unfolding bound_Read_def c that
    by (subst bound_loop.simps) (auto simp: dtls_ReadFrom_def split: prod.split sum.split)
  have d: "bound_Read ip_str (dtls_ReadFrom rd peer) c n \<noteq> Some (c', Inr q)"
    if "net_addr_string ip_str (bp_remote c) \<noteq> net_addr_string ip_str (UDPAddr (fst peer) (snd peer))"
  proof
    assume "bound_Read ip_str (dtls_ReadFrom rd peer) c n = Some (c', Inr q)"
    then obtain s' where l: "bound_loop ip_str (dtls_ReadFrom rd peer) (net_addr_string ip_str (bp_remote c)) (bp_conn c) n = Some (s', Inr q)"
      by (auto simp: bound_Read_def)
    have "net_addr_string ip_str a \<noteq> net_addr_string ip_str (bp_remote c)" if "dtls_ReadFrom rd peer t n = (t', Inr (p, a))" for t t' p a
      using that \<open>net_addr_string ip_str (bp_remote c) \<noteq> net_addr_string ip_str (UDPAddr (fst peer) (snd peer))\<close>
      by (auto simp: dtls_ReadFrom_def split: prod.splits sum.splits)
    then show False using bound_loop_foreign [OF l] by auto
  qed
  show ?thesis using w r d by blast
qed

theorem turn_dial_other_address_witness:
  "bound_Read demo_ip_str (dtls_ReadFrom (\<lambda>s n. (s, Inr (take n [1, 2 :: byte]))) ([8, 8], 53)) \<lparr>bp_conn = (), bp_remote = UDPAddr [8, 8] 53\<rparr> 9
     = Some (\<lparr>bp_conn = (), bp_remote = UDPAddr [8, 8] 53\<rparr>, Inr [1, 2])"
proof -
  have d: "pl_DialPacket (\<lambda>_ p. parse_uint 16 p) (\<lambda>_. Some [8, 8]) (\<lambda>_. Inr ()) (join_host_port ''x'' (itoa 53))
      = Inr \<lparr>bp_conn = (), bp_remote = UDPAddr [8, 8] 53\<rparr>"
    by (simp add: pl_DialPacket_def MakeNetAddr_def split_join_host_port itoa_plain parse_uint_itoa)
  show ?thesis using turn_dial_other_address [OF d, of "\<lambda>s _ _. (s, 0, None)" "([8, 8], 53)" "[]" demo_ip_str "\<lambda>s n. (s, Inr (take n [1, 2]))" 9] by simp
qed

end
