(* ===== verification/Psiphon.thy ===== *)
theory Psiphon
  imports GoStrings
begin

text \<open>
  The Psiphon dialer (\<^verbatim>\<open>x/psiphon/psiphon.go\<close>): \<^verbatim>\<open>Start\<close> runs a tunnel in a goroutine that lives until it is stopped, and a
  second \<^verbatim>\<open>Start\<close> stops the first one before it starts its own. The critical sections of the goroutines and of \<^verbatim>\<open>Stop\<close> are
  the steps of one machine, in any order. The lemmas say which tunnels are open, which of them \<^verbatim>\<open>DialStream\<close> and \<^verbatim>\<open>Stop\<close>
  reach, and when one gets out of reach.
\<close>

section \<open>The machine\<close>

text \<open>
  A goroutine of \<^verbatim>\<open>Start\<close>: before its first critical section; with the \<^verbatim>\<open>stop\<close> of another one in hand, before and after it has
  cancelled that one; in \<^verbatim>\<open>startTunnel\<close>; waiting for \<^verbatim>\<open>Stop\<close>; ended.
\<close>

datatype start_pc = PsInit | PsStop nat | PsWait nat | PsStarting | PsRunning | PsEnded

text \<open>
  The function of \<^verbatim>\<open>context.AfterFunc\<close>: it waits for the end of the context of the start, it was started and is about to cancel, or it
  has cancelled or was detached before it was started.
\<close>

datatype after_func = AfWaiting | AfRunning | AfOver

text \<open>
  Its context of the start, its own context (\<^verbatim>\<open>dialerCtx\<close>), its tunnel, whether that is stopped, and the result of \<^verbatim>\<open>Start\<close>. Its
  \<^verbatim>\<open>tunnelDone\<close> is closed when it has ended.
\<close>

record start_call =
  st_pc :: start_pc
  st_ctxDone :: bool
  st_after :: after_func
  st_cancelled :: bool
  st_tunnelOpen :: bool
  st_result :: "err option option"

text \<open>A call of \<^verbatim>\<open>Stop\<close> that has a \<^verbatim>\<open>stop\<close> in hand: before and after the cancellation.\<close>

datatype stop_call = StopCancel nat | StopWait nat | StopReturned

record psiphon =
  ps_stop :: "nat option"
  ps_tunnel :: "nat option"
  ps_starts :: "start_call list"
  ps_stops :: "stop_call list"

definition psiphon_init :: psiphon where
  "psiphon_init = \<lparr>ps_stop = None, ps_tunnel = None, ps_starts = [], ps_stops = []\<rparr>"

definition new_start :: start_call where
  "new_start = \<lparr>st_pc = PsInit, st_ctxDone = False, st_after = AfWaiting, st_cancelled = False, st_tunnelOpen = False, st_result = None\<rparr>"

definition errPsiphonCanceled :: err where "errPsiphonCanceled = ErrNew ''context canceled''"

definition errNotStartedDial :: err where "errNotStartedDial = ErrNew ''dialer has not been started yet''"

definition errNotStartedStop :: err where "errNotStartedStop = ErrNew ''tried to stop dialer that is not running''"

abbreviation upd_start :: "nat \<Rightarrow> (start_call \<Rightarrow> start_call) \<Rightarrow> psiphon \<Rightarrow> psiphon" where
  "upd_start i f s \<equiv> s\<lparr>ps_starts := (ps_starts s)[i := f (ps_starts s ! i)]\<rparr>"

text \<open>The part of the goroutine that sets \<^verbatim>\<open>d.stop\<close> to its own, under the lock.\<close>

definition start_enter :: "nat \<Rightarrow> psiphon \<Rightarrow> psiphon" where
  "start_enter i s = (upd_start i (\<lambda>c. c\<lparr>st_pc := PsStarting\<rparr>) s)\<lparr>ps_stop := Some i\<rparr>"

text \<open>
  \<^verbatim>\<open>startTunnel\<close> has returned an error or a tunnel, and the goroutine has the lock again. It detaches the function that cancels,
  which has no effect on one that was started. The result is an error also if the context was cancelled by now; a goroutine that
  ends sets \<^verbatim>\<open>d.stop\<close> to nil.
\<close>

definition detatchContexts :: "start_call \<Rightarrow> start_call" where
  "detatchContexts c = (if st_after c = AfWaiting then c\<lparr>st_after := AfOver\<rparr> else c)"

definition start_tunnel :: "nat \<Rightarrow> err option \<Rightarrow> psiphon \<Rightarrow> psiphon" where
  "start_tunnel i r s =
     (let s = upd_start i detatchContexts s; c = ps_starts s ! i; e = (if st_cancelled c then Some errPsiphonCanceled else r) in
      if e \<noteq> None
      then (upd_start i (\<lambda>c. c\<lparr>st_pc := PsEnded, st_result := Some e, st_tunnelOpen := (r = None)\<rparr>) s)\<lparr>ps_stop := None\<rparr>
      else (upd_start i (\<lambda>c. c\<lparr>st_pc := PsRunning, st_result := Some None, st_tunnelOpen := True\<rparr>) s)\<lparr>ps_tunnel := Some i\<rparr>)"

text \<open>The context is done: \<^verbatim>\<open>d.tunnel\<close> and \<^verbatim>\<open>d.stop\<close> become nil, and the tunnel is stopped.\<close>

definition start_end :: "nat \<Rightarrow> psiphon \<Rightarrow> psiphon" where
  "start_end i s =
     (upd_start i (\<lambda>c. c\<lparr>st_pc := PsEnded, st_tunnelOpen := False\<rparr>) s)\<lparr>ps_tunnel := None, ps_stop := None\<rparr>"

text \<open>
  The events: a call of \<^verbatim>\<open>Start\<close>; its context is done; that starts the function of \<^verbatim>\<open>AfterFunc\<close>, and the function cancels, at any
  later time; the steps of goroutine \<open>i\<close>; a call of \<^verbatim>\<open>Stop\<close>, and the steps of the \<open>k\<close>-th
  call that found something to stop.
\<close>

datatype psiphon_event =
    CallStart | CtxDone nat | CtxFires nat | Enter nat | CancelOld nat | Resume nat | AfterFunc nat
  | Tunnel nat "err option" | EndRun nat | CallStop | StopCancels nat | StopReturns nat

fun psiphon_step :: "psiphon_event \<Rightarrow> psiphon \<Rightarrow> psiphon option" where
  "psiphon_step CallStart s = Some (s\<lparr>ps_starts := ps_starts s @ [new_start]\<rparr>)"
| "psiphon_step (CtxDone i) s =
     (if i < length (ps_starts s) then Some (upd_start i (\<lambda>c. c\<lparr>st_ctxDone := True\<rparr>) s) else None)"
| "psiphon_step (Enter i) s =
     (if i < length (ps_starts s) \<and> st_pc (ps_starts s ! i) = PsInit
      then Some (case ps_stop s of
                   Some j \<Rightarrow> (upd_start i (\<lambda>c. c\<lparr>st_pc := PsStop j\<rparr>) s)\<lparr>ps_stop := None\<rparr>
                 | None \<Rightarrow> start_enter i s)
      else None)"
| "psiphon_step (CancelOld i) s =
     (if i < length (ps_starts s)
      then case st_pc (ps_starts s ! i) of
             PsStop j \<Rightarrow> Some (upd_start i (\<lambda>c. c\<lparr>st_pc := PsWait j\<rparr>) (upd_start j (\<lambda>c. c\<lparr>st_cancelled := True\<rparr>) s))
           | _ \<Rightarrow> None
      else None)"
| "psiphon_step (Resume i) s =
     (if i < length (ps_starts s)
      then case st_pc (ps_starts s ! i) of
             PsWait j \<Rightarrow> if st_pc (ps_starts s ! j) = PsEnded then Some (start_enter i s) else None
           | _ \<Rightarrow> None
      else None)"
| "psiphon_step (CtxFires i) s =
     (if i < length (ps_starts s) \<and> st_pc (ps_starts s ! i) = PsStarting \<and> st_ctxDone (ps_starts s ! i)
         \<and> st_after (ps_starts s ! i) = AfWaiting
      then Some (upd_start i (\<lambda>c. c\<lparr>st_after := AfRunning\<rparr>) s) else None)"
| "psiphon_step (AfterFunc i) s =
     (if i < length (ps_starts s) \<and> st_after (ps_starts s ! i) = AfRunning
      then Some (upd_start i (\<lambda>c. c\<lparr>st_cancelled := True, st_after := AfOver\<rparr>) s) else None)"
| "psiphon_step (Tunnel i r) s =
     (if i < length (ps_starts s) \<and> st_pc (ps_starts s ! i) = PsStarting then Some (start_tunnel i r s) else None)"
| "psiphon_step (EndRun i) s =
     (if i < length (ps_starts s) \<and> st_pc (ps_starts s ! i) = PsRunning \<and> st_cancelled (ps_starts s ! i)
      then Some (start_end i s) else None)"
| "psiphon_step CallStop s =
     (case ps_stop s of
        None \<Rightarrow> Some s
      | Some j \<Rightarrow> Some (s\<lparr>ps_stops := ps_stops s @ [StopCancel j]\<rparr>))"
| "psiphon_step (StopCancels k) s =
     (if k < length (ps_stops s)
      then case ps_stops s ! k of
             StopCancel j \<Rightarrow> Some ((upd_start j (\<lambda>c. c\<lparr>st_cancelled := True\<rparr>) s)\<lparr>ps_stops := (ps_stops s)[k := StopWait j]\<rparr>)
           | _ \<Rightarrow> None
      else None)"
| "psiphon_step (StopReturns k) s =
     (if k < length (ps_stops s)
      then case ps_stops s ! k of
             StopWait j \<Rightarrow> if st_pc (ps_starts s ! j) = PsEnded then Some (s\<lparr>ps_stops := (ps_stops s)[k := StopReturned]\<rparr>) else None
           | _ \<Rightarrow> None
      else None)"

fun psiphon_run :: "psiphon_event list \<Rightarrow> psiphon \<Rightarrow> psiphon option" where
  "psiphon_run [] s = Some s"
| "psiphon_run (e # es) s = (case psiphon_step e s of None \<Rightarrow> None | Some s' \<Rightarrow> psiphon_run es s')"

text \<open>The error of a call of \<^verbatim>\<open>Stop\<close> that finds nothing to stop, and \<^verbatim>\<open>DialStream\<close>; \<open>dial i\<close> is \<^verbatim>\<open>Dial\<close> of the \<open>i\<close>-th tunnel.\<close>

definition psiphon_Stop_error :: "psiphon \<Rightarrow> err option" where
  "psiphon_Stop_error s = (if ps_stop s = None then Some errNotStartedStop else None)"

definition psiphon_DialStream :: "(nat \<Rightarrow> string \<Rightarrow> err + 'c) \<Rightarrow> psiphon \<Rightarrow> string \<Rightarrow> err + 'c" where
  "psiphon_DialStream dial s addr =
     (case ps_tunnel s of None \<Rightarrow> Inl errNotStartedDial | Some i \<Rightarrow> dial i addr)"

section \<open>What is open\<close>

text \<open>
  A tunnel that came when the context of its goroutine had been cancelled during \<^verbatim>\<open>startTunnel\<close>: \<^verbatim>\<open>Start\<close> reported the
  cancellation, and the goroutine ended with it open.
\<close>

definition leaked :: "psiphon \<Rightarrow> nat \<Rightarrow> bool" where
  "leaked s i \<longleftrightarrow> st_pc (ps_starts s ! i) = PsEnded \<and> st_tunnelOpen (ps_starts s ! i)
     \<and> st_result (ps_starts s ! i) = Some (Some errPsiphonCanceled)"

definition start_at :: "start_pc set \<Rightarrow> psiphon \<Rightarrow> nat \<Rightarrow> bool" where
  "start_at P s i \<longleftrightarrow> i < length (ps_starts s) \<and> st_pc (ps_starts s ! i) \<in> P"

abbreviation "begun \<equiv> start_at {PsStarting, PsRunning, PsEnded}"

abbreviation "active \<equiv> start_at {PsStarting, PsRunning}"

abbreviation "running \<equiv> start_at {PsRunning}"

text \<open>A cancellation changes no more than the context.\<close>

lemma cancel_other [simp]:
  "st_pc (xs[j := (xs ! j)\<lparr>st_cancelled := True\<rparr>] ! i) = st_pc (xs ! i)"
  "st_tunnelOpen (xs[j := (xs ! j)\<lparr>st_cancelled := True\<rparr>] ! i) = st_tunnelOpen (xs ! i)"
  "st_result (xs[j := (xs ! j)\<lparr>st_cancelled := True\<rparr>] ! i) = st_result (xs ! i)"
  "st_after (xs[j := (xs ! j)\<lparr>st_cancelled := True\<rparr>] ! i) = st_after (xs ! i)"
  by (cases "i = j"; cases "j < length xs"; simp add: list_update_beyond)+

lemma begun_step: "psiphon_step e s = Some s' \<Longrightarrow> begun s i \<Longrightarrow> begun s' i"
  by (cases e)
    (auto simp: start_at_def nth_list_update nth_append start_enter_def start_tunnel_def detatchContexts_def start_end_def Let_def
      split: if_splits option.splits start_pc.splits stop_call.splits)

lemma running_step: "psiphon_step e s = Some s' \<Longrightarrow> running s i \<Longrightarrow> e \<noteq> EndRun i \<Longrightarrow> running s' i"
  by (cases e)
    (auto simp: start_at_def nth_list_update nth_append start_enter_def start_tunnel_def detatchContexts_def start_end_def Let_def
      split: if_splits option.splits start_pc.splits stop_call.splits)

lemma active_step:
  "psiphon_step e s = Some s' \<Longrightarrow> active s i \<Longrightarrow> e \<noteq> EndRun i \<Longrightarrow> \<forall>r. e \<noteq> Tunnel i r \<Longrightarrow> active s' i"
  by (cases e)
    (auto simp: start_at_def nth_list_update nth_append start_enter_def start_tunnel_def detatchContexts_def start_end_def Let_def
      split: if_splits option.splits start_pc.splits stop_call.splits)

definition start_ok :: "start_call \<Rightarrow> bool" where
  "start_ok c \<longleftrightarrow>
     (st_tunnelOpen c \<longrightarrow> st_pc c = PsRunning \<or> st_pc c = PsEnded \<and> st_result c = Some (Some errPsiphonCanceled))
     \<and> (st_pc c = PsRunning \<longrightarrow> st_tunnelOpen c \<and> st_result c = Some None)
     \<and> (st_result c \<noteq> None \<longleftrightarrow> st_pc c \<in> {PsRunning, PsEnded})"

definition psiphon_inv :: "psiphon \<Rightarrow> bool" where
  "psiphon_inv s \<longleftrightarrow>
     (\<forall>i < length (ps_starts s). start_ok (ps_starts s ! i))
     \<and> (\<forall>i. ps_tunnel s = Some i \<longrightarrow> running s i)
     \<and> (\<forall>i. ps_stop s = Some i \<longrightarrow> active s i)
     \<and> (\<forall>i j. start_at {PsStop j, PsWait j} s i \<longrightarrow> begun s j)
     \<and> (\<forall>k < length (ps_stops s). \<forall>j. ps_stops s ! k \<in> {StopCancel j, StopWait j} \<longrightarrow> begun s j)"

lemma psiphon_inv_init: "psiphon_inv psiphon_init"
  by (simp add: psiphon_inv_def psiphon_init_def start_at_def)

lemma start_ok_after [simp]: "start_ok (c\<lparr>st_after := x\<rparr>) = start_ok c" "start_ok (c\<lparr>st_cancelled := y\<rparr>) = start_ok c"
  by (simp_all add: start_ok_def)

lemma start_ok_cancel [simp]: "start_ok (xs[j := (xs ! j)\<lparr>st_cancelled := True\<rparr>] ! i) = start_ok (xs ! i)"
  by (simp add: start_ok_def)

lemma start_ok_step:
  "psiphon_step e s = Some s' \<Longrightarrow> \<forall>i < length (ps_starts s). start_ok (ps_starts s ! i) \<Longrightarrow>
   i < length (ps_starts s') \<Longrightarrow> start_ok (ps_starts s' ! i)"
  by (cases e)
    (auto simp: nth_list_update nth_append start_enter_def start_tunnel_def detatchContexts_def start_end_def new_start_def start_ok_def Let_def
      split: if_splits option.splits start_pc.splits stop_call.splits)

lemma psiphon_inv_step:
  assumes s: "psiphon_step e s = Some s'" and i: "psiphon_inv s"
  shows "psiphon_inv s'"
proof -
  have tunnel: "running s' i" if t: "ps_tunnel s' = Some i" for i
  proof (cases "ps_tunnel s = Some i \<and> e \<noteq> EndRun i")
    case True
    then show ?thesis using running_step [OF s] i by (simp add: psiphon_inv_def)
  next
    case False
    then show ?thesis using s t
      by (cases e) (auto simp: start_at_def start_enter_def start_tunnel_def detatchContexts_def start_end_def Let_def
          split: if_splits option.splits start_pc.splits stop_call.splits)
  qed
  have stop: "active s' i" if t: "ps_stop s' = Some i" for i
  proof (cases "ps_stop s = Some i \<and> e \<noteq> EndRun i \<and> (\<forall>r. e \<noteq> Tunnel i r)")
    case True
    then show ?thesis using active_step [OF s] i by (simp add: psiphon_inv_def)
  next
    case False
    moreover have "active s i" if "ps_stop s = Some i" using that i by (simp add: psiphon_inv_def)
    ultimately show ?thesis using s t
      by (cases e) (auto simp: start_at_def start_enter_def start_tunnel_def detatchContexts_def start_end_def Let_def
          split: if_splits option.splits start_pc.splits stop_call.splits)
  qed
  have wait: "begun s' j" if t: "start_at {PsStop j, PsWait j} s' i" for i j
  proof (cases "start_at {PsStop j, PsWait j} s i")
    case True
    then show ?thesis using begun_step [OF s] i by (simp add: psiphon_inv_def)
  next
    case False
    then have "ps_stop s = Some j" using s t
      by (cases e) (auto simp: start_at_def nth_list_update nth_append new_start_def start_enter_def start_tunnel_def detatchContexts_def start_end_def Let_def
          split: if_splits option.splits start_pc.splits stop_call.splits)
    then have "begun s j" using i by (auto simp: psiphon_inv_def start_at_def)
    then show ?thesis by (rule begun_step [OF s])
  qed
  have stops: "begun s' j" if t: "k < length (ps_stops s')" "ps_stops s' ! k \<in> {StopCancel j, StopWait j}" for k j
  proof (cases "k < length (ps_stops s) \<and> ps_stops s ! k \<in> {StopCancel j, StopWait j}")
    case True
    then show ?thesis using begun_step [OF s] i unfolding psiphon_inv_def by blast
  next
    case False
    then have "ps_stop s = Some j" using s t
      by (cases e) (auto simp: nth_list_update nth_append start_enter_def start_tunnel_def detatchContexts_def start_end_def Let_def
          split: if_splits option.splits start_pc.splits stop_call.splits)
    then have "begun s j" using i by (auto simp: psiphon_inv_def start_at_def)
    then show ?thesis by (rule begun_step [OF s])
  qed
  show ?thesis
    using start_ok_step [OF s] i tunnel stop wait stops unfolding psiphon_inv_def by blast
qed

lemma psiphon_run_inv: "psiphon_run es s = Some s' \<Longrightarrow> psiphon_inv s \<Longrightarrow> psiphon_inv s'"
  by (induction es arbitrary: s) (auto split: option.splits intro: psiphon_inv_step)

text \<open>
  C35: in every interleaving of calls of \<^verbatim>\<open>Start\<close> and \<^verbatim>\<open>Stop\<close> and of cancellations, \<^verbatim>\<open>DialStream\<close> uses a tunnel that is open and
  whose goroutine runs, what \<^verbatim>\<open>Stop\<close> stops is a goroutine that starts or runs, and every open tunnel is one whose goroutine
  runs, or one that came after its context had been cancelled during \<^verbatim>\<open>startTunnel\<close>, for which \<^verbatim>\<open>Start\<close> has reported the
  cancellation. So the tunnel of a \<^verbatim>\<open>Start\<close> that succeeded is open as long as its goroutine runs, and stopped when it has ended.
\<close>

theorem psiphon_tunnels_owned:
  assumes "psiphon_run es psiphon_init = Some s"
  shows "(\<forall>i. ps_tunnel s = Some i \<longrightarrow> running s i \<and> st_tunnelOpen (ps_starts s ! i))
    \<and> (\<forall>i. ps_stop s = Some i \<longrightarrow> active s i)
    \<and> (\<forall>i < length (ps_starts s). st_tunnelOpen (ps_starts s ! i) \<longrightarrow> running s i \<or> leaked s i)
    \<and> (\<forall>i < length (ps_starts s). st_result (ps_starts s ! i) = Some None \<longrightarrow>
         (st_tunnelOpen (ps_starts s ! i) \<longleftrightarrow> running s i) \<and> (\<not> running s i \<longleftrightarrow> st_pc (ps_starts s ! i) = PsEnded))"
proof -
  have i: "psiphon_inv s" using psiphon_run_inv [OF assms psiphon_inv_init] .
  then have "\<forall>i < length (ps_starts s). start_ok (ps_starts s ! i)" by (simp add: psiphon_inv_def)
  then show ?thesis using i by (auto simp: psiphon_inv_def start_ok_def start_at_def leaked_def)
qed

theorem psiphon_tunnels_owned_witness:
  "\<exists>s. psiphon_run [CallStart, Enter 0, Tunnel 0 None, CallStart, Enter 1, CancelOld 1, EndRun 0, Resume 1, Tunnel 1 None] psiphon_init = Some s
     \<and> ps_tunnel s = Some 1 \<and> st_tunnelOpen (ps_starts s ! 1) \<and> \<not> st_tunnelOpen (ps_starts s ! 0)"
proof -
  let ?es = "[CallStart, Enter 0, Tunnel 0 None, CallStart, Enter 1, CancelOld 1, EndRun 0, Resume 1, Tunnel 1 None]"
  obtain s where s: "psiphon_run ?es psiphon_init = Some s" "ps_tunnel s = Some 1" "\<not> st_tunnelOpen (ps_starts s ! 0)"
    by (simp add: psiphon_init_def new_start_def start_enter_def start_tunnel_def detatchContexts_def start_end_def Let_def)
  then show ?thesis using psiphon_tunnels_owned [OF s(1)] by blast
qed

section \<open>Stop returns\<close>

text \<open>Whoever waits for a goroutine has cancelled its context.\<close>

definition cancel_inv :: "psiphon \<Rightarrow> bool" where
  "cancel_inv s \<longleftrightarrow> (\<forall>k < length (ps_stops s). \<forall>j. ps_stops s ! k = StopWait j \<longrightarrow> st_cancelled (ps_starts s ! j))"

lemma cancel_sets [simp]:
  "i < length xs \<Longrightarrow> st_cancelled (xs[j := (xs ! j)\<lparr>st_cancelled := True\<rparr>] ! i) \<longleftrightarrow> i = j \<or> st_cancelled (xs ! i)"
  by (cases "i = j") auto

lemma cancelled_step:
  "psiphon_step e s = Some s' \<Longrightarrow> j < length (ps_starts s) \<Longrightarrow> st_cancelled (ps_starts s ! j) \<Longrightarrow> st_cancelled (ps_starts s' ! j)"
  by (cases e)
    (auto simp: nth_list_update nth_append start_enter_def start_tunnel_def detatchContexts_def start_end_def Let_def
      split: if_splits option.splits start_pc.splits stop_call.splits)

lemma cancel_inv_step:
  assumes s: "psiphon_step e s = Some s'" and i: "psiphon_inv s" "cancel_inv s"
  shows "cancel_inv s'"
  unfolding cancel_inv_def
proof (intro allI impI)
  fix k j
  assume t: "k < length (ps_stops s')" "ps_stops s' ! k = StopWait j"
  show "st_cancelled (ps_starts s' ! j)"
  proof (cases "k < length (ps_stops s) \<and> ps_stops s ! k = StopWait j")
    case True
    then have "begun s j" using i(1) unfolding psiphon_inv_def by blast
    moreover have "st_cancelled (ps_starts s ! j)" using True i(2) unfolding cancel_inv_def by blast
    ultimately show ?thesis using cancelled_step [OF s] by (simp add: start_at_def)
  next
    case False
    then have c: "k < length (ps_stops s)" "ps_stops s ! k = StopCancel j" "e = StopCancels k" using s t
      by (cases e; auto simp: nth_list_update nth_append start_enter_def start_tunnel_def detatchContexts_def start_end_def Let_def
          split: if_splits option.splits start_pc.splits stop_call.splits)+
    then have "begun s j" using i(1) unfolding psiphon_inv_def by blast
    then show ?thesis using s c by (auto simp: start_at_def)
  qed
qed

lemma cancel_run_inv: "psiphon_run es s = Some s' \<Longrightarrow> psiphon_inv s \<Longrightarrow> cancel_inv s \<Longrightarrow> cancel_inv s'"
  by (induction es arbitrary: s) (auto split: option.splits intro: psiphon_inv_step cancel_inv_step)

text \<open>
  A call of \<^verbatim>\<open>Stop\<close> that found a goroutine returns after one more step of it, from every reachable state: if it is in
  \<^verbatim>\<open>startTunnel\<close> it ends with whatever result that gives, and if it runs it can end at once.
\<close>

theorem psiphon_stop_returns:
  assumes "psiphon_run es psiphon_init = Some s" "k < length (ps_stops s)" "ps_stops s ! k = StopWait j"
  shows "(\<exists>s'. psiphon_step (StopReturns k) s = Some s')
    \<or> st_pc (ps_starts s ! j) = PsStarting
        \<and> (\<forall>r. \<exists>s' s''. psiphon_step (Tunnel j r) s = Some s' \<and> psiphon_step (StopReturns k) s' = Some s'')
    \<or> (\<exists>s' s''. psiphon_step (EndRun j) s = Some s' \<and> psiphon_step (StopReturns k) s' = Some s'')"
proof -
  have i: "psiphon_inv s" using psiphon_run_inv [OF assms(1) psiphon_inv_init] .
  have "cancel_inv s" using cancel_run_inv [OF assms(1) psiphon_inv_init] by (simp add: cancel_inv_def psiphon_init_def)
  then have c: "st_cancelled (ps_starts s ! j)" using assms(2,3) by (simp add: cancel_inv_def)
  have "begun s j" using i assms(2,3) unfolding psiphon_inv_def by blast
  then consider "st_pc (ps_starts s ! j) = PsStarting" "j < length (ps_starts s)" | "st_pc (ps_starts s ! j) = PsRunning" "j < length (ps_starts s)"
    | "st_pc (ps_starts s ! j) = PsEnded" by (auto simp: start_at_def)
  then show ?thesis using c assms(2,3)
    by cases (auto simp: start_tunnel_def detatchContexts_def start_end_def Let_def)
qed

section \<open>Tunnels out of reach\<close>

text \<open>An open tunnel that nothing refers to any more: its goroutine has leaked it, or it runs and nobody can cancel it.\<close>

definition quiet :: "start_call \<Rightarrow> bool" where
  "quiet c \<longleftrightarrow> st_pc c = PsRunning \<and> st_tunnelOpen c \<and> \<not> st_cancelled c \<and> st_after c = AfOver"

definition unreached :: "psiphon \<Rightarrow> nat \<Rightarrow> bool" where
  "unreached s i \<longleftrightarrow> ps_stop s \<noteq> Some i \<and> (\<forall>k < length (ps_starts s). st_pc (ps_starts s ! k) \<noteq> PsStop i)
     \<and> StopCancel i \<notin> set (ps_stops s)"

definition orphan :: "psiphon \<Rightarrow> nat \<Rightarrow> bool" where
  "orphan s i \<longleftrightarrow> i < length (ps_starts s) \<and> (leaked s i \<or> quiet (ps_starts s ! i) \<and> unreached s i)"

lemma leaked_step: "psiphon_step e s = Some s' \<Longrightarrow> leaked s i \<Longrightarrow> i < length (ps_starts s) \<Longrightarrow> leaked s' i \<and> i < length (ps_starts s')"
  by (cases e)
    (auto simp: leaked_def nth_list_update nth_append start_enter_def start_tunnel_def detatchContexts_def start_end_def Let_def
      split: if_splits option.splits start_pc.splits stop_call.splits)

lemma unreached_stops: "unreached s i \<Longrightarrow> k < length (ps_stops s) \<Longrightarrow> ps_stops s ! k \<noteq> StopCancel i"
  unfolding unreached_def by (metis nth_mem)

lemma quiet_step:
  assumes "psiphon_step e s = Some s'" "i < length (ps_starts s)" "quiet (ps_starts s ! i)" "unreached s i"
  shows "quiet (ps_starts s' ! i)"
proof (cases e)
  case (CancelOld k)
  then show ?thesis using assms by (auto simp: quiet_def unreached_def nth_list_update split: if_splits start_pc.splits)
next
  case (StopCancels k)
  then show ?thesis using assms unreached_stops [OF assms(4)]
    by (auto simp: quiet_def nth_list_update split: if_splits stop_call.splits)
qed (use assms in \<open>auto simp: quiet_def nth_list_update nth_append start_enter_def start_tunnel_def start_end_def
        detatchContexts_def Let_def split: if_splits option.splits start_pc.splits stop_call.splits\<close>)

lemma unreached_step:
  assumes s: "psiphon_step e s = Some s'" and r: "i < length (ps_starts s)" "st_pc (ps_starts s ! i) = PsRunning" "unreached s i"
  shows "unreached s' i"
proof -
  have u: "StopCancel i \<notin> set ((ps_stops s)[k := x])" if "x \<noteq> StopCancel i" for k x
    using r(3) that set_update_subset_insert [of "ps_stops s" k x] by (auto simp: unreached_def)
  have "ps_stop s' \<noteq> Some i" "StopCancel i \<notin> set (ps_stops s')"
    using s r u by (cases e; auto simp: unreached_def start_enter_def start_tunnel_def start_end_def Let_def
        split: if_splits option.splits start_pc.splits stop_call.splits)+
  moreover have "st_pc (ps_starts s' ! k) \<noteq> PsStop i" if "k < length (ps_starts s')" for k
    using s r that by (cases e) (auto simp: unreached_def nth_list_update nth_append new_start_def start_enter_def start_tunnel_def
        detatchContexts_def start_end_def Let_def split: if_splits option.splits start_pc.splits stop_call.splits)
  ultimately show ?thesis by (simp add: unreached_def)
qed

lemma starts_grow: "psiphon_step e s = Some s' \<Longrightarrow> length (ps_starts s) \<le> length (ps_starts s')"
  by (cases e) (auto simp: start_enter_def start_tunnel_def start_end_def Let_def
      split: if_splits option.splits start_pc.splits stop_call.splits)

lemma orphan_step: "psiphon_step e s = Some s' \<Longrightarrow> orphan s i \<Longrightarrow> orphan s' i"
  using leaked_step quiet_step unreached_step starts_grow unfolding orphan_def
  by (metis (no_types, lifting) order_less_le_trans quiet_def)

lemma orphan_run: "psiphon_run es s = Some s' \<Longrightarrow> orphan s i \<Longrightarrow> orphan s' i"
  by (induction es arbitrary: s) (auto split: option.splits intro: orphan_step)

lemma orphan_open: "orphan s i \<Longrightarrow> i < length (ps_starts s) \<and> st_tunnelOpen (ps_starts s ! i)"
  by (auto simp: orphan_def leaked_def quiet_def)

text \<open>
  Three calls of \<^verbatim>\<open>Start\<close>: while the second one waits for the first goroutine to end the third one starts, and the end of the
  first sets \<^verbatim>\<open>d.stop\<close> and \<^verbatim>\<open>d.tunnel\<close>, which are those of the third by then, to nil. The third \<^verbatim>\<open>Start\<close> has succeeded, but
  \<^verbatim>\<open>DialStream\<close> and \<^verbatim>\<open>Stop\<close> say that nothing is started, and its tunnel stays open whatever happens.
\<close>

theorem psiphon_restart_race:
  "\<exists>s. psiphon_run [CallStart, Enter 0, Tunnel 0 None, CallStart, Enter 1, CallStart, Enter 2, Tunnel 2 None, CancelOld 1, EndRun 0]
        psiphon_init = Some s
     \<and> st_result (ps_starts s ! 2) = Some None \<and> psiphon_Stop_error s = Some errNotStartedStop
     \<and> (\<forall>dial addr. psiphon_DialStream dial s addr = Inl errNotStartedDial)
     \<and> (\<forall>es s'. psiphon_run es s = Some s' \<longrightarrow> st_tunnelOpen (ps_starts s' ! 2))"
proof -
  let ?es = "[CallStart, Enter 0, Tunnel 0 None, CallStart, Enter 1, CallStart, Enter 2, Tunnel 2 None, CancelOld 1, EndRun 0]"
  let ?c = "\<lambda>pc af can op r. \<lparr>st_pc = pc, st_ctxDone = False, st_after = af, st_cancelled = can, st_tunnelOpen = op, st_result = r\<rparr>"
  let ?s = "\<lparr>ps_stop = None, ps_tunnel = None,
     ps_starts = [?c PsEnded AfOver True False (Some None), ?c (PsWait 0) AfWaiting False False None, ?c PsRunning AfOver False True (Some None)], ps_stops = []\<rparr>"
  have r: "psiphon_run ?es psiphon_init = Some ?s"
    by (simp add: psiphon_init_def new_start_def start_enter_def start_tunnel_def detatchContexts_def start_end_def Let_def)
  have "orphan ?s 2" by (auto simp: orphan_def quiet_def unreached_def less_Suc_eq numeral_3_eq_3)
  then have "\<forall>es s'. psiphon_run es ?s = Some s' \<longrightarrow> st_tunnelOpen (ps_starts s' ! 2)"
    using orphan_run orphan_open by blast
  then show ?thesis using r by (intro exI [of _ ?s]) (simp add: psiphon_Stop_error_def psiphon_DialStream_def del: psiphon_run.simps)
qed

theorem psiphon_restart_race_witness:
  "\<exists>s. psiphon_run [CallStart, Enter 0, Tunnel 0 None, CallStart, Enter 1, CallStart, Enter 2, Tunnel 2 None, CancelOld 1, EndRun 0]
        psiphon_init = Some s \<and> (\<exists>s'. psiphon_run [Resume 1, Tunnel 1 None, CallStop, StopCancels 0, EndRun 1, StopReturns 0] s = Some s'
          \<and> st_tunnelOpen (ps_starts s' ! 2))"
proof -
  obtain s where s: "psiphon_run [CallStart, Enter 0, Tunnel 0 None, CallStart, Enter 1, CallStart, Enter 2, Tunnel 2 None, CancelOld 1, EndRun 0]
        psiphon_init = Some s" "\<forall>es s'. psiphon_run es s = Some s' \<longrightarrow> st_tunnelOpen (ps_starts s' ! 2)"
    using psiphon_restart_race by blast
  have "\<exists>s'. psiphon_run [Resume 1, Tunnel 1 None, CallStop, StopCancels 0, EndRun 1, StopReturns 0] s = Some s'"
    using s(1) by (auto simp: psiphon_init_def new_start_def start_enter_def start_tunnel_def detatchContexts_def start_end_def Let_def)
  then show ?thesis using s by blast
qed

text \<open>
  A \<^verbatim>\<open>Stop\<close> (or the end of the context) while \<^verbatim>\<open>startTunnel\<close> is about to return a tunnel: \<^verbatim>\<open>Start\<close> reports the
  cancellation, \<^verbatim>\<open>Stop\<close> returns, and the tunnel is never stopped.
\<close>

theorem psiphon_cancel_leaks:
  "\<exists>s. psiphon_run [CallStart, Enter 0, CallStop, StopCancels 0, Tunnel 0 None, StopReturns 0] psiphon_init = Some s
     \<and> st_result (ps_starts s ! 0) = Some (Some errPsiphonCanceled) \<and> psiphon_Stop_error s = Some errNotStartedStop
     \<and> (\<forall>es s'. psiphon_run es s = Some s' \<longrightarrow> st_tunnelOpen (ps_starts s' ! 0))"
proof -
  let ?s = "\<lparr>ps_stop = None, ps_tunnel = None,
     ps_starts = [\<lparr>st_pc = PsEnded, st_ctxDone = False, st_after = AfOver, st_cancelled = True, st_tunnelOpen = True, st_result = Some (Some errPsiphonCanceled)\<rparr>],
     ps_stops = [StopReturned]\<rparr>"
  have r: "psiphon_run [CallStart, Enter 0, CallStop, StopCancels 0, Tunnel 0 None, StopReturns 0] psiphon_init = Some ?s"
    by (simp add: psiphon_init_def new_start_def start_enter_def start_tunnel_def detatchContexts_def Let_def)
  have "orphan ?s 0" by (simp add: orphan_def leaked_def)
  then have "\<forall>es s'. psiphon_run es ?s = Some s' \<longrightarrow> st_tunnelOpen (ps_starts s' ! 0)"
    using orphan_run orphan_open by blast
  then show ?thesis using r by (intro exI [of _ ?s]) (simp add: psiphon_Stop_error_def del: psiphon_run.simps)
qed

theorem psiphon_cancel_leaks_witness:
  "\<exists>s. psiphon_run [CallStart, Enter 0, CallStop, StopCancels 0, Tunnel 0 None, StopReturns 0] psiphon_init = Some s
     \<and> (\<exists>s'. psiphon_run [CallStart, Enter 1, Tunnel 1 None] s = Some s' \<and> st_tunnelOpen (ps_starts s' ! 0))"
proof -
  obtain s where s: "psiphon_run [CallStart, Enter 0, CallStop, StopCancels 0, Tunnel 0 None, StopReturns 0] psiphon_init = Some s"
    "\<forall>es s'. psiphon_run es s = Some s' \<longrightarrow> st_tunnelOpen (ps_starts s' ! 0)"
    using psiphon_cancel_leaks by blast
  have "\<exists>s'. psiphon_run [CallStart, Enter 1, Tunnel 1 None] s = Some s'"
    using s(1) by (auto simp: psiphon_init_def new_start_def start_enter_def start_tunnel_def detatchContexts_def Let_def)
  then show ?thesis using s by blast
qed

theorem psiphon_stop_returns_witness:
  "\<exists>s s' s''. psiphon_run [CallStart, Enter 0, CallStop, StopCancels 0] psiphon_init = Some s
     \<and> psiphon_step (Tunnel 0 None) s = Some s' \<and> psiphon_step (StopReturns 0) s' = Some s''"
proof -
  let ?s = "\<lparr>ps_stop = Some 0, ps_tunnel = None,
     ps_starts = [\<lparr>st_pc = PsStarting, st_ctxDone = False, st_after = AfWaiting, st_cancelled = True, st_tunnelOpen = False, st_result = None\<rparr>],
     ps_stops = [StopWait 0]\<rparr>"
  have r: "psiphon_run [CallStart, Enter 0, CallStop, StopCancels 0] psiphon_init = Some ?s"
    by (simp add: psiphon_init_def new_start_def start_enter_def)
  show ?thesis using psiphon_stop_returns [OF r, of 0 0] r by auto
qed

section \<open>The name of the platform\<close>

text \<open>\<^verbatim>\<open>strings.FieldsFunc\<close>: the parts between the characters for which \<open>f\<close> holds.\<close>

fun fields_func :: "(char \<Rightarrow> bool) \<Rightarrow> string \<Rightarrow> string list" where
  "fields_func f [] = []"
| "fields_func f (c # s) =
     (if f c then fields_func f s
      else case fields_func f s of
             [] \<Rightarrow> [[c]]
           | w # ws \<Rightarrow> (case s of d # _ \<Rightarrow> if f d then [c] # w # ws else (c # w) # ws | [] \<Rightarrow> [[c]]))"

definition platform_allow :: "char \<Rightarrow> bool" where
  "platform_allow r \<longleftrightarrow> \<not> is_space r \<and> r \<noteq> CHR ''_''"

definition getClientPlatform :: "string \<Rightarrow> string \<Rightarrow> string" where
  "getClientPlatform goos goarch =
     ''outline-sdk_'' @ join_with ''-'' (fields_func platform_allow goos) @ ''_''
       @ join_with ''-'' (fields_func platform_allow goarch)"

text \<open>
  The function keeps the characters that it was to remove: for every system and architecture whose names have neither spaces
  nor underscores the name is the same.
\<close>

lemma client_platform_empty:
  assumes "\<forall>c \<in> set goos. platform_allow c" "\<forall>c \<in> set goarch. platform_allow c"
  shows "getClientPlatform goos goarch = ''outline-sdk__''"
proof -
  have "fields_func f s = []" if "\<forall>c \<in> set s. f c" for f s using that by (induction s) auto
  then show ?thesis using assms by (simp add: getClientPlatform_def)
qed

end
