(* ===== verification/Websocket.thy ===== *)
theory Websocket
  imports GoNet
begin

text \<open>
  Connections over a WebSocket (\<^verbatim>\<open>x/websocket/endpoint.go\<close>): streams and packets whose writes are messages. The WebSocket protocol
  is the library's; what it hands to the connection are messages, close frames and errors, in order. The lemmas show what
  a reader gets of them, and which ends of a connection it cannot tell apart.
\<close>

section \<open>The endpoint\<close>

record ws_options =
  ws_tlsConfig :: "string option"
  ws_headers :: "(string \<times> string) list"

definition WithTLSConfig :: "string option \<Rightarrow> ws_options \<Rightarrow> ws_options" where
  "WithTLSConfig cfg o1 = o1\<lparr>ws_tlsConfig := cfg\<rparr>"

definition WithHTTPHeaders :: "(string \<times> string) list \<Rightarrow> ws_options \<Rightarrow> ws_options" where
  "WithHTTPHeaders h o1 = o1\<lparr>ws_headers := h\<rparr>"

text \<open>
  \<open>parse\<close> is \<^verbatim>\<open>url.Parse\<close>, \<open>agent\<close> the default \<^verbatim>\<open>User-Agent\<close>; \<open>dial\<close> is \<^verbatim>\<open>DialContext\<close> of the library, which gets the options and the way
  to connect.
\<close>

definition ws_netDial :: "(unit \<Rightarrow> err + 'c) \<Rightarrow> string \<Rightarrow> err + 'c" where
  "ws_netDial connectStream network =
     (if take 3 network \<noteq> ''tcp''
      then Inl (ErrNew (''websocket dialer does not support network type '' @ network))
      else connectStream ())"

definition ws_newEndpoint ::
  "(string \<Rightarrow> err option) \<Rightarrow> string \<Rightarrow> (ws_options \<Rightarrow> (string \<Rightarrow> err + 'c) \<Rightarrow> string \<Rightarrow> err + 'w) \<Rightarrow> ('w \<Rightarrow> 'g)
   \<Rightarrow> string \<Rightarrow> (unit \<Rightarrow> err + 'c) \<Rightarrow> (ws_options \<Rightarrow> ws_options) list \<Rightarrow> err + (unit \<Rightarrow> err + 'g)" where
  "ws_newEndpoint parse agent dial new urlStr se opts =
     (case parse urlStr of
        Some e \<Rightarrow> Inl (ErrWrap ''url is invalid'' e)
      | None \<Rightarrow>
          (let resolved = foldl (\<lambda>o1 opt. opt o1) \<lparr>ws_tlsConfig = None, ws_headers = [(''User-Agent'', agent)]\<rparr> opts in
           Inr (\<lambda>_. case dial resolved (ws_netDial se) urlStr of Inl e \<Rightarrow> Inl e | Inr c \<Rightarrow> Inr (new c))))"

section \<open>The connection\<close>

text \<open>
  What the library still has for \<^verbatim>\<open>NextReader\<close>: a message, binary or not, whose reader gives its bytes in pieces and then
  \<^verbatim>\<open>io.EOF\<close>; a close frame with its code; an error of the network, which it gives from then on. A close frame runs the close handler
  and gives a \<^verbatim>\<open>CloseError\<close>; an unexpected end of the network connection gives a \<^verbatim>\<open>CloseError\<close> without a close frame.
\<close>

datatype ws_event = WsMsg bool source | WsClose nat | WsErr err | WsLost

definition errNetClosed :: err where "errNetClosed = ErrNew ''use of closed network connection''"

definition closeNormal :: nat where "closeNormal = 1000"

text \<open>\<open>g_pending\<close> is what is left of the message that is being read.\<close>

record gorilla_conn =
  g_in :: "ws_event list"
  g_pending :: "source option"
  g_readErr :: "err option"
  g_writeErr :: "err option"
  g_out :: "bytes list"
  g_closeSent :: bool
  g_netClosed :: bool

definition newGorillaConn :: "ws_event list \<Rightarrow> gorilla_conn" where
  "newGorillaConn evs =
     \<lparr>g_in = evs, g_pending = None, g_readErr = None, g_writeErr = None, g_out = [], g_closeSent = False, g_netClosed = False\<rparr>"

text \<open>
  \<^verbatim>\<open>NextReader\<close>: the rest of the message that is under way is skipped. \<open>Inl\<close> is an error that is a \<^verbatim>\<open>CloseError\<close> with its code, or
  another one.
\<close>

fun next_reader :: "gorilla_conn \<Rightarrow> gorilla_conn \<times> (nat option \<times> err + bool \<times> source)" where
  "next_reader c =
     (case g_in c of
        [] \<Rightarrow> (c\<lparr>g_pending := None\<rparr>, Inl (None, ErrNew ''i/o timeout''))
      | WsMsg b m # q \<Rightarrow> (c\<lparr>g_pending := None, g_in := q\<rparr>, Inr (b, m))
      | WsClose code # q \<Rightarrow>
          (c\<lparr>g_pending := None, g_readErr := Some EOF\<rparr>, Inl (Some code, ErrNew ''websocket: close''))
      | WsErr e # q \<Rightarrow> (c\<lparr>g_pending := None\<rparr>, Inl (None, e))
      | WsLost # q \<Rightarrow> (c\<lparr>g_pending := None\<rparr>, Inl (Some 1006, ErrNew ''websocket: close 1006 (abnormal closure): unexpected EOF'')))"

declare next_reader.simps [simp del]

text \<open>The part of \<^verbatim>\<open>Read\<close> that asks for the next message.\<close>

definition ws_next :: "gorilla_conn \<Rightarrow> nat \<Rightarrow> gorilla_conn \<times> bytes \<times> err option" where
  "ws_next c n =
     (case next_reader c of
        (c1, r) \<Rightarrow>
          (case g_readErr c1 of
             Some e \<Rightarrow> (c1, [], Some e)
           | None \<Rightarrow>
               (case r of
                  Inl (Some code, e) \<Rightarrow> (c1, [], Some (if code = closeNormal then EOF else ErrNested errNetClosed e))
                | Inl (None, e) \<Rightarrow> (c1, [], Some e)
                | Inr (binary, m) \<Rightarrow>
                    if \<not> binary then (c1, [], Some (ErrNew ''read message is not binary''))
                    else case src_read m n of (m', bs, e) \<Rightarrow> (c1\<lparr>g_pending := Some m'\<rparr>, bs, e))))"

definition ws_Read :: "gorilla_conn \<Rightarrow> nat \<Rightarrow> gorilla_conn \<times> bytes \<times> err option" where
  "ws_Read c n =
     (case g_readErr c of
        Some e \<Rightarrow> (c, [], Some e)
      | None \<Rightarrow>
          (case g_pending c of
             None \<Rightarrow> ws_next c n
           | Some m \<Rightarrow>
               (case src_read m n of
                  (m', bs, e) \<Rightarrow>
                    if e \<noteq> Some EOF then (c\<lparr>g_pending := Some m'\<rparr>, bs, e)
                    else ws_next (c\<lparr>g_pending := None\<rparr>) n)))"

text \<open>
  \<^verbatim>\<open>Write\<close>; \<open>fails\<close> is the error of \<^verbatim>\<open>WriteMessage\<close>. After \<^verbatim>\<open>CloseWrite\<close> the library fails, as the close message has been sent and
  the deadline has passed.
\<close>

definition ws_Write :: "err option \<Rightarrow> gorilla_conn writer" where
  "ws_Write fails c buf =
     (case (if g_closeSent c \<or> g_netClosed c then Some (ErrNew ''websocket: close sent'') else fails) of
        Some e \<Rightarrow> (c, 0, Some (case g_writeErr c of Some w \<Rightarrow> w | None \<Rightarrow> e))
      | None \<Rightarrow> (c\<lparr>g_out := g_out c @ [buf]\<rparr>, length buf, None))"

definition ws_CloseRead :: "gorilla_conn \<Rightarrow> gorilla_conn" where
  "ws_CloseRead c = c\<lparr>g_readErr := Some errNetClosed\<rparr>"

definition ws_CloseWrite :: "gorilla_conn \<Rightarrow> gorilla_conn" where
  "ws_CloseWrite c = c\<lparr>g_closeSent := True, g_writeErr := Some errNetClosed\<rparr>"

definition ws_Close :: "gorilla_conn \<Rightarrow> gorilla_conn" where
  "ws_Close c = (ws_CloseWrite (ws_CloseRead c))\<lparr>g_netClosed := True\<rparr>"

section \<open>What a reader gets\<close>

text \<open>A client that reads with buffers of the sizes \<open>ns\<close> until there is an error.\<close>

fun ws_reads :: "nat list \<Rightarrow> gorilla_conn \<Rightarrow> gorilla_conn \<times> bytes \<times> err option" where
  "ws_reads [] c = (c, [], None)"
| "ws_reads (n # ns) c =
     (case ws_Read c n of
        (c', bs, Some e) \<Rightarrow> (c', bs, Some e)
      | (c', bs, None) \<Rightarrow> (case ws_reads ns c' of (c'', cs, e) \<Rightarrow> (c'', bs @ cs, e)))"

text \<open>A message with bytes, as its reader gives it.\<close>

definition full_msg :: "source \<Rightarrow> bool" where
  "full_msg m \<longleftrightarrow> solid m \<and> m \<noteq> []"

definition ws_left :: "gorilla_conn \<Rightarrow> source" where
  "ws_left c = (case g_pending c of None \<Rightarrow> [] | Some m \<Rightarrow> m)"

lemma next_reader_sel:
  "next_reader c =
     (case g_in c of
        [] \<Rightarrow> (c\<lparr>g_pending := None\<rparr>, Inl (None, ErrNew ''i/o timeout''))
      | WsMsg b m # q \<Rightarrow> (c\<lparr>g_pending := None, g_in := q\<rparr>, Inr (b, m))
      | WsClose code # q \<Rightarrow> (c\<lparr>g_pending := None, g_readErr := Some EOF\<rparr>, Inl (Some code, ErrNew ''websocket: close''))
      | WsErr e # q \<Rightarrow> (c\<lparr>g_pending := None\<rparr>, Inl (None, e))
      | WsLost # q \<Rightarrow> (c\<lparr>g_pending := None\<rparr>, Inl (Some 1006, ErrNew ''websocket: close 1006 (abnormal closure): unexpected EOF'')))"
  by (rule next_reader.simps)

lemma src_read_full:
  assumes "full_msg m" "0 < n"
  obtains m' bs where "src_read m n = (m', bs, None)" "src_bytes m = bs @ src_bytes m'" "solid m'" "src_size m' < src_size m" "bs \<noteq> []"
proof -
  obtain m' bs e where r: "src_read m n = (m', bs, e)" by (metis prod_cases3)
  have "e = None" "src_size m' < src_size m" using src_read_clean_err [OF r] src_read_size [OF r] assms by (auto simp: full_msg_def solid_clean)
  moreover have "solid m'" "bs \<noteq> []" using r assms by (cases m rule: list.exhaust; cases "hd m"; auto simp: full_msg_def split: if_splits)+
  ultimately show ?thesis using that r src_read_bytes [OF r] by blast
qed

text \<open>What ends the bytes that a reader gets: a close frame, or an empty message.\<close>

definition ws_ends :: "ws_event list \<Rightarrow> bool" where
  "ws_ends q \<longleftrightarrow> (\<exists>code q'. q = WsClose code # q') \<or> (\<exists>q'. q = WsMsg True [] # q')"

definition ws_closes :: "ws_event list \<Rightarrow> bool" where
  "ws_closes q \<longleftrightarrow> (\<exists>code q'. q = WsClose code # q')"

text \<open>One read takes the next bytes of the messages, or finds their end.\<close>

lemma ws_Read_full:
  assumes "g_readErr c = None" "solid (ws_left c)" "\<forall>m \<in> set ms. full_msg m" "0 < n"
    and "g_in c = map (WsMsg True) ms @ q" "ws_ends q"
  shows "(\<exists>c' bs ms'. ws_Read c n = (c', bs, None) \<and> g_readErr c' = None \<and> solid (ws_left c') \<and> (\<forall>m \<in> set ms'. full_msg m)
        \<and> g_in c' = map (WsMsg True) ms' @ q
        \<and> src_bytes (ws_left c) @ concat (map src_bytes ms) = bs @ src_bytes (ws_left c') @ concat (map src_bytes ms')
        \<and> src_size (ws_left c') + sum_list (map src_size ms') < src_size (ws_left c) + sum_list (map src_size ms))
    \<or> (\<exists>c'. ws_Read c n = (c', [], Some EOF) \<and> ws_left c = [] \<and> ms = [] \<and> (ws_closes q \<longrightarrow> g_readErr c' = Some EOF))"
proof (cases "ws_left c")
  case (Cons x xs)
  then have p: "g_pending c = Some (ws_left c)" by (auto simp: ws_left_def split: option.splits)
  have "full_msg (ws_left c)" using assms(2) Cons by (simp add: full_msg_def)
  then obtain m' bs where r: "src_read (ws_left c) n = (m', bs, None)" "src_bytes (ws_left c) = bs @ src_bytes m'" "solid m'" "src_size m' < src_size (ws_left c)"
    using src_read_full assms(4) by metis
  have "ws_Read c n = (c\<lparr>g_pending := Some m'\<rparr>, bs, None)" using p r(1) assms(1) by (simp add: ws_Read_def)
  moreover have "ws_left (c\<lparr>g_pending := Some m'\<rparr>) = m'" by (simp add: ws_left_def)
  ultimately show ?thesis using r assms by (intro disjI1 exI [of _ "c\<lparr>g_pending := Some m'\<rparr>"] exI [of _ bs] exI [of _ ms]) auto
next
  case Nil
  have nx: "ws_Read c n = ws_next (c\<lparr>g_pending := None\<rparr>) n"
    using Nil assms(1) by (cases c; cases "g_pending c") (auto simp: ws_Read_def ws_left_def)
  show ?thesis
  proof (cases ms)
    case Nil': Nil
    then show ?thesis using nx assms(1,5,6) Nil by (auto simp: ws_next_def next_reader_sel ws_ends_def ws_closes_def)
  next
    case (Cons m ms')
    then have "full_msg m" using assms(3) by simp
    then obtain m' bs where r: "src_read m n = (m', bs, None)" "src_bytes m = bs @ src_bytes m'" "solid m'" "src_size m' < src_size m"
      using src_read_full assms(4) by metis
    let ?c = "c\<lparr>g_pending := Some m', g_in := map (WsMsg True) ms' @ q\<rparr>"
    have "ws_Read c n = (?c, bs, None)" using nx r(1) assms(1,5) Cons by (simp add: ws_next_def next_reader_sel)
    moreover have "ws_left ?c = m'" by (simp add: ws_left_def)
    ultimately show ?thesis using r assms Cons Nil by (intro disjI1 exI [of _ ?c] exI [of _ bs] exI [of _ ms']) (auto simp: src_size_def)
  qed
qed

lemma ws_reads_full:
  assumes "\<forall>n \<in> set ns. 0 < n" "ws_ends q"
  shows "g_readErr c = None \<Longrightarrow> solid (ws_left c) \<Longrightarrow> \<forall>m \<in> set ms. full_msg m \<Longrightarrow>
    g_in c = map (WsMsg True) ms @ q \<Longrightarrow> src_size (ws_left c) + sum_list (map src_size ms) < length ns \<Longrightarrow>
    \<exists>c'. ws_reads ns c = (c', src_bytes (ws_left c) @ concat (map src_bytes ms), Some EOF) \<and> (ws_closes q \<longrightarrow> g_readErr c' = Some EOF)"
  using assms
proof (induction ns arbitrary: c ms)
  case (Cons n ns)
  have n: "0 < n" using Cons.prems(6) by simp
  from ws_Read_full [OF Cons.prems(1-3) n Cons.prems(4) assms(2)] show ?case
  proof (elim disjE exE conjE)
    fix c1 bs ms1
    assume r: "ws_Read c n = (c1, bs, None)" "g_readErr c1 = None" "solid (ws_left c1)" "\<forall>m \<in> set ms1. full_msg m"
      "g_in c1 = map (WsMsg True) ms1 @ q"
      "src_bytes (ws_left c) @ concat (map src_bytes ms) = bs @ src_bytes (ws_left c1) @ concat (map src_bytes ms1)"
      "src_size (ws_left c1) + sum_list (map src_size ms1) < src_size (ws_left c) + sum_list (map src_size ms)"
    have "src_size (ws_left c1) + sum_list (map src_size ms1) < length ns" using r(7) Cons.prems(5) by simp
    then obtain c2 where "ws_reads ns c1 = (c2, src_bytes (ws_left c1) @ concat (map src_bytes ms1), Some EOF)" "ws_closes q \<longrightarrow> g_readErr c2 = Some EOF"
      using Cons.IH [OF r(2-5)] Cons.prems(6) assms(2) by auto
    then show ?thesis using r(1,6) by simp
  next
    fix c1
    assume "ws_Read c n = (c1, [], Some EOF)" "ws_left c = []" "ms = []" "ws_closes q \<longrightarrow> g_readErr c1 = Some EOF"
    then show ?thesis by simp
  qed
qed simp

text \<open>
  C26: however the messages and the reads are cut, a reader gets the bytes of the messages before the first empty one, of all
  of them if none is empty, in order and then \<^verbatim>\<open>io.EOF\<close>. That end of the stream is the same for every code of the close frame:
  a peer that fails in the middle of a stream and closes with an error code looks like one that has sent everything.
\<close>

theorem ws_stream_any_close:
  assumes "\<forall>m \<in> set ms. solid m" "\<forall>n \<in> set ns. 0 < n" "sum_list (map src_size ms) < length ns"
  shows "\<exists>c'. ws_reads ns (newGorillaConn (map (WsMsg True) ms @ [WsClose code]))
       = (c', concat (map src_bytes (takeWhile (\<lambda>m. m \<noteq> []) ms)), Some EOF)
     \<and> ([] \<notin> set ms \<longrightarrow> (\<forall>n. ws_Read c' n = (c', [], Some EOF)))"
proof -
  let ?c = "newGorillaConn (map (WsMsg True) ms @ [WsClose code])"
  let ?ms = "takeWhile (\<lambda>m. m \<noteq> []) ms" and ?q = "map (WsMsg True) (dropWhile (\<lambda>m. m \<noteq> []) ms) @ [WsClose code]"
  have q: "ws_ends ?q" "[] \<notin> set ms \<Longrightarrow> ws_closes ?q"
  proof -
    show "ws_ends ?q"
    proof (cases "dropWhile (\<lambda>m. m \<noteq> []) ms")
      case (Cons m rest)
      then have "m = []" using hd_dropWhile [of "\<lambda>m. m \<noteq> []" ms] by auto
      then show ?thesis using Cons by (simp add: ws_ends_def)
    next
      case Nil
      then show ?thesis unfolding Nil by (simp add: ws_ends_def)
    qed
    show "ws_closes ?q" if "[] \<notin> set ms"
    proof -
      have n: "dropWhile (\<lambda>m. m \<noteq> []) ms = []" using that by (auto simp: dropWhile_eq_Nil_conv)
      show ?thesis unfolding n by (simp add: ws_closes_def)
    qed
  qed
  have "map (WsMsg True) ?ms @ ?q = map (WsMsg True) (?ms @ dropWhile (\<lambda>m. m \<noteq> []) ms) @ [WsClose code]"
    by (simp only: map_append append.assoc)
  then have i: "g_readErr ?c = None" "ws_left ?c = []" "g_in ?c = map (WsMsg True) ?ms @ ?q"
    by (simp_all add: newGorillaConn_def ws_left_def)
  have "\<forall>m \<in> set ?ms. full_msg m" using assms(1) by (auto simp: full_msg_def dest: set_takeWhileD)
  moreover have "sum_list (map src_size ?ms) \<le> sum_list (map src_size ms)"
    by (metis le_add1 map_append sum_list_append takeWhile_dropWhile_id)
  then have "sum_list (map src_size ?ms) < length ns" using assms(3) by simp
  ultimately obtain c' where c': "ws_reads ns ?c = (c', concat (map src_bytes ?ms), Some EOF)" "ws_closes ?q \<longrightarrow> g_readErr c' = Some EOF"
    using ws_reads_full [OF assms(2) q(1) i(1) _ _ i(3)] i(2) by (auto simp: src_size_def)
  have "ws_Read c' n = (c', [], Some EOF)" if "[] \<notin> set ms" for n
    using c'(2) q(2) that by (simp add: ws_Read_def)
  then show ?thesis using c'(1) by blast
qed

theorem ws_stream_any_close_witness:
  "(\<exists>c'. ws_reads (replicate 9 2) (newGorillaConn (map (WsMsg True) [[Chunk [1, 2, 3] None], [Chunk [4] None]] @ [WsClose 1011]))
     = (c', [1, 2, 3, 4], Some EOF))
   \<and> (\<exists>c'. ws_reads (replicate 9 2) (newGorillaConn (map (WsMsg True) [[Chunk [1, 2, 3] None], [], [Chunk [4] None]] @ [WsClose 1000]))
     = (c', [1, 2, 3], Some EOF))"
  using ws_stream_any_close [of "[[Chunk [1, 2, 3] None], [Chunk [4] None]]" "replicate 9 2" 1011]
    ws_stream_any_close [of "[[Chunk [1, 2, 3] None], [], [Chunk [4] None]]" "replicate 9 2" 1000]
  by (fastforce simp: src_size_def simp del: ws_reads.simps)

text \<open>
  An empty message, which a \<^verbatim>\<open>Write\<close> of no bytes or an empty packet sends, reads as the end of the stream, although the
  messages behind it can still be read.
\<close>

theorem ws_empty_message_is_eof:
  assumes "ws_Write None peer [] = (peer', 0, None)" "full_msg m" "0 < n"
  shows "last (g_out peer') = [] \<and> ws_reads [n, k] (newGorillaConn [WsMsg True (bytes_reader (last (g_out peer'))), WsMsg True m])
       = (newGorillaConn [WsMsg True m]\<lparr>g_pending := Some []\<rparr>, [], Some EOF)
    \<and> (\<exists>c bs. ws_Read (newGorillaConn [WsMsg True m]\<lparr>g_pending := Some []\<rparr>) n = (c, bs, None) \<and> bs \<noteq> [])"
proof -
  have p: "last (g_out peer') = []" using assms(1) by (auto simp: ws_Write_def split: if_splits option.splits)
  obtain m' bs where r: "src_read m n = (m', bs, None)" "bs \<noteq> []" using src_read_full assms(2,3) by metis
  have "ws_reads [n, k] (newGorillaConn [WsMsg True [], WsMsg True m]) = (newGorillaConn [WsMsg True m]\<lparr>g_pending := Some []\<rparr>, [], Some EOF)"
    by (simp add: ws_Read_def ws_next_def next_reader_sel newGorillaConn_def)
  moreover have "\<exists>c bs. ws_Read (newGorillaConn [WsMsg True m]\<lparr>g_pending := Some []\<rparr>) n = (c, bs, None) \<and> bs \<noteq> []"
    using r by (simp add: ws_Read_def ws_next_def next_reader_sel newGorillaConn_def)
  ultimately show ?thesis using p by (simp add: bytes_reader_def del: ws_reads.simps)
qed

theorem ws_empty_message_is_eof_witness:
  "\<exists>c. ws_reads [8, 8] (newGorillaConn [WsMsg True [], WsMsg True [Chunk [5] None]]) = (c, [], Some EOF)"
  using ws_empty_message_is_eof [of "newGorillaConn []" "newGorillaConn []\<lparr>g_out := [[]]\<rparr>" "[Chunk [5] None]" 8 8]
  by (simp add: ws_Write_def newGorillaConn_def full_msg_def bytes_reader_def del: ws_reads.simps)

text \<open>After \<^verbatim>\<open>CloseWrite\<close> no write sends anything, and what the peer still sends can be read.\<close>

lemma next_reader_CloseWrite:
  "next_reader (ws_CloseWrite c) = (case next_reader c of (c', r) \<Rightarrow> (ws_CloseWrite c', r))"
  by (simp add: next_reader_sel ws_CloseWrite_def split: list.split ws_event.split)

lemma ws_next_CloseWrite: "snd (ws_next (ws_CloseWrite c) n) = snd (ws_next c n)"
  by (cases "next_reader c") (simp add: ws_next_def next_reader_CloseWrite, simp add: ws_CloseWrite_def split: option.split sum.split prod.split)

lemma ws_half_close:
  "ws_Write f (ws_CloseWrite c) b = (ws_CloseWrite c, 0, Some errNetClosed)"
  "snd (ws_Read (ws_CloseWrite c) n) = snd (ws_Read c n)"
proof -
  show "ws_Write f (ws_CloseWrite c) b = (ws_CloseWrite c, 0, Some errNetClosed)" by (simp add: ws_Write_def ws_CloseWrite_def)
  have p: "(ws_CloseWrite c)\<lparr>g_pending := p\<rparr> = ws_CloseWrite (c\<lparr>g_pending := p\<rparr>)"
    and sel: "g_readErr (ws_CloseWrite c) = g_readErr c" "g_pending (ws_CloseWrite c) = g_pending c" for p
    by (simp_all add: ws_CloseWrite_def)
  show "snd (ws_Read (ws_CloseWrite c) n) = snd (ws_Read c n)"
    by (cases "g_readErr c"; cases "g_pending c") (simp_all add: ws_Read_def p sel ws_next_CloseWrite split: prod.split)
qed

end
