(* ===== verification/SmartLog.thy ===== *)
theory SmartLog
  imports GoStrings GoIO GoNet
begin

text \<open>
  The log of a search of the smart dialer (\<^verbatim>\<open>x/smart/stream_dialer.go\<close>), which tests that are still running must not reach after
  the search, the signatures of its entries, and the adapters between writers of bytes and of strings that carry the log to an
  app (\<^verbatim>\<open>x/mobileproxy/stream_dialer.go\<close>).
\<close>

section \<open>A writer that can be turned off\<close>

text \<open>
  \<open>to_log\<close> is the state of the writer of the app, which goes on after the search; \<open>to_set\<close> tells whether the field \<^verbatim>\<open>writer\<close> still
  points to it. \<open>wr\<close> is the \<^verbatim>\<open>Write\<close> of that writer.
\<close>

record 's turnOffWriter =
  to_log :: 's
  to_set :: bool

definition turnOff_Write :: "'s writer \<Rightarrow> 's turnOffWriter \<Rightarrow> bytes \<Rightarrow> 's turnOffWriter \<times> nat \<times> err option" where
  "turnOff_Write wr t p =
     (if \<not> to_set t then (t, length p, None)
      else case wr (to_log t) p of (s', n, e) \<Rightarrow> (t\<lparr>to_log := s'\<rparr>, n, e))"

definition TurnOff :: "'s turnOffWriter \<Rightarrow> 's turnOffWriter" where
  "TurnOff t = t\<lparr>to_set := False\<rparr>"

text \<open>\<^verbatim>\<open>logCtx\<close>; \<open>ctx_done\<close> tells whether the context is done, and a context without a writer has \<open>None\<close>.\<close>

definition logCtx :: "'s writer \<Rightarrow> bool \<Rightarrow> 's turnOffWriter option \<Rightarrow> bytes \<Rightarrow> 's turnOffWriter option" where
  "logCtx wr ctx_done writer msg =
     (if ctx_done then writer
      else case writer of None \<Rightarrow> None | Some t \<Rightarrow> Some (fst (turnOff_Write wr t msg)))"

text \<open>The log of one search, as the lock orders it: tests log with their contexts, \<^verbatim>\<open>NewDialer\<close> writes, and at its end turns it off.\<close>

datatype log_event = LogTest bool bytes | LogSearch bytes | LogOff

fun log_step :: "'s writer \<Rightarrow> 's turnOffWriter \<Rightarrow> log_event \<Rightarrow> 's turnOffWriter" where
  "log_step wr t (LogTest ctx_done msg) = the (logCtx wr ctx_done (Some t) msg)"
| "log_step wr t (LogSearch msg) = fst (turnOff_Write wr t msg)"
| "log_step wr t LogOff = TurnOff t"

fun log_text :: "log_event list \<Rightarrow> bytes" where
  "log_text [] = []"
| "log_text (LogTest ctx_done msg # es) = (if ctx_done then log_text es else msg @ log_text es)"
| "log_text (LogSearch msg # es) = msg @ log_text es"
| "log_text (LogOff # es) = []"

lemma log_step_off: "\<not> to_set t \<Longrightarrow> log_step wr t e = t"
  by (cases e) (simp_all add: logCtx_def turnOff_Write_def TurnOff_def)

lemma log_steps_off: "\<not> to_set t \<Longrightarrow> foldl (log_step wr) t es = t"
  by (induction es) (simp_all add: log_step_off)

context reliable_writer
begin

text \<open>
  The app's log gets what was logged before the writer was turned off, by tests whose contexts were not done and by the
  search, in order, and nothing after it.
\<close>

lemma log_steps_out:
  "good (to_log t) \<Longrightarrow> to_set t \<Longrightarrow>
   out (to_log (foldl (log_step wr) t es)) = out (to_log t) @ log_text es"
proof (induction es arbitrary: t)
  case (Cons e es)
  have w: "\<exists>s'. good s' \<and> wr (to_log t) m = (s', length m, None) \<and> out s' = out (to_log t) @ m" for m
    using good_ok [OF Cons.prems(1), of m] wr_ok by metis
  show ?case
  proof (cases e)
    case (LogTest d m)
    obtain s' where "good s'" "wr (to_log t) m = (s', length m, None)" "out s' = out (to_log t) @ m" using w by blast
    then show ?thesis
      using LogTest Cons.prems Cons.IH [of "t\<lparr>to_log := s'\<rparr>"] Cons.IH [of t] by (simp add: logCtx_def turnOff_Write_def)
  next
    case (LogSearch m)
    obtain s' where "good s'" "wr (to_log t) m = (s', length m, None)" "out s' = out (to_log t) @ m" using w by blast
    then show ?thesis using LogSearch Cons.prems Cons.IH [of "t\<lparr>to_log := s'\<rparr>"] by (simp add: turnOff_Write_def)
  next
    case LogOff
    have "foldl (log_step wr) (TurnOff t) es = TurnOff t" by (rule log_steps_off) (simp add: TurnOff_def)
    then show ?thesis using LogOff by (simp add: TurnOff_def)
  qed
qed simp

end

section \<open>Signatures\<close>

text \<open>
  \<^verbatim>\<open>makeConfigErrorSignature\<close>; \<open>marshal\<close> is the YAML library and \<open>sprint\<close> is \<^verbatim>\<open>fmt.Sprint\<close>. The last three characters are the
  bytes of the ellipsis.
\<close>

definition ellipsis :: string where "ellipsis = map char_of [0xE2, 0x80, 0xA6 :: nat]"

definition makeConfigErrorSignature :: "('y \<Rightarrow> err + string) \<Rightarrow> ('y \<Rightarrow> string) \<Rightarrow> 'y \<Rightarrow> string" where
  "makeConfigErrorSignature marshal sprint config =
     (let configSignature = trim_space (case marshal config of Inl _ \<Rightarrow> sprint config | Inr sig \<Rightarrow> sig) in
      if 80 < length configSignature then take 79 configSignature @ ellipsis else configSignature)"

lemma makeConfigErrorSignature_short: "length (makeConfigErrorSignature marshal sprint config) \<le> 82"
  by (simp add: makeConfigErrorSignature_def Let_def ellipsis_def)

section \<open>Log writers of apps\<close>

text \<open>A writer of strings, which may write bytes too.\<close>

type_synonym 's string_writer = "'s \<Rightarrow> string \<Rightarrow> 's \<times> nat \<times> err option"

record 's log_writer =
  lw_WriteString :: "'s string_writer"
  lw_Write :: "'s writer option"

definition stringToBytes_WriteString :: "'s writer \<Rightarrow> 's string_writer" where
  "stringToBytes_WriteString w s logText = w s (str_bytes logText)"

definition bytestoString_Write :: "'s string_writer \<Rightarrow> 's writer" where
  "bytestoString_Write sw s b = sw s (bytes_str b)"

definition NewStderrLogWriter :: "'s writer \<Rightarrow> 's log_writer" where
  "NewStderrLogWriter stderr = \<lparr>lw_WriteString = stringToBytes_WriteString stderr, lw_Write = None\<rparr>"

definition toWriter :: "'s log_writer option \<Rightarrow> 's writer option" where
  "toWriter logWriter =
     (case logWriter of
        None \<Rightarrow> None
      | Some l \<Rightarrow> Some (case lw_Write l of Some w \<Rightarrow> w | None \<Rightarrow> bytestoString_Write (lw_WriteString l)))"

lemma str_bytes_str [simp]: "str_bytes (bytes_str b) = b"
proof -
  have "word_of_nat (unat x mod 256) = x" for x :: byte using unsigned_less [of x, where ?'a = nat] by simp
  then show ?thesis by (simp add: str_bytes_def bytes_str_def o_def of_char_of)
qed

lemma bytes_str_Nil [simp]: "bytes_str b = [] \<longleftrightarrow> b = []"
  by (simp add: bytes_str_def)

text \<open>Through both adapters the standard error gets the bytes of the log as they are.\<close>

lemma toWriter_stderr: "toWriter (Some (NewStderrLogWriter w)) = Some w"
  by (simp add: toWriter_def NewStderrLogWriter_def bytestoString_Write_def stringToBytes_WriteString_def fun_eq_iff)

text \<open>A connection that stays up as the standard error of an app: what its log shows of a search.\<close>

lemma stderr_log_of_search:
  assumes "toWriter (Some (NewStderrLogWriter sink_write)) = Some wr" "healthy s"
  shows "wire (to_log (foldl (log_step wr) \<lparr>to_log = s, to_set = True\<rparr> es)) = wire s @ log_text es"
  using assms(1) net.log_steps_out [of "\<lparr>to_log = s, to_set = True\<rparr>" es] assms(2) by (simp add: toWriter_stderr)

end
