(* ===== verification/MobileProxy.thy ===== *)
theory MobileProxy
  imports SmartStrategy SmartLog HttpTunnel
begin

text \<open>
  The library for mobile apps (\<^verbatim>\<open>x/mobileproxy\<close>): the local proxy with its life cycle and its URL proxy, and the smart dialer
  with a cache that the platform keeps. The contract of a strategy cache is the locale \<open>strategy_cache\<close>; the lemmas show that the
  platform's strings keep it, so that a strategy found in one run of an app is used by the next one, and what \<^verbatim>\<open>RunProxy\<close> and
  \<^verbatim>\<open>Stop\<close> leave behind.
\<close>

section \<open>The strategy cache\<close>

text \<open>
  The interface that \<^verbatim>\<open>smart.StrategyFinder\<close> relies on (\<^verbatim>\<open>StrategyResultCache\<close>): a stored value that is not empty is found again, and
  \<^verbatim>\<open>Put\<close> with nil removes.
\<close>

locale strategy_cache =
  fixes get :: "'s \<Rightarrow> string \<Rightarrow> bytes option" and put :: "'s \<Rightarrow> string \<Rightarrow> bytes option \<Rightarrow> 's"
  assumes get_put: "v \<noteq> [] \<Longrightarrow> get (put s k (Some v)) k = Some v"
    and get_removed: "get (put s k None) k = None"
    and get_other: "k \<noteq> k' \<Longrightarrow> get (put s k x) k' = get s k'"

text \<open>
  \<^verbatim>\<open>NewDialer\<close> with such a cache: it reads the winning strategy first, and puts what it left, a strategy or nil, unless the cached
  one was used.
\<close>

definition winningStrategyCacheKey :: string where "winningStrategyCacheKey = ''winning_strategy''"

definition finder_with_cache ::
  "('s \<Rightarrow> string \<Rightarrow> bytes option) \<Rightarrow> ('s \<Rightarrow> string \<Rightarrow> bytes option \<Rightarrow> 's) \<Rightarrow> ('y, 'd) finder \<Rightarrow> (nat \<Rightarrow> bool list \<Rightarrow> nat option)
   \<Rightarrow> 's \<Rightarrow> string list \<Rightarrow> bytes \<Rightarrow> 's \<times> 'd found option \<times> err option" where
  "finder_with_cache get put F pick s testDomains cfg =
     (case NewDialer F pick (Some (get s winningStrategyCacheKey)) testDomains cfg of
        (d, e, c) \<Rightarrow>
          ((case c of Some c' \<Rightarrow> if c' = get s winningStrategyCacheKey then s else put s winningStrategyCacheKey c' | None \<Rightarrow> s), d, e))"

context strategy_cache
begin

text \<open>
  A strategy that was found is used by the next run; the one with the empty TLS entry is stored without it, and then only its
  DNS entry is sure.
\<close>

lemma finder_resumes:
  assumes races: "\<And>i. race_choice (pick i)" and prompt: "\<And>i. prompt_race (pick' i)"
    and parse: "parseConfig F cfg = Inr c"
    and run: "finder_with_cache get put F pick s testDomains cfg = (s', Some d, None)"
    and stored: "get s' winningStrategyCacheKey = Some data"
    and yaml: "yaml_laws F" "\<And>w b. f_to_yaml F w = Inr b \<Longrightarrow> b \<noteq> []"
  shows "finder_with_cache get put F pick' s' testDomains cfg = (s', Some d, None)
    \<or> [] \<in> set (cc_TLS c) \<and> resumes_dns F pick' data testDomains cfg c d"
proof -
  let ?k = winningStrategyCacheKey
  obtain x where x: "NewDialer F pick (Some (get s ?k)) testDomains cfg = (Some d, None, x)"
    using run by (auto simp: finder_with_cache_def split: prod.splits)
  have "x = Some (Some data)"
  proof -
    obtain ranked f where r: "ranked_of F (Some (get s ?k)) c = (ranked, f)" by fastforce
    have "(\<exists>w b. x = Some (Some b) \<and> f_to_yaml F w = Inr b) \<or> x = Some (get s ?k)"
      using x [unfolded NewDialer_parsed [OF parse r] Let_def]
      by (auto split: option.splits sum.splits prod.splits)
    then show ?thesis
    proof
      assume "\<exists>w b. x = Some (Some b) \<and> f_to_yaml F w = Inr b"
      then obtain w b where b: "x = Some (Some b)" "f_to_yaml F w = Inr b" by blast
      then have "get s' ?k = Some b" using x run yaml(2) [OF b(2)] get_put by (auto simp: finder_with_cache_def split: if_splits)
      then show ?thesis using b stored by simp
    next
      assume "x = Some (get s ?k)"
      moreover from this have "s' = s" using x run by (auto simp: finder_with_cache_def)
      ultimately show ?thesis using stored by simp
    qed
  qed
  then have run': "NewDialer F pick (Some (get s ?k)) testDomains cfg = (Some d, None, Some (Some data))" using x by simp
  from NewDialer_resumes [where pick' = pick', OF races prompt yaml(1) parse run']
  show ?thesis using stored by (auto simp: finder_with_cache_def)
qed

end

text \<open>
  The cache of the platform: strings under keys, the empty string for none. \<^verbatim>\<open>Put\<close> of the platform removes on an empty value. The adapter
  turns bytes into strings and back.
\<close>

definition platform_get :: "(string \<rightharpoonup> string) \<Rightarrow> string \<Rightarrow> string" where
  "platform_get m k = (case m k of None \<Rightarrow> [] | Some v \<Rightarrow> v)"

definition platform_put :: "(string \<rightharpoonup> string) \<Rightarrow> string \<Rightarrow> string \<Rightarrow> (string \<rightharpoonup> string)" where
  "platform_put m k v = (if v = [] then m(k := None) else m(k \<mapsto> v))"

definition adapter_Get :: "(string \<rightharpoonup> string) \<Rightarrow> string \<Rightarrow> bytes option" where
  "adapter_Get m key = (let v = platform_get m key in if v = [] then None else Some (str_bytes v))"

definition adapter_Put :: "(string \<rightharpoonup> string) \<Rightarrow> string \<Rightarrow> bytes option \<Rightarrow> (string \<rightharpoonup> string)" where
  "adapter_Put m key value = platform_put m key (case value of None \<Rightarrow> [] | Some b \<Rightarrow> bytes_str b)"

interpretation adapter: strategy_cache adapter_Get adapter_Put
  by unfold_locales (auto simp: adapter_Get_def adapter_Put_def platform_get_def platform_put_def Let_def)

text \<open>
  With the platform's strings as the cache, a strategy that one run of an app has found and stored is used by the next one: with
  the same configuration and tests that still give the same results it returns the same dialer and leaves the cache as it is. Only
  a strategy with the empty TLS entry may come back with another TLS entry that works, over the same DNS entry.
\<close>

theorem mobile_dialer_resumes:
  assumes races: "\<And>i. race_choice (pick i)" and prompt: "\<And>i. prompt_race (pick' i)"
    and parse: "parseConfig F cfg = Inr c"
    and run: "finder_with_cache adapter_Get adapter_Put F pick m testDomains cfg = (m', Some d, None)"
    and stored: "platform_get m' winningStrategyCacheKey \<noteq> []"
    and yaml: "yaml_laws F" "\<And>w b. f_to_yaml F w = Inr b \<Longrightarrow> b \<noteq> []"
  shows "finder_with_cache adapter_Get adapter_Put F pick' m' testDomains cfg = (m', Some d, None)
    \<or> [] \<in> set (cc_TLS c)
      \<and> resumes_dns F pick' (str_bytes (platform_get m' winningStrategyCacheKey)) testDomains cfg c d"
proof -
  have "adapter_Get m' winningStrategyCacheKey = Some (str_bytes (platform_get m' winningStrategyCacheKey))"
    using stored by (simp add: adapter_Get_def Let_def)
  then show ?thesis by (rule adapter.finder_resumes [where pick' = pick', OF races prompt parse run _ yaml])
qed

lemma mobile_dialer_resumes_witness:
  "finder_with_cache adapter_Get adapter_Put demo_finder (\<lambda>_. seq_pick) [winningStrategyCacheKey \<mapsto> [char_of (1 :: nat)]] [''a.org''] [0]
    = ([winningStrategyCacheKey \<mapsto> [char_of (1 :: nat)]], Some (ByPort ''dns'' ''tlsfrag:1''), None)"
proof -
  let ?m = "[winningStrategyCacheKey \<mapsto> [char_of (1 :: nat)]]"
  have run: "finder_with_cache adapter_Get adapter_Put demo_finder (\<lambda>_. seq_pick) Map.empty [''a.org''] [0]
      = (?m, Some (ByPort ''dns'' ''tlsfrag:1''), None)"
    using demo_first by (simp add: finder_with_cache_def adapter_Get_def adapter_Put_def platform_get_def platform_put_def bytes_str_def)
  have tls: "[] \<notin> set (cc_TLS demo_config)" by (simp add: demo_config_def)
  have ne: "b \<noteq> []" if "f_to_yaml demo_finder w = Inr b" for w b
    using that by (auto simp: demo_finder_def split: if_splits)
  have put: "platform_get ?m winningStrategyCacheKey \<noteq> []" by (simp add: platform_get_def)
  show ?thesis
    using mobile_dialer_resumes [where pick' = "\<lambda>_. seq_pick", OF seq.race_choice_axioms seq.prompt_race_axioms demo_parse(1) run put
        demo_yaml_laws] ne tls by blast
qed

section \<open>Options of the smart dialer\<close>

text \<open>\<^verbatim>\<open>None\<close> stands for nil; the fallback parsers are a map that is made when it is first needed.\<close>

record ('s, 'k, 'p) smart_options =
  so_testDomains :: "string list"
  so_config :: bytes
  so_testTimeout :: nat
  so_fallbackParsers :: "(string \<rightharpoonup> 'p) option"
  so_logWriter :: "'s writer option"
  so_cache :: "'k option"

definition NewSmartDialerOptions :: "string list \<Rightarrow> string \<Rightarrow> ('s, 'k, 'p) smart_options" where
  "NewSmartDialerOptions testDomains config =
     \<lparr>so_testDomains = testDomains, so_config = str_bytes config, so_testTimeout = 5, so_fallbackParsers = None,
      so_logWriter = None, so_cache = None\<rparr>"

definition SetLogWriter :: "'s log_writer option \<Rightarrow> ('s, 'k, 'p) smart_options \<Rightarrow> ('s, 'k, 'p) smart_options" where
  "SetLogWriter w opt = opt\<lparr>so_logWriter := toWriter w\<rparr>"

definition SetStrategyCache :: "'k option \<Rightarrow> ('s, 'k, 'p) smart_options \<Rightarrow> ('s, 'k, 'p) smart_options" where
  "SetStrategyCache c opt = opt\<lparr>so_cache := c\<rparr>"

definition ensureFallbackParsers :: "('s, 'k, 'p) smart_options \<Rightarrow> ('s, 'k, 'p) smart_options" where
  "ensureFallbackParsers opt = (if so_fallbackParsers opt = None then opt\<lparr>so_fallbackParsers := Some Map.empty\<rparr> else opt)"

definition RegisterFallbackParser :: "string \<Rightarrow> 'p \<Rightarrow> ('s, 'k, 'p) smart_options \<Rightarrow> ('s, 'k, 'p) smart_options" where
  "RegisterFallbackParser name parser opt =
     (let o1 = ensureFallbackParsers opt in o1\<lparr>so_fallbackParsers := map_option (\<lambda>m. m(name \<mapsto> parser)) (so_fallbackParsers o1)\<rparr>)"

lemma registered_parser:
  "the (so_fallbackParsers (RegisterFallbackParser n p opt)) n = Some p"
  by (auto simp: RegisterFallbackParser_def ensureFallbackParsers_def Let_def)

text \<open>
  \<^verbatim>\<open>NewStreamDialer\<close> of the options: a finder gets the parsers, and the cache if there is one, here the platform's strings \<open>m\<close>. \<open>F\<close> is the
  finder without its parsers.
\<close>

definition options_NewStreamDialer ::
  "('y, 'd) finder \<Rightarrow> (nat \<Rightarrow> bool list \<Rightarrow> nat option) \<Rightarrow> (string \<rightharpoonup> string) \<Rightarrow> ('s, 'k, 'y \<Rightarrow> (err + 'd) \<times> string) smart_options
   \<Rightarrow> (string \<rightharpoonup> string) \<times> (err + 'd found)" where
  "options_NewStreamDialer F pick m opt =
     (let F' = F\<lparr>f_parsers := the (so_fallbackParsers (ensureFallbackParsers opt))\<rparr> in
      case (case so_cache opt of
              None \<Rightarrow> (case NewDialer F' pick None (so_testDomains opt) (so_config opt) of (d, e, _) \<Rightarrow> (m, d, e))
            | Some _ \<Rightarrow> finder_with_cache adapter_Get adapter_Put F' pick m (so_testDomains opt) (so_config opt)) of
        (m', d, Some e) \<Rightarrow> (m', Inl (ErrWrap ''failed to find dialer'' e))
      | (m', d, None) \<Rightarrow> (m', Inr (the d)))"

text \<open>Without a cache the strings of the platform stay as they are; with one, a dialer that was found and stored is found again.\<close>

lemma options_without_cache: "so_cache opt = None \<Longrightarrow> fst (options_NewStreamDialer F pick m opt) = m"
  by (simp add: options_NewStreamDialer_def Let_def split: prod.split option.split)

lemma options_resume:
  fixes F :: "('y, 'd) finder" and opt :: "('s, 'k, 'y \<Rightarrow> (err + 'd) \<times> string) smart_options"
  defines "F' \<equiv> F\<lparr>f_parsers := the (so_fallbackParsers (ensureFallbackParsers opt))\<rparr>"
  assumes cache: "so_cache opt \<noteq> None" and races: "\<And>i. race_choice (pick i)" and prompt: "\<And>i. prompt_race (pick' i)"
    and parse: "parseConfig F' (so_config opt) = Inr c"
    and run: "finder_with_cache adapter_Get adapter_Put F' pick m (so_testDomains opt) (so_config opt) = (m', Some d, None)"
    and stored: "adapter_Get m' winningStrategyCacheKey = Some data"
    and yaml: "yaml_laws F'" "\<And>w b. f_to_yaml F' w = Inr b \<Longrightarrow> b \<noteq> []"
  shows "options_NewStreamDialer F pick m opt = (m', Inr d)
     \<and> (options_NewStreamDialer F pick' m' opt = (m', Inr d)
        \<or> [] \<in> set (cc_TLS c) \<and> resumes_dns F' pick' data (so_testDomains opt) (so_config opt) c d)"
proof -
  have first: "options_NewStreamDialer F pick m opt = (m', Inr d)"
    using cache run unfolding F'_def options_NewStreamDialer_def Let_def by auto
  have second: "options_NewStreamDialer F pick' m' opt = (m', Inr d)"
    if "finder_with_cache adapter_Get adapter_Put F' pick' m' (so_testDomains opt) (so_config opt) = (m', Some d, None)"
    using cache that unfolding F'_def options_NewStreamDialer_def Let_def by auto
  from adapter.finder_resumes [where pick' = pick', OF races prompt parse run stored yaml(1)] yaml(2) show ?thesis
    using first second by blast
qed

text \<open>The function with the options of old: no cache, no parsers of the app, and a log.\<close>

definition NewSmartStreamDialer ::
  "('y, 'd) finder \<Rightarrow> (nat \<Rightarrow> bool list \<Rightarrow> nat option) \<Rightarrow> string list \<Rightarrow> string \<Rightarrow> 's log_writer option \<Rightarrow> err + 'd found" where
  "NewSmartStreamDialer F pick testDomains searchConfig logWriter =
     snd (options_NewStreamDialer F pick Map.empty
       (SetLogWriter logWriter (NewSmartDialerOptions testDomains searchConfig :: ('s, unit, 'y \<Rightarrow> (err + 'd) \<times> string) smart_options)))"

lemma NewSmartStreamDialer_eq:
  "NewSmartStreamDialer F pick testDomains searchConfig logWriter =
     (case NewDialer (F\<lparr>f_parsers := Map.empty\<rparr>) pick None testDomains (str_bytes searchConfig) of
        (_, Some e, _) \<Rightarrow> Inl (ErrWrap ''failed to find dialer'' e)
      | (d, None, _) \<Rightarrow> Inr (the d))"
  by (auto simp: NewSmartStreamDialer_def options_NewStreamDialer_def SetLogWriter_def NewSmartDialerOptions_def ensureFallbackParsers_def
      Let_def split: prod.split option.split)

definition list_Append :: "string list \<Rightarrow> string \<Rightarrow> string list" where
  "list_Append l value = l @ [value]"

definition NewListFromLines :: "string \<Rightarrow> string list" where
  "NewListFromLines lines = split_on (char_of (10 :: nat)) lines"

section \<open>The proxy\<close>

text \<open>
  \<^verbatim>\<open>mp_fallback\<close> is the path and the dialer of the URL proxy; \<open>None\<close> is \<^verbatim>\<open>NotFoundHandler\<close>. A stopped proxy has no server and no
  handler.
\<close>

record 'd mobile_proxy =
  mp_host :: string
  mp_port :: int
  mp_fallback :: "(string \<times> 'd) option"
  mp_running :: bool

text \<open>
  \<^verbatim>\<open>RunProxy\<close>: \<open>listen\<close> gives the address of the listener; the result is whether the listener is left open, and the proxy or an
  error. The server owns the listener once it runs.
\<close>

definition RunProxy :: "(string \<Rightarrow> err + string) \<Rightarrow> string \<Rightarrow> 'd option \<Rightarrow> bool \<times> (err + 'd mobile_proxy)" where
  "RunProxy listen localAddress dialer =
     (case listen localAddress of
        Inl e \<Rightarrow> (False, Inl (ErrWrap (''could not listen on address '' @ localAddress) e))
      | Inr addr \<Rightarrow>
          (case dialer of
             None \<Rightarrow> (True, Inl (ErrNew ''dialer must not be nil. Please create and pass a valid StreamDialer''))
           | Some _ \<Rightarrow>
               (True,
                case split_host_port addr of
                  Inl e \<Rightarrow> Inl (ErrWrap (''could not parse proxy address '' @ addr) e)
                | Inr (host, portStr) \<Rightarrow>
                    (case parse_int portStr of
                       Inl e \<Rightarrow> Inl (ErrWrap (''could not parse proxy port '' @ portStr) e)
                     | Inr port \<Rightarrow> Inr \<lparr>mp_host = host, mp_port = port, mp_fallback = None, mp_running = True\<rparr>))))"

definition proxy_Address :: "'d mobile_proxy \<Rightarrow> string" where
  "proxy_Address p = join_host_port (mp_host p) (int_text (mp_port p))"

definition AddURLProxy :: "string \<Rightarrow> 'd \<Rightarrow> 'd mobile_proxy \<Rightarrow> 'd mobile_proxy" where
  "AddURLProxy path dialer p =
     (if \<not> mp_running p then p
      else p\<lparr>mp_fallback := Some (if path = [] \<or> hd path \<noteq> CHR ''/'' then ''/'' @ path else path, dialer)\<rparr>)"

text \<open>
  \<^verbatim>\<open>Stop\<close>; \<open>shutdown\<close> is the result of \<^verbatim>\<open>Shutdown\<close> within the timeout. \<^verbatim>\<open>log.Fatalf\<close> ends the process, and a nil server panics.
\<close>

datatype 'd stop_result = Stopped "'d mobile_proxy" | ProcessExits | StopPanics

definition proxy_Stop :: "err option \<Rightarrow> 'd mobile_proxy \<Rightarrow> 'd stop_result" where
  "proxy_Stop shutdown p =
     (if \<not> mp_running p then StopPanics
      else case shutdown of Some _ \<Rightarrow> ProcessExits | None \<Rightarrow> Stopped (p\<lparr>mp_fallback := None, mp_running := False\<rparr>))"

text \<open>
  \<^verbatim>\<open>RunProxy\<close> without a dialer fails and leaves its listener open; a \<^verbatim>\<open>Stop\<close> whose connections do not end in time ends the
  process of the app, where the documentation says that they are closed, and a second \<^verbatim>\<open>Stop\<close> panics.
\<close>

theorem proxy_life_cycle:
  assumes "listen addr = Inr a" "mp_running (p :: 'd mobile_proxy)" "proxy_Stop None p = Stopped p'"
  shows "(\<exists>e. RunProxy listen addr (None :: 'd option) = (True, Inl e)) \<and> proxy_Stop (Some e) p = ProcessExits \<and> proxy_Stop x p' = StopPanics"
  using assms by (auto simp: RunProxy_def proxy_Stop_def)

theorem proxy_life_cycle_witness:
  "proxy_Stop None (\<lparr>mp_host = ''localhost'', mp_port = 80, mp_fallback = None, mp_running = False\<rparr> :: unit mobile_proxy) = StopPanics"
  using proxy_life_cycle [of "\<lambda>_. Inr ''localhost:80''" "''localhost:0''" "''localhost:80''"
      "\<lparr>mp_host = ''localhost'', mp_port = 80, mp_fallback = None, mp_running = True\<rparr> :: unit mobile_proxy"
      "\<lparr>mp_host = ''localhost'', mp_port = 80, mp_fallback = None, mp_running = False\<rparr>" EOF None]
  by (simp add: proxy_Stop_def)

text \<open>The address of a proxy that runs is that of its listener.\<close>

lemma proxy_address_of_listener:
  assumes "RunProxy listen addr (Some d) = (True, Inr p)" "listen addr = Inr (join_host_port h (itoa n))"
    and "CHR ''['' \<notin> set h" "CHR '']'' \<notin> set h" "parse_int (itoa n) = Inr (int n)" "int_text (int n) = itoa n"
  shows "proxy_Address p = join_host_port h (itoa n)"
  using assms by (auto simp: RunProxy_def proxy_Address_def split_join_host_port itoa_plain)

text \<open>
  The handler of a request that is no proxy request: \<^verbatim>\<open>http.StripPrefix\<close> takes the prefix from the path, or answers 404; \<open>serve d\<close> is the path
  handler with the dialer \<open>d\<close>.
\<close>

definition strip_prefix :: "string \<Rightarrow> (proxy_req \<Rightarrow> http_resp \<Rightarrow> http_resp) \<Rightarrow> proxy_req \<Rightarrow> http_resp \<Rightarrow> http_resp" where
  "strip_prefix prefix h req r =
     (let path = u_path (rq_url req) in
      if take (length prefix) path = prefix \<and> prefix \<noteq> []
      then h (req\<lparr>rq_url := (rq_url req)\<lparr>u_path := drop (length prefix) path\<rparr>\<rparr>) r
      else if prefix = [] then h req r
      else http_error ''404 page not found'' 404 r)"

definition fallback_handler :: "('d \<Rightarrow> proxy_req \<Rightarrow> http_resp \<Rightarrow> http_resp) \<Rightarrow> 'd mobile_proxy \<Rightarrow> proxy_req \<Rightarrow> http_resp \<Rightarrow> http_resp" where
  "fallback_handler serve p =
     (case mp_fallback p of
        None \<Rightarrow> (\<lambda>req r. http_error ''404 page not found'' 404 r)
      | Some (path, d) \<Rightarrow> strip_prefix path (serve d))"

text \<open>
  A request of the local proxy for \<^verbatim>\<open>/PATH/URL\<close> is answered with what the target of \<open>URL\<close> sends, its status included; the last
  \<^verbatim>\<open>AddURLProxy\<close> counts, and a request for another path gets 404.
\<close>

theorem url_proxy_serves:
  assumes run: "mp_running p" "path = ''/'' @ name"
    and req: "rq_method req \<noteq> ''CONNECT''" "u_host (rq_url req) = []" "u_path (rq_url req) = path @ ''/'' @ url" "url \<noteq> []" "u_rawQuery (rq_url req) = []"
    and target: "parse url = Inr target" "new_req (rq_method req) target (rq_body req) = Inr tq"
      "client d (tq\<lparr>tq_header := tq_header tq @ rq_header req\<rparr>) = Inr ts" "clean (ts_body ts)"
    and h: "h = fallback_handler (\<lambda>d. path_ServeHTTP parse new_req (client d)) (AddURLProxy path d (AddURLProxy path' d' p))"
  shows "rs_sent (proxy_ServeHTTP connect forward (Some h) not_found req fresh_resp) = Some (ts_status ts, ts_header ts)
    \<and> rs_body (proxy_ServeHTTP connect forward (Some h) not_found req fresh_resp) = src_bytes (ts_body ts)"
proof -
  let ?req = "req\<lparr>rq_url := (rq_url req)\<lparr>u_path := ''/'' @ url\<rparr>\<rparr>"
  let ?r = "write_header (ts_status ts) (fresh_resp\<lparr>rs_header := rs_header fresh_resp @ ts_header ts\<rparr>)"
  have s: "rs_script ?r = []" by (simp add: write_header_def fresh_resp_def)
  have n: "new_req (rq_method ?req) target (rq_body ?req) = Inr tq" "client d (tq\<lparr>tq_header := tq_header tq @ rq_header ?req\<rparr>) = Inr ts"
    using target by simp_all
  have "proxy_ServeHTTP connect forward (Some h) not_found req fresh_resp = path_ServeHTTP parse new_req (client d) ?req fresh_resp"
    using run req by (simp add: proxy_ServeHTTP_def h fallback_handler_def AddURLProxy_def strip_prefix_def Let_def)
  also have "\<dots> = body_started ?r (src_bytes (ts_body ts))"
    using req(4,5) target(1) fetch_ok [where new_req = new_req and client = "client d" and req = ?req and send = write_header, OF n target(4) s]
    by (simp add: path_ServeHTTP_def)
  finally show ?thesis by (simp add: write_header_def fresh_resp_def)
qed

theorem url_proxy_serves_witness:
  "rs_sent (proxy_ServeHTTP (\<lambda>_ r. r) (\<lambda>_ r. r)
      (Some (fallback_handler (\<lambda>_. path_ServeHTTP Inr demo_new_req (demo_target [Chunk [1] None]))
        (AddURLProxy ''/proxy'' () (AddURLProxy ''old'' () \<lparr>mp_host = ''localhost'', mp_port = 80, mp_fallback = None, mp_running = True\<rparr>))))
      (\<lambda>_ r. r)
      (demo_proxy_req\<lparr>rq_url := \<lparr>u_host = [], u_path = ''/proxy/http://a.test/'', u_rawQuery = [], u_text = []\<rparr>\<rparr>) fresh_resp)
   = Some (404, [(''Url'', ''http://a.test/'')])"
  using url_proxy_serves [of "\<lparr>mp_host = ''localhost'', mp_port = 80, mp_fallback = None, mp_running = True\<rparr> :: unit mobile_proxy" "''/proxy''" "''proxy''"
      "demo_proxy_req\<lparr>rq_url := \<lparr>u_host = [], u_path = ''/proxy/http://a.test/'', u_rawQuery = [], u_text = []\<rparr>\<rparr>" "''http://a.test/''"
      Inr "''http://a.test/''" demo_new_req "\<lparr>tq_method = ''GET'', tq_url = ''http://a.test/'', tq_header = [], tq_body = []\<rparr>"
      "\<lambda>_. demo_target [Chunk [1] None]" "()" "\<lparr>ts_status = 404, ts_header = [(''Url'', ''http://a.test/'')], ts_body = [Chunk [1] None]\<rparr>"
      _ "''old''" "()"]
  by (simp add: demo_proxy_req_def demo_new_req_def demo_target_def)

end
