(* ===== verification/ConfigTypes.thy ===== *)
theory ConfigTypes
  imports ConfigSanitize
begin

text \<open>
  Typing of what the providers of \<^verbatim>\<open>x/configurl\<close> build: the parameters that a configuration reaches the dialers with satisfy what
  the code of the dialers requires of them, and the dialers are nested in the order of the configuration.
\<close>

section \<open>Well-formed dialers\<close>

definition addr_ok :: "string \<Rightarrow> bool" where
  "addr_ok a = (\<exists>hp. split_host_port a = Inr hp)"

text \<open>The address of a resolver: it has a port, or the default port was joined to it.\<close>

definition resolver_addr :: "string \<Rightarrow> string \<Rightarrow> bool" where
  "resolver_addr port a = (addr_ok a \<or> (\<exists>h. a = join_host_port h port))"

definition client_ok :: "client \<Rightarrow> bool" where
  "client_ok c = (case cred c of None \<Rightarrow> True
     | Some cr \<Rightarrow> length (username cr) \<in> {1..255} \<and> length (password cr) \<in> {1..255})"

definition dnstt_ok :: "dnsttConfig \<Rightarrow> resolver option \<Rightarrow> bool" where
  "dnstt_ok c r = (dt_domain c \<noteq> [] \<and> length (dt_pubkey c) = 32 \<and> (dt_kind c = TransportResolver \<longleftrightarrow> r \<noteq> None)
     \<and> (case dt_kind c of TransportDoH \<Rightarrow> dt_doh c \<noteq> [] | TransportDoT \<Rightarrow> dt_dot c \<noteq> [] | TransportUDP \<Rightarrow> dt_udp c \<noteq> []
        | TransportResolver \<Rightarrow> True | TransportInvalid \<Rightarrow> False))"

definition turn_ok :: "'a turnConfig \<Rightarrow> bool" where
  "turn_ok c = (addr_ok (tn_server c) \<and> tn_user c \<noteq> [])"

fun sd_ok :: "('k, 'a) stream_dialer \<Rightarrow> bool"
  and pd_ok :: "('k, 'a) packet_dialer \<Rightarrow> bool"
  and pl_ok :: "('k, 'a) packet_listener \<Rightarrow> bool" where
  "sd_ok TCPDialer = True"
| "sd_ok (DisorderDialer d n) = (sd_ok d \<and> 0 \<le> n)"
| "sd_ok (DNSTTDialer c r) = dnstt_ok c r"
| "sd_ok (DO53Dialer d p r) = (sd_ok d \<and> pd_ok p \<and> (\<exists>a. resolver_addr ''53'' a \<and> r = (NewUDPResolver a, NewTCPResolver a)))"
| "sd_ok (DOHDialer d r) = (sd_ok d \<and> (\<exists>a host. resolver_addr ''443'' a \<and> r = NewHTTPSResolver a (doh_url host)))"
| "sd_ok (ConnectDialer kind None a opts) = (kind = H3Proxy \<and> addr_ok a)"
| "sd_ok (ConnectDialer kind (Some d) a opts) = (kind \<noteq> H3Proxy \<and> sd_ok d \<and> addr_ok a)"
| "sd_ok (OverrideDialer d hp) = sd_ok d"
| "sd_ok (SOCKS5Dialer d a c) = (sd_ok d \<and> client_ok c)"
| "sd_ok (SplitDialer d it) = (sd_ok d \<and> (\<exists>splits. it = new_repeated_split_iterator splits))"
| "sd_ok (ShadowsocksDialer d a k prefix) = (sd_ok d \<and> prefix \<noteq> Some [])"
| "sd_ok (TLSDialer d opts) = sd_ok d"
| "sd_ok (TLSFragDialer d n) = sd_ok d"
| "sd_ok (TURNStreamDialer c) = turn_ok c"
| "sd_ok (WebsocketDialer d path) = (sd_ok d \<and> path \<noteq> [])"
| "pd_ok UDPDialer = True"
| "pd_ok (OverridePacketDialer p hp) = pd_ok p"
| "pd_ok (ListenerDialer l) = pl_ok l"
| "pd_ok (WebsocketPacketDialer d path) = (sd_ok d \<and> path \<noteq> [])"
| "pl_ok UDPListener = True"
| "pl_ok (SOCKS5Listener d p a c) = (sd_ok d \<and> pd_ok p \<and> client_ok c)"
| "pl_ok (ShadowsocksListener p a k) = pd_ok p"
| "pl_ok (TURNListener c) = (turn_ok c \<and> tn_pass c \<noteq> [])"

text \<open>The types of a dialer and of the stream dialers below it, the outermost first.\<close>

fun sd_chain :: "('k, 'a) stream_dialer \<Rightarrow> string list" where
  "sd_chain TCPDialer = []"
| "sd_chain (DisorderDialer d n) = ''disorder'' # sd_chain d"
| "sd_chain (DNSTTDialer c r) = [''dnstt'']"
| "sd_chain (DO53Dialer d p r) = ''do53'' # sd_chain d"
| "sd_chain (DOHDialer d r) = ''doh'' # sd_chain d"
| "sd_chain (ConnectDialer kind None a opts) = [''h3connect'']"
| "sd_chain (ConnectDialer kind (Some d) a opts) = (if kind = H2Proxy then ''h2connect'' else ''httpconnect'') # sd_chain d"
| "sd_chain (OverrideDialer d hp) = ''override'' # sd_chain d"
| "sd_chain (SOCKS5Dialer d a c) = ''socks5'' # sd_chain d"
| "sd_chain (SplitDialer d it) = ''split'' # sd_chain d"
| "sd_chain (ShadowsocksDialer d a k prefix) = ''ss'' # sd_chain d"
| "sd_chain (TLSDialer d opts) = ''tls'' # sd_chain d"
| "sd_chain (TLSFragDialer d n) = ''tlsfrag'' # sd_chain d"
| "sd_chain (TURNStreamDialer c) = [''turn'']"
| "sd_chain (WebsocketDialer d path) = ''ws'' # sd_chain d"

section \<open>The options\<close>

lemma client_ok_none [simp]: "client_ok \<lparr>cred = None\<rparr>"
  by (simp add: client_ok_def)

lemma SetCredentials_ok: "SetCredentials u p c = (c', None) \<Longrightarrow> client_ok c'"
  by (auto simp: SetCredentials_def client_ok_def Suc_le_eq not_less split: if_splits)

lemma newSOCKS5Client_ok: "newSOCKS5Client b u = Inr (d, c) \<Longrightarrow> bs_sd b = Inr d \<and> client_ok c"
proof (cases "u_user u")
  case (Some np)
  assume new: "newSOCKS5Client b u = Inr (d, c)"
  obtain name pass where np: "np = (name, pass)" by fastforce
  let ?s = "SetCredentials (str_bytes name) (str_bytes (case pass of None \<Rightarrow> [] | Some p \<Rightarrow> p)) \<lparr>cred = None\<rparr>"
  obtain c' e where s: "?s = (c', e)" by fastforce
  have "bs_sd b = Inr d" "e = None" "c' = c"
    using new unfolding newSOCKS5Client_def seq_err_Inr Some np by (auto simp: s split: option.splits)
  then show ?thesis using SetCredentials_ok s by blast
qed (auto simp: newSOCKS5Client_def seq_err_Inr)

lemma newDO53Resolver_ok: "newDO53Resolver L u = Inr r \<Longrightarrow> \<exists>a. resolver_addr ''53'' a \<and> r = (NewUDPResolver a, NewTCPResolver a)"
  by (auto simp: newDO53Resolver_def Let_def resolver_addr_def addr_ok_def split: sum.splits if_splits)

lemma newDOHResolver_ok: "newDOHResolver L u = Inr r \<Longrightarrow> \<exists>a host. resolver_addr ''443'' a \<and> r = NewHTTPSResolver a (doh_url host)"
  by (auto simp: newDOHResolver_def Let_def resolver_addr_def addr_ok_def split: sum.splits if_splits prod.splits)

lemma parseTURNConfig_ok: "parseTURNConfig L u = Inr c \<Longrightarrow> turn_ok c"
  by (auto simp: parseTURNConfig_def Let_def turn_ok_def addr_ok_def split: sum.splits if_splits option.splits prod.splits)

lemma proxy_addr_ok_ok: "proxy_addr_ok a = None \<Longrightarrow> addr_ok a"
  by (auto simp: proxy_addr_ok_def addr_ok_def split: sum.splits)

lemma dnstt_valid_ok:
  "dnstt_valid E c (r \<noteq> None) = None \<Longrightarrow> (dt_kind c \<noteq> TransportResolver \<Longrightarrow> r = None) \<Longrightarrow> dnstt_ok c r"
  by (auto simp: dnstt_valid_def dnstt_ok_def split: if_splits option.splits dnstt_kind.splits)

section \<open>The builders\<close>

text \<open>What a builder makes of a well-formed base is well-formed, and its type is the outermost one.\<close>

definition base_ok :: "('k, 'a) base \<Rightarrow> bool" where
  "base_ok b = ((\<forall>d. bs_sd b = Inr d \<longrightarrow> sd_ok d) \<and> (\<forall>p. bs_pd b = Inr p \<longrightarrow> pd_ok p))"

lemma base_okD: "base_ok b \<Longrightarrow> bs_sd b = Inr d \<Longrightarrow> sd_ok d" "base_ok b \<Longrightarrow> bs_pd b = Inr p \<Longrightarrow> pd_ok p"
  by (auto simp: base_ok_def)

text \<open>A type that a dialer without base has, or one on top of the base's types.\<close>

definition built :: "('k, 'a) base \<Rightarrow> string \<Rightarrow> ('k, 'a) stream_dialer \<Rightarrow> bool" where
  "built b ty d = (sd_ok d \<and> (sd_chain d = [ty] \<and> (\<not> bs_present b \<or> ty = ''h3connect'')
     \<or> (\<exists>d'. bs_sd b = Inr d' \<and> sd_chain d = ty # sd_chain d')))"

named_theorems builder_defs

lemmas [builder_defs] = build_disorder_def build_do53_def build_doh_def build_connect_def build_h3connect_def build_override_def
  build_override_pd_def build_socks5_def build_socks5_pl_def build_split_def build_ss_def build_ss_pl_def build_tls_def build_tlsfrag_def
  build_turn_pl_def build_ws_def build_ws_pd_def seq_err_Inr

lemmas options_ok = newSOCKS5Client_ok newDO53Resolver_ok newDOHResolver_ok parseTURNConfig_ok proxy_addr_ok_ok

lemma build_disorder_ok: "base_ok b \<Longrightarrow> build_disorder b u = Inr d \<Longrightarrow> built b ''disorder'' d"
  by (cases "parse_int (u_opaque u)") (auto simp: builder_defs built_def base_ok_def new_disorder_dialer_def split: if_splits)

lemma build_dnstt_ok: "build_dnstt E b u = Inr d \<Longrightarrow> built b ''dnstt'' d"
  by (auto simp: build_dnstt_def seq_err_Inr built_def Let_def split: if_splits option.splits intro!: dnstt_valid_ok [where E = E])

lemma build_dns_ok:
  "base_ok b \<Longrightarrow> build_do53 E b u = Inr d \<Longrightarrow> built b ''do53'' d"
  "base_ok b \<Longrightarrow> build_doh E b u = Inr d \<Longrightarrow> built b ''doh'' d"
  by (auto simp: builder_defs built_def base_ok_def dest!: options_ok) blast

lemma build_connect_ok:
  "base_ok b \<Longrightarrow> build_connect E HTTPProxy b u = Inr d \<Longrightarrow> built b ''httpconnect'' d"
  "base_ok b \<Longrightarrow> build_connect E H2Proxy b u = Inr d \<Longrightarrow> built b ''h2connect'' d"
  "build_h3connect E u = Inr d \<Longrightarrow> built b ''h3connect'' d"
  by (auto simp: builder_defs built_def base_ok_def split: option.splits dest: options_ok)

lemma build_plain_ok:
  assumes "base_ok b"
  shows "build_override E b u = Inr d \<Longrightarrow> built b ''override'' d"
    and "build_socks5 b u = Inr d \<Longrightarrow> built b ''socks5'' d"
    and "build_split b u = Inr d \<Longrightarrow> built b ''split'' d"
    and "build_ss E b u = Inr d \<Longrightarrow> built b ''ss'' d"
    and "build_tls E b u = Inr d \<Longrightarrow> built b ''tls'' d"
    and "build_tlsfrag b u = Inr d \<Longrightarrow> built b ''tlsfrag'' d"
    and "build_ws E b u = Inr d \<Longrightarrow> built b ''ws'' d"
  using assms
  by (cases "parse_int (u_opaque u)"; auto simp: builder_defs built_def base_ok_def split: if_splits dest!: newSOCKS5Client_ok)+

lemma build_turn_ok: "build_turn E b u = Inr c \<Longrightarrow> turn_ok c \<and> \<not> bs_present b"
  by (auto simp: build_turn_def split: if_splits dest: parseTURNConfig_ok)

lemma stream_builder_ok:
  assumes "base_ok b" "run_builder (stream_builder E ty) b u = Inr d"
  shows "built b ty d"
proof -
  have turn: "seq_err (build_turn E b u) (\<lambda>c. Inr (TURNStreamDialer c)) = Inr d \<Longrightarrow> built b ''turn'' d"
    by (auto simp: seq_err_Inr built_def dest: build_turn_ok)
  show ?thesis
    using assms build_disorder_ok [of b u d] build_dnstt_ok [of E b u d] build_dns_ok [where b = b and E = E and u = u and d = d]
      build_connect_ok [where b = b and E = E and u = u and d = d] build_plain_ok(1,4,5,7) [OF assms(1), of E u d]
      build_plain_ok(2,3,6) [OF assms(1), of u d] turn
    by (simp add: stream_builder_def run_builder_def split: if_splits)
qed

lemma packet_builder_ok:
  assumes "base_ok b" "run_builder (packet_builder E ty) b u = Inr p"
  shows "pd_ok p"
  using assms
  by (auto simp: packet_builder_def run_builder_def builder_defs base_ok_def split: if_splits dest!: newSOCKS5Client_ok build_turn_ok)

lemma listener_builder_ok:
  assumes "base_ok b" "run_builder (listener_builder E ty) b u = Inr l"
  shows "pl_ok l"
  using assms
  by (auto simp: listener_builder_def run_builder_def builder_defs base_ok_def split: if_splits dest!: newSOCKS5Client_ok build_turn_ok)

section \<open>Configurations\<close>

lemma base_of_ok: "base_ok (base_of E config) \<and> bs_present (base_of E config) = (config \<noteq> [])"
proof (induction config)
  case (Cons u config)
  let ?b = "base_of E config"
  have "sd_ok d" if "run_builder (stream_builder E (u_scheme u)) ?b u = Inr d" for d
    using stream_builder_ok [OF _ that] Cons.IH by (simp add: built_def)
  moreover have "pd_ok p" if "run_builder (packet_builder E (u_scheme u)) ?b u = Inr p" for p
    using packet_builder_ok [OF _ that] Cons.IH by simp
  ultimately show ?case by (simp add: base_ok_def Let_def)
qed (simp add: base_ok_def)

lemma base_of_chain:
  "bs_sd (base_of E config) = Inr d \<Longrightarrow>
   \<exists>k \<le> length config. sd_chain d = map u_scheme (take k config) \<and> (k < length config \<longrightarrow> k \<noteq> 0 \<and> u_scheme (config ! (k - 1)) = ''h3connect'')"
proof (induction config arbitrary: d)
  case (Cons u config)
  let ?b = "base_of E config"
  have "built ?b (u_scheme u) d"
    using stream_builder_ok [of ?b] base_of_ok [of E config] Cons.prems by (auto simp: Let_def)
  then consider "sd_chain d = [u_scheme u]" "config = [] \<or> u_scheme u = ''h3connect''"
    | d' where "bs_sd ?b = Inr d'" "sd_chain d = u_scheme u # sd_chain d'"
    using base_of_ok [of E config] by (auto simp: built_def)
  then show ?case
  proof cases
    case 1
    then show ?thesis by (intro exI [of _ 1]) auto
  next
    case 2
    from Cons.IH [OF 2(1)] obtain k where "k \<le> length config" "sd_chain d' = map u_scheme (take k config)"
      "k < length config \<longrightarrow> k \<noteq> 0 \<and> u_scheme (config ! (k - 1)) = ''h3connect''" by auto
    then show ?thesis using 2(2) by (intro exI [of _ "Suc k"]) (auto simp: nth_Cons split: nat.splits)
  qed
qed simp

text \<open>
  C22: a stream dialer that the providers build from a configuration is well-formed, with parameters in the ranges that its
  constructors and protocols need, and its layers have the types of the configuration in their order; only below an
  \<^verbatim>\<open>h3connect\<close>, which has a socket of its own, the base that was configured is dropped.
\<close>

theorem config_dialer_typed:
  assumes "NewStreamDialer E text = Inr d"
  shows "\<exists>config k. ParseConfig (en_lib E) text = Inr config \<and> sd_ok d \<and> sd_chain d = map u_scheme (take k config)
    \<and> (k < length config \<longrightarrow> k \<noteq> 0 \<and> u_scheme (config ! (k - 1)) = ''h3connect'')"
proof -
  obtain config where c: "ParseConfig (en_lib E) text = Inr config" "bs_sd (base_of E config) = Inr d"
    using assms by (auto simp: NewStreamDialer_def seq_err_Inr)
  moreover have "sd_ok d" using base_of_ok [of E config] c(2) by (simp add: base_ok_def)
  ultimately show ?thesis using base_of_chain [OF c(2)] by blast
qed

text \<open>The same for packet dialers and listeners.\<close>

lemma config_packet_dialer_typed: "NewPacketDialer E text = Inr p \<Longrightarrow> pd_ok p"
  using base_of_ok by (auto simp: NewPacketDialer_def seq_err_Inr base_ok_def)

lemma config_listener_typed: "NewPacketListener E text = Inr l \<Longrightarrow> pl_ok l"
proof -
  assume "NewPacketListener E text = Inr l"
  then obtain config where "(case config of [] \<Rightarrow> Inr UDPListener
      | u # rest \<Rightarrow> run_builder (listener_builder E (u_scheme u)) (base_of E rest) u) = Inr l"
    by (auto simp: NewPacketListener_def seq_err_Inr)
  then show ?thesis
    using listener_builder_ok [OF conjunct1 [OF base_of_ok [of E "tl config"]]] by (cases config) auto
qed

text \<open>The instance: a record fragmenter over a splitter.\<close>

lemma config_dialer_typed_witness:
  "\<exists>config k. ParseConfig (en_lib demo_env) ''split:2|tlsfrag:1'' = Inr config
    \<and> sd_ok (TLSFragDialer (SplitDialer TCPDialer (RepeatedIter [\<lparr>Count = 1, Bytes = 2\<rparr>])) 1)
    \<and> [''tlsfrag'', ''split''] = map u_scheme (take k config)
    \<and> (k < length config \<longrightarrow> k \<noteq> 0 \<and> u_scheme (config ! (k - 1)) = ''h3connect'')"
proof -
  let ?u = "\<lambda>s p. \<lparr>u_scheme = s, u_opaque = p, u_user = None, u_host = [], u_path = [], u_rawquery = [], u_fragment = []\<rparr>"
  have t: "int_text 2 = ''2''" "int_text 1 = ''1''" by code_simp+
  have i: "parse_int ''2'' = Inr 2" "parse_int ''1'' = Inr 1"
    using parse_int_text [of 2] parse_int_text [of 1] t by simp_all
  have p: "ParseConfig (en_lib demo_env) ''split:2|tlsfrag:1'' = Inr [?u ''tlsfrag'' ''1'', ?u ''split'' ''2'']" by code_simp
  have "trim_space ''2'' = ''2''" by code_simp
  then have "parse_splits ''2'' = Inr [\<lparr>Count = 1, Bytes = 2\<rparr>]" using i by (simp add: parse_splits_def parse_split_def)
  then have "NewStreamDialer demo_env ''split:2|tlsfrag:1''
      = Inr (TLSFragDialer (SplitDialer TCPDialer (RepeatedIter [\<lparr>Count = 1, Bytes = 2\<rparr>])) 1)"
    by (simp add: NewStreamDialer_def p Let_def run_builder_def stream_builder_def build_split_def build_tlsfrag_def i
        new_repeated_split_iterator_def)
  from config_dialer_typed [OF this] show ?thesis by simp
qed

end
