(* ===== verification/SSStack.thy ===== *)
theory SSStack
  imports StreamStack SSReader
begin

text \<open>
  Shadowsocks over a stack of dialers, as in \<^verbatim>\<open>split:2|tlsfrag:1|ss://...\<close>: the Shadowsocks writer writes to the connection of the
  stack. The lemmas show that the writer does over a connection that takes everything what it does over one that only collects
  the bytes, and so the round trip of Shadowsocks and the rewriting of the stack compose.
\<close>

section \<open>The writer over a connection that takes everything\<close>

context taking_writer
begin

lemma ss_flush_sim:
  assumes "R U x" "ss_flush K A append_write (w, U) = ((w', U'), e)"
  shows "\<exists>x'. ss_flush K A wr (w, x) = ((w', x'), e) \<and> R U' x'"
proof (cases "pending w = 0")
  case False
  obtain w2 a where 2: "encryptBlock A (SaltSize K) 2 (w\<lparr>sbuf := blit (SaltSize K) (put_u16 (pending w)) (sbuf w)\<rparr>) = (w2, a)"
    by fastforce
  obtain w3 b where 3: "encryptBlock A (payloadStart K A) (pending w) w2 = (w3, b)" by fastforce
  show ?thesis
    using assms(2) takes [OF assms(1), of "subslice (if isZero (counter w) then 0 else SaltSize K) (SaltSize K + a + b) (sbuf w3)"]
      False 2 3 by (auto simp: ss_flush_def append_write_def Let_def)
qed (use assms in \<open>auto simp: ss_flush_def\<close>)

lemma ss_Flush_sim:
  assumes "R U x" "ss_Flush K append_write (w, U) = ((w', U'), e)"
  shows "\<exists>x'. ss_Flush K wr (w, x) = ((w', x'), e) \<and> R U' x'"
  using assms ss_flush_sim [OF assms(1)] by (auto simp: ss_Flush_def split: if_splits)

lemma lazy_loop_sim:
  "R U x \<Longrightarrow> lazy_loop K A append_write w U p q = ((w', U'), n, e)
   \<Longrightarrow> \<exists>x'. lazy_loop K A wr w x p q = ((w', x'), n, e) \<and> R U' x'"
proof (induction K A "append_write" w U p q arbitrary: x rule: lazy_loop.induct)
  case (1 K A w U p q)
  obtain w1 k where k: "ss_enqueue K A p w = (w1, k)" by fastforce
  show ?case
  proof (cases "drop k p = []")
    case True
    then show ?thesis using "1.prems" k by (auto simp: lazy_loop.simps [of K A _ w])
  next
    case False
    obtain w2 U2 e2 where f: "ss_flush K A append_write (w1, U) = ((w2, U2), e2)" by (metis prod_cases3 surj_pair)
    obtain x2 where x2: "ss_flush K A wr (w1, x) = ((w2, x2), e2)" "R U2 x2" using ss_flush_sim [OF "1.prems"(1) f] by blast
    show ?thesis
    proof (cases e2)
      case None
      have "lazy_loop K A append_write w2 U2 (drop k p) (q + k) = ((w', U'), n, e)"
        using "1.prems"(2) k False f None by (simp add: lazy_loop.simps [of K A _ w])
      from "1.hyps" [OF k [symmetric] False f [symmetric] refl None x2(2) this] show ?thesis
        using k False x2 None by (simp add: lazy_loop.simps [of K A _ w])
    next
      case (Some y)
      then show ?thesis using "1.prems"(2) k False f x2 by (auto simp: lazy_loop.simps [of K A _ w])
    qed
  qed
qed

lemma ss_copy_sim:
  "R U x \<Longrightarrow> ss_copy K A append_write w U src m = ((w', U'), src', n, e)
   \<Longrightarrow> \<exists>x'. ss_copy K A wr w x src m = ((w', x'), src', n, e) \<and> R U' x'"
proof (induction "src_size src" arbitrary: w U src m x rule: less_induct)
  case less
  obtain src1 bs e1 where r: "src_read src payloadSizeMask = (src1, bs, e1)" by (metis prod_cases3)
  let ?w = "w\<lparr>sbuf := blit (payloadStart K A) bs (sbuf w), pending := length bs\<rparr>"
  obtain w2 U2 fe where f: "ss_flush K A append_write (?w, U) = ((w2, U2), fe)" by (metis prod_cases3 surj_pair)
  obtain x2 where x2: "ss_flush K A wr (?w, x) = ((w2, x2), fe)" "R U2 x2" using ss_flush_sim [OF less.prems(1) f] by blast
  show ?case
  proof (cases "if fe \<noteq> None then fe else e1")
    case (Some y)
    then show ?thesis using less.prems(2) r f x2 by (auto simp: ss_copy.simps [of K A _ w])
  next
    case None
    then have "e1 = None" by (auto split: if_splits)
    then have "src_size src1 < src_size src" using ss_copy_progress r by blast
    moreover have "ss_copy K A append_write w2 U2 src1 (m + length bs) = ((w', U'), src', n, e)"
      using less.prems(2) r f None by (simp add: ss_copy.simps [of K A _ w])
    ultimately show ?thesis using less.hyps [OF _ x2(2)] r x2(1) None by (simp add: ss_copy.simps [of K A _ w])
  qed
qed

lemma ss_lazy_write_sim:
  assumes "R U x" "ss_lazy_write K sg append_write (w, U) p = ((w', U'), n, e)"
  shows "\<exists>x'. ss_lazy_write K sg wr (w, x) p = ((w', x'), n, e) \<and> R U' x'"
  using assms lazy_loop_sim [OF assms(1)]
  by (auto simp: ss_lazy_write_def split: prod.splits option.splits)

lemma ss_first_read_sim:
  assumes "R U x" "ss_first_read K A append_write timer (w, U) src = ((w', U'), src', n, e)"
  shows "\<exists>x'. ss_first_read K A wr timer (w, x) src = ((w', x'), src', n, e) \<and> R U' x'"
proof -
  let ?off = "payloadStart K A + pending w + Overhead A"
  obtain src1 bs e1 where r: "src_read src (length (sbuf w) - ?off) = (src1, bs, e1)" by (metis prod_cases3)
  let ?w1 = "w\<lparr>sbuf := blit ?off bs (sbuf w)\<rparr>"
  obtain w2 U2 where 2: "(if timer then fst (ss_Flush K append_write (?w1, U)) else (?w1, U)) = (w2, U2)" by fastforce
  obtain x2 where x2: "(if timer then fst (ss_Flush K wr (?w1, x)) else (?w1, x)) = (w2, x2)" "R U2 x2"
  proof (cases timer)
    case True
    then have "ss_Flush K append_write (?w1, U) = ((w2, U2), snd (ss_Flush K append_write (?w1, U)))" using 2 by (simp add: prod_eq_iff)
    from ss_Flush_sim [OF assms(1) this] show ?thesis using True that by fastforce
  qed (use 2 assms(1) that in auto)
  obtain w3 m where 3: "ss_enqueue K A (subslice ?off (?off + length bs) (sbuf w2)) w2 = (w3, m)" by fastforce
  obtain w4 U4 fe where f: "ss_flush K A append_write (w3, U2) = ((w4, U4), fe)" by (metis prod_cases3 surj_pair)
  obtain x4 where x4: "ss_flush K A wr (w3, x2) = ((w4, x4), fe)" "R U4 x4" using ss_flush_sim [OF x2(2) f] by blast
  let ?res = "\<lambda>s. ((w4\<lparr>needFlush := False\<rparr>, s), src1, length bs, if fe \<noteq> None then fe else e1)"
  have "ss_first_read K A append_write timer (w, U) src = ?res U4" "ss_first_read K A wr timer (w, x) src = ?res x4"
    unfolding ss_first_read_def Let_def prod.case r 2 3 f x2(1) x4(1) by simp_all
  then show ?thesis using assms(2) x4(2) by simp
qed

lemma ss_read_from_sim:
  assumes "R U x" "ss_read_from K sg append_write timer (w, U) src = ((w', U'), src', n, e)"
  shows "\<exists>x'. ss_read_from K sg wr timer (w, x) src = ((w', x'), src', n, e) \<and> R U' x'"
proof -
  obtain w1 e1 where i: "ss_init K sg w = (w1, e1)" by fastforce
  show ?thesis
  proof (cases e1)
    case (Some y)
    then show ?thesis using assms i by (auto simp: ss_read_from_def)
  next
    case None
    let ?A = "the (sw_aead w1)"
    obtain w2 U2 src2 m e2 where 2: "(if needFlush w1 then ss_first_read K ?A append_write timer (w1, U) src else ((w1, U), src, 0, None))
        = ((w2, U2), src2, m, e2)" by (metis prod_cases4 surj_pair)
    obtain x2 where x2: "(if needFlush w1 then ss_first_read K ?A wr timer (w1, x) src else ((w1, x), src, 0, None))
        = ((w2, x2), src2, m, e2)" "R U2 x2"
      using 2 assms(1) ss_first_read_sim [OF assms(1), of K ?A timer w1 src w2 U2 src2 m e2] by (cases "needFlush w1") auto
    show ?thesis
    proof (cases e2)
      case None
      obtain w3 U3 src3 k y where 3: "ss_copy K ?A append_write w2 U2 src2 m = ((w3, U3), src3, k, y)" by (metis prod_cases4 surj_pair)
      obtain x3 where "ss_copy K ?A wr w2 x2 src2 m = ((w3, x3), src3, k, y)" "R U3 x3" using ss_copy_sim [OF x2(2) 3] by blast
      then show ?thesis using assms(2) i 2 x2(1) 3 None \<open>e1 = None\<close> by (auto simp: ss_read_from_def Let_def)
    next
      case (Some y)
      then show ?thesis using assms(2) i 2 x2 \<open>e1 = None\<close> by (auto simp: ss_read_from_def Let_def)
    qed
  qed
qed

lemma ss_step_sim:
  assumes "R U x" "ss_step K sg append_write op (w, U) = ((w', U'), n, e)"
  shows "\<exists>x'. ss_step K sg wr op (w, x) = ((w', x'), n, e) \<and> R U' x'"
proof (cases op)
  case (LazyWrite p)
  then show ?thesis using assms ss_lazy_write_sim [OF assms(1)] by simp
next
  case Flush
  then show ?thesis using assms(2) ss_Flush_sim [OF assms(1)] by (fastforce split: prod.splits)
next
  case (WriteOp p timer)
  then show ?thesis using assms(2) ss_read_from_sim [OF assms(1)] by (fastforce simp: ss_write_def split: prod.splits)
next
  case (ReadFrom src timer)
  then show ?thesis using assms(2) ss_read_from_sim [OF assms(1)] by (fastforce split: prod.splits)
qed

lemma ss_steps_sim:
  "R U x \<Longrightarrow> ss_steps K sg append_write ops (w, U) = ((w', U'), n, e)
   \<Longrightarrow> \<exists>x'. ss_steps K sg wr ops (w, x) = ((w', x'), n, e) \<and> R U' x'"
proof (induction ops arbitrary: w U x n w' U' e)
  case (Cons op ops)
  obtain w1 U1 k e1 where 1: "ss_step K sg append_write op (w, U) = ((w1, U1), k, e1)" by (metis prod_cases3 surj_pair)
  obtain x1 where x1: "ss_step K sg wr op (w, x) = ((w1, x1), k, e1)" "R U1 x1" using ss_step_sim [OF Cons.prems(1) 1] by blast
  show ?case
  proof (cases e1)
    case None
    obtain w2 U2 m e2 where 2: "ss_steps K sg append_write ops (w1, U1) = ((w2, U2), m, e2)" by (metis prod_cases3 surj_pair)
    then show ?thesis using Cons.IH [OF x1(2) 2] Cons.prems(2) 1 x1(1) None by auto
  qed (use Cons.prems 1 x1 in auto)
qed auto

end

section \<open>The stack as a connection\<close>

text \<open>Every connection of a stack takes everything, so a client that writes to it may be studied over \<open>append_write\<close>.\<close>

lemma conn_takes:
  assumes "taking_writer wr R"
  shows "taking_writer (conn_write wr) (\<lambda>T (ls, s). map layer_spec ls = ss \<and> stack_rel R T ls s)"
proof
  fix U x p
  assume a: "case x of (ls, s) \<Rightarrow> map layer_spec ls = ss \<and> stack_rel R U ls s"
  obtain ls s where x: "x = (ls, s)" by fastforce
  show "\<exists>x'. conn_write wr x p = (x', length p, None) \<and> (case x' of (ls, s) \<Rightarrow> map layer_spec ls = ss \<and> stack_rel R (U @ p) ls s)"
    using taking_writer.takes [OF stack_takes [OF assms, of "length ls" ss], of U x p] a
    by (fastforce simp: x conn_write_def)
qed

lemma cfgs_spec_splits: "\<forall>c \<in> set cs. \<exists>it. c = DSplit it \<Longrightarrow> cfgs_spec cs T = T"
  by (induction cs arbitrary: T) auto

text \<open>
  C4: Shadowsocks over any stack of splitting and fragmenting dialers: whatever the client does with the writer before a last flush,
  every byte is taken, what leaves the stack is the Shadowsocks stream rewritten by the dialers of the stack, which splitters
  leave as it is, and a reader that gets the Shadowsocks stream, cut in any way, delivers exactly the plaintext.
\<close>

theorem shadowsocks_over_stack:
  assumes base: "base raddr = ([], Inr ([], s))" "healthy s"
    and K: "sg (SaltSize K) = Inr salt" "newAEAD K salt = Inr A" "aead_ok A" "Overhead A \<le> maxTagSize" "length salt = SaltSize K"
    and ops: "\<forall>x \<in> set xs. op_clean x" "concat (map op_bytes xs) \<noteq> []" "2 * length (concat (map op_bytes xs)) < 256 ^ NonceSize A"
  shows "\<exists>d ls w' ls' s' U. stack_dialer cs base = Inr d \<and> d raddr = ([], Inr (ls, s))
    \<and> ss_steps K sg (conn_write sink_write) (xs @ [Flush]) (new_ss_writer, ls, s)
         = ((w', ls', s'), length (concat (map op_bytes xs)), None)
    \<and> wire s' = wire s @ cfgs_spec cs U \<and> ((\<forall>c \<in> set cs. \<exists>it. c = DSplit it) \<longrightarrow> wire s' = wire s @ U)
    \<and> (\<forall>src t. clean src \<and> src_bytes src = U \<and> healthy t \<longrightarrow>
          (\<exists>c' t'. wire t' = wire t @ concat (map op_bytes xs)
             \<and> rc_write_to K sink_write (new_ss_reader src) t 0 = Some (c', t', length (concat (map op_bytes xs)), None)))"
proof -
  obtain d ls where d: "stack_dialer cs base = Inr d" "d raddr = ([], Inr (ls, s))"
    "\<And>R. R [] s \<Longrightarrow> stack_rel R [] ls s" "\<And>T. stack_spec ls T = cfgs_spec cs T"
    using stack_dialer_dials [of cs base] base(1) by blast
  let ?R = "\<lambda>U s'. healthy s' \<and> wire s' = wire s @ U"
  obtain w' U where U: "ss_steps K sg append_write (xs @ [Flush]) (new_ss_writer, []) = ((w', U), length (concat (map op_bytes xs)), None)"
    "\<forall>src t. clean src \<and> src_bytes src = U \<and> healthy t \<longrightarrow>
          (\<exists>c' t'. wire t' = wire t @ concat (map op_bytes xs)
             \<and> rc_write_to K sink_write (new_ss_reader src) t 0 = Some (c', t', length (concat (map op_bytes xs)), None))"
    using reliable_writer.ss_roundtrip_good [OF app.reliable_writer_axioms, where sg = sg and s = "[]", OF K ops] by auto
  note t = conn_takes [OF sink_takes.taking_writer_axioms, of "map layer_spec ls" "wire s"]
  obtain ls' s' where st: "ss_steps K sg (conn_write sink_write) (xs @ [Flush]) (new_ss_writer, ls, s)
      = ((w', ls', s'), length (concat (map op_bytes xs)), None)"
    and r: "map layer_spec ls' = map layer_spec ls" "stack_rel ?R U ls' s'"
    using taking_writer.ss_steps_sim [OF t _ U(1), of "(ls, s)"] d(3) [of ?R] base(2) by auto
  have "wire s' = wire s @ cfgs_spec cs U"
    using stack_rel_spec [OF r(2)] stack_spec_map [OF r(1), of U] d(4) by simp
  then show ?thesis using d(1,2) st U(2) cfgs_spec_splits [of cs U]
    by (intro exI [of _ d] exI [of _ ls] exI [of _ w'] exI [of _ ls'] exI [of _ s'] exI [of _ U]) simp
qed

theorem shadowsocks_over_stack_witness:
  "\<exists>d ls w' ls' s' U. stack_dialer [DSplit (new_fixed_split_iterator 3)] (\<lambda>_. ([], Inr ([], fresh_sink))) = Inr d
    \<and> d ''a:1'' = ([], Inr (ls, fresh_sink))
    \<and> ss_steps demo_key demo_salt (conn_write sink_write) ([LazyWrite [1, 2], WriteOp [3] False] @ [Flush]) (new_ss_writer, ls, fresh_sink)
         = ((w', ls', s'), length [1, 2, 3 :: byte], None)
    \<and> wire s' = U
    \<and> (\<exists>c' t'. wire t' = [1, 2, 3]
         \<and> rc_write_to demo_key sink_write (new_ss_reader (bytes_reader U)) fresh_sink 0 = Some (c', t', length [1, 2, 3 :: byte], None))"
proof -
  have o: "NonceSize demo_aead = 12" "Overhead demo_aead = 16" by (simp_all add: demo_aead_def)
  have "\<exists>d ls w' ls' s' U. stack_dialer [DSplit (new_fixed_split_iterator 3)] (\<lambda>_. ([], Inr ([], fresh_sink))) = Inr d
    \<and> d ''a:1'' = ([], Inr (ls, fresh_sink))
    \<and> ss_steps demo_key demo_salt (conn_write sink_write) ([LazyWrite [1, 2], WriteOp [3] False] @ [Flush]) (new_ss_writer, ls, fresh_sink)
         = ((w', ls', s'), length [1, 2, 3 :: byte], None)
    \<and> wire s' = U
    \<and> (\<forall>src t. clean src \<and> src_bytes src = U \<and> healthy t \<longrightarrow>
          (\<exists>c' t'. wire t' = wire t @ [1, 2, 3]
             \<and> rc_write_to demo_key sink_write (new_ss_reader src) t 0 = Some (c', t', length [1, 2, 3 :: byte], None)))"
    using shadowsocks_over_stack [of "\<lambda>_. ([], Inr ([], fresh_sink))" "''a:1''" fresh_sink demo_salt demo_key "replicate 4 9" demo_aead
        "[LazyWrite [1, 2], WriteOp [3] False]" "[DSplit (new_fixed_split_iterator 3)]"] demo_aead_ok
    by (auto simp: demo_key_def demo_salt_def o simp del: ss_steps.simps stack_dialer.simps)
  then obtain d ls w' ls' s' U where 1: "stack_dialer [DSplit (new_fixed_split_iterator 3)] (\<lambda>_. ([], Inr ([], fresh_sink))) = Inr d"
    "d ''a:1'' = ([], Inr (ls, fresh_sink))"
    "ss_steps demo_key demo_salt (conn_write sink_write) ([LazyWrite [1, 2], WriteOp [3] False] @ [Flush]) (new_ss_writer, ls, fresh_sink)
         = ((w', ls', s'), length [1, 2, 3 :: byte], None)" "wire s' = U"
    and r: "\<forall>src t. clean src \<and> src_bytes src = U \<and> healthy t \<longrightarrow>
          (\<exists>c' t'. wire t' = wire t @ [1, 2, 3]
             \<and> rc_write_to demo_key sink_write (new_ss_reader src) t 0 = Some (c', t', length [1, 2, 3 :: byte], None))" by blast
  from r [rule_format, of "bytes_reader U" fresh_sink] have "\<exists>c' t'. wire t' = [1, 2, 3]
      \<and> rc_write_to demo_key sink_write (new_ss_reader (bytes_reader U)) fresh_sink 0 = Some (c', t', length [1, 2, 3 :: byte], None)"
    by simp
  with 1 show ?thesis by blast
qed

end
