(* ===== verification/LwipSetup.thy ===== *)
theory LwipSetup
  imports LwipDevice
begin

text \<open>
  The singleton of \<^verbatim>\<open>network/lwip2transport/device.go\<close>: \<^verbatim>\<open>ConfigureDevice\<close> and \<^verbatim>\<open>ConfigureDeviceWithRelay\<close> close the device
  that is there and make a new one, under a mutex; \<^verbatim>\<open>Close\<close> of a device can be called at any time. The lemmas show that at
  most one device is open in every interleaving, and when a second close of the channel, which panics, can happen.
\<close>

section \<open>Writing\<close>

text \<open>\<^verbatim>\<open>Write\<close> of a device: \<open>stack_write\<close> is the \<^verbatim>\<open>Write\<close> of the lwIP stack, which has no typed error for being closed.\<close>

definition device_Write :: "(err \<Rightarrow> string) \<Rightarrow> 's writer \<Rightarrow> device \<Rightarrow> 's writer" where
  "device_Write err_str wr d s b =
     (if dv_done d then (s, 0, Some ErrDeviceClosed)
      else case wr s b of
        (s', n, Some e) \<Rightarrow> (s', n, Some (if err_str e = ''stack closed'' then ErrDeviceClosed else e))
      | (s', n, None) \<Rightarrow> (s', n, None))"

section \<open>The machine\<close>

text \<open>A call of \<^verbatim>\<open>Close\<close> for a device: before the \<^verbatim>\<open>select\<close>, about to close the channel, or returned.\<close>

datatype close_call = ClCheck nat | ClClosing nat | ClReturned nat

text \<open>
  The devices with their channels \<^verbatim>\<open>done\<close>, \<^verbatim>\<open>inst\<close>, the device whose handlers and output function are registered with lwIP, the
  calls of \<^verbatim>\<open>Close\<close>, and the call of \<^verbatim>\<open>Close\<close> that the holder of the mutex waits for.
\<close>

record lwip_setup =
  su_done :: "bool list"
  su_inst :: "nat option"
  su_registered :: "nat option"
  su_closes :: "close_call list"
  su_configuring :: "nat option"
  su_panicked :: bool

definition setup_init :: lwip_setup where
  "setup_init = \<lparr>su_done = [], su_inst = None, su_registered = None, su_closes = [], su_configuring = None, su_panicked = False\<rparr>"

text \<open>The end of both functions: the new device, with its handlers registered.\<close>

definition install_device :: "lwip_setup \<Rightarrow> lwip_setup" where
  "install_device s =
     s\<lparr>su_done := su_done s @ [dv_done new_device], su_inst := Some (length (su_done s)),
       su_registered := Some (length (su_done s)), su_configuring := None\<rparr>"

datatype setup_event = Configure bool | Configured | CallClose nat | CheckDone nat | CloseChannel nat

text \<open>
  One step; \<open>None\<close> if it cannot happen now. \<open>Configure\<close> tells whether both arguments are there; nothing happens after a panic.
\<close>

fun setup_step :: "setup_event \<Rightarrow> lwip_setup \<Rightarrow> lwip_setup option" where
  "setup_step (Configure args) s =
     (if su_panicked s \<or> su_configuring s \<noteq> None then None
      else if \<not> args then Some s
      else case su_inst s of
        None \<Rightarrow> Some (install_device s)
      | Some i \<Rightarrow> Some (s\<lparr>su_closes := su_closes s @ [ClCheck i], su_configuring := Some (length (su_closes s))\<rparr>))"
| "setup_step Configured s =
     (case su_configuring s of
        None \<Rightarrow> None
      | Some k \<Rightarrow> if \<not> su_panicked s \<and> (\<exists>i \<in> {..<length (su_done s)}. su_closes s ! k = ClReturned i) then Some (install_device s) else None)"
| "setup_step (CallClose i) s =
     (if su_panicked s \<or> length (su_done s) \<le> i then None else Some (s\<lparr>su_closes := su_closes s @ [ClCheck i]\<rparr>))"
| "setup_step (CheckDone k) s =
     (if su_panicked s \<or> length (su_closes s) \<le> k then None
      else case su_closes s ! k of
        ClCheck i \<Rightarrow> Some (s\<lparr>su_closes := (su_closes s)[k := if su_done s ! i then ClReturned i else ClClosing i]\<rparr>)
      | _ \<Rightarrow> None)"
| "setup_step (CloseChannel k) s =
     (if su_panicked s \<or> length (su_closes s) \<le> k then None
      else case su_closes s ! k of
        ClClosing i \<Rightarrow>
          (if su_done s ! i then Some (s\<lparr>su_panicked := True\<rparr>)
           else Some (s\<lparr>su_done := (su_done s)[i := True], su_closes := (su_closes s)[k := ClReturned i]\<rparr>))
      | _ \<Rightarrow> None)"

fun setup_run :: "setup_event list \<Rightarrow> lwip_setup \<Rightarrow> lwip_setup option" where
  "setup_run [] s = Some s"
| "setup_run (e # es) s = (case setup_step e s of None \<Rightarrow> None | Some s' \<Rightarrow> setup_run es s')"

section \<open>At most one open device\<close>

fun close_of :: "close_call \<Rightarrow> nat" where
  "close_of (ClCheck i) = i"
| "close_of (ClClosing i) = i"
| "close_of (ClReturned i) = i"

text \<open>
  Calls are for devices there are, a call that has returned leaves its device closed, the holder of the mutex waits for a call
  that closes \<^verbatim>\<open>inst\<close>, and every other device is closed.
\<close>

definition setup_inv :: "lwip_setup \<Rightarrow> bool" where
  "setup_inv s \<longleftrightarrow>
     (\<forall>c \<in> set (su_closes s). close_of c < length (su_done s) \<and> (\<forall>i. c = ClReturned i \<longrightarrow> su_done s ! i))
     \<and> (\<forall>i < length (su_done s). su_inst s \<noteq> Some i \<longrightarrow> su_done s ! i)
     \<and> (\<forall>i. su_inst s = Some i \<longrightarrow> i < length (su_done s))
     \<and> (\<forall>k. su_configuring s = Some k \<longrightarrow> k < length (su_closes s) \<and> su_inst s = Some (close_of (su_closes s ! k)))
     \<and> su_registered s = su_inst s"

lemma setup_inv_install:
  assumes "setup_inv s" "\<forall>i < length (su_done s). su_done s ! i"
  shows "setup_inv (install_device s)"
  using assms by (fastforce simp: setup_inv_def install_device_def new_device_def nth_append less_Suc_eq)

lemma setup_inv_call: "setup_inv s \<Longrightarrow> i < length (su_done s) \<Longrightarrow> setup_inv (s\<lparr>su_closes := su_closes s @ [ClCheck i]\<rparr>)"
  by (fastforce simp: setup_inv_def nth_append)

lemma setup_inv_move:
  assumes "setup_inv s" "k < length (su_closes s)" "close_of c = close_of (su_closes s ! k)" "\<forall>i. c = ClReturned i \<longrightarrow> su_done s ! i"
  shows "setup_inv (s\<lparr>su_closes := (su_closes s)[k := c]\<rparr>)"
  using assms nth_mem [OF assms(2)] unfolding setup_inv_def
  by (auto simp: nth_list_update split: if_splits dest!: subsetD [OF set_update_subset_insert])

lemma nth_update_any: "xs[i := y] ! j = (if i = j \<and> i < length xs then y else xs ! j)"
  by (cases "i < length xs") (simp_all add: nth_list_update list_update_beyond)

lemma setup_inv_done: "setup_inv s \<Longrightarrow> setup_inv (s\<lparr>su_done := (su_done s)[i := True]\<rparr>)"
  unfolding setup_inv_def by (auto simp: nth_update_any)

lemma setup_inv_step: "setup_step e s = Some s' \<Longrightarrow> setup_inv s \<Longrightarrow> setup_inv s'"
proof (induction e s rule: setup_step.induct)
  case (1 args s)
  show ?case
  proof (cases "su_inst s")
    case None
    then show ?thesis using 1 setup_inv_install [of s] by (auto simp: setup_inv_def split: if_splits)
  next
    case (Some i)
    then have "i < length (su_done s)" using 1 by (simp add: setup_inv_def)
    then have "setup_inv (s\<lparr>su_closes := su_closes s @ [ClCheck i]\<rparr>)" using setup_inv_call 1 by blast
    then show ?thesis using 1 Some by (auto simp: setup_inv_def split: if_splits)
  qed
next
  case (2 s)
  then obtain k i where k: "su_configuring s = Some k" "i < length (su_done s)" "su_closes s ! k = ClReturned i" "s' = install_device s"
    by (auto split: option.splits if_splits)
  then have "k < length (su_closes s)" "su_inst s = Some i" using 2(2) by (auto simp: setup_inv_def)
  then have "\<forall>j < length (su_done s). su_done s ! j"
    using 2(2) k(3) nth_mem [of k "su_closes s"] unfolding setup_inv_def by fastforce
  then show ?case using setup_inv_install 2(2) k(4) by blast
next
  case (3 i s)
  then show ?case using setup_inv_call by (auto split: if_splits)
next
  case (4 k s)
  then show ?case using setup_inv_move [of s k] by (auto split: if_splits close_call.splits)
next
  case (5 k s)
  then obtain i where i: "k < length (su_closes s)" "su_closes s ! k = ClClosing i" by (auto split: if_splits close_call.splits)
  show ?case
  proof (cases "su_done s ! i")
    case True
    then show ?thesis using 5 i by (auto simp: setup_inv_def split: if_splits)
  next
    case False
    have "i < length (su_done s)" using 5(2) i nth_mem [OF i(1)] by (fastforce simp: setup_inv_def)
    then have "setup_inv (s\<lparr>su_done := (su_done s)[i := True]\<rparr>\<lparr>su_closes := (su_closes s)[k := ClReturned i]\<rparr>)"
      using setup_inv_move [OF setup_inv_done [OF 5(2), of i], of k "ClReturned i"] i by simp
    then show ?thesis using 5(1) i False by (auto split: if_splits)
  qed
qed

lemma setup_run_inv: "setup_run es s = Some s' \<Longrightarrow> setup_inv s \<Longrightarrow> setup_inv s'"
  by (induction es arbitrary: s) (auto split: option.splits intro: setup_inv_step)

text \<open>
  In every interleaving of calls that configure the device and calls that close devices, every device but \<^verbatim>\<open>inst\<close> is closed,
  and the handlers and the output function that lwIP calls are those of \<^verbatim>\<open>inst\<close>.
\<close>

theorem device_singleton:
  assumes "setup_run es setup_init = Some s"
  shows "(\<forall>i < length (su_done s). \<not> su_done s ! i \<longrightarrow> su_inst s = Some i) \<and> su_registered s = su_inst s"
proof -
  have "setup_inv setup_init" by (simp add: setup_inv_def setup_init_def)
  then have "setup_inv s" using setup_run_inv assms by blast
  then show ?thesis by (auto simp: setup_inv_def)
qed

theorem device_singleton_witness:
  "\<exists>s. setup_run [Configure True, Configure True, CheckDone 0, CloseChannel 0, Configured] setup_init = Some s
    \<and> su_done s = [True, False] \<and> su_inst s = Some 1 \<and> su_registered s = su_inst s"
proof -
  let ?es = "[Configure True, Configure True, CheckDone 0, CloseChannel 0, Configured]"
  have r: "setup_run ?es setup_init = Some \<lparr>su_done = [True, False], su_inst = Some 1, su_registered = Some 1,
      su_closes = [ClReturned 0], su_configuring = None, su_panicked = False\<rparr>"
    by (simp add: setup_init_def install_device_def new_device_def)
  show ?thesis using device_singleton [OF r] r by simp
qed

section \<open>Closing twice\<close>

text \<open>
  The \<^verbatim>\<open>select\<close> in \<^verbatim>\<open>Close\<close> is to make sure that the channel is not closed twice. It does so for calls one after the other; two
  calls that overlap, for example one in \<^verbatim>\<open>ConfigureDevice\<close> and one of the owner of the old device, both pass it, and the second
  close of the channel panics. A panic needs such a pair.
\<close>

definition both_closing :: "lwip_setup \<Rightarrow> bool" where
  "both_closing s = (\<exists>k l i. k \<noteq> l \<and> k < length (su_closes s) \<and> l < length (su_closes s)
     \<and> su_closes s ! k = ClClosing i \<and> su_closes s ! l = ClClosing i)"

definition alone_inv :: "lwip_setup \<Rightarrow> bool" where
  "alone_inv s \<longleftrightarrow> \<not> su_panicked s \<and> (\<forall>k < length (su_closes s). \<forall>i. su_closes s ! k = ClClosing i \<longrightarrow> \<not> su_done s ! i)"

lemma alone_inv_step:
  assumes "setup_step e s = Some s'" "setup_inv s" "alone_inv s" "\<not> both_closing s"
  shows "alone_inv s'"
proof (cases e)
  case (CloseChannel k)
  then obtain i where i: "k < length (su_closes s)" "su_closes s ! k = ClClosing i" "\<not> su_done s ! i"
    using assms by (auto simp: alone_inv_def split: if_splits close_call.splits)
  have "su_closes s ! l \<noteq> ClClosing i" if "l < length (su_closes s)" "k \<noteq> l" for l
    using assms(4) i that by (auto simp: both_closing_def)
  then show ?thesis using assms(1,3) i CloseChannel
    by (auto simp: alone_inv_def nth_update_any split: if_splits)
next
  case (CallClose i)
  then show ?thesis using assms(1,3) by (auto simp: alone_inv_def nth_append less_Suc_eq split: if_splits)
next
  case (CheckDone k)
  then show ?thesis using assms(1,3) by (auto simp: alone_inv_def nth_list_update split: if_splits close_call.splits)
next
  case (Configure args)
  have "close_of (su_closes s ! k) < length (su_done s)" if "k < length (su_closes s)" for k
    using assms(2) that by (simp add: setup_inv_def)
  then have "i < length (su_done s)" if "k < length (su_closes s)" "su_closes s ! k = ClClosing i" for k i
    using that by fastforce
  then show ?thesis using assms(1,3) Configure
    by (auto simp: alone_inv_def install_device_def nth_append less_Suc_eq split: if_splits option.splits)
next
  case Configured
  have "close_of (su_closes s ! k) < length (su_done s)" if "k < length (su_closes s)" for k
    using assms(2) that by (simp add: setup_inv_def)
  then have "i < length (su_done s)" if "k < length (su_closes s)" "su_closes s ! k = ClClosing i" for k i
    using that by fastforce
  then show ?thesis using assms(1,3) Configured
    by (auto simp: alone_inv_def install_device_def nth_append split: if_splits option.splits)
qed

fun never_both :: "setup_event list \<Rightarrow> lwip_setup \<Rightarrow> bool" where
  "never_both [] s = True"
| "never_both (e # es) s = (\<not> both_closing s \<and> (case setup_step e s of None \<Rightarrow> True | Some s' \<Rightarrow> never_both es s'))"

lemma alone_run:
  "setup_run es s = Some s' \<Longrightarrow> setup_inv s \<Longrightarrow> alone_inv s \<Longrightarrow> never_both es s \<Longrightarrow> alone_inv s'"
  by (induction es arbitrary: s) (auto split: option.splits intro: alone_inv_step setup_inv_step)

text \<open>
  The channel of a device is closed twice, a panic, only if two calls of \<^verbatim>\<open>Close\<close> for it were between the check and the close at the
  same time; and such a schedule exists.
\<close>

theorem device_close_race:
  assumes "setup_run es setup_init = Some s"
  shows "(never_both es setup_init \<longrightarrow> \<not> su_panicked s)
    \<and> (\<exists>es' s'. setup_run es' setup_init = Some s' \<and> su_panicked s')"
proof
  have i: "setup_inv setup_init" "alone_inv setup_init" by (simp_all add: setup_inv_def alone_inv_def setup_init_def)
  then show "never_both es setup_init \<longrightarrow> \<not> su_panicked s" using alone_run [OF assms i] by (auto simp: alone_inv_def)
  have "setup_run [Configure True, Configure True, CallClose 0, CheckDone 0, CheckDone 1, CloseChannel 0, CloseChannel 1] setup_init
      = Some \<lparr>su_done = [True], su_inst = Some 0, su_registered = Some 0, su_closes = [ClReturned 0, ClClosing 0],
          su_configuring = Some 0, su_panicked = True\<rparr>"
    by (simp add: setup_init_def install_device_def new_device_def)
  then show "\<exists>es' s'. setup_run es' setup_init = Some s' \<and> su_panicked s'" by fastforce
qed

theorem device_close_race_witness:
  "\<not> su_panicked (setup_init\<lparr>su_done := [True, False], su_inst := Some 1, su_registered := Some 1, su_closes := [ClReturned 0]\<rparr>)
    \<and> (\<exists>es' s'. setup_run es' setup_init = Some s' \<and> su_panicked s')"
proof -
  let ?es = "[Configure True, Configure True, CheckDone 0, CloseChannel 0, Configured]"
  have r: "setup_run ?es setup_init
      = Some (setup_init\<lparr>su_done := [True, False], su_inst := Some 1, su_registered := Some 1, su_closes := [ClReturned 0]\<rparr>)"
    by (simp add: setup_init_def install_device_def new_device_def)
  have "never_both ?es setup_init"
    by (auto simp: setup_init_def install_device_def new_device_def both_closing_def less_Suc_eq)
  with device_close_race [OF r] show ?thesis by blast
qed

end
