(* ===== verification/Soax.thy ===== *)
theory Soax
  imports ConfigParse HttpConnect
begin

text \<open>
  The client of the SOAX proxy service (\<^verbatim>\<open>x/soax/proxy.go\<close>, \<^verbatim>\<open>api.go\<close>): sessions, the user name that carries their parameters, the
  proxy clients that send it, and the requests to the API.
\<close>

section \<open>Sessions\<close>

text \<open>Durations are in nanoseconds, as \<^verbatim>\<open>time.Duration\<close>.\<close>

record session_config =
  ss_id :: string
  ss_duration :: int
  ss_idleTTL :: int

record proxy_session_config =
  sx_packageID :: int
  sx_packageKey :: string
  sx_country :: string
  sx_region :: string
  sx_city :: string
  sx_isp :: string
  sx_session :: session_config
  sx_endpoint :: string

definition proxyAddress :: string where "proxyAddress = ''proxy.soax.com:5000''"

definition SessionNotPersistent :: session_config where
  "SessionNotPersistent = \<lparr>ss_id = [], ss_duration = -1, ss_idleTTL = 0\<rparr>"

definition hour :: int where "hour = 3600 * 10 ^ 9"

text \<open>\<open>now\<close> is the time in milliseconds.\<close>

definition NewSession :: "int \<Rightarrow> proxy_session_config \<Rightarrow> proxy_session_config" where
  "NewSession now c =
     (let s = sx_session c;
          s = (if s \<noteq> SessionNotPersistent
               then (let s1 = (if ss_id s = [] then s\<lparr>ss_id := int_text now\<rparr> else s);
                         s2 = (if ss_duration s1 = 0 then s1\<lparr>ss_duration := hour\<rparr> else s1)
                     in if ss_idleTTL s2 = 0 then s2\<lparr>ss_idleTTL := ss_duration s2\<rparr> else s2)
               else s)
      in c\<lparr>sx_session := s, sx_endpoint := (if sx_endpoint c = [] then proxyAddress else sx_endpoint c)\<rparr>)"

section \<open>The user name\<close>

text \<open>
  \<^verbatim>\<open>int(d.Seconds())\<close> of a positive duration. (The float that Go computes has the seconds as its integer part for all
  durations below \<open>2 ^ 23\<close> seconds, which is a hundred days; a session is an hour at most.)
\<close>

definition seconds_text :: "int \<Rightarrow> string" where
  "seconds_text d = int_text (d div 10 ^ 9)"

definition user_params :: "proxy_session_config \<Rightarrow> string list" where
  "user_params c =
     [''package'', int_text (sx_packageID c)]
     @ (if sx_country c \<noteq> [] then [''country'', to_lower (sx_country c)] else [])
     @ (if sx_region c \<noteq> [] then [''region'', sx_region c] else [])
     @ (if sx_city c \<noteq> [] then [''city'', sx_city c] else [])
     @ (if sx_isp c \<noteq> [] then [''isp'', sx_isp c] else [])
     @ (if ss_id (sx_session c) \<noteq> [] then [''sessionid'', ss_id (sx_session c)] else [])
     @ (if 0 < ss_duration (sx_session c) then [''sessionlength'', seconds_text (ss_duration (sx_session c))] else [])
     @ (if 0 < ss_idleTTL (sx_session c) then [''idlettl'', seconds_text (ss_idleTTL (sx_session c))] else [])"

definition newUserPassword :: "proxy_session_config \<Rightarrow> string \<times> string" where
  "newUserPassword c = (join_with ''-'' (user_params c), sx_packageKey c)"

section \<open>The clients\<close>

text \<open>The SOCKS5 client of a session; the error of \<^verbatim>\<open>SetCredentials\<close> is not looked at.\<close>

definition NewSOCKS5Client :: "proxy_session_config \<Rightarrow> client" where
  "NewSOCKS5Client c =
     (case newUserPassword c of (u, p) \<Rightarrow> fst (SetCredentials (str_bytes u) (str_bytes p) \<lparr>cred = None\<rparr>))"

text \<open>The value of Proxy-Authorization that the CONNECT client sends.\<close>

definition web_proxy_auth :: "(string \<Rightarrow> string) \<Rightarrow> proxy_session_config \<Rightarrow> string" where
  "web_proxy_auth b64 c =
     (case newUserPassword c of (u, p) \<Rightarrow> ''Basic '' @ b64 (escape_user u @ '':'' @ escape_user p))"

definition NewWebProxyStreamDialer ::
  "('cert, 'roots) x509 \<Rightarrow> (string \<Rightarrow> string) \<Rightarrow> ('cert, 'ses) TransportOption list \<Rightarrow> proxy_session_config
   \<Rightarrow> err + ('cert, 'ses) proxy_transport \<times> http_headers" where
  "NewWebProxyStreamDialer x509 b64 opts c =
     (case NewHTTPProxyTransport x509 True (sx_endpoint c) opts of
        Inl e \<Rightarrow> Inl e
      | Inr rt \<Rightarrow> Inr (rt, client_headers [[(''Proxy-Authorization'', [web_proxy_auth b64 c])]]))"

text \<open>A persistent session keeps one node: it has an identifier, and its length and idle time are in the user name.\<close>

lemma new_session_persistent:
  assumes "sx_session c \<noteq> SessionNotPersistent"
  shows "ss_id (sx_session (NewSession now c)) \<noteq> [] \<and> ss_duration (sx_session (NewSession now c)) \<noteq> 0
    \<and> ss_idleTTL (sx_session (NewSession now c)) \<noteq> 0 \<and> sx_endpoint (NewSession now c) \<noteq> []
    \<and> {''sessionid''} \<subseteq> set (user_params (NewSession now c))"
  using assms by (auto simp: NewSession_def Let_def hour_def proxyAddress_def user_params_def)

lemma not_persistent_params:
  "sx_session c = SessionNotPersistent \<Longrightarrow> sx_session (NewSession now c) = SessionNotPersistent
    \<and> user_params (NewSession now c) = [''package'', int_text (sx_packageID c)]
     @ (if sx_country c \<noteq> [] then [''country'', to_lower (sx_country c)] else [])
     @ (if sx_region c \<noteq> [] then [''region'', sx_region c] else [])
     @ (if sx_city c \<noteq> [] then [''city'', sx_city c] else [])
     @ (if sx_isp c \<noteq> [] then [''isp'', sx_isp c] else [])"
  by (simp add: NewSession_def user_params_def SessionNotPersistent_def)

text \<open>
  The SOCKS5 client of a session authenticates with the user name and the key as they are, if both have 1 to 255 bytes. If not,
  for example for a city and a provider with long names, the client is given without credentials and without an error.
\<close>

theorem soax_socks_credentials:
  "cred (NewSOCKS5Client c) =
     (if length (fst (newUserPassword c)) \<le> 255 \<and> sx_packageKey c \<noteq> [] \<and> length (sx_packageKey c) \<le> 255
      then Some \<lparr>username = str_bytes (fst (newUserPassword c)), password = str_bytes (sx_packageKey c)\<rparr> else None)"
proof -
  have "fst (newUserPassword c) \<noteq> []"
    by (simp add: newUserPassword_def user_params_def)
  then show ?thesis by (auto simp: NewSOCKS5Client_def newUserPassword_def SetCredentials_def)
qed

text \<open>
  The web proxy gets the credentials in the escaped form of a URL: they are those of the SOCKS5 client only if no character needs
  to be escaped, so a region with a space in its name is another one for the two proxies.
\<close>

lemma escape_user_length:
  "length s \<le> length (escape_user s)" "\<exists>c \<in> set s. \<not> user_char c \<Longrightarrow> length s < length (escape_user s)"
proof -
  show le: "length s \<le> length (escape_user s)" for s by (induction s) (auto simp: escape_user_def)
  show "\<exists>c \<in> set s. \<not> user_char c \<Longrightarrow> length s < length (escape_user s)"
  proof (induction s)
    case (Cons a s)
    show ?case
    proof (cases "user_char a")
      case True
      then have "length s < length (escape_user s)" using Cons by auto
      then show ?thesis using True by (simp add: escape_user_def)
    next
      case False
      then show ?thesis using le [of s] by (simp add: escape_user_def)
    qed
  qed simp
qed

lemma escape_user_plain: "\<forall>c \<in> set s. user_char c \<Longrightarrow> escape_user s = s"
  by (induction s) (auto simp: escape_user_def)

theorem soax_web_credentials:
  assumes "inj b64"
  shows "web_proxy_auth b64 c = ''Basic '' @ b64 (fst (newUserPassword c) @ '':'' @ sx_packageKey c)
    \<longleftrightarrow> (\<forall>x \<in> set (fst (newUserPassword c)) \<union> set (sx_packageKey c). user_char x)"
proof -
  obtain u where u: "newUserPassword c = (u, sx_packageKey c)" by (simp add: newUserPassword_def)
  let ?k = "sx_packageKey c"
  have "\<forall>x \<in> set u \<union> set ?k. user_char x" if "escape_user u @ '':'' @ escape_user ?k = u @ '':'' @ ?k"
  proof (rule ccontr)
    assume "\<not> (\<forall>x \<in> set u \<union> set ?k. user_char x)"
    then have "length u + length ?k < length (escape_user u) + length (escape_user ?k)"
      using escape_user_length [of u] escape_user_length [of ?k] by fastforce
    moreover have "length (escape_user u @ '':'' @ escape_user ?k) = length (u @ '':'' @ ?k)" using that by simp
    ultimately show False by simp
  qed
  moreover have "escape_user u @ '':'' @ escape_user ?k = u @ '':'' @ ?k" if "\<forall>x \<in> set u \<union> set ?k. user_char x"
    using that escape_user_plain by simp
  ultimately show ?thesis using assms by (auto simp: web_proxy_auth_def u inj_eq)
qed

theorem soax_web_credentials_witness:
  "web_proxy_auth id (\<lparr>sx_packageID = 7, sx_packageKey = ''k'', sx_country = [], sx_region = ''a b'', sx_city = [], sx_isp = [],
      sx_session = SessionNotPersistent, sx_endpoint = []\<rparr>) \<noteq> ''Basic package-7-region-a b:k''"
proof -
  let ?c = "\<lparr>sx_packageID = 7, sx_packageKey = ''k'', sx_country = [], sx_region = ''a b'', sx_city = [], sx_isp = [],
      sx_session = SessionNotPersistent, sx_endpoint = []\<rparr>"
  have u: "fst (newUserPassword ?c) = ''package-7-region-a b''" "sx_packageKey ?c = ''k''" by code_simp+
  have "CHR '' '' \<in> set (fst (newUserPassword ?c)) \<union> set (sx_packageKey ?c)" "\<not> user_char CHR '' ''"
    unfolding u by code_simp+
  then show ?thesis using soax_web_credentials [of id ?c] by (auto simp: u)
qed

section \<open>The API\<close>

text \<open>A request: the URL without its query (\<open>resolve\<close> is \<^verbatim>\<open>ResolveReference\<close>) and the query as a map, which \<^verbatim>\<open>Encode\<close> sorts.\<close>

record soax_client =
  sc_apiKey :: string
  sc_apiPackageKey :: string
  sc_baseURL :: string

definition soax_request ::
  "(string \<Rightarrow> err + 'u) \<Rightarrow> 'u \<Rightarrow> ('u \<Rightarrow> string \<Rightarrow> 'u \<times> (string \<rightharpoonup> string)) \<Rightarrow> soax_client \<Rightarrow> string \<Rightarrow> (string \<times> string) list
   \<Rightarrow> err + 'u \<times> (string \<rightharpoonup> string)" where
  "soax_request parse base0 resolve c apiPath queryParams =
     (case (if sc_baseURL c \<noteq> [] then parse (sc_baseURL c) else Inr base0) of
        Inl e \<Rightarrow> Inl (ErrWrap ''failed to parse BaseURL'' e)
      | Inr baseURL \<Rightarrow>
          (case resolve baseURL apiPath of
             (u, q) \<Rightarrow>
               Inr (u, foldl (\<lambda>q (k, v). if v \<noteq> [] then q(k \<mapsto> v) else q)
                         (q(''api_key'' \<mapsto> sc_apiKey c, ''package_key'' \<mapsto> sc_apiPackageKey c)) queryParams)))"

text \<open>\<^verbatim>\<open>doAndDecode\<close>: \<open>answer\<close> is what the HTTP client gives, a status with its text and the body or the error of reading it.\<close>

definition soax_decode :: "(bytes \<Rightarrow> err + 'r) \<Rightarrow> err + nat \<times> string \<times> (err + bytes) \<Rightarrow> err + 'r" where
  "soax_decode unmarshal answer =
     (case answer of
        Inl e \<Rightarrow> Inl (ErrWrap ''request failed'' e)
      | Inr (status, text, body) \<Rightarrow>
          if status \<noteq> 200 then Inl (ErrNew (''request failed with status '' @ text))
          else case body of
            Inl e \<Rightarrow> Inl (ErrWrap ''failed to read response body'' e)
          | Inr b \<Rightarrow> (case unmarshal b of Inl e \<Rightarrow> Inl (ErrWrap ''failed to decode response'' e) | Inr r \<Rightarrow> Inr r))"

definition GetResidentialISPs :: "string \<Rightarrow> string \<Rightarrow> string \<Rightarrow> string \<times> (string \<times> string) list" where
  "GetResidentialISPs countryCode regionID cityID =
     (''/api/get-country-isp'', [(''country_iso'', to_lower countryCode), (''region'', regionID), (''city'', cityID)])"

definition GetMobileISPs :: "string \<Rightarrow> string \<Rightarrow> string \<Rightarrow> string \<times> (string \<times> string) list" where
  "GetMobileISPs countryCode regionID cityID =
     (''/api/get-country-operators'', [(''country_iso'', to_lower countryCode), (''region'', regionID), (''city'', cityID)])"

definition GetRegions :: "string \<Rightarrow> string \<Rightarrow> string \<Rightarrow> string \<times> (string \<times> string) list" where
  "GetRegions connType countryCode isp =
     (''/api/get-country-regions'', [(''country_iso'', to_lower countryCode), (''conn_type'', connType), (''provider'', isp)])"

definition GetCities :: "string \<Rightarrow> string \<Rightarrow> string \<Rightarrow> string \<Rightarrow> string \<times> (string \<times> string) list" where
  "GetCities connType countryCode isp regionID =
     (''/api/get-country-cities'',
      [(''country_iso'', to_lower countryCode), (''conn_type'', connType), (''provider'', isp), (''region'', regionID)])"

text \<open>The four calls end alike: the request is sent and its answer decoded.\<close>

definition soax_call ::
  "(string \<Rightarrow> err + 'u) \<Rightarrow> 'u \<Rightarrow> ('u \<Rightarrow> string \<Rightarrow> 'u \<times> (string \<rightharpoonup> string)) \<Rightarrow> ('u \<times> (string \<rightharpoonup> string) \<Rightarrow> err + nat \<times> string \<times> (err + bytes))
   \<Rightarrow> (bytes \<Rightarrow> err + 'r) \<Rightarrow> soax_client \<Rightarrow> string \<times> (string \<times> string) list \<Rightarrow> err + 'r" where
  "soax_call parse base0 resolve send unmarshal c req =
     (case soax_request parse base0 resolve c (fst req) (snd req) of
        Inl e \<Rightarrow> Inl e | Inr r \<Rightarrow> soax_decode unmarshal (send r))"

text \<open>A call gives a result only of a body that came with status 200 and could be decoded.\<close>

lemma soax_call_ok:
  "soax_call parse base0 resolve send unmarshal c req = Inr x \<longleftrightarrow>
     (\<exists>r t b. soax_request parse base0 resolve c (fst req) (snd req) = Inr r \<and> send r = Inr (200, t, Inr b) \<and> unmarshal b = Inr x)"
  by (auto simp: soax_call_def soax_decode_def split: sum.splits if_splits prod.splits)

lemma soax_query_fold:
  "k \<notin> fst ` set ps \<Longrightarrow> foldl (\<lambda>q (k, v). if v \<noteq> [] then q(k \<mapsto> v) else q) q ps k = q k"
  by (induction ps arbitrary: q) (auto split: prod.splits)

text \<open>Every request of the API carries the keys of the client, and no parameter that is empty is sent.\<close>

lemma soax_request_keys:
  assumes "soax_request parse base0 resolve c path ps = Inr (u, q)" "(path, ps) \<in> {GetResidentialISPs cc r ci, GetMobileISPs cc r ci, GetRegions ct cc isp, GetCities ct cc isp r}"
  shows "q ''api_key'' = Some (sc_apiKey c) \<and> q ''package_key'' = Some (sc_apiPackageKey c)"
proof -
  have "''api_key'' \<notin> fst ` set ps" "''package_key'' \<notin> fst ` set ps"
    using assms(2) by (auto simp: GetResidentialISPs_def GetMobileISPs_def GetRegions_def GetCities_def)
  then show ?thesis using assms(1) by (auto simp: soax_request_def soax_query_fold split: sum.splits prod.splits if_splits)
qed

end
