(* ===== verification/SysProxy.thy ===== *)
theory SysProxy
  imports GoStrings
begin

text \<open>
  The settings of the system's proxies (\<^verbatim>\<open>x/sysproxy\<close>) on GNOME, macOS and Windows. The commands and the registry are parameters, with
  what they document as the predicates \<open>gnome_ok\<close> and \<open>registry_ok\<close>; the lemmas show that a proxy that was set is read back, what a
  failure in the middle leaves, and how the output of the commands of macOS is read.
\<close>

section \<open>GNOME\<close>

text \<open>
  \<^verbatim>\<open>sysproxy_linux.go\<close>. \<open>gset\<close> runs \<^verbatim>\<open>gsettings set\<close> with a schema, a key and a value, \<open>gget\<close> runs \<^verbatim>\<open>gsettings get\<close> and gives the output and
  maybe an error.
\<close>

type_synonym 's gset = "'s \<Rightarrow> string \<Rightarrow> string \<Rightarrow> string \<Rightarrow> 's \<times> err option"

type_synonym 's gget = "'s \<Rightarrow> string \<Rightarrow> string \<Rightarrow> string \<times> err option"

definition gnomeSettingsSetString :: "'s gset \<Rightarrow> 's \<Rightarrow> string \<Rightarrow> string \<Rightarrow> string \<Rightarrow> 's \<times> err option" where
  "gnomeSettingsSetString gset s settings key v =
     (case gset s settings key v of
        (s', Some e) \<Rightarrow> (s', Some (ErrWrap ''gsettings command failed'' e)) | (s', None) \<Rightarrow> (s', None))"

definition trim_char :: "char \<Rightarrow> string \<Rightarrow> string" where
  "trim_char c s = rev (dropWhile (\<lambda>x. x = c) (rev (dropWhile (\<lambda>x. x = c) s)))"

definition gnomeSettingsGetString :: "'s gget \<Rightarrow> 's \<Rightarrow> string \<Rightarrow> string \<Rightarrow> string \<times> err option" where
  "gnomeSettingsGetString gget s settings key =
     (case gget s settings key of (out, e) \<Rightarrow> (trim_char (CHR 0x27) (trim_space out), e))"

text \<open>A list of settings, up to the first that fails.\<close>

fun gnome_sets :: "'s gset \<Rightarrow> 's \<Rightarrow> (string \<times> string \<times> string) list \<Rightarrow> 's \<times> err option" where
  "gnome_sets gset s [] = (s, None)"
| "gnome_sets gset s ((a, k, v) # r) =
     (case gnomeSettingsSetString gset s a k v of (s', Some e) \<Rightarrow> (s', Some e) | (s', None) \<Rightarrow> gnome_sets gset s' r)"

datatype proxy_type = ProxyHTTP | ProxyHTTPS | ProxySOCKS

fun gnome_schema :: "proxy_type \<Rightarrow> string" where
  "gnome_schema ProxyHTTP = ''org.gnome.system.proxy.http''"
| "gnome_schema ProxyHTTPS = ''org.gnome.system.proxy.https''"
| "gnome_schema ProxySOCKS = ''org.gnome.system.proxy.socks''"

definition gnome_mode :: string where "gnome_mode = ''org.gnome.system.proxy''"

definition gnome_proxy_settings :: "proxy_type \<Rightarrow> string \<Rightarrow> string \<Rightarrow> (string \<times> string \<times> string) list" where
  "gnome_proxy_settings p host port = [(gnome_schema p, ''host'', host), (gnome_schema p, ''port'', port)]"

definition gnome_SetWebProxy :: "'s gset \<Rightarrow> 's \<Rightarrow> string \<Rightarrow> string \<Rightarrow> 's \<times> err option" where
  "gnome_SetWebProxy gset s host port =
     gnome_sets gset s (gnome_proxy_settings ProxyHTTP host port @ gnome_proxy_settings ProxyHTTPS host port @ [(gnome_mode, ''mode'', ''manual'')])"

definition gnome_SetSOCKSProxy :: "'s gset \<Rightarrow> 's \<Rightarrow> string \<Rightarrow> string \<Rightarrow> 's \<times> err option" where
  "gnome_SetSOCKSProxy gset s host port =
     gnome_sets gset s (gnome_proxy_settings ProxySOCKS host port @ [(gnome_mode, ''mode'', ''manual'')])"

definition gnome_DisableWebProxy :: "'s gset \<Rightarrow> 's \<Rightarrow> 's \<times> err option" where
  "gnome_DisableWebProxy gset s = gnomeSettingsSetString gset s gnome_mode ''mode'' ''none''"

definition gnome_DisableSOCKSProxy :: "'s gset \<Rightarrow> 's \<Rightarrow> 's \<times> err option" where
  "gnome_DisableSOCKSProxy gset s = gnomeSettingsSetString gset s gnome_mode ''mode'' ''none''"

fun gnome_gets :: "'s gget \<Rightarrow> 's \<Rightarrow> (string \<times> string) list \<Rightarrow> err + string list" where
  "gnome_gets gget s [] = Inr []"
| "gnome_gets gget s ((a, k) # r) =
     (case gnomeSettingsGetString gget s a k of (_, Some e) \<Rightarrow> Inl e | (v, None) \<Rightarrow> map_sum id ((#) v) (gnome_gets gget s r))"

definition gnome_getWebProxy :: "'s gget \<Rightarrow> 's \<Rightarrow> err + string \<times> string \<times> bool" where
  "gnome_getWebProxy gget s =
     (case gnome_gets gget s [(gnome_schema ProxyHTTP, ''host''), (gnome_schema ProxyHTTP, ''port''),
        (gnome_schema ProxyHTTPS, ''host''), (gnome_schema ProxyHTTPS, ''port''), (gnome_mode, ''mode'')] of
        Inl e \<Rightarrow> Inl e
      | Inr vs \<Rightarrow>
          if vs ! 0 \<noteq> vs ! 2 \<or> vs ! 1 \<noteq> vs ! 3 then Inl (ErrNew ''HTTP and HTTPS proxy settings are different'')
          else Inr (vs ! 0, vs ! 1, vs ! 4 \<noteq> ''none''))"

definition gnome_getSOCKSProxy :: "'s gget \<Rightarrow> 's \<Rightarrow> err + string \<times> string \<times> bool" where
  "gnome_getSOCKSProxy gget s =
     (case gnome_gets gget s [(gnome_schema ProxySOCKS, ''host''), (gnome_schema ProxySOCKS, ''port''), (gnome_mode, ''mode'')] of
        Inl e \<Rightarrow> Inl e | Inr vs \<Rightarrow> Inr (vs ! 0, vs ! 1, vs ! 2 \<noteq> ''none''))"

text \<open>What \<^verbatim>\<open>gsettings\<close> promises when it works: it prints the value that was set, a string in quotes, and a newline.\<close>

definition plain_value :: "string \<Rightarrow> bool" where
  "plain_value v \<longleftrightarrow> (\<forall>c \<in> set v. \<not> is_space c \<and> c \<noteq> CHR 0x27)"

definition printed :: "string \<Rightarrow> string \<Rightarrow> bool" where
  "printed v out \<longleftrightarrow> out = v @ [CHR 0x0A] \<or> out = [CHR 0x27] @ v @ [CHR 0x27, CHR 0x0A]"

definition gnome_ok :: "'s gset \<Rightarrow> 's gget \<Rightarrow> bool" where
  "gnome_ok gset gget \<longleftrightarrow>
     (\<forall>s a k v. snd (gset s a k v) = None)
     \<and> (\<forall>s a k v. plain_value v \<longrightarrow> (\<exists>out. gget (fst (gset s a k v)) a k = (out, None) \<and> printed v out))
     \<and> (\<forall>s a k v a' k'. (a', k') \<noteq> (a, k) \<longrightarrow> gget (fst (gset s a k v)) a' k' = gget s a' k')"

lemma trim_wrapped:
  assumes "\<forall>x \<in> set a \<union> set b. P x" "\<forall>x \<in> set v. \<not> P x"
  shows "rev (dropWhile P (rev (dropWhile P (a @ v @ b)))) = v"
proof (cases v rule: rev_cases)
  case Nil
  then have "dropWhile P (a @ v @ b) = []" unfolding dropWhile_eq_Nil_conv using assms(1) Nil by auto
  then show ?thesis using Nil by (simp only: rev.simps dropWhile.simps)
next
  case (snoc xs x)
  then have "v \<noteq> []" by simp
  then obtain y ys where v: "v = y # ys" by (cases v) auto
  have "dropWhile P (a @ v @ b) = v @ b" using assms v by simp
  moreover have "dropWhile P (rev b @ rev v) = dropWhile P (rev v)" using assms(1) by (intro dropWhile_append2) auto
  moreover have "dropWhile P (rev v) = rev v" using assms(2) snoc by simp
  ultimately show ?thesis by simp
qed

lemma trim_printed: "plain_value v \<Longrightarrow> printed v out \<Longrightarrow> trim_char (CHR 0x27) (trim_space out) = v"
proof -
  assume v: "plain_value v" and p: "printed v out"
  have s: "is_space (CHR 0x0A)" "\<not> is_space (CHR 0x27)" by (simp_all add: is_space_def)
  consider "out = v @ [CHR 0x0A]" | "out = [CHR 0x27] @ v @ [CHR 0x27, CHR 0x0A]" using p by (auto simp: printed_def)
  then show ?thesis
  proof cases
    case 1
    have "trim_space out = v" "trim_char (CHR 0x27) v = v"
      using trim_wrapped [of "[]" "[CHR 0x0A]" is_space v] trim_wrapped [of "[]" "[]" "\<lambda>x. x = CHR 0x27" v] v s 1
      by (auto simp: trim_space_def trim_char_def plain_value_def)
    then show ?thesis by simp
  next
    case 2
    have "trim_space out = [CHR 0x27] @ v @ [CHR 0x27]" "trim_char (CHR 0x27) ([CHR 0x27] @ v @ [CHR 0x27]) = v"
      using trim_wrapped [of "[]" "[CHR 0x0A]" is_space "[CHR 0x27] @ v @ [CHR 0x27]"]
        trim_wrapped [of "[CHR 0x27]" "[CHR 0x27]" "\<lambda>x. x = CHR 0x27" v] v s 2
      by (auto simp: trim_space_def trim_char_def plain_value_def)
    then show ?thesis by simp
  qed
qed

lemma gnome_get_set:
  assumes "gnome_ok gset gget"
  shows "gnomeSettingsSetString gset s a k v = (fst (gset s a k v), None)"
    and "plain_value v \<Longrightarrow> gnomeSettingsGetString gget (fst (gset s a k v)) a k = (v, None)"
    and "(a', k') \<noteq> (a, k) \<Longrightarrow> gnomeSettingsGetString gget (fst (gset s a k v)) a' k' = gnomeSettingsGetString gget s a' k'"
proof -
  show "gnomeSettingsSetString gset s a k v = (fst (gset s a k v), None)"
  proof -
    have "snd (gset s a k v) = None" using assms by (simp add: gnome_ok_def)
    then show ?thesis by (cases "gset s a k v") (simp add: gnomeSettingsSetString_def)
  qed
  show "plain_value v \<Longrightarrow> gnomeSettingsGetString gget (fst (gset s a k v)) a k = (v, None)"
    using assms trim_printed unfolding gnome_ok_def gnomeSettingsGetString_def by (metis (no_types, lifting) old.prod.case)
  show "(a', k') \<noteq> (a, k) \<Longrightarrow> gnomeSettingsGetString gget (fst (gset s a k v)) a' k' = gnomeSettingsGetString gget s a' k'"
    using assms unfolding gnome_ok_def gnomeSettingsGetString_def by metis
qed

lemma gnome_sets_eq:
  "gnome_ok gset gget \<Longrightarrow> gnome_sets gset s xs = (foldl (\<lambda>s (a, k, v). fst (gset s a k v)) s xs, None)"
  by (induction xs arbitrary: s) (auto simp: gnome_get_set(1))

text \<open>Reading a key gives the last value set for it.\<close>

lemma gnome_get_after:
  assumes ok: "gnome_ok gset gget"
  shows "distinct (map (\<lambda>(a, k, v). (a, k)) xs) \<Longrightarrow> (a, k, v) \<in> set xs \<Longrightarrow> plain_value v
    \<Longrightarrow> gnomeSettingsGetString gget (foldl (\<lambda>s (a, k, v). fst (gset s a k v)) s xs) a k = (v, None)"
proof (induction xs rule: rev_induct)
  case (snoc x xs)
  obtain a' k' v' where x: "x = (a', k', v')" by (cases x)
  show ?case
  proof (cases "(a, k) = (a', k')")
    case True
    then have "v' = v" using snoc.prems x by (force simp: distinct_map)
    then show ?thesis using gnome_get_set(2) [OF ok snoc.prems(3)] True x by simp
  next
    case False
    then show ?thesis using snoc gnome_get_set(3) [OF ok False] x by (auto simp: distinct_map)
  qed
qed simp

lemma gnome_get_other:
  assumes ok: "gnome_ok gset gget"
  shows "(a, k) \<notin> set (map (\<lambda>(a, k, v). (a, k)) xs)
    \<Longrightarrow> gnomeSettingsGetString gget (foldl (\<lambda>s (a, k, v). fst (gset s a k v)) s xs) a k = gnomeSettingsGetString gget s a k"
  by (induction xs arbitrary: s) (auto simp: gnome_get_set(3) [OF ok])

text \<open>
  The web proxy that was set is read back, and so is the SOCKS proxy, also when both are set; but the mode is one for both:
  disabling either disables the other.
\<close>

theorem gnome_proxies:
  assumes ok: "gnome_ok gset gget" and plain: "plain_value h1" "plain_value p1" "plain_value h2" "plain_value p2"
    and 1: "gnome_SetWebProxy gset s h1 p1 = (s1, e1)" and 2: "gnome_SetSOCKSProxy gset s1 h2 p2 = (s2, e2)"
    and 3: "gnome_DisableSOCKSProxy gset s2 = (s3, e3)"
  shows "e1 = None \<and> e2 = None \<and> e3 = None
    \<and> gnome_getWebProxy gget s2 = Inr (h1, p1, True) \<and> gnome_getSOCKSProxy gget s2 = Inr (h2, p2, True)
    \<and> gnome_getWebProxy gget s3 = Inr (h1, p1, False) \<and> gnome_getSOCKSProxy gget s3 = Inr (h2, p2, False)"
proof -
  let ?run = "foldl (\<lambda>s (a, k, v). fst (gset s a k v))"
  let ?w = "gnome_proxy_settings ProxyHTTP h1 p1 @ gnome_proxy_settings ProxyHTTPS h1 p1 @ [(gnome_mode, ''mode'', ''manual'')]"
  let ?x = "gnome_proxy_settings ProxySOCKS h2 p2 @ [(gnome_mode, ''mode'', ''manual'')]"
  have s: "s1 = ?run s ?w" "s2 = ?run s1 ?x" "s3 = fst (gset s2 gnome_mode ''mode'' ''none'')" and e: "e1 = None" "e2 = None" "e3 = None"
    using 1 2 3 gnome_sets_eq [OF ok] gnome_get_set(1) [OF ok]
    by (auto simp: gnome_SetWebProxy_def gnome_SetSOCKSProxy_def gnome_DisableSOCKSProxy_def)
  have d: "distinct (map (\<lambda>(a, k, v). (a, k)) ?w)" "distinct (map (\<lambda>(a, k, v). (a, k)) ?x)"
    by (simp_all add: gnome_proxy_settings_def gnome_mode_def)
  have m: "plain_value ''manual''" "plain_value ''none''" by (simp_all add: plain_value_def is_space_def)
  have w: "gnomeSettingsGetString gget s1 a k = (v, None)" if "(a, k, v) \<in> set ?w" "plain_value v" for a k v
    using gnome_get_after [OF ok d(1) that] s(1) by simp
  have x: "gnomeSettingsGetString gget s2 a k = (v, None)" if "(a, k, v) \<in> set ?x" "plain_value v" for a k v
    using gnome_get_after [OF ok d(2) that] s(2) by simp
  have o: "gnomeSettingsGetString gget s2 a k = gnomeSettingsGetString gget s1 a k" if "(a, k) \<notin> set (map (\<lambda>(a, k, v). (a, k)) ?x)" for a k
    using gnome_get_other [OF ok that] s(2) by simp
  have web: "gnomeSettingsGetString gget s2 (gnome_schema p) ''host'' = (h1, None)"
    "gnomeSettingsGetString gget s2 (gnome_schema p) ''port'' = (p1, None)" if "p \<in> {ProxyHTTP, ProxyHTTPS}" for p
    using that plain w [of "gnome_schema p"] o [of "gnome_schema p"] by (auto simp: gnome_proxy_settings_def gnome_mode_def)
  have socks: "gnomeSettingsGetString gget s2 (gnome_schema ProxySOCKS) ''host'' = (h2, None)"
    "gnomeSettingsGetString gget s2 (gnome_schema ProxySOCKS) ''port'' = (p2, None)"
    "gnomeSettingsGetString gget s2 gnome_mode ''mode'' = (''manual'', None)"
    using plain x m(1) by (simp_all add: gnome_proxy_settings_def)
  have last: "gnomeSettingsGetString gget s3 gnome_mode ''mode'' = (''none'', None)"
    "gnomeSettingsGetString gget s3 (gnome_schema p) k = gnomeSettingsGetString gget s2 (gnome_schema p) k" for p k
    using gnome_get_set(2,3) [OF ok] m(2) s(3) by (cases p; simp add: gnome_mode_def)+
  show ?thesis using e web socks last by (simp add: gnome_getWebProxy_def gnome_getSOCKSProxy_def del: gnome_schema.simps)
qed

definition demo_gset :: "(string \<times> string \<Rightarrow> string) gset" where
  "demo_gset s a k v = (s((a, k) := v), None)"

definition demo_gget :: "(string \<times> string \<Rightarrow> string) gget" where
  "demo_gget s a k = ([CHR 0x27] @ s (a, k) @ [CHR 0x27, CHR 0x0A], None)"

theorem gnome_proxies_witness:
  "\<exists>s. gnome_SetWebProxy demo_gset (\<lambda>_. []) ''localhost'' ''8080'' = (s, None)
    \<and> (\<exists>s'. gnome_SetSOCKSProxy demo_gset s ''localhost'' ''1080'' = (s', None) \<and> gnome_getWebProxy demo_gget s' = Inr (''localhost'', ''8080'', True)
       \<and> (\<exists>s''. gnome_DisableSOCKSProxy demo_gset s' = (s'', None) \<and> gnome_getWebProxy demo_gget s'' = Inr (''localhost'', ''8080'', False)))"
proof -
  have ok: "gnome_ok demo_gset demo_gget" by (auto simp: gnome_ok_def demo_gset_def demo_gget_def printed_def)
  have p: "plain_value ''localhost''" "plain_value ''8080''" "plain_value ''1080''" by code_simp+
  obtain s1 e1 where 1: "gnome_SetWebProxy demo_gset (\<lambda>_. []) ''localhost'' ''8080'' = (s1, e1)" by fastforce
  obtain s2 e2 where 2: "gnome_SetSOCKSProxy demo_gset s1 ''localhost'' ''1080'' = (s2, e2)" by fastforce
  obtain s3 e3 where 3: "gnome_DisableSOCKSProxy demo_gset s2 = (s3, e3)" by fastforce
  from gnome_proxies [OF ok p(1,2,1,3) 1 2 3] show ?thesis using 1 2 3 by auto
qed

section \<open>macOS\<close>

text \<open>\<^verbatim>\<open>strings.Fields\<close>, \<^verbatim>\<open>strings.HasPrefix\<close> and \<^verbatim>\<open>strings.Contains\<close>.\<close>

fun string_fields :: "string \<Rightarrow> string \<Rightarrow> string list" where
  "string_fields acc [] = (if acc = [] then [] else [acc])"
| "string_fields acc (c # cs) =
     (if is_space c then (if acc = [] then string_fields [] cs else acc # string_fields [] cs)
      else string_fields (acc @ [c]) cs)"

fun contains_text :: "string \<Rightarrow> string \<Rightarrow> bool" where
  "contains_text [] t = (t = [])"
| "contains_text (c # cs) t = (has_prefix (c # cs) t \<or> contains_text cs t)"

text \<open>\<^verbatim>\<open>getDefaultRouteInterface\<close>, of the output of \<^verbatim>\<open>route get default\<close>.\<close>

fun route_interface :: "string list \<Rightarrow> err + string" where
  "route_interface [] = Inl (ErrNew ''failed to get default route interface'')"
| "route_interface (line # lines) =
     (if has_prefix (trim_space line) ''interface:'' \<and> 2 \<le> length (string_fields [] line)
      then Inr (string_fields [] line ! 1) else route_interface lines)"

definition getDefaultRouteInterface :: "err + string \<Rightarrow> err + string" where
  "getDefaultRouteInterface out = (case out of Inl e \<Rightarrow> Inl e | Inr output \<Rightarrow> route_interface (split_on (CHR 0x0A) output))"

text \<open>The first match of the pattern \<^verbatim>\<open>Hardware Port: ([^,]+),\<close> in a line.\<close>

fun hardware_port :: "string \<Rightarrow> string option" where
  "hardware_port [] = None"
| "hardware_port (c # cs) =
     (let rest = drop 15 (c # cs); name = takeWhile (\<lambda>x. x \<noteq> CHR '','') rest in
      if has_prefix (c # cs) ''Hardware Port: '' \<and> name \<noteq> [] \<and> length name < length rest then Some name else hardware_port cs)"

fun service_name :: "string \<Rightarrow> string list \<Rightarrow> err + string" where
  "service_name port [] = Inl (ErrNew (''failed to find network service name for hardware port '' @ port))"
| "service_name port (line # lines) =
     (case (if contains_text line port then hardware_port line else None) of Some n \<Rightarrow> Inr n | None \<Rightarrow> service_name port lines)"

definition getNetworkServiceName :: "string \<Rightarrow> string \<Rightarrow> err + string" where
  "getNetworkServiceName output port = service_name port (split_on (CHR 0x0A) output)"

definition getActiveNetworkInterface :: "err + string \<Rightarrow> err + string \<Rightarrow> err + string" where
  "getActiveNetworkInterface services route =
     (case services of
        Inl e \<Rightarrow> Inl e
      | Inr out \<Rightarrow> (case getDefaultRouteInterface route of Inl e \<Rightarrow> Inl e | Inr inet \<Rightarrow> getNetworkServiceName out inet))"

text \<open>\<^verbatim>\<open>parseProxySettings\<close>: the loop over the lines, with what was found so far.\<close>

record proxy_settings =
  pr_host :: string
  pr_port :: string
  pr_enabled :: bool

definition second_field :: "string \<Rightarrow> string \<Rightarrow> string" where
  "second_field line old = (if 2 \<le> length (string_fields [] line) then string_fields [] line ! 1 else old)"

fun settings_loop :: "string list \<Rightarrow> proxy_settings \<Rightarrow> err + proxy_settings" where
  "settings_loop [] s = Inr s"
| "settings_loop (line # lines) s =
     (let t = trim_space line in
      if has_prefix t ''Server:'' then settings_loop lines (s\<lparr>pr_host := second_field line (pr_host s)\<rparr>)
      else if has_prefix t ''Port:'' then settings_loop lines (s\<lparr>pr_port := second_field line (pr_port s)\<rparr>)
      else if has_prefix t ''Enabled:''
      then (if contains_text t ''Yes'' then settings_loop lines (s\<lparr>pr_enabled := True\<rparr>)
            else if contains_text t ''No'' then settings_loop lines (s\<lparr>pr_enabled := False\<rparr>)
            else Inl (ErrNew ''failed to parse proxy status from output''))
      else settings_loop lines s)"

definition parseProxySettings :: "string \<Rightarrow> err + proxy_settings" where
  "parseProxySettings commandOutput =
     (case settings_loop (split_on (CHR 0x0A) commandOutput) \<lparr>pr_host = [], pr_port = [], pr_enabled = False\<rparr> of
        Inl e \<Rightarrow> Inl e
      | Inr s \<Rightarrow> if pr_host s = [] \<or> pr_port s = [] then Inl (ErrNew ''failed to parse host and port from output'') else Inr s)"

text \<open>\<open>run\<close> is a command of \<^verbatim>\<open>networksetup\<close> with its arguments; \<open>iface\<close> what \<^verbatim>\<open>getActiveNetworkInterface\<close> gives.\<close>

fun set_command :: "proxy_type \<Rightarrow> string" where
  "set_command ProxyHTTP = ''-setwebproxy''"
| "set_command ProxyHTTPS = ''-setsecurewebproxy''"
| "set_command ProxySOCKS = ''-setsocksfirewallproxy''"

definition mac_setProxySettings :: "('s \<Rightarrow> string list \<Rightarrow> 's \<times> err option) \<Rightarrow> proxy_type \<Rightarrow> string \<Rightarrow> string \<Rightarrow> string \<Rightarrow> 's \<Rightarrow> 's \<times> err option" where
  "mac_setProxySettings run p iface host port s = run s [set_command p, iface, host, port]"

definition mac_disableProxy :: "('s \<Rightarrow> string list \<Rightarrow> 's \<times> err option) \<Rightarrow> proxy_type \<Rightarrow> string \<Rightarrow> 's \<Rightarrow> 's \<times> err option" where
  "mac_disableProxy run p iface s = run s [set_command p @ ''state'', iface, ''off'']"

definition mac_SetWebProxy :: "('s \<Rightarrow> string list \<Rightarrow> 's \<times> err option) \<Rightarrow> err + string \<Rightarrow> string \<Rightarrow> string \<Rightarrow> 's \<Rightarrow> 's \<times> err option" where
  "mac_SetWebProxy run iface host port s =
     (case iface of
        Inl e \<Rightarrow> (s, Some e)
      | Inr i \<Rightarrow>
          (case mac_setProxySettings run ProxyHTTP i host port s of
             (s', Some e) \<Rightarrow> (s', Some e)
           | (s', None) \<Rightarrow> mac_setProxySettings run ProxyHTTPS i host port s'))"

definition mac_DisableWebProxy :: "('s \<Rightarrow> string list \<Rightarrow> 's \<times> err option) \<Rightarrow> err + string \<Rightarrow> 's \<Rightarrow> 's \<times> err option" where
  "mac_DisableWebProxy run iface s =
     (case iface of
        Inl e \<Rightarrow> (s, Some e)
      | Inr i \<Rightarrow>
          (case mac_disableProxy run ProxyHTTP i s of
             (s1, e1) \<Rightarrow>
               (case mac_disableProxy run ProxyHTTPS i s1 of
                  (s2, e2) \<Rightarrow> (s2, (case e2 of None \<Rightarrow> e1 | Some x \<Rightarrow> Some (join_err e1 x))))))"

definition mac_SetSOCKSProxy :: "('s \<Rightarrow> string list \<Rightarrow> 's \<times> err option) \<Rightarrow> err + string \<Rightarrow> string \<Rightarrow> string \<Rightarrow> 's \<Rightarrow> 's \<times> err option" where
  "mac_SetSOCKSProxy run iface host port s =
     (case iface of Inl e \<Rightarrow> (s, Some e) | Inr i \<Rightarrow> mac_setProxySettings run ProxySOCKS i host port s)"

definition mac_DisableSOCKSProxy :: "('s \<Rightarrow> string list \<Rightarrow> 's \<times> err option) \<Rightarrow> err + string \<Rightarrow> 's \<Rightarrow> 's \<times> err option" where
  "mac_DisableSOCKSProxy run iface s = (case iface of Inl e \<Rightarrow> (s, Some e) | Inr i \<Rightarrow> mac_disableProxy run ProxySOCKS i s)"

text \<open>The getters; \<open>get\<close> runs a command and gives its output.\<close>

fun get_command :: "proxy_type \<Rightarrow> string" where
  "get_command ProxyHTTP = ''-getwebproxy''"
| "get_command ProxyHTTPS = ''-getsecurewebproxy''"
| "get_command ProxySOCKS = ''-getsocksfirewallproxy''"

definition mac_getProxySettings :: "(string list \<Rightarrow> err + string) \<Rightarrow> proxy_type \<Rightarrow> string \<Rightarrow> err + proxy_settings" where
  "mac_getProxySettings get p iface = (case get [get_command p, iface] of Inl e \<Rightarrow> Inl e | Inr out \<Rightarrow> parseProxySettings out)"

definition mac_getWebProxy :: "(string list \<Rightarrow> err + string) \<Rightarrow> err + string \<Rightarrow> err + string \<times> string \<times> bool" where
  "mac_getWebProxy get iface =
     (case iface of
        Inl e \<Rightarrow> Inl e
      | Inr i \<Rightarrow>
          (case mac_getProxySettings get ProxyHTTP i of
             Inl e \<Rightarrow> Inl e
           | Inr a \<Rightarrow>
               (case mac_getProxySettings get ProxyHTTPS i of
                  Inl e \<Rightarrow> Inl e
                | Inr b \<Rightarrow>
                    if pr_host a \<noteq> pr_host b \<or> pr_port a \<noteq> pr_port b then Inl (ErrNew ''HTTP and HTTPS proxy settings do not match'')
                    else Inr (pr_host a, pr_port a, pr_enabled a))))"

definition mac_getSOCKSProxy :: "(string list \<Rightarrow> err + string) \<Rightarrow> err + string \<Rightarrow> err + string \<times> string \<times> bool" where
  "mac_getSOCKSProxy get iface =
     (case iface of
        Inl e \<Rightarrow> Inl e
      | Inr i \<Rightarrow>
          (case mac_getProxySettings get ProxySOCKS i of
             Inl e \<Rightarrow> Inl e | Inr a \<Rightarrow> Inr (pr_host a, pr_port a, pr_enabled a)))"

text \<open>Words and the fields of a line.\<close>

definition word :: "string \<Rightarrow> bool" where
  "word w \<longleftrightarrow> w \<noteq> [] \<and> (\<forall>c \<in> set w. \<not> is_space c)"

lemma string_fields_word: "\<forall>c \<in> set w. \<not> is_space c \<Longrightarrow> string_fields acc (w @ s) = string_fields (acc @ w) s"
  by (induction w arbitrary: acc) auto

lemma string_fields_two: "word k \<Longrightarrow> word v \<Longrightarrow> string_fields [] (k @ '' '' @ v) = [k, v]"
  using string_fields_word [of k "[]" "'' '' @ v"] string_fields_word [of v "[]" "[]"]
  by (simp add: word_def is_space_def)

lemma trim_line: "word k \<Longrightarrow> word v \<Longrightarrow> trim_space (k @ '' '' @ v) = k @ '' '' @ v"
  by (intro trim_space_plain) (auto simp: word_def)

text \<open>
  What \<^verbatim>\<open>networksetup -getwebproxy\<close> prints is read as the host, the port and the state, whatever the host is.
\<close>

theorem mac_settings_read:
  assumes h: "word h" and p: "word p" and nl: "nl = [CHR 0x0A]"
  shows "parseProxySettings (''Enabled: '' @ (if on then ''Yes'' else ''No'') @ nl @ ''Server: '' @ h @ nl @ ''Port: '' @ p @ nl
      @ ''Authenticated Proxy Enabled: 0'' @ nl) = Inr \<lparr>pr_host = h, pr_port = p, pr_enabled = on\<rparr>"
proof -
  have n: "CHR 0x0A \<notin> set w" if "word w" for w using that by (auto simp: word_def is_space_def)
  have k: "word ''Server:''" "word ''Port:''" "word ''Enabled:''" "word ''Yes''" "word ''No''" by (simp_all add: word_def is_space_def)
  let ?on = "''Enabled:'' @ '' '' @ (if on then ''Yes'' else ''No'')"
  let ?s = "''Server:'' @ '' '' @ h" and ?p = "''Port:'' @ '' '' @ p" and ?a = "''Authenticated Proxy Enabled: 0''"
  have lines: "split_on (CHR 0x0A) (?on @ nl @ ?s @ nl @ ?p @ nl @ ?a @ nl) = [?on, ?s, ?p, ?a, []]"
    using n [OF h] n [OF p] split_on_append [of "CHR 0x0A" ?on] split_on_append [of "CHR 0x0A" ?s]
      split_on_append [of "CHR 0x0A" ?p] split_on_append [of "CHR 0x0A" ?a]
    by (simp add: nl)
  have t1: "trim_space ?on = ?on" using trim_line [OF k(3)] k(4,5) by (cases on) (simp_all only: if_True if_False)
  have t2: "trim_space ?s = ?s" "trim_space ?p = ?p" by (rule trim_line [OF k(1) h], rule trim_line [OF k(2) p])
  have t3: "trim_space ?a = ?a" "trim_space [] = []" by code_simp+
  note t = t1 t2 t3
  have f: "second_field ?s x = h" "second_field ?p x = p" for x
    using string_fields_two [OF k(1) h] string_fields_two [OF k(2) p] by (simp_all add: second_field_def)
  have e: "contains_text ?on ''Yes'' = on" "\<not> on \<Longrightarrow> contains_text ?on ''No''" by (simp_all add: has_prefix_def)
  have "settings_loop [?on, ?s, ?p, ?a, []] \<lparr>pr_host = [], pr_port = [], pr_enabled = False\<rparr>
      = Inr \<lparr>pr_host = h, pr_port = p, pr_enabled = on\<rparr>"
    using e by (simp only: settings_loop.simps t f Let_def) (auto simp: has_prefix_def)
  then show ?thesis using lines h p by (simp add: parseProxySettings_def word_def)
qed

theorem mac_settings_read_witness:
  "parseProxySettings (''Enabled: '' @ ''Yes'' @ [CHR 0x0A] @ ''Server: '' @ ''localhost'' @ [CHR 0x0A] @ ''Port: '' @ ''8080'' @ [CHR 0x0A]
      @ ''Authenticated Proxy Enabled: 0'' @ [CHR 0x0A]) = Inr \<lparr>pr_host = ''localhost'', pr_port = ''8080'', pr_enabled = True\<rparr>"
proof -
  have "word ''localhost''" "word ''8080''" by code_simp+
  from mac_settings_read [OF this refl, of True] show ?thesis by simp
qed

text \<open>
  The service of a device is searched by text: with the device \<^verbatim>\<open>en1\<close> as the default route, the first line that has \<^verbatim>\<open>en1\<close>
  anywhere is taken, so the settings of \<^verbatim>\<open>en10\<close> are changed if it is listed first.
\<close>

lemma service_name_confused:
  "getNetworkServiceName (''(1) Dock'' @ [CHR 0x0A] @ ''(Hardware Port: Dock, Device: en10)'' @ [CHR 0x0A] @ ''(2) Wi-Fi'' @ [CHR 0x0A]
     @ ''(Hardware Port: Wi-Fi, Device: en1)'') ''en1'' = Inr ''Dock''"
  by code_simp

text \<open>
  When the second of the two commands fails the first one is not reverted: the web proxy is set for HTTP and not for HTTPS,
  although \<^verbatim>\<open>SetWebProxy\<close> returns an error.
\<close>

lemma mac_web_partial:
  "mac_setProxySettings run ProxyHTTP i h p s = (s1, None) \<Longrightarrow> mac_setProxySettings run ProxyHTTPS i h p s1 = (s2, Some e)
   \<Longrightarrow> mac_SetWebProxy run (Inr i) h p s = (s2, Some e)"
  by (simp add: mac_SetWebProxy_def)

section \<open>Windows\<close>

text \<open>
  The registry key \<^verbatim>\<open>Internet Settings\<close>: opening it, its text and number values, and the notification of WinINet, each with
  its error.
\<close>

record 's registry =
  rg_open :: "'s \<Rightarrow> err option"
  rg_set_text :: "'s \<Rightarrow> string \<Rightarrow> string \<Rightarrow> 's \<times> err option"
  rg_set_num :: "'s \<Rightarrow> string \<Rightarrow> nat \<Rightarrow> 's \<times> err option"
  rg_text :: "'s \<Rightarrow> string \<Rightarrow> err + string"
  rg_num :: "'s \<Rightarrow> string \<Rightarrow> err + nat"
  rg_notify :: "nat \<Rightarrow> err option"

definition notifyWinInet :: "'s registry \<Rightarrow> err option" where
  "notifyWinInet R =
     (case rg_notify R 39 of
        Some e \<Rightarrow> Some (ErrWrap ''failed to notify the system that the registry settings have been changed'' e)
      | None \<Rightarrow>
          (case rg_notify R 37 of
             Some e \<Rightarrow> Some (ErrWrap ''failed to refresh the proxy data from the registry'' e) | None \<Rightarrow> None))"

definition win_setProxySettings :: "'s registry \<Rightarrow> string \<Rightarrow> string \<Rightarrow> 's \<Rightarrow> 's \<times> err option" where
  "win_setProxySettings R server override s =
     (case rg_open R s of
        Some e \<Rightarrow> (s, Some e)
      | None \<Rightarrow>
          (case rg_set_text R s ''ProxyServer'' server of
             (s1, Some e) \<Rightarrow> (s1, Some e)
           | (s1, None) \<Rightarrow>
               (case rg_set_text R s1 ''ProxyOverride'' override of
                  (s2, Some e) \<Rightarrow> (s2, Some e)
                | (s2, None) \<Rightarrow>
                    (case rg_set_num R s2 ''ProxyEnable'' 1 of
                       (s3, Some e) \<Rightarrow> (s3, Some e)
                     | (s3, None) \<Rightarrow> (s3, notifyWinInet R)))))"

definition win_SetWebProxy :: "'s registry \<Rightarrow> string \<Rightarrow> string \<Rightarrow> 's \<Rightarrow> 's \<times> err option" where
  "win_SetWebProxy R host port = win_setProxySettings R (join_host_port host port) ''*.local;<local>''"

definition win_SetSOCKSProxy :: "'s registry \<Rightarrow> string \<Rightarrow> string \<Rightarrow> 's \<Rightarrow> 's \<times> err option" where
  "win_SetSOCKSProxy R host port = win_setProxySettings R (''socks='' @ join_host_port host port) ''*.local;<local>''"

definition win_disableProxy :: "'s registry \<Rightarrow> 's \<Rightarrow> 's \<times> err option" where
  "win_disableProxy R s =
     (case rg_open R s of
        Some e \<Rightarrow> (s, Some e)
      | None \<Rightarrow> (case rg_set_num R s ''ProxyEnable'' 0 of (s1, Some e) \<Rightarrow> (s1, Some e) | (s1, None) \<Rightarrow> (s1, notifyWinInet R)))"

definition win_getWebProxy :: "'s registry \<Rightarrow> 's \<Rightarrow> err + string \<times> string \<times> bool" where
  "win_getWebProxy R s =
     (case rg_open R s of
        Some e \<Rightarrow> Inl e
      | None \<Rightarrow>
          (case rg_text R s ''ProxyServer'' of
             Inl e \<Rightarrow> Inl e
           | Inr address \<Rightarrow>
               (case rg_num R s ''ProxyEnable'' of
                  Inl e \<Rightarrow> Inl e
                | Inr enable \<Rightarrow>
                    (case split_host_port address of Inl e \<Rightarrow> Inl e | Inr (host, port) \<Rightarrow> Inr (host, port, enable = 1)))))"

text \<open>The error of reading the address of the SOCKS proxy is overwritten; the empty text does not split.\<close>

definition win_getSOCKSProxy :: "'s registry \<Rightarrow> 's \<Rightarrow> err + string \<times> string \<times> bool" where
  "win_getSOCKSProxy R s =
     (case rg_open R s of
        Some e \<Rightarrow> Inl e
      | None \<Rightarrow>
          (let address = (case rg_text R s ''ProxyServer'' of Inl _ \<Rightarrow> [] | Inr a \<Rightarrow> a);
               h = (if has_prefix address ''socks='' then drop 6 address else address) in
           case split_host_port h of
             Inl e \<Rightarrow> Inl e
           | Inr (host, port) \<Rightarrow> (case rg_num R s ''ProxyEnable'' of Inl e \<Rightarrow> Inl e | Inr enable \<Rightarrow> Inr (host, port, enable = 1))))"

text \<open>What the registry promises when no call fails: a value that was set is read, and the others stay.\<close>

definition registry_ok :: "'s registry \<Rightarrow> bool" where
  "registry_ok R \<longleftrightarrow>
     (\<forall>s. rg_open R s = None) \<and> (\<forall>k. rg_notify R k = None)
     \<and> (\<forall>s k v. snd (rg_set_text R s k v) = None \<and> rg_text R (fst (rg_set_text R s k v)) k = Inr v
          \<and> (\<forall>k'. k' \<noteq> k \<longrightarrow> rg_text R (fst (rg_set_text R s k v)) k' = rg_text R s k') \<and> rg_num R (fst (rg_set_text R s k v)) = rg_num R s)
     \<and> (\<forall>s k n. snd (rg_set_num R s k n) = None \<and> rg_num R (fst (rg_set_num R s k n)) k = Inr n
          \<and> rg_text R (fst (rg_set_num R s k n)) = rg_text R s)"

lemma win_set_eq:
  assumes "registry_ok R"
  shows "\<exists>s'. win_setProxySettings R server override s = (s', None) \<and> rg_text R s' ''ProxyServer'' = Inr server \<and> rg_num R s' ''ProxyEnable'' = Inr 1"
    and "\<exists>s'. win_disableProxy R s = (s', None) \<and> rg_text R s' = rg_text R s \<and> rg_num R s' ''ProxyEnable'' = Inr 0"
proof -
  obtain s1 where s1: "rg_set_text R s ''ProxyServer'' server = (s1, None)" "rg_text R s1 ''ProxyServer'' = Inr server"
    using assms unfolding registry_ok_def by (metis prod.collapse)
  obtain s2 where s2: "rg_set_text R s1 ''ProxyOverride'' override = (s2, None)" "rg_text R s2 ''ProxyServer'' = Inr server"
  proof -
    have "rg_text R (fst (rg_set_text R s1 ''ProxyOverride'' override)) ''ProxyServer'' = rg_text R s1 ''ProxyServer''"
      using assms by (simp add: registry_ok_def)
    moreover have "snd (rg_set_text R s1 ''ProxyOverride'' override) = None" using assms by (simp add: registry_ok_def)
    ultimately show ?thesis using s1(2) that by (cases "rg_set_text R s1 ''ProxyOverride'' override") simp
  qed
  have num: "\<exists>s'. rg_set_num R t ''ProxyEnable'' n = (s', None) \<and> rg_num R s' ''ProxyEnable'' = Inr n \<and> rg_text R s' = rg_text R t" for t n
    using assms unfolding registry_ok_def by (metis prod.collapse)
  have o: "rg_open R t = None" "notifyWinInet R = None" for t using assms by (simp_all add: registry_ok_def notifyWinInet_def)
  show "\<exists>s'. win_setProxySettings R server override s = (s', None) \<and> rg_text R s' ''ProxyServer'' = Inr server \<and> rg_num R s' ''ProxyEnable'' = Inr 1"
    using num [of s2 1] s1 s2 o by (auto simp: win_setProxySettings_def)
  show "\<exists>s'. win_disableProxy R s = (s', None) \<and> rg_text R s' = rg_text R s \<and> rg_num R s' ''ProxyEnable'' = Inr 0"
    using num [of s 0] o by (auto simp: win_disableProxy_def)
qed

text \<open>
  On Windows there is one proxy: the SOCKS proxy that was set is read back, setting the web proxy replaces it, and what was set
  stays readable, but not enabled, after it is disabled.
\<close>

theorem win_proxies:
  assumes ok: "registry_ok R" and h: "CHR ''['' \<notin> set h" "CHR '']'' \<notin> set h"
    and p: "CHR '':'' \<notin> set p" "CHR ''['' \<notin> set p" "CHR '']'' \<notin> set p" and pre: "\<not> has_prefix (join_host_port h p) ''socks=''"
    and 1: "win_SetSOCKSProxy R h p s = (s1, e1)" and 2: "win_SetWebProxy R h p s1 = (s2, e2)" and 3: "win_disableProxy R s2 = (s3, e3)"
  shows "e1 = None \<and> e2 = None \<and> e3 = None \<and> win_getSOCKSProxy R s1 = Inr (h, p, True)
    \<and> win_getWebProxy R s2 = Inr (h, p, True) \<and> win_getSOCKSProxy R s2 = Inr (h, p, True) \<and> win_getWebProxy R s3 = Inr (h, p, False)"
proof -
  note j = split_join_host_port [OF h p]
  have o: "rg_open R t = None" for t using ok by (simp add: registry_ok_def)
  have r1: "e1 = None" "rg_text R s1 ''ProxyServer'' = Inr (''socks='' @ join_host_port h p)" "rg_num R s1 ''ProxyEnable'' = Inr 1"
    using win_set_eq(1) [OF ok, of "''socks='' @ join_host_port h p" "''*.local;<local>''" s] 1 by (auto simp: win_SetSOCKSProxy_def)
  have r2: "e2 = None" "rg_text R s2 ''ProxyServer'' = Inr (join_host_port h p)" "rg_num R s2 ''ProxyEnable'' = Inr 1"
    using win_set_eq(1) [OF ok, of "join_host_port h p" "''*.local;<local>''" s1] 2 by (auto simp: win_SetWebProxy_def)
  have r3: "e3 = None" "rg_text R s3 = rg_text R s2" "rg_num R s3 ''ProxyEnable'' = Inr 0"
    using win_set_eq(2) [OF ok, of s2] 3 by auto
  have d: "has_prefix (''socks='' @ x) ''socks=''" "drop 6 (''socks='' @ x) = x" for x by (simp_all add: has_prefix_def)
  show ?thesis using r1 r2 r3 j o pre d by (simp add: win_getSOCKSProxy_def win_getWebProxy_def Let_def del: append_Cons)
qed

end
