(* ===== verification/DnsDialer.thy ===== *)
theory DnsDialer
  imports Dns HappyEyeballs
begin

text \<open>
  The dialer over a DNS resolver (\<^verbatim>\<open>dns/stream_dialer.go\<close>): the loop of \<^verbatim>\<open>HappyEyeballsStreamDialer\<close> gets the results of two queries
  that run in parallel, for IPv6 and for IPv4 addresses. The components are the machines of theory \<open>HappyEyeballs\<close> and the
  lookups of theory \<open>Dns\<close>; the lemmas say which addresses the dialer tries and what its failure means. And the resolver over UDP with
  its connection.
\<close>

section \<open>The resolver over UDP\<close>

text \<open>
  \<^verbatim>\<open>Query\<close>: a new connection with its datagrams, which is closed in any case; \<open>deadline\<close> is \<^verbatim>\<open>SetDeadline\<close> with the deadline of the
  context, if it has one. The result \<open>None\<close> is that of \<open>queryDatagram\<close>: waiting for a datagram.
\<close>

definition udp_query ::
  "'b dns_lib \<Rightarrow> nat \<Rightarrow> 's writer \<Rightarrow> ('s \<Rightarrow> 's) \<Rightarrow> ('s \<Rightarrow> 's) \<Rightarrow> err + 's \<times> (bytes \<times> err option) list \<Rightarrow> question
   \<Rightarrow> 's option \<times> (err + dns_msg) option" where
  "udp_query L qid wr deadline close conn q =
     (case conn of
        Inl e \<Rightarrow> (None, Some (Inl (ErrNested ErrDial e)))
      | Inr (s, reads) \<Rightarrow>
          (case queryDatagram L qid wr (deadline s) reads q of
             (s', None) \<Rightarrow> (Some s', None)
           | (s', Some r) \<Rightarrow> (Some (close s'), Some r)))"

section \<open>The dialer\<close>

record ('r, 'd) dns_dialer =
  dd_resolver :: 'r
  dd_dialer :: 'd

definition dns_NewStreamDialer :: "'r option \<Rightarrow> 'd option \<Rightarrow> err + ('r, 'd) dns_dialer" where
  "dns_NewStreamDialer resolver dialer =
     (case resolver of
        None \<Rightarrow> Inl (ErrNew ''resolver must not be nil'')
      | Some r \<Rightarrow>
          (case dialer of
             None \<Rightarrow> Inl (ErrNew ''dialer must not be nil'')
           | Some d \<Rightarrow> Inr \<lparr>dd_resolver = r, dd_dialer = d\<rparr>))"

text \<open>The two functions that are given to \<^verbatim>\<open>NewParallelHappyEyeballsResolveFunc\<close>, by their number, and their result on the channel.\<close>

definition lookup_type :: "nat \<Rightarrow> nat" where
  "lookup_type i = (if i = 0 then 28 else 1)"

definition lookup_result ::
  "'b dns_lib \<Rightarrow> (question \<Rightarrow> err + dns_msg) \<Rightarrow> string \<Rightarrow> nat \<Rightarrow> bytes list \<times> err option" where
  "lookup_result L query hostname i =
     (case resolveIP L query (lookup_type i) hostname of Inl e \<Rightarrow> ([], Some e) | Inr ips \<Rightarrow> (ips, None))"

text \<open>One call of \<^verbatim>\<open>DialStream\<close>: the goroutines of the lookups, the results the loop has taken from their channel, and the loop.\<close>

record 'c dns_dial =
  dn_par :: par
  dn_taken :: nat
  dn_he :: "'c he"

definition dns_dial_init :: "nat \<Rightarrow> 'c dns_dial" where
  "dns_dial_init t = \<lparr>dn_par = par_init 2, dn_taken = 0, dn_he = he_init t\<rparr>"

text \<open>A goroutine sends its result, or ends; the loop takes a result, or sees the channel closed; or one of its other cases.\<close>

datatype 'c dns_event = DnSend nat | DnFinish nat | DnTake | DnClosed | DnRace "'c he_event"

fun race_event :: "'c he_event \<Rightarrow> bool" where
  "race_event (EvLookup _ _) = False"
| "race_event EvLookupDone = False"
| "race_event _ = True"

fun dns_step :: "(nat \<Rightarrow> bytes list \<times> err option) \<Rightarrow> 'c dns_dial \<Rightarrow> 'c dns_event \<Rightarrow> 'c dns_dial option" where
  "dns_step res s (DnSend i) = map_option (\<lambda>p. s\<lparr>dn_par := p\<rparr>) (par_step (dn_par s) (ParSend i (res i)))"
| "dns_step res s (DnFinish i) = map_option (\<lambda>p. s\<lparr>dn_par := p\<rparr>) (par_step (dn_par s) (ParFinish i))"
| "dns_step res s DnTake =
     (if dn_taken s < length (pr_ch (dn_par s))
      then (case pr_ch (dn_par s) ! dn_taken s of
              (ips, e) \<Rightarrow> map_option (\<lambda>h. s\<lparr>dn_taken := dn_taken s + 1, dn_he := h\<rparr>) (he_step (dn_he s) (EvLookup ips e)))
      else None)"
| "dns_step res s DnClosed =
     (if pr_closed (dn_par s) = 1 \<and> dn_taken s = length (pr_ch (dn_par s))
      then map_option (\<lambda>h. s\<lparr>dn_he := h\<rparr>) (he_step (dn_he s) EvLookupDone)
      else None)"
| "dns_step res s (DnRace e) =
     (if race_event e then map_option (\<lambda>h. s\<lparr>dn_he := h\<rparr>) (he_step (dn_he s) e) else None)"

fun dns_run :: "(nat \<Rightarrow> bytes list \<times> err option) \<Rightarrow> 'c dns_dial \<Rightarrow> 'c dns_event list \<Rightarrow> 'c dns_dial option" where
  "dns_run res s [] = Some s"
| "dns_run res s (e # es) = (case dns_step res s e of None \<Rightarrow> None | Some s' \<Rightarrow> dns_run res s' es)"

section \<open>Invariants\<close>

text \<open>What the loop keeps of the lookups over its other cases.\<close>

lemma he_head_resolved [simp]: "he_resolved (he_head h) = he_resolved h" "he_res_open (he_head h) = he_res_open h"
  using he_gate_eq [of h] by (auto simp: he_head_def)

lemma race_event_keeps:
  assumes "race_event e" "he_step h e = Some h'"
  shows "he_resolved h' = he_resolved h \<and> he_res_open h' = he_res_open h"
proof (cases e)
  case EvReady
  then obtain ch where "he_ready h = Some ch" "h' = he_head (he_dial h)" using assms(2) by (auto split: option.splits if_splits)
  then show ?thesis by (simp add: he_dial_def he_pick_def split: prod.split)
next
  case (EvDialed i r)
  then obtain ip where "h' = he_dial_result i ip r h" using assms(2) by (auto split: option.splits if_splits)
  then show ?thesis by (cases r) (simp_all add: he_dial_result_def Let_def)
next
  case (EvDropped i r)
  then obtain ip where "h' = he_drop i ip r h" using assms(2) by (auto split: option.splits if_splits)
  then show ?thesis by (cases r) (simp_all add: he_drop_def Let_def)
qed (use assms in \<open>auto split: if_splits\<close>)

text \<open>What is on the channel: the results of the lookups that have sent.\<close>

definition sent_results :: "(nat \<Rightarrow> 'x) \<Rightarrow> par_phase list \<Rightarrow> 'x list" where
  "sent_results res ps = map res (filter (\<lambda>i. ps ! i \<noteq> PRunning) [0..<length ps])"

definition dns_inv :: "(nat \<Rightarrow> bytes list \<times> err option) \<Rightarrow> 'c dns_dial \<Rightarrow> bool" where
  "dns_inv res s \<longleftrightarrow>
     he_inv (dn_he s) \<and> par_inv 2 (dn_par s)
     \<and> mset (pr_ch (dn_par s)) = mset (sent_results res (pr_phases (dn_par s)))
     \<and> dn_taken s \<le> length (pr_ch (dn_par s))
     \<and> he_resolved (dn_he s) = concat (map fst (take (dn_taken s) (pr_ch (dn_par s))))
     \<and> (\<not> he_res_open (dn_he s) \<longrightarrow> pr_closed (dn_par s) = 1 \<and> dn_taken s = length (pr_ch (dn_par s)))"

lemma sent_results_send:
  assumes "i < length ps" "ps ! i = PRunning"
  shows "mset (sent_results res (ps[i := PSent])) = add_mset (res i) (mset (sent_results res ps))"
proof -
  have f: "mset (filter (\<lambda>j. ps[i := PSent] ! j \<noteq> PRunning) [0..<n])
      = (if i < n then {#i#} else {#}) + mset (filter (\<lambda>j. ps ! j \<noteq> PRunning) [0..<n])" if "n \<le> length ps" for n
    using that
  proof (induction n)
    case (Suc n)
    then show ?case using assms by (auto simp: nth_list_update less_Suc_eq)
  qed simp
  have "mset (sent_results res ps') = image_mset res (mset (filter (\<lambda>j. ps' ! j \<noteq> PRunning) [0..<length ps']))" for ps'
    by (simp only: sent_results_def mset_map)
  then show ?thesis using f [of "length ps"] assms(1) by simp
qed

lemma sent_results_finish:
  assumes "i < length ps" "ps ! i = PSent"
  shows "sent_results res (ps[i := PDone]) = sent_results res ps"
proof -
  have "(ps[i := PDone] ! j \<noteq> PRunning) = (ps ! j \<noteq> PRunning)" for j
    using assms by (cases "i = j") auto
  then show ?thesis by (simp add: sent_results_def)
qed

lemma dns_inv_step:
  assumes "dns_inv res s" "dns_step res s e = Some s'" and res: "\<And>i. snd (res i) \<noteq> None \<Longrightarrow> fst (res i) = []"
  shows "dns_inv res s'"
proof (cases e)
  case (DnSend i)
  then obtain p where p: "par_step (dn_par s) (ParSend i (res i)) = Some p" "s' = s\<lparr>dn_par := p\<rparr>" using assms(2) by auto
  then have i: "i < length (pr_phases (dn_par s))" "pr_phases (dn_par s) ! i = PRunning"
    and q: "p = (dn_par s)\<lparr>pr_phases := (pr_phases (dn_par s))[i := PSent], pr_ch := pr_ch (dn_par s) @ [res i]\<rparr>"
    by (auto split: if_splits)
  have "pr_closed (dn_par s) = 0" using par_open [of 2 "dn_par s" i] assms(1) i by (simp add: dns_inv_def par_inv_def)
  then show ?thesis
    using assms(1) p par_inv_step [OF _ p(1), of 2] sent_results_send [OF i, of res] by (simp add: dns_inv_def q)
next
  case (DnFinish i)
  then obtain p where p: "par_step (dn_par s) (ParFinish i) = Some p" "s' = s\<lparr>dn_par := p\<rparr>" using assms(2) by auto
  then have i: "i < length (pr_phases (dn_par s))" "pr_phases (dn_par s) ! i = PSent"
    and q: "pr_phases p = (pr_phases (dn_par s))[i := PDone]" "pr_ch p = pr_ch (dn_par s)"
    by (auto simp: Let_def split: if_splits)
  have "pr_closed (dn_par s) = 0" using par_open [of 2 "dn_par s" i] assms(1) i by (simp add: dns_inv_def par_inv_def)
  then show ?thesis
    using assms(1) p(2) par_inv_step [OF _ p(1), of 2] sent_results_finish [OF i, of res] by (simp add: dns_inv_def q)
next
  case DnTake
  obtain ips x where c: "pr_ch (dn_par s) ! dn_taken s = (ips, x)" by fastforce
  then obtain h where h: "dn_taken s < length (pr_ch (dn_par s))" "he_step (dn_he s) (EvLookup ips x) = Some h"
    "s' = s\<lparr>dn_taken := dn_taken s + 1, dn_he := h\<rparr>" using DnTake assms(2) by (auto split: if_splits)
  have "(ips, x) \<in> set (sent_results res (pr_phases (dn_par s)))"
    using nth_mem [OF h(1)] c assms(1) unfolding dns_inv_def by (metis set_mset_mset)
  then obtain i where "(ips, x) = res i" by (auto simp: sent_results_def)
  then have x: "x \<noteq> None \<Longrightarrow> ips = []" using res [of i] by (metis fst_conv snd_conv)
  have e: "h = he_head (he_lookup ips x (dn_he s))" "he_res_open (dn_he s)" using h(2) by (auto split: if_splits)
  have r: "he_res_open (he_lookup ips x (dn_he s))" "he_resolved (he_lookup ips x (dn_he s)) = he_resolved (dn_he s) @ ips"
    using x e(2) by (auto simp: he_lookup_def split: option.splits)
  have "take (Suc (dn_taken s)) (pr_ch (dn_par s)) = take (dn_taken s) (pr_ch (dn_par s)) @ [(ips, x)]"
    using h(1) c by (simp add: take_Suc_conv_app_nth)
  then show ?thesis using assms(1) h(1,3) he_inv_step [OF _ h(2)] r by (simp add: dns_inv_def e(1))
next
  case DnClosed
  then obtain h where h: "pr_closed (dn_par s) = 1" "dn_taken s = length (pr_ch (dn_par s))" "he_step (dn_he s) EvLookupDone = Some h"
    "s' = s\<lparr>dn_he := h\<rparr>" using assms(2) by (auto split: if_splits)
  then have "he_resolved h = he_resolved (dn_he s)" by (auto simp: he_lookup_done_def split: if_splits)
  then show ?thesis using assms(1) h he_inv_step [OF _ h(3)] by (simp add: dns_inv_def)
next
  case (DnRace x)
  then obtain h where h: "race_event x" "he_step (dn_he s) x = Some h" "s' = s\<lparr>dn_he := h\<rparr>" using assms(2) by (auto split: if_splits)
  then show ?thesis using assms(1) race_event_keeps [OF h(1,2)] he_inv_step [OF _ h(2)] by (simp add: dns_inv_def)
qed

lemma dns_inv_run:
  assumes "\<And>i. snd (res i) \<noteq> None \<Longrightarrow> fst (res i) = []"
  shows "dns_inv res s \<Longrightarrow> dns_run res s es = Some s' \<Longrightarrow> dns_inv res s'"
proof (induction es arbitrary: s)
  case (Cons e es)
  then obtain s1 where "dns_step res s e = Some s1" "dns_run res s1 es = Some s'" by (auto split: option.splits)
  then show ?case using Cons.IH [of s1] dns_inv_step [OF Cons.prems(1) _ assms] by blast
qed simp

lemma dns_inv_init: "dns_inv res (dns_dial_init t)"
proof -
  have "sent_results res (replicate 2 PRunning) = []" by (auto simp: sent_results_def filter_empty_conv)
  moreover have "he_resolved (he_init t) = [] \<and> he_res_open (he_init t)" by (simp add: he_init_def)
  ultimately show ?thesis
    using he_inv_init [of t] by (simp add: dns_inv_def dns_dial_init_def par_init_def par_inv_def)
qed

lemma lookup_result_error: "snd (lookup_result L query hostname i) \<noteq> None \<Longrightarrow> fst (lookup_result L query hostname i) = []"
  by (simp add: lookup_result_def split: sum.splits)

text \<open>An address that a lookup gives stands in a record of its type, in an answer without an error code to the question for that type.\<close>

definition answered :: "'b dns_lib \<Rightarrow> (question \<Rightarrow> err + dns_msg) \<Rightarrow> string \<Rightarrow> bytes \<Rightarrow> bool" where
  "answered L query hostname ip \<longleftrightarrow>
     (\<exists>t \<in> {28, 1}. \<exists>q r a. NewQuestion L hostname t = Inr q \<and> query q = Inr r \<and> h_rcode (m_hdr r) = 0
        \<and> a \<in> set (m_answers r) \<and> rr_type a = t \<and> rr_body a \<in> {ABody ip, AAAABody ip})"

lemma lookup_result_answered:
  assumes "ip \<in> set (fst (lookup_result L query hostname i))"
  shows "answered L query hostname ip"
proof -
  let ?t = "lookup_type i"
  obtain ips where ips: "resolveIP L query ?t hostname = Inr ips" "ip \<in> set ips"
    using assms by (auto simp: lookup_result_def split: sum.splits)
  then obtain q r where q: "NewQuestion L hostname ?t = Inr q" "query q = Inr r" "h_rcode (m_hdr r) = 0" "ip \<in> set (resolve_answers ?t (m_answers r))"
    by (auto simp: resolveIP_def split: sum.splits if_splits)
  then obtain a where a: "a \<in> set (m_answers r)" "rr_type a = ?t"
    "ip \<in> set (case rr_body a of ABody ip \<Rightarrow> [ip] | AAAABody ip \<Rightarrow> [ip] | _ \<Rightarrow> [])"
    by (auto simp: resolve_answers_def split: if_splits)
  moreover from a(3) have "rr_body a \<in> {ABody ip, AAAABody ip}" by (cases "rr_body a") auto
  moreover have "?t \<in> {28, 1}" by (simp add: lookup_type_def)
  ultimately show ?thesis unfolding answered_def using q(1-3) by blast
qed

lemma sent_all:
  assumes "par_inv 2 p" "pr_closed p = 1"
  shows "sent_results res (pr_phases p) = [res 0, res 1]"
proof -
  have "pr_phases p ! i \<noteq> PRunning" if "i < 2" for i
    using par_open [OF assms(1) that] assms(2) by auto
  then have "filter (\<lambda>i. pr_phases p ! i \<noteq> PRunning) [0..<2] = [0..<2]" by (auto simp: filter_id_conv)
  moreover have "length (pr_phases p) = 2" using assms(1) by (simp add: par_inv_def)
  ultimately show ?thesis by (simp add: sent_results_def upt_rec)
qed

section \<open>What the dialer does\<close>

text \<open>
  C36: whatever the order of the lookups, the attempts and their ends, the dialer over a resolver tries only addresses that stand in
  answers of the resolver without an error code, in records of the type that was asked for, and each as often as it was given at
  most. It fails, without being cancelled, only when both lookups are done and every address of both was tried and has failed; then the
  error is that of the lookups if there was no address, or that no address was found.
\<close>

theorem dns_dialer_exhausts:
  assumes run: "dns_run (lookup_result L query hostname) (dns_dial_init t) es = Some s"
  defines "A \<equiv> fst (lookup_result L query hostname 0) @ fst (lookup_result L query hostname 1)"
  shows "(\<forall>ip \<in> set (he_dialed (dn_he s)). answered L query hostname ip)
    \<and> mset (he_dialed (dn_he s)) \<subseteq># mset A
    \<and> (\<forall>e. he_result (dn_he s) = Some (Inl e) \<and> \<not> he_cancelled (dn_he s) \<longrightarrow>
         mset (he_failed (dn_he s)) = mset A \<and> he_inflight (dn_he s) = []
         \<and> (A = [] \<longrightarrow> e = (case he_lookup_err (dn_he s) of Some x \<Rightarrow> x | None \<Rightarrow> ErrNew ''address lookup returned no IPs'')))"
proof -
  let ?res = "lookup_result L query hostname" and ?h = "dn_he s" and ?p = "dn_par s"
  have inv: "dns_inv ?res s" by (rule dns_inv_run [OF lookup_result_error dns_inv_init run])
  then have i: "he_core ?h" "he_end ?h" "par_inv 2 ?p" by (simp_all add: dns_inv_def he_inv_def he_books_def)
  have flat: "mset (concat (map fst xs)) = (\<Sum>x\<in>#mset xs. mset (fst x))" for xs :: "(bytes list \<times> err option) list"
    by (induction xs) simp_all
  have dialed: "mset (he_dialed ?h) \<subseteq># mset (he_resolved ?h)"
    using i(1) by (simp add: he_core_def)
  have taken: "mset (he_resolved ?h) \<subseteq># mset (concat (map fst (pr_ch ?p)))"
  proof -
    have "he_resolved ?h = concat (map fst (take (dn_taken s) (pr_ch ?p)))" using inv by (simp add: dns_inv_def)
    moreover have "concat (map fst (pr_ch ?p)) = concat (map fst (take (dn_taken s) (pr_ch ?p))) @ concat (map fst (drop (dn_taken s) (pr_ch ?p)))"
      by (metis append_take_drop_id concat_append map_append)
    ultimately show ?thesis by simp
  qed
  have ch: "mset (concat (map fst (pr_ch ?p))) = mset (concat (map fst (sent_results ?res (pr_phases ?p))))"
    using inv by (simp only: flat dns_inv_def)
  have len: "length (pr_phases ?p) = 2" using i(3) by (simp add: par_inv_def)
  have sub: "mset (concat (map fst (sent_results ?res (pr_phases ?p)))) \<subseteq># mset A"
    unfolding sent_results_def len A_def by (auto simp: upt_rec)
  show ?thesis
  proof (intro conjI allI impI ballI)
    show s: "mset (he_dialed ?h) \<subseteq># mset A" using dialed taken ch sub by (metis subset_mset.trans)
    show "answered L query hostname ip" if "ip \<in> set (he_dialed ?h)" for ip
    proof -
      have "ip \<in> set A" using s that by (metis mset_subset_eqD set_mset_mset)
      then show ?thesis unfolding A_def using lookup_result_answered by fastforce
    qed
    fix e assume "he_result ?h = Some (Inl e) \<and> \<not> he_cancelled ?h"
    then have f: "\<not> he_res_open ?h" "he_inflight ?h = []" "mset (he_failed ?h) = mset (he_resolved ?h)" "e = he_error ?h"
      "he_dial_err ?h = None \<longleftrightarrow> he_failed ?h = []" using i(2) by (simp_all add: he_end_def)
    then have "pr_closed ?p = 1" "he_resolved ?h = concat (map fst (pr_ch ?p))" using inv by (simp_all add: dns_inv_def)
    then have "mset (he_resolved ?h) = mset A" using ch sent_all [OF i(3), of ?res] by (simp add: A_def)
    then show a: "mset (he_failed ?h) = mset A" and "he_inflight ?h = []" using f(2,3) by simp_all
    show "e = (case he_lookup_err ?h of Some x \<Rightarrow> x | None \<Rightarrow> ErrNew ''address lookup returned no IPs'')" if "A = []"
    proof -
      have "he_failed ?h = []" using a that by simp
      then show ?thesis using f(4,5) by (simp add: he_error_def)
    qed
  qed
qed

section \<open>Witness\<close>

text \<open>Both lookups fail; the results come in the other order.\<close>

theorem dns_dialer_exhausts_witness:
  "\<exists>s :: nat dns_dial.
     dns_run (lookup_result demo_lib (\<lambda>_. Inl EOF) ''a.'') (dns_dial_init 0)
       [DnSend 1, DnSend 0, DnTake, DnFinish 1, DnFinish 0, DnTake, DnClosed] = Some s
     \<and> he_result (dn_he s) = Some (Inl (ErrJoin [ErrJoin [EOF], EOF])) \<and> mset (he_failed (dn_he s)) = {#}"
proof -
  let ?res = "lookup_result demo_lib (\<lambda>_. Inl EOF) ''a.''"
  have r: "?res i = ([], Some EOF)" for i
    by (simp add: lookup_result_def resolveIP_def NewQuestion_def demo_lib_def)
  obtain s :: "nat dns_dial" where
    s: "dns_run ?res (dns_dial_init 0) [DnSend 1, DnSend 0, DnTake, DnFinish 1, DnFinish 0, DnTake, DnClosed] = Some s"
      "he_result (dn_he s) = Some (Inl (ErrJoin [ErrJoin [EOF], EOF]))" "\<not> he_cancelled (dn_he s)"
    by (simp add: r dns_dial_init_def par_init_def he_run_simps he_error_def join_err_def numeral_2_eq_2)
  then show ?thesis using dns_dialer_exhausts [OF s(1)] r by fastforce
qed

end
