(* ===== verification/SystemResolver.thy ===== *)
theory SystemResolver
  imports Dns DnsttTransport GoStrings
begin

text \<open>
  The resolvers of the operating system in \<^verbatim>\<open>x/smart\<close>: the TXT lookups of \<^verbatim>\<open>system_resolver.go\<close>, the lookup on Android
  (\<^verbatim>\<open>system_resolver_android.go\<close>) and that of canonical names (\<^verbatim>\<open>cname_unix.go\<close>). The lemmas follow the packets of a
  tunnel through the TXT answers, and say what a lookup that was given up leaves behind.
\<close>

section \<open>TXT records\<close>

definition maxTXTCharStringLen :: nat where "maxTXTCharStringLen = 255"

text \<open>The inner loop of \<^verbatim>\<open>chunkTXT\<close>, for one text.\<close>

function chunk_text :: "bytes \<Rightarrow> bytes list" where
  "chunk_text t =
     (if maxTXTCharStringLen < length t then take maxTXTCharStringLen t # chunk_text (drop maxTXTCharStringLen t) else [t])"
  by pat_completeness auto
termination by (relation "measure length") (auto simp: maxTXTCharStringLen_def)

declare chunk_text.simps [simp del]

definition chunkTXT :: "bytes list \<Rightarrow> bytes list" where
  "chunkTXT txts = (let out = concat (map chunk_text txts) in if length out = 0 then [[]] else out)"

text \<open>A message of package \<^verbatim>\<open>dnsmessage\<close> with TXT records.\<close>

record txt_record =
  xr_name :: bytes
  xr_type :: nat
  xr_class :: nat
  xr_txt :: "bytes list"

record txt_message =
  xm_response :: bool
  xm_recursion :: bool
  xm_rcode :: nat
  xm_questions :: "question list"
  xm_answers :: "txt_record list"

definition TypeTXT :: nat where "TypeTXT = 16"

text \<open>\<^verbatim>\<open>Query\<close>; \<open>lookup_txt\<close> is \<^verbatim>\<open>LookupTXT\<close>, on the name as text.\<close>

definition system_query :: "(bytes \<Rightarrow> err + bytes list) \<Rightarrow> question \<Rightarrow> err + txt_message" where
  "system_query lookup_txt q =
     (if qtype q \<noteq> TypeTXT then Inl (ErrNew ''system resolver only supports TXT queries'')
      else case lookup_txt (qname q) of
        Inl e \<Rightarrow> Inl e
      | Inr txts \<Rightarrow>
          Inr \<lparr>xm_response = True, xm_recursion = True, xm_rcode = 0, xm_questions = [q],
               xm_answers = [\<lparr>xr_name = qname q, xr_type = TypeTXT, xr_class = classINET, xr_txt = chunkTXT txts\<rparr>]\<rparr>)"

lemma chunk_text: "concat (chunk_text t) = t \<and> chunk_text t \<noteq> [] \<and> (\<forall>c \<in> set (chunk_text t). length c \<le> maxTXTCharStringLen)"
proof (induction t rule: chunk_text.induct)
  case (1 t)
  then show ?case unfolding chunk_text.simps [of t] by (cases "maxTXTCharStringLen < length t") simp_all
qed

text \<open>The strings of the answer fit their length byte, there is one at least, and together they are the texts that were looked up.\<close>

lemma chunkTXT: "concat (chunkTXT txts) = concat txts \<and> chunkTXT txts \<noteq> [] \<and> (\<forall>c \<in> set (chunkTXT txts). length c \<le> maxTXTCharStringLen)"
proof -
  have "concat (concat (map chunk_text txts)) = concat txts"
    by (induction txts) (simp_all add: chunk_text)
  moreover have "\<forall>c \<in> set (concat (map chunk_text txts)). length c \<le> maxTXTCharStringLen"
    using chunk_text by auto
  moreover have "concat txts = []" if "concat (map chunk_text txts) = []"
    using that calculation(1) by (metis concat.simps(1))
  ultimately show ?thesis unfolding chunkTXT_def Let_def length_0_conv by (simp del: concat_eq_Nil_conv)
qed

text \<open>
  The data of a TXT record: each string after a byte with its length. \<open>txt_strings\<close> reads it back, with \<open>None\<close> for data that
  ends inside a string.
\<close>

definition txt_data :: "bytes list \<Rightarrow> bytes" where
  "txt_data cs = concat (map (\<lambda>c. word_of_nat (length c) # c) cs)"

function txt_strings :: "bytes \<Rightarrow> bytes option" where
  "txt_strings [] = Some []"
| "txt_strings (n # r) =
     (if length r < unat n then None else map_option (\<lambda>s. take (unat n) r @ s) (txt_strings (drop (unat n) r)))"
  by pat_completeness auto
termination by (relation "measure length") auto

lemma txt_strings_data: "\<forall>c \<in> set cs. length c \<le> maxTXTCharStringLen \<Longrightarrow> txt_strings (txt_data cs) = Some (concat cs)"
  by (induction cs) (auto simp: txt_data_def maxTXTCharStringLen_def unat_byte)

section \<open>A tunnel over the system's resolver\<close>

text \<open>The answer as the tunnel's own package reads it from the wire; \<open>labels\<close> are the labels of a name.\<close>

definition tunnel_answer :: "(bytes \<Rightarrow> bytes list) \<Rightarrow> txt_message \<Rightarrow> tunnel_message" where
  "tunnel_answer labels m =
     \<lparr>tm_id = 0, tm_flags = (if xm_response m then 0x8000 else 0) OR (if xm_recursion m then 0x0080 else 0) OR word_of_nat (xm_rcode m),
      tm_question = map (\<lambda>q. (labels (qname q), qtype q, qclass q)) (xm_questions m),
      tm_answer = map (\<lambda>r. \<lparr>tr_name = labels (xr_name r), tr_type = xr_type r, tr_class = xr_class r, tr_data = txt_data (xr_txt r)\<rparr>)
                    (xm_answers m),
      tm_additional = []\<rparr>"

text \<open>What the wire formats of the two packages promise: one reads what the other wrote, and the strings of a TXT record.\<close>

definition wire_agrees :: "tunnel_codec \<Rightarrow> (txt_message \<Rightarrow> err + bytes) \<Rightarrow> (bytes \<Rightarrow> bytes list) \<Rightarrow> bool" where
  "wire_agrees C pack labels \<longleftrightarrow>
     (\<forall>m w. pack m = Inr w \<longrightarrow> FromWireFormat C w = Inr (tunnel_answer labels m))
     \<and> (\<forall>d s. txt_strings d = Some s \<longrightarrow> DecodeTXT C d = Inr s)"

lemma tunnel_over_system_answer:
  assumes c: "wire_agrees C pack labels" and q: "qtype q = TypeTXT" "TrimSuffix C (labels (qname q)) domain \<noteq> None"
    and l: "lookup_txt (qname q) = Inr txts" "system_query lookup_txt q = Inr m" "pack m = Inr w"
      "length w \<le> recvBufSize"
  shows "tunnel_receive C domain w = payload_packets (bytes_reader (concat txts))"
proof -
  have m: "xm_response m" "xm_recursion m" "xm_rcode m = 0"
    "xm_answers m = [\<lparr>xr_name = qname q, xr_type = TypeTXT, xr_class = classINET, xr_txt = chunkTXT txts\<rparr>]"
    using q(1) l(1,2) by (auto simp: system_query_def)
  have w: "FromWireFormat C w = Inr (tunnel_answer labels m)" using c l(3) by (simp add: wire_agrees_def)
  have "txt_strings (txt_data (chunkTXT txts)) = Some (concat txts)"
    using txt_strings_data [of "chunkTXT txts"] chunkTXT [of txts] by simp
  then have d: "DecodeTXT C (txt_data (chunkTXT txts)) = Inr (concat txts)" using c by (simp add: wire_agrees_def)
  obtain n where "TrimSuffix C (labels (qname q)) domain = Some n" using q(2) by blast
  then have "dnsResponsePayload C (tunnel_answer labels m) domain = concat txts"
    using d by (simp add: dnsResponsePayload_def tunnel_answer_def m RRTypeTXT_def TypeTXT_def)
  then show ?thesis using l(4) by (simp add: tunnel_receive_def w)
qed


text \<open>Two TXT records, the first of which ends inside the second packet.\<close>

definition demo_system_question :: question where
  "demo_system_question = \<lparr>qname = [97, 46], qtype = 16, qclass = 1\<rparr>"

definition demo_txts :: "bytes list" where
  "demo_txts = [[0, 1, 7, 0, 2], [8, 9]]"

definition demo_txt_message :: txt_message where
  "demo_txt_message = \<lparr>xm_response = True, xm_recursion = True, xm_rcode = 0, xm_questions = [demo_system_question],
     xm_answers = [\<lparr>xr_name = [97, 46], xr_type = 16, xr_class = 1, xr_txt = demo_txts\<rparr>]\<rparr>"

definition demo_pack :: "txt_message \<Rightarrow> err + bytes" where
  "demo_pack m = (if m = demo_txt_message then Inr [1] else Inl EOF)"

definition demo_labels :: "bytes \<Rightarrow> bytes list" where
  "demo_labels n = [butlast n]"

definition demo_system_codec :: tunnel_codec where
  "demo_system_codec =
     \<lparr>NewName = (\<lambda>_. None), WireFormat = (\<lambda>_. Inr []),
      FromWireFormat = (\<lambda>w. if w = [1] then Inr (tunnel_answer demo_labels demo_txt_message) else Inr (tunnel_query 5 [[97]])),
      TrimSuffix = (\<lambda>n d. if n = d then Some [] else None),
      DecodeTXT = (\<lambda>d. case txt_strings d of None \<Rightarrow> Inl EOF | Some s \<Rightarrow> Inr s)\<rparr>"

lemma demo_wire_agrees: "wire_agrees demo_system_codec demo_pack demo_labels"
  by (auto simp: wire_agrees_def demo_system_codec_def demo_pack_def)

section \<open>The resolver of Android\<close>

definition androidResNoCacheFlags :: nat where "androidResNoCacheFlags = push_bit 1 1 OR push_bit 2 1"

definition maxDNSMessageSize :: nat where "maxDNSMessageSize = 65535"

definition packAndroidQuery :: "'b dns_lib \<Rightarrow> question \<Rightarrow> err + bytes" where
  "packAndroidQuery L q =
     (case StartQuestions L (NewBuilder L [] 0 True) of
        Inl e \<Rightarrow> Inl e
      | Inr b1 \<Rightarrow>
     (case AddQuestion L q b1 of
        Inl e \<Rightarrow> Inl e
      | Inr b2 \<Rightarrow>
     (case StartAdditionals L b2 of
        Inl e \<Rightarrow> Inl e
      | Inr b3 \<Rightarrow>
     (case SetEDNS0 L 4096 of
        Some e \<Rightarrow> Inl e
      | None \<Rightarrow>
     (case OPTResource L 4096 b3 of
        Inl e \<Rightarrow> Inl e
      | Inr b4 \<Rightarrow> Finish L b4)))))"

text \<open>
  The result of \<^verbatim>\<open>Query\<close> in a context that is not done. \<open>nsend\<close> gives a file descriptor or a negated error number, and \<open>nresult\<close>, with
  the room for the answer, its length or a negated error number, with the answer.
\<close>

definition android_result :: "'b dns_lib \<Rightarrow> int \<times> bytes \<Rightarrow> err + dns_msg" where
  "android_result L r =
     (case r of (n, answer) \<Rightarrow>
        (if n < 0 then Inl (ErrNew (''android resolver: android_res_nresult failed (errno '' @ int_text (- n) @ '')''))
         else case UnpackMsg L (take (nat n) answer) of
           Inl e \<Rightarrow> Inl (ErrWrap ''android resolver: unpack response'' e)
         | Inr msg \<Rightarrow> Inr msg))"

definition android_query ::
  "'b dns_lib \<Rightarrow> (bytes \<Rightarrow> nat \<Rightarrow> int) \<Rightarrow> (int \<Rightarrow> nat \<Rightarrow> int \<times> bytes) \<Rightarrow> question \<Rightarrow> err + dns_msg" where
  "android_query L nsend nresult q =
     (case packAndroidQuery L q of
        Inl e \<Rightarrow> Inl (ErrWrap ''android resolver: build query'' e)
      | Inr query \<Rightarrow>
          (let fd = nsend query androidResNoCacheFlags in
           if fd < 0 then Inl (ErrNew (''android resolver: android_res_nsend failed (errno '' @ int_text (- fd) @ '')''))
           else android_result L (nresult fd maxDNSMessageSize)))"

text \<open>Which of the two a process uses: the flag is asked once, and the stub resolver is the other.\<close>

definition newSystemResolver :: "bool \<Rightarrow> (question \<Rightarrow> err + dns_msg) \<Rightarrow> (question \<Rightarrow> err + dns_msg) \<Rightarrow> question \<Rightarrow> err + dns_msg" where
  "newSystemResolver androidResReady android stub = (if androidResReady then android else stub)"

text \<open>A message as long as one can be fits: what the library wrote is unpacked whole.\<close>

lemma android_answer_whole:
  assumes "packAndroidQuery L q = Inr query" "0 \<le> nsend query 6" "length w \<le> maxDNSMessageSize"
    and "nresult (nsend query 6) maxDNSMessageSize = (int (length w), w @ replicate (maxDNSMessageSize - length w) 0)"
    and "UnpackMsg L w = Inr msg"
  shows "android_query L nsend nresult q = Inr msg"
  using assms by (simp add: android_query_def android_result_def androidResNoCacheFlags_def Let_def)

lemma android_query_errors:
  "android_query L nsend nresult q = Inl e \<Longrightarrow>
   (\<exists>x. e = ErrWrap ''android resolver: build query'' x \<and> packAndroidQuery L q = Inl x)
   \<or> (\<exists>query. packAndroidQuery L q = Inr query \<and> (nsend query 6 < 0
        \<or> (\<exists>n w. nresult (nsend query 6) maxDNSMessageSize = (n, w) \<and> (n < 0 \<or> (\<exists>x. UnpackMsg L (take (nat n) w) = Inl x)))))"
  by (auto simp: android_query_def android_result_def androidResNoCacheFlags_def Let_def split: sum.splits prod.splits if_splits)

section \<open>A lookup that is given up\<close>

text \<open>
  Both lookups run a call that blocks in a goroutine of its own. The goroutine: in the call; sending its result; ended. The
  caller: in its \<^verbatim>\<open>select\<close>; waiting for the result of a call that it cancelled; returned, with a result or with the error of its
  context. \<open>lk_buffer\<close> is the buffer of the channel and \<open>lk_fd_closes\<close> counts how often the file descriptor of the query was closed.
\<close>

datatype 'a lookup_worker = LwBlocked | LwSending 'a | LwEnded

datatype 'a lookup_caller = LcWaiting | LcReaping | LcReturned "'a option"

record 'a lookup =
  lk_worker :: "'a lookup_worker"
  lk_caller :: "'a lookup_caller"
  lk_buffer :: "'a list"
  lk_fd_closes :: nat

definition new_lookup :: "'a lookup" where
  "new_lookup = \<lparr>lk_worker = LwBlocked, lk_caller = LcWaiting, lk_buffer = [], lk_fd_closes = 0\<rparr>"

text \<open>The call returns; the context is done; the caller takes the result. The result \<open>None\<close> is a step that cannot happen.\<close>

datatype 'a lookup_event = LkResult 'a | LkCtxDone | LkTake

text \<open>On Android the channel has room for the result, and a caller that gives up waits for it.\<close>

fun android_step :: "'a lookup \<Rightarrow> 'a lookup_event \<Rightarrow> 'a lookup option" where
  "android_step s (LkResult r) =
     (case lk_worker s of
        LwBlocked \<Rightarrow> Some (s\<lparr>lk_worker := LwEnded, lk_buffer := lk_buffer s @ [r], lk_fd_closes := lk_fd_closes s + 1\<rparr>)
      | _ \<Rightarrow> None)"
| "android_step s LkCtxDone = (case lk_caller s of LcWaiting \<Rightarrow> Some (s\<lparr>lk_caller := LcReaping\<rparr>) | _ \<Rightarrow> None)"
| "android_step s LkTake =
     (case lk_buffer s of
        [] \<Rightarrow> None
      | r # rs \<Rightarrow>
          (case lk_caller s of
             LcWaiting \<Rightarrow> Some (s\<lparr>lk_caller := LcReturned (Some r), lk_buffer := rs\<rparr>)
           | LcReaping \<Rightarrow> Some (s\<lparr>lk_caller := LcReturned None, lk_buffer := rs\<rparr>)
           | LcReturned _ \<Rightarrow> None))"

text \<open>The lookup of a canonical name has a channel without a buffer: a result is sent when the caller is there to take it.\<close>

fun cname_step :: "'a lookup \<Rightarrow> 'a lookup_event \<Rightarrow> 'a lookup option" where
  "cname_step s (LkResult r) = (case lk_worker s of LwBlocked \<Rightarrow> Some (s\<lparr>lk_worker := LwSending r\<rparr>) | _ \<Rightarrow> None)"
| "cname_step s LkCtxDone = (case lk_caller s of LcWaiting \<Rightarrow> Some (s\<lparr>lk_caller := LcReturned None\<rparr>) | _ \<Rightarrow> None)"
| "cname_step s LkTake =
     (case (lk_caller s, lk_worker s) of
        (LcWaiting, LwSending r) \<Rightarrow> Some (s\<lparr>lk_caller := LcReturned (Some r), lk_worker := LwEnded\<rparr>)
      | _ \<Rightarrow> None)"

fun lookup_run :: "('s \<Rightarrow> 'e \<Rightarrow> 's option) \<Rightarrow> 's \<Rightarrow> 'e list \<Rightarrow> 's option" where
  "lookup_run step s [] = Some s"
| "lookup_run step s (e # es) = (case step s e of None \<Rightarrow> None | Some s' \<Rightarrow> lookup_run step s' es)"

lemma lookup_run_inv:
  assumes "\<And>s e s'. P s \<Longrightarrow> step s e = Some s' \<Longrightarrow> P s'"
  shows "P s \<Longrightarrow> lookup_run step s es = Some s' \<Longrightarrow> P s'"
  by (induction es arbitrary: s) (auto split: option.splits intro: assms)

definition android_inv :: "'a lookup \<Rightarrow> bool" where
  "android_inv s \<longleftrightarrow>
     (case lk_worker s of
        LwBlocked \<Rightarrow> lk_fd_closes s = 0 \<and> lk_buffer s = [] \<and> (\<forall>x. lk_caller s \<noteq> LcReturned x)
      | LwSending _ \<Rightarrow> False
      | LwEnded \<Rightarrow> lk_fd_closes s = 1 \<and> (if \<exists>x. lk_caller s = LcReturned x then lk_buffer s = [] else length (lk_buffer s) = 1))"

lemma android_inv_step: "android_inv s \<Longrightarrow> android_step s e = Some s' \<Longrightarrow> android_inv s'"
  by (cases e) (auto simp: android_inv_def split: lookup_worker.splits lookup_caller.splits list.splits if_splits)

text \<open>
  On Android the goroutine has ended and the file descriptor is closed, once, when \<^verbatim>\<open>Query\<close> returns, also if it was cancelled;
  and as long as it has not returned, the end of the call lets it return.
\<close>

theorem android_query_reaps:
  assumes "lookup_run android_step new_lookup es = Some s"
  shows "(lk_caller s = LcReturned x \<longrightarrow> lk_worker s = LwEnded \<and> lk_fd_closes s = 1 \<and> lk_buffer s = [])
    \<and> (lk_caller s \<in> {LcWaiting, LcReaping} \<longrightarrow>
         (\<exists>es' s' y. length es' \<le> 2 \<and> lookup_run android_step s es' = Some s' \<and> lk_caller s' = LcReturned y))"
proof -
  have i: "android_inv s"
    using lookup_run_inv [of android_inv android_step, OF android_inv_step _ assms] by (simp add: android_inv_def new_lookup_def)
  show ?thesis
  proof (intro conjI impI)
    assume c: "lk_caller s \<in> {LcWaiting, LcReaping}"
    show "\<exists>es' s' y. length es' \<le> 2 \<and> lookup_run android_step s es' = Some s' \<and> lk_caller s' = LcReturned y"
    proof (cases "lk_worker s")
      case LwBlocked
      then have "lk_buffer s = []" using i by (simp add: android_inv_def)
      then show ?thesis using LwBlocked c by (intro exI [of _ "[LkResult r, LkTake]" for r]) auto
    next
      case LwEnded
      then obtain r where "lk_buffer s = [r]" using i c by (auto simp: android_inv_def length_Suc_conv split: if_splits)
      then show ?thesis using c by (intro exI [of _ "[LkTake]"]) auto
    qed (use i in \<open>simp add: android_inv_def\<close>)
  qed (use i in \<open>auto simp: android_inv_def split: lookup_worker.splits\<close>)
qed

lemma cname_step_gone:
  "lk_caller s = LcReturned None \<and> lk_worker s \<noteq> LwEnded \<Longrightarrow> cname_step s e = Some s'
   \<Longrightarrow> lk_caller s' = LcReturned None \<and> lk_worker s' \<noteq> LwEnded"
  by (cases e) (auto split: lookup_worker.splits)

text \<open>
  The lookup of a canonical name that is given up before it has its result leaves its goroutine behind for ever: it never ends, and
  once it has the result no step is possible any more. Without that, the caller gets the result and the goroutine ends.
\<close>

theorem cname_lookup_leaks:
  "lookup_run cname_step new_lookup [LkCtxDone] = Some (new_lookup\<lparr>lk_caller := LcReturned None\<rparr>)
   \<and> (lk_caller s = LcReturned None \<and> lk_worker s \<noteq> LwEnded \<and> lookup_run cname_step s es = Some s' \<longrightarrow> lk_worker s' \<noteq> LwEnded)
   \<and> (lk_caller s = LcReturned None \<and> lk_worker s = LwSending r \<longrightarrow> cname_step s e = None)
   \<and> lookup_run cname_step new_lookup [LkResult r, LkTake] = Some (new_lookup\<lparr>lk_worker := LwEnded, lk_caller := LcReturned (Some r)\<rparr>)"
proof -
  have "lk_worker s' \<noteq> LwEnded"
    if "lk_caller s = LcReturned None" "lk_worker s \<noteq> LwEnded" "lookup_run cname_step s es = Some s'"
  proof -
    have "lk_caller s' = LcReturned None \<and> lk_worker s' \<noteq> LwEnded"
      by (rule lookup_run_inv [of "\<lambda>t. lk_caller t = LcReturned None \<and> lk_worker t \<noteq> LwEnded" cname_step s es])
         (use cname_step_gone that in blast)+
    then show ?thesis by simp
  qed
  moreover have "cname_step s e = None" if "lk_caller s = LcReturned None" "lk_worker s = LwSending r"
    using that by (cases e) simp_all
  ultimately show ?thesis by (auto simp: new_lookup_def)
qed

section \<open>Witnesses\<close>

definition demo_question_lib :: "unit dns_lib" where
  "demo_question_lib = \<lparr>NewBuilder = (\<lambda>_ _ _. ()), StartQuestions = (\<lambda>_. Inl EOF), AddQuestion = (\<lambda>_ _. Inl EOF),
     StartAdditionals = (\<lambda>_. Inl EOF), SetEDNS0 = (\<lambda>_. None), OPTResource = (\<lambda>_ _. Inl EOF), Finish = (\<lambda>_. Inl EOF),
     UnpackMsg = (\<lambda>_. Inl EOF), NewName = (\<lambda>n. Inr (map (\<lambda>c. word_of_nat (of_char c)) n))\<rparr>"


theorem android_query_reaps_witness:
  "(lk_caller (new_lookup\<lparr>lk_worker := LwEnded, lk_caller := LcReturned (None :: nat option), lk_fd_closes := 1\<rparr>) = LcReturned None)
   \<and> lookup_run android_step new_lookup [LkCtxDone, LkResult (3 :: nat), LkTake]
     = Some (new_lookup\<lparr>lk_worker := LwEnded, lk_caller := LcReturned None, lk_fd_closes := 1\<rparr>)"
  using android_query_reaps [of "[LkCtxDone, LkResult (3 :: nat), LkTake]"
      "new_lookup\<lparr>lk_worker := LwEnded, lk_caller := LcReturned None, lk_fd_closes := 1\<rparr>" None]
  by (simp add: new_lookup_def)

end
