(* ===== verification/DnsttTunnel.thy ===== *)
theory DnsttTunnel
  imports ConfigUrl DnsttTransport DnsttDialer
begin

text \<open>
  The parts of \<^verbatim>\<open>x/dnstt/dnstt.go\<close> between a configuration and a session: the choice of the message transport, the steps of a
  session that depend on the configuration, and the streams; and the connection of the transport over TLS that is made again
  when it fails (\<^verbatim>\<open>dotpacketconn.go\<close>).
\<close>

section \<open>The transport\<close>

text \<open>
  Over HTTPS with a URL and a number of senders, over TLS to an address, over UDP, or through a resolver; \<open>'u\<close> is a UDP
  address. A transport other than UDP has a dummy as its remote address, here \<open>None\<close>.
\<close>

datatype 'u tunnel_transport =
    DoHConn string nat
  | DoTConn string
  | UDPConn
  | ResolverConn resolver nat

definition resolverNumSenders :: nat where "resolverNumSenders = 32"

text \<open>\<open>dial_tls\<close> is the first dial of \<^verbatim>\<open>newDoTPacketConn\<close>, \<open>resolve_udp\<close> is \<^verbatim>\<open>ResolveUDPAddr\<close>, \<open>listen_udp\<close> is \<^verbatim>\<open>ListenUDP\<close>.\<close>

definition openTransport ::
  "(string \<Rightarrow> err option) \<Rightarrow> (string \<Rightarrow> err + 'u) \<Rightarrow> err option \<Rightarrow> dnsttConfig \<Rightarrow> resolver option
   \<Rightarrow> err + 'u tunnel_transport \<times> 'u option" where
  "openTransport dial_tls resolve_udp listen_udp cfg res =
     (case dt_kind cfg of
        TransportDoH \<Rightarrow> Inr (DoHConn (dt_doh cfg) 32, None)
      | TransportDoT \<Rightarrow>
          (case dial_tls (dt_dot cfg) of
             Some e \<Rightarrow> Inl (ErrWrap ''dnstt: dial DoT'' e)
           | None \<Rightarrow> Inr (DoTConn (dt_dot cfg), None))
      | TransportUDP \<Rightarrow>
          (case resolve_udp (dt_udp cfg) of
             Inl e \<Rightarrow> Inl (ErrWrap (''dnstt: resolve UDP '' @ dt_udp cfg) e)
           | Inr addr \<Rightarrow>
               (case listen_udp of
                  Some e \<Rightarrow> Inl (ErrWrap ''dnstt: listen UDP'' e)
                | None \<Rightarrow> Inr (UDPConn, Some addr)))
      | TransportResolver \<Rightarrow> Inr (ResolverConn (the res) resolverNumSenders, None)
      | TransportInvalid \<Rightarrow> Inl (ErrNew ''dnstt: unsupported transport kind''))"

text \<open>
  How the steps of \<^verbatim>\<open>dialSession\<close> go for a configuration whose domain has the labels \<open>domain\<close>; the last four are those of KCP,
  Noise and smux.
\<close>

definition tunnel_steps ::
  "err + 'u tunnel_transport \<times> 'u option \<Rightarrow> bytes list \<Rightarrow> err option \<Rightarrow> (int \<Rightarrow> err option) \<Rightarrow> err option \<Rightarrow> err option
   \<Rightarrow> session_steps" where
  "tunnel_steps tr domain kcp set_mtu noise smux =
     \<lparr>st_transport = (case tr of Inl e \<Rightarrow> Some e | Inr _ \<Rightarrow> None),
      st_mtu = (case tunnel_mtu domain of Inl e \<Rightarrow> Some e | Inr _ \<Rightarrow> None),
      st_kcp = kcp,
      st_set_mtu = (case tunnel_mtu domain of Inl e \<Rightarrow> None | Inr mtu \<Rightarrow> set_mtu mtu),
      st_noise = noise, st_smux = smux\<rparr>"

lemma build_dnstt_Inr:
  assumes "build_dnstt E b u = Inr (DNSTTDialer c r)"
  obtains cfg where "parseDNSTTConfig (en_lib E) u = Inr cfg"
    "c = (if dt_kind cfg = TransportInvalid then cfg\<lparr>dt_kind := TransportResolver\<rparr> else cfg)"
    "r = (if dt_kind cfg = TransportInvalid then en_resolver E else None)"
proof -
  obtain cfg where "parseDNSTTConfig (en_lib E) u = Inr cfg"
    using assms by (auto simp: build_dnstt_def seq_err_Inr split: if_splits)
  moreover from this have "c = (if dt_kind cfg = TransportInvalid then cfg\<lparr>dt_kind := TransportResolver\<rparr> else cfg)"
      "r = (if dt_kind cfg = TransportInvalid then en_resolver E else None)"
    using assms by (auto simp: build_dnstt_def Let_def split: if_splits option.splits)
  ultimately show ?thesis using that by blast
qed

text \<open>
  A dialer that the configuration gives opens the transport that its URL names: the one of the parameter that is there, with the
  default resolver if there is none; it never has an unsupported kind. Its session is made if the domain leaves room and
  the network lets it, and each resource of a session that fails is closed again.
\<close>

theorem dnstt_config_session:
  assumes b: "build_dnstt E b u = Inr (DNSTTDialer c r)"
    and tr: "tr = openTransport dial_tls resolve_udp listen_udp c r"
    and steps: "steps = tunnel_steps tr domain kcp set_mtu noise smux"
  shows "tr = (if dt_doh c \<noteq> [] then Inr (DoHConn (dt_doh c) 32, None)
               else if dt_dot c \<noteq> []
                 then (case dial_tls (dt_dot c) of Some e \<Rightarrow> Inl (ErrWrap ''dnstt: dial DoT'' e) | None \<Rightarrow> Inr (DoTConn (dt_dot c), None))
               else if dt_udp c \<noteq> []
                 then (case resolve_udp (dt_udp c) of
                         Inl e \<Rightarrow> Inl (ErrWrap (''dnstt: resolve UDP '' @ dt_udp c) e)
                       | Inr addr \<Rightarrow> (case listen_udp of Some e \<Rightarrow> Inl (ErrWrap ''dnstt: listen UDP'' e) | None \<Rightarrow> Inr (UDPConn, Some addr)))
               else Inr (ResolverConn (the (en_resolver E)) resolverNumSenders, None))
    \<and> ((\<exists>fns. fst (dialSession steps) = Inr fns)
        \<longleftrightarrow> (\<exists>x mtu. tr = Inr x \<and> tunnel_mtu domain = Inr mtu \<and> 80 \<le> mtu \<and> kcp = None \<and> set_mtu mtu = None \<and> noise = None \<and> smux = None))
    \<and> (case dialSession steps of (Inl _, opened, closed) \<Rightarrow> set closed = set opened
           | (Inr fns, opened, closed) \<Rightarrow> closed = [] \<and> set fns = set opened)" (is "?transport \<and> ?made \<and> ?closed")
proof (intro conjI)
  obtain cfg where cfg: "parseDNSTTConfig (en_lib E) u = Inr cfg"
    and c: "c = (if dt_kind cfg = TransportInvalid then cfg\<lparr>dt_kind := TransportResolver\<rparr> else cfg)"
    and r: "r = (if dt_kind cfg = TransportInvalid then en_resolver E else None)"
    by (rule build_dnstt_Inr [OF b])
  have k: "dt_kind cfg = (if dt_doh cfg \<noteq> [] then TransportDoH else if dt_dot cfg \<noteq> [] then TransportDoT
      else if dt_udp cfg \<noteq> [] then TransportUDP else TransportInvalid)"
    using cfg by (auto simp: parseDNSTTConfig_def Let_def split: if_splits sum.splits)
  have "dt_doh c = dt_doh cfg" "dt_dot c = dt_dot cfg" "dt_udp c = dt_udp cfg" using c by simp_all
  moreover from this have "dt_kind c = (if dt_doh c \<noteq> [] then TransportDoH else if dt_dot c \<noteq> [] then TransportDoT
      else if dt_udp c \<noteq> [] then TransportUDP else TransportResolver)"
    using c k by simp
  moreover from calculation have "dt_doh c = [] \<Longrightarrow> dt_dot c = [] \<Longrightarrow> dt_udp c = [] \<Longrightarrow> r = en_resolver E" using r k by simp
  ultimately show ?transport by (simp add: tr openTransport_def)
  show ?made
    by (auto simp: dialSession_def steps tunnel_steps_def tunnel_mtu_def Let_def split: option.splits sum.splits)
  show ?closed by (rule dialSession_resources)
qed

section \<open>Streams\<close>

text \<open>The half closes of a stream: that of the read side does nothing, that of the write side is a \<^verbatim>\<open>Close\<close>.\<close>

definition tunnel_CloseRead :: "'s \<Rightarrow> 's \<times> err option" where
  "tunnel_CloseRead s = (s, None)"

definition tunnel_CloseWrite :: "('s \<Rightarrow> 's \<times> err option) \<Rightarrow> 's \<Rightarrow> 's \<times> err option" where
  "tunnel_CloseWrite close s = close s"

section \<open>The connection over TLS\<close>

text \<open>
  The goroutine of \<^verbatim>\<open>newDoTPacketConn\<close>: in its two loops, of which each runs or has ended; about to dial again; ended.
  \<open>dn_dials\<close> counts the connections, \<open>dn_closed\<close> lists the ones that were closed, and \<open>dn_done\<close> says whether the packet
  connection was closed.
\<close>

datatype dot_phase = DotLoops bool bool | DotRedial | DotEnded

record dot_conn =
  dn_phase :: dot_phase
  dn_dials :: nat
  dn_closed :: "nat list"
  dn_done :: bool

definition newDoTPacketConn :: "err option \<Rightarrow> err + dot_conn" where
  "newDoTPacketConn dial =
     (case dial of
        Some e \<Rightarrow> Inl e
      | None \<Rightarrow> Inr \<lparr>dn_phase = DotLoops True True, dn_dials = 1, dn_closed = [], dn_done = False\<rparr>)"

datatype dot_event = DotRecvEnds | DotSendEnds | DotJoin | DotDials "err option"

fun dot_step :: "dot_conn \<Rightarrow> dot_event \<Rightarrow> dot_conn option" where
  "dot_step s DotRecvEnds = (case dn_phase s of DotLoops True snds \<Rightarrow> Some (s\<lparr>dn_phase := DotLoops False snds\<rparr>) | _ \<Rightarrow> None)"
| "dot_step s DotSendEnds = (case dn_phase s of DotLoops recvs True \<Rightarrow> Some (s\<lparr>dn_phase := DotLoops recvs False\<rparr>) | _ \<Rightarrow> None)"
| "dot_step s DotJoin =
     (case dn_phase s of
        DotLoops False False \<Rightarrow> Some (s\<lparr>dn_phase := DotRedial, dn_closed := dn_closed s @ [dn_dials s - 1]\<rparr>)
      | _ \<Rightarrow> None)"
| "dot_step s (DotDials r) =
     (case dn_phase s of
        DotRedial \<Rightarrow>
          Some (case r of
                  None \<Rightarrow> s\<lparr>dn_phase := DotLoops True True, dn_dials := dn_dials s + 1\<rparr>
                | Some _ \<Rightarrow> s\<lparr>dn_phase := DotEnded, dn_done := True\<rparr>)
      | _ \<Rightarrow> None)"

fun dot_run :: "dot_conn \<Rightarrow> dot_event list \<Rightarrow> dot_conn option" where
  "dot_run s [] = Some s"
| "dot_run s (e # es) = (case dot_step s e of None \<Rightarrow> None | Some s' \<Rightarrow> dot_run s' es)"

definition dot_inv :: "dot_conn \<Rightarrow> bool" where
  "dot_inv s \<longleftrightarrow> 0 < dn_dials s \<and> (dn_done s \<longleftrightarrow> dn_phase s = DotEnded)
     \<and> dn_closed s = [0..<(case dn_phase s of DotLoops _ _ \<Rightarrow> dn_dials s - 1 | _ \<Rightarrow> dn_dials s)]"

lemma dot_inv_step: "dot_inv s \<Longrightarrow> dot_step s e = Some s' \<Longrightarrow> dot_inv s'"
  by (cases e) (auto simp: dot_inv_def upt_Suc_append [symmetric] Suc_diff_Suc split: dot_phase.splits bool.splits option.splits
      simp flip: upt_Suc_append)

lemma dot_inv_run: "dot_inv s \<Longrightarrow> dot_run s es = Some s' \<Longrightarrow> dot_inv s'"
  by (induction es arbitrary: s) (auto split: option.splits dest: dot_inv_step)

text \<open>
  At each moment the connections but the last are closed, each once and in order, and the last one too when it is time to dial;
  the packet connection is closed exactly when a dial has failed.
\<close>

theorem dot_one_connection:
  assumes "newDoTPacketConn None = Inr s0" "dot_run s0 es = Some s"
  shows "dn_closed s = [0..<(case dn_phase s of DotLoops _ _ \<Rightarrow> dn_dials s - 1 | _ \<Rightarrow> dn_dials s)]
    \<and> (dn_done s \<longleftrightarrow> dn_phase s = DotEnded)"
  using dot_inv_run [OF _ assms(2)] assms(1) by (auto simp: dot_inv_def newDoTPacketConn_def)

text \<open>
  A connection that the server has closed stays in use until the send loop ends too, which takes a message whose write fails:
  as long as that does not happen no event closes it.
\<close>

lemma dot_waits_for_sender:
  assumes "dn_phase s = DotLoops recvs True" "dot_run s es = Some s'" "DotSendEnds \<notin> set es"
  shows "(\<exists>r. dn_phase s' = DotLoops r True) \<and> dn_closed s' = dn_closed s \<and> dn_dials s' = dn_dials s"
  using assms
proof (induction es arbitrary: s recvs)
  case (Cons e es)
  then obtain s1 where s1: "dot_step s e = Some s1" "dot_run s1 es = Some s'" by (auto split: option.splits)
  then have "\<exists>r. dn_phase s1 = DotLoops r True" "dn_closed s1 = dn_closed s" "dn_dials s1 = dn_dials s"
    using Cons.prems by (cases e; auto split: bool.splits)+
  then show ?case using Cons.IH [OF _ s1(2)] Cons.prems(3) by auto
qed auto

end
