(* ===== verification/PipeConn.thy ===== *)
theory PipeConn
  imports GoIO
begin

text \<open>
  The connection of \<^verbatim>\<open>x/httpconnect/pipe_conn.go\<close>: the write end of one pipe and the read end of another one, with the
  operations of a stream connection. The ends are parameters.
\<close>

record ('r, 'w) pipe_ends =
  pe_read :: "'r \<Rightarrow> nat \<Rightarrow> 'r \<times> bytes \<times> err option"
  pe_write :: "'w writer"
  pe_close_reader :: "'r \<Rightarrow> 'r \<times> err option"
  pe_close_writer :: "'w \<Rightarrow> 'w \<times> err option"
  pe_reader_deadline :: "'r \<Rightarrow> nat \<Rightarrow> 'r \<times> err option"
  pe_writer_deadline :: "'w \<Rightarrow> nat \<Rightarrow> 'w \<times> err option"

record ('r, 'w) pipe_conn =
  pc_reader :: 'r
  pc_writer :: 'w
  pc_remote :: string

definition newPipeConn :: "'w \<Rightarrow> 'r \<Rightarrow> string \<Rightarrow> ('r, 'w) pipe_conn" where
  "newPipeConn writer reader remoteAddr = \<lparr>pc_reader = reader, pc_writer = writer, pc_remote = remoteAddr\<rparr>"

text \<open>\<^verbatim>\<open>errors.Join\<close>: nil errors are left out, and without errors the result is nil.\<close>

definition join_errors :: "err option list \<Rightarrow> err option" where
  "join_errors es = (case List.map_filter id es of [] \<Rightarrow> None | xs \<Rightarrow> Some (ErrJoin xs))"

definition pipe_Read :: "('r, 'w) pipe_ends \<Rightarrow> ('r, 'w) pipe_conn \<Rightarrow> nat \<Rightarrow> ('r, 'w) pipe_conn \<times> bytes \<times> err option" where
  "pipe_Read P p n = (case pe_read P (pc_reader p) n of (r, b, e) \<Rightarrow> (p\<lparr>pc_reader := r\<rparr>, b, e))"

definition pipe_Write :: "('r, 'w) pipe_ends \<Rightarrow> ('r, 'w) pipe_conn writer" where
  "pipe_Write P p b = (case pe_write P (pc_writer p) b of (w, n, e) \<Rightarrow> (p\<lparr>pc_writer := w\<rparr>, n, e))"

definition pipe_CloseRead :: "('r, 'w) pipe_ends \<Rightarrow> ('r, 'w) pipe_conn \<Rightarrow> ('r, 'w) pipe_conn \<times> err option" where
  "pipe_CloseRead P p = (case pe_close_reader P (pc_reader p) of (r, e) \<Rightarrow> (p\<lparr>pc_reader := r\<rparr>, e))"

definition pipe_CloseWrite :: "('r, 'w) pipe_ends \<Rightarrow> ('r, 'w) pipe_conn \<Rightarrow> ('r, 'w) pipe_conn \<times> err option" where
  "pipe_CloseWrite P p = (case pe_close_writer P (pc_writer p) of (w, e) \<Rightarrow> (p\<lparr>pc_writer := w\<rparr>, e))"

definition pipe_Close :: "('r, 'w) pipe_ends \<Rightarrow> ('r, 'w) pipe_conn \<Rightarrow> ('r, 'w) pipe_conn \<times> err option" where
  "pipe_Close P p =
     (case pipe_CloseRead P p of (p1, e1) \<Rightarrow> (case pipe_CloseWrite P p1 of (p2, e2) \<Rightarrow> (p2, join_errors [e1, e2])))"

definition pipe_SetReadDeadline :: "('r, 'w) pipe_ends \<Rightarrow> nat \<Rightarrow> ('r, 'w) pipe_conn \<Rightarrow> ('r, 'w) pipe_conn \<times> err option" where
  "pipe_SetReadDeadline P t p = (case pe_reader_deadline P (pc_reader p) t of (r, e) \<Rightarrow> (p\<lparr>pc_reader := r\<rparr>, e))"

definition pipe_SetWriteDeadline :: "('r, 'w) pipe_ends \<Rightarrow> nat \<Rightarrow> ('r, 'w) pipe_conn \<Rightarrow> ('r, 'w) pipe_conn \<times> err option" where
  "pipe_SetWriteDeadline P t p = (case pe_writer_deadline P (pc_writer p) t of (w, e) \<Rightarrow> (p\<lparr>pc_writer := w\<rparr>, e))"

definition pipe_SetDeadline :: "('r, 'w) pipe_ends \<Rightarrow> nat \<Rightarrow> ('r, 'w) pipe_conn \<Rightarrow> ('r, 'w) pipe_conn \<times> err option" where
  "pipe_SetDeadline P t p =
     (case pipe_SetWriteDeadline P t p of (p1, e1) \<Rightarrow>
        (case pipe_SetReadDeadline P t p1 of (p2, e2) \<Rightarrow> (p2, join_errors [e1, e2])))"

text \<open>\<^verbatim>\<open>LocalAddr\<close> is nil, also on a connection that is open.\<close>

definition pipe_LocalAddr :: "('r, 'w) pipe_conn \<Rightarrow> string option" where
  "pipe_LocalAddr p = None"

definition pipe_RemoteAddr :: "('r, 'w) pipe_conn \<Rightarrow> string" where
  "pipe_RemoteAddr p = pc_remote p"

lemma mem_present: "x \<in> set (List.map_filter id es) \<longleftrightarrow> Some x \<in> set es"
  by (induction es) (auto simp: map_filter_def)

lemma present_Nil: "List.map_filter id es = [] \<longleftrightarrow> (\<forall>e \<in> set es. e = None)"
  by (induction es) (auto simp: map_filter_def)

lemma join_errors_None [simp]: "join_errors es = None \<longleftrightarrow> (\<forall>e \<in> set es. e = None)"
  unfolding present_Nil [symmetric] join_errors_def by (simp split: list.split)

lemma join_errors_is:
  assumes "Some e \<in> set es"
  shows "\<exists>j. join_errors es = Some j \<and> errors_is j e"
proof -
  have e: "e \<in> set (List.map_filter id es)" using assms by (simp add: mem_present)
  then have "join_errors es = Some (ErrJoin (List.map_filter id es))" by (auto simp: join_errors_def split: list.split)
  then show ?thesis using e errors_is_refl by fastforce
qed

text \<open>
  \<^verbatim>\<open>Close\<close> closes both ends whatever the first one gives, its error is that of one of them, and the two halves are independent:
  the order of \<^verbatim>\<open>CloseRead\<close> and \<^verbatim>\<open>CloseWrite\<close> does not matter.
\<close>

lemma pipe_Close_both:
  assumes "pe_close_reader P (pc_reader p) = (r, e1)" "pe_close_writer P (pc_writer p) = (w, e2)"
  shows "\<exists>e. pipe_Close P p = (p\<lparr>pc_reader := r, pc_writer := w\<rparr>, e) \<and> (e = None \<longleftrightarrow> e1 = None \<and> e2 = None)
      \<and> (\<forall>x. e1 = Some x \<or> e2 = Some x \<longrightarrow> (\<exists>j. e = Some j \<and> errors_is j x))"
    and "fst (pipe_CloseWrite P (fst (pipe_CloseRead P p))) = fst (pipe_CloseRead P (fst (pipe_CloseWrite P p)))"
  using assms by (auto simp: pipe_Close_def pipe_CloseRead_def pipe_CloseWrite_def intro!: join_errors_is)

text \<open>Writes go to the write end as they are: what the pipe gets is what the connection was given.\<close>

context go_writer
begin

lemma pipe_writer: "go_writer (pipe_Write (P\<lparr>pe_write := wr\<rparr>)) (\<lambda>p. out (pc_writer p))"
  by unfold_locales (auto simp: pipe_Write_def wr_out dest: wr_len wr_full split: prod.splits)

end

interpretation net_pipe: go_writer "pipe_Write (P\<lparr>pe_write := sink_write\<rparr>)" "\<lambda>p. wire (pc_writer p)" for P
  by (rule net.pipe_writer)

end
