(* ===== verification/WindowsErrno.thy ===== *)
theory WindowsErrno
  imports Connectivity
begin

text \<open>
  The names of the socket errors on Windows (\<^verbatim>\<open>x/connectivity/errors_windows.go\<close>). The numbers are constants of
  \<^verbatim>\<open>golang.org/x/sys/windows\<close>, a parameter that gives the number of a constant by its name.
\<close>

definition windows_errors :: "string list" where
  "windows_errors =
    [''EINTR'', ''EBADF'', ''EACCES'', ''EFAULT'', ''EINVAL'', ''EMFILE'', ''EWOULDBLOCK'', ''EINPROGRESS'',
    ''EALREADY'', ''ENOTSOCK'', ''EDESTADDRREQ'', ''EMSGSIZE'', ''EPROTOTYPE'', ''ENOPROTOOPT'', ''EPROTONOSUPPORT'',
    ''ESOCKTNOSUPPORT'', ''EOPNOTSUPP'', ''EPFNOSUPPORT'', ''EAFNOSUPPORT'', ''EADDRINUSE'', ''EADDRNOTAVAIL'',
    ''ENETDOWN'', ''ENETUNREACH'', ''ENETRESET'', ''ECONNABORTED'', ''ECONNRESET'', ''ENOBUFS'', ''EISCONN'',
    ''ENOTCONN'', ''ESHUTDOWN'', ''ETOOMANYREFS'', ''ETIMEDOUT'', ''ECONNREFUSED'', ''ELOOP'', ''ENAMETOOLONG'',
    ''EHOSTDOWN'', ''EHOSTUNREACH'', ''ENOTEMPTY'', ''EPROCLIM'', ''EUSERS'', ''EDQUOT'', ''ESTALE'', ''EREMOTE'',
    ''EDISCON'', ''ENOMORE'', ''ECANCELLED'', ''EINVALIDPROCTABLE'', ''EINVALIDPROVIDER'', ''EPROVIDERFAILEDINIT'',
    ''EREFUSED'']"

text \<open>Each case of the \<^verbatim>\<open>switch\<close> takes \<^verbatim>\<open>WSA\<close> with a name and returns the name; the first one that fits counts.\<close>

definition systemErrnoName :: "(string \<Rightarrow> nat) \<Rightarrow> nat \<Rightarrow> string" where
  "systemErrnoName wsa errno =
     (case find (\<lambda>n. wsa (''WSA'' @ n) = errno) windows_errors of Some n \<Rightarrow> n | None \<Rightarrow> [])"

text \<open>
  With constants that are different each of the errors has its own POSIX name, which a connectivity error of that number
  carries, and other numbers are told as such; no error is without a name.
\<close>

lemma windows_errno_names:
  assumes "inj_on (\<lambda>n. wsa (''WSA'' @ n)) (set windows_errors)"
  shows "(n \<in> set windows_errors \<and> errors_as errno_of e = Some (wsa (''WSA'' @ n)) \<longrightarrow>
       ce_posix (makeConnectivityError (systemErrnoName wsa) errno_of timeout op e) = n)
    \<and> (errno \<notin> (\<lambda>n. wsa (''WSA'' @ n)) ` set windows_errors \<longrightarrow>
       errnoName (systemErrnoName wsa) errno = ''Error '' @ itoa errno @ '' (0x'' @ hex_text errno @ '')'')
    \<and> errnoName (systemErrnoName wsa) errno \<noteq> []"
proof (intro conjI impI)
  have ne: "[] \<notin> set windows_errors" by (simp add: windows_errors_def)
  have find: "systemErrnoName wsa (wsa (''WSA'' @ n)) = n" if n: "n \<in> set windows_errors" for n
  proof -
    obtain n' where "find (\<lambda>k. wsa (''WSA'' @ k) = wsa (''WSA'' @ n)) windows_errors = Some n'"
      using n find_None_iff [of "\<lambda>k. wsa (''WSA'' @ k) = wsa (''WSA'' @ n)" windows_errors]
      by (cases "find (\<lambda>k. wsa (''WSA'' @ k) = wsa (''WSA'' @ n)) windows_errors") blast+
    moreover from this have "n' \<in> set windows_errors" "wsa (''WSA'' @ n') = wsa (''WSA'' @ n)"
      by (auto simp: find_Some_iff)
    ultimately show ?thesis using assms n by (auto simp: systemErrnoName_def inj_on_def)
  qed
  show "ce_posix (makeConnectivityError (systemErrnoName wsa) errno_of timeout op e) = n"
    if n: "n \<in> set windows_errors \<and> errors_as errno_of e = Some (wsa (''WSA'' @ n))"
    using find ne n by (auto simp: makeConnectivityError_def errnoName_def)
  show "errnoName (systemErrnoName wsa) errno = ''Error '' @ itoa errno @ '' (0x'' @ hex_text errno @ '')''"
    if "errno \<notin> (\<lambda>n. wsa (''WSA'' @ n)) ` set windows_errors"
  proof -
    have "find (\<lambda>n. wsa (''WSA'' @ n) = errno) windows_errors = None" using that by (auto simp: find_None_iff)
    then show ?thesis by (simp add: errnoName_def systemErrnoName_def)
  qed
  show "errnoName (systemErrnoName wsa) errno \<noteq> []" by (simp add: errnoName_def)
qed

end
