(* ===== verification/PsiphonConfig.thy ===== *)
theory PsiphonConfig
  imports GoStrings
begin

text \<open>
  How \<^verbatim>\<open>x/mobileproxy/psiphon\<close> makes a dialer from a configuration: the signature for the log, the directory of the cache on
  Android and elsewhere, and the parser that the smart dialer is given. JSON and the file system are parameters.
\<close>

section \<open>Signatures\<close>

text \<open>
  \<open>fields\<close> gives the map that a node is, if it is one; \<open>text_of\<close> the string that a value is; \<open>json\<close> is \<^verbatim>\<open>json.Marshal\<close>; and
  \<open>err_text\<close> is \<^verbatim>\<open>Error\<close>.
\<close>

record 'y node_lib =
  nl_fields :: "'y \<Rightarrow> (string \<rightharpoonup> 'y) option"
  nl_text :: "'y \<Rightarrow> string option"
  nl_json :: "'y \<Rightarrow> err + string"
  nl_error :: "err \<Rightarrow> string"

definition text_field :: "'y node_lib \<Rightarrow> 'y \<Rightarrow> string \<Rightarrow> string option" where
  "text_field N y k =
     (case nl_fields N y of
        None \<Rightarrow> None
      | Some m \<Rightarrow> (case m k of None \<Rightarrow> None | Some v \<Rightarrow> nl_text N v))"

definition getPsiphonConfigSignature :: "'y node_lib \<Rightarrow> 'y \<Rightarrow> string" where
  "getPsiphonConfigSignature N y =
     (case (text_field N y ''PropagationChannelId'', text_field N y ''SponsorId'') of
        (Some propagationChannelId, Some sponsorId) \<Rightarrow>
          ''{PropagationChannelId: '' @ propagationChannelId @ '', SponsorId: '' @ sponsorId @ '', [...]}''
      | _ \<Rightarrow> (case nl_json N y of Inl e \<Rightarrow> ''invalid config: '' @ nl_error N e | Inr js \<Rightarrow> js))"

section \<open>Paths\<close>

text \<open>
  \<^verbatim>\<open>filepath.Join\<close>: the elements that are not empty, with slashes between them, as \<^verbatim>\<open>filepath.Clean\<close> writes it. Cleaning goes through
  the elements of the path with the ones kept so far, in reverse.
\<close>

fun clean_parts :: "bool \<Rightarrow> string list \<Rightarrow> string list \<Rightarrow> string list" where
  "clean_parts rooted kept [] = rev kept"
| "clean_parts rooted kept (p # ps) =
     (if p = [] \<or> p = ''.'' then clean_parts rooted kept ps
      else if p = ''..'' then
        (case kept of
           [] \<Rightarrow> clean_parts rooted (if rooted then [] else [p]) ps
         | k # ks \<Rightarrow> clean_parts rooted (if k = ''..'' then p # kept else ks) ps)
      else clean_parts rooted (p # kept) ps)"

definition path_clean :: "string \<Rightarrow> string" where
  "path_clean path =
     (let rooted = (path \<noteq> [] \<and> hd path = CHR ''/'');
          out = (if rooted then ''/'' else []) @ join_with ''/'' (clean_parts rooted [] (split_on (CHR ''/'') path)) in
      if out = [] then ''.'' else out)"

definition path_join :: "string list \<Rightarrow> string" where
  "path_join elems =
     (let es = filter (\<lambda>e. e \<noteq> []) elems in if es = [] then [] else path_clean (join_with ''/'' es))"

section \<open>The directory\<close>

text \<open>\<^verbatim>\<open>/proc/self/cmdline\<close> is the content of the file, or the error of \<^verbatim>\<open>Open\<close>; the line ends with its first NUL.\<close>

definition cmdline_cutset :: "char set" where
  "cmdline_cutset = {char_of (0 :: nat), char_of (13 :: nat), char_of (10 :: nat), char_of (9 :: nat), CHR '' ''}"

definition read_until_nul :: "string \<Rightarrow> string" where
  "read_until_nul s = (let line = takeWhile (\<lambda>c. c \<noteq> char_of (0 :: nat)) s in
     if length line < length s then line @ [char_of (0 :: nat)] else line)"

definition trim_chars :: "char set \<Rightarrow> string \<Rightarrow> string" where
  "trim_chars cs s = rev (dropWhile (\<lambda>c. c \<in> cs) (rev (dropWhile (\<lambda>c. c \<in> cs) s)))"

definition getAndroidPackageName :: "err + string \<Rightarrow> err + string" where
  "getAndroidPackageName cmdline =
     (case cmdline of
        Inl e \<Rightarrow> Inl e
      | Inr content \<Rightarrow>
          (let pkg = trim_chars cmdline_cutset (read_until_nul content) in
           if pkg = [] then Inl (ErrNew ''could not determine package name from /proc/self/cmdline'') else Inr pkg))"

text \<open>The file system: whether a path is a directory, and \<^verbatim>\<open>MkdirAll\<close>, on a state.\<close>

record 'f file_system =
  fs_is_dir :: "'f \<Rightarrow> string \<Rightarrow> bool"
  fs_mkdir_all :: "'f \<Rightarrow> string \<Rightarrow> 'f \<times> err option"

definition androidPrivateCacheDir :: "'f file_system \<Rightarrow> err + string \<Rightarrow> 'f \<Rightarrow> 'f \<times> (err + string)" where
  "androidPrivateCacheDir FS cmdline f =
     (case getAndroidPackageName cmdline of
        Inl e \<Rightarrow> (f, Inl e)
      | Inr pkg \<Rightarrow>
          (let p = path_join [''/data/data'', pkg, ''cache''] in
           if fs_is_dir FS f p then (f, Inr p)
           else case fs_mkdir_all FS f p of
                  (f', Some e) \<Rightarrow> (f', Inl e)
                | (f', None) \<Rightarrow> (f', Inr p)))"

text \<open>\<open>android\<close> tells the system, \<open>os_dir\<close> is \<^verbatim>\<open>os.UserCacheDir\<close>.\<close>

definition getUserCacheDir :: "'f file_system \<Rightarrow> bool \<Rightarrow> err + string \<Rightarrow> err + string \<Rightarrow> 'f \<Rightarrow> 'f \<times> (err + string)" where
  "getUserCacheDir FS android cmdline os_dir f =
     (case (if android then androidPrivateCacheDir FS cmdline f else (f, os_dir)) of
        (f', Inl e) \<Rightarrow> (f', Inl (ErrWrap ''failed to get the user cache directory'' e))
      | (f', Inr cacheBaseDir) \<Rightarrow>
          (let userCacheDir = path_join [cacheBaseDir, ''psiphon''] in
           case fs_mkdir_all FS f' userCacheDir of
             (f'', Some e) \<Rightarrow> (f'', Inl (ErrWrap ''failed to create storage directory'' e))
           | (f'', None) \<Rightarrow> (f'', Inr userCacheDir)))"

section \<open>The parser\<close>

text \<open>
  \<open>start\<close> is \<^verbatim>\<open>Start\<close> of the one dialer of package \<^verbatim>\<open>psiphon\<close>, with the JSON text and the directory; the result is the directory that
  it was started with, for the dialer, or the error. Without the build tag the parser is \<open>parsePsiphon_excluded\<close>.
\<close>

definition parsePsiphon ::
  "'y node_lib \<Rightarrow> 'f file_system \<Rightarrow> bool \<Rightarrow> err + string \<Rightarrow> err + string \<Rightarrow> (string \<Rightarrow> string \<Rightarrow> err option) \<Rightarrow> 'f \<Rightarrow> 'y
   \<Rightarrow> 'f \<times> (err + string)" where
  "parsePsiphon N FS android cmdline os_dir start f y =
     (case nl_json N y of
        Inl e \<Rightarrow> (f, Inl (ErrNew (''failed to marshal to JSON: '' @ nl_error N e)))
      | Inr psiphonJSON \<Rightarrow>
          (case getUserCacheDir FS android cmdline os_dir f of
             (f', Inl e) \<Rightarrow> (f', Inl (ErrWrap ''failed to get cache directory'' e))
           | (f', Inr dir) \<Rightarrow>
               (case start psiphonJSON dir of
                  Some e \<Rightarrow> (f', Inl (ErrWrap ''failed to start psiphon dialer'' e))
                | None \<Rightarrow> (f', Inr dir))))"

definition errUnsupported :: err where "errUnsupported = ErrNew ''unsupported operation''"

definition parsePsiphon_excluded :: "'y \<Rightarrow> err + string" where
  "parsePsiphon_excluded y =
     Inl (ErrWrap ''attempted to start psiphon tunnel but library was built without psiphon support. Please build using -tag psiphon'' errUnsupported)"

text \<open>\<^verbatim>\<open>ParseConfig\<close>: the dialer, the signature and the error; \<open>parse\<close> is the \<^verbatim>\<open>parsePsiphon\<close> of the build.\<close>

definition psiphon_ParseConfig ::
  "'y node_lib \<Rightarrow> ('f \<Rightarrow> 'y \<Rightarrow> 'f \<times> (err + 'd)) \<Rightarrow> 'f \<Rightarrow> 'y \<Rightarrow> 'f \<times> 'd option \<times> string \<times> err option" where
  "psiphon_ParseConfig N parse f y =
     (case parse f y of
        (f', Inl e) \<Rightarrow> (f', None, [], Some e)
      | (f', Inr dialer) \<Rightarrow> (f', Some dialer, getPsiphonConfigSignature N y, None))"

section \<open>Properties\<close>

text \<open>A name of a package: what a path may have between two slashes, and no white space.\<close>

definition package_name :: "string \<Rightarrow> bool" where
  "package_name pkg \<longleftrightarrow> pkg \<noteq> [] \<and> pkg \<noteq> ''.'' \<and> pkg \<noteq> ''..'' \<and> CHR ''/'' \<notin> set pkg \<and> set pkg \<inter> cmdline_cutset = {}"

lemma trim_chars_plain: "set s \<inter> cs = {} \<Longrightarrow> \<forall>c \<in> set t. c \<in> cs \<Longrightarrow> trim_chars cs (s @ t) = s"
proof -
  assume s: "set s \<inter> cs = {}" and t: "\<forall>c \<in> set t. c \<in> cs"
  have k: "dropWhile (\<lambda>c. c \<in> cs) (rev s) = rev s" using s by (cases s rule: rev_cases) auto
  show ?thesis
  proof (cases "s = []")
    case True
    then show ?thesis using t by (auto simp: trim_chars_def dest: set_dropWhileD)
  next
    case False
    then have "dropWhile (\<lambda>c. c \<in> cs) (s @ t) = s @ t" using s by (cases s) auto
    moreover have "dropWhile (\<lambda>c. c \<in> cs) (rev t @ rev s) = rev s"
      using t k by (subst dropWhile_append2) auto
    ultimately show ?thesis by (simp add: trim_chars_def)
  qed
qed

lemma package_name_read:
  assumes "package_name pkg"
  shows "getAndroidPackageName (Inr (pkg @ char_of (0 :: nat) # args)) = Inr pkg"
proof -
  have n: "char_of (0 :: nat) \<notin> set pkg" using assms by (auto simp: package_name_def cmdline_cutset_def)
  then have "takeWhile (\<lambda>c. c \<noteq> char_of (0 :: nat)) (pkg @ char_of (0 :: nat) # args) = pkg"
    by (subst takeWhile_append2) auto
  then have "read_until_nul (pkg @ char_of (0 :: nat) # args) = pkg @ [char_of (0 :: nat)]"
    by (simp add: read_until_nul_def Let_def)
  moreover have "trim_chars cmdline_cutset (pkg @ [char_of (0 :: nat)]) = pkg"
    by (rule trim_chars_plain) (use assms in \<open>auto simp: package_name_def cmdline_cutset_def\<close>)
  ultimately show ?thesis using assms by (simp add: getAndroidPackageName_def package_name_def Let_def)
qed

lemma clean_parts_plain:
  "\<forall>p \<in> set ps. p \<noteq> [] \<and> p \<noteq> ''.'' \<and> p \<noteq> ''..'' \<Longrightarrow> clean_parts rooted kept ps = rev kept @ ps"
  by (induction ps arbitrary: kept) auto

text \<open>The elements of an absolute path without \<^verbatim>\<open>.\<close>, \<^verbatim>\<open>..\<close> and empty ones stay as they are.\<close>

lemma path_clean_rooted:
  assumes "ps \<noteq> []" "\<forall>p \<in> set ps. p \<noteq> [] \<and> p \<noteq> ''.'' \<and> p \<noteq> ''..'' \<and> CHR ''/'' \<notin> set p"
  shows "path_clean (CHR ''/'' # join_with ''/'' ps) = CHR ''/'' # join_with ''/'' ps"
proof -
  have "split_on (CHR ''/'') (CHR ''/'' # join_with ''/'' ps) = [] # ps"
    using split_on_append [of "CHR ''/''" "[]"] split_join [of ps "CHR ''/''"] assms by simp
  moreover have "clean_parts True [] ([] # ps) = ps" using clean_parts_plain [of ps True "[]"] assms(2) by simp
  ultimately show ?thesis by (simp add: path_clean_def Let_def)
qed

lemma android_cache_path:
  assumes "package_name pkg"
  shows "path_join [''/data/data'', pkg, ''cache''] = ''/data/data/'' @ pkg @ ''/cache''"
    and "path_join [''/data/data/'' @ pkg @ ''/cache'', ''psiphon''] = ''/data/data/'' @ pkg @ ''/cache/psiphon''"
  using path_clean_rooted [of "[''data'', ''data'', pkg, ''cache'']"] path_clean_rooted [of "[''data'', ''data'', pkg, ''cache'', ''psiphon'']"]
    assms by (auto simp: path_join_def package_name_def Let_def)

text \<open>
  On Android the directory is that of the app's own package, whatever arguments follow its name in the command line, and it is
  made; an error of the file system is an error of the parser, which then starts nothing.
\<close>

lemma psiphon_android_dir:
  assumes "package_name pkg" "nl_json N y = Inr js"
    and "fs_mkdir_all FS = (\<lambda>f p. if ok p then (insert p f, None) else (f, Some e))" "fs_is_dir FS = (\<lambda>f p. p \<in> f)"
    and "dir = ''/data/data/'' @ pkg @ ''/cache''"
    and "parsePsiphon N FS True (Inr (pkg @ char_of (0 :: nat) # args)) os_dir start f y = (f', r)"
  shows "(case r of
      Inl _ \<Rightarrow> (dir \<notin> f \<and> \<not> ok dir) \<or> \<not> ok (dir @ ''/psiphon'') \<or> start js (dir @ ''/psiphon'') \<noteq> None
    | Inr d \<Rightarrow> d = dir @ ''/psiphon'' \<and> f' = insert (dir @ ''/psiphon'') (insert dir f) \<and> start js d = None)"
proof -
  
  have p: "path_join [''/data/data'', pkg, ''cache''] = dir" "path_join [dir, ''psiphon''] = dir @ ''/psiphon''"
    using android_cache_path [OF assms(1)] assms(5) by simp_all
  show ?thesis
    using assms(2,6) package_name_read [OF assms(1), of args]
    by (auto simp: parsePsiphon_def getUserCacheDir_def androidPrivateCacheDir_def p assms(3,4) Let_def insert_absorb split: if_splits option.splits)
qed

text \<open>A failed parser gives no dialer and an empty signature; one that succeeds keeps the rest of the configuration out of the signature.\<close>

lemma psiphon_signature_short:
  assumes "text_field N y ''PropagationChannelId'' = Some a" "text_field N y ''SponsorId'' = Some b"
    and "text_field N z ''PropagationChannelId'' = Some a" "text_field N z ''SponsorId'' = Some b"
  shows "getPsiphonConfigSignature N y = getPsiphonConfigSignature N z"
  using assms by (simp add: getPsiphonConfigSignature_def)

lemma psiphon_ParseConfig_error:
  "psiphon_ParseConfig N parse f y = (f', d, sig, Some e) \<Longrightarrow> d = None \<and> sig = []"
  by (auto simp: psiphon_ParseConfig_def split: prod.splits sum.splits)

end
