(* ===== verification/OutlineCli.thy ===== *)
theory OutlineCli
  imports ListenerRelay Connectivity GoStrings
begin

text \<open>
  The command line client (\<^verbatim>\<open>x/examples/outline-cli\<close>): what it changes in a Linux system, its DNS files, IPv6 setting, routes and
  rules, and the order in which \<^verbatim>\<open>Run\<close> takes that back; the device, and the packet proxy that it switches after a connectivity test.
  System calls and netlink are parameters that can fail; the lemmas say what a run leaves behind.
\<close>

section \<open>The system\<close>

record ip_route =
  ro_table :: nat
  ro_link :: nat
  ro_dst :: "string option"
  ro_src :: "string option"
  ro_gw :: "string option"

record ip_rule =
  ru_priority :: nat
  ru_table :: nat
  ru_dst :: string
  ru_invert :: bool

text \<open>
  The files by their path, the routes and rules of the kernel, and whether the tunnel and the device are open; then the variables
  \<^verbatim>\<open>systemDNSBackups\<close> and \<^verbatim>\<open>ipRule\<close> of the program.
\<close>

record cli_system =
  sy_files :: "string \<rightharpoonup> string"
  sy_routes :: "ip_route list"
  sy_rules :: "ip_rule list"
  sy_tun :: bool
  sy_device :: bool
  sy_backups :: "(string \<times> string) list"
  sy_ipRule :: "ip_rule option"

text \<open>
  How the calls go, \<open>None\<close> for success: those on files by their path, with what a failed write leaves; those of netlink; and the
  parsing of a network, with its address.
\<close>

record cli_env =
  ce_stat :: "string \<Rightarrow> err option"
  ce_rename :: "string \<Rightarrow> err option"
  ce_write :: "string \<Rightarrow> (err \<times> string option) option"
  ce_remove :: "string \<Rightarrow> err option"
  ce_link :: "string \<Rightarrow> err + nat"
  ce_parse_net :: "string \<Rightarrow> err + string"
  ce_route_add :: "ip_route \<Rightarrow> err option"
  ce_route_list :: "err option"
  ce_route_del :: "ip_route \<Rightarrow> err option"
  ce_rule_add :: "ip_rule \<Rightarrow> err option"
  ce_rule_del :: "ip_rule \<Rightarrow> err option"

section \<open>DNS files\<close>

definition resolvConfFile :: string where "resolvConfFile = ''/etc/resolv.conf''"
definition resolvConfHeadFile :: string where "resolvConfHeadFile = ''/etc/resolv.conf.head''"
definition resolvConfBackupFile :: string where "resolvConfBackupFile = ''/etc/resolv.outlinecli.backup''"
definition resolvConfHeadBackupFile :: string where "resolvConfHeadBackupFile = ''/etc/resolv.head.outlinecli.backup''"

lemmas dns_files = resolvConfFile_def resolvConfHeadFile_def resolvConfBackupFile_def resolvConfHeadBackupFile_def

definition newline :: string where "newline = [char_of (10 :: nat)]"

definition dns_setting :: "string \<Rightarrow> string" where
  "dns_setting serverHost =
     ''# Outline CLI DNS Setting'' @ newline @ ''# The original file has been renamed as resolv[.head].outlinecli.backup'' @ newline
     @ ''nameserver '' @ serverHost @ newline"

text \<open>\<^verbatim>\<open>os.Stat\<close>: an error that is not \<^verbatim>\<open>ErrNotExist\<close>, or whether the file is there. \<^verbatim>\<open>Rename\<close> replaces its target.\<close>

definition file_stat :: "cli_env \<Rightarrow> cli_system \<Rightarrow> string \<Rightarrow> err + bool" where
  "file_stat E s p = (case ce_stat E p of Some e \<Rightarrow> Inl e | None \<Rightarrow> Inr (sy_files s p \<noteq> None))"

definition file_rename :: "cli_env \<Rightarrow> cli_system \<Rightarrow> string \<Rightarrow> string \<Rightarrow> cli_system \<times> err option" where
  "file_rename E s old new =
     (case ce_rename E old of
        Some e \<Rightarrow> (s, Some e)
      | None \<Rightarrow> (s\<lparr>sy_files := (sy_files s)(new := sy_files s old, old := None)\<rparr>, None))"

definition file_write :: "cli_env \<Rightarrow> cli_system \<Rightarrow> string \<Rightarrow> string \<Rightarrow> cli_system \<times> err option" where
  "file_write E s p data =
     (case ce_write E p of
        Some (e, left) \<Rightarrow> (s\<lparr>sy_files := (sy_files s)(p := left)\<rparr>, Some e)
      | None \<Rightarrow> (s\<lparr>sy_files := (sy_files s)(p \<mapsto> data)\<rparr>, None))"

definition backupAndWriteFile :: "cli_env \<Rightarrow> string \<Rightarrow> string \<Rightarrow> string \<Rightarrow> cli_system \<Rightarrow> cli_system \<times> err option" where
  "backupAndWriteFile E original backup data s =
     (case (case file_stat E s original of
              Inl e \<Rightarrow> (s, Some (ErrWrap ''failed to check the existence of DNS config file'' e))
            | Inr False \<Rightarrow> (s, None)
            | Inr True \<Rightarrow>
                (case file_rename E s original backup of
                   (s1, Some e) \<Rightarrow> (s1, Some (ErrWrap ''failed to backup DNS config file'' e))
                 | (s1, None) \<Rightarrow> (s1, None))) of
        (s1, Some e) \<Rightarrow> (s1, Some e)
      | (s1, None) \<Rightarrow>
          (case file_write E (s1\<lparr>sy_backups := sy_backups s1 @ [(original, backup)]\<rparr>) original data of
             (s2, Some e) \<Rightarrow> (s2, Some (ErrWrap ''failed to write DNS config file'' e))
           | (s2, None) \<Rightarrow> (s2, None)))"

definition setSystemDNSServer :: "cli_env \<Rightarrow> string \<Rightarrow> cli_system \<Rightarrow> cli_system \<times> err option" where
  "setSystemDNSServer E serverHost s =
     (case backupAndWriteFile E resolvConfFile resolvConfBackupFile (dns_setting serverHost) s of
        (s1, Some e) \<Rightarrow> (s1, Some e)
      | (s1, None) \<Rightarrow> backupAndWriteFile E resolvConfHeadFile resolvConfHeadBackupFile (dns_setting serverHost) s1)"

text \<open>One round of the loop of \<^verbatim>\<open>restoreSystemDNSServer\<close>, which only logs errors.\<close>

definition restore_file :: "cli_env \<Rightarrow> cli_system \<Rightarrow> string \<times> string \<Rightarrow> cli_system" where
  "restore_file E s b =
     (case b of (original, backup) \<Rightarrow>
        (case file_stat E s backup of
           Inl e \<Rightarrow> s
         | Inr True \<Rightarrow> fst (file_rename E s backup original)
         | Inr False \<Rightarrow>
             (case ce_remove E original of
                Some e \<Rightarrow> s
              | None \<Rightarrow> s\<lparr>sy_files := (sy_files s)(original := None)\<rparr>)))"

definition restoreSystemDNSServer :: "cli_env \<Rightarrow> cli_system \<Rightarrow> cli_system" where
  "restoreSystemDNSServer E s = foldl (restore_file E) s (sy_backups s)"

section \<open>IPv6\<close>

definition disableIPv6ProcFile :: string where "disableIPv6ProcFile = ''/proc/sys/net/ipv6/conf/all/disable_ipv6''"

text \<open>An empty file, whose first byte the code reads, is a panic; the kernel's file has a digit.\<close>

definition errIndex :: err where "errIndex = ErrNew ''index out of range''"

definition enableIPv6 :: "cli_env \<Rightarrow> bool \<Rightarrow> cli_system \<Rightarrow> cli_system \<times> bool \<times> err option" where
  "enableIPv6 E enabled s =
     (case sy_files s disableIPv6ProcFile of
        None \<Rightarrow> (s, False, Some (ErrWrap ''failed to read IPv6 config'' (ErrNew ''file does not exist'')))
      | Some [] \<Rightarrow> (s, False, Some errIndex)
      | Some (c # r) \<Rightarrow>
          (if c \<noteq> CHR ''0'' \<and> c \<noteq> CHR ''1'' then (s, False, Some (ErrNew ''invalid IPv6 config value''))
           else case file_write E s disableIPv6ProcFile ((if enabled then CHR ''0'' else CHR ''1'') # r) of
                  (s1, Some e) \<Rightarrow> (s1, c = CHR ''0'', Some (ErrWrap ''failed to write IPv6 config'' e))
                | (s1, None) \<Rightarrow> (s1, c = CHR ''0'', None)))"

section \<open>Routing\<close>

record routing_config =
  rc_tunName :: string
  rc_tunIP :: string
  rc_gatewayCIDR :: string
  rc_table :: nat
  rc_priority :: nat
  rc_dns :: string

definition route_add :: "cli_env \<Rightarrow> ip_route \<Rightarrow> cli_system \<Rightarrow> cli_system \<times> err option" where
  "route_add E r s =
     (case ce_route_add E r of Some e \<Rightarrow> (s, Some e) | None \<Rightarrow> (s\<lparr>sy_routes := sy_routes s @ [r]\<rparr>, None))"

definition setupRoutingTable :: "cli_env \<Rightarrow> routing_config \<Rightarrow> cli_system \<Rightarrow> cli_system \<times> err option" where
  "setupRoutingTable E cfg s =
     (case ce_link E (rc_tunName cfg) of
        Inl e \<Rightarrow> (s, Some (ErrWrap ''failed to find tun device'' e))
      | Inr link \<Rightarrow>
     (case ce_parse_net E (rc_gatewayCIDR cfg) of
        Inl e \<Rightarrow> (s, Some (ErrWrap ''failed to parse gateway'' e))
      | Inr gw \<Rightarrow>
     (case route_add E \<lparr>ro_table = rc_table cfg, ro_link = link, ro_dst = Some (rc_gatewayCIDR cfg), ro_src = Some (rc_tunIP cfg), ro_gw = None\<rparr> s of
        (s1, Some e) \<Rightarrow> (s1, Some (ErrWrap ''failed to add routing entry'' e))
      | (s1, None) \<Rightarrow>
     (case route_add E \<lparr>ro_table = rc_table cfg, ro_link = link, ro_dst = None, ro_src = None, ro_gw = Some gw\<rparr> s1 of
        (s2, Some e) \<Rightarrow> (s2, Some (ErrWrap ''failed to add gateway routing entry'' e))
      | (s2, None) \<Rightarrow> (s2, None)))))"

text \<open>The routes that are deleted, and the errors joined.\<close>

fun route_dels :: "cli_env \<Rightarrow> ip_route list \<Rightarrow> err option \<Rightarrow> cli_system \<Rightarrow> cli_system \<times> err option" where
  "route_dels E [] e s = (s, e)"
| "route_dels E (r # rs) e s =
     (case ce_route_del E r of
        Some x \<Rightarrow> route_dels E rs (Some (join_err e (ErrWrap ''failed to remove routing entry'' x))) s
      | None \<Rightarrow> route_dels E rs e (s\<lparr>sy_routes := remove1 r (sy_routes s)\<rparr>))"

definition cleanUpRoutingTable :: "cli_env \<Rightarrow> nat \<Rightarrow> cli_system \<Rightarrow> cli_system \<times> err option" where
  "cleanUpRoutingTable E table s =
     (case ce_route_list E of
        Some e \<Rightarrow> (s, Some (ErrWrap ''failed to list entries in routing table'' e))
      | None \<Rightarrow> route_dels E (filter (\<lambda>r. ro_table r = table) (sy_routes s)) None s)"

definition cleanUpRule :: "cli_env \<Rightarrow> cli_system \<Rightarrow> cli_system \<times> err option" where
  "cleanUpRule E s =
     (case sy_ipRule s of
        None \<Rightarrow> (s, None)
      | Some r \<Rightarrow>
          (case ce_rule_del E r of
             Some e \<Rightarrow> (s, Some (ErrWrap ''failed to delete IP rule of routing table'' e))
           | None \<Rightarrow> (s\<lparr>sy_rules := remove1 r (sy_rules s), sy_ipRule := None\<rparr>, None)))"

definition setupIpRule :: "cli_env \<Rightarrow> string \<Rightarrow> nat \<Rightarrow> nat \<Rightarrow> cli_system \<Rightarrow> cli_system \<times> err option" where
  "setupIpRule E svrIp routingTable routingPriority s =
     (case ce_parse_net E svrIp of
        Inl e \<Rightarrow> (s, Some (ErrWrap ''failed to parse server IP CIDR'' e))
      | Inr _ \<Rightarrow>
          (let r = \<lparr>ru_priority = routingPriority, ru_table = routingTable, ru_dst = svrIp, ru_invert = True\<rparr>;
               s1 = s\<lparr>sy_ipRule := Some r\<rparr> in
           case ce_rule_add E r of
             Some e \<Rightarrow> (fst (cleanUpRule E s1), Some (ErrWrap ''failed to add IP rule'' e))
           | None \<Rightarrow> (s1\<lparr>sy_rules := sy_rules s1 @ [r]\<rparr>, None)))"

definition startRouting :: "cli_env \<Rightarrow> string \<Rightarrow> routing_config \<Rightarrow> cli_system \<Rightarrow> cli_system \<times> err option" where
  "startRouting E proxyIP cfg s =
     (case setupRoutingTable E cfg s of
        (s1, Some e) \<Rightarrow> (s1, Some e)
      | (s1, None) \<Rightarrow> setupIpRule E (proxyIP @ ''/32'') (rc_table cfg) (rc_priority cfg) s1)"

definition stopRouting :: "cli_env \<Rightarrow> nat \<Rightarrow> cli_system \<Rightarrow> cli_system" where
  "stopRouting E routingTable s = fst (cleanUpRule E (fst (cleanUpRoutingTable E routingTable s)))"

section \<open>The tunnel device\<close>

text \<open>
  \<^verbatim>\<open>newTunDevice\<close>: the results of \<^verbatim>\<open>water.New\<close>, \<^verbatim>\<open>ParseAddr\<close> and \<^verbatim>\<open>AddrAdd\<close>, and \<^verbatim>\<open>LinkSetUp\<close>. The device is closed again when a
  step after its creation fails.
\<close>

record tun_steps =
  ts_new :: "err option"
  ts_addr :: "err option"
  ts_up :: "err option"

definition newTunDevice :: "cli_env \<Rightarrow> tun_steps \<Rightarrow> string \<Rightarrow> string \<Rightarrow> cli_system \<Rightarrow> cli_system \<times> err option" where
  "newTunDevice E T name ip s =
     (if length name = 0 then (s, Some (ErrNew ''name is required for TUN/TAP device''))
      else if length ip = 0 then (s, Some (ErrNew ''ip is required for TUN/TAP device''))
      else case ts_new T of
        Some e \<Rightarrow> (s, Some (ErrWrap ''failed to create TUN/TAP device'' e))
      | None \<Rightarrow>
          (let opened = s\<lparr>sy_tun := True\<rparr>; closed = opened\<lparr>sy_tun := False\<rparr> in
           case ce_link E name of
             Inl e \<Rightarrow> (closed, Some (ErrWrap ''newly created TUN/TAP device not found'' e))
           | Inr _ \<Rightarrow>
          (case ts_addr T of
             Some e \<Rightarrow> (closed, Some (ErrWrap ''failed to configure TUN/TAP device subnet'' e))
           | None \<Rightarrow>
          (case ts_up T of
             Some e \<Rightarrow> (closed, Some (ErrWrap ''failed to bring up TUN/TAP device'' e))
           | None \<Rightarrow> (opened, None)))))"

section \<open>The packet proxy and the device\<close>

text \<open>The proxies are named; \<open>op_current\<close> is the one that the delegating proxy points to.\<close>

datatype cli_proxy = RemoteProxy | TruncatingProxy

record outline_packet_proxy =
  op_current :: cli_proxy

definition newOutlinePacketProxy :: "err option \<Rightarrow> err + outline_packet_proxy" where
  "newOutlinePacketProxy listener =
     (case listener of
        Some e \<Rightarrow> Inl (ErrWrap ''failed to create UDP packet listener'' e)
      | None \<Rightarrow>
          (case new_listener_proxy (Some ()) [] of
             Inl e \<Rightarrow> Inl (ErrWrap ''failed to create UDP packet proxy'' e)
           | Inr _ \<Rightarrow>
               (case delegate_proxy_new (Some TruncatingProxy) of
                  Inl e \<Rightarrow> Inl (ErrWrap ''failed to create delegate UDP proxy'' e)
                | Inr d \<Rightarrow> Inr \<lparr>op_current = d\<rparr>)))"

text \<open>\<^verbatim>\<open>testConnectivityAndRefresh\<close> on the result of the connectivity test.\<close>

definition testConnectivityAndRefresh ::
  "err + connectivity_error option \<Rightarrow> outline_packet_proxy \<Rightarrow> outline_packet_proxy \<times> err option" where
  "testConnectivityAndRefresh test p =
     (case test of
        Inl e \<Rightarrow> (p, Some e)
      | Inr (Some _) \<Rightarrow> (case delegate_proxy_set (op_current p) (Some TruncatingProxy) of (d, e) \<Rightarrow> (p\<lparr>op_current := d\<rparr>, e))
      | Inr None \<Rightarrow> (case delegate_proxy_set (op_current p) (Some RemoteProxy) of (d, e) \<Rightarrow> (p\<lparr>op_current := d\<rparr>, e)))"

text \<open>The host and scheme are from \<^verbatim>\<open>url.Parse\<close>, the addresses from \<^verbatim>\<open>LookupIP\<close>.\<close>

definition resolveShadowsocksServerIPFromConfig ::
  "(string \<Rightarrow> err + string \<times> string) \<Rightarrow> (string \<Rightarrow> err + bytes list) \<Rightarrow> string \<Rightarrow> err + bytes" where
  "resolveShadowsocksServerIPFromConfig parse lookup_ip cfg =
     (if CHR ''|'' \<in> set cfg then Inl (ErrNew ''multi-part config is not supported'')
      else let c = trim_space cfg in
        if c = [] then Inl (ErrNew ''config is required'')
        else case parse c of
          Inl e \<Rightarrow> Inl (ErrWrap ''failed to parse config'' e)
        | Inr (scheme, host) \<Rightarrow>
            (if scheme \<noteq> ''ss'' then Inl (ErrNew ''config must start with ss://'')
             else case lookup_ip host of
               Inl e \<Rightarrow> Inl (ErrWrap ''invalid server hostname'' e)
             | Inr ips \<Rightarrow>
                 (case List.map_filter to4 ips of
                    [] \<Rightarrow> Inl (ErrNew ''IPv6 only Shadowsocks server is not supported yet'')
                  | ip # _ \<Rightarrow> Inr ip)))"

record outline_device =
  od_pp :: outline_packet_proxy
  od_svrIP :: bytes

text \<open>The results of \<^verbatim>\<open>NewStreamDialer\<close> and of \<^verbatim>\<open>ConfigureDevice\<close>, \<open>None\<close> for success.\<close>

definition NewOutlineDevice ::
  "err + bytes \<Rightarrow> err option \<Rightarrow> err option \<Rightarrow> err option \<Rightarrow> err + outline_device" where
  "NewOutlineDevice resolved streams listener lwip =
     (case resolved of
        Inl e \<Rightarrow> Inl e
      | Inr ip \<Rightarrow>
     (case streams of
        Some e \<Rightarrow> Inl (ErrWrap ''failed to create TCP dialer'' e)
      | None \<Rightarrow>
     (case newOutlinePacketProxy listener of
        Inl e \<Rightarrow> Inl (ErrWrap ''failed to create delegate UDP proxy'' e)
      | Inr pp \<Rightarrow>
     (case lwip of
        Some e \<Rightarrow> Inl (ErrWrap ''failed to configure lwIP'' e)
      | None \<Rightarrow> Inr \<lparr>od_pp = pp, od_svrIP = ip\<rparr>))))"

definition device_Refresh :: "err + connectivity_error option \<Rightarrow> outline_device \<Rightarrow> outline_device \<times> err option" where
  "device_Refresh test d = (case testConnectivityAndRefresh test (od_pp d) of (p, e) \<Rightarrow> (d\<lparr>od_pp := p\<rparr>, e))"

section \<open>A run\<close>

text \<open>
  \<^verbatim>\<open>Run\<close> with its deferred calls, until the signal; \<open>device\<close> is the result of \<^verbatim>\<open>NewOutlineDevice\<close> with the address of the
  server as text. The result of \<^verbatim>\<open>Refresh\<close> is not used.
\<close>

definition close_tun :: "cli_system \<Rightarrow> cli_system" where "close_tun s = s\<lparr>sy_tun := False\<rparr>"
definition close_device :: "cli_system \<Rightarrow> cli_system" where "close_device s = s\<lparr>sy_device := False\<rparr>"

definition cli_Run :: "cli_env \<Rightarrow> tun_steps \<Rightarrow> err + string \<Rightarrow> routing_config \<Rightarrow> cli_system \<Rightarrow> cli_system \<times> err option" where
  "cli_Run E T device cfg s0 =
     (case newTunDevice E T (rc_tunName cfg) (rc_tunIP cfg) s0 of
        (s1, Some e) \<Rightarrow> (s1, Some (ErrWrap ''failed to create tun device'' e))
      | (s1, None) \<Rightarrow>
     (case enableIPv6 E False s1 of
        (s2, _, Some e) \<Rightarrow> (close_tun s2, Some (ErrWrap ''failed to disable IPv6'' e))
      | (s2, prevIPv6, None) \<Rightarrow>
     (let undo_ipv6 = (\<lambda>s. close_tun (fst (enableIPv6 E prevIPv6 s))) in
      case device of
        Inl e \<Rightarrow> (undo_ipv6 s2, Some (ErrWrap ''failed to create OutlineDevice'' e))
      | Inr serverIP \<Rightarrow>
     (let undo_device = (\<lambda>s. undo_ipv6 (close_device s)) in
      case setSystemDNSServer E (rc_dns cfg) (s2\<lparr>sy_device := True\<rparr>) of
        (s3, Some e) \<Rightarrow> (undo_device s3, Some (ErrWrap ''failed to configure system DNS'' e))
      | (s3, None) \<Rightarrow>
     (let undo_dns = (\<lambda>s. undo_device (restoreSystemDNSServer E s)) in
      case startRouting E serverIP cfg s3 of
        (s4, Some e) \<Rightarrow> (undo_dns s4, Some (ErrWrap ''failed to configure routing'' e))
      | (s4, None) \<Rightarrow> (undo_dns (stopRouting E (rc_table cfg) s4), None))))))"

section \<open>What a run leaves behind\<close>

definition file_calls_ok :: "cli_env \<Rightarrow> bool" where
  "file_calls_ok E \<longleftrightarrow> (\<forall>p. ce_stat E p = None \<and> ce_rename E p = None \<and> ce_write E p = None \<and> ce_remove E p = None)"

lemma file_calls_okD [simp]:
  assumes "file_calls_ok E"
  shows "file_stat E s p = Inr (sy_files s p \<noteq> None)"
    and "file_rename E s p q = (s\<lparr>sy_files := (sy_files s)(q := sy_files s p, p := None)\<rparr>, None)"
    and "file_write E s p d = (s\<lparr>sy_files := (sy_files s)(p \<mapsto> d)\<rparr>, None)" and "ce_remove E p = None"
  using assms by (simp_all add: file_calls_ok_def file_stat_def file_rename_def file_write_def)

text \<open>A file with its backup, while there is no other file with the name of the backup.\<close>

lemma backup_ok:
  "file_calls_ok E \<Longrightarrow> sy_files s backup = None \<Longrightarrow> original \<noteq> backup \<Longrightarrow>
   backupAndWriteFile E original backup data s
     = (s\<lparr>sy_files := (sy_files s)(backup := sy_files s original, original \<mapsto> data),
          sy_backups := sy_backups s @ [(original, backup)]\<rparr>, None)"
  by (cases s; cases "sy_files s original") (auto simp: backupAndWriteFile_def fun_upd_idem)

lemma restore_ok:
  "file_calls_ok E \<Longrightarrow> original \<noteq> backup \<Longrightarrow>
   restore_file E s (original, backup) = s\<lparr>sy_files := (sy_files s)(original := sy_files s backup, backup := None)\<rparr>"
  by (cases s; cases "sy_files s backup") (auto simp: restore_file_def fun_upd_idem fun_upd_twist)

lemma dns_names:
  "resolvConfFile \<noteq> resolvConfHeadFile" "resolvConfFile \<noteq> resolvConfBackupFile" "resolvConfFile \<noteq> resolvConfHeadBackupFile"
  "resolvConfHeadFile \<noteq> resolvConfBackupFile" "resolvConfHeadFile \<noteq> resolvConfHeadBackupFile" "resolvConfBackupFile \<noteq> resolvConfHeadBackupFile"
  "disableIPv6ProcFile \<notin> {resolvConfFile, resolvConfHeadFile, resolvConfBackupFile, resolvConfHeadBackupFile}"
  by (simp_all add: dns_files disableIPv6ProcFile_def)

text \<open>Both files hold the setting, and restoring gives every file back as it was.\<close>

definition dns_files_set :: "string \<Rightarrow> (string \<rightharpoonup> string) \<Rightarrow> (string \<rightharpoonup> string)" where
  "dns_files_set host m =
     m(resolvConfBackupFile := m resolvConfFile, resolvConfFile \<mapsto> dns_setting host,
       resolvConfHeadBackupFile := m resolvConfHeadFile, resolvConfHeadFile \<mapsto> dns_setting host)"

lemma dns_set_ok:
  assumes "file_calls_ok E" "sy_files s resolvConfBackupFile = None" "sy_files s resolvConfHeadBackupFile = None"
  shows "setSystemDNSServer E host s
    = (s\<lparr>sy_files := dns_files_set host (sy_files s),
         sy_backups := sy_backups s @ [(resolvConfFile, resolvConfBackupFile), (resolvConfHeadFile, resolvConfHeadBackupFile)]\<rparr>, None)"
proof -
  let ?s1 = "s\<lparr>sy_files := (sy_files s)(resolvConfBackupFile := sy_files s resolvConfFile, resolvConfFile \<mapsto> dns_setting host),
      sy_backups := sy_backups s @ [(resolvConfFile, resolvConfBackupFile)]\<rparr>"
  have h: "sy_files ?s1 resolvConfHeadBackupFile = None" "sy_files ?s1 resolvConfHeadFile = sy_files s resolvConfHeadFile"
    using assms(3) dns_names by simp_all
  show ?thesis
    using backup_ok [OF assms(1,2) dns_names(2)] backup_ok [OF assms(1) h(1) dns_names(5)] h(2)
    by (simp add: setSystemDNSServer_def dns_files_set_def)
qed

lemma dns_restore_ok:
  assumes "file_calls_ok E" "m resolvConfBackupFile = None" "m resolvConfHeadBackupFile = None"
    and "sy_files s = dns_files_set host m"
    and "sy_backups s = [(resolvConfFile, resolvConfBackupFile), (resolvConfHeadFile, resolvConfHeadBackupFile)]"
  shows "restoreSystemDNSServer E s = s\<lparr>sy_files := m\<rparr>"
proof -
  have "(dns_files_set host m)(resolvConfFile := m resolvConfFile, resolvConfBackupFile := None,
      resolvConfHeadFile := m resolvConfHeadFile, resolvConfHeadBackupFile := None) = m"
    using assms(2,3) dns_names by (auto simp: dns_files_set_def)
  then show ?thesis
    using assms dns_names restore_ok [OF assms(1) dns_names(2)] restore_ok [OF assms(1) dns_names(5)]
    by (simp add: restoreSystemDNSServer_def dns_files_set_def)
qed

text \<open>The IPv6 setting is written back with its rest.\<close>

lemma ipv6_ok:
  assumes "file_calls_ok E" "sy_files s disableIPv6ProcFile = Some (c # r)" "c = CHR ''0'' \<or> c = CHR ''1''"
  shows "enableIPv6 E on s = (s\<lparr>sy_files := (sy_files s)(disableIPv6ProcFile \<mapsto> (if on then CHR ''0'' else CHR ''1'') # r)\<rparr>, c = CHR ''0'', None)"
  using assms by (auto simp: enableIPv6_def)

text \<open>Routing leaves files, devices and backups alone.\<close>

definition same_rest :: "cli_system \<Rightarrow> cli_system \<Rightarrow> bool" where
  "same_rest s t \<longleftrightarrow> sy_files t = sy_files s \<and> sy_tun t = sy_tun s \<and> sy_device t = sy_device s \<and> sy_backups t = sy_backups s"

lemma route_dels_rest:
  "route_dels E rs e s = (t, e') \<Longrightarrow> same_rest s t \<and> sy_rules t = sy_rules s \<and> sy_ipRule t = sy_ipRule s"
  by (induction rs arbitrary: e s) (fastforce simp: same_rest_def split: option.splits)+

lemma setup_table_rest:
  "setupRoutingTable E cfg s = (t, e) \<Longrightarrow> same_rest s t \<and> sy_rules t = sy_rules s \<and> sy_ipRule t = sy_ipRule s
     \<and> (\<exists>rs. sy_routes t = sy_routes s @ rs \<and> (\<forall>r \<in> set rs. ro_table r = rc_table cfg))"
  by (auto simp: setupRoutingTable_def route_add_def same_rest_def split: sum.splits option.splits)

lemma clean_table_rest:
  "cleanUpRoutingTable E n s = (t, e) \<Longrightarrow> same_rest s t \<and> sy_rules t = sy_rules s \<and> sy_ipRule t = sy_ipRule s"
  by (auto simp: cleanUpRoutingTable_def same_rest_def split: option.splits dest: route_dels_rest)

lemma start_routing_rest:
  "startRouting E ip cfg s = (t, e) \<Longrightarrow> same_rest s t"
  by (auto simp: startRouting_def setupIpRule_def cleanUpRule_def Let_def same_rest_def
      split: sum.splits option.splits prod.splits dest!: setup_table_rest)

lemma stop_routing_rest: "same_rest s (stopRouting E n s)"
  using clean_table_rest [of E n s]
  by (cases "cleanUpRoutingTable E n s") (auto simp: stopRouting_def cleanUpRule_def same_rest_def split: option.splits)

lemma start_routing_rules:
  assumes "startRouting E ip cfg s = (t, e)" "ce_rule_del E = (\<lambda>_. None)" "\<forall>r \<in> set (sy_rules s). ru_table r \<noteq> rc_table cfg"
    and "sy_ipRule s = None"
  shows "if e = None then \<exists>r. sy_rules t = sy_rules s @ [r] \<and> sy_ipRule t = Some r \<and> ru_table r = rc_table cfg
         else sy_rules t = sy_rules s"
proof -
  obtain t1 e1 where t1: "setupRoutingTable E cfg s = (t1, e1)" by fastforce
  note rest = setup_table_rest [OF t1]
  have new: "remove1 r (sy_rules s) = sy_rules s" if "ru_table r = rc_table cfg" for r
    using assms(3) that by (intro remove1_idem) auto
  show ?thesis
  proof (cases e1)
    case (Some x)
    then show ?thesis using assms(1) t1 rest by (auto simp: startRouting_def)
  next
    case None
    then show ?thesis
      using assms(1,2,4) t1 rest new
      by (auto simp: startRouting_def setupIpRule_def cleanUpRule_def Let_def split: sum.splits option.splits if_splits)
  qed
qed

lemma stop_routing_rules:
  assumes "ce_rule_del E = (\<lambda>_. None)" "sy_rules s = rs @ [r]" "sy_ipRule s = Some r" "r \<notin> set rs"
  shows "sy_rules (stopRouting E n s) = rs"
proof -
  obtain t e where "cleanUpRoutingTable E n s = (t, e)" by fastforce
  then show ?thesis using assms clean_table_rest [of E n s t e] by (simp add: stopRouting_def cleanUpRule_def remove1_append)
qed

lemma route_dels_ok: "ce_route_del E = (\<lambda>_. None) \<Longrightarrow> sy_routes (fst (route_dels E rs e s)) = fold remove1 rs (sy_routes s)"
  by (induction rs arbitrary: e s) simp_all

lemma fold_remove1_suffix: "set rs \<inter> set old = {} \<Longrightarrow> fold remove1 rs (old @ rs) = old"
  by (induction rs) (simp_all add: remove1_append)

lemma routing_round_trip:
  assumes "startRouting E ip cfg s = (t, None)" "ce_route_del E = (\<lambda>_. None)" "ce_route_list E = None"
    and "\<forall>r \<in> set (sy_routes s). ro_table r \<noteq> rc_table cfg" "sy_routes t' = sy_routes t"
  shows "sy_routes (stopRouting E (rc_table cfg) t') = sy_routes s"
proof -
  obtain t1 where t1: "setupRoutingTable E cfg s = (t1, None)" "setupIpRule E (ip @ ''/32'') (rc_table cfg) (rc_priority cfg) t1 = (t, None)"
    using assms(1) by (auto simp: startRouting_def split: prod.splits option.splits)
  then have "sy_routes t = sy_routes t1" by (auto simp: setupIpRule_def Let_def split: sum.splits option.splits)
  then obtain rs where rs: "sy_routes t' = sy_routes s @ rs" "\<forall>r \<in> set rs. ro_table r = rc_table cfg"
    using setup_table_rest [OF t1(1)] assms(5) by auto
  have "filter (\<lambda>r. ro_table r = rc_table cfg) (sy_routes t') = rs"
    using rs assms(4) by (simp add: filter_id_conv [THEN iffD2] filter_empty_conv [THEN iffD2])
  then have "sy_routes (fst (cleanUpRoutingTable E (rc_table cfg) t')) = fold remove1 rs (sy_routes s @ rs)"
    using route_dels_ok [OF assms(2), of rs None t'] rs(1) assms(3) by (simp add: cleanUpRoutingTable_def)
  also have "\<dots> = sy_routes s" using rs(2) assms(4) by (intro fold_remove1_suffix) auto
  finally show ?thesis by (auto simp: stopRouting_def cleanUpRule_def split: option.splits)
qed

text \<open>
  If no call on files fails, a run of the client leaves every file as it was, the tunnel and the device closed, and the rules as
  they were, however the device, the tunnel and the routing go; and a run that ends with the signal leaves the routes as they were.
\<close>

theorem cli_run_restores:
  assumes ok: "file_calls_ok E" "ce_rule_del E = (\<lambda>_. None)"
    and fresh: "sy_files s0 resolvConfBackupFile = None" "sy_files s0 resolvConfHeadBackupFile = None" "sy_backups s0 = []"
      "\<not> sy_tun s0" "\<not> sy_device s0" "sy_ipRule s0 = None" "\<forall>r \<in> set (sy_rules s0). ru_table r \<noteq> rc_table cfg"
    and v6: "sy_files s0 disableIPv6ProcFile = Some (c # rest)" "c = CHR ''0'' \<or> c = CHR ''1''"
    and run: "cli_Run E T device cfg s0 = (s, e)"
  shows "sy_files s = sy_files s0 \<and> \<not> sy_tun s \<and> \<not> sy_device s \<and> sy_rules s = sy_rules s0
    \<and> (e = None \<and> ce_route_del E = (\<lambda>_. None) \<and> ce_route_list E = None \<and> (\<forall>r \<in> set (sy_routes s0). ro_table r \<noteq> rc_table cfg)
        \<longrightarrow> sy_routes s = sy_routes s0)"
proof -
  obtain s1 e1 where s1: "newTunDevice E T (rc_tunName cfg) (rc_tunIP cfg) s0 = (s1, e1)" by fastforce
  show ?thesis
  proof (cases e1)
    case (Some x)
    then show ?thesis using s1 run fresh by (auto simp: cli_Run_def newTunDevice_def Let_def split: if_splits option.splits sum.splits)
  next
    case None
    then have s1': "s1 = s0\<lparr>sy_tun := True\<rparr>" using s1 by (auto simp: newTunDevice_def Let_def split: if_splits option.splits sum.splits)
    let ?m = "(sy_files s0)(disableIPv6ProcFile \<mapsto> CHR ''1'' # rest)" and ?prev = "c = CHR ''0''"
    define s2 where "s2 = s1\<lparr>sy_files := ?m\<rparr>"
    have v: "enableIPv6 E False s1 = (s2, ?prev, None)" using ipv6_ok [OF ok(1) _ v6(2), of s1 rest] v6(1) by (simp add: s1' s2_def)
    define undo where "undo = (\<lambda>s. close_tun (fst (enableIPv6 E ?prev s)))"
    have undo: "sy_files (undo t) = sy_files s0 \<and> \<not> sy_tun (undo t) \<and> sy_device (undo t) = sy_device t
        \<and> sy_rules (undo t) = sy_rules t \<and> sy_routes (undo t) = sy_routes t" if "sy_files t = ?m" for t
    proof -
      have "(sy_files s0)(disableIPv6ProcFile \<mapsto> (if ?prev then CHR ''0'' else CHR ''1'') # rest) = sy_files s0"
        using v6 by (intro fun_upd_idem) auto
      then show ?thesis using ipv6_ok [OF ok(1), of t "CHR ''1''" rest ?prev] that by (simp add: undo_def close_tun_def)
    qed
    show ?thesis
    proof (cases device)
      case (Inl x)
      then have "s = undo s2" using run s1 None v by (simp add: cli_Run_def Let_def undo_def)
      then show ?thesis using undo [of s2] fresh by (auto simp: s2_def s1' cli_Run_def)
    next
      case (Inr ip)
      let ?s2 = "s2\<lparr>sy_device := True\<rparr>"
      obtain s3 where s3: "setSystemDNSServer E (rc_dns cfg) ?s2 = (s3, None)" "sy_files s3 = dns_files_set (rc_dns cfg) ?m"
        "sy_backups s3 = [(resolvConfFile, resolvConfBackupFile), (resolvConfHeadFile, resolvConfHeadBackupFile)]"
        "sy_rules s3 = sy_rules s0" "sy_routes s3 = sy_routes s0" "sy_ipRule s3 = None"
        using dns_set_ok [OF ok(1), of ?s2 "rc_dns cfg"] fresh dns_names by (auto simp: s2_def s1')
      obtain s4 e4 where s4: "startRouting E ip cfg s3 = (s4, e4)" by fastforce
      define s5 where "s5 = (if e4 = None then stopRouting E (rc_table cfg) s4 else s4)"
      have "same_rest s3 s5"
        using start_routing_rest [OF s4] stop_routing_rest [of s4 E "rc_table cfg"] by (auto simp: s5_def same_rest_def)
      then have s5: "restoreSystemDNSServer E s5 = s5\<lparr>sy_files := ?m\<rparr>"
        using dns_restore_ok [OF ok(1), of ?m s5 "rc_dns cfg"] s3 fresh dns_names by (auto simp: same_rest_def)
      have rules: "sy_rules s5 = sy_rules s0"
        using start_routing_rules [OF s4 ok(2)] stop_routing_rules [OF ok(2), of s4 "sy_rules s0" _ "rc_table cfg"] s3 fresh
        by (fastforce simp: s5_def split: if_splits)
      have s: "s = undo (close_device (s5\<lparr>sy_files := ?m\<rparr>))" and e: "e = None \<longleftrightarrow> e4 = None"
        using run s1 None v Inr s3(1) s4 s5 by (auto simp: cli_Run_def Let_def undo_def s5_def split: option.splits)
      have "sy_routes s5 = sy_routes s0" if "e = None" "ce_route_del E = (\<lambda>_. None)" "ce_route_list E = None"
          "\<forall>r \<in> set (sy_routes s0). ro_table r \<noteq> rc_table cfg"
        using routing_round_trip [of E ip cfg s3 s4 s4] s4 that s3 e by (simp add: s5_def)
      then show ?thesis using undo [of "close_device (s5\<lparr>sy_files := ?m\<rparr>)"] rules by (auto simp: s close_device_def)
    qed
  qed
qed

definition ok_env :: cli_env where
  "ok_env = \<lparr>ce_stat = \<lambda>_. None, ce_rename = \<lambda>_. None, ce_write = \<lambda>_. None, ce_remove = \<lambda>_. None, ce_link = \<lambda>_. Inr 7,
     ce_parse_net = \<lambda>s. Inr s, ce_route_add = \<lambda>_. None, ce_route_list = None, ce_route_del = \<lambda>_. None,
     ce_rule_add = \<lambda>_. None, ce_rule_del = \<lambda>_. None\<rparr>"

definition cli_config :: routing_config where
  "cli_config = \<lparr>rc_tunName = ''outline233'', rc_tunIP = ''10.233.233.1'', rc_gatewayCIDR = ''10.233.233.2/32'', rc_table = 233,
     rc_priority = 23333, rc_dns = ''9.9.9.9''\<rparr>"

definition a_system :: cli_system where
  "a_system = \<lparr>sy_files = [resolvConfFile \<mapsto> ''nameserver 8.8.8.8'', disableIPv6ProcFile \<mapsto> ''0''], sy_routes = [], sy_rules = [],
     sy_tun = False, sy_device = False, sy_backups = [], sy_ipRule = None\<rparr>"

lemma cli_run_restores_witness:
  "case cli_Run ok_env \<lparr>ts_new = None, ts_addr = None, ts_up = None\<rparr> (Inr ''192.0.2.1'') cli_config a_system of
     (s, e) \<Rightarrow> sy_files s = sy_files a_system \<and> \<not> sy_tun s \<and> \<not> sy_device s \<and> sy_rules s = []"
proof -
  obtain s e where run: "cli_Run ok_env \<lparr>ts_new = None, ts_addr = None, ts_up = None\<rparr> (Inr ''192.0.2.1'') cli_config a_system = (s, e)"
    by fastforce
  have env: "file_calls_ok ok_env" "ce_rule_del ok_env = (\<lambda>_. None)" by (simp_all add: file_calls_ok_def ok_env_def)
  have sys: "sy_files a_system resolvConfBackupFile = None" "sy_files a_system resolvConfHeadBackupFile = None"
    "sy_files a_system disableIPv6ProcFile = Some [CHR ''0'']" "sy_rules a_system = []" "sy_backups a_system = []"
    "\<not> sy_tun a_system" "\<not> sy_device a_system" "sy_ipRule a_system = None"
    by (simp_all add: a_system_def dns_files disableIPv6ProcFile_def)
  show ?thesis
    using cli_run_restores [OF env sys(1,2,5-8) _ sys(3) _ run] run sys(4) by simp
qed

text \<open>
  But if the second of the two DNS files cannot be written, \<^verbatim>\<open>Run\<close> returns before it has deferred the restoring: the first one
  keeps the setting of the client, and its content stays under the name of the backup.
\<close>

lemma cli_run_dns_failure:
  assumes "ce_stat E = (\<lambda>_. None)" "ce_rename E = (\<lambda>_. None)" "ce_write E = (\<lambda>p. if p = resolvConfHeadFile then Some (x, None) else None)"
    and "newTunDevice E T (rc_tunName cfg) (rc_tunIP cfg) s0 = (s1, None)" "sy_files s1 disableIPv6ProcFile = Some (CHR ''0'' # rest)"
    and "sy_files s1 resolvConfFile = Some old" "device = Inr ip"
    and "cli_Run E T device cfg s0 = (s, e)"
  shows "e = Some (ErrWrap ''failed to configure system DNS'' (ErrWrap ''failed to write DNS config file'' x))
    \<and> sy_files s resolvConfFile = Some (dns_setting (rc_dns cfg)) \<and> sy_files s resolvConfBackupFile = Some old"
  using assms dns_names
  by (cases "sy_files s1 resolvConfHeadFile")
     (auto simp: cli_Run_def enableIPv6_def file_write_def file_stat_def file_rename_def setSystemDNSServer_def backupAndWriteFile_def
       close_tun_def close_device_def Let_def)

text \<open>
  And a run that follows one that was killed takes the setting for the original: it moves it over the backup, so that the
  content of the file is lost.
\<close>

lemma cli_second_run_loses_original:
  assumes "file_calls_ok E" "sy_files s resolvConfBackupFile = None" "sy_files s resolvConfHeadBackupFile = None" "sy_backups s = []"
    and "setSystemDNSServer E host s = (s1, None)"
    and "setSystemDNSServer E host (s1\<lparr>sy_backups := []\<rparr>) = (s2, e)"
  shows "e = None \<and> sy_files (restoreSystemDNSServer E s2) resolvConfFile = Some (dns_setting host)
    \<and> sy_files (restoreSystemDNSServer E s2) resolvConfBackupFile = None"
proof -
  have s1: "s1 = s\<lparr>sy_files := dns_files_set host (sy_files s),
      sy_backups := [(resolvConfFile, resolvConfBackupFile), (resolvConfHeadFile, resolvConfHeadBackupFile)]\<rparr>"
    using dns_set_ok [OF assms(1-3), of host] assms(4,5) by simp
  show ?thesis
    using assms(6) dns_names
    by (auto simp: s1 setSystemDNSServer_def backupAndWriteFile_def assms(1) dns_files_set_def restoreSystemDNSServer_def restore_file_def)
qed

text \<open>
  The packet proxy sends new sessions to the server exactly when the last test that could be made found that it carries UDP, and
  truncates DNS before the first one.
\<close>

lemma packet_proxy_follows_tests:
  "newOutlinePacketProxy None = Inr p \<Longrightarrow>
   op_current (foldl (\<lambda>p t. fst (testConnectivityAndRefresh t p)) p ts)
     = last (TruncatingProxy # map (\<lambda>r. if r = None then RemoteProxy else TruncatingProxy)
         (List.map_filter (\<lambda>t. case t of Inl _ \<Rightarrow> None | Inr r \<Rightarrow> Some r) ts))"
proof (induction ts rule: rev_induct)
  case (snoc t ts)
  then show ?case
    by (cases t) (auto simp: testConnectivityAndRefresh_def delegate_proxy_set_def map_filter_def split: option.splits)
qed (auto simp: newOutlinePacketProxy_def new_listener_proxy_def new_listener_relay_def delegate_proxy_new_def map_filter_def)

end
