(* ===== verification/ConnectivityTool.thy ===== *)
theory ConnectivityTool
  imports Connectivity Report GoStrings
begin

text \<open>
  The command \<^verbatim>\<open>test-connectivity\<close> (\<^verbatim>\<open>x/tools/test-connectivity/main.go\<close>): the records of its reports, what the trace of a dial
  adds to them, and the two loops over resolvers and protocols, with the exit status. The lemmas say which tests are made and
  reported, and what the exit status says about them.
\<close>

section \<open>Reports\<close>

record error_json =
  ej_op :: string
  ej_posix :: string
  ej_msg :: string

record dns_report =
  dr_name :: string
  dr_time :: nat
  dr_ms :: nat
  dr_ips :: "string list"
  dr_error :: string

record tcp_report =
  tr_hostname :: string
  tr_ip :: string
  tr_port :: string
  tr_error :: string

record test_report =
  te_resolver :: string
  te_proto :: string
  te_transport :: string
  te_time :: nat
  te_ms :: nat
  te_error :: "error_json option"

record connectivity_report =
  cr_test :: test_report
  cr_dns :: "dns_report list"
  cr_tcp :: "tcp_report list"

text \<open>\<^verbatim>\<open>errors.Unwrap\<close> until there is nothing to unwrap; it does not look into joined errors.\<close>

fun unwrapAll :: "err \<Rightarrow> err" where
  "unwrapAll (ErrWrap m e) = unwrapAll e"
| "unwrapAll (ErrNested i e) = unwrapAll e"
| "unwrapAll e = e"

text \<open>\<open>msg\<close> is the method \<^verbatim>\<open>Error\<close>.\<close>

definition makeErrorRecord :: "(err \<Rightarrow> string) \<Rightarrow> connectivity_error option \<Rightarrow> error_json option" where
  "makeErrorRecord msg result =
     (case result of
        None \<Rightarrow> None
      | Some e \<Rightarrow> Some \<lparr>ej_op = ce_op e, ej_posix = ce_posix e, ej_msg = msg (unwrapAll (ce_err e))\<rparr>)"

definition IsSuccess :: "connectivity_report \<Rightarrow> bool" where
  "IsSuccess r = (if te_error (cr_test r) = None then True else False)"

section \<open>The trace of a dial\<close>

text \<open>
  The callbacks of \<^verbatim>\<open>httptrace\<close>, with the time of the clock in milliseconds; \<open>tc_done\<close> is the callback \<^verbatim>\<open>onDNSDone\<close>, if it is set, with
  the name and the time that it holds.
\<close>

datatype trace_event = DNSStart nat string | DNSDone nat "string list" "err option" | ConnectDone string "err option"

record dial_trace =
  tc_done :: "(string \<times> nat) option"
  tc_dns :: "dns_report list"
  tc_tcp :: "tcp_report list"

definition error_text :: "(err \<Rightarrow> string) \<Rightarrow> err option \<Rightarrow> string" where
  "error_text msg e = (case e of None \<Rightarrow> [] | Some x \<Rightarrow> msg x)"

definition on_dns_done :: "(err \<Rightarrow> string) \<Rightarrow> nat \<Rightarrow> string list \<Rightarrow> err option \<Rightarrow> string \<times> nat \<Rightarrow> dns_report" where
  "on_dns_done msg now ips e d =
     \<lparr>dr_name = fst d, dr_time = snd d div 1000, dr_ms = now - snd d, dr_ips = ips, dr_error = error_text msg e\<rparr>"

definition on_dial :: "(err \<Rightarrow> string) \<Rightarrow> string \<Rightarrow> string \<Rightarrow> err option \<Rightarrow> dial_trace \<Rightarrow> dial_trace" where
  "on_dial msg hostname addr e s =
     (case split_host_port addr of
        Inl _ \<Rightarrow> s
      | Inr (ip, port) \<Rightarrow>
          s\<lparr>tc_tcp := tc_tcp s @ [\<lparr>tr_hostname = hostname, tr_ip = ip, tr_port = port, tr_error = error_text msg e\<rparr>]\<rparr>)"

fun udp_trace :: "(err \<Rightarrow> string) \<Rightarrow> dial_trace \<Rightarrow> trace_event \<Rightarrow> dial_trace" where
  "udp_trace msg s (DNSStart now domain) = s\<lparr>tc_done := Some (domain, now)\<rparr>"
| "udp_trace msg s (DNSDone now ips e) =
     (case tc_done s of
        None \<Rightarrow> s
      | Some d \<Rightarrow> s\<lparr>tc_dns := tc_dns s @ [on_dns_done msg now ips e d], tc_done := None\<rparr>)"
| "udp_trace msg s (ConnectDone addr e) = s"

fun tcp_trace :: "(err \<Rightarrow> string) \<Rightarrow> string \<Rightarrow> dial_trace \<Rightarrow> trace_event \<Rightarrow> dial_trace" where
  "tcp_trace msg hostname s (DNSStart now domain) = s\<lparr>tc_done := Some (domain, now)\<rparr>"
| "tcp_trace msg hostname s (DNSDone now ips e) =
     (case tc_done s of
        None \<Rightarrow> s
      | Some d \<Rightarrow> s\<lparr>tc_dns := tc_dns s @ [on_dns_done msg now ips e d], tc_done := None\<rparr>)"
| "tcp_trace msg hostname s (ConnectDone addr e) = on_dial msg hostname addr e s"

text \<open>
  One dial of a base dialer: the callback of the trace belongs to the dial, the reports to the test. The events are those of the
  dialer under it, for the address; a stream is not dialed at an address without a port.
\<close>

definition base_dial_packet :: "(err \<Rightarrow> string) \<Rightarrow> trace_event list \<Rightarrow> dial_trace \<Rightarrow> dial_trace" where
  "base_dial_packet msg events s = (foldl (udp_trace msg) (s\<lparr>tc_done := None\<rparr>) events)\<lparr>tc_done := None\<rparr>"

definition base_dial_stream :: "(err \<Rightarrow> string) \<Rightarrow> string \<Rightarrow> trace_event list \<Rightarrow> dial_trace \<Rightarrow> dial_trace \<times> err option" where
  "base_dial_stream msg addr events s =
     (case split_host_port addr of
        Inl e \<Rightarrow> (s, Some e)
      | Inr (hostname, _) \<Rightarrow> ((foldl (tcp_trace msg hostname) (s\<lparr>tc_done := None\<rparr>) events)\<lparr>tc_done := None\<rparr>, None))"

section \<open>The tests\<close>

text \<open>
  What a test sees: the time of its start and its duration in milliseconds, the trace of its dials, and the result of
  \<^verbatim>\<open>TestConnectivityWithResolver\<close>.
\<close>

record tool_obs =
  ob_start :: nat
  ob_ms :: nat
  ob_trace :: dial_trace
  ob_result :: "err + connectivity_error option"

text \<open>
  The rest of the run: the error of \<^verbatim>\<open>NewStreamDialer\<close> and of \<^verbatim>\<open>NewPacketDialer\<close> for the transport, what \<^verbatim>\<open>SanitizeConfig\<close> gives for
  it, and the tests by resolver.
\<close>

record tool_env =
  tv_stream :: "err option"
  tv_packet :: "err option"
  tv_sanitized :: "err + string"
  tv_obs :: "resolver \<Rightarrow> tool_obs"
  tv_msg :: "err \<Rightarrow> string"

definition tool_resolver :: "tool_env \<Rightarrow> string \<Rightarrow> string \<Rightarrow> resolver option" where
  "tool_resolver E proto resolverAddress =
     (if proto = ''tcp'' then case tv_stream E of Some e \<Rightarrow> None | None \<Rightarrow> Some (NewTCPResolver resolverAddress)
      else if proto = ''udp'' then case tv_packet E of Some e \<Rightarrow> None | None \<Rightarrow> Some (NewUDPResolver resolverAddress)
      else None)"

text \<open>
  One round of the inner loop: \<open>None\<close> is \<^verbatim>\<open>os.Exit(1)\<close>; otherwise whether the test passed, and the state of the collector after its
  report. The error of the collector is only logged.
\<close>

definition tool_report :: "tool_env \<Rightarrow> string \<Rightarrow> string \<Rightarrow> string \<Rightarrow> resolver \<Rightarrow> connectivity_error option \<Rightarrow> connectivity_report" where
  "tool_report E transport resolverAddress proto r result =
     (let ob = tv_obs E r in
      \<lparr>cr_test = \<lparr>te_resolver = resolverAddress, te_proto = proto, te_transport = transport, te_time = ob_start ob div 1000,
                   te_ms = ob_ms ob, te_error = makeErrorRecord (tv_msg E) result\<rparr>,
       cr_dns = tc_dns (ob_trace ob), cr_tcp = tc_tcp (ob_trace ob)\<rparr>)"

definition tool_test ::
  "tool_env \<Rightarrow> ('s, connectivity_report) collector \<Rightarrow> string \<Rightarrow> string \<Rightarrow> 's \<Rightarrow> ('s \<times> bool) option" where
  "tool_test E collect resolverAddress proto s =
     (case tool_resolver E proto resolverAddress of
        None \<Rightarrow> None
      | Some r \<Rightarrow>
          (case ob_result (tv_obs E r) of
             Inl e \<Rightarrow> None
           | Inr result \<Rightarrow>
               (case tv_sanitized E of
                  Inl e \<Rightarrow> None
                | Inr transport \<Rightarrow> Some (fst (collect s (tool_report E transport resolverAddress proto r result)), result = None))))"

text \<open>The loops. The inner one ends with \<open>None\<close> at an \<^verbatim>\<open>os.Exit(1)\<close>, the outer one with whether the status is 0.\<close>

fun tool_protos ::
  "tool_env \<Rightarrow> ('s, connectivity_report) collector \<Rightarrow> string \<Rightarrow> string list \<Rightarrow> 's \<Rightarrow> bool \<Rightarrow> 's \<times> bool option" where
  "tool_protos E collect addr [] s success = (s, Some success)"
| "tool_protos E collect addr (proto # ps) s success =
     (case tool_test E collect addr (trim_space proto) s of
        None \<Rightarrow> (s, None)
      | Some (s', ok) \<Rightarrow> tool_protos E collect addr ps s' (success \<or> ok))"

fun tool_resolvers ::
  "tool_env \<Rightarrow> ('s, connectivity_report) collector \<Rightarrow> string list \<Rightarrow> string list \<Rightarrow> 's \<Rightarrow> bool \<Rightarrow> 's \<times> bool" where
  "tool_resolvers E collect protos [] s success = (s, True)"
| "tool_resolvers E collect protos (host # hs) s success =
     (case tool_protos E collect (join_host_port (trim_space host) ''53'') protos s success of
        (s', None) \<Rightarrow> (s', False)
      | (s', Some success') \<Rightarrow> if \<not> success' then (s', False) else tool_resolvers E collect protos hs s' success')"

definition test_connectivity ::
  "tool_env \<Rightarrow> ('s, connectivity_report) collector \<Rightarrow> string \<Rightarrow> string \<Rightarrow> 's \<Rightarrow> 's \<times> bool" where
  "test_connectivity E collect resolverFlag protoFlag s =
     tool_resolvers E collect (split_on CHR '','' protoFlag) (split_on CHR '','' resolverFlag) s False"

text \<open>The collector for a URL: the flags with the rates must be between 0 and 1. \<open>rand\<close> is the random number.\<close>

definition rates_ok :: "rat \<Rightarrow> rat \<Rightarrow> bool" where
  "rates_ok successRate failureRate \<longleftrightarrow> \<not> (successRate < 0 \<or> successRate > 1) \<and> \<not> (failureRate < 0 \<or> failureRate > 1)"

definition url_collector ::
  "(connectivity_report \<Rightarrow> err + bytes) \<Rightarrow> ('s \<Rightarrow> bytes \<Rightarrow> 's \<times> (err + nat \<times> err option)) \<Rightarrow> rat \<Rightarrow> rat \<Rightarrow> rat
   \<Rightarrow> ('s \<times> int list, connectivity_report) collector" where
  "url_collector marshal post successRate failureRate rand =
     sampling_collect (retry_collect (remote_collect marshal post) 3 1000000000) successRate failureRate (\<lambda>r. Some (IsSuccess r)) rand"

section \<open>Properties\<close>

text \<open>A DNS report belongs to the query that started last: a \<^verbatim>\<open>DNSDone\<close> without a start adds nothing.\<close>

lemma trace_needs_start: "tc_done s = None \<Longrightarrow> udp_trace msg s (DNSDone now ips e) = s \<and> tcp_trace msg h s (DNSDone now ips e) = s"
  by simp

text \<open>The message of a report is of an error that wraps no other.\<close>

lemma unwrapAll_end: "\<not> (\<exists>m x. unwrapAll e = ErrWrap m x) \<and> \<not> (\<exists>i x. unwrapAll e = ErrNested i x)"
  by (induction e) auto

lemma report_success: "IsSuccess (tool_report E transport addr proto r result) \<longleftrightarrow> result = None"
  by (simp add: IsSuccess_def tool_report_def makeErrorRecord_def Let_def split: option.split)

text \<open>If every test can run, the report of a test, and whether it passes.\<close>

definition tool_runs :: "tool_env \<Rightarrow> string list \<Rightarrow> bool" where
  "tool_runs E protos \<longleftrightarrow> tv_stream E = None \<and> tv_packet E = None \<and> (\<exists>t. tv_sanitized E = Inr t)
     \<and> (\<forall>r. \<exists>x. ob_result (tv_obs E r) = Inr x) \<and> (\<forall>p \<in> set protos. trim_space p \<in> {''tcp'', ''udp''})"

definition test_of :: "tool_env \<Rightarrow> string \<Rightarrow> string \<Rightarrow> connectivity_report" where
  "test_of E host proto =
     (let addr = join_host_port (trim_space host) ''53''; p = trim_space proto;
          r = the (tool_resolver E p addr) in
      tool_report E (projr (tv_sanitized E)) addr p r (projr (ob_result (tv_obs E r))))"

abbreviation collected :: "('s, 'r) collector \<Rightarrow> 's \<Rightarrow> 'r list \<Rightarrow> 's" where
  "collected collect s rs \<equiv> foldl (\<lambda>s r. fst (collect s r)) s rs"

lemma tool_test_runs:
  assumes "tool_runs E protos" "p \<in> set protos"
  shows "tool_test E collect (join_host_port (trim_space host) ''53'') (trim_space p) s
    = Some (fst (collect s (test_of E host p)), IsSuccess (test_of E host p))"
proof -
  obtain r where r: "tool_resolver E (trim_space p) (join_host_port (trim_space host) ''53'') = Some r"
    using assms by (auto simp: tool_runs_def tool_resolver_def)
  obtain x where "ob_result (tv_obs E r) = Inr x" using assms(1) unfolding tool_runs_def by blast
  moreover obtain t where "tv_sanitized E = Inr t" using assms(1) unfolding tool_runs_def by blast
  ultimately show ?thesis using r by (simp add: tool_test_def test_of_def report_success Let_def)
qed

lemma tool_protos_runs:
  assumes "tool_runs E protos" "set ps \<subseteq> set protos"
  shows "tool_protos E collect (join_host_port (trim_space host) ''53'') ps s success
    = (collected collect s (map (test_of E host) ps), Some (success \<or> (\<exists>p \<in> set ps. IsSuccess (test_of E host p))))"
  using assms(2) by (induction ps arbitrary: s success) (auto simp: tool_test_runs [OF assms(1)])

lemma tool_resolvers_success:
  assumes "tool_runs E protos"
  shows "tool_resolvers E collect protos hs s True
    = (collected collect s (concat (map (\<lambda>h. map (test_of E h) protos) hs)), True)"
proof (induction hs arbitrary: s)
  case (Cons h hs)
  show ?case
    using Cons.IH tool_protos_runs [OF assms, of protos collect h s True] by simp
qed simp

text \<open>
  The status of a run is that of the first resolver: it is 0 if the test with one of the protocols passes, whatever becomes of
  the tests with the others; if none passes, the resolvers after the first are not tested, although the flag names two.
\<close>

theorem tool_verdict:
  assumes runs: "tool_runs E (split_on CHR '','' protoFlag)" and hosts: "split_on CHR '','' resolverFlag = host # hs"
  shows "test_connectivity E collect resolverFlag protoFlag s =
    (let protos = split_on CHR '','' protoFlag; tests = (\<lambda>h. map (test_of E h) protos) in
     if \<exists>r \<in> set (tests host). IsSuccess r then (collected collect s (concat (map tests (host # hs))), True)
     else (collected collect s (tests host), False))"
  using tool_protos_runs [OF runs order_refl, of collect host s False] tool_resolvers_success [OF runs, of collect hs]
  by (auto simp: test_connectivity_def hosts Let_def)

text \<open>A collector that keeps the reports, for the run with the default flags on a network with IPv6 only.\<close>

definition v6_env :: tool_env where
  "v6_env = \<lparr>tv_stream = None, tv_packet = None, tv_sanitized = Inr [],
     tv_obs = (\<lambda>r. \<lparr>ob_start = 0, ob_ms = 1, ob_trace = \<lparr>tc_done = None, tc_dns = [], tc_tcp = []\<rparr>,
       ob_result = Inr (if r \<in> {TCPResolver ''[2001:4860:4860::8888]:53'', UDPResolver ''[2001:4860:4860::8888]:53''} then None
         else Some \<lparr>ce_op = ''connect'', ce_posix = ''ENETUNREACH'', ce_err = ErrNew ''network is unreachable''\<rparr>)\<rparr>),
     tv_msg = (\<lambda>_. ''network is unreachable'')\<rparr>"

definition kept :: "('r list, 'r) collector" where "kept s r = (s @ [r], None)"

lemma tool_verdict_witness:
  "snd (test_connectivity v6_env kept ''8.8.8.8,2001:4860:4860::8888'' ''tcp,udp'' []) = False
   \<and> snd (test_connectivity v6_env kept ''2001:4860:4860::8888,8.8.8.8'' ''tcp,udp'' []) = True
   \<and> length (fst (test_connectivity v6_env kept ''8.8.8.8,2001:4860:4860::8888'' ''tcp,udp'' [])) = 2"
proof -
  have runs: "tool_runs v6_env (split_on CHR '','' ''tcp,udp'')"
    by (auto simp: tool_runs_def v6_env_def trim_space_def is_space_def)
  have a: "split_on CHR '','' ''8.8.8.8,2001:4860:4860::8888'' = [''8.8.8.8'', ''2001:4860:4860::8888'']" by simp
  have b: "split_on CHR '','' ''2001:4860:4860::8888,8.8.8.8'' = [''2001:4860:4860::8888'', ''8.8.8.8'']" by simp
  have fails: "\<not> IsSuccess (test_of v6_env ''8.8.8.8'' p)" if "p \<in> {''tcp'', ''udp''}" for p
    using that by (auto simp: test_of_def report_success v6_env_def tool_resolver_def Let_def NewTCPResolver_def NewUDPResolver_def
        ensurePort_def join_host_port_def trim_space_def is_space_def split_host_port_def last_index_def)
  have passes: "IsSuccess (test_of v6_env ''2001:4860:4860::8888'' ''tcp'')"
    by (simp add: test_of_def report_success v6_env_def tool_resolver_def Let_def NewTCPResolver_def
        ensurePort_def join_host_port_def trim_space_def is_space_def split_host_port_def last_index_def)
  show ?thesis
    using tool_verdict [OF runs a, of kept "[]"] tool_verdict [OF runs b, of kept "[]"] fails passes
    by (simp add: Let_def kept_def)
qed

end
