(* ===== verification/NetTools.thy ===== *)
theory NetTools
  imports GoStrings Dns
begin

text \<open>
  The commands \<^verbatim>\<open>fetch\<close>, \<^verbatim>\<open>fetch-speed\<close> and \<^verbatim>\<open>resolve\<close> (\<^verbatim>\<open>x/tools\<close>): the address that a fetch dials, the client that it makes for
  the HTTP version, and the lines that a lookup prints. HTTP itself and the flags' parser are libraries.
\<close>

section \<open>fetch: the address\<close>

definition overrideAddress :: "string \<Rightarrow> string \<Rightarrow> string \<Rightarrow> err + string" where
  "overrideAddress original newHost newPort =
     (case split_host_port original of
        Inl e \<Rightarrow> Inl (ErrWrap ''invalid address'' e)
      | Inr (host, port) \<Rightarrow>
          Inr (join_host_port (if newHost \<noteq> [] then newHost else host) (if newPort \<noteq> [] then newPort else port)))"

text \<open>The two overrides from the flag: what does not parse is taken for a host.\<close>

definition address_flag :: "string \<Rightarrow> string \<times> string" where
  "address_flag addressFlag =
     (if addressFlag = [] then ([], [])
      else case split_host_port addressFlag of Inl _ \<Rightarrow> (addressFlag, []) | Inr hp \<Rightarrow> hp)"

definition fetch_dialContext :: "(string \<Rightarrow> err + 'c) \<Rightarrow> string \<times> string \<Rightarrow> string \<Rightarrow> string \<Rightarrow> err + 'c" where
  "fetch_dialContext dial override network addr =
     (case overrideAddress addr (fst override) (snd override) of
        Inl e \<Rightarrow> Inl (ErrWrap ''invalid address'' e)
      | Inr addressToDial \<Rightarrow>
          (if \<not> has_prefix network ''tcp'' then Inl (ErrNew (''protocol not supported: '' @ network)) else dial addressToDial))"

text \<open>With HTTP/3: \<open>resolve\<close> is \<^verbatim>\<open>ResolveUDPAddr\<close> and \<open>early\<close> is \<^verbatim>\<open>DialEarly\<close> of the QUIC transport.\<close>

definition fetch_dial_quic :: "(string \<Rightarrow> err + 'u) \<Rightarrow> ('u \<Rightarrow> err + 'c) \<Rightarrow> string \<times> string \<Rightarrow> string \<Rightarrow> err + 'c" where
  "fetch_dial_quic resolve early override addr =
     (case overrideAddress addr (fst override) (snd override) of
        Inl e \<Rightarrow> Inl (ErrWrap ''invalid address'' e)
      | Inr addressToDial \<Rightarrow> (case resolve addressToDial of Inl e \<Rightarrow> Inl e | Inr udpAddr \<Rightarrow> early udpAddr))"

section \<open>fetch: the client\<close>

text \<open>The protocols offered in TLS, whether HTTP/2 is forced, or HTTP/3 over a QUIC transport.\<close>

datatype http_transport = StreamHTTP "string list" bool | QuicHTTP

text \<open>
  The client for the flag \<^verbatim>\<open>-proto\<close>, \<open>None\<close> for \<^verbatim>\<open>os.Exit(1)\<close>; the errors are those of \<^verbatim>\<open>NewStreamDialer\<close>, \<^verbatim>\<open>NewPacketListener\<close> and
  \<^verbatim>\<open>ListenPacket\<close>.
\<close>

definition fetch_transport :: "string \<Rightarrow> err option \<Rightarrow> err option \<Rightarrow> err option \<Rightarrow> http_transport option" where
  "fetch_transport proto stream listener packetConn =
     (if proto = ''h1'' \<or> proto = ''h2'' then
        (case stream of
           Some e \<Rightarrow> None
         | None \<Rightarrow> Some (if proto = ''h1'' then StreamHTTP [''http/1.1''] False else StreamHTTP [''h2''] True))
      else if proto = ''h3'' then
        (case listener of
           Some e \<Rightarrow> None
         | None \<Rightarrow> (case packetConn of Some e \<Rightarrow> None | None \<Rightarrow> Some QuicHTTP))
      else None)"

definition crlf :: string where "crlf = [char_of (13 :: nat), char_of (10 :: nat)]"

definition header_text :: "string list \<Rightarrow> string" where
  "header_text headers = join_with crlf headers @ crlf @ crlf"

section \<open>fetch-speed\<close>

definition speed_dialContext :: "(string \<Rightarrow> err + 'c) \<Rightarrow> string \<Rightarrow> string \<Rightarrow> err + 'c" where
  "speed_dialContext dial network addr =
     (case split_host_port addr of
        Inl e \<Rightarrow> Inl (ErrWrap ''invalid address'' e)
      | Inr (host, port) \<Rightarrow>
          (if \<not> has_prefix network ''tcp'' then Inl (ErrNew (''protocol not supported: '' @ network)) else dial (join_host_port host port)))"

section \<open>resolve\<close>

definition cut_prefix :: "string \<Rightarrow> string \<Rightarrow> string" where
  "cut_prefix s p = (if has_prefix s p then drop (length p) s else s)"

text \<open>On the text of the code, which the message library gives.\<close>

definition rcodeToString :: "string \<Rightarrow> string" where
  "rcodeToString rcode = cut_prefix (map upper_char rcode) ''RCODE''"

definition query_type :: "string \<Rightarrow> nat option" where
  "query_type typeFlag =
     (let t = map upper_char typeFlag in
      if t = ''A'' then Some 1 else if t = ''AAAA'' then Some 28 else if t = ''CNAME'' then Some 5
      else if t = ''NS'' then Some 2 else if t = ''SOA'' then Some 6 else if t = ''TXT'' then Some 16 else None)"

text \<open>
  A run prints lines and ends with the status 0, or logs a fatal error. \<open>dialer\<close> is the error of the dialer that the flag \<^verbatim>\<open>-tcp\<close>
  picks, \<open>query\<close> the resolver, \<open>rcode_text\<close> the name of a code, and \<open>body_text\<close> the text of a record.
\<close>

definition resolve_main ::
  "'b dns_lib \<Rightarrow> err option \<Rightarrow> (resolver \<Rightarrow> question \<Rightarrow> err + dns_msg) \<Rightarrow> (nat \<Rightarrow> string) \<Rightarrow> (rr_body \<Rightarrow> string)
   \<Rightarrow> string \<Rightarrow> string \<Rightarrow> bool \<Rightarrow> string \<Rightarrow> err + string list" where
  "resolve_main L dialer query rcode_text body_text arg resolverFlag tcpFlag typeFlag =
     (let domain = trim_space arg in
      if domain = [] then Inl (ErrNew ''Need to pass the domain to resolve in the command-line'')
      else case dialer of
        Some e \<Rightarrow> Inl (ErrWrap ''Could not create dialer'' e)
      | None \<Rightarrow>
     (let resolver = (if tcpFlag then NewTCPResolver resolverFlag else NewUDPResolver resolverFlag) in
      case query_type typeFlag of
        None \<Rightarrow> Inl (ErrNew (''Unsupported query type '' @ typeFlag))
      | Some t \<Rightarrow>
     (case NewQuestion L domain t of
        Inl e \<Rightarrow> Inl (ErrWrap ''Question creation failed'' e)
      | Inr q \<Rightarrow>
     (case query resolver q of
        Inl e \<Rightarrow> Inl (ErrWrap ''Query failed'' e)
      | Inr r \<Rightarrow>
          (if h_rcode (m_hdr r) \<noteq> 0 then Inl (ErrNew (''Got response code '' @ rcodeToString (rcode_text (h_rcode (m_hdr r)))))
           else Inr (map (\<lambda>a. body_text (rr_body a)) (filter (\<lambda>a. rr_type a = t) (m_answers r))))))))"

section \<open>Properties\<close>

text \<open>A host without brackets and a port: what is dialed has the host and port of the flag, and those of the URL where the flag has none.\<close>

definition plain_host :: "string \<Rightarrow> bool" where
  "plain_host h \<longleftrightarrow> CHR ''['' \<notin> set h \<and> CHR '']'' \<notin> set h"

definition plain_port :: "string \<Rightarrow> bool" where
  "plain_port p \<longleftrightarrow> CHR '':'' \<notin> set p \<and> CHR ''['' \<notin> set p \<and> CHR '']'' \<notin> set p"

lemma split_join_plain: "plain_host h \<Longrightarrow> plain_port p \<Longrightarrow> split_host_port (join_host_port h p) = Inr (h, p)"
  by (simp add: plain_host_def plain_port_def split_join_host_port)

lemma override_dials:
  assumes "plain_host host" "plain_port port" "plain_host h" "plain_port p"
  shows "\<exists>a. overrideAddress (join_host_port host port) h p = Inr a
    \<and> split_host_port a = Inr (if h = [] then host else h, if p = [] then port else p)"
  using assms by (simp add: overrideAddress_def split_join_plain)

lemma address_flag_port: "plain_host h \<Longrightarrow> plain_port p \<Longrightarrow> address_flag (join_host_port h p) = (h, p)"
  by (simp add: address_flag_def split_join_plain) (simp add: join_host_port_def)

text \<open>An address of IPv6 without a port is taken for a host: bare it can be dialed, in the brackets of a URL it cannot.\<close>

lemma bracketed_override_fails:
  "fetch_dialContext (\<lambda>a. case split_host_port a of Inl e \<Rightarrow> Inl e | Inr hp \<Rightarrow> Inr hp) (address_flag ''::1'') ''tcp'' ''example.com:443''
     = Inr (''::1'', ''443'')
   \<and> fetch_dialContext Inr (address_flag ''[::1]'') ''tcp'' ''example.com:443'' = Inr ''[[::1]]:443''
   \<and> (\<exists>e. split_host_port ''[[::1]]:443'' = Inl e)"
  by (simp add: address_flag_def fetch_dialContext_def overrideAddress_def split_host_port_def join_host_port_def last_index_def
      addr_err_def has_prefix_def Let_def)

text \<open>Splitting and joining the address again leaves it alone.\<close>

lemma speed_dials_address:
  "plain_host h \<Longrightarrow> plain_port p \<Longrightarrow> speed_dialContext dial ''tcp'' (join_host_port h p) = dial (join_host_port h p)"
  by (simp add: speed_dialContext_def split_join_plain has_prefix_def)

lemma query_types: "query_type ''A'' = Some 1" "query_type ''aaaa'' = Some 28" "query_type ''soa'' = Some 6"
  by code_simp+

text \<open>For addresses, the lines are what \<^verbatim>\<open>resolveIP\<close> finds, if every answer has the body of its type.\<close>

definition typed_answers :: "nat \<Rightarrow> answer list \<Rightarrow> bool" where
  "typed_answers t as \<longleftrightarrow> (\<forall>a \<in> set as. rr_type a = t \<longrightarrow> (\<exists>ip. rr_body a = (if t = 1 then ABody ip else AAAABody ip)))"

lemma resolve_prints_addresses:
  assumes "typeFlag = ''A'' \<and> t = 1 \<or> typeFlag = ''aaaa'' \<and> t = 28" "trim_space arg = domain" "domain \<noteq> []"
    and "\<And>ip. body_text (ABody ip) = ip_text ip" "\<And>ip. body_text (AAAABody ip) = ip_text ip"
    and "\<And>q r. query (NewUDPResolver addr) q = Inr r \<Longrightarrow> typed_answers t (m_answers r)"
    and "resolveIP L (query (NewUDPResolver addr)) t domain = Inr ips"
  shows "resolve_main L None query rcode_text body_text arg addr False typeFlag = Inr (map ip_text ips)"
proof -
  obtain q r where q: "NewQuestion L domain t = Inr q" "query (NewUDPResolver addr) q = Inr r" "h_rcode (m_hdr r) = 0"
      "ips = resolve_answers t (m_answers r)"
    using assms(7) by (auto simp: resolveIP_def split: sum.splits if_splits)
  have t: "query_type typeFlag = Some t" using assms(1) query_types by auto
  have "typed_answers t as \<Longrightarrow> map (\<lambda>a. body_text (rr_body a)) (filter (\<lambda>a. rr_type a = t) as) = map ip_text (resolve_answers t as)" for as
    by (induction as) (auto simp: typed_answers_def resolve_answers_def assms(4,5) split: if_splits)
  then show ?thesis using q t assms(2,3,6) by (simp add: resolve_main_def Let_def)
qed

end
