(* ===== verification/Measure.thy ===== *)
theory Measure
  imports GoStrings "HOL-Library.Multiset"
begin

text \<open>
  The measurement program (\<^verbatim>\<open>x/examples/measure/main.go\<close>): the measurements that one provider makes, and the channel on which its
  goroutine sends them to \<^verbatim>\<open>main\<close>, with the counter that decides who closes it. The lemmas say when every measurement is
  written and the channel is closed once, and what happens without providers or without measurements.
\<close>

section \<open>The measurements of a provider\<close>

record measurement_config =
  mc_NumAttempts :: "int option"
  mc_Proto :: string
  mc_Domains :: "string list"
  mc_Strategies :: "string list"

record isp =
  isp_Transport :: string
  isp_Name :: string
  isp_CountryCode :: string

record measurement =
  mm_Domain :: string
  mm_ISP :: string
  mm_Country :: string
  mm_Strategy :: string
  mm_Attempt :: int
  mm_ok :: bool
  mm_ErrorOp :: string
  mm_ErrorMessage :: string

text \<open>\<^verbatim>\<open>strings.ReplaceAll\<close> on ASCII text; the empty string is found before every character and at the end.\<close>

function replace_all :: "string \<Rightarrow> string \<Rightarrow> string \<Rightarrow> string" where
  "replace_all old new s =
     (if old = [] then (case s of [] \<Rightarrow> new | c # r \<Rightarrow> new @ c # replace_all old new r)
      else case s of
        [] \<Rightarrow> []
      | c # r \<Rightarrow> if take (length old) s = old then new @ replace_all old new (drop (length old) s) else c # replace_all old new r)"
  by pat_completeness auto
termination by (relation "measure (\<lambda>(old, new, s). length s)") auto

declare replace_all.simps [simp del]

definition makeErrorMsg :: "string \<Rightarrow> string \<Rightarrow> string" where
  "makeErrorMsg text domain = replace_all domain ''${DOMAIN}'' text"

text \<open>One test with TLS: the results of the dial and of the handshake, with the text of the error.\<close>

definition tls_test :: "(string \<Rightarrow> string option) \<Rightarrow> (string \<Rightarrow> string option) \<Rightarrow> string \<Rightarrow> string \<Rightarrow> string \<times> string" where
  "tls_test dial wrap domain ip =
     (case dial (join_host_port ip ''443'') of
        Some e \<Rightarrow> (''connect'', makeErrorMsg e domain)
      | None \<Rightarrow> (case wrap domain of Some e \<Rightarrow> (''tls'', makeErrorMsg e domain) | None \<Rightarrow> ([], [])))"

text \<open>
  What a goroutine does, one item after the other: it sends a measurement, ends the process, or calls the test that
  \<^verbatim>\<open>quic\<close> has left nil.
\<close>

datatype item = Row measurement | Fatal | NilCall

definition join_transport :: "string \<Rightarrow> string \<Rightarrow> string" where
  "join_transport transport strategy =
     (if transport \<noteq> [] \<and> strategy \<noteq> [] then transport @ ''|'' @ strategy else transport)"

definition measure_one :: "isp \<Rightarrow> int \<Rightarrow> string \<Rightarrow> (string \<Rightarrow> string \<Rightarrow> string \<times> string) \<Rightarrow> string \<times> string \<Rightarrow> measurement" where
  "measure_one i attempt strategy test d =
     (let (op, msg) = test (fst d) (snd d) in
      \<lparr>mm_Domain = fst d, mm_ISP = isp_Name i, mm_Country = isp_CountryCode i,
       mm_Strategy = (if strategy = [] then ''direct'' else strategy), mm_Attempt = attempt, mm_ok = (op = []),
       mm_ErrorOp = op, mm_ErrorMessage = msg\<rparr>)"

text \<open>
  The items for a strategy: \<open>tls\<close> and \<open>quic\<close> are the results of \<^verbatim>\<open>NewStreamDialer\<close>, with the test it leads to, and of
  \<^verbatim>\<open>NewPacketListener\<close>; \<open>ips\<close> has the address of every domain.
\<close>

definition strategy_items ::
  "measurement_config \<Rightarrow> string list \<Rightarrow> (string \<Rightarrow> (string \<Rightarrow> string \<Rightarrow> string \<times> string) option) \<Rightarrow> (string \<Rightarrow> bool)
   \<Rightarrow> isp \<Rightarrow> int \<Rightarrow> string \<Rightarrow> item list" where
  "strategy_items cfg ips tls quic i attempt strategy =
     (let transport = join_transport (isp_Transport i) strategy in
      if mc_Proto cfg = [] \<or> mc_Proto cfg = ''tls'' then
        (case tls transport of
           None \<Rightarrow> [Fatal]
         | Some test \<Rightarrow> map (\<lambda>d. Row (measure_one i attempt strategy test d)) (zip (mc_Domains cfg) ips))
      else if mc_Proto cfg = ''quic'' then
        (if quic transport then map (\<lambda>d. NilCall) (mc_Domains cfg) else [Fatal])
      else [Fatal])"

definition isp_items ::
  "measurement_config \<Rightarrow> string list \<Rightarrow> (string \<Rightarrow> (string \<Rightarrow> string \<Rightarrow> string \<times> string) option) \<Rightarrow> (string \<Rightarrow> bool)
   \<Rightarrow> isp \<Rightarrow> item list" where
  "isp_items cfg ips tls quic i =
     concat (map (\<lambda>attempt. concat (map (strategy_items cfg ips tls quic i attempt) (mc_Strategies cfg)))
       [1 .. (case mc_NumAttempts cfg of None \<Rightarrow> 1 | Some n \<Rightarrow> n)])"

section \<open>The channel\<close>

text \<open>
  The providers whose goroutine \<^verbatim>\<open>main\<close> has not started, the goroutines with what they still have to do, the counter, how often the
  channel was closed, and the rows written.
\<close>

datatype measure_end = Running | Finished | Exited | Panicked

record measure_state =
  me_todo :: "item list list"
  me_running :: "item list list"
  me_pending :: int
  me_closes :: nat
  me_rows :: "measurement list"
  me_end :: measure_end

definition measure_start :: "item list list \<Rightarrow> measure_state" where
  "measure_start plans = \<lparr>me_todo = plans, me_running = [], me_pending = 0, me_closes = 0, me_rows = [], me_end = Running\<rparr>"

text \<open>
  \<^verbatim>\<open>main\<close> starts a goroutine, counted first; a goroutine goes on with its next item, and a row needs \<^verbatim>\<open>main\<close> at the receive, as the
  channel has no buffer, or is a panic on a closed one; a goroutine ends, the one that counts to 0 closes the channel, where a second time is a panic; \<^verbatim>\<open>main\<close>
  sees the channel closed.
\<close>

datatype measure_event = Start | Item nat | Done nat | Drained

definition remove_at :: "nat \<Rightarrow> 'a list \<Rightarrow> 'a list" where
  "remove_at n xs = take n xs @ drop (Suc n) xs"

definition goroutine_item :: "nat \<Rightarrow> measure_state \<Rightarrow> measure_state option" where
  "goroutine_item n s =
     (if n \<ge> length (me_running s) then None
      else case me_running s ! n of
        [] \<Rightarrow> None
      | Row m # rest \<Rightarrow>
          (if me_closes s > 0 then Some (s\<lparr>me_end := Panicked\<rparr>)
           else if me_todo s \<noteq> [] then None
           else Some (s\<lparr>me_running := (me_running s)[n := rest], me_rows := me_rows s @ [m]\<rparr>))
      | Fatal # rest \<Rightarrow> Some (s\<lparr>me_end := Exited\<rparr>)
      | NilCall # rest \<Rightarrow> Some (s\<lparr>me_end := Panicked\<rparr>))"

definition goroutine_done :: "nat \<Rightarrow> measure_state \<Rightarrow> measure_state option" where
  "goroutine_done n s =
     (if n \<ge> length (me_running s) \<or> me_running s ! n \<noteq> [] then None
      else let s1 = s\<lparr>me_running := remove_at n (me_running s), me_pending := me_pending s - 1\<rparr> in
        if me_pending s1 = 0 then
          (if me_closes s > 0 then Some (s1\<lparr>me_end := Panicked\<rparr>) else Some (s1\<lparr>me_closes := 1\<rparr>))
        else Some s1)"

definition measure_step :: "measure_state \<Rightarrow> measure_event \<Rightarrow> measure_state option" where
  "measure_step s e =
     (if me_end s \<noteq> Running then None
      else case e of
        Start \<Rightarrow>
          (case me_todo s of
             [] \<Rightarrow> None
           | p # ps \<Rightarrow> Some (s\<lparr>me_todo := ps, me_running := me_running s @ [p], me_pending := me_pending s + 1\<rparr>))
      | Item n \<Rightarrow> goroutine_item n s
      | Done n \<Rightarrow> goroutine_done n s
      | Drained \<Rightarrow> (if me_todo s = [] \<and> me_closes s > 0 then Some (s\<lparr>me_end := Finished\<rparr>) else None))"

fun measure_run :: "measure_state \<Rightarrow> measure_event list \<Rightarrow> measure_state option" where
  "measure_run s [] = Some s"
| "measure_run s (e # es) = (case measure_step s e of None \<Rightarrow> None | Some s' \<Rightarrow> measure_run s' es)"

section \<open>Properties\<close>

text \<open>The invariant of a run over \<open>plans\<close>, where every provider has a measurement.\<close>

definition measure_inv :: "item list list \<Rightarrow> measure_state \<Rightarrow> bool" where
  "measure_inv plans s \<longleftrightarrow>
     me_end s \<in> {Running, Finished} \<and> me_pending s = int (length (me_running s)) \<and> [] \<notin> set (me_todo s)
     \<and> (me_todo s \<noteq> [] \<longrightarrow> [] \<notin> set (me_running s))
     \<and> me_closes s = (if me_todo s = [] \<and> me_running s = [] then 1 else 0)
     \<and> (me_end s = Finished \<longrightarrow> me_closes s = 1)
     \<and> mset (map Row (me_rows s)) + mset (concat (me_running s)) + mset (concat (me_todo s)) = mset (concat plans)"

definition only_rows :: "item list list \<Rightarrow> bool" where
  "only_rows plans \<longleftrightarrow> (\<forall>p \<in> set plans. \<forall>x \<in> set p. \<exists>m. x = Row m)"

lemma mset_remove_at: "n < length xs \<Longrightarrow> mset (concat xs) = mset (xs ! n) + mset (concat (remove_at n xs))"
  by (subst (1) id_take_nth_drop [of n xs]) (auto simp: remove_at_def)

lemma length_remove_at: "n < length xs \<Longrightarrow> length (remove_at n xs) = length xs - 1"
  by (simp add: remove_at_def)

lemma remove_at_Nil: "n < length xs \<Longrightarrow> remove_at n xs = [] \<longleftrightarrow> length xs = 1"
  by (metis length_remove_at One_nat_def diff_Suc_1 diff_is_0_eq' le_numeral_extra(4) length_0_conv less_one linorder_neqE_nat
      not_less_zero zero_less_diff)

lemma mset_update: "n < length xs \<Longrightarrow> xs ! n = x # p \<Longrightarrow> mset (concat xs) = add_mset x (mset (concat (xs[n := p])))"
  by (subst (1) id_take_nth_drop [of n xs]) (auto simp: upd_conv_take_nth_drop)

lemma items_rows:
  assumes "measure_inv plans s" "only_rows plans" "n < length (me_running s)" "me_running s ! n = x # rest"
  shows "\<exists>m. x = Row m"
proof -
  have "x \<in># mset (concat (me_running s))" using mset_update [OF assms(3,4)] by simp
  then have "x \<in># mset (concat plans)" using assms(1) unfolding measure_inv_def by (metis union_iff)
  then show ?thesis using assms(2) by (auto simp: only_rows_def)
qed

lemma measure_inv_start: "plans \<noteq> [] \<Longrightarrow> [] \<notin> set plans \<Longrightarrow> measure_inv plans (measure_start plans)"
  by (simp add: measure_inv_def measure_start_def)

lemma measure_inv_step:
  assumes inv: "measure_inv plans s" and rows: "only_rows plans" and step: "measure_step s e = Some s'"
  shows "measure_inv plans s'"
proof (cases e)
  case Start
  then show ?thesis using inv step
    by (cases "me_todo s") (auto simp: measure_step_def measure_inv_def ac_simps split: if_splits)
next
  case (Item n)
  then have item: "goroutine_item n s = Some s'" "me_end s = Running" using step by (auto simp: measure_step_def split: if_splits)
  then have n: "n < length (me_running s)" by (auto simp: goroutine_item_def split: if_splits)
  then obtain x rest where run: "me_running s ! n = x # rest" using item by (auto simp: goroutine_item_def split: list.splits)
  obtain m where x: "x = Row m" using items_rows [OF inv rows n run] by blast
  have closes: "me_closes s = 0" using inv n by (auto simp: measure_inv_def)
  have s': "s' = s\<lparr>me_running := (me_running s)[n := rest], me_rows := me_rows s @ [m]\<rparr>" "me_todo s = []"
    using item n run x closes by (auto simp: goroutine_item_def split: if_splits)
  show ?thesis using inv mset_update [OF n run] n closes by (auto simp: s' x measure_inv_def)
next
  case (Done n)
  then have d: "goroutine_done n s = Some s'" "me_end s = Running" using step by (auto simp: measure_step_def split: if_splits)
  then have n: "n < length (me_running s)" "me_running s ! n = []" by (auto simp: goroutine_done_def split: if_splits)
  then have todo: "me_todo s = []" using inv nth_mem [OF n(1)] by (auto simp: measure_inv_def)
  have "me_closes s = 0" using inv n(1) by (auto simp: measure_inv_def)
  then show ?thesis using inv d n todo mset_remove_at [OF n(1)] length_remove_at [OF n(1)] remove_at_Nil [OF n(1)]
    by (auto simp: goroutine_done_def measure_inv_def Let_def of_nat_diff split: if_splits)
next
  case Drained
  then show ?thesis using inv step by (auto simp: measure_step_def measure_inv_def split: if_splits)
qed

lemma measure_inv_run: "measure_inv plans s \<Longrightarrow> only_rows plans \<Longrightarrow> measure_run s es = Some s' \<Longrightarrow> measure_inv plans s'"
  by (induction es arbitrary: s) (auto split: option.splits dest: measure_inv_step)

text \<open>A run that has not finished can go on: the channel is closed when there is nothing left.\<close>

lemma measure_inv_progress:
  assumes inv: "measure_inv plans s" and rows: "only_rows plans" and go: "me_end s = Running"
  shows "\<exists>e. measure_step s e \<noteq> None"
proof (cases "me_todo s")
  case (Cons p ps)
  then have "measure_step s Start \<noteq> None" using go by (simp add: measure_step_def)
  then show ?thesis ..
next
  case Nil
  show ?thesis
  proof (cases "me_running s")
    case Nil
    then have "measure_step s Drained \<noteq> None" using \<open>me_todo s = []\<close> inv go by (simp add: measure_step_def measure_inv_def)
    then show ?thesis ..
  next
    case (Cons r rs)
    show ?thesis
    proof (cases r)
      case Nil
      then have "measure_step s (Done 0) \<noteq> None" using Cons go by (simp add: measure_step_def goroutine_done_def Let_def)
      then show ?thesis ..
    next
      case (Cons x rest)
      then obtain m where "x = Row m" using items_rows [OF inv rows, of 0 x rest] \<open>me_running s = r # rs\<close> by auto
      then have "measure_step s (Item 0) \<noteq> None"
        using Cons \<open>me_running s = r # rs\<close> \<open>me_todo s = []\<close> go by (simp add: measure_step_def goroutine_item_def)
      then show ?thesis ..
    qed
  qed
qed

text \<open>
  With at least one provider, where each has a measurement, no interleaving panics, the channel is closed at most once, a run
  can always go on until it is finished, and then every measurement has been written, once.
\<close>

theorem measure_writes_all:
  assumes "plans \<noteq> []" "[] \<notin> set plans" "only_rows plans" and "measure_run (measure_start plans) es = Some s"
  shows "me_end s \<in> {Running, Finished} \<and> me_closes s \<le> 1
    \<and> (me_end s = Running \<longrightarrow> (\<exists>e. measure_step s e \<noteq> None))
    \<and> (me_end s = Finished \<longrightarrow> mset (map Row (me_rows s)) = mset (concat plans))"
proof -
  have inv: "measure_inv plans s" using measure_inv_run [OF measure_inv_start [OF assms(1,2)] assms(3,4)] .
  then show ?thesis using measure_inv_progress [OF inv assms(3)] by (auto simp: measure_inv_def split: if_splits)
qed

text \<open>Without providers nothing ever closes the channel: \<^verbatim>\<open>main\<close> waits.\<close>

lemma no_isps_deadlock: "measure_step (measure_start []) e = None"
  by (cases e) (simp_all add: measure_step_def measure_start_def goroutine_item_def goroutine_done_def)

text \<open>Without domains or strategies the goroutine of a provider can be done before the next one is counted, and both close.\<close>

lemma no_measurements_close_twice:
  "\<exists>s. measure_run (measure_start [[], []]) [Start, Done 0, Start, Done 0] = Some s \<and> me_end s = Panicked"
  by (simp add: measure_step_def measure_start_def goroutine_done_def remove_at_def Let_def)

text \<open>With \<^verbatim>\<open>quic\<close> every test is a call of a nil function.\<close>

lemma quic_panics:
  assumes "mc_Proto cfg = ''quic''" "mc_Domains cfg \<noteq> []" "mc_Strategies cfg \<noteq> []" "mc_NumAttempts cfg = None" "\<And>t. quic t"
  shows "\<exists>s. measure_run (measure_start [isp_items cfg ips tls quic i]) [Start, Item 0] = Some s \<and> me_end s = Panicked"
proof -
  obtain rest where "isp_items cfg ips tls quic i = NilCall # rest"
    using assms by (cases "mc_Domains cfg"; cases "mc_Strategies cfg") (auto simp: isp_items_def strategy_items_def Let_def)
  then show ?thesis by (simp add: measure_step_def measure_start_def goroutine_item_def)
qed

end
