(* ===== verification/SmartProxyFile.thy ===== *)
theory SmartProxyFile
  imports MobileProxy
begin

text \<open>
  The example \<^verbatim>\<open>smart-proxy\<close> (\<^verbatim>\<open>x/examples/smart-proxy\<close>): the strategy cache in a JSON file, which is an instance of the contract
  \<open>strategy_cache\<close>, and the base dialer, which refuses IPv6 when it cannot tell a dial that failed. The lemmas carry a
  strategy from one process to the next.
\<close>

section \<open>The cache\<close>

text \<open>\<open>jc_file\<close> is the content of the file, if there is one.\<close>

record json_cache =
  jc_cache :: "string \<rightharpoonup> string"
  jc_file :: "bytes option"

text \<open>
  \<^verbatim>\<open>MarshalIndent\<close> and \<^verbatim>\<open>Unmarshal\<close>, and how a write of the file goes: \<open>None\<close> for success, or the error and what it leaves.
\<close>

record json_env =
  je_marshal :: "(string \<rightharpoonup> string) \<Rightarrow> err + bytes"
  je_unmarshal :: "bytes \<Rightarrow> err + (string \<rightharpoonup> string)"
  je_write :: "bytes \<Rightarrow> (err \<times> bytes option) option"

text \<open>\<open>read\<close> is the error of reading the file, other than that there is none.\<close>

definition NewJSONFileCache :: "json_env \<Rightarrow> err option \<Rightarrow> bytes option \<Rightarrow> err + json_cache" where
  "NewJSONFileCache E read file =
     (case read of
        Some e \<Rightarrow> Inl e
      | None \<Rightarrow>
          (case file of
             None \<Rightarrow> Inr \<lparr>jc_cache = Map.empty, jc_file = file\<rparr>
           | Some data \<Rightarrow>
               (if length data = 0 then Inr \<lparr>jc_cache = Map.empty, jc_file = file\<rparr>
                else case je_unmarshal E data of
                  Inl e \<Rightarrow> Inl e
                | Inr m \<Rightarrow> Inr \<lparr>jc_cache = m, jc_file = file\<rparr>)))"

definition flushNoLock :: "json_env \<Rightarrow> json_cache \<Rightarrow> json_cache \<times> err option" where
  "flushNoLock E c =
     (case je_marshal E (jc_cache c) of
        Inl e \<Rightarrow> (c, Some e)
      | Inr data \<Rightarrow>
          (case je_write E data of
             Some (e, left) \<Rightarrow> (c\<lparr>jc_file := left\<rparr>, Some e)
           | None \<Rightarrow> (c\<lparr>jc_file := Some data\<rparr>, None)))"

definition file_Get :: "json_cache \<Rightarrow> string \<Rightarrow> bytes option" where
  "file_Get c key = (case jc_cache c key of None \<Rightarrow> None | Some val \<Rightarrow> Some (str_bytes val))"

definition file_Put :: "json_env \<Rightarrow> json_cache \<Rightarrow> string \<Rightarrow> bytes option \<Rightarrow> json_cache" where
  "file_Put E c key val =
     fst (flushNoLock E (c\<lparr>jc_cache := (case val of None \<Rightarrow> (jc_cache c)(key := None) | Some b \<Rightarrow> (jc_cache c)(key \<mapsto> bytes_str b))\<rparr>))"

lemma jc_cache_flush [simp]: "jc_cache (fst (flushNoLock E c)) = jc_cache c"
  by (simp add: flushNoLock_def split: sum.split option.split prod.split)

interpretation json_file: strategy_cache file_Get "file_Put E" for E
  by unfold_locales (auto simp: file_Get_def file_Put_def split: option.split)

section \<open>The base dialer\<close>

text \<open>The dial gives a connection, an error, or both.\<close>

definition supportsHappyEyeballs :: "(string \<Rightarrow> 'c option \<times> err option) \<Rightarrow> bool" where
  "supportsHappyEyeballs dial = (snd (dial ''invalid:0'') \<noteq> None)"

definition smart_base_dialer ::
  "(string \<Rightarrow> bytes option) \<Rightarrow> (string \<Rightarrow> 'c option \<times> err option) \<Rightarrow> string \<Rightarrow> 'c option \<times> err option" where
  "smart_base_dialer parse_ip dial addr =
     (if supportsHappyEyeballs dial then dial addr
      else case split_host_port addr of
        Inl e \<Rightarrow> (None, Some e)
      | Inr (host, _) \<Rightarrow>
          (case parse_ip host of
             None \<Rightarrow> dial addr
           | Some ip \<Rightarrow> if to4 ip = None then (None, Some (ErrNew ''IPv6 not supported'')) else dial addr))"

lemma no_false_success_on_v6:
  assumes "snd (dial ''invalid:0'') = None" "split_host_port addr = Inr (host, port)" "parse_ip host = Some ip" "to4 ip = None"
  shows "fst (smart_base_dialer parse_ip dial addr) = None"
  using assms by (simp add: smart_base_dialer_def supportsHappyEyeballs_def)

section \<open>Across processes\<close>

text \<open>
  The law of the package \<^verbatim>\<open>encoding/json\<close> that the cache needs: maps of texts come back, and are not written as nothing. Other byte
  strings do not: the package writes a replacement character for what is not UTF-8.
\<close>

definition texts :: "(string \<Rightarrow> bool) \<Rightarrow> (string \<rightharpoonup> string) \<Rightarrow> bool" where
  "texts utf8 m \<longleftrightarrow> finite (dom m) \<and> (\<forall>k v. m k = Some v \<longrightarrow> utf8 k \<and> utf8 v)"

definition json_law :: "json_env \<Rightarrow> (string \<Rightarrow> bool) \<Rightarrow> bool" where
  "json_law E utf8 \<longleftrightarrow> (\<forall>m. texts utf8 m \<longrightarrow> (\<exists>d. je_marshal E m = Inr d \<and> d \<noteq> [] \<and> je_unmarshal E d = Inr m))"

text \<open>The file holds the cache.\<close>

definition in_sync :: "json_env \<Rightarrow> (string \<Rightarrow> bool) \<Rightarrow> json_cache \<Rightarrow> bool" where
  "in_sync E utf8 c \<longleftrightarrow> texts utf8 (jc_cache c) \<and> NewJSONFileCache E None (jc_file c) = Inr c"

lemma new_in_sync:
  "NewJSONFileCache E None file = Inr c \<Longrightarrow> texts utf8 (jc_cache c) \<Longrightarrow> in_sync E utf8 c"
  by (auto simp: in_sync_def NewJSONFileCache_def split: option.splits if_splits sum.splits)

lemma put_in_sync:
  assumes "json_law E utf8" "je_write E = (\<lambda>_. None)" "in_sync E utf8 c" "utf8 key"
    and "case val of None \<Rightarrow> True | Some b \<Rightarrow> utf8 (bytes_str b)"
  shows "in_sync E utf8 (file_Put E c key val)"
proof -
  let ?c = "c\<lparr>jc_cache := (case val of None \<Rightarrow> (jc_cache c)(key := None) | Some b \<Rightarrow> (jc_cache c)(key \<mapsto> bytes_str b))\<rparr>"
  have t: "texts utf8 (jc_cache ?c)"
    using assms(3-5) by (auto simp: in_sync_def texts_def split: option.splits)
  then obtain d where "je_marshal E (jc_cache ?c) = Inr d" "d \<noteq> []" "je_unmarshal E d = Inr (jc_cache ?c)"
    using assms(1) by (auto simp: json_law_def)
  then show ?thesis using t assms(2) by (simp add: file_Put_def flushNoLock_def in_sync_def NewJSONFileCache_def)
qed

text \<open>
  A strategy that one process has found is used by the next one, which reads the file: with the same configuration and tests that
  still give the same results it returns the same dialer, or for the empty TLS entry one over the same DNS entry.
\<close>

theorem smart_proxy_restarts:
  assumes races: "\<And>i. race_choice (pick i)" and prompt: "\<And>i. prompt_race (pick' i)"
    and parse: "parseConfig F cfg = Inr c"
    and json: "json_law E utf8" "je_write E = (\<lambda>_. None)" "utf8 winningStrategyCacheKey"
    and read: "NewJSONFileCache E None file = Inr s" "texts utf8 (jc_cache s)"
    and run: "finder_with_cache file_Get (file_Put E) F pick s testDomains cfg = (s', Some d, None)"
    and stored: "file_Get s' winningStrategyCacheKey = Some data"
    and yaml: "yaml_laws F" "\<And>w b. f_to_yaml F w = Inr b \<Longrightarrow> b \<noteq> [] \<and> utf8 (bytes_str b)"
  shows "\<exists>s2. NewJSONFileCache E None (jc_file s') = Inr s2
    \<and> (finder_with_cache file_Get (file_Put E) F pick' s2 testDomains cfg = (s2, Some d, None)
        \<or> [] \<in> set (cc_TLS c) \<and> resumes_dns F pick' data testDomains cfg c d)"
proof -
  have sync: "in_sync E utf8 s" by (rule new_in_sync [OF read])
  have "in_sync E utf8 s'"
  proof -
    obtain x where x: "NewDialer F pick (Some (file_Get s winningStrategyCacheKey)) testDomains cfg = (Some d, None, x)"
      using run by (auto simp: finder_with_cache_def split: prod.splits)
    obtain ranked f where r: "ranked_of F (Some (file_Get s winningStrategyCacheKey)) c = (ranked, f)" by fastforce
    have x_is: "(\<exists>w b. x = Some (Some b) \<and> f_to_yaml F w = Inr b) \<or> x = Some None \<or> x = Some (file_Get s winningStrategyCacheKey)"
      using x [unfolded NewDialer_parsed [OF parse r] Let_def]
      by (auto split: option.splits sum.splits prod.splits)
    have put: "in_sync E utf8 (file_Put E s winningStrategyCacheKey v)" if "case v of None \<Rightarrow> True | Some b \<Rightarrow> utf8 (bytes_str b)" for v
      by (rule put_in_sync [OF json(1,2) sync json(3) that])
    show ?thesis using x_is x run put yaml(2) sync by (auto simp: finder_with_cache_def split: if_splits)
  qed
  then have new: "NewJSONFileCache E None (jc_file s') = Inr s'" by (simp add: in_sync_def)
  have "b \<noteq> []" if "f_to_yaml F w = Inr b" for w b using yaml(2) [OF that] by simp
  with json_file.finder_resumes [where pick' = pick', OF races prompt parse run stored yaml(1)]
  have "finder_with_cache file_Get (file_Put E) F pick' s' testDomains cfg = (s', Some d, None)
      \<or> [] \<in> set (cc_TLS c) \<and> resumes_dns F pick' data testDomains cfg c d" by blast
  then show ?thesis using new by blast
qed

end
