(* ===== verification/ConfigRegistry.thy ===== *)
theory ConfigRegistry
  imports ConfigUrl
begin

text \<open>
  The registry of configuration types (\<^verbatim>\<open>ExtensibleProvider\<close> of \<^verbatim>\<open>x/configurl/config.go\<close>): registration in any order and number, and
  the instances it makes. The lemmas show that the builders of theory \<open>ConfigUrl\<close> are what registering the default
  types gives, and how an app's own types come on top of them.
\<close>

section \<open>Providers\<close>

text \<open>The base instance may be nil, and the map too; \<open>'c\<close> is a configuration that is not nil and \<open>'o\<close> an instance.\<close>

type_synonym ('c, 'o) build_func = "'c \<Rightarrow> err + 'o"

record ('c, 'o) provider =
  pv_base :: "'o option"
  pv_builders :: "(string \<rightharpoonup> ('c, 'o) build_func) option"

definition NewExtensibleProvider :: "'o option \<Rightarrow> ('c, 'o) provider" where
  "NewExtensibleProvider baseInstance = \<lparr>pv_base = baseInstance, pv_builders = Some Map.empty\<rparr>"

definition ensureBuildersMap :: "('c, 'o) provider \<Rightarrow> ('c, 'o) provider \<times> (string \<rightharpoonup> ('c, 'o) build_func)" where
  "ensureBuildersMap p =
     (case pv_builders p of None \<Rightarrow> (p\<lparr>pv_builders := Some Map.empty\<rparr>, Map.empty) | Some m \<Rightarrow> (p, m))"

definition RegisterType :: "('c, 'o) provider \<Rightarrow> string \<Rightarrow> ('c, 'o) build_func \<Rightarrow> ('c, 'o) provider" where
  "RegisterType p subtype newInstance =
     (case ensureBuildersMap p of (p', m) \<Rightarrow> p'\<lparr>pv_builders := Some (m(subtype \<mapsto> newInstance))\<rparr>)"

text \<open>The result of a builder may be nil only with an error here; \<open>scheme\<close> is the scheme of the URL of a configuration.\<close>

definition NewInstance :: "('c \<Rightarrow> string) \<Rightarrow> ('c, 'o) provider \<Rightarrow> 'c option \<Rightarrow> ('c, 'o) provider \<times> (err + 'o)" where
  "NewInstance scheme p config =
     (case config of
        None \<Rightarrow> (p, case pv_base p of None \<Rightarrow> Inl (ErrNew ''base instance is not configured'') | Some b \<Rightarrow> Inr b)
      | Some c \<Rightarrow>
          (case ensureBuildersMap p of (p', m) \<Rightarrow>
             (p', case m (scheme c) of
                    None \<Rightarrow> Inl (ErrNew (''config type '' @ scheme c @ '' is not registered''))
                  | Some newInstance \<Rightarrow> newInstance c)))"

section \<open>Registrations\<close>

definition register_all :: "(string \<times> ('c, 'o) build_func) list \<Rightarrow> ('c, 'o) provider \<Rightarrow> ('c, 'o) provider" where
  "register_all rs p = foldl (\<lambda>p r. RegisterType p (fst r) (snd r)) p rs"

definition registered :: "('c, 'o) provider \<Rightarrow> string \<Rightarrow> ('c, 'o) build_func option" where
  "registered p = (case pv_builders p of None \<Rightarrow> Map.empty | Some m \<Rightarrow> m)"

lemma registered_new [simp]: "registered (NewExtensibleProvider b) = Map.empty"
  by (simp add: registered_def NewExtensibleProvider_def)

lemma base_new [simp]: "pv_base (NewExtensibleProvider b) = b"
  by (simp add: NewExtensibleProvider_def)

lemma registered_RegisterType [simp]: "registered (RegisterType p t f) = (registered p)(t \<mapsto> f)"
  by (auto simp: registered_def RegisterType_def ensureBuildersMap_def split: option.splits)

lemma base_RegisterType [simp]: "pv_base (RegisterType p t f) = pv_base p"
  by (auto simp: RegisterType_def ensureBuildersMap_def split: option.splits)

text \<open>The last registration of a type counts, and the base instance stays.\<close>

lemma registered_all: "registered (register_all rs p) = registered p ++ map_of (rev rs)"
  by (induction rs arbitrary: p) (auto simp: register_all_def map_add_def fun_eq_iff split: option.splits)

lemma base_all: "pv_base (register_all rs p) = pv_base p"
  by (induction rs arbitrary: p) (simp_all add: register_all_def)

text \<open>An instance comes from what is registered, whether or not the map has been made; making it changes no result.\<close>

lemma NewInstance_eq:
  "snd (NewInstance scheme p config) =
     (case config of
        None \<Rightarrow> (case pv_base p of None \<Rightarrow> Inl (ErrNew ''base instance is not configured'') | Some b \<Rightarrow> Inr b)
      | Some c \<Rightarrow> (case registered p (scheme c) of
          None \<Rightarrow> Inl (ErrNew (''config type '' @ scheme c @ '' is not registered'')) | Some f \<Rightarrow> f c))"
  "registered (fst (NewInstance scheme p config)) = registered p" "pv_base (fst (NewInstance scheme p config)) = pv_base p"
  by (auto simp: NewInstance_def registered_def ensureBuildersMap_def split: option.splits prod.splits)

section \<open>The default types\<close>

text \<open>
  The registrations of \<^verbatim>\<open>RegisterDefaultProviders\<close> for stream dialers, in its order; a configuration is its outermost URL with the
  instances of the rest.
\<close>

definition on_pair :: "('b \<Rightarrow> 'u \<Rightarrow> err + 'o) \<Rightarrow> ('b \<times> 'u, 'o) build_func" where
  "on_pair f c = f (fst c) (snd c)"

definition default_stream_types :: "('k, 'a) build_env \<Rightarrow> (string \<times> (('k, 'a) base \<Rightarrow> url \<Rightarrow> err + ('k, 'a) stream_dialer)) list" where
  "default_stream_types E =
     [(''disorder'', build_disorder), (''dnstt'', build_dnstt E), (''do53'', build_do53 E), (''doh'', build_doh E),
      (''h2connect'', build_connect E H2Proxy), (''h3connect'', \<lambda>_. build_h3connect E), (''httpconnect'', build_connect E HTTPProxy),
      (''override'', build_override E), (''socks5'', build_socks5), (''split'', build_split), (''ss'', build_ss E),
      (''tls'', build_tls E), (''tlsfrag'', build_tlsfrag),
      (''turn'', \<lambda>b u. seq_err (build_turn E b u) (\<lambda>c. Inr (TURNStreamDialer c))), (''ws'', build_ws E)]"

definition default_packet_types :: "('k, 'a) build_env \<Rightarrow> (string \<times> (('k, 'a) base \<Rightarrow> url \<Rightarrow> err + ('k, 'a) packet_dialer)) list" where
  "default_packet_types E =
     [(''override'', build_override_pd E), (''socks5'', \<lambda>b u. seq_err (build_socks5_pl b u) (\<lambda>l. Inr (ListenerDialer l))),
      (''ss'', \<lambda>b u. seq_err (build_ss_pl E b u) (\<lambda>l. Inr (ListenerDialer l))),
      (''turn'', \<lambda>b u. seq_err (build_turn_pl E b u) (\<lambda>l. Inr (ListenerDialer l))), (''ws'', build_ws_pd E)]"

definition default_listener_types :: "('k, 'a) build_env \<Rightarrow> (string \<times> (('k, 'a) base \<Rightarrow> url \<Rightarrow> err + ('k, 'a) packet_listener)) list" where
  "default_listener_types E = [(''socks5'', build_socks5_pl), (''ss'', build_ss_pl E), (''turn'', build_turn_pl E)]"

text \<open>\<^verbatim>\<open>ProviderContainer\<close> with its three providers, as \<^verbatim>\<open>NewDefaultProviders\<close> makes it.\<close>

record ('k, 'a) provider_container =
  cn_streams :: "(('k, 'a) base \<times> url, ('k, 'a) stream_dialer) provider"
  cn_packets :: "(('k, 'a) base \<times> url, ('k, 'a) packet_dialer) provider"
  cn_listeners :: "(('k, 'a) base \<times> url, ('k, 'a) packet_listener) provider"

definition NewProviderContainer :: "('k, 'a) provider_container" where
  "NewProviderContainer =
     \<lparr>cn_streams = NewExtensibleProvider (Some TCPDialer), cn_packets = NewExtensibleProvider (Some UDPDialer),
      cn_listeners = NewExtensibleProvider (Some UDPListener)\<rparr>"

definition RegisterDefaultProviders :: "('k, 'a) build_env \<Rightarrow> ('k, 'a) provider_container \<Rightarrow> ('k, 'a) provider_container" where
  "RegisterDefaultProviders E c =
     c\<lparr>cn_streams := register_all (map (map_prod id on_pair) (default_stream_types E)) (cn_streams c),
       cn_packets := register_all (map (map_prod id on_pair) (default_packet_types E)) (cn_packets c),
       cn_listeners := register_all (map (map_prod id on_pair) (default_listener_types E)) (cn_listeners c)\<rparr>"

definition NewDefaultProviders :: "('k, 'a) build_env \<Rightarrow> ('k, 'a) provider_container" where
  "NewDefaultProviders E = RegisterDefaultProviders E NewProviderContainer"

fun outer_config :: "('k, 'a) build_env \<Rightarrow> url list \<Rightarrow> (('k, 'a) base \<times> url) option" where
  "outer_config E [] = None"
| "outer_config E (u # rest) = Some (base_of E rest, u)"

lemma map_of_on_pair: "map_of (map (map_prod id on_pair) rs) t = map_option on_pair (map_of rs t)"
  by (induction rs) auto

lemma map_of_rev: "distinct (map fst rs) \<Longrightarrow> map_of (rev rs) = map_of rs"
  by (rule map_of_eqI) (auto simp: rev_map [symmetric])

lemma registered_defaults:
  assumes "distinct (map fst rs)" "registered p = Map.empty"
  shows "registered (register_all (map (map_prod id on_pair) rs) p) t = map_option on_pair (map_of rs t)"
proof -
  have "distinct (map fst (map (map_prod id on_pair) rs))" using assms(1) by (simp add: comp_def)
  then show ?thesis using assms(2) by (simp only: registered_all map_of_rev empty_map_add map_of_on_pair)
qed

lemma default_types_distinct:
  "distinct (map fst (default_stream_types E))" "distinct (map fst (default_packet_types E))" "distinct (map fst (default_listener_types E))"
  by (simp_all add: default_stream_types_def default_packet_types_def default_listener_types_def)

lemma default_types:
  "stream_builder E = map_of (default_stream_types E)" "packet_builder E = map_of (default_packet_types E)"
  "listener_builder E = map_of (default_listener_types E)"
  by (simp_all only: stream_builder_def packet_builder_def listener_builder_def default_stream_types_def default_packet_types_def
      default_listener_types_def)

lemma run_builder_eq:
  "(case map_option on_pair m of None \<Rightarrow> Inl (ErrNew (''config type '' @ (u_scheme \<circ> snd) (b, u) @ '' is not registered'')) | Some f \<Rightarrow> f (b, u))
     = run_builder m b u"
  by (cases m) (simp_all add: run_builder_def on_pair_def)

lemma default_instance:
  assumes "distinct (map fst rs)"
  shows "snd (NewInstance (u_scheme \<circ> snd) (register_all (map (map_prod id on_pair) rs) (NewExtensibleProvider (Some d))) (outer_config E config))
    = (case config of [] \<Rightarrow> Inr d | u # rest \<Rightarrow> run_builder (map_of rs (u_scheme u)) (base_of E rest) u)"
proof (cases config)
  case (Cons u rest)
  then show ?thesis
    unfolding NewInstance_eq outer_config.simps option.case registered_defaults [OF assms registered_new] list.case
    using run_builder_eq [where m = "map_of rs (u_scheme u)" and b = "base_of E rest" and u = u] by simp
qed (simp add: NewInstance_eq base_all)

text \<open>
  The instances that \<^verbatim>\<open>NewStreamDialer\<close>, \<^verbatim>\<open>NewPacketDialer\<close> and \<^verbatim>\<open>NewPacketListener\<close> give are those of the registry after the default
  registrations, with its errors for types that are not registered.
\<close>

theorem default_providers:
  "NewStreamDialer E text = seq_err (ParseConfig (en_lib E) text)
     (\<lambda>config. snd (NewInstance (u_scheme \<circ> snd) (cn_streams (NewDefaultProviders E)) (outer_config E config)))"
  "NewPacketDialer E text = seq_err (ParseConfig (en_lib E) text)
     (\<lambda>config. snd (NewInstance (u_scheme \<circ> snd) (cn_packets (NewDefaultProviders E)) (outer_config E config)))"
  "NewPacketListener E text = seq_err (ParseConfig (en_lib E) text)
     (\<lambda>config. snd (NewInstance (u_scheme \<circ> snd) (cn_listeners (NewDefaultProviders E)) (outer_config E config)))"
proof -
  note defs = NewDefaultProviders_def RegisterDefaultProviders_def NewProviderContainer_def default_types_distinct default_instance
  have base: "bs_sd (base_of E config) = (case config of [] \<Rightarrow> Inr TCPDialer
        | u # rest \<Rightarrow> run_builder (stream_builder E (u_scheme u)) (base_of E rest) u)"
    "bs_pd (base_of E config) = (case config of [] \<Rightarrow> Inr UDPDialer
        | u # rest \<Rightarrow> run_builder (packet_builder E (u_scheme u)) (base_of E rest) u)" for config
    by (cases config; simp add: Let_def)+
  have s: "snd (NewInstance (u_scheme \<circ> snd) (cn_streams (NewDefaultProviders E)) (outer_config E config)) = bs_sd (base_of E config)" for config
    unfolding base by (simp add: defs default_types split: list.split)
  have p: "snd (NewInstance (u_scheme \<circ> snd) (cn_packets (NewDefaultProviders E)) (outer_config E config)) = bs_pd (base_of E config)" for config
    unfolding base by (simp add: defs default_types split: list.split)
  have l: "snd (NewInstance (u_scheme \<circ> snd) (cn_listeners (NewDefaultProviders E)) (outer_config E config))
      = (case config of [] \<Rightarrow> Inr UDPListener | u # rest \<Rightarrow> run_builder (listener_builder E (u_scheme u)) (base_of E rest) u)" for config
    by (simp add: defs default_types split: list.split)
  show "NewStreamDialer E text = seq_err (ParseConfig (en_lib E) text)
     (\<lambda>config. snd (NewInstance (u_scheme \<circ> snd) (cn_streams (NewDefaultProviders E)) (outer_config E config)))"
    by (simp only: NewStreamDialer_def s)
  show "NewPacketDialer E text = seq_err (ParseConfig (en_lib E) text)
     (\<lambda>config. snd (NewInstance (u_scheme \<circ> snd) (cn_packets (NewDefaultProviders E)) (outer_config E config)))"
    by (simp only: NewPacketDialer_def p)
  show "NewPacketListener E text = seq_err (ParseConfig (en_lib E) text)
     (\<lambda>config. snd (NewInstance (u_scheme \<circ> snd) (cn_listeners (NewDefaultProviders E)) (outer_config E config)))"
    by (simp only: NewPacketListener_def l)
qed

text \<open>An app can register a type of its own, or another builder for a type of the SDK: it is used, and the other types stay.\<close>

lemma own_type:
  "snd (NewInstance scheme (RegisterType p (scheme c) f) (Some c)) = f c"
  "scheme c' \<noteq> t \<Longrightarrow> snd (NewInstance scheme (RegisterType p t f) (Some c')) = snd (NewInstance scheme p (Some c'))"
  by (simp_all add: NewInstance_eq)

end
