(* ===== verification/Spec2Isabelle.thy ===== *)
theory Spec2Isabelle
  imports SlicePool ClientHelloFrag SplitStream SSPacket SSDialer Socks5 Dns DnsIntercept DnsTruncate
    TimeoutRelay ListenerRelay HappyEyeballs Disorder TlsDialer SmartStrategy ConfigSanitize
    LwipDevice LwipUdp LwipProxy DnsttTransport DnsttDialer RecordLenRead
    StreamStack TransportConn HttpProxy HttpTunnel Connectivity Report LwipTcp Turn Psiphon Websocket
    MobileProxy ConfigTypes SSStack LwipSetup Soax SysProxy DnsDialer SystemResolver DnsttTunnel PipeConn
    WindowsErrno PsiphonConfig SmartLog OutlineCli ConnectivityTool NetTools Measure SmartProxyFile ConfigRegistry
begin

text \<open>
  Verification library of the Outline SDK: a model of the Go code under \<^verbatim>\<open>src/\<close> (module \<^verbatim>\<open>golang.getoutline.org/sdk\<close>
  and its submodule \<^verbatim>\<open>x\<close>) with the theorems that make it correct.

  \<^bold>\<open>The program.\<close> The SDK is a set of network transports that compose. A stream dialer (\<^verbatim>\<open>transport.StreamDialer\<close>) gives a
  connection to an address, a packet dialer or listener a way to send datagrams; each strategy (Shadowsocks, SOCKS5, TLS,
  fragmenting and splitting of the first bytes, CONNECT proxies, WebSocket, TURN, DNS tunnels, ...) is a dialer over another one.
  \<^verbatim>\<open>x/configurl\<close> builds them from a text, \<^verbatim>\<open>x/smart\<close> searches for a strategy that works, \<^verbatim>\<open>x/httpproxy\<close>, \<^verbatim>\<open>x/mobileproxy\<close> and
  \<^verbatim>\<open>network/lwip2transport\<close> let applications and whole devices use a dialer, and \<^verbatim>\<open>network/packetrelay\<close>, \<^verbatim>\<open>network/dnsintercept\<close>
  and \<^verbatim>\<open>network/dnstruncate\<close> relay the datagrams of a device.

  \<^bold>\<open>How the code is modelled.\<close> Structs are records and enumerations are datatypes; methods are functions that take and return
  the state of the receiver; \<^verbatim>\<open>error\<close> is the type \<open>err\<close> and a fallible call gives \<open>err + 'a\<close>, or a pair of a result and an optional
  error where Go returns both; bytes are 8-bit words, lengths and nonces have the width the code gives them. An
  \<^verbatim>\<open>io.Writer\<close> is a function from state and bytes to state, count and error, an \<^verbatim>\<open>io.Reader\<close> is the list of the pieces (and
  the end) that it will give, so every way to cut a stream is a value that theorems quantify over. Concurrent components are
  step relations or step functions on a state that holds the program counter of each goroutine and call; one step is one
  critical section or one channel operation, and theorems about all reachable states are about all interleavings. Loops that
  may not end take the list of what the environment does as fuel, or are \<^verbatim>\<open>partial_function (option)\<close>; that they return is then proved.
\<close>

text \<open>
  \<^bold>\<open>Common theories.\<close> \<^verbatim>\<open>GoPrelude\<close>: bytes, errors, slices, list lemmas. \<^verbatim>\<open>GoIO\<close>: package io with the contracts of writers and
  readers as the locales \<open>go_writer\<close>, \<open>reliable_writer\<close>, \<open>stream_filter\<close>, \<open>go_reader_from\<close>. \<^verbatim>\<open>GoNet\<close>, \<^verbatim>\<open>GoStrings\<close>: the parts of
  net, strings and strconv that are used. \<^verbatim>\<open>GoBooks\<close>: multiset books over the calls of a state machine.

  \<^bold>\<open>Streams.\<close> \<^verbatim>\<open>TlsHeader\<close>, \<^verbatim>\<open>RecordLenFrag\<close> and \<^verbatim>\<open>RecordLenRead\<close> (\<^verbatim>\<open>transport/tlsfrag/tls.go\<close>, \<^verbatim>\<open>record_len_writer.go\<close>):
  the streaming record fragmenter, by Write and by ReadFrom. \<^verbatim>\<open>ClientHelloFrag\<close> (\<^verbatim>\<open>buffer.go\<close>, \<^verbatim>\<open>writer.go\<close>): the buffering one.
  \<^verbatim>\<open>SplitStream\<close> (\<^verbatim>\<open>transport/split\<close>): the splitter and its iterators. Both fragmenters are shown to send a function of the
  stream that was written, whatever the calls; \<^verbatim>\<open>StreamStack\<close> composes them: dialers over dialers give the composition of these
  functions. \<^verbatim>\<open>Disorder\<close> (\<^verbatim>\<open>x/disorder\<close>), \<^verbatim>\<open>TransportConn\<close> (\<^verbatim>\<open>transport/stream.go\<close>, \<^verbatim>\<open>packet.go\<close>), \<^verbatim>\<open>TlsDialer\<close>
  (\<^verbatim>\<open>transport/tls\<close>), \<^verbatim>\<open>Socks5\<close> (\<^verbatim>\<open>transport/socks5\<close>), \<^verbatim>\<open>Websocket\<close> (\<^verbatim>\<open>x/websocket\<close>), \<^verbatim>\<open>HttpConnect\<close> and \<^verbatim>\<open>PipeConn\<close> (\<^verbatim>\<open>x/httpconnect\<close>).

  \<^bold>\<open>Shadowsocks\<close> (\<^verbatim>\<open>transport/shadowsocks\<close>). \<^verbatim>\<open>SSCipher\<close>: ciphers, keys and salts. \<^verbatim>\<open>SSWriter\<close>, \<^verbatim>\<open>SSReader\<close>: the two ends of a stream
  with their nonces and buffers, the invariant of the writer over all its operations, and the round trip through a stream cut
  in any way. \<^verbatim>\<open>SSStack\<close>: the same over any stack of the dialers above. \<^verbatim>\<open>SSDialer\<close>, \<^verbatim>\<open>SSPacket\<close>: dialer and packets. \<^verbatim>\<open>SlicePool\<close> (\<^verbatim>\<open>internal/slicepool\<close>): the buffers, over an explicit store.

  \<^bold>\<open>Dialing.\<close> \<^verbatim>\<open>HappyEyeballs\<close> (\<^verbatim>\<open>transport/happyeyeballs.go\<close>): the select loop with time, attempts, lookups and cancellation as
  steps. \<^verbatim>\<open>Dns\<close> (\<^verbatim>\<open>dns\<close>): resolvers over datagrams, streams and HTTPS. \<^verbatim>\<open>DnsDialer\<close> composes the two: the dialer over a resolver,
  whose lookups run in parallel with the attempts.
\<close>

text \<open>
  \<^bold>\<open>Relays.\<close> \<^verbatim>\<open>PacketRelay\<close> states the contract of a packet sender as the locale \<open>packet_sender\<close>, which \<^verbatim>\<open>TimeoutRelay\<close>,
  \<^verbatim>\<open>ListenerRelay\<close> and \<^verbatim>\<open>DnsTruncate\<close> interpret; \<^verbatim>\<open>DnsIntercept\<close> has the reference counts of an intercepting association in every
  interleaving. \<^verbatim>\<open>LwipDevice\<close>, \<^verbatim>\<open>LwipSetup\<close>, \<^verbatim>\<open>LwipUdp\<close>, \<^verbatim>\<open>LwipProxy\<close> and \<^verbatim>\<open>LwipTcp\<close> (\<^verbatim>\<open>network/lwip2transport\<close>): the hand-over of
  packets between the stack and the reader of the device, the singleton device, the sessions of both UDP handlers, the TCP relay.

  \<^bold>\<open>Smart dialer\<close> (\<^verbatim>\<open>x/smart\<close>). \<^verbatim>\<open>SmartCache\<close>: the DNS cache, shown equal to a simple recency list. \<^verbatim>\<open>SmartRace\<close>: the race of tests.
  \<^verbatim>\<open>SmartDns\<close>: the test of a resolver. \<^verbatim>\<open>SmartStrategy\<close>: the search with its strategy cache; the race is used by its contract, the
  locales \<open>race_choice\<close> and \<open>prompt_race\<close>. \<^verbatim>\<open>SmartLog\<close>: its log, which is turned off after the search. \<^verbatim>\<open>SystemResolver\<close>: the
  resolvers of the operating system, under a DNS tunnel, and what a lookup that is given up leaves behind.

  \<^bold>\<open>Configurations\<close> (\<^verbatim>\<open>x/configurl\<close>). \<^verbatim>\<open>ConfigParse\<close>: texts to URLs and options. \<^verbatim>\<open>ConfigUrl\<close>: the builders and the registry; what they
  build is data. \<^verbatim>\<open>ConfigRegistry\<close>: registration of types. \<^verbatim>\<open>ConfigTypes\<close>: everything built is well-formed and nested as configured. \<^verbatim>\<open>ConfigSanitize\<close>: removal of secrets.

  \<^bold>\<open>DNS tunnel\<close> (\<^verbatim>\<open>x/dnstt\<close>). \<^verbatim>\<open>Dnstt\<close>: queries and their sizes. \<^verbatim>\<open>DnsttTransport\<close>: framing, polling and retries of the message
  transports. \<^verbatim>\<open>DnsttDialer\<close>: the shared session and who owns its transports. \<^verbatim>\<open>DnsttTunnel\<close>: the transport of a configuration.

  \<^bold>\<open>Proxies and clients.\<close> \<^verbatim>\<open>HttpProxy\<close>, \<^verbatim>\<open>HttpTunnel\<close> (\<^verbatim>\<open>x/httpproxy\<close>): the forwarding handlers and the CONNECT tunnel. \<^verbatim>\<open>MobileProxy\<close>
  (\<^verbatim>\<open>x/mobileproxy\<close>): the life cycle of the local proxy and the strategy cache of the platform (locale \<open>strategy_cache\<close>).
  \<^verbatim>\<open>PsiphonConfig\<close> (\<^verbatim>\<open>x/mobileproxy/psiphon\<close>): its parser of Psiphon configurations.
  \<^verbatim>\<open>Psiphon\<close> (\<^verbatim>\<open>x/psiphon\<close>): concurrent starts and stops. \<^verbatim>\<open>Turn\<close> (\<^verbatim>\<open>x/turn\<close>): what a failed step closes. \<^verbatim>\<open>Connectivity\<close>, \<^verbatim>\<open>Report\<close>
  (\<^verbatim>\<open>x/connectivity\<close>, \<^verbatim>\<open>x/report\<close>): the test of a resolver and the collectors of reports; \<^verbatim>\<open>WindowsErrno\<close>: the names of errors there. \<^verbatim>\<open>Soax\<close>, \<^verbatim>\<open>SysProxy\<close> (\<^verbatim>\<open>x/soax\<close>,
  \<^verbatim>\<open>x/sysproxy\<close>): the sessions of a proxy service, and the proxy settings of operating systems.

  \<^bold>\<open>Programs\<close> (\<^verbatim>\<open>x/examples\<close>, \<^verbatim>\<open>x/tools\<close>). \<^verbatim>\<open>OutlineCli\<close>: what a run of the command line client changes in the system and takes back.
  \<^verbatim>\<open>ConnectivityTool\<close>: the tests of \<^verbatim>\<open>test-connectivity\<close> and their status. \<^verbatim>\<open>NetTools\<close>: \<^verbatim>\<open>fetch\<close>, \<^verbatim>\<open>fetch-speed\<close> and \<^verbatim>\<open>resolve\<close>.
  \<^verbatim>\<open>Measure\<close>: the goroutines of \<^verbatim>\<open>measure\<close> and their channel. \<^verbatim>\<open>SmartProxyFile\<close>: the file cache of \<^verbatim>\<open>smart-proxy\<close>, an instance of the
  contract of \<^verbatim>\<open>MobileProxy\<close>.
\<close>

text \<open>
  \<^bold>\<open>What the lemmas show.\<close> For each component its invariant and that every operation keeps it, the result of each operation on
  each branch, and then: functional and refinement theorems (what goes over the wire), round trips (what one end writes the other
  reads), safety (nothing is closed twice, leaked, or accepted without a check), liveness and termination (what returns, and
  after how many steps), bounds (sizes, delays), and the error behaviour. Theorems that show a defect of the code are among them
  and say so in their text.

  \<^bold>\<open>Bounds and fuel.\<close> \<open>multi_copy\<close> is the loop of a copy that may not end (\<open>partial_function\<close>, no result when it does not); that it
  returns is a conjunct of its theorem. \<open>bound_reads\<close> and \<open>ws_reads\<close> take the sizes of the buffers of the calls; their theorems ask
  for more reads than the source has bytes and pieces, which is what a copy makes until the end. \<open>queryDatagram\<close> consumes the
  datagrams that arrive before the deadline. The runs of state machines take the list of events; liveness theorems give the
  steps that remain. All other recursion ends by the structure of its argument or by a measure that is proved.

  \<^bold>\<open>Parameters.\<close> Code that is not part of the repository is an argument of the definitions that use it, with its documented
  laws as hypotheses: the AEAD, hash and key derivation of Shadowsocks, x509 and TLS, parsing of IP texts and URLs, the DNS
  message codec, YAML, net/http, KCP, Noise and smux, TURN and DTLS, the Psiphon library, the lwIP stack, the operating system's
  sockets, commands and registry. Of gorilla/websocket the documented order of messages and errors is the model of the network end.

  \<^bold>\<open>Not modelled.\<close> The programs of \<^verbatim>\<open>x/examples\<close> and \<^verbatim>\<open>x/tools\<close> that only wire packages to a user interface, a web server or flags
  (the graphical ones, \<^verbatim>\<open>objc\<close>, \<^verbatim>\<open>connectivity-app\<close>, \<^verbatim>\<open>fetch-proxy\<close>, \<^verbatim>\<open>fetch-psiphon\<close>, \<^verbatim>\<open>run-mobileproxy\<close>, \<^verbatim>\<open>ws2endpoint\<close>,
  \<^verbatim>\<open>http2transport\<close>), the interfaces without code, the C code behind cgo, and the text of log lines. Deadlines and contexts are
  modelled where a component handles them (Happy Eyeballs, the races, relays, tunnels), not where a call only passes them on.
\<close>

end
